(* ===== verification/Prelude.thy ===== *)
theory Prelude
  imports Main "HOL-Library.Word"
begin

text \<open>
  Shared ground of the development: the ways a C++ operation of the server can go wrong, the
  result type that carries them, C strings, decimal printing and the conversions between
  \<open>size_t\<close> and \<open>int\<close>, with the lemmas and the named collections the component theories use.
\<close>

section \<open>Failures as values\<close>

text \<open>
  A debug build of the server (the flags are \<open>-g -O0\<close>, so \<open>assert\<close> is live) stops at a failed
  assertion; the other constructors are undefined behaviour of the language, one per kind the
  source can run into, \<open>LengthError\<close> is the exception of \<open>std::string::resize\<close>, and \<open>NoReturn\<close>
  stands for a call that never returns.
\<close>

datatype cpp_error =
    AssertionFailure
  | NullDereference
  | OutOfBounds
  | UseAfterFree
  | EraseEnd
  | BadFunctionCast
  | SignedOverflow
  | LengthError
  | NoReturn
  | UncaughtException
  | ProgramExit

type_synonym 'a res = "cpp_error + 'a"

definition bind_res :: "'a res \<Rightarrow> ('a \<Rightarrow> 'b res) \<Rightarrow> 'b res" where
  "bind_res m f = (case m of Inl e \<Rightarrow> Inl e | Inr x \<Rightarrow> f x)"

lemma bind_res_Inl [simp]: "bind_res (Inl e) f = Inl e"
  by (simp add: bind_res_def)

lemma bind_res_Inr [simp]: "bind_res (Inr x) f = f x"
  by (simp add: bind_res_def)

lemma bind_res_eq_Inr: "bind_res m f = Inr y \<longleftrightarrow> (\<exists>x. m = Inr x \<and> f x = Inr y)"
  by (cases m) auto

lemma bind_res_cong [fundef_cong]:
  "m = m' \<Longrightarrow> (\<And>x. m' = Inr x \<Longrightarrow> f x = g x) \<Longrightarrow> bind_res m f = bind_res m' g"
  by (cases m') auto

definition assert_res :: "bool \<Rightarrow> 'a res \<Rightarrow> 'a res" where
  "assert_res b r = (if b then r else Inl AssertionFailure)"

lemma assert_res_simps [simp]:
  "assert_res True r = r"
  "assert_res False r = Inl AssertionFailure"
  by (simp_all add: assert_res_def)

text \<open>The equations that evaluate one step of a machine.\<close>

named_theorems step_simps

section \<open>Characters and C strings\<close>

abbreviation NUL :: char where "NUL \<equiv> CHR 0x00"
abbreviation LF :: char where "LF \<equiv> CHR 0x0A"
abbreviation CR :: char where "CR \<equiv> CHR 0x0D"
abbreviation SP :: char where "SP \<equiv> CHR 0x20"

text \<open>What a C function sees of a buffer: the characters before the first NUL.\<close>

definition c_str :: "string \<Rightarrow> string" where
  "c_str s = takeWhile (\<lambda>c. c \<noteq> NUL) s"

lemma c_str_id: "NUL \<notin> set s \<Longrightarrow> c_str s = s"
  by (auto simp: c_str_def)

lemma c_str_no_NUL: "NUL \<notin> set (c_str s)"
  by (auto simp: c_str_def dest: set_takeWhileD)

lemma c_str_idem [simp]: "c_str (c_str s) = c_str s"
  by (simp add: c_str_id c_str_no_NUL)

lemma length_c_str: "length (c_str s) \<le> length s"
  by (simp add: c_str_def length_takeWhile_le)

lemma c_str_append_NUL: "NUL \<notin> set s \<Longrightarrow> c_str (s @ NUL # t) = s"
  by (induction s) (auto simp: c_str_def)

lemma take_c_str_no_NUL: "NUL \<notin> set (take n (c_str s))"
  using c_str_no_NUL in_set_takeD by fast

text \<open>
  \<open>snprintf(buf, cap, "%s", s)\<close>: what it writes into a buffer of capacity \<open>cap\<close>.
\<close>

definition snprintf_str :: "nat \<Rightarrow> string \<Rightarrow> string" where
  "snprintf_str cap s = (if cap = 0 then [] else take (cap - 1) (c_str s) @ [NUL])"

lemma length_snprintf_str: "0 < cap \<Longrightarrow> length (snprintf_str cap s) \<le> cap"
  by (simp add: snprintf_str_def)

lemma c_str_snprintf: "0 < cap \<Longrightarrow> c_str (snprintf_str cap s @ t) = take (cap - 1) (c_str s)"
  by (simp add: snprintf_str_def c_str_append_NUL take_c_str_no_NUL)

section \<open>Slices of a list\<close>

definition slice :: "nat \<Rightarrow> nat \<Rightarrow> 'a list \<Rightarrow> 'a list" where
  "slice i n xs = take n (drop i xs)"

lemma length_slice [simp]: "i + n \<le> length xs \<Longrightarrow> length (slice i n xs) = n"
  by (simp add: slice_def)

lemma slice_append_mid [simp]: "slice (length xs) (length ys) (xs @ ys @ zs) = ys"
  by (simp add: slice_def)

lemma slice_Nil [simp]: "slice i 0 xs = []"
  by (simp add: slice_def)

lemma nth_slice: "i + n \<le> length xs \<Longrightarrow> k < n \<Longrightarrow> slice i n xs ! k = xs ! (i + k)"
  by (simp add: slice_def)

lemma slice_eq_map_nth: "i + n \<le> length xs \<Longrightarrow> slice i n xs = map ((!) xs) [i..<i + n]"
  by (rule nth_equalityI) (simp_all add: nth_slice)

section \<open>Decimal printing\<close>

text \<open>\<open>std::to_string\<close> of an unsigned value, and \<open>operator<<\<close> of an integer.\<close>

definition digit_char :: "nat \<Rightarrow> char" where
  "digit_char d = char_of (48 + d)"

fun dec_of_nat :: "nat \<Rightarrow> string" where
  "dec_of_nat n =
     (if n < 10 then [digit_char n] else dec_of_nat (n div 10) @ [digit_char (n mod 10)])"

declare dec_of_nat.simps [simp del]

definition dec_of_int :: "int \<Rightarrow> string" where
  "dec_of_int i = (if i < 0 then CHR ''-'' # dec_of_nat (nat (- i)) else dec_of_nat (nat i))"

definition nat_of_dec :: "string \<Rightarrow> nat" where
  "nat_of_dec s = foldl (\<lambda>n c. 10 * n + (of_char c - 48)) 0 s"

lemma of_char_digit: "d < 10 \<Longrightarrow> (of_char (digit_char d) :: nat) = 48 + d"
  by (simp add: digit_char_def)

lemma nat_of_dec_snoc: "nat_of_dec (s @ [c]) = 10 * nat_of_dec s + (of_char c - 48)"
  by (simp add: nat_of_dec_def)

lemma nat_of_dec_of_nat [simp]: "nat_of_dec (dec_of_nat n) = n"
proof (induction n rule: dec_of_nat.induct)
  case (1 n)
  show ?case
  proof (cases "n < 10")
    case True
    then show ?thesis
      by (subst dec_of_nat.simps) (simp add: nat_of_dec_def of_char_digit)
  next
    case False
    then show ?thesis
      using 1 by (subst dec_of_nat.simps) (simp add: nat_of_dec_snoc of_char_digit)
  qed
qed

lemma dec_of_nat_digits: "\<forall>c \<in> set (dec_of_nat n). \<exists>d < 10. c = digit_char d"
proof (induction n rule: dec_of_nat.induct)
  case (1 n)
  have last: "\<exists>d < 10. digit_char (n mod 10) = digit_char d"
    by (rule exI [of _ "n mod 10"]) simp
  with 1 show ?case
    by (subst dec_of_nat.simps) (auto simp del: mod_less_divisor)
qed

lemma digit_char_not_ctrl: "d < 10 \<Longrightarrow> digit_char d \<noteq> CR \<and> digit_char d \<noteq> LF \<and> digit_char d \<noteq> NUL"
proof -
  assume "d < 10"
  then have "(of_char (digit_char d) :: nat) = 48 + d" by (rule of_char_digit)
  then show ?thesis by auto
qed

lemma dec_of_nat_not_ctrl: "CR \<notin> set (dec_of_nat n) \<and> LF \<notin> set (dec_of_nat n) \<and> NUL \<notin> set (dec_of_nat n)"
  using dec_of_nat_digits [of n] digit_char_not_ctrl by fastforce

section \<open>Conversions between the integer types\<close>

text \<open>
  \<open>int\<close> is a 32-bit word read with \<open>sint\<close>. \<open>size_t\<close> values are natural numbers (a
  string is never longer than the address space); storing one into an \<open>int\<close> keeps its low
  32 bits.
\<close>

type_synonym c_int = "32 word"

definition int_of_size :: "nat \<Rightarrow> c_int" where
  "int_of_size n = of_nat n"

lemma sint_int_of_size: "n < 2 ^ 31 \<Longrightarrow> sint (int_of_size n) = int n"
  by (simp add: int_of_size_def signed_of_nat signed_take_bit_int_eq_self)

lemma nat_sint_int_of_size: "n < 2 ^ 31 \<Longrightarrow> nat (sint (int_of_size n)) = n"
  by (simp add: sint_int_of_size)

lemma int_of_size_inj: "m < 2 ^ 31 \<Longrightarrow> n < 2 ^ 31 \<Longrightarrow> int_of_size m = int_of_size n \<longleftrightarrow> m = n"
  using sint_int_of_size by (metis of_nat_eq_iff)

lemma int_of_size_0 [simp]: "int_of_size 0 = 0"
  by (simp add: int_of_size_def)

end
