(* ===== verification/IP_End_Point.thy ===== *)
theory IP_End_Point
  imports Prelude
begin

text \<open>
  The IPv4 end point (\<open>server_core/ip_endpoint.h\<close>, \<open>ip_endpoint.cpp\<close>): a 20-byte character
  array with the address in dotted form and a 16-bit port. \<open>inet_addr\<close> of the platform is a
  parameter.
\<close>

section \<open>The end point\<close>

record ip_endpoint =
  m_ip :: string
  m_port :: "16 word"

definition ip_capacity :: nat where
  "ip_capacity = 20"

definition INADDR_NONE :: "32 word" where
  "INADDR_NONE = 0xFFFFFFFF"

text \<open>\<open>snprintf(m_ip, ARR_SIZE(m_ip), "%s", s)\<close> on the array \<open>old\<close>.\<close>

definition store_ip :: "string \<Rightarrow> string \<Rightarrow> string" where
  "store_ip s old = (let w = snprintf_str ip_capacity s in w @ drop (length w) old)"

definition IPEndPoint_default :: ip_endpoint where
  "IPEndPoint_default = \<lparr>m_ip = replicate ip_capacity NUL, m_port = 0\<rparr>"

text \<open>
  The constructors leave the rest of the array as the storage \<open>raw\<close> was. A \<open>const char*\<close> is
  \<open>None\<close> for NULL.
\<close>

definition IPEndPoint_cstr :: "(nat \<Rightarrow> char) \<Rightarrow> string option \<Rightarrow> 16 word \<Rightarrow> ip_endpoint res" where
  "IPEndPoint_cstr raw ip port =
     (case ip of
        None \<Rightarrow> Inl AssertionFailure
      | Some s \<Rightarrow> Inr \<lparr>m_ip = store_ip s (map raw [0..<ip_capacity]), m_port = port\<rparr>)"

definition IPEndPoint_str :: "(nat \<Rightarrow> char) \<Rightarrow> string \<Rightarrow> 16 word \<Rightarrow> ip_endpoint res" where
  "IPEndPoint_str raw ip port =
     assert_res (length ip > 0 \<and> length ip < ip_capacity - 1)
       (Inr \<lparr>m_ip = store_ip ip (map raw [0..<ip_capacity]), m_port = port\<rparr>)"

definition set_ip :: "string \<Rightarrow> ip_endpoint \<Rightarrow> ip_endpoint res" where
  "set_ip ip ep =
     assert_res (length ip > 0 \<and> length ip < ip_capacity - 1) (Inr (ep\<lparr>m_ip := store_ip ip (m_ip ep)\<rparr>))"

definition set_port :: "16 word \<Rightarrow> ip_endpoint \<Rightarrow> ip_endpoint" where
  "set_port port ep = ep\<lparr>m_port := port\<rparr>"

text \<open>\<open>ip()\<close> is the array as a C string.\<close>

definition ep_ip :: "ip_endpoint \<Rightarrow> string" where
  "ep_ip ep = c_str (m_ip ep)"

definition endpoint_IsValid :: "(string \<Rightarrow> 32 word) \<Rightarrow> ip_endpoint \<Rightarrow> bool" where
  "endpoint_IsValid inet_addr ep =
     (if inet_addr (ep_ip ep) = INADDR_NONE then False
      else if m_port ep = 0 then False
      else True)"

section \<open>The array is always a C string\<close>

definition endpoint_ok :: "ip_endpoint \<Rightarrow> bool" where
  "endpoint_ok ep \<longleftrightarrow> length (m_ip ep) = ip_capacity \<and> NUL \<in> set (m_ip ep)"

lemma length_store_ip: "length old = ip_capacity \<Longrightarrow> length (store_ip s old) = ip_capacity"
  by (simp add: store_ip_def Let_def snprintf_str_def ip_capacity_def)

lemma NUL_store_ip: "NUL \<in> set (store_ip s old)"
  by (simp add: store_ip_def Let_def snprintf_str_def ip_capacity_def)

lemma c_str_store_ip: "c_str (store_ip s old) = take 19 (c_str s)"
  by (simp add: store_ip_def Let_def c_str_snprintf ip_capacity_def)

lemma endpoint_ok_default: "endpoint_ok IPEndPoint_default"
  by (simp add: endpoint_ok_def IPEndPoint_default_def ip_capacity_def)

lemma endpoint_ok_cstr: "IPEndPoint_cstr raw ip port = Inr ep \<Longrightarrow> endpoint_ok ep"
  by (auto simp: IPEndPoint_cstr_def endpoint_ok_def length_store_ip NUL_store_ip split: option.splits)

lemma endpoint_ok_str: "IPEndPoint_str raw ip port = Inr ep \<Longrightarrow> endpoint_ok ep"
  by (auto simp: IPEndPoint_str_def assert_res_def endpoint_ok_def length_store_ip NUL_store_ip split: if_splits)

lemma endpoint_ok_set_ip: "endpoint_ok ep \<Longrightarrow> set_ip ip ep = Inr ep' \<Longrightarrow> endpoint_ok ep'"
  by (auto simp: set_ip_def assert_res_def endpoint_ok_def length_store_ip NUL_store_ip split: if_splits)

lemma endpoint_ok_set_port: "endpoint_ok ep \<Longrightarrow> endpoint_ok (set_port p ep)"
  by (simp add: set_port_def endpoint_ok_def)

lemma length_ep_ip: "endpoint_ok ep \<Longrightarrow> length (ep_ip ep) \<le> 19"
proof -
  assume ok: "endpoint_ok ep"
  then obtain us vs where s: "m_ip ep = us @ NUL # vs" "NUL \<notin> set us"
    by (auto simp: endpoint_ok_def dest: split_list_first)
  moreover from this ok have "length us < 20" by (simp add: endpoint_ok_def ip_capacity_def)
  ultimately show ?thesis by (simp add: ep_ip_def c_str_append_NUL)
qed

lemma ep_ip_cstr:
  "IPEndPoint_cstr raw (Some s) port = Inr ep \<Longrightarrow> ep_ip ep = take 19 (c_str s) \<and> m_port ep = port"
  by (auto simp: IPEndPoint_cstr_def ep_ip_def c_str_store_ip)

lemma IPEndPoint_str_ok:
  assumes "0 < length ip" and "length ip < 19"
  shows "\<exists>ep. IPEndPoint_str raw ip port = Inr ep \<and> ep_ip ep = c_str ip \<and> m_port ep = port \<and> endpoint_ok ep"
proof -
  have "length (c_str ip) \<le> 19" using assms length_c_str [of ip] by simp
  then show ?thesis
    using assms
    by (simp add: IPEndPoint_str_def ip_capacity_def ep_ip_def c_str_store_ip endpoint_ok_def NUL_store_ip
        length_store_ip [unfolded ip_capacity_def])
qed

section \<open>Properties\<close>

text \<open>
  The array never overflows and stays a C string: every end point a constructor or setter
  returns has exactly 20 bytes, one of them NUL, and shows an address of at most 19 characters.
\<close>

theorem endpoint_array_safe:
  "endpoint_ok IPEndPoint_default \<and>
   (case IPEndPoint_cstr raw ip port of Inl _ \<Rightarrow> ip = None | Inr ep \<Rightarrow> endpoint_ok ep \<and> length (ep_ip ep) \<le> 19) \<and>
   (case IPEndPoint_str raw s port of
      Inl e \<Rightarrow> e = AssertionFailure \<and> (s = [] \<or> 19 \<le> length s)
    | Inr ep \<Rightarrow> endpoint_ok ep \<and> length (ep_ip ep) \<le> 19 \<and> ep_ip ep = c_str s)"
proof -
  have 1: "case IPEndPoint_cstr raw ip port of Inl _ \<Rightarrow> ip = None | Inr ep \<Rightarrow> endpoint_ok ep \<and> length (ep_ip ep) \<le> 19"
    using endpoint_ok_cstr [of raw ip port] length_ep_ip
    by (auto simp: IPEndPoint_cstr_def split: sum.splits option.splits)
  have 2: "case IPEndPoint_str raw s port of
      Inl e \<Rightarrow> e = AssertionFailure \<and> (s = [] \<or> 19 \<le> length s)
    | Inr ep \<Rightarrow> endpoint_ok ep \<and> length (ep_ip ep) \<le> 19 \<and> ep_ip ep = c_str s"
  proof (cases "0 < length s \<and> length s < 19")
    case True
    then show ?thesis using IPEndPoint_str_ok [of s raw port] length_c_str [of s] by auto
  next
    case False
    then show ?thesis by (auto simp: IPEndPoint_str_def assert_res_def ip_capacity_def)
  qed
  show ?thesis using endpoint_ok_default 1 2 by blast
qed

definition reads_back :: "string \<Rightarrow> 16 word \<Rightarrow> ip_endpoint res \<Rightarrow> bool" where
  "reads_back ip port r \<longleftrightarrow>
     (case r of Inl _ \<Rightarrow> False | Inr ep \<Rightarrow> ep_ip ep = ip \<and> m_port ep = port \<and> endpoint_ok ep)"

text \<open>
  Setting and reading back: \<open>set_ip\<close> accepts exactly the strings of 1 to 18 characters and
  then the address reads back as the string up to its first NUL, with the port kept;
  \<open>set_port\<close> keeps the address; copying an end point through the \<open>const char*\<close> constructor, as
  the listener does, keeps both.
\<close>

theorem endpoint_set_get:
  assumes "endpoint_ok ep"
  shows "(if 0 < length s \<and> length s < 19 then reads_back (c_str s) (m_port ep) (set_ip s ep)
          else set_ip s ep = Inl AssertionFailure) \<and>
    reads_back (ep_ip ep) p (Inr (set_port p ep)) \<and>
    reads_back (ep_ip ep) (m_port ep) (IPEndPoint_cstr raw (Some (ep_ip ep)) (m_port ep))"
proof -
  have "length (c_str s) \<le> 19" if "length s < 19" using that length_c_str [of s] by simp
  then have "if 0 < length s \<and> length s < 19 then reads_back (c_str s) (m_port ep) (set_ip s ep)
          else set_ip s ep = Inl AssertionFailure"
    using endpoint_ok_set_ip [OF assms, of s]
    by (auto simp: reads_back_def set_ip_def ip_capacity_def ep_ip_def c_str_store_ip)
  moreover have "reads_back (ep_ip ep) p (Inr (set_port p ep))"
    using assms by (simp add: reads_back_def endpoint_ok_set_port) (simp add: set_port_def ep_ip_def)
  moreover have "reads_back (ep_ip ep) (m_port ep) (IPEndPoint_cstr raw (Some (ep_ip ep)) (m_port ep))"
    using length_ep_ip [OF assms] endpoint_ok_cstr [of raw "Some (ep_ip ep)" "m_port ep"]
    by (simp add: reads_back_def IPEndPoint_cstr_def ep_ip_def c_str_store_ip)
  ultimately show ?thesis by blast
qed

theorem endpoint_set_get_witness:
  "reads_back ''127.0.0.1'' 0 (set_ip ''127.0.0.1'' IPEndPoint_default) \<and>
   set_ip ''2001:0db8:0000:0000'' IPEndPoint_default = Inl AssertionFailure"
  using endpoint_set_get [OF endpoint_ok_default, of "''127.0.0.1''"]
    endpoint_set_get [OF endpoint_ok_default, of "''2001:0db8:0000:0000''"]
  by (simp add: c_str_def IPEndPoint_default_def)

text \<open>
  An end point is valid exactly when its address converts and its port is not 0; the default
  one is not, whatever the platform converts, and becomes valid by setting a convertible address
  and a port.
\<close>

theorem endpoint_valid_iff:
  "(endpoint_IsValid inet_addr ep \<longleftrightarrow> inet_addr (ep_ip ep) \<noteq> INADDR_NONE \<and> m_port ep \<noteq> 0) \<and>
   \<not> endpoint_IsValid inet_addr IPEndPoint_default \<and>
   (case set_ip s IPEndPoint_default of
      Inl _ \<Rightarrow> s = [] \<or> 19 \<le> length s
    | Inr ep' \<Rightarrow> endpoint_IsValid inet_addr (set_port p ep') \<longleftrightarrow> inet_addr (c_str s) \<noteq> INADDR_NONE \<and> p \<noteq> 0)"
proof -
  have iff: "endpoint_IsValid inet_addr e \<longleftrightarrow> inet_addr (ep_ip e) \<noteq> INADDR_NONE \<and> m_port e \<noteq> 0" for e
    by (simp add: endpoint_IsValid_def)
  have "length (c_str s) \<le> 19" if "length s < 19" using that length_c_str [of s] by simp
  then show ?thesis
    by (auto simp: iff set_ip_def assert_res_def ip_capacity_def IPEndPoint_default_def set_port_def
        ep_ip_def c_str_store_ip)
qed

end
