(* ===== verification/Sockets.thy ===== *)
theory Sockets
  imports IP_End_Point
begin

unbundle bit_operations_syntax

text \<open>
  The socket classes on the UNIX side (\<open>socket/socket.h\<close>, \<open>socket.cpp\<close>, \<open>tcp_socket.cpp\<close>,
  \<open>tcp_listener.cpp\<close>). An object is its descriptor. The kernel is outside: an operation takes
  what its system call returns and yields, beside its own result, the list of system calls it
  made. Each \<open>err\<close> parameter, where the caller passes one, receives the \<open>errno\<close> argument.
\<close>

section \<open>System calls\<close>

datatype ShutDownCode = READ | WRITE | BOTH

record sockaddr_in =
  sin_port :: "16 word"
  s_addr :: "32 word"

datatype syscall =
    SysSocket
  | SysBind c_int sockaddr_in
  | SysListen c_int int
  | SysAccept c_int
  | SysSend c_int string
  | SysRecv c_int int
  | SysShutdown c_int ShutDownCode
  | SysClose c_int

text \<open>The descriptors a trace of system calls asks the kernel to close.\<close>

fun closes :: "syscall list \<Rightarrow> c_int list" where
  "closes [] = []"
| "closes (SysClose h # t) = h # closes t"
| "closes (_ # t) = closes t"

lemma closes_append [simp]: "closes (s @ t) = closes s @ closes t"
  by (induction s rule: closes.induct) simp_all

section \<open>Socket\<close>

record sock =
  m_socket :: c_int

definition kInvalidSocket :: c_int where
  "kInvalidSocket = - 1"

definition InitSockets :: int where "InitSockets = 0"
definition UninitSockets :: int where "UninitSockets = 0"

definition Socket :: sock where
  "Socket = \<lparr>m_socket = kInvalidSocket\<rparr>"

definition Close :: "c_int \<Rightarrow> 'a sock_scheme \<Rightarrow> bool \<times> 'a sock_scheme \<times> syscall list" where
  "Close rc s = (sint rc > -1, s\<lparr>m_socket := kInvalidSocket\<rparr>, [SysClose (m_socket s)])"

definition ShutDown :: "ShutDownCode \<Rightarrow> c_int \<Rightarrow> 'a sock_scheme \<Rightarrow> bool \<times> syscall list" where
  "ShutDown code rc s = (rc \<noteq> 0, [SysShutdown (m_socket s) code])"

definition OpenHelper :: "c_int \<Rightarrow> 'a sock_scheme \<Rightarrow> bool \<times> 'a sock_scheme \<times> syscall list" where
  "OpenHelper fd s = (fd \<noteq> kInvalidSocket, s\<lparr>m_socket := fd\<rparr>, [SysSocket])"

text \<open>The destructor: shut down, then close.\<close>

definition destroy_Socket :: "c_int \<Rightarrow> c_int \<Rightarrow> 'a sock_scheme \<Rightarrow> syscall list" where
  "destroy_Socket rc_shutdown rc_close s =
     snd (ShutDown BOTH rc_shutdown s) @ snd (snd (Close rc_close s))"

section \<open>TcpSocket\<close>

definition TcpSocket :: "c_int \<Rightarrow> sock" where
  "TcpSocket sockFd = Socket\<lparr>m_socket := sockFd\<rparr>"

definition TcpSocket_Open :: "c_int \<Rightarrow> 'a sock_scheme \<Rightarrow> bool \<times> 'a sock_scheme \<times> syscall list" where
  "TcpSocket_Open fd s = OpenHelper fd s"

definition TcpSocket_Send :: "int \<Rightarrow> string \<Rightarrow> 'a sock_scheme \<Rightarrow> int \<times> syscall list" where
  "TcpSocket_Send rc data s = (rc, [SysSend (m_socket s) data])"

definition TcpSocket_Receive :: "int \<Rightarrow> int \<Rightarrow> 'a sock_scheme \<Rightarrow> int \<times> syscall list" where
  "TcpSocket_Receive rc sizeBytes s = (rc, [SysRecv (m_socket s) sizeBytes])"

section \<open>TcpListener\<close>

record tcp_listener = sock +
  m_ep :: ip_endpoint

definition EINVAL :: int where "EINVAL = 22"

text \<open>\<open>htons\<close> on a little-endian host swaps the two bytes.\<close>

definition htons :: "16 word \<Rightarrow> 16 word" where
  "htons p = push_bit 8 p OR drop_bit 8 p"

text \<open>The listener copies the end point through the constructor from \<open>const char*\<close> and port.\<close>

definition TcpListener :: "(nat \<Rightarrow> char) \<Rightarrow> ip_endpoint \<Rightarrow> tcp_listener res" where
  "TcpListener raw ep =
     bind_res (IPEndPoint_cstr raw (Some (ep_ip ep)) (m_port ep)) (\<lambda>ep'.
       Inr \<lparr>m_socket = kInvalidSocket, m_ep = ep'\<rparr>)"

definition bind_addr :: "(string \<Rightarrow> 32 word) \<Rightarrow> ip_endpoint \<Rightarrow> sockaddr_in" where
  "bind_addr inet_addr ep = \<lparr>sin_port = htons (m_port ep), s_addr = inet_addr (ep_ip ep)\<rparr>"

text \<open>The result, the value for \<open>*err\<close> and the system calls; an invalid end point makes none.\<close>

definition Bind :: "(string \<Rightarrow> 32 word) \<Rightarrow> int \<Rightarrow> int \<Rightarrow> tcp_listener \<Rightarrow> bool \<times> int \<times> syscall list" where
  "Bind inet_addr rc errno l =
     (if \<not> endpoint_IsValid inet_addr (m_ep l) then (False, EINVAL, [])
      else (rc = 0, errno, [SysBind (m_socket l) (bind_addr inet_addr (m_ep l))]))"

definition Listen :: "int \<Rightarrow> int \<Rightarrow> tcp_listener \<Rightarrow> bool \<times> syscall list" where
  "Listen maxListeners rc l = (rc = 0, [SysListen (m_socket l) maxListeners])"

definition Accept :: "c_int \<Rightarrow> 'a sock_scheme \<Rightarrow> c_int \<times> syscall list" where
  "Accept acceptedSock l = (acceptedSock, [SysAccept (m_socket l)])"

section \<open>Properties\<close>

lemmas socket_defs = Close_def ShutDown_def OpenHelper_def destroy_Socket_def TcpSocket_def
  TcpSocket_Open_def Socket_def

lemma TcpListener_ok:
  "endpoint_ok ep \<Longrightarrow> \<exists>l. TcpListener raw ep = Inr l \<and> m_socket l = kInvalidSocket \<and>
    ep_ip (m_ep l) = ep_ip ep \<and> m_port (m_ep l) = m_port ep"
  using length_ep_ip [of ep]
  by (simp add: TcpListener_def IPEndPoint_cstr_def ep_ip_def c_str_store_ip)

lemma htons_htons: "htons (htons p) = p"
  unfolding htons_def
  by (rule bit_eqI) (auto simp: bit_simps)

text \<open>
  A descriptor is given up exactly once: closing a socket and destroying it afterwards asks
  the kernel to close its descriptor one time, and the destructor's second close is for the
  invalid descriptor, so a number the kernel has reused in between is not closed.
\<close>

theorem close_then_destroy:
  assumes "fd \<noteq> kInvalidSocket"
  shows "case Close rc (TcpSocket fd) of (ok, s, calls) \<Rightarrow>
    ok = (0 \<le> sint rc) \<and> m_socket s = kInvalidSocket \<and>
    closes (calls @ destroy_Socket rc1 rc2 s) = [fd, kInvalidSocket] \<and>
    count_list (closes (calls @ destroy_Socket rc1 rc2 s)) fd = 1"
  using assms by (auto simp: socket_defs)

theorem close_then_destroy_witness:
  "case Close 0 (TcpSocket 7) of (ok, s, calls) \<Rightarrow>
    ok \<and> closes (calls @ destroy_Socket (-1) (-1) s) = [7, kInvalidSocket]"
  using close_then_destroy [of 7 0 "-1" "-1"] by (auto simp: kInvalidSocket_def split: prod.splits)

text \<open>
  \<open>Bind\<close> passes the kernel the listener's own descriptor with the port in network order,
  which converts back to the port, and the converted address, and only for a valid end point;
  otherwise it fails with \<open>EINVAL\<close> before any system call.
\<close>

theorem Bind_address:
  assumes "endpoint_ok ep" and "TcpListener raw ep = Inr l"
  shows "if inet_addr (ep_ip ep) \<noteq> INADDR_NONE \<and> m_port ep \<noteq> 0
    then \<exists>a. Bind inet_addr rc errno l = (rc = 0, errno, [SysBind (m_socket l) a]) \<and>
      htons (sin_port a) = m_port ep \<and> s_addr a = inet_addr (ep_ip ep)
    else Bind inet_addr rc errno l = (False, EINVAL, [])"
proof -
  have "ep_ip (m_ep l) = ep_ip ep" "m_port (m_ep l) = m_port ep"
    using TcpListener_ok [OF assms(1), of raw] assms(2) by auto
  then show ?thesis
    by (auto simp: Bind_def endpoint_IsValid_def bind_addr_def htons_htons)
qed

theorem Bind_address_witness:
  "\<exists>l a. TcpListener (\<lambda>_. NUL) (set_port 8080 IPEndPoint_default) = Inr l \<and>
    Bind (\<lambda>_. 0) 0 0 l = (True, 0, [SysBind (m_socket l) a]) \<and> htons (sin_port a) = 8080"
proof -
  let ?ep = "set_port 8080 IPEndPoint_default"
  have ok: "endpoint_ok ?ep" by (rule endpoint_ok_set_port [OF endpoint_ok_default])
  obtain l where "TcpListener (\<lambda>_. NUL) ?ep = Inr l" using TcpListener_ok [OF ok] by blast
  with Bind_address [OF ok this, of "\<lambda>_. 0" 0 0] show ?thesis
    by (auto simp: INADDR_NONE_def set_port_def)
qed

end
