(* ===== verification/Logger.thy ===== *)
theory Logger
  imports Prelude
begin

text \<open>
  Logging: the host's \<open>Logger\<close> and \<open>Log\<close> (\<open>base/logger.h\<close>, \<open>logger.cpp\<close>), the system queries it
  prints at start (\<open>base/os_info_unix.cpp\<close>) and the plugin side \<open>PluginLog\<close>
  (\<open>plugin_api/plugin_log.cpp\<close>). The streams are the texts written to them so far.
\<close>

section \<open>The host's log\<close>

datatype LogSeverity = VERBOSE | INFO | WARN | ERR

text \<open>The enumerators in the order of their values.\<close>

fun severity_value :: "LogSeverity \<Rightarrow> nat" where
  "severity_value VERBOSE = 0"
| "severity_value INFO = 1"
| "severity_value WARN = 2"
| "severity_value ERR = 3"

lemma severity_value_inj: "severity_value a = severity_value b \<longleftrightarrow> a = b"
  by (cases a; cases b) simp_all

instantiation LogSeverity :: linorder
begin

definition less_eq_LogSeverity :: "LogSeverity \<Rightarrow> LogSeverity \<Rightarrow> bool" where
  "less_eq_LogSeverity a b = (severity_value a \<le> severity_value b)"

definition less_LogSeverity :: "LogSeverity \<Rightarrow> LogSeverity \<Rightarrow> bool" where
  "less_LogSeverity a b = (severity_value a < severity_value b)"

instance
  by standard (auto simp: less_eq_LogSeverity_def less_LogSeverity_def severity_value_inj)

end

fun level :: "LogSeverity \<Rightarrow> string" where
  "level VERBOSE = ''VERBOSE''"
| "level INFO = ''INFO''"
| "level WARN = ''WARN''"
| "level ERR = ''ERROR''"

datatype sink = Cout | LogFile string

record logger =
  m_out :: sink
  m_deleteOut :: bool

text \<open>The static pointer \<open>m_logger\<close> and what \<open>std::cout\<close>, \<open>std::cerr\<close> and the opened files hold.\<close>

record log_state =
  m_logger :: "logger option"
  cout :: string
  cerr :: string
  log_file :: "string \<Rightarrow> string"

definition GetLogger :: "log_state \<Rightarrow> logger res" where
  "GetLogger st = (case m_logger st of None \<Rightarrow> Inl AssertionFailure | Some l \<Rightarrow> Inr l)"

fun write_sink :: "sink \<Rightarrow> string \<Rightarrow> log_state \<Rightarrow> log_state" where
  "write_sink Cout s st = st\<lparr>cout := cout st @ s\<rparr>"
| "write_sink (LogFile f) s st = st\<lparr>log_file := (log_file st)(f := log_file st f @ s)\<rparr>"

text \<open>\<open>Logger::Stream() << s\<close>, and \<open>Log(sev) << msg\<close>: a line end, the level and the message.\<close>

definition put :: "string \<Rightarrow> log_state \<Rightarrow> log_state res" where
  "put s st = bind_res (GetLogger st) (\<lambda>l. Inr (write_sink (m_out l) s st))"

definition Log :: "LogSeverity \<Rightarrow> log_state \<Rightarrow> log_state res" where
  "Log sev st = put (LF # level sev @ '': '') st"

definition log_msg :: "LogSeverity \<Rightarrow> string \<Rightarrow> log_state \<Rightarrow> log_state res" where
  "log_msg sev msg st = bind_res (Log sev st) (put msg)"

section \<open>System information\<close>

text \<open>
  \<open>uname\<close>, \<open>sysconf\<close> and the kernel version file are the platform's: their results are inputs.
  \<open>QueryMemory\<close> multiplies two \<open>long long\<close> values; a product that does not fit is undefined.
\<close>

record sys_info =
  uname_sysname :: "string option"
  uname_machine :: "string option"
  kernel_version :: "string option"
  sys_errno :: int
  phys_pages :: int
  avphys_pages :: int
  pagesize :: int

definition OSName :: "sys_info \<Rightarrow> log_state \<Rightarrow> (string \<times> log_state) res" where
  "OSName i st =
     (case uname_sysname i of
        Some n \<Rightarrow> Inr (n, st)
      | None \<Rightarrow> bind_res (log_msg WARN (''Didn't query OS name: '' @ dec_of_int (sys_errno i)) st)
          (\<lambda>st'. Inr ([], st')))"

definition OSVersion :: "sys_info \<Rightarrow> string" where
  "OSVersion i = (case kernel_version i of None \<Rightarrow> [] | Some v \<Rightarrow> v)"

definition OSArch :: "sys_info \<Rightarrow> log_state \<Rightarrow> (string \<times> log_state) res" where
  "OSArch i st =
     (case uname_machine i of
        Some n \<Rightarrow> Inr (n, st)
      | None \<Rightarrow> bind_res (log_msg WARN (''Didn't get proc arch '' @ dec_of_int (sys_errno i)) st)
          (\<lambda>st'. Inr ([], st')))"

definition QueryMemory :: "int \<Rightarrow> sys_info \<Rightarrow> log_state \<Rightarrow> (int \<times> log_state) res" where
  "QueryMemory pages i st =
     (if pages < 0 \<or> pagesize i < 0
      then bind_res (log_msg WARN (''Didn't query RAM '' @ dec_of_int (sys_errno i)) st)
             (\<lambda>st'. Inr (0, st'))
      else if pages * pagesize i \<ge> 2 ^ 63 then Inl SignedOverflow
      else Inr (pages * pagesize i, st))"

definition RAMInstalledMB :: "sys_info \<Rightarrow> log_state \<Rightarrow> (int \<times> log_state) res" where
  "RAMInstalledMB i st = bind_res (QueryMemory (phys_pages i) i st) (\<lambda>(b, st'). Inr (b div 1024 div 1024, st'))"

definition RAMAvailableMB :: "sys_info \<Rightarrow> log_state \<Rightarrow> (int \<times> log_state) res" where
  "RAMAvailableMB i st = bind_res (QueryMemory (avphys_pages i) i st) (\<lambda>(b, st'). Inr (b div 1024 div 1024, st'))"

section \<open>Starting and stopping the log\<close>

text \<open>
  The operands of the \<open><<\<close> chain are taken from left to right; C++11 leaves the order of the
  queries among themselves open, which shows only when a query fails and logs a warning.
\<close>

definition LogProgramInfo :: "sys_info \<Rightarrow> log_state \<Rightarrow> log_state res" where
  "LogProgramInfo i st =
     bind_res (Log INFO st) (\<lambda>st.
     bind_res (put (''Basic info:'' @ [LF] @ ''Executable: mod_server'' @ [LF] @
                    ''Version: 0.0.1'' @ [LF] @ ''OS: '') st) (\<lambda>st.
     bind_res (OSName i st) (\<lambda>(name, st).
     bind_res (put (name @ [LF] @ ''OS Version: '' @ OSVersion i @ [LF] @ ''Arch: '') st) (\<lambda>st.
     bind_res (OSArch i st) (\<lambda>(arch, st).
     bind_res (put (arch @ [LF] @ ''Memory: '') st) (\<lambda>st.
     bind_res (RAMInstalledMB i st) (\<lambda>(ram, st).
     bind_res (put (dec_of_int ram @ ''MB, (avail: '') st) (\<lambda>st.
     bind_res (RAMAvailableMB i st) (\<lambda>(avail, st).
       put (dec_of_int avail @ '' MB)'') st)))))))))"

text \<open>\<open>strftime\<close> with \<open>%d%m%y_%H%M\<close>: two digits each for day, month, year, hour and minute.\<close>

definition two_digits :: "nat \<Rightarrow> string" where
  "two_digits n = [digit_char (n div 10 mod 10), digit_char (n mod 10)]"

record tm =
  tm_mday :: nat
  tm_mon :: nat
  tm_year :: nat
  tm_hour :: nat
  tm_min :: nat

definition FormFileName :: "tm \<Rightarrow> string" where
  "FormFileName t =
     ''sthttps_'' @ two_digits (tm_mday t) @ two_digits (Suc (tm_mon t)) @ two_digits (tm_year t) @
     ''_'' @ two_digits (tm_hour t) @ two_digits (tm_min t) @ ''.log''"

text \<open>
  \<open>InitLog\<close>: \<open>can_open\<close> says whether the stream opens; an opened log file starts empty.
\<close>

definition InitLog :: "bool \<Rightarrow> tm \<Rightarrow> (string \<Rightarrow> bool) \<Rightarrow> sys_info \<Rightarrow> log_state \<Rightarrow> (bool \<times> log_state) res" where
  "InitLog logToFile now can_open i st =
     (if logToFile then
        (let fileName = FormFileName now in
         if can_open fileName
         then bind_res (LogProgramInfo i
                (st\<lparr>log_file := (log_file st)(fileName := []),
                    m_logger := Some \<lparr>m_out = LogFile fileName, m_deleteOut = True\<rparr>\<rparr>))
                (\<lambda>st'. Inr (True, st'))
         else Inr (False, st))
      else bind_res (LogProgramInfo i (st\<lparr>m_logger := Some \<lparr>m_out = Cout, m_deleteOut = False\<rparr>\<rparr>))
             (\<lambda>st'. Inr (True, st')))"

definition UninitLog :: "log_state \<Rightarrow> log_state" where
  "UninitLog st = st\<lparr>m_logger := None\<rparr>"

section \<open>The plugin's log\<close>

text \<open>
  The plugin's static \<open>LogFn\<close> is NULL or the host's \<open>Log\<close>, the only function the host ever
  registers. Without it messages go to \<open>std::cerr\<close>, with neither line end nor level.
\<close>

type_synonym log_line = "LogSeverity \<times> string"

datatype log_fn = HostLog

definition RegisterLogFn :: "log_fn option \<Rightarrow> log_fn option \<Rightarrow> log_fn option" where
  "RegisterLogFn logFn LogFn = logFn"

definition PluginLog :: "log_fn option \<Rightarrow> log_line \<Rightarrow> log_state \<Rightarrow> log_state res" where
  "PluginLog LogFn l st =
     (case LogFn of
        Some HostLog \<Rightarrow> log_msg (fst l) (snd l) st
      | None \<Rightarrow> Inr (st\<lparr>cerr := cerr st @ snd l\<rparr>))"

fun log_all :: "log_line list \<Rightarrow> log_state \<Rightarrow> log_state res" where
  "log_all [] st = Inr st"
| "log_all (l # ls) st = bind_res (log_msg (fst l) (snd l) st) (log_all ls)"

fun plugin_log_all :: "log_fn option \<Rightarrow> log_line list \<Rightarrow> log_state \<Rightarrow> log_state res" where
  "plugin_log_all f [] st = Inr st"
| "plugin_log_all f (l # ls) st = bind_res (PluginLog f l st) (plugin_log_all f ls)"

section \<open>What is written\<close>

definition log_line_text :: "log_line \<Rightarrow> string" where
  "log_line_text l = LF # level (fst l) @ '': '' @ snd l"

fun sink_text :: "sink \<Rightarrow> log_state \<Rightarrow> string" where
  "sink_text Cout st = cout st"
| "sink_text (LogFile f) st = log_file st f"

text \<open>Two log states that differ at most in what the logger's stream holds.\<close>

definition same_but_sink :: "sink \<Rightarrow> log_state \<Rightarrow> log_state \<Rightarrow> bool" where
  "same_but_sink k st st' \<longleftrightarrow>
     m_logger st' = m_logger st \<and> cerr st' = cerr st \<and> (\<forall>k'. k' \<noteq> k \<longrightarrow> sink_text k' st' = sink_text k' st)"

lemma same_but_sink_refl: "same_but_sink k st st"
  by (simp add: same_but_sink_def)

lemma same_but_sink_trans:
  "same_but_sink k a b \<Longrightarrow> same_but_sink k b c \<Longrightarrow> same_but_sink k a c"
  by (simp add: same_but_sink_def)

lemma m_logger_write [simp]: "m_logger (write_sink k s st) = m_logger st"
  by (cases k) simp_all

lemma write_sink_append: "write_sink k t (write_sink k s st) = write_sink k (s @ t) st"
  by (cases k) simp_all

lemma sink_text_write: "sink_text k (write_sink k s st) = sink_text k st @ s"
  by (cases k) simp_all

lemma same_but_sink_write: "same_but_sink k st (write_sink k s st)"
proof -
  have "sink_text k' (write_sink k s st) = sink_text k' st" if "k' \<noteq> k" for k'
    using that by (cases k; cases k') auto
  then show ?thesis by (cases k) (auto simp: same_but_sink_def)
qed

lemma put_ok: "m_logger st = Some l \<Longrightarrow> put s st = Inr (write_sink (m_out l) s st)"
  by (simp add: put_def GetLogger_def)

lemma log_msg_ok:
  "m_logger st = Some l \<Longrightarrow> log_msg sev m st = Inr (write_sink (m_out l) (log_line_text (sev, m)) st)"
  by (simp add: log_msg_def Log_def put_ok write_sink_append log_line_text_def)

lemma log_msg_uninit: "m_logger st = None \<Longrightarrow> log_msg sev m st = Inl AssertionFailure"
  by (simp add: log_msg_def Log_def put_def GetLogger_def)

lemma log_all_ok:
  "m_logger st = Some l \<Longrightarrow> log_all ls st = Inr (write_sink (m_out l) (concat (map log_line_text ls)) st)"
proof (induction ls arbitrary: st)
  case Nil
  show ?case by (cases "m_out l") simp_all
next
  case (Cons a ls)
  then show ?case by (simp add: log_msg_ok write_sink_append)
qed

lemma plugin_log_all_host: "plugin_log_all (Some HostLog) ls = log_all ls"
  by (induction ls) (auto intro!: ext simp: PluginLog_def)

lemma plugin_log_all_cerr: "plugin_log_all None ls st = Inr (st\<lparr>cerr := cerr st @ concat (map snd ls)\<rparr>)"
  by (induction ls arbitrary: st) (simp_all add: PluginLog_def)

section \<open>Starting the log\<close>

definition memory_fits :: "sys_info \<Rightarrow> bool" where
  "memory_fits i \<longleftrightarrow> phys_pages i * pagesize i < 2 ^ 63 \<and> avphys_pages i * pagesize i < 2 ^ 63"

text \<open>An operation of the log that keeps the logger and only appends to its stream.\<close>

definition appends :: "logger \<Rightarrow> log_state \<Rightarrow> log_state \<Rightarrow> bool" where
  "appends l st st' \<longleftrightarrow> m_logger st' = Some l \<and> (\<exists>s. st' = write_sink (m_out l) s st)"

lemma appends_write: "m_logger st = Some l \<Longrightarrow> appends l st (write_sink (m_out l) s st)"
  by (auto simp: appends_def)

lemma appends_trans: "appends l a b \<Longrightarrow> appends l b c \<Longrightarrow> appends l a c"
  by (auto simp: appends_def write_sink_append)

lemma appends_refl: "m_logger st = Some l \<Longrightarrow> appends l st st"
  by (cases "m_out l") (auto simp: appends_def intro: exI [of _ "[]"])

lemma OSName_appends:
  "m_logger st = Some l \<Longrightarrow> \<exists>n st'. OSName i st = Inr (n, st') \<and> appends l st st'"
  by (cases "uname_sysname i") (auto simp: OSName_def log_msg_ok appends_write appends_refl)

lemma OSArch_appends:
  "m_logger st = Some l \<Longrightarrow> \<exists>n st'. OSArch i st = Inr (n, st') \<and> appends l st st'"
  by (cases "uname_machine i") (auto simp: OSArch_def log_msg_ok appends_write appends_refl)

lemma QueryMemory_appends:
  "m_logger st = Some l \<Longrightarrow> p * pagesize i < 2 ^ 63 \<Longrightarrow>
    \<exists>n st'. QueryMemory p i st = Inr (n, st') \<and> appends l st st'"
  by (auto simp: QueryMemory_def log_msg_ok appends_write appends_refl)

lemma LogProgramInfo_appends:
  assumes l: "m_logger st = Some l" and m: "memory_fits i"
  shows "\<exists>st'. LogProgramInfo i st = Inr st' \<and> appends l st st'"
proof -
  have put: "\<exists>st'. put s x = Inr st' \<and> appends l st st'" if "appends l st x" for s x
    using that appends_write appends_trans put_ok by (metis appends_def)
  have chain: "m_logger x = Some l" if "appends l st x" for x using that by (simp add: appends_def)
  obtain a where a: "Log INFO st = Inr a" "appends l st a"
    using put [OF appends_refl [OF l]] unfolding Log_def by blast
  obtain b where b: "put (''Basic info:'' @ [LF] @ ''Executable: mod_server'' @ [LF] @
      ''Version: 0.0.1'' @ [LF] @ ''OS: '') a = Inr b" "appends l st b" using put [OF a(2)] by blast
  obtain nm c where c: "OSName i b = Inr (nm, c)" "appends l st c"
    using OSName_appends [OF chain [OF b(2)]] appends_trans [OF b(2)] by blast
  obtain d where d: "put (nm @ [LF] @ ''OS Version: '' @ OSVersion i @ [LF] @ ''Arch: '') c = Inr d"
      "appends l st d" using put [OF c(2)] by blast
  obtain ar e where e: "OSArch i d = Inr (ar, e)" "appends l st e"
    using OSArch_appends [OF chain [OF d(2)]] appends_trans [OF d(2)] by blast
  obtain f where f: "put (ar @ [LF] @ ''Memory: '') e = Inr f" "appends l st f"
    using put [OF e(2)] by blast
  obtain r g where g: "QueryMemory (phys_pages i) i f = Inr (r, g)" "appends l st g"
    using QueryMemory_appends [OF chain [OF f(2)]] appends_trans [OF f(2)] m memory_fits_def by blast
  obtain h where h: "put (dec_of_int (r div 1024 div 1024) @ ''MB, (avail: '') g = Inr h" "appends l st h"
    using put [OF g(2)] by blast
  obtain v k where k: "QueryMemory (avphys_pages i) i h = Inr (v, k)" "appends l st k"
    using QueryMemory_appends [OF chain [OF h(2)]] appends_trans [OF h(2)] m memory_fits_def by blast
  obtain z where "put (dec_of_int (v div 1024 div 1024) @ '' MB)'') k = Inr z" "appends l st z"
    using put [OF k(2)] by blast
  with a b c d e f g h k show ?thesis
    by (simp add: LogProgramInfo_def RAMInstalledMB_def RAMAvailableMB_def)
qed

lemma InitLog_ok:
  assumes "memory_fits i"
  shows "\<exists>b st'. InitLog logToFile now can_open i st = Inr (b, st') \<and>
    b = (logToFile \<longrightarrow> can_open (FormFileName now)) \<and>
    (if b then map_option m_out (m_logger st') = Some (if logToFile then LogFile (FormFileName now) else Cout)
     else st' = st)"
proof -
  let ?f = "\<lparr>m_out = LogFile (FormFileName now), m_deleteOut = True\<rparr>"
  let ?c = "\<lparr>m_out = Cout, m_deleteOut = False\<rparr>"
  have start: "\<exists>st'. LogProgramInfo i x = Inr st' \<and> m_logger st' = Some l" if "m_logger x = Some l" for x l
    using LogProgramInfo_appends [OF that assms] by (auto simp: appends_def)
  show ?thesis
    using start [of "st\<lparr>log_file := (log_file st)(FormFileName now := []), m_logger := Some ?f\<rparr>" ?f]
      start [of "st\<lparr>m_logger := Some ?c\<rparr>" ?c]
    by (auto simp: InitLog_def Let_def)
qed

section \<open>Properties\<close>

text \<open>
  Starting the log: it succeeds unless a log file was asked for and cannot be opened; then
  the logger points at the file with the time in its name or at the console, and a failed start
  leaves the state as it was.
\<close>

theorem InitLog_outcome:
  assumes "memory_fits i"
  shows "\<exists>b st'. InitLog logToFile now can_open i st = Inr (b, st') \<and>
    b = (logToFile \<longrightarrow> can_open (FormFileName now)) \<and>
    (if b then map_option m_out (m_logger st') = Some (if logToFile then LogFile (FormFileName now) else Cout)
     else st' = st)"
  using assms by (rule InitLog_ok)

definition sample_info :: sys_info where
  "sample_info = \<lparr>uname_sysname = Some ''Linux'', uname_machine = None, kernel_version = None,
    sys_errno = 2, phys_pages = 1024, avphys_pages = -1, pagesize = 4096\<rparr>"

definition no_log :: log_state where
  "no_log = \<lparr>m_logger = None, cout = [], cerr = [], log_file = (\<lambda>_. [])\<rparr>"

definition sample_time :: tm where
  "sample_time = \<lparr>tm_mday = 7, tm_mon = 10, tm_year = 13, tm_hour = 9, tm_min = 5\<rparr>"

theorem InitLog_outcome_witness:
  "\<exists>b st'. InitLog True sample_time (\<lambda>f. f = ''sthttps_071113_0905.log'') sample_info no_log = Inr (b, st') \<and>
    b \<and> map_option m_out (m_logger st') = Some (LogFile ''sthttps_071113_0905.log'')"
proof -
  have f: "FormFileName sample_time = ''sthttps_071113_0905.log''"
    by code_simp
  have "memory_fits sample_info" by (simp add: memory_fits_def sample_info_def)
  from InitLog_outcome [OF this, of True sample_time "\<lambda>f. f = ''sthttps_071113_0905.log''" no_log]
  show ?thesis by (auto simp: f)
qed

text \<open>
  Once a logger is set, a sequence of messages extends the text of its stream by their
  rendered lines in order and touches no other stream; with no logger the first message stops
  the program at the assertion.
\<close>

theorem log_all_in_order:
  "log_all ls st =
    (case m_logger st of
       None \<Rightarrow> if ls = [] then Inr st else Inl AssertionFailure
     | Some l \<Rightarrow> Inr (write_sink (m_out l) (concat (map log_line_text ls)) st)) \<and>
   sink_text k (write_sink k s st) = sink_text k st @ s \<and> same_but_sink k st (write_sink k s st)"
proof (cases "m_logger st")
  case None
  then show ?thesis
    by (cases ls) (simp_all add: log_msg_uninit sink_text_write same_but_sink_write)
next
  case (Some l)
  then show ?thesis by (simp add: log_all_ok sink_text_write same_but_sink_write)
qed

text \<open>
  The reported memory: whole megabytes of pages times page size when both are known and
  their product fits into \<open>long long\<close>, and 0 with a warning in the log otherwise.
\<close>

theorem RAMInstalledMB_exact:
  assumes "phys_pages i * pagesize i < 2 ^ 63" and "m_logger st = Some l"
  shows "RAMInstalledMB i st =
    (if phys_pages i < 0 \<or> pagesize i < 0
     then Inr (0, write_sink (m_out l) (log_line_text (WARN, ''Didn't query RAM '' @ dec_of_int (sys_errno i))) st)
     else Inr (phys_pages i * pagesize i div 2 ^ 20, st))"
  using assms
  by (auto simp: RAMInstalledMB_def QueryMemory_def log_msg_ok zdiv_zmult2_eq [symmetric])

theorem RAMInstalledMB_exact_witness:
  "RAMInstalledMB sample_info (no_log\<lparr>m_logger := Some \<lparr>m_out = Cout, m_deleteOut = False\<rparr>\<rparr>) =
    Inr (4, no_log\<lparr>m_logger := Some \<lparr>m_out = Cout, m_deleteOut = False\<rparr>\<rparr>)"
  by (subst RAMInstalledMB_exact [of _ _ "\<lparr>m_out = Cout, m_deleteOut = False\<rparr>"])
    (simp_all add: sample_info_def)

end
