(* ===== verification/Protocol_Handler.thy ===== *)
theory Protocol_Handler
  imports Prelude Logger
begin

text \<open>
  The interface between the server and a plugin: data chunks (\<open>plugin_api/data_chunk.h\<close>) and
  the virtual functions of \<open>ProtocolHandler\<close> (\<open>plugin_api/protocol_handler.h\<close>) as a record of
  operations on an arbitrary handler type, one field per virtual function. The locale
  \<open>protocol_handler\<close> states the laws a handler keeps and a session relies on.
\<close>

section \<open>Data chunks\<close>

record data_chunk =
  m_next :: "nat option"
  m_buffer :: string

definition m_bufSize :: nat where
  "m_bufSize = 2048"

text \<open>
  \<open>new DataChunk()\<close>: the constructor writes the first byte only, the others are what the
  storage \<open>raw\<close> held before.
\<close>

definition new_DataChunk :: "(nat \<Rightarrow> char) \<Rightarrow> data_chunk" where
  "new_DataChunk raw = \<lparr>m_next = None, m_buffer = (map raw [0..<m_bufSize])[0 := NUL]\<rparr>"

lemma length_new_DataChunk [simp]: "length (m_buffer (new_DataChunk raw)) = m_bufSize"
  by (simp add: new_DataChunk_def)

text \<open>\<open>buf[i] = c\<close> on the chunk's array.\<close>

definition chunk_store :: "data_chunk \<Rightarrow> nat \<Rightarrow> char \<Rightarrow> data_chunk res" where
  "chunk_store c i x =
     (if i < length (m_buffer c) then Inr (c\<lparr>m_buffer := (m_buffer c)[i := x]\<rparr>) else Inl OutOfBounds)"

text \<open>What \<open>recv\<close> does to the array: its first bytes are replaced by the received ones.\<close>

definition chunk_fill :: "data_chunk \<Rightarrow> string \<Rightarrow> data_chunk" where
  "chunk_fill c bytes = c\<lparr>m_buffer := bytes @ drop (length bytes) (m_buffer c)\<rparr>"

section \<open>The virtual functions\<close>

record 'h proto_vt =
  HasDataToSend :: "'h \<Rightarrow> bool"
  DidReceive :: "'h \<Rightarrow> data_chunk \<Rightarrow> int \<Rightarrow> ('h \<times> log_line list) res"
  DidSend :: "'h \<Rightarrow> int \<Rightarrow> 'h res"
  data_to_send :: "'h \<Rightarrow> string option"
  data_to_send_size :: "'h \<Rightarrow> nat"
  AllocateChunk :: "(nat \<Rightarrow> char) \<Rightarrow> 'h \<Rightarrow> data_chunk"

text \<open>
  The contract: \<open>pending h\<close> is what the handler still has to send and \<open>inv\<close> its invariant.
  A chunk with received bytes is offered only while nothing is pending.
\<close>

locale protocol_handler =
  fixes vt :: "'h proto_vt" and pending :: "'h \<Rightarrow> string" and inv :: "'h \<Rightarrow> bool"
  assumes has_data: "inv h \<Longrightarrow> HasDataToSend vt h \<longleftrightarrow> pending h \<noteq> []"
    and data_size: "inv h \<Longrightarrow> data_to_send_size vt h = length (pending h)"
    and data: "inv h \<Longrightarrow> pending h \<noteq> [] \<Longrightarrow> data_to_send vt h = Some (pending h)"
    and did_send: "inv h \<Longrightarrow> 0 < n \<Longrightarrow> n \<le> length (pending h) \<Longrightarrow>
      \<exists>h'. DidSend vt h (int n) = Inr h' \<and> inv h' \<and> pending h' = drop n (pending h)"
    and did_receive: "inv h \<Longrightarrow> pending h = [] \<Longrightarrow> 0 < n \<Longrightarrow> n \<le> length (m_buffer c) \<Longrightarrow>
      length (m_buffer c) = m_bufSize \<Longrightarrow> \<exists>h' l. DidReceive vt h c (int n) = Inr (h', l) \<and> inv h'"
    and chunk: "length (m_buffer (AllocateChunk vt raw h)) = m_bufSize"

end
