(* ===== verification/Paths.thy ===== *)
theory Paths
  imports Prelude
begin

text \<open>
  Paths and folders (\<open>base/path.h\<close>, \<open>path_unix.cpp\<close>, \<open>path_win.cpp\<close>). A path is its string; the
  file system is outside: a record of what the directory calls return. A parameter \<open>err\<close> of
  type \<open>int*\<close> is \<open>None\<close> for NULL and otherwise the value it points to.
\<close>

section \<open>Paths\<close>

record path =
  m_path :: string

definition Path :: "string \<Rightarrow> path" where
  "Path s = \<lparr>m_path = s\<rparr>"

definition set_path :: "string \<Rightarrow> path \<Rightarrow> path" where
  "set_path s p = p\<lparr>m_path := s\<rparr>"

text \<open>A \<open>FileSysObject\<close>, with its two subclasses, carries nothing but its path.\<close>

record file_sys_object =
  fs_path :: path

definition FileSysObject :: "string \<Rightarrow> file_sys_object" where
  "FileSysObject s = \<lparr>fs_path = Path s\<rparr>"

abbreviation File :: "string \<Rightarrow> file_sys_object" where "File \<equiv> FileSysObject"
abbreviation Folder :: "string \<Rightarrow> file_sys_object" where "Folder \<equiv> FileSysObject"

definition path_string :: "file_sys_object \<Rightarrow> string" where
  "path_string f = m_path (fs_path f)"

lemma path_string_FileSysObject [simp]: "path_string (FileSysObject s) = s"
  by (simp add: path_string_def FileSysObject_def Path_def)

lemma FileSysObject_eq [simp]: "FileSysObject s = FileSysObject t \<longleftrightarrow> s = t"
  by (simp add: FileSysObject_def Path_def)

text \<open>
  \<open>Absolute\<close>: \<open>realpath\<close> writes the resolved name and its terminator into an array of
  \<open>MAX_PATH*2\<close> characters, whatever the length of the name.
\<close>

definition MAX_PATH :: nat where
  "MAX_PATH = 256"

definition Absolute :: "(string \<Rightarrow> string option) \<Rightarrow> path \<Rightarrow> string res" where
  "Absolute realpath p =
     (case realpath (c_str (m_path p)) of
        None \<Rightarrow> Inr []
      | Some r \<Rightarrow> if length r + 1 \<le> MAX_PATH * 2 then Inr (c_str r) else Inl OutOfBounds)"

section \<open>The directory calls on UNIX\<close>

record unix_fs =
  opendir :: "string \<Rightarrow> string list option"
  opendir_errno :: "string \<Rightarrow> int"
  fstat_dir :: "string \<Rightarrow> string \<Rightarrow> bool option"
  fstat_errno :: "string \<Rightarrow> string \<Rightarrow> int"
  fnmatch :: "string \<Rightarrow> string \<Rightarrow> bool"

text \<open>
  \<open>opendir p\<close> is the sequence of names the stream yields, the two dot entries included;
  \<open>fstat_dir p n\<close> is whether the entry is a directory, \<open>None\<close> when \<open>fstatat\<close> fails.
\<close>

definition set_err :: "int \<Rightarrow> int option \<Rightarrow> int option" where
  "set_err v err = (case err of None \<Rightarrow> None | Some _ \<Rightarrow> Some v)"

definition dot_entry :: "string \<Rightarrow> bool" where
  "dot_entry n \<longleftrightarrow> n = ''..'' \<or> n = ''.''"

definition child :: "string \<Rightarrow> string \<Rightarrow> string" where
  "child p n = p @ ''/'' @ n"

text \<open>
  The loop over the entries. The recursive call of \<open>GetAllSubfolders\<close> opens the subfolder and
  runs the same loop on it, without an \<open>err\<close>; following links may keep it from ending.
\<close>

partial_function (option) subfolder_loop ::
  "unix_fs \<Rightarrow> bool \<Rightarrow> string \<Rightarrow> string list \<Rightarrow> file_sys_object list \<Rightarrow> int option \<Rightarrow> (file_sys_object list \<times> int option) option" where
  "subfolder_loop fs recursive p names subfolders err =
     (case names of
        [] \<Rightarrow> Some (subfolders, err)
      | d_name # rest \<Rightarrow>
          if dot_entry d_name then subfolder_loop fs recursive p rest subfolders err
          else (case fstat_dir fs (c_str p) d_name of
             None \<Rightarrow> subfolder_loop fs recursive p rest subfolders
                       (set_err (fstat_errno fs (c_str p) d_name) err)
           | Some isdir \<Rightarrow>
               if isdir
               then if recursive
                 then (case opendir fs (c_str (child p d_name)) of
                         None \<Rightarrow> subfolder_loop fs recursive p rest
                                   (subfolders @ [Folder (child p d_name)]) err
                       | Some inner \<Rightarrow>
                           Option.bind (subfolder_loop fs recursive (child p d_name) inner
                                         (subfolders @ [Folder (child p d_name)]) None)
                             (\<lambda>r. subfolder_loop fs recursive p rest (fst r) err))
                 else subfolder_loop fs recursive p rest (subfolders @ [Folder (child p d_name)]) err
               else subfolder_loop fs recursive p rest subfolders err))"

definition GetAllSubfolders ::
  "unix_fs \<Rightarrow> file_sys_object \<Rightarrow> file_sys_object list \<Rightarrow> bool \<Rightarrow> int option \<Rightarrow> (file_sys_object list \<times> int option) option" where
  "GetAllSubfolders fs f subfolders recursive err =
     (case opendir fs (c_str (path_string f)) of
        None \<Rightarrow> Some (subfolders, set_err (opendir_errno fs (c_str (path_string f))) err)
      | Some names \<Rightarrow> subfolder_loop fs recursive (path_string f) names subfolders err)"

fun wildcard_loop ::
  "unix_fs \<Rightarrow> string \<Rightarrow> string \<Rightarrow> string list \<Rightarrow> file_sys_object list \<Rightarrow> int option \<Rightarrow> file_sys_object list \<times> int option" where
  "wildcard_loop fs w p [] files err = (files, err)"
| "wildcard_loop fs w p (d_name # rest) files err =
     (if dot_entry d_name then wildcard_loop fs w p rest files err
      else (case fstat_dir fs (c_str p) d_name of
          Some isdir \<Rightarrow>
            if \<not> isdir \<and> fnmatch fs (c_str w) d_name
            then wildcard_loop fs w p rest (files @ [File (child p d_name)]) err
            else wildcard_loop fs w p rest files err
        | None \<Rightarrow> wildcard_loop fs w p rest files (set_err (fstat_errno fs (c_str p) d_name) err)))"

definition GetFilesWildcard ::
  "unix_fs \<Rightarrow> file_sys_object \<Rightarrow> string \<Rightarrow> file_sys_object list \<Rightarrow> int option \<Rightarrow> file_sys_object list \<times> int option" where
  "GetFilesWildcard fs f wildcard files err =
     (case opendir fs (c_str (path_string f)) of
        None \<Rightarrow> ([], set_err (opendir_errno fs (c_str (path_string f))) err)
      | Some names \<Rightarrow> wildcard_loop fs wildcard (path_string f) names [] err)"

section \<open>The directory calls on Windows\<close>

text \<open>
  \<open>find_files pat\<close> is what \<open>FindFirstFileW\<close> and \<open>FindNextFileW\<close> yield for a pattern, with the
  directory attribute of each entry: \<open>None\<close> for \<open>INVALID_HANDLE_VALUE\<close>, else at least one entry.
\<close>

record win_fs =
  find_files :: "string \<Rightarrow> ((string \<times> bool) \<times> (string \<times> bool) list) option"
  last_error :: "string \<Rightarrow> int"

partial_function (option) win_subfolder_loop ::
  "win_fs \<Rightarrow> bool \<Rightarrow> string \<Rightarrow> (string \<times> bool) list \<Rightarrow> file_sys_object list \<Rightarrow> file_sys_object list option" where
  "win_subfolder_loop fs recursive p found subfolders =
     (case found of
        [] \<Rightarrow> Some subfolders
      | e # rest \<Rightarrow>
          if snd e
          then if dot_entry (fst e) then win_subfolder_loop fs recursive p rest subfolders
               else if recursive
               then (case find_files fs (c_str (child p (fst e) @ ''/*'')) of
                       None \<Rightarrow> win_subfolder_loop fs recursive p rest
                                 (subfolders @ [Folder (child p (fst e))])
                     | Some inner \<Rightarrow>
                         Option.bind (win_subfolder_loop fs recursive (child p (fst e))
                                       (fst inner # snd inner) (subfolders @ [Folder (child p (fst e))]))
                           (\<lambda>r. win_subfolder_loop fs recursive p rest r))
               else win_subfolder_loop fs recursive p rest (subfolders @ [Folder (child p (fst e))])
          else win_subfolder_loop fs recursive p rest subfolders)"

definition win_GetAllSubfolders ::
  "win_fs \<Rightarrow> file_sys_object \<Rightarrow> file_sys_object list \<Rightarrow> bool \<Rightarrow> int option \<Rightarrow>
     (file_sys_object list \<times> int option) option" where
  "win_GetAllSubfolders fs f subfolders recursive err =
     (let pat = c_str (path_string f @ ''/*'') in
      case find_files fs pat of
        None \<Rightarrow> Some (subfolders, set_err (last_error fs pat) err)
      | Some found \<Rightarrow>
          map_option (\<lambda>r. (r, err))
            (win_subfolder_loop fs recursive (path_string f) (fst found # snd found) subfolders))"

fun win_wildcard_loop :: "string \<Rightarrow> (string \<times> bool) list \<Rightarrow> file_sys_object list \<Rightarrow> file_sys_object list" where
  "win_wildcard_loop p [] files = files"
| "win_wildcard_loop p (e # rest) files =
     (if snd e then win_wildcard_loop p rest files
      else win_wildcard_loop p rest (files @ [File (child p (fst e))]))"

definition win_GetFilesWildcard ::
  "win_fs \<Rightarrow> file_sys_object \<Rightarrow> string \<Rightarrow> file_sys_object list \<Rightarrow> int option \<Rightarrow>
     file_sys_object list \<times> int option" where
  "win_GetFilesWildcard fs f wildcard files err =
     (let pat = c_str (child (path_string f) wildcard) in
      case find_files fs pat of
        None \<Rightarrow> ([], set_err (last_error fs pat) err)
      | Some found \<Rightarrow> (win_wildcard_loop (path_string f) (fst found # snd found) [], err))"

section \<open>Folder trees\<close>

text \<open>
  The abstract view of a folder: its entries in the order the platform lists them. A \<open>Locked\<close>
  folder cannot be opened, a \<open>Broken\<close> entry cannot be queried (a dangling link).
\<close>

datatype node = Dir "(string \<times> node) list" | Locked | Plain | Broken

fun is_folder :: "node \<Rightarrow> bool" where
  "is_folder (Dir _) = True"
| "is_folder Locked = True"
| "is_folder _ = False"

definition stat_of :: "node \<Rightarrow> bool option" where
  "stat_of t = (if t = Broken then None else Some (is_folder t))"

text \<open>The names every folder has for itself and its parent.\<close>

definition own_or_parent :: "string \<Rightarrow> bool" where
  "own_or_parent n \<longleftrightarrow> n \<in> {''.'', ''..''}"

lemma own_or_parent_dot_entry [simp]: "own_or_parent n = dot_entry n"
  by (auto simp: dot_entry_def own_or_parent_def)

text \<open>The file system shows the tree at a path.\<close>

fun displays :: "unix_fs \<Rightarrow> string \<Rightarrow> node \<Rightarrow> bool" and
    displays_all :: "unix_fs \<Rightarrow> string \<Rightarrow> (string \<times> node) list \<Rightarrow> bool" where
  "displays fs p (Dir es) =
     (map_option (filter (\<lambda>n. \<not> own_or_parent n)) (opendir fs (c_str p)) = Some (map fst es) \<and> displays_all fs p es)"
| "displays fs p Locked = (opendir fs (c_str p) = None)"
| "displays fs p Plain = True"
| "displays fs p Broken = True"
| "displays_all fs p [] = True"
| "displays_all fs p ((n, t) # es) =
     (fstat_dir fs (c_str p) n = stat_of t \<and> displays fs (child p n) t \<and> displays_all fs p es)"

fun win_displays :: "win_fs \<Rightarrow> string \<Rightarrow> node \<Rightarrow> bool" and
    win_displays_all :: "win_fs \<Rightarrow> string \<Rightarrow> (string \<times> node) list \<Rightarrow> bool" where
  "win_displays fs p (Dir es) =
     (map_option (\<lambda>r. filter (\<lambda>e. \<not> (snd e \<and> own_or_parent (fst e))) (fst r # snd r))
        (find_files fs (c_str (p @ ''/*''))) = Some (map (\<lambda>e. (fst e, is_folder (snd e))) es) \<and>
      win_displays_all fs p es)"
| "win_displays fs p Locked = (find_files fs (c_str (p @ ''/*'')) = None)"
| "win_displays fs p Plain = True"
| "win_displays fs p Broken = True"
| "win_displays_all fs p [] = True"
| "win_displays_all fs p ((n, t) # es) = (win_displays fs (child p n) t \<and> win_displays_all fs p es)"

text \<open>The folders of a tree, each before its own subfolders, and the files that match.\<close>

fun folders_of :: "bool \<Rightarrow> string \<Rightarrow> node \<Rightarrow> string list" and
    folders_in :: "bool \<Rightarrow> string \<Rightarrow> (string \<times> node) list \<Rightarrow> string list" where
  "folders_of r p (Dir es) = folders_in r p es"
| "folders_of r p Locked = []"
| "folders_of r p Plain = []"
| "folders_of r p Broken = []"
| "folders_in r p [] = []"
| "folders_in r p ((n, t) # es) =
     (if is_folder t then child p n # (if r then folders_of r (child p n) t else []) else []) @
     folders_in r p es"

definition files_in :: "(string \<Rightarrow> bool) \<Rightarrow> string \<Rightarrow> (string \<times> node) list \<Rightarrow> string list" where
  "files_in m p es = map (\<lambda>e. child p (fst e)) (filter (\<lambda>e. snd e = Plain \<and> m (fst e)) es)"

definition stat_errors :: "unix_fs \<Rightarrow> string \<Rightarrow> (string \<times> node) list \<Rightarrow> int list" where
  "stat_errors fs p es = map (\<lambda>e. fstat_errno fs (c_str p) (fst e)) (filter (\<lambda>e. snd e = Broken) es)"

definition err_after :: "int list \<Rightarrow> int option \<Rightarrow> int option" where
  "err_after vs err = fold set_err vs err"

lemma err_after_simps [simp]: "err_after [] e = e" "err_after (v # vs) e = err_after vs (set_err v e)"
  by (simp_all add: err_after_def)

section \<open>The loops read the tree\<close>

lemma stat_of_simps [simp]:
  "stat_of (Dir es) = Some True" "stat_of Locked = Some True" "stat_of Plain = Some False"
  "stat_of Broken = None"
  by (simp_all add: stat_of_def)

lemma stat_errors_Cons:
  "stat_errors fs p ((n, t) # es) =
    (if t = Broken then [fstat_errno fs (c_str p) n] else []) @ stat_errors fs p es"
  by (simp add: stat_errors_def)

lemma subfolder_loop_Nil: "subfolder_loop fs r p [] acc err = Some (acc, err)"
  by (subst subfolder_loop.simps) simp

lemma subfolder_loop_dot: "dot_entry n \<Longrightarrow> subfolder_loop fs r p (n # names) acc err = subfolder_loop fs r p names acc err"
  by (subst subfolder_loop.simps) simp

lemma subfolder_loop_skip:
  "subfolder_loop fs r p (filter (\<lambda>n. \<not> dot_entry n) names) acc err = subfolder_loop fs r p names acc err"
proof (induction names arbitrary: r acc err)
  case (Cons n names)
  show ?case
  proof (cases "dot_entry n")
    case False
    show ?thesis
      by (subst (1 2) subfolder_loop.simps) (simp add: False Cons split: option.split)
  qed (simp add: Cons subfolder_loop_dot)
qed simp

text \<open>The recursive call of the loop is the call of \<open>GetAllSubfolders\<close> on the subfolder.\<close>

lemma subfolder_loop_folder:
  assumes "\<not> dot_entry n" and "fstat_dir fs (c_str p) n = Some True"
  shows "subfolder_loop fs r p (n # names) acc err =
    (if r
     then Option.bind (GetAllSubfolders fs (Folder (child p n)) (acc @ [Folder (child p n)]) True None)
            (\<lambda>res. subfolder_loop fs r p names (fst res) err)
     else subfolder_loop fs r p names (acc @ [Folder (child p n)]) err)"
  using assms by (subst subfolder_loop.simps) (simp add: GetAllSubfolders_def split: option.split)

lemma subfolder_loop_other:
  assumes "\<not> dot_entry n" and "fstat_dir fs (c_str p) n \<noteq> Some True"
  shows "subfolder_loop fs r p (n # names) acc err = subfolder_loop fs r p names acc
    (if fstat_dir fs (c_str p) n = None then set_err (fstat_errno fs (c_str p) n) err else err)"
  using assms by (subst subfolder_loop.simps) (auto split: option.split)

lemma set_err_None [simp]: "set_err v None = None" "err_after vs None = None"
  by (simp_all add: set_err_def err_after_def) (induction vs; simp add: set_err_def)

lemma names_of_filter: "filter (\<lambda>n. \<not> dot_entry n) names = map fst es \<Longrightarrow> e \<in> set es \<Longrightarrow> \<not> dot_entry (fst e)"
  by (metis (mono_tags, lifting) image_eqI list.set_map mem_Collect_eq set_filter)

lemma walk:
  "displays fs p t \<Longrightarrow> is_folder t \<Longrightarrow>
     \<exists>e. GetAllSubfolders fs (Folder p) acc True err = Some (acc @ map Folder (folders_of True p t), e)"
  "displays_all fs p es \<Longrightarrow> \<forall>e \<in> set es. \<not> dot_entry (fst e) \<Longrightarrow>
     subfolder_loop fs True p (map fst es) acc err =
       Some (acc @ map Folder (folders_in True p es), err_after (stat_errors fs p es) err)"
proof (induction fs p t and fs p es arbitrary: acc err and acc err rule: displays_displays_all.induct)
  case (1 fs p es)
  from 1(2) obtain names where n: "opendir fs (c_str p) = Some names"
      "filter (\<lambda>n. \<not> dot_entry n) names = map fst es" "displays_all fs p es" by auto
  have "\<forall>e \<in> set es. \<not> dot_entry (fst e)" using names_of_filter [OF n(2)] by blast
  with 1(1) [OF n(3)] have "subfolder_loop fs True p names acc err =
      Some (acc @ map Folder (folders_in True p es), err_after (stat_errors fs p es) err)"
    by (subst subfolder_loop_skip [symmetric]) (simp add: n)
  then show ?case by (simp add: GetAllSubfolders_def n(1))
next
  case (6 fs p n t es)
  show ?case
  proof (cases "is_folder t")
    case True
    then obtain e where "GetAllSubfolders fs (Folder (child p n)) (acc @ [Folder (child p n)]) True None =
        Some ((acc @ [Folder (child p n)]) @ map Folder (folders_of True (child p n) t), e)"
      using 6(1) [of "acc @ [Folder (child p n)]" None] 6(3) by auto
    moreover have "fstat_dir fs (c_str p) n = Some True" using 6(3) True by (cases t) auto
    moreover have "t \<noteq> Broken" using True by auto
    ultimately show ?thesis
      using 6 True by (simp add: subfolder_loop_folder stat_errors_Cons)
  next
    case False
    then have "t = Plain \<or> t = Broken" by (cases t) auto
    then show ?thesis
      using 6 by (auto simp: subfolder_loop_other stat_errors_Cons)
  qed
qed (auto simp: GetAllSubfolders_def subfolder_loop_Nil stat_errors_def)

lemma walk_flat:
  "displays_all fs p es \<Longrightarrow> \<forall>e \<in> set es. \<not> dot_entry (fst e) \<Longrightarrow>
     subfolder_loop fs False p (map fst es) acc err =
       Some (acc @ map Folder (folders_in False p es), err_after (stat_errors fs p es) err)"
proof (induction es arbitrary: acc err)
  case (Cons e es)
  obtain n t where e: "e = (n, t)" by (cases e)
  show ?case
    using Cons by (cases t) (auto simp: e subfolder_loop_folder subfolder_loop_other stat_errors_Cons)
qed (simp add: subfolder_loop_Nil stat_errors_def)

lemma GetAllSubfolders_tree:
  assumes "displays fs p (Dir es)"
  shows "GetAllSubfolders fs (Folder p) acc r err =
    Some (acc @ map Folder (folders_in r p es), err_after (stat_errors fs p es) err)"
proof -
  from assms obtain names where n: "opendir fs (c_str p) = Some names"
      "filter (\<lambda>n. \<not> dot_entry n) names = map fst es" "displays_all fs p es" by auto
  have d: "\<forall>e \<in> set es. \<not> dot_entry (fst e)" using names_of_filter [OF n(2)] by blast
  have "subfolder_loop fs r p (map fst es) acc err =
      Some (acc @ map Folder (folders_in r p es), err_after (stat_errors fs p es) err)"
    using walk(2) [OF n(3) d] walk_flat [OF n(3) d] by (cases r) simp_all
  then have "subfolder_loop fs r p names acc err =
      Some (acc @ map Folder (folders_in r p es), err_after (stat_errors fs p es) err)"
    by (subst subfolder_loop_skip [symmetric]) (simp add: n(2))
  then show ?thesis by (simp add: GetAllSubfolders_def n(1))
qed

lemma wildcard_loop_tree:
  "displays_all fs p es \<Longrightarrow> filter (\<lambda>n. \<not> dot_entry n) names = map fst es \<Longrightarrow>
     wildcard_loop fs w p names acc err =
       (acc @ map File (files_in (fnmatch fs (c_str w)) p es), err_after (stat_errors fs p es) err)"
proof (induction names arbitrary: es acc err)
  case (Cons m names)
  show ?case
  proof (cases "dot_entry m")
    case False
    with Cons.prems(2) obtain t es' where es: "es = (m, t) # es'" by auto
    from False Cons show ?thesis
      by (cases t) (auto simp: es files_in_def stat_errors_Cons)
  qed (use Cons in simp)
qed (simp add: files_in_def stat_errors_def)

lemma win_loop_Nil: "win_subfolder_loop fs r p [] acc = Some acc"
  by (subst win_subfolder_loop.simps) simp

lemma win_loop_skip_file: "\<not> snd e \<Longrightarrow> win_subfolder_loop fs r p (e # found) acc = win_subfolder_loop fs r p found acc"
  by (subst win_subfolder_loop.simps) simp

lemma win_loop_dot:
  "dot_entry (fst e) \<Longrightarrow> win_subfolder_loop fs r p (e # found) acc = win_subfolder_loop fs r p found acc"
  by (subst win_subfolder_loop.simps) simp

lemma win_loop_folder:
  assumes "\<not> dot_entry (fst e)" and "snd e"
  shows "win_subfolder_loop fs r p (e # found) acc =
    (if r
     then Option.bind (win_GetAllSubfolders fs (Folder (child p (fst e))) (acc @ [Folder (child p (fst e))]) True None)
            (\<lambda>res. win_subfolder_loop fs r p found (fst res))
     else win_subfolder_loop fs r p found (acc @ [Folder (child p (fst e))]))"
  using assms
  by (subst win_subfolder_loop.simps)
    (auto simp: win_GetAllSubfolders_def Let_def bind_map_option comp_def split: option.split)

lemma win_loop_skip:
  "win_subfolder_loop fs r p (filter (\<lambda>e. \<not> (snd e \<and> dot_entry (fst e))) found) acc =
     win_subfolder_loop fs r p found acc"
proof (induction found arbitrary: r acc)
  case (Cons e found)
  consider "dot_entry (fst e)" "snd e" | "\<not> snd e" | "\<not> dot_entry (fst e)" "snd e" by blast
  then show ?case
    by cases (simp_all add: Cons [simplified] win_loop_dot win_loop_skip_file win_loop_folder)
qed simp

lemma win_walk:
  "win_displays fs p t \<Longrightarrow> is_folder t \<Longrightarrow>
     \<exists>e. win_GetAllSubfolders fs (Folder p) acc r err =
       Some (acc @ map Folder (folders_of r p t), e) \<and> ((\<exists>es. t = Dir es) \<longrightarrow> e = err)"
  "win_displays_all fs p es \<Longrightarrow> \<forall>e \<in> set es. is_folder (snd e) \<longrightarrow> \<not> dot_entry (fst e) \<Longrightarrow>
     win_subfolder_loop fs r p (map (\<lambda>e. (fst e, is_folder (snd e))) es) acc =
       Some (acc @ map Folder (folders_in r p es))"
proof (induction fs p t and fs p es arbitrary: r acc err and r acc rule: win_displays_win_displays_all.induct)
  case (1 fs p es)
  let ?view = "map (\<lambda>e. (fst e, is_folder (snd e))) es"
  from 1(2) obtain f where f: "find_files fs (c_str (p @ ''/*'')) = Some f"
      "filter (\<lambda>e. \<not> (snd e \<and> dot_entry (fst e))) (fst f # snd f) = ?view" "win_displays_all fs p es"
    by (auto simp del: filter.simps)
  have "\<forall>x \<in> set ?view. \<not> (snd x \<and> dot_entry (fst x))"
    by (simp only: f(2) [symmetric] set_filter) blast
  then have "\<forall>e \<in> set es. is_folder (snd e) \<longrightarrow> \<not> dot_entry (fst e)" by auto
  from 1(1) [OF f(3) this] have "win_subfolder_loop fs r p (fst f # snd f) acc =
      Some (acc @ map Folder (folders_in r p es))"
    by (subst win_loop_skip [symmetric]) (simp only: f(2))
  then show ?case by (simp add: win_GetAllSubfolders_def f(1))
next
  case (6 fs p n t es)
  show ?case
  proof (cases "is_folder t")
    case True
    then obtain e where "win_GetAllSubfolders fs (Folder (child p n)) (acc @ [Folder (child p n)]) True None =
        Some ((acc @ [Folder (child p n)]) @ map Folder (folders_of True (child p n) t), e)"
      using 6(1) [of "acc @ [Folder (child p n)]" True None] 6(3) by auto
    then show ?thesis
      using 6 True by (simp add: win_loop_folder)
  next
    case False
    then show ?thesis
      using 6 by (simp add: win_loop_skip_file)
  qed
qed (auto simp: win_GetAllSubfolders_def win_loop_Nil)

lemma win_wildcard_loop_eq:
  "win_wildcard_loop p found acc = acc @ map (\<lambda>e. File (child p (fst e))) (filter (\<lambda>e. \<not> snd e) found)"
  by (induction found arbitrary: acc) auto

section \<open>Properties\<close>

text \<open>
  On a file system that shows a folder tree of any depth, \<open>GetAllSubfolders\<close> returns, and it
  appends exactly the folders of the tree, each before its own subfolders (only the direct ones
  when not recursive), skipping the dot entries, files, unreadable folders' contents and entries
  that cannot be queried; \<open>*err\<close> is the error of the last entry of this folder that could not
  be queried. The Windows implementation computes the same list and leaves \<open>*err\<close> alone.
\<close>

theorem subfolders_of_tree:
  assumes "displays fs p (Dir es)" and "win_displays wfs p (Dir es)"
  shows "GetAllSubfolders fs (Folder p) acc r err =
      Some (acc @ map Folder (folders_of r p (Dir es)), err_after (stat_errors fs p es) err) \<and>
    win_GetAllSubfolders wfs (Folder p) acc r err =
      Some (acc @ map Folder (folders_of r p (Dir es)), err)"
  using GetAllSubfolders_tree [OF assms(1), of acc r err] win_walk(1) [OF assms(2), of acc r err] by auto

text \<open>
  \<open>GetFilesWildcard\<close> drops whatever the caller's list held and returns exactly the plain
  files of the folder whose names match the pattern, in the order of the folder; a folder that
  cannot be opened gives the empty list and its error.
\<close>

theorem files_of_tree:
  assumes "displays fs p t" and "is_folder t"
  shows "GetFilesWildcard fs (Folder p) w old err =
    (case t of
       Dir es \<Rightarrow> (map File (files_in (fnmatch fs (c_str w)) p es), err_after (stat_errors fs p es) err)
     | _ \<Rightarrow> ([], set_err (opendir_errno fs (c_str p)) err))"
  using assms
  by (cases t) (auto simp: GetFilesWildcard_def wildcard_loop_tree)

text \<open>A folder of plugins on both platforms.\<close>

definition sample_tree :: node where
  "sample_tree = Dir [(''http'', Dir [(''http_plugin.so'', Plain)]), (''old'', Locked),
     (''dangling'', Broken), (''a_plugin.so'', Plain)]"

definition ends_with :: "string \<Rightarrow> string \<Rightarrow> bool" where
  "ends_with suf n \<longleftrightarrow> drop (length n - length suf) n = suf"

definition sample_fs :: unix_fs where
  "sample_fs = \<lparr>opendir = (\<lambda>p.
       if p = ''dir'' then Some [''.'', ''http'', ''old'', ''..'', ''dangling'', ''a_plugin.so'']
       else if p = ''dir/http'' then Some [''http_plugin.so'', ''.'', ''..''] else None),
     opendir_errno = (\<lambda>_. 13),
     fstat_dir = (\<lambda>_ n. if n = ''dangling'' then None else Some (n = ''http'' \<or> n = ''old'')),
     fstat_errno = (\<lambda>_ _. 2),
     fnmatch = (\<lambda>w n. ends_with (drop 1 w) n)\<rparr>"

definition sample_win_fs :: win_fs where
  "sample_win_fs = \<lparr>find_files = (\<lambda>p.
       if p = ''dir/*'' then Some ((''.'', True), [(''http'', True), (''old'', True), (''..'', True),
         (''dangling'', False), (''a_plugin.so'', False)])
       else if p = ''dir/http/*'' then Some ((''http_plugin.so'', False), [(''.'', True), (''..'', True)])
       else None),
     last_error = (\<lambda>_. 5)\<rparr>"

lemma sample_displayed: "displays sample_fs ''dir'' sample_tree"
  by (simp add: sample_tree_def sample_fs_def dot_entry_def c_str_def child_def)

lemma sample_win_displayed: "win_displays sample_win_fs ''dir'' sample_tree"
  by (simp add: sample_tree_def sample_win_fs_def dot_entry_def c_str_def child_def)

theorem subfolders_of_tree_witness:
  "GetAllSubfolders sample_fs (Folder ''dir'') [] True (Some 0) =
      Some ([Folder ''dir/http'', Folder ''dir/old''], Some 2) \<and>
    win_GetAllSubfolders sample_win_fs (Folder ''dir'') [] True (Some 0) =
      Some ([Folder ''dir/http'', Folder ''dir/old''], Some 0)"
  using subfolders_of_tree [OF sample_displayed [unfolded sample_tree_def]
      sample_win_displayed [unfolded sample_tree_def], of "[]" True "Some 0"]
  by (simp add: child_def stat_errors_def sample_fs_def set_err_def)

theorem files_of_tree_witness:
  "GetFilesWildcard sample_fs (Folder ''dir'') ''*_plugin.so'' [Folder ''old''] None =
     ([File ''dir/a_plugin.so''], None)"
  using files_of_tree [OF sample_displayed, of "''*_plugin.so''" "[Folder ''old'']" None]
  by (simp add: sample_tree_def files_in_def sample_fs_def ends_with_def c_str_def child_def)

end
