(* ===== verification/Server_Plugin.thy ===== *)
theory Server_Plugin
  imports Protocol_Handler Paths
begin

text \<open>
  Shared libraries (\<open>base/dynamic_lib.h\<close>, \<open>dynamic_lib_unix.cpp\<close>), the functions a plugin
  exports (\<open>plugin_api/plugin.h\<close>) and the plugin object the server holds
  (\<open>server_plugin/server_plugin.h\<close>, \<open>server_plugin.cpp\<close>). The dynamic linker is outside: a
  record of what \<open>dlopen\<close> and \<open>dlsym\<close> return. The locale \<open>server_plugin\<close> states what the server
  relies on.
\<close>

section \<open>Exported functions\<close>

text \<open>\<open>SockType\<close> has one enumerator; a library can return any other value.\<close>

datatype sock_type = TCP | OtherSockType int

text \<open>
  A symbol of a library, with what a call of it does. \<open>GetPluginName\<close> maps the capacity it is
  given to the bytes it writes; \<open>NewHandler\<close> may return NULL.
\<close>

datatype 'h proc =
    Proc_GetPluginName "nat \<Rightarrow> string"
  | Proc_SocketType sock_type
  | Proc_DefaultPort "16 word"
  | Proc_NewHandler "'h option"
  | Proc_RegisterLogFn
  | Proc_other

record ('l, 'h) linker =
  dlopen :: "string \<Rightarrow> 'l option"
  dlopen_errno :: "string \<Rightarrow> int"
  dlsym :: "'l \<Rightarrow> string \<Rightarrow> 'h proc option"

section \<open>DynamicLib\<close>

record 'l dynamic_lib =
  m_handle :: 'l

definition GetProc :: "('l, 'h) linker \<Rightarrow> 'l dynamic_lib \<Rightarrow> string \<Rightarrow> 'h proc option" where
  "GetProc dl lib name = dlsym dl (m_handle lib) (c_str name)"

text \<open>\<open>*err\<close> is set to \<open>errno\<close> whether or not the library was loaded.\<close>

definition Load :: "('l, 'h) linker \<Rightarrow> string \<Rightarrow> int option \<Rightarrow> 'l dynamic_lib option \<times> int option" where
  "Load dl p err =
     (let err = set_err (dlopen_errno dl (c_str p)) err in
      case dlopen dl (c_str p) of
        None \<Rightarrow> (None, err)
      | Some h \<Rightarrow> (Some \<lparr>m_handle = h\<rparr>, err))"

section \<open>The plugin object\<close>

text \<open>
  The virtual functions of \<open>ServerPlugin\<close>. \<open>Initialize\<close> yields the log function the plugin holds
  afterwards.
\<close>

record ('p, 'h) plugin_vt =
  Initialize :: "'p \<Rightarrow> log_fn option res"
  IsValid :: "'p \<Rightarrow> bool"
  port :: "'p \<Rightarrow> 16 word res"
  socket_type :: "'p \<Rightarrow> sock_type res"
  NewProtocolHandler :: "'p \<Rightarrow> 'h option res"
  name :: "'p \<Rightarrow> string res"

text \<open>A \<open>DynamicPlugin\<close> shares its library; the pointer may be null.\<close>

record 'l dynamic_plugin =
  m_lib :: "'l dynamic_lib option"

definition DynamicPlugin :: "'l dynamic_lib option \<Rightarrow> 'l dynamic_plugin" where
  "DynamicPlugin lib = \<lparr>m_lib = lib\<rparr>"

text \<open>
  Calling a symbol: the null pointer is an error, and so is a symbol that is not a function of
  the type it is cast to.
\<close>

definition call_proc :: "'h proc option \<Rightarrow> ('h proc \<Rightarrow> 'a option) \<Rightarrow> 'a res" where
  "call_proc s typed =
     (case s of
        None \<Rightarrow> Inl NullDereference
      | Some f \<Rightarrow> (case typed f of None \<Rightarrow> Inl BadFunctionCast | Some r \<Rightarrow> Inr r))"

fun as_GetPluginName :: "'h proc \<Rightarrow> (nat \<Rightarrow> string) option" where
  "as_GetPluginName (Proc_GetPluginName f) = Some f" | "as_GetPluginName _ = None"

fun as_SocketType :: "'h proc \<Rightarrow> sock_type option" where
  "as_SocketType (Proc_SocketType t) = Some t" | "as_SocketType _ = None"

fun as_DefaultPort :: "'h proc \<Rightarrow> 16 word option" where
  "as_DefaultPort (Proc_DefaultPort p) = Some p" | "as_DefaultPort _ = None"

fun as_NewHandler :: "'h proc \<Rightarrow> 'h option option" where
  "as_NewHandler (Proc_NewHandler h) = Some h" | "as_NewHandler _ = None"

fun as_RegisterLogFn :: "'h proc \<Rightarrow> (log_fn option \<Rightarrow> log_fn option \<Rightarrow> log_fn option) option" where
  "as_RegisterLogFn Proc_RegisterLogFn = Some RegisterLogFn" | "as_RegisterLogFn _ = None"

definition DynamicPlugin_Initialize :: "('l, 'h) linker \<Rightarrow> 'l dynamic_plugin \<Rightarrow> log_fn option res" where
  "DynamicPlugin_Initialize dl p =
     (case m_lib p of
        None \<Rightarrow> Inl NullDereference
      | Some lib \<Rightarrow>
          bind_res (call_proc (GetProc dl lib ''RegisterLogFn'') as_RegisterLogFn) (\<lambda>RegisterLog.
            Inr (RegisterLog (Some HostLog) None)))"

definition exportedNames :: "string list" where
  "exportedNames = [''GetPluginName'', ''SocketType'', ''DefaultPort'', ''NewHandler'', ''RegisterLogFn'']"

fun all_exported :: "('l, 'h) linker \<Rightarrow> 'l dynamic_lib \<Rightarrow> string list \<Rightarrow> bool" where
  "all_exported dl lib [] = True"
| "all_exported dl lib (n # ns) = (if GetProc dl lib n = None then False else all_exported dl lib ns)"

definition DynamicPlugin_IsValid :: "('l, 'h) linker \<Rightarrow> 'l dynamic_plugin \<Rightarrow> bool" where
  "DynamicPlugin_IsValid dl p =
     (case m_lib p of None \<Rightarrow> False | Some lib \<Rightarrow> all_exported dl lib exportedNames)"

definition DynamicPlugin_port :: "('l, 'h) linker \<Rightarrow> 'l dynamic_plugin \<Rightarrow> 16 word res" where
  "DynamicPlugin_port dl p =
     (case m_lib p of
        None \<Rightarrow> Inl NullDereference
      | Some lib \<Rightarrow> call_proc (GetProc dl lib ''DefaultPort'') as_DefaultPort)"

definition DynamicPlugin_sock_type :: "('l, 'h) linker \<Rightarrow> 'l dynamic_plugin \<Rightarrow> sock_type res" where
  "DynamicPlugin_sock_type dl p =
     (case m_lib p of
        None \<Rightarrow> Inl AssertionFailure
      | Some lib \<Rightarrow> call_proc (GetProc dl lib ''SocketType'') as_SocketType)"

definition DynamicPlugin_NewProtocolHandler :: "('l, 'h) linker \<Rightarrow> 'l dynamic_plugin \<Rightarrow> 'h option res" where
  "DynamicPlugin_NewProtocolHandler dl p =
     (case m_lib p of
        None \<Rightarrow> Inl AssertionFailure
      | Some lib \<Rightarrow> call_proc (GetProc dl lib ''NewHandler'') as_NewHandler)"

text \<open>
  \<open>name\<close>: the plugin writes into an array of 256 zeros, which is then read as a C string.
\<close>

definition name_size :: nat where
  "name_size = 256"

definition DynamicPlugin_name :: "('l, 'h) linker \<Rightarrow> 'l dynamic_plugin \<Rightarrow> string res" where
  "DynamicPlugin_name dl p =
     (case m_lib p of
        None \<Rightarrow> Inl AssertionFailure
      | Some lib \<Rightarrow>
          bind_res (call_proc (GetProc dl lib ''GetPluginName'') as_GetPluginName) (\<lambda>GetPluginName.
            let w = GetPluginName name_size; name = w @ drop (length w) (replicate name_size NUL) in
            if length w \<le> name_size \<and> NUL \<in> set name then Inr (c_str name) else Inl OutOfBounds))"

definition dynamic_vt :: "('l, 'h) linker \<Rightarrow> ('l dynamic_plugin, 'h) plugin_vt" where
  "dynamic_vt dl =
     \<lparr>Initialize = DynamicPlugin_Initialize dl, IsValid = DynamicPlugin_IsValid dl,
      port = DynamicPlugin_port dl, socket_type = DynamicPlugin_sock_type dl,
      NewProtocolHandler = DynamicPlugin_NewProtocolHandler dl, name = DynamicPlugin_name dl\<rparr>"

section \<open>What the server relies on\<close>

locale server_plugin =
  fixes vt :: "('p, 'h) plugin_vt" and usable :: "'p \<Rightarrow> bool"
  assumes valid: "usable p \<Longrightarrow> IsValid vt p"
    and initializes: "usable p \<Longrightarrow> Initialize vt p = Inr (Some HostLog)"
    and has_name: "usable p \<Longrightarrow> \<exists>s. name vt p = Inr s \<and> length s < name_size"
    and has_port: "usable p \<Longrightarrow> \<exists>n. port vt p = Inr n"
    and has_type: "usable p \<Longrightarrow> \<exists>t. socket_type vt p = Inr t"
    and makes_handler: "usable p \<Longrightarrow> \<exists>h. NewProtocolHandler vt p = Inr (Some h)"

text \<open>
  The exports of a library keep the documented interface: each of the five names, if exported,
  has the type of \<open>plugin.h\<close>; the name fits the capacity it is told, terminator included (an
  array it does not fill keeps its zeros), and \<open>NewHandler\<close> returns an instance.
\<close>

definition keeps_api :: "(string \<Rightarrow> 'h proc option) \<Rightarrow> bool" where
  "keeps_api exports \<longleftrightarrow>
     (case exports ''GetPluginName'' of
        Some (Proc_GetPluginName f) \<Rightarrow> length (f name_size) \<le> name_size \<and>
          (length (f name_size) < name_size \<or> NUL \<in> set (f name_size))
      | None \<Rightarrow> True | _ \<Rightarrow> False) \<and>
     (case exports ''SocketType'' of Some (Proc_SocketType _) \<Rightarrow> True | None \<Rightarrow> True | _ \<Rightarrow> False) \<and>
     (case exports ''DefaultPort'' of Some (Proc_DefaultPort _) \<Rightarrow> True | None \<Rightarrow> True | _ \<Rightarrow> False) \<and>
     (case exports ''NewHandler'' of Some (Proc_NewHandler (Some _)) \<Rightarrow> True | None \<Rightarrow> True | _ \<Rightarrow> False) \<and>
     (case exports ''RegisterLogFn'' of Some Proc_RegisterLogFn \<Rightarrow> True | None \<Rightarrow> True | _ \<Rightarrow> False)"

definition plugin_usable :: "('l, 'h) linker \<Rightarrow> 'l dynamic_plugin \<Rightarrow> bool" where
  "plugin_usable dl p \<longleftrightarrow>
     DynamicPlugin_IsValid dl p \<and>
     (case m_lib p of None \<Rightarrow> False | Some lib \<Rightarrow> keeps_api (dlsym dl (m_handle lib)))"

lemma c_str_names [simp]:
  "c_str ''GetPluginName'' = ''GetPluginName''" "c_str ''SocketType'' = ''SocketType''"
  "c_str ''DefaultPort'' = ''DefaultPort''" "c_str ''NewHandler'' = ''NewHandler''"
  "c_str ''RegisterLogFn'' = ''RegisterLogFn''"
  by (simp_all add: c_str_def)

lemma all_exported_iff: "all_exported dl lib ns \<longleftrightarrow> (\<forall>n \<in> set ns. GetProc dl lib n \<noteq> None)"
  by (induction ns) auto

lemma length_c_str_less: "NUL \<in> set s \<Longrightarrow> length (c_str s) < length s"
  by (induction s) (auto simp: c_str_def)

lemma usable_exports:
  assumes "plugin_usable dl p"
  obtains lib f t n h where "m_lib p = Some lib"
    "GetProc dl lib ''GetPluginName'' = Some (Proc_GetPluginName f)"
    "length (f name_size) \<le> name_size"
    "length (f name_size) < name_size \<or> NUL \<in> set (f name_size)"
    "GetProc dl lib ''SocketType'' = Some (Proc_SocketType t)"
    "GetProc dl lib ''DefaultPort'' = Some (Proc_DefaultPort n)"
    "GetProc dl lib ''NewHandler'' = Some (Proc_NewHandler (Some h))"
    "GetProc dl lib ''RegisterLogFn'' = Some Proc_RegisterLogFn"
proof -
  from assms obtain lib where lib: "m_lib p = Some lib" "keeps_api (dlsym dl (m_handle lib))"
      "\<forall>n \<in> set exportedNames. GetProc dl lib n \<noteq> None"
    by (auto simp: plugin_usable_def DynamicPlugin_IsValid_def all_exported_iff split: option.splits)
  then show ?thesis
    using that [OF lib(1)]
    by (auto simp: keeps_api_def exportedNames_def GetProc_def split: option.splits proc.splits)
qed

lemma plugin_name_ok:
  assumes "plugin_usable dl p"
  shows "\<exists>s. DynamicPlugin_name dl p = Inr s \<and> length s < name_size"
proof -
  from usable_exports [OF assms] obtain lib f where f: "m_lib p = Some lib"
      "GetProc dl lib ''GetPluginName'' = Some (Proc_GetPluginName f)"
      "length (f name_size) \<le> name_size" "length (f name_size) < name_size \<or> NUL \<in> set (f name_size)"
    by blast
  let ?name = "f name_size @ drop (length (f name_size)) (replicate name_size NUL)"
  from f(4) have "NUL \<in> set ?name" by auto
  moreover have "length ?name = name_size" using f(3) by simp
  ultimately show ?thesis
    using f length_c_str_less [of ?name] by (simp add: DynamicPlugin_name_def call_proc_def Let_def)
qed

lemma dynamic_vt_simps [simp]:
  "Initialize (dynamic_vt dl) = DynamicPlugin_Initialize dl"
  "IsValid (dynamic_vt dl) = DynamicPlugin_IsValid dl"
  "port (dynamic_vt dl) = DynamicPlugin_port dl"
  "socket_type (dynamic_vt dl) = DynamicPlugin_sock_type dl"
  "NewProtocolHandler (dynamic_vt dl) = DynamicPlugin_NewProtocolHandler dl"
  "name (dynamic_vt dl) = DynamicPlugin_name dl"
  by (simp_all add: dynamic_vt_def)

lemmas plugin_op_defs = DynamicPlugin_Initialize_def DynamicPlugin_port_def
  DynamicPlugin_sock_type_def DynamicPlugin_NewProtocolHandler_def call_proc_def

interpretation dynamic: server_plugin "dynamic_vt dl" "plugin_usable dl" for dl
proof unfold_locales
  fix p
  assume u: "plugin_usable dl p"
  show "IsValid (dynamic_vt dl) p" using u by (simp add: plugin_usable_def)
  show "\<exists>s. name (dynamic_vt dl) p = Inr s \<and> length s < name_size"
    using plugin_name_ok [OF u] by simp
  show "Initialize (dynamic_vt dl) p = Inr (Some HostLog)"
    by (rule usable_exports [OF u]) (simp add: plugin_op_defs RegisterLogFn_def)
  show "\<exists>n. port (dynamic_vt dl) p = Inr n"
    by (rule usable_exports [OF u]) (simp add: plugin_op_defs)
  show "\<exists>t. socket_type (dynamic_vt dl) p = Inr t"
    by (rule usable_exports [OF u]) (simp add: plugin_op_defs)
  show "\<exists>h. NewProtocolHandler (dynamic_vt dl) p = Inr (Some h)"
    by (rule usable_exports [OF u]) (simp add: plugin_op_defs)
qed

text \<open>
  A plugin whose new handlers also start out with the invariant of the handler contract and
  nothing to send.
\<close>

locale plugin_service = server_plugin vt usable
  for vt :: "('p, 'h) plugin_vt" and usable :: "'p \<Rightarrow> bool" +
  fixes pending :: "'h \<Rightarrow> string" and inv :: "'h \<Rightarrow> bool"
  assumes makes_idle: "usable p \<Longrightarrow> NewProtocolHandler vt p = Inr (Some h) \<Longrightarrow> inv h \<and> pending h = []"

definition plugin_serves ::
  "('l, 'h) linker \<Rightarrow> ('h \<Rightarrow> string) \<Rightarrow> ('h \<Rightarrow> bool) \<Rightarrow> 'l dynamic_plugin \<Rightarrow> bool" where
  "plugin_serves dl pending hinv p \<longleftrightarrow>
     plugin_usable dl p \<and>
     (case DynamicPlugin_NewProtocolHandler dl p of
        Inr (Some h) \<Rightarrow> hinv h \<and> pending h = []
      | _ \<Rightarrow> False)"

interpretation dynamic_service:
  plugin_service "dynamic_vt dl" "plugin_serves dl pending hinv" pending hinv for dl pending hinv
proof unfold_locales
  fix p
  assume s: "plugin_serves dl pending hinv p"
  then have u: "plugin_usable dl p" by (simp add: plugin_serves_def)
  show "IsValid (dynamic_vt dl) p" by (rule dynamic.valid [OF u])
  show "Initialize (dynamic_vt dl) p = Inr (Some HostLog)" by (rule dynamic.initializes [OF u])
  show "\<exists>s. name (dynamic_vt dl) p = Inr s \<and> length s < name_size" by (rule dynamic.has_name [OF u])
  show "\<exists>n. port (dynamic_vt dl) p = Inr n" by (rule dynamic.has_port [OF u])
  show "\<exists>t. socket_type (dynamic_vt dl) p = Inr t" by (rule dynamic.has_type [OF u])
  show "\<exists>h. NewProtocolHandler (dynamic_vt dl) p = Inr (Some h)" by (rule dynamic.makes_handler [OF u])
  show "hinv h \<and> pending h = []" if "NewProtocolHandler (dynamic_vt dl) p = Inr (Some h)" for h
    using s that by (simp add: plugin_serves_def)
qed

section \<open>Properties\<close>

definition missing_exports :: "('l, 'h) linker \<Rightarrow> 'l dynamic_lib \<Rightarrow> string list" where
  "missing_exports dl lib = filter (\<lambda>n. dlsym dl (m_handle lib) n = None) exportedNames"

text \<open>
  C14. The check of the exported names is what makes the later calls safe: without one of the
  five symbols a library is refused, and once a library is accepted and its exports keep the
  documented interface, registering the log, asking for name, port and socket type and making
  a handler all succeed, no null function is called, and the name is a C string that fits the
  256-byte array.
\<close>

theorem accepted_plugin_serves:
  assumes "keeps_api (dlsym dl (m_handle lib))"
  shows "if missing_exports dl lib = []
    then DynamicPlugin_IsValid dl (DynamicPlugin (Some lib)) \<and>
      DynamicPlugin_Initialize dl (DynamicPlugin (Some lib)) = Inr (Some HostLog) \<and>
      (\<exists>s n t h. DynamicPlugin_name dl (DynamicPlugin (Some lib)) = Inr s \<and> length s < name_size \<and>
        DynamicPlugin_port dl (DynamicPlugin (Some lib)) = Inr n \<and>
        DynamicPlugin_sock_type dl (DynamicPlugin (Some lib)) = Inr t \<and>
        DynamicPlugin_NewProtocolHandler dl (DynamicPlugin (Some lib)) = Inr (Some h))
    else \<not> DynamicPlugin_IsValid dl (DynamicPlugin (Some lib))"
proof -
  have iff: "DynamicPlugin_IsValid dl (DynamicPlugin (Some lib)) \<longleftrightarrow> missing_exports dl lib = []"
    by (auto simp: DynamicPlugin_IsValid_def DynamicPlugin_def all_exported_iff missing_exports_def
        filter_empty_conv exportedNames_def GetProc_def)
  show ?thesis
  proof (cases "missing_exports dl lib = []")
    case True
    then have "plugin_usable dl (DynamicPlugin (Some lib))"
      using iff assms by (simp add: plugin_usable_def DynamicPlugin_def)
    with True iff show ?thesis
      using dynamic.initializes [of dl] dynamic.has_name [of dl] dynamic.has_port [of dl]
        dynamic.has_type [of dl] dynamic.makes_handler [of dl] by simp
  next
    case False
    then show ?thesis using iff by simp
  qed
qed

text \<open>A linker with one library, whose exports are those of a small plugin.\<close>

definition echo_exports :: "string \<Rightarrow> nat proc option" where
  "echo_exports n =
     (if n = ''GetPluginName'' then Some (Proc_GetPluginName (\<lambda>cap. snprintf_str cap ''Echo''))
      else if n = ''SocketType'' then Some (Proc_SocketType TCP)
      else if n = ''DefaultPort'' then Some (Proc_DefaultPort 7)
      else if n = ''NewHandler'' then Some (Proc_NewHandler (Some 0))
      else if n = ''RegisterLogFn'' then Some Proc_RegisterLogFn
      else None)"

definition echo_linker :: "(string, nat) linker" where
  "echo_linker = \<lparr>dlopen = (\<lambda>p. if p = ''dir/a_plugin.so'' then Some p else None),
     dlopen_errno = (\<lambda>_. 2), dlsym = (\<lambda>_. echo_exports)\<rparr>"

lemma echo_keeps_api: "keeps_api echo_exports"
proof -
  have "length (snprintf_str name_size ''Echo'') < name_size"
    by (simp add: snprintf_str_def name_size_def c_str_def)
  then show ?thesis by (simp add: keeps_api_def echo_exports_def)
qed

theorem accepted_plugin_serves_witness:
  "DynamicPlugin_IsValid echo_linker (DynamicPlugin (Some \<lparr>m_handle = ''x''\<rparr>)) \<and>
   (\<exists>h. DynamicPlugin_NewProtocolHandler echo_linker (DynamicPlugin (Some \<lparr>m_handle = ''x''\<rparr>)) = Inr (Some h))"
proof -
  have "missing_exports echo_linker \<lparr>m_handle = ''x''\<rparr> = []"
    by (simp add: missing_exports_def exportedNames_def echo_linker_def echo_exports_def)
  then show ?thesis
    using accepted_plugin_serves [of echo_linker "\<lparr>m_handle = ''x''\<rparr>"] echo_keeps_api
    by (simp add: echo_linker_def) blast
qed

end
