(* ===== verification/Session.thy ===== *)
theory Session
  imports Sockets Server_Plugin
begin

text \<open>
  Sessions (\<open>server_core/session.h\<close>, \<open>session.cpp\<close>, \<open>tcp_session.h\<close>, \<open>tcp_session.cpp\<close>), without
  the acceptor's \<open>OnRead\<close>, which changes the server and is with it. A session is its socket and
  its handler pointer, and for an acceptor its plugin. The kernel's answers to \<open>recv\<close> and
  \<open>send\<close> are inputs. Facts about connections are proved once for every handler that keeps the
  contract \<open>protocol_handler\<close>.
\<close>

section \<open>Sessions\<close>

datatype ('h, 'p) session =
    ConnectionSession sock "'h option"
  | AcceptorSession tcp_listener "'h option" 'p

fun session_handle :: "('h, 'p) session \<Rightarrow> c_int" where
  "session_handle (ConnectionSession s _) = m_socket s"
| "session_handle (AcceptorSession l _ _) = m_socket l"

fun session_handler :: "('h, 'p) session \<Rightarrow> 'h option" where
  "session_handler (ConnectionSession _ h) = h"
| "session_handler (AcceptorSession _ h _) = h"

definition deref :: "'a option \<Rightarrow> 'a res" where
  "deref p = (case p of None \<Rightarrow> Inl NullDereference | Some x \<Rightarrow> Inr x)"

lemma deref_simps [simp]: "deref None = Inl NullDereference" "deref (Some x) = Inr x"
  by (simp_all add: deref_def)

text \<open>The destructor frees the handler through its pointer, then the socket is destroyed; the
  results of \<open>shutdown\<close> and \<open>close\<close> are not looked at.\<close>

fun session_socket_gone :: "('h, 'p) session \<Rightarrow> syscall list" where
  "session_socket_gone (ConnectionSession s _) = destroy_Socket 0 0 s"
| "session_socket_gone (AcceptorSession l _ _) = destroy_Socket 0 0 l"

definition destroy_session :: "('h, 'p) session \<Rightarrow> syscall list res" where
  "destroy_session s = bind_res (deref (session_handler s)) (\<lambda>_. Inr (session_socket_gone s))"

lemma session_socket_gone_closes: "closes (session_socket_gone s) = [session_handle s]"
  by (cases s) (simp_all add: destroy_Socket_def ShutDown_def Close_def)

fun session_HasDataToSend :: "'h proto_vt \<Rightarrow> ('h, 'p) session \<Rightarrow> bool res" where
  "session_HasDataToSend vt (ConnectionSession _ h) = bind_res (deref h) (\<lambda>h. Inr (HasDataToSend vt h))"
| "session_HasDataToSend vt (AcceptorSession _ _ _) = Inr False"

fun session_CanRead :: "'h proto_vt \<Rightarrow> ('h, 'p) session \<Rightarrow> bool res" where
  "session_CanRead vt (ConnectionSession s h) =
     bind_res (session_HasDataToSend vt (ConnectionSession s h :: ('h, 'p) session)) (\<lambda>b. Inr (\<not> b))"
| "session_CanRead vt (AcceptorSession _ _ _) = Inr True"

section \<open>Reading and writing a connection\<close>

text \<open>
  What the kernel has for a descriptor: \<open>None\<close> when \<open>recv\<close> fails, else the bytes that have
  arrived, of which it stores at most as many as the buffer takes. \<open>send\<close> likewise fails or
  accepts at most as many bytes as it is given.
\<close>

definition recv_bytes :: "int \<Rightarrow> string option \<Rightarrow> int \<times> string" where
  "recv_bytes cap avail =
     (case avail of None \<Rightarrow> (-1, []) | Some b \<Rightarrow> (int (length (take (nat cap) b)), take (nat cap) b))"

definition send_count :: "nat \<Rightarrow> nat option \<Rightarrow> int" where
  "send_count len accepts = (case accepts of None \<Rightarrow> -1 | Some k \<Rightarrow> int (min k len))"

definition Connection_OnRead ::
  "'h proto_vt \<Rightarrow> (nat \<Rightarrow> char) \<Rightarrow> string option \<Rightarrow> sock \<Rightarrow> 'h option \<Rightarrow>
     (int \<times> 'h option \<times> log_line list \<times> syscall list) res" where
  "Connection_OnRead vt raw avail s ph =
     bind_res (deref ph) (\<lambda>h.
       let chunk = AllocateChunk vt raw h; bufSize = int (length (m_buffer chunk));
           (rc, bytes) = recv_bytes bufSize avail;
           (bytesRead, calls) = TcpSocket_Receive rc bufSize s in
       if bytesRead < 1 then Inr (bytesRead, Some h, [], calls)
       else bind_res (chunk_store (chunk_fill chunk bytes) (nat bytesRead) NUL) (\<lambda>chunk.
            bind_res (DidReceive vt h chunk bytesRead) (\<lambda>(h', lines).
              Inr (bytesRead, Some h', lines, calls))))"

text \<open>
  The size is stored in an \<open>int\<close> on the way to \<open>send\<close>. Sending from a null pointer or past the
  end of the data, as a size that does not fit an \<open>int\<close> would ask for, is an error.
\<close>

definition Connection_OnWrite ::
  "'h proto_vt \<Rightarrow> nat option \<Rightarrow> sock \<Rightarrow> 'h option \<Rightarrow> (int \<times> 'h option \<times> syscall list) res" where
  "Connection_OnWrite vt accepts s ph =
     bind_res (deref ph) (\<lambda>h.
       let data = data_to_send vt h; sizeBytes = sint (int_of_size (data_to_send_size vt h)) in
       if sizeBytes \<noteq> 0 \<and> data = None then Inl NullDereference
       else if sizeBytes < 0 \<or> nat sizeBytes > length (case data of None \<Rightarrow> [] | Some d \<Rightarrow> d)
       then Inl OutOfBounds
       else
         let (sent, calls) = TcpSocket_Send (send_count (nat sizeBytes) accepts)
               (take (nat sizeBytes) (case data of None \<Rightarrow> [] | Some d \<Rightarrow> d)) s in
         if sent > 0 then bind_res (DidSend vt h sent) (\<lambda>h'. Inr (sent, Some h', calls))
         else Inr (sent, Some h, calls))"

section \<open>Connections of a handler that keeps the contract\<close>

context protocol_handler
begin

lemma can_read_iff:
  "inv h \<Longrightarrow> session_CanRead vt (ConnectionSession s (Some h)) = Inr (pending h = [])"
  by (simp add: has_data)

lemma reads:
  assumes "inv h" and "pending h = []" and "b \<noteq> []" and "length b < m_bufSize"
  shows "\<exists>h' l c. Connection_OnRead vt raw (Some b) s (Some h) =
      Inr (int (length b), Some h', l, [SysRecv (m_socket s) (int m_bufSize)]) \<and> inv h' \<and>
    DidReceive vt h c (int (length b)) = Inr (h', l) \<and> take (length b) (m_buffer c) = b \<and>
    length (m_buffer c) = m_bufSize"
proof -
  let ?c = "(chunk_fill (AllocateChunk vt raw h) b)\<lparr>m_buffer := (m_buffer (chunk_fill (AllocateChunk vt raw h) b))[length b := NUL]\<rparr>"
  have len: "length (m_buffer ?c) = m_bufSize"
    using chunk [of raw h] assms(4) by (simp add: chunk_fill_def)
  have bytes: "take (length b) (m_buffer ?c) = b" by (simp add: chunk_fill_def)
  obtain h' l where d: "DidReceive vt h ?c (int (length b)) = Inr (h', l)" "inv h'"
    using did_receive [of h "length b" ?c] assms len by auto
  have "Connection_OnRead vt raw (Some b) s (Some h) =
      Inr (int (length b), Some h', l, [SysRecv (m_socket s) (int m_bufSize)])"
    using assms chunk [of raw h] d(1)
    by (simp add: Connection_OnRead_def recv_bytes_def TcpSocket_Receive_def chunk_store_def
        chunk_fill_def Let_def)
  with d bytes len show ?thesis by blast
qed

lemma full_read_overflows:
  assumes "m_bufSize \<le> length b"
  shows "Connection_OnRead vt raw (Some b) s (Some h) = Inl OutOfBounds"
  using assms chunk [of raw h]
  by (simp add: Connection_OnRead_def recv_bytes_def TcpSocket_Receive_def chunk_store_def
      chunk_fill_def Let_def m_bufSize_def)

lemma read_stops:
  assumes "avail = None \<or> avail = Some []"
  shows "Connection_OnRead vt raw avail s (Some h) =
    Inr (if avail = None then -1 else 0, Some h, [], [SysRecv (m_socket s) (int m_bufSize)])"
  using assms chunk [of raw h]
  by (auto simp: Connection_OnRead_def recv_bytes_def TcpSocket_Receive_def Let_def)

lemma writes:
  assumes "inv h" and "pending h \<noteq> []" and "length (pending h) < 2 ^ 31" and "0 < k"
  shows "\<exists>h'. Connection_OnWrite vt (Some k) s (Some h) =
      Inr (int (min k (length (pending h))), Some h', [SysSend (m_socket s) (pending h)]) \<and>
    inv h' \<and> pending h' = drop k (pending h)"
proof -
  let ?n = "min k (length (pending h))"
  obtain h' where "DidSend vt h (int ?n) = Inr h'" "inv h'" "pending h' = drop ?n (pending h)"
    using did_send [OF assms(1), of ?n] assms by auto
  moreover from this have "pending h' = drop k (pending h)" by (simp add: min_def split: if_splits)
  ultimately show ?thesis
    using assms
    by (simp add: Connection_OnWrite_def data_size data sint_int_of_size send_count_def
        TcpSocket_Send_def Let_def del: of_nat_min)
qed

lemma write_stops:
  assumes "inv h" and "length (pending h) < 2 ^ 31" and "accepts = None \<or> accepts = Some 0"
  shows "\<exists>calls. Connection_OnWrite vt accepts s (Some h) =
    Inr (if accepts = None then -1 else 0, Some h, calls)"
  using assms
  by (cases "pending h = []")
    (auto simp: Connection_OnWrite_def data_size data sint_int_of_size send_count_def
        TcpSocket_Send_def Let_def)

lemma read_safe:
  assumes "inv h" and "pending h = []" and "\<And>b. avail = Some b \<Longrightarrow> length b < m_bufSize"
  shows "\<exists>n h' l calls. Connection_OnRead vt raw avail s (Some h) = Inr (n, Some h', l, calls) \<and>
    inv h' \<and> (h' = h \<or> (\<exists>c k. 0 < k \<and> k \<le> length (m_buffer c) \<and> length (m_buffer c) = m_bufSize \<and>
      DidReceive vt h c (int k) = Inr (h', l)))"
proof (cases "avail = None \<or> avail = Some []")
  case True
  from read_stops [OF this] show ?thesis using assms(1) by auto
next
  case False
  then obtain b where "avail = Some b" "b \<noteq> []" by auto
  have "length b < m_bufSize" by (rule assms(3)) fact
  with reads [OF assms(1,2) \<open>b \<noteq> []\<close>, of raw s] obtain h' l c where
    "Connection_OnRead vt raw (Some b) s (Some h) =
      Inr (int (length b), Some h', l, [SysRecv (m_socket s) (int m_bufSize)])" "inv h'"
    "DidReceive vt h c (int (length b)) = Inr (h', l)" "length (m_buffer c) = m_bufSize" by blast
  moreover from \<open>b \<noteq> []\<close> have "0 < length b" by simp
  ultimately show ?thesis
    using \<open>avail = Some b\<close> \<open>length b < m_bufSize\<close> by (metis order_less_imp_le)
qed

lemma write_safe:
  assumes "inv h" and "length (pending h) < 2 ^ 31"
  shows "\<exists>n h' calls. Connection_OnWrite vt accepts s (Some h) = Inr (n, Some h', calls) \<and>
    inv h' \<and> length (pending h') < 2 ^ 31"
proof (cases "pending h = [] \<or> accepts = None \<or> accepts = Some 0")
  case True
  have "\<exists>n calls. Connection_OnWrite vt accepts s (Some h) = Inr (n, Some h, calls)"
  proof (cases "pending h = []")
    case True
    then show ?thesis
      using assms by (cases accepts) (auto simp: Connection_OnWrite_def data_size send_count_def
          TcpSocket_Send_def Let_def)
  next
    case False
    with True write_stops [OF assms, of accepts s] show ?thesis by blast
  qed
  with assms show ?thesis by auto
next
  case False
  then obtain k where "accepts = Some k" "0 < k" "pending h \<noteq> []" by (cases accepts) auto
  with writes [OF assms(1) _ assms(2), of k s] assms(2) show ?thesis by auto
qed

end

section \<open>Sending in pieces\<close>

text \<open>
  What the peer gets when the connection is written repeatedly while it has data, the kernel
  accepting the given numbers of bytes; it stops when the connection would be closed.
\<close>

fun sent_bytes :: "int \<Rightarrow> syscall list \<Rightarrow> string" where
  "sent_bytes n (SysSend _ d # _) = take (nat n) d"
| "sent_bytes n _ = []"

fun keep_sending ::
  "'h proto_vt \<Rightarrow> sock \<Rightarrow> 'h option \<Rightarrow> nat option list \<Rightarrow> (string \<times> 'h option) res" where
  "keep_sending vt s ph [] = Inr ([], ph)"
| "keep_sending vt s ph (k # ks) =
     bind_res (session_CanRead vt (ConnectionSession s ph :: ('h, unit) session)) (\<lambda>idle.
       if idle then Inr ([], ph)
       else bind_res (Connection_OnWrite vt k s ph) (\<lambda>(sent, ph', calls).
         if sent < 1 then Inr ([], ph')
         else bind_res (keep_sending vt s ph' ks) (\<lambda>(w, ph''). Inr (sent_bytes sent calls @ w, ph''))))"

context protocol_handler
begin

lemma sends_prefix:
  assumes "inv h" and "length (pending h) < 2 ^ 31" and "\<forall>k \<in> set ks. 0 < k"
  shows "\<exists>w h'. keep_sending vt s (Some h) (map Some ks) = Inr (w, Some h') \<and> inv h' \<and>
    w @ pending h' = pending h \<and> (length (pending h) \<le> sum_list ks \<longrightarrow> pending h' = [])"
  using assms
proof (induction ks arbitrary: h)
  case (Cons k ks)
  show ?case
  proof (cases "pending h = []")
    case True
    then show ?thesis using Cons.prems by (simp add: has_data)
  next
    case False
    let ?n = "min k (length (pending h))"
    from writes [OF Cons.prems(1) False Cons.prems(2), of k s] Cons.prems(3) obtain h1 where
      h1: "Connection_OnWrite vt (Some k) s (Some h) =
        Inr (int ?n, Some h1, [SysSend (m_socket s) (pending h)])" "inv h1" "pending h1 = drop k (pending h)"
      by auto
    have small: "length (pending h1) < 2 ^ 31" and pos: "\<forall>k \<in> set ks. 0 < k"
      using h1(3) Cons.prems by simp_all
    from Cons.IH [OF h1(2) small pos] obtain w h' where
      w: "keep_sending vt s (Some h1) (map Some ks) = Inr (w, Some h')" "inv h'" "w @ pending h' = pending h1"
        "length (pending h1) \<le> sum_list ks \<longrightarrow> pending h' = []" by blast
    have "\<not> int ?n < 1" using False Cons.prems(3) by simp
    moreover have "take ?n (pending h) @ w @ pending h' = pending h"
      using w(3) h1(3) by (simp add: min_def)
    ultimately show ?thesis
      using w h1 False Cons.prems by (auto simp: has_data)
  qed
qed simp

end

end
