(* ===== verification/Plugin_Loader.thy ===== *)
theory Plugin_Loader
  imports Server_Plugin "HOL-Library.Multiset"
begin

text \<open>
  The plugin loader (\<open>server_plugin/plugin_loader.h\<close>, \<open>plugin_loader.cpp\<close>): the list of plugins
  it owns, with the lines it logs and the libraries it opens and gives up. A library is closed
  when the last pointer to it goes, which is when the plugin object that shares it is deleted or
  when the candidate is rejected.
\<close>

section \<open>The loader\<close>

record 'p plugin_loader =
  m_plugins :: "'p list"

datatype 'l lib_event = Opened 'l | Closed 'l

definition kDllExt :: string where
  "kDllExt = ''.so''"

definition plugin_wildcard :: string where
  "plugin_wildcard = ''*_plugin'' @ kDllExt"

definition AddPlugin :: "'p \<Rightarrow> 'p plugin_loader \<Rightarrow> 'p plugin_loader" where
  "AddPlugin plugin l = l\<lparr>m_plugins := m_plugins l @ [plugin]\<rparr>"

definition HasLoadedPlugins :: "'p plugin_loader \<Rightarrow> bool" where
  "HasLoadedPlugins l \<longleftrightarrow> m_plugins l \<noteq> []"

definition GetPlugins :: "'p plugin_loader \<Rightarrow> 'p list" where
  "GetPlugins l = m_plugins l"

definition lib_handles :: "'l dynamic_plugin \<Rightarrow> 'l list" where
  "lib_handles p = (case m_lib p of None \<Rightarrow> [] | Some lib \<Rightarrow> [m_handle lib])"

text \<open>Deleting every plugin closes their libraries, in the order of the list.\<close>

definition UnloadAll :: "'l dynamic_plugin plugin_loader \<Rightarrow> 'l dynamic_plugin plugin_loader \<times> 'l lib_event list" where
  "UnloadAll l = (l\<lparr>m_plugins := []\<rparr>, concat (map (\<lambda>p. map Closed (lib_handles p)) (m_plugins l)))"

section \<open>Loading\<close>

type_synonym 'l load_state = "'l dynamic_plugin plugin_loader \<times> log_line list \<times> 'l lib_event list"

text \<open>The body of the inner loop.\<close>

definition try_file :: "('l, 'h) linker \<Rightarrow> file_sys_object \<Rightarrow> 'l load_state \<Rightarrow> 'l load_state" where
  "try_file dl f st =
     (case st of (l, lines, evs) \<Rightarrow>
       let lines = lines @ [(INFO, ''Trying file '' @ path_string f)] in
       case Load dl (path_string f) (Some 0) of
         (None, err) \<Rightarrow>
           (l, lines @ [(WARN, ''Can't load shared library, err: '' @ dec_of_int (the err))], evs)
       | (Some pluginDll, err) \<Rightarrow>
           let plugin = DynamicPlugin (Some pluginDll); evs = evs @ [Opened (m_handle pluginDll)] in
           if \<not> DynamicPlugin_IsValid dl plugin
           then (l, lines @ [(WARN, ''Not a valid plugin'')], evs @ [Closed (m_handle pluginDll)])
           else (AddPlugin plugin l, lines, evs))"

text \<open>The body of the outer loop.\<close>

definition search_folder ::
  "unix_fs \<Rightarrow> ('l, 'h) linker \<Rightarrow> file_sys_object \<Rightarrow> 'l load_state \<Rightarrow> 'l load_state" where
  "search_folder fs dl f st =
     (case st of (l, lines, evs) \<Rightarrow>
       fold (try_file dl) (fst (GetFilesWildcard fs f plugin_wildcard [] None))
         (l, lines @ [(INFO, CHR 0x09 # ''Searching in subfolder '' @ path_string f)], evs))"

definition LoadAll ::
  "unix_fs \<Rightarrow> ('l, 'h) linker \<Rightarrow> string \<Rightarrow> 'l dynamic_plugin plugin_loader \<Rightarrow> 'l load_state option" where
  "LoadAll fs dl pluginsFolder l =
     map_option (\<lambda>r. fold (search_folder fs dl) (fst r @ [Folder pluginsFolder])
         (l, [(INFO, ''Searching for plugins in '' @ pluginsFolder)], []))
       (GetAllSubfolders fs (Folder pluginsFolder) [] False None)"

section \<open>What a search finds\<close>

text \<open>The candidates of a folder, and the plugins they give.\<close>

definition plugin_of :: "('l, 'h) linker \<Rightarrow> string \<Rightarrow> 'l dynamic_plugin list" where
  "plugin_of dl f =
     (case dlopen dl (c_str f) of
        None \<Rightarrow> []
      | Some h \<Rightarrow> filter (DynamicPlugin_IsValid dl) [DynamicPlugin (Some \<lparr>m_handle = h\<rparr>)])"

definition opened_by :: "('l, 'h) linker \<Rightarrow> string \<Rightarrow> 'l list" where
  "opened_by dl f = (case dlopen dl (c_str f) of None \<Rightarrow> [] | Some h \<Rightarrow> [h])"

fun opened :: "'l lib_event list \<Rightarrow> 'l list" where
  "opened [] = []" | "opened (Opened h # es) = h # opened es" | "opened (Closed h # es) = opened es"

fun closed :: "'l lib_event list \<Rightarrow> 'l list" where
  "closed [] = []" | "closed (Opened h # es) = closed es" | "closed (Closed h # es) = h # closed es"

lemma opened_append [simp]: "opened (a @ b) = opened a @ opened b" "closed (a @ b) = closed a @ closed b"
  by (induction a rule: opened.induct) simp_all

definition held :: "'l load_state \<Rightarrow> 'l list" where
  "held st = concat (map lib_handles (m_plugins (fst st)))"

text \<open>No library is leaked: what was opened is what is held plus what was closed.\<close>

definition balanced :: "'l load_state \<Rightarrow> bool" where
  "balanced st \<longleftrightarrow> mset (opened (snd (snd st))) = mset (held st) + mset (closed (snd (snd st)))"

lemma try_file_plugins: "m_plugins (fst (try_file dl f st)) = m_plugins (fst st) @ plugin_of dl (path_string f)"
  by (cases st) (simp add: try_file_def Load_def Let_def plugin_of_def AddPlugin_def split: option.split)

lemma try_file_balanced: "balanced st \<Longrightarrow> balanced (try_file dl f st)"
  by (cases st) (simp add: try_file_def Load_def Let_def balanced_def held_def AddPlugin_def
      lib_handles_def DynamicPlugin_def split: option.split)

lemma try_files:
  "m_plugins (fst (fold (try_file dl) fs st)) = m_plugins (fst st) @ concat (map (plugin_of dl \<circ> path_string) fs)"
  "balanced st \<Longrightarrow> balanced (fold (try_file dl) fs st)"
  by (induction fs arbitrary: st) (simp_all add: try_file_plugins try_file_balanced)

definition found_in :: "unix_fs \<Rightarrow> file_sys_object \<Rightarrow> file_sys_object list" where
  "found_in fs f = fst (GetFilesWildcard fs f plugin_wildcard [] None)"

lemma search_folder_effect:
  "m_plugins (fst (search_folder fs dl f st)) =
     m_plugins (fst st) @ concat (map (plugin_of dl \<circ> path_string) (found_in fs f))"
  "balanced st \<Longrightarrow> balanced (search_folder fs dl f st)"
  by (cases st; simp add: search_folder_def try_files found_in_def)
    (cases st; simp add: search_folder_def, rule try_files(2), simp add: balanced_def held_def)

lemma search_folders:
  "m_plugins (fst (fold (search_folder fs dl) folders st)) =
     m_plugins (fst st) @ concat (map (plugin_of dl \<circ> path_string) (concat (map (found_in fs) folders)))"
  "balanced st \<Longrightarrow> balanced (fold (search_folder fs dl) folders st)"
  by (induction folders arbitrary: st) (simp_all add: search_folder_effect)

lemma flat_search_returns: "\<exists>r. GetAllSubfolders fs f acc False err = Some r"
proof -
  have "\<exists>r. subfolder_loop fs False p names acc err = Some r" for p names acc err
  proof (induction names arbitrary: acc err)
    case (Cons n names)
    consider "dot_entry n" | "\<not> dot_entry n" "fstat_dir fs (c_str p) n = Some True"
      | "\<not> dot_entry n" "fstat_dir fs (c_str p) n \<noteq> Some True" by blast
    then show ?case
      by cases (simp_all add: Cons [simplified] subfolder_loop_dot subfolder_loop_folder subfolder_loop_other)
  qed (simp add: subfolder_loop_Nil)
  then show ?thesis by (simp add: GetAllSubfolders_def split: option.split)
qed

lemma plugin_of_valid: "p \<in> set (plugin_of dl f) \<Longrightarrow> DynamicPlugin_IsValid dl p"
  by (auto simp: plugin_of_def split: option.splits if_splits)

lemma LoadAll_effect:
  obtains folders err st where "GetAllSubfolders fs (Folder p) [] False None = Some (folders, err)"
    "LoadAll fs dl p l = Some st"
    "m_plugins (fst st) = m_plugins l @
       concat (map (plugin_of dl \<circ> path_string) (concat (map (found_in fs) (folders @ [Folder p]))))"
    "m_plugins l = [] \<Longrightarrow> balanced st"
proof -
  obtain folders err where f: "GetAllSubfolders fs (Folder p) [] False None = Some (folders, err)"
    using flat_search_returns [of fs "Folder p" "[]" None] by auto
  let ?st0 = "(l, [(INFO, ''Searching for plugins in '' @ p)], [])"
  let ?st = "fold (search_folder fs dl) (folders @ [Folder p]) ?st0"
  have "LoadAll fs dl p l = Some ?st" by (simp add: LoadAll_def f)
  moreover have "m_plugins (fst ?st) = m_plugins l @
       concat (map (plugin_of dl \<circ> path_string) (concat (map (found_in fs) (folders @ [Folder p]))))"
    by (subst search_folders(1)) simp
  moreover have "balanced ?st" if "m_plugins l = []"
    by (rule search_folders(2)) (simp add: balanced_def held_def that)
  ultimately show ?thesis using that [OF f] by blast
qed

lemma closed_UnloadAll: "closed (snd (UnloadAll l)) = concat (map lib_handles (m_plugins l))"
proof -
  have "closed (map Closed hs) = hs" for hs :: "'a list" by (induction hs) simp_all
  then have "closed (concat (map (\<lambda>p. map Closed (lib_handles p)) ps)) = concat (map lib_handles ps)"
    for ps :: "'a dynamic_plugin list" by (induction ps) simp_all
  then show ?thesis by (simp add: UnloadAll_def)
qed

section \<open>Properties\<close>

text \<open>The files a search of a tree tries: those of the direct subfolders first, then its own.\<close>

fun files_below :: "(string \<Rightarrow> bool) \<Rightarrow> string \<Rightarrow> (string \<times> node) list \<Rightarrow> string list" where
  "files_below m p [] = []"
| "files_below m p ((n, Dir es) # rest) = files_in m (child p n) es @ files_below m p rest"
| "files_below m p (_ # rest) = files_below m p rest"

lemma found_in_tree:
  "displays fs p (Dir es) \<Longrightarrow> found_in fs (Folder p) = map File (files_in (fnmatch fs plugin_wildcard) p es)"
proof -
  have "c_str plugin_wildcard = plugin_wildcard" by (simp add: plugin_wildcard_def kDllExt_def c_str_def)
  then show "displays fs p (Dir es) \<Longrightarrow> ?thesis"
    by (auto simp: found_in_def GetFilesWildcard_def wildcard_loop_tree)
qed

lemma found_in_subfolders:
  "displays_all fs p es \<Longrightarrow>
     concat (map (found_in fs) (map Folder (folders_in False p es))) =
     map File (files_below (fnmatch fs plugin_wildcard) p es)"
proof (induction es)
  case (Cons e es)
  obtain n t where e: "e = (n, t)" by (cases e)
  have locked: "found_in fs (Folder (child p n)) = []" if "t = Locked"
    using Cons.prems that by (simp add: e found_in_def GetFilesWildcard_def)
  show ?case
  proof (cases t)
    case (Dir es')
    then have "found_in fs (Folder (child p n)) = map File (files_in (fnmatch fs plugin_wildcard) (child p n) es')"
      using Cons.prems by (intro found_in_tree) (simp add: e)
    with Cons Dir show ?thesis by (simp add: e)
  qed (use Cons locked in \<open>simp_all add: e\<close>)
qed simp

text \<open>The files found in a displayed tree, as plugins.\<close>

lemma LoadAll_displayed:
  assumes "displays fs p (Dir es)"
  shows "\<exists>l' lines evs. LoadAll fs dl p l = Some (l', lines, evs) \<and>
    GetPlugins l' = GetPlugins l @ concat (map (plugin_of dl)
      (files_below (fnmatch fs plugin_wildcard) p es @ files_in (fnmatch fs plugin_wildcard) p es)) \<and>
    HasLoadedPlugins l' = (GetPlugins l' \<noteq> [])"
proof -
  have f: "GetAllSubfolders fs (Folder p) [] False None = Some (map Folder (folders_in False p es), None)"
    using GetAllSubfolders_tree [OF assms, of "[]" False None] by simp
  have d: "displays_all fs p es" using assms by simp
  obtain st where st: "LoadAll fs dl p l = Some st"
    "m_plugins (fst st) = m_plugins l @ concat (map (plugin_of dl \<circ> path_string)
       (concat (map (found_in fs) (map Folder (folders_in False p es) @ [Folder p]))))"
    by (rule LoadAll_effect [of fs p dl l]) (auto simp: f)
  have "concat (map (found_in fs) (map Folder (folders_in False p es) @ [Folder p])) =
      map File (files_below (fnmatch fs plugin_wildcard) p es @ files_in (fnmatch fs plugin_wildcard) p es)"
    unfolding map_append concat_append found_in_subfolders [OF d] by (simp add: found_in_tree [OF assms])
  with st(2) have "m_plugins (fst st) = m_plugins l @ concat (map (plugin_of dl)
      (files_below (fnmatch fs plugin_wildcard) p es @ files_in (fnmatch fs plugin_wildcard) p es))"
    by (simp only: map_map comp_def path_string_FileSysObject)
  with st(1) show ?thesis
    by (cases st) (simp add: GetPlugins_def HasLoadedPlugins_def)
qed

text \<open>
  C13. \<open>LoadAll\<close> on a folder tree returns, and adds after the plugins already held exactly one
  plugin for every file that matches \<open>*_plugin.so\<close> in a direct subfolder or in the folder itself,
  that the linker can open and that exports the five functions, in the order of the search;
  every other file is skipped without stopping the search.
\<close>

theorem LoadAll_tree:
  assumes "displays fs p (Dir es)"
  shows "\<exists>l' lines evs. LoadAll fs dl p l = Some (l', lines, evs) \<and>
    GetPlugins l' = GetPlugins l @ concat (map (plugin_of dl)
      (files_below (fnmatch fs plugin_wildcard) p es @ files_in (fnmatch fs plugin_wildcard) p es)) \<and>
    HasLoadedPlugins l' = (GetPlugins l' \<noteq> [])"
  by (rule LoadAll_displayed [OF assms])

theorem LoadAll_tree_witness:
  "\<exists>l' lines evs. LoadAll sample_fs echo_linker ''dir'' \<lparr>m_plugins = []\<rparr> = Some (l', lines, evs) \<and>
    GetPlugins l' = [DynamicPlugin (Some \<lparr>m_handle = ''dir/a_plugin.so''\<rparr>)]"
proof -
  have "plugin_of echo_linker ''dir/a_plugin.so'' = [DynamicPlugin (Some \<lparr>m_handle = ''dir/a_plugin.so''\<rparr>)]"
    "plugin_of echo_linker ''dir/http/http_plugin.so'' = []"
    by (simp_all add: plugin_of_def echo_linker_def c_str_def DynamicPlugin_IsValid_def DynamicPlugin_def
        exportedNames_def GetProc_def echo_exports_def)
  then show ?thesis
    using LoadAll_tree [OF sample_displayed [unfolded sample_tree_def], of echo_linker "\<lparr>m_plugins = []\<rparr>"]
    by (auto simp: files_in_def sample_fs_def ends_with_def plugin_wildcard_def kDllExt_def child_def GetPlugins_def)
qed

text \<open>
  No library is leaked or closed twice: whatever the file system and the linker do, loading
  into an empty loader returns, keeps only plugins that export the five functions, and after
  \<open>UnloadAll\<close> the libraries closed are, with their multiplicities, the libraries opened; a
  second \<open>UnloadAll\<close>, as the destructor does, closes nothing.
\<close>

theorem load_unload_balanced:
  "case LoadAll fs dl p \<lparr>m_plugins = []\<rparr> of
     None \<Rightarrow> False
   | Some (l, lines, evs) \<Rightarrow>
       list_all (DynamicPlugin_IsValid dl) (GetPlugins l) \<and>
       mset (closed (evs @ snd (UnloadAll l))) = mset (opened evs) \<and>
       \<not> HasLoadedPlugins (fst (UnloadAll l)) \<and> snd (UnloadAll (fst (UnloadAll l))) = []"
proof -
  obtain st folders where st: "LoadAll fs dl p \<lparr>m_plugins = []\<rparr> = Some st" "balanced st"
    "m_plugins (fst st) = [] @ concat (map (plugin_of dl \<circ> path_string)
       (concat (map (found_in fs) (folders @ [Folder p]))))"
    by (rule LoadAll_effect [of fs p dl "\<lparr>m_plugins = []\<rparr>"]) (simp only: plugin_loader.simps)
  have "list_all (DynamicPlugin_IsValid dl) (m_plugins (fst st))"
    unfolding st(3) by (auto simp: list_all_iff dest: plugin_of_valid)
  moreover have "mset (closed (snd (snd st) @ snd (UnloadAll (fst st)))) = mset (opened (snd (snd st)))"
    using st(2) by (simp add: closed_UnloadAll balanced_def held_def)
  moreover have "\<not> HasLoadedPlugins (fst (UnloadAll (fst st))) \<and> snd (UnloadAll (fst (UnloadAll (fst st)))) = []"
    by (simp add: UnloadAll_def HasLoadedPlugins_def)
  ultimately show ?thesis by (cases st) (simp add: st(1) GetPlugins_def)
qed

end
