(* ===== verification/Command_Line.thy ===== *)
theory Command_Line
  imports Prelude
begin

text \<open>
  The command line (\<open>base/command_line.h\<close>, \<open>command_line.cpp\<close>) on the UNIX side, where the
  string type is \<open>std::string\<close>: switches \<open>-name\<close> and \<open>-name=value\<close> in a map that keeps the
  first value of a name, and the process-wide instance.
\<close>

section \<open>Parsing one parameter\<close>

definition kSwitchPrefix :: char where "kSwitchPrefix = CHR ''-''"
definition kValueSeparator :: char where "kValueSeparator = CHR ''=''"

text \<open>\<open>std::string::find\<close>: the position of the first occurrence, \<open>None\<close> for \<open>npos\<close>.\<close>

fun find_char :: "char \<Rightarrow> string \<Rightarrow> nat option" where
  "find_char c [] = None"
| "find_char c (x # xs) = (if x = c then Some 0 else map_option Suc (find_char c xs))"

text \<open>
  \<open>None\<close> when the parameter is no switch. With a separator the name is the part between the
  prefix and the separator; without one the value keeps its initial empty content.
\<close>

definition ParseSwitch :: "string \<Rightarrow> (string \<times> string) option" where
  "ParseSwitch command =
     (case command of
        [] \<Rightarrow> None
      | c # _ \<Rightarrow>
          if c \<noteq> kSwitchPrefix then None
          else (case find_char kValueSeparator command of
                  None \<Rightarrow> Some (drop 1 command, [])
                | Some separatorPos \<Rightarrow>
                    Some (slice 1 (separatorPos - 1) command, drop (separatorPos + 1) command)))"

section \<open>The switches\<close>

record command_line =
  m_switches :: "string \<rightharpoonup> string"

text \<open>\<open>std::map::insert\<close> leaves an existing entry alone.\<close>

definition map_insert :: "'k \<Rightarrow> 'v \<Rightarrow> ('k \<rightharpoonup> 'v) \<Rightarrow> ('k \<rightharpoonup> 'v)" where
  "map_insert k v m = (case m k of None \<Rightarrow> m(k \<mapsto> v) | Some _ \<Rightarrow> m)"

definition add_param :: "string \<Rightarrow> (string \<rightharpoonup> string) \<Rightarrow> (string \<rightharpoonup> string)" where
  "add_param p m = (case ParseSwitch p of None \<Rightarrow> m | Some (n, v) \<Rightarrow> map_insert n v m)"

definition InitFromStringVec :: "string list \<Rightarrow> command_line \<Rightarrow> command_line" where
  "InitFromStringVec cmdParams cl = cl\<lparr>m_switches := fold add_param cmdParams Map.empty\<rparr>"

text \<open>\<open>argv\<close> holds C strings; index 0 is the program.\<close>

definition InitFromArgv :: "string list \<Rightarrow> command_line \<Rightarrow> command_line res" where
  "InitFromArgv argv cl =
     assert_res (argv \<noteq> []) (Inr (InitFromStringVec (map c_str (drop 1 argv)) cl))"

definition HasSwitch :: "command_line \<Rightarrow> string \<Rightarrow> bool" where
  "HasSwitch cl s \<longleftrightarrow> m_switches cl s \<noteq> None"

definition SwitchValue :: "command_line \<Rightarrow> string \<Rightarrow> string" where
  "SwitchValue cl s = (case m_switches cl s of None \<Rightarrow> [] | Some v \<Rightarrow> v)"

section \<open>The instance of the process\<close>

text \<open>\<open>m_currentProcCl\<close> is the state; \<open>Init\<close> sets it once.\<close>

definition Init :: "string list \<Rightarrow> command_line option \<Rightarrow> (bool \<times> command_line option) res" where
  "Init argv cur =
     (case cur of
        Some _ \<Rightarrow> Inr (False, cur)
      | None \<Rightarrow> bind_res (InitFromArgv argv \<lparr>m_switches = Map.empty\<rparr>) (\<lambda>cl. Inr (True, Some cl)))"

definition ForCurrentProcess :: "command_line option \<Rightarrow> command_line res" where
  "ForCurrentProcess cur = (case cur of None \<Rightarrow> Inl AssertionFailure | Some cl \<Rightarrow> Inr cl)"

section \<open>Lemmas\<close>

lemma find_char_None: "find_char c s = None \<longleftrightarrow> c \<notin> set s"
  by (induction s) auto

lemma find_char_append: "c \<notin> set s \<Longrightarrow> find_char c (s @ c # t) = Some (length s)"
  by (induction s) auto

lemma find_char_Some: "find_char c s = Some k \<Longrightarrow> \<exists>u v. s = u @ c # v \<and> length u = k \<and> c \<notin> set u"
proof (induction s arbitrary: k)
  case (Cons x s)
  show ?case
  proof (cases "x = c")
    case True
    with Cons.prems show ?thesis by (intro exI [of _ "[]"] exI [of _ s]) auto
  next
    case False
    with Cons obtain k' u v where "k = Suc k'" "s = u @ c # v" "length u = k'" "c \<notin> set u" by auto
    with False show ?thesis by (intro exI [of _ "x # u"] exI [of _ v]) auto
  qed
qed simp

text \<open>Printing a switch.\<close>

definition render_switch :: "string \<Rightarrow> string option \<Rightarrow> string" where
  "render_switch n v =
     kSwitchPrefix # n @ (case v of None \<Rightarrow> [] | Some x \<Rightarrow> kValueSeparator # x)"

lemma prefix_not_separator [simp]: "kSwitchPrefix \<noteq> kValueSeparator" "kValueSeparator \<noteq> kSwitchPrefix"
  by (simp_all add: kSwitchPrefix_def kValueSeparator_def)

lemma ParseSwitch_render:
  assumes "kValueSeparator \<notin> set n"
  shows "ParseSwitch (render_switch n v) = Some (n, case v of None \<Rightarrow> [] | Some x \<Rightarrow> x)"
proof (cases v)
  case None
  have "find_char kValueSeparator (kSwitchPrefix # n) = None"
    using assms prefix_not_separator unfolding find_char_None by simp
  with None show ?thesis
    by (simp add: ParseSwitch_def render_switch_def slice_def)
next
  case (Some x)
  then have s: "render_switch n v = (kSwitchPrefix # n) @ kValueSeparator # x"
    by (simp add: render_switch_def)
  have "find_char kValueSeparator (render_switch n v) = Some (Suc (length n))"
    unfolding s using assms prefix_not_separator by (subst find_char_append) auto
  then show ?thesis
    unfolding s using Some by (simp add: ParseSwitch_def slice_def)
qed

lemma ParseSwitch_None: "ParseSwitch p = None \<longleftrightarrow> p = [] \<or> hd p \<noteq> kSwitchPrefix"
  by (auto simp: ParseSwitch_def split: list.splits option.splits)

text \<open>Every accepted parameter is the printed form of what it is parsed to.\<close>

lemma render_ParseSwitch:
  assumes "ParseSwitch p = Some (n, v)"
  shows "kValueSeparator \<notin> set n \<and> (p = render_switch n (Some v) \<or> p = render_switch n None \<and> v = [])"
proof -
  from assms obtain r where p: "p = kSwitchPrefix # r"
    by (auto simp: ParseSwitch_def split: list.splits if_splits)
  show ?thesis
  proof (cases "find_char kValueSeparator r")
    case None
    with p assms show ?thesis
      by (auto simp: ParseSwitch_def find_char_None render_switch_def)
  next
    case (Some k)
    then obtain u w where "r = u @ kValueSeparator # w" "length u = k" "kValueSeparator \<notin> set u"
      using find_char_Some by blast
    with p assms Some show ?thesis
      by (auto simp: ParseSwitch_def render_switch_def slice_def)
  qed
qed

text \<open>What the list of parameters says about a name: the first switch with that name.\<close>

fun first_value :: "string \<Rightarrow> string list \<Rightarrow> string option" where
  "first_value n [] = None"
| "first_value n (p # ps) =
     (case ParseSwitch p of
        Some (k, v) \<Rightarrow> if k = n then Some v else first_value n ps
      | None \<Rightarrow> first_value n ps)"

lemma fold_add_param:
  "fold add_param ps m n = (case m n of Some v \<Rightarrow> Some v | None \<Rightarrow> first_value n ps)"
  by (induction ps arbitrary: m) (auto simp: add_param_def map_insert_def split: option.splits)

lemma first_value_render:
  assumes "kValueSeparator \<notin> set n" and "first_value n ps = None"
  shows "first_value n (ps @ render_switch n v # qs) = Some (case v of None \<Rightarrow> [] | Some x \<Rightarrow> x)"
  using assms by (induction ps) (auto simp: ParseSwitch_render split: option.splits if_splits)

section \<open>Properties\<close>

text \<open>
  C18. \<open>ParseSwitch\<close> and the printed form of a switch are inverse to each other: a printed switch
  whose name has no separator parses back to its name and value, and whatever parses is the
  printed form of what it was parsed to, with a name that has no separator.
\<close>

theorem ParseSwitch_roundtrip:
  assumes "kValueSeparator \<notin> set n"
  shows "ParseSwitch (render_switch n v) = Some (n, case v of None \<Rightarrow> [] | Some x \<Rightarrow> x) \<and>
    (case ParseSwitch p of
       None \<Rightarrow> take 1 p \<noteq> [kSwitchPrefix]
     | Some (k, x) \<Rightarrow> kValueSeparator \<notin> set k \<and> p \<in> {render_switch k (Some x), render_switch k None} \<and>
         (p = render_switch k None) = (kValueSeparator \<notin> set p))"
proof (rule conjI)
  show "ParseSwitch (render_switch n v) = Some (n, case v of None \<Rightarrow> [] | Some x \<Rightarrow> x)"
    using assms by (rule ParseSwitch_render)
next
  show "case ParseSwitch p of
       None \<Rightarrow> take 1 p \<noteq> [kSwitchPrefix]
     | Some (k, x) \<Rightarrow> kValueSeparator \<notin> set k \<and> p \<in> {render_switch k (Some x), render_switch k None} \<and>
         (p = render_switch k None) = (kValueSeparator \<notin> set p)"
  proof (cases "ParseSwitch p")
    case None
    moreover from None have "p = [] \<or> hd p \<noteq> kSwitchPrefix" by (rule ParseSwitch_None [THEN iffD1])
    ultimately show ?thesis by (cases p) auto
  next
    case (Some kx)
    obtain k x where kx: "kx = (k, x)" by (cases kx)
    from render_ParseSwitch [OF Some [unfolded kx]]
    have "kValueSeparator \<notin> set k" "p = render_switch k (Some x) \<or> p = render_switch k None" by auto
    then show ?thesis
      by (auto simp: Some kx render_switch_def)
  qed
qed

theorem ParseSwitch_roundtrip_witness:
  "ParseSwitch (render_switch ''serverIp'' (Some ''10.0.0.1'')) = Some (''serverIp'', ''10.0.0.1'')"
  using ParseSwitch_roundtrip [of "''serverIp''" "Some ''10.0.0.1''" "''-logToFile''"]
  by (simp add: kValueSeparator_def)

text \<open>
  After the process-wide initialisation a switch is present exactly when some parameter
  parses to its name, and its value is that of the first such parameter (later ones are
  ignored); an absent switch has the empty value. A second initialisation is refused and
  changes nothing.
\<close>

theorem Init_first_wins:
  assumes "argv \<noteq> []"
  shows "\<exists>cl. Init argv None = Inr (True, Some cl) \<and> ForCurrentProcess (Some cl) = Inr cl \<and>
    HasSwitch cl n = (first_value n (map c_str (tl argv)) \<noteq> None) \<and>
    SwitchValue cl n = (case first_value n (map c_str (tl argv)) of None \<Rightarrow> [] | Some v \<Rightarrow> v) \<and>
    Init argv' (Some cl) = Inr (False, Some cl)"
  using assms
  by (auto simp: Init_def InitFromArgv_def InitFromStringVec_def HasSwitch_def SwitchValue_def
      fold_add_param ForCurrentProcess_def drop_Suc split: option.splits)

theorem Init_first_wins_witness:
  "\<exists>cl. Init [''mod_server'', ''-serverIp=127.0.0.1'', ''plugins'', ''-logToFile'', ''-serverIp=1.1.1.1''] None =
      Inr (True, Some cl) \<and>
    HasSwitch cl ''serverIp'' \<and> SwitchValue cl ''serverIp'' = ''127.0.0.1''"
  using Init_first_wins [of "[''mod_server'', ''-serverIp=127.0.0.1'', ''plugins'', ''-logToFile'', ''-serverIp=1.1.1.1'']"
      "''serverIp''"]
  by (auto simp: c_str_def ParseSwitch_def kSwitchPrefix_def kValueSeparator_def slice_def)

end
