(* ===== verification/Server.thy ===== *)
theory Server
  imports Session Plugin_Loader Command_Line
begin

text \<open>
  The server (\<open>server_core/server.h\<close>, \<open>server.cpp\<close>) and the acceptor's \<open>OnRead\<close>
  (\<open>tcp_session.cpp\<close>). Sessions live on a heap and are known by their addresses, so that a use
  after \<open>delete\<close> is an error of the model; the log and the system calls are kept as they are
  made. The kernel, the allocator and the plugins' environment are inputs, one record for the
  start and one for each round of the loop.
\<close>

section \<open>Descriptor sets\<close>

type_synonym fd_set = "nat set"

definition FD_SETSIZE :: int where
  "FD_SETSIZE = 1024"

text \<open>The macros index an array of bits; a descriptor out of its range is undefined behaviour.\<close>

definition FD_SET :: "c_int \<Rightarrow> fd_set \<Rightarrow> fd_set res" where
  "FD_SET fd s = (if 0 \<le> sint fd \<and> sint fd < FD_SETSIZE then Inr (insert (nat (sint fd)) s) else Inl OutOfBounds)"

definition FD_ISSET :: "c_int \<Rightarrow> fd_set \<Rightarrow> bool res" where
  "FD_ISSET fd s = (if 0 \<le> sint fd \<and> sint fd < FD_SETSIZE then Inr (nat (sint fd) \<in> s) else Inl OutOfBounds)"

datatype select_out =
    SelectTimeout
  | SelectFailed int
  | SelectReady "nat set" "nat set"

text \<open>
  \<open>select\<close> leaves in each set the descriptors below \<open>nfds\<close> that are ready and returns their
  number; at a timeout it empties the sets.
\<close>

fun apply_select :: "select_out \<Rightarrow> nat \<Rightarrow> fd_set \<Rightarrow> fd_set \<Rightarrow> int \<times> fd_set \<times> fd_set" where
  "apply_select SelectTimeout nfds r w = (0, {}, {})"
| "apply_select (SelectFailed _) nfds r w = (-1, r, w)"
| "apply_select (SelectReady rs ws) nfds r w =
     (let r' = r \<inter> rs \<inter> {..<nfds}; w' = w \<inter> ws \<inter> {..<nfds} in
      (int (card r') + int (card w'), r', w'))"

section \<open>The state\<close>

record ('h, 'p) server =
  m_pluginLoader :: "'p plugin_loader"
  m_sessions :: "nat list"
  m_maxListen :: int
  m_maxFd :: c_int
  m_masterSet :: fd_set
  heap :: "(nat \<times> ('h, 'p) session) list"
  server_log :: "log_line list"
  kernel_calls :: "syscall list"

definition Server :: "('h, 'p) server" where
  "Server = \<lparr>m_pluginLoader = \<lparr>m_plugins = []\<rparr>, m_sessions = [], m_maxListen = FD_SETSIZE - 2, m_maxFd = 0,
     m_masterSet = {}, heap = [], server_log = [], kernel_calls = []\<rparr>"

definition say :: "LogSeverity \<Rightarrow> string \<Rightarrow> ('h, 'p) server \<Rightarrow> ('h, 'p) server" where
  "say sev msg S = S\<lparr>server_log := server_log S @ [(sev, msg)]\<rparr>"

definition says :: "log_line list \<Rightarrow> ('h, 'p) server \<Rightarrow> ('h, 'p) server" where
  "says lines S = S\<lparr>server_log := server_log S @ lines\<rparr>"

definition did :: "syscall list \<Rightarrow> ('h, 'p) server \<Rightarrow> ('h, 'p) server" where
  "did cs S = S\<lparr>kernel_calls := kernel_calls S @ cs\<rparr>"

definition session_at :: "('h, 'p) server \<Rightarrow> nat \<Rightarrow> ('h, 'p) session res" where
  "session_at S a = (case map_of (heap S) a of None \<Rightarrow> Inl UseAfterFree | Some s \<Rightarrow> Inr s)"

definition store_session :: "nat \<Rightarrow> ('h, 'p) session \<Rightarrow> ('h, 'p) server \<Rightarrow> ('h, 'p) server" where
  "store_session a s S = S\<lparr>heap := map (\<lambda>(k, x). (k, if k = a then s else x)) (heap S)\<rparr>"

definition new_session :: "nat \<Rightarrow> ('h, 'p) session \<Rightarrow> ('h, 'p) server \<Rightarrow> ('h, 'p) server" where
  "new_session a s S = S\<lparr>heap := (a, s) # heap S\<rparr>"

definition open_fds :: "('h, 'p) server \<Rightarrow> c_int list" where
  "open_fds S = map (\<lambda>e. session_handle (snd e)) (heap S)"

section \<open>Loading plugins\<close>

definition LoadPlugins ::
  "unix_fs \<Rightarrow> ('l, 'h) linker \<Rightarrow> string \<Rightarrow> ('h, 'l dynamic_plugin) server \<Rightarrow>
     (bool \<times> ('h, 'l dynamic_plugin) server \<times> 'l lib_event list) option" where
  "LoadPlugins fs dl pluginsFolder S =
     (if HasLoadedPlugins (m_pluginLoader S)
      then Some (False, say INFO ''Plugins were already loaded, don't load again'' S, [])
      else map_option (\<lambda>(l, lines, evs).
             (HasLoadedPlugins l,
              says lines (say INFO (''Loading plugins from '' @ pluginsFolder) S)\<lparr>m_pluginLoader := l\<rparr>, evs))
           (LoadAll fs dl pluginsFolder (m_pluginLoader S)))"

definition UnloadAllPlugins ::
  "('h, 'l dynamic_plugin) server \<Rightarrow> ('h, 'l dynamic_plugin) server \<times> 'l lib_event list" where
  "UnloadAllPlugins S = (case UnloadAll (m_pluginLoader S) of (l, evs) \<Rightarrow> (S\<lparr>m_pluginLoader := l\<rparr>, evs))"

text \<open>The destructor unloads the plugins; the sessions are not deleted.\<close>

definition destroy_Server ::
  "('h, 'l dynamic_plugin) server \<Rightarrow> ('h, 'l dynamic_plugin) server \<times> 'l lib_event list" where
  "destroy_Server S = UnloadAllPlugins S"

section \<open>Sessions of the server\<close>

text \<open>
  \<open>sockId >= m_maxFd\<close> compares an \<open>int\<close> with an \<open>unsigned int\<close>, so it is the unsigned comparison;
  \<open>sockId + 1\<close> is computed in \<open>int\<close>.
\<close>

definition RegisterSession :: "nat \<Rightarrow> ('h, 'p) server \<Rightarrow> ('h, 'p) server res" where
  "RegisterSession a S =
     bind_res (session_at S a) (\<lambda>s.
       let sockId = session_handle s in
       if sockId \<ge> m_maxFd S
       then if sockId = 0x7FFFFFFF then Inl SignedOverflow
            else Inr (S\<lparr>m_maxFd := sockId + 1, m_sessions := m_sessions S @ [a]\<rparr>)
       else Inr (S\<lparr>m_sessions := m_sessions S @ [a]\<rparr>))"

text \<open>
  What the start asks of the platform; the functions of a number go by the plugin's place, and
  \<open>socket\<close>, like \<open>accept\<close> later, also depends on the descriptors that are open.
\<close>

record init_io =
  raw_ip :: "nat \<Rightarrow> char"
  inet_addr :: "string \<Rightarrow> 32 word"
  socket_fd :: "c_int list \<Rightarrow> nat \<Rightarrow> c_int"
  socket_errno :: "nat \<Rightarrow> int"
  bind_rc :: "nat \<Rightarrow> int"
  bind_errno :: "nat \<Rightarrow> int"
  listen_rc :: "nat \<Rightarrow> int"
  listen_errno :: "nat \<Rightarrow> int"
  init_addr :: "nat list \<Rightarrow> nat"

text \<open>
  The TCP branch of the loop body: open, bind and listen, each failure logged and the socket
  destroyed, then an acceptor session with a null handler.
\<close>

definition start_listener ::
  "('p, 'h) plugin_vt \<Rightarrow> init_io \<Rightarrow> nat \<Rightarrow> 'p \<Rightarrow> ip_endpoint \<Rightarrow> ('h, 'p) server \<Rightarrow> ('h, 'p) server res" where
  "start_listener pv io i p ep S =
     bind_res (TcpListener (raw_ip io) ep) (\<lambda>l.
     let (opened, l, calls) = TcpSocket_Open (socket_fd io (open_fds S) i) l; S = did calls S in
     if \<not> opened
     then bind_res (name pv p) (\<lambda>n. Inr (did (destroy_Socket 0 0 l)
            (say ERR (''Socket wasn't opened '' @ n @ '': '' @ dec_of_int (socket_errno io i)) S)))
     else
     let (bound, err, calls) = Bind (inet_addr io) (bind_rc io i) (bind_errno io i) l; S = did calls S in
     if \<not> bound
     then bind_res (name pv p) (\<lambda>n. Inr (did (destroy_Socket 0 0 l)
            (say ERR (''Socket wasn't bound '' @ n @ '': '' @ dec_of_int err) S)))
     else
     let (listening, calls) = Listen (m_maxListen S) (listen_rc io i) l; S = did calls S in
     if \<not> listening
     then bind_res (name pv p) (\<lambda>n. Inr (did (destroy_Socket 0 0 l)
            (say ERR (''Socket isn't listening '' @ n @ '': '' @ dec_of_int (listen_errno io i)) S)))
     else
       let a = init_addr io (map fst (heap S)) in
       RegisterSession a (new_session a (AcceptorSession l None p) S))"

definition init_plugin ::
  "('p, 'h) plugin_vt \<Rightarrow> command_line option \<Rightarrow> init_io \<Rightarrow> nat \<Rightarrow> 'p \<Rightarrow> ('h, 'p) server \<Rightarrow> ('h, 'p) server res" where
  "init_plugin pv cl io i p S =
     bind_res (name pv p) (\<lambda>n.
     let S = say INFO (''Initializing plugin: '' @ n) S in
     bind_res (Initialize pv p) (\<lambda>_.
     bind_res (ForCurrentProcess cl) (\<lambda>cl.
     bind_res (IPEndPoint_str (raw_ip io) (SwitchValue cl ''serverIp'') 0) (\<lambda>ep.
     bind_res (port pv p) (\<lambda>port.
     let ep = set_port port ep; at = ep_ip ep @ '': '' @ dec_of_nat (unat (m_port ep)) in
     bind_res (name pv p) (\<lambda>n.
     if \<not> endpoint_IsValid (inet_addr io) ep
     then Inr (say WARN (''Plugin '' @ n @ '' returned invalid IPEndPoint: '' @ at) S)
     else
       let S = say INFO (''Plugin '' @ n @ '' will serve connections on '' @ at) S in
       bind_res (socket_type pv p) (\<lambda>ty.
         case ty of
           TCP \<Rightarrow> start_listener pv io i p ep S
         | OtherSockType _ \<Rightarrow> Inr (say WARN ''Unsupported socket type'' S))))))))"

fun init_plugins ::
  "('p, 'h) plugin_vt \<Rightarrow> command_line option \<Rightarrow> init_io \<Rightarrow> nat \<Rightarrow> 'p list \<Rightarrow> ('h, 'p) server \<Rightarrow> ('h, 'p) server res" where
  "init_plugins pv cl io i [] S = Inr S"
| "init_plugins pv cl io i (p # ps) S =
     bind_res (init_plugin pv cl io i p S) (init_plugins pv cl io (Suc i) ps)"

definition InitPlugins ::
  "('p, 'h) plugin_vt \<Rightarrow> command_line option \<Rightarrow> init_io \<Rightarrow> ('h, 'p) server \<Rightarrow> ('h, 'p) server res" where
  "InitPlugins pv cl io S = init_plugins pv cl io 0 (GetPlugins (m_pluginLoader S)) S"

section \<open>Reading and writing sessions\<close>

text \<open>
  What one round asks of the platform: the handlers' functions as their files and clock are in
  this round, the answers to \<open>select\<close>, \<open>recv\<close>, \<open>send\<close> and \<open>accept\<close> (the latter depends on the
  descriptors that are open) and the addresses \<open>new\<close> returns, given those in use.
\<close>

record 'h round_io =
  handlers :: "'h proto_vt"
  selects :: select_out
  raw_chunk :: "nat \<Rightarrow> char"
  recvs :: "c_int \<Rightarrow> string option"
  recv_errno :: "c_int \<Rightarrow> int"
  sends :: "c_int \<Rightarrow> nat option"
  send_errno :: "c_int \<Rightarrow> int"
  accepts :: "c_int list \<Rightarrow> c_int \<Rightarrow> c_int"
  new_addr :: "nat list \<Rightarrow> nat"

text \<open>
  \<open>AcceptorSession::OnRead\<close>. The plugin pointer is used, so the loader must still hold the
  plugin. The result of \<open>accept\<close> is not checked.
\<close>

definition connected_line :: "c_int \<Rightarrow> string \<Rightarrow> string" where
  "connected_line sock n =
     ''Socket connected: '' @ dec_of_int (sint sock) @ '' Handled by plugin: \"'' @ n @ ''\"''"

definition Acceptor_OnRead ::
  "('p, 'h) plugin_vt \<Rightarrow> 'h round_io \<Rightarrow> tcp_listener \<Rightarrow> 'p \<Rightarrow> ('h, 'p) server \<Rightarrow> (int \<times> ('h, 'p) server) res" where
  "Acceptor_OnRead pv io l p S =
     (let (sock, calls) = Accept (accepts io (open_fds S) (m_socket l)) l; S = did calls S in
      if p \<notin> set (GetPlugins (m_pluginLoader S)) then Inl UseAfterFree
      else
      bind_res (NewProtocolHandler pv p) (\<lambda>h.
      let a = new_addr io (map fst (heap S)); S = new_session a (ConnectionSession (TcpSocket sock) h) S in
      bind_res (name pv p) (\<lambda>n.
      let S = say INFO (connected_line sock n) S in
      bind_res (RegisterSession a S) (\<lambda>S. Inr (1, S)))))"

text \<open>The virtual calls on a session: the result, the value of \<open>err\<close> and the new state.\<close>

definition session_OnRead ::
  "('p, 'h) plugin_vt \<Rightarrow> 'h round_io \<Rightarrow> nat \<Rightarrow> ('h, 'p) server \<Rightarrow> (int \<times> int \<times> ('h, 'p) server) res" where
  "session_OnRead pv io a S =
     bind_res (session_at S a) (\<lambda>s. case s of
       ConnectionSession sk ph \<Rightarrow>
         bind_res (Connection_OnRead (handlers io) (raw_chunk io) (recvs io (m_socket sk)) sk ph)
           (\<lambda>(n, ph', lines, calls).
             Inr (n, recv_errno io (m_socket sk),
               says lines (did calls (store_session a (ConnectionSession sk ph') S))))
     | AcceptorSession l ph p \<Rightarrow>
         bind_res (Acceptor_OnRead pv io l p S) (\<lambda>(n, S). Inr (n, 0, S)))"

definition session_OnWrite ::
  "'h round_io \<Rightarrow> nat \<Rightarrow> ('h, 'p) server \<Rightarrow> (int \<times> int \<times> ('h, 'p) server) res" where
  "session_OnWrite io a S =
     bind_res (session_at S a) (\<lambda>s. case s of
       ConnectionSession sk ph \<Rightarrow>
         bind_res (Connection_OnWrite (handlers io) (sends io (m_socket sk)) sk ph)
           (\<lambda>(n, ph', calls).
             Inr (n, send_errno io (m_socket sk), did calls (store_session a (ConnectionSession sk ph') S)))
     | AcceptorSession _ _ _ \<Rightarrow> Inr (0, 0, S))"

section \<open>The round\<close>

fun fill_set ::
  "(('h, 'p) session \<Rightarrow> bool res) \<Rightarrow> ('h, 'p) server \<Rightarrow> nat list \<Rightarrow> fd_set \<Rightarrow> fd_set res" where
  "fill_set cond S [] fds = Inr fds"
| "fill_set cond S (a # as) fds =
     bind_res (session_at S a) (\<lambda>s.
     bind_res (cond s) (\<lambda>b.
     bind_res (if b then FD_SET (session_handle s) fds else Inr fds) (fill_set cond S as)))"

definition FillReadyRead :: "'h proto_vt \<Rightarrow> ('h, 'p) server \<Rightarrow> fd_set \<Rightarrow> fd_set res" where
  "FillReadyRead vt S readSet = fill_set (session_CanRead vt) S (m_sessions S) readSet"

definition FillReadyWrite :: "'h proto_vt \<Rightarrow> ('h, 'p) server \<Rightarrow> fd_set \<Rightarrow> fd_set res" where
  "FillReadyWrite vt S writeSet = fill_set (session_HasDataToSend vt) S (m_sessions S) writeSet"

definition FillError :: "fd_set \<Rightarrow> fd_set" where
  "FillError errorSet = errorSet"

definition CloseOutdatedConnections :: "('h, 'p) server \<Rightarrow> ('h, 'p) server" where
  "CloseOutdatedConnections S = S"

text \<open>\<open>v.erase(std::find(...))\<close>: erasing the end iterator is undefined behaviour.\<close>

definition RemoveFromVector :: "'a list \<Rightarrow> 'a \<Rightarrow> 'a list res" where
  "RemoveFromVector v elem = (if elem \<in> set v then Inr (remove1 elem v) else Inl EraseEnd)"

definition ReportSocketIOError :: "c_int \<Rightarrow> int \<Rightarrow> int \<Rightarrow> ('h, 'p) server \<Rightarrow> ('h, 'p) server" where
  "ReportSocketIOError handle bytes err S =
     (let at = dec_of_int (sint handle) @ '': '' @ dec_of_int err in
      if bytes = 0 then say INFO (''Socket closed '' @ at) S
      else if bytes = -1 then say ERR (''Socket error '' @ at) S
      else say ERR (''Socket error < -1 '' @ at) S)"

text \<open>What \<open>ReadData\<close> and \<open>SendData\<close> do with a session whose call returned less than 1.\<close>

definition drop_session :: "nat \<Rightarrow> int \<Rightarrow> int \<Rightarrow> ('h, 'p) server \<Rightarrow> ('h, 'p) server res" where
  "drop_session a n err S =
     bind_res (session_at S a) (\<lambda>s.
     let S = ReportSocketIOError (session_handle s) n err S in
     bind_res (RemoveFromVector (m_sessions S) a) (\<lambda>v.
     let S = S\<lparr>m_sessions := v\<rparr> in
     bind_res (destroy_session s) (\<lambda>calls.
       Inr (did calls (S\<lparr>heap := filter (\<lambda>e. fst e \<noteq> a) (heap S)\<rparr>)))))"

definition read_session ::
  "('p, 'h) plugin_vt \<Rightarrow> 'h round_io \<Rightarrow> nat \<Rightarrow> ('h, 'p) server \<Rightarrow> ('h, 'p) server res" where
  "read_session pv io a S =
     bind_res (session_OnRead pv io a S) (\<lambda>(n, err, S). if n < 1 then drop_session a n err S else Inr S)"

definition write_session :: "'h round_io \<Rightarrow> nat \<Rightarrow> ('h, 'p) server \<Rightarrow> ('h, 'p) server res" where
  "write_session io a S =
     bind_res (session_OnWrite io a S) (\<lambda>(n, err, S). if n < 1 then drop_session a n err S else Inr S)"

text \<open>The first loop of \<open>ReadData\<close>, \<open>SendData\<close> and \<open>ErrorSessions\<close> copies the selected sessions.\<close>

fun selected :: "fd_set \<Rightarrow> ('h, 'p) server \<Rightarrow> nat list \<Rightarrow> nat list res" where
  "selected fds S [] = Inr []"
| "selected fds S (a # as) =
     bind_res (session_at S a) (\<lambda>s.
     bind_res (FD_ISSET (session_handle s) fds) (\<lambda>b.
     bind_res (selected fds S as) (\<lambda>l. Inr (if b then a # l else l))))"

fun each :: "(nat \<Rightarrow> 's \<Rightarrow> 's res) \<Rightarrow> nat list \<Rightarrow> 's \<Rightarrow> 's res" where
  "each f [] S = Inr S"
| "each f (a # as) S = bind_res (f a S) (each f as)"

definition ReadData ::
  "('p, 'h) plugin_vt \<Rightarrow> 'h round_io \<Rightarrow> fd_set \<Rightarrow> ('h, 'p) server \<Rightarrow> ('h, 'p) server res" where
  "ReadData pv io readSet S =
     bind_res (selected readSet S (m_sessions S)) (\<lambda>readSessions. each (read_session pv io) readSessions S)"

definition SendData :: "'h round_io \<Rightarrow> fd_set \<Rightarrow> ('h, 'p) server \<Rightarrow> ('h, 'p) server res" where
  "SendData io writeSet S =
     bind_res (selected writeSet S (m_sessions S)) (\<lambda>sendSessions. each (write_session io) sendSessions S)"

text \<open>\<open>ErrorSessions\<close> has no caller; it removes the sessions without deleting them.\<close>

definition error_session :: "nat \<Rightarrow> ('h, 'p) server \<Rightarrow> ('h, 'p) server res" where
  "error_session a S =
     bind_res (session_at S a) (\<lambda>_.
     bind_res (RemoveFromVector (m_sessions S) a) (\<lambda>v. Inr (S\<lparr>m_sessions := v\<rparr>)))"

definition ErrorSessions :: "fd_set \<Rightarrow> ('h, 'p) server \<Rightarrow> ('h, 'p) server res" where
  "ErrorSessions errorSet S =
     bind_res (selected errorSet S (m_sessions S)) (\<lambda>errSessions. each error_session errSessions S)"

text \<open>
  The body of the loop of \<open>Run\<close>, with whether the loop goes on. \<open>FillError\<close> is given the write
  set.
\<close>

definition run_round ::
  "('p, 'h) plugin_vt \<Rightarrow> 'h round_io \<Rightarrow> ('h, 'p) server \<Rightarrow> (bool \<times> ('h, 'p) server) res" where
  "run_round pv io S =
     bind_res (FillReadyRead (handlers io) S {}) (\<lambda>readSet.
     bind_res (FillReadyWrite (handlers io) S {}) (\<lambda>writeSet.
     let writeSet = FillError writeSet;
         (res, readSet, writeSet) = apply_select (selects io) (nat (sint (m_maxFd S))) readSet writeSet;
         S = CloseOutdatedConnections S in
     if res = -1
     then Inr (False, say ERR (''Select error '' @ dec_of_int (case selects io of SelectFailed e \<Rightarrow> e | _ \<Rightarrow> 0)) S)
     else
       let S = (if res = 0 then say INFO ''Select timed out'' S else S) in
       bind_res (ReadData pv io readSet S) (\<lambda>S.
       bind_res (SendData io writeSet S) (\<lambda>S. Inr (True, S)))))"

text \<open>
  The loop, observed for the given rounds, with whether it is still running; it ends by itself
  only when \<open>select\<close> fails.
\<close>

fun run_loop ::
  "('p, 'h) plugin_vt \<Rightarrow> 'h round_io list \<Rightarrow> ('h, 'p) server \<Rightarrow> (bool \<times> ('h, 'p) server) res" where
  "run_loop pv [] S = Inr (True, S)"
| "run_loop pv (io # ios) S =
     bind_res (run_round pv io S) (\<lambda>(go, S). if go then run_loop pv ios S else Inr (False, S))"

definition Run ::
  "('p, 'h) plugin_vt \<Rightarrow> command_line option \<Rightarrow> init_io \<Rightarrow> 'h round_io list \<Rightarrow> ('h, 'p) server \<Rightarrow>
     (bool \<times> ('h, 'p) server) res" where
  "Run pv cl init ios S =
     bind_res (InitPlugins pv cl init S) (\<lambda>S.
     if m_sessions S = [] then Inr (False, say WARN ''No sessions were registered.'' S)
     else run_loop pv ios S)"

end
