(* ===== verification/Server_Invariant.thy ===== *)
theory Server_Invariant
  imports Server
begin

text \<open>
  The invariant of the server and its proof: every operation of a round keeps it and none of them
  goes wrong, as long as the kernel, the allocator, the plugins and the peers keep to the
  contracts stated here. The facts are proved once for every kind of plugin
  (\<open>plugin_service\<close>) and handler (\<open>protocol_handler\<close>).
\<close>

section \<open>Contracts\<close>

definition fd_ok :: "c_int \<Rightarrow> bool" where
  "fd_ok fd \<longleftrightarrow> 0 \<le> sint fd \<and> sint fd < FD_SETSIZE"

text \<open>The bound on the number of open descriptors under which \<open>select\<close> can serve them.\<close>

definition max_open :: nat where
  "max_open = 1000"

text \<open>Responses fit the \<open>int\<close> their size is passed in.\<close>

definition responses_fit :: "'h proto_vt \<Rightarrow> ('h \<Rightarrow> string) \<Rightarrow> ('h \<Rightarrow> bool) \<Rightarrow> bool" where
  "responses_fit vt pnd hinv \<longleftrightarrow>
     (\<forall>h c n h' l. hinv h \<longrightarrow> pnd h = [] \<longrightarrow> 0 < n \<longrightarrow> n \<le> length (m_buffer c) \<longrightarrow>
        length (m_buffer c) = m_bufSize \<longrightarrow> DidReceive vt h c (int n) = Inr (h', l) \<longrightarrow> length (pnd h') < 2 ^ 31)"

text \<open>
  The platform in a round, as its manuals describe it: \<open>recv\<close> stores at most as many bytes as it is
  given room for; \<open>accept\<close> returns -1, or a descriptor that is not open and is small while few are
  open, and whether it fails does not depend on what else is open; \<open>new\<close> returns an address not
  in use. The handlers keep the contract of \<open>protocol_handler\<close>.
\<close>

definition kernel_ok :: "('h \<Rightarrow> string) \<Rightarrow> ('h \<Rightarrow> bool) \<Rightarrow> 'h round_io \<Rightarrow> bool" where
  "kernel_ok pnd hinv io \<longleftrightarrow>
     (\<forall>fd b. recvs io fd = Some b \<longrightarrow> length b \<le> m_bufSize) \<and>
     (\<forall>fds fd. accepts io fds fd = kInvalidSocket \<longleftrightarrow> accepts io [] fd = kInvalidSocket) \<and>
     (\<forall>fds fd. length fds < max_open \<longrightarrow> accepts io fds fd \<noteq> kInvalidSocket \<longrightarrow>
        accepts io fds fd \<notin> set fds \<and> fd_ok (accepts io fds fd)) \<and>
     (\<forall>l. new_addr io l \<notin> set l) \<and>
     protocol_handler (handlers io) pnd hinv \<and> responses_fit (handlers io) pnd hinv"

section \<open>The invariant\<close>

fun session_ok ::
  "('p \<Rightarrow> bool) \<Rightarrow> ('h \<Rightarrow> string) \<Rightarrow> ('h \<Rightarrow> bool) \<Rightarrow> 'p list \<Rightarrow> ('h, 'p) session \<Rightarrow> bool" where
  "session_ok use pnd hinv ps (ConnectionSession s ph) =
     (case ph of None \<Rightarrow> False | Some h \<Rightarrow> hinv h \<and> length (pnd h) < 2 ^ 31)"
| "session_ok use pnd hinv ps (AcceptorSession l ph p) = (p \<in> set ps \<and> use p)"

text \<open>
  The sessions in the vector are exactly the live ones, each once; their descriptors are distinct,
  fit a descriptor set and are below the bound given to \<open>select\<close>; connections have a handler that
  keeps its invariant and acceptors a plugin that is still loaded.
\<close>

definition server_ok :: "('p \<Rightarrow> bool) \<Rightarrow> ('h \<Rightarrow> string) \<Rightarrow> ('h \<Rightarrow> bool) \<Rightarrow> ('h, 'p) server \<Rightarrow> bool" where
  "server_ok use pnd hinv S \<longleftrightarrow>
     distinct (m_sessions S) \<and> distinct (map fst (heap S)) \<and> set (m_sessions S) = fst ` set (heap S) \<and>
     distinct (open_fds S) \<and> m_maxFd S \<le> 1024 \<and>
     (\<forall>e \<in> set (heap S). fd_ok (session_handle (snd e)) \<and> session_handle (snd e) < m_maxFd S \<and>
        session_ok use pnd hinv (GetPlugins (m_pluginLoader S)) (snd e))"

text \<open>
  What is left of the invariant once a failed \<open>accept\<close> has been taken for a connection: a session
  may then hold the invalid descriptor.
\<close>

definition core_ok :: "('p \<Rightarrow> bool) \<Rightarrow> ('h \<Rightarrow> string) \<Rightarrow> ('h \<Rightarrow> bool) \<Rightarrow> ('h, 'p) server \<Rightarrow> bool" where
  "core_ok use pnd hinv S \<longleftrightarrow>
     distinct (m_sessions S) \<and> distinct (map fst (heap S)) \<and> set (m_sessions S) = fst ` set (heap S) \<and>
     (\<forall>e \<in> set (heap S). (fd_ok (session_handle (snd e)) \<or> session_handle (snd e) = kInvalidSocket) \<and>
        session_ok use pnd hinv (GetPlugins (m_pluginLoader S)) (snd e))"

lemma server_ok_core: "server_ok u q i S \<Longrightarrow> core_ok u q i S"
  by (auto simp: server_ok_def core_ok_def)

lemma output_simps [simp]:
  "heap (say v m S) = heap S" "heap (says ls S) = heap S" "heap (did cs S) = heap S"
  "m_sessions (say v m S) = m_sessions S" "m_sessions (says ls S) = m_sessions S" "m_sessions (did cs S) = m_sessions S"
  "m_maxFd (say v m S) = m_maxFd S" "m_maxFd (says ls S) = m_maxFd S" "m_maxFd (did cs S) = m_maxFd S"
  "m_pluginLoader (say v m S) = m_pluginLoader S" "m_pluginLoader (says ls S) = m_pluginLoader S"
  "m_pluginLoader (did cs S) = m_pluginLoader S"
  "open_fds (say v m S) = open_fds S" "open_fds (says ls S) = open_fds S" "open_fds (did cs S) = open_fds S"
  by (simp_all add: say_def says_def did_def open_fds_def)

lemma server_ok_output [simp]:
  "server_ok u q i (say v m S) = server_ok u q i S"
  "server_ok u q i (says ls S) = server_ok u q i S"
  "server_ok u q i (did cs S) = server_ok u q i S"
  "core_ok u q i (say v m S) = core_ok u q i S"
  "core_ok u q i (says ls S) = core_ok u q i S"
  "core_ok u q i (did cs S) = core_ok u q i S"
  by (simp_all add: server_ok_def core_ok_def)

lemma report_simps [simp]:
  "heap (ReportSocketIOError fd n err S) = heap S"
  "m_sessions (ReportSocketIOError fd n err S) = m_sessions S"
  "m_maxFd (ReportSocketIOError fd n err S) = m_maxFd S"
  "m_pluginLoader (ReportSocketIOError fd n err S) = m_pluginLoader S"
  by (simp_all add: ReportSocketIOError_def Let_def)

lemma store_simps [simp]:
  "m_sessions (store_session a s S) = m_sessions S" "m_maxFd (store_session a s S) = m_maxFd S"
  "m_pluginLoader (store_session a s S) = m_pluginLoader S"
  "map fst (heap (store_session a s S)) = map fst (heap S)"
  "length (heap (store_session a s S)) = length (heap S)"
  by (simp_all add: store_session_def comp_def case_prod_beta)

lemma session_at_live:
  assumes "distinct (map fst (heap S))" and "(a, s) \<in> set (heap S)"
  shows "session_at S a = Inr s"
  using map_of_is_SomeI [OF assms] by (simp add: session_at_def)

lemma live_unique:
  "distinct (map fst (heap S)) \<Longrightarrow> (a, s) \<in> set (heap S) \<Longrightarrow> (a, s') \<in> set (heap S) \<Longrightarrow> s = s'"
  using map_of_is_SomeI by fastforce

lemma live_session:
  assumes "server_ok u q i S" and "a \<in> set (m_sessions S)"
  obtains s where "(a, s) \<in> set (heap S)" "session_at S a = Inr s"
  using assms session_at_live [of S a] unfolding server_ok_def by auto

lemma server_ok_live:
  assumes "server_ok u q i S" and "(a, s) \<in> set (heap S)"
  shows "fd_ok (session_handle s)" and "session_handle s < m_maxFd S"
    and "session_ok u q i (GetPlugins (m_pluginLoader S)) s" and "session_at S a = Inr s"
    and "a \<in> set (m_sessions S)"
  using assms session_at_live [of S a s] unfolding server_ok_def by force+

lemma core_ok_live:
  assumes "core_ok u q i S" and "(a, s) \<in> set (heap S)"
  shows "fd_ok (session_handle s) \<or> session_handle s = kInvalidSocket"
    and "session_ok u q i (GetPlugins (m_pluginLoader S)) s" and "session_at S a = Inr s"
    and "a \<in> set (m_sessions S)"
  using assms session_at_live [of S a s] unfolding core_ok_def by force+

lemma in_store:
  assumes "distinct (map fst (heap S))" and "(a, s) \<in> set (heap S)"
  shows "set (heap (store_session a s' S)) = insert (a, s') (set (heap S) - {(a, s)})"
proof -
  have "(\<lambda>e. (fst e, if fst e = a then s' else snd e)) ` set (heap S) =
      insert (a, s') (set (heap S) - {(a, s)})" (is "?f ` _ = _")
  proof
    show "?f ` set (heap S) \<subseteq> insert (a, s') (set (heap S) - {(a, s)})"
      by (auto split: if_splits)
    have "(a, s') \<in> ?f ` set (heap S)" using assms(2) by force
    moreover have "e \<in> ?f ` set (heap S)" if "e \<in> set (heap S) - {(a, s)}" for e
    proof -
      have "fst e \<noteq> a" using that live_unique [OF assms] by (cases e) auto
      then have "e = ?f e" by simp
      with that show ?thesis by blast
    qed
    ultimately show "insert (a, s') (set (heap S) - {(a, s)}) \<subseteq> ?f ` set (heap S)" by blast
  qed
  then show ?thesis by (simp add: store_session_def case_prod_beta)
qed

lemma store_ok:
  assumes "core_ok u q i S" and "(a, s) \<in> set (heap S)"
    and "session_handle s' = session_handle s" and "session_ok u q i (GetPlugins (m_pluginLoader S)) s'"
  shows "core_ok u q i (store_session a s' S)"
    and "server_ok u q i S \<Longrightarrow> server_ok u q i (store_session a s' S)"
proof -
  have d: "distinct (map fst (heap S))" using assms(1) by (simp add: core_ok_def)
  have "session_handle (if k = a then s' else x) = session_handle x" if "(k, x) \<in> set (heap S)" for k x
    using that live_unique [OF d assms(2)] assms(3) by auto
  then have fds: "open_fds (store_session a s' S) = open_fds S"
    by (auto simp: open_fds_def store_session_def)
  have dom: "fst ` set (heap (store_session a s' S)) = fst ` set (heap S)"
    using store_simps(4) [of a s' S] by (metis list.set_map)
  with assms show "core_ok u q i (store_session a s' S)"
    unfolding core_ok_def store_simps in_store [OF d assms(2)] by auto
  show "server_ok u q i (store_session a s' S)" if "server_ok u q i S"
    using that assms fds dom unfolding server_ok_def store_simps in_store [OF d assms(2)] by auto
qed

lemma server_ok_fds: "server_ok u q i S \<Longrightarrow> fd \<in> set (open_fds S) \<Longrightarrow> fd_ok fd"
  by (auto simp: server_ok_def open_fds_def)

lemma fd_ok_word: "fd_ok fd \<longleftrightarrow> fd < 1024"
proof
  assume "fd_ok fd"
  then have "0 \<le> sint fd" "sint fd < 1024" by (simp_all add: fd_ok_def FD_SETSIZE_def)
  then have "uint fd < 1024" by (simp add: uint_sint take_bit_int_eq_self)
  then show "fd < 1024" by (simp add: word_less_def)
next
  assume fd: "fd < 1024"
  then have "uint fd < 1024" by (simp add: word_less_def)
  then have "sint fd = uint fd" unfolding sint_uint
    by (intro signed_take_bit_int_eq_self) (simp_all add: order_trans [OF _ uint_ge_0])
  with \<open>uint fd < 1024\<close> show "fd_ok fd" by (simp add: fd_ok_def FD_SETSIZE_def)
qed

lemma server_ok_register:
  assumes "server_ok u q i S" and "a \<notin> set (map fst (heap S))" and "fd_ok (session_handle s)"
    and "session_handle s \<notin> set (open_fds S)" and "session_ok u q i (GetPlugins (m_pluginLoader S)) s"
  shows "\<exists>S'. RegisterSession a (new_session a s S) = Inr S' \<and> server_ok u q i S' \<and>
    heap S' = (a, s) # heap S \<and> m_sessions S' = m_sessions S @ [a] \<and> m_pluginLoader S' = m_pluginLoader S"
proof -
  let ?fd = "session_handle s"
  have small: "?fd < 1024" using assms(3) by (simp add: fd_ok_word)
  have above: "?fd < ?fd + 1" "?fd + 1 \<le> 1024" "?fd \<noteq> 0x7FFFFFFF"
  proof -
    show "?fd < ?fd + 1" using small by unat_arith simp
    show "?fd + 1 \<le> 1024" by (rule inc_le [OF small])
    show "?fd \<noteq> 0x7FFFFFFF" using small by auto
  qed
  let ?max = "if m_maxFd S \<le> ?fd then ?fd + 1 else m_maxFd S"
  let ?S = "S\<lparr>heap := (a, s) # heap S, m_maxFd := ?max, m_sessions := m_sessions S @ [a]\<rparr>"
  have "RegisterSession a (new_session a s S) = Inr ?S"
    using above by (simp add: RegisterSession_def new_session_def session_at_def Let_def)
  moreover have "server_ok u q i ?S"
  proof -
    have "session_handle (snd e) < ?max" if "e \<in> set (heap S)" for e
      using assms(1) that above(1) unfolding server_ok_def by (auto intro: less_le_trans less_trans)
    moreover have "?fd < ?max" using above(1) by auto
    moreover have "?max \<le> 1024" using assms(1) above(2) by (simp add: server_ok_def)
    ultimately show ?thesis
      using assms unfolding server_ok_def by (auto simp: open_fds_def)
  qed
  ultimately show ?thesis by (intro exI [of _ ?S]) simp
qed

text \<open>Also a session with the invalid descriptor is registered.\<close>

lemma core_ok_register:
  assumes "core_ok u q i S" and "a \<notin> set (map fst (heap S))"
    and "fd_ok (session_handle s) \<or> session_handle s = kInvalidSocket"
    and "session_ok u q i (GetPlugins (m_pluginLoader S)) s"
  shows "\<exists>S'. RegisterSession a (new_session a s S) = Inr S' \<and> core_ok u q i S' \<and>
    heap S' = (a, s) # heap S \<and> m_sessions S' = m_sessions S @ [a] \<and> m_pluginLoader S' = m_pluginLoader S"
proof -
  have "session_handle s \<noteq> 0x7FFFFFFF" using assms(3) by (auto simp: fd_ok_word kInvalidSocket_def)
  let ?max = "if m_maxFd S \<le> session_handle s then session_handle s + 1 else m_maxFd S"
  let ?S = "S\<lparr>heap := (a, s) # heap S, m_maxFd := ?max, m_sessions := m_sessions S @ [a]\<rparr>"
  have "RegisterSession a (new_session a s S) = Inr ?S"
    using \<open>session_handle s \<noteq> 0x7FFFFFFF\<close>
    by (simp add: RegisterSession_def new_session_def session_at_def Let_def)
  moreover have "core_ok u q i ?S" using assms by (auto simp: core_ok_def)
  ultimately show ?thesis by (intro exI [of _ ?S]) simp
qed

lemma drop_ok:
  fixes S :: "('h, 'p) server"
  assumes "core_ok u q i S" and "(a, ConnectionSession sk (Some h)) \<in> set (heap S)"
  shows "\<exists>S'. drop_session a n err S = Inr S' \<and> core_ok u q i S' \<and> (server_ok u q i S \<longrightarrow> server_ok u q i S') \<and>
    heap S' = filter (\<lambda>e. fst e \<noteq> a) (heap S) \<and> m_sessions S' = remove1 a (m_sessions S) \<and>
    m_pluginLoader S' = m_pluginLoader S"
proof -
  note live = core_ok_live [OF assms]
  let ?R = "ReportSocketIOError (m_socket sk) n err S"
  let ?S = "did (session_socket_gone (ConnectionSession sk (Some h) :: ('h, 'p) session))
    (?R\<lparr>m_sessions := remove1 a (m_sessions S), heap := filter (\<lambda>e. fst e \<noteq> a) (heap S)\<rparr>)"
  have "drop_session a n err S = Inr ?S"
    using live by (simp add: drop_session_def RemoveFromVector_def destroy_session_def Let_def)
  moreover have d: "distinct (map fst (filter (\<lambda>e. fst e \<noteq> a) (heap S)))"
    "set (remove1 a (m_sessions S)) = fst ` set (filter (\<lambda>e. fst e \<noteq> a) (heap S))"
    using assms(1) by (auto simp: core_ok_def set_remove1_eq intro: distinct_map_filter)
  moreover have "core_ok u q i ?S" using assms(1) d by (auto simp: core_ok_def)
  moreover have "server_ok u q i ?S" if "server_ok u q i S"
  proof -
    have "distinct (map (\<lambda>e. session_handle (snd e)) (filter (\<lambda>e. fst e \<noteq> a) (heap S)))"
      using that by (auto simp: server_ok_def open_fds_def intro: distinct_map_filter)
    then show ?thesis using that d by (auto simp: server_ok_def open_fds_def)
  qed
  ultimately show ?thesis by (intro exI [of _ ?S]) simp
qed

section \<open>One session\<close>

fun idle :: "('h \<Rightarrow> string) \<Rightarrow> ('h, 'p) session \<Rightarrow> bool" where
  "idle pnd (ConnectionSession _ ph) = (case ph of None \<Rightarrow> True | Some h \<Rightarrow> pnd h = [])"
| "idle pnd (AcceptorSession _ _ _) = True"

fun is_connection :: "('h, 'p) session \<Rightarrow> bool" where
  "is_connection (ConnectionSession _ _) = True"
| "is_connection (AcceptorSession _ _ _) = False"

definition acceptors :: "('h, 'p) server \<Rightarrow> (nat \<times> ('h, 'p) session) set" where
  "acceptors S = {e \<in> set (heap S). \<not> is_connection (snd e)}"

text \<open>
  What the code does not survive when it reads the session: \<open>recv\<close> fills the whole chunk, so that
  the terminator is stored behind it, or \<open>accept\<close> fails, so that -1 is kept as a descriptor.
\<close>

fun read_hazard :: "'h round_io \<Rightarrow> ('h, 'p) session \<Rightarrow> bool" where
  "read_hazard io (ConnectionSession sk _) =
     (case recvs io (m_socket sk) of None \<Rightarrow> False | Some b \<Rightarrow> length b = m_bufSize)"
| "read_hazard io (AcceptorSession l _ _) = (accepts io [] (m_socket l) = kInvalidSocket)"

text \<open>
  A round with a hazard: \<open>select\<close> reports as readable a session that the round reads from and that
  the code does not survive reading.
\<close>

definition hazard :: "('h \<Rightarrow> string) \<Rightarrow> 'h round_io \<Rightarrow> ('h, 'p) server \<Rightarrow> bool" where
  "hazard pnd io S =
     (case selects io of
        SelectReady rs ws \<Rightarrow>
          list_ex (\<lambda>(a, s). nat (sint (session_handle s)) \<in> rs \<and> idle pnd s \<and> read_hazard io s) (heap S)
      | _ \<Rightarrow> False)"

text \<open>
  What a step on the session \<open>a\<close> leaves alone: the other sessions stay as they are, and the
  acceptors are the same.
\<close>

definition frame :: "nat \<Rightarrow> ('h, 'p) server \<Rightarrow> ('h, 'p) server \<Rightarrow> bool" where
  "frame a S S' \<longleftrightarrow>
     set (heap S) - {a} \<times> UNIV \<subseteq> set (heap S') \<and> acceptors S' = acceptors S \<and>
     m_pluginLoader S' = m_pluginLoader S"

lemma frame_output [simp]:
  "frame a S (say v m S') = frame a S S'" "frame a S (says ls S') = frame a S S'"
  "frame a S (did cs S') = frame a S S'" "frame a (did cs S) S' = frame a S S'"
  by (simp_all add: frame_def acceptors_def)

lemma frame_drop:
  assumes "frame a S S'" and "heap S'' = filter (\<lambda>e. fst e \<noteq> a) (heap S')"
    and "m_pluginLoader S'' = m_pluginLoader S'"
    and "\<And>s. (a, s) \<in> set (heap S') \<Longrightarrow> is_connection s"
  shows "frame a S S''"
proof -
  have "acceptors S'' = acceptors S'" unfolding acceptors_def assms(2) using assms(4) by auto
  with assms(1-3) show ?thesis unfolding frame_def by (auto 0 3)
qed

lemma frame_store:
  assumes "distinct (map fst (heap S))" and "(a, s) \<in> set (heap S)" and "is_connection s" and "is_connection s'"
  shows "frame a S (store_session a s' S)"
  using assms(3,4) unfolding frame_def acceptors_def in_store [OF assms(1,2)] by auto

context plugin_service
begin

lemma finish_step:
  assumes ok: "core_ok usable pending inv S" and "frame a S0 S"
    and "(a, ConnectionSession sk (Some h)) \<in> set (heap S)" and "length (heap S) \<le> N"
  shows "\<exists>S'. (if n < (1::int) then drop_session a n err S else Inr S) = Inr S' \<and>
    core_ok usable pending inv S' \<and> (server_ok usable pending inv S \<longrightarrow> server_ok usable pending inv S') \<and>
    frame a S0 S' \<and> length (heap S') \<le> N"
proof (cases "n < 1")
  case True
  from drop_ok [OF ok assms(3), of n err] obtain S' where
    S': "drop_session a n err S = Inr S'" "core_ok usable pending inv S'"
      "server_ok usable pending inv S \<longrightarrow> server_ok usable pending inv S'"
      "heap S' = filter (\<lambda>e. fst e \<noteq> a) (heap S)" "m_pluginLoader S' = m_pluginLoader S"
    by blast
  moreover have "length (heap S') \<le> N"
    unfolding S'(4) by (rule order_trans [OF length_filter_le assms(4)])
  moreover have "frame a S0 S'"
  proof (rule frame_drop [OF assms(2) S'(4,5)])
    show "is_connection s" if "(a, s) \<in> set (heap S)" for s
      using live_unique [of S a s, OF _ that assms(3)] ok by (simp add: core_ok_def)
  qed
  ultimately show ?thesis using True by simp
qed (use assms in simp)

lemma read_connection:
  assumes ok: "core_ok usable pending inv S" and io: "kernel_ok pending inv io"
    and a: "(a, ConnectionSession sk ph) \<in> set (heap S)" and i: "idle pending (ConnectionSession sk ph :: ('h, 'p) session)"
    and tame: "\<not> read_hazard io (ConnectionSession sk ph :: ('h, 'p) session)"
  shows "\<exists>S'. read_session vt io a S = Inr S' \<and> core_ok usable pending inv S' \<and>
    (server_ok usable pending inv S \<longrightarrow> server_ok usable pending inv S') \<and> frame a S S' \<and>
    length (heap S') \<le> length (heap S)"
proof -
  note live = core_ok_live [OF ok a]
  obtain h where h: "ph = Some h" "inv h" "pending h = []"
    using live(2) i by (auto split: option.splits)
  have ph: "protocol_handler (handlers io) pending inv" and fit: "responses_fit (handlers io) pending inv"
    using io by (auto simp: kernel_ok_def)
  have rc: "length b < m_bufSize" if "recvs io (m_socket sk) = Some b" for b
  proof -
    have "length b \<le> m_bufSize" using io that by (auto simp: kernel_ok_def)
    moreover have "length b \<noteq> m_bufSize" using tame that by auto
    ultimately show ?thesis by simp
  qed
  from protocol_handler.read_safe [OF ph h(2,3) rc, where raw = "raw_chunk io" and s = sk] obtain n h' l calls where
    r: "Connection_OnRead (handlers io) (raw_chunk io) (recvs io (m_socket sk)) sk (Some h) =
      Inr (n, Some h', l, calls)" "inv h'" "h' = h \<or> (\<exists>c k. 0 < k \<and> k \<le> length (m_buffer c) \<and> length (m_buffer c) = m_bufSize \<and>
        DidReceive (handlers io) h c (int k) = Inr (h', l))"
    by blast
  have small: "length (pending h') < 2 ^ 31"
    using r(3)
  proof
    assume "\<exists>c k. 0 < k \<and> k \<le> length (m_buffer c) \<and> length (m_buffer c) = m_bufSize \<and>
        DidReceive (handlers io) h c (int k) = Inr (h', l)"
    with fit h(2,3) show ?thesis unfolding responses_fit_def by blast
  qed (simp add: h(3))
  let ?s = "ConnectionSession sk (Some h') :: ('h, 'p) session"
  have d: "distinct (map fst (heap S))" using ok by (simp add: core_ok_def)
  have s': "session_handle ?s = session_handle (ConnectionSession sk ph :: ('h, 'p) session)"
    "session_ok usable pending inv (GetPlugins (m_pluginLoader S)) ?s"
    by (simp_all add: r(2) small [simplified])
  note ok' = store_ok [OF ok a s']
  have fr: "frame a S (store_session a ?s S)" by (rule frame_store [OF d a]) simp_all
  have at: "(a, ?s) \<in> set (heap (store_session a ?s S))" by (simp add: in_store [OF d a])
  have "read_session vt io a S =
      (if n < 1 then drop_session a n (recv_errno io (m_socket sk)) (says l (did calls (store_session a ?s S)))
       else Inr (says l (did calls (store_session a ?s S))))"
    using live(3) r(1) h(1) by (simp add: read_session_def session_OnRead_def)
  then show ?thesis
    using finish_step [of "says l (did calls (store_session a ?s S))" a S sk h' "length (heap S)" n
        "recv_errno io (m_socket sk)"] ok' fr at by auto
qed

lemma read_acceptor:
  assumes ok: "core_ok usable pending inv S" and io: "kernel_ok pending inv io"
    and a: "(a, AcceptorSession l ph p) \<in> set (heap S)" and few: "length (heap S) < max_open"
  shows "\<exists>S' b t. read_session vt io a S = Inr S' \<and> core_ok usable pending inv S' \<and> frame a S S' \<and>
    heap S' = (b, t) # heap S \<and> b \<notin> fst ` set (heap S) \<and>
    (if accepts io [] (m_socket l) = kInvalidSocket then session_handle t = kInvalidSocket
     else server_ok usable pending inv S \<longrightarrow> server_ok usable pending inv S')"
proof -
  note live = core_ok_live [OF ok a]
  have p: "p \<in> set (GetPlugins (m_pluginLoader S))" "usable p" using live(2) by simp_all
  obtain h where h: "NewProtocolHandler vt p = Inr (Some h)" using makes_handler [OF p(2)] by blast
  obtain n where n: "name vt p = Inr n" using has_name [OF p(2)] by blast
  let ?fd = "accepts io (open_fds S) (m_socket l)" and ?a = "new_addr io (map fst (heap S))"
  let ?s = "ConnectionSession (TcpSocket ?fd) (Some h) :: ('h, 'p) session"
  let ?m = "connected_line ?fd n"
  let ?S = "say INFO ?m (did [SysAccept (m_socket l)] S)"
  let ?bad = "accepts io [] (m_socket l) = kInvalidSocket"
  have bad: "?fd = kInvalidSocket \<longleftrightarrow> ?bad" using io unfolding kernel_ok_def by blast
  have fd: "?fd \<notin> set (open_fds S) \<and> fd_ok ?fd" if "\<not> ?bad"
  proof -
    have "length (open_fds S) < max_open" using few by (simp add: open_fds_def)
    then show ?thesis using io that bad unfolding kernel_ok_def by blast
  qed
  have fresh: "?a \<notin> set (map fst (heap S))" using io unfolding kernel_ok_def by blast
  have handle: "session_handle ?s = ?fd" by (simp add: TcpSocket_def Socket_def)
  have so: "session_ok usable pending inv (GetPlugins (m_pluginLoader ?S)) ?s"
    using makes_idle [OF p(2) h] by simp
  from core_ok_register [of usable pending inv ?S ?a ?s] obtain S' where
    S': "RegisterSession ?a (new_session ?a ?s ?S) = Inr S'" "core_ok usable pending inv S'"
      "heap S' = (?a, ?s) # heap S" "m_pluginLoader S' = m_pluginLoader S"
    using ok fd fresh handle bad so by auto
  have strict: "server_ok usable pending inv S'" if "server_ok usable pending inv S" "\<not> ?bad"
    using server_ok_register [of usable pending inv ?S ?a ?s] that fd fresh handle so S'(1) by auto
  have new: "say INFO ?m (new_session ?a ?s (did [SysAccept (m_socket l)] S)) = new_session ?a ?s ?S"
    by (simp add: say_def did_def new_session_def)
  have "read_session vt io a S = Inr S'"
    using live(3) p(1) h n S'(1)
    by (simp add: read_session_def session_OnRead_def Acceptor_OnRead_def Accept_def new Let_def)
  moreover have "frame a S S'" using S'(3,4) by (auto simp: frame_def acceptors_def)
  ultimately show ?thesis using S' strict handle bad fresh
    by (intro exI [of _ S'] exI [of _ ?a] exI [of _ ?s]) simp
qed

lemma write_connection:
  assumes ok: "server_ok usable pending inv S" and io: "kernel_ok pending inv io"
    and a: "(a, ConnectionSession sk ph) \<in> set (heap S)"
  shows "\<exists>S'. write_session io a S = Inr S' \<and> server_ok usable pending inv S' \<and> frame a S S' \<and>
    length (heap S') \<le> length (heap S)"
proof -
  note live = server_ok_live [OF ok a]
  obtain h where h: "ph = Some h" "inv h" "length (pending h) < 2 ^ 31"
    using live(3) by (auto split: option.splits)
  have vt: "protocol_handler (handlers io) pending inv" using io by (simp add: kernel_ok_def)
  from protocol_handler.write_safe [OF vt h(2,3), where accepts = "sends io (m_socket sk)" and s = sk]
  obtain n h' calls where
    r: "Connection_OnWrite (handlers io) (sends io (m_socket sk)) sk (Some h) = Inr (n, Some h', calls)"
      "inv h'" "length (pending h') < 2 ^ 31" by blast
  let ?s = "ConnectionSession sk (Some h') :: ('h, 'p) session"
  have d: "distinct (map fst (heap S))" using ok by (simp add: server_ok_def)
  have s': "session_handle ?s = session_handle (ConnectionSession sk ph :: ('h, 'p) session)"
    "session_ok usable pending inv (GetPlugins (m_pluginLoader S)) ?s"
    by (simp_all add: r(2) r(3) [simplified])
  note ok' = store_ok [OF server_ok_core [OF ok] a s']
  have fr: "frame a S (store_session a ?s S)" by (rule frame_store [OF d a]) simp_all
  have at: "(a, ?s) \<in> set (heap (store_session a ?s S))" by (simp add: in_store [OF d a])
  have "write_session io a S =
      (if n < 1 then drop_session a n (send_errno io (m_socket sk)) (did calls (store_session a ?s S))
       else Inr (did calls (store_session a ?s S)))"
    using live(4) r(1) h(1) by (simp add: write_session_def session_OnWrite_def)
  then show ?thesis
    using finish_step [of "did calls (store_session a ?s S)" a S sk h' "length (heap S)" n
        "send_errno io (m_socket sk)"] ok ok' fr at by auto
qed

lemma full_chunk_fails:
  assumes ok: "core_ok usable pending inv S" and io: "kernel_ok pending inv io"
    and a: "(a, s) \<in> set (heap S)" "is_connection s" "read_hazard io s"
  shows "read_session vt io a S = Inl OutOfBounds"
proof -
  obtain sk ph where s: "s = ConnectionSession sk ph" using a(2) by (cases s) auto
  note live = core_ok_live [OF ok a(1) [unfolded s]]
  obtain h where h: "ph = Some h" using live(2) by (auto split: option.splits)
  obtain b where b: "recvs io (m_socket sk) = Some b" "length b = m_bufSize"
    using a(3) by (auto simp: s split: option.splits)
  have "protocol_handler (handlers io) pending inv" using io by (simp add: kernel_ok_def)
  from protocol_handler.full_read_overflows [OF this, of b "raw_chunk io" sk h] b live(3) show ?thesis
    by (simp add: h read_session_def session_OnRead_def)
qed

text \<open>
  One selected session: its call returns and keeps the invariant, or it is the hazard. A full chunk
  is written out of bounds at once; a failed \<open>accept\<close> leaves a session that holds -1.
\<close>

lemma read_one:
  assumes ok: "core_ok usable pending inv S" and io: "kernel_ok pending inv io"
    and s: "(a, s) \<in> set (heap S)" and i: "idle pending s"
    and few: "is_connection s \<or> length (heap S) < max_open"
  shows "(\<exists>S'. read_session vt io a S = Inr S' \<and> core_ok usable pending inv S' \<and> frame a S S' \<and>
      length (heap S') \<le> length (heap S) + (if is_connection s then 0 else 1) \<and>
      (if read_hazard io s
       then \<exists>b t. (b, t) \<in> set (heap S') \<and> b \<notin> fst ` set (heap S) \<and> session_handle t = kInvalidSocket
       else server_ok usable pending inv S \<longrightarrow> server_ok usable pending inv S')) \<or>
    is_connection s \<and> read_hazard io s \<and> read_session vt io a S = Inl OutOfBounds"
proof (cases s)
  case (ConnectionSession sk ph)
  show ?thesis
  proof (cases "read_hazard io s")
    case True
    with full_chunk_fails [OF ok io s] ConnectionSession show ?thesis by simp
  next
    case False
    with s i read_connection [OF ok io, of a sk ph] ConnectionSession show ?thesis by auto
  qed
next
  case (AcceptorSession l ph p)
  with few have "length (heap S) < max_open" by simp
  from read_acceptor [OF ok io s [unfolded AcceptorSession] this] obtain S' b t where
    "read_session vt io a S = Inr S'" "core_ok usable pending inv S'" "frame a S S'"
    "heap S' = (b, t) # heap S" "b \<notin> fst ` set (heap S)"
    "if accepts io [] (m_socket l) = kInvalidSocket then session_handle t = kInvalidSocket
     else server_ok usable pending inv S \<longrightarrow> server_ok usable pending inv S'" by blast
  note r = this
  have "(b, t) \<in> set (heap S') \<and> b \<notin> fst ` set (heap S)" using r(4,5) by simp
  with r show ?thesis unfolding AcceptorSession
    by (intro disjI1 exI [of _ S']) (auto split: if_splits simp del: set_map)
qed

end

section \<open>A list of sessions\<close>

lemma each_keeps:
  assumes "P as S" and "\<And>a as S. P (a # as) S \<Longrightarrow> \<exists>S'. f a S = Inr S' \<and> P as S'"
  shows "\<exists>S'. each f as S = Inr S' \<and> P [] S'"
  using assms(1)
proof (induction as arbitrary: S)
  case (Cons a as)
  from assms(2) [OF Cons.prems] obtain S1 where "f a S = Inr S1" "P as S1" by blast
  with Cons.IH [of S1] show ?case by simp
qed simp

text \<open>A loop whose steps keep something of the sessions to come, or end it by one kind of error.\<close>

lemma each_ends:
  assumes "P as S" and "\<And>a as S. P (a # as) S \<Longrightarrow> f a S = Inl e \<or> (\<exists>S'. f a S = Inr S' \<and> P as S')"
  shows "each f as S = Inl e \<or> (\<exists>S'. each f as S = Inr S' \<and> P [] S')"
  using assms(1)
proof (induction as arbitrary: S)
  case (Cons a as)
  from assms(2) [OF Cons.prems] Cons.IH show ?case by fastforce
qed simp

text \<open>What holds of the sessions still to be served, and is kept by a step on another session.\<close>

definition waiting :: "(('h, 'p) session \<Rightarrow> bool) \<Rightarrow> nat list \<Rightarrow> ('h, 'p) server \<Rightarrow> bool" where
  "waiting c as S \<longleftrightarrow> distinct as \<and> (\<forall>a \<in> set as. \<exists>s. (a, s) \<in> set (heap S) \<and> c s)"

lemma waiting_frame:
  assumes "waiting c (a # as) S" and "frame a S S'"
  shows "waiting c as S'"
proof -
  have "(b, s) \<in> set (heap S')" if "b \<in> set as" "(b, s) \<in> set (heap S)" for b s
  proof -
    have "b \<noteq> a" using assms(1) that(1) by (auto simp: waiting_def)
    with that(2) assms(2) show ?thesis by (auto simp: frame_def)
  qed
  with assms(1) show ?thesis unfolding waiting_def by fastforce
qed

lemma selected_eq:
  assumes ok: "server_ok u q i S" and "set as \<subseteq> set (m_sessions S)"
  shows "\<exists>l. selected fds S as = Inr l \<and> set l \<subseteq> set as \<and> (distinct as \<longrightarrow> distinct l) \<and>
    (\<forall>a \<in> set as. a \<in> set l \<longleftrightarrow> (\<exists>s. (a, s) \<in> set (heap S) \<and> nat (sint (session_handle s)) \<in> fds))"
  using assms(2)
proof (induction as)
  case (Cons a as)
  then obtain l where l: "selected fds S as = Inr l" "set l \<subseteq> set as" "distinct as \<longrightarrow> distinct l"
    "\<forall>a \<in> set as. a \<in> set l \<longleftrightarrow> (\<exists>s. (a, s) \<in> set (heap S) \<and> nat (sint (session_handle s)) \<in> fds)"
    by auto
  obtain s where s: "(a, s) \<in> set (heap S)" "session_at S a = Inr s"
    using live_session [OF ok, of a] Cons.prems by auto
  have u: "t = s" if "(a, t) \<in> set (heap S)" for t
    using live_unique [of S a s t] that s(1) ok by (auto simp: server_ok_def)
  have f: "FD_ISSET (session_handle s) fds = Inr (nat (sint (session_handle s)) \<in> fds)"
    using server_ok_live(1) [OF ok s(1)] by (simp add: FD_ISSET_def fd_ok_def)
  have e: "(\<exists>t. (a, t) \<in> set (heap S) \<and> nat (sint (session_handle t)) \<in> fds) \<longleftrightarrow>
      nat (sint (session_handle s)) \<in> fds" using u s(1) by blast
  show ?case
    using l s(2) e by (cases "a \<in> set as") (auto simp: f)
qed simp

text \<open>A session with the invalid descriptor stops the copying loop, whatever the set holds.\<close>

lemma selected_invalid:
  assumes ok: "core_ok u q i S" and "set as \<subseteq> set (m_sessions S)"
    and "b \<in> set as" and b: "(b, t) \<in> set (heap S)" "session_handle t = kInvalidSocket"
  shows "selected fds S as = Inl OutOfBounds"
  using assms(2,3)
proof (induction as)
  case (Cons a as)
  have "a \<in> fst ` set (heap S)" using ok Cons.prems(1) by (auto simp: core_ok_def)
  then obtain s where s: "(a, s) \<in> set (heap S)" by force
  note live = core_ok_live [OF ok s]
  show ?case
  proof (cases "session_handle s = kInvalidSocket")
    case True
    then show ?thesis using live(3) by (simp add: FD_ISSET_def kInvalidSocket_def)
  next
    case False
    have "a \<noteq> b" using False b s live_unique [of S a s t] ok by (auto simp: core_ok_def)
    then have "selected fds S as = Inl OutOfBounds" using Cons by simp
    moreover have "fd_ok (session_handle s)" using live(1) False by simp
    ultimately show ?thesis using live(3) by (simp add: FD_ISSET_def fd_ok_def)
  qed
qed simp

lemma fill_set_eq:
  assumes ok: "server_ok u q i S" and "set as \<subseteq> set (m_sessions S)"
    and c: "\<And>a s. (a, s) \<in> set (heap S) \<Longrightarrow> cond s = Inr (c s)"
  shows "fill_set cond S as fds = Inr (fds \<union>
    {nat (sint (session_handle s)) |a s. a \<in> set as \<and> (a, s) \<in> set (heap S) \<and> c s})"
  using assms(2)
proof (induction as arbitrary: fds)
  case (Cons a as)
  obtain s where s: "(a, s) \<in> set (heap S)" "session_at S a = Inr s"
    using live_session [OF ok, of a] Cons.prems by auto
  have u: "(a, t) \<in> set (heap S) \<longleftrightarrow> t = s" for t
    using live_unique [of S a s t] s(1) ok by (auto simp: server_ok_def)
  have f: "FD_SET (session_handle s) fds = Inr (insert (nat (sint (session_handle s))) fds)"
    using server_ok_live(1) [OF ok s(1)] by (simp add: FD_SET_def fd_ok_def)
  have IH: "fill_set cond S as fds' = Inr (fds' \<union>
      {nat (sint (session_handle s)) |a s. a \<in> set as \<and> (a, s) \<in> set (heap S) \<and> c s})" for fds'
    using Cons.IH Cons.prems by simp
  show ?case
  proof (cases "c s")
    case True
    have "insert (nat (sint (session_handle s))) fds \<union>
        {nat (sint (session_handle s)) |a s. a \<in> set as \<and> (a, s) \<in> set (heap S) \<and> c s} =
      fds \<union> {nat (sint (session_handle s)) |a' s. a' \<in> set (a # as) \<and> (a', s) \<in> set (heap S) \<and> c s}"
      using True s(1) u by auto
    then show ?thesis using s c [OF s(1)] True by (simp add: f IH)
  next
    case False
    have "{nat (sint (session_handle s)) |a s. a \<in> set as \<and> (a, s) \<in> set (heap S) \<and> c s} =
      {nat (sint (session_handle s)) |a' s. a' \<in> set (a # as) \<and> (a', s) \<in> set (heap S) \<and> c s}"
      using False u by auto
    then show ?thesis using s c [OF s(1)] False by (simp add: IH)
  qed
qed simp

section \<open>A round\<close>

lemma handle_unique:
  assumes "server_ok u q i S" and "(a, s) \<in> set (heap S)" and "(b, t) \<in> set (heap S)"
    and "nat (sint (session_handle s)) = nat (sint (session_handle t))"
  shows "a = b \<and> s = t"
proof -
  have "0 \<le> sint (session_handle s)" "0 \<le> sint (session_handle t)"
    using server_ok_live(1) [OF assms(1,2)] server_ok_live(1) [OF assms(1,3)] by (simp_all add: fd_ok_def)
  with assms(4) have "sint (session_handle s) = sint (session_handle t)" by simp
  then have "session_handle s = session_handle t" by (rule signed_word_eqI)
  moreover have "inj_on (\<lambda>e. session_handle (snd e)) (set (heap S))"
    using assms(1) by (simp add: server_ok_def open_fds_def distinct_map)
  ultimately have "(a, s) = (b, t)"
    using assms(2,3) by (intro inj_onD [of "\<lambda>e. session_handle (snd e)" "set (heap S)"]) simp_all
  then show ?thesis by simp
qed

lemma server_ok_length: "server_ok u q i S \<Longrightarrow> length (heap S) = length (m_sessions S)"
  unfolding server_ok_def by (metis distinct_card length_map list.set_map)

definition set_of :: "(('h, 'p) session \<Rightarrow> bool) \<Rightarrow> ('h, 'p) server \<Rightarrow> fd_set" where
  "set_of c S = {nat (sint (session_handle s)) |a s. (a, s) \<in> set (heap S) \<and> c s}"

lemma in_set_of:
  assumes "server_ok u q i S" and "(a, s) \<in> set (heap S)" and "nat (sint (session_handle s)) \<in> set_of c S"
  shows "c s"
  using assms handle_unique [OF assms(1,2)] unfolding set_of_def by blast

lemma apply_select_subset:
  "apply_select out nfds r w = (res, r', w') \<Longrightarrow> r' \<subseteq> r \<and> w' \<subseteq> w \<and> (res = -1 \<longleftrightarrow> (\<exists>e. out = SelectFailed e))"
  by (cases out) (auto simp: Let_def)

text \<open>
  The loop of \<open>ReadData\<close> that began in \<open>S\<close>, with the sessions \<open>as\<close> still to serve: what always
  holds of it (\<open>reading_core\<close>), what holds while nothing has gone wrong (\<open>reading\<close>), and the mark of
  a round that will go wrong (\<open>doomed\<close>). Then the loop of \<open>SendData\<close>.
\<close>

definition reading_core ::
  "('p \<Rightarrow> bool) \<Rightarrow> ('h \<Rightarrow> string) \<Rightarrow> ('h \<Rightarrow> bool) \<Rightarrow> ('h, 'p) server \<Rightarrow> nat list \<Rightarrow> ('h, 'p) server \<Rightarrow> bool" where
  "reading_core u q i S as T \<longleftrightarrow>
     core_ok u q i T \<and> waiting (idle q) as T \<and> acceptors T = acceptors S \<and> m_pluginLoader T = m_pluginLoader S \<and>
     length (heap T) + length (filter (\<lambda>a. a \<in> fst ` acceptors S) as) \<le> length (heap S) + card (acceptors S)"

definition reading ::
  "('p \<Rightarrow> bool) \<Rightarrow> ('h \<Rightarrow> string) \<Rightarrow> ('h \<Rightarrow> bool) \<Rightarrow> 'h round_io \<Rightarrow> ('h, 'p) server \<Rightarrow> nat list \<Rightarrow>
     ('h, 'p) server \<Rightarrow> bool" where
  "reading u q i io S as T \<longleftrightarrow>
     reading_core u q i S as T \<and> server_ok u q i T \<and> waiting (\<lambda>s. \<not> read_hazard io s) as T"

definition doomed :: "'h round_io \<Rightarrow> nat list \<Rightarrow> ('h, 'p) server \<Rightarrow> bool" where
  "doomed io as T \<longleftrightarrow>
     (\<exists>(b, t) \<in> set (heap T). if b \<in> set as then read_hazard io t else session_handle t = kInvalidSocket)"

definition calm :: "'h round_io \<Rightarrow> fd_set \<Rightarrow> ('h, 'p) server \<Rightarrow> bool" where
  "calm io r S \<longleftrightarrow> (\<forall>(a, s) \<in> set (heap S). nat (sint (session_handle s)) \<in> r \<longrightarrow> \<not> read_hazard io s)"

definition sending ::
  "('p \<Rightarrow> bool) \<Rightarrow> ('h \<Rightarrow> string) \<Rightarrow> ('h \<Rightarrow> bool) \<Rightarrow> ('h, 'p) server \<Rightarrow> nat list \<Rightarrow> ('h, 'p) server \<Rightarrow> bool" where
  "sending u q i S as T \<longleftrightarrow>
     server_ok u q i T \<and> waiting is_connection as T \<and> acceptors T = acceptors S \<and>
     m_pluginLoader T = m_pluginLoader S \<and> length (heap T) \<le> length (heap S)"

lemma selected_iff:
  assumes ok: "server_ok u q i S"
    and "\<forall>a \<in> set (m_sessions S). a \<in> L \<longleftrightarrow> (\<exists>s. (a, s) \<in> set (heap S) \<and> nat (sint (session_handle s)) \<in> r)"
  shows "\<forall>(a, s) \<in> set (heap S). a \<in> L \<longleftrightarrow> nat (sint (session_handle s)) \<in> r"
proof -
  have d: "distinct (map fst (heap S))" using ok by (simp add: server_ok_def)
  have "a \<in> L \<longleftrightarrow> nat (sint (session_handle s)) \<in> r" if s: "(a, s) \<in> set (heap S)" for a s
    using assms(2) server_ok_live(5) [OF ok s] live_unique [OF d s] s by blast
  then show ?thesis by blast
qed

context plugin_service
begin

lemma can_read_live:
  assumes "server_ok usable pending inv S" and "protocol_handler pv pending inv" and "(a, s) \<in> set (heap S)"
  shows "session_CanRead pv s = Inr (idle pending s)"
    and "session_HasDataToSend pv s = Inr (is_connection s \<and> \<not> idle pending s)"
  using server_ok_live(3) [OF assms(1,3)] protocol_handler.has_data [OF assms(2)]
  by (cases s; auto split: option.splits)+

lemma fill_sets:
  assumes ok: "server_ok usable pending inv S" and vt: "protocol_handler pv pending inv"
  shows "FillReadyRead pv S {} = Inr (set_of (idle pending) S)"
    and "FillReadyWrite pv S {} = Inr (set_of (\<lambda>s. is_connection s \<and> \<not> idle pending s) S)"
proof -
  have "set (m_sessions S) = fst ` set (heap S)" using ok by (simp add: server_ok_def)
  then have live: "(a, s) \<in> set (heap S) \<Longrightarrow> a \<in> set (m_sessions S)" for a s by force
  show "FillReadyRead pv S {} = Inr (set_of (idle pending) S)"
    unfolding FillReadyRead_def set_of_def
    by (subst fill_set_eq [OF ok order_refl can_read_live(1) [OF ok vt]]) (use live in auto)
  show "FillReadyWrite pv S {} = Inr (set_of (\<lambda>s. is_connection s \<and> \<not> idle pending s) S)"
    unfolding FillReadyWrite_def set_of_def
    by (subst fill_set_eq [OF ok order_refl can_read_live(2) [OF ok vt]]) (use live in auto)
qed

lemma reading_start:
  assumes ok: "server_ok usable pending inv S" and r: "r \<subseteq> set_of (idle pending) S"
  shows "\<exists>l. selected r S (m_sessions S) = Inr l \<and> reading_core usable pending inv S l S \<and>
    (if calm io r S then reading usable pending inv io S l S else doomed io l S) \<and>
    (\<forall>(a, s) \<in> set (heap S). a \<in> set l \<longleftrightarrow> nat (sint (session_handle s)) \<in> r)"
proof -
  have dm: "distinct (m_sessions S)" using ok by (simp add: server_ok_def)
  obtain l where l: "selected r S (m_sessions S) = Inr l" "set l \<subseteq> set (m_sessions S)" "distinct l"
    "\<forall>a \<in> set (m_sessions S). a \<in> set l \<longleftrightarrow> (\<exists>s. (a, s) \<in> set (heap S) \<and> nat (sint (session_handle s)) \<in> r)"
    using selected_eq [OF ok order_refl, of r] dm by blast
  have iff: "\<forall>(a, s) \<in> set (heap S). a \<in> set l \<longleftrightarrow> nat (sint (session_handle s)) \<in> r"
    using selected_iff [OF ok] l(4) by blast
  have w: "waiting (idle pending) l S"
    unfolding waiting_def using l in_set_of [OF ok] r by (meson subsetD)
  let ?A = "fst ` acceptors S"
  have fin: "finite (acceptors S)" by (simp add: acceptors_def)
  have "length (filter (\<lambda>a. a \<in> ?A) l) = card (set l \<inter> ?A)"
    using distinct_card [OF distinct_filter [OF l(3)], of "\<lambda>a. a \<in> ?A"] by (simp add: Int_def)
  also have "\<dots> \<le> card ?A" by (rule card_mono) (use fin in simp_all)
  also have "\<dots> \<le> card (acceptors S)" by (rule card_image_le [OF fin])
  finally have core: "reading_core usable pending inv S l S"
    using server_ok_core [OF ok] w by (simp add: reading_core_def)
  moreover have "if calm io r S then reading usable pending inv io S l S else doomed io l S"
  proof (cases "calm io r S")
    case True
    have "waiting (\<lambda>s. \<not> read_hazard io s) l S"
      using w True iff unfolding waiting_def calm_def by fastforce
    with True core ok show ?thesis by (simp add: reading_def)
  next
    case False
    then obtain a s where "(a, s) \<in> set (heap S)" "a \<in> set l" "read_hazard io s"
      using iff unfolding calm_def by blast
    with False show ?thesis unfolding doomed_def by force
  qed
  ultimately show ?thesis using l(1) iff by blast
qed

lemma reading_core_step:
  assumes P: "reading_core usable pending inv S (a # as) T" and io: "kernel_ok pending inv io"
    and few: "length (heap S) + card (acceptors S) \<le> max_open" and s: "(a, s) \<in> set (heap T)"
  shows "(\<exists>T'. read_session vt io a T = Inr T' \<and> reading_core usable pending inv S as T' \<and> frame a T T' \<and>
      (if read_hazard io s
       then \<exists>b t. (b, t) \<in> set (heap T') \<and> b \<notin> fst ` set (heap T) \<and> session_handle t = kInvalidSocket
       else server_ok usable pending inv T \<longrightarrow> server_ok usable pending inv T')) \<or>
    is_connection s \<and> read_hazard io s \<and> read_session vt io a T = Inl OutOfBounds"
proof -
  have ok': "core_ok usable pending inv T" and wt: "waiting (idle pending) (a # as) T"
    and acc: "acceptors T = acceptors S" using P by (auto simp: reading_core_def)
  obtain s0 where "(a, s0) \<in> set (heap T)" "idle pending s0" using wt by (auto simp: waiting_def)
  then have i: "idle pending s" using live_unique [OF _ s, of s0] ok' by (simp add: core_ok_def)
  have A: "a \<in> fst ` acceptors S" if "\<not> is_connection s"
  proof -
    have "(a, s) \<in> acceptors S" using s that unfolding acc [symmetric] by (simp add: acceptors_def)
    then show ?thesis by force
  qed
  have n: "is_connection s \<or> length (heap T) < max_open"
    using A P few by (cases "is_connection s") (simp_all add: reading_core_def)
  from read_one [OF ok' io s i n] show ?thesis
  proof (elim disjE exE conjE)
    fix T'
    assume T': "read_session vt io a T = Inr T'" "core_ok usable pending inv T'" "frame a T T'"
      "length (heap T') \<le> length (heap T) + (if is_connection s then 0 else 1)"
      and rest: "if read_hazard io s
       then \<exists>b t. (b, t) \<in> set (heap T') \<and> b \<notin> fst ` set (heap T) \<and> session_handle t = kInvalidSocket
       else server_ok usable pending inv T \<longrightarrow> server_ok usable pending inv T'"
    have "length (heap T') + length (filter (\<lambda>a. a \<in> fst ` acceptors S) as) \<le> length (heap S) + card (acceptors S)"
      using P A T'(4) by (cases "is_connection s") (auto simp: reading_core_def split: if_splits)
    moreover have "acceptors T' = acceptors S" "m_pluginLoader T' = m_pluginLoader S"
      using P T'(3) by (simp_all add: reading_core_def frame_def)
    ultimately have "reading_core usable pending inv S as T'"
      using T'(2) waiting_frame [OF wt T'(3)] by (simp add: reading_core_def)
    with T' rest show ?thesis by blast
  qed simp
qed

lemma reading_step:
  assumes P: "reading usable pending inv io S (a # as) T" and io: "kernel_ok pending inv io"
    and few: "length (heap S) + card (acceptors S) \<le> max_open"
  shows "\<exists>T'. read_session vt io a T = Inr T' \<and> reading usable pending inv io S as T' \<and> frame a T T'"
proof -
  have core: "reading_core usable pending inv S (a # as) T" and ok: "server_ok usable pending inv T"
    and wt: "waiting (\<lambda>s. \<not> read_hazard io s) (a # as) T" using P by (auto simp: reading_def)
  obtain s where s: "(a, s) \<in> set (heap T)" "\<not> read_hazard io s" using wt by (auto simp: waiting_def)
  from reading_core_step [OF core io few s(1)] s(2) ok obtain T' where
    T': "read_session vt io a T = Inr T'" "reading_core usable pending inv S as T'" "frame a T T'"
      "server_ok usable pending inv T'" by auto
  moreover have "waiting (\<lambda>s. \<not> read_hazard io s) as T'" by (rule waiting_frame [OF wt T'(3)])
  ultimately show ?thesis by (auto simp: reading_def)
qed

lemma doomed_step:
  assumes P: "reading_core usable pending inv S (a # as) T" and d: "doomed io (a # as) T"
    and io: "kernel_ok pending inv io" and few: "length (heap S) + card (acceptors S) \<le> max_open"
  shows "(\<exists>fd b. recvs io fd = Some b \<and> length b = m_bufSize) \<and> read_session vt io a T = Inl OutOfBounds \<or>
    (\<exists>T'. read_session vt io a T = Inr T' \<and> reading_core usable pending inv S as T' \<and> doomed io as T')"
proof -
  have wt: "waiting (idle pending) (a # as) T" and ok: "core_ok usable pending inv T"
    using P by (auto simp: reading_core_def)
  obtain s where s: "(a, s) \<in> set (heap T)" using wt by (auto simp: waiting_def)
  obtain b t where b: "(b, t) \<in> set (heap T)"
    "if b \<in> set (a # as) then read_hazard io t else session_handle t = kInvalidSocket"
    using d by (auto simp: doomed_def)
  from reading_core_step [OF P io few s] show ?thesis
  proof (elim disjE exE conjE)
    fix T'
    assume T': "read_session vt io a T = Inr T'" "reading_core usable pending inv S as T'" "frame a T T'"
      and rest: "if read_hazard io s
       then \<exists>b t. (b, t) \<in> set (heap T') \<and> b \<notin> fst ` set (heap T) \<and> session_handle t = kInvalidSocket
       else server_ok usable pending inv T \<longrightarrow> server_ok usable pending inv T'"
    have "doomed io as T'"
    proof (cases "b = a")
      case True
      then have "t = s" using live_unique [of T a t s] b(1) s ok by (simp add: core_ok_def)
      with True b(2) rest obtain b' t' where new: "(b', t') \<in> set (heap T')" "b' \<notin> fst ` set (heap T)"
        "session_handle t' = kInvalidSocket" by auto
      have "b' \<notin> set as" using wt new(2) by (force simp: waiting_def)
      with new show ?thesis by (auto simp: doomed_def)
    next
      case False
      with b(1) T'(3) have "(b, t) \<in> set (heap T')" by (auto simp: frame_def)
      with False b(2) show ?thesis unfolding doomed_def by (intro bexI [of _ "(b, t)"]) simp_all
    qed
    with T' show ?thesis by blast
  next
    assume "is_connection s" "read_hazard io s" "read_session vt io a T = Inl OutOfBounds"
    then show ?thesis by (cases s) (auto split: option.splits)
  qed
qed

lemma read_data:
  assumes ok: "server_ok usable pending inv S" and io: "kernel_ok pending inv io"
    and r: "r \<subseteq> set_of (idle pending) S" and few: "length (m_sessions S) + card (acceptors S) \<le> max_open"
  shows "if calm io r S then \<exists>S'. ReadData vt io r S = Inr S' \<and> reading usable pending inv io S [] S'
    else ReadData vt io r S = Inl OutOfBounds \<or>
      (\<exists>S'. ReadData vt io r S = Inr S' \<and> core_ok usable pending inv S' \<and> doomed io [] S')"
proof -
  have few': "length (heap S) + card (acceptors S) \<le> max_open" using few server_ok_length [OF ok] by simp
  obtain l where l: "selected r S (m_sessions S) = Inr l" "reading_core usable pending inv S l S"
    "if calm io r S then reading usable pending inv io S l S else doomed io l S"
    using reading_start [OF ok r, of io] by blast
  show ?thesis
  proof (cases "calm io r S")
    case True
    with l(3) each_keeps [of "reading usable pending inv io S" l S "read_session vt io"]
    show ?thesis using reading_step [OF _ io few'] l(1) unfolding ReadData_def by fastforce
  next
    case False
    define P where "P as T \<longleftrightarrow> reading_core usable pending inv S as T \<and> doomed io as T" for as T
    have "P l S" using l False by (simp add: P_def)
    with each_ends [of P l S "read_session vt io" OutOfBounds]
    have "each (read_session vt io) l S = Inl OutOfBounds \<or>
        (\<exists>S'. each (read_session vt io) l S = Inr S' \<and> P [] S')"
      using doomed_step [OF _ _ io few'] unfolding P_def by blast
    then show ?thesis using False l(1) unfolding ReadData_def by (auto simp: P_def reading_core_def)
  qed
qed

text \<open>Without a full chunk the loop notices nothing of a failed \<open>accept\<close>.\<close>

lemma read_data_doomed:
  assumes ok: "server_ok usable pending inv S" and io: "kernel_ok pending inv io"
    and r: "r \<subseteq> set_of (idle pending) S" and few: "length (m_sessions S) + card (acceptors S) \<le> max_open"
    and "\<not> calm io r S" and no: "\<And>fd b. recvs io fd = Some b \<Longrightarrow> length b \<noteq> m_bufSize"
  shows "\<exists>S'. ReadData vt io r S = Inr S' \<and> core_ok usable pending inv S' \<and> doomed io [] S'"
proof -
  have few': "length (heap S) + card (acceptors S) \<le> max_open" using few server_ok_length [OF ok] by simp
  obtain l where l: "selected r S (m_sessions S) = Inr l" "reading_core usable pending inv S l S" "doomed io l S"
    using reading_start [OF ok r, of io] assms(5) by auto
  define P where "P as T \<longleftrightarrow> reading_core usable pending inv S as T \<and> doomed io as T" for as T
  have "P l S" using l by (simp add: P_def)
  with each_keeps [of P l S "read_session vt io"]
  have "\<exists>S'. each (read_session vt io) l S = Inr S' \<and> P [] S'"
    using doomed_step [OF _ _ io few'] no unfolding P_def by blast
  then show ?thesis using l(1) unfolding ReadData_def by (auto simp: P_def reading_core_def)
qed

text \<open>After a failed \<open>accept\<close> it is \<open>SendData\<close> that leaves the bounds of the set.\<close>

lemma send_doomed:
  assumes ok: "core_ok usable pending inv S" and "doomed io [] S"
  shows "SendData io w S = Inl OutOfBounds"
proof -
  obtain b t where b: "(b, t) \<in> set (heap S)" "session_handle t = kInvalidSocket"
    using assms(2) by (auto simp: doomed_def)
  from selected_invalid [OF ok order_refl core_ok_live(4) [OF ok b(1)] b] show ?thesis
    by (simp add: SendData_def)
qed

text \<open>
  A session not selected is as it was afterwards; a selected one is what its own call made it.
\<close>

lemma read_tracks:
  assumes ok: "server_ok usable pending inv S" and io: "kernel_ok pending inv io"
    and r: "r \<subseteq> set_of (idle pending) S" and few: "length (m_sessions S) + card (acceptors S) \<le> max_open"
    and calm: "calm io r S"
    and S': "ReadData vt io r S = Inr S'" and a: "(a, s) \<in> set (heap S)"
    and own: "\<And>T T'. nat (sint (session_handle s)) \<in> r \<Longrightarrow> server_ok usable pending inv T \<Longrightarrow>
      (a, s) \<in> set (heap T) \<Longrightarrow> read_session vt io a T = Inr T' \<Longrightarrow> \<exists>s'. (a, s') \<in> set (heap T') \<and> Q s'"
  shows "\<exists>s'. (a, s') \<in> set (heap S') \<and> (if nat (sint (session_handle s)) \<in> r then Q s' else s' = s)"
proof -
  obtain l where l: "selected r S (m_sessions S) = Inr l" "reading usable pending inv io S l S"
    "a \<in> set l \<longleftrightarrow> nat (sint (session_handle s)) \<in> r"
    using reading_start [OF ok r, of io] a calm by (auto split: if_splits)
  have few': "length (heap S) + card (acceptors S) \<le> max_open" using few server_ok_length [OF ok] by simp
  define P where "P as T \<longleftrightarrow> reading usable pending inv io S as T \<and> set as \<subseteq> set l \<and>
    (if a \<in> set as \<or> a \<notin> set l then (a, s) \<in> set (heap T) else \<exists>s'. (a, s') \<in> set (heap T) \<and> Q s')" for as T
  have "P l S" using l(2) a by (simp add: P_def)
  moreover have "\<exists>T'. read_session vt io b T = Inr T' \<and> P as T'" if P: "P (b # as) T" for b as T
  proof -
    have rd: "reading usable pending inv io S (b # as) T" using P by (simp add: P_def)
    then have nb: "b \<notin> set as" and ok': "server_ok usable pending inv T" by (auto simp: reading_def waiting_def)
    from reading_step [OF rd io few'] obtain T' where
      T': "read_session vt io b T = Inr T'" "reading usable pending inv io S as T'" "frame b T T'" by blast
    have keep: "(a, x) \<in> set (heap T')" if "(a, x) \<in> set (heap T)" "a \<noteq> b" for x
      using that T'(3) by (auto simp: frame_def)
    have "P as T'"
    proof (cases "a = b")
      case True
      with P have "a \<in> set l" by (simp add: P_def)
      with True P T' own [OF l(3) [THEN iffD1] ok' _ T'(1) [folded True]] keep nb show ?thesis
        by (auto simp: P_def)
    next
      case False
      with keep have "\<And>x. (a, x) \<in> set (heap T) \<Longrightarrow> (a, x) \<in> set (heap T')" by blast
      with False P T'(2) show ?thesis by (auto simp: P_def) blast+
    qed
    with T'(1) show ?thesis by blast
  qed
  ultimately obtain S1 where "each (read_session vt io) l S = Inr S1" "P [] S1"
    using each_keeps [of P l S "read_session vt io"] by blast
  moreover from this S' have "S1 = S'" by (simp add: ReadData_def l(1))
  ultimately show ?thesis using l(3) by (auto simp: P_def)
qed

lemma sending_start:
  assumes ok: "server_ok usable pending inv S"
    and w: "\<And>a s. (a, s) \<in> acceptors S \<Longrightarrow> nat (sint (session_handle s)) \<notin> w"
  shows "\<exists>l. selected w S (m_sessions S) = Inr l \<and> sending usable pending inv S l S \<and>
    (\<forall>(a, s) \<in> set (heap S). a \<in> set l \<longleftrightarrow> nat (sint (session_handle s)) \<in> w)"
proof -
  have dm: "distinct (m_sessions S)" using ok by (simp add: server_ok_def)
  obtain l where l: "selected w S (m_sessions S) = Inr l" "set l \<subseteq> set (m_sessions S)" "distinct l"
    "\<forall>a \<in> set (m_sessions S). a \<in> set l \<longleftrightarrow> (\<exists>s. (a, s) \<in> set (heap S) \<and> nat (sint (session_handle s)) \<in> w)"
    using selected_eq [OF ok order_refl, of w] dm by blast
  have "waiting is_connection l S"
    unfolding waiting_def
  proof (intro conjI ballI)
    fix a
    assume "a \<in> set l"
    then obtain s where s: "(a, s) \<in> set (heap S)" "nat (sint (session_handle s)) \<in> w" using l(2,4) by blast
    then have "is_connection s" using w [of a s] by (auto simp: acceptors_def)
    with s(1) show "\<exists>s. (a, s) \<in> set (heap S) \<and> is_connection s" by blast
  qed (rule l(3))
  then have "sending usable pending inv S l S" using ok by (simp add: sending_def)
  moreover have "\<forall>(a, s) \<in> set (heap S). a \<in> set l \<longleftrightarrow> nat (sint (session_handle s)) \<in> w"
    using selected_iff [OF ok] l(4) by blast
  ultimately show ?thesis using l(1) by blast
qed

lemma sending_step:
  assumes P: "sending usable pending inv S (a # as) T" and io: "kernel_ok pending inv io"
  shows "\<exists>T'. write_session io a T = Inr T' \<and> sending usable pending inv S as T' \<and> frame a T T'"
proof -
  have ok': "server_ok usable pending inv T" and wt: "waiting is_connection (a # as) T"
    using P by (auto simp: sending_def)
  obtain s where s: "(a, s) \<in> set (heap T)" "is_connection s" using wt by (auto simp: waiting_def)
  then obtain sk ph where "s = ConnectionSession sk ph" by (cases s) auto
  with write_connection [OF ok' io] s(1) obtain T' where
    T': "write_session io a T = Inr T'" "server_ok usable pending inv T'" "frame a T T'"
      "length (heap T') \<le> length (heap T)" by blast
  then have "sending usable pending inv S as T'"
    using P waiting_frame [OF wt T'(3)] by (auto simp: sending_def frame_def)
  with T' show ?thesis by blast
qed

lemma send_data:
  assumes ok: "server_ok usable pending inv S" and io: "kernel_ok pending inv io"
    and w: "\<And>a s. (a, s) \<in> acceptors S \<Longrightarrow> nat (sint (session_handle s)) \<notin> w"
  shows "\<exists>S'. SendData io w S = Inr S' \<and> sending usable pending inv S [] S'"
proof -
  obtain l where l: "selected w S (m_sessions S) = Inr l" "sending usable pending inv S l S"
    using sending_start [OF ok, of w] w by blast
  from each_keeps [of "sending usable pending inv S" l S "write_session io", OF l(2)]
  show ?thesis using sending_step [OF _ io] l(1) unfolding SendData_def by fastforce
qed

lemma send_tracks:
  assumes ok: "server_ok usable pending inv S" and io: "kernel_ok pending inv io"
    and w: "\<And>a s. (a, s) \<in> acceptors S \<Longrightarrow> nat (sint (session_handle s)) \<notin> w"
    and S': "SendData io w S = Inr S'" and a: "(a, s) \<in> set (heap S)"
    and own: "\<And>T T'. nat (sint (session_handle s)) \<in> w \<Longrightarrow> server_ok usable pending inv T \<Longrightarrow>
      (a, s) \<in> set (heap T) \<Longrightarrow> write_session io a T = Inr T' \<Longrightarrow> \<exists>s'. (a, s') \<in> set (heap T') \<and> Q s'"
  shows "\<exists>s'. (a, s') \<in> set (heap S') \<and> (if nat (sint (session_handle s)) \<in> w then Q s' else s' = s)"
proof -
  obtain l where l: "selected w S (m_sessions S) = Inr l" "sending usable pending inv S l S"
    "a \<in> set l \<longleftrightarrow> nat (sint (session_handle s)) \<in> w"
    using sending_start [OF ok, of w] w a by blast
  define P where "P as T \<longleftrightarrow> sending usable pending inv S as T \<and> set as \<subseteq> set l \<and>
    (if a \<in> set as \<or> a \<notin> set l then (a, s) \<in> set (heap T) else \<exists>s'. (a, s') \<in> set (heap T) \<and> Q s')" for as T
  have "P l S" using l(2) a by (simp add: P_def)
  moreover have "\<exists>T'. write_session io b T = Inr T' \<and> P as T'" if P: "P (b # as) T" for b as T
  proof -
    have rd: "sending usable pending inv S (b # as) T" using P by (simp add: P_def)
    then have nb: "b \<notin> set as" and ok': "server_ok usable pending inv T" by (simp_all add: sending_def waiting_def)
    from sending_step [OF rd io] obtain T' where
      T': "write_session io b T = Inr T'" "sending usable pending inv S as T'" "frame b T T'" by blast
    have keep: "(a, x) \<in> set (heap T')" if "(a, x) \<in> set (heap T)" "a \<noteq> b" for x
      using that T'(3) by (auto simp: frame_def)
    have "P as T'"
    proof (cases "a = b")
      case True
      with P have "a \<in> set l" by (simp add: P_def)
      with True P T' own [OF l(3) [THEN iffD1] ok' _ T'(1) [folded True]] keep nb show ?thesis
        by (auto simp: P_def)
    next
      case False
      with keep have "\<And>x. (a, x) \<in> set (heap T) \<Longrightarrow> (a, x) \<in> set (heap T')" by blast
      with False P T'(2) show ?thesis by (auto simp: P_def) blast+
    qed
    with T'(1) show ?thesis by blast
  qed
  ultimately obtain S1 where "each (write_session io) l S = Inr S1" "P [] S1"
    using each_keeps [of P l S "write_session io"] by blast
  moreover from this S' have "S1 = S'" by (simp add: SendData_def l(1))
  ultimately show ?thesis using l(3) by (auto simp: P_def)
qed

lemma below_maxFd:
  assumes ok: "server_ok usable pending inv S"
  shows "set_of c S \<subseteq> {..<nat (sint (m_maxFd S))}"
proof
  fix n
  assume "n \<in> set_of c S"
  then obtain a s where s: "(a, s) \<in> set (heap S)" "n = nat (sint (session_handle s))"
    by (auto simp: set_of_def)
  have lt: "session_handle s < m_maxFd S" and m: "m_maxFd S \<le> 1024"
    using server_ok_live(2) [OF ok s(1)] ok by (simp_all add: server_ok_def)
  have u: "sint x = uint x" if "x \<le> 1024" for x :: c_int
    unfolding sint_uint using that
    by (intro signed_take_bit_int_eq_self) (simp_all add: word_le_def order_trans [OF _ uint_ge_0])
  have "sint (session_handle s) < sint (m_maxFd S)"
    using lt u [OF less_imp_le [OF less_le_trans [OF lt m]]] u [OF m] by (simp add: word_less_def)
  then show "n \<in> {..<nat (sint (m_maxFd S))}"
    using server_ok_live(1) [OF ok s(1)] by (simp add: s(2) fd_ok_def)
qed

text \<open>A round in which \<open>select\<close> reports descriptors: every live descriptor was looked at.\<close>

lemma hazard_calm:
  assumes ok: "server_ok usable pending inv S" and sel: "selects io = SelectReady rs ws"
  shows "hazard pending io S \<longleftrightarrow> \<not> calm io (set_of (idle pending) S \<inter> rs) S"
proof -
  have "nat (sint (session_handle s)) \<in> set_of (idle pending) S \<longleftrightarrow> idle pending s"
    if "(a, s) \<in> set (heap S)" for a s
    using in_set_of [OF ok that] that by (auto simp: set_of_def)
  then show ?thesis unfolding hazard_def calm_def sel select_out.case list_ex_iff by fastforce
qed

text \<open>The answer of \<open>select\<close> cuts the sets down to the descriptors it reports.\<close>

lemma ready_sets:
  assumes ok: "server_ok usable pending inv S" and sel: "selects io = SelectReady rs ws"
  shows "\<exists>res. apply_select (selects io) (nat (sint (m_maxFd S))) (set_of (idle pending) S)
      (set_of (\<lambda>s. is_connection s \<and> \<not> idle pending s) S) =
    (res, set_of (idle pending) S \<inter> rs, set_of (\<lambda>s. is_connection s \<and> \<not> idle pending s) S \<inter> ws) \<and> res \<noteq> -1 \<and>
    (set_of (idle pending) S \<inter> rs \<noteq> {} \<longrightarrow> res \<noteq> 0)"
proof -
  have cut: "set_of c S \<inter> x \<inter> {..<nat (sint (m_maxFd S))} = set_of c S \<inter> x" for c x
    using below_maxFd [OF ok] by blast
  have "finite (set_of (idle pending) S)"
    using finite_subset [OF below_maxFd [OF ok]] by simp
  then have pos: "set_of (idle pending) S \<inter> rs \<noteq> {} \<longrightarrow> 0 < card (set_of (idle pending) S \<inter> rs)"
    by (simp add: card_gt_0_iff)
  define m n where "m = card (set_of (idle pending) S \<inter> rs)"
    and "n = card (set_of (\<lambda>s. is_connection s \<and> \<not> idle pending s) S \<inter> ws)"
  have "int m + int n \<noteq> -1" "set_of (idle pending) S \<inter> rs \<noteq> {} \<longrightarrow> int m + int n \<noteq> 0"
    using pos unfolding m_def [symmetric] by linarith+
  then show ?thesis unfolding sel apply_select.simps Let_def cut m_def n_def by blast
qed

lemma acceptor_not_writable:
  assumes ok: "server_ok usable pending inv S" and "acceptors S1 = acceptors S" and "(a, s) \<in> acceptors S1"
  shows "nat (sint (session_handle s)) \<notin> set_of (\<lambda>s. is_connection s \<and> \<not> idle pending s) S \<inter> ws"
proof
  assume "nat (sint (session_handle s)) \<in> set_of (\<lambda>s. is_connection s \<and> \<not> idle pending s) S \<inter> ws"
  moreover have "(a, s) \<in> set (heap S)" "\<not> is_connection s"
    using assms(2,3) by (auto simp: acceptors_def)
  ultimately show False using in_set_of [OF ok] by blast
qed

lemma round_start:
  assumes ok: "server_ok usable pending inv S" and io: "kernel_ok pending inv io"
    and sel: "selects io = SelectReady rs ws"
  shows "\<exists>S0. heap S0 = heap S \<and> m_sessions S0 = m_sessions S \<and> server_ok usable pending inv S0 \<and>
    acceptors S0 = acceptors S \<and> m_pluginLoader S0 = m_pluginLoader S \<and>
    (set_of (idle pending) S \<inter> rs \<noteq> {} \<longrightarrow> S0 = S) \<and>
    run_round vt io S = bind_res (ReadData vt io (set_of (idle pending) S \<inter> rs) S0)
      (\<lambda>S1. bind_res (SendData io (set_of (\<lambda>s. is_connection s \<and> \<not> idle pending s) S \<inter> ws) S1)
        (\<lambda>S2. Inr (True, S2)))"
proof -
  have pv: "protocol_handler (handlers io) pending inv" using io by (simp add: kernel_ok_def)
  obtain res where res: "apply_select (selects io) (nat (sint (m_maxFd S))) (set_of (idle pending) S)
      (set_of (\<lambda>s. is_connection s \<and> \<not> idle pending s) S) =
    (res, set_of (idle pending) S \<inter> rs, set_of (\<lambda>s. is_connection s \<and> \<not> idle pending s) S \<inter> ws)" "res \<noteq> -1"
    "set_of (idle pending) S \<inter> rs \<noteq> {} \<longrightarrow> res \<noteq> 0"
    using ready_sets [OF ok sel] by blast
  define S0 where "S0 = (if res = 0 then say INFO ''Select timed out'' S else S)"
  have "heap S0 = heap S" "m_sessions S0 = m_sessions S" "server_ok usable pending inv S0"
    "acceptors S0 = acceptors S" "m_pluginLoader S0 = m_pluginLoader S"
    "set_of (idle pending) S \<inter> rs \<noteq> {} \<longrightarrow> S0 = S"
    using ok res(3) by (auto simp: S0_def acceptors_def)
  moreover have "run_round vt io S = bind_res (ReadData vt io (set_of (idle pending) S \<inter> rs) S0)
      (\<lambda>S1. bind_res (SendData io (set_of (\<lambda>s. is_connection s \<and> \<not> idle pending s) S \<inter> ws) S1)
        (\<lambda>S2. Inr (True, S2)))"
    unfolding run_round_def fill_sets [OF ok pv] FillError_def CloseOutdatedConnections_def bind_res_Inr
      Let_def res(1) prod.case S0_def [symmetric] using res(2) by simp
  ultimately show ?thesis by blast
qed

lemma round_ready:
  assumes ok: "server_ok usable pending inv S" and io: "kernel_ok pending inv io"
    and few: "length (m_sessions S) + card (acceptors S) \<le> max_open" and sel: "selects io = SelectReady rs ws"
    and calm: "\<not> hazard pending io S"
  shows "\<exists>S0 S1 S2. run_round vt io S = Inr (True, S2) \<and> heap S0 = heap S \<and> m_sessions S0 = m_sessions S \<and>
    server_ok usable pending inv S0 \<and> acceptors S0 = acceptors S \<and>
    ReadData vt io (set_of (idle pending) S \<inter> rs) S0 = Inr S1 \<and>
    reading usable pending inv io S0 [] S1 \<and> acceptors S1 = acceptors S \<and>
    SendData io (set_of (\<lambda>s. is_connection s \<and> \<not> idle pending s) S \<inter> ws) S1 = Inr S2 \<and>
    sending usable pending inv S1 [] S2 \<and> m_pluginLoader S2 = m_pluginLoader S"
proof -
  let ?r = "set_of (idle pending) S \<inter> rs" and ?w = "set_of (\<lambda>s. is_connection s \<and> \<not> idle pending s) S \<inter> ws"
  from round_start [OF ok io sel] obtain S0 where
    S0: "heap S0 = heap S" "m_sessions S0 = m_sessions S" "server_ok usable pending inv S0"
      "acceptors S0 = acceptors S" "m_pluginLoader S0 = m_pluginLoader S"
    and run: "run_round vt io S = bind_res (ReadData vt io ?r S0)
      (\<lambda>S1. bind_res (SendData io ?w S1) (\<lambda>S2. Inr (True, S2)))" by blast
  have "calm io ?r S" using calm hazard_calm [OF ok sel] by simp
  then have "calm io ?r S0" by (simp add: calm_def S0(1))
  moreover have "?r \<subseteq> set_of (idle pending) S0" by (simp add: set_of_def S0(1))
  moreover have "length (m_sessions S0) + card (acceptors S0) \<le> max_open" using few S0(2,4) by simp
  ultimately obtain S1 where
    S1: "ReadData vt io ?r S0 = Inr S1" "reading usable pending inv io S0 [] S1"
    using read_data [OF S0(3) io, of ?r] by auto
  then have ok1: "server_ok usable pending inv S1" "acceptors S1 = acceptors S"
      "m_pluginLoader S1 = m_pluginLoader S"
    using S0(4,5) by (simp_all add: reading_def reading_core_def)
  obtain S2 where S2: "SendData io ?w S1 = Inr S2" "sending usable pending inv S1 [] S2"
    using send_data [OF ok1(1) io, of ?w] acceptor_not_writable [OF ok ok1(2), of _ _ ws] by blast
  then have "m_pluginLoader S2 = m_pluginLoader S" using ok1(3) by (simp add: sending_def)
  with run S0 S1 ok1 S2 show ?thesis by auto
qed

text \<open>A round with a hazard goes wrong.\<close>

lemma round_fails:
  assumes ok: "server_ok usable pending inv S" and io: "kernel_ok pending inv io"
    and few: "length (m_sessions S) + card (acceptors S) \<le> max_open" and hz: "hazard pending io S"
  shows "run_round vt io S = Inl OutOfBounds"
proof -
  obtain rs ws where sel: "selects io = SelectReady rs ws"
    using hz by (auto simp: hazard_def split: select_out.splits)
  let ?r = "set_of (idle pending) S \<inter> rs" and ?w = "set_of (\<lambda>s. is_connection s \<and> \<not> idle pending s) S \<inter> ws"
  from round_start [OF ok io sel] obtain S0 where
    S0: "heap S0 = heap S" "m_sessions S0 = m_sessions S" "server_ok usable pending inv S0"
      "acceptors S0 = acceptors S"
    and run: "run_round vt io S = bind_res (ReadData vt io ?r S0)
      (\<lambda>S1. bind_res (SendData io ?w S1) (\<lambda>S2. Inr (True, S2)))" by blast
  have "\<not> calm io ?r S0" using hz hazard_calm [OF ok sel] by (simp add: calm_def S0(1))
  moreover have "?r \<subseteq> set_of (idle pending) S0" by (simp add: set_of_def S0(1))
  moreover have "length (m_sessions S0) + card (acceptors S0) \<le> max_open" using few S0(2,4) by simp
  ultimately have "ReadData vt io ?r S0 = Inl OutOfBounds \<or>
      (\<exists>S1. ReadData vt io ?r S0 = Inr S1 \<and> core_ok usable pending inv S1 \<and> doomed io [] S1)"
    using read_data [OF S0(3) io, of ?r] by simp
  then show ?thesis using run send_doomed by auto
qed

text \<open>
  A round, exactly: it leaves the bounds of an array when it has a hazard, and otherwise it ends in
  a state with the invariant.
\<close>

lemma round_exact:
  assumes ok: "server_ok usable pending inv S" and io: "kernel_ok pending inv io"
    and few: "length (m_sessions S) + card (acceptors S) \<le> max_open"
  shows "if hazard pending io S then run_round vt io S = Inl OutOfBounds
    else \<exists>S'. run_round vt io S = Inr (\<forall>e. selects io \<noteq> SelectFailed e, S') \<and> server_ok usable pending inv S' \<and>
      acceptors S' = acceptors S \<and> m_pluginLoader S' = m_pluginLoader S \<and>
      length (m_sessions S') \<le> length (m_sessions S) + card (acceptors S)"
proof (cases "hazard pending io S")
  case True
  with round_fails [OF ok io few] show ?thesis by simp
next
  case False
  have pv: "protocol_handler (handlers io) pending inv" using io by (simp add: kernel_ok_def)
  show ?thesis
  proof (cases "selects io")
    case (SelectReady rs ws)
    from round_ready [OF ok io few SelectReady False] obtain S0 S1 S2 where
      S2: "run_round vt io S = Inr (True, S2)" "sending usable pending inv S1 [] S2"
        "m_pluginLoader S2 = m_pluginLoader S"
      and S1: "heap S0 = heap S" "acceptors S0 = acceptors S" "acceptors S1 = acceptors S"
        "reading usable pending inv io S0 [] S1" by blast
    have "server_ok usable pending inv S2" "acceptors S2 = acceptors S"
      "length (heap S2) \<le> length (heap S) + card (acceptors S)"
      using S1 S2(2) by (auto simp: sending_def reading_def reading_core_def)
    with S2 False SelectReady show ?thesis
      using server_ok_length [of usable pending inv S2] server_ok_length [OF ok] by simp
  next
    case SelectTimeout
    have "selected {} T as = Inr []" if "server_ok usable pending inv T" "set as \<subseteq> set (m_sessions T)"
      for T :: "('h, 'p) server" and as
    proof -
      note T = that
      obtain l where l: "selected {} T as = Inr l" "set l \<subseteq> set as"
        "\<forall>a \<in> set as. a \<in> set l \<longleftrightarrow> (\<exists>s. (a, s) \<in> set (heap T) \<and> nat (sint (session_handle s)) \<in> {})"
        using selected_eq [OF T, of "{}"] by blast
      then show ?thesis by (cases l) auto
    qed
    then show ?thesis
      using ok False SelectTimeout by (simp add: run_round_def fill_sets [OF ok pv] FillError_def Let_def
          CloseOutdatedConnections_def ReadData_def SendData_def acceptors_def)
  next
    case (SelectFailed e)
    then show ?thesis
      using ok False by (auto simp: run_round_def fill_sets [OF ok pv] FillError_def Let_def
          CloseOutdatedConnections_def acceptors_def)
  qed
qed

end

end
