(* ===== verification/Server_Run.thy ===== *)
theory Server_Run
  imports Server_Invariant
begin

text \<open>
  From the start of the server to any of its rounds: \<open>InitPlugins\<close> establishes the invariant and
  registers an acceptor for every plugin whose listener starts, and every state the loop reaches
  keeps it. The run is a step relation whose reachable states are treated by rule induction.
\<close>

section \<open>The start\<close>

definition init_ok :: "init_io \<Rightarrow> bool" where
  "init_ok io \<longleftrightarrow>
     (\<forall>fds i. length fds < max_open \<longrightarrow> socket_fd io fds i = kInvalidSocket \<or>
        socket_fd io fds i \<notin> set fds \<and> fd_ok (socket_fd io fds i)) \<and>
     (\<forall>l. init_addr io l \<notin> set l)"

text \<open>The listener of a plugin starts: its socket opens, is bound and listens.\<close>

definition listener_starts :: "init_io \<Rightarrow> c_int list \<Rightarrow> nat \<Rightarrow> bool" where
  "listener_starts io fds i \<longleftrightarrow>
     socket_fd io fds i \<noteq> kInvalidSocket \<and> bind_rc io i = 0 \<and> listen_rc io i = 0"

text \<open>A state is the old one with an acceptor added for the plugin at the given address.\<close>

definition adds_acceptor ::
  "'p \<Rightarrow> string \<Rightarrow> 16 word \<Rightarrow> ('h, 'p) server \<Rightarrow> ('h, 'p) server \<Rightarrow> bool" where
  "adds_acceptor p ip n S S' \<longleftrightarrow>
     (\<exists>a l. heap S' = (a, AcceptorSession l None p) # heap S \<and> m_sessions S' = m_sessions S @ [a] \<and>
        ep_ip (m_ep l) = ip \<and> m_port (m_ep l) = n)"

definition same_sessions :: "('h, 'p) server \<Rightarrow> ('h, 'p) server \<Rightarrow> bool" where
  "same_sessions S S' \<longleftrightarrow> heap S' = heap S \<and> m_sessions S' = m_sessions S"

lemma Bind_valid:
  assumes "ep_ip (m_ep l) = ep_ip ep" and "m_port (m_ep l) = m_port ep" and "endpoint_IsValid ia ep"
  shows "\<exists>c. Bind ia rc e l = (rc = 0, e, [SysBind (m_socket l) c])"
  using assms by (auto simp: Bind_def endpoint_IsValid_def split: if_splits)

lemma adds_output [simp]:
  "adds_acceptor p ip n (say v m S) S' = adds_acceptor p ip n S S'"
  "same_sessions (say v m S) S' = same_sessions S S'"
  by (simp_all add: adds_acceptor_def same_sessions_def)

context plugin_service
begin

lemma start_listener_effect:
  assumes ok: "server_ok usable pending inv S" and io: "init_ok io"
    and p: "p \<in> set (GetPlugins (m_pluginLoader S))" "usable p"
    and ep: "endpoint_ok ep" "endpoint_IsValid (inet_addr io) ep" and few: "length (heap S) < max_open"
  shows "\<exists>S'. start_listener vt io i p ep S = Inr S' \<and> server_ok usable pending inv S' \<and>
    m_pluginLoader S' = m_pluginLoader S \<and>
    (if listener_starts io (open_fds S) i then adds_acceptor p (ep_ip ep) (m_port ep) S S'
     else same_sessions S S')"
proof -
  let ?fd = "socket_fd io (open_fds S) i"
  obtain l0 where l0: "TcpListener (raw_ip io) ep = Inr l0" "ep_ip (m_ep l0) = ep_ip ep" "m_port (m_ep l0) = m_port ep"
    using TcpListener_ok [OF ep(1)] by blast
  obtain n where n: "name vt p = Inr n" using has_name [OF p(2)] by blast
  define l where "l = l0\<lparr>m_socket := ?fd\<rparr>"
  have l: "ep_ip (m_ep l) = ep_ip ep" "m_port (m_ep l) = m_port ep" "m_socket l = ?fd"
    using l0 by (simp_all add: l_def)
  have opens: "TcpSocket_Open ?fd l0 = (?fd \<noteq> kInvalidSocket, l, [SysSocket])"
    by (simp add: TcpSocket_Open_def OpenHelper_def l_def)
  obtain c where bind: "Bind (inet_addr io) (bind_rc io i) (bind_errno io i) l =
      (bind_rc io i = 0, bind_errno io i, [SysBind (m_socket l) c])"
    using Bind_valid [OF l(1,2) ep(2)] by blast
  show ?thesis
  proof (cases "listener_starts io (open_fds S) i")
    case True
    let ?S = "did [SysListen (m_socket l) (m_maxListen S)] (did [SysBind (m_socket l) c] (did [SysSocket] S))"
    let ?a = "init_addr io (map fst (heap S))" and ?s = "AcceptorSession l None p"
    have "length (open_fds S) < max_open" using few by (simp add: open_fds_def)
    then have fd: "?fd \<notin> set (open_fds S)" "fd_ok ?fd"
      using io True unfolding init_ok_def listener_starts_def by blast+
    have fresh: "?a \<notin> set (map fst (heap S))" using io unfolding init_ok_def by blast
    from server_ok_register [of usable pending inv ?S ?a ?s] obtain S' where
      S': "RegisterSession ?a (new_session ?a ?s ?S) = Inr S'" "server_ok usable pending inv S'"
        "heap S' = (?a, ?s) # heap S" "m_sessions S' = m_sessions S @ [?a]" "m_pluginLoader S' = m_pluginLoader S"
      using ok fd fresh l(3) p by auto
    have rc: "bind_rc io i = 0" using True by (simp add: listener_starts_def)
    have max: "m_maxListen (did cs T) = m_maxListen T" for cs and T :: "('h, 'p) server"
      by (simp add: did_def)
    have "start_listener vt io i p ep S = Inr S'"
      using True S'(1) rc by (simp add: start_listener_def l0(1) opens bind [unfolded rc] Listen_def
          listener_starts_def max)
    moreover have "adds_acceptor p (ep_ip ep) (m_port ep) S S'"
      unfolding adds_acceptor_def using S'(3,4) l(1,2) by blast
    ultimately show ?thesis using S' True by simp
  next
    case False
    then show ?thesis
      using ok n by (auto simp: start_listener_def l0(1) opens bind Listen_def listener_starts_def
          same_sessions_def Let_def)
  qed
qed

lemma init_plugin_effect:
  assumes ok: "server_ok usable pending inv S" and io: "init_ok io"
    and p: "p \<in> set (GetPlugins (m_pluginLoader S))" "usable p" "port vt p = Inr n" "socket_type vt p = Inr t"
    and ip: "0 < length (SwitchValue c ''serverIp'')" "length (SwitchValue c ''serverIp'') < 19"
    and few: "length (heap S) < max_open"
  shows "\<exists>S'. init_plugin vt (Some c) io i p S = Inr S' \<and> server_ok usable pending inv S' \<and>
    m_pluginLoader S' = m_pluginLoader S \<and>
    (if inet_addr io (c_str (SwitchValue c ''serverIp'')) \<noteq> INADDR_NONE \<and> n \<noteq> 0 \<and> t = TCP \<and>
        listener_starts io (open_fds S) i
     then adds_acceptor p (c_str (SwitchValue c ''serverIp'')) n S S'
     else same_sessions S S')"
proof -
  obtain s where nm: "name vt p = Inr s" using has_name [OF p(2)] by blast
  have ini: "Initialize vt p = Inr (Some HostLog)" by (rule initializes [OF p(2)])
  let ?ip = "SwitchValue c ''serverIp''"
  obtain ep0 where ep0: "IPEndPoint_str (raw_ip io) ?ip 0 = Inr ep0" "ep_ip ep0 = c_str ?ip" "endpoint_ok ep0"
    using IPEndPoint_str_ok [OF ip] by blast
  define ep where "ep = set_port n ep0"
  have ep: "endpoint_ok ep" "ep_ip ep = c_str ?ip" "m_port ep = n"
    using endpoint_ok_set_port [OF ep0(3)] ep0(2) by (simp_all add: ep_def set_port_def ep_ip_def)
  have valid: "endpoint_IsValid (inet_addr io) ep \<longleftrightarrow> inet_addr io (c_str ?ip) \<noteq> INADDR_NONE \<and> n \<noteq> 0"
    by (simp add: endpoint_IsValid_def ep)
  let ?at = "ep_ip ep @ '': '' @ dec_of_nat (unat (m_port ep))"
  let ?S1 = "say INFO (''Initializing plugin: '' @ s) S"
  let ?S2 = "say INFO (''Plugin '' @ s @ '' will serve connections on '' @ ?at) ?S1"
  have eq: "init_plugin vt (Some c) io i p S =
      (if \<not> endpoint_IsValid (inet_addr io) ep
       then Inr (say WARN (''Plugin '' @ s @ '' returned invalid IPEndPoint: '' @ ?at) ?S1)
       else case t of TCP \<Rightarrow> start_listener vt io i p ep ?S2
         | OtherSockType _ \<Rightarrow> Inr (say WARN ''Unsupported socket type'' ?S2))"
    by (simp add: init_plugin_def nm ini ForCurrentProcess_def ep0(1) p(3,4) ep_def Let_def
        cong: sock_type.case_cong)
  have ok2: "server_ok usable pending inv ?S2" using ok by simp
  show ?thesis
  proof (cases "endpoint_IsValid (inet_addr io) ep \<and> t = TCP")
    case True
    have few2: "length (heap ?S2) < max_open" using few by simp
    have p2: "p \<in> set (GetPlugins (m_pluginLoader ?S2))" using p(1) by simp
    have v: "endpoint_IsValid (inet_addr io) ep" and t: "t = TCP" using True by auto
    have "\<exists>S'. start_listener vt io i p ep ?S2 = Inr S' \<and> server_ok usable pending inv S' \<and>
      m_pluginLoader S' = m_pluginLoader S \<and>
      (if listener_starts io (open_fds S) i then adds_acceptor p (c_str ?ip) n S S' else same_sessions S S')"
      using start_listener_effect [OF ok2 io p2 p(2) ep(1) v few2, of i] by (simp only: output_simps adds_output ep)
    moreover have "init_plugin vt (Some c) io i p S = start_listener vt io i p ep ?S2"
      by (simp only: eq v t sock_type.case not_True_eq_False if_False)
    moreover have "(inet_addr io (c_str ?ip) \<noteq> INADDR_NONE \<and> n \<noteq> 0 \<and> t = TCP \<and>
        listener_starts io (open_fds S) i) = listener_starts io (open_fds S) i"
      using v t valid by simp
    ultimately show ?thesis by (simp only:)
  next
    case False
    then show ?thesis
      using ok by (cases t) (auto simp: eq valid same_sessions_def)
  qed
qed

end

text \<open>The plugins that are served, with their ports, in the order of the list.\<close>

fun served :: "('p, 'h) plugin_vt \<Rightarrow> init_io \<Rightarrow> string \<Rightarrow> nat \<Rightarrow> 'p list \<Rightarrow> ('p \<times> 16 word) list" where
  "served pv io ip i [] = []"
| "served pv io ip i (p # ps) =
     (case port pv p of
        Inl _ \<Rightarrow> []
      | Inr n \<Rightarrow>
          if inet_addr io ip \<noteq> INADDR_NONE \<and> n \<noteq> 0 \<and> socket_type pv p = Inr TCP \<and> listener_starts io [] i
          then [(p, n)] else []) @ served pv io ip (Suc i) ps"

definition listening :: "('h, 'p) session \<Rightarrow> ('p \<times> string \<times> 16 word) option" where
  "listening s =
     (case s of
        AcceptorSession l ph p \<Rightarrow> Some (p, ep_ip (m_ep l), m_port (m_ep l))
      | ConnectionSession _ _ \<Rightarrow> None)"

definition adds_acceptors ::
  "('p \<times> 16 word) list \<Rightarrow> string \<Rightarrow> ('h, 'p) server \<Rightarrow> ('h, 'p) server \<Rightarrow> bool" where
  "adds_acceptors ps ip S S' \<longleftrightarrow>
     (\<exists>new. heap S' = rev new @ heap S \<and> m_sessions S' = m_sessions S @ map fst new \<and>
        map (\<lambda>e. listening (snd e)) new = map (\<lambda>(p, n). Some (p, ip, n)) ps)"

lemma adds_acceptors_Nil: "same_sessions S S' \<Longrightarrow> adds_acceptors [] ip S S'"
  by (simp add: same_sessions_def adds_acceptors_def)

lemma adds_acceptors_one: "adds_acceptor p ip n S S' \<Longrightarrow> adds_acceptors [(p, n)] ip S S'"
  unfolding adds_acceptor_def adds_acceptors_def
proof (elim exE conjE)
  fix a l
  assume "heap S' = (a, AcceptorSession l None p) # heap S" "m_sessions S' = m_sessions S @ [a]"
    "ep_ip (m_ep l) = ip" "m_port (m_ep l) = n"
  then show "\<exists>new. heap S' = rev new @ heap S \<and> m_sessions S' = m_sessions S @ map fst new \<and>
      map (\<lambda>e. listening (snd e)) new = map (\<lambda>(p, n). Some (p, ip, n)) [(p, n)]"
    by (intro exI [of _ "[(a, AcceptorSession l None p)]"]) (simp add: listening_def)
qed

lemma adds_acceptors_trans:
  assumes "adds_acceptors ps ip S S'" and "adds_acceptors qs ip S' S''"
  shows "adds_acceptors (ps @ qs) ip S S''"
proof -
  from assms obtain new new' where "heap S' = rev new @ heap S" "m_sessions S' = m_sessions S @ map fst new"
      "map (\<lambda>e. listening (snd e)) new = map (\<lambda>(p, n). Some (p, ip, n)) ps"
      "heap S'' = rev new' @ heap S'" "m_sessions S'' = m_sessions S' @ map fst new'"
      "map (\<lambda>e. listening (snd e)) new' = map (\<lambda>(p, n). Some (p, ip, n)) qs"
    unfolding adds_acceptors_def by blast
  then show ?thesis unfolding adds_acceptors_def by (intro exI [of _ "new @ new'"]) simp
qed

context plugin_service
begin

lemma init_plugins_effect:
  assumes ok: "server_ok usable pending inv S" and io: "init_ok io"
    and ps: "\<forall>p \<in> set ps. p \<in> set (GetPlugins (m_pluginLoader S)) \<and> usable p"
    and ip: "0 < length (SwitchValue c ''serverIp'')" "length (SwitchValue c ''serverIp'') < 19"
    and steady: "\<And>fds i. listener_starts io fds i = listener_starts io [] i"
    and few: "length (heap S) + length ps \<le> max_open"
  shows "\<exists>S'. init_plugins vt (Some c) io i ps S = Inr S' \<and> server_ok usable pending inv S' \<and>
    m_pluginLoader S' = m_pluginLoader S \<and>
    adds_acceptors (served vt io (c_str (SwitchValue c ''serverIp'')) i ps) (c_str (SwitchValue c ''serverIp'')) S S'"
  using ok ps few
proof (induction ps arbitrary: i S)
  case Nil
  then show ?case by (simp add: adds_acceptors_Nil same_sessions_def)
next
  case (Cons p ps)
  let ?ip = "c_str (SwitchValue c ''serverIp'')"
  have p: "p \<in> set (GetPlugins (m_pluginLoader S))" "usable p" "length (heap S) < max_open"
    using Cons.prems by auto
  obtain n t where n: "port vt p = Inr n" and t: "socket_type vt p = Inr t"
    using has_port [OF p(2)] has_type [OF p(2)] by blast
  let ?c = "inet_addr io ?ip \<noteq> INADDR_NONE \<and> n \<noteq> 0 \<and> t = TCP \<and> listener_starts io [] i"
  from init_plugin_effect [OF Cons.prems(1) io p(1,2) n t ip p(3), of i] obtain S1 where
    S1: "init_plugin vt (Some c) io i p S = Inr S1" "server_ok usable pending inv S1"
      "m_pluginLoader S1 = m_pluginLoader S"
      "if ?c then adds_acceptor p ?ip n S S1 else same_sessions S S1"
    unfolding steady [of "open_fds S"] by blast
  let ?new = "if ?c then [(p, n)] else []"
  have add: "adds_acceptors ?new ?ip S S1"
    using S1(4) adds_acceptors_one [of p ?ip n S S1] adds_acceptors_Nil [of S S1 ?ip] by (auto split: if_splits)
  then have "length (heap S1) \<le> Suc (length (heap S))"
    using S1(4) by (auto simp: adds_acceptor_def same_sessions_def split: if_splits)
  then have few1: "length (heap S1) + length ps \<le> max_open" using Cons.prems(3) by simp
  have ps1: "\<forall>p \<in> set ps. p \<in> set (GetPlugins (m_pluginLoader S1)) \<and> usable p"
    using Cons.prems(2) S1(3) by simp
  from Cons.IH [OF S1(2) ps1 few1, of "Suc i"] obtain S2 where
    S2: "init_plugins vt (Some c) io (Suc i) ps S1 = Inr S2" "server_ok usable pending inv S2"
      "m_pluginLoader S2 = m_pluginLoader S1" "adds_acceptors (served vt io ?ip (Suc i) ps) ?ip S1 S2"
    by blast
  have "served vt io ?ip i (p # ps) = ?new @ served vt io ?ip (Suc i) ps" using n t by simp
  with adds_acceptors_trans [OF add S2(4)] S1 S2 show ?case by simp
qed

end

section \<open>The loop\<close>

text \<open>
  One round of the loop as a step, under an allowed answer of the platform and while the
  descriptors in use leave room for one more connection per listener; and the states a run passes
  through.
\<close>

inductive server_step ::
  "('p, 'h) plugin_vt \<Rightarrow> ('h round_io \<Rightarrow> bool) \<Rightarrow> ('h, 'p) server \<Rightarrow> ('h, 'p) server \<Rightarrow> bool"
  for pv allowed where
  round: "allowed io \<Longrightarrow> length (m_sessions S) + card (acceptors S) \<le> max_open \<Longrightarrow>
    run_round pv io S = Inr (True, S') \<Longrightarrow> server_step pv allowed S S'"

inductive_cases server_stepE: "server_step pv allowed S S'"

inductive reaches ::
  "('p, 'h) plugin_vt \<Rightarrow> ('h round_io \<Rightarrow> bool) \<Rightarrow> ('h, 'p) server \<Rightarrow> ('h, 'p) server \<Rightarrow> bool"
  for pv allowed S where
  here: "reaches pv allowed S S"
| further: "reaches pv allowed S S1 \<Longrightarrow> server_step pv allowed S1 S2 \<Longrightarrow> reaches pv allowed S S2"

text \<open>A run over some rounds comes to one that has a hazard.\<close>

fun meets_hazard ::
  "('p, 'h) plugin_vt \<Rightarrow> ('h \<Rightarrow> string) \<Rightarrow> 'h round_io list \<Rightarrow> ('h, 'p) server \<Rightarrow> bool" where
  "meets_hazard pv pnd [] S = False"
| "meets_hazard pv pnd (io # ios) S =
     (hazard pnd io S \<or>
      (case run_round pv io S of Inr (True, S') \<Rightarrow> meets_hazard pv pnd ios S' | _ \<Rightarrow> False))"

lemma meets_no_hazard:
  fixes ios :: "'a round_io list" and S :: "('a, 'p) server"
  assumes "\<forall>io \<in> set ios. (\<forall>fd b. recvs io fd = Some b \<longrightarrow> length b \<noteq> m_bufSize) \<and>
    (\<forall>fd. accepts io [] fd \<noteq> kInvalidSocket)"
  shows "\<not> meets_hazard pv pnd ios S"
  using assms
proof (induction ios arbitrary: S)
  case (Cons io ios)
  have "\<not> read_hazard io s" for s :: "('a, 'p) session"
    using Cons.prems by (cases s) (auto split: option.splits)
  then have "\<not> hazard pnd io S" by (auto simp: hazard_def list_ex_iff split: select_out.splits)
  then show ?case using Cons by (auto split: sum.split bool.split)
qed simp

context plugin_service
begin

lemma reaches_ok:
  assumes "reaches vt (kernel_ok pending inv) S S'" and "server_ok usable pending inv S"
  shows "server_ok usable pending inv S' \<and> acceptors S' = acceptors S \<and> m_pluginLoader S' = m_pluginLoader S"
  using assms
proof (induction rule: reaches.induct)
  case (further S1 S2)
  then have ok: "server_ok usable pending inv S1" and s1: "acceptors S1 = acceptors S"
      "m_pluginLoader S1 = m_pluginLoader S" by simp_all
  from further(2) obtain io where
    io: "kernel_ok pending inv io" "length (m_sessions S1) + card (acceptors S1) \<le> max_open"
      "run_round vt io S1 = Inr (True, S2)"
    by (auto elim: server_stepE)
  from round_exact [OF ok io(1,2)] io(3) s1 show ?case by (auto split: if_splits)
qed simp

text \<open>
  A run over any number of rounds, while the connections the acceptors can have added leave room
  for descriptors: it goes wrong exactly when it comes to a round with a hazard.
\<close>

lemma run_loop_exact:
  assumes "server_ok usable pending inv S" and "\<forall>io \<in> set ios. kernel_ok pending inv io"
    and "length (m_sessions S) + length ios * card (acceptors S) \<le> max_open"
  shows "if meets_hazard vt pending ios S then run_loop vt ios S = Inl OutOfBounds
    else \<exists>S'. run_loop vt ios S = Inr (\<forall>io \<in> set ios. \<forall>e. selects io \<noteq> SelectFailed e, S') \<and>
      server_ok usable pending inv S' \<and> acceptors S' = acceptors S \<and> m_pluginLoader S' = m_pluginLoader S"
  using assms
proof (induction ios arbitrary: S)
  case (Cons io ios)
  have io: "kernel_ok pending inv io" and few: "length (m_sessions S) + card (acceptors S) \<le> max_open"
    using Cons.prems(2,3) by simp_all
  note round = round_exact [OF Cons.prems(1) io few]
  show ?case
  proof (cases "hazard pending io S")
    case True
    with round show ?thesis by simp
  next
    case False
    with round obtain S1 where
      S1: "run_round vt io S = Inr (\<forall>e. selects io \<noteq> SelectFailed e, S1)" "server_ok usable pending inv S1"
        "acceptors S1 = acceptors S" "m_pluginLoader S1 = m_pluginLoader S"
        "length (m_sessions S1) \<le> length (m_sessions S) + card (acceptors S)" by auto
    show ?thesis
    proof (cases "\<forall>e. selects io \<noteq> SelectFailed e")
      case True
      have "length (m_sessions S1) + length ios * card (acceptors S1) \<le> max_open"
        using Cons.prems(3) S1(3,5) by simp
      moreover have "\<forall>io \<in> set ios. kernel_ok pending inv io" using Cons.prems(2) by simp
      ultimately show ?thesis
        using Cons.IH [OF S1(2), of] S1(1,3,4) True False by (simp split: if_splits)
    next
      case stop: False
      have no: "(\<forall>e. selects io \<noteq> SelectFailed e) = False" using stop by simp
      show ?thesis using S1 [unfolded no] False stop by auto
    qed
  qed
qed simp

text \<open>A whole \<open>Run\<close> of a fresh server, from the start of the listeners to the last of the rounds.\<close>

lemma run_effect:
  assumes ok: "server_ok usable pending inv S" and init: "init_ok io"
    and ps: "\<forall>p \<in> set ps. p \<in> set (GetPlugins (m_pluginLoader S)) \<and> usable p" "GetPlugins (m_pluginLoader S) = ps"
    and ip: "0 < length (SwitchValue c ''serverIp'')" "length (SwitchValue c ''serverIp'') < 19"
    and steady: "\<And>fds i. listener_starts io fds i = listener_starts io [] i"
    and fresh: "heap S = []" "m_sessions S = []"
    and ios: "\<forall>io \<in> set ios. kernel_ok pending inv io" and few: "length ps + length ios * length ps \<le> max_open"
  shows "\<exists>S1. InitPlugins vt (Some c) io S = Inr S1 \<and> server_ok usable pending inv S1 \<and>
    length (m_sessions S1) = length (served vt io (c_str (SwitchValue c ''serverIp'')) 0 ps) \<and>
    m_pluginLoader S1 = m_pluginLoader S \<and>
    (if m_sessions S1 = [] then Run vt (Some c) io ios S = Inr (False, say WARN ''No sessions were registered.'' S1)
     else if meets_hazard vt pending ios S1 then Run vt (Some c) io ios S = Inl OutOfBounds
     else \<exists>S'. Run vt (Some c) io ios S = Inr (\<forall>io \<in> set ios. \<forall>e. selects io \<noteq> SelectFailed e, S') \<and>
       server_ok usable pending inv S' \<and> acceptors S' = acceptors S1 \<and> m_pluginLoader S' = m_pluginLoader S)"
proof -
  let ?ip = "c_str (SwitchValue c ''serverIp'')"
  have "length (heap S) + length ps \<le> max_open" using fresh(1) few by simp
  from init_plugins_effect [OF ok init ps(1) ip steady this, of 0] obtain S1 new where
    S1: "init_plugins vt (Some c) io 0 ps S = Inr S1" "server_ok usable pending inv S1"
      "m_pluginLoader S1 = m_pluginLoader S" "heap S1 = rev new" "m_sessions S1 = map fst new"
      "map (\<lambda>e. listening (snd e)) new = map (\<lambda>(p, n). Some (p, ?ip, n)) (served vt io ?ip 0 ps)"
    unfolding adds_acceptors_def fresh by auto
  have new: "length new = length (served vt io ?ip 0 ps)" using arg_cong [OF S1(6), of length] by simp
  have served: "length (served pv io ip k ps) \<le> length ps" for pv :: "('p, 'h) plugin_vt" and ip k
    by (induction ps arbitrary: k) (auto intro: le_SucI split: sum.split)
  have "card (acceptors S1) \<le> length new"
    using card_mono [of "set (heap S1)" "acceptors S1"] card_length [of "heap S1"] S1(4)
    by (simp add: acceptors_def)
  then have "length (m_sessions S1) + length ios * card (acceptors S1) \<le> length ps + length ios * length ps"
    using S1(5) new served [of vt ?ip 0] by (intro add_mono mult_le_mono2) simp_all
  then have few': "length (m_sessions S1) + length ios * card (acceptors S1) \<le> max_open" using few by simp
  have start: "InitPlugins vt (Some c) io S = Inr S1" using S1(1) ps(2) by (simp add: InitPlugins_def)
  show ?thesis
  proof (cases "m_sessions S1 = []")
    case True
    then show ?thesis using start S1 new by (simp add: Run_def)
  next
    case False
    then have "Run vt (Some c) io ios S = run_loop vt ios S1" using start by (simp add: Run_def)
    with run_loop_exact [OF S1(2) ios few'] start S1 new False show ?thesis by (simp split: if_splits)
  qed
qed

end

end
