(* ===== verification/Http_Request.thy ===== *)
theory Http_Request
  imports Prelude
begin

text \<open>
  The HTTP request of the plugin (\<open>server_plugin/http/request.h\<close>, \<open>request.cpp\<close>): string
  pieces that point into the request's text, the request object, and the incremental parser
  \<open>HttpRequestParser::Parse\<close> as a machine that does one iteration of its \<open>while\<close> loop per
  step.
\<close>

section \<open>Enumerations\<close>

datatype request_method = GET | INVALID_METHOD

datatype http_version = HTTP_1_0 | HTTP_1_1 | INVALID_VERSION

datatype parse_status =
    START | METHOD | URL | HTTP | HEADER | HEADER_NEWLINE | FINISHED | MORE_DATA | ERROR

text \<open>The integer an enumerator prints as (\<open>operator<<\<close> on an unscoped enum).\<close>

fun enum_of_method :: "request_method \<Rightarrow> nat" where
  "enum_of_method GET = 0"
| "enum_of_method INVALID_METHOD = 1"

fun enum_of_version :: "http_version \<Rightarrow> nat" where
  "enum_of_version HTTP_1_0 = 0"
| "enum_of_version HTTP_1_1 = 1"
| "enum_of_version INVALID_VERSION = 2"

section \<open>String pieces\<close>

text \<open>
  A piece is a pointer into some character object and an \<open>int\<close> length. The pointer is \<open>NULL\<close>
  or an offset into the object, which the operations take as an argument: for a piece of a
  request it is the request's text, for a comparison with a literal it is the literal.
\<close>

record string_piece =
  m_start :: "nat option"
  m_length :: c_int

definition StringPiece :: "nat option \<Rightarrow> c_int \<Rightarrow> string_piece" where
  "StringPiece start len = \<lparr>m_start = start, m_length = len\<rparr>"

definition default_piece :: string_piece where
  "default_piece = StringPiece None 0"

text \<open>
  Reading \<open>m_start[i]\<close>. The object holds the characters of \<open>b\<close> and a terminating NUL (\<open>c_str()\<close>
  and string literals both do); a read past it is undefined.
\<close>

definition piece_deref :: "string \<Rightarrow> string_piece \<Rightarrow> nat \<Rightarrow> char res" where
  "piece_deref b p i =
     (case m_start p of
        None \<Rightarrow> Inl NullDereference
      | Some off \<Rightarrow>
          if off + i < length b then Inr (b ! (off + i))
          else if off + i = length b then Inr NUL
          else Inl OutOfBounds)"

text \<open>\<open>StringPiece::ToString\<close>: the loop copies \<open>n\<close> characters from index \<open>i\<close> on.\<close>

fun copy_loop :: "nat \<Rightarrow> nat \<Rightarrow> string \<Rightarrow> string_piece \<Rightarrow> string res" where
  "copy_loop 0 i b p = Inr []"
| "copy_loop (Suc n) i b p =
     bind_res (piece_deref b p i) (\<lambda>c.
     bind_res (copy_loop n (Suc i) b p) (\<lambda>cs. Inr (c # cs)))"

definition piece_ToString :: "string \<Rightarrow> string_piece \<Rightarrow> string res" where
  "piece_ToString b p =
     (if m_length p = 0 \<or> m_start p = None then Inr []
      else if sint (m_length p) < 0 then Inl LengthError
      else copy_loop (nat (sint (m_length p))) 0 b p)"

text \<open>\<open>StringPiece::operator==\<close>: \<open>b\<close>, \<open>p\<close> are this piece, \<open>b'\<close>, \<open>p'\<close> the other one.\<close>

fun eq_loop :: "nat \<Rightarrow> nat \<Rightarrow> string \<Rightarrow> string_piece \<Rightarrow> string \<Rightarrow> string_piece \<Rightarrow> bool res" where
  "eq_loop 0 i b p b' p' = Inr True"
| "eq_loop (Suc n) i b p b' p' =
     bind_res (piece_deref b' p' i) (\<lambda>c'.
     bind_res (piece_deref b p i) (\<lambda>c.
       if c' \<noteq> c then Inr False else eq_loop n (Suc i) b p b' p'))"

definition piece_eq :: "string \<Rightarrow> string_piece \<Rightarrow> string \<Rightarrow> string_piece \<Rightarrow> bool res" where
  "piece_eq b p b' p' =
     (if m_length p' \<noteq> m_length p then Inr False
      else eq_loop (nat (sint (m_length p))) 0 b p b' p')"

section \<open>The request\<close>

record parse_res =
  status :: parse_status
  stoppedAt :: nat

definition ParseRes :: "parse_status \<Rightarrow> nat \<Rightarrow> parse_res" where
  "ParseRes s n = \<lparr>status = s, stoppedAt = n\<rparr>"

record http_request =
  m_request :: string
  m_parseRes :: parse_res
  m_resPath :: string_piece
  m_method :: request_method
  m_httpVer :: http_version
  m_headers :: "string_piece list"

definition new_HttpRequest :: http_request where
  "new_HttpRequest =
     \<lparr>m_request = [], m_parseRes = ParseRes START 0, m_resPath = default_piece,
      m_method = INVALID_METHOD, m_httpVer = INVALID_VERSION, m_headers = []\<rparr>"

definition request_Empty :: "http_request \<Rightarrow> bool" where
  "request_Empty r \<longleftrightarrow> m_request r = []"

definition request_Clear :: "http_request \<Rightarrow> http_request" where
  "request_Clear r = r\<lparr>m_request := []\<rparr>"

definition request_Append :: "http_request \<Rightarrow> string \<Rightarrow> http_request" where
  "request_Append r s = r\<lparr>m_request := m_request r @ s\<rparr>"

text \<open>The overload with a buffer and a size: \<open>std::string(data, size)\<close> takes \<open>size\<close> characters.\<close>

definition request_Append_buf :: "http_request \<Rightarrow> string \<Rightarrow> nat \<Rightarrow> http_request" where
  "request_Append_buf r buf n = request_Append r (take n buf)"

definition request_AddHeader :: "http_request \<Rightarrow> string_piece \<Rightarrow> http_request" where
  "request_AddHeader r h = r\<lparr>m_headers := m_headers r @ [h]\<rparr>"

definition resource_path :: "http_request \<Rightarrow> string res" where
  "resource_path r = piece_ToString (m_request r) (m_resPath r)"

section \<open>The parser\<close>

definition getChar :: "string \<Rightarrow> nat \<Rightarrow> char" where
  "getChar request currPos = (if currPos \<ge> length request then NUL else request ! currPos)"

definition MethodFromStringPiece :: "string \<Rightarrow> string_piece \<Rightarrow> request_method res" where
  "MethodFromStringPiece b p =
     bind_res (piece_eq b p ''GET'' (StringPiece (Some 0) 3)) (\<lambda>e.
       Inr (if e then GET else INVALID_METHOD))"

definition HttpVerFromStringPiece :: "string \<Rightarrow> string_piece \<Rightarrow> http_version res" where
  "HttpVerFromStringPiece b p =
     bind_res (piece_eq b p ''HTTP/1.1'' (StringPiece (Some 0) 8)) (\<lambda>e1.
       if e1 then Inr HTTP_1_1
       else bind_res (piece_eq b p ''HTTP/1.0'' (StringPiece (Some 0) 8)) (\<lambda>e0.
         Inr (if e0 then HTTP_1_0 else INVALID_VERSION)))"

text \<open>
  The locals of \<open>Parse\<close> and the header list of the request it appends to. \<open>start\<close> is an offset
  into the text.
\<close>

record parse_state =
  ps_status :: parse_status
  currentPos :: nat
  start :: nat
  pieceLen :: nat
  ps_method :: string_piece
  ps_url :: string_piece
  ps_http :: string_piece
  ps_headers :: "string_piece list"

definition cur_piece :: "parse_state \<Rightarrow> string_piece" where
  "cur_piece st = StringPiece (Some (start st)) (int_of_size (pieceLen st))"

text \<open>The three ways a step moves: over a counted character, over an uncounted one, past a delimiter.\<close>

definition count_char :: "parse_state \<Rightarrow> parse_state" where
  "count_char st = st\<lparr>pieceLen := pieceLen st + 1, currentPos := currentPos st + 1\<rparr>"

definition skip_char :: "parse_state \<Rightarrow> parse_state" where
  "skip_char st = st\<lparr>currentPos := currentPos st + 1\<rparr>"

definition next_piece :: "parse_status \<Rightarrow> parse_state \<Rightarrow> parse_state" where
  "next_piece s st =
     st\<lparr>currentPos := currentPos st + 1, start := currentPos st + 1, pieceLen := 0, ps_status := s\<rparr>"

definition step_METHOD :: "string \<Rightarrow> parse_state \<Rightarrow> parse_state" where
  "step_METHOD d st =
     (let nextChar = getChar d (currentPos st) in
      if nextChar = NUL then st\<lparr>ps_status := FINISHED\<rparr>
      else if nextChar = SP then next_piece URL (st\<lparr>ps_method := cur_piece st\<rparr>)
      else count_char st)"

definition step_URL :: "string \<Rightarrow> parse_state \<Rightarrow> parse_state" where
  "step_URL d st =
     (let nextChar = getChar d (currentPos st) in
      if nextChar = NUL then st\<lparr>ps_status := FINISHED\<rparr>
      else if nextChar = SP then next_piece HTTP (st\<lparr>ps_url := cur_piece st\<rparr>)
      else count_char st)"

definition step_HTTP :: "string \<Rightarrow> parse_state \<Rightarrow> parse_state" where
  "step_HTTP d st =
     (let nextChar = getChar d (currentPos st) in
      if nextChar = NUL then st\<lparr>ps_status := FINISHED\<rparr>
      else if nextChar = CR then skip_char st
      else if nextChar = LF then next_piece HEADER (st\<lparr>ps_http := cur_piece st\<rparr>)
      else count_char st)"

definition step_HEADER :: "string \<Rightarrow> parse_state \<Rightarrow> parse_state" where
  "step_HEADER d st =
     (let nextChar = getChar d (currentPos st) in
      if nextChar = NUL then st\<lparr>ps_status := FINISHED\<rparr>
      else if nextChar = CR then skip_char st
      else if nextChar = LF then
        next_piece HEADER_NEWLINE (st\<lparr>ps_headers := ps_headers st @ [cur_piece st]\<rparr>)
      else count_char st)"

definition step_HEADER_NEWLINE :: "string \<Rightarrow> parse_state \<Rightarrow> parse_state" where
  "step_HEADER_NEWLINE d st =
     (let nextChar = getChar d (currentPos st) in
      if nextChar = CR then skip_char st
      else if nextChar = LF then st\<lparr>ps_status := FINISHED\<rparr>
      else st\<lparr>ps_status := HEADER\<rparr>)"

definition parse_step :: "string \<Rightarrow> parse_state \<Rightarrow> parse_state" where
  "parse_step d st =
     (case ps_status st of
        START \<Rightarrow> st\<lparr>start := 0, ps_status := METHOD\<rparr>
      | METHOD \<Rightarrow> step_METHOD d st
      | URL \<Rightarrow> step_URL d st
      | HTTP \<Rightarrow> step_HTTP d st
      | HEADER \<Rightarrow> step_HEADER d st
      | HEADER_NEWLINE \<Rightarrow> step_HEADER_NEWLINE d st
      | _ \<Rightarrow> st\<lparr>ps_status := MORE_DATA\<rparr>)"

text \<open>The loop; \<open>None\<close> is "does not return".\<close>

partial_function (option) parse_loop :: "string \<Rightarrow> parse_state \<Rightarrow> parse_state option" where
  "parse_loop d st =
     (if ps_status st \<noteq> ERROR \<and> ps_status st \<noteq> FINISHED then parse_loop d (parse_step d st)
      else Some st)"

definition parse_start :: "http_request \<Rightarrow> parse_state" where
  "parse_start r =
     \<lparr>ps_status = status (m_parseRes r), currentPos = stoppedAt (m_parseRes r),
      start = stoppedAt (m_parseRes r), pieceLen = 0, ps_method = default_piece,
      ps_url = default_piece, ps_http = default_piece, ps_headers = m_headers r\<rparr>"

text \<open>What \<open>Parse\<close> stores in the request after the loop.\<close>

definition parse_finish :: "http_request \<Rightarrow> parse_state \<Rightarrow> (parse_res \<times> http_request) res" where
  "parse_finish r st =
     (let out = ParseRes (ps_status st) (currentPos st) in
      bind_res (MethodFromStringPiece (m_request r) (ps_method st)) (\<lambda>m.
      bind_res (HttpVerFromStringPiece (m_request r) (ps_http st)) (\<lambda>v.
        Inr (out, r\<lparr>m_headers := ps_headers st, m_method := m, m_resPath := ps_url st,
                    m_httpVer := v, m_parseRes := out\<rparr>))))"

definition Parse :: "http_request \<Rightarrow> (parse_res \<times> http_request) res option" where
  "Parse r =
     (if stoppedAt (m_parseRes r) \<ge> length (m_request r)
      then Some (Inr (ParseRes ERROR (stoppedAt (m_parseRes r)), r))
      else map_option (parse_finish r) (parse_loop (m_request r) (parse_start r)))"

section \<open>What a valid piece denotes\<close>

definition piece_ok :: "string \<Rightarrow> string_piece \<Rightarrow> bool" where
  "piece_ok b p \<longleftrightarrow>
     (case m_start p of
        None \<Rightarrow> m_length p = 0
      | Some off \<Rightarrow> 0 \<le> sint (m_length p) \<and> off + nat (sint (m_length p)) \<le> length b)"

definition piece_text :: "string \<Rightarrow> string_piece \<Rightarrow> string" where
  "piece_text b p =
     (case m_start p of None \<Rightarrow> [] | Some off \<Rightarrow> slice off (nat (sint (m_length p))) b)"

lemma piece_ok_default [simp]: "piece_ok b default_piece"
  by (simp add: piece_ok_def default_piece_def StringPiece_def)

lemma piece_text_default [simp]: "piece_text b default_piece = []"
  by (simp add: piece_text_def default_piece_def StringPiece_def)

lemma length_piece_text: "piece_ok b p \<Longrightarrow> length (piece_text b p) = nat (sint (m_length p))"
  by (auto simp: piece_ok_def piece_text_def split: option.splits)

lemma slice_Suc: "i < length b \<Longrightarrow> slice i (Suc n) b = b ! i # slice (Suc i) n b"
  by (simp add: slice_def Cons_nth_drop_Suc [symmetric])

lemma copy_loop_slice:
  assumes "m_start p = Some off"
  shows "off + i + n \<le> length b \<Longrightarrow> copy_loop n i b p = Inr (slice (off + i) n b)"
  by (induction n arbitrary: i) (simp_all add: piece_deref_def assms slice_Suc)

lemma piece_ToString_ok: "piece_ok b p \<Longrightarrow> piece_ToString b p = Inr (piece_text b p)"
  by (auto simp: piece_ok_def piece_text_def piece_ToString_def copy_loop_slice split: option.splits)

lemma eq_loop_slice:
  assumes "m_start p = Some off" and "m_start p' = Some off'"
  shows "off + i + n \<le> length b \<Longrightarrow> off' + i + n \<le> length b' \<Longrightarrow>
    eq_loop n i b p b' p' = Inr (slice (off + i) n b = slice (off' + i) n b')"
  by (induction n arbitrary: i) (auto simp: piece_deref_def assms slice_Suc)

lemma piece_eq_ok:
  assumes "piece_ok b p" and "piece_ok b' p'"
  shows "piece_eq b p b' p' = Inr (piece_text b p = piece_text b' p')"
proof (cases "m_length p' = m_length p")
  case True
  with assms show ?thesis
    by (auto simp: piece_eq_def piece_ok_def piece_text_def eq_loop_slice split: option.splits)
next
  case False
  have "0 \<le> sint (m_length q)" if "piece_ok c q" for c q
    using that by (auto simp: piece_ok_def split: option.splits)
  with False assms have "nat (sint (m_length p)) \<noteq> nat (sint (m_length p'))"
    by (metis eq_nat_nat_iff word_eq_iff_signed)
  then have "length (piece_text b p) \<noteq> length (piece_text b' p')"
    using assms by (simp add: length_piece_text)
  then have "piece_text b p \<noteq> piece_text b' p'" by auto
  with False show ?thesis by (simp add: piece_eq_def)
qed

definition method_of :: "string \<Rightarrow> request_method" where
  "method_of s = (if s = ''GET'' then GET else INVALID_METHOD)"

definition version_of :: "string \<Rightarrow> http_version" where
  "version_of s =
     (if s = ''HTTP/1.1'' then HTTP_1_1 else if s = ''HTTP/1.0'' then HTTP_1_0 else INVALID_VERSION)"

lemma literal_piece [simp]:
  "piece_ok ''GET'' (StringPiece (Some 0) 3)"
  "piece_text ''GET'' (StringPiece (Some 0) 3) = ''GET''"
  "piece_ok ''HTTP/1.1'' (StringPiece (Some 0) 8)"
  "piece_text ''HTTP/1.1'' (StringPiece (Some 0) 8) = ''HTTP/1.1''"
  "piece_ok ''HTTP/1.0'' (StringPiece (Some 0) 8)"
  "piece_text ''HTTP/1.0'' (StringPiece (Some 0) 8) = ''HTTP/1.0''"
  by (simp_all add: piece_ok_def piece_text_def StringPiece_def slice_def)

lemma MethodFromStringPiece_ok:
  "piece_ok b p \<Longrightarrow> MethodFromStringPiece b p = Inr (method_of (piece_text b p))"
  by (simp add: MethodFromStringPiece_def piece_eq_ok method_of_def)

lemma HttpVerFromStringPiece_ok:
  "piece_ok b p \<Longrightarrow> HttpVerFromStringPiece b p = Inr (version_of (piece_text b p))"
  by (simp add: HttpVerFromStringPiece_def piece_eq_ok version_of_def)

lemma piece_ok_cur:
  "start st + pieceLen st \<le> length b \<Longrightarrow> length b < 2 ^ 31 \<Longrightarrow> piece_ok b (cur_piece st)"
  by (simp add: piece_ok_def cur_piece_def StringPiece_def sint_int_of_size nat_sint_int_of_size)

lemma piece_text_cur:
  "pieceLen st < 2 ^ 31 \<Longrightarrow> piece_text b (cur_piece st) = slice (start st) (pieceLen st) b"
  by (simp add: piece_text_def cur_piece_def StringPiece_def nat_sint_int_of_size)

end
