(* ===== verification/Http_Parser.thy ===== *)
theory Http_Parser
  imports Http_Request
begin

text \<open>
  Correctness of the request parser: its loop returns for every status it can be entered with,
  every piece it produces lies inside the text, and on a fresh request it computes what a
  reference reading of the text, line by line, says.
\<close>

section \<open>Running the loop\<close>

definition running :: "parse_status \<Rightarrow> bool" where
  "running s \<longleftrightarrow> s \<noteq> ERROR \<and> s \<noteq> FINISHED"

lemma parse_loop_step: "running (ps_status st) \<Longrightarrow> parse_loop d st = parse_loop d (parse_step d st)"
  by (subst parse_loop.simps) (simp add: running_def)

lemma parse_loop_stop: "\<not> running (ps_status st) \<Longrightarrow> parse_loop d st = Some st"
  by (subst parse_loop.simps) (auto simp: running_def)

lemmas step_defs = step_METHOD_def step_URL_def step_HTTP_def step_HEADER_def
  step_HEADER_NEWLINE_def next_piece_def count_char_def skip_char_def

lemma getChar_not_NUL: "getChar d n \<noteq> NUL \<Longrightarrow> n < length d"
  by (auto simp: getChar_def split: if_splits)

lemma getChar_not_NUL_le: "getChar d n = c \<Longrightarrow> c \<noteq> NUL \<Longrightarrow> n < length d"
  using getChar_not_NUL by blast

lemma getChar_append [step_simps]: "getChar (pre @ c # rest) (length pre) = c"
  by (simp add: getChar_def nth_append)

lemma getChar_end [step_simps]: "getChar d (length d) = NUL"
  by (simp add: getChar_def)

section \<open>Termination\<close>

fun status_weight :: "parse_status \<Rightarrow> nat" where
  "status_weight START = 2"
| "status_weight HEADER_NEWLINE = 2"
| "status_weight FINISHED = 0"
| "status_weight ERROR = 0"
| "status_weight _ = 1"

definition parse_measure :: "string \<Rightarrow> parse_state \<Rightarrow> nat" where
  "parse_measure d st = 2 * (length d - currentPos st) + status_weight (ps_status st)"

lemma parse_step_status:
  "running (ps_status st) \<Longrightarrow> ps_status st \<noteq> MORE_DATA \<Longrightarrow>
    ps_status (parse_step d st) \<noteq> MORE_DATA \<and> ps_status (parse_step d st) \<noteq> ERROR"
  by (cases "ps_status st") (auto simp: running_def parse_step_def step_defs Let_def)

lemma parse_step_decreases:
  assumes "running (ps_status st)" and "ps_status st \<noteq> MORE_DATA"
  shows "parse_measure d (parse_step d st) < parse_measure d st"
proof (cases "getChar d (currentPos st) = NUL")
  case True
  with assms show ?thesis
    by (cases "ps_status st") (auto simp: running_def parse_measure_def parse_step_def step_defs)
next
  case False
  then have "currentPos st < length d" by (rule getChar_not_NUL)
  with assms False show ?thesis
    by (cases "ps_status st")
      (auto simp: running_def parse_measure_def parse_step_def step_defs Let_def)
qed

text \<open>The rule every fact about the loop's result comes from.\<close>

lemma parse_loop_invariant:
  assumes "\<And>s. P s \<Longrightarrow> running (ps_status s) \<Longrightarrow> ps_status s \<noteq> MORE_DATA \<Longrightarrow> P (parse_step d s)"
  shows "P st \<Longrightarrow> ps_status st \<noteq> MORE_DATA \<Longrightarrow>
    \<exists>st'. parse_loop d st = Some st' \<and> P st' \<and> \<not> running (ps_status st')"
proof (induction "parse_measure d st" arbitrary: st rule: less_induct)
  case less
  show ?case
  proof (cases "running (ps_status st)")
    case True
    with less.prems have "P (parse_step d st)" "ps_status (parse_step d st) \<noteq> MORE_DATA"
      "parse_measure d (parse_step d st) < parse_measure d st"
      using assms parse_step_status parse_step_decreases by blast+
    with less.hyps True show ?thesis by (simp add: parse_loop_step)
  next
    case False
    with less.prems show ?thesis by (simp add: parse_loop_stop)
  qed
qed

lemma parse_loop_returns_unless_error:
  assumes "ps_status st \<noteq> MORE_DATA" and "ps_status st \<noteq> ERROR"
  shows "\<exists>st'. parse_loop d st = Some st' \<and> ps_status st' = FINISHED"
proof -
  have "\<exists>st'. parse_loop d st = Some st' \<and> ps_status st' \<noteq> ERROR \<and> \<not> running (ps_status st')"
    using assms parse_step_status
    by (intro parse_loop_invariant [where P = "\<lambda>s. ps_status s \<noteq> ERROR"]) auto
  then show ?thesis by (auto simp: running_def)
qed

text \<open>
  A request whose stored status is \<open>MORE_DATA\<close> would never leave the loop: the default arm
  sets \<open>MORE_DATA\<close> again.
\<close>

lemma parse_loop_MORE_DATA_aux:
  assumes "parse_loop d st = Some r"
  shows "ps_status st \<noteq> MORE_DATA"
proof (rule parse_loop.raw_induct [where P = "\<lambda>d st r. ps_status st \<noteq> MORE_DATA", OF _ assms])
  fix f :: "string \<Rightarrow> parse_state \<Rightarrow> parse_state option" and d st r
  assume IH: "\<And>d st r. f d st = Some r \<Longrightarrow> ps_status st \<noteq> MORE_DATA"
    and eq: "(if ps_status st \<noteq> ERROR \<and> ps_status st \<noteq> FINISHED then f d (parse_step d st)
      else Some st) = Some r"
  show "ps_status st \<noteq> MORE_DATA"
  proof
    assume md: "ps_status st = MORE_DATA"
    with eq have "f d (parse_step d st) = Some r" by simp
    then have "ps_status (parse_step d st) \<noteq> MORE_DATA" by (rule IH)
    with md show False by (simp add: parse_step_def)
  qed
qed

lemma parse_loop_MORE_DATA: "ps_status st = MORE_DATA \<Longrightarrow> parse_loop d st = None"
  using parse_loop_MORE_DATA_aux by (cases "parse_loop d st") auto

section \<open>Every piece lies in the text\<close>

definition parse_inv :: "string \<Rightarrow> parse_state \<Rightarrow> bool" where
  "parse_inv d st \<longleftrightarrow>
     start st + pieceLen st \<le> currentPos st \<and> currentPos st \<le> length d \<and>
     piece_ok d (ps_method st) \<and> piece_ok d (ps_url st) \<and> piece_ok d (ps_http st) \<and>
     (\<forall>h \<in> set (ps_headers st). piece_ok d h)"

lemma parse_step_inv:
  assumes "length d < 2 ^ 31" and "running (ps_status st)" and "parse_inv d st"
  shows "parse_inv d (parse_step d st)"
proof -
  have cur: "piece_ok d (cur_piece st)"
    using assms by (intro piece_ok_cur) (auto simp: parse_inv_def)
  show ?thesis
    using assms(2,3) cur getChar_not_NUL [of d "currentPos st"]
    by (cases "ps_status st") (auto simp: running_def parse_step_def parse_inv_def step_defs Let_def)
qed

section \<open>The reference reading of a request\<close>

text \<open>
  The parser reads the text up to its first NUL. The method ends at the first space, the path at
  the next one; both are absent when that space is. Lines end at LF. The text of a line is as
  many of its first characters as it has characters other than CR.
\<close>

definition before :: "char \<Rightarrow> string \<Rightarrow> string" where
  "before c t = takeWhile (\<lambda>x. x \<noteq> c) t"

definition behind :: "char \<Rightarrow> string \<Rightarrow> string" where
  "behind c t = tl (dropWhile (\<lambda>x. x \<noteq> c) t)"

definition line_text :: "string \<Rightarrow> string" where
  "line_text l = take (length (filter (\<lambda>c. c \<noteq> CR) l)) l"

definition ref_method :: "string \<Rightarrow> string" where
  "ref_method t = (if SP \<in> set t then before SP t else [])"

definition ref_url :: "string \<Rightarrow> string" where
  "ref_url t = (if SP \<in> set t then ref_method (behind SP t) else [])"

definition ref_version :: "string \<Rightarrow> string" where
  "ref_version t =
     (if SP \<in> set t \<and> SP \<in> set (behind SP t) \<and> LF \<in> set (behind SP (behind SP t))
      then line_text (before LF (behind SP (behind SP t))) else [])"

lemma length_behind: "c \<in> set t \<Longrightarrow> length (behind c t) < length t"
proof -
  assume "c \<in> set t"
  then have "dropWhile (\<lambda>x. x \<noteq> c) t \<noteq> []" by (auto simp: dropWhile_eq_Nil_conv)
  moreover have "length (dropWhile (\<lambda>x. x \<noteq> c) t) \<le> length t" by (rule length_dropWhile_le)
  ultimately show ?thesis
    by (cases "dropWhile (\<lambda>x. x \<noteq> c) t") (auto simp: behind_def)
qed

text \<open>
  Header lines: the line after the request line is always one, a later line is one unless it
  holds nothing but CRs, which ends the request.
\<close>

function ref_header_lines :: "bool \<Rightarrow> string \<Rightarrow> string list" where
  "ref_header_lines first t =
     (if LF \<notin> set t then []
      else if \<not> first \<and> filter (\<lambda>c. c \<noteq> CR) (before LF t) = [] then []
      else line_text (before LF t) # ref_header_lines False (behind LF t))"
  by pat_completeness auto
termination
  by (relation "measure (\<lambda>(first, t). length t)") (auto simp: length_behind)

declare ref_header_lines.simps [simp del]

definition ref_headers :: "string \<Rightarrow> string list" where
  "ref_headers t =
     (if SP \<in> set t \<and> SP \<in> set (behind SP t) \<and> LF \<in> set (behind SP (behind SP t))
      then ref_header_lines True (behind LF (behind SP (behind SP t))) else [])"

text \<open>Splitting a text at a delimiter, and the same split of the data it is the C string of.\<close>

lemma before_behind: "c \<in> set t \<Longrightarrow> t = before c t @ c # behind c t"
proof -
  assume "c \<in> set t"
  then obtain us vs where "t = us @ c # vs" and "c \<notin> set us" by (meson split_list_first)
  moreover from this have "takeWhile (\<lambda>x. x \<noteq> c) t = us" and "dropWhile (\<lambda>x. x \<noteq> c) t = c # vs"
    by (induction us arbitrary: t) auto
  ultimately show ?thesis by (simp add: before_def behind_def)
qed

lemma before_not_in: "c \<notin> set (before c t)"
  by (auto simp: before_def dest: set_takeWhileD)

lemma before_append [simp]: "c \<notin> set us \<Longrightarrow> before c (us @ c # vs) = us"
  by (induction us) (auto simp: before_def)

lemma behind_append [simp]: "c \<notin> set us \<Longrightarrow> behind c (us @ c # vs) = vs"
  by (induction us) (auto simp: behind_def)

lemma c_str_split: "\<exists>z. r = c_str r @ z \<and> (z = [] \<or> (\<exists>z'. z = NUL # z'))"
proof (induction r)
  case Nil
  then show ?case by (simp add: c_str_def)
next
  case (Cons c r)
  then show ?case by (cases "c = NUL") (auto simp: c_str_def)
qed

lemma c_str_behind:
  assumes "c_str r = us @ c # vs" and "c \<noteq> NUL"
  shows "\<exists>r'. r = us @ c # r' \<and> c_str r' = vs \<and> NUL \<notin> set us"
proof -
  obtain z where z: "r = c_str r @ z" "z = [] \<or> (\<exists>z'. z = NUL # z')"
    using c_str_split by blast
  have "NUL \<notin> set (us @ c # vs)" using c_str_no_NUL [of r] assms(1) by simp
  moreover from this z(2) have "c_str (vs @ z) = vs"
    by (auto simp: c_str_id c_str_append_NUL)
  moreover have "r = us @ c # (vs @ z)" using z(1) assms(1) by simp
  ultimately show ?thesis by (intro exI [of _ "vs @ z"]) simp
qed

section \<open>Scanning\<close>

definition delim :: "parse_status \<Rightarrow> char" where
  "delim s = (if s = METHOD \<or> s = URL then SP else LF)"

definition counted :: "parse_status \<Rightarrow> char \<Rightarrow> bool" where
  "counted s c \<longleftrightarrow> s = METHOD \<or> s = URL \<or> c \<noteq> CR"

definition scanning :: "parse_status \<Rightarrow> bool" where
  "scanning s \<longleftrightarrow> s = METHOD \<or> s = URL \<or> s = HTTP \<or> s = HEADER"

lemma scanning_running: "scanning s \<Longrightarrow> running s"
  by (auto simp: scanning_def running_def)

lemma scan_char:
  assumes "scanning (ps_status st)" and "d = pre @ c # rest" and "currentPos st = length pre"
    and "c \<noteq> NUL" and "c \<noteq> delim (ps_status st)"
  shows "parse_loop d st = parse_loop d
    (st\<lparr>pieceLen := pieceLen st + (if counted (ps_status st) c then 1 else 0),
        currentPos := currentPos st + 1\<rparr>)"
  using assms
  by (subst parse_loop_step)
    (auto simp: scanning_def running_def parse_step_def step_defs Let_def delim_def counted_def step_simps)

lemma scan:
  assumes "scanning (ps_status st)" and "d = pre @ tok @ rest" and "currentPos st = length pre"
    and "NUL \<notin> set tok" and "delim (ps_status st) \<notin> set tok"
  shows "parse_loop d st = parse_loop d
    (st\<lparr>pieceLen := pieceLen st + length (filter (counted (ps_status st)) tok),
        currentPos := currentPos st + length tok\<rparr>)"
  using assms
proof (induction tok arbitrary: pre st)
  case Nil
  show ?case by (cases st) simp
next
  case (Cons c tok)
  let ?st = "st\<lparr>pieceLen := pieceLen st + (if counted (ps_status st) c then 1 else 0),
        currentPos := currentPos st + 1\<rparr>"
  have "parse_loop d st = parse_loop d ?st"
    using Cons.prems by (intro scan_char [where pre = pre and rest = "tok @ rest"]) auto
  also have "\<dots> = parse_loop d
    (?st\<lparr>pieceLen := pieceLen ?st + length (filter (counted (ps_status ?st)) tok),
         currentPos := currentPos ?st + length tok\<rparr>)"
    using Cons.prems by (intro Cons.IH [where pre = "pre @ [c]"]) auto
  finally show ?case by simp
qed

text \<open>The end of the text (or a NUL) in a scanning state ends the parse.\<close>

definition ends :: "string \<Rightarrow> bool" where
  "ends z \<longleftrightarrow> z = [] \<or> (\<exists>z'. z = NUL # z')"

lemma getChar_ends: "ends z \<Longrightarrow> getChar (pre @ z) (length pre) = NUL"
  by (auto simp: ends_def getChar_def nth_append)

lemma scan_end:
  assumes "scanning (ps_status st)" and "d = pre @ z" and "ends z" and "currentPos st = length pre"
  shows "parse_loop d st = Some (st\<lparr>ps_status := FINISHED\<rparr>)"
  using assms getChar_ends [OF assms(3), of pre]
  by (subst parse_loop_step)
    (auto simp: scanning_running scanning_def parse_step_def step_defs Let_def parse_loop_stop running_def)

lemma c_str_ends: "\<exists>z. r = c_str r @ z \<and> ends z"
  using c_str_split by (auto simp: ends_def)

section \<open>One piece at a time\<close>

text \<open>The machine stands at offset \<open>n\<close>, where a piece begins.\<close>

definition at_piece :: "parse_status \<Rightarrow> nat \<Rightarrow> parse_state \<Rightarrow> bool" where
  "at_piece s n st \<longleftrightarrow> ps_status st = s \<and> currentPos st = n \<and> start st = n \<and> pieceLen st = 0"

definition pieces :: "parse_state \<Rightarrow> string_piece \<times> string_piece \<times> string_piece \<times> string_piece list" where
  "pieces st = (ps_method st, ps_url st, ps_http st, ps_headers st)"

text \<open>A piece with no delimiter before the end of the text is dropped and the parse is over.\<close>

lemma piece_unfinished:
  assumes "at_piece s (length pre) st" and "scanning s" and "d = pre @ r" and "delim s \<notin> set (c_str r)"
  shows "\<exists>st'. parse_loop d st = Some st' \<and> ps_status st' = FINISHED \<and> pieces st' = pieces st"
proof -
  obtain z where z: "r = c_str r @ z" "ends z" using c_str_ends by blast
  have d: "d = pre @ c_str r @ z" using assms(3) z(1) by simp
  let ?st = "st\<lparr>pieceLen := pieceLen st + length (filter (counted (ps_status st)) (c_str r)),
        currentPos := currentPos st + length (c_str r)\<rparr>"
  have "parse_loop d st = parse_loop d ?st"
    using assms d c_str_no_NUL
    by (intro scan [where pre = pre and tok = "c_str r" and rest = z]) (auto simp: at_piece_def)
  also have "\<dots> = Some (?st\<lparr>ps_status := FINISHED\<rparr>)"
    using assms d z by (intro scan_end [where pre = "pre @ c_str r"]) (auto simp: at_piece_def)
  finally show ?thesis by (auto simp: pieces_def)
qed

text \<open>A piece up to its delimiter: the machine stands on the delimiter and its piece is the text.\<close>

definition piece_scanned :: "parse_status \<Rightarrow> string \<Rightarrow> parse_state \<Rightarrow> parse_state" where
  "piece_scanned s tok st =
     st\<lparr>pieceLen := length (filter (counted s) tok), currentPos := currentPos st + length tok\<rparr>"

lemma piece_to_delim:
  assumes "at_piece s (length pre) st" and "scanning s" and "d = pre @ tok @ delim s # rest"
    and "NUL \<notin> set tok" and "delim s \<notin> set tok"
  shows "parse_loop d st = parse_loop d (parse_step d (piece_scanned s tok st))"
proof -
  have "parse_loop d st = parse_loop d (piece_scanned s tok st)"
    using assms scan [of st d pre tok "delim s # rest"] by (simp add: at_piece_def piece_scanned_def)
  also have "\<dots> = parse_loop d (parse_step d (piece_scanned s tok st))"
    using assms by (intro parse_loop_step) (auto simp: piece_scanned_def at_piece_def scanning_running)
  finally show ?thesis .
qed

definition scanned_text :: "parse_status \<Rightarrow> string \<Rightarrow> string" where
  "scanned_text s tok = take (length (filter (counted s) tok)) tok"

lemma scanned_text_word: "s = METHOD \<or> s = URL \<Longrightarrow> scanned_text s tok = tok"
  by (auto simp: counted_def scanned_text_def)

lemma scanned_text_line: "s = HTTP \<or> s = HEADER \<Longrightarrow> scanned_text s tok = line_text tok"
  by (auto simp: counted_def [abs_def] line_text_def scanned_text_def)

lemma piece_text_scanned:
  assumes "at_piece s (length pre) st" and "d = pre @ tok @ rest" and "length d < 2 ^ 31"
  shows "piece_text d (cur_piece (piece_scanned s tok st)) = scanned_text s tok"
proof -
  have le: "length (filter (counted s) tok) \<le> length tok" by (rule length_filter_le)
  also have "\<dots> < 2 ^ 31" using assms(2,3) by simp
  finally show ?thesis
    using assms le by (subst piece_text_cur) (auto simp: piece_scanned_def at_piece_def slice_def scanned_text_def)
qed

text \<open>What the machine does on a delimiter: where the piece goes and which state follows.\<close>

fun after_delim :: "parse_status \<Rightarrow> parse_status" where
  "after_delim METHOD = URL"
| "after_delim URL = HTTP"
| "after_delim HTTP = HEADER"
| "after_delim _ = HEADER_NEWLINE"

fun store_piece where
  "store_piece METHOD p (m, u, v, hs) = (p, u, v, hs)"
| "store_piece URL p (m, u, v, hs) = (m, p, v, hs)"
| "store_piece HTTP p (m, u, v, hs) = (m, u, p, hs)"
| "store_piece _ p (m, u, v, hs) = (m, u, v, hs @ [p])"

lemma parse_step_delim:
  assumes "scanning (ps_status st)" and "getChar d (currentPos st) = delim (ps_status st)"
  shows "at_piece (after_delim (ps_status st)) (currentPos st + 1) (parse_step d st)"
    and "pieces (parse_step d st) = store_piece (ps_status st) (cur_piece st) (pieces st)"
  using assms
  by (auto simp: scanning_def parse_step_def step_defs delim_def at_piece_def pieces_def)

lemma piece_done:
  assumes at: "at_piece s (length pre) st" and s: "scanning s" and d: "d = pre @ tok @ delim s # rest"
    and len: "length d < 2 ^ 31" and tok: "NUL \<notin> set tok" "delim s \<notin> set tok"
  shows "\<exists>st' p. parse_loop d st = parse_loop d st' \<and>
    at_piece (after_delim s) (length (pre @ tok @ [delim s])) st' \<and>
    piece_text d p = scanned_text s tok \<and> pieces st' = store_piece s p (pieces st)"
proof -
  let ?s = "piece_scanned s tok st"
  have g: "getChar d (currentPos ?s) = delim s"
    using at d getChar_append [of "pre @ tok"] by (simp add: piece_scanned_def at_piece_def)
  have st: "ps_status ?s = s" "currentPos ?s = length (pre @ tok)" "pieces ?s = pieces st"
    using at by (simp_all add: piece_scanned_def at_piece_def pieces_def)
  have "parse_loop d st = parse_loop d (parse_step d ?s)"
    using at s d tok by (rule piece_to_delim)
  moreover have "piece_text d (cur_piece ?s) = scanned_text s tok"
    using at d len by (rule piece_text_scanned)
  ultimately show ?thesis
    using parse_step_delim [of ?s d] s g st
    by (intro exI [of _ "parse_step d ?s"] exI [of _ "cur_piece ?s"]) simp
qed

section \<open>Header lines\<close>

lemma newline_CRs:
  "ps_status st = HEADER_NEWLINE \<Longrightarrow> d = pre @ replicate k CR @ rest \<Longrightarrow> currentPos st = length pre \<Longrightarrow>
    parse_loop d st = parse_loop d (st\<lparr>currentPos := currentPos st + k\<rparr>)"
proof (induction k arbitrary: pre st)
  case 0
  show ?case by (cases st) simp
next
  case (Suc k)
  have "getChar d (length pre) = CR"
    using Suc.prems(2) getChar_append [of pre CR "replicate k CR @ rest"] by simp
  then have "parse_loop d st = parse_loop d (skip_char st)"
    using Suc.prems by (subst parse_loop_step)
      (auto simp: running_def parse_step_def step_HEADER_NEWLINE_def)
  also have "\<dots> = parse_loop d ((skip_char st)\<lparr>currentPos := currentPos (skip_char st) + k\<rparr>)"
    using Suc.prems by (intro Suc.IH [where pre = "pre @ [CR]"]) (auto simp: skip_char_def)
  finally show ?case by (simp add: skip_char_def)
qed

lemma newline_end:
  assumes "ps_status st = HEADER_NEWLINE" and d: "d = pre @ replicate k CR @ LF # rest"
    and "currentPos st = length pre"
  shows "parse_loop d st = Some (st\<lparr>currentPos := currentPos st + k, ps_status := FINISHED\<rparr>)"
proof -
  have "getChar d (length pre + k) = LF"
    using d getChar_append [of "pre @ replicate k CR" LF rest] by simp
  then show ?thesis
    using assms newline_CRs [of st d pre k "LF # rest"]
    by (simp add: parse_loop_step [of "st\<lparr>currentPos := length pre + k\<rparr>"] running_def
        parse_step_def step_HEADER_NEWLINE_def parse_loop_stop)
qed

lemma newline_header:
  assumes "ps_status st = HEADER_NEWLINE" and d: "d = pre @ replicate k CR @ x"
    and "currentPos st = length pre" and x: "x = [] \<or> hd x \<noteq> CR \<and> hd x \<noteq> LF"
  shows "parse_loop d st = parse_loop d (st\<lparr>ps_status := HEADER\<rparr>)"
proof -
  let ?st = "st\<lparr>currentPos := currentPos st + k\<rparr>"
  have "parse_loop d st = parse_loop d ?st"
    using assms by (intro newline_CRs) auto
  moreover have "getChar d (length pre + k) \<noteq> CR \<and> getChar d (length pre + k) \<noteq> LF"
    using x getChar_append [of "pre @ replicate k CR" "hd x" "tl x"] getChar_end [of "pre @ replicate k CR"]
    by (cases x) (auto simp: d)
  then have "parse_loop d ?st = parse_loop d (?st\<lparr>ps_status := HEADER\<rparr>)"
    using assms by (subst parse_loop_step) (auto simp: running_def parse_step_def step_HEADER_NEWLINE_def)
  moreover have "filter (counted HEADER) (replicate k CR) = []"
    by (auto simp: counted_def filter_empty_conv)
  then have "parse_loop d (st\<lparr>ps_status := HEADER\<rparr>) = parse_loop d (?st\<lparr>ps_status := HEADER\<rparr>)"
    using assms scan [of "st\<lparr>ps_status := HEADER\<rparr>" d pre "replicate k CR" x]
    by (cases st) (auto simp: scanning_def delim_def)
  ultimately show ?thesis by simp
qed

lemma filter_CR_replicate: "filter (\<lambda>c. c \<noteq> CR) l = [] \<Longrightarrow> \<exists>k. l = replicate k CR"
  by (rule exI [of _ "length l"]) (auto simp: filter_empty_conv intro: replicate_eqI)

lemma split_CRs: "\<exists>k x. r = replicate k CR @ x \<and> (x = [] \<or> hd x \<noteq> CR)"
proof (induction r)
  case (Cons c r)
  then obtain k x where "r = replicate k CR @ x" "x = [] \<or> hd x \<noteq> CR" by blast
  then show ?case
    by (cases "c = CR")
      (auto intro: exI [of _ "Suc k"] exI [of _ x] exI [of _ 0] exI [of _ "c # r"] simp: exI [of _ 0])
qed simp

text \<open>What the rest \<open>r\<close> of the text yields when the machine stands at the beginning of a header line.\<close>

definition reads_headers :: "bool \<Rightarrow> string \<Rightarrow> string \<Rightarrow> parse_state \<Rightarrow> bool" where
  "reads_headers first d r st \<longleftrightarrow>
     (\<exists>st' ps. parse_loop d st = Some st' \<and> ps_status st' = FINISHED \<and>
        pieces st' = (ps_method st, ps_url st, ps_http st, ps_headers st @ ps) \<and>
        map (piece_text d) ps = ref_header_lines first (c_str r))"

lemma reads_headers_first:
  assumes at: "at_piece HEADER (length pre) st" and d: "d = pre @ r" and len: "length d < 2 ^ 31"
    and IH: "\<And>pre' r' st'. length r' < length r \<Longrightarrow> at_piece HEADER_NEWLINE (length pre') st' \<Longrightarrow>
      d = pre' @ r' \<Longrightarrow> reads_headers False d r' st'"
  shows "reads_headers True d r st"
proof (cases "LF \<in> set (c_str r)")
  case False
  then have "\<exists>st'. parse_loop d st = Some st' \<and> ps_status st' = FINISHED \<and> pieces st' = pieces st"
    using at d by (intro piece_unfinished) (auto simp: scanning_def delim_def)
  with False show ?thesis
    by (auto simp: reads_headers_def pieces_def ref_header_lines.simps [of True])
next
  case True
  let ?l = "before LF (c_str r)" and ?t = "behind LF (c_str r)"
  have t: "c_str r = ?l @ LF # ?t" using True by (rule before_behind)
  then obtain r' where r': "r = ?l @ LF # r'" "c_str r' = ?t" "NUL \<notin> set ?l"
    using c_str_behind [OF t] by auto
  have d': "d = pre @ ?l @ delim HEADER # r'" using d r'(1) by (simp add: delim_def)
  obtain st1 p where st1: "parse_loop d st = parse_loop d st1"
      "at_piece HEADER_NEWLINE (length (pre @ ?l @ [LF])) st1"
      "piece_text d p = line_text ?l"
      "pieces st1 = (ps_method st, ps_url st, ps_http st, ps_headers st @ [p])"
    using piece_done [OF at _ d' len r'(3)] before_not_in [of LF]
    by (auto simp: scanning_def delim_def scanned_text_line pieces_def)
  have "length r = length (?l @ LF # r')" using r'(1) by (rule arg_cong)
  then have "length r' < length r" by simp
  moreover have "d = (pre @ ?l @ [LF]) @ r'" using d' by (simp add: delim_def)
  ultimately have "reads_headers False d r' st1" using st1(2) by (intro IH)
  then obtain st2 ps where st2: "parse_loop d st1 = Some st2" "ps_status st2 = FINISHED"
      "pieces st2 = (ps_method st1, ps_url st1, ps_http st1, ps_headers st1 @ ps)"
      "map (piece_text d) ps = ref_header_lines False ?t"
    using r'(2) by (auto simp: reads_headers_def)
  show ?thesis
    unfolding reads_headers_def
    using st1 st2 True
    by (intro exI [of _ st2] exI [of _ "p # ps"])
      (auto simp: pieces_def ref_header_lines.simps [of True])
qed

lemma ref_header_lines_False:
  assumes "x = [] \<or> hd x \<noteq> CR \<and> hd x \<noteq> LF"
  shows "ref_header_lines False (c_str (replicate k CR @ x)) =
    ref_header_lines True (c_str (replicate k CR @ x))"
proof -
  let ?t = "c_str (replicate k CR @ x)"
  have t: "?t = replicate k CR @ c_str x" by (induction k) (auto simp: c_str_def)
  have "filter (\<lambda>c. c \<noteq> CR) (before LF ?t) \<noteq> []" if "LF \<in> set ?t"
  proof -
    have "LF \<in> set (c_str x)" using that t by auto
    then obtain c y where "x = c # y" "c \<noteq> NUL" by (cases x) (auto simp: c_str_def split: if_splits)
    with assms t have "before LF ?t = replicate k CR @ c # before LF (c_str y)"
      by (induction k) (auto simp: c_str_def before_def)
    then show ?thesis using assms \<open>x = c # y\<close> by simp
  qed
  then show ?thesis by (simp add: ref_header_lines.simps [of _ ?t])
qed

lemma reads_headers_next:
  "at_piece HEADER_NEWLINE (length pre) st \<Longrightarrow> d = pre @ r \<Longrightarrow> length d < 2 ^ 31 \<Longrightarrow>
    reads_headers False d r st"
proof (induction "length r" arbitrary: pre r st rule: less_induct)
  case less
  obtain k x where x: "r = replicate k CR @ x" "x = [] \<or> hd x \<noteq> CR" using split_CRs by blast
  show ?case
  proof (cases "x \<noteq> [] \<and> hd x = LF")
    case True
    then obtain y where y: "r = replicate k CR @ LF # y" using x(1) by (cases x) auto
    then have "c_str r = replicate k CR @ LF # c_str y" by (induction k arbitrary: r) (auto simp: c_str_def)
    then have "ref_header_lines False (c_str r) = []"
      by (subst ref_header_lines.simps) (simp add: filter_empty_conv)
    then show ?thesis
      using less.prems y newline_end [of st d pre k y]
      by (auto simp: reads_headers_def at_piece_def pieces_def)
  next
    case False
    then have x': "x = [] \<or> hd x \<noteq> CR \<and> hd x \<noteq> LF" using x(2) by blast
    have "parse_loop d st = parse_loop d (st\<lparr>ps_status := HEADER\<rparr>)"
      using less.prems x(1) x' by (intro newline_header) (auto simp: at_piece_def)
    moreover have "at_piece HEADER (length pre) (st\<lparr>ps_status := HEADER\<rparr>)"
      using less.prems(1) by (simp add: at_piece_def)
    then have "reads_headers True d r (st\<lparr>ps_status := HEADER\<rparr>)"
      using less.prems(2,3)
    proof (rule reads_headers_first)
      fix pre' r' st'
      assume "length r' < length r" "at_piece HEADER_NEWLINE (length pre') st'" "d = pre' @ r'"
      then show "reads_headers False d r' st'" using less.prems(3) by (intro less.hyps)
    qed
    ultimately show ?thesis
      using ref_header_lines_False [OF x'] x(1) by (auto simp: reads_headers_def)
  qed
qed

lemma reads_headers_start:
  "at_piece HEADER (length pre) st \<Longrightarrow> d = pre @ r \<Longrightarrow> length d < 2 ^ 31 \<Longrightarrow> reads_headers True d r st"
  by (rule reads_headers_first) (auto intro: reads_headers_next)

section \<open>The whole text\<close>

definition reads_as :: "string \<Rightarrow> parse_state \<Rightarrow> string \<Rightarrow> string \<Rightarrow> string \<Rightarrow> string list \<Rightarrow> bool" where
  "reads_as d st m u v hs \<longleftrightarrow>
     (\<exists>st'. parse_loop d st = Some st' \<and> ps_status st' = FINISHED \<and>
        piece_text d (ps_method st') = m \<and> piece_text d (ps_url st') = u \<and>
        piece_text d (ps_http st') = v \<and> map (piece_text d) (ps_headers st') = hs)"

lemma reads_as_unfinished:
  assumes "at_piece s (length pre) st" and "scanning s" and "d = pre @ r" and "delim s \<notin> set (c_str r)"
  shows "reads_as d st (piece_text d (ps_method st)) (piece_text d (ps_url st))
    (piece_text d (ps_http st)) (map (piece_text d) (ps_headers st))"
  using piece_unfinished [OF assms] by (auto simp: reads_as_def pieces_def)

lemma reads_as_cong: "parse_loop d st = parse_loop d st' \<Longrightarrow> reads_as d st = reads_as d st'"
  by (intro ext) (simp add: reads_as_def)

lemma c_str_delim:
  assumes "c \<in> set (c_str r)" and "c \<noteq> NUL"
  shows "\<exists>r'. r = before c (c_str r) @ c # r' \<and> c_str r' = behind c (c_str r) \<and>
    NUL \<notin> set (before c (c_str r))"
  using c_str_behind [OF before_behind [OF assms(1)] assms(2)] .

lemma reads_http:
  assumes at: "at_piece HTTP (length pre) st" and d: "d = pre @ r" and len: "length d < 2 ^ 31"
    and hs: "ps_headers st = []" and v: "piece_text d (ps_http st) = []"
  shows "reads_as d st (piece_text d (ps_method st)) (piece_text d (ps_url st))
    (if LF \<in> set (c_str r) then line_text (before LF (c_str r)) else [])
    (if LF \<in> set (c_str r) then ref_header_lines True (behind LF (c_str r)) else [])"
proof (cases "LF \<in> set (c_str r)")
  case False
  then show ?thesis
    using reads_as_unfinished [OF at _ d] hs v by (simp add: scanning_def delim_def)
next
  case True
  then obtain r' where r': "r = before LF (c_str r) @ LF # r'" "c_str r' = behind LF (c_str r)"
      "NUL \<notin> set (before LF (c_str r))"
    using c_str_delim [of LF r] by auto
  have d': "d = pre @ before LF (c_str r) @ delim HTTP # r'" using d r'(1) by (simp add: delim_def)
  obtain st1 p where st1: "parse_loop d st = parse_loop d st1"
      "at_piece HEADER (length (pre @ before LF (c_str r) @ [LF])) st1"
      "piece_text d p = line_text (before LF (c_str r))" "pieces st1 = (ps_method st, ps_url st, p, [])"
    using piece_done [OF at _ d' len r'(3)] before_not_in [of LF] hs
    by (auto simp: scanning_def delim_def scanned_text_line pieces_def)
  have "reads_headers True d r' st1"
    using st1(2) d' len by (intro reads_headers_start) (auto simp: delim_def)
  with st1 r'(2) True show ?thesis
    by (auto simp: reads_as_def reads_headers_def pieces_def)
qed

lemma reads_url:
  assumes at: "at_piece URL (length pre) st" and d: "d = pre @ r" and len: "length d < 2 ^ 31"
    and hs: "ps_headers st = []" and v: "piece_text d (ps_url st) = []" "piece_text d (ps_http st) = []"
  shows "reads_as d st (piece_text d (ps_method st)) (ref_method (c_str r))
    (if SP \<in> set (c_str r) \<and> LF \<in> set (behind SP (c_str r))
     then line_text (before LF (behind SP (c_str r))) else [])
    (if SP \<in> set (c_str r) \<and> LF \<in> set (behind SP (c_str r))
     then ref_header_lines True (behind LF (behind SP (c_str r))) else [])"
proof (cases "SP \<in> set (c_str r)")
  case False
  then show ?thesis
    using reads_as_unfinished [OF at _ d] hs v by (simp add: scanning_def delim_def ref_method_def)
next
  case True
  then obtain r' where r': "r = before SP (c_str r) @ SP # r'" "c_str r' = behind SP (c_str r)"
      "NUL \<notin> set (before SP (c_str r))"
    using c_str_delim [of SP r] by auto
  have d': "d = pre @ before SP (c_str r) @ delim URL # r'" using d r'(1) by (simp add: delim_def)
  obtain st1 p where st1: "parse_loop d st = parse_loop d st1"
      "at_piece HTTP (length (pre @ before SP (c_str r) @ [SP])) st1"
      "piece_text d p = before SP (c_str r)" "pieces st1 = (ps_method st, p, ps_http st, [])"
    using piece_done [OF at _ d' len r'(3)] before_not_in [of SP] hs
    by (auto simp: scanning_def delim_def scanned_text_word pieces_def)
  have "d = (pre @ before SP (c_str r) @ [SP]) @ r'" using d' by (simp add: delim_def)
  from reads_http [OF st1(2) this len] show ?thesis
    using st1 r'(2) True v by (auto simp: reads_as_cong [OF st1(1)] pieces_def ref_method_def split: if_splits)
qed

lemma reads_method:
  assumes at: "at_piece METHOD 0 st" and len: "length d < 2 ^ 31" and hs: "ps_headers st = []"
    and v: "piece_text d (ps_method st) = []" "piece_text d (ps_url st) = []"
      "piece_text d (ps_http st) = []"
  shows "reads_as d st (ref_method (c_str d)) (ref_url (c_str d)) (ref_version (c_str d))
    (ref_headers (c_str d))"
proof (cases "SP \<in> set (c_str d)")
  case False
  then show ?thesis
    using reads_as_unfinished [of METHOD "[]" st d d] at hs v
    by (simp add: scanning_def delim_def ref_method_def ref_url_def ref_version_def ref_headers_def)
next
  case True
  then obtain r' where r': "d = before SP (c_str d) @ SP # r'" "c_str r' = behind SP (c_str d)"
      "NUL \<notin> set (before SP (c_str d))"
    using c_str_delim [of SP d] by auto
  have d': "d = [] @ before SP (c_str d) @ delim METHOD # r'" using r'(1) by (simp add: delim_def)
  have "at_piece METHOD (length ([] :: string)) st" using at by simp
  from piece_done [OF this _ d' len r'(3)] obtain st1 p where
      st1: "parse_loop d st = parse_loop d st1"
      "at_piece URL (length (before SP (c_str d) @ [SP])) st1"
      "piece_text d p = before SP (c_str d)" "pieces st1 = (p, ps_url st, ps_http st, [])"
    using before_not_in [of SP] hs by (auto simp: scanning_def delim_def scanned_text_word pieces_def)
  have "d = (before SP (c_str d) @ [SP]) @ r'" using r'(1) by simp
  from reads_url [OF st1(2) this len] show ?thesis
    using st1 r'(2) True v
    by (auto simp: reads_as_cong [OF st1(1)] pieces_def ref_method_def ref_url_def
        ref_version_def ref_headers_def split: if_splits)
qed

section \<open>The parse of a request\<close>

text \<open>What a request must satisfy for its pieces to be readable.\<close>

definition request_ok :: "http_request \<Rightarrow> bool" where
  "request_ok r \<longleftrightarrow>
     length (m_request r) < 2 ^ 31 \<and> status (m_parseRes r) \<noteq> MORE_DATA \<and>
     piece_ok (m_request r) (m_resPath r) \<and> (\<forall>h \<in> set (m_headers r). piece_ok (m_request r) h)"

lemma parse_finish_inv:
  assumes "parse_inv (m_request r) st"
  shows "parse_finish r st =
    Inr (ParseRes (ps_status st) (currentPos st),
      r\<lparr>m_headers := ps_headers st, m_method := method_of (piece_text (m_request r) (ps_method st)),
        m_resPath := ps_url st, m_httpVer := version_of (piece_text (m_request r) (ps_http st)),
        m_parseRes := ParseRes (ps_status st) (currentPos st)\<rparr>)"
  using assms
  by (simp add: parse_finish_def Let_def parse_inv_def MethodFromStringPiece_ok HttpVerFromStringPiece_ok)

lemma parse_start_inv:
  "request_ok r \<Longrightarrow> stoppedAt (m_parseRes r) \<le> length (m_request r) \<Longrightarrow>
    parse_inv (m_request r) (parse_start r)"
  by (simp add: request_ok_def parse_inv_def parse_start_def)

lemma parse_loop_inv:
  assumes "request_ok r" and "stoppedAt (m_parseRes r) < length (m_request r)"
  shows "\<exists>st'. parse_loop (m_request r) (parse_start r) = Some st' \<and> parse_inv (m_request r) st' \<and>
    \<not> running (ps_status st')"
proof (rule parse_loop_invariant)
  show "parse_inv (m_request r) (parse_start r)"
    using assms by (simp add: parse_start_inv)
  show "ps_status (parse_start r) \<noteq> MORE_DATA"
    using assms(1) by (simp add: request_ok_def parse_start_def)
  show "parse_inv (m_request r) (parse_step (m_request r) s)"
    if "parse_inv (m_request r) s" "running (ps_status s)" for s
    using assms(1) that by (intro parse_step_inv) (simp_all add: request_ok_def)
qed

lemma Parse_ok:
  assumes "request_ok r"
  shows "\<exists>out r'. Parse r = Some (Inr (out, r')) \<and> request_ok r' \<and> m_request r' = m_request r"
proof (cases "stoppedAt (m_parseRes r) < length (m_request r)")
  case True
  with assms obtain st' where st': "parse_loop (m_request r) (parse_start r) = Some st'"
      "parse_inv (m_request r) st'" "\<not> running (ps_status st')"
    using parse_loop_inv by blast
  have "ps_status st' \<noteq> MORE_DATA" using st'(3) by (auto simp: running_def)
  with assms True st'(1,2) show ?thesis
    by (simp add: Parse_def parse_finish_inv request_ok_def ParseRes_def) (simp add: parse_inv_def)
next
  case False
  with assms show ?thesis by (simp add: Parse_def)
qed

definition fresh_request :: "string \<Rightarrow> http_request" where
  "fresh_request s = request_Append new_HttpRequest s"

lemma fresh_request_simps [simp]:
  "m_request (fresh_request s) = s"
  "m_headers (fresh_request s) = []"
  "m_parseRes (fresh_request s) = ParseRes START 0"
  by (simp_all add: fresh_request_def request_Append_def new_HttpRequest_def)

lemma request_ok_fresh: "length s < 2 ^ 31 \<Longrightarrow> request_ok (fresh_request s)"
  by (simp add: request_ok_def ParseRes_def)
    (simp add: fresh_request_def request_Append_def new_HttpRequest_def)

lemma fresh_reads_as:
  assumes "length s < 2 ^ 31"
  shows "reads_as s (parse_start (fresh_request s)) (ref_method (c_str s)) (ref_url (c_str s))
    (ref_version (c_str s)) (ref_headers (c_str s))"
proof -
  let ?st = "parse_start (fresh_request s)"
  have "parse_loop s ?st = parse_loop s (parse_step s ?st)"
    by (rule parse_loop_step) (simp add: parse_start_def ParseRes_def running_def)
  then have "reads_as s ?st = reads_as s (parse_step s ?st)" by (rule reads_as_cong)
  moreover have "reads_as s (parse_step s ?st) (ref_method (c_str s)) (ref_url (c_str s))
    (ref_version (c_str s)) (ref_headers (c_str s))"
    using assms by (intro reads_method) (simp_all add: parse_step_def parse_start_def ParseRes_def at_piece_def)
  ultimately show ?thesis by simp
qed

lemma fresh_Parse:
  assumes "s \<noteq> []" and "length s < 2 ^ 31"
  shows "\<exists>n r'. Parse (fresh_request s) = Some (Inr (ParseRes FINISHED n, r')) \<and> n \<le> length s \<and>
    request_ok r' \<and> m_request r' = s \<and> m_parseRes r' = ParseRes FINISHED n \<and>
    m_method r' = method_of (ref_method (c_str s)) \<and>
    resource_path r' = Inr (ref_url (c_str s)) \<and>
    m_httpVer r' = version_of (ref_version (c_str s)) \<and>
    map (piece_ToString s) (m_headers r') = map Inr (ref_headers (c_str s))"
proof -
  let ?r = "fresh_request s"
  obtain st where st: "parse_loop s (parse_start ?r) = Some st" "ps_status st = FINISHED"
      "piece_text s (ps_method st) = ref_method (c_str s)" "piece_text s (ps_url st) = ref_url (c_str s)"
      "piece_text s (ps_http st) = ref_version (c_str s)"
      "map (piece_text s) (ps_headers st) = ref_headers (c_str s)"
    using fresh_reads_as [OF assms(2)] by (auto simp: reads_as_def)
  have inv: "parse_inv s st"
    using parse_loop_inv [OF request_ok_fresh [OF assms(2)]] st(1) assms(1) by (auto simp: ParseRes_def)
  then have "map (piece_ToString s) (ps_headers st) = map Inr (map (piece_text s) (ps_headers st))"
    by (auto simp: parse_inv_def piece_ToString_ok)
  with st inv assms show ?thesis
    by (simp add: Parse_def ParseRes_def parse_finish_inv request_ok_def resource_path_def)
      (simp add: parse_inv_def piece_ToString_ok)
qed

section \<open>Printed requests\<close>

definition word_ok :: "string \<Rightarrow> bool" where
  "word_ok w \<longleftrightarrow> NUL \<notin> set w \<and> SP \<notin> set w"

definition line_ok :: "string \<Rightarrow> bool" where
  "line_ok l \<longleftrightarrow> NUL \<notin> set l \<and> CR \<notin> set l \<and> LF \<notin> set l"

definition render_headers :: "string list \<Rightarrow> string" where
  "render_headers hs = concat (map (\<lambda>h. h @ [CR, LF]) hs) @ [CR, LF]"

definition render_request :: "string \<Rightarrow> string \<Rightarrow> string \<Rightarrow> string list \<Rightarrow> string" where
  "render_request m u v hs = m @ SP # u @ SP # v @ CR # LF # render_headers hs"

lemma line_text_CR: "CR \<notin> set l \<Longrightarrow> line_text (l @ [CR]) = l"
proof -
  assume "CR \<notin> set l"
  then have "filter (\<lambda>c. c \<noteq> CR) l = l" by (auto simp: filter_id_conv)
  then show ?thesis by (simp add: line_text_def)
qed

lemma before_behind_line:
  assumes "line_ok l"
  shows "before LF (l @ CR # LF # t) = l @ [CR]" and "behind LF (l @ CR # LF # t) = t"
  using assms before_append [of LF "l @ [CR]" t] behind_append [of LF "l @ [CR]" t]
  by (auto simp: line_ok_def)

lemma ref_header_lines_Cons:
  "line_ok l \<Longrightarrow> \<not> first \<longrightarrow> l \<noteq> [] \<Longrightarrow>
    ref_header_lines first (l @ CR # LF # t) = l # ref_header_lines False t"
proof -
  assume l: "line_ok l" and ne: "\<not> first \<longrightarrow> l \<noteq> []"
  have cr: "CR \<notin> set l" using l by (simp add: line_ok_def)
  then have "filter (\<lambda>c. c \<noteq> CR) l = l" by (auto simp: filter_id_conv)
  then show ?thesis
    using ne cr by (subst ref_header_lines.simps) (auto simp: before_behind_line [OF l] line_text_CR)
qed

lemma ref_header_lines_end: "ref_header_lines False [CR, LF] = []"
  by (subst ref_header_lines.simps) (simp add: before_def)

lemma ref_header_lines_render:
  "\<forall>h \<in> set hs. line_ok h \<and> h \<noteq> [] \<Longrightarrow> ref_header_lines False (render_headers hs) = hs"
proof (induction hs)
  case Nil
  show ?case by (simp add: render_headers_def ref_header_lines_end)
next
  case (Cons h hs)
  then show ?case
    using ref_header_lines_Cons [of h False "render_headers hs"] by (simp add: render_headers_def)
qed

lemma ref_header_lines_render_first:
  assumes "\<forall>h \<in> set hs. line_ok h \<and> h \<noteq> []"
  shows "ref_header_lines True (render_headers hs) = (if hs = [] then [[]] else hs)"
proof (cases hs)
  case Nil
  have "ref_header_lines False [] = []" by (subst ref_header_lines.simps) simp
  then show ?thesis
    using ref_header_lines_Cons [of "[]" True "[]"] Nil by (simp add: render_headers_def line_ok_def)
next
  case (Cons h t)
  then show ?thesis
    using assms ref_header_lines_Cons [of h True "render_headers t"] ref_header_lines_render [of t]
    by (simp add: render_headers_def)
qed

lemma NUL_render_headers: "\<forall>h \<in> set hs. line_ok h \<Longrightarrow> NUL \<notin> set (render_headers hs)"
  by (auto simp: render_headers_def line_ok_def)

lemma ref_render:
  assumes "word_ok m" "word_ok u" "line_ok v" "\<forall>h \<in> set hs. line_ok h \<and> h \<noteq> []"
  shows "c_str (render_request m u v hs) = render_request m u v hs"
    and "ref_method (render_request m u v hs) = m" and "ref_url (render_request m u v hs) = u"
    and "ref_version (render_request m u v hs) = v"
    and "ref_headers (render_request m u v hs) = (if hs = [] then [[]] else hs)"
proof -
  show "c_str (render_request m u v hs) = render_request m u v hs"
    using assms NUL_render_headers [of hs]
    by (intro c_str_id) (auto simp: render_request_def word_ok_def line_ok_def)
  have m: "SP \<notin> set m" and u: "SP \<notin> set u" and v: "CR \<notin> set v"
    using assms(1-3) by (auto simp: word_ok_def line_ok_def)
  show "ref_method (render_request m u v hs) = m" "ref_url (render_request m u v hs) = u"
    "ref_version (render_request m u v hs) = v"
    "ref_headers (render_request m u v hs) = (if hs = [] then [[]] else hs)"
    using m u v assms(3,4)
    by (simp_all add: render_request_def ref_method_def ref_url_def ref_version_def ref_headers_def
        before_behind_line line_text_CR ref_header_lines_render_first)
qed

section \<open>Properties\<close>

text \<open>
  C6. On a fresh request holding any non-empty text shorter than 2 GiB, well-formed or not,
  the parser returns with the status \<open>FINISHED\<close>; the stored method, resource path, version and
  header list are those of the reference reading of the text before its first NUL.
\<close>

theorem Parse_reference:
  assumes "s \<noteq> []" and "length s < 2 ^ 31"
  shows "\<exists>n r'. Parse (request_Append new_HttpRequest s) = Some (Inr (ParseRes FINISHED n, r')) \<and>
    n \<le> length s \<and> m_request r' = s \<and> m_parseRes r' = ParseRes FINISHED n \<and>
    m_method r' = method_of (ref_method (c_str s)) \<and>
    resource_path r' = Inr (ref_url (c_str s)) \<and>
    m_httpVer r' = version_of (ref_version (c_str s)) \<and>
    map (piece_ToString s) (m_headers r') = map Inr (ref_headers (c_str s))"
  using fresh_Parse [OF assms] by (auto simp: fresh_request_def)

theorem Parse_reference_witness:
  "\<exists>n r'. Parse (request_Append new_HttpRequest ''GET /a'') = Some (Inr (ParseRes FINISHED n, r')) \<and>
    m_method r' = GET \<and> resource_path r' = Inr []"
  using Parse_reference [of "''GET /a''"]
  by (auto simp: c_str_def ref_method_def ref_url_def before_def behind_def method_of_def)

text \<open>
  C8. Printing a request line and headers and parsing the bytes gives the same method, path,
  version and headers back, with one exception of the code: a request without headers is
  reported with one empty header.
\<close>

theorem Parse_render_roundtrip:
  assumes "word_ok m" and "word_ok u" and "line_ok v" and "\<forall>h \<in> set hs. line_ok h \<and> h \<noteq> []"
    and "length (render_request m u v hs) < 2 ^ 31"
  shows "\<exists>n r'. Parse (request_Append new_HttpRequest (render_request m u v hs)) =
      Some (Inr (ParseRes FINISHED n, r')) \<and>
    m_method r' = method_of m \<and> resource_path r' = Inr u \<and> m_httpVer r' = version_of v \<and>
    map (piece_ToString (m_request r')) (m_headers r') = map Inr (if hs = [] then [[]] else hs)"
proof -
  have "render_request m u v hs \<noteq> []" by (simp add: render_request_def)
  from fresh_Parse [OF this assms(5)] show ?thesis
    using ref_render [OF assms(1-4)] by (auto simp: fresh_request_def)
qed

theorem Parse_render_roundtrip_witness:
  "\<exists>n r'. Parse (request_Append new_HttpRequest
      (render_request ''GET'' ''/'' ''HTTP/1.1'' [''Host: a'', ''Accept: b''])) =
      Some (Inr (ParseRes FINISHED n, r')) \<and>
    m_method r' = GET \<and> resource_path r' = Inr ''/'' \<and> m_httpVer r' = HTTP_1_1 \<and>
    map (piece_ToString (m_request r')) (m_headers r') = [Inr ''Host: a'', Inr ''Accept: b'']"
  using Parse_render_roundtrip [of "''GET''" "''/''" "''HTTP/1.1''" "[''Host: a'', ''Accept: b'']"]
  by (auto simp: word_ok_def line_ok_def render_request_def render_headers_def method_of_def
      version_of_def)

text \<open>
  C7. The parser is safe on every request whose stored pieces are readable: it returns, no
  character outside the text is read, every piece it stores (path and headers) lies inside the
  text and is readable again, and the text itself is not changed.
\<close>

theorem Parse_in_bounds:
  assumes "request_ok r"
  shows "\<exists>out r'. Parse r = Some (Inr (out, r')) \<and> request_ok r' \<and> m_request r' = m_request r \<and>
    (\<exists>u. resource_path r' = Inr u) \<and> list_all (\<lambda>h. \<not> isl (piece_ToString (m_request r') h)) (m_headers r')"
proof -
  obtain out r' where "Parse r = Some (Inr (out, r'))" "request_ok r'" "m_request r' = m_request r"
    using Parse_ok [OF assms] by blast
  then show ?thesis by (auto simp: request_ok_def resource_path_def piece_ToString_ok list_all_iff)
qed

theorem Parse_in_bounds_witness:
  "\<exists>out r'. Parse (fresh_request ''GE'') = Some (Inr (out, r')) \<and> request_ok r'"
  using Parse_in_bounds [OF request_ok_fresh [of "''GE''"]] by auto

text \<open>
  Termination: with unread text, the loop returns exactly when the stored status is not
  \<open>MORE_DATA\<close>; entered with \<open>MORE_DATA\<close> it never leaves.
\<close>

theorem Parse_returns_iff:
  assumes "stoppedAt (m_parseRes r) < length (m_request r)"
  shows "Parse r = None \<longleftrightarrow> status (m_parseRes r) = MORE_DATA"
proof (cases "status (m_parseRes r) = MORE_DATA")
  case True
  then show ?thesis using assms by (simp add: Parse_def parse_loop_MORE_DATA parse_start_def)
next
  case False
  then have "\<exists>st'. parse_loop (m_request r) (parse_start r) = Some st' \<and> True \<and> \<not> running (ps_status st')"
    by (intro parse_loop_invariant) (simp_all add: parse_start_def)
  then show ?thesis using assms False by (auto simp: Parse_def)
qed

theorem Parse_returns_iff_witness:
  "Parse ((fresh_request ''GET'')\<lparr>m_parseRes := ParseRes MORE_DATA 1\<rparr>) = None \<and>
   Parse (fresh_request ''GET'') \<noteq> None"
  using Parse_returns_iff [of "(fresh_request ''GET'')\<lparr>m_parseRes := ParseRes MORE_DATA 1\<rparr>"]
    Parse_returns_iff [of "fresh_request ''GET''"]
  by (simp add: ParseRes_def)

text \<open>
  The pieces live in locals of one call: parsing a finished request again, with text left
  behind the stopping position, keeps the status and the headers but overwrites the method, the
  path and the version with the invalid ones.
\<close>

theorem Parse_again_forgets:
  assumes "status (m_parseRes r) = FINISHED" and "stoppedAt (m_parseRes r) < length (m_request r)"
  shows "Parse r = Some (Inr (m_parseRes r,
    r\<lparr>m_method := INVALID_METHOD, m_resPath := default_piece, m_httpVer := INVALID_VERSION\<rparr>))"
proof -
  have "parse_loop (m_request r) (parse_start r) = Some (parse_start r)"
    using assms(1) by (intro parse_loop_stop) (simp add: parse_start_def running_def)
  moreover have "ParseRes FINISHED (stoppedAt (m_parseRes r)) = m_parseRes r"
    using assms(1) by (simp add: ParseRes_def)
  ultimately show ?thesis
    using assms
    by (cases r) (simp add: Parse_def parse_finish_def parse_start_def MethodFromStringPiece_ok
        HttpVerFromStringPiece_ok method_of_def version_of_def)
qed

theorem Parse_again_forgets_witness:
  "Parse ((fresh_request ''GET / '')\<lparr>m_parseRes := ParseRes FINISHED 3, m_method := GET\<rparr>) =
    Some (Inr (ParseRes FINISHED 3, (fresh_request ''GET / '')\<lparr>m_parseRes := ParseRes FINISHED 3\<rparr>))"
  by (subst Parse_again_forgets)
    (simp_all add: ParseRes_def fresh_request_def request_Append_def new_HttpRequest_def)

end
