(* ===== verification/Http_Response.thy ===== *)
theory Http_Response
  imports Prelude
begin

text \<open>
  The HTTP response of the plugin (\<open>server_plugin/http/response.h\<close>, \<open>response.cpp\<close>,
  \<open>header.h\<close>): one string that the setters build front to back and that shrinks from the left
  as the server sends it.
\<close>

section \<open>Headers\<close>

record header =
  m_name :: string
  m_value :: string

definition Header :: "string \<Rightarrow> string \<Rightarrow> header" where
  "Header n v = \<lparr>m_name = n, m_value = v\<rparr>"

definition header_ToString :: "header \<Rightarrow> string" where
  "header_ToString h = m_name h @ '': '' @ m_value h"

section \<open>The response\<close>

text \<open>
  A value of the enumeration type is one of its two enumerators or, after a cast, some other
  number; the \<open>default\<close> arm of \<open>GetStatusString\<close> is for the latter.
\<close>

datatype response_status = OK | NOT_FOUND | OtherStatus nat

record http_response =
  m_data :: string

definition new_HttpResponse :: http_response where
  "new_HttpResponse = \<lparr>m_data = []\<rparr>"

definition CRLF :: string where
  "CRLF = [CR, LF]"

fun GetStatusString :: "response_status \<Rightarrow> string" where
  "GetStatusString OK = ''HTTP/1.1 200 OK''"
| "GetStatusString NOT_FOUND = ''HTTP/1.1 404 Not Found''"
| "GetStatusString (OtherStatus n) = ''HTTP/1.1 500 Internal Server Error''"

definition response_size :: "http_response \<Rightarrow> nat" where
  "response_size r = length (m_data r)"

definition HasData :: "http_response \<Rightarrow> bool" where
  "HasData r \<longleftrightarrow> m_data r \<noteq> []"

definition response_Clear :: "http_response \<Rightarrow> http_response" where
  "response_Clear r = r\<lparr>m_data := []\<rparr>"

definition ShiftLeftBy :: "nat \<Rightarrow> http_response \<Rightarrow> bool \<times> http_response" where
  "ShiftLeftBy bytes r =
     (if bytes > length (m_data r) then (False, r)
      else (True, r\<lparr>m_data := drop bytes (m_data r)\<rparr>))"

definition SetStatus :: "response_status \<Rightarrow> http_response \<Rightarrow> http_response" where
  "SetStatus s r = r\<lparr>m_data := GetStatusString s @ CRLF\<rparr>"

definition AddHeader :: "header \<Rightarrow> http_response \<Rightarrow> http_response" where
  "AddHeader h r = r\<lparr>m_data := m_data r @ header_ToString h @ CRLF\<rparr>"

definition SetContent :: "string \<Rightarrow> http_response \<Rightarrow> http_response" where
  "SetContent c r = r\<lparr>m_data := m_data r @ CRLF @ c @ CRLF @ CRLF\<rparr>"

section \<open>What the setters build\<close>

lemmas response_defs = SetStatus_def AddHeader_def SetContent_def response_Clear_def HasData_def
  response_size_def new_HttpResponse_def

text \<open>Status line, header lines, an empty line, the content, two more line ends.\<close>

definition render_response :: "response_status \<Rightarrow> header list \<Rightarrow> string \<Rightarrow> string" where
  "render_response s hs c =
     GetStatusString s @ CRLF @ concat (map (\<lambda>h. header_ToString h @ CRLF) hs) @ CRLF @ c @ CRLF @ CRLF"

lemma m_data_AddHeaders:
  "m_data (fold AddHeader hs r) = m_data r @ concat (map (\<lambda>h. header_ToString h @ CRLF) hs)"
  by (induction hs arbitrary: r) (simp_all add: AddHeader_def)

lemma m_data_built:
  "m_data (SetContent c (fold AddHeader hs (SetStatus s r))) = render_response s hs c"
  by (simp add: SetContent_def m_data_AddHeaders SetStatus_def render_response_def)

lemma render_response_nonempty: "render_response s hs c \<noteq> []"
  by (simp add: render_response_def CRLF_def)

text \<open>
  Reading a response back: the head ends at the first empty line. \<open>split_head\<close> returns the bytes
  up to and including the line end before it, and the bytes behind it.
\<close>

fun split_head :: "string \<Rightarrow> (string \<times> string) option" where
  "split_head [] = None"
| "split_head (a # r) =
     (if take 4 (a # r) = [CR, LF, CR, LF] then Some ([CR, LF], drop 3 r)
      else map_option (\<lambda>(h, t). (a # h, t)) (split_head r))"

definition no_line_end :: "string \<Rightarrow> bool" where
  "no_line_end s \<longleftrightarrow> CR \<notin> set s \<and> LF \<notin> set s"

lemma split_head_not_CR:
  "a \<noteq> CR \<Longrightarrow> split_head (a # r) = map_option (\<lambda>(h, t). (a # h, t)) (split_head r)"
  by simp

lemma map_option_split_append:
  "map_option (\<lambda>(h, t). (a # h, t)) (map_option (\<lambda>(h, t). (l @ h, t)) s) =
    map_option (\<lambda>(h, t). ((a # l) @ h, t)) s"
  by (cases s) auto

lemma split_head_line:
  assumes "no_line_end l"
  shows "split_head (l @ CR # LF # x # y # t) =
    (if x = CR \<and> y = LF then Some (l @ [CR, LF], t)
     else map_option (\<lambda>(h, t). ((l @ [CR, LF]) @ h, t)) (split_head (x # y # t)))"
  using assms
proof (induction l)
  case Nil
  have "split_head (LF # x # y # t) = map_option (\<lambda>(h, t). (LF # h, t)) (split_head (x # y # t))"
    by (rule split_head_not_CR) simp
  then show ?case
    using map_option_split_append [of CR "[LF]" "split_head (x # y # t)"]
    by (auto simp: eval_nat_numeral simp del: split_head.simps(2) simp add: split_head.simps(2) [of CR])
next
  case (Cons a l)
  then have "a \<noteq> CR" "no_line_end l" by (auto simp: no_line_end_def)
  then have "split_head ((a # l) @ CR # LF # x # y # t) =
      map_option (\<lambda>(h, t). (a # h, t)) (split_head (l @ CR # LF # x # y # t))"
    by (simp add: split_head_not_CR)
  then show ?case
    using Cons.IH [OF \<open>no_line_end l\<close>]
      map_option_split_append [of a "l @ [CR, LF]" "split_head (x # y # t)"]
    by (simp del: split_head.simps)
qed

definition render_lines :: "string list \<Rightarrow> string" where
  "render_lines ls = concat (map (\<lambda>l. l @ CRLF) ls)"

lemma render_lines_Cons: "render_lines (l # ls) = l @ CR # LF # render_lines ls"
  by (simp add: render_lines_def CRLF_def)

lemma split_head_lines:
  assumes "no_line_end l" and "\<forall>k \<in> set ls. no_line_end k \<and> k \<noteq> []"
  shows "split_head (render_lines (l # ls) @ CRLF @ t) = Some (render_lines (l # ls), t)"
  using assms
proof (induction ls arbitrary: l)
  case Nil
  then show ?case
    using split_head_line [of l CR LF t] by (simp add: render_lines_def CRLF_def)
next
  case (Cons k ls)
  then obtain x k' where k: "k = x # k'" and x: "x \<noteq> CR"
    by (cases k) (auto simp: no_line_end_def)
  have "k' @ CR # LF # render_lines ls @ CRLF @ t \<noteq> []" by simp
  then obtain y t' where y: "render_lines (k # ls) @ CRLF @ t = x # y # t'"
    by (cases "k' @ CR # LF # render_lines ls @ CRLF @ t") (auto simp: k render_lines_Cons)
  have "split_head (render_lines (l # k # ls) @ CRLF @ t) =
      map_option (\<lambda>(h, t). ((l @ [CR, LF]) @ h, t)) (split_head (render_lines (k # ls) @ CRLF @ t))"
    using split_head_line [of l x y t'] Cons.prems(1) x y by (simp add: render_lines_Cons [of l])
  also have "\<dots> = Some (render_lines (l # k # ls), t)"
    using Cons by (simp add: render_lines_Cons [of l])
  finally show ?case .
qed

lemma render_response_lines:
  "render_response s hs c =
    render_lines (GetStatusString s # map header_ToString hs) @ CRLF @ c @ CRLF @ CRLF"
  by (simp add: render_response_def render_lines_def comp_def)

lemma no_line_end_status: "no_line_end (GetStatusString s)"
  by (cases s) (simp_all add: no_line_end_def)

lemma no_line_end_header:
  "no_line_end (m_name h) \<Longrightarrow> no_line_end (m_value h) \<Longrightarrow> no_line_end (header_ToString h)"
  by (simp add: no_line_end_def header_ToString_def)

lemma header_ToString_nonempty: "header_ToString h \<noteq> []"
  by (simp add: header_ToString_def)

lemma split_render_response:
  assumes "\<forall>h \<in> set hs. no_line_end (m_name h) \<and> no_line_end (m_value h)"
  shows "split_head (render_response s hs c) =
    Some (render_lines (GetStatusString s # map header_ToString hs), c @ CRLF @ CRLF)"
  unfolding render_response_lines
  using assms by (intro split_head_lines)
    (auto simp: no_line_end_status no_line_end_header header_ToString_nonempty)

section \<open>Properties\<close>

text \<open>
  A response built in the documented order (status, headers, content) splits at its first
  empty line into exactly the status line with the header lines and the content followed by two
  line ends, whatever the content is, as long as no header name or value holds a line end.
\<close>

theorem response_splits:
  assumes "\<forall>h \<in> set hs. no_line_end (m_name h) \<and> no_line_end (m_value h)"
  shows "split_head (m_data (SetContent c (fold AddHeader hs (SetStatus s r)))) =
    Some (render_lines (GetStatusString s # map header_ToString hs), c @ CRLF @ CRLF)"
  unfolding m_data_built using assms by (rule split_render_response)

theorem response_splits_witness:
  "split_head (m_data (SetContent ''hi'' (fold AddHeader [Header ''Server'' ''x''] (SetStatus NOT_FOUND new_HttpResponse)))) =
    Some (render_lines [''HTTP/1.1 404 Not Found'', ''Server: x''], ''hi'' @ CRLF @ CRLF)"
  by (subst response_splits) (simp_all add: Header_def no_line_end_def header_ToString_def)

end
