(* ===== verification/Http_Handler.thy ===== *)
theory Http_Handler
  imports Http_Parser Http_Response Protocol_Handler
begin

text \<open>
  The HTTP plugin's handler (\<open>server_plugin/http/http_handler.h\<close>, \<open>http_handler.cpp\<close>) and the
  functions the plugin exports (\<open>http_plugin.cpp\<close>). The files the handler reads and the tick
  counter of the platform are inputs.
\<close>

section \<open>The handler\<close>

record http_handler =
  hh_request :: "http_request option"
  hh_response :: http_response

definition HttpHandler :: http_handler where
  "HttpHandler = \<lparr>hh_request = None, hh_response = new_HttpResponse\<rparr>"

text \<open>
  \<open>files f\<close> is the content of the file \<open>f\<close> if it can be opened; \<open>tick_start\<close> and \<open>tick_end\<close> are
  the two readings of \<open>GetTickCount\<close> in a call of \<open>DidReceive\<close>, 32-bit values.
\<close>

record http_env =
  files :: "string \<Rightarrow> string option"
  tick_start :: "32 word"
  tick_end :: "32 word"

definition default_404 :: string where
  "default_404 =
     ''<!doctype html>'' @ ''<html>'' @ ''<head>'' @ ''<title>Not found</title>'' @
     ''<body><p>404 Not Found</p></body>'' @ ''</head>'' @ ''</html>''"

definition NotFoundPage :: "http_env \<Rightarrow> string" where
  "NotFoundPage e = (case files e ''404_page.html'' of Some page \<Rightarrow> page | None \<Rightarrow> default_404)"

definition HttpHandler_HasDataToSend :: "http_handler \<Rightarrow> bool" where
  "HttpHandler_HasDataToSend h = HasData (hh_response h)"

text \<open>The lines logged for a parsed request; reading a piece can fail.\<close>

fun header_lines :: "string \<Rightarrow> string_piece list \<Rightarrow> log_line list res" where
  "header_lines b [] = Inr []"
| "header_lines b (p # ps) =
     bind_res (piece_ToString b p) (\<lambda>s. bind_res (header_lines b ps) (\<lambda>ls. Inr ((INFO, s) # ls)))"

definition request_lines :: "http_request \<Rightarrow> log_line list res" where
  "request_lines r =
     bind_res (resource_path r) (\<lambda>url.
     bind_res (header_lines (m_request r) (m_headers r)) (\<lambda>hs.
       Inr ([(INFO, ''Method: '' @ dec_of_nat (enum_of_method (m_method r))),
             (INFO, ''URL: '' @ url),
             (INFO, ''HTTP: '' @ dec_of_nat (enum_of_version (m_httpVer r)))] @ hs)))"

text \<open>The response put together once the request is parsed.\<close>

definition page_to_send :: "http_env \<Rightarrow> string" where
  "page_to_send e = (case files e ''index.html'' of Some page \<Rightarrow> page | None \<Rightarrow> NotFoundPage e)"

definition fill_response :: "string \<Rightarrow> http_response \<Rightarrow> http_response" where
  "fill_response dataToSend r =
     (let r = SetStatus OK r;
          r = AddHeader (Header ''Content-length'' (dec_of_nat (length dataToSend))) r;
          r = AddHeader (Header ''Connection'' ''keep-alive'') r;
          r = AddHeader (Header ''Server'' ''PD Mod Server HTTP'') r
      in SetContent dataToSend r)"

definition took_line :: "http_env \<Rightarrow> log_line" where
  "took_line e = (INFO, ''Parsing took: '' @ dec_of_nat (unat (tick_end e - tick_start e)))"

definition HttpHandler_DidReceive ::
  "http_env \<Rightarrow> http_handler \<Rightarrow> data_chunk \<Rightarrow> int \<Rightarrow> (http_handler \<times> log_line list) res" where
  "HttpHandler_DidReceive e h data n =
     (let req = (case hh_request h of None \<Rightarrow> new_HttpRequest | Some r \<Rightarrow> r);
          req = request_Append_buf req (m_buffer data) (nat n) in
      case Parse req of
        None \<Rightarrow> Inl NoReturn
      | Some (Inl err) \<Rightarrow> Inl err
      | Some (Inr (out, req)) \<Rightarrow>
          if status out = FINISHED
          then bind_res (request_lines req) (\<lambda>ls.
                 Inr (h\<lparr>hh_request := None, hh_response := fill_response (page_to_send e) (hh_response h)\<rparr>,
                      ls @ [took_line e]))
          else Inr (h\<lparr>hh_request := Some req\<rparr>, [took_line e]))"

definition HttpHandler_DidSend :: "http_handler \<Rightarrow> int \<Rightarrow> http_handler res" where
  "HttpHandler_DidSend h n =
     assert_res (n > 0)
       (if n \<le> 0 then Inr h
        else if nat n \<ge> response_size (hh_response h)
        then Inr (h\<lparr>hh_response := response_Clear (hh_response h)\<rparr>)
        else Inr (h\<lparr>hh_response := snd (ShiftLeftBy (nat n) (hh_response h))\<rparr>))"

definition HttpHandler_data_to_send :: "http_handler \<Rightarrow> string option" where
  "HttpHandler_data_to_send h = (if HasData (hh_response h) then Some (m_data (hh_response h)) else None)"

definition HttpHandler_data_to_send_size :: "http_handler \<Rightarrow> nat" where
  "HttpHandler_data_to_send_size h = response_size (hh_response h)"

definition HttpHandler_AllocateChunk :: "(nat \<Rightarrow> char) \<Rightarrow> http_handler \<Rightarrow> data_chunk" where
  "HttpHandler_AllocateChunk raw h = new_DataChunk raw"

definition http_vt :: "http_env \<Rightarrow> http_handler proto_vt" where
  "http_vt e =
     \<lparr>HasDataToSend = HttpHandler_HasDataToSend, DidReceive = HttpHandler_DidReceive e,
      DidSend = HttpHandler_DidSend, data_to_send = HttpHandler_data_to_send,
      data_to_send_size = HttpHandler_data_to_send_size, AllocateChunk = HttpHandler_AllocateChunk\<rparr>"

section \<open>The exported functions\<close>

definition http_GetPluginName :: "nat \<Rightarrow> int \<times> string" where
  "http_GetPluginName maxSizeBytes = (int (length ''HTTP''), snprintf_str maxSizeBytes ''HTTP'')"

definition http_DefaultPort :: "16 word" where
  "http_DefaultPort = 8080"

definition http_NewHandler :: http_handler where
  "http_NewHandler = HttpHandler"

section \<open>The handler keeps the contract\<close>

definition http_inv :: "http_handler \<Rightarrow> bool" where
  "http_inv h \<longleftrightarrow> hh_request h = None"

definition http_pending :: "http_handler \<Rightarrow> string" where
  "http_pending h = m_data (hh_response h)"

lemma fill_response_eq:
  "m_data (fill_response c r) =
    render_response OK [Header ''Content-length'' (dec_of_nat (length c)),
      Header ''Connection'' ''keep-alive'', Header ''Server'' ''PD Mod Server HTTP''] c"
  by (subst m_data_built [symmetric, of _ _ _ r]) (simp add: fill_response_def Let_def)

lemma header_lines_ok:
  "map (piece_ToString b) ps = map Inr hs \<Longrightarrow> header_lines b ps = Inr (map (Pair INFO) hs)"
  by (induction ps arbitrary: hs) auto

definition parsed_lines :: "string \<Rightarrow> log_line list" where
  "parsed_lines t =
     [(INFO, ''Method: '' @ dec_of_nat (enum_of_method (method_of (ref_method t)))),
      (INFO, ''URL: '' @ ref_url t),
      (INFO, ''HTTP: '' @ dec_of_nat (enum_of_version (version_of (ref_version t))))] @
     map (Pair INFO) (ref_headers t)"

lemma http_did_receive:
  assumes "http_inv h" and "0 < n" and "n \<le> length (m_buffer c)" and "length (m_buffer c) < 2 ^ 31"
  shows "HttpHandler_DidReceive e h c (int n) =
    Inr (h\<lparr>hh_response := fill_response (page_to_send e) (hh_response h)\<rparr>,
      parsed_lines (c_str (take n (m_buffer c))) @ [took_line e])"
proof -
  let ?s = "take n (m_buffer c)"
  have "?s \<noteq> []" "length ?s < 2 ^ 31" using assms by auto
  from fresh_Parse [OF this] obtain k r' where r': "Parse (fresh_request ?s) = Some (Inr (ParseRes FINISHED k, r'))"
      "m_method r' = method_of (ref_method (c_str ?s))" "resource_path r' = Inr (ref_url (c_str ?s))"
      "m_httpVer r' = version_of (ref_version (c_str ?s))" "m_request r' = ?s"
      "map (piece_ToString ?s) (m_headers r') = map Inr (ref_headers (c_str ?s))"
    by blast
  then have "request_lines r' = Inr (parsed_lines (c_str ?s))"
    by (simp add: request_lines_def header_lines_ok parsed_lines_def)
  then show ?thesis
    using r'(1) assms(1)
    by (simp add: HttpHandler_DidReceive_def Let_def http_inv_def request_Append_buf_def
        fresh_request_def ParseRes_def)
qed

lemma http_did_send:
  assumes "0 < n" and "n \<le> length (http_pending h)"
  shows "\<exists>h'. HttpHandler_DidSend h (int n) = Inr h' \<and> hh_request h' = hh_request h \<and>
    http_pending h' = drop n (http_pending h)"
  using assms
  by (auto simp: HttpHandler_DidSend_def http_pending_def response_size_def response_Clear_def ShiftLeftBy_def)

interpretation http: protocol_handler "http_vt e" http_pending http_inv for e
proof unfold_locales
  show "\<exists>h'. DidSend (http_vt e) h (int n) = Inr h' \<and> http_inv h' \<and> http_pending h' = drop n (http_pending h)"
    if "http_inv h" "0 < n" "n \<le> length (http_pending h)" for h n
    using that http_did_send [of n h] by (auto simp: http_vt_def http_inv_def)
  show "\<exists>h' l. DidReceive (http_vt e) h c (int n) = Inr (h', l) \<and> http_inv h'"
    if "http_inv h" "http_pending h = []" "0 < n" "n \<le> length (m_buffer c)"
      "length (m_buffer c) = m_bufSize" for h n c
    using that http_did_receive [of h n c e] by (auto simp: http_vt_def http_inv_def m_bufSize_def)
qed (auto simp: http_vt_def http_pending_def HttpHandler_HasDataToSend_def HasData_def
    HttpHandler_data_to_send_def HttpHandler_data_to_send_size_def response_size_def
    HttpHandler_AllocateChunk_def)

section \<open>Properties\<close>

text \<open>
  An idle handler that is offered any chunk with at least one received byte, whatever the
  bytes are, is idle again afterwards and has exactly this to send: the status line 200, the
  three headers and the page, where the page is \<open>index.html\<close>, else \<open>404_page.html\<close>, else the
  built-in 404 page (so a missing page is reported as 200 too). The logged lines are those of
  the reference reading of the received bytes.
\<close>

theorem DidReceive_response:
  assumes "hh_request h = None" and "0 < n" and "n \<le> length (m_buffer c)"
    and "length (m_buffer c) = m_bufSize"
  shows "\<exists>h'. HttpHandler_DidReceive e h c (int n) =
      Inr (h', parsed_lines (c_str (take n (m_buffer c))) @ [took_line e]) \<and>
    hh_request h' = None \<and>
    m_data (hh_response h') = render_response OK
      [Header ''Content-length'' (dec_of_nat (length (page_to_send e))),
       Header ''Connection'' ''keep-alive'', Header ''Server'' ''PD Mod Server HTTP''] (page_to_send e)"
  using http_did_receive [of h n c e] assms
  by (simp add: http_inv_def fill_response_eq m_bufSize_def)

definition sample_env :: http_env where
  "sample_env = \<lparr>files = (\<lambda>f. if f = ''index.html'' then Some ''hello'' else None), tick_start = 5, tick_end = 7\<rparr>"

definition sample_chunk :: data_chunk where
  "sample_chunk = chunk_fill (new_DataChunk (\<lambda>_. CHR ''x'')) ''GET / HTTP/1.1''"

lemma sample_chunk_size: "length (m_buffer sample_chunk) = 2048"
  by (simp add: sample_chunk_def chunk_fill_def m_bufSize_def)

theorem DidReceive_response_witness:
  "\<exists>h' l. HttpHandler_DidReceive sample_env HttpHandler sample_chunk 14 = Inr (h', l) \<and>
    m_data (hh_response h') = render_response OK
      [Header ''Content-length'' ''5'', Header ''Connection'' ''keep-alive'',
       Header ''Server'' ''PD Mod Server HTTP''] ''hello''"
proof -
  have page: "page_to_send sample_env = ''hello''"
    by (simp add: page_to_send_def sample_env_def)
  have five: "dec_of_nat (length ''hello'') = ''5''" by code_simp
  show ?thesis
    using DidReceive_response [of HttpHandler 14 sample_chunk sample_env, unfolded page five]
    by (auto simp: HttpHandler_def sample_chunk_size m_bufSize_def)
qed

definition ok_head :: "string \<Rightarrow> string list" where
  "ok_head len = [''HTTP/1.1 200 OK'', ''Content-length: '' @ len, ''Connection: keep-alive'',
     ''Server: PD Mod Server HTTP'']"

text \<open>
  The announced length: read back by a client, the response splits into a head whose
  \<open>Content-length\<close> line carries the decimal length of the page, and a body that is the page
  followed by two line ends, four bytes more than announced.
\<close>

theorem DidReceive_content_length:
  assumes "HttpHandler_DidReceive e h c (int n) = Inr (h', l)"
    and "hh_request h = None" and "0 < n" and "n \<le> length (m_buffer c)"
    and "length (m_buffer c) = m_bufSize"
  shows "\<exists>len body. split_head (m_data (hh_response h')) =
      Some (render_lines (ok_head len), body) \<and>
    nat_of_dec len = length (page_to_send e) \<and>
    body = page_to_send e @ CRLF @ CRLF \<and> length body = nat_of_dec len + 4"
proof -
  let ?len = "dec_of_nat (length (page_to_send e))"
  let ?hs = "[Header ''Content-length'' ?len, Header ''Connection'' ''keep-alive'',
    Header ''Server'' ''PD Mod Server HTTP'']"
  have "m_data (hh_response h') = render_response OK ?hs (page_to_send e)"
    using http_did_receive [of h n c e] assms by (auto simp: http_inv_def fill_response_eq m_bufSize_def)
  moreover have "\<forall>k \<in> set ?hs. no_line_end (m_name k) \<and> no_line_end (m_value k)"
    using dec_of_nat_not_ctrl by (auto simp: Header_def no_line_end_def)
  then have "split_head (render_response OK ?hs (page_to_send e)) =
      Some (render_lines (GetStatusString OK # map header_ToString ?hs), page_to_send e @ CRLF @ CRLF)"
    by (rule split_render_response)
  ultimately show ?thesis
    by (intro exI [of _ ?len] exI [of _ "page_to_send e @ CRLF @ CRLF"])
      (simp add: ok_head_def header_ToString_def Header_def CRLF_def)
qed

theorem DidReceive_content_length_witness:
  "\<exists>h' l len body. HttpHandler_DidReceive sample_env HttpHandler sample_chunk (int 14) = Inr (h', l) \<and>
    split_head (m_data (hh_response h')) =
      Some (render_lines (ok_head len), body) \<and> length body = nat_of_dec len + 4"
proof -
  have inv: "http_inv HttpHandler" by (simp add: http_inv_def HttpHandler_def)
  obtain h' l where "HttpHandler_DidReceive sample_env HttpHandler sample_chunk (int 14) = Inr (h', l)"
    using http_did_receive [OF inv, of 14 sample_chunk sample_env] by (auto simp: sample_chunk_size)
  moreover from DidReceive_content_length [OF this] obtain len body where
      "split_head (m_data (hh_response h')) = Some (render_lines (ok_head len), body)"
      "length body = nat_of_dec len + 4"
    by (auto simp: HttpHandler_def sample_chunk_size m_bufSize_def)
  ultimately show ?thesis by blast
qed

text \<open>
  Acknowledged bytes leave the front of the response: a positive count removes exactly that
  many bytes, or all of them when it is as large as the response, and touches nothing else; a
  count that is not positive stops at the assertion.
\<close>

theorem DidSend_drops:
  "HttpHandler_DidSend h k =
    (if k \<le> 0 then Inl AssertionFailure
     else Inr (h\<lparr>hh_response := (hh_response h)\<lparr>m_data := drop (nat k) (m_data (hh_response h))\<rparr>\<rparr>))"
  by (auto simp: HttpHandler_DidSend_def assert_res_def response_size_def response_Clear_def ShiftLeftBy_def)

end
