(* ===== verification/Http_Plugin.thy ===== *)
theory Http_Plugin
  imports Http_Handler Server_Plugin
begin

text \<open>
  The HTTP plugin as a library (\<open>server_plugin/http/http_plugin.cpp\<close>): the symbols it exports,
  and what the server gets when it loads it.
\<close>

definition http_exports :: "string \<Rightarrow> http_handler proc option" where
  "http_exports n =
     (if n = ''GetPluginName'' then Some (Proc_GetPluginName (\<lambda>cap. snd (http_GetPluginName cap)))
      else if n = ''SocketType'' then Some (Proc_SocketType TCP)
      else if n = ''DefaultPort'' then Some (Proc_DefaultPort http_DefaultPort)
      else if n = ''NewHandler'' then Some (Proc_NewHandler (Some http_NewHandler))
      else if n = ''RegisterLogFn'' then Some Proc_RegisterLogFn
      else None)"

lemma http_keeps_api: "keeps_api http_exports"
proof -
  have "length (snd (http_GetPluginName name_size)) < name_size"
    by (simp add: http_GetPluginName_def snprintf_str_def name_size_def c_str_def)
  then show ?thesis by (simp add: keeps_api_def http_exports_def)
qed

lemma http_usable:
  assumes "dlsym dl h = http_exports"
  shows "plugin_usable dl (DynamicPlugin (Some \<lparr>m_handle = h\<rparr>))"
  using assms http_keeps_api
  by (simp add: plugin_usable_def DynamicPlugin_def DynamicPlugin_IsValid_def exportedNames_def GetProc_def
      http_exports_def)

section \<open>Properties\<close>

text \<open>
  A library with the exports of the HTTP plugin is accepted, and the server sees a TCP
  plugin named HTTP on port 8080, whose log goes to the host after initialisation and whose new
  handlers keep the handler contract and have nothing to send.
\<close>

theorem http_plugin_serves:
  assumes "dlsym dl h = http_exports"
  shows "DynamicPlugin_IsValid dl (DynamicPlugin (Some \<lparr>m_handle = h\<rparr>)) \<and>
    DynamicPlugin_Initialize dl (DynamicPlugin (Some \<lparr>m_handle = h\<rparr>)) = Inr (Some HostLog) \<and>
    DynamicPlugin_name dl (DynamicPlugin (Some \<lparr>m_handle = h\<rparr>)) = Inr ''HTTP'' \<and>
    DynamicPlugin_port dl (DynamicPlugin (Some \<lparr>m_handle = h\<rparr>)) = Inr 8080 \<and>
    DynamicPlugin_sock_type dl (DynamicPlugin (Some \<lparr>m_handle = h\<rparr>)) = Inr TCP \<and>
    (\<exists>x. DynamicPlugin_NewProtocolHandler dl (DynamicPlugin (Some \<lparr>m_handle = h\<rparr>)) = Inr (Some x) \<and>
      http_inv x \<and> http_pending x = [])"
proof -
  let ?p = "DynamicPlugin (Some \<lparr>m_handle = h\<rparr>)"
  have name: "DynamicPlugin_name dl ?p = Inr ''HTTP''"
    using assms by (simp add: DynamicPlugin_name_def DynamicPlugin_def GetProc_def http_exports_def
        call_proc_def http_GetPluginName_def snprintf_str_def name_size_def c_str_def Let_def)
  have "DynamicPlugin_IsValid dl ?p" "DynamicPlugin_Initialize dl ?p = Inr (Some HostLog)"
    using dynamic.valid [OF http_usable [OF assms]] dynamic.initializes [OF http_usable [OF assms]] by simp_all
  then show ?thesis
    using name assms
    by (simp add: plugin_op_defs DynamicPlugin_def GetProc_def http_exports_def http_DefaultPort_def
        http_NewHandler_def http_inv_def http_pending_def HttpHandler_def new_HttpResponse_def)
qed

definition http_linker :: "(string, http_handler) linker" where
  "http_linker = \<lparr>dlopen = Some, dlopen_errno = (\<lambda>_. 0), dlsym = (\<lambda>_. http_exports)\<rparr>"

theorem http_plugin_serves_witness:
  "DynamicPlugin_name http_linker (DynamicPlugin (Some \<lparr>m_handle = ''http_plugin.so''\<rparr>)) = Inr ''HTTP''"
  using http_plugin_serves [of http_linker "''http_plugin.so''"] by (simp add: http_linker_def)

end
