(* ===== verification/Server_Properties.thy ===== *)
theory Server_Properties
  imports Server_Run Http_Plugin
begin

text \<open>
  The properties of the server over dynamic plugins, and a concrete platform they are applied
  to: a kernel and an allocator that keep the contracts, and the HTTP plugin.
\<close>

section \<open>One session through a round\<close>

context plugin_service
begin

lemma connection_sends:
  assumes ok: "server_ok usable pending inv S" and io: "kernel_ok pending inv io"
    and a: "(a, ConnectionSession sk (Some h)) \<in> set (heap S)" and "pending h \<noteq> []"
    and k: "sends io (m_socket sk) = Some k" "0 < k" and S': "write_session io a S = Inr S'"
  shows "\<exists>h'. (a, ConnectionSession sk (Some h')) \<in> set (heap S') \<and> inv h' \<and> pending h' = drop k (pending h)"
proof -
  note live = server_ok_live [OF ok a]
  have h: "inv h" "length (pending h) < 2 ^ 31" using live(3) by simp_all
  have vt: "protocol_handler (handlers io) pending inv" using io by (simp add: kernel_ok_def)
  define m where "m = min k (length (pending h))"
  have "m \<noteq> 0" using k(2) assms(4) by (simp add: m_def)
  obtain h' where r: "Connection_OnWrite (handlers io) (Some k) sk (Some h) =
      Inr (int m, Some h', [SysSend (m_socket sk) (pending h)])"
      "inv h'" "pending h' = drop k (pending h)"
    unfolding m_def using protocol_handler.writes [OF vt h(1) assms(4) h(2) k(2)] by blast
  let ?s = "ConnectionSession sk (Some h') :: ('h, 'p) session"
  from S' live(4) r(1) k(1) \<open>m \<noteq> 0\<close> have "S' = did [SysSend (m_socket sk) (pending h)] (store_session a ?s S)"
    by (simp add: write_session_def session_OnWrite_def)
  moreover have "distinct (map fst (heap S))" using ok by (simp add: server_ok_def)
  ultimately have "(a, ?s) \<in> set (heap S')" using in_store [of S a _ ?s] a by simp
  with r show ?thesis by blast
qed

lemma connection_receives:
  assumes ok: "server_ok usable pending inv S" and io: "kernel_ok pending inv io"
    and a: "(a, ConnectionSession sk (Some h)) \<in> set (heap S)" and "pending h = []"
    and b: "recvs io (m_socket sk) = Some b" "b \<noteq> []" "length b < m_bufSize" and S': "read_session vt io a S = Inr S'"
  shows "\<exists>h' l c. (a, ConnectionSession sk (Some h')) \<in> set (heap S') \<and> inv h' \<and>
    DidReceive (handlers io) h c (int (length b)) = Inr (h', l) \<and> take (length b) (m_buffer c) = b \<and>
    length (m_buffer c) = m_bufSize"
proof -
  note live = server_ok_live [OF ok a]
  have h: "inv h" using live(3) by simp
  have vt: "protocol_handler (handlers io) pending inv" using io by (simp add: kernel_ok_def)
  obtain h' l c where r: "Connection_OnRead (handlers io) (raw_chunk io) (Some b) sk (Some h) =
      Inr (int (length b), Some h', l, [SysRecv (m_socket sk) (int m_bufSize)])" "inv h'"
      "DidReceive (handlers io) h c (int (length b)) = Inr (h', l)" "take (length b) (m_buffer c) = b"
      "length (m_buffer c) = m_bufSize"
    using protocol_handler.reads [OF vt h assms(4) b(2,3)] by blast
  let ?s = "ConnectionSession sk (Some h') :: ('h, 'p) session"
  have "S' = says l (did [SysRecv (m_socket sk) (int m_bufSize)] (store_session a ?s S))"
    using S' live(4) r(1) b by (simp add: read_session_def session_OnRead_def)
  moreover have "distinct (map fst (heap S))" using ok by (simp add: server_ok_def)
  ultimately have "(a, ?s) \<in> set (heap S')" using in_store [of S a _ ?s] a by simp
  with r show ?thesis by blast
qed

lemma round_sends:
  assumes ok: "server_ok usable pending inv S" and io: "kernel_ok pending inv io"
    and few: "length (m_sessions S) + card (acceptors S) \<le> max_open" and sel: "selects io = SelectReady rs ws"
    and calm: "\<not> hazard pending io S"
    and a: "(a, ConnectionSession sk (Some h)) \<in> set (heap S)" and h: "pending h \<noteq> []"
    and fd: "nat (sint (m_socket sk)) \<in> ws" and k: "sends io (m_socket sk) = Some k" "0 < k"
  shows "\<exists>S' h'. run_round vt io S = Inr (True, S') \<and> (a, ConnectionSession sk (Some h')) \<in> set (heap S') \<and>
    pending h' = drop k (pending h) \<and> server_ok usable pending inv S'"
proof -
  let ?s = "ConnectionSession sk (Some h) :: ('h, 'p) session"
  let ?R = "set_of (idle pending) S" and ?W = "set_of (\<lambda>s. is_connection s \<and> \<not> idle pending s) S"
  from round_ready [OF ok io few sel calm] obtain S0 S1 S2 where
    run: "run_round vt io S = Inr (True, S2)" and S0: "heap S0 = heap S" "m_sessions S0 = m_sessions S"
      "server_ok usable pending inv S0" "acceptors S0 = acceptors S"
    and S1: "ReadData vt io (?R \<inter> rs) S0 = Inr S1" "reading usable pending inv io S0 [] S1" "acceptors S1 = acceptors S"
    and S2: "SendData io (?W \<inter> ws) S1 = Inr S2" "sending usable pending inv S1 [] S2" by blast
  have ok1: "server_ok usable pending inv S1" and ok2: "server_ok usable pending inv S2"
    using S1(2) S2(2) by (simp_all add: reading_def sending_def)
  have nr: "nat (sint (session_handle ?s)) \<notin> ?R \<inter> rs"
  proof
    assume "nat (sint (session_handle ?s)) \<in> ?R \<inter> rs"
    with in_set_of [OF ok a, of "idle pending"] h show False by simp
  qed
  have sub: "?R \<inter> rs \<subseteq> set_of (idle pending) S0" using S0(1) by (simp add: set_of_def)
  have few0: "length (m_sessions S0) + card (acceptors S0) \<le> max_open" using few S0(2,4) by simp
  have c0: "calm io (?R \<inter> rs) S0" using calm hazard_calm [OF ok sel] by (simp add: calm_def S0(1))
  have a0: "(a, ?s) \<in> set (heap S0)" using a S0(1) by simp
  obtain s' where a1: "(a, s') \<in> set (heap S1)"
    "if nat (sint (session_handle ?s)) \<in> ?R \<inter> rs then True else s' = ?s"
    using read_tracks [OF S0(3) io sub few0 c0 S1(1) a0, where Q = "\<lambda>_. True"] nr by blast
  then have a1: "(a, ?s) \<in> set (heap S1)" using nr by simp
  have iw: "nat (sint (session_handle ?s)) \<in> ?W \<inter> ws"
    using a h fd unfolding set_of_def by force
  have nw: "nat (sint (session_handle t)) \<notin> ?W \<inter> ws" if "(b, t) \<in> acceptors S1" for b t
    by (rule acceptor_not_writable [OF ok S1(3) that])
  obtain s' where "(a, s') \<in> set (heap S2)"
    "\<exists>h'. s' = ConnectionSession sk (Some h') \<and> pending h' = drop k (pending h)"
    using send_tracks [OF ok1 io _ S2(1) a1,
        where Q = "\<lambda>s'. \<exists>h'. s' = ConnectionSession sk (Some h') \<and> pending h' = drop k (pending h)"]
      connection_sends [OF _ io _ h k] iw nw by (metis (no_types, lifting))
  then show ?thesis using run ok2 by blast
qed

lemma round_receives:
  assumes ok: "server_ok usable pending inv S" and io: "kernel_ok pending inv io"
    and few: "length (m_sessions S) + card (acceptors S) \<le> max_open" and sel: "selects io = SelectReady rs ws"
    and calm: "\<not> hazard pending io S"
    and a: "(a, ConnectionSession sk (Some h)) \<in> set (heap S)" and h: "pending h = []"
    and fd: "nat (sint (m_socket sk)) \<in> rs" and b: "recvs io (m_socket sk) = Some b" "b \<noteq> []"
  shows "\<exists>S' h' l c. run_round vt io S = Inr (True, S') \<and>
    (a, ConnectionSession sk (Some h')) \<in> set (heap S') \<and>
    DidReceive (handlers io) h c (int (length b)) = Inr (h', l) \<and> take (length b) (m_buffer c) = b \<and>
    length (m_buffer c) = m_bufSize \<and> server_ok usable pending inv S'"
proof -
  let ?s = "ConnectionSession sk (Some h) :: ('h, 'p) session"
  let ?R = "set_of (idle pending) S" and ?W = "set_of (\<lambda>s. is_connection s \<and> \<not> idle pending s) S"
  let ?Q = "\<lambda>s'. \<exists>h' l c. s' = (ConnectionSession sk (Some h') :: ('h, 'p) session) \<and>
    DidReceive (handlers io) h c (int (length b)) = Inr (h', l) \<and> take (length b) (m_buffer c) = b \<and>
    length (m_buffer c) = m_bufSize"
  from round_ready [OF ok io few sel calm] obtain S0 S1 S2 where
    run: "run_round vt io S = Inr (True, S2)" and S0: "heap S0 = heap S" "m_sessions S0 = m_sessions S"
      "server_ok usable pending inv S0" "acceptors S0 = acceptors S"
    and S1: "ReadData vt io (?R \<inter> rs) S0 = Inr S1" "reading usable pending inv io S0 [] S1" "acceptors S1 = acceptors S"
    and S2: "SendData io (?W \<inter> ws) S1 = Inr S2" "sending usable pending inv S1 [] S2" by blast
  have ok1: "server_ok usable pending inv S1" and ok2: "server_ok usable pending inv S2"
    using S1(2) S2(2) by (simp_all add: reading_def sending_def)
  have sub: "?R \<inter> rs \<subseteq> set_of (idle pending) S0" using S0(1) by (simp add: set_of_def)
  have few0: "length (m_sessions S0) + card (acceptors S0) \<le> max_open" using few S0(2,4) by simp
  have c0: "calm io (?R \<inter> rs) S0" using calm hazard_calm [OF ok sel] by (simp add: calm_def S0(1))
  have a0: "(a, ?s) \<in> set (heap S0)" using a S0(1) by simp
  have ir: "nat (sint (session_handle ?s)) \<in> ?R \<inter> rs"
    using a h fd unfolding set_of_def by force
  have short: "length b < m_bufSize"
  proof -
    have "\<not> read_hazard io ?s" using c0 a0 ir unfolding calm_def by blast
    then have "length b \<noteq> m_bufSize" using b(1) by simp
    moreover have "length b \<le> m_bufSize" using io b(1) by (auto simp: kernel_ok_def)
    ultimately show ?thesis by simp
  qed
  obtain s' where s': "(a, s') \<in> set (heap S1)" "?Q s'"
    using read_tracks [OF S0(3) io sub few0 c0 S1(1) a0, where Q = ?Q]
      connection_receives [OF _ io _ h b short] ir
    by (metis (no_types, lifting))
  have nw: "nat (sint (session_handle t)) \<notin> ?W \<inter> ws" if "(b, t) \<in> acceptors S1" for b t
    by (rule acceptor_not_writable [OF ok S1(3) that])
  have "session_handle s' = session_handle ?s" using s'(2) by auto
  then have nW: "nat (sint (session_handle s')) \<notin> ?W \<inter> ws"
    using in_set_of [OF ok a, of "\<lambda>s. is_connection s \<and> \<not> idle pending s"] h by auto
  obtain s'' where "(a, s'') \<in> set (heap S2)"
    "if nat (sint (session_handle s')) \<in> ?W \<inter> ws then True else s'' = s'"
    using send_tracks [OF ok1 io _ S2(1) s'(1), where Q = "\<lambda>_. True"] nW nw by blast
  then have "(a, s') \<in> set (heap S2)" using nW by simp
  then show ?thesis using run ok2 s'(2) by blast
qed

text \<open>A round whose only hazards are failed \<open>accept\<close>s.\<close>

lemma accept_fails:
  assumes ok: "server_ok usable pending inv S" and io: "kernel_ok pending inv io"
    and few: "length (m_sessions S) + card (acceptors S) \<le> max_open" and sel: "selects io = SelectReady rs ws"
    and a: "(a, AcceptorSession l ph p) \<in> set (heap S)" and fd: "nat (sint (m_socket l)) \<in> rs"
    and bad: "accepts io [] (m_socket l) = kInvalidSocket"
    and no: "\<And>fd b. recvs io fd = Some b \<Longrightarrow> length b < m_bufSize"
  shows "\<exists>S1 b s. ReadData vt io (set_of (idle pending) S \<inter> rs) S = Inr S1 \<and> b \<in> set (m_sessions S1) \<and>
    (b, s) \<in> set (heap S1) \<and> session_handle s = kInvalidSocket \<and>
    (\<forall>w. SendData io w S1 = Inl OutOfBounds) \<and> run_round vt io S = Inl OutOfBounds"
proof -
  let ?r = "set_of (idle pending) S \<inter> rs"
  have r: "nat (sint (session_handle (AcceptorSession l ph p))) \<in> ?r"
    using a fd unfolding set_of_def by force
  then have hz: "\<not> calm io ?r S" using a bad unfolding calm_def by fastforce
  have "\<exists>S1. ReadData vt io ?r S = Inr S1 \<and> core_ok usable pending inv S1 \<and> doomed io [] S1"
  proof (rule read_data_doomed [OF ok io _ few hz])
    show "length b \<noteq> m_bufSize" if "recvs io fd = Some b" for fd b using no [OF that] by simp
  qed simp
  then obtain S1 where
    S1: "ReadData vt io ?r S = Inr S1" "core_ok usable pending inv S1" "doomed io [] S1" by blast
  obtain b s where b: "(b, s) \<in> set (heap S1)" "session_handle s = kInvalidSocket"
    using S1(3) by (auto simp: doomed_def)
  have "run_round vt io S = Inl OutOfBounds"
    using round_fails [OF ok io few] hazard_calm [OF ok sel] hz by blast
  with S1 b core_ok_live(4) [OF S1(2) b(1)] send_doomed [OF S1(2,3)] show ?thesis by blast
qed

end

section \<open>The HTTP plugin keeps the contracts\<close>

lemma length_dec_of_nat: "length (dec_of_nat n) \<le> Suc n"
proof (induction n rule: dec_of_nat.induct)
  case (1 n)
  then show ?case by (subst dec_of_nat.simps) auto
qed

lemma http_fits:
  assumes "length (page_to_send e) < 2 ^ 29"
  shows "responses_fit (http_vt e) http_pending http_inv"
  unfolding responses_fit_def
proof (intro allI impI)
  fix h c n h' l
  assume h: "http_inv h" "0 < n" "n \<le> length (m_buffer c)" "length (m_buffer c) = m_bufSize"
    and r: "DidReceive (http_vt e) h c (int n) = Inr (h', l)"
  have "h' = h\<lparr>hh_response := fill_response (page_to_send e) (hh_response h)\<rparr>"
    using r http_did_receive [OF h(1-3), of e] h(4) by (simp add: http_vt_def m_bufSize_def)
  then show "length (http_pending h') < 2 ^ 31"
    using assms length_dec_of_nat [of "length (page_to_send e)"]
    by (simp add: http_pending_def fill_response_eq render_response_def CRLF_def header_ToString_def Header_def)
qed

lemma http_contract: "protocol_handler (http_vt e) http_pending http_inv"
  by (rule http.protocol_handler_axioms)

lemma http_plugin_usable:
  assumes "dlsym dl h = http_exports"
  shows "plugin_serves dl http_pending http_inv (DynamicPlugin (Some \<lparr>m_handle = h\<rparr>))"
  using http_usable [OF assms] assms
  by (simp add: plugin_serves_def DynamicPlugin_NewProtocolHandler_def DynamicPlugin_def GetProc_def
      call_proc_def http_exports_def http_NewHandler_def http_inv_def http_pending_def HttpHandler_def
      new_HttpResponse_def)

section \<open>A concrete platform\<close>

text \<open>A kernel that hands out the lowest free descriptor from 3 on, and an allocator.\<close>

definition fd_range :: "c_int list" where
  "fd_range = map word_of_nat [3..<1024]"

definition free_fd :: "c_int list \<Rightarrow> c_int" where
  "free_fd fds = (case find (\<lambda>fd. fd \<notin> set fds) fd_range of None \<Rightarrow> 3 | Some fd \<Rightarrow> fd)"

definition free_addr :: "nat list \<Rightarrow> nat" where
  "free_addr l = Suc (sum_list l)"

lemma free_addr: "free_addr l \<notin> set l"
  using member_le_sum_list [of _ l] by (fastforce simp: free_addr_def)

lemma small_word:
  assumes "n < 1024"
  shows "sint (word_of_nat n :: c_int) = int n"
  using assms by (simp add: signed_of_nat signed_take_bit_int_eq_self)

lemma free_fd:
  assumes "length fds < max_open"
  shows "free_fd fds \<notin> set fds" and "fd_ok (free_fd fds)"
proof -
  have inj: "inj_on (word_of_nat :: nat \<Rightarrow> c_int) {3..<1024}"
    by (rule inj_onI) (metis atLeastLessThan_iff small_word of_nat_eq_iff)
  have range: "set fd_range = word_of_nat ` {3..<1024}" by (simp only: fd_range_def set_map set_upt)
  then have "card (set fd_range) = 1021" using card_image [OF inj] by simp
  moreover have "card (set fds) < 1021"
    using assms card_length [of fds] by (simp add: max_open_def)
  ultimately have "\<not> set fd_range \<subseteq> set fds" using card_mono [of "set fds" "set fd_range"] by fastforce
  then obtain fd where f: "find (\<lambda>fd. fd \<notin> set fds) fd_range = Some fd"
    using find_None_iff [of "\<lambda>fd. fd \<notin> set fds" fd_range] by blast
  then have fd: "fd \<in> set fd_range" "fd \<notin> set fds" by (auto simp: find_Some_iff)
  then obtain n where "n < 1024" "fd = word_of_nat n" using range by auto
  then have "fd_ok fd" by (simp add: fd_ok_def FD_SETSIZE_def small_word)
  then show "free_fd fds \<notin> set fds" "fd_ok (free_fd fds)" using f fd(2) by (simp_all add: free_fd_def)
qed

definition sample_plugin :: "string dynamic_plugin" where
  "sample_plugin = DynamicPlugin (Some \<lparr>m_handle = ''http_plugin.so''\<rparr>)"

definition sample_server :: "(http_handler, string dynamic_plugin) server" where
  "sample_server = Server\<lparr>m_pluginLoader := \<lparr>m_plugins = [sample_plugin]\<rparr>\<rparr>"

definition sample_cl :: command_line where
  "sample_cl = \<lparr>m_switches = [''serverIp'' \<mapsto> ''127.0.0.1'']\<rparr>"

definition sample_init :: init_io where
  "sample_init = \<lparr>raw_ip = (\<lambda>_. NUL), inet_addr = (\<lambda>_. 0x0100007F), socket_fd = (\<lambda>fds _. free_fd fds),
     socket_errno = (\<lambda>_. 0), bind_rc = (\<lambda>_. 0), bind_errno = (\<lambda>_. 0), listen_rc = (\<lambda>_. 0),
     listen_errno = (\<lambda>_. 0), init_addr = free_addr\<rparr>"

definition sample_round :: "select_out \<Rightarrow> http_handler round_io" where
  "sample_round out = \<lparr>handlers = http_vt sample_env, selects = out, raw_chunk = (\<lambda>_. NUL),
     recvs = (\<lambda>_. Some ''GET / HTTP/1.1''), recv_errno = (\<lambda>_. 0), sends = (\<lambda>_. Some 5),
     send_errno = (\<lambda>_. 0), accepts = (\<lambda>fds _. free_fd fds), new_addr = free_addr\<rparr>"

lemma sample_init_ok: "init_ok sample_init"
  using free_fd free_addr by (auto simp: init_ok_def sample_init_def)

lemma free_fd_valid: "free_fd fds \<noteq> kInvalidSocket"
proof (cases "find (\<lambda>fd. fd \<notin> set fds) fd_range")
  case None
  then show ?thesis by (simp add: free_fd_def kInvalidSocket_def)
next
  case (Some fd)
  then have "fd \<in> set fd_range" by (auto simp: find_Some_iff)
  then obtain n where "n < 1024" "fd = word_of_nat n" by (auto simp only: fd_range_def set_map set_upt atLeastLessThan_iff)
  then show ?thesis using small_word [of n] Some by (auto simp: kInvalidSocket_def free_fd_def)
qed

lemma sample_handlers:
  "protocol_handler (http_vt sample_env) http_pending http_inv"
  "responses_fit (http_vt sample_env) http_pending http_inv"
  using http_contract http_fits [of sample_env] by (simp_all add: page_to_send_def sample_env_def)

lemma sample_round_simps [simp]:
  "handlers (sample_round out) = http_vt sample_env" "selects (sample_round out) = out"
  "recvs (sample_round out) = (\<lambda>_. Some ''GET / HTTP/1.1'')" "sends (sample_round out) = (\<lambda>_. Some 5)"
  "accepts (sample_round out) = (\<lambda>fds _. free_fd fds)" "new_addr (sample_round out) = free_addr"
  by (simp_all add: sample_round_def)

lemma sample_kernel_ok: "kernel_ok http_pending http_inv (sample_round out)"
  using free_fd free_addr free_fd_valid sample_handlers
  by (auto simp: kernel_ok_def m_bufSize_def)

lemma sample_no_hazard: "\<not> hazard http_pending (sample_round out) S"
proof -
  have "\<not> read_hazard (sample_round out) s" for s :: "(http_handler, 'a) session"
    using free_fd_valid by (cases s) (auto simp: m_bufSize_def)
  then show ?thesis by (auto simp: hazard_def list_ex_iff split: select_out.splits)
qed

lemma sample_serves: "plugin_serves http_linker http_pending http_inv sample_plugin"
  unfolding sample_plugin_def by (rule http_plugin_usable) (simp add: http_linker_def)

section \<open>Properties\<close>

text \<open>
  C3. The start of the server: with plugins that keep the interface, an address of 1 to 18
  characters and fewer plugins than descriptors, \<open>InitPlugins\<close> goes wrong nowhere, and the sessions
  afterwards are, in the order of the plugins, one acceptor for each plugin whose socket type is
  TCP, whose port is not 0, for a valid address, and whose socket opens, is bound and listens;
  every other plugin is passed over. The acceptor listens on the given address and the plugin's
  port, and the invariant of the server holds.
\<close>

theorem InitPlugins_listens:
  assumes "GetPlugins (m_pluginLoader S) = ps" and "list_all (plugin_serves dl q i) ps"
    and "heap S = []" and "m_sessions S = []" and "m_maxFd S = 0" and "init_ok io"
    and "0 < length (SwitchValue c ''serverIp'')" and "length (SwitchValue c ''serverIp'') < 19"
    and "\<And>fds k. listener_starts io fds k = listener_starts io [] k" and "length ps \<le> max_open"
  shows "\<exists>S'. InitPlugins (dynamic_vt dl) (Some c) io S = Inr S' \<and>
    map (\<lambda>a. map_option listening (map_of (heap S') a)) (m_sessions S') =
      map (\<lambda>(p, n). Some (Some (p, c_str (SwitchValue c ''serverIp''), n)))
        (served (dynamic_vt dl) io (c_str (SwitchValue c ''serverIp'')) 0 ps) \<and>
    server_ok (plugin_serves dl q i) q i S'"
proof -
  let ?u = "plugin_serves dl q i" and ?ip = "c_str (SwitchValue c ''serverIp'')"
  have ok: "server_ok ?u q i S" using assms(3-5) by (simp add: server_ok_def open_fds_def)
  have ps: "\<forall>p \<in> set ps. p \<in> set (GetPlugins (m_pluginLoader S)) \<and> ?u p"
    using assms(1,2) by (simp add: list_all_iff)
  have "length (heap S) + length ps \<le> max_open" using assms(3,10) by simp
  from dynamic_service.init_plugins_effect [OF ok assms(6) ps assms(7,8,9) this, of 0] obtain S' new where
    S': "init_plugins (dynamic_vt dl) (Some c) io 0 ps S = Inr S'" "server_ok ?u q i S'"
      "heap S' = rev new" "m_sessions S' = map fst new"
      "map (\<lambda>e. listening (snd e)) new = map (\<lambda>(p, n). Some (p, ?ip, n)) (served (dynamic_vt dl) io ?ip 0 ps)"
    unfolding adds_acceptors_def assms(3,4) by auto
  have "map_of (heap S') (fst e) = Some (snd e)" if "e \<in> set new" for e
    using that S'(2,3) by (intro map_of_is_SomeI) (auto simp: server_ok_def)
  then have "map (\<lambda>a. map_option listening (map_of (heap S') a)) (m_sessions S') =
      map Some (map (\<lambda>e. listening (snd e)) new)"
    using S'(4) by simp
  also have "\<dots> = map (\<lambda>(p, n). Some (Some (p, ?ip, n))) (served (dynamic_vt dl) io ?ip 0 ps)"
    unfolding S'(5) by (simp add: case_prod_beta)
  finally show ?thesis using S'(1,2) by (simp add: InitPlugins_def assms(1) case_prod_beta)
qed

lemma sample_start:
  "GetPlugins (m_pluginLoader sample_server) = [sample_plugin]" "heap sample_server = []"
  "m_sessions sample_server = []" "m_maxFd sample_server = 0"
  by (simp_all add: sample_server_def Server_def GetPlugins_def)

lemma sample_ip: "SwitchValue sample_cl ''serverIp'' = ''127.0.0.1''"
  by (simp add: SwitchValue_def sample_cl_def)

lemma sample_steady: "listener_starts sample_init fds k = listener_starts sample_init [] k"
  using free_fd_valid by (simp add: listener_starts_def sample_init_def)

theorem InitPlugins_listens_witness:
  "\<exists>S'. InitPlugins (dynamic_vt http_linker) (Some sample_cl) sample_init sample_server = Inr S' \<and>
    map (\<lambda>a. map_option listening (map_of (heap S') a)) (m_sessions S') =
      [Some (Some (sample_plugin, ''127.0.0.1'', 8080))]"
proof -
  have port: "DynamicPlugin_port http_linker sample_plugin = Inr 8080"
    "DynamicPlugin_sock_type http_linker sample_plugin = Inr TCP"
    by (simp_all add: sample_plugin_def plugin_op_defs DynamicPlugin_def GetProc_def http_linker_def
        http_exports_def http_DefaultPort_def)
  have starts: "listener_starts sample_init [] 0"
  proof -
    have "fd_ok (free_fd [])" by (rule free_fd) (simp add: max_open_def)
    then have "free_fd [] \<noteq> kInvalidSocket" by (auto simp: fd_ok_def kInvalidSocket_def)
    then show ?thesis by (simp add: listener_starts_def sample_init_def)
  qed
  have "served (dynamic_vt http_linker) sample_init ''127.0.0.1'' 0 [sample_plugin] = [(sample_plugin, 8080)]"
    using port starts by (simp add: sample_init_def INADDR_NONE_def)
  moreover have "c_str ''127.0.0.1'' = ''127.0.0.1''" by (simp add: c_str_def)
  ultimately show ?thesis
    using InitPlugins_listens [OF sample_start(1), of http_linker http_pending http_inv sample_init sample_cl,
        unfolded sample_ip] sample_serves sample_start sample_init_ok sample_steady
    by (auto simp: max_open_def)
qed

text \<open>A sample state of the running server: the acceptor and one idle connection.\<close>

definition running_server :: "http_handler \<Rightarrow> (http_handler, string dynamic_plugin) server" where
  "running_server h = sample_server\<lparr>m_sessions := [1, 2], m_maxFd := 5,
     heap := [(2, ConnectionSession (TcpSocket 4) (Some h)),
       (1, AcceptorSession \<lparr>m_socket = 3, m_ep = IPEndPoint_default\<rparr> None sample_plugin)]\<rparr>"

lemma running_ok:
  assumes "http_inv h" and "length (http_pending h) < 2 ^ 31"
  shows "server_ok (plugin_serves http_linker http_pending http_inv) http_pending http_inv (running_server h)"
  using assms sample_serves
  by (auto simp: server_ok_def running_server_def open_fds_def sample_server_def Server_def GetPlugins_def
      TcpSocket_def Socket_def fd_ok_def FD_SETSIZE_def)

lemma running_idle: "http_inv HttpHandler" "http_pending HttpHandler = []"
  by (simp_all add: http_inv_def http_pending_def HttpHandler_def new_HttpResponse_def)

text \<open>
  C1. The rounds of the loop, exactly. Let the platform keep its documented contract
  (\<open>kernel_ok\<close>: \<open>recv\<close> stores at most the 2048 bytes it is given room for, \<open>accept\<close> fails or
  returns a new descriptor that is small while fewer than 1000 are open, \<open>new\<close> returns a fresh
  address, the handlers keep \<open>protocol_handler\<close>), and let sessions and listeners together be at most
  1000. Then every state the loop reaches from one with the invariant has it too, with the same
  acceptors. A round from there that reads a full chunk from a connection, or whose \<open>accept\<close> fails,
  leaves the bounds of an array. Every other round goes wrong nowhere (no session is used
  after it was deleted, no end iterator is erased, no null pointer is followed, no descriptor is out
  of the range of a set), and the loop goes on exactly when \<open>select\<close> does not fail.
\<close>

theorem reachable_round_exact:
  assumes "server_ok (plugin_serves dl q i) q i S"
    and "reaches (dynamic_vt dl) (kernel_ok q i) S S'" and "kernel_ok q i io"
    and "length (m_sessions S') + card (acceptors S') \<le> max_open"
  shows "server_ok (plugin_serves dl q i) q i S' \<and> acceptors S' = acceptors S \<and>
    (if hazard q io S' then run_round (dynamic_vt dl) io S' = Inl OutOfBounds
     else \<exists>S''. run_round (dynamic_vt dl) io S' = Inr (\<forall>e. selects io \<noteq> SelectFailed e, S'') \<and>
       server_ok (plugin_serves dl q i) q i S'' \<and> acceptors S'' = acceptors S)"
proof -
  note reached = dynamic_service.reaches_ok [OF assms(2,1)]
  then have ok: "server_ok (plugin_serves dl q i) q i S'" by simp
  from dynamic_service.round_exact [OF ok assms(3,4)] reached show ?thesis by (auto split: if_splits)
qed

lemma running_acceptors:
  "acceptors (running_server h) = {(1, AcceptorSession \<lparr>m_socket = 3, m_ep = IPEndPoint_default\<rparr> None sample_plugin)}"
  by (auto simp: acceptors_def running_server_def)

lemma running_connection: "(2, ConnectionSession (TcpSocket 4) (Some h)) \<in> set (heap (running_server h))"
  by (simp add: running_server_def)

lemma running_fd: "m_socket (TcpSocket 4) = 4"
  by (simp add: TcpSocket_def Socket_def)

lemma running_few: "length (m_sessions (running_server h)) + card (acceptors (running_server h)) \<le> max_open"
  unfolding running_acceptors by (simp add: running_server_def max_open_def)

theorem reachable_round_exact_witness:
  "(\<exists>S''. run_round (dynamic_vt http_linker) (sample_round (SelectReady {3, 4} {4})) (running_server HttpHandler) =
      Inr (True, S'') \<and> acceptors S'' = acceptors (running_server HttpHandler)) \<and>
    run_round (dynamic_vt http_linker) ((sample_round (SelectReady {3, 4} {4}))\<lparr>recvs := \<lambda>_. Some (replicate 2048 SP)\<rparr>)
      (running_server HttpHandler) = Inl OutOfBounds"
proof
  have ok: "server_ok (plugin_serves http_linker http_pending http_inv) http_pending http_inv (running_server HttpHandler)"
    using running_ok [of HttpHandler] running_idle by simp
  let ?io = "sample_round (SelectReady {3, 4} {4})"
  show "\<exists>S''. run_round (dynamic_vt http_linker) ?io (running_server HttpHandler) = Inr (True, S'') \<and>
      acceptors S'' = acceptors (running_server HttpHandler)"
    using reachable_round_exact [OF ok reaches.here sample_kernel_ok running_few, of "SelectReady {3, 4} {4}"]
    by (auto simp: sample_no_hazard)
  let ?full = "?io\<lparr>recvs := \<lambda>_. Some (replicate 2048 SP)\<rparr>"
  have "kernel_ok http_pending http_inv ?full"
    using sample_kernel_ok [of "SelectReady {3, 4} {4}"] by (simp add: kernel_ok_def m_bufSize_def)
  moreover have "hazard http_pending ?full (running_server HttpHandler)"
    using running_idle by (simp add: hazard_def running_server_def m_bufSize_def TcpSocket_def Socket_def)
  ultimately show "run_round (dynamic_vt http_linker) ?full (running_server HttpHandler) = Inl OutOfBounds"
    using reachable_round_exact [OF ok reaches.here _ running_few, of ?full] by simp
qed

text \<open>
  C2. A whole run, exactly. For a fresh server with \<open>n\<close> plugins that keep the interface, an
  address of 1 to 18 characters, and platforms that keep their contracts (\<open>init_ok\<close>, \<open>kernel_ok\<close>)
  over \<open>k\<close> rounds with \<open>n + k * n \<le> 1000\<close>, the start of the listeners succeeds. If no listener was
  started, \<open>Run\<close> warns and returns. Otherwise it goes wrong exactly when it comes to a round with a
  hazard (a full chunk or a failed \<open>accept\<close>, as in the previous property), and if it does not, it is
  still running after the rounds exactly when no \<open>select\<close> failed, in a state with the invariant and
  the acceptors of the start.
\<close>

theorem Run_exact:
  assumes "GetPlugins (m_pluginLoader S) = ps" and "list_all (plugin_serves dl q i) ps"
    and "heap S = []" and "m_sessions S = []" and "m_maxFd S = 0" and "init_ok io"
    and "0 < length (SwitchValue c ''serverIp'')" and "length (SwitchValue c ''serverIp'') < 19"
    and "\<And>fds k. listener_starts io fds k = listener_starts io [] k"
    and "list_all (kernel_ok q i) ios" and "length ps + length ios * length ps \<le> max_open"
  shows "\<exists>S1. InitPlugins (dynamic_vt dl) (Some c) io S = Inr S1 \<and>
    (if served (dynamic_vt dl) io (c_str (SwitchValue c ''serverIp'')) 0 ps = []
     then Run (dynamic_vt dl) (Some c) io ios S = Inr (False, say WARN ''No sessions were registered.'' S1)
     else if meets_hazard (dynamic_vt dl) q ios S1 then Run (dynamic_vt dl) (Some c) io ios S = Inl OutOfBounds
     else \<exists>S'. Run (dynamic_vt dl) (Some c) io ios S = Inr (\<forall>io \<in> set ios. \<forall>e. selects io \<noteq> SelectFailed e, S') \<and>
       server_ok (plugin_serves dl q i) q i S' \<and> acceptors S' = acceptors S1)"
proof -
  have ok: "server_ok (plugin_serves dl q i) q i S" using assms(3-5) by (simp add: server_ok_def open_fds_def)
  have ps: "\<forall>p \<in> set ps. p \<in> set (GetPlugins (m_pluginLoader S)) \<and> plugin_serves dl q i p"
    using assms(1,2) by (simp add: list_all_iff)
  have ios: "\<forall>io \<in> set ios. kernel_ok q i io" using assms(10) by (simp add: list_all_iff)
  from dynamic_service.run_effect [OF ok assms(6) ps assms(1,7,8,9,3,4) ios assms(11)]
  obtain S1 where S1: "InitPlugins (dynamic_vt dl) (Some c) io S = Inr S1"
    "length (m_sessions S1) = length (served (dynamic_vt dl) io (c_str (SwitchValue c ''serverIp'')) 0 ps)"
    "if m_sessions S1 = [] then Run (dynamic_vt dl) (Some c) io ios S = Inr (False, say WARN ''No sessions were registered.'' S1)
     else if meets_hazard (dynamic_vt dl) q ios S1 then Run (dynamic_vt dl) (Some c) io ios S = Inl OutOfBounds
     else \<exists>S'. Run (dynamic_vt dl) (Some c) io ios S = Inr (\<forall>io \<in> set ios. \<forall>e. selects io \<noteq> SelectFailed e, S') \<and>
       server_ok (plugin_serves dl q i) q i S' \<and> acceptors S' = acceptors S1 \<and> m_pluginLoader S' = m_pluginLoader S"
    by blast
  have "m_sessions S1 = [] \<longleftrightarrow> served (dynamic_vt dl) io (c_str (SwitchValue c ''serverIp'')) 0 ps = []"
    using S1(2) by (metis length_0_conv)
  note r = S1(3) [unfolded this]
  show ?thesis
  proof (intro exI [of _ S1] conjI S1(1))
    show "if served (dynamic_vt dl) io (c_str (SwitchValue c ''serverIp'')) 0 ps = []
     then Run (dynamic_vt dl) (Some c) io ios S = Inr (False, say WARN ''No sessions were registered.'' S1)
     else if meets_hazard (dynamic_vt dl) q ios S1 then Run (dynamic_vt dl) (Some c) io ios S = Inl OutOfBounds
     else \<exists>S'. Run (dynamic_vt dl) (Some c) io ios S = Inr (\<forall>io \<in> set ios. \<forall>e. selects io \<noteq> SelectFailed e, S') \<and>
       server_ok (plugin_serves dl q i) q i S' \<and> acceptors S' = acceptors S1"
      using r by (cases "served (dynamic_vt dl) io (c_str (SwitchValue c ''serverIp'')) 0 ps = []";
          cases "meets_hazard (dynamic_vt dl) q ios S1") auto
  qed
qed

lemma sample_served:
  "served (dynamic_vt http_linker) sample_init (c_str ''127.0.0.1'') 0 [sample_plugin] = [(sample_plugin, 8080)]"
proof -
  have port: "DynamicPlugin_port http_linker sample_plugin = Inr 8080"
    "DynamicPlugin_sock_type http_linker sample_plugin = Inr TCP"
    by (simp_all add: sample_plugin_def plugin_op_defs DynamicPlugin_def GetProc_def http_linker_def
        http_exports_def http_DefaultPort_def)
  have "listener_starts sample_init [] 0"
    using free_fd_valid by (simp add: listener_starts_def sample_init_def)
  then show ?thesis using port by (simp add: sample_init_def INADDR_NONE_def c_str_def)
qed

theorem Run_exact_witness:
  "\<exists>S'. Run (dynamic_vt http_linker) (Some sample_cl) sample_init
      [sample_round (SelectReady {3} {}), sample_round SelectTimeout, sample_round (SelectReady {4} {4})]
      sample_server = Inr (True, S')"
proof -
  let ?ios = "[sample_round (SelectReady {3} {}), sample_round SelectTimeout, sample_round (SelectReady {4} {4})]"
  have "\<not> meets_hazard (dynamic_vt http_linker) http_pending ?ios S" for S
    using free_fd_valid by (intro meets_no_hazard) (simp add: m_bufSize_def)
  then show ?thesis
    using Run_exact [OF sample_start(1), of http_linker http_pending http_inv sample_init sample_cl ?ios,
        unfolded sample_ip sample_served] sample_serves sample_start sample_init_ok sample_steady sample_kernel_ok
    by (auto simp: max_open_def)
qed

text \<open>
  C11. A failed \<open>accept\<close> is not noticed where it happens and stops the server in the same round: when
  \<open>select\<close> reports a listener as readable and \<open>accept\<close> fails on it, \<open>ReadData\<close> still returns, with a
  session listed that holds the descriptor -1; \<open>SendData\<close>, whatever its set, then tests that
  descriptor in it, outside the array. The platform keeps its contract and no connection fills its
  chunk in this round.
\<close>

theorem failed_accept_is_fatal:
  assumes "server_ok (plugin_serves dl q i) q i S" and "kernel_ok q i io"
    and "length (m_sessions S) + card (acceptors S) \<le> max_open" and "selects io = SelectReady rs ws"
    and "(a, AcceptorSession l ph p) \<in> set (heap S)" and "nat (sint (m_socket l)) \<in> rs"
    and "accepts io [] (m_socket l) = kInvalidSocket"
    and "\<And>fd b. recvs io fd = Some b \<Longrightarrow> length b < m_bufSize"
  shows "\<exists>S1 b s. ReadData (dynamic_vt dl) io (set_of (idle q) S \<inter> rs) S = Inr S1 \<and> b \<in> set (m_sessions S1) \<and>
    (b, s) \<in> set (heap S1) \<and> session_handle s = kInvalidSocket \<and>
    (\<forall>w. SendData io w S1 = Inl OutOfBounds) \<and> run_round (dynamic_vt dl) io S = Inl OutOfBounds"
  by (rule dynamic_service.accept_fails [OF assms])

theorem failed_accept_is_fatal_witness:
  "run_round (dynamic_vt http_linker) ((sample_round (SelectReady {3, 4} {}))\<lparr>accepts := \<lambda>_ _. -1\<rparr>)
    (running_server HttpHandler) = Inl OutOfBounds"
proof -
  let ?io = "(sample_round (SelectReady {3, 4} {}))\<lparr>accepts := \<lambda>_ _. -1\<rparr>"
  have "kernel_ok http_pending http_inv ?io"
    using sample_kernel_ok [of "SelectReady {3, 4} {}"] by (simp add: kernel_ok_def kInvalidSocket_def)
  moreover have "server_ok (plugin_serves http_linker http_pending http_inv) http_pending http_inv (running_server HttpHandler)"
    using running_ok [of HttpHandler] running_idle by simp
  ultimately show ?thesis
    using failed_accept_is_fatal [of http_linker http_pending http_inv "running_server HttpHandler" ?io "{3, 4}" "{}"
        1 "\<lparr>m_socket = 3, m_ep = IPEndPoint_default\<rparr>" None sample_plugin] running_few [of HttpHandler]
    by (auto simp: running_server_def kInvalidSocket_def m_bufSize_def)
qed

text \<open>
  A peer that has 2048 or more bytes waiting makes the read of its connection store the
  terminator one place behind the chunk's buffer.
\<close>

theorem full_chunk_overflows:
  assumes "server_ok (plugin_serves dl q i) q i S" and "(a, ConnectionSession sk (Some h)) \<in> set (heap S)"
    and "recvs io (m_socket sk) = Some b" and "2048 \<le> length b" and "protocol_handler (handlers io) q i"
  shows "read_session (dynamic_vt dl) io a S = Inl OutOfBounds"
  using server_ok_live(4) [OF assms(1,2)] assms(3,4)
    protocol_handler.full_read_overflows [OF assms(5), of b "raw_chunk io" sk h]
  by (simp add: read_session_def session_OnRead_def m_bufSize_def)

theorem full_chunk_overflows_witness:
  "read_session (dynamic_vt http_linker) ((sample_round SelectTimeout)\<lparr>recvs := \<lambda>_. Some (replicate 2048 SP)\<rparr>) 2
     (running_server HttpHandler) = Inl OutOfBounds"
  by (rule full_chunk_overflows [OF running_ok, of HttpHandler 2 "TcpSocket 4" HttpHandler _ "replicate 2048 SP"])
    (simp_all add: running_idle running_server_def sample_round_def http_contract)

text \<open>
  C9. Sending makes progress and loses nothing: in a round where \<open>select\<close> reports a connection
  with pending data as writable and the kernel takes \<open>k > 0\<close> bytes, the connection is still there
  afterwards with exactly the first \<open>k\<close> pending bytes gone, unless the round has a hazard (a full
  chunk or a failed \<open>accept\<close> on any session), which ends it outside an array. The platform keeps its
  contract, and sessions and listeners are at most 1000.
\<close>

theorem pending_data_is_sent:
  assumes "server_ok (plugin_serves dl q i) q i S" and "kernel_ok q i io"
    and "length (m_sessions S) + card (acceptors S) \<le> max_open" and "selects io = SelectReady rs ws"
    and "(a, ConnectionSession sk (Some h)) \<in> set (heap S)" and "q h \<noteq> []"
    and "nat (sint (m_socket sk)) \<in> ws" and "sends io (m_socket sk) = Some k" and "0 < k"
  shows "if hazard q io S then run_round (dynamic_vt dl) io S = Inl OutOfBounds
    else \<exists>S' h'. run_round (dynamic_vt dl) io S = Inr (True, S') \<and>
      (a, ConnectionSession sk (Some h')) \<in> set (heap S') \<and> q h' = drop k (q h)"
proof (cases "hazard q io S")
  case True
  with dynamic_service.round_fails [OF assms(1-3)] show ?thesis by simp
next
  case False
  with dynamic_service.round_sends [OF assms(1-4) False assms(5-9)] show ?thesis by auto
qed

definition answering :: http_handler where
  "answering = HttpHandler\<lparr>hh_response := \<lparr>m_data = ''0123456789''\<rparr>\<rparr>"

lemma answering: "http_inv answering" "http_pending answering = ''0123456789''"
  by (simp_all add: answering_def http_inv_def http_pending_def HttpHandler_def)

theorem pending_data_is_sent_witness:
  "\<exists>S' h'. run_round (dynamic_vt http_linker) (sample_round (SelectReady {3} {4})) (running_server answering) =
      Inr (True, S') \<and> (2, ConnectionSession (TcpSocket 4) (Some h')) \<in> set (heap S') \<and>
    http_pending h' = ''56789''"
proof -
  have ok: "server_ok (plugin_serves http_linker http_pending http_inv) http_pending http_inv (running_server answering)"
    using running_ok [of answering] answering by simp
  show ?thesis
    using pending_data_is_sent [OF ok sample_kernel_ok running_few, of "SelectReady {3} {4}" "{3}" "{4}" 2 "TcpSocket 4"
        answering 5, OF _ running_connection, unfolded running_fd] answering
    by (simp add: sample_no_hazard)
qed

text \<open>The response of the HTTP handler to any request, as a client reads it.\<close>

definition ok_response :: "string \<Rightarrow> string" where
  "ok_response page =
     render_response OK [Header ''Content-length'' (dec_of_nat (length page)),
       Header ''Connection'' ''keep-alive'', Header ''Server'' ''PD Mod Server HTTP''] page"

text \<open>
  C4. The whole path of a request: in a round where \<open>select\<close> reports an idle HTTP connection as
  readable and some bytes have arrived on it, the connection is still there afterwards and its
  handler holds exactly the response with the page of this round's files to send, whatever the
  other sessions do, unless the round has a hazard (a full chunk of 2048 bytes on this or another
  connection, or a failed \<open>accept\<close>), which ends it outside an array. The platform keeps its
  contract, and sessions and listeners are at most 1000.
\<close>

theorem request_is_answered:
  assumes "server_ok (plugin_serves dl http_pending http_inv) http_pending http_inv S"
    and "kernel_ok http_pending http_inv io" and "handlers io = http_vt e"
    and "length (m_sessions S) + card (acceptors S) \<le> max_open" and "selects io = SelectReady rs ws"
    and "(a, ConnectionSession sk (Some h)) \<in> set (heap S)" and "http_pending h = []"
    and "nat (sint (m_socket sk)) \<in> rs" and "recvs io (m_socket sk) = Some b" and "b \<noteq> []"
  shows "if hazard http_pending io S then run_round (dynamic_vt dl) io S = Inl OutOfBounds
    else \<exists>S' h'. run_round (dynamic_vt dl) io S = Inr (True, S') \<and>
      (a, ConnectionSession sk (Some h')) \<in> set (heap S') \<and>
      http_pending h' = ok_response (page_to_send e) \<and> http_inv h'"
proof (cases "hazard http_pending io S")
  case True
  with dynamic_service.round_fails [OF assms(1,2,4)] show ?thesis by simp
next
  case False
  from dynamic_service.round_receives [OF assms(1,2,4,5) False assms(6-10)] obtain S' h' l c where
    r: "run_round (dynamic_vt dl) io S = Inr (True, S')" "(a, ConnectionSession sk (Some h')) \<in> set (heap S')"
      "DidReceive (handlers io) h c (int (length b)) = Inr (h', l)" "take (length b) (m_buffer c) = b"
      "length (m_buffer c) = m_bufSize"
      "server_ok (plugin_serves dl http_pending http_inv) http_pending http_inv S'" by blast
  have h: "http_inv h" using server_ok_live(3) [OF assms(1,6)] by simp
  have "length b \<le> length (m_buffer c)" using arg_cong [OF r(4), of length] by simp
  then have "h' = h\<lparr>hh_response := fill_response (page_to_send e) (hh_response h)\<rparr>"
    using r(3,5) assms(10) http_did_receive [OF h, of "length b" c e] assms(3)
    by (simp add: http_vt_def m_bufSize_def)
  then have "http_pending h' = ok_response (page_to_send e)"
    by (simp add: http_pending_def fill_response_eq ok_response_def)
  moreover have "http_inv h'" using server_ok_live(3) [OF r(6,2)] by simp
  ultimately show ?thesis using r(1,2) False by auto
qed

theorem request_is_answered_witness:
  "\<exists>S' h'. run_round (dynamic_vt http_linker) (sample_round (SelectReady {3, 4} {})) (running_server HttpHandler) =
      Inr (True, S') \<and> (2, ConnectionSession (TcpSocket 4) (Some h')) \<in> set (heap S') \<and>
    http_pending h' = ok_response ''hello''"
proof -
  have ok: "server_ok (plugin_serves http_linker http_pending http_inv) http_pending http_inv (running_server HttpHandler)"
    using running_ok [of HttpHandler] running_idle by simp
  have page: "page_to_send sample_env = ''hello''" by (simp add: page_to_send_def sample_env_def)
  show ?thesis
    using request_is_answered [OF ok sample_kernel_ok _ running_few, of "SelectReady {3, 4} {}" sample_env "{3, 4}" "{}" 2
        "TcpSocket 4" HttpHandler "''GET / HTTP/1.1''", OF _ _ running_connection, unfolded running_fd page] running_idle
    by (auto simp: sample_no_hazard)
qed

text \<open>
  Unloading the plugins while the server runs leaves the acceptors with dangling plugin
  pointers: the descriptors stay open and listed, and the next connection on any of them uses the
  deleted plugin.
\<close>

theorem unload_leaves_dangling_plugins:
  assumes "distinct (map fst (heap S))" and "(a, AcceptorSession l ph p) \<in> set (heap S)"
  shows "m_sessions (fst (UnloadAllPlugins S)) = m_sessions S \<and>
    open_fds (fst (UnloadAllPlugins S)) = open_fds S \<and>
    read_session pv io a (fst (UnloadAllPlugins S)) = Inl UseAfterFree"
proof -
  have "session_at S a = Inr (AcceptorSession l ph p)" by (rule session_at_live [OF assms])
  then show ?thesis
    by (simp add: UnloadAllPlugins_def UnloadAll_def open_fds_def read_session_def session_OnRead_def
        session_at_def Acceptor_OnRead_def Accept_def did_def GetPlugins_def)
qed

theorem unload_leaves_dangling_plugins_witness:
  "read_session (dynamic_vt http_linker) (sample_round SelectTimeout) 1
     (fst (UnloadAllPlugins (running_server HttpHandler))) = Inl UseAfterFree"
  using unload_leaves_dangling_plugins [of "running_server HttpHandler" 1
      "\<lparr>m_socket = 3, m_ep = IPEndPoint_default\<rparr>" None sample_plugin]
  by (simp add: running_server_def)

section \<open>A lost peer\<close>

lemma handle_gone:
  assumes "server_ok u q i S" and "(a, s) \<in> set (heap S)" and "heap S' = filter (\<lambda>e. fst e \<noteq> a) (heap S)"
  shows "session_handle s \<notin> set (open_fds S')"
proof
  assume "session_handle s \<in> set (open_fds S')"
  then obtain e where e: "e \<in> set (heap S)" "fst e \<noteq> a" "session_handle (snd e) = session_handle s"
    using assms(3) by (auto simp: open_fds_def)
  have "inj_on (\<lambda>e. session_handle (snd e)) (set (heap S))"
    using assms(1) by (simp add: server_ok_def open_fds_def distinct_map)
  from inj_onD [OF this _ e(1) assms(2)] e(2,3) show False by auto
qed

lemma dropped_output:
  assumes "drop_session a n err S = Inr S'" and "session_at S a = Inr s"
  shows "\<exists>cs line. kernel_calls S' = kernel_calls S @ cs \<and> closes cs = [session_handle s] \<and>
    server_log S' = server_log S @ [line] \<and> fst line = (if n = 0 then INFO else ERR)"
  using assms session_socket_gone_closes [of s]
  by (auto simp: drop_session_def destroy_session_def Let_def did_def say_def ReportSocketIOError_def
      bind_res_eq_Inr)

text \<open>
  C10. A peer that has closed the connection or failed: the session leaves the vector and the heap,
  its descriptor is given back to the kernel exactly once and belongs to no other session, one
  line is logged (at level INFO for an orderly close, ERROR for a failure), no other session is
  touched, and the invariant of the server still holds.
\<close>

theorem lost_connection_is_dropped:
  assumes "server_ok (plugin_serves dl q i) q i S" and "(a, ConnectionSession sk (Some h)) \<in> set (heap S)"
    and "recvs io (m_socket sk) = None \<or> recvs io (m_socket sk) = Some []" and "protocol_handler (handlers io) q i"
  shows "\<exists>S' cs line. read_session (dynamic_vt dl) io a S = Inr S' \<and>
    heap S' = filter (\<lambda>e. fst e \<noteq> a) (heap S) \<and> m_sessions S' = remove1 a (m_sessions S) \<and>
    kernel_calls S' = kernel_calls S @ cs \<and> closes cs = [m_socket sk] \<and> m_socket sk \<notin> set (open_fds S') \<and>
    server_log S' = server_log S @ [line] \<and> fst line = (if recvs io (m_socket sk) = None then ERR else INFO) \<and>
    server_ok (plugin_serves dl q i) q i S'"
proof -
  let ?s = "ConnectionSession sk (Some h) :: ('b, 'a dynamic_plugin) session"
  let ?n = "if recvs io (m_socket sk) = None then -1 else 0 :: int" and ?e = "recv_errno io (m_socket sk)"
  let ?T = "did [SysRecv (m_socket sk) (int m_bufSize)] S"
  note live = server_ok_live [OF assms(1,2)]
  have "distinct (map fst (heap S))" using assms(1) by (simp add: server_ok_def)
  then have same: "store_session a ?s S = S"
    using live_unique [OF _ assms(2)] by (auto simp: store_session_def intro!: server.equality map_idI)
  have "read_session (dynamic_vt dl) io a S = drop_session a ?n ?e ?T"
    using live(4) protocol_handler.read_stops [OF assms(4,3), of "raw_chunk io" sk h]
    by (simp add: read_session_def session_OnRead_def says_def same)
  moreover obtain S' where S': "drop_session a ?n ?e ?T = Inr S'" "server_ok (plugin_serves dl q i) q i S'"
    "heap S' = filter (\<lambda>e. fst e \<noteq> a) (heap S)" "m_sessions S' = remove1 a (m_sessions S)"
    using drop_ok [of "plugin_serves dl q i" q i ?T a sk h ?n ?e] assms(1,2) server_ok_core [OF assms(1)] by auto
  moreover have "session_at ?T a = Inr ?s" using live(4) by (simp add: session_at_def)
  from dropped_output [OF S'(1) this] have "\<exists>cs line. kernel_calls S' = kernel_calls S @ cs \<and>
      closes cs = [m_socket sk] \<and> server_log S' = server_log S @ [line] \<and>
      fst line = (if recvs io (m_socket sk) = None then ERR else INFO)"
    by (auto simp: did_def split: if_splits)
  moreover have "m_socket sk \<notin> set (open_fds S')" using handle_gone [OF assms(1,2) S'(3)] by simp
  ultimately show ?thesis by auto
qed

theorem lost_connection_is_dropped_witness:
  "\<exists>S' cs. read_session (dynamic_vt http_linker) ((sample_round SelectTimeout)\<lparr>recvs := \<lambda>_. Some []\<rparr>) 2
      (running_server HttpHandler) = Inr S' \<and> m_sessions S' = [1] \<and> kernel_calls S' = cs \<and> closes cs = [4]"
  using lost_connection_is_dropped [OF running_ok, of HttpHandler 2 "TcpSocket 4" HttpHandler
      "(sample_round SelectTimeout)\<lparr>recvs := \<lambda>_. Some []\<rparr>"] running_idle http_contract
  by (auto simp: running_server_def sample_round_def TcpSocket_def Socket_def sample_server_def Server_def)

end
