(* ===== verification/Encoding.thy ===== *)
theory Encoding
  imports Logger
begin

text \<open>
  Conversion of wide strings (\<open>base/encoding.cpp\<close>) and the stream operator for them
  (\<open>base/logger.cpp\<close>). How the locale encodes one wide character is the parameter \<open>enc\<close>;
  \<open>wcstombs\<close> is written out over it, with the array it writes to, so that a write outside the
  array is an error.
\<close>

section \<open>wcstombs\<close>

definition c_wstr :: "32 word list \<Rightarrow> 32 word list" where
  "c_wstr s = takeWhile (\<lambda>w. w \<noteq> 0) s"

text \<open>The bytes of a whole string; \<open>None\<close> when a character cannot be converted.\<close>

fun wcs_bytes :: "('w \<Rightarrow> string option) \<Rightarrow> 'w list \<Rightarrow> string option" where
  "wcs_bytes enc [] = Some []"
| "wcs_bytes enc (w # ws) =
     (case enc w of
        None \<Rightarrow> None
      | Some b \<Rightarrow> map_option (\<lambda>bs. b @ bs) (wcs_bytes enc ws))"

text \<open>
  The bytes stored for a limit of \<open>n\<close>: only whole characters, the terminator only if there is
  room for it.
\<close>

fun wcs_stored :: "('w \<Rightarrow> string option) \<Rightarrow> nat \<Rightarrow> 'w list \<Rightarrow> string" where
  "wcs_stored enc n [] = (if n = 0 then [] else [NUL])"
| "wcs_stored enc n (w # ws) =
     (case enc w of
        None \<Rightarrow> []
      | Some b \<Rightarrow> if n < length b then [] else b @ wcs_stored enc (n - length b) ws)"

definition write_array :: "string \<Rightarrow> string \<Rightarrow> string res" where
  "write_array bytes buf =
     (if length bytes \<le> length buf then Inr (bytes @ drop (length bytes) buf) else Inl OutOfBounds)"

definition set_array :: "nat \<Rightarrow> char \<Rightarrow> string \<Rightarrow> string res" where
  "set_array i c buf = (if i < length buf then Inr (buf[i := c]) else Inl OutOfBounds)"

definition string_of_array :: "nat \<Rightarrow> string \<Rightarrow> string res" where
  "string_of_array n buf = (if n \<le> length buf then Inr (take n buf) else Inl OutOfBounds)"

section \<open>UTF16ToUTF8\<close>

definition kStackBufSize :: nat where
  "kStackBufSize = 20 * 6"

text \<open>
  \<open>raw\<close> is what the heap array holds before it is written. The failed conversion, \<open>(size_t)-1\<close>,
  is \<open>None\<close>.
\<close>

definition UTF16ToUTF8 ::
  "(32 word \<Rightarrow> string option) \<Rightarrow> (nat \<Rightarrow> char) \<Rightarrow> 32 word list option \<Rightarrow> string res" where
  "UTF16ToUTF8 enc raw utf16String =
     (case utf16String of
        None \<Rightarrow> Inl AssertionFailure
      | Some s \<Rightarrow>
         (case map_option length (wcs_bytes enc (c_wstr s)) of
            None \<Rightarrow> Inr []
          | Some neededLength \<Rightarrow>
              if neededLength = 0 then Inr []
              else
                let buf = (if neededLength \<ge> kStackBufSize
                           then map raw [0..<neededLength + 1]
                           else replicate kStackBufSize NUL)
                in bind_res (write_array (wcs_stored enc neededLength (c_wstr s)) buf) (\<lambda>buf.
                   bind_res (set_array neededLength NUL buf) (\<lambda>buf.
                     string_of_array neededLength buf))))"

text \<open>\<open>out << wideStr\<close>.\<close>

definition put_wide ::
  "(32 word \<Rightarrow> string option) \<Rightarrow> (nat \<Rightarrow> char) \<Rightarrow> 32 word list option \<Rightarrow> log_state \<Rightarrow> log_state res" where
  "put_wide enc raw wideStr st = bind_res (UTF16ToUTF8 enc raw wideStr) (\<lambda>s. put s st)"

section \<open>Lemmas\<close>

lemma wcs_stored_exact: "wcs_bytes enc ws = Some bs \<Longrightarrow> wcs_stored enc (length bs) ws = bs"
  by (induction ws arbitrary: bs) (auto split: option.splits)

lemma write_array_ok: "length bytes \<le> length buf \<Longrightarrow> write_array bytes buf = Inr (bytes @ drop (length bytes) buf)"
  by (simp add: write_array_def)

lemma convert_into:
  assumes "length bs < length buf"
  shows "bind_res (write_array bs buf) (\<lambda>buf. bind_res (set_array (length bs) NUL buf)
    (string_of_array (length bs))) = Inr bs"
  using assms by (simp add: write_array_def set_array_def string_of_array_def)

section \<open>Properties\<close>

text \<open>
  The conversion is exact and never writes outside its buffer: the result is the whole
  encoding of the string up to its terminator, of any length (the 120-byte array and the heap
  array are each large enough for the bytes and the terminator), and the empty string when a
  character has no encoding; only a null pointer stops at the assertion.
\<close>

theorem UTF16ToUTF8_exact:
  "UTF16ToUTF8 enc raw p =
     (case p of
        None \<Rightarrow> Inl AssertionFailure
      | Some s \<Rightarrow> Inr (case wcs_bytes enc (c_wstr s) of None \<Rightarrow> [] | Some bs \<Rightarrow> bs))"
proof (cases p)
  case (Some s)
  show ?thesis
  proof (cases "wcs_bytes enc (c_wstr s)")
    case bs: (Some bs)
    let ?buf = "if length bs \<ge> kStackBufSize then map raw [0..<length bs + 1] else replicate kStackBufSize NUL"
    have "length bs < length ?buf" by simp
    from convert_into [OF this] show ?thesis
      using Some bs by (simp add: UTF16ToUTF8_def Let_def wcs_stored_exact)
  qed (simp add: UTF16ToUTF8_def Some)
qed (simp add: UTF16ToUTF8_def)

end
