(* ===== verification/Main_Program.thy ===== *)
theory Main_Program
  imports Server_Properties Encoding
begin

text \<open>
  The program (\<open>main.cpp\<close>): the command line, the log, and the server from loading its plugins to
  its end, with what is written and the exit code.
\<close>

section \<open>The program\<close>

text \<open>\<open>printf\<close> and \<open>std::cout\<close> write to the same stream; \<open>p_perror\<close> holds the texts given to \<open>perror\<close>.\<close>

record process =
  p_cl :: "command_line option"
  p_log :: log_state
  p_perror :: "string list"

text \<open>Everything the program gets from outside.\<close>

record ('l, 'h) world =
  w_now :: tm
  w_can_open :: "string \<Rightarrow> bool"
  w_sys :: sys_info
  w_fs :: unix_fs
  w_linker :: "('l, 'h) linker"
  w_init :: init_io
  w_rounds :: "'h round_io list"

definition usage :: string where
  "usage =
     ''-serverIp=<IP> -- IP that server will be listening on.'' @ [LF] @
     ''-pluginsFolder=<path> -- (optional) where server should look for plugins.'' @ [LF] @
     ''-logToFile -- (optional) log all output to a file.'' @ [LF]"

definition PrintUsage :: "process \<Rightarrow> process" where
  "PrintUsage st = st\<lparr>p_log := (p_log st)\<lparr>cout := cout (p_log st) @ usage\<rparr>\<rparr>"

definition perror :: "string \<Rightarrow> process \<Rightarrow> process" where
  "perror s st = st\<lparr>p_perror := p_perror st @ [s]\<rparr>"

definition log_lines :: "log_line list \<Rightarrow> process \<Rightarrow> process res" where
  "log_lines ls st = bind_res (log_all ls (p_log st)) (\<lambda>g. Inr (st\<lparr>p_log := g\<rparr>))"

text \<open>
  The block with the server: its end is reached unless the loop is still running after the given
  rounds. The destructor, called there, unloads the plugins. The libraries opened and closed
  are kept as they are.
\<close>

definition serve ::
  "('l, 'h) world \<Rightarrow> string \<Rightarrow> process \<Rightarrow> (bool \<times> 'l lib_event list \<times> process) res" where
  "serve w pluginsPath st =
     (case LoadPlugins (w_fs w) (w_linker w) pluginsPath Server of
        None \<Rightarrow> Inl NoReturn
      | Some (loaded, S, evs) \<Rightarrow>
          if loaded
          then bind_res (Run (dynamic_vt (w_linker w)) (p_cl st) (w_init w) (w_rounds w) S) (\<lambda>(running, S).
                 bind_res (log_lines (server_log S) st) (\<lambda>st.
                   Inr (running, if running then evs else evs @ snd (destroy_Server S), st)))
          else bind_res (log_lines (server_log S @ [(ERR, ''No plugins were loaded, exiting.'')]) st)
                 (\<lambda>st. Inr (False, evs @ snd (destroy_Server S), st)))"

text \<open>\<open>main\<close> after the log is open.\<close>

definition main_body ::
  "('l, 'h) world \<Rightarrow> command_line \<Rightarrow> process \<Rightarrow> (int option \<times> 'l lib_event list \<times> process) res" where
  "main_body w cl st =
     (let pluginsPath = (if HasSwitch cl ''pluginsFolder'' then SwitchValue cl ''pluginsFolder'' else ''.'') in
      if \<not> HasSwitch cl ''serverIp''
      then bind_res (log_lines [(ERR, ''Please specify server IP'' @ [LF])] st) (\<lambda>st. Inr (Some 1, [], st))
      else
      bind_res (if InitSockets = 0 then serve w pluginsPath st
                else bind_res (log_lines [(ERR, ''Sockets were not initialized.'')] st) (\<lambda>st. Inr (False, [], st)))
        (\<lambda>(running, evs, st).
          if running then Inr (None, evs, st)
          else let _ = UninitSockets in Inr (Some 0, evs, st\<lparr>p_log := UninitLog (p_log st)\<rparr>)))"

definition main ::
  "('l, 'h) world \<Rightarrow> string list \<Rightarrow> process \<Rightarrow> (int option \<times> 'l lib_event list \<times> process) res" where
  "main w argv st =
     (if length argv \<le> 1 then Inr (Some 1, [], PrintUsage st)
      else
      bind_res (Init argv (p_cl st)) (\<lambda>(fresh, cur).
      let st = st\<lparr>p_cl := cur\<rparr> in
      if \<not> fresh then Inr (Some 1, [], perror ''Command line was not initialized.'' st)
      else
      bind_res (ForCurrentProcess (p_cl st)) (\<lambda>cl.
      bind_res (InitLog (HasSwitch cl ''logToFile'') (w_now w) (w_can_open w) (w_sys w) (p_log st)) (\<lambda>(opened, g).
      let st = st\<lparr>p_log := g\<rparr> in
      if \<not> opened then Inr (Some 1, [], perror ''Log file wasn't opened'' st)
      else main_body w cl st))))"

section \<open>Lemmas\<close>

lemma LoadPlugins_fields:
  assumes "LoadPlugins fs dl p Server = Some (b, S, evs)"
  shows "heap S = []" and "m_sessions S = []" and "m_maxFd S = 0"
    and "b = (GetPlugins (m_pluginLoader S) \<noteq> [])"
  using assms
  by (auto simp: LoadPlugins_def Server_def HasLoadedPlugins_def say_def says_def GetPlugins_def split: if_splits)

lemma LoadPlugins_valid:
  assumes "LoadPlugins fs dl p Server = Some (b, S, evs)" and "x \<in> set (GetPlugins (m_pluginLoader S))"
  shows "DynamicPlugin_IsValid dl x"
proof -
  obtain st folders where st: "LoadAll fs dl p \<lparr>m_plugins = []\<rparr> = Some st"
    "m_plugins (fst st) = m_plugins \<lparr>m_plugins = []\<rparr> @ concat (map (plugin_of dl \<circ> path_string)
       (concat (map (found_in fs) (folders @ [Folder p]))))"
    by (rule LoadAll_effect [of fs p dl "\<lparr>m_plugins = []\<rparr>"]) (rule that)
  then have "m_pluginLoader S = fst st"
    using assms(1) by (cases st) (auto simp: LoadPlugins_def Server_def HasLoadedPlugins_def says_def say_def)
  with st(2) assms(2) have "x \<in> set (concat (map (plugin_of dl \<circ> path_string)
       (concat (map (found_in fs) (folders @ [Folder p])))))"
    by (simp only: GetPlugins_def plugin_loader.simps append_Nil)
  then show ?thesis by (auto dest: plugin_of_valid)
qed

text \<open>With the destructor's calls, every library that was opened is closed, as often as it was opened.\<close>

lemma LoadPlugins_balanced:
  assumes "LoadPlugins fs dl p Server = Some (b, S, evs)" and "m_pluginLoader S' = m_pluginLoader S"
  shows "mset (closed (evs @ snd (destroy_Server S'))) = mset (opened evs)"
proof -
  have nil: "m_pluginLoader Server = \<lparr>m_plugins = []\<rparr>" by (simp add: Server_def)
  obtain l lines where "LoadAll fs dl p \<lparr>m_plugins = []\<rparr> = Some (l, lines, evs)" "m_pluginLoader S = l"
    using assms(1) by (auto simp: LoadPlugins_def nil HasLoadedPlugins_def says_def say_def)
  with load_unload_balanced [of dl fs p] assms(2) show ?thesis
    by (simp add: destroy_Server_def UnloadAllPlugins_def case_prod_beta)
qed

lemma unload_opens_nothing: "opened (snd (destroy_Server S)) = []"
proof -
  have "opened (map Closed hs) = []" for hs :: "'a list" by (induction hs) simp_all
  then have "opened (concat (map (\<lambda>p. map Closed (lib_handles p)) ps)) = []" for ps :: "'a dynamic_plugin list"
    by (induction ps) simp_all
  then show ?thesis by (simp add: destroy_Server_def UnloadAllPlugins_def UnloadAll_def case_prod_beta)
qed

lemma LoadPlugins_returns: "\<exists>b S evs. LoadPlugins fs dl p Server = Some (b, S, evs)"
proof -
  obtain st where "LoadAll fs dl p \<lparr>m_plugins = []\<rparr> = Some st"
    by (rule LoadAll_effect)
  then show ?thesis by (cases st) (simp add: LoadPlugins_def Server_def HasLoadedPlugins_def)
qed

lemma log_lines_ok:
  assumes "m_logger (p_log st) = Some l"
  shows "log_lines ls st =
    Inr (st\<lparr>p_log := write_sink (m_out l) (concat (map log_line_text ls)) (p_log st)\<rparr>)"
  using assms by (simp add: log_lines_def log_all_ok)

lemma start_ok:
  assumes "argv \<noteq> []"
  shows "\<exists>cl. Init argv None = Inr (True, Some cl) \<and>
    (\<forall>n. m_switches cl n = first_value n (map c_str (tl argv)))"
  using assms
  by (auto simp: Init_def InitFromArgv_def InitFromStringVec_def fold_add_param drop_Suc split: option.splits)

lemma start_log:
  assumes "memory_fits i"
  obtains b g where "InitLog f now can_open i st = Inr (b, g)" "b = (f \<longrightarrow> can_open (FormFileName now))"
    "b \<longrightarrow> (\<exists>l. m_logger g = Some l)"
proof -
  from InitLog_ok [OF assms, of f now can_open st] obtain b g where
    g: "InitLog f now can_open i st = Inr (b, g)" "b = (f \<longrightarrow> can_open (FormFileName now))"
      "if b then map_option m_out (m_logger g) = Some (if f then LogFile (FormFileName now) else Cout) else g = st"
    by blast
  from g(3) have "b \<longrightarrow> (\<exists>l. m_logger g = Some l)" by (cases "m_logger g") (simp_all split: if_splits)
  with g(1,2) show ?thesis by (rule that)
qed

definition command_line_of :: "string list \<Rightarrow> command_line" where
  "command_line_of argv = \<lparr>m_switches = (\<lambda>n. first_value n (map c_str (tl argv)))\<rparr>"

text \<open>With an address and a usable log the program comes to the block with the server.\<close>

lemma main_serving:
  assumes "p_cl st = None" and "memory_fits (w_sys w)"
    and "first_value ''serverIp'' (map c_str (tl argv)) = Some ip"
    and "first_value ''logToFile'' (map c_str (tl argv)) = None \<or> w_can_open w (FormFileName (w_now w))"
  obtains st0 l where "p_cl st0 = Some (command_line_of argv)" "m_logger (p_log st0) = Some l"
    "main w argv st = bind_res
      (serve w (case first_value ''pluginsFolder'' (map c_str (tl argv)) of None \<Rightarrow> ''.'' | Some p \<Rightarrow> p) st0)
      (\<lambda>(running, evs, st). if running then Inr (None, evs, st) else Inr (Some 0, evs, st\<lparr>p_log := UninitLog (p_log st)\<rparr>))"
proof -
  have argv: "argv \<noteq> []" "\<not> length argv \<le> 1" using assms(3) by (cases argv; cases "tl argv"; simp)+
  define cl where "cl = command_line_of argv"
  from start_ok [OF argv(1)] obtain c where
    c: "Init argv None = Inr (True, Some c)" "\<And>n. m_switches c n = first_value n (map c_str (tl argv))" by blast
  have "c = cl" using c(2) by (intro command_line.equality) (simp_all add: cl_def command_line_of_def fun_eq_iff)
  with c have cl: "Init argv None = Inr (True, Some cl)" "\<And>n. m_switches cl n = first_value n (map c_str (tl argv))"
    by simp_all
  have ip: "HasSwitch cl ''serverIp''" using assms(3) by (simp add: HasSwitch_def cl(2))
  have path: "(if HasSwitch cl ''pluginsFolder'' then SwitchValue cl ''pluginsFolder'' else ''.'') =
      (case first_value ''pluginsFolder'' (map c_str (tl argv)) of None \<Rightarrow> ''.'' | Some p \<Rightarrow> p)"
    by (simp add: HasSwitch_def SwitchValue_def cl(2) split: option.split)
  obtain b g where g: "InitLog (HasSwitch cl ''logToFile'') (w_now w) (w_can_open w) (w_sys w) (p_log st) = Inr (b, g)"
    "b = (HasSwitch cl ''logToFile'' \<longrightarrow> w_can_open w (FormFileName (w_now w)))"
    "b \<longrightarrow> (\<exists>l. m_logger g = Some l)"
    using start_log [OF assms(2)] by blast
  have b using g(2) assms(4) by (auto simp: HasSwitch_def cl(2))
  with g(3) obtain l where l: "m_logger g = Some l" by auto
  let ?st = "st\<lparr>p_cl := Some cl, p_log := g\<rparr>"
  have "main w argv st = main_body w cl ?st"
    using argv(2) cl(1) g(1) \<open>b\<close> assms(1) by (simp add: main_def ForCurrentProcess_def)
  then show thesis
    using that [of ?st l] ip l unfolding main_body_def path Let_def by (simp add: InitSockets_def cl_def)
qed

text \<open>The server's block, over what \<open>Run\<close> gives.\<close>

lemma serve_loaded:
  assumes "LoadPlugins (w_fs w) (w_linker w) p Server = Some (True, S, evs)" and "m_logger (p_log st) = Some l"
    and "Run (dynamic_vt (w_linker w)) (p_cl st) (w_init w) (w_rounds w) S = Inr (go, S')"
  shows "\<exists>st'. serve w p st = Inr (go, if go then evs else evs @ snd (destroy_Server S'), st') \<and>
    m_logger (p_log st') = Some l"
  using assms(2) by (simp add: serve_def assms(1,3) log_lines_ok)

lemma serve_unloaded:
  assumes "LoadPlugins (w_fs w) (w_linker w) p Server = Some (False, S, evs)" and "m_logger (p_log st) = Some l"
  shows "\<exists>st'. serve w p st = Inr (False, evs @ snd (destroy_Server S), st')"
  using assms(2) by (simp add: serve_def assms(1) log_lines_ok)

lemma destroyed_balanced:
  assumes "LoadPlugins fs dl p Server = Some (b, S, evs)" and "m_pluginLoader S' = m_pluginLoader S"
  shows "mset (closed (evs @ snd (destroy_Server S'))) = mset (opened (evs @ snd (destroy_Server S')))"
  using LoadPlugins_balanced [OF assms] unload_opens_nothing [of S'] by simp

section \<open>Properties\<close>

text \<open>
  Without an address to serve on the program exits with code 1 and says why: the usage when
  it has no arguments, the failed log file when one was asked for and cannot be opened, and
  otherwise an error line at the end of the log.
\<close>

theorem main_refuses:
  assumes "p_cl st = None" and "memory_fits (w_sys w)"
    and "first_value ''serverIp'' (map c_str (tl argv)) = None"
  shows "\<exists>st'. main w argv st = Inr (Some 1, [], st') \<and>
    (if length argv \<le> 1 then cout (p_log st') = cout (p_log st) @ usage
     else if first_value ''logToFile'' (map c_str (tl argv)) \<noteq> None \<and> \<not> w_can_open w (FormFileName (w_now w))
     then p_perror st' = p_perror st @ [''Log file wasn't opened'']
     else \<exists>k text. sink_text k (p_log st') = text @ log_line_text (ERR, ''Please specify server IP'' @ [LF]))"
proof (cases "length argv \<le> 1")
  case True
  then show ?thesis by (simp add: main_def PrintUsage_def)
next
  case False
  then have "argv \<noteq> []" by auto
  from start_ok [OF this] obtain cl where
    cl: "Init argv None = Inr (True, Some cl)" "\<And>n. m_switches cl n = first_value n (map c_str (tl argv))" by blast
  have ip: "\<not> HasSwitch cl ''serverIp''" using assms(3) by (simp add: HasSwitch_def cl(2))
  have lf: "HasSwitch cl ''logToFile'' \<longleftrightarrow> first_value ''logToFile'' (map c_str (tl argv)) \<noteq> None"
    by (simp add: HasSwitch_def cl(2))
  obtain b g where g: "InitLog (HasSwitch cl ''logToFile'') (w_now w) (w_can_open w) (w_sys w) (p_log st) = Inr (b, g)"
    "b = (HasSwitch cl ''logToFile'' \<longrightarrow> w_can_open w (FormFileName (w_now w)))"
    "b \<longrightarrow> (\<exists>l. m_logger g = Some l)"
    using start_log [OF assms(2)] by blast
  show ?thesis
  proof (cases b)
    case True
    then obtain l where l: "m_logger g = Some l" using g(3) by auto
    have "main w argv st = main_body w cl (st\<lparr>p_cl := Some cl, p_log := g\<rparr>)"
      using False cl(1) g(1) True assms(1) by (simp add: main_def ForCurrentProcess_def)
    also have "\<dots> = bind_res (log_lines [(ERR, ''Please specify server IP'' @ [LF])]
        (st\<lparr>p_cl := Some cl, p_log := g\<rparr>)) (\<lambda>st. Inr (Some 1, [], st))"
      unfolding main_body_def Let_def using ip by (simp only: not_False_eq_True if_True)
    finally have "\<exists>st'. main w argv st = Inr (Some 1, [], st') \<and>
        sink_text (m_out l) (p_log st') = sink_text (m_out l) g @ log_line_text (ERR, ''Please specify server IP'' @ [LF])"
      using l by (simp add: log_lines_ok sink_text_write)
    then show ?thesis using False True g(2) lf by auto
  next
    case nb: False
    have "main w argv st = Inr (Some 1, [], perror ''Log file wasn't opened'' (st\<lparr>p_cl := Some cl, p_log := g\<rparr>))"
      using False cl(1) g(1) nb assms(1) by (simp add: main_def ForCurrentProcess_def)
    then show ?thesis using False nb g(2) lf by (simp add: perror_def)
  qed
qed

definition idle_process :: process where
  "idle_process = \<lparr>p_cl = None, p_log = no_log, p_perror = []\<rparr>"

definition sample_world :: "(string, http_handler) world" where
  "sample_world = \<lparr>w_now = sample_time, w_can_open = (\<lambda>_. False), w_sys = sample_info, w_fs = sample_fs,
     w_linker = http_linker, w_init = sample_init,
     w_rounds = [sample_round (SelectReady {3} {}), sample_round (SelectFailed 4)]\<rparr>"

lemma sample_memory: "memory_fits sample_info"
  by (simp add: memory_fits_def sample_info_def)

theorem main_refuses_witness:
  "\<exists>st'. main sample_world [''mod_server'', ''-logToFile''] idle_process = Inr (Some 1, [], st') \<and>
    p_perror st' = [''Log file wasn't opened'']"
proof -
  have "ParseSwitch (c_str ''-logToFile'') = Some (''logToFile'', [])" by code_simp
  then show ?thesis
    using main_refuses [of idle_process sample_world "[''mod_server'', ''-logToFile'']"] sample_memory
    by (simp add: idle_process_def sample_world_def)
qed

text \<open>
  C12. A whole run of the program, exactly. It is started with an address of 1 to 18 characters, and
  with a log file that can be opened when one is asked for; memory sizes fit their fields; every
  library accepted as a plugin keeps the interface; the start and the rounds keep the platform's
  contracts (\<open>init_ok\<close>, \<open>kernel_ok\<close>); and the \<open>n\<close> plugins and \<open>k\<close> rounds satisfy \<open>n + k * n \<le> 1000\<close>.
  Then the program ends with code 0 at once when no plugin was loaded or no listener could be
  started. It goes wrong exactly when one of the rounds has a hazard (a full chunk or a failed
  \<open>accept\<close>). Otherwise it is still serving after the rounds, with the log open, exactly when no
  \<open>select\<close> failed, and has ended with code 0 when one did. Whenever it ends, the log is closed and
  every library that was opened has been closed as often as it was opened.
\<close>

theorem main_exact:
  assumes "p_cl st = None" and "memory_fits (w_sys w)"
    and "first_value ''serverIp'' (map c_str (tl argv)) = Some ip" and "0 < length ip" and "length ip < 19"
    and "first_value ''logToFile'' (map c_str (tl argv)) = None \<or> w_can_open w (FormFileName (w_now w))"
    and "LoadPlugins (w_fs w) (w_linker w)
      (case first_value ''pluginsFolder'' (map c_str (tl argv)) of None \<Rightarrow> ''.'' | Some p \<Rightarrow> p) Server =
        Some (loaded, S, evs)"
    and "\<And>p. DynamicPlugin_IsValid (w_linker w) p \<Longrightarrow> plugin_serves (w_linker w) q i p"
    and "init_ok (w_init w)" and "\<And>fds k. listener_starts (w_init w) fds k = listener_starts (w_init w) [] k"
    and "list_all (kernel_ok q i) (w_rounds w)"
    and "length (GetPlugins (m_pluginLoader S)) +
      length (w_rounds w) * length (GetPlugins (m_pluginLoader S)) \<le> max_open"
  shows "\<exists>S1. InitPlugins (dynamic_vt (w_linker w)) (Some (command_line_of argv)) (w_init w) S = Inr S1 \<and>
    loaded = (GetPlugins (m_pluginLoader S) \<noteq> []) \<and>
    (if loaded \<and> m_sessions S1 \<noteq> [] \<and> meets_hazard (dynamic_vt (w_linker w)) q (w_rounds w) S1
     then main w argv st = Inl OutOfBounds
     else if loaded \<and> m_sessions S1 \<noteq> [] \<and> (\<forall>io \<in> set (w_rounds w). \<forall>e. selects io \<noteq> SelectFailed e)
     then \<exists>st'. main w argv st = Inr (None, evs, st') \<and> m_logger (p_log st') \<noteq> None
     else \<exists>evs' st'. main w argv st = Inr (Some 0, evs', st') \<and> m_logger (p_log st') = None \<and>
       mset (closed evs') = mset (opened evs'))"
proof -
  let ?dl = "w_linker w" and ?ps = "GetPlugins (m_pluginLoader S)" and ?cl = "command_line_of argv"
  let ?path = "case first_value ''pluginsFolder'' (map c_str (tl argv)) of None \<Rightarrow> ''.'' | Some p \<Rightarrow> p"
  let ?go = "\<forall>io \<in> set (w_rounds w). \<forall>e. selects io \<noteq> SelectFailed e"
  obtain st0 l where st0: "p_cl st0 = Some ?cl" "m_logger (p_log st0) = Some l"
    and main: "main w argv st = bind_res (serve w ?path st0)
      (\<lambda>(running, evs, st). if running then Inr (None, evs, st) else Inr (Some 0, evs, st\<lparr>p_log := UninitLog (p_log st)\<rparr>))"
    using main_serving [OF assms(1,2,3,6)] by blast
  have ip: "SwitchValue ?cl ''serverIp'' = ip" using assms(3) by (simp add: SwitchValue_def command_line_of_def)
  note new = LoadPlugins_fields [OF assms(7)]
  have valid: "\<forall>p \<in> set ?ps. p \<in> set ?ps \<and> plugin_serves ?dl q i p"
    using LoadPlugins_valid [OF assms(7)] assms(8) by blast
  have ok: "server_ok (plugin_serves ?dl q i) q i S" using new(1-3) by (simp add: server_ok_def open_fds_def)
  have ios: "\<forall>io \<in> set (w_rounds w). kernel_ok q i io" using assms(11) by (simp add: list_all_iff)
  let ?run = "Run (dynamic_vt ?dl) (Some ?cl) (w_init w) (w_rounds w) S"
  from dynamic_service.run_effect [OF ok assms(9) valid refl, of ?cl, unfolded ip, OF assms(4,5,10) new(1,2) ios assms(12)]
  obtain S1 where S1: "InitPlugins (dynamic_vt ?dl) (Some ?cl) (w_init w) S = Inr S1"
      "m_pluginLoader S1 = m_pluginLoader S"
    and run: "if m_sessions S1 = [] then ?run = Inr (False, say WARN ''No sessions were registered.'' S1)
      else if meets_hazard (dynamic_vt ?dl) q (w_rounds w) S1 then ?run = Inl OutOfBounds
      else \<exists>S'. ?run = Inr (?go, S') \<and> server_ok (plugin_serves ?dl q i) q i S' \<and> acceptors S' = acceptors S1 \<and>
        m_pluginLoader S' = m_pluginLoader S"
    by blast
  have served: "\<exists>evs' st'. main w argv st = Inr (if running then None else Some 0, evs', st') \<and>
      (if running then evs' = evs \<and> m_logger (p_log st') \<noteq> None
       else m_logger (p_log st') = None \<and> mset (closed evs') = mset (opened evs'))"
    if "loaded" "?run = Inr (running, S')" "m_pluginLoader S' = m_pluginLoader S" for running S'
    using serve_loaded [of w ?path S evs st0 l running S', unfolded st0(1)] that assms(7) st0(2)
      destroyed_balanced [OF assms(7) that(3)]
    by (cases running) (auto simp: main UninitLog_def)
  consider "\<not> loaded" | "loaded" "m_sessions S1 = []"
    | "loaded" "m_sessions S1 \<noteq> []" "meets_hazard (dynamic_vt ?dl) q (w_rounds w) S1"
    | "loaded" "m_sessions S1 \<noteq> []" "\<not> meets_hazard (dynamic_vt ?dl) q (w_rounds w) S1" by blast
  then have "if loaded \<and> m_sessions S1 \<noteq> [] \<and> meets_hazard (dynamic_vt ?dl) q (w_rounds w) S1
    then main w argv st = Inl OutOfBounds
    else if loaded \<and> m_sessions S1 \<noteq> [] \<and> ?go
    then \<exists>st'. main w argv st = Inr (None, evs, st') \<and> m_logger (p_log st') \<noteq> None
    else \<exists>evs' st'. main w argv st = Inr (Some 0, evs', st') \<and> m_logger (p_log st') = None \<and>
      mset (closed evs') = mset (opened evs')"
  proof cases
    case 1
    with serve_unloaded [of w ?path S evs st0 l] assms(7) st0(2) destroyed_balanced [OF assms(7) refl]
    show ?thesis by (auto simp: main UninitLog_def)
  next
    case 2
    with run served [of False "say WARN ''No sessions were registered.'' S1"] S1(2) show ?thesis by simp
  next
    case 3
    with run assms(7) st0 show ?thesis by (simp add: main serve_def)
  next
    case 4
    with run obtain S' where "?run = Inr (?go, S')" "m_pluginLoader S' = m_pluginLoader S" by auto
    from served [OF 4(1) this] 4 show ?thesis by (auto split: if_splits)
  qed
  then show ?thesis using S1(1) new(4) by blast
qed

lemma sample_loads:
  "\<exists>S evs. LoadPlugins sample_fs http_linker ''dir'' Server = Some (True, S, evs) \<and>
    length (GetPlugins (m_pluginLoader S)) = 2"
proof -
  have "plugin_of http_linker f = [DynamicPlugin (Some \<lparr>m_handle = c_str f\<rparr>)]" for f
    using dynamic.valid [OF http_usable [of http_linker "c_str f"]] by (simp add: plugin_of_def http_linker_def)
  then obtain l' lines evs where
    "LoadAll sample_fs http_linker ''dir'' \<lparr>m_plugins = []\<rparr> = Some (l', lines, evs)"
    "length (GetPlugins l') = 2"
    using LoadAll_displayed [OF sample_displayed [unfolded sample_tree_def], of http_linker "\<lparr>m_plugins = []\<rparr>"]
    by (auto simp: files_in_def sample_fs_def ends_with_def plugin_wildcard_def kDllExt_def child_def
        GetPlugins_def Server_def)
  then show ?thesis
    by (auto simp: LoadPlugins_def Server_def HasLoadedPlugins_def GetPlugins_def says_def say_def)
qed

lemma http_linker_serves:
  assumes "DynamicPlugin_IsValid http_linker p"
  shows "plugin_serves http_linker http_pending http_inv p"
proof -
  from assms obtain lib where "m_lib p = Some lib" by (auto simp: DynamicPlugin_IsValid_def split: option.splits)
  then have "p = DynamicPlugin (Some \<lparr>m_handle = m_handle lib\<rparr>)" by (simp add: DynamicPlugin_def)
  then show ?thesis using http_plugin_usable [of http_linker "m_handle lib"] by (simp add: http_linker_def)
qed

theorem main_exact_witness:
  "\<exists>evs st'. main sample_world [''mod_server'', ''-serverIp=127.0.0.1'', ''-pluginsFolder=dir''] idle_process =
      Inr (Some 0, evs, st') \<and> m_logger (p_log st') = None \<and> mset (closed evs) = mset (opened evs)"
proof -
  let ?argv = "[''mod_server'', ''-serverIp=127.0.0.1'', ''-pluginsFolder=dir'']"
  have sw: "ParseSwitch (c_str ''-serverIp=127.0.0.1'') = Some (''serverIp'', ''127.0.0.1'')"
    "ParseSwitch (c_str ''-pluginsFolder=dir'') = Some (''pluginsFolder'', ''dir'')" by code_simp+
  then have v: "first_value ''serverIp'' (map c_str (tl ?argv)) = Some ''127.0.0.1''"
    "first_value ''logToFile'' (map c_str (tl ?argv)) = None"
    "first_value ''pluginsFolder'' (map c_str (tl ?argv)) = Some ''dir''" by simp_all
  from sample_loads obtain S evs where
    S: "LoadPlugins sample_fs http_linker ''dir'' Server = Some (True, S, evs)"
      "length (GetPlugins (m_pluginLoader S)) = 2" by blast
  have w: "w_fs sample_world = sample_fs" "w_linker sample_world = http_linker" "w_init sample_world = sample_init"
    "w_sys sample_world = sample_info" "length (w_rounds sample_world) = 2"
    by (simp_all add: sample_world_def)
  have rounds: "list_all (kernel_ok http_pending http_inv) (w_rounds sample_world)"
    "\<not> meets_hazard (dynamic_vt http_linker) http_pending (w_rounds sample_world) S1"
    "(\<forall>io \<in> set (w_rounds sample_world). \<forall>e. selects io \<noteq> SelectFailed e) = False" for S1
    using free_fd_valid meets_no_hazard [of "w_rounds sample_world"]
    by (auto simp: sample_world_def sample_kernel_ok m_bufSize_def)
  have fresh: "p_cl idle_process = None" by (simp add: idle_process_def)
  show ?thesis
    using main_exact [OF fresh, of sample_world ?argv "''127.0.0.1''" True S evs http_pending http_inv,
        unfolded w v rounds(3), OF sample_memory refl] S http_linker_serves sample_init_ok sample_steady rounds(1,2)
    by (auto simp: max_open_def)
qed

end
