(* ===== verification/Controller.thy ===== *)
theory Controller
  imports Server_Properties
begin

text \<open>
  The controller plugin (\<open>server_plugin/controller/\<close>): a built-in plugin whose connections take
  text lines as commands. Its sources name an older interface of the server and are not part of
  the build; the model follows them as they are written.
\<close>

section \<open>The handler\<close>

record controller_handler =
  m_line :: string

definition ControllerHandler :: controller_handler where
  "ControllerHandler = \<lparr>m_line = []\<rparr>"

definition unload_command :: string where
  "unload_command = ''Unload all plugins'' @ [CR, LF]"

text \<open>
  \<open>DidReceive\<close> appends the C string it is given; a line end at the end of what has come so far
  completes the message, which is logged, compared and dropped. The result says whether the
  server is to unload its plugins.
\<close>

definition Controller_DidReceive ::
  "string \<Rightarrow> controller_handler \<Rightarrow> controller_handler \<times> log_line list \<times> bool" where
  "Controller_DidReceive data h =
     (let d = m_line h @ c_str data in
      if d \<noteq> []
      then if last d = LF
           then (h\<lparr>m_line := []\<rparr>, [(INFO, ''Message from controller: '' @ c_str d)], d = unload_command)
           else (h\<lparr>m_line := d\<rparr>, [], False)
      else (h\<lparr>m_line := d\<rparr>, [], False))"

definition Controller_HasDataToSend :: "controller_handler \<Rightarrow> bool" where
  "Controller_HasDataToSend h = False"

definition Controller_DidSend :: "int \<Rightarrow> controller_handler \<Rightarrow> controller_handler" where
  "Controller_DidSend n h = h"

definition Controller_data_to_send :: "controller_handler \<Rightarrow> string option" where
  "Controller_data_to_send h = None"

definition Controller_data_to_send_size :: "controller_handler \<Rightarrow> nat" where
  "Controller_data_to_send_size h = 0"

section \<open>The plugin\<close>

definition Controller_ip_endpoint :: "ip_endpoint \<Rightarrow> ip_endpoint res" where
  "Controller_ip_endpoint ep =
     bind_res (set_ip ''127.0.0.1'' ep) (\<lambda>ep. Inr (set_port 2563 ep))"

definition Controller_sock_type :: sock_type where
  "Controller_sock_type = TCP"

definition Controller_name :: string where
  "Controller_name = ''Controller''"

definition Controller_NewProtocolHandler :: controller_handler where
  "Controller_NewProtocolHandler = ControllerHandler"

section \<open>A sequence of reads\<close>

text \<open>
  The chunks of a connection, one call each, and the effect on the server: a command unloads its
  plugins.
\<close>

fun controller_run ::
  "string list \<Rightarrow> controller_handler \<Rightarrow> ('h, 'l dynamic_plugin) server \<Rightarrow>
     controller_handler \<times> ('h, 'l dynamic_plugin) server" where
  "controller_run [] h S = (h, S)"
| "controller_run (d # ds) h S =
     (case Controller_DidReceive d h of
        (h, lines, unload) \<Rightarrow>
          controller_run ds h
            (let S = says lines S in if unload then fst (UnloadAllPlugins S) else S))"

lemma controller_partial:
  assumes "m_line h @ c_str d \<noteq> []" and "last (m_line h @ c_str d) \<noteq> LF"
  shows "Controller_DidReceive d h = (h\<lparr>m_line := m_line h @ c_str d\<rparr>, [], False)"
  using assms by (simp add: Controller_DidReceive_def Let_def)

lemma says_Nil [simp]: "says [] S = S"
  by (simp add: says_def)

text \<open>
  How the network cuts a message into chunks does not matter: when no chunk but the last ends
  at a line end, the chunks have together the effect of the whole text given at once, provided
  the text has no zero byte.
\<close>

theorem controller_fragments:
  assumes "NUL \<notin> set (concat ds)" and "NUL \<notin> set d" and "\<forall>x \<in> set ds. x \<noteq> [] \<and> last x \<noteq> LF"
    and "d \<noteq> []"
  shows "controller_run (ds @ [d]) h S = controller_run [concat ds @ d] h S"
  using assms(1,3)
proof (induction ds arbitrary: h)
  case (Cons x ds)
  let ?h = "h\<lparr>m_line := m_line h @ x\<rparr>"
  have x: "c_str x = x" "c_str (concat ds @ d) = concat ds @ d" "c_str (x @ concat ds @ d) = x @ concat ds @ d"
    using Cons.prems assms(2) by (simp_all add: c_str_id)
  have "Controller_DidReceive x h = (?h, [], False)"
    using controller_partial [of h x] Cons.prems(2) x(1) by simp
  then have "controller_run ((x # ds) @ [d]) h S = controller_run (ds @ [d]) ?h S" by simp
  also have "\<dots> = controller_run [concat ds @ d] ?h S" using Cons.prems by (intro Cons.IH) auto
  also have "\<dots> = controller_run [concat (x # ds) @ d] h S"
    using assms(4) by (simp add: Controller_DidReceive_def Let_def x)
  finally show ?case .
qed simp

theorem controller_fragments_witness:
  "controller_run [''Unload all'', '' plugins'' @ [CR, LF]] ControllerHandler (running_server HttpHandler) =
   controller_run [''Unload all plugins'' @ [CR, LF]] ControllerHandler (running_server HttpHandler)"
  using controller_fragments [of "[''Unload all'']" "'' plugins'' @ [CR, LF]" ControllerHandler
      "running_server HttpHandler"] by simp

text \<open>
  A command is obeyed exactly when it is a message of its own: a text that comes after a
  completed message unloads the plugins if it is the command with its line end, and a text that
  ends in a line end and is anything else is only logged; either way nothing is kept of it.
\<close>

theorem controller_command:
  assumes "NUL \<notin> set d" and "d \<noteq> []" and "last d = LF"
  shows "controller_run [d] ControllerHandler S =
    (ControllerHandler,
     if d = unload_command then fst (UnloadAllPlugins (say INFO (''Message from controller: '' @ d) S))
     else say INFO (''Message from controller: '' @ d) S)"
  using assms by (simp add: Controller_DidReceive_def ControllerHandler_def Let_def c_str_id says_def say_def)

theorem controller_command_witness:
  "GetPlugins (m_pluginLoader (snd (controller_run [unload_command] ControllerHandler
     (running_server HttpHandler)))) = []"
  using controller_command [of unload_command "running_server HttpHandler"]
  by (simp add: unload_command_def UnloadAllPlugins_def UnloadAll_def GetPlugins_def)

end
