(* ===== verification/Gtest_Regex.thy ===== *)
theory Gtest_Regex
  imports Prelude
begin

text \<open>
  The simple regular expressions of the unit-test framework (\<open>gtest/src/gtest-port.cc\<close>, the branch
  \<open>GTEST_USES_SIMPLE_RE\<close>): the check of a pattern, the recursive matcher and the class \<open>RE\<close>. A
  \<open>const char*\<close> is the list of the characters up to its terminator, advancing it drops from the
  list; reading behind the terminator is \<open>OutOfBounds\<close>. The specification is a syntax tree with
  its printed form and its language.
\<close>

section \<open>Character classes\<close>

definition IsInSet :: "char \<Rightarrow> string \<Rightarrow> bool" where
  "IsInSet ch str \<longleftrightarrow> ch \<noteq> NUL \<and> ch \<in> set str"

definition in_range :: "char \<Rightarrow> char \<Rightarrow> char \<Rightarrow> bool" where
  "in_range lo ch hi \<longleftrightarrow> (of_char lo :: nat) \<le> of_char ch \<and> (of_char ch :: nat) \<le> of_char hi"

definition IsAsciiDigit :: "char \<Rightarrow> bool" where
  "IsAsciiDigit ch \<longleftrightarrow> in_range CHR ''0'' ch CHR ''9''"

definition IsAsciiPunct :: "char \<Rightarrow> bool" where
  "IsAsciiPunct ch \<longleftrightarrow>
     IsInSet ch (''^-!'' @ [CHR 0x22] @ ''#$%&'' @ [CHR 0x27] @ ''()*+,./:;<=>?@['' @ [CHR 0x5C] @ '']_'' @
       [CHR 0x60] @ ''{|}~'')"

definition IsRepeat :: "char \<Rightarrow> bool" where
  "IsRepeat ch \<longleftrightarrow> IsInSet ch ''?*+''"

definition IsAsciiWhiteSpace :: "char \<Rightarrow> bool" where
  "IsAsciiWhiteSpace ch \<longleftrightarrow> IsInSet ch [SP, CHR 0x0C, LF, CR, CHR 0x09, CHR 0x0B]"

definition IsAsciiWordChar :: "char \<Rightarrow> bool" where
  "IsAsciiWordChar ch \<longleftrightarrow>
     in_range CHR ''a'' ch CHR ''z'' \<or> in_range CHR ''A'' ch CHR ''Z'' \<or>
     in_range CHR ''0'' ch CHR ''9'' \<or> ch = CHR ''_''"

definition IsValidEscape :: "char \<Rightarrow> bool" where
  "IsValidEscape c \<longleftrightarrow> IsAsciiPunct c \<or> IsInSet c ''dDfnrsStvwW''"

definition AtomMatchesChar :: "bool \<Rightarrow> char \<Rightarrow> char \<Rightarrow> bool" where
  "AtomMatchesChar escaped pattern_char ch \<longleftrightarrow>
     (if escaped then
        if pattern_char = CHR ''d'' then IsAsciiDigit ch
        else if pattern_char = CHR ''D'' then \<not> IsAsciiDigit ch
        else if pattern_char = CHR ''f'' then ch = CHR 0x0C
        else if pattern_char = CHR ''n'' then ch = LF
        else if pattern_char = CHR ''r'' then ch = CR
        else if pattern_char = CHR ''s'' then IsAsciiWhiteSpace ch
        else if pattern_char = CHR ''S'' then \<not> IsAsciiWhiteSpace ch
        else if pattern_char = CHR ''t'' then ch = CHR 0x09
        else if pattern_char = CHR ''v'' then ch = CHR 0x0B
        else if pattern_char = CHR ''w'' then IsAsciiWordChar ch
        else if pattern_char = CHR ''W'' then \<not> IsAsciiWordChar ch
        else IsAsciiPunct pattern_char \<and> pattern_char = ch
      else (pattern_char = CHR ''.'' \<and> ch \<noteq> LF) \<or> pattern_char = ch)"

section \<open>The check of a pattern\<close>

definition FormatRegexSyntaxError :: "string \<Rightarrow> nat \<Rightarrow> string" where
  "FormatRegexSyntaxError regex index =
     ''Syntax error at index '' @ dec_of_nat index @ '' in simple regular expression \"'' @ regex @ ''\": ''"

text \<open>
  The failure a character that is not an escape sequence gives, if any: \<open>rest\<close> is what follows it.
\<close>

definition char_failure :: "string \<Rightarrow> nat \<Rightarrow> bool \<Rightarrow> char \<Rightarrow> string \<Rightarrow> string option" where
  "char_failure regex i prev_repeatable ch rest =
     (if ch = CHR ''^'' \<and> i > 0 then
        Some (FormatRegexSyntaxError regex i @ [CHR 0x27] @ ''^'' @ [CHR 0x27] @ '' can only appear at the beginning.'')
      else if ch = CHR ''$'' \<and> rest \<noteq> [] then
        Some (FormatRegexSyntaxError regex i @ [CHR 0x27] @ ''$'' @ [CHR 0x27] @ '' can only appear at the end.'')
      else if IsInSet ch ''()[]{}|'' then
        Some (FormatRegexSyntaxError regex i @ [CHR 0x27, ch, CHR 0x27] @ '' is unsupported.'')
      else if IsRepeat ch \<and> \<not> prev_repeatable then
        Some (FormatRegexSyntaxError regex i @ [CHR 0x27, ch, CHR 0x27] @ '' can only follow a repeatable token.'')
      else None)"

text \<open>The loop: the index, whether a repetition can follow, and what is left of the pattern.\<close>

fun validate_loop :: "string \<Rightarrow> nat \<Rightarrow> bool \<Rightarrow> string \<Rightarrow> bool \<times> string list" where
  "validate_loop regex i prev_repeatable [] = (True, [])"
| "validate_loop regex i prev_repeatable (ch # rest) =
     (if ch = CHR 0x5C then
        (case rest of
           [] \<Rightarrow> (False, [FormatRegexSyntaxError regex i @ [CHR 0x27, CHR 0x5C, CHR 0x27] @ '' cannot appear at the end.''])
         | c # rest' \<Rightarrow>
             (case validate_loop regex (i + 2) True rest' of (v, msgs) \<Rightarrow>
                if IsValidEscape c then (v, msgs)
                else (False, (FormatRegexSyntaxError regex i @ ''invalid escape sequence \"'' @ [CHR 0x5C, c] @ ''\".'') # msgs)))
      else
        (case validate_loop regex (i + 1) (\<not> IsInSet ch ''^$?*+'') rest of (v, msgs) \<Rightarrow>
           case char_failure regex i prev_repeatable ch rest of
             None \<Rightarrow> (v, msgs)
           | Some msg \<Rightarrow> (False, msg # msgs)))"

definition ValidateRegex :: "string option \<Rightarrow> bool \<times> string list" where
  "ValidateRegex regex =
     (case regex of
        None \<Rightarrow> (False, [''NULL is not a valid simple regular expression.''])
      | Some r \<Rightarrow> validate_loop r 0 False r)"

section \<open>The matcher\<close>

text \<open>
  \<open>size_t\<close> has 64 bits. The loop over \<open>i\<close> in \<open>MatchRepetitionAndRegexAtHead\<close> holds \<open>str + i\<close>; an
  escape needs the character behind the backslash and the one behind that.
\<close>

definition max_repeat :: "char \<Rightarrow> nat" where
  "max_repeat repeat = (if repeat = CHR ''?'' then 1 else 2 ^ 64 - 2)"

definition min_repeat :: "char \<Rightarrow> nat" where
  "min_repeat repeat = (if repeat = CHR ''+'' then 1 else 0)"

function (sequential)
  MatchRepetitionAndRegexAtHead :: "bool \<Rightarrow> char \<Rightarrow> char \<Rightarrow> string \<Rightarrow> nat \<Rightarrow> string \<Rightarrow> bool res" and
  MatchRegexAtHead :: "string \<Rightarrow> string \<Rightarrow> bool res" where
  "MatchRepetitionAndRegexAtHead escaped c repeat regex i str =
     (if i > max_repeat repeat then Inr False
      else bind_res (if i \<ge> min_repeat repeat then MatchRegexAtHead regex str else Inr False) (\<lambda>m.
        if m then Inr True
        else case str of
          [] \<Rightarrow> Inr False
        | ch # str' \<Rightarrow>
            if \<not> AtomMatchesChar escaped c ch then Inr False
            else MatchRepetitionAndRegexAtHead escaped c repeat regex (i + 1) str'))"
| "MatchRegexAtHead [] str = Inr True"
| "MatchRegexAtHead (r # rs) str =
     (if r = CHR ''$'' then Inr (str = [])
      else let escaped = (r = CHR 0x5C) in
      case (if escaped then rs else r # rs) of
        [] \<Rightarrow> Inl OutOfBounds
      | c # rest \<Rightarrow>
          (case rest of
             repeat # rest' \<Rightarrow>
               if IsRepeat repeat then MatchRepetitionAndRegexAtHead escaped c repeat rest' 0 str
               else (case str of
                       [] \<Rightarrow> Inr False
                     | ch # str' \<Rightarrow> if AtomMatchesChar escaped c ch then MatchRegexAtHead rest str' else Inr False)
           | [] \<Rightarrow> (case str of
                       [] \<Rightarrow> Inr False
                     | ch # str' \<Rightarrow> if AtomMatchesChar escaped c ch then MatchRegexAtHead rest str' else Inr False)))"
  by pat_completeness auto

termination
  by (relation "inv_image (less_than <*lex*> less_than <*lex*> less_than)
      (\<lambda>x. case x of Inl (e, c, r, regex, i, str) \<Rightarrow> (length regex, 1::nat, length str)
                   | Inr (regex, str) \<Rightarrow> (length regex, 0, length str))")
    (auto split: if_splits)

declare MatchRepetitionAndRegexAtHead.simps [simp del] MatchRegexAtHead.simps [simp del]

text \<open>The \<open>do\<close> loop tries every suffix, the empty one included.\<close>

fun match_suffixes :: "string \<Rightarrow> string \<Rightarrow> bool res" where
  "match_suffixes regex str =
     bind_res (MatchRegexAtHead regex str) (\<lambda>m.
       if m then Inr True
       else case str of [] \<Rightarrow> Inr False | _ # str' \<Rightarrow> match_suffixes regex str')"

definition MatchRegexAnywhere :: "string option \<Rightarrow> string option \<Rightarrow> bool res" where
  "MatchRegexAnywhere regex str =
     (case (regex, str) of
        (Some r, Some s) \<Rightarrow>
          (case r of
             c # r' \<Rightarrow> if c = CHR ''^'' then MatchRegexAtHead r' s else match_suffixes r s
           | [] \<Rightarrow> match_suffixes r s)
      | _ \<Rightarrow> Inr False)"

section \<open>The class RE\<close>

record re =
  re_pattern :: "string option"
  re_full_pattern :: "string option"
  re_is_valid :: bool

definition RE_Init :: "string option \<Rightarrow> re \<times> string list" where
  "RE_Init regex =
     (case ValidateRegex regex of (ok, msgs) \<Rightarrow>
       (\<lparr>re_pattern = regex,
         re_full_pattern =
           (case regex of
              Some r \<Rightarrow>
                if ok then Some ((if r = [] \<or> hd r \<noteq> CHR ''^'' then ''^'' else []) @ r @
                                 (if r = [] \<or> last r \<noteq> CHR ''$'' then ''$'' else []))
                else None
            | None \<Rightarrow> None),
         re_is_valid = ok\<rparr>, msgs))"

definition RE_FullMatch :: "string option \<Rightarrow> re \<Rightarrow> bool res" where
  "RE_FullMatch str re = (if re_is_valid re then MatchRegexAnywhere (re_full_pattern re) str else Inr False)"

definition RE_PartialMatch :: "string option \<Rightarrow> re \<Rightarrow> bool res" where
  "RE_PartialMatch str re = (if re_is_valid re then MatchRegexAnywhere (re_pattern re) str else Inr False)"

section \<open>Patterns as syntax trees\<close>

text \<open>
  A pattern is a sequence of atoms, each with a repetition, between two optional anchors.
\<close>

datatype re_atom = Plain char | Escaped char

datatype re_repeat = Once | Optional | Any_Number | At_Least_One

type_synonym re_piece = "re_atom \<times> re_repeat"

fun atom_matches :: "re_atom \<Rightarrow> char \<Rightarrow> bool" where
  "atom_matches (Plain c) ch = AtomMatchesChar False c ch"
| "atom_matches (Escaped c) ch = AtomMatchesChar True c ch"

fun count_ok :: "re_repeat \<Rightarrow> nat \<Rightarrow> bool" where
  "count_ok Once n = (n = 1)"
| "count_ok Optional n = (n \<le> 1)"
| "count_ok Any_Number n = True"
| "count_ok At_Least_One n = (n \<ge> 1)"

fun re_lang :: "re_piece list \<Rightarrow> string set" where
  "re_lang [] = {[]}"
| "re_lang ((a, r) # ps) = {u @ v | u v. list_all (atom_matches a) u \<and> count_ok r (length u) \<and> v \<in> re_lang ps}"

fun atom_text :: "re_atom \<Rightarrow> string" where
  "atom_text (Plain c) = [c]"
| "atom_text (Escaped c) = [CHR 0x5C, c]"

fun repeat_text :: "re_repeat \<Rightarrow> string" where
  "repeat_text Once = []"
| "repeat_text Optional = ''?''"
| "repeat_text Any_Number = ''*''"
| "repeat_text At_Least_One = ''+''"

fun pieces_text :: "re_piece list \<Rightarrow> string" where
  "pieces_text [] = []"
| "pieces_text ((a, r) # ps) = atom_text a @ repeat_text r @ pieces_text ps"

definition anchor :: "char \<Rightarrow> bool \<Rightarrow> string" where
  "anchor c b = (if b then [c] else [])"

definition regex_text :: "bool \<Rightarrow> re_piece list \<Rightarrow> bool \<Rightarrow> string" where
  "regex_text b ps e = anchor CHR ''^'' b @ pieces_text ps @ anchor CHR ''$'' e"

fun atom_ok :: "re_atom \<Rightarrow> bool" where
  "atom_ok (Plain c) = (c \<notin> set ''^$()[]{}|?*+'' \<and> c \<noteq> CHR 0x5C)"
| "atom_ok (Escaped c) = IsValidEscape c"

definition pieces_ok :: "re_piece list \<Rightarrow> bool" where
  "pieces_ok ps = list_all (\<lambda>p. atom_ok (fst p)) ps"

lemma pieces_ok_simps [simp]:
  "pieces_ok []" "pieces_ok ((a, r) # ps) \<longleftrightarrow> atom_ok a \<and> pieces_ok ps"
  by (simp_all add: pieces_ok_def)

section \<open>The matcher decides the language\<close>

lemma IsInSet_iff: "NUL \<notin> set s \<Longrightarrow> IsInSet c s \<longleftrightarrow> c \<in> set s"
  by (auto simp: IsInSet_def)

lemma IsRepeat_iff: "IsRepeat c \<longleftrightarrow> c \<in> {CHR ''?'', CHR ''*'', CHR ''+''}"
  by (simp add: IsRepeat_def IsInSet_iff)

lemma repetition_loop:
  assumes "\<And>s. length s \<le> n \<Longrightarrow> MatchRegexAtHead regex s = Inr (P s)" and "length str \<le> n"
  shows "MatchRepetitionAndRegexAtHead e c q regex i str =
    Inr (\<exists>u v. str = u @ v \<and> list_all (AtomMatchesChar e c) u \<and> min_repeat q \<le> i + length u \<and>
      i + length u \<le> max_repeat q \<and> P v)"
  using assms(2)
proof (induction str arbitrary: i)
  case Nil
  then show ?case
    by (subst MatchRepetitionAndRegexAtHead.simps) (auto simp: assms(1))
next
  case (Cons ch str)
  let ?Q = "\<lambda>i str. \<exists>u v. str = u @ v \<and> list_all (AtomMatchesChar e c) u \<and> min_repeat q \<le> i + length u \<and>
      i + length u \<le> max_repeat q \<and> P v"
  have "?Q i (ch # str) \<longleftrightarrow>
    i \<le> max_repeat q \<and> (min_repeat q \<le> i \<and> P (ch # str) \<or> AtomMatchesChar e c ch \<and> ?Q (i + 1) str)"
    (is "?L = ?R")
  proof
    assume ?L
    then obtain u v where u: "ch # str = u @ v" "list_all (AtomMatchesChar e c) u"
      "min_repeat q \<le> i + length u" "i + length u \<le> max_repeat q" "P v" by blast
    then show ?R by (cases u) auto
  next
    assume R: ?R
    show ?L
    proof (cases "min_repeat q \<le> i \<and> P (ch # str)")
      case True
      with R show ?thesis by (intro exI [of _ "[]"] exI [of _ "ch # str"]) simp
    next
      case False
      with R obtain u v where "str = u @ v" "list_all (AtomMatchesChar e c) (ch # u)"
        "min_repeat q \<le> i + 1 + length u" "i + 1 + length u \<le> max_repeat q" "P v" by auto
      then show ?thesis by (intro exI [of _ "ch # u"] exI [of _ v]) simp
    qed
  qed
  then show ?case
    by (subst MatchRepetitionAndRegexAtHead.simps) (use Cons in \<open>auto simp: assms(1)\<close>)
qed

text \<open>One step of the matcher on an atom and what follows it.\<close>

lemma match_once:
  assumes "atom_ok a" and "rest = [] \<or> \<not> IsRepeat (hd rest)"
  shows "MatchRegexAtHead (atom_text a @ rest) str =
    (case str of [] \<Rightarrow> Inr False | ch # s \<Rightarrow> if atom_matches a ch then MatchRegexAtHead rest s else Inr False)"
proof (cases a)
  case (Plain c)
  then have "c \<noteq> CHR ''$''" "c \<noteq> CHR 0x5C" using assms(1) by auto
  with Plain assms(2) show ?thesis
    by (cases rest) (simp_all add: MatchRegexAtHead.simps split: list.splits)
next
  case (Escaped c)
  with assms(2) show ?thesis
    by (cases rest) (simp_all add: MatchRegexAtHead.simps split: list.splits)
qed

fun atom_escaped :: "re_atom \<Rightarrow> bool" where
  "atom_escaped (Plain c) = False"
| "atom_escaped (Escaped c) = True"

fun atom_char :: "re_atom \<Rightarrow> char" where
  "atom_char (Plain c) = c"
| "atom_char (Escaped c) = c"

lemma atom_matches_eq: "atom_matches a = AtomMatchesChar (atom_escaped a) (atom_char a)"
  by (cases a) (simp_all add: fun_eq_iff)

lemma match_repeated:
  assumes "atom_ok a" and "IsRepeat q"
  shows "MatchRegexAtHead (atom_text a @ q # rest) str =
    MatchRepetitionAndRegexAtHead (atom_escaped a) (atom_char a) q rest 0 str"
proof (cases a)
  case (Plain c)
  then have "c \<noteq> CHR ''$''" "c \<noteq> CHR 0x5C" using assms(1) by auto
  with Plain assms(2) show ?thesis by (simp add: MatchRegexAtHead.simps)
next
  case (Escaped c)
  with assms(2) show ?thesis by (simp add: MatchRegexAtHead.simps)
qed

definition matches_prefix :: "re_piece list \<Rightarrow> bool \<Rightarrow> string \<Rightarrow> bool" where
  "matches_prefix ps e s \<longleftrightarrow> (\<exists>u v. s = u @ v \<and> u \<in> re_lang ps \<and> (e \<longrightarrow> v = []))"

lemma matches_prefix_Nil: "matches_prefix [] e s \<longleftrightarrow> \<not> e \<or> s = []"
  by (auto simp: matches_prefix_def)

lemma matches_prefix_Cons:
  "matches_prefix ((a, r) # ps) e s \<longleftrightarrow>
    (\<exists>u v. s = u @ v \<and> list_all (atom_matches a) u \<and> count_ok r (length u) \<and> matches_prefix ps e v)"
    (is "?L \<longleftrightarrow> ?R")
proof
  assume ?L
  then obtain x v where x: "s = x @ v" "x \<in> re_lang ((a, r) # ps)" "e \<longrightarrow> v = []"
    unfolding matches_prefix_def by blast
  then obtain u w where "x = u @ w" "list_all (atom_matches a) u" "count_ok r (length u)" "w \<in> re_lang ps"
    by auto
  with x show ?R unfolding matches_prefix_def by (intro exI [of _ u] exI [of _ "w @ v"]) auto
next
  assume ?R
  then obtain u w v where "s = u @ w @ v" "list_all (atom_matches a) u" "count_ok r (length u)"
    "w \<in> re_lang ps" "e \<longrightarrow> v = []" unfolding matches_prefix_def by blast
  then show ?L unfolding matches_prefix_def by (intro exI [of _ "u @ w"] exI [of _ v]) auto
qed

lemma no_repeat_head:
  assumes "pieces_ok ps" and "rest = pieces_text ps @ anchor CHR ''$'' e"
  shows "rest = [] \<or> \<not> IsRepeat (hd rest)"
proof (cases ps)
  case Nil
  with assms show ?thesis by (simp add: anchor_def IsRepeat_iff)
next
  case (Cons p ps')
  obtain a r where "p = (a, r)" by (cases p)
  with assms Cons show ?thesis by (cases a) (auto simp: IsRepeat_iff)
qed

lemma match_pieces:
  assumes "pieces_ok ps" and "length s < 2 ^ 64 - 1"
  shows "MatchRegexAtHead (pieces_text ps @ anchor CHR ''$'' e) s = Inr (matches_prefix ps e s)"
  using assms
proof (induction ps arbitrary: s)
  case Nil
  then show ?case
    by (simp add: anchor_def MatchRegexAtHead.simps matches_prefix_Nil)
next
  case (Cons p ps)
  obtain a r where p: "p = (a, r)" by (cases p)
  let ?rest = "pieces_text ps @ anchor CHR ''$'' e"
  have ok: "atom_ok a" "pieces_ok ps" using Cons.prems(1) p by simp_all
  have loop: "MatchRegexAtHead (atom_text a @ q # ?rest) s =
      Inr (\<exists>u v. s = u @ v \<and> list_all (atom_matches a) u \<and> min_repeat q \<le> length u \<and>
        length u \<le> max_repeat q \<and> matches_prefix ps e v)" if "IsRepeat q" for q
  proof -
    have "MatchRegexAtHead ?rest t = Inr (matches_prefix ps e t)" if "length t \<le> length s" for t
      by (rule Cons.IH) (use that ok(2) Cons.prems(2) in auto)
    from repetition_loop [where str = s and n = "length s" and P = "matches_prefix ps e" and regex = ?rest
        and e = "atom_escaped a" and c = "atom_char a" and q = q and i = 0, OF this]
    show ?thesis by (simp add: match_repeated [OF ok(1) that] atom_matches_eq)
  qed
  have short: "length u \<le> 2 ^ 64 - 2" if "s = u @ v" for u v :: string
    using Cons.prems(2) that by simp
  show ?case
  proof (cases r)
    case Once
    have step: "MatchRegexAtHead (atom_text a @ ?rest) s = (case s of [] \<Rightarrow> Inr False
        | ch # s \<Rightarrow> if atom_matches a ch then MatchRegexAtHead ?rest s else Inr False)"
      by (rule match_once [OF ok(1)]) (rule no_repeat_head [OF ok(2) refl])
    show ?thesis
    proof (cases s)
      case Nil
      then show ?thesis using step Once p by (simp add: matches_prefix_Cons)
    next
      case (Cons ch t)
      have "(\<exists>u v. ch # t = u @ v \<and> list_all (atom_matches a) u \<and> length u = 1 \<and> matches_prefix ps e v) \<longleftrightarrow>
          atom_matches a ch \<and> matches_prefix ps e t"
        (is "?L \<longleftrightarrow> ?R")
      proof
        assume ?R
        then show ?L by (intro exI [of _ "[ch]"] exI [of _ t]) simp
      qed (auto simp: length_Suc_conv Cons_eq_append_conv)
      moreover have "MatchRegexAtHead ?rest t = Inr (matches_prefix ps e t)"
        by (rule Cons.IH) (use ok(2) Cons.prems(2) Cons in auto)
      ultimately show ?thesis using step Once p Cons by (simp add: matches_prefix_Cons)
    qed
  next
    case Optional
    then show ?thesis
      using loop [of "CHR ''?''"] p
      by (simp add: IsRepeat_iff min_repeat_def max_repeat_def matches_prefix_Cons)
  next
    case Any_Number
    then show ?thesis
      using loop [of "CHR ''*''"] p short
      by (auto simp: IsRepeat_iff min_repeat_def max_repeat_def matches_prefix_Cons)
  next
    case At_Least_One
    then show ?thesis
      using loop [of "CHR ''+''"] p short
      by (auto simp: IsRepeat_iff min_repeat_def max_repeat_def matches_prefix_Cons)
  qed
qed


lemma match_suffixes_eq:
  assumes "\<And>t. length t \<le> length s \<Longrightarrow> MatchRegexAtHead regex t = Inr (P t)"
  shows "match_suffixes regex s = Inr (\<exists>u v. s = u @ v \<and> P v)"
  using assms
proof (induction s)
  case Nil
  then show ?case by simp
next
  case (Cons c s)
  then show ?case by (auto simp: Cons_eq_append_conv)
qed

section \<open>The check accepts the printed patterns\<close>

lemma IsInSet_anchors: "IsInSet c ''^$?*+'' \<longleftrightarrow> c \<in> {CHR ''^'', CHR ''$''} \<or> IsRepeat c"
  by (auto simp: IsInSet_iff IsRepeat_iff)

lemma valid_step:
  assumes "ch \<noteq> CHR 0x5C"
  shows "fst (validate_loop R i prev (ch # rest)) \<longleftrightarrow>
    \<not> (ch = CHR ''^'' \<and> i > 0) \<and> \<not> (ch = CHR ''$'' \<and> rest \<noteq> []) \<and> ch \<notin> set ''()[]{}|'' \<and> (IsRepeat ch \<longrightarrow> prev) \<and>
    fst (validate_loop R (i + 1) (\<not> (ch = CHR ''^'' \<or> ch = CHR ''$'' \<or> IsRepeat ch)) rest)"
  using assms
  by (simp add: char_failure_def IsInSet_anchors IsInSet_iff split: prod.split option.split)

lemma valid_escape:
  "fst (validate_loop R i prev (CHR 0x5C # c # rest)) \<longleftrightarrow> IsValidEscape c \<and> fst (validate_loop R (i + 2) True rest)"
  by (simp split: prod.split)

lemma valid_escape_end: "\<not> fst (validate_loop R i prev [CHR 0x5C])"
  by simp

lemma repeat_cases:
  assumes "IsRepeat q"
  obtains r where "repeat_text r = [q]"
proof -
  from assms have "q = CHR ''?'' \<or> q = CHR ''*'' \<or> q = CHR ''+''" by (simp add: IsRepeat_iff)
  then show ?thesis using that [of Optional] that [of Any_Number] that [of At_Least_One] by auto
qed

lemma repeat_text_valid:
  "fst (validate_loop R i True (repeat_text r @ s)) = fst (validate_loop R (i + length (repeat_text r)) (r = Once) s)"
  by (cases r) (simp_all add: valid_step IsRepeat_iff del: validate_loop.simps)

lemma pieces_valid:
  "pieces_ok ps \<Longrightarrow> fst (validate_loop R i prev (pieces_text ps @ anchor CHR ''$'' e))"
proof (induction ps arbitrary: i prev)
  case Nil
  then show ?case by (simp add: anchor_def valid_step IsRepeat_iff del: validate_loop.simps(2))
next
  case (Cons p ps)
  obtain a r where p: "p = (a, r)" by (cases p)
  have "fst (validate_loop R i prev (atom_text a @ repeat_text r @ s)) =
      fst (validate_loop R (i + length (atom_text a) + length (repeat_text r)) (r = Once) s)" for s
  proof (cases a)
    case (Plain c)
    then have c: "c \<noteq> CHR 0x5C" "c \<notin> set ''^$()[]{}|?*+''" using Cons.prems p by simp_all
    then have "\<not> IsRepeat c" by (simp add: IsRepeat_iff)
    with Plain c show ?thesis by (simp add: valid_step repeat_text_valid del: validate_loop.simps)
  next
    case (Escaped c)
    then show ?thesis using Cons.prems p
      by (simp add: valid_escape repeat_text_valid del: validate_loop.simps)
  qed
  with Cons p show ?case by simp
qed

lemma valid_pieces:
  "fst (validate_loop R i prev s) \<Longrightarrow> i > 0 \<Longrightarrow>
    \<exists>r ps e. s = repeat_text r @ pieces_text ps @ anchor CHR ''$'' e \<and> pieces_ok ps \<and> (r = Once \<or> prev)"
proof (induction R i prev s rule: validate_loop.induct)
  case (1 R i prev)
  show ?case by (intro exI [of _ Once] exI [of _ "[]"] exI [of _ False]) (simp add: anchor_def)
next
  case (2 R i prev ch rest)
  show ?case
  proof (cases "ch = CHR 0x5C")
    case True
    then obtain c rest' where rest: "rest = c # rest'" using 2 by (cases rest) auto
    have v: "IsValidEscape c" "fst (validate_loop R (i + 2) True rest')"
      using 2(3) True unfolding rest by (simp_all only: valid_escape)
    then obtain r ps e where "rest' = repeat_text r @ pieces_text ps @ anchor CHR ''$'' e" "pieces_ok ps"
      using 2(1) [OF True rest] by auto
    then show ?thesis using True rest v(1)
      by (intro exI [of _ Once] exI [of _ "(Escaped c, r) # ps"] exI [of _ e]) simp
  next
    case False
    note step = 2(3) [unfolded valid_step [OF False]]
    have "\<exists>r ps e. rest = repeat_text r @ pieces_text ps @ anchor CHR ''$'' e \<and> pieces_ok ps \<and>
        (r = Once \<or> \<not> IsInSet ch ''^$?*+'')"
      using 2(2) [OF False] step by (simp add: IsInSet_anchors)
    then obtain r ps e where rest: "rest = repeat_text r @ pieces_text ps @ anchor CHR ''$'' e" "pieces_ok ps"
      "r = Once \<or> \<not> IsInSet ch ''^$?*+''" by blast
    consider "ch = CHR ''$''" | "IsRepeat ch" | "ch \<noteq> CHR ''$''" "\<not> IsRepeat ch" by blast
    then show ?thesis
    proof cases
      case 1
      then have "rest = []" using step by simp
      with 1 show ?thesis
        by (intro exI [of _ Once] exI [of _ "[]"] exI [of _ True]) (simp add: anchor_def)
    next
      case 2
      then obtain q where "repeat_text q = [ch]" by (rule repeat_cases)
      moreover have "r = Once" using rest(3) 2 by (simp add: IsInSet_anchors)
      ultimately show ?thesis using rest step 2
        by (intro exI [of _ q] exI [of _ ps] exI [of _ e]) simp
    next
      case 3
      then have "atom_ok (Plain ch)" using step False \<open>0 < i\<close> by (auto simp: IsRepeat_iff)
      with rest show ?thesis
        by (intro exI [of _ Once] exI [of _ "(Plain ch, r) # ps"] exI [of _ e]) simp
    qed
  qed
qed

lemma valid_index: "0 < i \<Longrightarrow> 0 < j \<Longrightarrow> fst (validate_loop R i prev s) = fst (validate_loop R j prev s)"
proof (induction R i prev s arbitrary: j rule: validate_loop.induct)
  case (2 R i prev ch rest)
  show ?case
  proof (cases "ch = CHR 0x5C")
    case True
    show ?thesis
    proof (cases rest)
      case (Cons c rest')
      then show ?thesis using 2(1) [OF True Cons, of "j + 2"] True
        by (simp only: valid_escape)
    qed (simp add: True)
  next
    case False
    show ?thesis using 2(2) [OF False, of "j + 1"] 2(3,4)
      by (simp only: valid_step [OF False] IsInSet_anchors) auto
  qed
qed simp

lemma first_char:
  "pieces_ok ps \<Longrightarrow> pieces_text ps @ anchor CHR ''$'' e = c # t \<Longrightarrow> c \<noteq> CHR ''^''"
  by (cases ps rule: pieces_text.cases) (auto simp: anchor_def split: if_splits, (case_tac a; auto)+)

lemma last_char:
  assumes "pieces_ok ps" and "ps \<noteq> []"
  shows "last (pieces_text ps) = CHR ''$'' \<longleftrightarrow> last ps = (Escaped CHR ''$'', Once)"
  using assms
proof (induction ps)
  case (Cons p ps)
  obtain a r where p: "p = (a, r)" by (cases p)
  show ?case
  proof (cases "ps = []")
    case True
    then show ?thesis using Cons.prems p by (cases a; cases r) auto
  next
    case False
    then have "pieces_text ps \<noteq> []" by (cases ps rule: pieces_text.cases) (auto elim: atom_text.elims)
    then show ?thesis using Cons False p by simp
  qed
qed simp

lemma valid_no_failures: "fst (validate_loop R i prev s) \<Longrightarrow> snd (validate_loop R i prev s) = []"
proof (induction R i prev s rule: validate_loop.induct)
  case (2 R i prev ch rest)
  show ?case
  proof (cases "ch = CHR 0x5C")
    case True
    then obtain c rest' where rest: "rest = c # rest'" using 2(3) by (cases rest) simp_all
    show ?thesis using 2(1) [OF True rest] 2(3) True rest
      by (cases "validate_loop R (i + 2) True rest'") (simp split: if_splits)
  next
    case False
    show ?thesis using 2(2) [OF False] 2(3) False
      by (cases "validate_loop R (i + 1) (\<not> IsInSet ch ''^$?*+'') rest") (simp split: option.splits)
  qed
qed simp

lemma valid_regex:
  assumes "pieces_ok ps"
  shows "ValidateRegex (Some (regex_text b ps e)) = (True, [])"
proof -
  have "fst (validate_loop R 0 False (regex_text b ps e))" for R
    using pieces_valid [OF assms]
    by (simp add: regex_text_def anchor_def valid_step IsInSet_anchors IsRepeat_iff del: validate_loop.simps(2))
  with valid_no_failures show ?thesis by (simp add: ValidateRegex_def prod_eq_iff)
qed

lemma valid_restart:
  assumes "s = [] \<or> hd s \<noteq> CHR ''^''" and "fst (validate_loop R 0 False s)"
  shows "fst (validate_loop R 1 False s)"
proof (cases s)
  case (Cons c t)
  show ?thesis
  proof (cases "c = CHR 0x5C")
    case True
    then obtain d u where "t = d # u" using assms(2) Cons by (cases t) simp_all
    with assms(2) Cons True valid_index [of 2 3 R True u] show ?thesis
      by (simp add: valid_escape numeral_eq_Suc del: validate_loop.simps)
  next
    case False
    have "fst (validate_loop R 1 p t) = fst (validate_loop R 2 p t)" for p by (rule valid_index) simp_all
    with assms Cons show ?thesis
      by (cases "IsRepeat c") (simp_all add: valid_step [OF False] numeral_eq_Suc del: validate_loop.simps)
  qed
qed simp

text \<open>
  C22. The check of a pattern accepts exactly the printed forms of the syntax trees: an optional
  \<open>^\<close>, atoms that are a plain character or a supported escape, each with at most one repetition,
  and an optional \<open>$\<close>.
\<close>

theorem ValidateRegex_accepts:
  "fst (ValidateRegex (Some s)) \<longleftrightarrow> (\<exists>b ps e. s = regex_text b ps e \<and> pieces_ok ps)"
proof
  assume v: "fst (ValidateRegex (Some s))"
  have tail: "\<exists>ps e. t = pieces_text ps @ anchor CHR ''$'' e \<and> pieces_ok ps"
    if "fst (validate_loop s 1 False t)" for t
    using valid_pieces [OF that] by auto
  show "\<exists>b ps e. s = regex_text b ps e \<and> pieces_ok ps"
  proof (cases "s = [] \<or> hd s \<noteq> CHR ''^''")
    case True
    have "fst (validate_loop s 1 False s)"
      using valid_restart [of s s] v True by (simp add: ValidateRegex_def)
    then obtain ps e where "s = pieces_text ps @ anchor CHR ''$'' e" "pieces_ok ps" using tail by blast
    then show ?thesis by (intro exI [of _ False] exI [of _ ps] exI [of _ e]) (simp add: regex_text_def anchor_def)
  next
    case False
    then obtain t where s: "s = CHR ''^'' # t" by (cases s) auto
    have "fst (validate_loop s 1 False t)"
      using v unfolding s by (simp add: ValidateRegex_def valid_step IsInSet_anchors del: validate_loop.simps)
    then obtain ps e where "t = pieces_text ps @ anchor CHR ''$'' e" "pieces_ok ps" using tail by blast
    with s show ?thesis by (intro exI [of _ True] exI [of _ ps] exI [of _ e]) (simp add: regex_text_def anchor_def)
  qed
next
  assume "\<exists>b ps e. s = regex_text b ps e \<and> pieces_ok ps"
  then show "fst (ValidateRegex (Some s))" using valid_regex by auto
qed

lemma RE_Init_valid:
  assumes "pieces_ok ps"
  shows "fst (RE_Init (Some (regex_text b ps e))) =
    \<lparr>re_pattern = Some (regex_text b ps e),
     re_full_pattern = Some (regex_text True ps (e \<or> \<not> (ps \<noteq> [] \<and> last ps = (Escaped CHR ''$'', Once)))),
     re_is_valid = True\<rparr>"
proof -
  let ?r = "regex_text b ps e"
  have ne: "pieces_text ps \<noteq> []" if "ps \<noteq> []"
    using that by (cases ps rule: pieces_text.cases) (auto elim: atom_text.elims)
  have hd: "(?r = [] \<or> hd ?r \<noteq> CHR ''^'') = (\<not> b)"
    using first_char [OF assms, of e] by (cases "pieces_text ps @ anchor CHR ''$'' e") (auto simp: regex_text_def anchor_def)
  have last: "(?r = [] \<or> last ?r \<noteq> CHR ''$'') = (\<not> e \<and> \<not> (ps \<noteq> [] \<and> last ps = (Escaped CHR ''$'', Once)))"
    using last_char [OF assms] ne by (cases "ps = []") (auto simp: regex_text_def anchor_def)
  show ?thesis
    by (simp add: RE_Init_def valid_regex [OF assms] hd last) (simp add: regex_text_def anchor_def)
qed

text \<open>
  C23. A partial match is a match of a part of the text: a pattern is found in a text exactly when
  the text has a part in the language of the pieces, at the beginning with \<open>^\<close> and at the end with
  \<open>$\<close>. No character behind the terminator is read.
\<close>

theorem PartialMatch_language:
  assumes "pieces_ok ps" and "length s < 2 ^ 64 - 1"
  shows "RE_PartialMatch (Some s) (fst (RE_Init (Some (regex_text b ps e)))) =
    Inr (\<exists>u w v. s = u @ w @ v \<and> w \<in> re_lang ps \<and> (b \<longrightarrow> u = []) \<and> (e \<longrightarrow> v = []))"
proof -
  have head: "MatchRegexAtHead (pieces_text ps @ anchor CHR ''$'' e) t = Inr (matches_prefix ps e t)"
    if "length t \<le> length s" for t
    using match_pieces [OF assms(1), of t e] assms(2) that by simp
  show ?thesis
  proof (cases b)
    case True
    then show ?thesis unfolding RE_PartialMatch_def RE_Init_valid [OF assms(1)]
      by (simp add: MatchRegexAnywhere_def regex_text_def anchor_def [of _ True] head matches_prefix_def)
  next
    case False
    have "MatchRegexAnywhere (Some (pieces_text ps @ anchor CHR ''$'' e)) (Some s) =
        match_suffixes (pieces_text ps @ anchor CHR ''$'' e) s"
      using first_char [OF assms(1), of e]
      by (cases "pieces_text ps @ anchor CHR ''$'' e") (simp_all add: MatchRegexAnywhere_def del: match_suffixes.simps)
    moreover have "\<dots> = Inr (\<exists>u v. s = u @ v \<and> matches_prefix ps e v)"
      by (rule match_suffixes_eq) (rule head)
    moreover have "(\<exists>u v. s = u @ v \<and> matches_prefix ps e v) \<longleftrightarrow>
        (\<exists>u w v. s = u @ w @ v \<and> w \<in> re_lang ps \<and> (e \<longrightarrow> v = []))"
      unfolding matches_prefix_def by blast
    ultimately show ?thesis using False unfolding RE_PartialMatch_def RE_Init_valid [OF assms(1)]
      by (simp add: regex_text_def anchor_def [of _ False] del: match_suffixes.simps)
  qed
qed

theorem PartialMatch_language_witness:
  "RE_PartialMatch (Some ''x=42;'') (fst (RE_Init (Some [CHR 0x5C, CHR ''d'', CHR ''+'']))) = Inr True"
proof -
  let ?ps = "[(Escaped CHR ''d'', At_Least_One)]"
  have "pieces_ok ?ps" by (simp add: IsValidEscape_def IsInSet_def)
  moreover have "''42'' \<in> re_lang ?ps" by (simp add: AtomMatchesChar_def IsAsciiDigit_def in_range_def)
  then have "\<exists>u w v. ''x=42;'' = u @ w @ v \<and> w \<in> re_lang ?ps \<and> (False \<longrightarrow> u = []) \<and> (False \<longrightarrow> v = [])"
    by (intro exI [of _ "''x=''"] exI [of _ "''42''"] exI [of _ "'';''"]) simp
  ultimately show ?thesis
    using PartialMatch_language [of ?ps "''x=42;''" False False] by (simp add: regex_text_def anchor_def)
qed

text \<open>
  A full match is membership of the whole text in the language of the pieces, with one
  exception of the code: when the pattern ends in an escaped dollar sign, its last character is
  taken for the end anchor, none is added, and any continuation of a matching text matches too.
\<close>

theorem FullMatch_language:
  assumes "pieces_ok ps" and "length s < 2 ^ 64 - 1"
  shows "RE_FullMatch (Some s) (fst (RE_Init (Some (regex_text b ps e)))) =
    Inr (\<exists>w v. s = w @ v \<and> w \<in> re_lang ps \<and>
      (e \<or> \<not> (ps \<noteq> [] \<and> last ps = (Escaped CHR ''$'', Once)) \<longrightarrow> v = []))"
  unfolding RE_FullMatch_def RE_Init_valid [OF assms(1)]
  by (simp add: MatchRegexAnywhere_def regex_text_def anchor_def [of _ True] match_pieces [OF assms]
      matches_prefix_def)

theorem FullMatch_language_witness:
  "RE_FullMatch (Some ''5$ off'') (fst (RE_Init (Some [CHR ''5'', CHR 0x5C, CHR ''$'']))) = Inr True \<and>
    RE_FullMatch (Some ''55'') (fst (RE_Init (Some ''5''))) = Inr False"
proof -
  let ?ps = "[(Plain CHR ''5'', Once), (Escaped CHR ''$'', Once)]" and ?qs = "[(Plain CHR ''5'', Once)]"
  have ok: "pieces_ok ?ps" "pieces_ok ?qs" by (simp_all add: IsValidEscape_def IsAsciiPunct_def IsInSet_def)
  have "''5$'' \<in> re_lang ?ps"
    by (simp add: AtomMatchesChar_def IsAsciiPunct_def IsInSet_def)
      (intro exI [of _ "''5''"] exI [of _ "''$''"], simp add: AtomMatchesChar_def IsAsciiPunct_def IsInSet_def)
  then have "\<exists>w v. ''5$ off'' = w @ v \<and> w \<in> re_lang ?ps"
    by (intro exI [of _ "''5$''"] exI [of _ "'' off''"]) simp
  moreover have "''55'' \<notin> re_lang ?qs" by simp
  ultimately show ?thesis
    using FullMatch_language [OF ok(1), of "''5$ off''" False False]
      FullMatch_language [OF ok(2), of "''55''" False False] by (simp add: regex_text_def anchor_def)
qed

end
