(* ===== verification/Gtest_Float.thy ===== *)
theory Gtest_Float
  imports Prelude
begin

text \<open>
  The class template \<open>FloatingPoint\<close> of the unit-test framework
  (\<open>gtest/include/gtest/internal/gtest-internal.h\<close>), which compares floating-point numbers by the
  bits that represent them. \<open>Bits\<close> is a word of any length and \<open>frac\<close> the constant
  \<open>kFractionBitCount\<close>: 32 bits with 23 for \<open>float\<close>, 64 with 52 for \<open>double\<close>. The specification reads a
  bit pattern as the number it stands for, in units of the smallest positive one.
\<close>

section \<open>The class\<close>

unbundle bit_operations_syntax

abbreviation kBitCount :: "'a::len itself \<Rightarrow> nat" where
  "kBitCount ty \<equiv> LENGTH('a)"

definition kExponentBitCount :: "'a::len itself \<Rightarrow> nat \<Rightarrow> nat" where
  "kExponentBitCount ty frac = kBitCount TYPE('a) - 1 - frac"

definition kSignBitMask :: "'a::len word" where
  "kSignBitMask = push_bit (kBitCount TYPE('a) - 1) 1"

definition kFractionBitMask :: "nat \<Rightarrow> 'a::len word" where
  "kFractionBitMask frac = drop_bit (kExponentBitCount TYPE('a) frac + 1) (NOT 0)"

definition kExponentBitMask :: "nat \<Rightarrow> 'a::len word" where
  "kExponentBitMask frac = NOT (kSignBitMask OR kFractionBitMask frac)"

definition kMaxUlps :: nat where "kMaxUlps = 4"

definition Infinity :: "nat \<Rightarrow> 'a::len word" where
  "Infinity frac = kExponentBitMask frac"

definition exponent_bits :: "nat \<Rightarrow> 'a::len word \<Rightarrow> 'a word" where
  "exponent_bits frac bits = kExponentBitMask frac AND bits"

definition fraction_bits :: "nat \<Rightarrow> 'a::len word \<Rightarrow> 'a word" where
  "fraction_bits frac bits = kFractionBitMask frac AND bits"

definition sign_bit :: "'a::len word \<Rightarrow> 'a word" where
  "sign_bit bits = kSignBitMask AND bits"

definition is_nan :: "nat \<Rightarrow> 'a::len word \<Rightarrow> bool" where
  "is_nan frac bits \<longleftrightarrow> exponent_bits frac bits = kExponentBitMask frac \<and> fraction_bits frac bits \<noteq> 0"

definition SignAndMagnitudeToBiased :: "'a::len word \<Rightarrow> 'a word" where
  "SignAndMagnitudeToBiased sam =
     (if kSignBitMask AND sam \<noteq> 0 then NOT sam + 1 else kSignBitMask OR sam)"

definition DistanceBetweenSignAndMagnitudeNumbers :: "'a::len word \<Rightarrow> 'a word \<Rightarrow> 'a word" where
  "DistanceBetweenSignAndMagnitudeNumbers sam1 sam2 =
     (let biased1 = SignAndMagnitudeToBiased sam1; biased2 = SignAndMagnitudeToBiased sam2 in
      if biased1 \<ge> biased2 then biased1 - biased2 else biased2 - biased1)"

definition AlmostEquals :: "nat \<Rightarrow> 'a::len word \<Rightarrow> 'a word \<Rightarrow> bool" where
  "AlmostEquals frac lhs rhs \<longleftrightarrow>
     (if is_nan frac lhs \<or> is_nan frac rhs then False
      else unat (DistanceBetweenSignAndMagnitudeNumbers lhs rhs) \<le> kMaxUlps)"

section \<open>What a bit pattern stands for\<close>

definition negative :: "'a::len word \<Rightarrow> bool" where
  "negative w \<longleftrightarrow> bit w (LENGTH('a) - 1)"

definition magnitude :: "'a::len word \<Rightarrow> nat" where
  "magnitude w = unat w mod 2 ^ (LENGTH('a) - 1)"

text \<open>
  The absolute value of the number with exponent \<open>m div 2 ^ frac\<close> and fraction \<open>m mod 2 ^ frac\<close>:
  denormalized numbers have the exponent 0, all others an implicit leading 1. Infinity is the
  number that would follow the greatest finite one.
\<close>

definition absolute_value :: "nat \<Rightarrow> nat \<Rightarrow> nat" where
  "absolute_value frac m =
     (if m div 2 ^ frac = 0 then m mod 2 ^ frac
      else (2 ^ frac + m mod 2 ^ frac) * 2 ^ (m div 2 ^ frac - 1))"

definition float_value :: "nat \<Rightarrow> 'a::len word \<Rightarrow> int" where
  "float_value frac w =
     (if negative w then - int (absolute_value frac (magnitude w)) else int (absolute_value frac (magnitude w)))"

text \<open>The numbers after the smaller one of two, up to the greater one.\<close>

definition values_between :: "nat \<Rightarrow> 'a::len word \<Rightarrow> 'a word \<Rightarrow> int set" where
  "values_between frac x y =
     {float_value frac z | z :: 'a word. \<not> is_nan frac z \<and>
        min (float_value frac x) (float_value frac y) < float_value frac z \<and>
        float_value frac z \<le> max (float_value frac x) (float_value frac y)}"

section \<open>Order\<close>

lemma absolute_value_Suc: "absolute_value frac m < absolute_value frac (Suc m)"
proof -
  define e where "e = m div 2 ^ frac"
  define f where "f = m mod 2 ^ frac"
  have f: "f < 2 ^ frac" by (simp add: f_def)
  have m: "m = e * 2 ^ frac + f" unfolding e_def f_def by (rule div_mult_mod_eq [symmetric])
  show ?thesis
  proof (cases "Suc f = 2 ^ frac")
    case True
    then have "Suc m = Suc e * 2 ^ frac" using m by simp
    then have "Suc m div 2 ^ frac = Suc e" "Suc m mod 2 ^ frac = 0" by simp_all
    then have "absolute_value frac (Suc m) = 2 ^ frac * 2 ^ e" by (simp add: absolute_value_def)
    moreover have "absolute_value frac m < 2 ^ frac * 2 ^ e"
    proof (cases e)
      case 0
      then show ?thesis using f by (simp add: absolute_value_def e_def [symmetric] f_def [symmetric])
    next
      case (Suc d)
      have "(2 ^ frac + f) * 2 ^ d < (2 ^ frac + 2 ^ frac) * (2 :: nat) ^ d" using f by simp
      then show ?thesis
        using Suc by (simp add: absolute_value_def e_def [symmetric] f_def [symmetric])
    qed
    ultimately show ?thesis by simp
  next
    case False
    then have g: "Suc f < 2 ^ frac" using f by simp
    have "Suc m div 2 ^ frac = e" "Suc m mod 2 ^ frac = Suc f"
      using m g by (auto intro: div_nat_eqI mod_nat_eqI)
    then show ?thesis
      by (simp add: absolute_value_def e_def [symmetric] f_def [symmetric])
  qed
qed

lemma absolute_value_less: "absolute_value frac m < absolute_value frac n \<longleftrightarrow> m < n"
  using absolute_value_Suc by (intro strict_mono_less) (simp add: strict_mono_Suc_iff)

lemma absolute_value_0 [simp]: "absolute_value frac 0 = 0"
  by (simp add: absolute_value_def)

lemma absolute_value_pos: "0 < absolute_value frac m \<longleftrightarrow> 0 < m"
  using absolute_value_less [of frac 0 m] by simp

text \<open>The position of a number in the order of all numbers, 0 for both zeros.\<close>

definition ulp_index :: "'a::len word \<Rightarrow> int" where
  "ulp_index w = (if negative w then - int (magnitude w) else int (magnitude w))"

lemma float_value_less: "float_value frac x < float_value frac y \<longleftrightarrow> ulp_index x < ulp_index y"
  unfolding float_value_def ulp_index_def
  using absolute_value_less [of frac "magnitude x" "magnitude y"]
    absolute_value_less [of frac "magnitude y" "magnitude x"]
    absolute_value_pos [of frac "magnitude x"] absolute_value_pos [of frac "magnitude y"]
  by auto

lemma magnitude_less: "magnitude (w :: 'a::len word) < 2 ^ (LENGTH('a) - 1)"
  by (simp add: magnitude_def)

lemma sign_mask: "kSignBitMask AND (w :: 'a::len word) \<noteq> 0 \<longleftrightarrow> negative w"
proof -
  have "kSignBitMask AND w = (if negative w then kSignBitMask else 0)"
    by (rule bit_eqI) (auto simp: kSignBitMask_def negative_def bit_simps bit_1_iff)
  moreover have "(kSignBitMask :: 'a word) \<noteq> 0"
  proof
    assume "(kSignBitMask :: 'a word) = 0"
    then have "\<not> bit (kSignBitMask :: 'a word) (LENGTH('a) - 1)" by simp
    then show False by (simp add: kSignBitMask_def bit_simps)
  qed
  ultimately show ?thesis by simp
qed

lemma unat_sign_magnitude:
  "unat (w :: 'a::len word) = (if negative w then 2 ^ (LENGTH('a) - 1) else 0) + magnitude w"
proof -
  have l: "2 ^ LENGTH('a) = 2 * (2 :: nat) ^ (LENGTH('a) - 1)"
    by (metis One_nat_def Suc_pred len_gt_0 power_Suc)
  have "unat w < 2 ^ LENGTH('a)" by (rule unsigned_less)
  then have "unat w < 2 * 2 ^ (LENGTH('a) - 1)" using l by simp
  then have "unat w div 2 ^ (LENGTH('a) - 1) < 2" by (simp add: div_less_iff_less_mult)
  moreover have "negative w \<longleftrightarrow> odd (unat w div 2 ^ (LENGTH('a) - 1))"
  proof -
    have "bit (unat w) (LENGTH('a) - 1) = bit w (LENGTH('a) - 1)" by (simp add: bit_unsigned_iff)
    then show ?thesis by (simp add: negative_def bit_iff_odd)
  qed
  ultimately have "unat w div 2 ^ (LENGTH('a) - 1) = (if negative w then 1 else 0)"
    by (auto elim!: oddE)
  then show ?thesis
    unfolding magnitude_def using div_mult_mod_eq [of "unat w" "2 ^ (LENGTH('a) - 1)"] by auto
qed

lemma unat_biased: "int (unat (SignAndMagnitudeToBiased (w :: 'a::len word))) = 2 ^ (LENGTH('a) - 1) + ulp_index w"
proof (cases "negative w")
  case True
  have l: "2 ^ LENGTH('a) = 2 * (2 :: nat) ^ (LENGTH('a) - 1)"
    by (metis One_nat_def Suc_pred len_gt_0 power_Suc)
  have "SignAndMagnitudeToBiased w = - w"
    using True sign_mask [of w] by (simp add: SignAndMagnitudeToBiased_def not_eq_complement)
  moreover have "unat w = 2 ^ (LENGTH('a) - 1) + magnitude w" using True unat_sign_magnitude [of w] by simp
  moreover from this have "w \<noteq> 0" by auto
  then have "unat (- w) = 2 ^ LENGTH('a) - unat w"
  proof -
    have less: "unat w < 2 ^ LENGTH('a)" by (rule unsigned_less)
    then have sum: "2 ^ LENGTH('a) - unat w + unat w = (2 :: nat) ^ LENGTH('a)"
      by (rule le_add_diff_inverse2 [OF less_imp_le])
    have "of_nat (2 ^ LENGTH('a) - unat w) + w = of_nat (2 ^ LENGTH('a) - unat w + unat w)"
      by (simp only: of_nat_add) simp
    also have "\<dots> = (0 :: 'a word)" by (simp only: sum) simp
    finally have "of_nat (2 ^ LENGTH('a) - unat w) = - w" by (rule eq_neg_iff_add_eq_0 [THEN iffD2])
    then have "- w = of_nat (2 ^ LENGTH('a) - unat w)" by (rule sym)
    then show ?thesis using \<open>w \<noteq> 0\<close> less by (simp only: unat_of_nat) (simp add: unat_gt_0)
  qed
  ultimately show ?thesis using True l magnitude_less [of w] by (simp add: ulp_index_def)
next
  case False
  have "kSignBitMask AND w = 0" using False sign_mask [of w] by blast
  then have "kSignBitMask OR w = kSignBitMask + w" by (rule disjunctive_add_eq_or [symmetric])
  moreover have "unat (kSignBitMask + w) = 2 ^ (LENGTH('a) - 1) + unat w"
  proof -
    have l: "2 ^ LENGTH('a) = 2 * (2 :: nat) ^ (LENGTH('a) - 1)"
      by (metis One_nat_def Suc_pred len_gt_0 power_Suc)
    have "unat w < 2 ^ (LENGTH('a) - 1)" using False unat_sign_magnitude [of w] magnitude_less [of w] by simp
    moreover have "unat (kSignBitMask :: 'a word) = 2 ^ (LENGTH('a) - 1)"
    proof -
      have "(kSignBitMask :: 'a word) = of_nat (2 ^ (LENGTH('a) - 1))"
        by (simp add: kSignBitMask_def push_bit_eq_mult)
      then have "unat (kSignBitMask :: 'a word) = 2 ^ (LENGTH('a) - 1) mod 2 ^ LENGTH('a)"
        by (metis unat_of_nat)
      moreover have "(2 :: nat) ^ (LENGTH('a) - 1) < 2 ^ LENGTH('a)" by simp
      ultimately show ?thesis by (metis mod_less)
    qed
    ultimately show ?thesis using l by (simp add: unat_word_ariths(1))
  qed
  moreover have "kSignBitMask AND w = 0" by fact
  ultimately show ?thesis
    using False unat_sign_magnitude [of w] by (simp add: SignAndMagnitudeToBiased_def ulp_index_def)
qed

lemma unat_distance:
  "int (unat (DistanceBetweenSignAndMagnitudeNumbers x y)) = \<bar>ulp_index x - ulp_index y\<bar>"
proof -
  let ?b = SignAndMagnitudeToBiased
  have "?b y \<le> ?b x \<longleftrightarrow> uint (?b y) \<le> uint (?b x)" by (rule word_le_def)
  moreover have "uint (?b x - ?b y) = uint (?b x) - uint (?b y)" if "uint (?b y) \<le> uint (?b x)"
    using that by (simp add: uint_sub_lem)
  moreover have "uint (?b y - ?b x) = uint (?b y) - uint (?b x)" if "uint (?b x) \<le> uint (?b y)"
    using that by (simp add: uint_sub_lem)
  ultimately show ?thesis
    using unat_biased [of x] unat_biased [of y]
    by (simp add: DistanceBetweenSignAndMagnitudeNumbers_def Let_def)
qed

section \<open>Numbers that are not numbers\<close>

lemma exponent_mask:
  assumes "frac < LENGTH('a) - 1"
  shows "(kExponentBitMask frac :: 'a::len word) = push_bit frac (mask (LENGTH('a) - 1 - frac))"
    and "(kFractionBitMask frac :: 'a word) = mask frac"
proof -
  show f: "(kFractionBitMask frac :: 'a word) = mask frac"
    using assms by (auto intro!: bit_eqI simp: kFractionBitMask_def kExponentBitCount_def bit_simps)
  show "(kExponentBitMask frac :: 'a word) = push_bit frac (mask (LENGTH('a) - 1 - frac))"
  proof (rule bit_eqI)
    fix n assume "possible_bit TYPE('a word) n"
    then have "n < LENGTH('a)" by simp
    moreover from this have "n = LENGTH('a) - 1 \<or> n < LENGTH('a) - 1" by linarith
    ultimately show "bit (kExponentBitMask frac :: 'a word) n = bit (push_bit frac (mask (LENGTH('a) - 1 - frac)) :: 'a word) n"
      using assms by (auto simp: kExponentBitMask_def f kSignBitMask_def bit_simps bit_1_iff)
  qed
qed

lemma unat_mask:
  assumes "n \<le> LENGTH('a)"
  shows "unat (mask n :: 'a::len word) = 2 ^ n - 1"
proof -
  have "unat (mask n :: 'a word) = unat (take_bit n (- 1) :: 'a word)"
    by (simp only: take_bit_minus_one_eq_mask)
  also have "\<dots> = take_bit n (mask LENGTH('a))"
    by (simp only: unsigned_take_bit_eq unsigned_minus_1_eq_mask)
  also have "\<dots> = 2 ^ n - 1"
    using assms by (simp only: take_bit_of_mask) (simp add: mask_eq_exp_minus_1 min_def)
  finally show ?thesis .
qed

lemma is_nan_iff:
  fixes w :: "'a::len word"
  assumes "frac < LENGTH('a) - 1"
  shows "is_nan frac w \<longleftrightarrow> (2 ^ (LENGTH('a) - 1 - frac) - 1) * 2 ^ frac < magnitude w"
proof -
  let ?k = "LENGTH('a) - 1 - frac"
  have k: "LENGTH('a) - 1 = ?k + frac" using assms by simp
  have "exponent_bits frac w = push_bit frac (take_bit ?k (drop_bit frac w))"
    by (auto intro!: bit_eqI simp: exponent_bits_def exponent_mask(1) [OF assms] bit_simps)
  then have "exponent_bits frac w = kExponentBitMask frac \<longleftrightarrow>
      push_bit frac (take_bit ?k (drop_bit frac w)) = push_bit frac (mask ?k)"
    by (simp add: exponent_mask(1) [OF assms])
  also have "\<dots> \<longleftrightarrow> take_bit ?k (drop_bit frac w) = mask ?k"
  proof
    assume "push_bit frac (take_bit ?k (drop_bit frac w)) = push_bit frac (mask ?k)"
    then have "drop_bit frac (push_bit frac (take_bit ?k (drop_bit frac w))) = drop_bit frac (push_bit frac (mask ?k))"
      by (rule arg_cong)
    moreover have "drop_bit frac (push_bit frac (take_bit ?k v)) = take_bit ?k v" for v :: "'a word"
      using assms by (auto intro!: bit_eqI simp: bit_simps)
    ultimately show "take_bit ?k (drop_bit frac w) = mask ?k"
      by (metis take_bit_minus_one_eq_mask)
  qed simp
  also have "\<dots> \<longleftrightarrow> unat (take_bit ?k (drop_bit frac w)) = unat (mask ?k :: 'a word)"
    by (rule word_unat_eq_iff)
  also have "\<dots> \<longleftrightarrow> take_bit ?k (drop_bit frac (unat w)) = 2 ^ ?k - 1"
    by (simp only: unsigned_take_bit_eq unat_drop_bit_eq) (simp add: unat_mask)
  also have "take_bit ?k (drop_bit frac (unat w)) = magnitude w div 2 ^ frac"
    by (simp only: magnitude_def flip: take_bit_eq_mod drop_bit_eq_div) (simp add: drop_bit_take_bit)
  finally have e: "exponent_bits frac w = kExponentBitMask frac \<longleftrightarrow> magnitude w div 2 ^ frac = 2 ^ ?k - 1" .
  have "fraction_bits frac w = take_bit frac w"
    by (simp add: fraction_bits_def exponent_mask(2) [OF assms] take_bit_eq_mask and.commute)
  then have "unat (fraction_bits frac w) = magnitude w mod 2 ^ frac"
  proof -
    have "min frac (LENGTH('a) - 1) = frac" using assms by simp
    then have "take_bit frac (take_bit (LENGTH('a) - 1) (unat w)) = take_bit frac (unat w)"
      by (simp only: take_bit_take_bit)
    then show ?thesis
      by (simp only: \<open>fraction_bits frac w = take_bit frac w\<close> unsigned_take_bit_eq magnitude_def
          flip: take_bit_eq_mod)
  qed
  then have f: "fraction_bits frac w \<noteq> 0 \<longleftrightarrow> magnitude w mod 2 ^ frac \<noteq> 0"
    by (metis unat_0_iff)
  have less: "magnitude w < 2 ^ ?k * 2 ^ frac"
    using magnitude_less [of w] k by (metis power_add)
  define q where "q = magnitude w div 2 ^ frac"
  define r where "r = magnitude w mod 2 ^ frac"
  have m: "magnitude w = q * 2 ^ frac + r" unfolding q_def r_def by (rule div_mult_mod_eq [symmetric])
  have q: "q < 2 ^ ?k" using less unfolding q_def by (simp add: div_less_iff_less_mult)
  have r: "r < 2 ^ frac" by (simp add: r_def)
  have "is_nan frac w \<longleftrightarrow> q = 2 ^ ?k - 1 \<and> r \<noteq> 0" by (simp add: is_nan_def e f q_def r_def)
  also have "\<dots> \<longleftrightarrow> (2 ^ ?k - 1) * 2 ^ frac < magnitude w"
  proof
    assume "(2 ^ ?k - 1) * 2 ^ frac < magnitude w"
    then have "(2 ^ ?k - 1) * 2 ^ frac < (q + 1) * 2 ^ frac" using m r by simp
    then have "2 ^ ?k - 1 < q + 1" by (simp only: mult_less_cancel2)
    then have "q = 2 ^ ?k - 1" using q by simp
    then show "q = 2 ^ ?k - 1 \<and> r \<noteq> 0" using \<open>(2 ^ ?k - 1) * 2 ^ frac < magnitude w\<close> m by auto
  qed (simp add: m)
  finally show ?thesis .
qed

section \<open>Counting the numbers in between\<close>

lemma ulp_index_bounds: "\<bar>ulp_index (w :: 'a::len word)\<bar> < 2 ^ (LENGTH('a) - 1)"
proof -
  have "int (magnitude w) < int (2 ^ (LENGTH('a) - 1))"
    using magnitude_less [of w] by (simp only: of_nat_less_iff)
  then show ?thesis by (simp add: ulp_index_def)
qed

lemma magnitude_index: "int (magnitude w) = \<bar>ulp_index w\<bar>"
  by (simp add: ulp_index_def)

lemma word_of_index:
  assumes "\<bar>i\<bar> < 2 ^ (LENGTH('a) - 1)"
  shows "\<exists>w :: 'a::len word. ulp_index w = i"
proof -
  define N :: nat where "N = 2 ^ (LENGTH('a) - 1)"
  define n where "n = (if i < 0 then N else 0) + nat \<bar>i\<bar>"
  define w :: "'a word" where "w = of_nat n"
  have l: "2 ^ LENGTH('a) = 2 * N"
    unfolding N_def by (metis One_nat_def Suc_pred len_gt_0 power_Suc)
  have less: "nat \<bar>i\<bar> < N" using assms by (simp add: N_def nat_less_iff)
  moreover from less have "n \<le> N + nat \<bar>i\<bar>" by (simp add: n_def)
  ultimately have "n < 2 ^ LENGTH('a)" using l by linarith
  then have "unat w = n" unfolding w_def by (simp only: unat_of_nat mod_less)
  then have "(if negative w then N else 0) + magnitude w = n"
    using unat_sign_magnitude [of w] by (simp only: N_def)
  moreover have "magnitude w < N" unfolding N_def by (rule magnitude_less)
  ultimately have "(negative w \<longleftrightarrow> i < 0) \<and> magnitude w = nat \<bar>i\<bar>"
    using less unfolding n_def by (auto split: if_splits)
  then show ?thesis by (intro exI [of _ w]) (simp add: ulp_index_def)
qed

lemma is_nan_between:
  fixes x y z :: "'a::len word"
  assumes "frac < LENGTH('a) - 1" and "\<not> is_nan frac x" and "\<not> is_nan frac y"
    and "min (ulp_index x) (ulp_index y) \<le> ulp_index z" and "ulp_index z \<le> max (ulp_index x) (ulp_index y)"
  shows "\<not> is_nan frac z"
proof -
  have "\<bar>ulp_index z\<bar> \<le> \<bar>ulp_index x\<bar> \<or> \<bar>ulp_index z\<bar> \<le> \<bar>ulp_index y\<bar>"
    using assms(4,5) by (auto simp: min_def max_def split: if_splits)
  then have "magnitude z \<le> magnitude x \<or> magnitude z \<le> magnitude y"
    by (simp only: magnitude_index [symmetric] of_nat_le_iff)
  then show ?thesis using assms(2,3) by (auto simp: is_nan_iff [OF assms(1)])
qed

text \<open>The number with a given position.\<close>

definition index_value :: "nat \<Rightarrow> int \<Rightarrow> int" where
  "index_value frac i = (if i < 0 then - int (absolute_value frac (nat (- i))) else int (absolute_value frac (nat i)))"

lemma float_value_index: "float_value frac w = index_value frac (ulp_index w)"
  by (auto simp: float_value_def index_value_def ulp_index_def)

lemma index_value_inj: "inj (index_value frac)"
proof (rule injI)
  have less: "index_value frac i < index_value frac j" if "i < j" for i j
    using that absolute_value_less [of frac "nat i" "nat j"] absolute_value_less [of frac "nat (- j)" "nat (- i)"]
      absolute_value_pos [of frac "nat (- i)"]
    by (auto simp: index_value_def)
  fix i j assume "index_value frac i = index_value frac j"
  then show "i = j" using less [of i j] less [of j i] by (cases i j rule: linorder_cases) auto
qed

lemma values_between_card:
  fixes x y :: "'a::len word"
  assumes "frac < LENGTH('a) - 1" and "\<not> is_nan frac x" and "\<not> is_nan frac y"
  shows "int (card (values_between frac x y)) = \<bar>ulp_index x - ulp_index y\<bar>"
proof -
  let ?lo = "min (ulp_index x) (ulp_index y)" and ?hi = "max (ulp_index x) (ulp_index y)"
  have range: "min (float_value frac x) (float_value frac y) < float_value frac z \<and>
      float_value frac z \<le> max (float_value frac x) (float_value frac y) \<longleftrightarrow>
      ?lo < ulp_index z \<and> ulp_index z \<le> ?hi" for z :: "'a word"
    using float_value_less [of frac x z] float_value_less [of frac y z]
      float_value_less [of frac z x] float_value_less [of frac z y]
    by (auto simp: min_less_iff_disj le_max_iff_disj not_less [symmetric])
  have "values_between frac x y = index_value frac ` {?lo<..?hi}"
  proof
    show "values_between frac x y \<subseteq> index_value frac ` {?lo<..?hi}"
      by (auto simp: values_between_def range) (auto simp: float_value_index)
    show "index_value frac ` {?lo<..?hi} \<subseteq> values_between frac x y"
    proof
      fix v assume "v \<in> index_value frac ` {?lo<..?hi}"
      then obtain i where i: "v = index_value frac i" "?lo < i" "i \<le> ?hi" by auto
      have "\<bar>i\<bar> < 2 ^ (LENGTH('a) - 1)"
        using i(2,3) ulp_index_bounds [of x] ulp_index_bounds [of y] by (auto simp: min_def max_def split: if_splits)
      then obtain z :: "'a word" where z: "ulp_index z = i" using word_of_index by blast
      have "\<not> is_nan frac z" using is_nan_between [OF assms] i(2,3) z by simp
      then show "v \<in> values_between frac x y"
        using i z unfolding values_between_def range by (auto simp: float_value_index)
    qed
  qed
  moreover have "card (index_value frac ` {?lo<..?hi}) = card {?lo<..?hi}"
    by (rule card_image) (rule inj_on_subset [OF index_value_inj subset_UNIV])
  ultimately show ?thesis by (simp add: min_def max_def)
qed

section \<open>Properties\<close>

text \<open>
  C27. Two floating-point numbers are almost equal exactly when both are numbers and at most four
  of the numbers that the type can represent lie after the smaller one up to the greater one, for
  every size of the format; so both zeros are equal, and the relation is the same across the change
  of sign and the change of exponent.
\<close>

theorem AlmostEquals_four_steps:
  assumes "frac < LENGTH('a) - 1"
  shows "AlmostEquals frac x (y :: 'a::len word) \<longleftrightarrow>
    \<not> is_nan frac x \<and> \<not> is_nan frac y \<and> card (values_between frac x y) \<le> 4"
proof (cases "is_nan frac x \<or> is_nan frac y")
  case False
  then have "int (card (values_between frac x y)) = int (unat (DistanceBetweenSignAndMagnitudeNumbers x y))"
    using values_between_card [OF assms, of x y] unat_distance [of x y] by simp
  then have "card (values_between frac x y) = unat (DistanceBetweenSignAndMagnitudeNumbers x y)"
    by (simp only: of_nat_eq_iff)
  with False show ?thesis by (simp add: AlmostEquals_def kMaxUlps_def)
qed (auto simp: AlmostEquals_def)

text \<open>A \<open>float\<close>: the two numbers next to 1 are almost equal to it, and the zeros to each other.\<close>

theorem AlmostEquals_four_steps_witness:
  "card (values_between 23 (0x3F7FFFFF :: 32 word) 0x3F800001) \<le> 4 \<and>
   card (values_between 23 (0 :: 32 word) 0x80000000) \<le> 4 \<and>
   \<not> card (values_between 23 (0x3F7FFFFF :: 32 word) 0x3F800004) \<le> 4"
proof -
  have num: "\<not> is_nan 23 (0x3F7FFFFF :: 32 word)" "\<not> is_nan 23 (0x3F800001 :: 32 word)"
    "\<not> is_nan 23 (0 :: 32 word)" "\<not> is_nan 23 (0x80000000 :: 32 word)" "\<not> is_nan 23 (0x3F800004 :: 32 word)"
    by code_simp+
  have "AlmostEquals 23 (0x3F7FFFFF :: 32 word) 0x3F800001" "AlmostEquals 23 (0 :: 32 word) 0x80000000"
    "\<not> AlmostEquals 23 (0x3F7FFFFF :: 32 word) 0x3F800004"
    by code_simp+
  then show ?thesis
    using num AlmostEquals_four_steps [of 23 "0x3F7FFFFF :: 32 word" "0x3F800001"]
      AlmostEquals_four_steps [of 23 "0 :: 32 word" "0x80000000"]
      AlmostEquals_four_steps [of 23 "0x3F7FFFFF :: 32 word" "0x3F800004"] by simp
qed

end
