(* ===== verification/Gtest_Linked_Ptr.thy ===== *)
theory Gtest_Linked_Ptr
  imports Prelude
begin

text \<open>
  \<open>linked_ptr\<close> (\<open>gtest-linked_ptr.h\<close>): the smart pointers that own an object together form a circle
  through their \<open>next_\<close> members, and the one that leaves as the last deletes the object. The store
  maps the address of a \<open>linked_ptr\<close> to its two members. Walking around a circle may not end and is a
  \<open>partial_function\<close>. Shown: the circles are at all times the sets of the pointers with the same
  object, so that the pointers refine the map of owners, and an object is deleted once, when its last
  owner goes. The mutex is left out, and so are destructors of owned objects that hold pointers
  themselves.
\<close>

section \<open>The circle of links\<close>

record ('p, 'o) ptr_store =
  link_next :: "'p \<Rightarrow> 'p option"
  ptr_value :: "'p \<Rightarrow> 'o option option"
  objects_deleted :: "'o list"

definition join_new :: "'p \<Rightarrow> ('p, 'o) ptr_store \<Rightarrow> ('p, 'o) ptr_store" where
  "join_new this s = s\<lparr>link_next := (link_next s)(this \<mapsto> this)\<rparr>"

text \<open>\<open>while (p->next_ != ptr) p = p->next_;\<close>\<close>

partial_function (option) walk_circle :: "('p \<Rightarrow> 'p option) \<Rightarrow> 'p \<Rightarrow> 'p \<Rightarrow> 'p res option" where
  "walk_circle link ptr p =
     (case link p of
        None \<Rightarrow> Some (Inl UseAfterFree)
      | Some q \<Rightarrow> if q = ptr then Some (Inr p) else walk_circle link ptr q)"

definition predecessor :: "('p \<Rightarrow> 'p option) \<Rightarrow> 'p \<Rightarrow> 'p \<Rightarrow> 'p res" where
  "predecessor link ptr p = (case walk_circle link ptr p of None \<Rightarrow> Inl NoReturn | Some r \<Rightarrow> r)"

definition link_join :: "'p \<Rightarrow> 'p \<Rightarrow> ('p, 'o) ptr_store \<Rightarrow> ('p, 'o) ptr_store res" where
  "link_join this ptr s =
     bind_res (predecessor (link_next s) ptr ptr)
       (\<lambda>p. Inr (s\<lparr>link_next := (link_next s)(p \<mapsto> this, this \<mapsto> ptr)\<rparr>))"

definition link_depart :: "'p \<Rightarrow> ('p, 'o) ptr_store \<Rightarrow> (('p, 'o) ptr_store \<times> bool) res" where
  "link_depart this s =
     (case link_next s this of
        None \<Rightarrow> Inl UseAfterFree
      | Some n \<Rightarrow>
          if n = this then Inr (s, True)
          else bind_res (predecessor (link_next s) this n)
            (\<lambda>p. Inr (s\<lparr>link_next := (link_next s)(p \<mapsto> n)\<rparr>, False)))"

section \<open>The smart pointer\<close>

definition ptr_get :: "'p \<Rightarrow> ('p, 'o) ptr_store \<Rightarrow> 'o option res" where
  "ptr_get ptr s = (case ptr_value s ptr of None \<Rightarrow> Inl UseAfterFree | Some v \<Rightarrow> Inr v)"

text \<open>\<open>delete\<close> of a null pointer does nothing.\<close>

definition delete_object :: "'o option \<Rightarrow> ('p, 'o) ptr_store \<Rightarrow> ('p, 'o) ptr_store" where
  "delete_object v s =
     (case v of None \<Rightarrow> s | Some x \<Rightarrow> s\<lparr>objects_deleted := objects_deleted s @ [x]\<rparr>)"

definition ptr_depart :: "'p \<Rightarrow> ('p, 'o) ptr_store \<Rightarrow> ('p, 'o) ptr_store res" where
  "ptr_depart this s =
     bind_res (link_depart this s) (\<lambda>(s, last).
       if last then bind_res (ptr_get this s) (\<lambda>v. Inr (delete_object v s)) else Inr s)"

definition capture :: "'p \<Rightarrow> 'o option \<Rightarrow> ('p, 'o) ptr_store \<Rightarrow> ('p, 'o) ptr_store" where
  "capture this ptr s = join_new this (s\<lparr>ptr_value := (ptr_value s)(this \<mapsto> ptr)\<rparr>)"

definition ptr_copy :: "'p \<Rightarrow> 'p \<Rightarrow> ('p, 'o) ptr_store \<Rightarrow> ('p, 'o) ptr_store res" where
  "ptr_copy this ptr s =
     bind_res (ptr_get ptr s) (\<lambda>v.
       let s = s\<lparr>ptr_value := (ptr_value s)(this \<mapsto> v)\<rparr> in
       if v \<noteq> None then link_join this ptr s else Inr (join_new this s))"

definition linked_ptr :: "'p \<Rightarrow> 'o option \<Rightarrow> ('p, 'o) ptr_store \<Rightarrow> ('p, 'o) ptr_store res" where
  "linked_ptr this ptr s = Inr (capture this ptr s)"

definition destroy_linked_ptr :: "'p \<Rightarrow> ('p, 'o) ptr_store \<Rightarrow> ('p, 'o) ptr_store res" where
  "destroy_linked_ptr this s =
     bind_res (ptr_depart this s) (\<lambda>s.
       Inr (s\<lparr>link_next := (link_next s)(this := None), ptr_value := (ptr_value s)(this := None)\<rparr>))"

definition linked_ptr_copy :: "'p \<Rightarrow> 'p \<Rightarrow> ('p, 'o) ptr_store \<Rightarrow> ('p, 'o) ptr_store res" where
  "linked_ptr_copy this ptr s = assert_res (ptr \<noteq> this) (ptr_copy this ptr s)"

definition ptr_assign :: "'p \<Rightarrow> 'p \<Rightarrow> ('p, 'o) ptr_store \<Rightarrow> ('p, 'o) ptr_store res" where
  "ptr_assign this ptr s = (if ptr \<noteq> this then bind_res (ptr_depart this s) (ptr_copy this ptr) else Inr s)"

text \<open>The assignment from a pointer of another type has no test for the object itself.\<close>

definition ptr_assign_other :: "'p \<Rightarrow> 'p \<Rightarrow> ('p, 'o) ptr_store \<Rightarrow> ('p, 'o) ptr_store res" where
  "ptr_assign_other this ptr s = bind_res (ptr_depart this s) (ptr_copy this ptr)"

definition ptr_reset :: "'p \<Rightarrow> 'o option \<Rightarrow> ('p, 'o) ptr_store \<Rightarrow> ('p, 'o) ptr_store res" where
  "ptr_reset this ptr s = bind_res (ptr_depart this s) (\<lambda>s. Inr (capture this ptr s))"

text \<open>What a program does with its smart pointers.\<close>

datatype ('p, 'o) ptr_op =
    Construct 'p "'o option"
  | Construct_Copy 'p 'p
  | Assign 'p 'p
  | Assign_Other 'p 'p
  | Reset 'p "'o option"
  | Destroy 'p

fun ptr_step :: "('p, 'o) ptr_op \<Rightarrow> ('p, 'o) ptr_store \<Rightarrow> ('p, 'o) ptr_store res" where
  "ptr_step (Construct p v) s = linked_ptr p v s"
| "ptr_step (Construct_Copy p q) s = linked_ptr_copy p q s"
| "ptr_step (Assign p q) s = ptr_assign p q s"
| "ptr_step (Assign_Other p q) s = ptr_assign_other p q s"
| "ptr_step (Reset p v) s = ptr_reset p v s"
| "ptr_step (Destroy p) s = destroy_linked_ptr p s"

fun ptr_run :: "('p, 'o) ptr_op list \<Rightarrow> ('p, 'o) ptr_store \<Rightarrow> ('p, 'o) ptr_store res" where
  "ptr_run [] s = Inr s"
| "ptr_run (p # ps) s = bind_res (ptr_step p s) (ptr_run ps)"

definition no_pointers :: "('p, 'o) ptr_store" where
  "no_pointers = \<lparr>link_next = \<lambda>_. None, ptr_value = \<lambda>_. None, objects_deleted = []\<rparr>"

section \<open>Shared ownership\<close>

text \<open>
  What the pointers promise: a map of owners and the list of deleted objects. Giving up a
  pointer deletes its object when no other pointer has it.
\<close>

type_synonym ('p, 'o) owners = "('p \<Rightarrow> 'o option option) \<times> 'o list"

definition release :: "'p \<Rightarrow> ('p, 'o) owners \<Rightarrow> ('p, 'o) owners" where
  "release p o_d = (case o_d of (own, del) \<Rightarrow>
     (own(p := None),
      case own p of
        Some (Some x) \<Rightarrow> if \<exists>q. q \<noteq> p \<and> own q = Some (Some x) then del else del @ [x]
      | _ \<Rightarrow> del))"

definition acquire :: "'p \<Rightarrow> 'o option \<Rightarrow> ('p, 'o) owners \<Rightarrow> ('p, 'o) owners" where
  "acquire p v o_d = (case o_d of (own, del) \<Rightarrow> (own(p \<mapsto> v), del))"

fun owner_step :: "('p, 'o) ptr_op \<Rightarrow> ('p, 'o) owners \<Rightarrow> ('p, 'o) owners" where
  "owner_step (Construct p v) a = acquire p v a"
| "owner_step (Construct_Copy p q) a = acquire p (the (fst a q)) a"
| "owner_step (Assign p q) a = (if p = q then a else acquire p (the (fst a q)) (release p a))"
| "owner_step (Assign_Other p q) a = acquire p (the (fst a q)) (release p a)"
| "owner_step (Reset p v) a = acquire p v (release p a)"
| "owner_step (Destroy p) a = release p a"

text \<open>
  What the pointers ask of the program: a constructor gets memory without a pointer in it, the other
  operations existing pointers, and a raw pointer that is handed over is null or a new object.
\<close>

definition new_object :: "'o option \<Rightarrow> ('p, 'o) owners \<Rightarrow> bool" where
  "new_object v a \<longleftrightarrow> (\<forall>x. v = Some x \<longrightarrow> x \<notin> set (snd a) \<and> Some (Some x) \<notin> range (fst a))"

fun well_used :: "('p, 'o) ptr_op \<Rightarrow> ('p, 'o) owners \<Rightarrow> bool" where
  "well_used (Construct p v) a \<longleftrightarrow> fst a p = None \<and> new_object v a"
| "well_used (Construct_Copy p q) a \<longleftrightarrow> fst a p = None \<and> fst a q \<noteq> None"
| "well_used (Assign p q) a \<longleftrightarrow> fst a p \<noteq> None \<and> fst a q \<noteq> None"
| "well_used (Assign_Other p q) a \<longleftrightarrow> fst a p \<noteq> None \<and> fst a q \<noteq> None \<and> p \<noteq> q"
| "well_used (Reset p v) a \<longleftrightarrow> fst a p \<noteq> None \<and> new_object v a"
| "well_used (Destroy p) a \<longleftrightarrow> fst a p \<noteq> None"

fun all_well_used :: "('p, 'o) ptr_op list \<Rightarrow> ('p, 'o) owners \<Rightarrow> bool" where
  "all_well_used [] a \<longleftrightarrow> True"
| "all_well_used (p # ps) a \<longleftrightarrow> well_used p a \<and> all_well_used ps (owner_step p a)"

fun owner_run :: "('p, 'o) ptr_op list \<Rightarrow> ('p, 'o) owners \<Rightarrow> ('p, 'o) owners" where
  "owner_run [] a = a"
| "owner_run (p # ps) a = owner_run ps (owner_step p a)"

definition owners_of :: "('p, 'o) ptr_store \<Rightarrow> ('p, 'o) owners" where
  "owners_of s = (ptr_value s, objects_deleted s)"

section \<open>Circles\<close>

fun chain :: "('p \<Rightarrow> 'p option) \<Rightarrow> 'p \<Rightarrow> 'p list \<Rightarrow> 'p \<Rightarrow> bool" where
  "chain link p [] q \<longleftrightarrow> link p = Some q"
| "chain link p (a # ps) q \<longleftrightarrow> link p = Some a \<and> chain link a ps q"

lemma chain_append: "chain link p (xs @ a # ys) q \<longleftrightarrow> chain link p xs a \<and> chain link a ys q"
  by (induction xs arbitrary: p) auto

lemma chain_other [simp]: "x \<notin> set (p # ps) \<Longrightarrow> chain (link(x := v)) p ps q = chain link p ps q"
  by (induction ps arbitrary: p) auto

lemma chain_turn_end: "distinct (p # ps) \<Longrightarrow> chain link p ps q \<Longrightarrow>
    chain (link(last (p # ps) \<mapsto> r)) p ps r"
  by (induction ps arbitrary: p) auto

lemma walk_chain:
  "chain link p ps ptr \<Longrightarrow> ptr \<notin> set ps \<Longrightarrow> walk_circle link ptr p = Some (Inr (last (p # ps)))"
  by (induction ps arbitrary: p) (auto simp: walk_circle.simps [where p = p for p])

lemma predecessor_chain:
  "chain link p ps ptr \<Longrightarrow> ptr \<notin> set ps \<Longrightarrow> predecessor link ptr p = Inr (last (p # ps))"
  by (simp add: predecessor_def walk_chain)

definition circle :: "('p \<Rightarrow> 'p option) \<Rightarrow> 'p \<Rightarrow> 'p set \<Rightarrow> bool" where
  "circle link p C \<longleftrightarrow> (\<exists>ps. chain link p ps p \<and> distinct (p # ps) \<and> set (p # ps) = C)"

lemma circle_other: "circle link p C \<Longrightarrow> x \<notin> C \<Longrightarrow> circle (link(x := v)) p C"
  unfolding circle_def by (metis chain_other)

lemma circle_member: "circle link p C \<Longrightarrow> q \<in> C \<Longrightarrow> circle link q C"
proof -
  assume "circle link p C" "q \<in> C"
  then obtain ps where ps: "chain link p ps p" "distinct (p # ps)" "set (p # ps) = C"
    by (auto simp: circle_def)
  show ?thesis
  proof (cases "q = p")
    case True
    then show ?thesis using ps by (auto simp: circle_def)
  next
    case False
    then obtain xs ys where "ps = xs @ q # ys"
      using \<open>q \<in> C\<close> ps(3) by (auto dest: split_list)
    then have "chain link q (ys @ p # xs) q" "distinct (q # ys @ p # xs)" "set (q # ys @ p # xs) = C"
      using ps by (auto simp: chain_append)
    then show ?thesis unfolding circle_def by blast
  qed
qed

lemma circle_new: "circle (link(p \<mapsto> p)) p {p}"
  unfolding circle_def by (rule exI [of _ "[]"]) simp

text \<open>Each pointer lies on a circle with the pointers to the same object.\<close>

definition mates :: "('p \<Rightarrow> 'o option option) \<Rightarrow> 'p \<Rightarrow> 'p set" where
  "mates own p = (if own p = Some None then {p} else {q. own q = own p})"

definition linked :: "('p \<Rightarrow> 'p option) \<Rightarrow> ('p \<Rightarrow> 'o option option) \<Rightarrow> bool" where
  "linked link own \<longleftrightarrow> (\<forall>p. own p \<noteq> None \<longrightarrow> circle link p (mates own p))"

lemma linked_circle: "linked link own \<Longrightarrow> own p \<noteq> None \<Longrightarrow> circle link p (mates own p)"
  by (auto simp: linked_def)

lemma in_mates [simp]: "p \<in> mates own p"
  by (simp add: mates_def)

lemma mates_single: "own p = Some None \<Longrightarrow> mates own p = {p}"
  by (simp add: mates_def)

lemma mates_shared: "own p = Some (Some x) \<Longrightarrow> mates own p = {q. own q = Some (Some x)}"
  by (simp add: mates_def)

lemma mates_same: "q \<in> mates own p \<Longrightarrow> mates own q = mates own p"
  by (auto simp: mates_def split: if_splits)

lemma mates_live: "q \<in> mates own p \<Longrightarrow> own p \<noteq> None \<Longrightarrow> own q \<noteq> None"
  by (auto simp: mates_def split: if_splits)

lemma mates_leave: "p \<noteq> this \<Longrightarrow> own p \<noteq> None \<Longrightarrow> mates (own(this := None)) p = mates own p - {this}"
  by (auto simp: mates_def)

lemma link_depart_ok:
  assumes "linked (link_next s) own" and "own this = Some v"
  shows "\<exists>s'. link_depart this s = Inr (s', mates own this = {this}) \<and> ptr_value s' = ptr_value s \<and>
    objects_deleted s' = objects_deleted s \<and> linked (link_next s') (own(this := None))"
proof -
  obtain ps where ps: "chain (link_next s) this ps this" "distinct (this # ps)" "set (this # ps) = mates own this"
    using linked_circle [OF assms(1), of this] assms(2) by (auto simp: circle_def)
  show ?thesis
  proof (cases ps)
    case Nil
    have "circle (link_next s) p (mates (own(this := None)) p)" if "p \<noteq> this" "own p \<noteq> None" for p
    proof -
      have "this \<notin> mates own p" using that ps(3) Nil mates_same [of this own p] by auto
      then have "mates (own(this := None)) p = mates own p" using that by (simp add: mates_leave)
      with linked_circle [OF assms(1) that(2)] show ?thesis by simp
    qed
    then have "linked (link_next s) (own(this := None))" by (simp add: linked_def)
    then show ?thesis using ps Nil by (auto simp: link_depart_def)
  next
    case (Cons n ns)
    define l where "l = last (n # ns)"
    define link' where "link' = (link_next s)(l \<mapsto> n)"
    have n: "link_next s this = Some n" "n \<noteq> this" "chain (link_next s) n ns this" "this \<notin> set ns"
      using ps(1,2) Cons by auto
    have "l \<in> set ps" unfolding l_def Cons by (rule last_in_set) simp
    with ps(2) have "l \<noteq> this" "l \<in> set (this # ps)" by auto
    then have l: "l \<in> mates own this" "l \<noteq> this" unfolding ps(3) by simp_all
    have "chain link' n ns n"
      unfolding link'_def l_def by (rule chain_turn_end [OF _ n(3)]) (use ps(2) Cons in simp)
    moreover have rest: "set (n # ns) = mates own this - {this}" using ps(2,3) Cons by auto
    ultimately have "circle link' n (mates own this - {this})"
      using ps(2) Cons unfolding circle_def by auto
    then have "circle link' p (mates (own(this := None)) p)" if "p \<noteq> this" "own p \<noteq> None" for p
    proof (cases "p \<in> mates own this")
      case True
      then have "mates (own(this := None)) p = mates own this - {this}"
        using that by (simp add: mates_leave mates_same)
      with circle_member [OF \<open>circle link' n _\<close>, of p] True that show ?thesis by simp
    next
      case False
      have "l \<notin> mates own p" "this \<notin> mates own p"
        using False l(1) mates_same [of l own p] mates_same [of l own this] mates_same [of this own p] by auto
      then have "mates (own(this := None)) p = mates own p" using that by (simp add: mates_leave)
      then show ?thesis
        using circle_other [OF linked_circle [OF assms(1) that(2)] \<open>l \<notin> mates own p\<close>] by (simp add: link'_def)
    qed
    then have "linked link' (own(this := None))" by (simp add: linked_def)
    moreover have "predecessor (link_next s) this n = Inr l"
      unfolding l_def using n(3,4) by (rule predecessor_chain)
    moreover have "mates own this \<noteq> {this}" using l by blast
    ultimately show ?thesis using n(1,2) by (auto simp: link_depart_def link'_def)
  qed
qed

lemma linked_join:
  assumes "linked (link_next s) own" and "own this = None" and "own ptr = Some (Some x)"
  shows "\<exists>s'. link_join this ptr s = Inr s' \<and> ptr_value s' = ptr_value s \<and>
    objects_deleted s' = objects_deleted s \<and> linked (link_next s') (own(this \<mapsto> Some x))"
proof -
  obtain ps where ps: "chain (link_next s) ptr ps ptr" "distinct (ptr # ps)" "set (ptr # ps) = mates own ptr"
    using linked_circle [OF assms(1), of ptr] assms(3) by (auto simp: circle_def)
  define l where "l = last (ptr # ps)"
  define link' where "link' = (link_next s)(l \<mapsto> this, this \<mapsto> ptr)"
  have out: "this \<notin> mates own ptr" using assms(2,3) mates_live [of this own ptr] by auto
  have "l \<in> set (ptr # ps)" unfolding l_def by (rule last_in_set) simp
  with ps(3) have l: "l \<in> mates own ptr" by (simp only:)
  have "chain ((link_next s)(l \<mapsto> this)) ptr ps this"
    unfolding l_def by (rule chain_turn_end [OF ps(2,1)])
  moreover have fresh: "this \<notin> set (ptr # ps)" using out unfolding ps(3) .
  ultimately have "chain link' ptr (ps @ [this]) ptr" by (simp add: link'_def chain_append)
  moreover have "distinct (ptr # ps @ [this])" using ps(2) fresh by auto
  moreover have "set (ptr # ps @ [this]) = insert this (set (ptr # ps))" by auto
  ultimately have new: "circle link' ptr (insert this (mates own ptr))"
    unfolding circle_def ps(3) by blast
  have "circle link' p (mates (own(this \<mapsto> Some x)) p)" if "p = this \<or> own p \<noteq> None" for p
  proof (cases "p \<in> insert this (mates own ptr)")
    case True
    then have p: "(own(this \<mapsto> Some x)) p = Some (Some x)"
      unfolding mates_shared [where own = own and p = ptr, OF assms(3)] by auto
    have "mates (own(this \<mapsto> Some x)) p = insert this (mates own ptr)"
      unfolding mates_shared [where own = own and p = ptr, OF assms(3)]
        mates_shared [where own = "own(this \<mapsto> Some x)", OF p] by auto
    with circle_member [OF new True] show ?thesis by simp
  next
    case False
    then have "mates (own(this \<mapsto> Some x)) p = mates own p"
      using assms(2,3) that by (auto simp: mates_def)
    moreover have "l \<notin> mates own p" using False l mates_same [of l own p] mates_same [of l own ptr] by auto
    moreover have "this \<notin> mates own p" using assms(2) that False mates_live [of this own p] by auto
    moreover have "own p \<noteq> None" using that False by auto
    ultimately show ?thesis
      unfolding link'_def by (simp add: circle_other linked_circle [OF assms(1)])
  qed
  then have "linked link' (own(this \<mapsto> Some x))" by (auto simp: linked_def)
  moreover have "predecessor (link_next s) ptr ptr = Inr l"
    unfolding l_def using ps by (intro predecessor_chain) auto
  ultimately show ?thesis by (auto simp: link_join_def link'_def)
qed

lemma linked_new:
  assumes "linked link own" and "own this = None" and "\<And>x. v = Some x \<Longrightarrow> Some (Some x) \<notin> range own"
  shows "linked (link(this \<mapsto> this)) (own(this \<mapsto> v))"
  unfolding linked_def
proof (intro allI impI)
  have new: "own q \<noteq> Some (Some x)" if "v = Some x" for q x
    using assms(3) [OF that] by (metis rangeI)
  fix p assume p: "(own(this \<mapsto> v)) p \<noteq> None"
  show "circle (link(this \<mapsto> this)) p (mates (own(this \<mapsto> v)) p)"
  proof (cases "p = this")
    case True
    have "mates (own(this \<mapsto> v)) this = {this}"
      using new by (cases v) (auto simp: mates_def)
    with True circle_new [of link this] show ?thesis by simp
  next
    case False
    have "own p \<noteq> None" using False p by simp
    have "mates (own(this \<mapsto> v)) p = mates own p"
      using False \<open>own p \<noteq> None\<close> assms(2) new by (auto simp: mates_def)
    moreover have "this \<notin> mates own p" using \<open>own p \<noteq> None\<close> assms(2) mates_live [of this own p] by auto
    ultimately show ?thesis by (simp add: circle_other linked_circle [OF assms(1) \<open>own p \<noteq> None\<close>])
  qed
qed

section \<open>The pointers implement shared ownership\<close>

definition ptrs_ok :: "('p, 'o) ptr_store \<Rightarrow> bool" where
  "ptrs_ok s \<longleftrightarrow> linked (link_next s) (ptr_value s)"

lemma mates_alone:
  "own p = Some (Some x) \<Longrightarrow> mates own p = {p} \<longleftrightarrow> \<not> (\<exists>q. q \<noteq> p \<and> own q = Some (Some x))"
  by (auto simp: mates_shared)

lemma ptr_depart_ok:
  assumes "ptrs_ok s" and "ptr_value s this = Some v"
  shows "\<exists>s'. ptr_depart this s = Inr s' \<and> ptr_value s' = ptr_value s \<and>
    objects_deleted s' = snd (release this (owners_of s)) \<and> linked (link_next s') ((ptr_value s)(this := None))"
proof -
  obtain s1 where s1: "link_depart this s = Inr (s1, mates (ptr_value s) this = {this})"
    "ptr_value s1 = ptr_value s" "objects_deleted s1 = objects_deleted s"
    "linked (link_next s1) ((ptr_value s)(this := None))"
    using link_depart_ok [OF assms(1) [unfolded ptrs_ok_def] assms(2)] by blast
  show ?thesis
  proof (cases v)
    case None
    with s1 assms(2) show ?thesis
      by (auto simp: ptr_depart_def ptr_get_def delete_object_def release_def owners_of_def mates_single)
  next
    case (Some x)
    then have "mates (ptr_value s) this = {this} \<longleftrightarrow> \<not> (\<exists>q. q \<noteq> this \<and> ptr_value s q = Some (Some x))"
      using assms(2) by (simp add: mates_alone)
    with s1 assms(2) Some show ?thesis
      by (auto simp: ptr_depart_def ptr_get_def delete_object_def release_def owners_of_def)
  qed
qed

lemma ptr_copy_ok:
  assumes "linked (link_next s) own" and "own this = None" and "own ptr = Some v" and "ptr_value s ptr = Some v"
  shows "\<exists>s'. ptr_copy this ptr s = Inr s' \<and> ptr_value s' = (ptr_value s)(this \<mapsto> v) \<and>
    objects_deleted s' = objects_deleted s \<and> linked (link_next s') (own(this \<mapsto> v))"
proof (cases v)
  case None
  then show ?thesis
    using assms linked_new [OF assms(1,2), of None] by (auto simp: ptr_copy_def ptr_get_def join_new_def)
next
  case (Some x)
  obtain s' where "link_join this ptr (s\<lparr>ptr_value := (ptr_value s)(this \<mapsto> v)\<rparr>) = Inr s'"
    "ptr_value s' = (ptr_value s)(this \<mapsto> v)" "objects_deleted s' = objects_deleted s"
    "linked (link_next s') (own(this \<mapsto> v))"
    using linked_join [of "s\<lparr>ptr_value := (ptr_value s)(this \<mapsto> v)\<rparr>" own this ptr x] assms Some by auto
  then show ?thesis using assms(4) Some by (simp add: ptr_copy_def ptr_get_def)
qed

lemma capture_ok:
  assumes "linked (link_next s) own" and "own this = None" and "\<And>x. v = Some x \<Longrightarrow> Some (Some x) \<notin> range own"
  shows "linked (link_next (capture this v s)) (own(this \<mapsto> v))"
  using linked_new [OF assms] by (simp add: capture_def join_new_def)

lemma capture_simps [simp]:
  "ptr_value (capture this v s) = (ptr_value s)(this \<mapsto> v)"
  "objects_deleted (capture this v s) = objects_deleted s"
  by (simp_all add: capture_def join_new_def)

lemma release_fst: "fst (release p a) = (fst a)(p := None)"
  by (cases a) (simp add: release_def)

lemma acquire_fst: "fst (acquire p v a) = (fst a)(p \<mapsto> v)"
  by (cases a) (simp add: acquire_def)

lemma ptr_step_ok:
  assumes "ptrs_ok s" and "well_used p (owners_of s)"
  shows "\<exists>s'. ptr_step p s = Inr s' \<and> ptrs_ok s' \<and> owners_of s' = owner_step p (owners_of s)"
proof -
  have leave: "\<exists>s1. ptr_depart this s = Inr s1 \<and> ptr_value s1 = ptr_value s \<and>
      objects_deleted s1 = snd (release this (owners_of s)) \<and> linked (link_next s1) ((ptr_value s)(this := None))"
    if "ptr_value s this \<noteq> None" for this
    using ptr_depart_ok [OF assms(1)] that by blast
  have assigned: "\<exists>s'. bind_res (ptr_depart this s) (ptr_copy this ptr) = Inr s' \<and> ptrs_ok s' \<and>
      owners_of s' = acquire this (the (fst (owners_of s) ptr)) (release this (owners_of s))"
    if "ptr_value s this \<noteq> None" "ptr_value s ptr = Some v" "this \<noteq> ptr" for this ptr v
  proof -
    note live = that
    obtain s1 where s1: "ptr_depart this s = Inr s1" "ptr_value s1 = ptr_value s"
      "objects_deleted s1 = snd (release this (owners_of s))" "linked (link_next s1) ((ptr_value s)(this := None))"
      using leave [OF live(1)] by blast
    have "\<exists>s'. ptr_copy this ptr s1 = Inr s' \<and> ptr_value s' = (ptr_value s1)(this \<mapsto> v) \<and>
        objects_deleted s' = objects_deleted s1 \<and> linked (link_next s') (((ptr_value s)(this := None))(this \<mapsto> v))"
      using live s1(2) by (intro ptr_copy_ok [OF s1(4)]) auto
    with s1 live show ?thesis
      by (auto simp: ptrs_ok_def owners_of_def acquire_def release_fst [of this "owners_of s"] release_def)
  qed
  show ?thesis
  proof (cases p)
    case (Construct q v)
    then show ?thesis
      using assms capture_ok [of s "ptr_value s" q v]
      by (auto simp: ptrs_ok_def owners_of_def new_object_def linked_ptr_def acquire_def)
  next
    case (Construct_Copy q r)
    then obtain v where v: "ptr_value s q = None" "ptr_value s r = Some v"
      using assms(2) by (auto simp: owners_of_def)
    with assms(1) have "\<exists>s'. ptr_copy q r s = Inr s' \<and> ptr_value s' = (ptr_value s)(q \<mapsto> v) \<and>
        objects_deleted s' = objects_deleted s \<and> linked (link_next s') ((ptr_value s)(q \<mapsto> v))"
      unfolding ptrs_ok_def by (intro ptr_copy_ok)
    with v Construct_Copy show ?thesis
      by (cases "r = q") (auto simp: linked_ptr_copy_def ptrs_ok_def owners_of_def acquire_def)
  next
    case (Assign q r)
    then show ?thesis
      using assms assigned [of q r] by (auto simp: ptr_assign_def owners_of_def)
  next
    case (Assign_Other q r)
    then show ?thesis
      using assms assigned [of q r] by (auto simp: ptr_assign_other_def owners_of_def)
  next
    case (Reset q v)
    then have q: "ptr_value s q \<noteq> None" "new_object v (owners_of s)" using assms(2) by (auto simp: owners_of_def)
    obtain s1 where s1: "ptr_depart q s = Inr s1" "ptr_value s1 = ptr_value s"
      "objects_deleted s1 = snd (release q (owners_of s))" "linked (link_next s1) ((ptr_value s)(q := None))"
      using leave [OF q(1)] by blast
    have "linked (link_next (capture q v s1)) (((ptr_value s)(q := None))(q \<mapsto> v))"
      by (rule capture_ok [OF s1(4)]) (use q(2) in \<open>auto simp: new_object_def owners_of_def\<close>)
    with s1 Reset show ?thesis
      by (auto simp: ptr_reset_def ptrs_ok_def owners_of_def acquire_def release_def)
  next
    case (Destroy q)
    then obtain s1 where s1: "ptr_depart q s = Inr s1" "ptr_value s1 = ptr_value s"
      "objects_deleted s1 = snd (release q (owners_of s))" "linked (link_next s1) ((ptr_value s)(q := None))"
      using leave [of q] assms(2) by (auto simp: owners_of_def)
    have "linked ((link_next s1)(q := None)) ((ptr_value s)(q := None))"
      unfolding linked_def
    proof (intro allI impI)
      fix p assume p: "((ptr_value s)(q := None)) p \<noteq> None"
      have "q \<notin> mates ((ptr_value s)(q := None)) p"
        using mates_live [of q _ p] p by fastforce
      then show "circle ((link_next s1)(q := None)) p (mates ((ptr_value s)(q := None)) p)"
        by (intro circle_other linked_circle [OF s1(4) p])
    qed
    with s1 Destroy show ?thesis
      by (auto simp: destroy_linked_ptr_def ptrs_ok_def owners_of_def release_def)
  qed
qed


text \<open>In the abstract, every object that is handed over has an owner or was deleted once.\<close>

fun hands_over :: "('p, 'o) ptr_op \<Rightarrow> 'o set" where
  "hands_over (Construct p v) = set_option v"
| "hands_over (Reset p v) = set_option v"
| "hands_over _ = {}"

definition handed_over :: "('p, 'o) ptr_op list \<Rightarrow> 'o set" where
  "handed_over ops = \<Union> (hands_over ` set ops)"

definition owned :: "('p \<Rightarrow> 'o option option) \<Rightarrow> 'o \<Rightarrow> bool" where
  "owned own x \<longleftrightarrow> (\<exists>p. own p = Some (Some x))"

definition accounted :: "'o set \<Rightarrow> ('p, 'o) owners \<Rightarrow> bool" where
  "accounted H a \<longleftrightarrow> (\<forall>x. (owned (fst a) x \<longrightarrow> x \<in> H) \<and>
     count_list (snd a) x = (if x \<in> H \<and> \<not> owned (fst a) x then 1 else 0))"

lemma owned_update: "owned (own(p := v)) x \<longleftrightarrow> v = Some (Some x) \<or> (\<exists>q. q \<noteq> p \<and> own q = Some (Some x))"
  by (auto simp: owned_def)

lemma accounted_release: "accounted H a \<Longrightarrow> accounted H (release p a)"
proof -
  assume a: "accounted H a"
  obtain own del where od: "a = (own, del)" by fastforce
  have "owned own x \<longleftrightarrow> own p = Some (Some x) \<or> (\<exists>q. q \<noteq> p \<and> own q = Some (Some x))" for x
    by (auto simp: owned_def)
  with a show ?thesis
    by (auto simp: od accounted_def release_def owned_update split: option.splits if_splits)
qed

lemma owned_acquire: "own p = None \<Longrightarrow> owned (own(p \<mapsto> v)) x \<longleftrightarrow> v = Some x \<or> owned own x"
  unfolding owned_update unfolding owned_def by (metis option.distinct(1) option.inject)

lemma accounted_acquire:
  assumes "accounted H a" and "fst a p = None" and "\<And>x. v = Some x \<Longrightarrow> x \<notin> H \<or> owned (fst a) x"
  shows "accounted (H \<union> set_option v) (acquire p v a)"
  using assms by (cases a; cases v) (auto simp: accounted_def acquire_def owned_acquire split: if_splits)

lemma accounted_new: "accounted H a \<Longrightarrow> new_object (Some x) a \<Longrightarrow> x \<notin> H"
  unfolding accounted_def new_object_def owned_def
  by (metis count_list_0_iff rangeI zero_neq_one)

lemma accounted_step:
  assumes "accounted H a" and "well_used p a"
  shows "accounted (H \<union> hands_over p) (owner_step p a)"
proof -
  have copy: "accounted H (acquire q (the (fst a r)) b)"
    if "accounted H b" "fst b q = None" "fst b r = fst a r" "fst a r \<noteq> None" for q r b
  proof -
    note given = that
    obtain v where v: "fst a r = Some v" using given(4) by auto
    then have o: "owned (fst b) x" if "v = Some x" for x using \<open>fst b r = fst a r\<close> that by (auto simp: owned_def)
    then have "set_option v \<subseteq> H" using given(1) by (cases v) (auto simp: accounted_def)
    with accounted_acquire [OF given(1,2), of v] o v show ?thesis by (simp add: Un_absorb2)
  qed
  have left: "accounted H (release q a)" "fst (release q a) q = None" for q
    using accounted_release [OF assms(1)] by (auto simp: release_fst)
  show ?thesis
  proof (cases p)
    case (Construct q v)
    then have "x \<notin> H" if "v = Some x" for x using assms(2) that accounted_new [OF assms(1), of x] by auto
    with Construct assms show ?thesis by (auto intro!: accounted_acquire)
  next
    case (Reset q v)
    then have "x \<notin> H" if "v = Some x" for x using assms(2) that accounted_new [OF assms(1), of x] by auto
    with Reset left show ?thesis by (auto intro!: accounted_acquire)
  next
    case (Construct_Copy q r)
    then show ?thesis using assms copy [of a q r] by auto
  next
    case (Assign q r)
    then show ?thesis using assms left copy [of "release q a" q r] by (auto simp: release_fst)
  next
    case (Assign_Other q r)
    then show ?thesis using assms left copy [of "release q a" q r] by (auto simp: release_fst)
  next
    case (Destroy q)
    then show ?thesis using left by simp
  qed
qed

lemma accounted_run:
  "accounted H a \<Longrightarrow> all_well_used ops a \<Longrightarrow> accounted (H \<union> handed_over ops) (owner_run ops a)"
proof (induction ops arbitrary: H a)
  case (Cons p ops)
  have "accounted (H \<union> hands_over p \<union> handed_over ops) (owner_run ops (owner_step p a))"
    using Cons.prems by (intro Cons.IH accounted_step) auto
  then show ?case by (simp add: handed_over_def Un_assoc)
qed (simp add: handed_over_def)

lemma ptr_run_ok:
  "ptrs_ok s \<Longrightarrow> all_well_used ops (owners_of s) \<Longrightarrow>
    \<exists>s'. ptr_run ops s = Inr s' \<and> ptrs_ok s' \<and> owners_of s' = owner_run ops (owners_of s)"
proof (induction ops arbitrary: s)
  case (Cons p ops)
  obtain s1 where "ptr_step p s = Inr s1" "ptrs_ok s1" "owners_of s1 = owner_step p (owners_of s)"
    using ptr_step_ok [OF Cons.prems(1), of p] Cons.prems(2) by auto
  with Cons.IH [of s1] Cons.prems(2) show ?case by simp
qed simp

text \<open>
  C28. Smart pointers implement shared ownership. Whatever a program does with them (each raw
  pointer being handed over once, and only existing pointers being used), no operation fails or walks
  around a circle for ever, every pointer has the object that the map of owners gives it, and an
  object is deleted exactly when it has been handed over and no pointer has it any more, and then once.
\<close>

theorem linked_ptrs_share:
  assumes "all_well_used ops (owners_of no_pointers)"
  shows "\<exists>s. ptr_run ops no_pointers = Inr s \<and> owners_of s = owner_run ops (owners_of no_pointers) \<and>
    (\<forall>x. count_list (objects_deleted s) x =
      (if x \<in> handed_over ops \<and> \<not> (\<exists>p. ptr_value s p = Some (Some x)) then 1 else 0))"
proof -
  have "ptrs_ok no_pointers" by (simp add: ptrs_ok_def linked_def no_pointers_def)
  then obtain s where s: "ptr_run ops no_pointers = Inr s" "owners_of s = owner_run ops (owners_of no_pointers)"
    using ptr_run_ok assms by blast
  have "accounted {} (owners_of no_pointers)"
    by (simp add: accounted_def owned_def owners_of_def no_pointers_def)
  then have "accounted (handed_over ops) (owners_of s)"
    using accounted_run [of "{}"] assms s(2) by fastforce
  then have "\<forall>x. count_list (objects_deleted s) x =
      (if x \<in> handed_over ops \<and> \<not> (\<exists>p. ptr_value s p = Some (Some x)) then 1 else 0)"
    by (simp add: accounted_def owned_def owners_of_def)
  with s show ?thesis by blast
qed

theorem linked_ptrs_share_witness:
  "\<exists>s. ptr_run [Construct 11 (Some ''a''), Construct_Copy 12 11, Construct 13 None, Assign 13 12,
      Destroy 11, Reset 12 (Some ''b''), Destroy (13 :: int)] no_pointers = Inr s \<and>
    count_list (objects_deleted s) ''a'' = 1 \<and> count_list (objects_deleted s) ''b'' = 0"
proof -
  let ?ops = "[Construct 11 (Some ''a''), Construct_Copy 12 11, Construct 13 None, Assign 13 12,
    Destroy 11, Reset 12 (Some ''b''), Destroy (13 :: int)]"
  have "all_well_used ?ops (owners_of no_pointers)"
    by (simp add: owners_of_def no_pointers_def new_object_def release_fst acquire_fst) (simp add: acquire_def release_def image_iff)
  then obtain s where s: "ptr_run ?ops no_pointers = Inr s" "owners_of s = owner_run ?ops (owners_of no_pointers)"
    "count_list (objects_deleted s) x =
      (if x \<in> handed_over ?ops \<and> \<not> (\<exists>p. ptr_value s p = Some (Some x)) then 1 else 0)" for x
    using linked_ptrs_share by blast
  have "ptr_value s = [12 \<mapsto> Some ''b'']"
    using arg_cong [OF s(2), of fst] by (auto simp: owners_of_def no_pointers_def release_fst acquire_fst fun_eq_iff)
  with s(1) s(3) [of "''a''"] s(3) [of "''b''"] show ?thesis
    by (auto simp: handed_over_def)
qed

end
