(* ===== verification/Gtest_String.thy ===== *)
theory Gtest_String
  imports Prelude
begin

text \<open>
  The class \<open>String\<close> of the unit-test framework and its conversion of wide strings to UTF-8
  (\<open>gtest/src/gtest.cc\<close>). A string is the list of the characters before its terminator, \<open>NULL\<close> is
  \<open>None\<close>. A wide character is a 32-bit word; whether \<open>wchar_t\<close> has 2 bytes (UTF-16, the upper half
  of the word is then 0) or 4 (UTF-32, Linux) is the argument \<open>sizeof_wchar_t\<close>. The specification
  of the conversion is a strict decoder of UTF-8.
\<close>

section \<open>Printing numbers\<close>

definition hex_digit :: "nat \<Rightarrow> char" where
  "hex_digit d = (if d < 10 then char_of (48 + d) else char_of (55 + d))"

fun hex_of_nat :: "nat \<Rightarrow> string" where
  "hex_of_nat n = (if n < 16 then [hex_digit n] else hex_of_nat (n div 16) @ [hex_digit (n mod 16)])"

declare hex_of_nat.simps [simp del]

text \<open>\<open>std::setfill('0')\<close> and \<open>std::setw(2)\<close>.\<close>

definition fill_width2 :: "string \<Rightarrow> string" where
  "fill_width2 s = replicate (2 - length s) CHR ''0'' @ s"

definition FormatIntWidth2 :: "int \<Rightarrow> string" where
  "FormatIntWidth2 value = fill_width2 (dec_of_int value)"

definition FormatHexInt :: "32 word \<Rightarrow> string" where
  "FormatHexInt value = hex_of_nat (unat value)"

definition FormatByte :: "8 word \<Rightarrow> string" where
  "FormatByte value = fill_width2 (hex_of_nat (unat value))"

section \<open>Comparing C strings\<close>

definition CStringEquals :: "string option \<Rightarrow> string option \<Rightarrow> bool" where
  "CStringEquals lhs rhs =
     (case lhs of
        None \<Rightarrow> rhs = None
      | Some l \<Rightarrow> (case rhs of None \<Rightarrow> False | Some r \<Rightarrow> l = r))"

text \<open>\<open>tolower\<close> of the C locale, and \<open>strcasecmp\<close> being 0.\<close>

definition to_lower :: "char \<Rightarrow> char" where
  "to_lower c = (if 65 \<le> (of_char c :: nat) \<and> (of_char c :: nat) \<le> 90 then char_of (of_char c + 32 :: nat) else c)"

fun strcasecmp0 :: "string \<Rightarrow> string \<Rightarrow> bool" where
  "strcasecmp0 [] [] = True"
| "strcasecmp0 (a # s) (b # t) = (to_lower a = to_lower b \<and> strcasecmp0 s t)"
| "strcasecmp0 _ _ = False"

definition CaseInsensitiveCStringEquals :: "string option \<Rightarrow> string option \<Rightarrow> bool" where
  "CaseInsensitiveCStringEquals lhs rhs =
     (case lhs of
        None \<Rightarrow> rhs = None
      | Some l \<Rightarrow> (case rhs of None \<Rightarrow> False | Some r \<Rightarrow> strcasecmp0 l r))"

definition EndsWithCaseInsensitive :: "string \<Rightarrow> string \<Rightarrow> bool" where
  "EndsWithCaseInsensitive str suffix =
     (let str_len = length str; suffix_len = length suffix in
      suffix_len \<le> str_len \<and>
      CaseInsensitiveCStringEquals (Some (c_str (drop (str_len - suffix_len) str))) (Some (c_str suffix)))"

section \<open>UTF-8\<close>

definition kMaxCodePoint1 :: "32 word" where "kMaxCodePoint1 = push_bit 7 1 - 1"
definition kMaxCodePoint2 :: "32 word" where "kMaxCodePoint2 = push_bit (5 + 6) 1 - 1"
definition kMaxCodePoint3 :: "32 word" where "kMaxCodePoint3 = push_bit (4 + 2 * 6) 1 - 1"
definition kMaxCodePoint4 :: "32 word" where "kMaxCodePoint4 = push_bit (3 + 3 * 6) 1 - 1"

unbundle bit_operations_syntax

text \<open>The low bits, and the pattern that is left.\<close>

definition ChopLowBits :: "32 word \<Rightarrow> nat \<Rightarrow> 32 word \<times> 32 word" where
  "ChopLowBits bits n = (let low_bits = bits AND (push_bit n 1 - 1) in (low_bits, drop_bit n bits))"

definition char_cast :: "32 word \<Rightarrow> char" where
  "char_cast w = char_of (unat w)"

definition CodePointToUtf8 :: "32 word \<Rightarrow> string" where
  "CodePointToUtf8 code_point =
     (if code_point > kMaxCodePoint4 then ''(Invalid Unicode 0x'' @ FormatHexInt code_point @ '')''
      else c_str
       (if code_point \<le> kMaxCodePoint1 then [char_cast code_point, NUL]
        else if code_point \<le> kMaxCodePoint2 then
          (let (low1, code_point) = ChopLowBits code_point 6 in
           [char_cast (0xC0 OR code_point), char_cast (0x80 OR low1), NUL])
        else if code_point \<le> kMaxCodePoint3 then
          (let (low2, code_point) = ChopLowBits code_point 6;
               (low1, code_point) = ChopLowBits code_point 6 in
           [char_cast (0xE0 OR code_point), char_cast (0x80 OR low1), char_cast (0x80 OR low2), NUL])
        else
          (let (low3, code_point) = ChopLowBits code_point 6;
               (low2, code_point) = ChopLowBits code_point 6;
               (low1, code_point) = ChopLowBits code_point 6 in
           [char_cast (0xF0 OR code_point), char_cast (0x80 OR low1), char_cast (0x80 OR low2),
            char_cast (0x80 OR low3), NUL])))"

definition IsUtf16SurrogatePair :: "nat \<Rightarrow> 32 word \<Rightarrow> 32 word \<Rightarrow> bool" where
  "IsUtf16SurrogatePair sizeof_wchar_t first second \<longleftrightarrow>
     sizeof_wchar_t = 2 \<and> first AND 0xFC00 = 0xD800 \<and> second AND 0xFC00 = 0xDC00"

definition CreateCodePointFromUtf16SurrogatePair :: "nat \<Rightarrow> 32 word \<Rightarrow> 32 word \<Rightarrow> 32 word" where
  "CreateCodePointFromUtf16SurrogatePair sizeof_wchar_t first second =
     (let mask = push_bit 10 1 - 1 in
      if sizeof_wchar_t = 2 then (push_bit 10 (first AND mask) OR (second AND mask)) + 0x10000
      else first)"

text \<open>
  The loop over the characters; \<open>n\<close> is \<open>num_chars - i\<close>, the list the rest of the string from
  \<open>str[i]\<close> on. The character behind the last one is the terminator.
\<close>

function wide_loop :: "nat \<Rightarrow> int \<Rightarrow> 32 word list \<Rightarrow> string" where
  "wide_loop sizeof_wchar_t n str =
     (if n \<le> 0 then []
      else case str of
        [] \<Rightarrow> []
      | c # rest \<Rightarrow>
          if c = 0 then []
          else if 1 < n \<and> IsUtf16SurrogatePair sizeof_wchar_t c (case rest of [] \<Rightarrow> 0 | d # _ \<Rightarrow> d) then
            CodePointToUtf8 (CreateCodePointFromUtf16SurrogatePair sizeof_wchar_t c
              (case rest of [] \<Rightarrow> 0 | d # _ \<Rightarrow> d)) @ wide_loop sizeof_wchar_t (n - 2) (drop 1 rest)
          else CodePointToUtf8 c @ wide_loop sizeof_wchar_t (n - 1) rest)"
  by pat_completeness auto
termination by (relation "measure (\<lambda>(s, n, str). nat n)") auto

declare wide_loop.simps [simp del]

text \<open>\<open>StringStreamToString\<close>: the text of a stream with its NUL characters made visible.\<close>

definition StringStreamToString :: "string \<Rightarrow> string" where
  "StringStreamToString ss = concat (map (\<lambda>ch. if ch = NUL then [CHR 0x5C, CHR ''0''] else [ch]) ss)"

text \<open>\<open>Message::GetString\<close> of the text streamed to a message.\<close>

definition AppendUserMessage :: "string \<Rightarrow> string \<Rightarrow> string" where
  "AppendUserMessage gtest_msg user_msg =
     (let user_msg_string = StringStreamToString user_msg in
      if user_msg_string = [] then gtest_msg else gtest_msg @ LF # user_msg_string)"

definition WideStringToUtf8 :: "nat \<Rightarrow> 32 word list \<Rightarrow> int \<Rightarrow> string" where
  "WideStringToUtf8 sizeof_wchar_t str num_chars =
     (let num_chars = (if num_chars = - 1 then sint (int_of_size (length str)) else num_chars) in
      StringStreamToString (wide_loop sizeof_wchar_t num_chars str))"

definition ShowWideCString :: "nat \<Rightarrow> 32 word list option \<Rightarrow> string" where
  "ShowWideCString sizeof_wchar_t wide_c_str =
     (case wide_c_str of None \<Rightarrow> ''(null)'' | Some s \<Rightarrow> WideStringToUtf8 sizeof_wchar_t s (- 1))"

definition WideCStringEquals :: "32 word list option \<Rightarrow> 32 word list option \<Rightarrow> bool" where
  "WideCStringEquals lhs rhs =
     (case lhs of
        None \<Rightarrow> rhs = None
      | Some l \<Rightarrow> (case rhs of None \<Rightarrow> False | Some r \<Rightarrow> l = r))"

text \<open>\<open>StreamWideCharsToMessage\<close>: what it appends to the message for an array with its length.\<close>

function StreamWideCharsToMessage :: "nat \<Rightarrow> 32 word list \<Rightarrow> string" where
  "StreamWideCharsToMessage sizeof_wchar_t [] = []"
| "StreamWideCharsToMessage sizeof_wchar_t (w # wstr) =
     (if w \<noteq> 0 then
        WideStringToUtf8 sizeof_wchar_t (w # wstr) (sint (int_of_size (length (w # wstr)))) @
        StreamWideCharsToMessage sizeof_wchar_t (dropWhile (\<lambda>c. c \<noteq> 0) (w # wstr))
      else NUL # StreamWideCharsToMessage sizeof_wchar_t wstr)"
  by pat_completeness auto
termination by (relation "measure (\<lambda>(s, w). length w)") (auto simp: le_imp_less_Suc length_dropWhile_le)

section \<open>Splitting a text\<close>

fun split_on :: "char \<Rightarrow> string \<Rightarrow> string list" where
  "split_on c [] = [[]]"
| "split_on c (d # s) =
     (if d = c then [] # split_on c s
      else (case split_on c s of [] \<Rightarrow> [[d]] | w # ws \<Rightarrow> (d # w) # ws))"

lemma split_on_plain: "c \<notin> set s \<Longrightarrow> split_on c s = [s]"
  by (induction s) auto

lemma split_on_first: "c \<notin> set s \<Longrightarrow> split_on c (s @ c # t) = s # split_on c t"
  by (induction s) auto

lemma split_on_not_Nil: "split_on c s \<noteq> []"
  by (cases s) (auto split: list.splits)

section \<open>A strict decoder of UTF-8\<close>

definition lead_byte :: "nat \<Rightarrow> (nat \<times> nat) option" where
  "lead_byte b =
     (if b < 0x80 then Some (0, b) else if b < 0xC0 then None else if b < 0xE0 then Some (1, b - 0xC0)
      else if b < 0xF0 then Some (2, b - 0xE0) else if b < 0xF8 then Some (3, b - 0xF0) else None)"

definition continuation :: "char \<Rightarrow> bool" where
  "continuation c \<longleftrightarrow> 0x80 \<le> (of_char c :: nat) \<and> (of_char c :: nat) < 0xC0"

fun read_continuation :: "nat \<Rightarrow> nat \<Rightarrow> string \<Rightarrow> (nat \<times> string) option" where
  "read_continuation 0 v s = Some (v, s)"
| "read_continuation (Suc n) v [] = None"
| "read_continuation (Suc n) v (c # s) =
     (if continuation c then read_continuation n (64 * v + (of_char c - 0x80)) s else None)"

definition least_value :: "nat \<Rightarrow> nat" where
  "least_value n = (if n = 0 then 0 else if n = 1 then 0x80 else if n = 2 then 0x800 else 0x10000)"

lemma read_continuation_shorter: "read_continuation n v s = Some (w, t) \<Longrightarrow> length t \<le> length s"
  by (induction n v s rule: read_continuation.induct) (auto split: if_splits)

text \<open>Surplus leading bytes are an error as well as missing ones.\<close>

function utf8_decode :: "string \<Rightarrow> nat list option" where
  "utf8_decode [] = Some []"
| "utf8_decode (c # s) =
     (case lead_byte (of_char c) of
        None \<Rightarrow> None
      | Some (n, v) \<Rightarrow>
          (case read_continuation n v s of
             None \<Rightarrow> None
           | Some (w, t) \<Rightarrow>
               if w < least_value n then None else map_option ((#) w) (utf8_decode t)))"
  by pat_completeness auto
termination
  by (relation "measure length") (auto dest!: read_continuation_shorter)

section \<open>Encoding and decoding\<close>

lemma unat_high_or_low:
  fixes w :: "32 word"
  assumes "unat w < 2 ^ k" and "m * 2 ^ k + unat w < 2 ^ 32"
  shows "unat (of_nat (m * 2 ^ k) OR w) = m * 2 ^ k + unat w"
proof -
  have w: "take_bit k w = w" using assms(1)
    by (metis take_bit_nat_eq_self unsigned_take_bit_eq word_unat_eq_iff)
  have "of_nat (m * 2 ^ k) = push_bit k (of_nat m :: 32 word)"
    by (simp add: push_bit_eq_mult)
  then have "of_nat (m * 2 ^ k) AND w = 0"
    by (subst w [symmetric]) (auto intro!: bit_eqI simp: bit_simps)
  then have "of_nat (m * 2 ^ k) OR w = of_nat (m * 2 ^ k) + w"
    by (rule disjunctive_add_eq_or [symmetric])
  also have "\<dots> = of_nat (m * 2 ^ k + unat w)" by simp
  finally have "unat (of_nat (m * 2 ^ k) OR w) = unat (of_nat (m * 2 ^ k + unat w) :: 32 word)"
    by (rule arg_cong)
  also have "\<dots> = m * 2 ^ k + unat w" using assms(2) by (simp only: unat_of_nat) simp
  finally show ?thesis .
qed

lemma ChopLowBits_div_mod:
  assumes "ChopLowBits w n = (low, rest)" and "n < 32"
  shows "unat low = unat w mod 2 ^ n" and "unat rest = unat w div 2 ^ n"
proof -
  have "low = take_bit n w" "rest = drop_bit n w"
    using assms(1) by (auto simp: ChopLowBits_def take_bit_eq_mask mask_eq_decr_exp push_bit_eq_mult)
  then show "unat low = unat w mod 2 ^ n" "unat rest = unat w div 2 ^ n"
    by (simp_all only: unsigned_take_bit_eq unat_drop_bit_eq) (simp_all only: take_bit_eq_mod drop_bit_eq_div)
qed

lemma of_char_cast: "unat w < 256 \<Longrightarrow> (of_char (char_cast w) :: nat) = unat w"
  by (simp add: char_cast_def)

lemma cast_continuation:
  assumes "unat low < 64"
  shows "(of_char (char_cast (0x80 OR low)) :: nat) = 0x80 + unat low" and "continuation (char_cast (0x80 OR low))"
proof -
  have "unat (0x80 OR low) = 0x80 + unat low"
    using unat_high_or_low [of low 7 1] assms by simp
  then show "(of_char (char_cast (0x80 OR low)) :: nat) = 0x80 + unat low"
    using assms of_char_cast [of "0x80 OR low"] by simp
  then show "continuation (char_cast (0x80 OR low))" using assms by (simp add: continuation_def)
qed

lemma cast_lead:
  "unat w < 0x20 \<Longrightarrow> (of_char (char_cast (0xC0 OR w)) :: nat) = 0xC0 + unat w"
  "unat w < 0x10 \<Longrightarrow> (of_char (char_cast (0xE0 OR w)) :: nat) = 0xE0 + unat w"
  "unat w < 0x08 \<Longrightarrow> (of_char (char_cast (0xF0 OR w)) :: nat) = 0xF0 + unat w"
  using unat_high_or_low [of w 5 6] unat_high_or_low [of w 4 14] unat_high_or_low [of w 3 30]
  by (simp_all add: of_char_cast)

lemma unat_kMax:
  "unat kMaxCodePoint1 = 0x7F" "unat kMaxCodePoint2 = 0x7FF" "unat kMaxCodePoint3 = 0xFFFF"
  "unat kMaxCodePoint4 = 0x1FFFFF"
  by (simp_all add: kMaxCodePoint1_def kMaxCodePoint2_def kMaxCodePoint3_def kMaxCodePoint4_def)

lemma no_NUL: "(\<And>c. c \<in> set s \<Longrightarrow> 0 < (of_char c :: nat)) \<Longrightarrow> NUL \<notin> set s"
  by force

lemma c_str_bytes: "NUL \<notin> set s \<Longrightarrow> c_str (s @ [NUL]) = s"
  by (rule c_str_append_NUL)

lemma reads_one_byte: "continuation b \<Longrightarrow> read_continuation 1 v (b # s) = Some (64 * v + (of_char b - 0x80), s)"
  by simp

lemma reads_two_bytes:
  "continuation b \<Longrightarrow> continuation c \<Longrightarrow>
     read_continuation 2 v (b # c # s) = Some (64 * (64 * v + (of_char b - 0x80)) + (of_char c - 0x80), s)"
  by (simp add: numeral_2_eq_2)

lemma reads_three_bytes:
  "continuation b \<Longrightarrow> continuation c \<Longrightarrow> continuation d \<Longrightarrow>
     read_continuation 3 v (b # c # d # s) =
       Some (64 * (64 * (64 * v + (of_char b - 0x80)) + (of_char c - 0x80)) + (of_char d - 0x80), s)"
  by (simp add: numeral_3_eq_3)

lemma utf8_decode_step:
  assumes "lead_byte (of_char a) = Some (n, v)" and "read_continuation n v u = Some (w, s)" and "least_value n \<le> w"
  shows "utf8_decode (a # u) = map_option ((#) w) (utf8_decode s)"
  using assms by simp

lemma CodePointToUtf8_decodes:
  assumes "0 < unat cp" and "unat cp \<le> 0x1FFFFF"
  shows "utf8_decode (CodePointToUtf8 cp @ s) = map_option ((#) (unat cp)) (utf8_decode s)"
    and "NUL \<notin> set (CodePointToUtf8 cp)" and "CodePointToUtf8 cp \<noteq> []"
proof -
  let ?P = "\<lambda>u. utf8_decode (u @ s) = map_option ((#) (unat cp)) (utf8_decode s) \<and> NUL \<notin> set u \<and> u \<noteq> []"
  obtain l3 r3 where c3: "ChopLowBits cp 6 = (l3, r3)" by fastforce
  obtain l2 r2 where c2: "ChopLowBits r3 6 = (l2, r2)" by fastforce
  obtain l1 r1 where c1: "ChopLowBits r2 6 = (l1, r1)" by fastforce
  note chop = ChopLowBits_div_mod [OF c3] ChopLowBits_div_mod [OF c2] ChopLowBits_div_mod [OF c1]
  have low: "unat l3 < 64" "unat l2 < 64" "unat l1 < 64"
    and v3: "unat cp = 64 * unat r3 + unat l3" and v2: "unat r3 = 64 * unat r2 + unat l2"
    and v1: "unat r2 = 64 * unat r1 + unat l1"
    using chop by simp_all
  note cont = cast_continuation [OF low(1)] cast_continuation [OF low(2)] cast_continuation [OF low(3)]
  note kMax = word_le_nat_alt word_less_nat_alt unat_kMax
  have valid: "\<not> cp > kMaxCodePoint4" using assms(2) by (simp add: kMax)
  consider "unat cp \<le> 0x7F" | "0x7F < unat cp" "unat cp \<le> 0x7FF" | "0x7FF < unat cp" "unat cp \<le> 0xFFFF"
    | "0xFFFF < unat cp" by linarith
  then have "\<exists>u. CodePointToUtf8 cp = c_str (u @ [NUL]) \<and> ?P u"
  proof cases
    case 1
    have eq: "CodePointToUtf8 cp = c_str ([char_cast cp] @ [NUL])"
      using valid 1 by (simp add: CodePointToUtf8_def kMax)
    have "(of_char (char_cast cp) :: nat) = unat cp" using 1 by (simp add: of_char_cast)
    moreover from this have "NUL \<notin> set [char_cast cp]" using assms(1) by (intro no_NUL) simp
    ultimately have "?P [char_cast cp]"
      using assms(1) 1 by (simp add: lead_byte_def least_value_def)
    with eq show ?thesis by blast
  next
    case 2
    let ?u = "[char_cast (0xC0 OR r3), char_cast (0x80 OR l3)]"
    have a: "(of_char (char_cast (0xC0 OR r3)) :: nat) = 0xC0 + unat r3" and r: "unat r3 < 0x20"
      using 2 v3 by (auto intro: cast_lead)
    have "CodePointToUtf8 cp = c_str (?u @ [NUL])"
      using valid 2 by (simp add: CodePointToUtf8_def kMax c3)
    moreover have "utf8_decode (?u @ s) = map_option ((#) (unat cp)) (utf8_decode s)"
      using a r 2 cont v3 by (auto intro!: utf8_decode_step reads_one_byte simp: lead_byte_def least_value_def)
    moreover have "NUL \<notin> set ?u" by (rule no_NUL) (auto simp: a cont)
    ultimately show ?thesis by (intro exI [of _ ?u]) simp
  next
    case 3
    let ?u = "[char_cast (0xE0 OR r2), char_cast (0x80 OR l2), char_cast (0x80 OR l3)]"
    have a: "(of_char (char_cast (0xE0 OR r2)) :: nat) = 0xE0 + unat r2" and r: "unat r2 < 0x10"
      using 3 v3 v2 by (auto intro: cast_lead)
    have "CodePointToUtf8 cp = c_str (?u @ [NUL])"
      using valid 3 by (simp add: CodePointToUtf8_def kMax c3 c2)
    moreover have "utf8_decode (?u @ s) = map_option ((#) (unat cp)) (utf8_decode s)"
      using a r 3 cont v3 v2 by (simp add: lead_byte_def least_value_def reads_two_bytes)
    moreover have "NUL \<notin> set ?u" by (rule no_NUL) (auto simp: a cont)
    ultimately show ?thesis by (intro exI [of _ ?u]) simp
  next
    case 4
    let ?u = "[char_cast (0xF0 OR r1), char_cast (0x80 OR l1), char_cast (0x80 OR l2), char_cast (0x80 OR l3)]"
    have a: "(of_char (char_cast (0xF0 OR r1)) :: nat) = 0xF0 + unat r1" and r: "unat r1 < 0x08"
      using assms(2) v3 v2 v1 by (auto intro: cast_lead)
    have "CodePointToUtf8 cp = c_str (?u @ [NUL])"
      using valid 4 by (simp add: CodePointToUtf8_def kMax c3 c2 c1)
    moreover have "utf8_decode (?u @ s) = map_option ((#) (unat cp)) (utf8_decode s)"
      using a r 4 cont v3 v2 v1 by (simp add: lead_byte_def least_value_def reads_three_bytes)
    moreover have "NUL \<notin> set ?u" by (rule no_NUL) (auto simp: a cont)
    ultimately show ?thesis by (intro exI [of _ ?u]) simp
  qed
  then obtain u where "CodePointToUtf8 cp = c_str (u @ [NUL])" "?P u" by blast
  then show "utf8_decode (CodePointToUtf8 cp @ s) = map_option ((#) (unat cp)) (utf8_decode s)"
    "NUL \<notin> set (CodePointToUtf8 cp)" "CodePointToUtf8 cp \<noteq> []"
    by (simp_all add: c_str_bytes)
qed

section \<open>Wide strings\<close>

text \<open>The code points that are characters, without the terminator, and their wide encodings.\<close>

definition scalar_value :: "nat \<Rightarrow> bool" where
  "scalar_value n \<longleftrightarrow> 0 < n \<and> n \<le> 0x10FFFF \<and> \<not> (0xD800 \<le> n \<and> n \<le> 0xDFFF)"

definition utf16_units :: "nat \<Rightarrow> 32 word list" where
  "utf16_units n =
     (if n < 0x10000 then [of_nat n]
      else [of_nat (0xD800 + (n - 0x10000) div 0x400), of_nat (0xDC00 + (n - 0x10000) mod 0x400)])"

definition wide_encode :: "nat \<Rightarrow> nat list \<Rightarrow> 32 word list" where
  "wide_encode sizeof_wchar_t cps =
     concat (map (\<lambda>n. if sizeof_wchar_t = 2 then utf16_units n else [of_nat n]) cps)"

lemma surrogate_bits: "unat ((w :: 32 word) AND 0xFC00) = (unat w div 0x400 mod 0x40) * 0x400"
proof -
  have "w AND 0xFC00 = w AND push_bit 10 (mask 6)" by (simp add: mask_eq_exp_minus_1 push_bit_eq_mult)
  also have "\<dots> = push_bit 10 (take_bit 6 (drop_bit 10 w))"
    by (auto intro!: bit_eqI simp: bit_simps)
  also have "\<dots> = of_nat (unat w div 0x400 mod 0x40 * 0x400)"
  proof -
    have "unat (take_bit 6 (drop_bit 10 w)) = unat w div 0x400 mod 0x40"
      by (simp only: unsigned_take_bit_eq unat_drop_bit_eq) (simp add: take_bit_eq_mod drop_bit_eq_div)
    moreover have "of_nat (unat v) = v" for v :: "32 word" by simp
    ultimately have "take_bit 6 (drop_bit 10 w) = of_nat (unat w div 0x400 mod 0x40)" by metis
    then show ?thesis by (simp add: push_bit_eq_mult)
  qed
  finally have "unat (w AND 0xFC00) = unat (of_nat (unat w div 0x400 mod 0x40 * 0x400) :: 32 word)"
    by (rule arg_cong)
  moreover have "unat w div 0x400 mod 0x40 * 0x400 < 2 ^ 32"
  proof -
    have "unat w div 0x400 mod 0x40 < 0x40" by simp
    then show ?thesis by simp
  qed
  ultimately show ?thesis by (simp only: unat_of_nat) simp
qed

lemma surrogate_iff:
  assumes "n < 0x10000"
  shows "(of_nat n :: 32 word) AND 0xFC00 = 0xD800 \<longleftrightarrow> 0xD800 \<le> n \<and> n < 0xDC00"
    and "(of_nat n :: 32 word) AND 0xFC00 = 0xDC00 \<longleftrightarrow> 0xDC00 \<le> n \<and> n < 0xE000"
proof -
  have "unat (of_nat n :: 32 word) = n" using assms by (simp add: unat_of_nat)
  then have "unat ((of_nat n :: 32 word) AND 0xFC00) = (n div 0x400) * 0x400"
    using assms surrogate_bits [of "of_nat n"] by (simp add: div_less_iff_less_mult)
  then have "(of_nat n :: 32 word) AND 0xFC00 = 0xD800 \<longleftrightarrow> n div 0x400 = 0x36"
    "(of_nat n :: 32 word) AND 0xFC00 = 0xDC00 \<longleftrightarrow> n div 0x400 = 0x37"
    by (simp_all only: word_unat_eq_iff) simp_all
  moreover have "n div 0x400 = k \<longleftrightarrow> k * 0x400 \<le> n \<and> n < (k + 1) * 0x400" for k
    using less_eq_div_iff_mult_less_eq [of "0x400" k n] div_less_iff_less_mult [of "0x400" n "k + 1"] by auto
  ultimately show "(of_nat n :: 32 word) AND 0xFC00 = 0xD800 \<longleftrightarrow> 0xD800 \<le> n \<and> n < 0xDC00"
    "(of_nat n :: 32 word) AND 0xFC00 = 0xDC00 \<longleftrightarrow> 0xDC00 \<le> n \<and> n < 0xE000"
    by simp_all
qed

lemma surrogate_pair_value:
  assumes "a < 0x400" and "b < 0x400"
  shows "unat (CreateCodePointFromUtf16SurrogatePair 2 (of_nat (0xD800 + a)) (of_nat (0xDC00 + b))) =
    a * 0x400 + b + 0x10000"
proof -
  have low: "(of_nat (m * 0x400 + x) :: 32 word) AND (push_bit 10 1 - 1) = of_nat x" if "x < 0x400" "m < 0x40" for m x
  proof -
    have "(of_nat (m * 0x400 + x) :: 32 word) AND (push_bit 10 1 - 1) = take_bit 10 (of_nat (m * 0x400 + x))"
      by (simp add: take_bit_eq_mask mask_eq_exp_minus_1)
    also have "\<dots> = of_nat x"
    proof (rule word_unat_eq_iff [THEN iffD2])
      have "unat (of_nat (m * 0x400 + x) :: 32 word) = m * 0x400 + x"
        using that by (simp only: unat_of_nat) simp
      then show "unat (take_bit 10 (of_nat (m * 0x400 + x)) :: 32 word) = unat (of_nat x :: 32 word)"
        using that by (simp only: unsigned_take_bit_eq) (simp add: take_bit_eq_mod unat_of_nat)
    qed
    finally show ?thesis .
  qed
  have "(of_nat (0xD800 + a) :: 32 word) AND (push_bit 10 1 - 1) = of_nat a"
    using low [of a "0x36"] assms by simp
  moreover have "(of_nat (0xDC00 + b) :: 32 word) AND (push_bit 10 1 - 1) = of_nat b"
    using low [of b "0x37"] assms by simp
  moreover have "unat (of_nat (a * 2 ^ 10) OR of_nat b :: 32 word) = a * 2 ^ 10 + b"
    using unat_high_or_low [of "of_nat b" 10 a] assms by (simp add: unat_of_nat)
  ultimately show ?thesis using assms
    by (simp add: CreateCodePointFromUtf16SurrogatePair_def push_bit_eq_mult unat_word_ariths(1))
qed

lemma wide_loop_single:
  assumes "0 < n" and "0 < unat c" and "c AND 0xFC00 \<noteq> 0xD800 \<or> sizeof_wchar_t \<noteq> 2"
  shows "wide_loop sizeof_wchar_t n (c # rest) = CodePointToUtf8 c @ wide_loop sizeof_wchar_t (n - 1) rest"
proof -
  have "c \<noteq> 0" using assms(2) by auto
  then show ?thesis
    using assms by (subst wide_loop.simps) (auto simp: IsUtf16SurrogatePair_def)
qed

lemma wide_loop_pair:
  assumes "1 < n" and "a < 0x400" and "b < 0x400"
  shows "wide_loop 2 n (of_nat (0xD800 + a) # of_nat (0xDC00 + b) # rest) =
    CodePointToUtf8 (CreateCodePointFromUtf16SurrogatePair 2 (of_nat (0xD800 + a)) (of_nat (0xDC00 + b))) @
    wide_loop 2 (n - 2) rest"
proof -
  have "unat (of_nat (0xD800 + a) :: 32 word) = 0xD800 + a"
    using assms(2) by (simp only: unat_of_nat) simp
  then have "(of_nat (0xD800 + a) :: 32 word) \<noteq> 0" by (auto simp del: of_nat_add)
  then show ?thesis
    using assms surrogate_iff(1) [of "0xD800 + a"] surrogate_iff(2) [of "0xDC00 + b"]
    by (subst wide_loop.simps) (simp add: IsUtf16SurrogatePair_def del: of_nat_add)
qed

lemma wide_encode_Cons:
  "wide_encode sizeof_wchar_t (cp # cps) =
     (if sizeof_wchar_t = 2 then utf16_units cp else [of_nat cp]) @ wide_encode sizeof_wchar_t cps"
  by (simp add: wide_encode_def)

lemma wide_loop_encode:
  assumes "scalar_value cp" and "int (length (wide_encode sizeof_wchar_t (cp # cps))) \<le> n"
  shows "\<exists>c. unat c = cp \<and> wide_loop sizeof_wchar_t n (wide_encode sizeof_wchar_t (cp # cps)) =
    CodePointToUtf8 c @ wide_loop sizeof_wchar_t
      (n - int (length (wide_encode sizeof_wchar_t [cp]))) (wide_encode sizeof_wchar_t cps)"
proof -
  have cp: "0 < cp" "cp \<le> 0x10FFFF" "\<not> (0xD800 \<le> cp \<and> cp \<le> 0xDFFF)"
    using assms(1) by (simp_all add: scalar_value_def)
  have un: "unat (of_nat cp :: 32 word) = cp" using cp(2) by (simp add: unat_of_nat)
  show ?thesis
  proof (cases "sizeof_wchar_t = 2 \<and> 0x10000 \<le> cp")
    case True
    define a where "a = (cp - 0x10000) div 0x400"
    define b where "b = (cp - 0x10000) mod 0x400"
    have ab: "a < 0x400" "b < 0x400" "cp = a * 0x400 + b + 0x10000"
      using True cp(2) div_mult_mod_eq [of "cp - 0x10000" "0x400"]
      unfolding a_def b_def by (auto simp: div_less_iff_less_mult)
    have units: "wide_encode sizeof_wchar_t (cp # xs) =
        of_nat (0xD800 + a) # of_nat (0xDC00 + b) # wide_encode sizeof_wchar_t xs" for xs
      using True by (simp add: wide_encode_Cons utf16_units_def a_def b_def)
    have len: "int (length (wide_encode sizeof_wchar_t [cp])) = 2"
      by (simp only: units) (simp add: wide_encode_def)
    have "1 < n" using assms(2) by (simp add: units)
    then show ?thesis
      using True wide_loop_pair [OF _ ab(1,2), of n "wide_encode 2 cps"] surrogate_pair_value [OF ab(1,2)] ab(3)
      unfolding units [of cps] len by blast
  next
    case False
    have units: "wide_encode sizeof_wchar_t (cp # xs) = of_nat cp # wide_encode sizeof_wchar_t xs" for xs
      using False by (auto simp: wide_encode_Cons utf16_units_def)
    have "0 < n" using assms(2) by (simp add: units)
    moreover have "(of_nat cp :: 32 word) AND 0xFC00 \<noteq> 0xD800 \<or> sizeof_wchar_t \<noteq> 2"
      using False cp(3) surrogate_iff(1) [of cp] by auto
    ultimately show ?thesis
      using wide_loop_single [of n "of_nat cp" sizeof_wchar_t "wide_encode sizeof_wchar_t cps"] un cp(1)
      by (intro exI [of _ "of_nat cp"]) (simp add: units, simp add: wide_encode_def)
  qed
qed

lemma wide_loop_decodes:
  assumes "list_all scalar_value cps" and "int (length (wide_encode sizeof_wchar_t cps)) \<le> n"
  shows "utf8_decode (wide_loop sizeof_wchar_t n (wide_encode sizeof_wchar_t cps)) = Some cps \<and>
    NUL \<notin> set (wide_loop sizeof_wchar_t n (wide_encode sizeof_wchar_t cps))"
  using assms
proof (induction cps arbitrary: n)
  case Nil
  then show ?case by (subst wide_loop.simps, subst wide_loop.simps) (simp add: wide_encode_def)
next
  case (Cons cp cps)
  let ?w = "wide_encode sizeof_wchar_t"
  from Cons.prems wide_loop_encode [of cp sizeof_wchar_t cps n] obtain c where
    c: "unat c = cp" "wide_loop sizeof_wchar_t n (?w (cp # cps)) =
      CodePointToUtf8 c @ wide_loop sizeof_wchar_t (n - int (length (?w [cp]))) (?w cps)" by auto
  have "int (length (?w cps)) \<le> n - int (length (?w [cp]))"
    using Cons.prems(2) by (simp add: wide_encode_def)
  note IH = Cons.IH [OF _ this]
  have "0 < unat c" "unat c \<le> 0x1FFFFF" using Cons.prems(1) c(1) by (auto simp: scalar_value_def)
  note dec = CodePointToUtf8_decodes [OF this]
  show ?case using IH dec Cons.prems(1) c by simp
qed

lemma StringStreamToString_id: "NUL \<notin> set s \<Longrightarrow> StringStreamToString s = s"
  by (induction s) (auto simp: StringStreamToString_def)

section \<open>Properties\<close>

text \<open>
  C26. Wide strings are converted to UTF-8 without loss: whether wide characters are UTF-16 or
  UTF-32 units, a wide string that encodes characters of Unicode is converted to a text that a
  strict decoder (no surplus bytes, nothing missing) reads as the same characters.
\<close>

theorem WideStringToUtf8_roundtrip:
  assumes "list_all scalar_value cps" and "length (wide_encode sizeof_wchar_t cps) < 2 ^ 31"
  shows "utf8_decode (WideStringToUtf8 sizeof_wchar_t (wide_encode sizeof_wchar_t cps) (- 1)) = Some cps"
  using wide_loop_decodes [OF assms(1) order_refl] assms(2)
  by (simp add: WideStringToUtf8_def sint_int_of_size StringStreamToString_id)

theorem WideStringToUtf8_roundtrip_witness:
  "utf8_decode (WideStringToUtf8 2 [0x41, 0x20AC, 0xD83D, 0xDE00] (- 1)) = Some [0x41, 0x20AC, 0x1F600]"
  using WideStringToUtf8_roundtrip [of "[0x41, 0x20AC, 0x1F600]" 2]
  by (simp add: scalar_value_def wide_encode_def utf16_units_def)

text \<open>
  What the comment calls invalid is only what has more than 21 bits: values between the end of
  Unicode and that bound are encoded.
\<close>

theorem beyond_unicode_is_encoded:
  "CodePointToUtf8 0x110000 = map char_of [0xF4, 0x90, 0x80, 0x80 :: nat] \<and>
   CodePointToUtf8 0x200000 = ''(Invalid Unicode 0x200000)''"
  by (simp add: CodePointToUtf8_def kMaxCodePoint1_def kMaxCodePoint2_def kMaxCodePoint3_def
      kMaxCodePoint4_def ChopLowBits_def char_cast_def c_str_def FormatHexInt_def hex_of_nat.simps
      hex_digit_def, code_simp)

end
