(* ===== verification/Gtest_Printers.thy ===== *)
theory Gtest_Printers
  imports Gtest_String
begin

text \<open>
  The universal printer (\<open>gtest-printers.cc\<close>, \<open>gtest-printers.h\<close>): how the values of a failed
  assertion are shown. A character is a word of the size of its type (8 bits, or those of
  \<open>wchar_t\<close>), and the template argument \<open>CharType\<close> is the size. The overloads of \<open>PrintTo\<close> that C++
  chooses by the type of a value are the cases of a datatype of values; what a user's own printer
  prints and the text of an address are part of the value. Shown: a printed string, read as the
  C++ literal it looks like, is the string itself, except where a zero character is followed by an
  octal digit.
\<close>

section \<open>Bytes of an object\<close>

fun byte_segment_loop :: "8 word list \<Rightarrow> nat \<Rightarrow> nat \<Rightarrow> nat list \<Rightarrow> string res" where
  "byte_segment_loop obj_bytes start count [] = Inr []"
| "byte_segment_loop obj_bytes start count (i # is) =
     (let j = start + i in
      if length obj_bytes \<le> j then Inl OutOfBounds
      else bind_res (byte_segment_loop obj_bytes start count is)
        (\<lambda>s. Inr ((if i \<noteq> 0 then (if j mod 2 = 0 then '' '' else ''-'') else []) @
          FormatByte (obj_bytes ! j) @ s)))"

definition PrintByteSegmentInObjectTo :: "8 word list \<Rightarrow> nat \<Rightarrow> nat \<Rightarrow> string res" where
  "PrintByteSegmentInObjectTo obj_bytes start count = byte_segment_loop obj_bytes start count [0..<count]"

definition PrintBytesInObjectToImpl :: "8 word list \<Rightarrow> nat \<Rightarrow> string res" where
  "PrintBytesInObjectToImpl obj_bytes count =
     (let kThreshold = 132; kChunkSize = 64 in
      bind_res
       (if count < kThreshold then PrintByteSegmentInObjectTo obj_bytes 0 count
        else
          (let resume_pos = (count - kChunkSize + 1) div 2 * 2 in
           bind_res (PrintByteSegmentInObjectTo obj_bytes 0 kChunkSize) (\<lambda>s.
           bind_res (PrintByteSegmentInObjectTo obj_bytes resume_pos (count - resume_pos)) (\<lambda>t.
             Inr (s @ '' ... '' @ t)))))
       (\<lambda>s. Inr (dec_of_nat count @ ''-byte object <'' @ s @ ''>'')))"

section \<open>Characters\<close>

datatype char_format = kAsIs | kHexEscape | kSpecialEscape

definition IsPrintableAscii :: "'a::len word \<Rightarrow> bool" where
  "IsPrintableAscii c \<longleftrightarrow> 0x20 \<le> unat c \<and> unat c \<le> 0x7E"

definition PrintAsCharLiteralTo :: "'a::len word \<Rightarrow> string \<times> char_format" where
  "PrintAsCharLiteralTo c =
     (let n = unat c; special = (\<lambda>x. ([CHR 0x5C, x], kSpecialEscape)) in
      if n = 0 then special CHR ''0''
      else if n = 39 then special CHR 0x27
      else if n = 92 then special CHR 0x5C
      else if n = 7 then special CHR ''a''
      else if n = 8 then special CHR ''b''
      else if n = 12 then special CHR ''f''
      else if n = 10 then special CHR ''n''
      else if n = 13 then special CHR ''r''
      else if n = 9 then special CHR ''t''
      else if n = 11 then special CHR ''v''
      else if IsPrintableAscii c then ([char_of n], kAsIs)
      else (CHR 0x5C # CHR ''x'' # FormatHexInt (ucast c), kHexEscape))"

definition PrintAsStringLiteralTo :: "'a::len word \<Rightarrow> string \<times> char_format" where
  "PrintAsStringLiteralTo c =
     (if unat c = 39 then ([CHR 0x27], kAsIs)
      else if unat c = 34 then ([CHR 0x5C, CHR 0x22], kSpecialEscape)
      else PrintAsCharLiteralTo c)"

text \<open>
  The code of the character is printed as an \<open>int\<close>: \<open>code\<close> is \<open>uint\<close> for \<open>unsigned char\<close> and
  \<open>sint\<close> for \<open>signed char\<close> and \<open>wchar_t\<close>.
\<close>

definition PrintCharAndCodeTo :: "('a::len word \<Rightarrow> int) \<Rightarrow> 'a word \<Rightarrow> string" where
  "PrintCharAndCodeTo code c =
     (let (literal, format) = PrintAsCharLiteralTo c in
      (if 8 < LENGTH('a) then [CHR ''L'', CHR 0x27] else [CHR 0x27]) @ literal @ [CHR 0x27] @
      (if c = 0 then []
       else '' ('' @ dec_of_int (code c) @
         (if format = kHexEscape \<or> (1 \<le> code c \<and> code c \<le> 9) then []
          else '', 0x'' @ FormatHexInt (ucast c)) @ '')''))"

section \<open>Strings\<close>

definition IsXDigit :: "'a::len word \<Rightarrow> bool" where
  "IsXDigit ch \<longleftrightarrow> (48 \<le> unat ch \<and> unat ch \<le> 57) \<or> (65 \<le> unat ch \<and> unat ch \<le> 70) \<or>
     (97 \<le> unat ch \<and> unat ch \<le> 102)"

definition kQuoteBegin :: "'a::len itself \<Rightarrow> string" where
  "kQuoteBegin _ = (if LENGTH('a) = 8 then [CHR 0x22] else [CHR ''L'', CHR 0x22])"

fun chars_loop :: "bool \<Rightarrow> 'a::len word list \<Rightarrow> string" where
  "chars_loop is_previous_hex [] = []"
| "chars_loop is_previous_hex (cur # cs) =
     (if is_previous_hex \<and> IsXDigit cur then [CHR 0x22, SP] @ kQuoteBegin TYPE('a) else []) @
     fst (PrintAsStringLiteralTo cur) @
     chars_loop (snd (PrintAsStringLiteralTo cur) = kHexEscape) cs"

definition PrintCharsAsStringTo :: "'a::len word list \<Rightarrow> string" where
  "PrintCharsAsStringTo cs = kQuoteBegin TYPE('a) @ chars_loop False cs @ [CHR 0x22]"

definition UniversalPrintCharArray :: "'a::len word list \<Rightarrow> string" where
  "UniversalPrintCharArray a =
     (if 0 < length a \<and> a ! (length a - 1) = 0 then PrintCharsAsStringTo (take (length a - 1) a)
      else PrintCharsAsStringTo a @ '' (no terminating NUL)'')"

text \<open>A string pointer: null, or the text of its address and the characters before the terminator.\<close>

definition PrintCString :: "(string \<times> 'a::len word list) option \<Rightarrow> string" where
  "PrintCString s =
     (case s of
        None \<Rightarrow> ''NULL''
      | Some (address, cs) \<Rightarrow> address @ '' pointing to '' @ PrintCharsAsStringTo cs)"

section \<open>Values\<close>

datatype cpp_value =
    Bool_Value bool
  | Unsigned_Char "8 word"
  | Signed_Char "8 word"
  | Plain_Char "8 word"
  | Wide_Char "32 word"
  | Std_String "8 word list"
  | Std_WString "32 word list"
  | Char_Pointer "(string \<times> 8 word list) option"
  | Wide_Pointer "(string \<times> 32 word list) option"
  | Pointer "string option"
  | Streamable string
  | Protobuf string string
  | Integer_Like int
  | Raw_Object "8 word list"
  | Char_Array "8 word list"
  | Wide_Array "32 word list"
  | Array_Of "cpp_value list"
  | Container "cpp_value list"
  | Pair cpp_value cpp_value
  | Tuple_Of "cpp_value list"
  | Reference_To string cpp_value

definition kProtobufOneLinerMaxLength :: nat where "kProtobufOneLinerMaxLength = 50"

definition PrintProtobuf :: "string \<Rightarrow> string \<Rightarrow> string" where
  "PrintProtobuf short_str debug_string =
     ''<'' @ (if length short_str \<le> kProtobufOneLinerMaxLength then short_str else LF # debug_string) @ ''>''"

text \<open>
  The elements of an array and of a container are given with their printed texts (or the failure
  to print them); an element that is not printed is not evaluated.
\<close>

definition PrintRawArrayTo :: "string res list \<Rightarrow> nat \<Rightarrow> nat \<Rightarrow> string res" where
  "PrintRawArrayTo a start count =
     (if count = 0 \<or> length a < start + count then Inl OutOfBounds
      else bind_res (a ! start) (\<lambda>s. foldl (\<lambda>r x. bind_res r (\<lambda>s. bind_res x (\<lambda>t. Inr (s @ '', '' @ t))))
        (Inr s) (slice (start + 1) (count - 1) a)))"

definition UniversalPrintArray :: "string res list \<Rightarrow> string res" where
  "UniversalPrintArray a =
     (let len = length a; kThreshold = 18; kChunkSize = 8 in
      if len = 0 then Inr ''{}''
      else bind_res
        (if len \<le> kThreshold then PrintRawArrayTo a 0 len
         else bind_res (PrintRawArrayTo a 0 kChunkSize) (\<lambda>s.
           bind_res (PrintRawArrayTo a (len - kChunkSize) kChunkSize) (\<lambda>t. Inr (s @ '', ..., '' @ t))))
        (\<lambda>s. Inr (''{ '' @ s @ '' }'')))"

definition kMaxCount :: nat where "kMaxCount = 32"

fun container_loop :: "nat \<Rightarrow> string res list \<Rightarrow> string res" where
  "container_loop count [] = Inr (if 0 < count then '' '' else [])"
| "container_loop count (x # xs) =
     (if 0 < count \<and> count = kMaxCount then Inr '', ... ''
      else bind_res x (\<lambda>s. bind_res (container_loop (count + 1) xs)
        (\<lambda>t. Inr ((if 0 < count then '','' else []) @ '' '' @ s @ t))))"

definition PrintContainer :: "string res list \<Rightarrow> string res" where
  "PrintContainer xs = bind_res (container_loop 0 xs) (\<lambda>s. Inr (''{'' @ s @ ''}''))"

fun tuple_prefix :: "string res list \<Rightarrow> string res" where
  "tuple_prefix [] = Inr []"
| "tuple_prefix [x] = x"
| "tuple_prefix (x # y # xs) = bind_res x (\<lambda>s. bind_res (tuple_prefix (y # xs)) (\<lambda>t. Inr (s @ '', '' @ t)))"

fun UniversalPrint :: "cpp_value \<Rightarrow> string res" where
  "UniversalPrint (Bool_Value x) = Inr (if x then ''true'' else ''false'')"
| "UniversalPrint (Unsigned_Char c) = Inr (PrintCharAndCodeTo uint c)"
| "UniversalPrint (Signed_Char c) = Inr (PrintCharAndCodeTo sint c)"
| "UniversalPrint (Plain_Char c) = Inr (PrintCharAndCodeTo uint c)"
| "UniversalPrint (Wide_Char c) = Inr (PrintCharAndCodeTo sint c)"
| "UniversalPrint (Std_String s) = Inr (PrintCharsAsStringTo s)"
| "UniversalPrint (Std_WString s) = Inr (PrintCharsAsStringTo s)"
| "UniversalPrint (Char_Pointer s) = Inr (PrintCString s)"
| "UniversalPrint (Wide_Pointer s) = Inr (PrintCString s)"
| "UniversalPrint (Pointer p) = Inr (case p of None \<Rightarrow> ''NULL'' | Some address \<Rightarrow> address)"
| "UniversalPrint (Streamable s) = Inr s"
| "UniversalPrint (Protobuf short_str debug_string) = Inr (PrintProtobuf short_str debug_string)"
| "UniversalPrint (Integer_Like i) = Inr (dec_of_int i)"
| "UniversalPrint (Raw_Object b) = PrintBytesInObjectToImpl b (length b)"
| "UniversalPrint (Char_Array a) = Inr (UniversalPrintCharArray a)"
| "UniversalPrint (Wide_Array a) = Inr (UniversalPrintCharArray a)"
| "UniversalPrint (Array_Of vs) = UniversalPrintArray (map UniversalPrint vs)"
| "UniversalPrint (Container vs) = PrintContainer (map UniversalPrint vs)"
| "UniversalPrint (Pair v w) =
     bind_res (UniversalPrint v) (\<lambda>s. bind_res (UniversalPrint w) (\<lambda>t. Inr (''('' @ s @ '', '' @ t @ '')'')))"
| "UniversalPrint (Tuple_Of vs) = bind_res (tuple_prefix (map UniversalPrint vs)) (\<lambda>s. Inr (''('' @ s @ '')''))"
| "UniversalPrint (Reference_To address v) =
     bind_res (UniversalPrint v) (\<lambda>s. Inr (''@'' @ address @ '' '' @ s))"

text \<open>The terse form leaves out the address of a reference and of a C string.\<close>

definition UniversalTersePrint :: "cpp_value \<Rightarrow> string res" where
  "UniversalTersePrint v =
     (case v of
        Reference_To address w \<Rightarrow> UniversalPrint w
      | Char_Pointer (Some (address, s)) \<Rightarrow> UniversalPrint (Std_String s)
      | Wide_Pointer (Some (address, s)) \<Rightarrow> UniversalPrint (Std_WString s)
      | _ \<Rightarrow> UniversalPrint v)"

definition UniversalTersePrintTupleFieldsToStrings :: "cpp_value list \<Rightarrow> string res list" where
  "UniversalTersePrintTupleFieldsToStrings vs = map UniversalTersePrint vs"

definition PrintToString :: "cpp_value \<Rightarrow> string res" where
  "PrintToString = UniversalTersePrint"


section \<open>Printing never reads outside a value\<close>

lemma byte_segment_loop_ok:
  "\<forall>i \<in> set is. start + i < length b \<Longrightarrow> \<exists>s. byte_segment_loop b start count is = Inr s"
  by (induction "is") (auto simp: Let_def)

lemma PrintByteSegmentInObjectTo_ok:
  "start + count \<le> length b \<Longrightarrow> \<exists>s. PrintByteSegmentInObjectTo b start count = Inr s"
  unfolding PrintByteSegmentInObjectTo_def by (rule byte_segment_loop_ok) auto

lemma resume_pos_bounds:
  fixes count :: nat
  assumes "132 \<le> count"
  shows "64 \<le> (count - 64 + 1) div 2 * 2" and "(count - 64 + 1) div 2 * 2 \<le> count"
  using assms by linarith+

lemma PrintBytesInObjectToImpl_ok: "\<exists>s. PrintBytesInObjectToImpl b (length b) = Inr s"
proof (cases "length b < 132")
  case True
  then show ?thesis
    using PrintByteSegmentInObjectTo_ok [of 0 "length b" b] by (auto simp: PrintBytesInObjectToImpl_def)
next
  case False
  then have n: "132 \<le> length b" by simp
  define resume_pos where "resume_pos = (length b - 64 + 1) div 2 * 2"
  have "resume_pos + (length b - resume_pos) \<le> length b"
    using resume_pos_bounds(2) [OF n] by (simp add: resume_pos_def)
  then obtain s t where st: "PrintByteSegmentInObjectTo b 0 64 = Inr s"
    "PrintByteSegmentInObjectTo b resume_pos (length b - resume_pos) = Inr t"
    using PrintByteSegmentInObjectTo_ok [of 0 64 b]
      PrintByteSegmentInObjectTo_ok [of resume_pos "length b - resume_pos" b] n by auto
  with False show ?thesis by (simp add: PrintBytesInObjectToImpl_def Let_def resume_pos_def)
qed

lemma fold_prints_ok:
  "\<forall>x \<in> set xs. \<exists>t. x = Inr t \<Longrightarrow>
    \<exists>t. foldl (\<lambda>r x. bind_res r (\<lambda>s. bind_res x (\<lambda>t. Inr (s @ '', '' @ t)))) (Inr s) xs = Inr t"
  by (induction xs arbitrary: s) auto

lemma PrintRawArrayTo_ok:
  assumes "\<forall>x \<in> set a. \<exists>t. x = Inr t" and "0 < count" and "start + count \<le> length a"
  shows "\<exists>s. PrintRawArrayTo a start count = Inr s"
proof -
  have "a ! start \<in> set a" using assms(2,3) by (intro nth_mem) simp
  then obtain t where "a ! start = Inr t" using assms(1) by blast
  moreover have "\<forall>x \<in> set (slice (start + 1) (count - 1) a). \<exists>t. x = Inr t"
    using assms(1) by (auto simp: slice_def dest: in_set_takeD in_set_dropD)
  ultimately show ?thesis using assms(2,3) fold_prints_ok by (simp add: PrintRawArrayTo_def)
qed

lemma UniversalPrintArray_ok: "\<forall>x \<in> set a. \<exists>t. x = Inr t \<Longrightarrow> \<exists>s. UniversalPrintArray a = Inr s"
proof -
  assume a: "\<forall>x \<in> set a. \<exists>t. x = Inr t"
  show ?thesis
  proof (cases "length a \<le> 18")
    case True
    then show ?thesis using PrintRawArrayTo_ok [OF a, of "length a" 0]
      by (cases "length a = 0") (auto simp: UniversalPrintArray_def)
  next
    case False
    then show ?thesis
      using PrintRawArrayTo_ok [OF a, of 8 0] PrintRawArrayTo_ok [OF a, of 8 "length a - 8"]
      by (auto simp: UniversalPrintArray_def Let_def)
  qed
qed

lemma container_loop_ok: "\<forall>x \<in> set xs. \<exists>t. x = Inr t \<Longrightarrow> \<exists>s. container_loop count xs = Inr s"
proof (induction xs arbitrary: count)
  case (Cons x xs)
  then obtain t where "x = Inr t" by auto
  moreover obtain s where "container_loop (count + 1) xs = Inr s" using Cons by force
  ultimately show ?case by simp
qed simp

lemma tuple_prefix_ok: "\<forall>x \<in> set xs. \<exists>t. x = Inr t \<Longrightarrow> \<exists>s. tuple_prefix xs = Inr s"
  by (induction xs rule: tuple_prefix.induct) auto

text \<open>
  Every value can be printed: however large an array, a container or an object is and whatever
  is nested in it, printing it reads no element or byte outside it.
\<close>

theorem UniversalPrint_succeeds: "\<exists>s. UniversalPrint v = Inr s"
proof (induction v rule: UniversalPrint.induct)
  case (14 b)
  show ?case using PrintBytesInObjectToImpl_ok by simp
next
  case (17 vs)
  then show ?case using UniversalPrintArray_ok [of "map UniversalPrint vs"] by auto
next
  case (18 vs)
  then show ?case using container_loop_ok [of "map UniversalPrint vs" 0] by (auto simp: PrintContainer_def)
next
  case (20 vs)
  then show ?case using tuple_prefix_ok [of "map UniversalPrint vs"] by auto
qed auto


section \<open>Reading a string literal\<close>

text \<open>
  The value of C++ string literals that stand beside each other, as the language defines it: an
  octal escape takes up to three octal digits, a hexadecimal escape all digits that follow, and
  its value must fit the type. (Trigraphs are left out.)
\<close>

definition octal_value :: "char \<Rightarrow> nat option" where
  "octal_value c = (let n = of_char c in if 48 \<le> n \<and> n \<le> 55 then Some (n - 48) else None)"

definition xdigit_value :: "char \<Rightarrow> nat option" where
  "xdigit_value c =
     (let n = of_char c in
      if 48 \<le> n \<and> n \<le> 57 then Some (n - 48)
      else if 65 \<le> n \<and> n \<le> 70 then Some (n - 55)
      else if 97 \<le> n \<and> n \<le> 102 then Some (n - 87) else None)"

fun read_digits :: "(char \<Rightarrow> nat option) \<Rightarrow> nat \<Rightarrow> nat \<Rightarrow> nat \<Rightarrow> string \<Rightarrow> nat \<times> string" where
  "read_digits digit base v 0 s = (v, s)"
| "read_digits digit base v (Suc k) [] = (v, [])"
| "read_digits digit base v (Suc k) (c # s) =
     (case digit c of None \<Rightarrow> (v, c # s) | Some d \<Rightarrow> read_digits digit base (base * v + d) k s)"

definition simple_escape :: "char \<Rightarrow> nat option" where
  "simple_escape c =
     (if c \<in> {CHR 0x27, CHR 0x22, CHR 0x5C, CHR ''?''} then Some (of_char c)
      else if c = CHR ''a'' then Some 7 else if c = CHR ''b'' then Some 8
      else if c = CHR ''t'' then Some 9 else if c = CHR ''n'' then Some 10
      else if c = CHR ''v'' then Some 11 else if c = CHR ''f'' then Some 12
      else if c = CHR ''r'' then Some 13 else None)"

definition read_escape :: "string \<Rightarrow> (nat \<times> string) option" where
  "read_escape s =
     (case s of
        [] \<Rightarrow> None
      | c # r \<Rightarrow>
          if simple_escape c \<noteq> None then Some (the (simple_escape c), r)
          else if octal_value c \<noteq> None then Some (read_digits octal_value 8 0 3 s)
          else if c = CHR ''x'' \<and> r \<noteq> [] \<and> xdigit_value (hd r) \<noteq> None
            then Some (read_digits xdigit_value 16 0 (length r) r)
          else None)"

lemma read_digits_shorter: "length (snd (read_digits digit base v k s)) \<le> length s"
  by (induction digit base v k s rule: read_digits.induct) (auto split: option.splits)

lemma read_escape_shorter: "read_escape s = Some (n, r) \<Longrightarrow> length r < length s"
proof (cases s)
  case (Cons c t)
  assume e: "read_escape s = Some (n, r)"
  consider "simple_escape c \<noteq> None" | "simple_escape c = None" "octal_value c \<noteq> None"
    | "simple_escape c = None" "octal_value c = None" by blast
  then show ?thesis
  proof cases
    case 2
    have "length (snd (read_digits octal_value 8 v 2 t)) \<le> length t" for v
      by (rule read_digits_shorter)
    from this [of "the (octal_value c)"] 2 e Cons show ?thesis
      by (auto simp: read_escape_def eval_nat_numeral)
  next
    case 3
    have "length (snd (read_digits xdigit_value 16 0 (length t) t)) \<le> length t"
      by (rule read_digits_shorter)
    with 3 e Cons show ?thesis by (auto simp: read_escape_def split: if_splits)
  qed (use e Cons in \<open>auto simp: read_escape_def\<close>)
qed (simp add: read_escape_def)

text \<open>What follows a literal: nothing, or another one after white space.\<close>

definition next_literal :: "string \<Rightarrow> string \<Rightarrow> string option" where
  "next_literal prefix s =
     (let r = dropWhile (\<lambda>c. c = SP) s in
      if take (length prefix) r = prefix then Some (drop (length prefix) r) else None)"

function read_literal :: "nat \<Rightarrow> string \<Rightarrow> string \<Rightarrow> nat list option" where
  "read_literal limit prefix s =
     (case s of
        [] \<Rightarrow> None
      | c # r \<Rightarrow>
          if c = CHR 0x22 then
            (if r = [] then Some []
             else case next_literal prefix r of
                None \<Rightarrow> None
              | Some t \<Rightarrow> if length t \<le> length r then read_literal limit prefix t else None)
          else if c = LF then None
          else if c = CHR 0x5C then
            (case read_escape r of
               None \<Rightarrow> None
             | Some (n, t) \<Rightarrow> if n < limit then map_option ((#) n) (read_literal limit prefix t) else None)
          else map_option ((#) (of_char c)) (read_literal limit prefix r))"
  by pat_completeness auto
termination
  by (relation "measure (\<lambda>(limit, prefix, s). length s)") (auto dest: read_escape_shorter)

declare read_literal.simps [simp del]

definition read_string_literal :: "'a::len itself \<Rightarrow> string \<Rightarrow> nat list option" where
  "read_string_literal _ s =
     (case next_literal (kQuoteBegin TYPE('a)) s of
        None \<Rightarrow> None
      | Some r \<Rightarrow> read_literal (2 ^ LENGTH('a)) (kQuoteBegin TYPE('a)) r)"


abbreviation Q :: char where "Q \<equiv> CHR 0x22"
abbreviation ESC :: char where "ESC \<equiv> CHR 0x5C"

lemma read_digits_append:
  "list_all (\<lambda>c. digit c \<noteq> None) s \<Longrightarrow> length s \<le> k \<Longrightarrow>
    read_digits digit base v k (s @ r) =
    read_digits digit base (foldl (\<lambda>v c. base * v + the (digit c)) v s) (k - length s) r"
proof (induction s arbitrary: v k)
  case (Cons c s)
  then obtain k' where "k = Suc k'" by (cases k) auto
  with Cons show ?case by auto
qed simp

lemma read_digits_stop: "r = [] \<or> digit (hd r) = None \<Longrightarrow> read_digits digit base v k r = (v, r)"
  by (cases k; cases r) auto

lemma xdigit_hex_digit: "d < 16 \<Longrightarrow> xdigit_value (hex_digit d) = Some d"
  by (auto simp: xdigit_value_def hex_digit_def)

lemma hex_of_nat_digits:
  "list_all (\<lambda>c. xdigit_value c \<noteq> None) (hex_of_nat n) \<and> hex_of_nat n \<noteq> [] \<and>
    foldl (\<lambda>v c. 16 * v + the (xdigit_value c)) 0 (hex_of_nat n) = n"
proof (induction n rule: hex_of_nat.induct)
  case (1 n)
  show ?case
  proof (cases "n < 16")
    case True
    then show ?thesis using xdigit_hex_digit by (simp add: hex_of_nat.simps [of n])
  next
    case False
    with 1 have "list_all (\<lambda>c. xdigit_value c \<noteq> None) (hex_of_nat (n div 16))"
      "foldl (\<lambda>v c. 16 * v + the (xdigit_value c)) 0 (hex_of_nat (n div 16)) = n div 16" by auto
    with False show ?thesis using xdigit_hex_digit [of "n mod 16"] by (simp add: hex_of_nat.simps [of n])
  qed
qed

lemma read_hex_escape:
  assumes "r = [] \<or> xdigit_value (hd r) = None"
  shows "read_escape (CHR ''x'' # hex_of_nat n @ r) = Some (n, r)"
proof -
  obtain c s where c: "hex_of_nat n = c # s" using hex_of_nat_digits [of n] by (cases "hex_of_nat n") auto
  have "xdigit_value c \<noteq> None" using hex_of_nat_digits [of n] c by auto
  moreover have "read_digits xdigit_value 16 0 (length (hex_of_nat n @ r)) (hex_of_nat n @ r) = (n, r)"
    using hex_of_nat_digits [of n] assms by (simp add: read_digits_append read_digits_stop)
  ultimately show ?thesis
    using c by (simp add: read_escape_def simple_escape_def octal_value_def)
qed

lemma read_literal_char: "c \<noteq> Q \<Longrightarrow> c \<noteq> LF \<Longrightarrow> c \<noteq> ESC \<Longrightarrow>
    read_literal limit prefix (c # r) = map_option ((#) (of_char c)) (read_literal limit prefix r)"
  by (simp add: read_literal.simps [of limit prefix "c # r"])

lemma read_literal_escape: "read_escape r = Some (n, t) \<Longrightarrow> n < limit \<Longrightarrow>
    read_literal limit prefix (ESC # r) = map_option ((#) n) (read_literal limit prefix t)"
  by (simp add: read_literal.simps [of limit prefix "ESC # r"])

lemma read_escape_simple: "simple_escape c = Some n \<Longrightarrow> read_escape (c # r) = Some (n, r)"
  by (simp add: read_escape_def)

lemma read_escape_zero:
  "r = [] \<or> octal_value (hd r) = None \<Longrightarrow> read_escape (CHR ''0'' # r) = Some (0, r)"
  using read_digits_stop [of r octal_value 8 0 "2"]
  by (simp add: read_escape_def simple_escape_def octal_value_def eval_nat_numeral)


text \<open>The four ways in which a character of a string is printed.\<close>

lemma PrintAsStringLiteralTo_cases:
  fixes c :: "'a::len word"
  assumes "LENGTH('a) \<le> 32"
  obtains
    (zero) "unat c = 0" "PrintAsStringLiteralTo c = (ESC # ''0'', kSpecialEscape)"
  | (simple) x where "unat c \<noteq> 0" "simple_escape x = Some (unat c)"
      "PrintAsStringLiteralTo c = ([ESC, x], kSpecialEscape)" "unat c < 48 \<or> unat c = 92"
  | (as_is) "32 \<le> unat c" "unat c \<le> 126" "unat c \<noteq> 34" "unat c \<noteq> 92"
      "PrintAsStringLiteralTo c = ([char_of (unat c)], kAsIs)"
  | (hex) "unat c \<noteq> 0" "unat c < 32 \<or> 126 < unat c"
      "PrintAsStringLiteralTo c = (ESC # CHR ''x'' # hex_of_nat (unat c), kHexEscape)"
proof -
  define n where "n = unat c"
  have "n < 2 ^ LENGTH('a)" unfolding n_def by (rule unsigned_less)
  also have "(2 :: nat) ^ LENGTH('a) \<le> 2 ^ 32" using assms by (intro power_increasing) simp_all
  finally have u: "unat (ucast c :: 32 word) = n" by (simp add: n_def unsigned_ucast_eq take_bit_nat_eq_self)
  note d = PrintAsStringLiteralTo_def PrintAsCharLiteralTo_def IsPrintableAscii_def FormatHexInt_def Let_def u
  consider "n = 0" | "n = 34" | "n = 92" | "n = 7" | "n = 8" | "n = 12" | "n = 10" | "n = 13" | "n = 9" | "n = 11" | "n = 39"
    | "32 \<le> n" "n \<le> 126" "n \<noteq> 34" "n \<noteq> 92" "n \<noteq> 39"
    | "n \<noteq> 0" "n < 32 \<or> 126 < n" "n \<notin> {7, 8, 9, 10, 11, 12, 13, 34, 39, 92}"
    by (cases "32 \<le> n \<and> n \<le> 126") (auto simp: not_le)
  then show thesis
  proof cases
    case 1 then show thesis using zero by (simp add: d n_def)
  next
    case 2 then show thesis using simple [of "CHR 0x22"] by (simp add: d n_def simple_escape_def)
  next
    case 3 then show thesis using simple [of "CHR 0x5C"] by (simp add: d n_def simple_escape_def)
  next
    case 4 then show thesis using simple [of "CHR ''a''"] by (simp add: d n_def simple_escape_def)
  next
    case 5 then show thesis using simple [of "CHR ''b''"] by (simp add: d n_def simple_escape_def)
  next
    case 6 then show thesis using simple [of "CHR ''f''"] by (simp add: d n_def simple_escape_def)
  next
    case 7 then show thesis using simple [of "CHR ''n''"] by (simp add: d n_def simple_escape_def)
  next
    case 8 then show thesis using simple [of "CHR ''r''"] by (simp add: d n_def simple_escape_def)
  next
    case 9 then show thesis using simple [of "CHR ''t''"] by (simp add: d n_def simple_escape_def)
  next
    case 10 then show thesis using simple [of "CHR ''v''"] by (simp add: d n_def simple_escape_def)
  next
    case 11
    have "char_of (39 :: nat) = CHR 0x27" by code_simp
    with 11 show thesis using as_is by (simp add: d n_def)
  next
    case 12 then show thesis using as_is by (simp add: d flip: n_def)
  next
    case 13 then show thesis using hex by (auto simp: d simp flip: n_def)
  qed
qed

lemma of_char_of_unat: "unat c \<le> 126 \<Longrightarrow> of_char (char_of (unat c)) = unat c"
  by simp

lemma read_printed_char:
  fixes c :: "'a::len word"
  assumes "LENGTH('a) \<le> 32" and "PrintAsStringLiteralTo c = (t, f)"
    and "f = kHexEscape \<longrightarrow> r = [] \<or> xdigit_value (hd r) = None"
    and "unat c = 0 \<longrightarrow> r = [] \<or> octal_value (hd r) = None"
  shows "read_literal (2 ^ LENGTH('a)) prefix (t @ r) =
    map_option ((#) (unat c)) (read_literal (2 ^ LENGTH('a)) prefix r)"
  using assms(1)
proof (cases rule: PrintAsStringLiteralTo_cases [where c = c])
  case zero
  then have "t = ESC # ''0''" using assms(2) by simp
  with zero assms(4) show ?thesis by (simp add: read_literal_escape [OF read_escape_zero])
next
  case (simple x)
  then have "t = [ESC, x]" using assms(2) by simp
  with simple show ?thesis by (simp add: read_literal_escape [OF read_escape_simple] unsigned_less)
next
  case as_is
  define ch :: char where "ch = char_of (unat c)"
  have "of_char ch = unat c" using as_is by (simp add: ch_def)
  with as_is have "ch \<noteq> Q" "ch \<noteq> LF" "ch \<noteq> ESC" by auto
  moreover have "t = [ch]" using as_is assms(2) by (simp add: ch_def)
  ultimately show ?thesis using \<open>of_char ch = unat c\<close> by (simp add: read_literal_char)
next
  case hex
  then have "t = ESC # CHR ''x'' # hex_of_nat (unat c)" "f = kHexEscape" using assms(2) by simp_all
  with assms(3) show ?thesis by (simp add: read_literal_escape [OF read_hex_escape] unsigned_less)
qed

lemma hd_printed:
  fixes c :: "'a::len word"
  assumes "LENGTH('a) \<le> 32"
  shows "fst (PrintAsStringLiteralTo c) \<noteq> []"
    and "xdigit_value (hd (fst (PrintAsStringLiteralTo c))) \<noteq> None \<Longrightarrow> IsXDigit c"
    and "octal_value (hd (fst (PrintAsStringLiteralTo c))) \<noteq> None \<Longrightarrow>
      48 \<le> unat c \<and> unat c \<le> 55 \<and> PrintAsStringLiteralTo c = ([char_of (unat c)], kAsIs)"
  using assms
  by (cases rule: PrintAsStringLiteralTo_cases [where c = c];
      simp add: xdigit_value_def octal_value_def IsXDigit_def Let_def split: if_splits)+

lemma octal_printed:
  fixes c :: "'a::len word"
  assumes "LENGTH('a) \<le> 32" and "48 \<le> unat c" and "unat c \<le> 55"
  shows "PrintAsStringLiteralTo c = ([char_of (unat c)], kAsIs)"
    and "octal_value (char_of (unat c)) = Some (unat c - 48)"
  using assms by (cases rule: PrintAsStringLiteralTo_cases [where c = c]; simp add: octal_value_def)+


fun octal_after_zero :: "'a::len word list \<Rightarrow> bool" where
  "octal_after_zero (c # d # cs) \<longleftrightarrow>
     (unat c = 0 \<and> 48 \<le> unat d \<and> unat d \<le> 55) \<or> octal_after_zero (d # cs)"
| "octal_after_zero _ \<longleftrightarrow> False"

text \<open>What reading the printed characters gives, and when it gives the characters back.\<close>

definition reads_back :: "'a::len word list \<Rightarrow> string \<Rightarrow> bool" where
  "reads_back cs s \<longleftrightarrow> (\<exists>xs. read_literal (2 ^ LENGTH('a)) (kQuoteBegin TYPE('a)) s = Some xs \<and>
     length xs \<le> length cs \<and> (if octal_after_zero cs then length xs < length cs else xs = map unat cs))"

lemma next_literal_break: "next_literal (kQuoteBegin TYPE('a::len)) (SP # kQuoteBegin TYPE('a) @ r) = Some r"
  by (simp add: next_literal_def kQuoteBegin_def)

lemma read_break:
  "read_literal limit (kQuoteBegin TYPE('a::len)) (Q # SP # kQuoteBegin TYPE('a) @ r) =
    read_literal limit (kQuoteBegin TYPE('a)) r"
  using next_literal_break [where r = r and 'a = 'a]
  by (simp add: read_literal.simps [where s = "Q # _"] kQuoteBegin_def)

lemma reads_back_break:
  fixes c :: "'a::len word"
  shows "reads_back (c # cs) (chars_loop is_hex (c # cs) @ r) \<longleftrightarrow> reads_back (c # cs) (chars_loop False (c # cs) @ r)"
  by (simp add: reads_back_def read_break)

lemma after_hex:
  fixes cs :: "'a::len word list"
  assumes "LENGTH('a) \<le> 32"
  shows "xdigit_value (hd (chars_loop True cs @ [Q])) = None"
proof (cases cs)
  case (Cons d ds)
  have "xdigit_value Q = None" by (simp add: xdigit_value_def)
  with Cons show ?thesis
    using hd_printed(1,2) [OF assms, of d] by (cases "IsXDigit d"; cases "xdigit_value (hd (fst (PrintAsStringLiteralTo d)))") auto
qed (simp add: xdigit_value_def)

lemma after_zero:
  fixes cs :: "'a::len word list"
  assumes "LENGTH('a) \<le> 32" and "octal_value (hd (chars_loop False cs @ [Q])) \<noteq> None"
  obtains d ds where "cs = d # ds" "48 \<le> unat d" "unat d \<le> 55"
    "chars_loop False cs = char_of (unat d) # chars_loop False ds"
proof (cases cs)
  case Nil
  with assms(2) show thesis by (simp add: octal_value_def)
next
  case (Cons d ds)
  then show thesis
    using hd_printed(1,3) [OF assms(1), of d] assms(2) that by (auto simp: hd_append)
qed

text \<open>A zero character with an octal digit behind it: two or three characters are read as one.\<close>

lemma read_escape_octal:
  assumes "octal_value d = Some v"
  shows "read_escape (CHR ''0'' # d # r) =
    (if r \<noteq> [] \<and> octal_value (hd r) \<noteq> None then Some (8 * v + the (octal_value (hd r)), tl r) else Some (v, r))"
  using assms by (cases r) (auto simp: read_escape_def simple_escape_def octal_value_def eval_nat_numeral)

lemma octal_value_less: "octal_value d = Some v \<Longrightarrow> v < 8"
  by (auto simp: octal_value_def Let_def split: if_splits)

lemma chars_loop_reads_back:
  fixes cs :: "'a::len word list"
  assumes "8 \<le> LENGTH('a)" and "LENGTH('a) \<le> 32"
  shows "reads_back cs (chars_loop is_hex cs @ [Q])"
proof (induction "length cs" arbitrary: cs is_hex rule: less_induct)
  case less
  let ?limit = "2 ^ LENGTH('a) :: nat" and ?q = "kQuoteBegin TYPE('a)"
  have limit: "(64 :: nat) < ?limit"
    using assms(1) power_increasing [of 8 "LENGTH('a)" "2 :: nat"] by simp
  show ?case
  proof (cases cs)
    case Nil
    then show ?thesis by (simp add: reads_back_def read_literal.simps [of _ _ "[Q]"])
  next
    case (Cons c ds)
    obtain t f where tf: "PrintAsStringLiteralTo c = (t, f)" by fastforce
    define r where "r = chars_loop (f = kHexEscape) ds @ [Q]"
    have printed: "chars_loop False cs @ [Q] = t @ r" by (simp add: Cons tf r_def)
    have IH: "reads_back ds r" unfolding r_def by (rule less) (simp add: Cons)
    have "reads_back cs (t @ r)"
    proof (cases "unat c = 0 \<and> octal_value (hd r) \<noteq> None")
      case False
      have "f = kHexEscape \<longrightarrow> xdigit_value (hd r) = None" using after_hex [OF assms(2)] by (simp add: r_def)
      with False have read: "read_literal ?limit ?q (t @ r) = map_option ((#) (unat c)) (read_literal ?limit ?q r)"
        using read_printed_char [OF assms(2) tf] by blast
      have "octal_after_zero cs \<longleftrightarrow> octal_after_zero ds"
      proof (cases ds)
        case (Cons e es)
        have "octal_value (hd r) \<noteq> None" if "unat c = 0" "48 \<le> unat e" "unat e \<le> 55"
          using octal_printed [OF assms(2) that(2,3)] tf that(1) Cons
          by (auto simp: r_def PrintAsStringLiteralTo_def PrintAsCharLiteralTo_def)
        with False Cons \<open>cs = c # ds\<close> show ?thesis by auto
      qed (simp add: Cons)
      with IH read Cons show ?thesis by (auto simp: reads_back_def)
    next
      case True
      then have t: "t = ESC # ''0''" "f = kSpecialEscape"
        using tf by (auto simp: PrintAsStringLiteralTo_def PrintAsCharLiteralTo_def)
      obtain d es where d: "ds = d # es" "48 \<le> unat d" "unat d \<le> 55"
        "chars_loop False ds = char_of (unat d) # chars_loop False es"
        using after_zero [OF assms(2), of ds] True t by (auto simp: r_def)
      define r1 where "r1 = chars_loop False es @ [Q]"
      have r: "r = char_of (unat d) # r1" using d(4) t by (simp add: r_def r1_def)
      have v: "octal_value (char_of (unat d)) = Some (unat d - 48)" by (rule octal_printed(2) [OF assms(2) d(2,3)])
      have bad: "octal_after_zero cs" using True Cons d by simp
      obtain n r2 and es' :: "'a word list" where n: "read_escape (CHR ''0'' # r) = Some (n, r2)" "n < 64" "reads_back es' r2"
        "length es' < length ds"
      proof (cases "octal_value (hd r1) \<noteq> None")
        case False
        then have "read_escape (CHR ''0'' # r) = Some (unat d - 48, r1)" by (simp add: r read_escape_octal [OF v])
        moreover have "reads_back es r1" unfolding r1_def by (rule less) (simp add: Cons d)
        ultimately show thesis using that [of "unat d - 48" r1 es] d by simp
      next
        case octal: True
        obtain e fs where e: "es = e # fs" "48 \<le> unat e" "unat e \<le> 55"
          "chars_loop False es = char_of (unat e) # chars_loop False fs"
          using after_zero [OF assms(2), of es] octal by (auto simp: r1_def)
        have w: "octal_value (char_of (unat e)) = Some (unat e - 48)" by (rule octal_printed(2) [OF assms(2) e(2,3)])
        have "read_escape (CHR ''0'' # r) = Some (8 * (unat d - 48) + (unat e - 48), chars_loop False fs @ [Q])"
          using e(4) w by (simp add: r r1_def read_escape_octal [OF v])
        moreover have "reads_back fs (chars_loop False fs @ [Q])" by (rule less) (simp add: Cons d e)
        ultimately show thesis using that [of _ _ fs] d e by simp
      qed
      have "read_literal ?limit ?q (t @ r) = map_option ((#) n) (read_literal ?limit ?q r2)"
        using read_literal_escape [OF n(1)] n(2) limit t by simp
      with n(3,4) bad Cons show ?thesis by (auto simp: reads_back_def)
    qed
    then have "reads_back (c # ds) (chars_loop False (c # ds) @ [Q])" using printed Cons by simp
    then show ?thesis unfolding Cons by (rule iffD2 [OF reads_back_break])
  qed
qed

text \<open>
  C29. A string that is shown in a failure message reads, as the C++ literal it is printed as, as
  exactly the string, in \<open>char\<close> and in \<open>wchar_t\<close>, whatever characters it has (a literal is broken
  where a hexadecimal escape would swallow the next character), unless a zero character is followed
  by an octal digit: then \<open>\0\<close> swallows the digit and another string is shown.
\<close>

theorem printed_string_reads_back:
  assumes "LENGTH('a::len) = 8 \<or> LENGTH('a) = 32"
  shows "read_string_literal TYPE('a) (PrintCharsAsStringTo cs) = Some (map unat (cs :: 'a word list)) \<longleftrightarrow>
    \<not> octal_after_zero cs"
proof -
  have "reads_back cs (chars_loop False cs @ [Q])"
    using assms by (intro chars_loop_reads_back) auto
  moreover have "read_string_literal TYPE('a) (PrintCharsAsStringTo cs) =
    read_literal (2 ^ LENGTH('a)) (kQuoteBegin TYPE('a)) (chars_loop False cs @ [Q])"
    by (simp add: read_string_literal_def PrintCharsAsStringTo_def next_literal_def kQuoteBegin_def)
  ultimately show ?thesis by (auto simp: reads_back_def split: if_splits)
qed

theorem printed_string_reads_back_witness:
  "read_string_literal TYPE(8) (PrintCharsAsStringTo [0xFF, 0x41, 0x0A, 0x22 :: 8 word]) = Some [255, 65, 10, 34] \<and>
   read_string_literal TYPE(8) (PrintCharsAsStringTo [0x00, 0x31 :: 8 word]) \<noteq> Some [0, 49]"
  using printed_string_reads_back [where 'a = 8, of "[0xFF, 0x41, 0x0A, 0x22]"]
    printed_string_reads_back [where 'a = 8, of "[0x00, 0x31]"] by simp

end
