(* ===== verification/Gtest_Random.thy ===== *)
theory Gtest_Random
  imports Prelude "HOL-Library.Multiset"
begin

text \<open>
  The pseudo-random numbers of the unit-test framework (class \<open>Random\<close>), the seeds, and the helpers
  on vectors that use them: \<open>gtest-internal.h\<close>, \<open>gtest.cc\<close> and \<open>gtest-internal-inl.h\<close>. A failed
  \<open>GTEST_CHECK_\<close> aborts the program, which is the outcome \<open>AssertionFailure\<close>.
\<close>

section \<open>The generator\<close>

type_synonym random_state = "32 word"

definition kMaxRange :: "32 word" where
  "kMaxRange = push_bit 31 1"

definition new_Random :: "32 word \<Rightarrow> random_state" where
  "new_Random seed = seed"

definition Reseed :: "32 word \<Rightarrow> random_state \<Rightarrow> random_state" where
  "Reseed seed r = seed"

definition Generate :: "32 word \<Rightarrow> random_state \<Rightarrow> (random_state \<times> 32 word) res" where
  "Generate rng r =
     (let state = (1103515245 * r + 12345) mod kMaxRange in
      assert_res (rng > 0) (assert_res (rng \<le> kMaxRange) (Inr (state, state mod rng))))"

section \<open>Seeds\<close>

definition kMaxRandomSeed :: int where "kMaxRandomSeed = 99999"

text \<open>\<open>now\<close> is the time in milliseconds.\<close>

definition GetRandomSeedFromFlag :: "int \<Rightarrow> int \<Rightarrow> int" where
  "GetRandomSeedFromFlag now random_seed_flag =
     (let raw_seed = (if random_seed_flag = 0 then word_of_int now else word_of_int random_seed_flag) :: 32 word
      in sint ((raw_seed - 1) mod word_of_int kMaxRandomSeed) + 1)"

definition GetNextRandomSeed :: "int \<Rightarrow> int res" where
  "GetNextRandomSeed seed =
     assert_res (1 \<le> seed \<and> seed \<le> kMaxRandomSeed)
       (let next_seed = seed + 1 in Inr (if next_seed > kMaxRandomSeed then 1 else next_seed))"

section \<open>Vectors\<close>

fun CountIf :: "'a list \<Rightarrow> ('a \<Rightarrow> bool) \<Rightarrow> int" where
  "CountIf [] P = 0"
| "CountIf (x # xs) P = (if P x then 1 else 0) + CountIf xs P"

text \<open>The size of a vector as an \<open>int\<close>.\<close>

definition vector_size :: "'a list \<Rightarrow> int" where
  "vector_size v = sint (int_of_size (length v))"

definition GetElementOr :: "'a list \<Rightarrow> int \<Rightarrow> 'a \<Rightarrow> 'a" where
  "GetElementOr v i default_value =
     (if i < 0 \<or> i \<ge> vector_size v then default_value else v ! nat i)"

definition swap_at :: "'a list \<Rightarrow> nat \<Rightarrow> nat \<Rightarrow> 'a list" where
  "swap_at v i j = v[i := v ! j, j := v ! i]"

fun shuffle_loop :: "nat \<Rightarrow> nat \<Rightarrow> random_state \<Rightarrow> 'a list \<Rightarrow> (random_state \<times> 'a list) res" where
  "shuffle_loop b range_width r v =
     (if range_width < 2 then Inr (r, v)
      else bind_res (Generate (of_nat range_width) r) (\<lambda>(r', g).
        let last_in_range = b + range_width - 1; selected = b + unat g in
        shuffle_loop b (range_width - 1) r' (swap_at v selected last_in_range)))"

declare shuffle_loop.simps [simp del]

definition ShuffleRange :: "random_state \<Rightarrow> int \<Rightarrow> int \<Rightarrow> 'a list \<Rightarrow> (random_state \<times> 'a list) res" where
  "ShuffleRange random b e v =
     (let sz = vector_size v in
      assert_res (0 \<le> b \<and> b \<le> sz)
        (assert_res (b \<le> e \<and> e \<le> sz) (shuffle_loop (nat b) (nat (e - b)) random v)))"

definition Shuffle :: "random_state \<Rightarrow> 'a list \<Rightarrow> (random_state \<times> 'a list) res" where
  "Shuffle random v = ShuffleRange random 0 (vector_size v) v"

section \<open>Lemmas\<close>

lemma vector_size_eq: "length v < 2 ^ 31 \<Longrightarrow> vector_size v = int (length v)"
  by (simp add: vector_size_def sint_int_of_size)

lemma CountIf_filter: "CountIf xs P = int (length (filter P xs))"
  by (induction xs) simp_all

lemma CountIf_nonneg: "0 \<le> CountIf xs P"
  by (simp add: CountIf_filter)

lemma Generate_less:
  assumes "0 < w" and "w \<le> 2 ^ 31"
  shows "\<exists>r' g. Generate (of_nat w) r = Inr (r', g) \<and> unat g < w"
proof -
  have w: "unat (of_nat w :: 32 word) = w" using assms by (simp add: unat_of_nat take_bit_nat_eq_self_iff)
  then have pos: "(0 :: 32 word) < of_nat w" using assms by (simp add: word_less_nat_alt)
  moreover have "(of_nat w :: 32 word) \<le> kMaxRange" using assms w by (simp add: word_le_nat_alt kMaxRange_def)
  moreover have "unat (s mod of_nat w :: 32 word) < w" for s
    using assms w by (simp add: unat_mod_distrib)
  ultimately show ?thesis by (simp add: Generate_def Let_def)
qed

lemma swap_at_swap: "i < length v \<Longrightarrow> j < length v \<Longrightarrow> mset (swap_at v i j) = mset v"
  by (simp add: swap_at_def mset_swap)

lemma swap_at_outside:
  assumes "b \<le> i" "i < e" "b \<le> j" "j < e"
  shows "take b (swap_at v i j) = take b v" and "drop e (swap_at v i j) = drop e v"
  using assms by (simp_all add: swap_at_def)

lemma length_swap_at [simp]: "length (swap_at v i j) = length v"
  by (simp add: swap_at_def)

lemma shuffle_loop_permutes:
  assumes "b + w \<le> e" and "e \<le> length v" and "w \<le> 2 ^ 31"
  shows "\<exists>r' v'. shuffle_loop b w r v = Inr (r', v') \<and> mset v' = mset v \<and> take b v' = take b v \<and> drop e v' = drop e v"
  using assms
proof (induction w arbitrary: r v rule: less_induct)
  case (less w)
  show ?case
  proof (cases "w < 2")
    case True
    then show ?thesis by (subst shuffle_loop.simps) simp
  next
    case False
    then obtain r1 g where g: "Generate (of_nat w) r = Inr (r1, g)" "unat g < w"
      using Generate_less [of w r] less.prems by auto
    let ?v = "swap_at v (b + unat g) (b + w - 1)"
    have range: "b + unat g < e" "b + w - 1 < e" "b \<le> b + unat g" "b \<le> b + w - 1"
      using g(2) False less.prems by simp_all
    obtain r' v' where loop: "shuffle_loop b (w - 1) r1 ?v = Inr (r', v')"
      "mset v' = mset ?v" "take b v' = take b ?v" "drop e v' = drop e ?v"
      proof -
      have "\<exists>r' v'. shuffle_loop b (w - 1) r1 ?v = Inr (r', v') \<and> mset v' = mset ?v \<and>
          take b v' = take b ?v \<and> drop e v' = drop e ?v"
        by (rule less.IH) (use False less.prems in simp_all)
      then show thesis using that by blast
    qed
    have "shuffle_loop b w r v = Inr (r', v')"
      using False g(1) loop(1) by (subst shuffle_loop.simps) (simp add: Let_def)
    moreover have "mset v' = mset v"
      using loop(2) range less.prems by (simp add: swap_at_swap)
    moreover have "take b ?v = take b v" "drop e ?v = drop e v"
      using swap_at_outside [OF range(3) range(1) range(4) range(2)] by simp_all
    ultimately show ?thesis using loop(3,4) by simp
  qed
qed

lemma ShuffleRange_permutes_all:
  assumes "0 \<le> b" and "b \<le> e" and "e \<le> int (length v)" and "length v < 2 ^ 31"
  shows "\<exists>r' v'. ShuffleRange r b e v = Inr (r', v') \<and> mset v' = mset v \<and>
    take (nat b) v' = take (nat b) v \<and> drop (nat e) v' = drop (nat e) v"
proof -
  have "nat b + nat (e - b) \<le> nat e" "nat e \<le> length v" "nat (e - b) \<le> 2 ^ 31"
    using assms by (simp_all add: nat_le_iff)
  from shuffle_loop_permutes [OF this, of r] show ?thesis
    using assms by (simp add: ShuffleRange_def Let_def vector_size_eq)
qed

text \<open>
  Shuffling a range of a vector does not abort when the range fits, it permutes the elements,
  and it leaves everything before and behind the range where it was, whatever the generator's
  state.
\<close>

theorem ShuffleRange_permutes:
  assumes "0 \<le> b" and "b \<le> e" and "e \<le> int (length v)" and "length v < 2 ^ 31"
  shows "\<exists>r' v'. ShuffleRange r b e v = Inr (r', v') \<and> mset v' = mset v \<and>
    take (nat b) v' = take (nat b) v \<and> drop (nat e) v' = drop (nat e) v"
  using assms by (rule ShuffleRange_permutes_all)

theorem ShuffleRange_permutes_witness:
  "\<exists>r' v'. ShuffleRange 7 1 4 [10, 20, 30, 40, 50 :: int] = Inr (r', v') \<and>
    mset v' = {#10, 20, 30, 40, 50#} \<and> take 1 v' = [10] \<and> drop 4 v' = [50]"
  using ShuffleRange_permutes [of 1 4 "[10, 20, 30, 40, 50 :: int]" 7] by simp

lemma ShuffleRange_out_of_range:
  "length v < 2 ^ 31 \<Longrightarrow> \<not> (0 \<le> b \<and> b \<le> e \<and> e \<le> int (length v)) \<Longrightarrow> ShuffleRange r b e v = Inl AssertionFailure"
  by (auto simp: ShuffleRange_def Let_def vector_size_eq assert_res_def)

lemma Shuffle_permutes:
  assumes "length v < 2 ^ 31"
  shows "\<exists>r' v'. Shuffle r v = Inr (r', v') \<and> mset v' = mset v"
proof -
  have "0 + length v \<le> length v" "length v \<le> length v" "length v \<le> 2 ^ 31" using assms by simp_all
  from shuffle_loop_permutes [OF this, of r] show ?thesis using assms
    by (auto simp: Shuffle_def ShuffleRange_def Let_def vector_size_eq)
qed

text \<open>
  Every seed the framework makes is typed easily: the seed of a flag or of the time is in the
  range 1 to 99999, and so is the seed that follows a seed in this range.
\<close>

theorem seed_range:
  "GetRandomSeedFromFlag now flag \<in> {1..kMaxRandomSeed} \<and>
   (case GetNextRandomSeed (GetRandomSeedFromFlag now flag) of
      Inr seed \<Rightarrow> seed \<in> {1..kMaxRandomSeed}
    | Inl _ \<Rightarrow> False)"
proof -
  have range: "GetRandomSeedFromFlag now flag \<in> {1..kMaxRandomSeed}"
  proof -
    have "sint ((w - 1) mod 99999 :: 32 word) \<in> {0..99998}" for w
    proof -
      have u: "uint ((w - 1) mod 99999 :: 32 word) < 99999"
        by (simp add: uint_mod_distrib)
      moreover have "- 2147483648 \<le> uint ((w - 1) mod 99999 :: 32 word)"
        by (rule order_trans [OF _ unsigned_greater_eq]) simp
      ultimately have "sint ((w - 1) mod 99999 :: 32 word) = uint ((w - 1) mod 99999 :: 32 word)"
        by (simp add: sint_uint signed_take_bit_int_eq_self_iff)
      with u show ?thesis by simp
    qed
    then show ?thesis by (simp add: GetRandomSeedFromFlag_def kMaxRandomSeed_def)
  qed
  then show ?thesis by (simp add: GetNextRandomSeed_def Let_def)
qed

end
