(* ===== verification/Gtest_Result.thy ===== *)
theory Gtest_Result
  imports Gtest_Random
begin

text \<open>
  The results of assertions and of tests (\<open>gtest-test-part.h\<close>, \<open>gtest-test-part.cc\<close>, the classes
  \<open>TestProperty\<close> and \<open>TestResult\<close> of \<open>gtest.h\<close> and \<open>gtest.cc\<close>, \<open>FormatFileLocation\<close> of
  \<open>gtest-port.cc\<close>). \<open>Abort\<close> is the outcome \<open>AssertionFailure\<close>; a file name is \<open>None\<close> for \<open>NULL\<close>.
\<close>

section \<open>Searching text\<close>

text \<open>\<open>strstr\<close>: the rest of the text from the first occurrence of the needle on.\<close>

fun strstr :: "string \<Rightarrow> string \<Rightarrow> string option" where
  "strstr [] needle = (if needle = [] then Some [] else None)"
| "strstr (c # s) needle = (if take (length needle) (c # s) = needle then Some (c # s) else strstr s needle)"

lemma strstr_Some: "strstr s t = Some r \<Longrightarrow> \<exists>u. s = u @ r \<and> (\<exists>v. r = t @ v)"
proof (induction s)
  case (Cons c s)
  show ?case
  proof (cases "take (length t) (c # s) = t")
    case True
    then have "r = c # s" using Cons.prems by simp
    moreover have "c # s = t @ drop (length t) (c # s)" using True by (metis append_take_drop_id)
    ultimately show ?thesis by blast
  next
    case False
    then obtain u where "s = u @ r" "\<exists>v. r = t @ v" using Cons by auto
    then show ?thesis by (intro exI [of _ "c # u"]) simp
  qed
qed (auto split: if_splits)

lemma strstr_append: "strstr (u @ t @ v) t \<noteq> None"
proof (induction u)
  case Nil
  have "strstr s t \<noteq> None" if "take (length t) s = t" for s
    using that by (cases s) auto
  then show ?case by simp
qed auto

lemma strstr_iff: "strstr s t \<noteq> None \<longleftrightarrow> (\<exists>u v. s = u @ t @ v)"
proof
  assume "strstr s t \<noteq> None"
  then obtain r where "strstr s t = Some r" by blast
  then show "\<exists>u v. s = u @ t @ v" using strstr_Some by blast
next
  assume "\<exists>u v. s = u @ t @ v"
  then show "strstr s t \<noteq> None" using strstr_append by blast
qed

section \<open>Part results\<close>

datatype part_type = kSuccess | kNonFatalFailure | kFatalFailure

record test_part_result =
  part_type_ok :: part_type
  part_file_name :: string
  part_line_number :: int
  part_summary :: string
  part_message :: string

definition kStackTraceMarker :: string where
  "kStackTraceMarker = [LF] @ ''Stack trace:'' @ [LF]"

definition ExtractSummary :: "string \<Rightarrow> string" where
  "ExtractSummary message =
     (case strstr message kStackTraceMarker of
        None \<Rightarrow> message
      | Some stack_trace \<Rightarrow> take (length message - length stack_trace) message)"

definition TestPartResult :: "part_type \<Rightarrow> string option \<Rightarrow> int \<Rightarrow> string \<Rightarrow> test_part_result" where
  "TestPartResult a_type a_file_name a_line_number a_message =
     \<lparr>part_type_ok = a_type,
      part_file_name = (case a_file_name of None \<Rightarrow> [] | Some f \<Rightarrow> f),
      part_line_number = a_line_number,
      part_summary = ExtractSummary a_message,
      part_message = a_message\<rparr>"

definition result_file_name :: "test_part_result \<Rightarrow> string option" where
  "result_file_name r = (if part_file_name r = [] then None else Some (part_file_name r))"

definition part_passed :: "test_part_result \<Rightarrow> bool" where
  "part_passed r \<longleftrightarrow> part_type_ok r = kSuccess"

definition part_failed :: "test_part_result \<Rightarrow> bool" where
  "part_failed r \<longleftrightarrow> part_type_ok r \<noteq> kSuccess"

definition nonfatally_failed :: "test_part_result \<Rightarrow> bool" where
  "nonfatally_failed r \<longleftrightarrow> part_type_ok r = kNonFatalFailure"

definition fatally_failed :: "test_part_result \<Rightarrow> bool" where
  "fatally_failed r \<longleftrightarrow> part_type_ok r = kFatalFailure"

definition kUnknownFile :: string where "kUnknownFile = ''unknown file''"

definition FormatFileLocation :: "string option \<Rightarrow> int \<Rightarrow> string" where
  "FormatFileLocation f line =
     (let file_name = (case f of None \<Rightarrow> kUnknownFile | Some n \<Rightarrow> n) in
      if line < 0 then file_name @ '':'' else file_name @ '':'' @ dec_of_int line @ '':'')"

definition FormatCompilerIndependentFileLocation :: "string option \<Rightarrow> int \<Rightarrow> string" where
  "FormatCompilerIndependentFileLocation f line =
     (let file_name = (case f of None \<Rightarrow> kUnknownFile | Some n \<Rightarrow> n) in
      if line < 0 then file_name else file_name @ '':'' @ dec_of_int line)"

fun TestPartResultTypeToString :: "part_type \<Rightarrow> string" where
  "TestPartResultTypeToString kSuccess = ''Success''"
| "TestPartResultTypeToString kNonFatalFailure = ''Failure'' @ [LF]"
| "TestPartResultTypeToString kFatalFailure = ''Failure'' @ [LF]"

definition PrintTestPartResultToString :: "test_part_result \<Rightarrow> string" where
  "PrintTestPartResultToString r =
     FormatFileLocation (result_file_name r) (part_line_number r) @ '' '' @
     TestPartResultTypeToString (part_type_ok r) @ part_message r"

subsection \<open>Arrays of part results\<close>

type_synonym part_array = "test_part_result list"

definition array_Append :: "test_part_result \<Rightarrow> part_array \<Rightarrow> part_array" where
  "array_Append r a = a @ [r]"

definition array_size :: "part_array \<Rightarrow> int" where
  "array_size a = vector_size a"

definition array_GetTestPartResult :: "int \<Rightarrow> part_array \<Rightarrow> test_part_result res" where
  "array_GetTestPartResult i a = assert_res (\<not> (i < 0 \<or> i \<ge> array_size a)) (Inr (a ! nat i))"

section \<open>Test results\<close>

record test_property =
  property_key :: string
  property_value :: string

definition TestProperty :: "string \<Rightarrow> string \<Rightarrow> test_property" where
  "TestProperty a_key a_value = \<lparr>property_key = a_key, property_value = a_value\<rparr>"

definition SetValue :: "string \<Rightarrow> test_property \<Rightarrow> test_property" where
  "SetValue new_value p = p\<lparr>property_value := new_value\<rparr>"

record test_result =
  test_part_results :: "test_part_result list"
  test_properties :: "test_property list"
  result_death_test_count :: int
  result_elapsed_time :: int

definition new_TestResult :: test_result where
  "new_TestResult =
     \<lparr>test_part_results = [], test_properties = [], result_death_test_count = 0, result_elapsed_time = 0\<rparr>"

definition total_part_count :: "test_result \<Rightarrow> int" where
  "total_part_count r = vector_size (test_part_results r)"

definition test_property_count :: "test_result \<Rightarrow> int" where
  "test_property_count r = vector_size (test_properties r)"

definition GetTestPartResult :: "int \<Rightarrow> test_result \<Rightarrow> test_part_result res" where
  "GetTestPartResult i r =
     assert_res (\<not> (i < 0 \<or> i \<ge> total_part_count r)) (Inr (test_part_results r ! nat i))"

definition GetTestProperty :: "int \<Rightarrow> test_result \<Rightarrow> test_property res" where
  "GetTestProperty i r =
     assert_res (\<not> (i < 0 \<or> i \<ge> test_property_count r)) (Inr (test_properties r ! nat i))"

definition ClearTestPartResults :: "test_result \<Rightarrow> test_result" where
  "ClearTestPartResults r = r\<lparr>test_part_results := []\<rparr>"

definition result_AddTestPartResult :: "test_part_result \<Rightarrow> test_result \<Rightarrow> test_result" where
  "result_AddTestPartResult p r = r\<lparr>test_part_results := test_part_results r @ [p]\<rparr>"

definition increment_death_test_count :: "test_result \<Rightarrow> test_result \<times> int" where
  "increment_death_test_count r =
     (let n = result_death_test_count r + 1 in (r\<lparr>result_death_test_count := n\<rparr>, n))"

definition result_Clear :: "test_result \<Rightarrow> test_result" where
  "result_Clear r = r\<lparr>test_part_results := [], test_properties := [], result_death_test_count := 0,
     result_elapsed_time := 0\<rparr>"

text \<open>The loop of \<open>TestResult::Failed\<close> over the parts.\<close>

fun any_failed :: "test_part_result list \<Rightarrow> bool" where
  "any_failed [] = False"
| "any_failed (p # ps) = (if part_failed p then True else any_failed ps)"

definition result_Failed :: "test_result \<Rightarrow> bool" where
  "result_Failed r = any_failed (test_part_results r)"

definition result_Passed :: "test_result \<Rightarrow> bool" where
  "result_Passed r \<longleftrightarrow> \<not> result_Failed r"

definition result_HasFatalFailure :: "test_result \<Rightarrow> bool" where
  "result_HasFatalFailure r \<longleftrightarrow> CountIf (test_part_results r) fatally_failed > 0"

definition result_HasNonfatalFailure :: "test_result \<Rightarrow> bool" where
  "result_HasNonfatalFailure r \<longleftrightarrow> CountIf (test_part_results r) nonfatally_failed > 0"

subsection \<open>Recording a property\<close>

definition kReservedTestSuitesAttributes :: "string list" where
  "kReservedTestSuitesAttributes =
     [''disabled'', ''errors'', ''failures'', ''name'', ''random_seed'', ''tests'', ''time'', ''timestamp'']"

definition kReservedTestSuiteAttributes :: "string list" where
  "kReservedTestSuiteAttributes = [''disabled'', ''errors'', ''failures'', ''name'', ''tests'', ''time'']"

definition kReservedTestCaseAttributes :: "string list" where
  "kReservedTestCaseAttributes = [''classname'', ''name'', ''status'', ''time'', ''type_param'', ''value_param'']"

definition GetReservedAttributesForElement :: "string \<Rightarrow> string list res" where
  "GetReservedAttributesForElement xml_element =
     (if xml_element = ''testsuites'' then Inr kReservedTestSuitesAttributes
      else if xml_element = ''testsuite'' then Inr kReservedTestSuiteAttributes
      else if xml_element = ''testcase'' then Inr kReservedTestCaseAttributes
      else Inl AssertionFailure)"

definition list_word :: "string list \<Rightarrow> nat \<Rightarrow> string" where
  "list_word words i =
     (if 0 < i \<and> length words > 2 then '', '' else []) @
     (if i = length words - 1 then ''and '' else []) @
     [CHR 0x27] @ words ! i @ [CHR 0x27]"

definition FormatWordList :: "string list \<Rightarrow> string" where
  "FormatWordList words = concat (map (list_word words) [0..<length words])"

text \<open>
  The second component is the text of the failure that is added, by \<open>ADD_FAILURE()\<close>, to the result
  of the running test.
\<close>

definition ValidateTestPropertyName :: "string \<Rightarrow> string list \<Rightarrow> bool \<times> string option" where
  "ValidateTestPropertyName property_name reserved_names =
     (if property_name \<in> set reserved_names then
        (False, Some (''Reserved key used in RecordProperty(): '' @ property_name @ '' ('' @
           FormatWordList reserved_names @ '' are reserved by Google Test)''))
      else (True, None))"

definition ValidateTestProperty :: "string \<Rightarrow> test_property \<Rightarrow> (bool \<times> string option) res" where
  "ValidateTestProperty xml_element p =
     bind_res (GetReservedAttributesForElement xml_element)
       (\<lambda>names. Inr (ValidateTestPropertyName (property_key p) names))"

fun put_property :: "test_property \<Rightarrow> test_property list \<Rightarrow> test_property list" where
  "put_property p [] = [p]"
| "put_property p (q # qs) =
     (if property_key q = property_key p then SetValue (property_value p) q # qs else q # put_property p qs)"

definition result_RecordProperty :: "string \<Rightarrow> test_property \<Rightarrow> test_result \<Rightarrow> (test_result \<times> string option) res" where
  "result_RecordProperty xml_element p r =
     bind_res (ValidateTestProperty xml_element p) (\<lambda>(valid, failure).
       if \<not> valid then Inr (r, failure)
       else Inr (r\<lparr>test_properties := put_property p (test_properties r)\<rparr>, failure))"

section \<open>Lemmas\<close>

lemma ExtractSummary_no_trace: "strstr m kStackTraceMarker = None \<Longrightarrow> ExtractSummary m = m"
  by (simp add: ExtractSummary_def)

lemma any_failed_iff: "any_failed ps \<longleftrightarrow> (\<exists>p \<in> set ps. part_failed p)"
  by (induction ps) auto

lemma CountIf_pos: "CountIf xs P > 0 \<longleftrightarrow> (\<exists>x \<in> set xs. P x)"
  by (simp add: CountIf_filter filter_empty_conv)

text \<open>A test fails when it has a fatal or a non-fatal failure.\<close>

lemma result_Failed_iff: "result_Failed r \<longleftrightarrow> result_HasFatalFailure r \<or> result_HasNonfatalFailure r"
proof -
  have "part_failed p \<longleftrightarrow> fatally_failed p \<or> nonfatally_failed p" for p
    by (cases "part_type_ok p") (simp_all add: part_failed_def fatally_failed_def nonfatally_failed_def)
  then show ?thesis
    by (auto simp: result_Failed_def any_failed_iff result_HasFatalFailure_def result_HasNonfatalFailure_def CountIf_pos)
qed

lemma result_Clear_new: "result_Clear r = new_TestResult"
  by (cases r) (simp add: result_Clear_def new_TestResult_def)

text \<open>The recorded properties as a map, and their keys.\<close>

definition property_map :: "test_property list \<Rightarrow> string \<Rightarrow> string option" where
  "property_map ps = map_of (map (\<lambda>p. (property_key p, property_value p)) ps)"

lemma put_property_map: "property_map (put_property p ps) = (property_map ps)(property_key p \<mapsto> property_value p)"
  by (induction ps) (auto simp: property_map_def SetValue_def)

lemma put_property_keys: "set (map property_key (put_property p ps)) = insert (property_key p) (set (map property_key ps))"
  by (induction ps) (auto simp: SetValue_def)

lemma put_property_distinct: "distinct (map property_key ps) \<Longrightarrow> distinct (map property_key (put_property p ps))"
proof (induction ps)
  case (Cons q qs)
  then show ?case using put_property_keys [of p qs] by (auto simp: SetValue_def)
qed simp

lemma new_property_last: "property_key p \<notin> set (map property_key ps) \<Longrightarrow> put_property p ps = ps @ [p]"
  by (induction ps) auto

text \<open>
  Recording a property in a result whose keys are distinct refines the update of a finite map:
  the keys stay distinct, the map has the new value at its key and is otherwise unchanged. A key
  reserved for the element leaves the result as it is and gives a failure instead.
\<close>

theorem RecordProperty_map:
  assumes "distinct (map property_key (test_properties r))"
    and "GetReservedAttributesForElement e = Inr reserved"
  shows "case result_RecordProperty e p r of
      Inl _ \<Rightarrow> False
    | Inr (r', failure) \<Rightarrow>
        distinct (map property_key (test_properties r')) \<and>
        test_part_results r' = test_part_results r \<and>
        (if property_key p \<in> set reserved then failure \<noteq> None \<and> r' = r
         else failure = None \<and>
           property_map (test_properties r') = (property_map (test_properties r))(property_key p \<mapsto> property_value p))"
  using assms put_property_distinct
  by (simp add: result_RecordProperty_def ValidateTestProperty_def ValidateTestPropertyName_def put_property_map)

theorem RecordProperty_map_witness:
  "case result_RecordProperty ''testcase'' (TestProperty ''size'' ''2'')
      (new_TestResult\<lparr>test_properties := [TestProperty ''size'' ''1'']\<rparr>) of
      Inl _ \<Rightarrow> False
    | Inr (r', failure) \<Rightarrow> failure = None \<and> property_map (test_properties r') ''size'' = Some ''2''"
  using RecordProperty_map [of "new_TestResult\<lparr>test_properties := [TestProperty ''size'' ''1'']\<rparr>" "''testcase''"
      kReservedTestCaseAttributes "TestProperty ''size'' ''2''"]
  by (simp add: GetReservedAttributesForElement_def kReservedTestCaseAttributes_def TestProperty_def
      split: sum.splits prod.splits)

end
