(* ===== verification/Gtest_Flags.thy ===== *)
theory Gtest_Flags
  imports Prelude
begin

text \<open>
  The flags of the unit-test framework: their values and defaults from the environment
  (\<open>gtest/src/gtest.cc\<close>, \<open>gtest-death-test.cc\<close>, \<open>gtest-port.cc\<close>), the parsers of the
  command line, the class that saves and restores them (\<open>gtest-internal-inl.h\<close>) and the printer of
  the help text. A C string is the list of the characters before its terminator; text printed to
  standard output is a result. \<open>Int32\<close> values are integers in the range of the type, \<open>long\<close> has
  64 bits (Linux).
\<close>

section \<open>Prefixes and characters\<close>

abbreviation QUOTE :: char where "QUOTE \<equiv> CHR 0x22"
abbreviation TAB :: char where "TAB \<equiv> CHR 0x09"

definition SkipPrefix :: "string \<Rightarrow> string \<Rightarrow> string option" where
  "SkipPrefix prefix str =
     (if take (length prefix) str = prefix then Some (drop (length prefix) str) else None)"

lemma SkipPrefix_Some: "SkipPrefix p s = Some r \<longleftrightarrow> s = p @ r"
proof
  assume "SkipPrefix p s = Some r"
  then have "take (length p) s = p" "drop (length p) s = r"
    by (simp_all add: SkipPrefix_def split: if_splits)
  then show "s = p @ r" by (metis append_take_drop_id)
qed (simp add: SkipPrefix_def)

lemma SkipPrefix_None: "SkipPrefix p s = None \<longleftrightarrow> (\<nexists>r. s = p @ r)"
  using SkipPrefix_Some [of p s] by (cases "SkipPrefix p s") auto

definition ToUpper :: "char \<Rightarrow> char" where
  "ToUpper ch =
     (if 97 \<le> (of_char ch :: nat) \<and> (of_char ch :: nat) \<le> 122 then char_of (of_char ch - 32 :: nat) else ch)"

definition IsSpace :: "char \<Rightarrow> bool" where
  "IsSpace ch \<longleftrightarrow> ch \<in> {SP, TAB, LF, CHR 0x0B, CHR 0x0C, CR}"

definition is_digit :: "char \<Rightarrow> bool" where
  "is_digit ch \<longleftrightarrow> 48 \<le> (of_char ch :: nat) \<and> (of_char ch :: nat) \<le> 57"

section \<open>Integers as text\<close>

text \<open>
  \<open>strtol\<close> with base 10: white space, a sign and digits; the value is clamped to \<open>long\<close>, and without
  a digit nothing is consumed and the value is 0. The second component is what is left.
\<close>

definition clamp_long :: "int \<Rightarrow> int" where
  "clamp_long v = max (- (2 ^ 63)) (min v (2 ^ 63 - 1))"

definition strtol_sign :: "string \<Rightarrow> int \<times> string" where
  "strtol_sign s =
     (case s of
        [] \<Rightarrow> (1, s)
      | c # t \<Rightarrow> if c = CHR ''-'' then (- 1, t) else if c = CHR ''+'' then (1, t) else (1, s))"

definition strtol10 :: "string \<Rightarrow> int \<times> string" where
  "strtol10 str =
     (case strtol_sign (dropWhile IsSpace str) of (sg, ds) \<Rightarrow>
       if takeWhile is_digit ds = [] then (0, str)
       else (clamp_long (sg * int (nat_of_dec (takeWhile is_digit ds))), dropWhile is_digit ds))"

definition to_Int32 :: "int \<Rightarrow> int" where
  "to_Int32 v = sint (word_of_int v :: 32 word)"

text \<open>The value, if any, and the warning printed.\<close>

definition ParseInt32 :: "string \<Rightarrow> string \<Rightarrow> int option \<times> string" where
  "ParseInt32 src_text str =
     (case strtol10 str of (long_value, end_text) \<Rightarrow>
       if end_text \<noteq> [] then
         (None, ''WARNING: '' @ src_text @ '' is expected to be a 32-bit integer, but actually'' @
            '' has value '' @ [QUOTE] @ str @ [QUOTE] @ ''.'' @ [LF])
       else if long_value = 2 ^ 63 - 1 \<or> long_value = - (2 ^ 63) \<or> to_Int32 long_value \<noteq> long_value then
         (None, ''WARNING: '' @ src_text @ '' is expected to be a 32-bit integer, but actually'' @
            '' has value '' @ str @ '', which overflows.'' @ [LF])
       else (Some (to_Int32 long_value), []))"

section \<open>The environment\<close>

type_synonym environment = "string \<Rightarrow> string option"

definition FlagToEnvVar :: "string \<Rightarrow> string" where
  "FlagToEnvVar flag = map ToUpper (''gtest_'' @ flag)"

definition BoolFromGTestEnv :: "environment \<Rightarrow> string \<Rightarrow> bool \<Rightarrow> bool" where
  "BoolFromGTestEnv env flag default_value =
     (case env (FlagToEnvVar flag) of None \<Rightarrow> default_value | Some string_value \<Rightarrow> string_value \<noteq> ''0'')"

definition Int32FromGTestEnv :: "environment \<Rightarrow> string \<Rightarrow> int \<Rightarrow> int \<times> string" where
  "Int32FromGTestEnv env flag default_value =
     (let env_var = FlagToEnvVar flag in
      case env env_var of
        None \<Rightarrow> (default_value, [])
      | Some string_value \<Rightarrow>
          (case ParseInt32 (''Environment variable '' @ env_var) string_value of
             (None, out) \<Rightarrow>
               (default_value, out @ ''The default value '' @ dec_of_int default_value @ '' is used.'' @ [LF])
           | (Some result, out) \<Rightarrow> (result, out)))"

definition StringFromGTestEnv :: "environment \<Rightarrow> string \<Rightarrow> string \<Rightarrow> string" where
  "StringFromGTestEnv env flag default_value =
     (case env (FlagToEnvVar flag) of None \<Rightarrow> default_value | Some v \<Rightarrow> v)"

section \<open>The flags\<close>

definition kAlsoRunDisabledTestsFlag :: string where
  "kAlsoRunDisabledTestsFlag = ''also_run_disabled_tests''"
definition kBreakOnFailureFlag :: string where "kBreakOnFailureFlag = ''break_on_failure''"
definition kCatchExceptionsFlag :: string where "kCatchExceptionsFlag = ''catch_exceptions''"
definition kColorFlag :: string where "kColorFlag = ''color''"
definition kFilterFlag :: string where "kFilterFlag = ''filter''"
definition kListTestsFlag :: string where "kListTestsFlag = ''list_tests''"
definition kOutputFlag :: string where "kOutputFlag = ''output''"
definition kPrintTimeFlag :: string where "kPrintTimeFlag = ''print_time''"
definition kRandomSeedFlag :: string where "kRandomSeedFlag = ''random_seed''"
definition kRepeatFlag :: string where "kRepeatFlag = ''repeat''"
definition kShuffleFlag :: string where "kShuffleFlag = ''shuffle''"
definition kStackTraceDepthFlag :: string where "kStackTraceDepthFlag = ''stack_trace_depth''"
definition kStreamResultToFlag :: string where "kStreamResultToFlag = ''stream_result_to''"
definition kThrowOnFailureFlag :: string where "kThrowOnFailureFlag = ''throw_on_failure''"
definition kDeathTestStyleFlag :: string where "kDeathTestStyleFlag = ''death_test_style''"
definition kDeathTestUseFork :: string where "kDeathTestUseFork = ''death_test_use_fork''"
definition kInternalRunDeathTestFlag :: string where
  "kInternalRunDeathTestFlag = ''internal_run_death_test''"

definition kUniversalFilter :: string where "kUniversalFilter = ''*''"

definition GetDefaultFilter :: string where "GetDefaultFilter = kUniversalFilter"

definition kMaxStackTraceDepth :: int where "kMaxStackTraceDepth = 100"

definition kDefaultDeathTestStyle :: string where "kDefaultDeathTestStyle = ''fast''"

record gtest_flags =
  FLAG_also_run_disabled_tests :: bool
  FLAG_break_on_failure :: bool
  FLAG_catch_exceptions :: bool
  FLAG_color :: string
  FLAG_death_test_style :: string
  FLAG_death_test_use_fork :: bool
  FLAG_filter :: string
  FLAG_internal_run_death_test :: string
  FLAG_list_tests :: bool
  FLAG_output :: string
  FLAG_print_time :: bool
  FLAG_random_seed :: int
  FLAG_repeat :: int
  FLAG_show_internal_stack_frames :: bool
  FLAG_shuffle :: bool
  FLAG_stack_trace_depth :: int
  FLAG_stream_result_to :: string
  FLAG_throw_on_failure :: bool

text \<open>The definitions of the flags, run before \<open>main\<close>: each takes its value from the environment.\<close>

definition default_flags :: "environment \<Rightarrow> gtest_flags" where
  "default_flags env =
     \<lparr>FLAG_also_run_disabled_tests = BoolFromGTestEnv env ''also_run_disabled_tests'' False,
      FLAG_break_on_failure = BoolFromGTestEnv env ''break_on_failure'' False,
      FLAG_catch_exceptions = BoolFromGTestEnv env ''catch_exceptions'' True,
      FLAG_color = StringFromGTestEnv env ''color'' ''auto'',
      FLAG_death_test_style = StringFromGTestEnv env ''death_test_style'' kDefaultDeathTestStyle,
      FLAG_death_test_use_fork = BoolFromGTestEnv env ''death_test_use_fork'' False,
      FLAG_filter = StringFromGTestEnv env ''filter'' GetDefaultFilter,
      FLAG_internal_run_death_test = '''',
      FLAG_list_tests = False,
      FLAG_output = StringFromGTestEnv env ''output'' '''',
      FLAG_print_time = BoolFromGTestEnv env ''print_time'' True,
      FLAG_random_seed = fst (Int32FromGTestEnv env ''random_seed'' 0),
      FLAG_repeat = fst (Int32FromGTestEnv env ''repeat'' 1),
      FLAG_show_internal_stack_frames = False,
      FLAG_shuffle = BoolFromGTestEnv env ''shuffle'' False,
      FLAG_stack_trace_depth = fst (Int32FromGTestEnv env ''stack_trace_depth'' kMaxStackTraceDepth),
      FLAG_stream_result_to = StringFromGTestEnv env ''stream_result_to'' '''',
      FLAG_throw_on_failure = BoolFromGTestEnv env ''throw_on_failure'' False\<rparr>"

text \<open>The saver has a member for every flag but \<open>show_internal_stack_frames\<close>.\<close>

record flag_saver =
  saved_also_run_disabled_tests :: bool
  saved_break_on_failure :: bool
  saved_catch_exceptions :: bool
  saved_color :: string
  saved_death_test_style :: string
  saved_death_test_use_fork :: bool
  saved_filter :: string
  saved_internal_run_death_test :: string
  saved_list_tests :: bool
  saved_output :: string
  saved_print_time :: bool
  saved_random_seed :: int
  saved_repeat :: int
  saved_shuffle :: bool
  saved_stack_trace_depth :: int
  saved_stream_result_to :: string
  saved_throw_on_failure :: bool

definition GTestFlagSaver :: "gtest_flags \<Rightarrow> flag_saver" where
  "GTestFlagSaver fl =
     \<lparr>saved_also_run_disabled_tests = FLAG_also_run_disabled_tests fl,
      saved_break_on_failure = FLAG_break_on_failure fl,
      saved_catch_exceptions = FLAG_catch_exceptions fl,
      saved_color = FLAG_color fl,
      saved_death_test_style = FLAG_death_test_style fl,
      saved_death_test_use_fork = FLAG_death_test_use_fork fl,
      saved_filter = FLAG_filter fl,
      saved_internal_run_death_test = FLAG_internal_run_death_test fl,
      saved_list_tests = FLAG_list_tests fl,
      saved_output = FLAG_output fl,
      saved_print_time = FLAG_print_time fl,
      saved_random_seed = FLAG_random_seed fl,
      saved_repeat = FLAG_repeat fl,
      saved_shuffle = FLAG_shuffle fl,
      saved_stack_trace_depth = FLAG_stack_trace_depth fl,
      saved_stream_result_to = FLAG_stream_result_to fl,
      saved_throw_on_failure = FLAG_throw_on_failure fl\<rparr>"

definition destroy_FlagSaver :: "flag_saver \<Rightarrow> gtest_flags \<Rightarrow> gtest_flags" where
  "destroy_FlagSaver s fl = fl
     \<lparr>FLAG_also_run_disabled_tests := saved_also_run_disabled_tests s,
      FLAG_break_on_failure := saved_break_on_failure s,
      FLAG_catch_exceptions := saved_catch_exceptions s,
      FLAG_color := saved_color s,
      FLAG_death_test_style := saved_death_test_style s,
      FLAG_death_test_use_fork := saved_death_test_use_fork s,
      FLAG_filter := saved_filter s,
      FLAG_internal_run_death_test := saved_internal_run_death_test s,
      FLAG_list_tests := saved_list_tests s,
      FLAG_output := saved_output s,
      FLAG_print_time := saved_print_time s,
      FLAG_random_seed := saved_random_seed s,
      FLAG_repeat := saved_repeat s,
      FLAG_shuffle := saved_shuffle s,
      FLAG_stack_trace_depth := saved_stack_trace_depth s,
      FLAG_stream_result_to := saved_stream_result_to s,
      FLAG_throw_on_failure := saved_throw_on_failure s\<rparr>"

section \<open>Parsing one argument\<close>

definition ParseFlagValue :: "string option \<Rightarrow> string option \<Rightarrow> bool \<Rightarrow> string option" where
  "ParseFlagValue str flag def_optional =
     (case (str, flag) of
        (Some s, Some f) \<Rightarrow>
          (case SkipPrefix (''--'' @ ''gtest_'' @ f) s of
             None \<Rightarrow> None
           | Some flag_end \<Rightarrow>
               if def_optional \<and> flag_end = [] then Some flag_end
               else (case flag_end of
                       [] \<Rightarrow> None
                     | c # v \<Rightarrow> if c \<noteq> CHR ''='' then None else Some v))
      | _ \<Rightarrow> None)"

definition ParseBoolFlag :: "string \<Rightarrow> string \<Rightarrow> bool option" where
  "ParseBoolFlag str flag =
     (case ParseFlagValue (Some str) (Some flag) True of
        None \<Rightarrow> None
      | Some [] \<Rightarrow> Some True
      | Some (c # _) \<Rightarrow> Some (\<not> (c = CHR ''0'' \<or> c = CHR ''f'' \<or> c = CHR ''F'')))"

definition ParseInt32Flag :: "string \<Rightarrow> string \<Rightarrow> int option \<times> string" where
  "ParseInt32Flag str flag =
     (case ParseFlagValue (Some str) (Some flag) False of
        None \<Rightarrow> (None, [])
      | Some value_str \<Rightarrow> ParseInt32 (''The value of flag --'' @ flag) value_str)"

definition ParseStringFlag :: "string \<Rightarrow> string \<Rightarrow> string option" where
  "ParseStringFlag str flag = ParseFlagValue (Some str) (Some flag) False"

definition HasGoogleTestFlagPrefix :: "string \<Rightarrow> bool" where
  "HasGoogleTestFlagPrefix str =
     (case (case SkipPrefix ''--'' str of
              Some r \<Rightarrow> Some r
            | None \<Rightarrow> (case SkipPrefix ''-'' str of Some r \<Rightarrow> Some r | None \<Rightarrow> SkipPrefix ''/'' str)) of
        None \<Rightarrow> False
      | Some r \<Rightarrow>
          SkipPrefix ''gtest_internal_'' r = None \<and>
          (SkipPrefix ''gtest_'' r \<noteq> None \<or> SkipPrefix ''gtest-'' r \<noteq> None))"

text \<open>
  One operand of the disjunction in \<open>ParseGoogleTestFlagsOnlyImpl\<close>: the flags after a success, and
  what is printed; the disjunction stops at its first success.
\<close>

type_synonym flag_attempt = "gtest_flags option \<times> string"

definition bool_flag :: "string \<Rightarrow> string \<Rightarrow> (bool \<Rightarrow> gtest_flags) \<Rightarrow> flag_attempt" where
  "bool_flag arg name set_flag = (map_option set_flag (ParseBoolFlag arg name), [])"

definition string_flag :: "string \<Rightarrow> string \<Rightarrow> (string \<Rightarrow> gtest_flags) \<Rightarrow> flag_attempt" where
  "string_flag arg name set_flag = (map_option set_flag (ParseStringFlag arg name), [])"

definition int_flag :: "string \<Rightarrow> string \<Rightarrow> (int \<Rightarrow> gtest_flags) \<Rightarrow> flag_attempt" where
  "int_flag arg name set_flag = (case ParseInt32Flag arg name of (v, out) \<Rightarrow> (map_option set_flag v, out))"

fun first_success :: "flag_attempt list \<Rightarrow> flag_attempt" where
  "first_success [] = (None, [])"
| "first_success ((Some fl, out) # rest) = (Some fl, out)"
| "first_success ((None, out) # rest) = (case first_success rest of (r, out') \<Rightarrow> (r, out @ out'))"

definition parse_flag :: "string \<Rightarrow> gtest_flags \<Rightarrow> flag_attempt" where
  "parse_flag arg fl = first_success
     [bool_flag arg kAlsoRunDisabledTestsFlag (\<lambda>v. fl\<lparr>FLAG_also_run_disabled_tests := v\<rparr>),
      bool_flag arg kBreakOnFailureFlag (\<lambda>v. fl\<lparr>FLAG_break_on_failure := v\<rparr>),
      bool_flag arg kCatchExceptionsFlag (\<lambda>v. fl\<lparr>FLAG_catch_exceptions := v\<rparr>),
      string_flag arg kColorFlag (\<lambda>v. fl\<lparr>FLAG_color := v\<rparr>),
      string_flag arg kDeathTestStyleFlag (\<lambda>v. fl\<lparr>FLAG_death_test_style := v\<rparr>),
      bool_flag arg kDeathTestUseFork (\<lambda>v. fl\<lparr>FLAG_death_test_use_fork := v\<rparr>),
      string_flag arg kFilterFlag (\<lambda>v. fl\<lparr>FLAG_filter := v\<rparr>),
      string_flag arg kInternalRunDeathTestFlag (\<lambda>v. fl\<lparr>FLAG_internal_run_death_test := v\<rparr>),
      bool_flag arg kListTestsFlag (\<lambda>v. fl\<lparr>FLAG_list_tests := v\<rparr>),
      string_flag arg kOutputFlag (\<lambda>v. fl\<lparr>FLAG_output := v\<rparr>),
      bool_flag arg kPrintTimeFlag (\<lambda>v. fl\<lparr>FLAG_print_time := v\<rparr>),
      int_flag arg kRandomSeedFlag (\<lambda>v. fl\<lparr>FLAG_random_seed := v\<rparr>),
      int_flag arg kRepeatFlag (\<lambda>v. fl\<lparr>FLAG_repeat := v\<rparr>),
      bool_flag arg kShuffleFlag (\<lambda>v. fl\<lparr>FLAG_shuffle := v\<rparr>),
      int_flag arg kStackTraceDepthFlag (\<lambda>v. fl\<lparr>FLAG_stack_trace_depth := v\<rparr>),
      string_flag arg kStreamResultToFlag (\<lambda>v. fl\<lparr>FLAG_stream_result_to := v\<rparr>),
      bool_flag arg kThrowOnFailureFlag (\<lambda>v. fl\<lparr>FLAG_throw_on_failure := v\<rparr>)]"

section \<open>The help text\<close>

datatype gtest_color = COLOR_DEFAULT | COLOR_RED | COLOR_GREEN | COLOR_YELLOW

text \<open>The calls of \<open>ColoredPrintf\<close>, in their order.\<close>

type_synonym colored_text = "(gtest_color \<times> string) list"

lemma dropWhile_shorter: "dropWhile P s = a # r \<Longrightarrow> length r < length s"
  using length_dropWhile_le [of P s] by simp

function print_color_loop :: "gtest_color \<Rightarrow> string \<Rightarrow> colored_text" where
  "print_color_loop color str =
     (case dropWhile (\<lambda>c. c \<noteq> CHR ''@'') str of
        [] \<Rightarrow> [(color, str)]
      | at_sign # rest \<Rightarrow>
          (color, takeWhile (\<lambda>c. c \<noteq> CHR ''@'') str) #
          (case rest of
             [] \<Rightarrow> print_color_loop color rest
           | ch # str' \<Rightarrow>
               if ch = CHR ''@'' then (color, ''@'') # print_color_loop color str'
               else if ch = CHR ''D'' then print_color_loop COLOR_DEFAULT str'
               else if ch = CHR ''R'' then print_color_loop COLOR_RED str'
               else if ch = CHR ''G'' then print_color_loop COLOR_GREEN str'
               else if ch = CHR ''Y'' then print_color_loop COLOR_YELLOW str'
               else print_color_loop color rest))"
  by pat_completeness auto

termination
  by (relation "measure (\<lambda>(color, str). length str)") (auto dest: dropWhile_shorter)

declare print_color_loop.simps [simp del]

definition kColorEncodedHelpMessage :: string where
  "kColorEncodedHelpMessage = concat (map (\<lambda>line. line @ [LF])
     [''This program contains tests written using Google Test. You can use the'',
      ''following command line flags to control its behavior:'',
      '''',
      ''Test Selection:'',
      ''  @G--gtest_list_tests@D'',
      ''      List the names of all tests instead of running them. The name of'',
      ''      TEST(Foo, Bar) is \"Foo.Bar\".'',
      ''  @G--gtest_filter=@YPOSTIVE_PATTERNS[@G-@YNEGATIVE_PATTERNS]@D'',
      ''      Run only the tests whose name matches one of the positive patterns but'',
      ''      none of the negative patterns. '' @ [CHR 0x27] @ ''?'' @ [CHR 0x27] @ '' matches any single character; '' @ [CHR 0x27] @ ''*'' @ [CHR 0x27],
      ''      matches any substring; '' @ [CHR 0x27] @ '':'' @ [CHR 0x27] @ '' separates two patterns.'',
      ''  @G--gtest_also_run_disabled_tests@D'',
      ''      Run all disabled tests too.'',
      '''',
      ''Test Execution:'',
      ''  @G--gtest_repeat=@Y[COUNT]@D'',
      ''      Run the tests repeatedly; use a negative count to repeat forever.'',
      ''  @G--gtest_shuffle@D'',
      ''      Randomize tests'' @ [CHR 0x27] @ '' orders on every iteration.'',
      ''  @G--gtest_random_seed=@Y[NUMBER]@D'',
      ''      Random number seed to use for shuffling test orders (between 1 and'',
      ''      99999, or 0 to use a seed based on the current time).'',
      '''',
      ''Test Output:'',
      ''  @G--gtest_color=@Y(@Gyes@Y|@Gno@Y|@Gauto@Y)@D'',
      ''      Enable/disable colored output. The default is @Gauto@D.'',
      ''  -@G-gtest_print_time=0@D'',
      ''      Don'' @ [CHR 0x27] @ ''t print the elapsed time of each test.'',
      ''  @G--gtest_output=xml@Y[@G:@YDIRECTORY_PATH@G/@Y|@G:@YFILE_PATH]@D'',
      ''      Generate an XML report in the given directory or with the given file'',
      ''      name. @YFILE_PATH@D defaults to @Gtest_details.xml@D.'',
      ''  @G--gtest_stream_result_to=@YHOST@G:@YPORT@D'',
      ''      Stream test results to the given server.'',
      '''',
      ''Assertion Behavior:'',
      ''  @G--gtest_death_test_style=@Y(@Gfast@Y|@Gthreadsafe@Y)@D'',
      ''      Set the default death test style.'',
      ''  @G--gtest_break_on_failure@D'',
      ''      Turn assertion failures into debugger break-points.'',
      ''  @G--gtest_throw_on_failure@D'',
      ''      Turn assertion failures into C++ exceptions.'',
      ''  @G--gtest_catch_exceptions=0@D'',
      ''      Do not report exceptions as test failures. Instead, allow them'',
      ''      to crash the program or throw a pop-up (on Windows).'',
      '''',
      ''Except for @G--gtest_list_tests@D, you can alternatively set the corresponding'',
      ''environment variable of a flag (all letters in upper-case). For example, to'',
      ''disable colored text output, you can either specify @G--gtest_color=no@D or set'',
      ''the @GGTEST_COLOR@D environment variable to @Gno@D.'',
      '''',
      ''For more information, please read the Google Test documentation at'',
      ''@Ghttp://code.google.com/p/googletest/@D. If you find a bug in Google Test'',
      ''(not one in your own code or tests), please report it to'',
      ''@G<googletestframework@@googlegroups.com>@D.''])"

definition PrintColorEncoded :: "string \<Rightarrow> colored_text" where
  "PrintColorEncoded str = print_color_loop COLOR_DEFAULT str"

section \<open>Parsing the command line\<close>

definition wants_help :: "string \<Rightarrow> bool" where
  "wants_help arg \<longleftrightarrow>
     arg = ''--help'' \<or> arg = ''-h'' \<or> arg = ''-?'' \<or> arg = ''/?'' \<or> HasGoogleTestFlagPrefix arg"

text \<open>
  The loop over \<open>i\<close>: a recognised argument is shifted out of \<open>argv\<close> and \<open>i\<close> stays.
\<close>

function parse_args_loop ::
  "nat \<Rightarrow> string list \<Rightarrow> gtest_flags \<Rightarrow> bool \<Rightarrow> string list \<times> gtest_flags \<times> bool \<times> string" where
  "parse_args_loop i argv fl help =
     (if length argv \<le> i then (argv, fl, help, [])
      else case parse_flag (argv ! i) fl of
        (Some fl', out) \<Rightarrow>
          (case parse_args_loop i (take i argv @ drop (i + 1) argv) fl' help of
             (argv', fl'', help', out') \<Rightarrow> (argv', fl'', help', out @ out'))
      | (None, out) \<Rightarrow>
          (case parse_args_loop (i + 1) argv fl (help \<or> wants_help (argv ! i)) of
             (argv', fl'', help', out') \<Rightarrow> (argv', fl'', help', out @ out')))"
  by pat_completeness auto

termination
  by (relation "measure (\<lambda>(i, argv, _). length argv - i)") auto

declare parse_args_loop.simps [simp del]

definition ParseGoogleTestFlagsOnly ::
  "string list \<Rightarrow> gtest_flags \<Rightarrow> bool \<Rightarrow> string list \<times> gtest_flags \<times> bool \<times> string \<times> colored_text" where
  "ParseGoogleTestFlagsOnly argv fl help =
     (case parse_args_loop 1 argv fl help of
        (argv', fl', help', out) \<Rightarrow>
          (argv', fl', help', out, if help' then PrintColorEncoded kColorEncodedHelpMessage else []))"

section \<open>What the parsers accept\<close>

lemma digit_is_digit: "d < 10 \<Longrightarrow> is_digit (digit_char d) \<and> \<not> IsSpace (digit_char d) \<and> digit_char d \<notin> {CHR ''-'', CHR ''+''}"
proof -
  assume "d < 10"
  then have "(of_char (digit_char d) :: nat) = 48 + d" by (rule of_char_digit)
  then show ?thesis using \<open>d < 10\<close> by (auto simp: is_digit_def IsSpace_def)
qed

lemma dec_of_nat_chars:
  "\<forall>c \<in> set (dec_of_nat n). is_digit c \<and> \<not> IsSpace c \<and> c \<notin> {CHR ''-'', CHR ''+''}"
  proof
  fix c assume "c \<in> set (dec_of_nat n)"
  with dec_of_nat_digits [of n] obtain d where d: "d < 10" "c = digit_char d" by blast
  show "is_digit c \<and> \<not> IsSpace c \<and> c \<notin> {CHR ''-'', CHR ''+''}"
    unfolding d(2) by (rule digit_is_digit) (rule d(1))
qed

lemma dec_of_nat_not_Nil [simp]: "dec_of_nat n \<noteq> []"
  by (subst dec_of_nat.simps) simp

lemma dec_of_nat_runs [simp]:
  "takeWhile is_digit (dec_of_nat n) = dec_of_nat n"
  "dropWhile is_digit (dec_of_nat n) = []"
  using dec_of_nat_chars [of n] by (simp_all add: takeWhile_eq_all_conv)

lemma dec_of_nat_start: "\<exists>c t. dec_of_nat n = c # t \<and> \<not> IsSpace c \<and> c \<noteq> CHR ''-'' \<and> c \<noteq> CHR ''+''"
  using dec_of_nat_chars [of n] by (cases "dec_of_nat n") auto

lemma strtol_nat: "strtol10 (dec_of_nat n) = (clamp_long (int n), [])"
proof -
  obtain c t where "dec_of_nat n = c # t" "\<not> IsSpace c" "c \<noteq> CHR ''-''" "c \<noteq> CHR ''+''"
    using dec_of_nat_start by blast
  then have "strtol_sign (dropWhile IsSpace (dec_of_nat n)) = (1, dec_of_nat n)"
    by (simp add: strtol_sign_def)
  then show ?thesis by (simp add: strtol10_def)
qed

lemma strtol_negative: "strtol10 (CHR ''-'' # dec_of_nat n) = (clamp_long (- int n), [])"
proof -
  have "strtol_sign (dropWhile IsSpace (CHR ''-'' # dec_of_nat n)) = (- 1, dec_of_nat n)"
    by (simp add: strtol_sign_def IsSpace_def)
  then show ?thesis by (simp add: strtol10_def)
qed

lemma strtol_dec: "strtol10 (dec_of_int i) = (clamp_long i, [])"
  by (simp add: dec_of_int_def strtol_nat strtol_negative)

lemma to_Int32_id: "to_Int32 v = v \<longleftrightarrow> - (2 ^ 31) \<le> v \<and> v < 2 ^ 31"
  by (simp add: to_Int32_def signed_of_int signed_take_bit_int_eq_self_iff)

lemma ParseInt32_source: "fst (ParseInt32 t s) = fst (ParseInt32 [] s)"
  by (simp add: ParseInt32_def split: prod.splits)

lemma ParseInt32_dec: "- (2 ^ 31) \<le> i \<Longrightarrow> i < 2 ^ 31 \<Longrightarrow> ParseInt32 source (dec_of_int i) = (Some i, [])"
  using to_Int32_id [of i] by (simp add: ParseInt32_def strtol_dec clamp_long_def)

text \<open>
  Every 32-bit integer, printed in decimal, is parsed back; any other integer, however long, is
  refused with the warning that it overflows.
\<close>

theorem ParseInt32_decimal:
  "ParseInt32 source (dec_of_int i) =
     (if - (2 ^ 31) \<le> i \<and> i < 2 ^ 31 then (Some i, [])
      else (None, ''WARNING: '' @ source @ '' is expected to be a 32-bit integer, but actually'' @
              '' has value '' @ dec_of_int i @ '', which overflows.'' @ [LF]))"
proof (cases "- (2 ^ 31) \<le> i \<and> i < 2 ^ 31")
  case True
  then show ?thesis using ParseInt32_dec by simp
next
  case False
  have "clamp_long i = 2 ^ 63 - 1 \<or> clamp_long i = - (2 ^ 63) \<or> to_Int32 (clamp_long i) \<noteq> clamp_long i"
    using False unfolding to_Int32_id clamp_long_def by (auto simp: max_def min_def)
  with False show ?thesis by (simp only: ParseInt32_def strtol_dec) auto
qed

text \<open>An empty value is taken for zero: \<open>strtol\<close> consumes all of it.\<close>

lemma ParseInt32_empty: "ParseInt32 source [] = (Some 0, [])"
  by (simp add: ParseInt32_def strtol10_def strtol_sign_def to_Int32_def)

subsection \<open>The arguments that are flags\<close>

definition bool_flag_names :: "string list" where
  "bool_flag_names =
     [kAlsoRunDisabledTestsFlag, kBreakOnFailureFlag, kCatchExceptionsFlag, kDeathTestUseFork,
      kListTestsFlag, kPrintTimeFlag, kShuffleFlag, kThrowOnFailureFlag]"

definition string_flag_names :: "string list" where
  "string_flag_names =
     [kColorFlag, kDeathTestStyleFlag, kFilterFlag, kInternalRunDeathTestFlag, kOutputFlag, kStreamResultToFlag]"

definition int_flag_names :: "string list" where
  "int_flag_names = [kRandomSeedFlag, kRepeatFlag, kStackTraceDepthFlag]"

text \<open>What an argument has to look like to be taken from the command line.\<close>

definition is_flag_argument :: "string \<Rightarrow> bool" where
  "is_flag_argument arg \<longleftrightarrow>
     (\<exists>n \<in> set bool_flag_names. arg = ''--gtest_'' @ n \<or> (\<exists>v. arg = ''--gtest_'' @ n @ ''='' @ v)) \<or>
     (\<exists>n \<in> set string_flag_names. \<exists>v. arg = ''--gtest_'' @ n @ ''='' @ v) \<or>
     (\<exists>n \<in> set int_flag_names. \<exists>v i. arg = ''--gtest_'' @ n @ ''='' @ v \<and> fst (ParseInt32 [] v) = Some i)"

lemma ParseFlagValue_Some:
  "ParseFlagValue (Some s) (Some f) opt = Some v \<longleftrightarrow>
     s = ''--gtest_'' @ f @ ''='' @ v \<or> opt \<and> v = [] \<and> s = ''--gtest_'' @ f"
proof (cases "SkipPrefix (''--gtest_'' @ f) s")
  case None
  then have "\<nexists>r. s = ''--gtest_'' @ f @ r" by (simp add: SkipPrefix_None)
  moreover from this have "s \<noteq> ''--gtest_'' @ f @ ''='' @ v" "s \<noteq> ''--gtest_'' @ f" by auto
  ultimately show ?thesis using None by (simp add: ParseFlagValue_def)
next
  case (Some r)
  then have "s = ''--gtest_'' @ f @ r" by (simp add: SkipPrefix_Some)
  then show ?thesis using Some
    by (cases r) (auto simp: ParseFlagValue_def)
qed

lemma ParseBoolFlag_ok:
  "ParseBoolFlag s f \<noteq> None \<longleftrightarrow> s = ''--gtest_'' @ f \<or> (\<exists>v. s = ''--gtest_'' @ f @ ''='' @ v)"
proof -
  have "ParseBoolFlag s f \<noteq> None \<longleftrightarrow> (\<exists>v. ParseFlagValue (Some s) (Some f) True = Some v)"
    by (auto simp: ParseBoolFlag_def split: option.splits list.splits)
  then show ?thesis unfolding ParseFlagValue_Some by blast
qed

lemma ParseStringFlag_ok: "ParseStringFlag s f \<noteq> None \<longleftrightarrow> (\<exists>v. s = ''--gtest_'' @ f @ ''='' @ v)"
  using ParseFlagValue_Some [of s f False] by (auto simp: ParseStringFlag_def)

lemma ParseInt32Flag_ok:
  "fst (ParseInt32Flag s f) \<noteq> None \<longleftrightarrow> (\<exists>v i. s = ''--gtest_'' @ f @ ''='' @ v \<and> fst (ParseInt32 [] v) = Some i)"
proof -
  have "fst (ParseInt32Flag s f) \<noteq> None \<longleftrightarrow>
      (\<exists>v i. ParseFlagValue (Some s) (Some f) False = Some v \<and> fst (ParseInt32 [] v) = Some i)"
    by (auto simp: ParseInt32Flag_def ParseInt32_source [of "CHR ''T'' # _"] split: option.splits)
  then show ?thesis unfolding ParseFlagValue_Some by blast
qed

lemma first_success_ok: "fst (first_success xs) \<noteq> None \<longleftrightarrow> list_ex (\<lambda>x. fst x \<noteq> None) xs"
  by (induction xs rule: first_success.induct) (auto split: prod.splits)

lemma attempt_ok:
  "fst (bool_flag a n f) \<noteq> None \<longleftrightarrow> ParseBoolFlag a n \<noteq> None"
  "fst (string_flag a n g) \<noteq> None \<longleftrightarrow> ParseStringFlag a n \<noteq> None"
  "fst (int_flag a n h) \<noteq> None \<longleftrightarrow> fst (ParseInt32Flag a n) \<noteq> None"
  by (simp_all add: bool_flag_def string_flag_def int_flag_def split: prod.splits)

lemma parse_flag_ok: "fst (parse_flag arg fl) \<noteq> None \<longleftrightarrow> is_flag_argument arg"
  unfolding parse_flag_def first_success_ok is_flag_argument_def bool_flag_names_def
    string_flag_names_def int_flag_names_def list_ex_iff attempt_ok list.set bex_simps(5,7) ParseBoolFlag_ok
    ParseStringFlag_ok ParseInt32Flag_ok list.set
  by blast

lemma first_success_in: "first_success xs = (Some fl, out) \<Longrightarrow> \<exists>o'. (Some fl, o') \<in> set xs"
  by (induction xs arbitrary: out rule: first_success.induct) (fastforce split: prod.splits)+

lemma attempt_Some:
  "(Some f, out) = bool_flag a n g \<Longrightarrow> \<exists>v. f = g v"
  "(Some f, out) = string_flag a n g' \<Longrightarrow> \<exists>v. f = g' v"
  "(Some f, out) = int_flag a n g'' \<Longrightarrow> \<exists>v. f = g'' v"
  unfolding bool_flag_def string_flag_def int_flag_def
  by (auto dest!: sym [of "Some f"] split: prod.splits)

lemma parse_flag_restored:
  "parse_flag arg fl = (Some fl', out) \<Longrightarrow> destroy_FlagSaver s fl' = destroy_FlagSaver s fl"
  unfolding parse_flag_def
  by (drule first_success_in)
    (auto simp: destroy_FlagSaver_def dest!: attempt_Some)

subsection \<open>The whole command line\<close>

definition kept_arguments :: "nat \<Rightarrow> string list \<Rightarrow> string list" where
  "kept_arguments i argv = take i argv @ filter (\<lambda>a. \<not> is_flag_argument a) (drop i argv)"

lemma kept_arguments_step:
  assumes "i < length argv"
  shows "is_flag_argument (argv ! i) \<Longrightarrow> kept_arguments i (take i argv @ drop (i + 1) argv) = kept_arguments i argv"
    and "\<not> is_flag_argument (argv ! i) \<Longrightarrow> kept_arguments (i + 1) argv = kept_arguments i argv"
  using assms by (simp_all add: kept_arguments_def Cons_nth_drop_Suc [symmetric] take_Suc_conv_app_nth)

lemma args_done: "length argv \<le> i \<Longrightarrow> parse_args_loop i argv fl hf = (argv, fl, hf, [])"
  by (subst parse_args_loop.simps) simp

lemma args_flag:
  assumes "i < length argv" and "parse_flag (argv ! i) fl = (Some fl', out)"
    and "parse_args_loop i (take i argv @ drop (i + 1) argv) fl' hf = (argv', fl'', hf', out')"
  shows "parse_args_loop i argv fl hf = (argv', fl'', hf', out @ out')"
  using assms by (subst parse_args_loop.simps) simp

lemma args_other:
  assumes "i < length argv" and "parse_flag (argv ! i) fl = (None, out)"
    and "parse_args_loop (i + 1) argv fl (hf \<or> wants_help (argv ! i)) = (argv', fl'', hf', out')"
  shows "parse_args_loop i argv fl hf = (argv', fl'', hf', out @ out')"
  using assms by (subst parse_args_loop.simps) simp

lemma parse_args_loop_result:
  assumes "parse_args_loop i argv fl hf = (argv', fl', hf', out)"
  shows "argv' = kept_arguments i argv \<and> destroy_FlagSaver s fl' = destroy_FlagSaver s fl \<and>
    (hf' \<longleftrightarrow> hf \<or> list_ex (\<lambda>a. \<not> is_flag_argument a \<and> wants_help a) (drop i argv))"
  using assms
proof (induction "length argv - i" arbitrary: i argv fl hf argv' fl' hf' out rule: less_induct)
  case less
  show ?case
  proof (cases "i < length argv")
    case False
    then show ?thesis using less.prems by (simp add: args_done kept_arguments_def)
  next
    case True
    note cons = Cons_nth_drop_Suc [OF True, symmetric]
    obtain r o1 where flag: "parse_flag (argv ! i) fl = (r, o1)" by (cases "parse_flag (argv ! i) fl")
    show ?thesis
    proof (cases r)
      case None
      obtain av f h o2 where next_args: "parse_args_loop (i + 1) argv fl (hf \<or> wants_help (argv ! i)) = (av, f, h, o2)"
        by (cases "parse_args_loop (i + 1) argv fl (hf \<or> wants_help (argv ! i))")
      have "\<not> is_flag_argument (argv ! i)" using parse_flag_ok [of "argv ! i" fl] flag None by simp
      moreover have "argv' = av" "fl' = f" "hf' = h"
        using args_other [OF True flag [unfolded None] next_args] less.prems by simp_all
      moreover have "length argv - (i + 1) < length argv - i" using True by simp
      ultimately show ?thesis
        using less.hyps [OF _ next_args] kept_arguments_step(2) [OF True] by (auto simp: cons)
    next
      case (Some f1)
      obtain av f h o2 where next_args: "parse_args_loop i (take i argv @ drop (i + 1) argv) f1 hf = (av, f, h, o2)"
        by (cases "parse_args_loop i (take i argv @ drop (i + 1) argv) f1 hf")
      have "is_flag_argument (argv ! i)" using parse_flag_ok [of "argv ! i" fl] flag Some by simp
      moreover have "argv' = av" "fl' = f" "hf' = h"
        using args_flag [OF True flag [unfolded Some] next_args] less.prems by simp_all
      moreover have "length (take i argv @ drop (i + 1) argv) - i < length argv - i" using True by simp
      moreover have "drop i (take i argv @ drop (i + 1) argv) = drop (i + 1) argv" using True by simp
      ultimately show ?thesis
        using less.hyps [OF _ next_args] kept_arguments_step(1) [OF True]
          parse_flag_restored [OF flag [unfolded Some], of s] by (simp add: cons)
    qed
  qed
qed

text \<open>
  C20. Parsing the command line takes out exactly the arguments that are flags of the framework
  with a value it accepts, keeps the program name and all other arguments in their order, and
  asks for the help text exactly when one of the kept arguments has a help form or the framework's
  prefix.
\<close>

theorem command_line_split:
  "fst (ParseGoogleTestFlagsOnly argv fl hf) = take 1 argv @ filter (\<lambda>a. \<not> is_flag_argument a) (drop 1 argv) \<and>
   (fst (snd (snd (ParseGoogleTestFlagsOnly argv fl hf))) \<longleftrightarrow>
     hf \<or> list_ex (\<lambda>a. \<not> is_flag_argument a \<and> wants_help a) (drop 1 argv))"
proof (cases "parse_args_loop 1 argv fl hf")
  case (fields argv' fl' hf' out)
  from parse_args_loop_result [OF this, of undefined] show ?thesis
    by (simp add: ParseGoogleTestFlagsOnly_def fields [unfolded One_nat_def] kept_arguments_def)
qed

lemma saver_restores: "destroy_FlagSaver (GTestFlagSaver fl) fl = fl"
  by (simp add: GTestFlagSaver_def destroy_FlagSaver_def)

text \<open>
  Whatever flags a command line sets while a flag saver is alive, the end of the saver gives
  every flag the value it had when the saver was made.
\<close>

theorem flags_restored:
  "destroy_FlagSaver (GTestFlagSaver fl) (fst (snd (ParseGoogleTestFlagsOnly argv fl hf))) = fl"
proof (cases "parse_args_loop 1 argv fl hf")
  case (fields argv' fl' hf' out)
  from parse_args_loop_result [OF this, of "GTestFlagSaver fl"] show ?thesis
    by (simp add: ParseGoogleTestFlagsOnly_def fields [unfolded One_nat_def] saver_restores)
qed

subsection \<open>The integers that are accepted\<close>

text \<open>A text of white space, at most one sign and at least one digit spells the integer.\<close>

definition spells_int :: "string \<Rightarrow> int \<Rightarrow> bool" where
  "spells_int s v \<longleftrightarrow>
     (\<exists>ws sign ds. s = ws @ sign @ ds \<and> list_all IsSpace ws \<and> sign \<in> {[], ''+'', ''-''} \<and>
        ds \<noteq> [] \<and> list_all is_digit ds \<and>
        v = (if sign = ''-'' then - int (nat_of_dec ds) else int (nat_of_dec ds)))"

lemma digit_char: "is_digit c \<Longrightarrow> \<not> IsSpace c \<and> c \<noteq> CHR ''-'' \<and> c \<noteq> CHR ''+''"
  by (auto simp: is_digit_def IsSpace_def)

lemma strtol_spelled:
  assumes "spells_int s v"
  shows "strtol10 s = (clamp_long v, [])"
proof -
  obtain ws sign ds where s: "s = ws @ sign @ ds" "list_all IsSpace ws" "sign \<in> {[], ''+'', ''-''}" "ds \<noteq> []"
    "list_all is_digit ds" "v = (if sign = ''-'' then - int (nat_of_dec ds) else int (nat_of_dec ds))"
    using assms unfolding spells_int_def by blast
  obtain d ds' where d: "ds = d # ds'" using s(4) by (cases ds) auto
  then have nd: "\<not> IsSpace d" "d \<noteq> CHR ''-''" "d \<noteq> CHR ''+''" using s(5) digit_char by auto
  have "dropWhile IsSpace (sign @ ds) = sign @ ds" using s(3) nd(1) by (auto simp: d IsSpace_def)
  then have "dropWhile IsSpace s = sign @ ds" using s(1,2) by (simp add: list_all_iff)
  moreover have "strtol_sign (sign @ ds) = (if sign = ''-'' then - 1 else 1, ds)"
    using s(3) nd(2,3) by (auto simp: strtol_sign_def d)
  moreover have "takeWhile is_digit ds = ds" "dropWhile is_digit ds = []"
    using s(5) by (simp_all add: list_all_iff)
  ultimately show ?thesis using s(4,6) unfolding strtol10_def by (simp only: prod.case if_False) auto
qed

lemma strtol_spells:
  assumes "strtol10 s = (n, [])" and "s \<noteq> []"
  shows "\<exists>v. spells_int s v \<and> n = clamp_long v"
proof -
  obtain sg ds where sg: "strtol_sign (dropWhile IsSpace s) = (sg, ds)" by fastforce
  have ds: "takeWhile is_digit ds \<noteq> []" "dropWhile is_digit ds = []" "n = clamp_long (sg * int (nat_of_dec ds))"
  proof -
    have w: "takeWhile is_digit ds = ds" if "dropWhile is_digit ds = []"
      using takeWhile_dropWhile_id [of is_digit ds] that by simp
    show ne: "takeWhile is_digit ds \<noteq> []" and nil: "dropWhile is_digit ds = []"
      using assms sg unfolding strtol10_def by (auto split: if_splits)
    show "n = clamp_long (sg * int (nat_of_dec ds))"
      using assms(1) sg ne unfolding strtol10_def by (simp add: w [OF nil] split: if_splits)
  qed
  then have d: "ds \<noteq> []" "list_all is_digit ds" by (auto simp: list_all_iff dropWhile_eq_Nil_conv)
  obtain sign where sign: "dropWhile IsSpace s = sign @ ds" "sign \<in> {[], ''+'', ''-''}"
    "sg = (if sign = ''-'' then - 1 else 1)"
    using sg d(1) by (auto simp: strtol_sign_def split: list.splits if_splits)
  have "s = takeWhile IsSpace s @ sign @ ds" using sign(1) takeWhile_dropWhile_id [of IsSpace s] by simp
  moreover have "list_all IsSpace (takeWhile IsSpace s)" by (auto simp: list_all_iff dest: set_takeWhileD)
  ultimately have "spells_int s (if sign = ''-'' then - int (nat_of_dec ds) else int (nat_of_dec ds))"
    unfolding spells_int_def using sign(2) d by blast
  then show ?thesis using ds(3) sign(3) by (cases "sign = ''-''") auto
qed

lemma Int32_checked:
  "(clamp_long v \<noteq> 2 ^ 63 - 1 \<and> clamp_long v \<noteq> - (2 ^ 63) \<and> to_Int32 (clamp_long v) = clamp_long v) \<longleftrightarrow>
    - (2 ^ 31) \<le> v \<and> v < 2 ^ 31"
  unfolding to_Int32_id clamp_long_def by (auto simp: max_def min_def)

text \<open>
  C21. \<open>ParseInt32\<close> accepts a text exactly when it spells an integer, by white space, at most one sign
  and decimal digits up to its end, and the integer lies in the 32-bit range, however many digits
  there are; the value is that integer. It also accepts the empty text, as 0. A warning is printed
  exactly when the text is refused.
\<close>

theorem ParseInt32_accepts:
  "(fst (ParseInt32 src_text s) = Some v \<longleftrightarrow>
     (spells_int s v \<or> s = [] \<and> v = 0) \<and> - (2 ^ 31) \<le> v \<and> v < 2 ^ 31) \<and>
   (snd (ParseInt32 src_text s) = [] \<longleftrightarrow> fst (ParseInt32 src_text s) \<noteq> None)"
proof (cases "s = []")
  case True
  have "\<not> spells_int [] v" by (auto simp: spells_int_def)
  then show ?thesis using ParseInt32_empty [of src_text] True by auto
next
  case False
  have "fst (ParseInt32 src_text s) = Some v \<longleftrightarrow> spells_int s v \<and> - (2 ^ 31) \<le> v \<and> v < 2 ^ 31"
  proof
    assume r: "fst (ParseInt32 src_text s) = Some v"
    then obtain n where n: "strtol10 s = (n, [])" by (cases "strtol10 s") (auto simp: ParseInt32_def split: if_splits)
    from strtol_spells [OF n False] obtain u where u: "spells_int s u" "n = clamp_long u" by blast
    then have ok: "clamp_long u \<noteq> 2 ^ 63 - 1 \<and> clamp_long u \<noteq> - (2 ^ 63) \<and> to_Int32 (clamp_long u) = clamp_long u"
      "v = to_Int32 (clamp_long u)"
      using r n by (auto simp: ParseInt32_def split: if_splits)
    then have "- (2 ^ 31) \<le> u \<and> u < 2 ^ 31" using Int32_checked by blast
    moreover from this have "clamp_long u = u" by (simp add: clamp_long_def)
    ultimately show "spells_int s v \<and> - (2 ^ 31) \<le> v \<and> v < 2 ^ 31" using ok u(1) by simp
  next
    assume v: "spells_int s v \<and> - (2 ^ 31) \<le> v \<and> v < 2 ^ 31"
    then have "clamp_long v = v" by (simp add: clamp_long_def)
    with v Int32_checked [of v] strtol_spelled [of s v] show "fst (ParseInt32 src_text s) = Some v"
      by (simp add: ParseInt32_def)
  qed
  then show ?thesis using False by (auto simp: ParseInt32_def split: prod.split)
qed

section \<open>The color codes\<close>

text \<open>Text with its \<open>@\<close> doubled is printed as it is.\<close>

definition escape_at :: "string \<Rightarrow> string" where
  "escape_at s = concat (map (\<lambda>c. if c = CHR ''@'' then ''@@'' else [c]) s)"

lemma print_color_plain:
  assumes "c \<noteq> CHR ''@''"
  shows "concat (map snd (print_color_loop color (c # s))) = c # concat (map snd (print_color_loop color s))"
proof (cases "dropWhile (\<lambda>c. c \<noteq> CHR ''@'') s")
  case Nil
  then have all: "takeWhile (\<lambda>c. c \<noteq> CHR ''@'') s = s"
    by (metis append_Nil2 takeWhile_dropWhile_id)
  show ?thesis using assms
    by (simp add: Nil all print_color_loop.simps [of color s] print_color_loop.simps [of color "c # s"])
next
  case (Cons a r)
  then show ?thesis using assms
    by (simp add: print_color_loop.simps [of color s] print_color_loop.simps [of color "c # s"])
qed

lemma print_escaped: "concat (map snd (PrintColorEncoded (escape_at s))) = s"
proof -
  have "concat (map snd (print_color_loop color (escape_at s))) = s" for color
  proof (induction s)
    case Nil
    show ?case by (subst print_color_loop.simps) (simp add: escape_at_def)
  next
    case (Cons c s)
    show ?case
    proof (cases "c = CHR ''@''")
      case True
      then have "escape_at (c # s) = CHR ''@'' # CHR ''@'' # escape_at s" by (simp add: escape_at_def)
      then show ?thesis using Cons True by (subst print_color_loop.simps) simp
    next
      case False
      then have "escape_at (c # s) = c # escape_at s" by (simp add: escape_at_def)
      then show ?thesis using Cons False print_color_plain by simp
    qed
  qed
  then show ?thesis by (simp add: PrintColorEncoded_def)
qed

end
