(* ===== verification/Gtest_Filter.thy ===== *)
theory Gtest_Filter
  imports Gtest_Flags "HOL-Library.Signed_Division"
begin

text \<open>
  Which tests are named by the filter flag, and the protocol that splits the tests over several
  processes (\<open>gtest/src/gtest.cc\<close>, class \<open>UnitTestOptions\<close> and the sharding functions). The
  specification of a filter is the relation \<open>glob\<close> between a pattern and a name.
\<close>

section \<open>Patterns and filters\<close>

fun PatternMatchesString :: "string \<Rightarrow> string \<Rightarrow> bool" where
  "PatternMatchesString [] str = (str = [])"
| "PatternMatchesString (p # pattern) str =
     (if p = CHR '':'' then str = []
      else if p = CHR ''?'' then (case str of [] \<Rightarrow> False | _ # str' \<Rightarrow> PatternMatchesString pattern str')
      else if p = CHR ''*'' then
        (case str of [] \<Rightarrow> False | _ # str' \<Rightarrow> PatternMatchesString (p # pattern) str') \<or>
        PatternMatchesString pattern str
      else (case str of [] \<Rightarrow> False | c # str' \<Rightarrow> p = c \<and> PatternMatchesString pattern str'))"

text \<open>\<open>strchr\<close>: the rest of the string from the first occurrence on.\<close>

definition strchr :: "string \<Rightarrow> char \<Rightarrow> string option" where
  "strchr s c = (case dropWhile (\<lambda>x. x \<noteq> c) s of [] \<Rightarrow> None | t \<Rightarrow> Some t)"

lemma strchr_shorter: "strchr s c = Some t \<Longrightarrow> length (drop 1 t) < length s"
  using length_dropWhile_le [of "\<lambda>x. x \<noteq> c" s]
  by (cases "dropWhile (\<lambda>x. x \<noteq> c) s") (auto simp: strchr_def)

function MatchesFilter :: "string \<Rightarrow> string \<Rightarrow> bool" where
  "MatchesFilter name cur_pattern =
     (if PatternMatchesString cur_pattern name then True
      else case strchr cur_pattern CHR '':'' of
        None \<Rightarrow> False
      | Some p \<Rightarrow> MatchesFilter name (drop 1 p))"
  by pat_completeness auto

termination
  by (relation "measure (\<lambda>(name, cur). length cur)") (auto dest: strchr_shorter)

declare MatchesFilter.simps [simp del]

text \<open>The flag is the argument \<open>flag_filter\<close>.\<close>

definition FilterMatchesTest :: "string \<Rightarrow> string \<Rightarrow> string \<Rightarrow> bool" where
  "FilterMatchesTest flag_filter test_case_name test_name =
     (let full_name = test_case_name @ ''.'' @ test_name;
          dash = strchr flag_filter CHR ''-'';
          (positive, negative) =
            (case dash of
               None \<Rightarrow> (flag_filter, [])
             | Some d \<Rightarrow>
                 (let before = take (length flag_filter - length d) flag_filter
                  in (if before = [] then kUniversalFilter else before, drop 1 d)))
      in MatchesFilter full_name positive \<and> \<not> MatchesFilter full_name negative)"

section \<open>The output flag\<close>

definition GetOutputFormat :: "string \<Rightarrow> string" where
  "GetOutputFormat gtest_output_flag =
     (case strchr gtest_output_flag CHR '':'' of
        None \<Rightarrow> gtest_output_flag
      | Some colon \<Rightarrow> take (length gtest_output_flag - length colon) gtest_output_flag)"

section \<open>Sharding\<close>

text \<open>
  A function that may end the program: \<open>Inl\<close> holds what it prints before \<open>exit(EXIT_FAILURE)\<close>.
\<close>

type_synonym 'a or_exit = "string + 'a"

definition kTestShardIndex :: string where "kTestShardIndex = ''GTEST_SHARD_INDEX''"
definition kTestTotalShards :: string where "kTestTotalShards = ''GTEST_TOTAL_SHARDS''"
definition kTestShardStatusFile :: string where "kTestShardStatusFile = ''GTEST_SHARD_STATUS_FILE''"

definition Int32FromEnvOrDie :: "environment \<Rightarrow> string \<Rightarrow> int \<Rightarrow> int or_exit" where
  "Int32FromEnvOrDie env var default_val =
     (case env var of
        None \<Rightarrow> Inr default_val
      | Some str_val \<Rightarrow>
          (case ParseInt32 (''The value of environment variable '' @ var) str_val of
             (None, out) \<Rightarrow> Inl out
           | (Some result, out) \<Rightarrow> Inr result))"

definition ShouldShard :: "environment \<Rightarrow> string \<Rightarrow> string \<Rightarrow> bool \<Rightarrow> bool or_exit" where
  "ShouldShard env total_shards_env shard_index_env in_subprocess_for_death_test =
     (if in_subprocess_for_death_test then Inr False
      else case Int32FromEnvOrDie env total_shards_env (- 1) of
        Inl out \<Rightarrow> Inl out
      | Inr total_shards \<Rightarrow>
      (case Int32FromEnvOrDie env shard_index_env (- 1) of
        Inl out \<Rightarrow> Inl out
      | Inr shard_index \<Rightarrow>
          if total_shards = - 1 \<and> shard_index = - 1 then Inr False
          else if total_shards = - 1 \<and> shard_index \<noteq> - 1 then
            Inl (''Invalid environment variables: you have '' @ kTestShardIndex @ '' = '' @
              dec_of_int shard_index @ '', but have left '' @ kTestTotalShards @ '' unset.'' @ [LF])
          else if total_shards \<noteq> - 1 \<and> shard_index = - 1 then
            Inl (''Invalid environment variables: you have '' @ kTestTotalShards @ '' = '' @
              dec_of_int total_shards @ '', but have left '' @ kTestShardIndex @ '' unset.'' @ [LF])
          else if shard_index < 0 \<or> shard_index \<ge> total_shards then
            Inl (''Invalid environment variables: we require 0 <= '' @ kTestShardIndex @ '' < '' @
              kTestTotalShards @ '', but you have '' @ kTestShardIndex @ ''='' @ dec_of_int shard_index @
              '', '' @ kTestTotalShards @ ''='' @ dec_of_int total_shards @ ''.'' @ [LF])
          else Inr (total_shards > 1)))"

definition ShouldRunTestOnShard :: "int \<Rightarrow> int \<Rightarrow> int \<Rightarrow> bool" where
  "ShouldRunTestOnShard total_shards shard_index test_id \<longleftrightarrow> test_id smod total_shards = shard_index"

text \<open>
  \<open>can_create\<close> says whether \<open>fopen\<close> in mode \<open>w\<close> succeeds; the result is the file that is created
  empty.
\<close>

definition WriteToShardStatusFileIfNeeded ::
  "environment \<Rightarrow> (string \<Rightarrow> bool) \<Rightarrow> string option or_exit" where
  "WriteToShardStatusFileIfNeeded env can_create =
     (case env kTestShardStatusFile of
        None \<Rightarrow> Inr None
      | Some f \<Rightarrow>
          if can_create f then Inr (Some f)
          else Inl (''Could not write to the test shard status file \"'' @ f @ ''\" specified by the '' @
                 kTestShardStatusFile @ '' environment variable.'' @ [LF]))"

section \<open>The meaning of a filter\<close>

inductive glob :: "string \<Rightarrow> string \<Rightarrow> bool" where
  glob_Nil: "glob [] []"
| glob_any: "glob p s \<Longrightarrow> glob (CHR ''?'' # p) (c # s)"
| glob_star: "glob p s \<Longrightarrow> glob (CHR ''*'' # p) (u @ s)"
| glob_char: "c \<noteq> CHR ''?'' \<Longrightarrow> c \<noteq> CHR ''*'' \<Longrightarrow> glob p s \<Longrightarrow> glob (c # p) (c # s)"

inductive_simps glob_Nil_iff: "glob [] s"
inductive_simps glob_Cons_iff: "glob (c # p) s"

definition upto_char :: "char \<Rightarrow> string \<Rightarrow> string" where
  "upto_char c s = takeWhile (\<lambda>x. x \<noteq> c) s"

lemma glob_star_iff: "glob (CHR ''*'' # p) s \<longleftrightarrow> glob p s \<or> (\<exists>c t. s = c # t \<and> glob (CHR ''*'' # p) t)"
proof
  assume "glob (CHR ''*'' # p) s"
  then obtain u t where "s = u @ t" "glob p t" by (auto simp: glob_Cons_iff)
  then show "glob p s \<or> (\<exists>c t. s = c # t \<and> glob (CHR ''*'' # p) t)"
    by (cases u) (auto intro: glob_star)
next
  assume "glob p s \<or> (\<exists>c t. s = c # t \<and> glob (CHR ''*'' # p) t)"
  then show "glob (CHR ''*'' # p) s"
  proof (elim disjE exE conjE)
    assume "glob p s"
    then show ?thesis using glob_star [of p s "[]"] by simp
  next
    fix c t assume "s = c # t" "glob (CHR ''*'' # p) t"
    then obtain u v where "s = (c # u) @ v" "glob p v" by (auto simp: glob_Cons_iff)
    then show ?thesis by (metis glob_star)
  qed
qed

lemma PatternMatchesString_glob: "PatternMatchesString p s \<longleftrightarrow> glob (upto_char CHR '':'' p) s"
proof (induction p s rule: PatternMatchesString.induct)
  case (1 s)
  show ?case by (auto simp: upto_char_def glob_Nil_iff)
next
  case (2 p ps s)
  consider "p = CHR '':''" | "p = CHR ''?''" | "p = CHR ''*''" |
    "p \<noteq> CHR '':''" "p \<noteq> CHR ''?''" "p \<noteq> CHR ''*''" by blast
  then show ?case
  proof cases
    case 1
    then show ?thesis by (auto simp: upto_char_def glob_Nil_iff)
  next
    case 2
    then show ?thesis using "2.IH"(1) by (cases s) (auto simp: upto_char_def glob_Cons_iff)
  next
    case 3
    then have "upto_char CHR '':'' (p # ps) = CHR ''*'' # upto_char CHR '':'' ps" by (simp add: upto_char_def)
    then show ?thesis using "2.IH"(2,3) 3
      by (cases s) (simp_all add: glob_star_iff [of _ s] glob_star_iff [of _ "[]"] glob_star_iff [of _ "_ # _"] disj_commute)
  next
    case 4
    then show ?thesis using "2.IH"(4) by (cases s) (auto simp: upto_char_def glob_Cons_iff)
  qed
qed

text \<open>The patterns of a filter are its parts between colons.\<close>

function split_at :: "char \<Rightarrow> string \<Rightarrow> string list" where
  "split_at c s = upto_char c s # (case strchr s c of None \<Rightarrow> [] | Some t \<Rightarrow> split_at c (drop 1 t))"
  by pat_completeness auto

termination
  by (relation "measure (\<lambda>(c, s). length s)") (auto dest: strchr_shorter)

declare split_at.simps [simp del]

lemma MatchesFilter_glob: "MatchesFilter name f \<longleftrightarrow> (\<exists>p \<in> set (split_at CHR '':'' f). glob p name)"
proof (induction name f rule: MatchesFilter.induct)
  case (1 name f)
  then show ?case
    by (subst MatchesFilter.simps, subst split_at.simps)
      (auto simp: PatternMatchesString_glob split: option.split)
qed

definition positive_part :: "string \<Rightarrow> string" where
  "positive_part f =
     (if CHR ''-'' \<in> set f \<and> upto_char CHR ''-'' f = [] then ''*'' else upto_char CHR ''-'' f)"

definition negative_part :: "string \<Rightarrow> string" where
  "negative_part f = drop (length (upto_char CHR ''-'' f) + 1) f"

lemma strchr_eq: "strchr s c = (if c \<in> set s then Some (drop (length (upto_char c s)) s) else None)"
proof (cases "c \<in> set s")
  case True
  then have "dropWhile (\<lambda>x. x \<noteq> c) s \<noteq> []" by (auto simp: dropWhile_eq_Nil_conv)
  with True show ?thesis
    by (auto simp: strchr_def upto_char_def dropWhile_eq_drop split: list.split)
next
  case False
  then have "dropWhile (\<lambda>x. x \<noteq> c) s = []" by (auto simp: dropWhile_eq_Nil_conv)
  then have "strchr s c = None" unfolding strchr_def by (simp only: list.case)
  with False show ?thesis by simp
qed

lemma length_upto_char: "length (upto_char c s) \<le> length s"
  by (simp add: upto_char_def length_takeWhile_le)

lemma take_upto_char: "take (length (upto_char c s)) s = upto_char c s"
  unfolding upto_char_def by (metis takeWhile_eq_take)

text \<open>
  C19. A test is named by the filter flag exactly when its full name is in the language of one of
  the patterns before the first dash (all tests when there is nothing before the dash) and in the
  language of none of those behind it; in a pattern \<open>?\<close> stands for one character and \<open>*\<close> for any
  number.
\<close>

theorem FilterMatchesTest_glob:
  "FilterMatchesTest f test_case_name test_name \<longleftrightarrow>
     (\<exists>p \<in> set (split_at CHR '':'' (positive_part f)). glob p (test_case_name @ ''.'' @ test_name)) \<and>
     \<not> (\<exists>p \<in> set (split_at CHR '':'' (negative_part f)). glob p (test_case_name @ ''.'' @ test_name))"
proof (cases "CHR ''-'' \<in> set f")
  case True
  have "take (length f - length (drop (length (upto_char CHR ''-'' f)) f)) f = upto_char CHR ''-'' f"
    using length_upto_char [of "CHR ''-''" f] take_upto_char [of "CHR ''-''" f] by simp
  with True show ?thesis
    by (simp add: FilterMatchesTest_def Let_def strchr_eq MatchesFilter_glob positive_part_def negative_part_def
        kUniversalFilter_def)
next
  case False
  then have "upto_char CHR ''-'' f = f"
    unfolding upto_char_def by (simp add: takeWhile_eq_all_conv) metis
  with False show ?thesis
    by (simp add: FilterMatchesTest_def Let_def strchr_eq MatchesFilter_glob positive_part_def negative_part_def)
qed

text \<open>The program goes on with sharding only when the index and the number of shards fit.\<close>

lemma ShouldShard_True:
  assumes "ShouldShard env t i sub = Inr True"
  shows "\<exists>n k. Int32FromEnvOrDie env t (- 1) = Inr n \<and> Int32FromEnvOrDie env i (- 1) = Inr k \<and>
    0 \<le> k \<and> k < n \<and> 1 < n"
  using assms by (auto simp: ShouldShard_def split: if_splits sum.splits)

lemma ShouldRunTestOnShard_mod:
  "0 \<le> test_id \<Longrightarrow> 0 < n \<Longrightarrow> ShouldRunTestOnShard n k test_id \<longleftrightarrow> test_id mod n = k"
  by (cases "test_id = 0")
    (simp_all add: ShouldRunTestOnShard_def signed_modulo_int_def signed_divide_int_def minus_div_mult_eq_mod)

end
