(* ===== verification/Gtest_Unit.thy ===== *)
theory Gtest_Unit
  imports Gtest_Result Gtest_Filter
begin

text \<open>
  The registered tests: the classes \<open>TestInfo\<close>, \<open>TestCase\<close> and the part of \<open>UnitTestImpl\<close> that
  registers, filters, lists and shuffles them (\<open>gtest.h\<close>, \<open>gtest.cc\<close>, \<open>gtest-internal-inl.h\<close>). A
  pointer to a test case is its position in \<open>test_cases_\<close>, a pointer to a test the position of its
  case and its own; addresses of functions and types are numbers.
\<close>

section \<open>Tests and test cases\<close>

record test_info =
  info_test_case_name :: string
  info_name :: string
  info_type_param :: "string option"
  info_value_param :: "string option"
  info_fixture_class_id :: nat
  info_should_run :: bool
  info_is_disabled :: bool
  info_matches_filter :: bool
  info_factory :: nat
  info_result :: test_result

definition TestInfo ::
  "string \<Rightarrow> string \<Rightarrow> string option \<Rightarrow> string option \<Rightarrow> nat \<Rightarrow> nat \<Rightarrow> test_info" where
  "TestInfo a_test_case_name a_name a_type_param a_value_param fixture_class_id factory =
     \<lparr>info_test_case_name = a_test_case_name, info_name = a_name, info_type_param = a_type_param,
      info_value_param = a_value_param, info_fixture_class_id = fixture_class_id,
      info_should_run = False, info_is_disabled = False, info_matches_filter = False,
      info_factory = factory, info_result = new_TestResult\<rparr>"

definition is_reportable :: "test_info \<Rightarrow> bool" where
  "is_reportable t = info_matches_filter t"

definition ClearTestResult :: "test_info \<Rightarrow> test_info" where
  "ClearTestResult t = t\<lparr>info_result := result_Clear (info_result t)\<rparr>"

record test_case =
  case_name :: string
  case_type_param :: "string option"
  test_info_list :: "test_info list"
  test_indices :: "int list"
  set_up_tc :: nat
  tear_down_tc :: nat
  case_should_run :: bool
  case_elapsed_time :: int
  case_ad_hoc_test_result :: test_result

definition TestCase :: "string \<Rightarrow> string option \<Rightarrow> nat \<Rightarrow> nat \<Rightarrow> test_case" where
  "TestCase a_name a_type_param a_set_up_tc a_tear_down_tc =
     \<lparr>case_name = a_name, case_type_param = a_type_param, test_info_list = [], test_indices = [],
      set_up_tc = a_set_up_tc, tear_down_tc = a_tear_down_tc, case_should_run = False,
      case_elapsed_time = 0, case_ad_hoc_test_result = new_TestResult\<rparr>"

definition TestPassed :: "test_info \<Rightarrow> bool" where
  "TestPassed t \<longleftrightarrow> info_should_run t \<and> result_Passed (info_result t)"

definition TestFailed :: "test_info \<Rightarrow> bool" where
  "TestFailed t \<longleftrightarrow> info_should_run t \<and> result_Failed (info_result t)"

definition TestReportableDisabled :: "test_info \<Rightarrow> bool" where
  "TestReportableDisabled t \<longleftrightarrow> is_reportable t \<and> info_is_disabled t"

definition TestDisabled :: "test_info \<Rightarrow> bool" where
  "TestDisabled t = info_is_disabled t"

definition TestReportable :: "test_info \<Rightarrow> bool" where
  "TestReportable t = is_reportable t"

definition ShouldRunTest :: "test_info \<Rightarrow> bool" where
  "ShouldRunTest t = info_should_run t"

definition case_successful_test_count :: "test_case \<Rightarrow> int" where
  "case_successful_test_count c = CountIf (test_info_list c) TestPassed"

definition case_failed_test_count :: "test_case \<Rightarrow> int" where
  "case_failed_test_count c = CountIf (test_info_list c) TestFailed"

definition case_reportable_disabled_test_count :: "test_case \<Rightarrow> int" where
  "case_reportable_disabled_test_count c = CountIf (test_info_list c) TestReportableDisabled"

definition case_disabled_test_count :: "test_case \<Rightarrow> int" where
  "case_disabled_test_count c = CountIf (test_info_list c) TestDisabled"

definition case_reportable_test_count :: "test_case \<Rightarrow> int" where
  "case_reportable_test_count c = CountIf (test_info_list c) TestReportable"

definition case_test_to_run_count :: "test_case \<Rightarrow> int" where
  "case_test_to_run_count c = CountIf (test_info_list c) ShouldRunTest"

definition case_total_test_count :: "test_case \<Rightarrow> int" where
  "case_total_test_count c = vector_size (test_info_list c)"

definition case_Failed :: "test_case \<Rightarrow> bool" where
  "case_Failed c \<longleftrightarrow> case_failed_test_count c > 0"

definition case_Passed :: "test_case \<Rightarrow> bool" where
  "case_Passed c \<longleftrightarrow> \<not> case_Failed c"

text \<open>The position of the test, if any.\<close>

definition GetTestInfo :: "test_case \<Rightarrow> int \<Rightarrow> nat option" where
  "GetTestInfo c i = (let index = GetElementOr (test_indices c) i (- 1) in if index < 0 then None else Some (nat index))"

definition GetMutableTestInfo :: "test_case \<Rightarrow> int \<Rightarrow> nat option" where
  "GetMutableTestInfo c i =
     (let index = GetElementOr (test_indices c) i (- 1) in if index < 0 then None else Some (nat index))"

definition case_AddTestInfo :: "test_info \<Rightarrow> test_case \<Rightarrow> test_case" where
  "case_AddTestInfo t c = c\<lparr>test_info_list := test_info_list c @ [t],
     test_indices := test_indices c @ [vector_size (test_indices c)]\<rparr>"

definition case_ClearResult :: "test_case \<Rightarrow> test_case" where
  "case_ClearResult c = c\<lparr>case_ad_hoc_test_result := result_Clear (case_ad_hoc_test_result c),
     test_info_list := map ClearTestResult (test_info_list c)\<rparr>"

definition case_ShuffleTests :: "random_state \<Rightarrow> test_case \<Rightarrow> (random_state \<times> test_case) res" where
  "case_ShuffleTests random c =
     bind_res (Shuffle random (test_indices c)) (\<lambda>(random', v). Inr (random', c\<lparr>test_indices := v\<rparr>))"

definition case_UnshuffleTests :: "test_case \<Rightarrow> test_case" where
  "case_UnshuffleTests c = c\<lparr>test_indices := map (\<lambda>i. sint (int_of_size i)) [0..<length (test_indices c)]\<rparr>"

section \<open>The unit test\<close>

record trace_info =
  trace_file :: string
  trace_line :: int
  trace_message :: string

record unit_test =
  test_cases :: "test_case list"
  test_case_indices :: "int list"
  last_death_test_case :: int
  current_test_case :: "nat option"
  current_test_info :: "(nat \<times> nat) option"
  ad_hoc_test_result :: test_result
  original_working_dir :: string
  unit_environments :: "nat list"
  unit_trace_stack :: "trace_info list"
  unit_random :: random_state
  unit_random_seed :: int
  unit_start_timestamp :: int
  unit_elapsed_time :: int
  unit_catch_exceptions :: bool

definition new_UnitTestImpl :: unit_test where
  "new_UnitTestImpl =
     \<lparr>test_cases = [], test_case_indices = [], last_death_test_case = - 1, current_test_case = None,
      current_test_info = None, ad_hoc_test_result = new_TestResult, original_working_dir = [],
      unit_environments = [], unit_trace_stack = [], unit_random = new_Random 0, unit_random_seed = 0,
      unit_start_timestamp = 0, unit_elapsed_time = 0, unit_catch_exceptions = False\<rparr>"

subsection \<open>Counts\<close>

fun SumOverTestCaseList :: "test_case list \<Rightarrow> (test_case \<Rightarrow> int) \<Rightarrow> int" where
  "SumOverTestCaseList [] f = 0"
| "SumOverTestCaseList (c # cs) f = f c + SumOverTestCaseList cs f"

definition TestCasePassed :: "test_case \<Rightarrow> bool" where
  "TestCasePassed c \<longleftrightarrow> case_should_run c \<and> case_Passed c"

definition TestCaseFailed :: "test_case \<Rightarrow> bool" where
  "TestCaseFailed c \<longleftrightarrow> case_should_run c \<and> case_Failed c"

definition ShouldRunTestCase :: "test_case \<Rightarrow> bool" where
  "ShouldRunTestCase c = case_should_run c"

definition successful_test_case_count :: "unit_test \<Rightarrow> int" where
  "successful_test_case_count u = CountIf (test_cases u) TestCasePassed"

definition failed_test_case_count :: "unit_test \<Rightarrow> int" where
  "failed_test_case_count u = CountIf (test_cases u) TestCaseFailed"

definition total_test_case_count :: "unit_test \<Rightarrow> int" where
  "total_test_case_count u = vector_size (test_cases u)"

definition test_case_to_run_count :: "unit_test \<Rightarrow> int" where
  "test_case_to_run_count u = CountIf (test_cases u) ShouldRunTestCase"

definition successful_test_count :: "unit_test \<Rightarrow> int" where
  "successful_test_count u = SumOverTestCaseList (test_cases u) case_successful_test_count"

definition failed_test_count :: "unit_test \<Rightarrow> int" where
  "failed_test_count u = SumOverTestCaseList (test_cases u) case_failed_test_count"

definition reportable_disabled_test_count :: "unit_test \<Rightarrow> int" where
  "reportable_disabled_test_count u = SumOverTestCaseList (test_cases u) case_reportable_disabled_test_count"

definition disabled_test_count :: "unit_test \<Rightarrow> int" where
  "disabled_test_count u = SumOverTestCaseList (test_cases u) case_disabled_test_count"

definition reportable_test_count :: "unit_test \<Rightarrow> int" where
  "reportable_test_count u = SumOverTestCaseList (test_cases u) case_reportable_test_count"

definition total_test_count :: "unit_test \<Rightarrow> int" where
  "total_test_count u = SumOverTestCaseList (test_cases u) case_total_test_count"

definition test_to_run_count :: "unit_test \<Rightarrow> int" where
  "test_to_run_count u = SumOverTestCaseList (test_cases u) case_test_to_run_count"

definition unit_Failed :: "unit_test \<Rightarrow> bool" where
  "unit_Failed u \<longleftrightarrow> failed_test_case_count u > 0 \<or> result_Failed (ad_hoc_test_result u)"

definition unit_Passed :: "unit_test \<Rightarrow> bool" where
  "unit_Passed u \<longleftrightarrow> \<not> unit_Failed u"

definition unit_GetTestCase :: "unit_test \<Rightarrow> int \<Rightarrow> nat option" where
  "unit_GetTestCase u i =
     (let index = GetElementOr (test_case_indices u) i (- 1) in if index < 0 then None else Some (nat i))"

definition GetMutableTestCase :: "unit_test \<Rightarrow> int \<Rightarrow> nat option" where
  "GetMutableTestCase u i =
     (let index = GetElementOr (test_case_indices u) i (- 1) in if index < 0 then None else Some (nat index))"

definition ClearNonAdHocTestResult :: "unit_test \<Rightarrow> unit_test" where
  "ClearNonAdHocTestResult u = u\<lparr>test_cases := map case_ClearResult (test_cases u)\<rparr>"

definition ClearAdHocTestResult :: "unit_test \<Rightarrow> unit_test" where
  "ClearAdHocTestResult u = u\<lparr>ad_hoc_test_result := result_Clear (ad_hoc_test_result u)\<rparr>"

subsection \<open>Registration\<close>

definition kDeathTestCaseFilter :: string where
  "kDeathTestCaseFilter = ''*DeathTest:*DeathTest/*''"

definition is_death_test_case :: "string \<Rightarrow> bool" where
  "is_death_test_case test_case_name = MatchesFilter test_case_name kDeathTestCaseFilter"

fun find_test_case :: "string \<Rightarrow> test_case list \<Rightarrow> nat option" where
  "find_test_case name [] = None"
| "find_test_case name (c # cs) =
     (if case_name c = name then Some 0 else map_option Suc (find_test_case name cs))"

text \<open>
  Finds or makes a test case; the result is its position and the new state.
\<close>

definition GetTestCase :: "string \<Rightarrow> string option \<Rightarrow> nat \<Rightarrow> nat \<Rightarrow> unit_test \<Rightarrow> nat \<times> unit_test" where
  "GetTestCase test_case_name type_param a_set_up_tc a_tear_down_tc u =
     (case find_test_case test_case_name (test_cases u) of
        Some k \<Rightarrow> (k, u)
      | None \<Rightarrow>
          (let new_test_case = TestCase test_case_name type_param a_set_up_tc a_tear_down_tc;
               n = length (test_cases u);
               (k, u1) =
                 (if is_death_test_case test_case_name then
                    (let last = last_death_test_case u + 1; k = nat last in
                     (k, u\<lparr>last_death_test_case := last,
                          test_cases := take k (test_cases u) @ [new_test_case] @ drop k (test_cases u)\<rparr>))
                  else (n, u\<lparr>test_cases := test_cases u @ [new_test_case]\<rparr>))
           in (k, u1\<lparr>test_case_indices := test_case_indices u1 @ [vector_size (test_case_indices u1)]\<rparr>)))"

text \<open>\<open>cwd\<close> is what \<open>GetCurrentDir\<close> gives.\<close>

definition AddTestInfo :: "string \<Rightarrow> nat \<Rightarrow> nat \<Rightarrow> test_info \<Rightarrow> unit_test \<Rightarrow> unit_test res" where
  "AddTestInfo cwd a_set_up_tc a_tear_down_tc t u =
     bind_res (if original_working_dir u = [] then
                 assert_res (cwd \<noteq> []) (Inr (u\<lparr>original_working_dir := cwd\<rparr>))
               else Inr u) (\<lambda>u1.
       case GetTestCase (info_test_case_name t) (info_type_param t) a_set_up_tc a_tear_down_tc u1 of
         (k, u2) \<Rightarrow> Inr (u2\<lparr>test_cases := (test_cases u2)[k := case_AddTestInfo t (test_cases u2 ! k)]\<rparr>))"

definition MakeAndRegisterTestInfo ::
  "string \<Rightarrow> string \<Rightarrow> string \<Rightarrow> string option \<Rightarrow> string option \<Rightarrow> nat \<Rightarrow> nat \<Rightarrow> nat \<Rightarrow> nat \<Rightarrow> unit_test \<Rightarrow> unit_test res" where
  "MakeAndRegisterTestInfo cwd test_case_name name type_param value_param fixture_class_id
       a_set_up_tc a_tear_down_tc factory u =
     AddTestInfo cwd a_set_up_tc a_tear_down_tc
       (TestInfo test_case_name name type_param value_param fixture_class_id factory) u"

definition AddEnvironment :: "nat option \<Rightarrow> unit_test \<Rightarrow> unit_test" where
  "AddEnvironment env u =
     (case env of None \<Rightarrow> u | Some e \<Rightarrow> u\<lparr>unit_environments := unit_environments u @ [e]\<rparr>)"

subsection \<open>Selecting tests\<close>

definition kDisableTestFilter :: string where
  "kDisableTestFilter = ''DISABLED_*:*/DISABLED_*''"

datatype reaction_to_sharding = HONOR_SHARDING_PROTOCOL | IGNORE_SHARDING_PROTOCOL

definition is_disabled_test :: "string \<Rightarrow> string \<Rightarrow> bool" where
  "is_disabled_test test_case_name test_name \<longleftrightarrow>
     MatchesFilter test_case_name kDisableTestFilter \<or> MatchesFilter test_name kDisableTestFilter"

definition is_runnable_test :: "gtest_flags \<Rightarrow> string \<Rightarrow> string \<Rightarrow> bool" where
  "is_runnable_test fl test_case_name test_name \<longleftrightarrow>
     (FLAG_also_run_disabled_tests fl \<or> \<not> is_disabled_test test_case_name test_name) \<and>
     FilterMatchesTest (FLAG_filter fl) test_case_name test_name"

text \<open>The body of the inner loop: the test, and whether it is runnable and selected.\<close>

definition filter_test ::
  "gtest_flags \<Rightarrow> reaction_to_sharding \<Rightarrow> int \<Rightarrow> int \<Rightarrow> string \<Rightarrow> int \<Rightarrow> test_info \<Rightarrow> test_info \<times> bool \<times> bool" where
  "filter_test fl shard_tests total_shards shard_index test_case_name num_runnable_tests t =
     (let is_disabled = is_disabled_test test_case_name (info_name t);
          matches_filter = FilterMatchesTest (FLAG_filter fl) test_case_name (info_name t);
          is_runnable = (FLAG_also_run_disabled_tests fl \<or> \<not> is_disabled) \<and> matches_filter;
          is_selected = is_runnable \<and>
            (shard_tests = IGNORE_SHARDING_PROTOCOL \<or>
             ShouldRunTestOnShard total_shards shard_index num_runnable_tests)
      in (t\<lparr>info_is_disabled := is_disabled, info_matches_filter := matches_filter,
            info_should_run := is_selected\<rparr>, is_runnable, is_selected))"

fun filter_test_loop ::
  "gtest_flags \<Rightarrow> reaction_to_sharding \<Rightarrow> int \<Rightarrow> int \<Rightarrow> string \<Rightarrow> int \<Rightarrow> int \<Rightarrow> bool \<Rightarrow> test_info list \<Rightarrow>
     test_info list \<times> int \<times> int \<times> bool" where
  "filter_test_loop fl sh tot k name runnable selected should [] = ([], runnable, selected, should)"
| "filter_test_loop fl sh tot k name runnable selected should (t # ts) =
     (case filter_test fl sh tot k name runnable t of (t', r, s) \<Rightarrow>
       (case filter_test_loop fl sh tot k name (runnable + of_bool r) (selected + of_bool s) (should \<or> s) ts of
          (ts', runnable', selected', should') \<Rightarrow> (t' # ts', runnable', selected', should')))"

fun filter_case_loop ::
  "gtest_flags \<Rightarrow> reaction_to_sharding \<Rightarrow> int \<Rightarrow> int \<Rightarrow> int \<Rightarrow> int \<Rightarrow> test_case list \<Rightarrow> test_case list \<times> int" where
  "filter_case_loop fl sh tot k runnable selected [] = ([], selected)"
| "filter_case_loop fl sh tot k runnable selected (c # cs) =
     (case filter_test_loop fl sh tot k (case_name c) runnable selected False (test_info_list c) of
        (ts, runnable', selected', should) \<Rightarrow>
          (case filter_case_loop fl sh tot k runnable' selected' cs of
             (cs', n) \<Rightarrow> (c\<lparr>test_info_list := ts, case_should_run := should\<rparr> # cs', n)))"

definition FilterTests ::
  "environment \<Rightarrow> gtest_flags \<Rightarrow> reaction_to_sharding \<Rightarrow> unit_test \<Rightarrow> (unit_test \<times> int) or_exit" where
  "FilterTests env fl shard_tests u =
     (case (if shard_tests = HONOR_SHARDING_PROTOCOL then Int32FromEnvOrDie env kTestTotalShards (- 1) else Inr (- 1)) of
        Inl out \<Rightarrow> Inl out
      | Inr total_shards \<Rightarrow>
     (case (if shard_tests = HONOR_SHARDING_PROTOCOL then Int32FromEnvOrDie env kTestShardIndex (- 1) else Inr (- 1)) of
        Inl out \<Rightarrow> Inl out
      | Inr shard_index \<Rightarrow>
          (case filter_case_loop fl shard_tests total_shards shard_index 0 0 (test_cases u) of
             (cs, n) \<Rightarrow> Inr (u\<lparr>test_cases := cs\<rparr>, n))))"

subsection \<open>Listing tests\<close>

definition kTypeParamLabel :: string where "kTypeParamLabel = ''TypeParam''"
definition kValueParamLabel :: string where "kValueParamLabel = ''GetParam()''"

fun print_line_loop :: "int \<Rightarrow> string \<Rightarrow> int \<Rightarrow> string" where
  "print_line_loop i [] max_length = []"
| "print_line_loop i (c # str) max_length =
     (if i \<ge> max_length then ''...''
      else if c = LF then [CHR 0x5C, CHR ''n''] @ print_line_loop (i + 2) str max_length
      else [c] @ print_line_loop (i + 1) str max_length)"

definition PrintOnOneLine :: "string option \<Rightarrow> int \<Rightarrow> string" where
  "PrintOnOneLine str max_length = (case str of None \<Rightarrow> [] | Some s \<Rightarrow> print_line_loop 0 s max_length)"

definition kMaxParamLength :: int where "kMaxParamLength = 250"

definition list_header :: "test_case \<Rightarrow> string" where
  "list_header c = case_name c @ ''.'' @
     (case case_type_param c of
        None \<Rightarrow> []
      | Some p \<Rightarrow> ''  # '' @ kTypeParamLabel @ '' = '' @ PrintOnOneLine (Some p) kMaxParamLength) @ [LF]"

definition list_test :: "test_info \<Rightarrow> string" where
  "list_test t = ''  '' @ info_name t @
     (case info_value_param t of
        None \<Rightarrow> []
      | Some p \<Rightarrow> ''  # '' @ kValueParamLabel @ '' = '' @ PrintOnOneLine (Some p) kMaxParamLength) @ [LF]"

fun list_loop :: "test_case \<Rightarrow> bool \<Rightarrow> test_info list \<Rightarrow> string" where
  "list_loop c printed_test_case_name [] = []"
| "list_loop c printed_test_case_name (t # ts) =
     (if info_matches_filter t then
        (if \<not> printed_test_case_name then list_header c else []) @ list_test t @ list_loop c True ts
      else list_loop c printed_test_case_name ts)"

definition ListTestsMatchingFilter :: "unit_test \<Rightarrow> string" where
  "ListTestsMatchingFilter u = concat (map (\<lambda>c. list_loop c False (test_info_list c)) (test_cases u))"

subsection \<open>Shuffling\<close>

fun shuffle_cases :: "random_state \<Rightarrow> test_case list \<Rightarrow> (random_state \<times> test_case list) res" where
  "shuffle_cases random [] = Inr (random, [])"
| "shuffle_cases random (c # cs) =
     bind_res (case_ShuffleTests random c) (\<lambda>(random1, c').
     bind_res (shuffle_cases random1 cs) (\<lambda>(random2, cs'). Inr (random2, c' # cs')))"

definition ShuffleTests :: "unit_test \<Rightarrow> unit_test res" where
  "ShuffleTests u =
     bind_res (ShuffleRange (unit_random u) 0 (last_death_test_case u + 1) (test_case_indices u)) (\<lambda>(random1, v1).
     bind_res (ShuffleRange random1 (last_death_test_case u + 1) (vector_size (test_cases u)) v1) (\<lambda>(random2, v2).
     bind_res (shuffle_cases random2 (test_cases u)) (\<lambda>(random3, cs).
       Inr (u\<lparr>unit_random := random3, test_case_indices := v2, test_cases := cs\<rparr>))))"

text \<open>The loop runs over the test cases and writes the index of each.\<close>

definition UnshuffleTests :: "unit_test \<Rightarrow> unit_test" where
  "UnshuffleTests u = u
     \<lparr>test_cases := map case_UnshuffleTests (test_cases u),
      test_case_indices :=
        map (\<lambda>i. sint (int_of_size i)) [0..<length (test_cases u)] @
        drop (length (test_cases u)) (test_case_indices u)\<rparr>"

end
