(* ===== verification/Gtest_Run.thy ===== *)
theory Gtest_Run
  imports Gtest_Unit Gtest_String
begin

text \<open>
  Running the tests: \<open>AddTestPartResult\<close>, \<open>RecordProperty\<close>, \<open>Test::Run\<close>, \<open>TestInfo::Run\<close>,
  \<open>TestCase::Run\<close> and \<open>UnitTestImpl::RunAllTests\<close> of \<open>gtest.cc\<close>. The user's tests, the clock and the
  environment are parameters: a call of user code is a list of assertion results and properties it
  records and whether it throws. The notifications of the listeners and the calls of user code are
  collected as events. Linux, with exceptions: the branches for Windows structured exceptions are
  left out.
\<close>

section \<open>The world outside\<close>

text \<open>
  The assertions and records of user code in their order, and the exception, if any, that leaves it
  with the text of \<open>what()\<close> (\<open>Some None\<close> for one that is no \<open>std::exception\<close>).
\<close>

datatype user_action =
    Report_Part part_type "string option" int string
  | Record_Property string string

type_synonym user_code = "user_action list \<times> string option option"

datatype user_call =
    Set_Up_Test_Case nat
  | Tear_Down_Test_Case nat
  | Create_Test nat
  | Set_Up nat
  | Test_Body nat
  | Tear_Down nat
  | Delete_Test nat
  | Set_Up_Environment nat
  | Tear_Down_Environment nat

datatype event =
    OnTestProgramStart
  | OnTestIterationStart int
  | OnEnvironmentsSetUpStart
  | OnEnvironmentsSetUpEnd
  | OnTestCaseStart nat
  | OnTestStart nat nat
  | OnTestPartResult test_part_result
  | OnTestEnd nat nat
  | OnTestCaseEnd nat
  | OnEnvironmentsTearDownStart
  | OnEnvironmentsTearDownEnd
  | OnTestIterationEnd int
  | OnTestProgramEnd
  | User_Call user_call

text \<open>
  \<open>world_user i\<close> is the user code of iteration \<open>i\<close>, \<open>world_time n\<close> the \<open>n\<close>-th reading of the clock,
  \<open>world_test_type_id\<close> the address that stands for the class \<open>Test\<close>, \<open>world_in_subprocess\<close> whether
  the process is the child of a death test.
\<close>

record world =
  world_flags :: gtest_flags
  world_env :: environment
  world_can_create :: "string \<Rightarrow> bool"
  world_user :: "int \<Rightarrow> user_call \<Rightarrow> user_code"
  world_time :: "nat \<Rightarrow> int"
  world_test_type_id :: nat
  world_in_subprocess :: bool

record run_state =
  run_unit :: unit_test
  run_events :: "event list"
  run_clock :: nat

definition notify :: "event \<Rightarrow> run_state \<Rightarrow> run_state" where
  "notify e s = s\<lparr>run_events := run_events s @ [e]\<rparr>"

definition GetTimeInMillis :: "world \<Rightarrow> run_state \<Rightarrow> int \<times> run_state" where
  "GetTimeInMillis w s = (world_time w (run_clock s), s\<lparr>run_clock := run_clock s + 1\<rparr>)"

definition set_current_test_case :: "nat option \<Rightarrow> run_state \<Rightarrow> run_state" where
  "set_current_test_case k s = s\<lparr>run_unit := (run_unit s)\<lparr>current_test_case := k\<rparr>\<rparr>"

definition set_current_test_info :: "(nat \<times> nat) option \<Rightarrow> run_state \<Rightarrow> run_state" where
  "set_current_test_info k s = s\<lparr>run_unit := (run_unit s)\<lparr>current_test_info := k\<rparr>\<rparr>"

section \<open>Results\<close>

definition update_case :: "nat \<Rightarrow> (test_case \<Rightarrow> test_case) \<Rightarrow> unit_test \<Rightarrow> unit_test" where
  "update_case k f u = u\<lparr>test_cases := (test_cases u)[k := f (test_cases u ! k)]\<rparr>"

definition update_info :: "nat \<times> nat \<Rightarrow> (test_info \<Rightarrow> test_info) \<Rightarrow> unit_test \<Rightarrow> unit_test" where
  "update_info kt f u = update_case (fst kt)
     (\<lambda>c. c\<lparr>test_info_list := (test_info_list c)[snd kt := f (test_info_list c ! snd kt)]\<rparr>) u"

definition the_info :: "unit_test \<Rightarrow> nat \<times> nat \<Rightarrow> test_info" where
  "the_info u kt = test_info_list (test_cases u ! fst kt) ! snd kt"

text \<open>\<open>current_test_result\<close>: the result itself, and the state after a change of it.\<close>

definition current_test_result :: "unit_test \<Rightarrow> test_result" where
  "current_test_result u =
     (case current_test_info u of Some kt \<Rightarrow> info_result (the_info u kt) | None \<Rightarrow> ad_hoc_test_result u)"

definition update_current_result :: "(test_result \<Rightarrow> test_result) \<Rightarrow> unit_test \<Rightarrow> unit_test" where
  "update_current_result f u =
     (case current_test_info u of
        Some kt \<Rightarrow> update_info kt (\<lambda>t. t\<lparr>info_result := f (info_result t)\<rparr>) u
      | None \<Rightarrow> u\<lparr>ad_hoc_test_result := f (ad_hoc_test_result u)\<rparr>)"

definition HasFatalFailure :: "run_state \<Rightarrow> bool" where
  "HasFatalFailure s = result_HasFatalFailure (current_test_result (run_unit s))"

definition HasNonfatalFailure :: "run_state \<Rightarrow> bool" where
  "HasNonfatalFailure s = result_HasNonfatalFailure (current_test_result (run_unit s))"

definition PushGTestTrace :: "trace_info \<Rightarrow> unit_test \<Rightarrow> unit_test" where
  "PushGTestTrace t u = u\<lparr>unit_trace_stack := unit_trace_stack u @ [t]\<rparr>"

definition PopGTestTrace :: "unit_test \<Rightarrow> unit_test" where
  "PopGTestTrace u = u\<lparr>unit_trace_stack := butlast (unit_trace_stack u)\<rparr>"

definition trace_text :: "trace_info list \<Rightarrow> string" where
  "trace_text stack =
     (if stack = [] then []
      else [LF] @ ''Google Test trace:'' @
        concat (map (\<lambda>t. [LF] @ FormatFileLocation (Some (trace_file t)) (trace_line t) @ '' '' @ trace_message t)
          (rev stack)))"

definition ReportTestPartResult :: "test_part_result \<Rightarrow> run_state \<Rightarrow> run_state" where
  "ReportTestPartResult r s =
     notify (OnTestPartResult r) (s\<lparr>run_unit := update_current_result (result_AddTestPartResult r) (run_unit s)\<rparr>)"

text \<open>
  \<open>--gtest_break_on_failure\<close> stores to a null pointer; the exception of \<open>--gtest_throw_on_failure\<close> is
  thrown again by every handler of the framework and ends the program.
\<close>

definition AddTestPartResult ::
  "world \<Rightarrow> part_type \<Rightarrow> string option \<Rightarrow> int \<Rightarrow> string \<Rightarrow> string \<Rightarrow> run_state \<Rightarrow> run_state res" where
  "AddTestPartResult w result_type f line message os_stack_trace s =
     (let msg = message @ trace_text (unit_trace_stack (run_unit s)) @
            (if os_stack_trace \<noteq> [] then kStackTraceMarker @ os_stack_trace else []);
          s1 = ReportTestPartResult (TestPartResult result_type f line msg) s
      in if result_type \<noteq> kSuccess then
           if FLAG_break_on_failure (world_flags w) then Inl NullDereference
           else if FLAG_throw_on_failure (world_flags w) then Inl UncaughtException
           else Inr s1
         else Inr s1)"

definition ReportFailureInUnknownLocation :: "world \<Rightarrow> part_type \<Rightarrow> string \<Rightarrow> run_state \<Rightarrow> run_state res" where
  "ReportFailureInUnknownLocation w result_type message s =
     AddTestPartResult w result_type None (- 1) message [] s"

text \<open>\<open>ADD_FAILURE()\<close> in the framework's own source file.\<close>

definition ADD_FAILURE :: "world \<Rightarrow> int \<Rightarrow> string \<Rightarrow> run_state \<Rightarrow> run_state res" where
  "ADD_FAILURE w line message s =
     AddTestPartResult w kNonFatalFailure (Some ''gtest.cc'') line (AppendUserMessage ''Failed'' message) [] s"

definition unit_RecordProperty :: "world \<Rightarrow> string \<Rightarrow> string \<Rightarrow> run_state \<Rightarrow> run_state res" where
  "unit_RecordProperty w key v s =
     (let u = run_unit s;
          (xml_element, result) =
            (case current_test_info u of
               Some kt \<Rightarrow> (''testcase'', info_result (the_info u kt))
             | None \<Rightarrow>
                 (case current_test_case u of
                    Some k \<Rightarrow> (''testsuite'', case_ad_hoc_test_result (test_cases u ! k))
                  | None \<Rightarrow> (''testsuites'', ad_hoc_test_result u)))
      in bind_res (result_RecordProperty xml_element (TestProperty key v) result) (\<lambda>(result', failure).
           let u' = (case current_test_info u of
               Some kt \<Rightarrow> update_info kt (\<lambda>t. t\<lparr>info_result := result'\<rparr>) u
             | None \<Rightarrow>
                 (case current_test_case u of
                    Some k \<Rightarrow> update_case k (\<lambda>c. c\<lparr>case_ad_hoc_test_result := result'\<rparr>) u
                  | None \<Rightarrow> u\<lparr>ad_hoc_test_result := result'\<rparr>));
               s' = s\<lparr>run_unit := u'\<rparr>
           in case failure of None \<Rightarrow> Inr s' | Some text \<Rightarrow> ADD_FAILURE w 1822 text s'))"

section \<open>Calling user code\<close>

definition FormatCxxExceptionMessage :: "string option \<Rightarrow> string \<Rightarrow> string" where
  "FormatCxxExceptionMessage description location =
     (case description of
        Some d \<Rightarrow> ''C++ exception with description \"'' @ d @ ''\"''
      | None \<Rightarrow> ''Unknown C++ exception'') @ '' thrown in '' @ location @ ''.''"

fun do_actions :: "world \<Rightarrow> user_action list \<Rightarrow> run_state \<Rightarrow> run_state res" where
  "do_actions w [] s = Inr s"
| "do_actions w (Report_Part ty f line message # as) s =
     bind_res (AddTestPartResult w ty f line message [] s) (do_actions w as)"
| "do_actions w (Record_Property key v # as) s =
     bind_res (unit_RecordProperty w key v s) (do_actions w as)"

text \<open>The boolean tells whether the call returned (and did not give the 0 value of its type).\<close>

definition HandleExceptionsInMethodIfSupported ::
  "world \<Rightarrow> int \<Rightarrow> user_call \<Rightarrow> string \<Rightarrow> run_state \<Rightarrow> (run_state \<times> bool) res" where
  "HandleExceptionsInMethodIfSupported w i call location s =
     (case world_user w i call of (acts, thrown) \<Rightarrow>
       bind_res (do_actions w acts (notify (User_Call call) s)) (\<lambda>s1.
         case thrown of
           None \<Rightarrow> Inr (s1, True)
         | Some description \<Rightarrow>
             if unit_catch_exceptions (run_unit s) then
               bind_res (ReportFailureInUnknownLocation w kFatalFailure
                   (FormatCxxExceptionMessage description location) s1) (\<lambda>s2. Inr (s2, False))
             else Inl UncaughtException))"

section \<open>Running a test\<close>

definition fixture_message :: "world \<Rightarrow> test_info \<Rightarrow> test_info \<Rightarrow> int \<times> string" where
  "fixture_message w first_test_info this_test_info =
     (let first_is_TEST = (info_fixture_class_id first_test_info = world_test_type_id w);
          this_is_TEST = (info_fixture_class_id this_test_info = world_test_type_id w)
      in if first_is_TEST \<or> this_is_TEST then
           (let TEST_name = (if first_is_TEST then info_name first_test_info else info_name this_test_info);
                TEST_F_name = (if first_is_TEST then info_name this_test_info else info_name first_test_info)
            in (1977, ''All tests in the same test case must use the same test fixture'' @ [LF] @
              ''class, so mixing TEST_F and TEST in the same test case is'' @ [LF] @
              ''illegal.  In test case '' @ info_test_case_name this_test_info @ '','' @ [LF] @
              ''test '' @ TEST_F_name @ '' is defined using TEST_F but'' @ [LF] @
              ''test '' @ TEST_name @ '' is defined using TEST.  You probably'' @ [LF] @
              ''want to change the TEST to TEST_F or move it to another test'' @ [LF] @ ''case.''))
         else
           (1989, ''All tests in the same test case must use the same test fixture'' @ [LF] @
              ''class.  However, in test case '' @ info_test_case_name this_test_info @ '','' @ [LF] @
              ''you defined test '' @ info_name first_test_info @ '' and test '' @ info_name this_test_info @ [LF] @
              ''using two different test fixture classes.  This can happen if'' @ [LF] @
              ''the two classes are from different namespaces or translation'' @ [LF] @
              ''units and have the same name.  You should probably rename one'' @ [LF] @
              ''of the classes to put the tests into different test cases.''))"

definition HasSameFixtureClass :: "world \<Rightarrow> nat \<times> nat \<Rightarrow> run_state \<Rightarrow> (run_state \<times> bool) res" where
  "HasSameFixtureClass w kt s =
     (let first_test_info = the_info (run_unit s) (fst kt, 0);
          this_test_info = the_info (run_unit s) kt
      in if info_fixture_class_id this_test_info \<noteq> info_fixture_class_id first_test_info then
           (case fixture_message w first_test_info this_test_info of (line, text) \<Rightarrow>
             bind_res (ADD_FAILURE w line text s) (\<lambda>s1. Inr (s1, False)))
         else Inr (s, True))"

definition Test_Run :: "world \<Rightarrow> int \<Rightarrow> nat \<times> nat \<Rightarrow> run_state \<Rightarrow> run_state res" where
  "Test_Run w i kt s =
     bind_res (HasSameFixtureClass w kt s) (\<lambda>(s1, same).
       if \<not> same then Inr s1
       else
         (let f = info_factory (the_info (run_unit s1) kt) in
          bind_res (HandleExceptionsInMethodIfSupported w i (Set_Up f) ''SetUp()'' s1) (\<lambda>(s2, _).
          bind_res (if \<not> HasFatalFailure s2 then
                      HandleExceptionsInMethodIfSupported w i (Test_Body f) ''the test body'' s2
                    else Inr (s2, False)) (\<lambda>(s3, _).
          bind_res (HandleExceptionsInMethodIfSupported w i (Tear_Down f) ''TearDown()'' s3) (\<lambda>(s4, _).
            Inr s4)))))"

text \<open>
  The result of a test is the one of the test object; deleting a test object that was not made does
  nothing.
\<close>

definition TestInfo_Run :: "world \<Rightarrow> int \<Rightarrow> nat \<times> nat \<Rightarrow> run_state \<Rightarrow> run_state res" where
  "TestInfo_Run w i kt s =
     (if \<not> info_should_run (the_info (run_unit s) kt) then Inr s
      else
        (let s1 = notify (OnTestStart (fst kt) (snd kt)) (set_current_test_info (Some kt) s);
             (start, s2) = GetTimeInMillis w s1;
             f = info_factory (the_info (run_unit s2) kt)
         in bind_res (HandleExceptionsInMethodIfSupported w i (Create_Test f) (''the test fixture'' @ [CHR 0x27] @ ''s constructor'') s2) (\<lambda>(s3, made).
            bind_res (if made \<and> \<not> HasFatalFailure s3 then Test_Run w i kt s3 else Inr s3) (\<lambda>s4.
            bind_res (if made then
                        HandleExceptionsInMethodIfSupported w i (Delete_Test f) (''the test fixture'' @ [CHR 0x27] @ ''s destructor'') s4
                      else Inr (s4, True)) (\<lambda>(s5, _).
              let (now, s6) = GetTimeInMillis w s5;
                  s7 = s6\<lparr>run_unit := update_info kt
                         (\<lambda>t. t\<lparr>info_result := (info_result t)\<lparr>result_elapsed_time := now - start\<rparr>\<rparr>) (run_unit s6)\<rparr>
              in Inr (set_current_test_info None (notify (OnTestEnd (fst kt) (snd kt)) s7)))))))"

section \<open>Running a test case\<close>

text \<open>A position without a test would be a null pointer.\<close>

fun run_tests :: "world \<Rightarrow> int \<Rightarrow> nat \<Rightarrow> int list \<Rightarrow> run_state \<Rightarrow> run_state res" where
  "run_tests w i k [] s = Inr s"
| "run_tests w i k (j # js) s =
     (case GetMutableTestInfo (test_cases (run_unit s) ! k) j of
        None \<Rightarrow> Inl NullDereference
      | Some t \<Rightarrow> bind_res (TestInfo_Run w i (k, t) s) (run_tests w i k js))"

definition TestCase_Run :: "world \<Rightarrow> int \<Rightarrow> nat \<Rightarrow> run_state \<Rightarrow> run_state res" where
  "TestCase_Run w i k s =
     (let c = test_cases (run_unit s) ! k in
      if \<not> case_should_run c then Inr s
      else
        (let s1 = notify (OnTestCaseStart k) (set_current_test_case (Some k) s) in
         bind_res (HandleExceptionsInMethodIfSupported w i (Set_Up_Test_Case (set_up_tc c)) ''SetUpTestCase()'' s1) (\<lambda>(s2, _).
         let (start, s3) = GetTimeInMillis w s2 in
         bind_res (run_tests w i k (map int [0..<nat (case_total_test_count c)]) s3) (\<lambda>s4.
         let (now, s5) = GetTimeInMillis w s4;
             s6 = s5\<lparr>run_unit := update_case k (\<lambda>c. c\<lparr>case_elapsed_time := now - start\<rparr>) (run_unit s5)\<rparr> in
         bind_res (HandleExceptionsInMethodIfSupported w i (Tear_Down_Test_Case (tear_down_tc c)) ''TearDownTestCase()'' s6) (\<lambda>(s7, _).
           Inr (set_current_test_case None (notify (OnTestCaseEnd k) s7)))))))"

section \<open>Running all tests\<close>

fun run_cases :: "world \<Rightarrow> int \<Rightarrow> int list \<Rightarrow> run_state \<Rightarrow> run_state res" where
  "run_cases w i [] s = Inr s"
| "run_cases w i (j # js) s =
     (case GetMutableTestCase (run_unit s) j of
        None \<Rightarrow> Inl NullDereference
      | Some k \<Rightarrow> bind_res (TestCase_Run w i k s) (run_cases w i js))"

text \<open>
  Setting up and tearing down an environment is not wrapped: an exception leaves \<open>RunAllTests\<close>
  and is handled by its caller.
\<close>

datatype 'a flow = Returned 'a | Thrown "string option" run_state

fun flow_state :: "run_state flow \<Rightarrow> run_state" where
  "flow_state (Returned s) = s"
| "flow_state (Thrown d s) = s"

fun run_environments :: "world \<Rightarrow> int \<Rightarrow> (nat \<Rightarrow> user_call) \<Rightarrow> nat list \<Rightarrow> run_state \<Rightarrow> run_state flow res" where
  "run_environments w i call [] s = Inr (Returned s)"
| "run_environments w i call (e # es) s =
     (case world_user w i (call e) of (acts, thrown) \<Rightarrow>
       bind_res (do_actions w acts (notify (User_Call (call e)) s)) (\<lambda>s1.
         case thrown of
           None \<Rightarrow> run_environments w i call es s1
         | Some description \<Rightarrow> Inr (Thrown description s1)))"

text \<open>The part of the loop body that is run when there is a test to run.\<close>

definition tear_down_environments :: "world \<Rightarrow> int \<Rightarrow> nat list \<Rightarrow> run_state \<Rightarrow> run_state flow res" where
  "tear_down_environments w i envs s =
     bind_res (run_environments w i Tear_Down_Environment (rev envs) (notify OnEnvironmentsTearDownStart s)) (\<lambda>r.
       case r of
         Thrown d s' \<Rightarrow> Inr (Thrown d s')
       | Returned s' \<Rightarrow> Inr (Returned (notify OnEnvironmentsTearDownEnd s')))"

definition run_selected :: "world \<Rightarrow> int \<Rightarrow> run_state \<Rightarrow> run_state flow res" where
  "run_selected w i s =
     (let envs = unit_environments (run_unit s) in
      bind_res (run_environments w i Set_Up_Environment envs (notify OnEnvironmentsSetUpStart s)) (\<lambda>r.
        case r of
          Thrown d s' \<Rightarrow> Inr (Thrown d s')
        | Returned s1 \<Rightarrow>
            (let s2 = notify OnEnvironmentsSetUpEnd s1 in
             bind_res (if \<not> HasFatalFailure s2 then
                         run_cases w i (map int [0..<nat (total_test_case_count (run_unit s2))]) s2
                       else Inr s2) (tear_down_environments w i envs))))"

definition start_iteration :: "world \<Rightarrow> bool \<Rightarrow> int \<Rightarrow> run_state \<Rightarrow> run_state res" where
  "start_iteration w has_tests_to_run i s =
     bind_res (if has_tests_to_run \<and> FLAG_shuffle (world_flags w) then
                 ShuffleTests ((run_unit s)\<lparr>unit_random := Reseed (word_of_int (unit_random_seed (run_unit s)))
                   (unit_random (run_unit s))\<rparr>)
               else Inr (run_unit s)) (\<lambda>u. Inr (notify (OnTestIterationStart i) (s\<lparr>run_unit := u\<rparr>)))"

text \<open>The end of the loop body; the boolean is \<open>Passed()\<close>.\<close>

definition end_iteration :: "world \<Rightarrow> int \<Rightarrow> int \<Rightarrow> run_state \<Rightarrow> (run_state \<times> bool) res" where
  "end_iteration w i start s =
     (let (now, s1) = GetTimeInMillis w s;
          s2 = notify (OnTestIterationEnd i) (s1\<lparr>run_unit := (run_unit s1)\<lparr>unit_elapsed_time := now - start\<rparr>\<rparr>);
          passed = unit_Passed (run_unit s2);
          u = UnshuffleTests (run_unit s2)
      in bind_res (if FLAG_shuffle (world_flags w) then
             bind_res (GetNextRandomSeed (unit_random_seed u)) (\<lambda>seed. Inr (u\<lparr>unit_random_seed := seed\<rparr>))
           else Inr u) (\<lambda>u'. Inr (s2\<lparr>run_unit := u'\<rparr>, passed)))"

definition run_iteration :: "world \<Rightarrow> bool \<Rightarrow> int \<Rightarrow> run_state \<Rightarrow> (run_state \<times> bool) flow res" where
  "run_iteration w has_tests_to_run i s =
     (let (start, s1) = GetTimeInMillis w (s\<lparr>run_unit := ClearNonAdHocTestResult (run_unit s)\<rparr>) in
      bind_res (start_iteration w has_tests_to_run i s1) (\<lambda>s2.
      bind_res (if has_tests_to_run then run_selected w i s2 else Inr (Returned s2)) (\<lambda>r.
        case r of
          Thrown d s' \<Rightarrow> Inr (Thrown d s')
        | Returned s3 \<Rightarrow> bind_res (end_iteration w i start s3) (\<lambda>p. Inr (Returned p)))))"

text \<open>
  The loop over the iterations. With a negative repeat count it ends only by an exception, an error
  or the overflow of \<open>i\<close>.
\<close>

partial_function (option) iteration_loop ::
  "world \<Rightarrow> bool \<Rightarrow> int \<Rightarrow> int \<Rightarrow> bool \<Rightarrow> run_state \<Rightarrow> (run_state \<times> bool) flow res option" where
  "iteration_loop w has_tests_to_run repeat i failed s =
     (if repeat < 0 \<or> i \<noteq> repeat then
        (case run_iteration w has_tests_to_run i s of
           Inl e \<Rightarrow> Some (Inl e)
         | Inr (Thrown d s') \<Rightarrow> Some (Inr (Thrown d s'))
         | Inr (Returned (s', passed)) \<Rightarrow>
             if i = 2 ^ 31 - 1 then Some (Inl SignedOverflow)
             else iteration_loop w has_tests_to_run repeat (i + 1) (failed \<or> \<not> passed) s')
      else Some (Inr (Returned (s, failed))))"

declare iteration_loop.simps [code]

text \<open>
  The result is the text printed to standard output by the function itself, what it returns, and the
  state. \<open>initialized\<close> and \<open>help_flag\<close> are the globals \<open>g_init_gtest_count != 0\<close> and \<open>g_help_flag\<close>;
  the initialisation after the flags (listeners, parameterized tests) has been done.
\<close>

definition start_program :: "world \<Rightarrow> unit_test \<Rightarrow> run_state \<Rightarrow> run_state" where
  "start_program w u s =
     (let fl = world_flags w;
          (now, s1) = (if FLAG_shuffle fl \<and> FLAG_random_seed fl = 0 then GetTimeInMillis w s else (0, s));
          seed = (if FLAG_shuffle fl then GetRandomSeedFromFlag now (FLAG_random_seed fl) else 0);
          (start, s2) = GetTimeInMillis w s1
      in notify OnTestProgramStart
           (s2\<lparr>run_unit := u\<lparr>unit_random_seed := seed, unit_start_timestamp := start\<rparr>\<rparr>))"

definition RunAllTests ::
  "world \<Rightarrow> bool \<Rightarrow> bool \<Rightarrow> run_state \<Rightarrow> (string \<times> bool \<times> run_state) flow res option" where
  "RunAllTests w initialized help_flag s =
     (let fl = world_flags w in
      if \<not> initialized then
        Some (Inr (Returned ([LF] @ ''This test program did NOT call ::testing::InitGoogleTest '' @
          ''before calling RUN_ALL_TESTS().  Please fix it.'' @ [LF], False, s)))
      else if help_flag then Some (Inr (Returned ([], True, s)))
      else case WriteToShardStatusFileIfNeeded (world_env w) (world_can_create w) of
        Inl _ \<Rightarrow> Some (Inl ProgramExit)
      | Inr _ \<Rightarrow>
      (case ShouldShard (world_env w) kTestTotalShards kTestShardIndex (world_in_subprocess w) of
        Inl _ \<Rightarrow> Some (Inl ProgramExit)
      | Inr should_shard \<Rightarrow>
      (case FilterTests (world_env w) fl
          (if should_shard then HONOR_SHARDING_PROTOCOL else IGNORE_SHARDING_PROTOCOL) (run_unit s) of
        Inl _ \<Rightarrow> Some (Inl ProgramExit)
      | Inr (u, n) \<Rightarrow>
          (if FLAG_list_tests fl then
             Some (Inr (Returned (ListTestsMatchingFilter u, True, s\<lparr>run_unit := u\<rparr>)))
           else
             map_option (\<lambda>r. bind_res r (\<lambda>flow.
                 case flow of
                   Thrown d s' \<Rightarrow> Inr (Thrown d s')
                 | Returned (s', failed) \<Rightarrow> Inr (Returned ([], \<not> failed, notify OnTestProgramEnd s'))))
               (iteration_loop w (n > 0) (if world_in_subprocess w then 1 else FLAG_repeat fl) 0 False
                 (start_program w u s))))))"

text \<open>
  \<open>UnitTest::Run\<close>: the flag for exceptions is read once; an exception that leaves \<open>RunAllTests\<close> is
  reported as a failure when exceptions are caught. The result is the exit code.
\<close>

definition UnitTest_Run :: "world \<Rightarrow> bool \<Rightarrow> bool \<Rightarrow> run_state \<Rightarrow> (string \<times> int \<times> run_state) res option" where
  "UnitTest_Run w initialized help_flag s =
     (let caught = FLAG_catch_exceptions (world_flags w) in
      map_option (\<lambda>r. bind_res r (\<lambda>flow.
          case flow of
            Returned (out, ok, s') \<Rightarrow> Inr (out, if ok then 0 else 1, s')
          | Thrown d s' \<Rightarrow>
              if caught then
                bind_res (ReportFailureInUnknownLocation w kFatalFailure
                    (FormatCxxExceptionMessage d ''auxiliary test code (environments or event listeners)'') s')
                  (\<lambda>s''. Inr ([], 1, s''))
              else Inl UncaughtException))
        (RunAllTests w initialized help_flag
          (s\<lparr>run_unit := (run_unit s)\<lparr>unit_catch_exceptions := caught\<rparr>\<rparr>)))"


section \<open>The steps of a call that returns\<close>

lemma TestInfo_Run_elim:
  assumes "TestInfo_Run w i kt s = Inr s'" and "info_should_run (the_info (run_unit s) kt)"
  obtains start s2 s3 made s4 s5 b5 now s6 where
    "GetTimeInMillis w (notify (OnTestStart (fst kt) (snd kt)) (set_current_test_info (Some kt) s)) = (start, s2)"
    "HandleExceptionsInMethodIfSupported w i (Create_Test (info_factory (the_info (run_unit s2) kt)))
      (''the test fixture'' @ [CHR 0x27] @ ''s constructor'') s2 = Inr (s3, made)"
    "(if made \<and> \<not> HasFatalFailure s3 then Test_Run w i kt s3 else Inr s3) = Inr s4"
    "(if made then HandleExceptionsInMethodIfSupported w i (Delete_Test (info_factory (the_info (run_unit s2) kt)))
      (''the test fixture'' @ [CHR 0x27] @ ''s destructor'') s4 else Inr (s4, True)) = Inr (s5, b5)"
    "GetTimeInMillis w s5 = (now, s6)"
    "s' = set_current_test_info None (notify (OnTestEnd (fst kt) (snd kt)) (s6\<lparr>run_unit := update_info kt
      (\<lambda>t. t\<lparr>info_result := (info_result t)\<lparr>result_elapsed_time := now - start\<rparr>\<rparr>) (run_unit s6)\<rparr>))"
proof -
  obtain start s2 where t2: "GetTimeInMillis w (notify (OnTestStart (fst kt) (snd kt)) (set_current_test_info (Some kt) s)) = (start, s2)"
    by fastforce
  let ?f = "info_factory (the_info (run_unit s2) kt)"
  obtain s3 made where 3: "HandleExceptionsInMethodIfSupported w i (Create_Test ?f)
      (''the test fixture'' @ [CHR 0x27] @ ''s constructor'') s2 = Inr (s3, made)"
    using assms t2 by (auto simp: TestInfo_Run_def Let_def bind_res_eq_Inr)
  obtain s4 where 4: "(if made \<and> \<not> HasFatalFailure s3 then Test_Run w i kt s3 else Inr s3) = Inr s4"
    using assms t2 3 by (auto simp: TestInfo_Run_def Let_def bind_res_eq_Inr)
  obtain s5 b5 where 5: "(if made then HandleExceptionsInMethodIfSupported w i (Delete_Test ?f)
      (''the test fixture'' @ [CHR 0x27] @ ''s destructor'') s4 else Inr (s4, True)) = Inr (s5, b5)"
    using assms t2 3 4 by (auto simp: TestInfo_Run_def Let_def bind_res_eq_Inr)
  obtain now s6 where t6: "GetTimeInMillis w s5 = (now, s6)" by fastforce
  have "s' = set_current_test_info None (notify (OnTestEnd (fst kt) (snd kt)) (s6\<lparr>run_unit := update_info kt
      (\<lambda>t. t\<lparr>info_result := (info_result t)\<lparr>result_elapsed_time := now - start\<rparr>\<rparr>) (run_unit s6)\<rparr>))"
    using assms t2 3 4 5 t6 by (simp add: TestInfo_Run_def Let_def)
  with t2 3 4 5 t6 show thesis by (rule that)
qed

lemma TestCase_Run_elim:
  assumes "TestCase_Run w i k s = Inr s'" and "case_should_run (test_cases (run_unit s) ! k)"
  obtains s2 b2 start s3 s4 now s5 s7 b7 where
    "HandleExceptionsInMethodIfSupported w i (Set_Up_Test_Case (set_up_tc (test_cases (run_unit s) ! k)))
      ''SetUpTestCase()'' (notify (OnTestCaseStart k) (set_current_test_case (Some k) s)) = Inr (s2, b2)"
    "GetTimeInMillis w s2 = (start, s3)"
    "run_tests w i k (map int [0..<nat (case_total_test_count (test_cases (run_unit s) ! k))]) s3 = Inr s4"
    "GetTimeInMillis w s4 = (now, s5)"
    "HandleExceptionsInMethodIfSupported w i (Tear_Down_Test_Case (tear_down_tc (test_cases (run_unit s) ! k)))
      ''TearDownTestCase()''
      (s5\<lparr>run_unit := update_case k (\<lambda>c. c\<lparr>case_elapsed_time := now - start\<rparr>) (run_unit s5)\<rparr>) = Inr (s7, b7)"
    "s' = set_current_test_case None (notify (OnTestCaseEnd k) s7)"
proof -
  obtain s2 b2 where 2: "HandleExceptionsInMethodIfSupported w i (Set_Up_Test_Case (set_up_tc (test_cases (run_unit s) ! k)))
      ''SetUpTestCase()'' (notify (OnTestCaseStart k) (set_current_test_case (Some k) s)) = Inr (s2, b2)"
    using assms by (auto simp: TestCase_Run_def Let_def bind_res_eq_Inr)
  obtain start s3 where t3: "GetTimeInMillis w s2 = (start, s3)" by fastforce
  obtain s4 where 4: "run_tests w i k (map int [0..<nat (case_total_test_count (test_cases (run_unit s) ! k))]) s3 = Inr s4"
    using assms 2 t3 by (auto simp: TestCase_Run_def Let_def bind_res_eq_Inr)
  obtain now s5 where t5: "GetTimeInMillis w s4 = (now, s5)" by fastforce
  obtain s7 b7 where "HandleExceptionsInMethodIfSupported w i (Tear_Down_Test_Case (tear_down_tc (test_cases (run_unit s) ! k)))
      ''TearDownTestCase()''
      (s5\<lparr>run_unit := update_case k (\<lambda>c. c\<lparr>case_elapsed_time := now - start\<rparr>) (run_unit s5)\<rparr>) = Inr (s7, b7)"
    "s' = set_current_test_case None (notify (OnTestCaseEnd k) s7)"
    using assms 2 t3 4 t5 by (auto simp: TestCase_Run_def Let_def bind_res_eq_Inr)
  with 2 t3 4 t5 show thesis by (rule that)
qed

lemma run_selected_elim:
  assumes "run_selected w i s = Inr r"
  obtains
    (not_set_up) d s1 where
      "run_environments w i Set_Up_Environment (unit_environments (run_unit s)) (notify OnEnvironmentsSetUpStart s) =
        Inr (Thrown d s1)" "r = Thrown d s1"
  | (set_up) s1 s3 where
      "run_environments w i Set_Up_Environment (unit_environments (run_unit s)) (notify OnEnvironmentsSetUpStart s) =
        Inr (Returned s1)"
      "(if \<not> HasFatalFailure (notify OnEnvironmentsSetUpEnd s1) then
        run_cases w i (map int [0..<nat (total_test_case_count (run_unit (notify OnEnvironmentsSetUpEnd s1)))])
          (notify OnEnvironmentsSetUpEnd s1)
        else Inr (notify OnEnvironmentsSetUpEnd s1)) = Inr s3"
      "tear_down_environments w i (unit_environments (run_unit s)) s3 = Inr r"
proof -
  obtain r1 where r1: "run_environments w i Set_Up_Environment (unit_environments (run_unit s))
      (notify OnEnvironmentsSetUpStart s) = Inr r1"
    using assms by (auto simp: run_selected_def Let_def bind_res_eq_Inr)
  show thesis
  proof (cases r1)
    case (Thrown d s1)
    then show thesis using not_set_up assms r1 by (simp add: run_selected_def Let_def)
  next
    case (Returned s1)
    with assms r1 show thesis by (auto simp: run_selected_def Let_def bind_res_eq_Inr intro: set_up)
  qed
qed

end
