(* ===== verification/Gtest_Order.thy ===== *)
theory Gtest_Order
  imports Gtest_Unit
begin

text \<open>
  What holds of the registered tests whatever is done with them: the index vectors are permutations,
  the death test cases come first, every test is visited exactly once in any order, and the shards
  divide the runnable tests among them.
\<close>

section \<open>The invariant\<close>

definition permutation_of :: "nat \<Rightarrow> int list \<Rightarrow> bool" where
  "permutation_of n v \<longleftrightarrow> mset v = mset (map int [0..<n])"

definition case_ok :: "test_case \<Rightarrow> bool" where
  "case_ok c \<longleftrightarrow>
     length (test_info_list c) < 2 ^ 31 \<and>
     permutation_of (length (test_info_list c)) (test_indices c) \<and>
     (\<forall>t \<in> set (test_info_list c). info_test_case_name t = case_name c)"

definition death_count :: "unit_test \<Rightarrow> nat" where
  "death_count u = nat (last_death_test_case u + 1)"

definition unit_ok :: "unit_test \<Rightarrow> bool" where
  "unit_ok u \<longleftrightarrow>
     length (test_cases u) < 2 ^ 31 \<and>
     permutation_of (length (test_cases u)) (test_case_indices u) \<and>
     - 1 \<le> last_death_test_case u \<and> last_death_test_case u < int (length (test_cases u)) \<and>
     (\<forall>i < length (test_cases u). is_death_test_case (case_name (test_cases u ! i)) \<longleftrightarrow> i < death_count u) \<and>
     permutation_of (death_count u) (take (death_count u) (test_case_indices u)) \<and>
     distinct (map case_name (test_cases u)) \<and>
     (\<forall>c \<in> set (test_cases u). case_ok c)"

definition unshuffled :: "unit_test \<Rightarrow> bool" where
  "unshuffled u \<longleftrightarrow> test_case_indices u = map int [0..<length (test_cases u)]"

text \<open>
  The operations on the registered tests. Tests are added only while they are not shuffled, which
  the comment of \<open>GetTestCase\<close> asks of the caller.
\<close>

inductive reachable_tests :: "unit_test \<Rightarrow> bool" where
  tests_start: "reachable_tests new_UnitTestImpl"
| tests_add: "reachable_tests u \<Longrightarrow> unshuffled u \<Longrightarrow> length (test_cases u) < 2 ^ 31 - 1 \<Longrightarrow>
    (\<forall>c \<in> set (test_cases u). length (test_info_list c) < 2 ^ 31 - 1) \<Longrightarrow>
    AddTestInfo cwd su td t u = Inr u' \<Longrightarrow> reachable_tests u'"
| tests_filter: "reachable_tests u \<Longrightarrow> FilterTests env fl sh u = Inr (u', n) \<Longrightarrow> reachable_tests u'"
| tests_shuffle: "reachable_tests u \<Longrightarrow> ShuffleTests u = Inr u' \<Longrightarrow> reachable_tests u'"
| tests_unshuffle: "reachable_tests u \<Longrightarrow> reachable_tests (UnshuffleTests u)"
| tests_clear: "reachable_tests u \<Longrightarrow> reachable_tests (ClearNonAdHocTestResult u)"

lemma permutation_length: "permutation_of n v \<Longrightarrow> length v = n"
  unfolding permutation_of_def by (metis length_map length_upt minus_nat.diff_0 size_mset)

lemma permutation_set: "permutation_of n v \<Longrightarrow> set v = int ` {0..<n}"
  unfolding permutation_of_def by (metis list.set_map set_mset_mset set_upt)

lemma permutation_distinct: "permutation_of n v \<Longrightarrow> distinct v"
  unfolding permutation_of_def
  by (metis distinct_map distinct_upt inj_on_of_nat mset_eq_imp_distinct_iff)

lemma permutation_id [simp]: "permutation_of n (map int [0..<n])"
  by (simp add: permutation_of_def)

lemma permutation_mset: "mset v = mset w \<Longrightarrow> permutation_of n v = permutation_of n w"
  by (simp add: permutation_of_def)

lemma permutation_snoc: "permutation_of n v \<Longrightarrow> permutation_of (Suc n) (v @ [int n])"
  by (simp add: permutation_of_def)

lemma small_indices: "n \<le> 2 ^ 31 \<Longrightarrow> map (\<lambda>i. sint (int_of_size i)) [0..<n] = map int [0..<n]"
  by (simp add: sint_int_of_size)

section \<open>Every operation keeps it\<close>

lemma fresh_unit_ok: "unit_ok new_UnitTestImpl"
  by (simp add: unit_ok_def new_UnitTestImpl_def death_count_def permutation_of_def)

lemma find_test_case_None: "find_test_case name cs = None \<longleftrightarrow> name \<notin> set (map case_name cs)"
  by (induction cs) auto

lemma find_test_case_Some: "find_test_case name cs = Some k \<Longrightarrow> k < length cs \<and> case_name (cs ! k) = name"
  by (induction cs arbitrary: k) (auto split: if_splits)

lemma new_case_ok: "case_ok (TestCase name p su td)"
  by (simp add: case_ok_def TestCase_def permutation_of_def)

lemma insert_nth: "k \<le> length xs \<Longrightarrow> (take k xs @ [x] @ drop k xs) ! i =
    (if i < k then xs ! i else if i = k then x else xs ! (i - 1))"
  by (auto simp: nth_append min_def nth_Cons')

lemma GetTestCase_ok:
  assumes "unit_ok u" and "unshuffled u" and "length (test_cases u) < 2 ^ 31 - 1"
    and "GetTestCase name p su td u = (k, u')"
  shows "unit_ok u' \<and> k < length (test_cases u') \<and> case_name (test_cases u' ! k) = name \<and>
    set (test_cases u') \<subseteq> insert (TestCase name p su td) (set (test_cases u))"
proof (cases "find_test_case name (test_cases u)")
  case (Some j)
  then show ?thesis using assms find_test_case_Some [OF Some] by (auto simp: GetTestCase_def)
next
  case None
  let ?n = "length (test_cases u)" and ?d = "death_count u" and ?c = "TestCase name p su td"
  have new: "name \<notin> set (map case_name (test_cases u))" using None find_test_case_None by simp
  have idx: "test_case_indices u = map int [0..<?n]" using assms(2) by (simp add: unshuffled_def)
  have d: "?d \<le> ?n" "last_death_test_case u = int ?d - 1"
    using assms(1) by (auto simp: unit_ok_def death_count_def)
  have name: "case_name ?c = name" by (simp add: TestCase_def)
  have idx': "map int [0..<?n] @ [vector_size (map int [0..<?n])] = map int [0..<Suc ?n]"
    using assms(3) by (simp add: vector_size_eq)
  have dist: "distinct (map case_name (test_cases u))" and cs: "\<forall>c \<in> set (test_cases u). case_ok c"
    and death: "\<forall>i < ?n. is_death_test_case (case_name (test_cases u ! i)) \<longleftrightarrow> i < ?d"
    using assms(1) by (simp_all add: unit_ok_def)
  show ?thesis
  proof (cases "is_death_test_case name")
    case True
    have u': "u' = u\<lparr>last_death_test_case := int ?d,
        test_cases := take ?d (test_cases u) @ [?c] @ drop ?d (test_cases u),
        test_case_indices := map int [0..<Suc ?n]\<rparr>" "k = ?d"
      using assms(4) None True d idx idx' by (auto simp: GetTestCase_def Let_def)
    have d': "death_count u' = Suc ?d" unfolding death_count_def [of u'] by (simp add: u'(1) nat_add_distrib)
    have len: "length (test_cases u') = Suc ?n" using d(1) by (simp add: u')
    have "take (Suc ?d) (map int [0..<Suc ?n]) = map int [0..<Suc ?d]"
      using d(1) by (simp add: take_map take_upt del: upt_Suc)
    then have perm: "permutation_of (Suc ?d) (take (Suc ?d) (test_case_indices u'))"
    proof -
      assume "take (Suc ?d) (map int [0..<Suc ?n]) = map int [0..<Suc ?d]"
      moreover have "test_case_indices u' = map int [0..<Suc ?n]" unfolding u' by (simp del: upt_Suc)
      ultimately show ?thesis by (simp only: permutation_id)
    qed
    have "distinct (map case_name (test_cases u'))"
    proof -
      have "mset (take ?d (test_cases u)) + mset (drop ?d (test_cases u)) = mset (test_cases u)"
        by (metis append_take_drop_id mset_append)
      then have "mset (test_cases u') = add_mset ?c (mset (test_cases u))" by (simp add: u'(1))
      then have "mset (map case_name (test_cases u')) = mset (name # map case_name (test_cases u))"
        by (simp add: name)
      then show ?thesis using new dist by (metis distinct.simps(2) mset_eq_imp_distinct_iff)
    qed
    moreover have "\<forall>i < Suc ?n. is_death_test_case (case_name (test_cases u' ! i)) \<longleftrightarrow> i < Suc ?d"
    proof (intro allI impI)
      fix i assume "i < Suc ?n"
      then show "is_death_test_case (case_name (test_cases u' ! i)) \<longleftrightarrow> i < Suc ?d"
        using death d(1) True unfolding u'
        by (auto simp: insert_nth [simplified] TestCase_def)
    qed
    moreover have sub: "set (test_cases u') \<subseteq> insert ?c (set (test_cases u))"
      using set_take_subset [of ?d "test_cases u"] set_drop_subset [of ?d "test_cases u"] by (auto simp: u')
    moreover have "test_cases u' ! k = ?c" using d(1) by (simp add: u' nth_append)
    moreover have "last_death_test_case u' = int ?d" by (simp add: u')
    moreover have "test_case_indices u' = map int [0..<Suc ?n]" unfolding u' by (simp del: upt_Suc)
    then have "permutation_of (Suc ?n) (test_case_indices u')" by (simp only: permutation_id)
    moreover have "k < length (test_cases u')" using d(1) len by (simp add: u'(2))
    moreover have "\<forall>c \<in> set (test_cases u'). case_ok c"
      using sub cs new_case_ok [of name p su td] by blast
    moreover have "Suc ?n < 2 ^ 31" using assms(3) by simp
    ultimately show ?thesis using d(1) perm len d' name
      unfolding unit_ok_def by (simp del: upt_Suc)
  next
    case False
    have "GetTestCase name p su td u =
        (?n, u\<lparr>test_cases := test_cases u @ [?c], test_case_indices := map int [0..<Suc ?n]\<rparr>)"
      using None False idx idx' by (simp add: GetTestCase_def Let_def del: upt_Suc)
    with assms(4) have u': "u' = u\<lparr>test_cases := test_cases u @ [?c], test_case_indices := map int [0..<Suc ?n]\<rparr>" "k = ?n"
      by (metis fst_conv snd_conv)+
    have d': "death_count u' = ?d" by (simp add: u' death_count_def)
    have cases': "test_cases u' = test_cases u @ [?c]" by (simp add: u')
    have "take ?d (map int [0..<Suc ?n]) = map int [0..<?d]"
      using d(1) by (simp add: take_map take_upt del: upt_Suc)
    then have perm: "permutation_of ?d (take ?d (test_case_indices u'))" unfolding u' by simp
    have "\<forall>i < Suc ?n. is_death_test_case (case_name (test_cases u' ! i)) \<longleftrightarrow> i < ?d"
      using death d(1) False by (auto simp: cases' nth_append less_Suc_eq name)
    moreover have "last_death_test_case u' = last_death_test_case u" by (simp add: u')
    moreover have "test_case_indices u' = map int [0..<Suc ?n]" unfolding u' by (simp del: upt_Suc)
    then have "permutation_of (Suc ?n) (test_case_indices u')" by (simp only: permutation_id)
    moreover have "Suc ?n < 2 ^ 31" using assms(3) by simp
    ultimately show ?thesis
      using d perm d' new dist cs new_case_ok [of name p su td]
      unfolding unit_ok_def cases' by (auto simp: u'(2) name)
  qed
qed

lemma AddTestInfo_ok:
  assumes "unit_ok u" and "unshuffled u" and "length (test_cases u) < 2 ^ 31 - 1"
    and "\<forall>c \<in> set (test_cases u). length (test_info_list c) < 2 ^ 31 - 1"
    and "AddTestInfo cwd su td t u = Inr u'"
  shows "unit_ok u'"
proof -
  obtain w where w: "(if original_working_dir u = [] then assert_res (cwd \<noteq> []) (Inr (u\<lparr>original_working_dir := cwd\<rparr>))
      else Inr u) = Inr (u\<lparr>original_working_dir := w\<rparr>)"
  proof (cases "original_working_dir u = []")
    case True
    then show thesis using assms(5) that [of cwd] by (cases "cwd = []") (simp_all add: AddTestInfo_def)
  next
    case False
    then show thesis using that [of "original_working_dir u"] by simp
  qed
  let ?u = "u\<lparr>original_working_dir := w\<rparr>"
  have ok: "unit_ok ?u" "unshuffled ?u" "length (test_cases ?u) < 2 ^ 31 - 1"
    using assms(1-3) by (simp_all add: unit_ok_def unshuffled_def death_count_def)
  obtain k u2 where get: "GetTestCase (info_test_case_name t) (info_type_param t) su td ?u = (k, u2)"
    by (cases "GetTestCase (info_test_case_name t) (info_type_param t) su td ?u")
  note u2 = GetTestCase_ok [OF ok get]
  let ?c = "test_cases u2 ! k"
  have u': "u' = u2\<lparr>test_cases := (test_cases u2)[k := case_AddTestInfo t ?c]\<rparr>"
    using assms(5) unfolding AddTestInfo_def w by (simp add: get)
  have mem: "?c \<in> set (test_cases u2)" using u2 by simp
  moreover have "set (test_cases u2) \<subseteq> insert (TestCase (info_test_case_name t) (info_type_param t) su td) (set (test_cases u))"
    using u2 by simp
  ultimately have "?c \<in> insert (TestCase (info_test_case_name t) (info_type_param t) su td) (set (test_cases u))"
    by (rule subsetD [rotated])
  then have small: "length (test_info_list ?c) < 2 ^ 31 - 1"
    using assms(4) by (auto simp: TestCase_def)
  have "case_ok ?c" using u2 mem by (auto simp: unit_ok_def)
  then have new: "case_ok (case_AddTestInfo t ?c)"
    using small u2 permutation_length [of _ "test_indices ?c"] permutation_snoc
    by (auto simp: case_ok_def case_AddTestInfo_def vector_size_eq)
  have names: "map case_name (test_cases u') = map case_name (test_cases u2)"
    unfolding u' by (simp add: map_update case_AddTestInfo_def) (use u2 in \<open>metis length_map list_update_id nth_map\<close>)
  then have "case_name (test_cases u' ! i) = case_name (test_cases u2 ! i)" if "i < length (test_cases u2)" for i
    using that by (metis length_map nth_map)
  moreover have "\<forall>c \<in> set (test_cases u'). case_ok c"
    using new u2 set_update_subset_insert [of "test_cases u2" k "case_AddTestInfo t ?c"]
    by (auto simp: u' unit_ok_def)
  ultimately show ?thesis using u2 names by (simp add: unit_ok_def u' death_count_def)
qed

text \<open>The other operations keep the cases, their tests and the index vectors up to a permutation.\<close>

definition case_like :: "test_case \<Rightarrow> test_case \<Rightarrow> bool" where
  "case_like c d \<longleftrightarrow> case_name d = case_name c \<and>
     map info_test_case_name (test_info_list d) = map info_test_case_name (test_info_list c) \<and>
     mset (test_indices d) = mset (test_indices c)"

lemma case_like_refl [simp]: "case_like c c"
  by (simp add: case_like_def)

lemma case_like_ok: "case_like c d \<Longrightarrow> case_ok c \<Longrightarrow> case_ok d"
proof -
  assume like: "case_like c d" and ok: "case_ok c"
  have names: "map info_test_case_name (test_info_list d) = map info_test_case_name (test_info_list c)"
    using like by (simp add: case_like_def)
  then have "length (test_info_list d) = length (test_info_list c)" by (metis length_map)
  moreover have "info_test_case_name ` set (test_info_list d) = info_test_case_name ` set (test_info_list c)"
    using names by (metis list.set_map)
  ultimately show "case_ok d" using like ok permutation_mset [of "test_indices d" "test_indices c"]
    unfolding case_ok_def case_like_def by (auto 4 3)
qed

lemma unit_like_ok:
  assumes "unit_ok u" and "list_all2 case_like (test_cases u) (test_cases u')"
    and "last_death_test_case u' = last_death_test_case u"
    and "mset (test_case_indices u') = mset (test_case_indices u)"
    and "mset (take (death_count u) (test_case_indices u')) = mset (take (death_count u) (test_case_indices u))"
  shows "unit_ok u'"
proof -
  have len: "length (test_cases u') = length (test_cases u)" using assms(2) by (simp add: list_all2_lengthD)
  have name: "case_name (test_cases u' ! i) = case_name (test_cases u ! i)" if "i < length (test_cases u)" for i
    using assms(2) that by (auto simp: list_all2_conv_all_nth case_like_def)
  then have names: "map case_name (test_cases u') = map case_name (test_cases u)"
    using len by (auto intro: nth_equalityI)
  have d: "death_count u' = death_count u" using assms(3) by (simp add: death_count_def)
  have "\<forall>c \<in> set (test_cases u'). case_ok c"
    using assms(1,2) case_like_ok len by (fastforce simp: unit_ok_def list_all2_conv_all_nth in_set_conv_nth)
  then show ?thesis using assms(1,3) len name names d permutation_mset [OF assms(4)] permutation_mset [OF assms(5)]
    by (simp add: unit_ok_def)
qed

lemma filter_test_loop_like:
  "filter_test_loop fl sh n k name r s b ts = (ts', r', s', b') \<Longrightarrow>
     map info_test_case_name ts' = map info_test_case_name ts"
  by (induction fl sh n k name r s b ts arbitrary: ts' r' s' b' rule: filter_test_loop.induct)
    (auto simp: filter_test_def Let_def split: prod.splits)

lemma filter_case_loop_like:
  "filter_case_loop fl sh n k r s cs = (cs', s') \<Longrightarrow> list_all2 case_like cs cs'"
  by (induction fl sh n k r s cs arbitrary: cs' s' rule: filter_case_loop.induct)
    (auto simp: case_like_def dest: filter_test_loop_like split: prod.splits)

lemma FilterTests_ok: "unit_ok u \<Longrightarrow> FilterTests env fl sh u = Inr (u', n) \<Longrightarrow> unit_ok u'"
  by (erule unit_like_ok)
    (auto simp: FilterTests_def split: sum.splits prod.splits dest: filter_case_loop_like)

lemma ClearNonAdHoc_ok: "unit_ok u \<Longrightarrow> unit_ok (ClearNonAdHocTestResult u)"
  by (erule unit_like_ok)
    (auto simp: ClearNonAdHocTestResult_def list_all2_conv_all_nth case_like_def case_ClearResult_def ClearTestResult_def)

lemma UnshuffleTests_ok:
  assumes "unit_ok u"
  shows "unit_ok (UnshuffleTests u) \<and> unshuffled (UnshuffleTests u)"
proof -
  let ?n = "length (test_cases u)" and ?d = "death_count u"
  have n: "length (test_case_indices u) = ?n" "?n < 2 ^ 31"
    using assms permutation_length by (auto simp: unit_ok_def)
  then have idx: "test_case_indices (UnshuffleTests u) = map int [0..<?n]"
    using small_indices [of ?n] by (simp add: UnshuffleTests_def)
  have "?d \<le> ?n" using assms by (auto simp: unit_ok_def death_count_def)
  then have take: "take ?d (map int [0..<?n]) = map int [0..<?d]" by (simp add: take_map take_upt)
  have "case_like c (case_UnshuffleTests c)" if "c \<in> set (test_cases u)" for c
  proof -
    have "case_ok c" using assms that by (simp add: unit_ok_def)
    then have p: "permutation_of (length (test_info_list c)) (test_indices c)" "length (test_info_list c) < 2 ^ 31"
      by (simp_all add: case_ok_def)
    then have "test_indices (case_UnshuffleTests c) = map int [0..<length (test_info_list c)]"
      using permutation_length [OF p(1)] small_indices [of "length (test_info_list c)"]
      by (simp add: case_UnshuffleTests_def)
    with p(1) show ?thesis by (simp add: case_like_def permutation_of_def) (simp add: case_UnshuffleTests_def)
  qed
  then have like: "list_all2 case_like (test_cases u) (test_cases (UnshuffleTests u))"
    by (simp add: UnshuffleTests_def list_all2_conv_all_nth)
  have "unit_ok (UnshuffleTests u)"
    by (rule unit_like_ok [OF assms like])
      (use assms take idx in \<open>simp_all add: unit_ok_def permutation_of_def\<close>, simp add: UnshuffleTests_def)
  then show ?thesis using idx by (simp add: unshuffled_def) (simp add: UnshuffleTests_def)
qed

lemma shuffle_cases_like:
  assumes "\<forall>c \<in> set cs. length (test_indices c) < 2 ^ 31"
  shows "\<exists>r' cs'. shuffle_cases r cs = Inr (r', cs') \<and> list_all2 case_like cs cs'"
  using assms
proof (induction cs arbitrary: r)
  case (Cons c cs)
  obtain r1 v where v: "Shuffle r (test_indices c) = Inr (r1, v)" "mset v = mset (test_indices c)"
    using Shuffle_permutes [of "test_indices c" r] Cons.prems by auto
  obtain r2 cs' where "shuffle_cases r1 cs = Inr (r2, cs')" "list_all2 case_like cs cs'"
    using Cons.IH [of r1] Cons.prems by auto
  with v show ?case by (simp add: case_ShuffleTests_def) (simp add: case_like_def)
qed simp

lemma ShuffleTests_ok:
  assumes "unit_ok u"
  shows "\<exists>u'. ShuffleTests u = Inr u' \<and> unit_ok u' \<and> test_cases u' \<noteq> [] = (test_cases u \<noteq> [])"
proof -
  let ?n = "length (test_cases u)" and ?d = "death_count u" and ?v = "test_case_indices u"
  have n: "length ?v = ?n" "?n < 2 ^ 31" "?d \<le> ?n" "last_death_test_case u + 1 = int ?d"
    using assms permutation_length by (auto simp: unit_ok_def death_count_def)
  obtain r1 v1 where 1: "ShuffleRange (unit_random u) 0 (int ?d) ?v = Inr (r1, v1)" "mset v1 = mset ?v" "drop ?d v1 = drop ?d ?v"
    using ShuffleRange_permutes_all [of 0 "int ?d" ?v "unit_random u"] n by auto
  have l1: "length v1 = ?n" using 1(2) n(1) by (metis size_mset)
  obtain r2 v2 where 2: "ShuffleRange r1 (int ?d) (int ?n) v1 = Inr (r2, v2)" "mset v2 = mset v1" "take ?d v2 = take ?d v1"
    using ShuffleRange_permutes_all [of "int ?d" "int ?n" v1 r1] n l1 by auto
  have "\<forall>c \<in> set (test_cases u). length (test_indices c) < 2 ^ 31"
    using assms permutation_length by (fastforce simp: unit_ok_def case_ok_def)
  then obtain r3 cs where 3: "shuffle_cases r2 (test_cases u) = Inr (r3, cs)" "list_all2 case_like (test_cases u) cs"
    using shuffle_cases_like by blast
  let ?u = "u\<lparr>unit_random := r3, test_case_indices := v2, test_cases := cs\<rparr>"
  have "mset (take ?d v1) + mset (drop ?d v1) = mset (take ?d ?v) + mset (drop ?d ?v)"
    using 1(2) by (metis append_take_drop_id mset_append)
  then have "mset (take ?d v2) = mset (take ?d ?v)" using 1(3) 2(3) by simp
  then have "unit_ok ?u"
    by (intro unit_like_ok [OF assms]) (use 1 2 3 in simp_all)
  moreover have "ShuffleTests u = Inr ?u"
    using 1(1) 2(1) 3(1) n by (simp add: ShuffleTests_def vector_size_eq)
  moreover have "cs \<noteq> [] = (test_cases u \<noteq> [])" using 3(2) by auto
  ultimately show ?thesis by auto
qed

lemma reachable_ok: "reachable_tests u \<Longrightarrow> unit_ok u"
proof (induction rule: reachable_tests.induct)
  case (tests_shuffle u u')
  then show ?case using ShuffleTests_ok [of u] by auto
qed (auto intro: fresh_unit_ok AddTestInfo_ok FilterTests_ok ClearNonAdHoc_ok simp: UnshuffleTests_ok)

section \<open>The order in which tests run\<close>

lemma permutation_element:
  assumes "permutation_of n v" and "n < 2 ^ 31" and "i < n"
  shows "GetElementOr v (int i) (- 1) = v ! i" and "0 \<le> v ! i" and "nat (v ! i) < n"
proof -
  have len: "length v = n" using assms(1) by (rule permutation_length)
  then have "v ! i \<in> set v" using assms(3) by simp
  then have "v ! i \<in> int ` {0..<n}" using permutation_set [OF assms(1)] by simp
  then show "0 \<le> v ! i" and "nat (v ! i) < n" by auto
  show "GetElementOr v (int i) (- 1) = v ! i" using assms len by (simp add: GetElementOr_def vector_size_eq)
qed

lemma permutation_nats: "permutation_of n v \<Longrightarrow> distinct (map nat v) \<and> set (map nat v) = {0..<n}"
proof -
  assume p: "permutation_of n v"
  have "mset (map nat v) = image_mset nat (mset (map int [0..<n]))"
    using p by (simp add: permutation_of_def)
  also have "\<dots> = mset [0..<n]" by (simp add: image_mset.compositionality comp_def del: mset_upt)
  finally have "mset (map nat v) = mset [0..<n]" .
  then show ?thesis by (metis distinct_upt mset_eq_imp_distinct_iff set_mset_mset set_upt)
qed

text \<open>The position of the case that runs as the \<open>i\<close>-th, and the tests of a case in their order.\<close>

definition order_of_cases :: "unit_test \<Rightarrow> nat option list" where
  "order_of_cases u = map (\<lambda>i. GetMutableTestCase u (int i)) [0..<length (test_cases u)]"

definition order_of_tests :: "test_case \<Rightarrow> nat option list" where
  "order_of_tests c = map (\<lambda>i. GetMutableTestInfo c (int i)) [0..<length (test_info_list c)]"

lemma order_of_cases_eq:
  assumes "unit_ok u"
  shows "order_of_cases u = map Some (map nat (test_case_indices u))"
proof -
  have p: "permutation_of (length (test_cases u)) (test_case_indices u)" "length (test_cases u) < 2 ^ 31"
    using assms by (simp_all add: unit_ok_def)
  have "GetMutableTestCase u (int i) = Some (nat (test_case_indices u ! i))" if "i < length (test_cases u)" for i
    using permutation_element [OF p that] by (simp add: GetMutableTestCase_def)
  then show ?thesis using permutation_length [OF p(1)]
    by (intro nth_equalityI) (simp_all add: order_of_cases_def)
qed

lemma order_of_tests_eq:
  assumes "case_ok c"
  shows "order_of_tests c = map Some (map nat (test_indices c))"
proof -
  have p: "permutation_of (length (test_info_list c)) (test_indices c)" "length (test_info_list c) < 2 ^ 31"
    using assms by (simp_all add: case_ok_def)
  have "GetMutableTestInfo c (int i) = Some (nat (test_indices c ! i))" if "i < length (test_info_list c)" for i
    using permutation_element [OF p that] by (simp add: GetMutableTestInfo_def)
  then show ?thesis using permutation_length [OF p(1)]
    by (intro nth_equalityI) (simp_all add: order_of_tests_def)
qed

text \<open>
  C16. Whatever was registered, filtered, shuffled with any seed and put back, the order of the test
  cases is a permutation of all of them in which no death test case comes behind another test
  case, and within every case the order of the tests is a permutation of all its tests: nothing
  runs twice and nothing is left out.
\<close>

theorem death_tests_first:
  assumes "reachable_tests u"
  shows "(\<exists>ks. order_of_cases u = map Some ks \<and> distinct ks \<and> set ks = {0..<length (test_cases u)} \<and>
      sorted_wrt (\<lambda>k l. is_death_test_case (case_name (test_cases u ! l)) \<longrightarrow>
        is_death_test_case (case_name (test_cases u ! k))) ks) \<and>
    (\<forall>c \<in> set (test_cases u). \<exists>ts. order_of_tests c = map Some ts \<and> distinct ts \<and>
      set ts = {0..<length (test_info_list c)})"
proof -
  have ok: "unit_ok u" using assms by (rule reachable_ok)
  let ?n = "length (test_cases u)" and ?d = "death_count u" and ?v = "test_case_indices u"
  have p: "permutation_of ?n ?v" and d: "permutation_of ?d (take ?d ?v)" "?d \<le> ?n"
    and death: "\<And>i. i < ?n \<Longrightarrow> is_death_test_case (case_name (test_cases u ! i)) \<longleftrightarrow> i < ?d"
    using ok by (auto simp: unit_ok_def death_count_def)
  have len: "length ?v = ?n" using p by (rule permutation_length)
  have first: "nat (?v ! i) < ?d \<longleftrightarrow> i < ?d" if "i < ?n" for i
  proof
    assume "i < ?d"
    then have "?v ! i \<in> set (take ?d ?v)" using that len by (auto simp: in_set_conv_nth)
    then show "nat (?v ! i) < ?d" using permutation_set [OF d(1)] by auto
  next
    assume less: "nat (?v ! i) < ?d"
    have "?v ! i \<in> int ` {0..<?n}" using permutation_set [OF p] that len by (metis nth_mem)
    then have "?v ! i \<in> set (take ?d ?v)" using less permutation_set [OF d(1)] by force
    then obtain j where "j < ?d" "j < ?n" "?v ! j = ?v ! i" using len by (auto simp: in_set_conv_nth)
    then show "i < ?d" using permutation_distinct [OF p] that len by (metis nth_eq_iff_index_eq)
  qed
  have "sorted_wrt (\<lambda>k l. is_death_test_case (case_name (test_cases u ! l)) \<longrightarrow>
      is_death_test_case (case_name (test_cases u ! k))) (map nat ?v)"
  proof (unfold sorted_wrt_iff_nth_less, intro allI impI)
    fix i j assume ij: "i < j" "j < length (map nat ?v)"
      and dj: "is_death_test_case (case_name (test_cases u ! (map nat ?v ! j)))"
    then have b: "nat (?v ! i) < ?n" "nat (?v ! j) < ?n"
      using permutation_nats [OF p] len by (auto simp: set_eq_iff)
    then have "j < ?d" using dj ij len death first by simp
    then show "is_death_test_case (case_name (test_cases u ! (map nat ?v ! i)))"
      using b ij len death first by simp
  qed
  moreover have "\<forall>c \<in> set (test_cases u). \<exists>ts. order_of_tests c = map Some ts \<and> distinct ts \<and>
      set ts = {0..<length (test_info_list c)}"
  proof
    fix c assume "c \<in> set (test_cases u)"
    then have c: "case_ok c" using ok by (simp add: unit_ok_def)
    then have "permutation_of (length (test_info_list c)) (test_indices c)" by (simp add: case_ok_def)
    from permutation_nats [OF this] order_of_tests_eq [OF c]
    show "\<exists>ts. order_of_tests c = map Some ts \<and> distinct ts \<and> set ts = {0..<length (test_info_list c)}" by blast
  qed
  ultimately show ?thesis using order_of_cases_eq [OF ok] permutation_nats [OF p] by blast
qed

definition sample_unit :: "unit_test res" where
  "sample_unit =
     bind_res (AddTestInfo ''/'' 0 0 (TestInfo ''FooTest'' ''Adds'' None None 1 1) new_UnitTestImpl)
       (AddTestInfo ''/'' 0 0 (TestInfo ''BarDeathTest'' ''Dies'' None None 2 2))"

lemma sample_reachable:
  "case sample_unit of Inl _ \<Rightarrow> False
   | Inr u \<Rightarrow> reachable_tests u \<and> map case_name (test_cases u) = [''BarDeathTest'', ''FooTest'']"
proof -
  let ?t = "TestInfo ''FooTest'' ''Adds'' None None 1 1" and ?s = "TestInfo ''BarDeathTest'' ''Dies'' None None 2 2"
  have "case AddTestInfo ''/'' 0 0 ?t new_UnitTestImpl of Inl _ \<Rightarrow> False | Inr u \<Rightarrow>
      unshuffled u \<and> map (\<lambda>c. length (test_info_list c)) (test_cases u) = [1]"
    by code_simp
  then obtain u where u: "AddTestInfo ''/'' 0 0 ?t new_UnitTestImpl = Inr u" "unshuffled u"
    "map (\<lambda>c. length (test_info_list c)) (test_cases u) = [1]" by (auto split: sum.splits)
  have 1: "reachable_tests u"
    by (rule tests_add [OF tests_start _ _ _ u(1)]) (simp_all add: unshuffled_def new_UnitTestImpl_def)
  have "case sample_unit of Inl _ \<Rightarrow> False | Inr u \<Rightarrow> map case_name (test_cases u) = [''BarDeathTest'', ''FooTest'']"
    by code_simp
  then obtain w where w: "sample_unit = Inr w" "map case_name (test_cases w) = [''BarDeathTest'', ''FooTest'']"
    by (auto split: sum.splits)
  have "AddTestInfo ''/'' 0 0 ?s u = Inr w" using w(1) u(1) by (simp add: sample_unit_def)
  then have "reachable_tests w"
    by (rule tests_add [OF 1 u(2), rotated 2]) (use u(3) in auto)
  then show ?thesis unfolding w(1) sum.case w(2) by simp
qed

theorem death_tests_first_witness:
  "case sample_unit of Inl _ \<Rightarrow> False
   | Inr u \<Rightarrow> (\<exists>ks. order_of_cases u = map Some ks \<and> distinct ks \<and> set ks = {0, 1})"
proof -
  obtain u where u: "sample_unit = Inr u" "reachable_tests u" "map case_name (test_cases u) = [''BarDeathTest'', ''FooTest'']"
    using sample_reachable by (auto split: sum.splits)
  have "length (map case_name (test_cases u)) = 2" unfolding u(3) by simp
  then have "{0..<length (test_cases u)} = {0, 1}" by auto
  moreover obtain ks where "order_of_cases u = map Some ks" "distinct ks" "set ks = {0..<length (test_cases u)}"
    using death_tests_first [OF u(2)] by blast
  ultimately show ?thesis unfolding u(1) sum.case by blast
qed

text \<open>
  \<open>GetTestCase\<close> with a position checks the index vector but does not use it: unlike
  \<open>GetMutableTestCase\<close> it gives the cases in the order of registration.
\<close>

lemma GetTestCase_ignores_order:
  assumes "reachable_tests u" and "i < length (test_cases u)"
  shows "unit_GetTestCase u (int i) = Some i"
    and "GetMutableTestCase u (int i) = Some (nat (test_case_indices u ! i))"
proof -
  have p: "permutation_of (length (test_cases u)) (test_case_indices u)" "length (test_cases u) < 2 ^ 31"
    using reachable_ok [OF assms(1)] by (simp_all add: unit_ok_def)
  show "unit_GetTestCase u (int i) = Some i"
    using permutation_element [OF p assms(2)] by (simp add: unit_GetTestCase_def)
  show "GetMutableTestCase u (int i) = Some (nat (test_case_indices u ! i))"
    using permutation_element [OF p assms(2)] by (simp add: GetMutableTestCase_def)
qed

section \<open>The shards divide the tests\<close>

definition named_tests :: "test_case list \<Rightarrow> (string \<times> test_info) list" where
  "named_tests cs = concat (map (\<lambda>c. map (Pair (case_name c)) (test_info_list c)) cs)"

definition runnable :: "gtest_flags \<Rightarrow> string \<times> test_info \<Rightarrow> bool" where
  "runnable fl nt = is_runnable_test fl (fst nt) (info_name (snd nt))"

fun select_tests :: "gtest_flags \<Rightarrow> reaction_to_sharding \<Rightarrow> int \<Rightarrow> int \<Rightarrow> int \<Rightarrow> (string \<times> test_info) list \<Rightarrow> bool list" where
  "select_tests fl sh n k r [] = []"
| "select_tests fl sh n k r (x # xs) =
     (runnable fl x \<and> (sh = IGNORE_SHARDING_PROTOCOL \<or> ShouldRunTestOnShard n k r)) #
     select_tests fl sh n k (r + of_bool (runnable fl x)) xs"

lemma select_tests_append:
  "select_tests fl sh n k r (xs @ ys) =
     select_tests fl sh n k r xs @ select_tests fl sh n k (r + int (length (filter (runnable fl) xs))) ys"
  by (induction xs arbitrary: r) (auto simp: ac_simps)

lemma filter_test_result:
  "filter_test fl sh n k name r t = (t', x, y) \<Longrightarrow>
     x = runnable fl (name, t) \<and> info_should_run t' = y \<and>
     y = (x \<and> (sh = IGNORE_SHARDING_PROTOCOL \<or> ShouldRunTestOnShard n k r))"
  by (auto simp: filter_test_def Let_def runnable_def is_runnable_test_def)

lemma filter_test_loop_select:
  "filter_test_loop fl sh n k name r s b ts = (ts', r', s', b') \<Longrightarrow>
     map info_should_run ts' = select_tests fl sh n k r (map (Pair name) ts) \<and>
     r' = r + int (length (filter (runnable fl) (map (Pair name) ts))) \<and>
     s' = s + CountIf ts' info_should_run \<and> b' = (b \<or> list_ex info_should_run ts')"
proof (induction ts arbitrary: r s b ts' r' s' b')
  case (Cons t ts)
  obtain t1 x y where t: "filter_test fl sh n k name r t = (t1, x, y)"
    by (cases "filter_test fl sh n k name r t")
  obtain ts1 r1 s1 b1 where rest:
    "filter_test_loop fl sh n k name (r + of_bool x) (s + of_bool y) (b \<or> y) ts = (ts1, r1, s1, b1)"
    by (cases "filter_test_loop fl sh n k name (r + of_bool x) (s + of_bool y) (b \<or> y) ts")
  have "ts' = t1 # ts1" "r' = r1" "s' = s1" "b' = b1" using Cons.prems t rest by simp_all
  then show ?case using Cons.IH [OF rest] filter_test_result [OF t] by (cases x; cases y) auto
qed simp

lemma filter_case_loop_select:
  "filter_case_loop fl sh n k r s cs = (cs', s') \<Longrightarrow>
     map (info_should_run \<circ> snd) (named_tests cs') = select_tests fl sh n k r (named_tests cs) \<and>
     s' = s + SumOverTestCaseList cs' (\<lambda>c. CountIf (test_info_list c) info_should_run)"
proof (induction fl sh n k r s cs arbitrary: cs' s' rule: filter_case_loop.induct)
  case (2 fl sh n k r s c cs)
  obtain ts r1 s1 b where loop: "filter_test_loop fl sh n k (case_name c) r s False (test_info_list c) = (ts, r1, s1, b)"
    by (cases "filter_test_loop fl sh n k (case_name c) r s False (test_info_list c)")
  obtain cs1 m where rest: "filter_case_loop fl sh n k r1 s1 cs = (cs1, m)"
    by (cases "filter_case_loop fl sh n k r1 s1 cs")
  from 2(1) [OF loop [symmetric] refl refl rest] 2(2) filter_test_loop_select [OF loop] loop rest
  show ?case by (auto simp: named_tests_def select_tests_append comp_def)
qed (auto simp: named_tests_def)

lemma select_tests_nth:
  "p < length xs \<Longrightarrow> select_tests fl sh n k r xs ! p \<longleftrightarrow>
     runnable fl (xs ! p) \<and>
     (sh = IGNORE_SHARDING_PROTOCOL \<or> ShouldRunTestOnShard n k (r + int (length (filter (runnable fl) (take p xs)))))"
proof (induction xs arbitrary: p r)
  case (Cons x xs)
  then show ?case by (cases p) (auto simp: ac_simps)
qed simp

text \<open>The environment of shard \<open>k\<close> of \<open>n\<close>, and whether the test at a position runs there.\<close>

definition shard_env :: "int \<Rightarrow> int \<Rightarrow> environment" where
  "shard_env n k v =
     (if v = kTestTotalShards then Some (dec_of_int n)
      else if v = kTestShardIndex then Some (dec_of_int k) else None)"

definition runs_on_shard :: "gtest_flags \<Rightarrow> unit_test \<Rightarrow> int \<Rightarrow> int \<Rightarrow> nat \<Rightarrow> bool" where
  "runs_on_shard fl u n k p \<longleftrightarrow>
     (case FilterTests (shard_env n k) fl HONOR_SHARDING_PROTOCOL u of
        Inl _ \<Rightarrow> False
      | Inr (u', _) \<Rightarrow> info_should_run (snd (named_tests (test_cases u') ! p)))"

lemma shard_env_values:
  assumes "0 \<le> k" and "k < n" and "n < 2 ^ 31"
  shows "Int32FromEnvOrDie (shard_env n k) kTestTotalShards d = Inr n"
    and "Int32FromEnvOrDie (shard_env n k) kTestShardIndex d = Inr k"
  using assms ParseInt32_dec [of n] ParseInt32_dec [of k]
  by (simp_all add: Int32FromEnvOrDie_def shard_env_def kTestTotalShards_def kTestShardIndex_def)

lemma shards_accepted:
  "0 \<le> k \<Longrightarrow> k < n \<Longrightarrow> n < 2 ^ 31 \<Longrightarrow>
     ShouldShard (shard_env n k) kTestTotalShards kTestShardIndex False = Inr (1 < n)"
  by (simp add: ShouldShard_def shard_env_values)

lemma runs_on_shard_iff:
  assumes "0 \<le> k" and "k < n" and "n < 2 ^ 31" and "p < length (named_tests (test_cases u))"
  shows "runs_on_shard fl u n k p \<longleftrightarrow> runnable fl (named_tests (test_cases u) ! p) \<and>
    int (length (filter (runnable fl) (take p (named_tests (test_cases u))))) mod n = k"
proof -
  let ?sh = HONOR_SHARDING_PROTOCOL
  obtain cs m where loop: "filter_case_loop fl ?sh n k 0 0 (test_cases u) = (cs, m)"
    by (cases "filter_case_loop fl ?sh n k 0 0 (test_cases u)")
  have sel: "map (info_should_run \<circ> snd) (named_tests cs) = select_tests fl ?sh n k 0 (named_tests (test_cases u))"
    using filter_case_loop_select [OF loop] by simp
  have "length (select_tests fl ?sh n k r xs) = length xs" for r xs by (induction xs arbitrary: r) auto
  then have "length (named_tests cs) = length (named_tests (test_cases u))" using sel by (metis length_map)
  then have "info_should_run (snd (named_tests cs ! p)) =
      select_tests fl ?sh n k 0 (named_tests (test_cases u)) ! p"
    using sel assms(4) by (metis comp_apply nth_map)
  then show ?thesis using assms loop
    by (simp add: runs_on_shard_def FilterTests_def shard_env_values select_tests_nth ShouldRunTestOnShard_mod)
qed

text \<open>
  C17. With any number of shards, every test that the flags let run is run by exactly one of the
  shards, and the other tests by none.
\<close>

theorem shards_partition:
  assumes "0 < n" and "n < 2 ^ 31" and "p < length (named_tests (test_cases u))"
  shows "if runnable fl (named_tests (test_cases u) ! p)
    then \<exists>!k. 0 \<le> k \<and> k < n \<and> runs_on_shard fl u n k p
    else \<not> (\<exists>k. 0 \<le> k \<and> k < n \<and> runs_on_shard fl u n k p)"
proof (cases "runnable fl (named_tests (test_cases u) ! p)")
  case True
  let ?k = "int (length (filter (runnable fl) (take p (named_tests (test_cases u))))) mod n"
  have "0 \<le> ?k \<and> ?k < n" using assms(1) by simp
  with True have "0 \<le> ?k \<and> ?k < n \<and> runs_on_shard fl u n ?k p"
    using runs_on_shard_iff [OF _ _ assms(2,3)] by simp
  moreover have "k = ?k" if "0 \<le> k \<and> k < n \<and> runs_on_shard fl u n k p" for k
    using runs_on_shard_iff [OF _ _ assms(2,3)] that by auto
  ultimately show ?thesis using True by (metis (no_types, lifting))
next
  case False
  then show ?thesis using runs_on_shard_iff [OF _ _ assms(2,3)] by auto
qed

theorem shards_partition_witness:
  "\<exists>!k. 0 \<le> k \<and> k < 3 \<and>
     runs_on_shard (default_flags (\<lambda>_. None))
       (new_UnitTestImpl\<lparr>test_cases := [case_AddTestInfo (TestInfo ''FooTest'' ''Adds'' None None 1 1)
          (TestCase ''FooTest'' None 0 0)]\<rparr>) 3 k 0"
proof -
  let ?u = "new_UnitTestImpl\<lparr>test_cases := [case_AddTestInfo (TestInfo ''FooTest'' ''Adds'' None None 1 1)
          (TestCase ''FooTest'' None 0 0)]\<rparr>"
  have "runnable (default_flags (\<lambda>_. None)) (named_tests (test_cases ?u) ! 0)" by code_simp
  moreover have "0 < length (named_tests (test_cases ?u))" by code_simp
  ultimately show ?thesis using shards_partition [of 3 0 ?u "default_flags (\<lambda>_. None)"] by simp
qed

end
