(* ===== verification/Gtest_Exit.thy ===== *)
theory Gtest_Exit
  imports Gtest_Run Gtest_Order
begin

text \<open>
  No failure is lost: while the tests run, every failed assertion is kept in a result that \<open>Passed\<close>
  looks at, so that the program exits with 0 only when no assertion failed.
\<close>

section \<open>What the run keeps of the registered tests\<close>

definition info_frame :: "test_info \<Rightarrow> test_info \<Rightarrow> bool" where
  "info_frame t t' \<longleftrightarrow> t' = t\<lparr>info_result := info_result t'\<rparr>"

definition case_frame :: "test_case \<Rightarrow> test_case \<Rightarrow> bool" where
  "case_frame c c' \<longleftrightarrow>
     case_name c' = case_name c \<and> case_should_run c' = case_should_run c \<and>
     test_indices c' = test_indices c \<and> list_all2 info_frame (test_info_list c) (test_info_list c')"

definition unit_frame :: "unit_test \<Rightarrow> unit_test \<Rightarrow> bool" where
  "unit_frame u u' \<longleftrightarrow>
     list_all2 case_frame (test_cases u) (test_cases u') \<and>
     test_case_indices u' = test_case_indices u \<and> last_death_test_case u' = last_death_test_case u"

lemma info_frame_refl [simp]: "info_frame t t"
  by (simp add: info_frame_def)

lemma info_frame_should_run: "info_frame t t' \<Longrightarrow> info_should_run t' = info_should_run t"
  unfolding info_frame_def by (metis test_info.select_convs(6) test_info.surjective test_info.update_convs(10))

lemma info_frame_case_name: "info_frame t t' \<Longrightarrow> info_test_case_name t' = info_test_case_name t"
  unfolding info_frame_def by (metis test_info.select_convs(1) test_info.surjective test_info.update_convs(10))

lemma info_frame_trans: "info_frame t t' \<Longrightarrow> info_frame t' t'' \<Longrightarrow> info_frame t t''"
  by (cases t; cases t'; cases t'') (simp add: info_frame_def)

lemma case_frame_refl [simp]: "case_frame c c"
  by (simp add: case_frame_def list_all2_refl)

lemma case_frame_trans: "case_frame c c' \<Longrightarrow> case_frame c' c'' \<Longrightarrow> case_frame c c''"
  unfolding case_frame_def using list_all2_trans [of info_frame info_frame info_frame] info_frame_trans by metis

lemma unit_frame_refl [simp]: "unit_frame u u"
  by (simp add: unit_frame_def list_all2_refl)

lemma unit_frame_trans: "unit_frame u u' \<Longrightarrow> unit_frame u' u'' \<Longrightarrow> unit_frame u u''"
  unfolding unit_frame_def using list_all2_trans [of case_frame case_frame case_frame] case_frame_trans by metis

lemma case_frame_like: "case_frame c c' \<Longrightarrow> case_like c c'"
proof -
  assume c: "case_frame c c'"
  then have "map info_test_case_name (test_info_list c') = map info_test_case_name (test_info_list c)"
    by (intro nth_equalityI) (auto simp: case_frame_def list_all2_conv_all_nth info_frame_case_name)
  with c show ?thesis by (simp add: case_frame_def case_like_def)
qed

lemma unit_frame_ok: "unit_frame u u' \<Longrightarrow> unit_ok u \<Longrightarrow> unit_ok u'"
  by (rule unit_like_ok [of u]) (auto simp: unit_frame_def case_frame_like elim: list_all2_mono)

section \<open>Failures are counted\<close>

definition failing_test :: "unit_test \<Rightarrow> nat \<times> nat \<Rightarrow> bool" where
  "failing_test u kt \<longleftrightarrow>
     fst kt < length (test_cases u) \<and> snd kt < length (test_info_list (test_cases u ! fst kt)) \<and>
     case_should_run (test_cases u ! fst kt) \<and> info_should_run (the_info u kt) \<and>
     result_Failed (info_result (the_info u kt))"

lemma unit_Failed_iff: "unit_Failed u \<longleftrightarrow> (\<exists>kt. failing_test u kt) \<or> result_Failed (ad_hoc_test_result u)"
proof -
  have "failed_test_case_count u > 0 \<longleftrightarrow> (\<exists>c \<in> set (test_cases u). case_should_run c \<and>
      (\<exists>t \<in> set (test_info_list c). info_should_run t \<and> result_Failed (info_result t)))"
    by (simp add: failed_test_case_count_def CountIf_pos TestCaseFailed_def case_Failed_def
        case_failed_test_count_def TestFailed_def)
  also have "\<dots> \<longleftrightarrow> (\<exists>kt. failing_test u kt)"
    by (auto simp: failing_test_def the_info_def in_set_conv_nth Bex_def)
  finally show ?thesis by (simp add: unit_Failed_def)
qed

definition valid_test :: "unit_test \<Rightarrow> nat \<times> nat \<Rightarrow> bool" where
  "valid_test u kt \<longleftrightarrow>
     fst kt < length (test_cases u) \<and> snd kt < length (test_info_list (test_cases u ! fst kt)) \<and>
     case_should_run (test_cases u ! fst kt) \<and> info_should_run (the_info u kt)"

definition current_ok :: "unit_test \<Rightarrow> bool" where
  "current_ok u \<longleftrightarrow> (case current_test_info u of Some kt \<Rightarrow> valid_test u kt | None \<Rightarrow> True)"

lemma valid_test_frame:
  assumes "unit_frame u u'" and "valid_test u kt"
  shows "valid_test u' kt"
proof -
  obtain k t where kt: "kt = (k, t)" by (cases kt)
  have c: "case_frame (test_cases u ! k) (test_cases u' ! k)" "k < length (test_cases u')"
    using assms kt by (auto simp: unit_frame_def valid_test_def list_all2_conv_all_nth)
  then have "info_frame (test_info_list (test_cases u ! k) ! t) (test_info_list (test_cases u' ! k) ! t)"
    "t < length (test_info_list (test_cases u' ! k))"
    using assms(2) kt by (auto simp: case_frame_def valid_test_def list_all2_conv_all_nth)
  with c assms(2) kt info_frame_should_run show ?thesis
    by (auto simp: valid_test_def the_info_def case_frame_def)
qed

definition event_failed :: "event \<Rightarrow> bool" where
  "event_failed e = (case e of OnTestPartResult r \<Rightarrow> part_failed r | _ \<Rightarrow> False)"

text \<open>A step from \<open>s\<close> to \<open>s'\<close> that loses no failure.\<close>

definition no_loss :: "run_state \<Rightarrow> run_state \<Rightarrow> bool" where
  "no_loss s s' \<longleftrightarrow>
     unit_frame (run_unit s) (run_unit s') \<and>
     current_test_info (run_unit s') = current_test_info (run_unit s) \<and>
     (\<exists>es. run_events s' = run_events s @ es \<and>
       (current_ok (run_unit s) \<longrightarrow> unit_Failed (run_unit s) \<or> list_ex event_failed es \<longrightarrow> unit_Failed (run_unit s')))"

lemma no_loss_refl [simp]: "no_loss s s"
  by (auto simp: no_loss_def)

lemma current_ok_frame:
  "unit_frame u u' \<Longrightarrow> current_test_info u' = current_test_info u \<Longrightarrow> current_ok u \<Longrightarrow> current_ok u'"
  by (auto simp: current_ok_def valid_test_frame split: option.splits)

lemma no_loss_trans [trans]:
  assumes "no_loss s s'" and "no_loss s' s''"
  shows "no_loss s s''"
proof -
  obtain es where 1: "run_events s' = run_events s @ es"
    "current_ok (run_unit s) \<Longrightarrow> unit_Failed (run_unit s) \<or> list_ex event_failed es \<Longrightarrow> unit_Failed (run_unit s')"
    using assms(1) by (auto simp: no_loss_def)
  obtain es' where 2: "run_events s'' = run_events s' @ es'"
    "current_ok (run_unit s') \<Longrightarrow> unit_Failed (run_unit s') \<or> list_ex event_failed es' \<Longrightarrow> unit_Failed (run_unit s'')"
    using assms(2) by (auto simp: no_loss_def)
  have "current_ok (run_unit s) \<Longrightarrow> current_ok (run_unit s')"
    using assms(1) current_ok_frame by (auto simp: no_loss_def)
  then have "current_ok (run_unit s) \<longrightarrow> unit_Failed (run_unit s) \<or> list_ex event_failed (es @ es') \<longrightarrow>
      unit_Failed (run_unit s'')"
    using 1(2) 2(2) by auto
  moreover have "run_events s'' = run_events s @ es @ es'" using 1(1) 2(1) by simp
  ultimately show ?thesis using assms unit_frame_trans unfolding no_loss_def by metis
qed

lemma no_loss_same:
  "run_unit s' = run_unit s \<Longrightarrow> run_events s' = run_events s @ es \<Longrightarrow> \<not> list_ex event_failed es \<Longrightarrow> no_loss s s'"
  by (auto simp: no_loss_def)

lemma no_loss_notify [simp]: "\<not> event_failed e \<Longrightarrow> no_loss s (notify e s)"
  by (rule no_loss_same [of _ _ "[e]"]) (simp_all add: notify_def)

lemma no_loss_time: "GetTimeInMillis w s = (n, s') \<Longrightarrow> no_loss s s'"
  by (auto simp: GetTimeInMillis_def intro: no_loss_same [of _ _ "[]"])

text \<open>Changes of one result that keep a failed result failed.\<close>

lemma unit_frame_update_info:
  assumes "\<And>t. info_frame t (f t)"
  shows "unit_frame u (update_info kt f u)"
proof -
  have "case_frame (test_cases u ! fst kt)
      ((test_cases u ! fst kt)\<lparr>test_info_list := (test_info_list (test_cases u ! fst kt))[snd kt :=
        f (test_info_list (test_cases u ! fst kt) ! snd kt)]\<rparr>)"
  proof (cases "snd kt < length (test_info_list (test_cases u ! fst kt))")
    case True
    then show ?thesis using assms by (auto simp: case_frame_def list_all2_conv_all_nth nth_list_update)
  qed (simp add: case_frame_def list_all2_refl list_update_beyond)
  then show ?thesis
    by (cases "fst kt < length (test_cases u)")
      (auto simp: unit_frame_def update_info_def update_case_def list_all2_conv_all_nth nth_list_update)
qed

lemma the_info_update:
  assumes "valid_test u kt"
  shows "the_info (update_info kt f u) kt = f (the_info u kt)"
    and "kt' \<noteq> kt \<Longrightarrow> the_info (update_info kt f u) kt' = the_info u kt'"
  using assms by (cases kt; cases kt'; auto simp: valid_test_def the_info_def update_info_def update_case_def nth_list_update)+

lemma failing_test_valid: "failing_test u kt \<longleftrightarrow> valid_test u kt \<and> result_Failed (info_result (the_info u kt))"
  by (auto simp: failing_test_def valid_test_def)

lemma failed_update_info:
  assumes "valid_test u kt" and "\<And>t. info_frame t (f t)"
    and "\<And>t. result_Failed (info_result t) \<Longrightarrow> result_Failed (info_result (f t))"
  shows "unit_Failed u \<Longrightarrow> unit_Failed (update_info kt f u)"
    and "(\<And>t. result_Failed (info_result (f t))) \<Longrightarrow> unit_Failed (update_info kt f u)"
proof -
  note frame = unit_frame_update_info [OF assms(2), of u kt]
  have adhoc: "ad_hoc_test_result (update_info kt f u) = ad_hoc_test_result u"
    by (simp add: update_info_def update_case_def)
  show "unit_Failed (update_info kt f u)" if "unit_Failed u"
  proof -
    have "failing_test (update_info kt f u) kt'" if "failing_test u kt'" for kt'
      using that valid_test_frame [OF frame] the_info_update [OF assms(1), where f = f] assms(3)
      by (cases "kt' = kt") (auto simp: failing_test_valid)
    with that show ?thesis unfolding unit_Failed_iff adhoc by blast
  qed
  show "unit_Failed (update_info kt f u)" if "\<And>t. result_Failed (info_result (f t))"
  proof -
    have "failing_test (update_info kt f u) kt"
      using that valid_test_frame [OF frame assms(1)] the_info_update(1) [OF assms(1), where f = f]
      by (simp add: failing_test_valid)
    then show ?thesis unfolding unit_Failed_iff by blast
  qed
qed

section \<open>Every step of a run\<close>

lemma no_loss_report: "no_loss s (ReportTestPartResult r s)"
proof (cases "current_test_info (run_unit s)")
  case None
  then show ?thesis
    by (auto simp: no_loss_def ReportTestPartResult_def notify_def update_current_result_def unit_Failed_iff
        result_Failed_def result_AddTestPartResult_def any_failed_iff event_failed_def unit_frame_def
        list_all2_refl failing_test_def the_info_def)
next
  case (Some kt)
  let ?f = "\<lambda>t. t\<lparr>info_result := result_AddTestPartResult r (info_result t)\<rparr>"
  have frame: "\<And>t. info_frame t (?f t)" by (simp add: info_frame_def)
  have mono: "result_Failed (info_result t) \<Longrightarrow> result_Failed (info_result (?f t))"
    "part_failed r \<Longrightarrow> result_Failed (info_result (?f t))" for t
    by (auto simp: result_Failed_def result_AddTestPartResult_def any_failed_iff)
  have cur: "current_test_info (update_info kt ?f u) = current_test_info u" for u
    by (simp add: update_info_def update_case_def)
  have "current_ok (run_unit s) \<longrightarrow> unit_Failed (run_unit s) \<or> part_failed r \<longrightarrow>
      unit_Failed (update_info kt ?f (run_unit s))"
    using failed_update_info [of "run_unit s" kt ?f, OF _ frame mono(1)] mono(2) Some
    by (auto simp: current_ok_def)
  then show ?thesis using unit_frame_update_info [of ?f "run_unit s" kt, OF frame] Some cur
    by (auto simp: no_loss_def ReportTestPartResult_def notify_def update_current_result_def event_failed_def)
qed

lemma no_loss_AddTestPartResult: "AddTestPartResult w ty f l m tr s = Inr s' \<Longrightarrow> no_loss s s'"
  by (auto simp: AddTestPartResult_def Let_def no_loss_report split: if_splits)

lemma no_loss_ADD_FAILURE: "ADD_FAILURE w l m s = Inr s' \<Longrightarrow> no_loss s s'"
  by (auto simp: ADD_FAILURE_def dest: no_loss_AddTestPartResult)

lemma no_loss_put_result:
  assumes "result_RecordProperty e p (info_result (the_info u kt)) = Inr (r, f)" and "current_test_info u = Some kt"
    and "run_unit s = u"
  shows "no_loss s (s\<lparr>run_unit := update_info kt (\<lambda>t. t\<lparr>info_result := r\<rparr>) u\<rparr>)"
proof -
  let ?f = "\<lambda>t. t\<lparr>info_result := r\<rparr>"
  have parts: "test_part_results r = test_part_results (info_result (the_info u kt))"
    using assms(1) by (auto simp: result_RecordProperty_def bind_res_eq_Inr split: if_splits)
  have frame: "\<And>t. info_frame t (?f t)" by (simp add: info_frame_def)
  note uf = unit_frame_update_info [of ?f u kt, OF frame]
  have "unit_Failed (update_info kt ?f u)" if "current_ok u" "unit_Failed u"
  proof -
    have v: "valid_test u kt" using that(1) assms(2) by (simp add: current_ok_def)
    have "failing_test (update_info kt ?f u) kt'" if "failing_test u kt'" for kt'
      using that valid_test_frame [OF uf] the_info_update [OF v, where f = ?f] parts
      by (cases "kt' = kt") (auto simp: failing_test_valid result_Failed_def)
    moreover have "ad_hoc_test_result (update_info kt ?f u) = ad_hoc_test_result u"
      by (simp add: update_info_def update_case_def)
    ultimately show ?thesis using that(2) unfolding unit_Failed_iff by metis
  qed
  moreover have "current_test_info (update_info kt ?f u) = current_test_info u"
    by (simp add: update_info_def update_case_def)
  ultimately show ?thesis using uf assms(3) by (auto simp: no_loss_def)
qed

lemma unit_frame_update_case:
  assumes "case_frame (test_cases u ! k) (f (test_cases u ! k))"
  shows "unit_frame u (update_case k f u)"
  using assms by (cases "k < length (test_cases u)")
    (auto simp: unit_frame_def update_case_def list_all2_conv_all_nth nth_list_update)

lemma no_loss_update_case:
  assumes "\<And>c. test_info_list (f c) = test_info_list c" and "\<And>c. case_should_run (f c) = case_should_run c"
    and "\<And>c. case_name (f c) = case_name c" and "\<And>c. test_indices (f c) = test_indices c"
  shows "no_loss s (s\<lparr>run_unit := update_case k f (run_unit s)\<rparr>)"
proof -
  let ?u = "run_unit s"
  have uf: "unit_frame ?u (update_case k f ?u)"
    by (rule unit_frame_update_case) (simp add: case_frame_def assms list_all2_refl)
  have info: "the_info (update_case k f ?u) kt = the_info ?u kt" for kt
    by (cases "k < length (test_cases ?u)") (auto simp: the_info_def update_case_def nth_list_update assms list_update_beyond)
  have "failing_test (update_case k f ?u) kt" if "failing_test ?u kt" for kt
    using that valid_test_frame [OF uf] by (auto simp: failing_test_valid info)
  moreover have "ad_hoc_test_result (update_case k f ?u) = ad_hoc_test_result ?u"
    "current_test_info (update_case k f ?u) = current_test_info ?u"
    by (simp_all add: update_case_def)
  ultimately have "unit_Failed ?u \<longrightarrow> unit_Failed (update_case k f ?u)" unfolding unit_Failed_iff by metis
  with uf \<open>current_test_info (update_case k f ?u) = current_test_info ?u\<close> show ?thesis
    by (auto simp: no_loss_def)
qed

lemma no_loss_RecordProperty:
  assumes "unit_RecordProperty w key v s = Inr s'"
  shows "no_loss s s'"
proof -
  let ?u = "run_unit s"
  have finish: "no_loss s s'" if "no_loss s s1" and "(case failure of None \<Rightarrow> Inr s1 | Some text \<Rightarrow> ADD_FAILURE w 1822 text s1) = Inr s'"
    for s1 failure
    using that no_loss_trans [OF that(1)] no_loss_ADD_FAILURE by (auto split: option.splits)
  show ?thesis
  proof (cases "current_test_info ?u")
    case (Some kt)
    obtain r failure where rec: "result_RecordProperty ''testcase'' (TestProperty key v) (info_result (the_info ?u kt)) = Inr (r, failure)"
      using assms Some by (auto simp: unit_RecordProperty_def Let_def bind_res_eq_Inr)
    show ?thesis using assms Some rec
      by (intro finish [OF no_loss_put_result [OF rec Some refl], of failure]) (simp add: unit_RecordProperty_def Let_def)
  next
    case None
    show ?thesis
    proof (cases "current_test_case ?u")
      case (Some k)
      obtain r failure where rec: "result_RecordProperty ''testsuite'' (TestProperty key v) (case_ad_hoc_test_result (test_cases ?u ! k)) = Inr (r, failure)"
        using assms None Some by (auto simp: unit_RecordProperty_def Let_def bind_res_eq_Inr)
      have "no_loss s (s\<lparr>run_unit := update_case k (\<lambda>c. c\<lparr>case_ad_hoc_test_result := r\<rparr>) ?u\<rparr>)"
        by (rule no_loss_update_case) simp_all
      then show ?thesis using assms None Some rec
        by (intro finish [of _ failure]) (simp_all add: unit_RecordProperty_def Let_def)
    next
      case 2: None
      obtain r failure where rec: "result_RecordProperty ''testsuites'' (TestProperty key v) (ad_hoc_test_result ?u) = Inr (r, failure)"
        using assms None 2 by (auto simp: unit_RecordProperty_def Let_def bind_res_eq_Inr)
      then have "test_part_results r = test_part_results (ad_hoc_test_result ?u)"
        by (auto simp: result_RecordProperty_def bind_res_eq_Inr split: if_splits)
      then have "no_loss s (s\<lparr>run_unit := ?u\<lparr>ad_hoc_test_result := r\<rparr>\<rparr>)"
        by (auto simp: no_loss_def unit_Failed_iff result_Failed_def unit_frame_def list_all2_refl
            failing_test_def the_info_def)
      then show ?thesis using assms None 2 rec
        by (intro finish [of _ failure]) (simp_all add: unit_RecordProperty_def Let_def)
    qed
  qed
qed

lemma no_loss_do_actions: "do_actions w as s = Inr s' \<Longrightarrow> no_loss s s'"
proof (induction w as s rule: do_actions.induct)
  case (2 w ty f l m as s)
  then show ?case using no_loss_trans no_loss_AddTestPartResult by (fastforce simp: bind_res_eq_Inr)
next
  case (3 w key v as s)
  then show ?case using no_loss_trans no_loss_RecordProperty by (fastforce simp: bind_res_eq_Inr)
qed simp

lemma no_loss_call:
  assumes "HandleExceptionsInMethodIfSupported w i call loc s = Inr (s', b)"
  shows "no_loss s s'"
proof -
  obtain acts thrown where user: "world_user w i call = (acts, thrown)" by (cases "world_user w i call")
  obtain s1 where s1: "do_actions w acts (notify (User_Call call) s) = Inr s1"
    using assms user by (auto simp: HandleExceptionsInMethodIfSupported_def bind_res_eq_Inr)
  have "no_loss s (notify (User_Call call) s)" by (simp add: event_failed_def)
  also have "no_loss (notify (User_Call call) s) s1" using s1 by (rule no_loss_do_actions)
  also have "no_loss s1 s'"
    using assms user s1 no_loss_AddTestPartResult
    by (auto simp: HandleExceptionsInMethodIfSupported_def bind_res_eq_Inr ReportFailureInUnknownLocation_def
        split: option.splits if_splits)
  finally show ?thesis .
qed

lemma no_loss_HasSameFixtureClass: "HasSameFixtureClass w kt s = Inr (s', b) \<Longrightarrow> no_loss s s'"
  by (auto simp: HasSameFixtureClass_def Let_def bind_res_eq_Inr dest: no_loss_ADD_FAILURE split: if_splits prod.splits)

lemma no_loss_Test_Run:
  assumes "Test_Run w i kt s = Inr s'"
  shows "no_loss s s'"
proof -
  obtain s1 same where 1: "HasSameFixtureClass w kt s = Inr (s1, same)"
    using assms by (auto simp: Test_Run_def bind_res_eq_Inr)
  have n1: "no_loss s s1" using 1 by (rule no_loss_HasSameFixtureClass)
  show ?thesis
  proof (cases same)
    case False
    then show ?thesis using assms 1 n1 by (simp add: Test_Run_def)
  next
    case True
    let ?f = "info_factory (the_info (run_unit s1) kt)"
    obtain s2 b2 where 2: "HandleExceptionsInMethodIfSupported w i (Set_Up ?f) ''SetUp()'' s1 = Inr (s2, b2)"
      using assms 1 True by (auto simp: Test_Run_def Let_def bind_res_eq_Inr)
    obtain s3 b3 where 3: "(if \<not> HasFatalFailure s2 then
        HandleExceptionsInMethodIfSupported w i (Test_Body ?f) ''the test body'' s2 else Inr (s2, False)) = Inr (s3, b3)"
      using assms 1 True 2 by (auto simp: Test_Run_def Let_def bind_res_eq_Inr split: if_splits)
    obtain b4 where 4: "HandleExceptionsInMethodIfSupported w i (Tear_Down ?f) ''TearDown()'' s3 = Inr (s', b4)"
      using assms 1 True 2 3 by (auto simp: Test_Run_def Let_def bind_res_eq_Inr)
    note n1
    also have "no_loss s1 s2" using 2 by (rule no_loss_call)
    also have "no_loss s2 s3" using 3 no_loss_call by (auto split: if_splits)
    also have "no_loss s3 s'" using 4 by (rule no_loss_call)
    finally show ?thesis .
  qed
qed

lemma no_loss_during_test:
  assumes "no_loss (set_current_test_info (Some kt) s) s'" and "valid_test (run_unit s) kt"
    and "current_test_info (run_unit s) = None"
  shows "no_loss s (set_current_test_info None s')"
proof -
  let ?u = "(run_unit s)\<lparr>current_test_info := Some kt\<rparr>"
  have failed: "unit_Failed (u\<lparr>current_test_info := x\<rparr>) = unit_Failed u" for u x
    by (simp add: unit_Failed_iff failing_test_def the_info_def)
  have "current_ok ?u" using assms(2) by (simp add: current_ok_def valid_test_def the_info_def)
  then show ?thesis using assms(1,3)
    by (auto simp: no_loss_def set_current_test_info_def unit_frame_def failed)
qed

lemma no_loss_set_case: "no_loss s (set_current_test_case k s)"
  by (auto simp: no_loss_def set_current_test_case_def unit_frame_def list_all2_refl unit_Failed_iff failing_test_def
      the_info_def)

lemma no_loss_TestInfo_Run:
  assumes "TestInfo_Run w i kt s = Inr s'" and "current_test_info (run_unit s) = None"
    and "info_should_run (the_info (run_unit s) kt) \<Longrightarrow> valid_test (run_unit s) kt"
  shows "no_loss s s'"
proof (cases "info_should_run (the_info (run_unit s) kt)")
  case False
  then show ?thesis using assms(1) by (simp add: TestInfo_Run_def)
next
  case True
  let ?s0 = "set_current_test_info (Some kt) s" and ?s1 = "notify (OnTestStart (fst kt) (snd kt)) (set_current_test_info (Some kt) s)"
  obtain start s2 s3 made s4 s5 b5 now s6 where t2: "GetTimeInMillis w ?s1 = (start, s2)"
    and 3: "HandleExceptionsInMethodIfSupported w i (Create_Test (info_factory (the_info (run_unit s2) kt)))
      (''the test fixture'' @ [CHR 0x27] @ ''s constructor'') s2 = Inr (s3, made)"
    and 4: "(if made \<and> \<not> HasFatalFailure s3 then Test_Run w i kt s3 else Inr s3) = Inr s4"
    and 5: "(if made then HandleExceptionsInMethodIfSupported w i (Delete_Test (info_factory (the_info (run_unit s2) kt)))
      (''the test fixture'' @ [CHR 0x27] @ ''s destructor'') s4 else Inr (s4, True)) = Inr (s5, b5)"
    and t6: "GetTimeInMillis w s5 = (now, s6)"
    and s': "s' = set_current_test_info None (notify (OnTestEnd (fst kt) (snd kt)) (s6\<lparr>run_unit := update_info kt
      (\<lambda>t. t\<lparr>info_result := (info_result t)\<lparr>result_elapsed_time := now - start\<rparr>\<rparr>) (run_unit s6)\<rparr>))"
    using TestInfo_Run_elim [OF assms(1) True] by blast
  let ?g = "\<lambda>t. t\<lparr>info_result := (info_result t)\<lparr>result_elapsed_time := now - start\<rparr>\<rparr>"
  let ?s7 = "s6\<lparr>run_unit := update_info kt ?g (run_unit s6)\<rparr>"
  have v: "valid_test (run_unit s) kt" using assms(3) True .
  have "no_loss ?s0 ?s1" by (simp add: event_failed_def)
  also have "no_loss ?s1 s2" using t2 by (rule no_loss_time)
  also have "no_loss s2 s3" using 3 by (rule no_loss_call)
  also have "no_loss s3 s4" using 4 no_loss_Test_Run by (auto split: if_splits)
  also have "no_loss s4 s5" using 5 no_loss_call by (auto split: if_splits)
  also have "no_loss s5 s6" using t6 by (rule no_loss_time)
  finally have n6: "no_loss ?s0 s6" .
  have frame: "\<And>t. info_frame t (?g t)" by (simp add: info_frame_def)
  have "valid_test (run_unit s6) kt"
    using v n6 valid_test_frame [of "run_unit ?s0" "run_unit s6" kt]
    by (simp add: no_loss_def set_current_test_info_def valid_test_def the_info_def)
  then have "unit_Failed (run_unit s6) \<Longrightarrow> unit_Failed (update_info kt ?g (run_unit s6))"
    by (rule failed_update_info(1) [OF _ frame]) (simp add: result_Failed_def)
  then have "no_loss s6 ?s7"
    using unit_frame_update_info [of ?g "run_unit s6" kt, OF frame]
    by (auto simp: no_loss_def update_info_def update_case_def)
  also have "no_loss ?s7 (notify (OnTestEnd (fst kt) (snd kt)) ?s7)" by (simp add: event_failed_def)
  finally have "no_loss ?s0 (notify (OnTestEnd (fst kt) (snd kt)) ?s7)" using n6 no_loss_trans by blast
  then show ?thesis unfolding s' using v assms(2) by (rule no_loss_during_test)
qed

text \<open>Between the tests no test is current and the registered tests are in order.\<close>

definition between_tests :: "run_state \<Rightarrow> bool" where
  "between_tests s \<longleftrightarrow> unit_ok (run_unit s) \<and> current_test_info (run_unit s) = None"

lemma between_no_loss: "no_loss s s' \<Longrightarrow> between_tests s \<Longrightarrow> between_tests s'"
  by (auto simp: between_tests_def no_loss_def unit_frame_ok)

lemma GetMutableTestInfo_less:
  assumes "case_ok c" and "GetMutableTestInfo c j = Some t"
  shows "t < length (test_info_list c)"
proof -
  have p: "permutation_of (length (test_info_list c)) (test_indices c)" "length (test_info_list c) < 2 ^ 31"
    using assms(1) by (simp_all add: case_ok_def)
  then have len: "length (test_indices c) = length (test_info_list c)" using permutation_length by blast
  have "\<not> (j < 0 \<or> j \<ge> vector_size (test_indices c))"
    using assms(2) by (auto simp: GetMutableTestInfo_def GetElementOr_def Let_def split: if_splits)
  then have "GetElementOr (test_indices c) j (- 1) = test_indices c ! nat j" "nat j < length (test_info_list c)"
    using len p(2) by (auto simp: GetElementOr_def vector_size_eq)
  then show ?thesis using assms(2) permutation_element [OF p, of "nat j"]
    by (auto simp: GetMutableTestInfo_def Let_def split: if_splits)
qed

lemma GetMutableTestCase_less:
  assumes "unit_ok u" and "GetMutableTestCase u j = Some k"
  shows "k < length (test_cases u)"
proof -
  have p: "permutation_of (length (test_cases u)) (test_case_indices u)" "length (test_cases u) < 2 ^ 31"
    using assms(1) by (simp_all add: unit_ok_def)
  then have len: "length (test_case_indices u) = length (test_cases u)" using permutation_length by blast
  have "\<not> (j < 0 \<or> j \<ge> vector_size (test_case_indices u))"
    using assms(2) by (auto simp: GetMutableTestCase_def GetElementOr_def Let_def split: if_splits)
  then have "GetElementOr (test_case_indices u) j (- 1) = test_case_indices u ! nat j" "nat j < length (test_cases u)"
    using len p(2) by (auto simp: GetElementOr_def vector_size_eq)
  then show ?thesis using assms(2) permutation_element [OF p, of "nat j"]
    by (auto simp: GetMutableTestCase_def Let_def split: if_splits)
qed

lemma frame_case: "unit_frame u u' \<Longrightarrow> k < length (test_cases u) \<Longrightarrow>
    k < length (test_cases u') \<and> case_should_run (test_cases u' ! k) = case_should_run (test_cases u ! k)"
  by (auto simp: unit_frame_def list_all2_conv_all_nth case_frame_def)

lemma no_loss_run_tests:
  assumes "run_tests w i k js s = Inr s'" and "between_tests s"
    and "k < length (test_cases (run_unit s))" and "case_should_run (test_cases (run_unit s) ! k)"
  shows "no_loss s s'"
  using assms
proof (induction js arbitrary: s)
  case (Cons j js)
  let ?c = "test_cases (run_unit s) ! k"
  obtain t where t: "GetMutableTestInfo ?c j = Some t" using Cons.prems(1) by (auto split: option.splits)
  obtain s1 where s1: "TestInfo_Run w i (k, t) s = Inr s1" "run_tests w i k js s1 = Inr s'"
    using Cons.prems(1) t by (auto simp: bind_res_eq_Inr)
  have "case_ok ?c" using Cons.prems(2,3) by (auto simp: between_tests_def unit_ok_def)
  then have "t < length (test_info_list ?c)" using t by (rule GetMutableTestInfo_less)
  then have n: "no_loss s s1"
    using no_loss_TestInfo_Run [OF s1(1)] Cons.prems by (auto simp: between_tests_def valid_test_def)
  moreover have "no_loss s1 s'"
  proof (rule Cons.IH [OF s1(2)])
    show "between_tests s1" using n Cons.prems(2) by (rule between_no_loss)
    show "k < length (test_cases (run_unit s1))" "case_should_run (test_cases (run_unit s1) ! k)"
      using n frame_case [of "run_unit s" "run_unit s1" k] Cons.prems(3,4) by (simp_all add: no_loss_def)
  qed
  ultimately show ?case by (rule no_loss_trans)
qed simp

lemma no_loss_TestCase_Run:
  assumes "TestCase_Run w i k s = Inr s'" and "between_tests s" and "k < length (test_cases (run_unit s))"
  shows "no_loss s s'"
proof (cases "case_should_run (test_cases (run_unit s) ! k)")
  case False
  then show ?thesis using assms(1) by (simp add: TestCase_Run_def)
next
  case True
  let ?c = "test_cases (run_unit s) ! k"
  let ?s1 = "notify (OnTestCaseStart k) (set_current_test_case (Some k) s)"
  obtain s2 b2 start s3 s4 now s5 s7 b7 where
    2: "HandleExceptionsInMethodIfSupported w i (Set_Up_Test_Case (set_up_tc ?c)) ''SetUpTestCase()'' ?s1 = Inr (s2, b2)"
    and t3: "GetTimeInMillis w s2 = (start, s3)"
    and 4: "run_tests w i k (map int [0..<nat (case_total_test_count ?c)]) s3 = Inr s4"
    and t5: "GetTimeInMillis w s4 = (now, s5)"
    and 7: "HandleExceptionsInMethodIfSupported w i (Tear_Down_Test_Case (tear_down_tc ?c)) ''TearDownTestCase()''
      (s5\<lparr>run_unit := update_case k (\<lambda>c. c\<lparr>case_elapsed_time := now - start\<rparr>) (run_unit s5)\<rparr>) = Inr (s7, b7)"
    and s': "s' = set_current_test_case None (notify (OnTestCaseEnd k) s7)"
    using TestCase_Run_elim [OF assms(1) True] by blast
  let ?s6 = "s5\<lparr>run_unit := update_case k (\<lambda>c. c\<lparr>case_elapsed_time := now - start\<rparr>) (run_unit s5)\<rparr>"
  have "no_loss s (set_current_test_case (Some k) s)" by (rule no_loss_set_case)
  also have "no_loss \<dots> ?s1" by (simp add: event_failed_def)
  also have "no_loss ?s1 s2" using 2 by (rule no_loss_call)
  also have "no_loss s2 s3" using t3 by (rule no_loss_time)
  finally have n3: "no_loss s s3" .
  moreover have "no_loss s3 s4"
  proof (rule no_loss_run_tests [OF 4])
    show "between_tests s3" using n3 assms(2) by (rule between_no_loss)
    show "k < length (test_cases (run_unit s3))" "case_should_run (test_cases (run_unit s3) ! k)"
      using n3 frame_case [of "run_unit s" "run_unit s3" k] assms(3) True by (simp_all add: no_loss_def)
  qed
  ultimately have n4: "no_loss s s4" by (rule no_loss_trans)
  have "no_loss s4 s5" using t5 by (rule no_loss_time)
  also have "no_loss s5 ?s6" by (rule no_loss_update_case) simp_all
  also have "no_loss ?s6 s7" using 7 by (rule no_loss_call)
  also have "no_loss s7 (notify (OnTestCaseEnd k) s7)" by (simp add: event_failed_def)
  also have "no_loss \<dots> s'" unfolding s' by (rule no_loss_set_case)
  finally show ?thesis using n4 no_loss_trans by blast
qed

lemma no_loss_run_cases:
  assumes "run_cases w i js s = Inr s'" and "between_tests s"
  shows "no_loss s s'"
  using assms
proof (induction js arbitrary: s)
  case (Cons j js)
  obtain k where k: "GetMutableTestCase (run_unit s) j = Some k" using Cons.prems(1) by (auto split: option.splits)
  obtain s1 where s1: "TestCase_Run w i k s = Inr s1" "run_cases w i js s1 = Inr s'"
    using Cons.prems(1) k by (auto simp: bind_res_eq_Inr)
  have "k < length (test_cases (run_unit s))"
    using Cons.prems(2) k GetMutableTestCase_less by (auto simp: between_tests_def)
  then have n: "no_loss s s1" using no_loss_TestCase_Run [OF s1(1) Cons.prems(2)] by blast
  then show ?case using Cons.IH [OF s1(2)] between_no_loss [OF n Cons.prems(2)] no_loss_trans by blast
qed simp

lemma no_loss_run_environments:
  "run_environments w i call es s = Inr r \<Longrightarrow> no_loss s (flow_state r)"
proof (induction w i call es s arbitrary: r rule: run_environments.induct)
  case (2 w i call e es s)
  obtain acts thrown where user: "world_user w i (call e) = (acts, thrown)" by (cases "world_user w i (call e)")
  obtain s1 where s1: "do_actions w acts (notify (User_Call (call e)) s) = Inr s1"
    using 2(2) user by (auto simp: bind_res_eq_Inr)
  have "no_loss s (notify (User_Call (call e)) s)" by (simp add: event_failed_def)
  also have "no_loss (notify (User_Call (call e)) s) s1" using s1 by (rule no_loss_do_actions)
  finally have n: "no_loss s s1" .
  show ?case
  proof (cases thrown)
    case None
    then have "run_environments w i call es s1 = Inr r" using 2(2) user s1 by simp
    from no_loss_trans [OF n 2(1) [OF user [symmetric] s1 None this]] show ?thesis .
  next
    case (Some d)
    then show ?thesis using 2(2) user s1 n by auto
  qed
qed auto

lemma no_loss_run_selected:
  assumes "run_selected w i s = Inr r" and "between_tests s"
  shows "no_loss s (flow_state r)"
proof -
  let ?envs = "unit_environments (run_unit s)"
  obtain r1 where r1: "run_environments w i Set_Up_Environment ?envs (notify OnEnvironmentsSetUpStart s) = Inr r1"
    using assms(1) by (auto simp: run_selected_def Let_def bind_res_eq_Inr)
  have n1: "no_loss s (flow_state r1)"
    using no_loss_trans [OF no_loss_notify no_loss_run_environments [OF r1]] by (simp add: event_failed_def)
  show ?thesis
  proof (cases r1)
    case (Thrown d s1)
    then show ?thesis using assms(1) r1 n1 by (simp add: run_selected_def Let_def)
  next
    case (Returned s1)
    let ?s2 = "notify OnEnvironmentsSetUpEnd s1"
    obtain s3 where s3: "(if \<not> HasFatalFailure ?s2 then
        run_cases w i (map int [0..<nat (total_test_case_count (run_unit ?s2))]) ?s2 else Inr ?s2) = Inr s3"
      and r: "tear_down_environments w i ?envs s3 = Inr r"
      using assms(1) r1 Returned by (auto simp: run_selected_def Let_def bind_res_eq_Inr)
    have n2: "no_loss s ?s2"
      using n1 Returned no_loss_trans [OF _ no_loss_notify, of s s1 OnEnvironmentsSetUpEnd] by (simp add: event_failed_def)
    then have "no_loss ?s2 s3"
      using s3 no_loss_run_cases between_no_loss [OF n2 assms(2)] by (auto split: if_splits)
    with n2 have n3: "no_loss s s3" by (rule no_loss_trans)
    obtain r4 where r4: "run_environments w i Tear_Down_Environment (rev ?envs) (notify OnEnvironmentsTearDownStart s3) = Inr r4"
      using r by (auto simp: tear_down_environments_def bind_res_eq_Inr)
    have n4: "no_loss s (flow_state r4)"
      using no_loss_trans [OF n3 no_loss_trans [OF no_loss_notify no_loss_run_environments [OF r4]]]
      by (simp add: event_failed_def)
    show ?thesis
    proof (cases r4)
      case (Thrown d s4)
      then show ?thesis using r r4 n4 by (auto simp: tear_down_environments_def)
    next
      case (Returned s4)
      then show ?thesis using r r4 n4 no_loss_trans [OF _ no_loss_notify, of s s4 OnEnvironmentsTearDownEnd]
        by (auto simp: tear_down_environments_def event_failed_def)
    qed
  qed
qed

section \<open>What the user's code did\<close>

text \<open>A call of user code that let no exception out and in which no assertion failed.\<close>

definition clean_call :: "world \<Rightarrow> int \<Rightarrow> user_call \<Rightarrow> bool" where
  "clean_call w i call \<longleftrightarrow>
     snd (world_user w i call) = None \<and>
     list_all (\<lambda>a. case a of Report_Part ty f l m \<Rightarrow> ty = kSuccess | Record_Property key v \<Rightarrow> True)
       (fst (world_user w i call))"

text \<open>The calls of user code among the events, each with its iteration.\<close>

fun calls_made :: "int \<Rightarrow> event list \<Rightarrow> (int \<times> user_call) list" where
  "calls_made i [] = []"
| "calls_made i (OnTestIterationStart j # es) = calls_made j es"
| "calls_made i (User_Call call # es) = (i, call) # calls_made i es"
| "calls_made i (_ # es) = calls_made i es"

text \<open>
  A step inside iteration \<open>i\<close> that hides nothing: when it reports no failure, every call of user
  code it made was clean.
\<close>

definition hides_none :: "world \<Rightarrow> int \<Rightarrow> event list \<Rightarrow> bool" where
  "hides_none w i es \<longleftrightarrow>
     (\<forall>j. OnTestIterationStart j \<notin> set es) \<and>
     (list_ex event_failed es \<or> (\<forall>call. User_Call call \<in> set es \<longrightarrow> clean_call w i call))"

definition frank :: "world \<Rightarrow> int \<Rightarrow> run_state \<Rightarrow> run_state \<Rightarrow> bool" where
  "frank w i s s' \<longleftrightarrow> (\<exists>es. run_events s' = run_events s @ es \<and> hides_none w i es)"

lemma hides_none_append: "hides_none w i es \<Longrightarrow> hides_none w i es' \<Longrightarrow> hides_none w i (es @ es')"
  by (auto simp: hides_none_def)

lemma frank_refl [simp]: "frank w i s s"
  by (simp add: frank_def hides_none_def)

lemma frank_same [simp]: "run_events s' = run_events s \<Longrightarrow> frank w i s s'"
  by (simp add: frank_def hides_none_def)

lemma frank_trans [trans]: "frank w i s s' \<Longrightarrow> frank w i s' s'' \<Longrightarrow> frank w i s s''"
  unfolding frank_def using hides_none_append by fastforce

lemma frank_notify: "(\<And>j. e \<noteq> OnTestIterationStart j) \<Longrightarrow> (\<And>c. e \<noteq> User_Call c) \<Longrightarrow> frank w i s (notify e s)"
  unfolding frank_def by (rule exI [of _ "[e]"]) (auto simp: notify_def hides_none_def)

lemma frank_time: "GetTimeInMillis w s = (n, s') \<Longrightarrow> frank w i s s'"
  by (auto simp: GetTimeInMillis_def)

text \<open>The events of a report: one, failed unless the result is a success.\<close>

lemma AddTestPartResult_events:
  assumes "AddTestPartResult w ty f l m tr s = Inr s'"
  obtains r where "run_events s' = run_events s @ [OnTestPartResult r]" "part_failed r = (ty \<noteq> kSuccess)"
  using assms that
  by (auto simp: AddTestPartResult_def Let_def ReportTestPartResult_def notify_def part_failed_def TestPartResult_def
      split: if_splits)

lemma frank_AddTestPartResult: "AddTestPartResult w ty f l m tr s = Inr s' \<Longrightarrow> frank w i s s'"
  by (erule AddTestPartResult_events) (auto simp: frank_def hides_none_def)

lemma unit_RecordProperty_events:
  assumes "unit_RecordProperty w key v s = Inr s'"
  obtains es where "run_events s' = run_events s @ es" "\<forall>e \<in> set es. \<exists>r. e = OnTestPartResult r"
  using assms that
  by (auto simp: unit_RecordProperty_def Let_def bind_res_eq_Inr ADD_FAILURE_def
      elim!: AddTestPartResult_events split: option.splits prod.splits)

text \<open>The assertions of a call are reported one by one.\<close>

lemma do_actions_events:
  assumes "do_actions w as s = Inr s'"
  shows "\<exists>es. run_events s' = run_events s @ es \<and> (\<forall>e \<in> set es. \<exists>r. e = OnTestPartResult r) \<and>
    (list_ex event_failed es \<or>
      list_all (\<lambda>a. case a of Report_Part ty f l m \<Rightarrow> ty = kSuccess | Record_Property key v \<Rightarrow> True) as)"
  using assms
proof (induction w as s arbitrary: s' rule: do_actions.induct)
  case (2 w ty f l m as s)
  from 2(2) obtain s1 where s1: "AddTestPartResult w ty f l m [] s = Inr s1" "do_actions w as s1 = Inr s'"
    by (auto simp: bind_res_eq_Inr)
  from s1(1) obtain r where r: "run_events s1 = run_events s @ [OnTestPartResult r]" "part_failed r = (ty \<noteq> kSuccess)"
    by (rule AddTestPartResult_events)
  from 2(1) [OF s1] obtain es where
    "run_events s' = run_events s1 @ es" "\<forall>e \<in> set es. \<exists>r. e = OnTestPartResult r"
    "list_ex event_failed es \<or>
      list_all (\<lambda>a. case a of Report_Part ty f l m \<Rightarrow> ty = kSuccess | Record_Property key v \<Rightarrow> True) as" by blast
  moreover have "event_failed (OnTestPartResult r) = (ty \<noteq> kSuccess)" by (simp add: event_failed_def r(2))
  ultimately show ?case using r(1) by (intro exI [of _ "OnTestPartResult r # es"]) auto
next
  case (3 w key v as s)
  from 3(2) obtain s1 where s1: "unit_RecordProperty w key v s = Inr s1" "do_actions w as s1 = Inr s'"
    by (auto simp: bind_res_eq_Inr)
  from s1(1) obtain es1 where es1: "run_events s1 = run_events s @ es1" "\<forall>e \<in> set es1. \<exists>r. e = OnTestPartResult r"
    by (rule unit_RecordProperty_events)
  from 3(1) [OF s1] obtain es where
    "run_events s' = run_events s1 @ es" "\<forall>e \<in> set es. \<exists>r. e = OnTestPartResult r"
    "list_ex event_failed es \<or>
      list_all (\<lambda>a. case a of Report_Part ty f l m \<Rightarrow> ty = kSuccess | Record_Property key v \<Rightarrow> True) as" by blast
  with es1 show ?case by (intro exI [of _ "es1 @ es"]) auto
qed simp

text \<open>A call of user code: an exception that is caught is reported as a failure.\<close>

lemma frank_call:
  assumes "HandleExceptionsInMethodIfSupported w i call loc s = Inr (s', b)"
  shows "frank w i s s'"
proof -
  obtain acts thrown where user: "world_user w i call = (acts, thrown)" by (cases "world_user w i call")
  obtain s1 where s1: "do_actions w acts (notify (User_Call call) s) = Inr s1"
    using assms user by (auto simp: HandleExceptionsInMethodIfSupported_def bind_res_eq_Inr)
  from do_actions_events [OF s1] obtain es where
    es: "run_events s1 = run_events s @ User_Call call # es" "\<forall>e \<in> set es. \<exists>r. e = OnTestPartResult r"
    "list_ex event_failed es \<or>
      list_all (\<lambda>a. case a of Report_Part ty f l m \<Rightarrow> ty = kSuccess | Record_Property key v \<Rightarrow> True) acts"
    by (auto simp: notify_def)
  show ?thesis
  proof (cases thrown)
    case None
    then have "s' = s1" using assms user s1 by (simp add: HandleExceptionsInMethodIfSupported_def)
    with es None user show ?thesis
      by (auto simp: frank_def hides_none_def clean_call_def event_failed_def)
  next
    case (Some d)
    then have "ReportFailureInUnknownLocation w kFatalFailure (FormatCxxExceptionMessage d loc) s1 = Inr s'"
      using assms user s1 by (auto simp: HandleExceptionsInMethodIfSupported_def bind_res_eq_Inr split: if_splits)
    then obtain r where "run_events s' = run_events s1 @ [OnTestPartResult r]" "part_failed r"
      unfolding ReportFailureInUnknownLocation_def by (rule AddTestPartResult_events) simp
    with es show ?thesis by (fastforce simp: frank_def hides_none_def event_failed_def)
  qed
qed

lemma frank_HasSameFixtureClass: "HasSameFixtureClass w kt s = Inr (s', b) \<Longrightarrow> frank w i s s'"
  by (auto simp: HasSameFixtureClass_def Let_def bind_res_eq_Inr ADD_FAILURE_def dest: frank_AddTestPartResult
      split: if_splits prod.splits)

lemma frank_Test_Run:
  assumes "Test_Run w i kt s = Inr s'"
  shows "frank w i s s'"
proof -
  obtain s1 same where 1: "HasSameFixtureClass w kt s = Inr (s1, same)"
    using assms by (auto simp: Test_Run_def bind_res_eq_Inr)
  note n1 = frank_HasSameFixtureClass [OF 1]
  show ?thesis
  proof (cases same)
    case True
    let ?f = "info_factory (the_info (run_unit s1) kt)"
    obtain s2 b2 s3 b3 b4 where
      2: "HandleExceptionsInMethodIfSupported w i (Set_Up ?f) ''SetUp()'' s1 = Inr (s2, b2)"
      and 3: "(if \<not> HasFatalFailure s2 then
          HandleExceptionsInMethodIfSupported w i (Test_Body ?f) ''the test body'' s2 else Inr (s2, False)) = Inr (s3, b3)"
      and 4: "HandleExceptionsInMethodIfSupported w i (Tear_Down ?f) ''TearDown()'' s3 = Inr (s', b4)"
      using assms 1 True by (auto simp: Test_Run_def Let_def bind_res_eq_Inr)
    note n1
    also have "frank w i s1 s2" using 2 by (rule frank_call)
    also have "frank w i s2 s3" using 3 frank_call by (auto split: if_splits)
    also have "frank w i s3 s'" using 4 by (rule frank_call)
    finally show ?thesis .
  qed (use assms 1 n1 in \<open>simp add: Test_Run_def\<close>)
qed

lemma frank_TestInfo_Run:
  assumes "TestInfo_Run w i kt s = Inr s'"
  shows "frank w i s s'"
proof (cases "info_should_run (the_info (run_unit s) kt)")
  case True
  let ?s0 = "set_current_test_info (Some kt) s"
  have "frank w i s ?s0" by (simp add: set_current_test_info_def)
  also have "frank w i ?s0 (notify (OnTestStart (fst kt) (snd kt)) ?s0)" by (simp add: frank_notify)
  finally have n: "frank w i s (notify (OnTestStart (fst kt) (snd kt)) ?s0)" .
  from assms True show ?thesis
  proof (rule TestInfo_Run_elim, goal_cases)
    case (1 start s2 s3 made s4 s5 b5 now s6)
    let ?s7 = "s6\<lparr>run_unit := update_info kt
      (\<lambda>t. t\<lparr>info_result := (info_result t)\<lparr>result_elapsed_time := now - start\<rparr>\<rparr>) (run_unit s6)\<rparr>"
    note n
    also have "frank w i (notify (OnTestStart (fst kt) (snd kt)) ?s0) s2" using 1(1) by (rule frank_time)
    also have "frank w i s2 s3" using 1(2) by (rule frank_call)
    also have "frank w i s3 s4" using 1(3) frank_Test_Run by (auto split: if_splits)
    also have "frank w i s4 s5" using 1(4) frank_call by (auto split: if_splits)
    also have "frank w i s5 s6" using 1(5) by (rule frank_time)
    also have "frank w i s6 ?s7" by simp
    also have "frank w i ?s7 (notify (OnTestEnd (fst kt) (snd kt)) ?s7)" by (simp add: frank_notify)
    also have "frank w i \<dots> s'" by (simp add: 1(6) set_current_test_info_def)
    finally show ?case .
  qed
qed (use assms in \<open>simp add: TestInfo_Run_def\<close>)

lemma frank_run_tests: "run_tests w i k js s = Inr s' \<Longrightarrow> frank w i s s'"
proof (induction js arbitrary: s)
  case (Cons j js)
  then show ?case using frank_TestInfo_Run frank_trans
    by (fastforce simp: bind_res_eq_Inr split: option.splits)
qed simp

lemma frank_TestCase_Run:
  assumes "TestCase_Run w i k s = Inr s'"
  shows "frank w i s s'"
proof (cases "case_should_run (test_cases (run_unit s) ! k)")
  case True
  let ?s0 = "set_current_test_case (Some k) s"
  have "frank w i s ?s0" by (simp add: set_current_test_case_def)
  also have "frank w i ?s0 (notify (OnTestCaseStart k) ?s0)" by (simp add: frank_notify)
  finally have n: "frank w i s (notify (OnTestCaseStart k) ?s0)" .
  from assms True show ?thesis
  proof (rule TestCase_Run_elim, goal_cases)
    case (1 s2 b2 start s3 s4 now s5 s7 b7)
    let ?s6 = "s5\<lparr>run_unit := update_case k (\<lambda>c. c\<lparr>case_elapsed_time := now - start\<rparr>) (run_unit s5)\<rparr>"
    note n
    also have "frank w i (notify (OnTestCaseStart k) ?s0) s2" using 1(1) by (rule frank_call)
    also have "frank w i s2 s3" using 1(2) by (rule frank_time)
    also have "frank w i s3 s4" using 1(3) by (rule frank_run_tests)
    also have "frank w i s4 s5" using 1(4) by (rule frank_time)
    also have "frank w i s5 ?s6" by simp
    also have "frank w i ?s6 s7" using 1(5) by (rule frank_call)
    also have "frank w i s7 (notify (OnTestCaseEnd k) s7)" by (simp add: frank_notify)
    also have "frank w i \<dots> s'" by (simp add: 1(6) set_current_test_case_def)
    finally show ?case .
  qed
qed (use assms in \<open>simp add: TestCase_Run_def\<close>)

lemma frank_run_cases: "run_cases w i js s = Inr s' \<Longrightarrow> frank w i s s'"
proof (induction js arbitrary: s)
  case (Cons j js)
  then show ?case using frank_TestCase_Run frank_trans
    by (fastforce simp: bind_res_eq_Inr split: option.splits)
qed simp

lemma frank_run_environments:
  "run_environments w i call es s = Inr (Returned s') \<Longrightarrow> frank w i s s'"
proof (induction w i call es s rule: run_environments.induct)
  case (2 w i call e es s)
  obtain acts thrown where user: "world_user w i (call e) = (acts, thrown)" by (cases "world_user w i (call e)")
  obtain s1 where s1: "do_actions w acts (notify (User_Call (call e)) s) = Inr s1"
    using 2(2) user by (auto simp: bind_res_eq_Inr)
  have thrown: "thrown = None" using 2(2) user s1 by (auto split: option.splits)
  have rest: "run_environments w i call es s1 = Inr (Returned s')" using 2(2) user s1 thrown by simp
  from do_actions_events [OF s1] have "frank w i s s1"
    using user thrown by (fastforce simp: frank_def hides_none_def notify_def clean_call_def)
  with 2(1) [OF user [symmetric] s1 thrown rest] show ?case by (rule frank_trans [rotated])
qed simp

lemma frank_run_selected:
  assumes "run_selected w i s = Inr (Returned s')"
  shows "frank w i s s'"
  using assms
proof (cases rule: run_selected_elim)
  case (set_up s1 s3)
  have "frank w i s (notify OnEnvironmentsSetUpStart s)" by (simp add: frank_notify)
  also have "frank w i \<dots> s1" using set_up(1) by (rule frank_run_environments)
  also have "frank w i s1 (notify OnEnvironmentsSetUpEnd s1)" by (simp add: frank_notify)
  also have "frank w i \<dots> s3" using set_up(2) frank_run_cases by (auto split: if_splits)
  also have "frank w i s3 s'"
  proof -
    obtain r where r: "run_environments w i Tear_Down_Environment (rev (unit_environments (run_unit s)))
        (notify OnEnvironmentsTearDownStart s3) = Inr r"
      using set_up(3) by (auto simp: tear_down_environments_def bind_res_eq_Inr)
    then obtain s4 where s4: "run_environments w i Tear_Down_Environment (rev (unit_environments (run_unit s)))
        (notify OnEnvironmentsTearDownStart s3) = Inr (Returned s4)" "s' = notify OnEnvironmentsTearDownEnd s4"
      using set_up(3) by (cases r) (auto simp: tear_down_environments_def)
    have "frank w i s3 (notify OnEnvironmentsTearDownStart s3)" by (simp add: frank_notify)
    also have "frank w i \<dots> s4" using s4(1) by (rule frank_run_environments)
    also have "frank w i s4 s'" unfolding s4(2) by (simp add: frank_notify)
    finally show ?thesis .
  qed
  finally show ?thesis .
qed simp

lemma hides_none_calls:
  assumes "hides_none w i es" and "\<not> list_ex event_failed es" and "\<forall>(j, call) \<in> set (calls_made i es'). clean_call w j call"
  shows "\<forall>(j, call) \<in> set (calls_made i (es @ es')). clean_call w j call"
  using assms(1,2)
proof (induction es)
  case (Cons e es)
  have "hides_none w i es" using Cons.prems by (auto simp: hides_none_def)
  with Cons have IH: "\<forall>(j, call) \<in> set (calls_made i (es @ es')). clean_call w j call" by simp
  show ?case
  proof (cases e)
    case (User_Call call)
    then have "clean_call w i call" using Cons.prems by (auto simp: hides_none_def)
    with User_Call IH show ?thesis by simp
  qed (use IH Cons.prems in \<open>auto simp: hides_none_def\<close>)
qed (use assms(3) in simp)

section \<open>A whole program\<close>

definition all_clean :: "world \<Rightarrow> event list \<Rightarrow> bool" where
  "all_clean w es \<longleftrightarrow> (\<forall>i. \<forall>(j, call) \<in> set (calls_made i es). clean_call w j call)"

text \<open>Since position \<open>n\<close> every failed assertion is accounted for.\<close>

definition failed_since :: "nat \<Rightarrow> run_state \<Rightarrow> bool" where
  "failed_since n s \<longleftrightarrow> list_ex event_failed (drop n (run_events s))"

lemma between_tests_clear:
  "between_tests s \<Longrightarrow> between_tests (s\<lparr>run_unit := ClearNonAdHocTestResult (run_unit s)\<rparr>)"
  using ClearNonAdHoc_ok by (auto simp: between_tests_def ClearNonAdHocTestResult_def)

lemma start_iteration_between:
  assumes "start_iteration w has i s = Inr s'" and "between_tests s"
  shows "between_tests s' \<and> run_events s' = run_events s @ [OnTestIterationStart i]"
proof -
  have ok: "unit_ok (u\<lparr>unit_random := r\<rparr>) = unit_ok u" for u r
    by (simp add: unit_ok_def death_count_def)
  have "current_test_info u' = current_test_info u" if "ShuffleTests u = Inr u'" for u u'
    using that by (auto simp: ShuffleTests_def bind_res_eq_Inr)
  moreover have "unit_ok u'" if "ShuffleTests u = Inr u'" "unit_ok u" for u u'
    using that ShuffleTests_ok [of u] by auto
  ultimately show ?thesis using assms
    by (auto simp: start_iteration_def bind_res_eq_Inr between_tests_def notify_def ok split: if_splits)
qed

lemma end_iteration_between:
  assumes "end_iteration w i start s = Inr (s', passed)" and "between_tests s"
  shows "between_tests s' \<and> run_events s' = run_events s @ [OnTestIterationEnd i] \<and>
    (passed \<longleftrightarrow> \<not> unit_Failed (run_unit s))"
proof -
  have ok: "unit_ok (u\<lparr>unit_elapsed_time := x\<rparr>) = unit_ok u" "unit_ok (u\<lparr>unit_random_seed := x\<rparr>) = unit_ok u"
    "unit_Failed (u\<lparr>unit_elapsed_time := x\<rparr>) = unit_Failed u" for u x
    by (simp_all add: unit_ok_def death_count_def unit_Failed_def failed_test_case_count_def)
  show ?thesis using assms UnshuffleTests_ok
    by (auto simp: end_iteration_def Let_def bind_res_eq_Inr between_tests_def notify_def GetTimeInMillis_def ok
        unit_Passed_def split: if_splits) (auto simp: UnshuffleTests_def)
qed

lemma run_iteration_result:
  assumes "run_iteration w has i s = Inr (Returned (s', passed))" and "between_tests s"
  shows "between_tests s' \<and> (\<exists>es. run_events s' = run_events s @ es \<and> (passed \<longrightarrow>
    \<not> list_ex event_failed es \<and> (\<forall>es'. all_clean w es' \<longrightarrow> all_clean w (es @ es'))))"
proof -
  let ?s0 = "s\<lparr>run_unit := ClearNonAdHocTestResult (run_unit s)\<rparr>"
  obtain start s1 where t: "GetTimeInMillis w ?s0 = (start, s1)" by (cases "GetTimeInMillis w ?s0")
  obtain s2 where 2: "start_iteration w has i s1 = Inr s2"
    using assms(1) t by (auto simp: run_iteration_def bind_res_eq_Inr)
  obtain r where r: "(if has then run_selected w i s2 else Inr (Returned s2)) = Inr r"
    "(case r of Thrown d s' \<Rightarrow> Inr (Thrown d s')
      | Returned s3 \<Rightarrow> bind_res (end_iteration w i start s3) (\<lambda>p. Inr (Returned p))) = Inr (Returned (s', passed))"
    using assms(1) t 2 by (auto simp: run_iteration_def bind_res_eq_Inr [of "if has then _ else _"])
  obtain s3 where 3: "(if has then run_selected w i s2 else Inr (Returned s2)) = Inr (Returned s3)"
    and 4: "end_iteration w i start s3 = Inr (s', passed)"
    using r by (cases r) (auto simp: bind_res_eq_Inr)
  have b1: "between_tests s1" "run_events s1 = run_events s"
    using between_tests_clear [OF assms(2)] t by (auto simp: GetTimeInMillis_def between_tests_def)
  have b2: "between_tests s2" "run_events s2 = run_events s @ [OnTestIterationStart i]"
    using start_iteration_between [OF 2 b1(1)] b1(2) by auto
  have n: "no_loss s2 s3" using 3 no_loss_run_selected [OF _ b2(1)] by (fastforce split: if_splits)
  then obtain es3 where es3: "run_events s3 = run_events s2 @ es3" "list_ex event_failed es3 \<Longrightarrow> unit_Failed (run_unit s3)"
    using b2(1) by (auto simp: no_loss_def between_tests_def current_ok_def)
  have b4: "between_tests s'" "run_events s' = run_events s3 @ [OnTestIterationEnd i]" "passed \<longleftrightarrow> \<not> unit_Failed (run_unit s3)"
    using end_iteration_between [OF 4 between_no_loss [OF n b2(1)]] by auto
  have "frank w i s2 s3" using 3 frank_run_selected by (auto split: if_splits)
  then have h: "hides_none w i (es3 @ [OnTestIterationEnd i])"
    using es3(1) by (auto simp: frank_def hides_none_def)
  have "all_clean w ((OnTestIterationStart i # es3 @ [OnTestIterationEnd i]) @ es')"
    if "\<not> list_ex event_failed es3" "all_clean w es'" for es'
    using hides_none_calls [OF h, of es'] that by (auto simp: all_clean_def event_failed_def)
  then show ?thesis using b2 b4 es3 by (intro conjI exI [of _ "OnTestIterationStart i # es3 @ [OnTestIterationEnd i]"])
      (auto simp: event_failed_def)
qed

lemma iteration_loop_step:
  assumes "iteration_loop w has rep i failed s = Some r"
  shows "\<forall>s' failed'. r = Inr (Returned (s', failed')) \<longrightarrow> between_tests s \<longrightarrow>
    (failed \<longrightarrow> failed') \<and> (\<exists>es. run_events s' = run_events s @ es \<and> (\<not> failed' \<longrightarrow> \<not> list_ex event_failed es \<and> all_clean w es))"
  using assms
proof (induction w has rep i failed s r rule: iteration_loop.raw_induct [rotated, consumes 1, case_names step])
  case (step loop w has rep i failed s r)
  show ?case
  proof (cases "rep < 0 \<or> i \<noteq> rep")
    case False
    then have "r = Inr (Returned (s, failed))" using step(2) by simp
    then show ?thesis by (intro allI impI conjI exI [of _ "[]"]) (simp_all add: all_clean_def)
  next
    case True
    show ?thesis
    proof (intro allI impI)
      fix s' failed' assume r: "r = Inr (Returned (s', failed'))" and b: "between_tests s"
      obtain s1 p where it: "run_iteration w has i s = Inr (Returned (s1, p))"
        and rest: "loop w has rep (i + 1) (failed \<or> \<not> p) s1 = Some r"
        using step(2) True r by (auto split: sum.splits flow.splits prod.splits if_splits)
      obtain es1 where 2: "between_tests s1" "run_events s1 = run_events s @ es1" 
        "p \<longrightarrow> \<not> list_ex event_failed es1 \<and> (\<forall>es'. all_clean w es' \<longrightarrow> all_clean w (es1 @ es'))"
        using run_iteration_result [OF it b] by auto
      obtain es2 where "failed \<or> \<not> p \<longrightarrow> failed'" "run_events s' = run_events s1 @ es2"
        "\<not> failed' \<longrightarrow> \<not> list_ex event_failed es2 \<and> all_clean w es2"
        using step(1) [OF rest] r 2(1) by blast
      with 2 show "(failed \<longrightarrow> failed') \<and>
          (\<exists>es. run_events s' = run_events s @ es \<and> (\<not> failed' \<longrightarrow> \<not> list_ex event_failed es \<and> all_clean w es))" by auto
    qed
  qed
qed

lemmas iteration_loop_result = iteration_loop_step [rule_format, OF _ refl]

lemma start_program_between:
  assumes "unit_ok u" and "current_test_info u = None"
  shows "between_tests (start_program w u s) \<and> run_events (start_program w u s) = run_events s @ [OnTestProgramStart]"
  using assms by (auto simp: start_program_def Let_def between_tests_def notify_def GetTimeInMillis_def
      unit_ok_def death_count_def)

lemma RunAllTests_passed:
  assumes "RunAllTests w initialized hf s = Some (Inr (Returned (out, True, s')))" and "between_tests s"
  shows "\<exists>es. run_events s' = run_events s @ es \<and> \<not> list_ex event_failed es \<and> all_clean w es"
proof (cases "initialized \<and> \<not> hf \<and> \<not> FLAG_list_tests (world_flags w)")
  case False
  then show ?thesis using assms(1)
    by (auto simp: RunAllTests_def Let_def all_clean_def split: if_splits sum.splits)
next
  case True
  then obtain sh u n r where filter: "FilterTests (world_env w) (world_flags w) sh (run_unit s) = Inr (u, n)"
    and loop: "iteration_loop w (n > 0) (if world_in_subprocess w then 1 else FLAG_repeat (world_flags w)) 0 False
        (start_program w u s) = Some r"
    and r: "bind_res r (\<lambda>flow. case flow of
                   Thrown d s' \<Rightarrow> Inr (Thrown d s')
                 | Returned (s', failed) \<Rightarrow> Inr (Returned ([], \<not> failed, notify OnTestProgramEnd s')))
        = Inr (Returned (out, True, s'))"
    using assms(1) by (auto simp: RunAllTests_def Let_def split: sum.splits prod.splits)
  obtain flow where "r = Inr flow" using r by (auto simp: bind_res_eq_Inr)
  then obtain s1 where s1: "r = Inr (Returned (s1, False))" "s' = notify OnTestProgramEnd s1"
    using r by (cases flow) auto
  have "current_test_info u = current_test_info (run_unit s)"
    using filter by (auto simp: FilterTests_def split: sum.splits prod.splits)
  then have b: "between_tests (start_program w u s)" "run_events (start_program w u s) = run_events s @ [OnTestProgramStart]"
    using start_program_between FilterTests_ok [OF _ filter] assms(2) by (auto simp: between_tests_def)
  from iteration_loop_result [OF loop [unfolded s1(1)] b(1)] obtain es where
    es: "run_events s1 = run_events s @ [OnTestProgramStart] @ es" "\<not> list_ex event_failed es" "all_clean w es"
    using b(2) by auto
  have "calls_made i (OnTestProgramStart # es @ [OnTestProgramEnd]) = calls_made i es" for i
    by (induction i es rule: calls_made.induct) simp_all
  then have "all_clean w (OnTestProgramStart # es @ [OnTestProgramEnd])" using es(3) by (simp only: all_clean_def)
  with es s1(2) show ?thesis
    by (intro exI [of _ "OnTestProgramStart # es @ [OnTestProgramEnd]"]) (auto simp: notify_def event_failed_def)
qed

lemma case_Inr_obtain: "(case r of Inl _ \<Rightarrow> False | Inr x \<Rightarrow> P x) \<Longrightarrow> \<exists>x. r = Inr x \<and> P x"
  by (cases r) simp_all

lemma case_Some_Inr_obtain:
  "(case r of Some (Inr x) \<Rightarrow> P x | _ \<Rightarrow> False) \<Longrightarrow> \<exists>x. r = Some (Inr x) \<and> P x"
  by (cases r) (simp_all split: sum.split_asm)

definition sample_world :: world where
  "sample_world =
     \<lparr>world_flags = default_flags (\<lambda>_. None), world_env = (\<lambda>_. None), world_can_create = (\<lambda>_. False),
      world_user = (\<lambda>i call. if call = Test_Body 1 then ([Report_Part kSuccess (Some ''a.cc'') 7 ''Succeeded''], None) else ([], None)),
      world_time = int, world_test_type_id = 0, world_in_subprocess = False\<rparr>"

definition sample_state :: "unit_test \<Rightarrow> run_state" where
  "sample_state u = \<lparr>run_unit = u, run_events = [], run_clock = 0\<rparr>"

lemma sample_run:
  obtains u out s' where "sample_unit = Inr u" "current_test_info u = None"
    "UnitTest_Run sample_world True False (sample_state u) = Some (Inr (out, 0, s'))" "length (run_events s') > 10"
proof -
  have "case sample_unit of Inl _ \<Rightarrow> False
   | Inr u \<Rightarrow> current_test_info u = None \<and>
       (case UnitTest_Run sample_world True False (sample_state u) of
          Some (Inr (out, code, s')) \<Rightarrow> code = 0 \<and> length (run_events s') > 10
        | _ \<Rightarrow> False)"
    by code_simp
  from case_Inr_obtain [OF this] obtain u where u0: "sample_unit = Inr u" "current_test_info u = None"
    "case UnitTest_Run sample_world True False (sample_state u) of
       Some (Inr (out, code, s')) \<Rightarrow> code = 0 \<and> length (run_events s') > 10 | _ \<Rightarrow> False" by blast
  from case_Some_Inr_obtain [OF u0(3)] obtain x where x: "UnitTest_Run sample_world True False (sample_state u) = Some (Inr x)"
    "case x of (out, code, s') \<Rightarrow> code = 0 \<and> length (run_events s') > 10" by blast
  obtain out code s' where "x = (out, code, s')" by (cases x)
  with x u0 have "sample_unit = Inr u" "current_test_info u = None"
    "UnitTest_Run sample_world True False (sample_state u) = Some (Inr (out, 0, s'))" "length (run_events s') > 10"
    by simp_all
  then show thesis by (rule that)
qed

text \<open>
  C15. No failure is lost: when the test program ends with the exit code 0, then in all its
  iterations and with any flags, shuffling and sharding, no failure was reported to the listeners, and
  every call of user code that was made (of a test, a fixture, a test case's set-up or an environment)
  let no exception out, caught or not, and made no assertion that failed. The state is one that the
  registration functions give, with no test current.
\<close>

theorem exit_code_sound:
  assumes "reachable_tests (run_unit s)" and "current_test_info (run_unit s) = None"
    and "UnitTest_Run w initialized hf s = Some (Inr (out, 0, s'))"
  shows "\<exists>es. run_events s' = run_events s @ es \<and> \<not> list_ex event_failed es \<and>
    (\<forall>(i, call) \<in> set (calls_made 0 es). clean_call w i call)"
proof -
  let ?s = "s\<lparr>run_unit := (run_unit s)\<lparr>unit_catch_exceptions := FLAG_catch_exceptions (world_flags w)\<rparr>\<rparr>"
  have "between_tests ?s"
    using reachable_ok [OF assms(1)] assms(2) by (simp add: between_tests_def unit_ok_def death_count_def)
  moreover obtain r where r: "RunAllTests w initialized hf ?s = Some r"
    using assms(3) by (auto simp: UnitTest_Run_def Let_def)
  moreover have "r = Inr (Returned (out, True, s'))"
  proof (cases r)
    case (Inr flow)
    then show ?thesis using assms(3) r
      by (cases flow) (auto simp: UnitTest_Run_def Let_def bind_res_eq_Inr split: if_splits)
  qed (use assms(3) r in \<open>simp add: UnitTest_Run_def Let_def\<close>)
  ultimately show ?thesis using RunAllTests_passed [of w initialized hf ?s out s'] by (auto simp: all_clean_def)
qed

theorem exit_code_sound_witness:
  "case sample_unit of Inl _ \<Rightarrow> False
   | Inr u \<Rightarrow>
       (case UnitTest_Run sample_world True False (sample_state u) of
          Some (Inr (out, code, s')) \<Rightarrow>
            code = 0 \<and> length (run_events s') > 10 \<and> (\<exists>es. run_events s' = es \<and> \<not> list_ex event_failed es \<and>
              (\<forall>(i, call) \<in> set (calls_made 0 es). clean_call sample_world i call))
        | _ \<Rightarrow> False)"
proof -
  obtain u out s' where u: "sample_unit = Inr u" "current_test_info u = None"
    "UnitTest_Run sample_world True False (sample_state u) = Some (Inr (out, 0, s'))" "length (run_events s') > 10"
    by (rule sample_run)
  have "reachable_tests (run_unit (sample_state u))" using case_Inr_obtain [OF sample_reachable] u(1)
    unfolding sample_state_def run_state.simps by (metis sum.inject(2))
  from exit_code_sound [OF this _ u(3)] u(2,4) show ?thesis
    unfolding u(1) sum.case u(3) option.case prod.case by (simp add: sample_state_def)
qed

end
