(* ===== verification/Gtest_Listener.thy ===== *)
theory Gtest_Listener
  imports Gtest_Exit
begin

text \<open>
  The listeners of the test events: the repeater that forwards an event to every listener and the
  list with its two default listeners (\<open>TestEventRepeater\<close> and \<open>TestEventListeners\<close> in \<open>gtest.cc\<close>).
  A listener is named by its address, a deleted one is kept in a list. Shown: every listener hears
  the events of a run in their order, and these follow the protocol that the interface promises.
\<close>

section \<open>The repeater\<close>

record 'l repeater =
  forwarding_enabled :: bool
  repeater_listeners :: "'l list"

definition TestEventRepeater :: "'l repeater" where
  "TestEventRepeater = \<lparr>forwarding_enabled = True, repeater_listeners = []\<rparr>"

definition repeater_Append :: "'l \<Rightarrow> 'l repeater \<Rightarrow> 'l repeater" where
  "repeater_Append listener r = r\<lparr>repeater_listeners := repeater_listeners r @ [listener]\<rparr>"

fun release_loop :: "'l \<Rightarrow> 'l list \<Rightarrow> ('l list) option" where
  "release_loop listener [] = None"
| "release_loop listener (l # ls) =
     (if l = listener then Some ls else map_option ((#) l) (release_loop listener ls))"

text \<open>The listener that was asked for, or \<open>NULL\<close>. The list has no null pointers.\<close>

definition repeater_Release :: "'l option \<Rightarrow> 'l repeater \<Rightarrow> 'l option \<times> 'l repeater" where
  "repeater_Release listener r =
     (case listener of
        None \<Rightarrow> (None, r)
      | Some l \<Rightarrow>
          (case release_loop l (repeater_listeners r) of
             None \<Rightarrow> (None, r)
           | Some ls \<Rightarrow> (Some l, r\<lparr>repeater_listeners := ls\<rparr>)))"

text \<open>\<open>GTEST_REPEATER_METHOD_\<close> and \<open>GTEST_REVERSE_REPEATER_METHOD_\<close>: who hears an event, in turn.\<close>

definition repeat_event :: "'l repeater \<Rightarrow> 'l list" where
  "repeat_event r = (if forwarding_enabled r then repeater_listeners r else [])"

definition repeat_event_reversed :: "'l repeater \<Rightarrow> 'l list" where
  "repeat_event_reversed r = (if forwarding_enabled r then rev (repeater_listeners r) else [])"

definition repeater_hears :: "'l repeater \<Rightarrow> event \<Rightarrow> 'l list" where
  "repeater_hears r e =
     (case e of
        OnTestProgramStart \<Rightarrow> repeat_event r
      | OnTestIterationStart i \<Rightarrow> repeat_event r
      | OnEnvironmentsSetUpStart \<Rightarrow> repeat_event r
      | OnTestCaseStart k \<Rightarrow> repeat_event r
      | OnTestStart k j \<Rightarrow> repeat_event r
      | OnTestPartResult p \<Rightarrow> repeat_event r
      | OnEnvironmentsTearDownStart \<Rightarrow> repeat_event r
      | OnEnvironmentsSetUpEnd \<Rightarrow> repeat_event_reversed r
      | OnEnvironmentsTearDownEnd \<Rightarrow> repeat_event_reversed r
      | OnTestEnd k j \<Rightarrow> repeat_event_reversed r
      | OnTestCaseEnd k \<Rightarrow> repeat_event_reversed r
      | OnTestIterationEnd i \<Rightarrow> repeat_event_reversed r
      | OnTestProgramEnd \<Rightarrow> repeat_event_reversed r
      | User_Call c \<Rightarrow> [])"

section \<open>The list of listeners\<close>

record 'l event_listeners =
  listeners_repeater :: "'l repeater"
  default_result_printer :: "'l option"
  default_xml_generator :: "'l option"
  deleted_listeners :: "'l list"

definition TestEventListeners :: "'l event_listeners" where
  "TestEventListeners =
     \<lparr>listeners_repeater = TestEventRepeater, default_result_printer = None, default_xml_generator = None,
      deleted_listeners = []\<rparr>"

definition listeners_Append :: "'l \<Rightarrow> 'l event_listeners \<Rightarrow> 'l event_listeners" where
  "listeners_Append listener L = L\<lparr>listeners_repeater := repeater_Append listener (listeners_repeater L)\<rparr>"

definition listeners_Release :: "'l option \<Rightarrow> 'l event_listeners \<Rightarrow> 'l option \<times> 'l event_listeners" where
  "listeners_Release listener L =
     (let L = (if listener = default_result_printer L then L\<lparr>default_result_printer := None\<rparr>
               else if listener = default_xml_generator L then L\<lparr>default_xml_generator := None\<rparr> else L);
          (released, r) = repeater_Release listener (listeners_repeater L)
      in (released, L\<lparr>listeners_repeater := r\<rparr>))"

definition delete_listener :: "'l option \<Rightarrow> 'l event_listeners \<Rightarrow> 'l event_listeners" where
  "delete_listener listener L =
     (case listener of None \<Rightarrow> L | Some l \<Rightarrow> L\<lparr>deleted_listeners := deleted_listeners L @ [l]\<rparr>)"

definition SetDefaultResultPrinter :: "'l option \<Rightarrow> 'l event_listeners \<Rightarrow> 'l event_listeners" where
  "SetDefaultResultPrinter listener L =
     (if default_result_printer L \<noteq> listener then
        (let (released, L) = listeners_Release (default_result_printer L) L;
             L = (delete_listener released L)\<lparr>default_result_printer := listener\<rparr>
         in case listener of None \<Rightarrow> L | Some l \<Rightarrow> listeners_Append l L)
      else L)"

definition SetDefaultXmlGenerator :: "'l option \<Rightarrow> 'l event_listeners \<Rightarrow> 'l event_listeners" where
  "SetDefaultXmlGenerator listener L =
     (if default_xml_generator L \<noteq> listener then
        (let (released, L) = listeners_Release (default_xml_generator L) L;
             L = (delete_listener released L)\<lparr>default_xml_generator := listener\<rparr>
         in case listener of None \<Rightarrow> L | Some l \<Rightarrow> listeners_Append l L)
      else L)"

definition EventForwardingEnabled :: "'l event_listeners \<Rightarrow> bool" where
  "EventForwardingEnabled L = forwarding_enabled (listeners_repeater L)"

definition SuppressEventForwarding :: "'l event_listeners \<Rightarrow> 'l event_listeners" where
  "SuppressEventForwarding L =
     L\<lparr>listeners_repeater := (listeners_repeater L)\<lparr>forwarding_enabled := False\<rparr>\<rparr>"

definition destroy_TestEventListeners :: "'l event_listeners \<Rightarrow> 'l list" where
  "destroy_TestEventListeners L = deleted_listeners L @ repeater_listeners (listeners_repeater L)"

text \<open>The calls of the listeners that a run makes.\<close>

definition calls_of :: "'l event_listeners \<Rightarrow> event list \<Rightarrow> ('l \<times> event) list" where
  "calls_of L es = concat (map (\<lambda>e. map (\<lambda>l. (l, e)) (repeater_hears (listeners_repeater L) e)) es)"

section \<open>Ownership of the listeners\<close>

text \<open>
  Listeners that are in the list are there once and were not deleted, and the default listeners are
  among them.
\<close>

definition listeners_ok :: "'l event_listeners \<Rightarrow> bool" where
  "listeners_ok L \<longleftrightarrow> distinct (destroy_TestEventListeners L) \<and>
     (\<forall>l. default_result_printer L = Some l \<or> default_xml_generator L = Some l \<longrightarrow>
       l \<in> set (repeater_listeners (listeners_repeater L))) \<and>
     (default_result_printer L \<noteq> None \<longrightarrow> default_result_printer L \<noteq> default_xml_generator L)"

lemma release_loop_eq:
  "release_loop l ls = (if l \<in> set ls then Some (remove1 l ls) else None)"
  by (induction ls) auto

lemma repeater_Release_eq:
  "repeater_Release (Some l) r =
    (if l \<in> set (repeater_listeners r) then (Some l, r\<lparr>repeater_listeners := remove1 l (repeater_listeners r)\<rparr>)
     else (None, r))"
  by (simp add: repeater_Release_def release_loop_eq)

lemma repeater_Release_None [simp]: "repeater_Release None r = (None, r)"
  by (simp add: repeater_Release_def)

lemma TestEventListeners_ok: "listeners_ok TestEventListeners"
  by (simp add: listeners_ok_def TestEventListeners_def TestEventRepeater_def destroy_TestEventListeners_def)

lemma listeners_Append_ok:
  "listeners_ok L \<Longrightarrow> l \<notin> set (destroy_TestEventListeners L) \<Longrightarrow> listeners_ok (listeners_Append l L)"
  by (auto simp: listeners_ok_def listeners_Append_def repeater_Append_def destroy_TestEventListeners_def)

lemma listeners_Release_ok: "listeners_ok L \<Longrightarrow> listeners_ok (snd (listeners_Release listener L))"
  by (cases listener)
    (auto simp: listeners_ok_def listeners_Release_def repeater_Release_eq destroy_TestEventListeners_def
      Let_def in_set_remove1 split: prod.splits dest: notin_set_remove1)


lemma SetDefaultResultPrinter_ok:
  assumes "listeners_ok L" and "\<And>l. listener = Some l \<Longrightarrow> l \<notin> set (destroy_TestEventListeners L)"
  shows "listeners_ok (SetDefaultResultPrinter listener L)"
  using assms
  by (cases "default_result_printer L"; cases listener)
    (auto simp: listeners_ok_def SetDefaultResultPrinter_def listeners_Release_def repeater_Release_eq
      delete_listener_def destroy_TestEventListeners_def listeners_Append_def repeater_Append_def Let_def
      split: prod.splits dest: notin_set_remove1)

lemma SetDefaultXmlGenerator_ok:
  assumes "listeners_ok L" and "\<And>l. listener = Some l \<Longrightarrow> l \<notin> set (destroy_TestEventListeners L)"
  shows "listeners_ok (SetDefaultXmlGenerator listener L)"
  using assms
  by (cases "default_xml_generator L"; cases listener)
    (auto simp: listeners_ok_def SetDefaultXmlGenerator_def listeners_Release_def repeater_Release_eq
      delete_listener_def destroy_TestEventListeners_def listeners_Append_def repeater_Append_def Let_def
      split: prod.splits dest: notin_set_remove1)

section \<open>The protocol of the events\<close>

text \<open>
  What the interface \<open>TestEventListener\<close> promises, as a state machine: the phases of a run and the
  event that may come in each. An assertion may be reported wherever user code runs.
\<close>

datatype phase =
    Not_Started
  | Between_Iterations int
  | Iteration_Started int
  | Setting_Up int
  | Running_Cases int
  | Running_Case int nat
  | Running_Test int nat nat
  | Tearing_Down int
  | Torn_Down int
  | Ended

definition case_call :: "user_call \<Rightarrow> bool" where
  "case_call c \<longleftrightarrow> (case c of Set_Up_Test_Case f \<Rightarrow> True | Tear_Down_Test_Case f \<Rightarrow> True | _ \<Rightarrow> False)"

definition test_call :: "user_call \<Rightarrow> bool" where
  "test_call c \<longleftrightarrow>
     (case c of Create_Test f \<Rightarrow> True | Set_Up f \<Rightarrow> True | Test_Body f \<Rightarrow> True | Tear_Down f \<Rightarrow> True
      | Delete_Test f \<Rightarrow> True | _ \<Rightarrow> False)"

definition go_if :: "bool \<Rightarrow> phase \<Rightarrow> phase option" where
  "go_if b ph = (if b then Some ph else None)"

definition protocol_step :: "phase \<Rightarrow> event \<Rightarrow> phase option" where
  "protocol_step ph e =
     (case ph of
        Not_Started \<Rightarrow> go_if (e = OnTestProgramStart) (Between_Iterations 0)
      | Between_Iterations n \<Rightarrow>
          if e = OnTestProgramEnd then Some Ended else go_if (e = OnTestIterationStart n) (Iteration_Started n)
      | Iteration_Started i \<Rightarrow>
          if e = OnEnvironmentsSetUpStart then Some (Setting_Up i)
          else go_if (e = OnTestIterationEnd i) (Between_Iterations (i + 1))
      | Setting_Up i \<Rightarrow>
          (case e of
             User_Call c \<Rightarrow> go_if (\<exists>n. c = Set_Up_Environment n) ph
           | OnTestPartResult r \<Rightarrow> Some ph
           | _ \<Rightarrow> go_if (e = OnEnvironmentsSetUpEnd) (Running_Cases i))
      | Running_Cases i \<Rightarrow>
          (case e of
             OnTestCaseStart k \<Rightarrow> Some (Running_Case i k)
           | _ \<Rightarrow> go_if (e = OnEnvironmentsTearDownStart) (Tearing_Down i))
      | Running_Case i k \<Rightarrow>
          (case e of
             User_Call c \<Rightarrow> go_if (case_call c) ph
           | OnTestPartResult r \<Rightarrow> Some ph
           | OnTestStart k' j \<Rightarrow> go_if (k' = k) (Running_Test i k j)
           | _ \<Rightarrow> go_if (e = OnTestCaseEnd k) (Running_Cases i))
      | Running_Test i k j \<Rightarrow>
          (case e of
             User_Call c \<Rightarrow> go_if (test_call c) ph
           | OnTestPartResult r \<Rightarrow> Some ph
           | _ \<Rightarrow> go_if (e = OnTestEnd k j) (Running_Case i k))
      | Tearing_Down i \<Rightarrow>
          (case e of
             User_Call c \<Rightarrow> go_if (\<exists>n. c = Tear_Down_Environment n) ph
           | OnTestPartResult r \<Rightarrow> Some ph
           | _ \<Rightarrow> go_if (e = OnEnvironmentsTearDownEnd) (Torn_Down i))
      | Torn_Down i \<Rightarrow> go_if (e = OnTestIterationEnd i) (Between_Iterations (i + 1))
      | Ended \<Rightarrow> None)"

lemmas protocol_simps = protocol_step_def go_if_def case_call_def test_call_def

fun protocol_run :: "phase \<Rightarrow> event list \<Rightarrow> phase option" where
  "protocol_run ph [] = Some ph"
| "protocol_run ph (e # es) = Option.bind (protocol_step ph e) (\<lambda>ph'. protocol_run ph' es)"

lemma protocol_run_append:
  "protocol_run ph (es @ es') = Option.bind (protocol_run ph es) (\<lambda>ph'. protocol_run ph' es')"
  by (induction es arbitrary: ph) (auto split: bind_split)

text \<open>From one state to another a run adds events that lead from one phase to another.\<close>

definition goes :: "phase \<Rightarrow> run_state \<Rightarrow> run_state \<Rightarrow> phase \<Rightarrow> bool" where
  "goes ph s s' ph' \<longleftrightarrow> (\<exists>es. run_events s' = run_events s @ es \<and> protocol_run ph es = Some ph')"

lemma goes_trans: "goes ph s s' ph' \<Longrightarrow> goes ph' s' s'' ph'' \<Longrightarrow> goes ph s s'' ph''"
  by (auto simp: goes_def protocol_run_append)

lemma goes_same: "run_events s' = run_events s \<Longrightarrow> goes ph s s' ph"
  by (simp add: goes_def)

lemma goes_refl [simp]: "goes ph s s ph"
  by (simp add: goes_same)

lemma goes_notify: "protocol_step ph e = Some ph' \<Longrightarrow> goes ph s (notify e s) ph'"
  by (simp add: goes_def notify_def)

lemma run_events_simps [simp]:
  "run_events (notify e s) = run_events s @ [e]"
  "run_events (set_current_test_case k s) = run_events s"
  "run_events (set_current_test_info kt s) = run_events s"
  by (simp_all add: notify_def set_current_test_case_def set_current_test_info_def)

definition user_phase :: "phase \<Rightarrow> bool" where
  "user_phase ph \<longleftrightarrow> (\<forall>r. protocol_step ph (OnTestPartResult r) = Some ph)"

lemma user_phases [simp]:
  "user_phase (Setting_Up i)" "user_phase (Running_Case i k)" "user_phase (Running_Test i k j)"
  "user_phase (Tearing_Down i)"
  by (simp_all add: user_phase_def protocol_simps)

lemma goes_AddTestPartResult:
  "user_phase ph \<Longrightarrow> AddTestPartResult w ty f l m tr s = Inr s' \<Longrightarrow> goes ph s s' ph"
  by (auto simp: AddTestPartResult_def ReportTestPartResult_def Let_def goes_def user_phase_def split: if_splits)

lemma goes_ADD_FAILURE: "user_phase ph \<Longrightarrow> ADD_FAILURE w l m s = Inr s' \<Longrightarrow> goes ph s s' ph"
  unfolding ADD_FAILURE_def by (rule goes_AddTestPartResult)

lemma goes_RecordProperty:
  assumes "user_phase ph" and "unit_RecordProperty w key v s = Inr s'"
  shows "goes ph s s' ph"
proof -
  obtain u' failure where "(case failure of None \<Rightarrow> Inr (s\<lparr>run_unit := u'\<rparr>)
      | Some t \<Rightarrow> ADD_FAILURE w 1822 t (s\<lparr>run_unit := u'\<rparr>)) = Inr s'"
    using assms(2) by (auto simp: unit_RecordProperty_def Let_def bind_res_eq_Inr split: prod.splits)
  then show ?thesis
    using goes_trans [OF goes_same goes_ADD_FAILURE [OF assms(1)], of "s\<lparr>run_unit := u'\<rparr>" s]
    by (cases failure) (auto intro: goes_same)
qed

lemma goes_do_actions: "user_phase ph \<Longrightarrow> do_actions w as s = Inr s' \<Longrightarrow> goes ph s s' ph"
proof (induction w as s rule: do_actions.induct)
  case (2 w ty f line message as s)
  then show ?case by (auto simp: bind_res_eq_Inr intro: goes_trans goes_AddTestPartResult)
next
  case (3 w key v as s)
  then show ?case by (auto simp: bind_res_eq_Inr intro: goes_trans goes_RecordProperty)
qed simp

lemma goes_call:
  assumes "user_phase ph" and "protocol_step ph (User_Call call) = Some ph"
    and "HandleExceptionsInMethodIfSupported w i call location s = Inr (s', b)"
  shows "goes ph s s' ph"
proof -
  obtain acts thrown where u: "world_user w i call = (acts, thrown)" by fastforce
  then obtain s1 where s1: "do_actions w acts (notify (User_Call call) s) = Inr s1"
    using assms(3) by (auto simp: HandleExceptionsInMethodIfSupported_def bind_res_eq_Inr)
  have g: "goes ph s s1 ph"
    using goes_trans [OF goes_notify [OF assms(2)] goes_do_actions [OF assms(1) s1]] .
  show ?thesis
  proof (cases thrown)
    case None
    then show ?thesis using assms(3) u s1 g by (simp add: HandleExceptionsInMethodIfSupported_def)
  next
    case (Some d)
    then have "AddTestPartResult w kFatalFailure None (- 1) (FormatCxxExceptionMessage d location) [] s1 = Inr s'"
      using assms(3) u s1
      by (auto simp: HandleExceptionsInMethodIfSupported_def ReportFailureInUnknownLocation_def bind_res_eq_Inr split: if_splits)
    from goes_trans [OF g goes_AddTestPartResult [OF assms(1) this]] show ?thesis .
  qed
qed


lemma goes_HasSameFixtureClass:
  "user_phase ph \<Longrightarrow> HasSameFixtureClass w kt s = Inr (s', b) \<Longrightarrow> goes ph s s' ph"
  by (auto simp: HasSameFixtureClass_def Let_def bind_res_eq_Inr split: if_splits prod.splits intro: goes_ADD_FAILURE)

lemma goes_test_call:
  assumes "test_call call" and "HandleExceptionsInMethodIfSupported w i' call location s = Inr (s', b)"
  shows "goes (Running_Test i k j) s s' (Running_Test i k j)"
  by (rule goes_call [OF _ _ assms(2)]) (use assms(1) in \<open>simp_all add: protocol_step_def go_if_def\<close>)

lemma goes_test_call_if:
  assumes "test_call call"
    and "(if c then HandleExceptionsInMethodIfSupported w i' call location s else Inr (s, b')) = Inr (s', b)"
  shows "goes (Running_Test i k j) s s' (Running_Test i k j)"
  using assms(2) goes_test_call [OF assms(1)] by (auto split: if_splits)

lemma goes_Test_Run:
  assumes "Test_Run w i' kt s = Inr s'"
  shows "goes (Running_Test i k j) s s' (Running_Test i k j)"
proof -
  let ?ph = "Running_Test i k j"
  obtain s1 same where s1: "HasSameFixtureClass w kt s = Inr (s1, same)"
    using assms by (auto simp: Test_Run_def bind_res_eq_Inr)
  then have g: "goes ?ph s s1 ?ph" by (intro goes_HasSameFixtureClass) auto
  show ?thesis
  proof (cases same)
    case False
    then show ?thesis using assms s1 g by (simp add: Test_Run_def)
  next
    case True
    let ?f = "info_factory (the_info (run_unit s1) kt)"
    obtain s2 b2 s3 b3 b4 where c:
      "HandleExceptionsInMethodIfSupported w i' (Set_Up ?f) ''SetUp()'' s1 = Inr (s2, b2)"
      "(if \<not> HasFatalFailure s2 then HandleExceptionsInMethodIfSupported w i' (Test_Body ?f) ''the test body'' s2
        else Inr (s2, False)) = Inr (s3, b3)"
      "HandleExceptionsInMethodIfSupported w i' (Tear_Down ?f) ''TearDown()'' s3 = Inr (s', b4)"
      using assms s1 True by (auto simp: Test_Run_def Let_def bind_res_eq_Inr)
    have "goes ?ph s1 s2 ?ph" using c(1) by (intro goes_test_call [of "Set_Up ?f"]) (auto simp: test_call_def)
    moreover have "goes ?ph s2 s3 ?ph" using c(2) by (rule goes_test_call_if [rotated]) (simp add: test_call_def)
    moreover have "goes ?ph s3 s' ?ph" using c(3) by (intro goes_test_call [of "Tear_Down ?f"]) (auto simp: test_call_def)
    ultimately show ?thesis using g goes_trans by blast
  qed
qed

lemma GetTimeInMillis_events [simp]: "GetTimeInMillis w s = (n, s') \<Longrightarrow> run_events s' = run_events s"
  by (auto simp: GetTimeInMillis_def)

lemma goes_TestInfo_Run:
  assumes "TestInfo_Run w i' (k, j) s = Inr s'"
  shows "goes (Running_Case i k) s s' (Running_Case i k)"
proof (cases "info_should_run (the_info (run_unit s) (k, j))")
  case False
  then show ?thesis using assms by (simp add: TestInfo_Run_def)
next
  case True
  let ?ph = "Running_Test i k j"
  from assms True show ?thesis
  proof (rule TestInfo_Run_elim, goal_cases)
    case (1 start s2 s3 made s4 s5 b5 now s6)
    have "goes (Running_Case i k) s s2 ?ph"
      using 1(1) by (auto simp: goes_def protocol_simps)
    moreover have "goes ?ph s2 s3 ?ph" using 1(2) by (rule goes_test_call [rotated]) (simp add: test_call_def)
    moreover have "goes ?ph s3 s4 ?ph" using 1(3) by (auto intro: goes_Test_Run split: if_splits)
    moreover have "goes ?ph s4 s5 ?ph"
      using 1(4) by (rule goes_test_call_if [rotated]) (simp add: test_call_def)
    moreover have "goes ?ph s5 s' (Running_Case i k)"
      using 1(5,6) by (auto simp: goes_def protocol_simps)
    ultimately show ?thesis using goes_trans by blast
  qed
qed

lemma goes_run_tests: "run_tests w i' k js s = Inr s' \<Longrightarrow> goes (Running_Case i k) s s' (Running_Case i k)"
proof (induction w i' k js s rule: run_tests.induct)
  case (2 w i' k j js s)
  then show ?case
    by (auto simp: bind_res_eq_Inr split: option.splits intro: goes_trans goes_TestInfo_Run)
qed simp

lemma goes_case_call:
  assumes "case_call call" and "HandleExceptionsInMethodIfSupported w i' call location s = Inr (s', b)"
  shows "goes (Running_Case i k) s s' (Running_Case i k)"
  by (rule goes_call [OF _ _ assms(2)]) (use assms(1) in \<open>simp_all add: protocol_step_def go_if_def\<close>)

lemma goes_TestCase_Run:
  assumes "TestCase_Run w i' k s = Inr s'"
  shows "goes (Running_Cases i) s s' (Running_Cases i)"
proof (cases "case_should_run (test_cases (run_unit s) ! k)")
  case False
  then show ?thesis using assms by (simp add: TestCase_Run_def)
next
  case True
  let ?ph = "Running_Case i k"
  from assms True show ?thesis
  proof (rule TestCase_Run_elim, goal_cases)
    case (1 s2 b2 start s3 s4 now s5 s7 b7)
    have "goes (Running_Cases i) s (notify (OnTestCaseStart k) (set_current_test_case (Some k) s)) ?ph"
      by (simp add: goes_def protocol_simps)
    moreover have "goes ?ph (notify (OnTestCaseStart k) (set_current_test_case (Some k) s)) s2 ?ph"
      using 1(1) by (rule goes_case_call [rotated]) (simp add: case_call_def)
    moreover have "goes ?ph s2 s3 ?ph" using 1(2) by (intro goes_same) simp
    moreover have "goes ?ph s3 s4 ?ph" using 1(3) by (rule goes_run_tests)
    moreover have "goes ?ph s4 s5 ?ph" using 1(4) by (intro goes_same) simp
    moreover have "goes ?ph s5 s7 ?ph"
      using 1(5) by (intro goes_trans [OF goes_same goes_case_call]) (simp_all add: case_call_def)
    moreover have "goes ?ph s7 s' (Running_Cases i)" using 1(6) by (auto simp: goes_def protocol_simps)
    ultimately show ?thesis using goes_trans by blast
  qed
qed

lemma goes_run_cases: "run_cases w i' js s = Inr s' \<Longrightarrow> goes (Running_Cases i) s s' (Running_Cases i)"
proof (induction w i' js s rule: run_cases.induct)
  case (2 w i' j js s)
  then show ?case
    by (auto simp: bind_res_eq_Inr split: option.splits intro: goes_trans goes_TestCase_Run)
qed simp


lemma goes_run_environments:
  assumes "user_phase ph" and "\<And>e. protocol_step ph (User_Call (call e)) = Some ph"
  shows "run_environments w i' call es s = Inr r \<Longrightarrow> goes ph s (flow_state r) ph"
proof (induction es arbitrary: s)
  case (Cons e es)
  obtain acts thrown where u: "world_user w i' (call e) = (acts, thrown)" by fastforce
  with Cons.prems obtain s1 where s1: "do_actions w acts (notify (User_Call (call e)) s) = Inr s1"
    by (auto simp: bind_res_eq_Inr)
  have "goes ph s s1 ph"
    using goes_trans [OF goes_notify [OF assms(2)] goes_do_actions [OF assms(1) s1]] .
  with Cons u s1 show ?case by (cases thrown) (auto intro: goes_trans)
qed auto

lemma goes_tear_down_environments:
  assumes "tear_down_environments w i' envs s = Inr r"
  shows "case r of Returned s' \<Rightarrow> goes (Running_Cases i) s s' (Torn_Down i)
    | Thrown d s' \<Rightarrow> goes (Running_Cases i) s s' (Tearing_Down i)"
proof -
  let ?s1 = "notify OnEnvironmentsTearDownStart s"
  obtain r4 where r4: "run_environments w i' Tear_Down_Environment (rev envs) ?s1 = Inr r4"
    using assms by (auto simp: tear_down_environments_def bind_res_eq_Inr)
  have "goes (Running_Cases i) s ?s1 (Tearing_Down i)" by (rule goes_notify) (simp add: protocol_simps)
  moreover have "goes (Tearing_Down i) ?s1 (flow_state r4) (Tearing_Down i)"
    by (rule goes_run_environments [OF _ _ r4]) (simp_all add: protocol_simps)
  ultimately have g: "goes (Running_Cases i) s (flow_state r4) (Tearing_Down i)" by (rule goes_trans)
  have "goes (Tearing_Down i) s4 (notify OnEnvironmentsTearDownEnd s4) (Torn_Down i)" for s4
    by (rule goes_notify) (simp add: protocol_simps)
  then show ?thesis
    using assms r4 g goes_trans by (cases r4) (fastforce simp: tear_down_environments_def)+
qed

lemma goes_run_selected:
  assumes "run_selected w i' s = Inr r"
  shows "case r of Returned s' \<Rightarrow> goes (Iteration_Started i) s s' (Torn_Down i)
    | Thrown d s' \<Rightarrow> \<exists>ph \<in> {Setting_Up i, Tearing_Down i}. goes (Iteration_Started i) s s' ph"
proof -
  have begun: "goes (Iteration_Started i) s (flow_state r1) (Setting_Up i)"
    if "run_environments w i' Set_Up_Environment envs (notify OnEnvironmentsSetUpStart s) = Inr r1" for r1 envs
  proof -
    have "goes (Iteration_Started i) s (notify OnEnvironmentsSetUpStart s) (Setting_Up i)"
      by (rule goes_notify) (simp add: protocol_simps)
    moreover have "goes (Setting_Up i) (notify OnEnvironmentsSetUpStart s) (flow_state r1) (Setting_Up i)"
      by (rule goes_run_environments [OF _ _ that]) (simp_all add: protocol_simps)
    ultimately show ?thesis by (rule goes_trans)
  qed
  from assms show ?thesis
  proof (cases rule: run_selected_elim)
    case (not_set_up d s1)
    then show ?thesis using begun by fastforce
  next
    case (set_up s1 s3)
    have "goes (Iteration_Started i) s s1 (Setting_Up i)" using begun [OF set_up(1)] by simp
    moreover have "goes (Setting_Up i) s1 (notify OnEnvironmentsSetUpEnd s1) (Running_Cases i)"
      by (rule goes_notify) (simp add: protocol_simps)
    moreover have "goes (Running_Cases i) (notify OnEnvironmentsSetUpEnd s1) s3 (Running_Cases i)"
      using set_up(2) by (auto intro: goes_run_cases split: if_splits)
    ultimately have "goes (Iteration_Started i) s s3 (Running_Cases i)" using goes_trans by blast
    then show ?thesis
      using goes_tear_down_environments [OF set_up(3), of i] by (cases r) (auto intro: goes_trans)
  qed
qed

lemma goes_run_iteration:
  assumes "run_iteration w has i s = Inr r"
  shows "case r of Returned (s', passed) \<Rightarrow> goes (Between_Iterations i) s s' (Between_Iterations (i + 1))
    | Thrown d s' \<Rightarrow> \<exists>ph \<in> {Setting_Up i, Tearing_Down i}. goes (Between_Iterations i) s s' ph"
proof -
  obtain start s1 where t: "GetTimeInMillis w (s\<lparr>run_unit := ClearNonAdHocTestResult (run_unit s)\<rparr>) = (start, s1)"
    by fastforce
  obtain s2 where s2: "start_iteration w has i s1 = Inr s2"
    using assms t by (auto simp: run_iteration_def Let_def bind_res_eq_Inr)
  obtain r1 where r1: "(if has then run_selected w i s2 else Inr (Returned s2)) = Inr r1"
    using assms t s2 by (auto simp: run_iteration_def Let_def bind_res_eq_Inr)
  have "run_events s2 = run_events s1 @ [OnTestIterationStart i]"
    using s2 by (auto simp: start_iteration_def bind_res_eq_Inr)
  then have g: "goes (Between_Iterations i) s s2 (Iteration_Started i)"
    using t by (simp add: goes_def protocol_simps)
  have ended: "goes ph s3 s' (Between_Iterations (i + 1))"
    if "end_iteration w i start s3 = Inr (s', passed)" "ph = Torn_Down i \<or> ph = Iteration_Started i" for ph s3 s' passed
    using that by (auto simp: end_iteration_def Let_def bind_res_eq_Inr goes_def protocol_simps split: prod.splits)
  show ?thesis
  proof (cases r1)
    case (Thrown d s3)
    then have "run_selected w i s2 = Inr r1" "r = Thrown d s3"
      using r1 assms t s2 by (auto simp: run_iteration_def Let_def split: if_splits)
    with goes_run_selected [of w i s2 r1 i] Thrown g show ?thesis by (auto intro: goes_trans)
  next
    case (Returned s3)
    obtain s' passed where e: "end_iteration w i start s3 = Inr (s', passed)" "r = Returned (s', passed)"
      using r1 assms t s2 Returned by (auto simp: run_iteration_def Let_def bind_res_eq_Inr)
    obtain ph where "goes (Iteration_Started i) s2 s3 ph" "ph = Torn_Down i \<or> ph = Iteration_Started i"
      using r1 Returned goes_run_selected [of w i s2 r1 i] that [of "Iteration_Started i"] that [of "Torn_Down i"]
      by (cases has) auto
    then show ?thesis using goes_trans [OF goes_trans [OF g] ended [OF e(1)]] e(2) by auto
  qed
qed

lemma goes_iteration_loop:
  assumes "iteration_loop w has rep i failed s = Some r"
  shows "\<forall>flow. r = Inr flow \<longrightarrow> (case flow of
      Returned (s', failed') \<Rightarrow> \<exists>n. goes (Between_Iterations i) s s' (Between_Iterations n)
    | Thrown d s' \<Rightarrow> \<exists>n. \<exists>ph \<in> {Setting_Up n, Tearing_Down n}. goes (Between_Iterations i) s s' ph)"
  using assms
proof (induction w has rep i failed s r rule: iteration_loop.raw_induct [rotated, consumes 1, case_names step])
  case (step loop w has rep i failed s r)
  show ?case
  proof (cases "rep < 0 \<or> i \<noteq> rep")
    case False
    then have "r = Inr (Returned (s, failed))" using step(2) by simp
    moreover have "\<exists>n. goes (Between_Iterations i) s s (Between_Iterations n)" by (rule exI [of _ i]) simp
    ultimately show ?thesis by simp
  next
    case True
    show ?thesis
    proof (intro allI impI)
      fix flow assume r: "r = Inr flow"
      obtain r1 where it: "run_iteration w has i s = Inr r1"
        using step(2) True r by (auto split: sum.splits)
      show "case flow of
          Returned (s', failed') \<Rightarrow> \<exists>n. goes (Between_Iterations i) s s' (Between_Iterations n)
        | Thrown d s' \<Rightarrow> \<exists>n. \<exists>ph \<in> {Setting_Up n, Tearing_Down n}. goes (Between_Iterations i) s s' ph"
      proof (cases r1)
        case (Thrown d s')
        then show ?thesis using step(2) True r it goes_run_iteration [OF it] by auto
      next
        case (Returned sp)
        obtain s1 p where sp: "sp = (s1, p)" by fastforce
        then have "goes (Between_Iterations i) s s1 (Between_Iterations (i + 1))"
          using goes_run_iteration [OF it] Returned by simp
        moreover have "loop w has rep (i + 1) (failed \<or> \<not> p) s1 = Some r"
          using step(2) True r it Returned sp by (auto split: if_splits)
        ultimately show ?thesis
          using step(1) [of w has rep "i + 1" "failed \<or> \<not> p" s1 r] r by (cases flow) (auto intro: goes_trans)
      qed
    qed
  qed
qed


lemma goes_RunAllTests:
  assumes "RunAllTests w initialized hf s = Some (Inr flow)"
  shows "case flow of
      Returned (out, ok, s') \<Rightarrow> run_events s' = run_events s \<or> goes Not_Started s s' Ended
    | Thrown d s' \<Rightarrow> \<exists>n. \<exists>ph \<in> {Setting_Up n, Tearing_Down n}. goes Not_Started s s' ph"
proof (cases "initialized \<and> \<not> hf \<and> \<not> FLAG_list_tests (world_flags w)")
  case False
  then show ?thesis using assms by (auto simp: RunAllTests_def Let_def split: if_splits sum.splits)
next
  case True
  then obtain sh u n r where "FilterTests (world_env w) (world_flags w) sh (run_unit s) = Inr (u, n)"
    and loop: "iteration_loop w (n > 0) (if world_in_subprocess w then 1 else FLAG_repeat (world_flags w)) 0 False
        (start_program w u s) = Some r"
    and r: "bind_res r (\<lambda>flow. case flow of
                   Thrown d s' \<Rightarrow> Inr (Thrown d s')
                 | Returned (s', failed) \<Rightarrow> Inr (Returned ([], \<not> failed, notify OnTestProgramEnd s'))) = Inr flow"
    using assms by (auto simp: RunAllTests_def Let_def split: sum.splits prod.splits)
  obtain flow1 where f1: "r = Inr flow1" using r by (auto simp: bind_res_eq_Inr)
  have "run_events (start_program w u s) = run_events s @ [OnTestProgramStart]"
    by (auto simp: start_program_def Let_def split: prod.splits if_splits)
  then have g: "goes Not_Started s (start_program w u s) (Between_Iterations 0)"
    by (simp add: goes_def protocol_simps)
  show ?thesis
  proof (cases flow1)
    case (Thrown d s1)
    then obtain n ph where "ph \<in> {Setting_Up n, Tearing_Down n}"
      "goes (Between_Iterations 0) (start_program w u s) s1 ph"
      using goes_iteration_loop [OF loop] f1 by auto
    with goes_trans [OF g] have "\<exists>n. \<exists>ph \<in> {Setting_Up n, Tearing_Down n}. goes Not_Started s s1 ph" by blast
    then show ?thesis using f1 r Thrown by auto
  next
    case (Returned sf)
    obtain s1 failed where sf: "sf = (s1, failed)" by fastforce
    obtain n where "goes (Between_Iterations 0) (start_program w u s) s1 (Between_Iterations n)"
      using goes_iteration_loop [OF loop] f1 Returned sf by auto
    moreover have "goes (Between_Iterations n) s1 (notify OnTestProgramEnd s1) Ended"
      by (rule goes_notify) (simp add: protocol_simps)
    ultimately show ?thesis using goes_trans [OF goes_trans [OF g]] f1 r Returned sf by auto
  qed
qed

definition listener_event :: "event \<Rightarrow> bool" where
  "listener_event e \<longleftrightarrow> (case e of User_Call c \<Rightarrow> False | _ \<Rightarrow> True)"

definition heard_by :: "'l \<Rightarrow> ('l \<times> event) list \<Rightarrow> event list" where
  "heard_by l calls = map snd (filter (\<lambda>c. fst c = l) calls)"

lemma heard_by_append: "heard_by l (xs @ ys) = heard_by l xs @ heard_by l ys"
  by (simp add: heard_by_def)

lemma heard_by_once: "distinct ls \<Longrightarrow> heard_by l (map (\<lambda>l. (l, e)) ls) = (if l \<in> set ls then [e] else [])"
  by (induction ls) (auto simp: heard_by_def)

lemma set_repeater_hears:
  "set (repeater_hears r e) = (if forwarding_enabled r \<and> listener_event e then set (repeater_listeners r) else {})"
  by (cases e) (simp_all add: repeater_hears_def repeat_event_def repeat_event_reversed_def listener_event_def)

lemma distinct_repeater_hears: "distinct (repeater_listeners r) \<Longrightarrow> distinct (repeater_hears r e)"
  by (cases e) (simp_all add: repeater_hears_def repeat_event_def repeat_event_reversed_def)

lemma listeners_hear:
  assumes "listeners_ok L" and "EventForwardingEnabled L"
  shows "heard_by l (calls_of L es) =
    (if l \<in> set (repeater_listeners (listeners_repeater L)) then filter listener_event es else [])"
proof (induction es)
  case (Cons e es)
  have "distinct (repeater_hears (listeners_repeater L) e)"
    using assms(1) by (intro distinct_repeater_hears) (simp add: listeners_ok_def destroy_TestEventListeners_def)
  with Cons assms(2) show ?case
    by (simp add: calls_of_def heard_by_append heard_by_once set_repeater_hears EventForwardingEnabled_def)
qed (simp add: calls_of_def heard_by_def)

text \<open>
  C30. The listeners of a run: each registered listener hears every event once and in order, and the
  events follow the protocol of the interface. The program, the iterations (numbered from 0), the
  set-up of the environments, the test cases, their tests and the tear-down begin and end nested in
  each other, user code runs and assertions are reported only where the protocol has a place for
  them. Only an exception from an environment breaks the protocol off, with exit code 1.
\<close>

theorem listeners_hear_protocol:
  assumes "UnitTest_Run w initialized hf s = Some (Inr (out, code, s'))"
    and "listeners_ok L" and "EventForwardingEnabled L" and "l \<in> set (repeater_listeners (listeners_repeater L))"
  shows "\<exists>es ph. run_events s' = run_events s @ es \<and> heard_by l (calls_of L es) = filter listener_event es \<and>
    protocol_run Not_Started es = Some ph \<and>
    (ph = Ended \<or> es = [] \<or> code = 1 \<and> (\<exists>n. ph = Setting_Up n \<or> ph = Tearing_Down n))"
proof -
  let ?caught = "FLAG_catch_exceptions (world_flags w)"
  let ?s = "s\<lparr>run_unit := (run_unit s)\<lparr>unit_catch_exceptions := ?caught\<rparr>\<rparr>"
  obtain flow where run: "RunAllTests w initialized hf ?s = Some (Inr flow)"
    using assms(1) by (auto simp: UnitTest_Run_def Let_def bind_res_eq_Inr)
  have "run_events s' = run_events s \<or> (\<exists>ph. goes Not_Started ?s s' ph \<and>
      (ph = Ended \<or> code = 1 \<and> (\<exists>n. ph = Setting_Up n \<or> ph = Tearing_Down n)))"
  proof (cases flow)
    case (Returned x)
    then show ?thesis
      using assms(1) run goes_RunAllTests [OF run] by (cases x) (auto simp: UnitTest_Run_def Let_def)
  next
    case (Thrown d s1)
    then obtain n ph where ph: "ph = Setting_Up n \<or> ph = Tearing_Down n" "goes Not_Started ?s s1 ph"
      using goes_RunAllTests [OF run] by auto
    have "code = 1" "AddTestPartResult w kFatalFailure None (- 1)
        (FormatCxxExceptionMessage d ''auxiliary test code (environments or event listeners)'') [] s1 = Inr s'"
      using assms(1) run Thrown
      by (auto simp: UnitTest_Run_def Let_def ReportFailureInUnknownLocation_def bind_res_eq_Inr split: if_splits)
    moreover have "user_phase ph" using ph(1) by auto
    ultimately show ?thesis using ph goes_trans [OF ph(2) goes_AddTestPartResult] by blast
  qed
  then show ?thesis
    using listeners_hear [OF assms(2,3), of l] assms(4) by (auto simp: goes_def)
qed

theorem listeners_hear_protocol_witness:
  "\<exists>es ph. length es > 10 \<and> heard_by (5 :: nat) (calls_of (listeners_Append 5 (SetDefaultResultPrinter (Some 7)
    TestEventListeners)) es) = filter listener_event es \<and> protocol_run Not_Started es = Some Ended"
proof -
  obtain u out s' where u: "UnitTest_Run sample_world True False (sample_state u) = Some (Inr (out, 0, s'))"
    "length (run_events s') > 10"
    using sample_run by metis
  let ?L = "listeners_Append 5 (SetDefaultResultPrinter (Some 7) TestEventListeners) :: nat event_listeners"
  have "listeners_ok ?L" "EventForwardingEnabled ?L" "5 \<in> set (repeater_listeners (listeners_repeater ?L))"
    by (simp_all add: listeners_ok_def destroy_TestEventListeners_def listeners_Append_def repeater_Append_def
      SetDefaultResultPrinter_def TestEventListeners_def TestEventRepeater_def listeners_Release_def
      delete_listener_def EventForwardingEnabled_def)
  from listeners_hear_protocol [OF u(1) this] u(2) show ?thesis
    by (auto simp: sample_state_def)
qed

end
