(* ===== verification/Gtest_File_Path.thy ===== *)
theory Gtest_File_Path
  imports Gtest_Filter Gtest_String "HOL-Library.Sublist"
begin

text \<open>
  The class \<open>FilePath\<close> of the unit-test framework (\<open>gtest/src/gtest-filepath.cc\<close>, the branches for
  UNIX) and the name of the report file (\<open>gtest.cc\<close>). A \<open>FilePath\<close> is its \<open>pathname_\<close>. The file
  system is a state of any type with the two system calls the class uses; the specification sees a
  path as the list of the names it leads through.
\<close>

section \<open>Paths\<close>

abbreviation kPathSeparator :: char where "kPathSeparator \<equiv> CHR ''/''"

definition kCurrentDirectoryString :: string where "kCurrentDirectoryString = ''./''"

definition IsPathSeparator :: "char \<Rightarrow> bool" where
  "IsPathSeparator c \<longleftrightarrow> c = kPathSeparator"

function normalize_loop :: "string \<Rightarrow> string" where
  "normalize_loop [] = []"
| "normalize_loop (c # src) =
     (if \<not> IsPathSeparator c then c # normalize_loop src
      else c # normalize_loop (dropWhile IsPathSeparator (c # src)))"
  by pat_completeness auto
termination by (relation "measure length") (auto simp: le_imp_less_Suc length_dropWhile_le)

definition Normalize :: "string \<Rightarrow> string" where
  "Normalize pathname = normalize_loop (c_str pathname)"

text \<open>The constructor from a string.\<close>

definition FilePath :: "string \<Rightarrow> string" where
  "FilePath pathname = Normalize pathname"

definition IsEmpty :: "string \<Rightarrow> bool" where
  "IsEmpty p \<longleftrightarrow> p = []"

definition RemoveExtension :: "string \<Rightarrow> string \<Rightarrow> string" where
  "RemoveExtension extension p =
     (let dot_extension = ''.'' @ extension in
      if EndsWithCaseInsensitive p dot_extension
      then FilePath (take (length p - length dot_extension) p) else p)"

text \<open>\<open>strrchr\<close>: the position of the last occurrence in a C string.\<close>

definition strrchr :: "string \<Rightarrow> char \<Rightarrow> nat option" where
  "strrchr s c =
     (let t = dropWhile (\<lambda>x. x \<noteq> c) (rev (c_str s)) in if t = [] then None else Some (length t - 1))"

definition FindLastPathSeparator :: "string \<Rightarrow> nat option" where
  "FindLastPathSeparator p = strrchr p kPathSeparator"

definition RemoveDirectoryName :: "string \<Rightarrow> string" where
  "RemoveDirectoryName p =
     (case FindLastPathSeparator p of Some last_sep \<Rightarrow> FilePath (drop (last_sep + 1) p) | None \<Rightarrow> p)"

definition RemoveFileName :: "string \<Rightarrow> string" where
  "RemoveFileName p =
     (let dir = (case FindLastPathSeparator p of
                   Some last_sep \<Rightarrow> take (last_sep + 1) p
                 | None \<Rightarrow> kCurrentDirectoryString)
      in FilePath dir)"

definition IsDirectory :: "string \<Rightarrow> bool" where
  "IsDirectory p \<longleftrightarrow> p \<noteq> [] \<and> IsPathSeparator (p ! (length p - 1))"

definition RemoveTrailingPathSeparator :: "string \<Rightarrow> string" where
  "RemoveTrailingPathSeparator p = (if IsDirectory p then FilePath (take (length p - 1) p) else p)"

definition ConcatPaths :: "string \<Rightarrow> string \<Rightarrow> string" where
  "ConcatPaths directory relative_path =
     (if IsEmpty directory then relative_path
      else (let dir = RemoveTrailingPathSeparator directory in
            FilePath (dir @ [kPathSeparator] @ relative_path)))"

definition MakeFileName :: "string \<Rightarrow> string \<Rightarrow> int \<Rightarrow> string \<Rightarrow> string" where
  "MakeFileName directory base_name number extension =
     (let file_name = (if number = 0 then base_name @ ''.'' @ extension
                  else base_name @ ''_'' @ dec_of_int number @ ''.'' @ extension)
      in ConcatPaths directory (FilePath file_name))"

definition IsRootDirectory :: "string \<Rightarrow> bool" where
  "IsRootDirectory p \<longleftrightarrow> length p = 1 \<and> IsPathSeparator (p ! 0)"

text \<open>\<open>name[0]\<close> of an empty name is its terminator.\<close>

definition IsAbsolutePath :: "string \<Rightarrow> bool" where
  "IsAbsolutePath p \<longleftrightarrow> p \<noteq> [] \<and> IsPathSeparator (p ! 0)"

section \<open>The file system\<close>

text \<open>
  \<open>stat\<close> fails or tells whether the path is a directory, \<open>mkdir\<close> returns 0 or -1.
\<close>

record 'fs path_ops =
  fs_stat :: "'fs \<Rightarrow> string \<Rightarrow> bool option"
  fs_mkdir :: "'fs \<Rightarrow> string \<Rightarrow> 'fs \<times> int"
  fs_getcwd :: "string option"

definition GetCurrentDir :: "'fs path_ops \<Rightarrow> string" where
  "GetCurrentDir K = FilePath (case fs_getcwd K of None \<Rightarrow> [] | Some cwd \<Rightarrow> cwd)"

definition FileOrDirectoryExists :: "'fs path_ops \<Rightarrow> 'fs \<Rightarrow> string \<Rightarrow> bool" where
  "FileOrDirectoryExists K fs p \<longleftrightarrow> fs_stat K fs p \<noteq> None"

definition DirectoryExists :: "'fs path_ops \<Rightarrow> 'fs \<Rightarrow> string \<Rightarrow> bool" where
  "DirectoryExists K fs p \<longleftrightarrow> fs_stat K fs p = Some True"

definition CreateFolder :: "'fs path_ops \<Rightarrow> 'fs \<Rightarrow> string \<Rightarrow> 'fs \<times> bool" where
  "CreateFolder K fs p =
     (let (fs', result) = fs_mkdir K fs p in
      if result = - 1 then (fs', DirectoryExists K fs' p) else (fs', True))"

partial_function (option) CreateDirectoriesRecursively ::
  "'fs path_ops \<Rightarrow> 'fs \<Rightarrow> string \<Rightarrow> ('fs \<times> bool) option" where
  "CreateDirectoriesRecursively K fs p =
     (if \<not> IsDirectory p then Some (fs, False)
      else if length p = 0 \<or> DirectoryExists K fs p then Some (fs, True)
      else Option.bind
        (CreateDirectoriesRecursively K fs (RemoveFileName (RemoveTrailingPathSeparator p)))
        (\<lambda>(fs', created). if created then Some (CreateFolder K fs' p) else Some (fs', False)))"

text \<open>The counter is an \<open>int\<close> that is advanced before the name is looked up.\<close>

function unique_loop :: "'fs path_ops \<Rightarrow> 'fs \<Rightarrow> string \<Rightarrow> string \<Rightarrow> string \<Rightarrow> int \<Rightarrow> string res" where
  "unique_loop K fs directory base_name extension number =
     (let full_pathname = MakeFileName directory base_name number extension in
      if 2 ^ 31 - 1 \<le> number then Inl SignedOverflow
      else if FileOrDirectoryExists K fs full_pathname
        then unique_loop K fs directory base_name extension (number + 1)
      else Inr full_pathname)"
  by pat_completeness auto
termination by (relation "measure (\<lambda>(K, fs, d, b, e, number). nat (2 ^ 31 - number))") auto

declare unique_loop.simps [simp del]

definition GenerateUniqueFileName :: "'fs path_ops \<Rightarrow> 'fs \<Rightarrow> string \<Rightarrow> string \<Rightarrow> string \<Rightarrow> string res" where
  "GenerateUniqueFileName K fs directory base_name extension =
     unique_loop K fs directory base_name extension 0"

section \<open>The name of the report\<close>

definition kDefaultOutputFile :: string where "kDefaultOutputFile = ''test_detail.xml''"

definition GetCurrentExecutableName :: "string \<Rightarrow> string" where
  "GetCurrentExecutableName g_executable_path = RemoveDirectoryName (FilePath g_executable_path)"

definition GetAbsolutePathToOutputFile ::
  "'fs path_ops \<Rightarrow> 'fs \<Rightarrow> string \<Rightarrow> string \<Rightarrow> string \<Rightarrow> string res" where
  "GetAbsolutePathToOutputFile K fs original_working_dir g_executable_path gtest_output_flag =
     (case strchr gtest_output_flag CHR '':'' of
        None \<Rightarrow> Inr (ConcatPaths (FilePath original_working_dir) (FilePath kDefaultOutputFile))
      | Some colon \<Rightarrow>
          (let output_name = FilePath (drop 1 colon);
               output_name = (if \<not> IsAbsolutePath output_name
                  then ConcatPaths (FilePath original_working_dir) (FilePath (drop 1 colon)) else output_name)
           in if \<not> IsDirectory output_name then Inr output_name
              else GenerateUniqueFileName K fs output_name (GetCurrentExecutableName g_executable_path)
                (GetOutputFormat gtest_output_flag)))"

section \<open>Normalized paths\<close>

fun normalized :: "string \<Rightarrow> bool" where
  "normalized [] = True"
| "normalized [c] = (c \<noteq> NUL)"
| "normalized (c # d # s) =
     (c \<noteq> NUL \<and> \<not> (IsPathSeparator c \<and> IsPathSeparator d) \<and> normalized (d # s))"

lemma IsPathSeparator_iff [simp]: "IsPathSeparator c \<longleftrightarrow> c = CHR ''/''"
  by (simp add: IsPathSeparator_def)

lemma normalized_no_NUL: "normalized p \<Longrightarrow> NUL \<notin> set p"
  by (induction p rule: normalized.induct) auto

lemma normalized_Cons: "normalized (c # s) \<longleftrightarrow>
    c \<noteq> NUL \<and> normalized s \<and> \<not> (c = CHR ''/'' \<and> (\<exists>t. s = CHR ''/'' # t))"
  by (cases s) auto

lemma normalized_append: "normalized (s @ t) \<Longrightarrow> normalized s \<and> normalized t"
proof (induction s)
  case (Cons c s)
  then show ?case by (auto simp: normalized_Cons)
qed simp

lemma normalize_loop_normalized: "NUL \<notin> set s \<Longrightarrow> normalized (normalize_loop s)"
proof (induction s rule: normalize_loop.induct)
  case (2 c src)
  show ?case
  proof (cases "c = CHR ''/''")
    case True
    have "NUL \<notin> set (dropWhile IsPathSeparator (c # src))"
      using 2(3) set_dropWhileD by fastforce
    with True 2 have "normalized (normalize_loop (dropWhile IsPathSeparator (c # src)))" by simp
    moreover have "normalize_loop (dropWhile IsPathSeparator (c # src)) \<noteq> CHR ''/'' # t" for t
    proof -
      obtain u where u: "dropWhile IsPathSeparator (c # src) = u" by blast
      have "u = [] \<or> (\<exists>x xs. u = x # xs \<and> x \<noteq> CHR ''/'')"
        using u dropWhile_eq_Cons_conv [of IsPathSeparator "c # src"]
        by (cases u) (simp_all only: IsPathSeparator_iff, blast+)
      then show ?thesis unfolding u by auto
    qed
    ultimately show ?thesis using True by (simp add: normalized_Cons)
  next
    case False
    with 2 show ?thesis by (auto simp: normalized_Cons)
  qed
qed simp

lemma normalize_loop_id: "normalized s \<Longrightarrow> normalize_loop s = s"
proof (induction s rule: normalize_loop.induct)
  case (2 c src)
  show ?case
  proof (cases "c = CHR ''/''")
    case True
    then have "dropWhile IsPathSeparator (c # src) = src"
      using 2(3) by (cases src) (auto simp: normalized_Cons)
    with True 2 show ?thesis by (simp add: normalized_Cons)
  next
    case False
    with 2 show ?thesis by (simp add: normalized_Cons)
  qed
qed simp

lemma normalized_FilePath [simp]: "normalized (FilePath s)"
  by (simp add: FilePath_def Normalize_def normalize_loop_normalized c_str_no_NUL)

lemma FilePath_id: "normalized p \<Longrightarrow> FilePath p = p"
  by (simp add: FilePath_def Normalize_def normalize_loop_id c_str_id normalized_no_NUL)

lemma IsDirectory_iff: "IsDirectory p \<longleftrightarrow> (\<exists>t. p = t @ ''/'')"
  by (cases p rule: rev_cases) (auto simp: IsDirectory_def)

lemma RemoveTrailing_directory: "normalized (t @ ''/'') \<Longrightarrow> RemoveTrailingPathSeparator (t @ ''/'') = t"
  using normalized_append [of t "''/''"] by (simp add: RemoveTrailingPathSeparator_def IsDirectory_iff FilePath_id)

lemma strrchr_Some: "NUL \<notin> set a \<Longrightarrow> NUL \<notin> set b \<Longrightarrow> c \<notin> set b \<Longrightarrow> c \<noteq> NUL \<Longrightarrow>
    strrchr (a @ c # b) c = Some (length a)"
proof -
  assume a: "NUL \<notin> set a" "NUL \<notin> set b" "c \<notin> set b" "c \<noteq> NUL"
  then have "c_str (a @ c # b) = a @ c # b" by (simp add: c_str_id)
  moreover have "dropWhile (\<lambda>x. x \<noteq> c) (rev b @ c # rev a) = c # rev a"
    using a(3) by (subst dropWhile_append2) auto
  ultimately show ?thesis by (simp add: strrchr_def)
qed

lemma strrchr_None: "c \<notin> set s \<Longrightarrow> strrchr s c = None"
proof -
  assume "c \<notin> set s"
  then have "\<forall>x \<in> set (rev (c_str s)). x \<noteq> c" using set_takeWhileD by (fastforce simp: c_str_def)
  then show ?thesis by (simp add: strrchr_def)
qed

lemma RemoveFileName_parent:
  assumes "normalized (d @ ''/'' @ n)" and "CHR ''/'' \<notin> set n"
  shows "RemoveFileName (d @ ''/'' @ n) = d @ ''/''"
proof -
  have "NUL \<notin> set (d @ ''/'' @ n)" using assms(1) by (rule normalized_no_NUL)
  then have "strrchr (d @ ''/'' @ n) CHR ''/'' = Some (length d)"
    using strrchr_Some [of d n "CHR ''/''"] assms(2) by simp
  moreover have "normalized (d @ ''/'')" using normalized_append [of "d @ ''/''" n] assms(1) by simp
  ultimately show ?thesis by (simp add: RemoveFileName_def FindLastPathSeparator_def FilePath_id)
qed

lemma RemoveFileName_none: "CHR ''/'' \<notin> set n \<Longrightarrow> RemoveFileName n = ''./''"
  by (simp add: RemoveFileName_def FindLastPathSeparator_def strrchr_None kCurrentDirectoryString_def FilePath_id)

text \<open>The parent that \<open>CreateDirectoriesRecursively\<close> goes on with.\<close>

lemma parent_cases:
  assumes "normalized p" and "IsDirectory p"
  obtains (inside) d n where "p = d @ ''/'' @ n @ ''/''" and "CHR ''/'' \<notin> set n" and "n \<noteq> []"
      and "RemoveFileName (RemoveTrailingPathSeparator p) = d @ ''/''" and "normalized (d @ ''/'')"
  | (top) n where "p = n @ ''/''" and "CHR ''/'' \<notin> set n"
      and "RemoveFileName (RemoveTrailingPathSeparator p) = ''./''"
proof -
  obtain t where p: "p = t @ ''/''" using assms(2) by (auto simp: IsDirectory_iff)
  then have t: "RemoveTrailingPathSeparator p = t" using RemoveTrailing_directory assms(1) by simp
  show ?thesis
  proof (cases "CHR ''/'' \<in> set t")
    case True
    then obtain d n where s: "t = d @ CHR ''/'' # n" "CHR ''/'' \<notin> set n" by (meson split_list_last)
    have nt: "normalized (d @ ''/'' @ n)" using normalized_append [of t "''/''"] assms(1) p s(1) by simp
    have "n \<noteq> []"
    proof
      assume "n = []"
      then have "normalized (''/'' @ ''/'')" using normalized_append [of d "''//''"] assms(1) p s(1) by simp
      then show False by simp
    qed
    then show ?thesis
      using inside [of d n] RemoveFileName_parent [OF nt s(2)] normalized_append [of "d @ ''/''" n] p s t nt by simp
  next
    case False
    then show ?thesis using top [of t] RemoveFileName_none p t by simp
  qed
qed

section \<open>Where a path leads\<close>

fun path_parts :: "string \<Rightarrow> string list" where
  "path_parts [] = [[]]"
| "path_parts (c # s) =
     (if IsPathSeparator c then [] # path_parts s
      else (case path_parts s of [] \<Rightarrow> [[c]] | p # ps \<Rightarrow> (c # p) # ps))"

definition path_names :: "string \<Rightarrow> string list" where
  "path_names p = filter (\<lambda>n. n \<noteq> [] \<and> n \<noteq> ''.'') (path_parts p)"

definition location :: "string list \<Rightarrow> string \<Rightarrow> string list" where
  "location cwd p = (if IsAbsolutePath p then [] else cwd) @ path_names p"

text \<open>The path's last name is a dot: \<open>mkdir\<close> cannot make it.\<close>

definition ends_in_dot :: "string \<Rightarrow> bool" where
  "ends_in_dot p \<longleftrightarrow> (let ns = filter (\<lambda>n. n \<noteq> []) (path_parts p) in ns \<noteq> [] \<and> last ns = ''.'')"

text \<open>
  A file system as POSIX describes it, without links, without folders that may not be searched and
  without limits on names: \<open>entry\<close> tells for the list of names from the root whether it is a
  directory (\<open>Some True\<close>), another file or nothing, \<open>may\<close> which directories the process is allowed
  to make. Of a path that is not empty, \<open>stat\<close> finds what its names lead to, a dot leading nowhere.
  \<open>mkdir\<close> makes one directory in a directory; it fails for what exists, below what is no
  directory, and for a last name that is a dot.
\<close>

definition plain_kernel ::
  "'fs path_ops \<Rightarrow> ('fs \<Rightarrow> string list \<Rightarrow> bool option) \<Rightarrow> string list \<Rightarrow> (string list \<Rightarrow> bool) \<Rightarrow> bool" where
  "plain_kernel K entry cwd may \<longleftrightarrow> (\<forall>fs p. p \<noteq> [] \<longrightarrow> ''..'' \<notin> set (path_parts p) \<longrightarrow>
     (fs_stat K fs p = Some True \<longleftrightarrow> entry fs (location cwd p) = Some True) \<and>
     (let l = location cwd p in
      if \<not> ends_in_dot p \<and> entry fs l = None \<and> l \<noteq> [] \<and> entry fs (butlast l) = Some True \<and> may l
      then snd (fs_mkdir K fs p) = 0 \<and> entry (fst (fs_mkdir K fs p)) = (entry fs)(l \<mapsto> True)
      else snd (fs_mkdir K fs p) = - 1 \<and> entry (fst (fs_mkdir K fs p)) = entry fs))"

definition tree_ok :: "(string list \<Rightarrow> bool option) \<Rightarrow> bool" where
  "tree_ok e \<longleftrightarrow> e [] = Some True \<and> (\<forall>l n. e (l @ [n]) \<noteq> None \<longrightarrow> e l = Some True)"

definition creatable :: "(string list \<Rightarrow> bool option) \<Rightarrow> (string list \<Rightarrow> bool) \<Rightarrow> string list \<Rightarrow> bool" where
  "creatable e may l \<longleftrightarrow> (\<forall>q \<in> set (prefixes l). e q = Some True \<or> e q = None \<and> may q)"

definition with_directories :: "(string list \<Rightarrow> bool option) \<Rightarrow> string list \<Rightarrow> string list \<Rightarrow> bool option" where
  "with_directories e l = (\<lambda>q. if prefix q l then Some True else e q)"

lemma path_parts_not_Nil: "path_parts s \<noteq> []"
  by (induction s) (auto split: list.splits)

lemma path_parts_append: "path_parts (a @ CHR ''/'' # b) = path_parts a @ path_parts b"
proof (induction a)
  case (Cons c a)
  then show ?case using path_parts_not_Nil [of a] by (auto split: list.splits)
qed simp

lemma path_parts_name: "CHR ''/'' \<notin> set n \<Longrightarrow> path_parts n = [n]"
  by (induction n) auto

lemma path_names_append: "path_names (a @ CHR ''/'' # b) = path_names a @ path_names b"
  by (simp add: path_names_def path_parts_append)

lemma path_names_name: "CHR ''/'' \<notin> set n \<Longrightarrow> path_names n = (if n = [] \<or> n = ''.'' then [] else [n])"
  by (simp add: path_names_def path_parts_name)

lemma path_names_Nil [simp]: "path_names [] = []"
  by (simp add: path_names_def)

lemma location_inside:
  assumes "CHR ''/'' \<notin> set n" and "n \<noteq> []"
  shows "location cwd (d @ ''/'' @ n @ ''/'') = location cwd (d @ ''/'') @ (if n = ''.'' then [] else [n])"
proof -
  have "IsAbsolutePath (d @ ''/'' @ n @ ''/'') = IsAbsolutePath (d @ ''/'')"
    by (cases d) (auto simp: IsAbsolutePath_def)
  moreover have "path_names (d @ ''/'' @ n @ ''/'') = path_names d @ (if n = ''.'' then [] else [n])"
    using path_names_append [of d "n @ ''/''"] path_names_append [of n "[]"] path_names_name [OF assms(1)] assms(2) by simp
  moreover have "path_names (d @ ''/'') = path_names d" using path_names_append [of d "[]"] by simp
  ultimately show ?thesis by (simp add: location_def)
qed

lemma location_top:
  assumes "CHR ''/'' \<notin> set n"
  shows "location cwd (n @ ''/'') = (if n = [] then [] else if n = ''.'' then cwd else cwd @ [n])"
proof -
  have "IsAbsolutePath (n @ ''/'') \<longleftrightarrow> n = []"
    using assms by (cases n) (auto simp: IsAbsolutePath_def)
  moreover have "path_names (n @ ''/'') = (if n = [] \<or> n = ''.'' then [] else [n])"
    using path_names_append [of n "[]"] path_names_name [OF assms] by simp
  ultimately show ?thesis by (simp add: location_def)
qed

lemma ends_in_dot_last: "CHR ''/'' \<notin> set n \<Longrightarrow> n \<noteq> [] \<Longrightarrow> ends_in_dot (n @ ''/'') \<longleftrightarrow> n = ''.''"
  using path_parts_append [of n "[]"] path_parts_name [of n] by (simp add: ends_in_dot_def)

lemma ends_in_dot_inside:
  assumes "CHR ''/'' \<notin> set n" and "n \<noteq> []"
  shows "ends_in_dot (d @ ''/'' @ n @ ''/'') \<longleftrightarrow> n = ''.''"
  using path_parts_append [of d "n @ ''/''"] path_parts_append [of n "[]"] path_parts_name [OF assms(1)] assms(2)
  by (simp add: ends_in_dot_def)

section \<open>Making directories\<close>

lemma tree_prefix:
  assumes "tree_ok e" and "e l \<noteq> None"
  shows "q \<noteq> l \<Longrightarrow> prefix q l \<Longrightarrow> e q = Some True"
  using assms(2)
proof (induction l arbitrary: q rule: rev_induct)
  case (snoc n l)
  have l: "e l = Some True" using assms(1) snoc.prems(3) by (auto simp: tree_ok_def)
  from snoc.prems(1,2) have "prefix q l" by (simp add: prefix_snoc)
  then show ?case using snoc.IH [of q] l by (cases "q = l") auto
qed simp

lemma creatable_exists: "tree_ok e \<Longrightarrow> e l = Some True \<Longrightarrow> creatable e may l \<and> with_directories e l = e"
proof -
  assume "tree_ok e" "e l = Some True"
  then have "e q = Some True" if "prefix q l" for q
    using that tree_prefix [of e l q] by (cases "q = l") auto
  then show ?thesis by (auto simp: creatable_def with_directories_def)
qed

lemma creatable_snoc: "creatable e may (l @ [n]) \<longleftrightarrow>
    creatable e may l \<and> (e (l @ [n]) = Some True \<or> e (l @ [n]) = None \<and> may (l @ [n]))"
  by (auto simp: creatable_def)

text \<open>What a call leaves: \<open>l\<close> is where the path leads.\<close>

definition made ::
  "('fs \<Rightarrow> string list \<Rightarrow> bool option) \<Rightarrow> (string list \<Rightarrow> bool) \<Rightarrow> 'fs \<Rightarrow> string list \<Rightarrow> ('fs \<times> bool) option \<Rightarrow> bool" where
  "made entry may fs l r \<longleftrightarrow> (\<exists>fs'. r = Some (fs', creatable (entry fs) may l) \<and>
     (creatable (entry fs) may l \<longrightarrow> entry fs' = with_directories (entry fs) l) \<and>
     (\<forall>q. entry fs q \<noteq> None \<longrightarrow> entry fs' q = entry fs q))"

lemma CreateFolder_made:
  assumes "plain_kernel K entry cwd may" and "''..'' \<notin> set (path_parts p)" and "tree_ok (entry fs)"
    and "entry fs (location cwd p) \<noteq> Some True"
    and "location cwd p = lq \<or> location cwd p = lq @ [n] \<and> \<not> ends_in_dot p" and "p \<noteq> []"
    and "made entry may fs lq r"
  shows "made entry may fs (location cwd p)
    (Option.bind r (\<lambda>(fs', created). if created then Some (CreateFolder K fs' p) else Some (fs', False)))"
proof -
  let ?l = "location cwd p" and ?e = "entry fs"
  obtain fs1 where fs1: "r = Some (fs1, creatable ?e may lq)"
    "creatable ?e may lq \<Longrightarrow> entry fs1 = with_directories ?e lq"
    "\<forall>q. ?e q \<noteq> None \<longrightarrow> entry fs1 q = ?e q"
    using assms(7) by (auto simp: made_def)
  show ?thesis
  proof (cases "creatable ?e may lq")
    case False
    then have "\<not> creatable ?e may ?l" using assms(5) by (auto simp: creatable_snoc)
    then show ?thesis using False fs1 by (simp add: made_def)
  next
    case True
    note e1 = fs1(2) [OF True]
    obtain fs2 k where mk: "fs_mkdir K fs1 p = (fs2, k)" by fastforce
    have law: "if \<not> ends_in_dot p \<and> entry fs1 ?l = None \<and> ?l \<noteq> [] \<and> entry fs1 (butlast ?l) = Some True \<and> may ?l
        then k = 0 \<and> entry fs2 = (entry fs1)(?l \<mapsto> True) else k = - 1 \<and> entry fs2 = entry fs1"
      and stat: "fs_stat K fs2 p = Some True \<longleftrightarrow> entry fs2 ?l = Some True"
      using assms(1,2,6) mk unfolding plain_kernel_def Let_def by (metis fst_conv snd_conv)+
    have folder: "CreateFolder K fs1 p = (fs2, k \<noteq> - 1 \<or> entry fs2 ?l = Some True)"
      using stat by (auto simp: CreateFolder_def mk DirectoryExists_def)
    show ?thesis
    proof (cases "?l = lq")
      case same: True
      have "entry fs1 ?l = Some True" by (simp add: e1 with_directories_def same)
      then have "k = - 1" "entry fs2 = entry fs1" using law by auto
      then show ?thesis
        using True fs1 same \<open>entry fs1 ?l = Some True\<close> by (auto simp: made_def folder e1)
    next
      case False
      then have l: "?l = lq @ [n]" "\<not> ends_in_dot p" using assms(5) by blast+
      have no: "\<not> prefix (lq @ [n]) lq" using prefix_length_le by fastforce
      have "entry fs1 ?l = ?e ?l" using no by (simp add: e1 with_directories_def l(1))
      moreover have "entry fs1 lq = Some True" by (simp add: e1 with_directories_def)
      ultimately have law': "if ?e ?l = None \<and> may ?l then k = 0 \<and> entry fs2 = (entry fs1)(?l \<mapsto> True)
          else k = - 1 \<and> entry fs2 = entry fs1"
        using law l by simp
      have ok: "creatable ?e may ?l \<longleftrightarrow> ?e ?l = None \<and> may ?l"
        using True assms(4) by (auto simp: l(1) creatable_snoc)
      show ?thesis
      proof (cases "?e ?l = None \<and> may ?l")
        case yes: True
        then have "entry fs2 = with_directories ?e ?l"
          using law' by (auto simp: e1 with_directories_def l(1) prefix_snoc)
        moreover have "\<forall>q. ?e q \<noteq> None \<longrightarrow> entry fs2 q = ?e q"
          using yes law' fs1(3) by auto
        ultimately show ?thesis using True fs1(1) folder law' yes ok by (auto simp: made_def)
      next
        case no: False
        then have "entry fs2 = entry fs1" "k = - 1" using law' by (auto split: if_splits)
        then show ?thesis
          using True fs1(1,3) folder ok no assms(4) \<open>entry fs1 ?l = ?e ?l\<close> by (auto simp: made_def)
      qed
    qed
  qed
qed

lemma directories_made:
  assumes "plain_kernel K entry cwd may" and "tree_ok (entry fs)" and "entry fs cwd = Some True"
    and "normalized p" and "IsDirectory p" and "''..'' \<notin> set (path_parts p)"
  shows "made entry may fs (location cwd p) (CreateDirectoriesRecursively K fs p)"
  using assms(4-6)
proof (induction "length p" arbitrary: p rule: less_induct)
  case less
  let ?CDR = "CreateDirectoriesRecursively K fs"
  have stat: "DirectoryExists K fs q \<longleftrightarrow> entry fs (location cwd q) = Some True"
    if "q \<noteq> []" "''..'' \<notin> set (path_parts q)" for q
    using assms(1) that by (simp add: plain_kernel_def DirectoryExists_def)
  have there: "made entry may fs (location cwd q) (?CDR q)"
    if q: "IsDirectory q" "''..'' \<notin> set (path_parts q)" "entry fs (location cwd q) = Some True" for q
  proof -
    have "?CDR q = Some (fs, True)"
      using q stat [of q] by (subst CreateDirectoriesRecursively.simps) (auto simp: IsDirectory_def)
    then show ?thesis
      using creatable_exists [OF assms(2) q(3)] by (simp add: made_def)
  qed
  show ?case
  proof (cases "entry fs (location cwd p) = Some True")
    case True
    with there less.prems show ?thesis by blast
  next
    case False
    then have step: "?CDR p = Option.bind (?CDR (RemoveFileName (RemoveTrailingPathSeparator p)))
        (\<lambda>(fs', created). if created then Some (CreateFolder K fs' p) else Some (fs', False))"
      using less.prems(2,3) stat [of p] by (subst CreateDirectoriesRecursively.simps) (auto simp: IsDirectory_def)
    have ne: "p \<noteq> []" using less.prems(2) by (simp add: IsDirectory_def)
    note folder = CreateFolder_made [OF assms(1) less.prems(3) assms(2) False]
    from less.prems(1,2) show ?thesis
    proof (cases rule: parent_cases)
      case (inside d n)
      have "path_parts p = path_parts d @ [n, []]"
        unfolding inside(1) using path_parts_append [of d "n @ ''/''"] path_parts_append [of n "[]"]
          path_parts_name [OF inside(2)] by simp
      moreover have "path_parts (d @ ''/'') = path_parts d @ [[]]" using path_parts_append [of d "[]"] by simp
      ultimately have "''..'' \<notin> set (path_parts (d @ ''/''))" using less.prems(3) by auto
      then have "made entry may fs (location cwd (d @ ''/'')) (?CDR (d @ ''/''))"
        using less.hyps [of "d @ ''/''"] inside(1,3,5) by (simp add: IsDirectory_iff)
      then show ?thesis
        unfolding step inside(4)
        using folder [of "location cwd (d @ ''/'')" n, OF _ ne] location_inside [OF inside(2,3), of cwd d]
          ends_in_dot_inside [OF inside(2,3), of d] inside(1) by auto
    next
      case (top n)
      have "location cwd p \<noteq> []" "location cwd p \<noteq> cwd"
        using False assms(2,3) unfolding tree_ok_def by metis+
      moreover have "location cwd p = (if n = [] then [] else if n = ''.'' then cwd else cwd @ [n])"
        unfolding top(1) by (rule location_top [OF top(2)])
      ultimately have l: "location cwd p = cwd @ [n]" "n \<noteq> []" "n \<noteq> ''.''" by (auto split: if_splits)
      then have dot: "\<not> ends_in_dot p" unfolding top(1) using ends_in_dot_last [OF top(2)] by simp
      have "location cwd ''./'' = cwd" using location_top [of "''.''" cwd] by simp
      then have "made entry may fs cwd (?CDR ''./'')"
        using there [of "''./''"] assms(3) by (simp add: IsDirectory_iff)
      then show ?thesis
        unfolding step top(3) using folder [of cwd n, OF _ ne] l(1) dot by simp
    qed
  qed
qed

text \<open>Without a current directory there is no end.\<close>

lemma returns_only_with_current_directory:
  assumes "CreateDirectoriesRecursively K fs p = Some r"
  shows "p = ''./'' \<longrightarrow> DirectoryExists K fs ''./''"
proof (rule CreateDirectoriesRecursively.raw_induct [where P = "\<lambda>K fs p r. p = ''./'' \<longrightarrow> DirectoryExists K fs ''./''", OF _ assms])
  fix rec :: "'a path_ops \<Rightarrow> 'a \<Rightarrow> string \<Rightarrow> ('a \<times> bool) option" and K fs p r
  assume IH: "\<And>K fs p r. rec K fs p = Some r \<Longrightarrow> p = ''./'' \<longrightarrow> DirectoryExists K fs ''./''"
    and step: "(if \<not> IsDirectory p then Some (fs, False)
      else if length p = 0 \<or> DirectoryExists K fs p then Some (fs, True)
      else Option.bind (rec K fs (RemoveFileName (RemoveTrailingPathSeparator p)))
        (\<lambda>(fs', created). if created then Some (CreateFolder K fs' p) else Some (fs', False))) = Some r"
  show "p = ''./'' \<longrightarrow> DirectoryExists K fs ''./''"
  proof
    assume p: "p = ''./''"
    have parent: "RemoveFileName (RemoveTrailingPathSeparator ''./'') = ''./''"
      using RemoveTrailing_directory [of "''.''"] RemoveFileName_none [of "''.''"] by simp
    show "DirectoryExists K fs ''./''"
    proof (rule ccontr)
      assume no: "\<not> DirectoryExists K fs ''./''"
      then have "rec K fs ''./'' \<noteq> None"
        using step p parent by (cases "rec K fs ''./''") (auto simp: IsDirectory_iff)
      with IH [of K fs "''./''"] no show False by auto
    qed
  qed
qed

section \<open>Names that are not taken\<close>

lemma unique_loop_result:
  assumes "number \<le> m" and "m < 2 ^ 31 - 1"
    and "\<And>k. number \<le> k \<Longrightarrow> k < m \<Longrightarrow> FileOrDirectoryExists K fs (MakeFileName d b k e)"
    and "\<not> FileOrDirectoryExists K fs (MakeFileName d b m e)"
  shows "unique_loop K fs d b e number = Inr (MakeFileName d b m e)"
  using assms(1,3)
proof (induction "nat (m - number)" arbitrary: number)
  case 0
  then have "number = m" by simp
  then show ?case using assms(2,4) by (subst unique_loop.simps) (simp add: Let_def)
next
  case (Suc n)
  then have "number < m" by simp
  moreover from this have "unique_loop K fs d b e (number + 1) = Inr (MakeFileName d b m e)"
    using Suc.hyps(2) Suc.prems(2) by (intro Suc.hyps(1)) auto
  ultimately show ?case
    using assms(2) Suc.prems(2) [of number] by (subst unique_loop.simps) (simp add: Let_def)
qed

lemma unique_loop_fresh: "unique_loop K fs d b e number = Inr p \<Longrightarrow> number < 2 ^ 31 - 1 \<Longrightarrow>
    \<not> FileOrDirectoryExists K fs p \<and> (\<exists>k. p = MakeFileName d b k e)"
proof (induction "nat (2 ^ 31 - number)" arbitrary: number rule: less_induct)
  case less
  show ?case
  proof (cases "FileOrDirectoryExists K fs (MakeFileName d b number e)")
    case True
    then have rest: "unique_loop K fs d b e (number + 1) = Inr p"
      using less.prems by (subst (asm) unique_loop.simps) (simp add: Let_def)
    moreover from rest have "number + 1 < 2 ^ 31 - 1"
      by (subst (asm) unique_loop.simps) (auto simp: Let_def split: if_splits)
    ultimately show ?thesis using less.prems(2) by (intro less.hyps) auto
  next
    case False
    then have "p = MakeFileName d b number e"
      using less.prems by (subst (asm) unique_loop.simps) (simp add: Let_def)
    with False show ?thesis by blast
  qed
qed

lemma absolute_FilePath: "p \<noteq> [] \<Longrightarrow> hd p = CHR ''/'' \<Longrightarrow> IsAbsolutePath (FilePath p)"
  by (cases p) (auto simp: IsAbsolutePath_def FilePath_def Normalize_def c_str_def)

lemma absolute_hd: "IsAbsolutePath p \<longleftrightarrow> p \<noteq> [] \<and> hd p = CHR ''/''"
  by (cases p) (auto simp: IsAbsolutePath_def)

lemma absolute_ConcatPaths:
  assumes "IsAbsolutePath d" and "normalized d"
  shows "IsAbsolutePath (ConcatPaths d r)" and "normalized (ConcatPaths d r)"
proof -
  have "d \<noteq> []" using assms(1) by (simp add: absolute_hd)
  then have c: "ConcatPaths d r = FilePath (RemoveTrailingPathSeparator d @ [CHR ''/''] @ r)"
    by (simp add: ConcatPaths_def IsEmpty_def)
  show "normalized (ConcatPaths d r)" by (simp add: c)
  have "hd (RemoveTrailingPathSeparator d @ [CHR ''/''] @ r) = CHR ''/''"
  proof (cases "IsDirectory d")
    case True
    then obtain t where "d = t @ ''/''" by (auto simp: IsDirectory_iff)
    then show ?thesis
      using assms RemoveTrailing_directory [of t] by (cases t) (auto simp: absolute_hd)
  qed (use assms \<open>d \<noteq> []\<close> in \<open>simp add: RemoveTrailingPathSeparator_def absolute_hd\<close>)
  then show "IsAbsolutePath (ConcatPaths d r)" by (simp add: c absolute_FilePath)
qed

lemma normalize_loop_last: "s \<noteq> [] \<Longrightarrow> last s = CHR ''/'' \<Longrightarrow> last (normalize_loop s) = CHR ''/''"
proof (induction s rule: normalize_loop.induct)
  case (2 c src)
  show ?case
  proof (cases "c = CHR ''/''")
    case True
    show ?thesis
    proof (cases "dropWhile IsPathSeparator (c # src) = []")
      case empty: True
      have "normalize_loop (c # src) = [c]" by (subst normalize_loop.simps(2), subst empty) (simp add: True)
      then show ?thesis using True by simp
    next
      case False
      then have "last (dropWhile IsPathSeparator (c # src)) = CHR ''/''"
        using 2(4) by (metis last_append takeWhile_dropWhile_id)
      with False True 2(2) have "last (normalize_loop (dropWhile IsPathSeparator (c # src))) = CHR ''/''" by simp
      moreover have "normalize_loop (c # src) = c # normalize_loop (dropWhile IsPathSeparator (c # src))"
        using True by simp
      moreover have "normalize_loop (dropWhile IsPathSeparator (c # src)) \<noteq> []"
        using False by (cases "dropWhile IsPathSeparator (c # src)") (auto split: if_splits)
      ultimately show ?thesis by simp
    qed
  next
    case False
    then have "src \<noteq> []" "last src = CHR ''/''" using 2(4) by (auto split: if_splits)
    moreover from this have "normalize_loop src \<noteq> []" by (cases src) auto
    ultimately show ?thesis using False 2(1) by simp
  qed
qed simp

lemma directory_ConcatPaths:
  assumes "normalized d" and "d \<noteq> []" and "normalized r" and "r = [] \<or> IsDirectory r"
  shows "IsDirectory (ConcatPaths d r)"
proof -
  let ?s = "RemoveTrailingPathSeparator d @ [CHR ''/''] @ r"
  have "normalized (RemoveTrailingPathSeparator d)"
    using assms(1) by (simp add: RemoveTrailingPathSeparator_def)
  then have "NUL \<notin> set ?s" using normalized_no_NUL assms(3) by fastforce
  moreover have "last ?s = CHR ''/''" using assms(4) by (auto simp: IsDirectory_iff)
  moreover have "ConcatPaths d r = FilePath ?s" using assms(2) by (simp add: ConcatPaths_def IsEmpty_def)
  ultimately have "last (ConcatPaths d r) = CHR ''/''"
    by (simp add: FilePath_def Normalize_def c_str_id normalize_loop_last)
  moreover have "ConcatPaths d r \<noteq> []"
    using \<open>NUL \<notin> set ?s\<close> \<open>ConcatPaths d r = FilePath ?s\<close>
    by (cases "RemoveTrailingPathSeparator d") (auto simp: FilePath_def Normalize_def c_str_id)
  ultimately show ?thesis by (simp add: IsDirectory_def last_conv_nth)
qed

section \<open>Properties\<close>

text \<open>
  C25. Making the directories of a path always ends when the current directory exists, and it succeeds
  exactly for a path that ends in a separator and whose every step is a directory or may be made
  one; then all of them are directories and nothing else has changed, and a call that fails leaves
  what was there as it was. The path is normalized, as every \<open>FilePath\<close> is, and has no name \<open>..\<close>;
  the file system is one without links, limits or folders that may not be searched
  (\<open>plain_kernel\<close>), in which what holds an entry is a directory (\<open>tree_ok\<close>).
\<close>

theorem CreateDirectoriesRecursively_makes:
  assumes "plain_kernel K entry cwd may" and "tree_ok (entry fs)" and "entry fs cwd = Some True"
    and "normalized p" and "''..'' \<notin> set (path_parts p)"
  shows "\<exists>fs' ok. CreateDirectoriesRecursively K fs p = Some (fs', ok) \<and>
    (ok \<longleftrightarrow> IsDirectory p \<and> creatable (entry fs) may (location cwd p)) \<and>
    (ok \<longrightarrow> entry fs' = with_directories (entry fs) (location cwd p)) \<and>
    (\<forall>q. entry fs q \<noteq> None \<longrightarrow> entry fs' q = entry fs q)"
proof (cases "IsDirectory p")
  case True
  then show ?thesis
    using directories_made [OF assms(1-4) _ assms(5)] by (auto simp: made_def)
next
  case False
  then show ?thesis by (subst CreateDirectoriesRecursively.simps) auto
qed

definition sample_kernel :: "string list \<Rightarrow> (string list \<Rightarrow> bool option) path_ops" where
  "sample_kernel cwd =
     \<lparr>fs_stat = (\<lambda>fs p. if p = [] then None else fs (location cwd p)),
      fs_mkdir = (\<lambda>fs p. let l = location cwd p in
        if p \<noteq> [] \<and> \<not> ends_in_dot p \<and> fs l = None \<and> l \<noteq> [] \<and> fs (butlast l) = Some True then (fs(l \<mapsto> True), 0) else (fs, - 1)),
      fs_getcwd = None\<rparr>"

lemma sample_kernel_plain: "plain_kernel (sample_kernel cwd) id cwd (\<lambda>_. True)"
  by (auto simp: plain_kernel_def sample_kernel_def Let_def)

theorem CreateDirectoriesRecursively_makes_witness:
  "\<exists>fs'. CreateDirectoriesRecursively (sample_kernel [''home'']) [[] \<mapsto> True, [''home''] \<mapsto> True] ''out/./a/'' =
      Some (fs', True) \<and> fs' [''home'', ''out'', ''a''] = Some True"
proof -
  define fs :: "string list \<Rightarrow> bool option" where "fs = [[] \<mapsto> True, [''home''] \<mapsto> True]"
  have tree: "tree_ok (id fs)" by (auto simp: tree_ok_def fs_def)
  have loc: "location [''home''] ''out/./a/'' = [''home'', ''out'', ''a'']"
    by (simp add: location_def path_names_def IsAbsolutePath_def)
  have "creatable fs (\<lambda>_. True) [''home'', ''out'', ''a'']" by (auto simp: creatable_def fs_def)
  moreover have "id fs [''home''] = Some True" by (simp add: fs_def)
  moreover have "normalized ''out/./a/''" "''..'' \<notin> set (path_parts ''out/./a/'')" "IsDirectory ''out/./a/''"
    by code_simp+
  ultimately show ?thesis
    using CreateDirectoriesRecursively_makes [of "sample_kernel [''home'']" id "[''home'']" "\<lambda>_. True" fs "''out/./a/''",
        OF sample_kernel_plain tree]
    unfolding loc fs_def by (auto simp: with_directories_def)
qed

text \<open>
  Whatever the output flag says, the name of the report is an absolute, normalized path when the
  program was started in an absolute folder; and when the flag names a folder, the report gets a
  name that nothing has yet.
\<close>

theorem report_file_fresh:
  assumes "IsAbsolutePath (FilePath original_working_dir)"
    and "GetAbsolutePathToOutputFile K fs original_working_dir g_executable_path flag = Inr p"
  shows "IsAbsolutePath p \<and> normalized p \<and>
    (\<forall>colon. strchr flag CHR '':'' = Some colon \<and> (drop 1 colon = [] \<or> IsDirectory (FilePath (drop 1 colon)))
      \<longrightarrow> \<not> FileOrDirectoryExists K fs p)"
proof (cases "strchr flag CHR '':''")
  case None
  then show ?thesis
    using assms absolute_ConcatPaths [OF assms(1) normalized_FilePath] by (auto simp: GetAbsolutePathToOutputFile_def)
next
  case (Some colon)
  define n where "n = (if \<not> IsAbsolutePath (FilePath (drop 1 colon))
    then ConcatPaths (FilePath original_working_dir) (FilePath (drop 1 colon)) else FilePath (drop 1 colon))"
  have n: "IsAbsolutePath n" "normalized n"
    using absolute_ConcatPaths [OF assms(1) normalized_FilePath] by (auto simp: n_def)
  have r: "(if \<not> IsDirectory n then Inr n
      else GenerateUniqueFileName K fs n (GetCurrentExecutableName g_executable_path) (GetOutputFormat flag)) = Inr p"
    using assms(2) unfolding GetAbsolutePathToOutputFile_def Some option.case Let_def n_def [symmetric] .
  have unique: "\<not> FileOrDirectoryExists K fs p \<and> IsAbsolutePath p \<and> normalized p" if "IsDirectory n"
    using r that unique_loop_fresh [of K fs n "GetCurrentExecutableName g_executable_path" "GetOutputFormat flag" 0 p]
      absolute_ConcatPaths [OF n] by (auto simp: GenerateUniqueFileName_def MakeFileName_def)
  have "IsDirectory n" if d: "drop 1 colon = [] \<or> IsDirectory (FilePath (drop 1 colon))"
  proof (cases "IsAbsolutePath (FilePath (drop 1 colon))")
    case True
    then have "drop 1 colon \<noteq> []" by (auto simp: absolute_hd FilePath_def Normalize_def c_str_def)
    then show ?thesis using d True by (simp add: n_def)
  next
    case False
    have "FilePath (drop 1 colon) = [] \<or> IsDirectory (FilePath (drop 1 colon))"
      using d by (auto simp: FilePath_def Normalize_def c_str_def)
    then have "IsDirectory (ConcatPaths (FilePath original_working_dir) (FilePath (drop 1 colon)))"
      using assms(1) by (intro directory_ConcatPaths) (simp_all add: absolute_hd)
    then show ?thesis using False by (simp only: n_def if_True simp_thms)
  qed
  then show ?thesis using unique r n Some by (auto split: if_splits)
qed

theorem report_file_fresh_witness:
  "GetAbsolutePathToOutputFile (sample_kernel []) [[] \<mapsto> True, [''out''] \<mapsto> True, [''out'', ''t.xml''] \<mapsto> False]
      ''//'' ''bin/t'' ''xml:out//'' = Inr ''/out/t_1.xml'' \<and>
   \<not> FileOrDirectoryExists (sample_kernel []) [[] \<mapsto> True, [''out''] \<mapsto> True, [''out'', ''t.xml''] \<mapsto> False] ''/out/t_1.xml''"
proof -
  have r: "GetAbsolutePathToOutputFile (sample_kernel []) [[] \<mapsto> True, [''out''] \<mapsto> True, [''out'', ''t.xml''] \<mapsto> False]
      ''//'' ''bin/t'' ''xml:out//'' = Inr ''/out/t_1.xml''" by code_simp
  have "IsAbsolutePath (FilePath ''//'')" "strchr ''xml:out//'' CHR '':'' = Some '':out//''"
    "IsDirectory (FilePath (drop 1 '':out//''))" by code_simp+
  with report_file_fresh [OF _ r] r show ?thesis by blast
qed

end
