(* ===== verification/Gtest_Xml.thy ===== *)
theory Gtest_Xml
  imports Gtest_Unit Gtest_File_Path
begin

text \<open>
  The report in XML (class \<open>XmlUnitTestResultPrinter\<close> of \<open>gtest/src/gtest.cc\<close>). \<open>char\<close> is signed, as
  it is on x86. The local time is a parameter, the file system the one of \<open>Gtest_File_Path\<close> with the
  answer of \<open>fopen\<close>.
\<close>

section \<open>Characters\<close>

definition IsNormalizableWhitespace :: "char \<Rightarrow> bool" where
  "IsNormalizableWhitespace c \<longleftrightarrow> c = CHR 0x09 \<or> c = CHR 0x0A \<or> c = CHR 0x0D"

definition signed_char :: "char \<Rightarrow> int" where
  "signed_char c = (let n = of_char c :: nat in if n < 128 then int n else int n - 256)"

definition IsValidXmlCharacter :: "char \<Rightarrow> bool" where
  "IsValidXmlCharacter c \<longleftrightarrow> IsNormalizableWhitespace c \<or> signed_char c \<ge> 0x20"

definition escape_char :: "bool \<Rightarrow> char \<Rightarrow> string" where
  "escape_char is_attribute ch =
     (if ch = CHR ''<'' then ''&lt;''
      else if ch = CHR ''>'' then ''&gt;''
      else if ch = CHR ''&'' then ''&amp;''
      else if ch = CHR 0x27 then (if is_attribute then ''&apos;'' else [CHR 0x27])
      else if ch = CHR 0x22 then (if is_attribute then ''&quot;'' else [CHR 0x22])
      else if IsValidXmlCharacter ch then
        (if is_attribute \<and> IsNormalizableWhitespace ch
         then ''&#x'' @ FormatByte (of_char ch) @ '';'' else [ch])
      else [])"

definition EscapeXml :: "string \<Rightarrow> bool \<Rightarrow> string" where
  "EscapeXml str is_attribute = concat (map (escape_char is_attribute) str)"

definition EscapeXmlAttribute :: "string \<Rightarrow> string" where
  "EscapeXmlAttribute str = EscapeXml str True"

definition EscapeXmlText :: "string \<Rightarrow> string" where
  "EscapeXmlText str = EscapeXml (c_str str) False"

definition RemoveInvalidXmlCharacters :: "string \<Rightarrow> string" where
  "RemoveInvalidXmlCharacters str = filter IsValidXmlCharacter str"

section \<open>Times\<close>

text \<open>
  \<open>ms/1000.0\<close> in double precision and the output of a stream with its default of six significant
  digits (\<open>%g\<close>). A double is \<open>m * 2 ^ a / 2 ^ b\<close>.
\<close>

definition round_half_even :: "nat \<Rightarrow> nat \<Rightarrow> nat" where
  "round_half_even n d =
     (let q = n div d; r = n mod d in if 2 * r < d \<or> 2 * r = d \<and> even q then q else q + 1)"

text \<open>The least shifts that bring a quotient below \<open>2 ^ 53\<close> and up to \<open>2 ^ 52\<close>.\<close>

function shift_down :: "nat \<Rightarrow> nat \<Rightarrow> nat" where
  "shift_down n d = (if n < 2 ^ 53 * d \<or> d = 0 then 0 else Suc (shift_down n (2 * d)))"
  by pat_completeness auto
termination by (relation "measure (\<lambda>(n, d). n - d)") auto

function shift_up :: "nat \<Rightarrow> nat \<Rightarrow> nat" where
  "shift_up n d = (if n = 0 \<or> 2 ^ 52 * d \<le> n then 0 else Suc (shift_up (2 * n) d))"
  by pat_completeness auto
termination by (relation "measure (\<lambda>(n, d). 2 ^ 52 * d - n)") auto

declare shift_down.simps [simp del] shift_up.simps [simp del]

text \<open>The double nearest to a quotient: numerator and denominator.\<close>

definition nearest_double :: "nat \<Rightarrow> nat \<Rightarrow> nat \<times> nat" where
  "nearest_double n d =
     (let a = shift_down n d; b = shift_up n d in
      (round_half_even (n * 2 ^ b) (d * 2 ^ a) * 2 ^ a, 2 ^ b))"

text \<open>The decimal exponent of a positive number \<open>n / d\<close>: negative and non-negative ones.\<close>

function exponent_up :: "nat \<Rightarrow> nat \<Rightarrow> nat" where
  "exponent_up n d = (if n < 10 * d \<or> d = 0 then 0 else Suc (exponent_up n (10 * d)))"
  by pat_completeness auto
termination by (relation "measure (\<lambda>(n, d). n - d)") auto

function exponent_down :: "nat \<Rightarrow> nat \<Rightarrow> nat" where
  "exponent_down n d = (if d \<le> n \<or> n = 0 then 0 else Suc (exponent_down (10 * n) d))"
  by pat_completeness auto
termination by (relation "measure (\<lambda>(n, d). d - n)") auto

declare exponent_up.simps [simp del] exponent_down.simps [simp del]

definition strip_zeros :: "string \<Rightarrow> string" where
  "strip_zeros s = rev (dropWhile (\<lambda>c. c = CHR ''0'') (rev s))"

definition with_fraction :: "string \<Rightarrow> string \<Rightarrow> string" where
  "with_fraction whole fraction =
     (let f = strip_zeros fraction in if f = [] then whole else whole @ ''.'' @ f)"

text \<open>Six digits and an exponent as text.\<close>

definition g_format :: "nat \<Rightarrow> int \<Rightarrow> string" where
  "g_format digits x =
     (let s = dec_of_nat digits in
      if x < - 4 \<or> 6 \<le> x then
        with_fraction (take 1 s) (drop 1 s) @
        (if x < 0 then ''e-'' else ''e+'') @ fill_width2 (dec_of_nat (nat \<bar>x\<bar>))
      else if 0 \<le> x then with_fraction (take (nat x + 1) s) (drop (nat x + 1) s)
      else with_fraction ''0'' (replicate (nat (- x - 1)) CHR ''0'' @ s))"

definition print_double :: "nat \<Rightarrow> nat \<Rightarrow> string" where
  "print_double n d =
     (if n = 0 then ''0''
      else
        (let x = int (exponent_up n d) - int (exponent_down n d);
             digits = (if x \<le> 5 then round_half_even (n * 10 ^ nat (5 - x)) d
                       else round_half_even n (d * 10 ^ nat (x - 5)))
         in if digits = 10 ^ 6 then g_format (10 ^ 5) (x + 1) else g_format digits x))"

definition FormatTimeInMillisAsSeconds :: "int \<Rightarrow> string" where
  "FormatTimeInMillisAsSeconds ms =
     (let (n, d) = nearest_double (nat \<bar>ms\<bar>) 1; (p, q) = nearest_double n (d * 1000)
      in (if ms < 0 then ''-'' else []) @ print_double p q)"

record local_tm =
  tm_year :: int
  tm_mon :: int
  tm_mday :: int
  tm_hour :: int
  tm_min :: int
  tm_sec :: int

definition FormatEpochTimeInMillisAsIso8601 :: "(int \<Rightarrow> local_tm option) \<Rightarrow> int \<Rightarrow> string" where
  "FormatEpochTimeInMillisAsIso8601 localtime ms =
     (let seconds = ms sdiv 1000 in
      case localtime seconds of
        None \<Rightarrow> []
      | Some time_struct \<Rightarrow>
          dec_of_int (tm_year time_struct + 1900) @ ''-'' @
          FormatIntWidth2 (tm_mon time_struct + 1) @ ''-'' @
          FormatIntWidth2 (tm_mday time_struct) @ ''T'' @
          FormatIntWidth2 (tm_hour time_struct) @ '':'' @
          FormatIntWidth2 (tm_min time_struct) @ '':'' @
          FormatIntWidth2 (tm_sec time_struct))"

section \<open>Pieces of the report\<close>

definition cdata_open :: string where "cdata_open = ''<![CDATA[''"
definition cdata_close :: string where "cdata_close = '']]>''"

function cdata_segments :: "string \<Rightarrow> string" where
  "cdata_segments segment =
     (case strstr segment '']]>'' of
        Some next_segment \<Rightarrow>
          take (length segment - length next_segment) segment @ '']]>]]&gt;<![CDATA['' @
          cdata_segments (drop (length '']]>'') next_segment)
      | None \<Rightarrow> segment)"
  by pat_completeness auto
termination
  by (relation "measure length") (auto dest!: strstr_Some)

declare cdata_segments.simps [simp del]

definition OutputXmlCDataSection :: "string \<Rightarrow> string" where
  "OutputXmlCDataSection data = cdata_open @ cdata_segments (c_str data) @ cdata_close"

definition OutputXmlAttribute :: "string \<Rightarrow> string \<Rightarrow> string \<Rightarrow> string res" where
  "OutputXmlAttribute element_name name value =
     bind_res (GetReservedAttributesForElement element_name) (\<lambda>allowed_names.
       assert_res (name \<in> set allowed_names)
         (Inr ('' '' @ name @ ''='' @ [CHR 0x22] @ EscapeXmlAttribute value @ [CHR 0x22])))"

section \<open>The report\<close>

text \<open>The strings streamed one after the other, up to the first failure.\<close>

fun stream_all :: "string res list \<Rightarrow> string res" where
  "stream_all [] = Inr []"
| "stream_all (p # ps) = bind_res p (\<lambda>s. bind_res (stream_all ps) (\<lambda>t. Inr (s @ t)))"

definition indices :: "int \<Rightarrow> int list" where
  "indices n = map int [0..<nat n]"

definition TestPropertiesAsXmlAttributes :: "test_result \<Rightarrow> string res" where
  "TestPropertiesAsXmlAttributes result =
     stream_all (map (\<lambda>i. bind_res (GetTestProperty i result) (\<lambda>p.
         Inr ('' '' @ c_str (property_key p) @ ''='' @ [CHR 0x22] @
           EscapeXmlAttribute (c_str (property_value p)) @ [CHR 0x22])))
       (indices (test_property_count result)))"

definition xml_failure :: "test_part_result \<Rightarrow> string" where
  "xml_failure part =
     (let location = FormatCompilerIndependentFileLocation (map_option c_str (result_file_name part))
            (part_line_number part);
          summary = location @ [LF] @ c_str (part_summary part);
          detail = location @ [LF] @ c_str (part_message part)
      in ''      <failure message='' @ [CHR 0x22] @ EscapeXmlAttribute (c_str summary) @
         [CHR 0x22] @ '' type='' @ [CHR 0x22, CHR 0x22] @ ''>'' @
         OutputXmlCDataSection (RemoveInvalidXmlCharacters detail) @
         ''</failure>'' @ [LF])"

text \<open>The loop over the parts, with the number of failures so far.\<close>

fun parts_loop :: "test_result \<Rightarrow> int \<Rightarrow> int list \<Rightarrow> (string \<times> int) res" where
  "parts_loop result failures [] = Inr ([], failures)"
| "parts_loop result failures (i # is) =
     bind_res (GetTestPartResult i result) (\<lambda>part.
       if part_failed part then
         bind_res (parts_loop result (failures + 1) is) (\<lambda>(s, n).
           Inr ((if failures + 1 = 1 then ''>'' @ [LF] else []) @ xml_failure part @ s, n))
       else parts_loop result failures is)"

definition OutputXmlTestInfo :: "string \<Rightarrow> test_info \<Rightarrow> string res" where
  "OutputXmlTestInfo test_case_name test_info =
     (let result = info_result test_info; kTestcase = ''testcase'' in
      bind_res (stream_all
        [Inr ''    <testcase'',
         OutputXmlAttribute kTestcase ''name'' (c_str (info_name test_info)),
         (case info_value_param test_info of
            None \<Rightarrow> Inr [] | Some v \<Rightarrow> OutputXmlAttribute kTestcase ''value_param'' (c_str v)),
         (case info_type_param test_info of
            None \<Rightarrow> Inr [] | Some v \<Rightarrow> OutputXmlAttribute kTestcase ''type_param'' (c_str v)),
         OutputXmlAttribute kTestcase ''status'' (if info_should_run test_info then ''run'' else ''notrun''),
         OutputXmlAttribute kTestcase ''time'' (FormatTimeInMillisAsSeconds (result_elapsed_time result)),
         OutputXmlAttribute kTestcase ''classname'' (c_str test_case_name),
         TestPropertiesAsXmlAttributes result]) (\<lambda>head.
      bind_res (parts_loop result 0 (indices (total_part_count result))) (\<lambda>(parts, failures).
        Inr (head @ parts @
          (if failures = 0 then '' />'' @ [LF] else ''    </testcase>'' @ [LF])))))"

definition the_test :: "test_case \<Rightarrow> int \<Rightarrow> test_info res" where
  "the_test c i =
     (case GetTestInfo c i of
        None \<Rightarrow> Inl NullDereference
      | Some k \<Rightarrow> if k < length (test_info_list c) then Inr (test_info_list c ! k) else Inl OutOfBounds)"

definition PrintXmlTestCase :: "test_case \<Rightarrow> string res" where
  "PrintXmlTestCase c =
     (let kTestsuite = ''testsuite'' in
      stream_all
       ([Inr (''  <'' @ kTestsuite),
         OutputXmlAttribute kTestsuite ''name'' (c_str (case_name c)),
         OutputXmlAttribute kTestsuite ''tests'' (dec_of_int (case_reportable_test_count c)),
         OutputXmlAttribute kTestsuite ''failures'' (dec_of_int (case_failed_test_count c)),
         OutputXmlAttribute kTestsuite ''disabled'' (dec_of_int (case_reportable_disabled_test_count c)),
         OutputXmlAttribute kTestsuite ''errors'' ''0'',
         OutputXmlAttribute kTestsuite ''time'' (FormatTimeInMillisAsSeconds (case_elapsed_time c)),
         TestPropertiesAsXmlAttributes (case_ad_hoc_test_result c),
         Inr (''>'' @ [LF])] @
        map (\<lambda>i. bind_res (the_test c i) (\<lambda>t.
            if is_reportable t then OutputXmlTestInfo (case_name c) t else Inr []))
          (indices (case_total_test_count c)) @
        [Inr (''  </'' @ kTestsuite @ ''>'' @ [LF])]))"

definition the_case :: "unit_test \<Rightarrow> int \<Rightarrow> test_case res" where
  "the_case u i =
     (case unit_GetTestCase u i of
        None \<Rightarrow> Inl NullDereference
      | Some k \<Rightarrow> if k < length (test_cases u) then Inr (test_cases u ! k) else Inl OutOfBounds)"

definition PrintXmlUnitTest :: "(int \<Rightarrow> local_tm option) \<Rightarrow> gtest_flags \<Rightarrow> unit_test \<Rightarrow> string res" where
  "PrintXmlUnitTest localtime fl u =
     (let kTestsuites = ''testsuites'' in
      stream_all
       ([Inr (''<?xml version='' @ [CHR 0x22] @ ''1.0'' @ [CHR 0x22] @ '' encoding='' @ [CHR 0x22] @
           ''UTF-8'' @ [CHR 0x22] @ ''?>'' @ [LF]),
         Inr (''<'' @ kTestsuites),
         OutputXmlAttribute kTestsuites ''tests'' (dec_of_int (reportable_test_count u)),
         OutputXmlAttribute kTestsuites ''failures'' (dec_of_int (failed_test_count u)),
         OutputXmlAttribute kTestsuites ''disabled'' (dec_of_int (reportable_disabled_test_count u)),
         OutputXmlAttribute kTestsuites ''errors'' ''0'',
         OutputXmlAttribute kTestsuites ''timestamp''
           (FormatEpochTimeInMillisAsIso8601 localtime (unit_start_timestamp u)),
         OutputXmlAttribute kTestsuites ''time'' (FormatTimeInMillisAsSeconds (unit_elapsed_time u)),
         (if FLAG_shuffle fl
          then OutputXmlAttribute kTestsuites ''random_seed'' (dec_of_int (unit_random_seed u)) else Inr []),
         TestPropertiesAsXmlAttributes (ad_hoc_test_result u),
         OutputXmlAttribute kTestsuites ''name'' ''AllTests'',
         Inr (''>'' @ [LF])] @
        map (\<lambda>i. bind_res (the_case u i) (\<lambda>c.
            if case_reportable_test_count c > 0 then PrintXmlTestCase c else Inr []))
          (indices (total_test_case_count u)) @
        [Inr (''</'' @ kTestsuites @ ''>'' @ [LF])]))"

section \<open>The listener\<close>

text \<open>
  The result of a handler that may end the program: \<open>Inl\<close> with what it prints before
  \<open>exit(EXIT_FAILURE)\<close>.
\<close>

definition XmlUnitTestResultPrinter :: "string option \<Rightarrow> string + string" where
  "XmlUnitTestResultPrinter output_file =
     (case output_file of
        None \<Rightarrow> Inl (''XML output file may not be null'' @ [LF])
      | Some f \<Rightarrow> if f = [] then Inl (''XML output file may not be null'' @ [LF]) else Inr f)"

datatype 'fs report_outcome =
    Report_Written 'fs string
  | Exit_Failure 'fs string

text \<open>
  \<open>fopen_w fs name\<close>: whether the file can be opened for writing. The outcome is \<open>None\<close> when making
  the folder does not return.
\<close>

definition XmlPrinter_OnTestIterationEnd ::
  "'fs path_ops \<Rightarrow> ('fs \<Rightarrow> string \<Rightarrow> bool) \<Rightarrow> (int \<Rightarrow> local_tm option) \<Rightarrow> gtest_flags \<Rightarrow> string \<Rightarrow> 'fs \<Rightarrow> unit_test \<Rightarrow>
     'fs report_outcome res option" where
  "XmlPrinter_OnTestIterationEnd K fopen_w localtime fl output_file fs u =
     (let output_dir = RemoveFileName (FilePath output_file) in
      case CreateDirectoriesRecursively K fs output_dir of
        None \<Rightarrow> None
      | Some (fs', created) \<Rightarrow>
          Some (if created \<and> fopen_w fs' (c_str output_file) then
                  bind_res (PrintXmlUnitTest localtime fl u) (\<lambda>stream.
                    Inr (Report_Written fs' (c_str (StringStreamToString stream))))
                else Inr (Exit_Failure fs'
                  (''Unable to open file '' @ [CHR 0x22] @ c_str output_file @ [CHR 0x22, LF]))))"

end
