(* ===== verification/Gtest_Report.thy ===== *)
theory Gtest_Report
  imports Gtest_Xml Gtest_Order
begin

text \<open>
  The report in XML is well formed and holds what was recorded. The specification is a grammar of
  the part of XML 1.0 the report uses: names, attribute values and texts with their references,
  CDATA sections and elements with distinct attributes, each with the value a reader gives it.
\<close>

section \<open>References\<close>

definition QUOTE :: char where "QUOTE = CHR 0x22"
definition APOS :: char where "APOS = CHR 0x27"

definition hex_value :: "char \<Rightarrow> nat option" where
  "hex_value c =
     (let n = of_char c in
      if 48 \<le> n \<and> n \<le> 57 then Some (n - 48)
      else if 65 \<le> n \<and> n \<le> 70 then Some (n - 55)
      else if 97 \<le> n \<and> n \<le> 102 then Some (n - 87) else None)"

text \<open>What follows an ampersand: the character it stands for and the rest.\<close>

definition reference :: "string \<Rightarrow> (char \<times> string) option" where
  "reference s =
     (if take 3 s = ''lt;'' then Some (CHR ''<'', drop 3 s)
      else if take 3 s = ''gt;'' then Some (CHR ''>'', drop 3 s)
      else if take 4 s = ''amp;'' then Some (CHR ''&'', drop 4 s)
      else if take 5 s = ''apos;'' then Some (APOS, drop 5 s)
      else if take 5 s = ''quot;'' then Some (QUOTE, drop 5 s)
      else if take 2 s = ''#x'' \<and> 5 \<le> length s \<and> s ! 4 = CHR '';'' then
        (case (hex_value (s ! 2), hex_value (s ! 3)) of
           (Some a, Some b) \<Rightarrow> Some (char_of (16 * a + b), drop 5 s)
         | _ \<Rightarrow> None)
      else None)"

lemma reference_shorter: "reference s = Some (c, t) \<Longrightarrow> length t \<le> length s"
  by (auto simp: reference_def split: if_splits option.splits)

text \<open>The value of an attribute, where white space that is not a reference counts as a space, or of a text.\<close>

function unescape :: "bool \<Rightarrow> string \<Rightarrow> string option" where
  "unescape is_attribute [] = Some []"
| "unescape is_attribute (c # s) =
     (if c = CHR ''<'' then None
      else if c = CHR ''&'' then
        (case reference s of
           None \<Rightarrow> None
         | Some (d, t) \<Rightarrow> map_option ((#) d) (unescape is_attribute t))
      else if is_attribute \<and> c = QUOTE then None
      else map_option ((#) (if is_attribute \<and> IsNormalizableWhitespace c then SP else c))
        (unescape is_attribute s))"
  by pat_completeness auto
termination
  by (relation "measure (\<lambda>(b, s). length s)") (auto dest!: reference_shorter)

section \<open>The grammar\<close>

datatype xml = Element string "(string \<times> string) list" "xml list" | Text string

definition name_start :: "char \<Rightarrow> bool" where
  "name_start c \<longleftrightarrow> c \<in> set ''abcdefghijklmnopqrstuvwxyzABCDEFGHIJKLMNOPQRSTUVWXYZ_''"

definition name_char :: "char \<Rightarrow> bool" where
  "name_char c \<longleftrightarrow> name_start c \<or> c \<in> set ''0123456789.-''"

definition xml_name :: "string \<Rightarrow> bool" where
  "xml_name n \<longleftrightarrow> (case n of [] \<Rightarrow> False | c # s \<Rightarrow> name_start c \<and> list_all name_char s)"

text \<open>Readers of XML see every end of a line as one line feed.\<close>

fun line_ends :: "string \<Rightarrow> string" where
  "line_ends [] = []"
| "line_ends (c # s) =
     (if c = CR then LF # (case s of [] \<Rightarrow> [] | d # t \<Rightarrow> if d = LF then line_ends t else line_ends (d # t))
      else c # line_ends s)"

text \<open>
  The bytes of a document that is all ASCII: tabs, line ends and the codes from 0x20 to 0x7F. (XML also
  allows the bytes of other characters in UTF-8.)
\<close>

definition xml_char :: "char \<Rightarrow> bool" where
  "xml_char c \<longleftrightarrow> (of_char c :: nat) \<in> {9, 10, 13} \<or> 0x20 \<le> (of_char c :: nat) \<and> (of_char c :: nat) < 0x80"

text \<open>
  What is left of a text in the report: its bytes of that kind, in their order. The control characters
  are not allowed in XML; the bytes from 0x80 on, of characters outside ASCII, are dropped with them.
\<close>

definition valid_text :: "string \<Rightarrow> string" where
  "valid_text s = filter xml_char s"

inductive xml_attributes :: "string \<Rightarrow> (string \<times> string) list \<Rightarrow> bool" where
  attributes_Nil: "xml_attributes [] []"
| attributes_Cons: "xml_name k \<Longrightarrow> list_all xml_char w \<Longrightarrow> unescape True w = Some v \<Longrightarrow> xml_attributes s as \<Longrightarrow>
    xml_attributes ('' '' @ k @ ''='' @ [QUOTE] @ w @ [QUOTE] @ s) ((k, v) # as)"

text \<open>A string with the nodes it stands for. Texts next to each other are one text.\<close>

inductive xml_nodes :: "string \<Rightarrow> xml list \<Rightarrow> bool" where
  nodes_Nil: "xml_nodes [] []"
| nodes_text: "list_all xml_char t \<Longrightarrow> strstr t '']]>'' = None \<Longrightarrow> unescape False (line_ends t) = Some v \<Longrightarrow>
    xml_nodes s ns \<Longrightarrow> xml_nodes (t @ s) (Text v # ns)"
| nodes_cdata: "list_all xml_char t \<Longrightarrow> strstr t '']]>'' = None \<Longrightarrow> xml_nodes s ns \<Longrightarrow>
    xml_nodes (''<![CDATA['' @ t @ '']]>'' @ s) (Text (line_ends t) # ns)"
| nodes_join: "xml_nodes s (Text a # Text b # ns) \<Longrightarrow> xml_nodes s (Text (a @ b) # ns)"
| nodes_element: "xml_name n \<Longrightarrow> xml_attributes a as \<Longrightarrow> distinct (map fst as) \<Longrightarrow> xml_nodes b kids \<Longrightarrow>
    xml_nodes s ns \<Longrightarrow>
    xml_nodes (''<'' @ n @ a @ ''>'' @ b @ ''</'' @ n @ ''>'' @ s) (Element n as kids # ns)"
| nodes_empty: "xml_name n \<Longrightarrow> xml_attributes a as \<Longrightarrow> distinct (map fst as) \<Longrightarrow> xml_nodes s ns \<Longrightarrow>
    xml_nodes (''<'' @ n @ a @ '' />'' @ s) (Element n as [] # ns)"

text \<open>A document: the declaration, one element and a line end.\<close>

definition xml_declaration :: string where
  "xml_declaration = ''<?xml version='' @ [QUOTE] @ ''1.0'' @ [QUOTE] @ '' encoding='' @ [QUOTE] @ ''UTF-8'' @
     [QUOTE] @ ''?>'' @ [LF]"

definition xml_document :: "string \<Rightarrow> xml \<Rightarrow> bool" where
  "xml_document s root \<longleftrightarrow> (\<exists>t. s = xml_declaration @ t \<and> xml_nodes t [root, Text [LF]])"

section \<open>Escaping\<close>

lemma whitespace_code: "IsNormalizableWhitespace c \<longleftrightarrow> (of_char c :: nat) \<in> {9, 10, 13}"
proof -
  have "c = d \<longleftrightarrow> (of_char c :: nat) = of_char d" for d by (metis char_of_char)
  from this [of "CHR 0x09"] this [of "CHR 0x0A"] this [of "CHR 0x0D"] show ?thesis
    by (simp add: IsNormalizableWhitespace_def)
qed

lemma xml_char_valid: "xml_char c \<longleftrightarrow> IsValidXmlCharacter c"
  using nat_of_char_less_256 [of c]
  by (auto simp: xml_char_def whitespace_code IsValidXmlCharacter_def signed_char_def Let_def
      simp del: nat_of_char_less_256)

lemma valid_text_eq: "RemoveInvalidXmlCharacters s = valid_text s"
  by (simp add: RemoveInvalidXmlCharacters_def valid_text_def xml_char_valid [abs_def])

lemma FormatByte_whitespace: "FormatByte 9 = ''09''" "FormatByte 10 = ''0A''" "FormatByte 13 = ''0D''"
  by (simp_all add: FormatByte_def fill_width2_def hex_of_nat.simps hex_digit_def) code_simp+

lemma unescape_reference:
  "reference s = Some (d, t) \<Longrightarrow> unescape b (CHR ''&'' # s) = map_option ((#) d) (unescape b t)"
  by simp

lemma valid_markup: "IsValidXmlCharacter c" if "c \<in> {CHR ''<'', CHR ''>'', CHR ''&'', CHR 0x27, CHR 0x22}"
  using that by (auto simp: IsValidXmlCharacter_def signed_char_def Let_def)

lemma unescape_escape_char:
  "unescape True (escape_char True c @ s) =
     (if IsValidXmlCharacter c then map_option ((#) c) (unescape True s) else unescape True s)"
proof -
  have hex: "unescape True (''&#x'' @ FormatByte (of_char c) @ '';'' @ s) = map_option ((#) c) (unescape True s)"
    if "IsNormalizableWhitespace c"
    using that unfolding IsNormalizableWhitespace_def
    by (auto simp: FormatByte_whitespace reference_def hex_value_def) code_simp+
  consider "c \<in> {CHR ''<'', CHR ''>'', CHR ''&'', CHR 0x27, CHR 0x22}"
    | "c \<notin> {CHR ''<'', CHR ''>'', CHR ''&'', CHR 0x27, CHR 0x22}" "IsValidXmlCharacter c" "IsNormalizableWhitespace c"
    | "c \<notin> {CHR ''<'', CHR ''>'', CHR ''&'', CHR 0x27, CHR 0x22}" "IsValidXmlCharacter c" "\<not> IsNormalizableWhitespace c"
    | "\<not> IsValidXmlCharacter c" by blast
  then show ?thesis
  proof cases
    case 1
    then show ?thesis using valid_markup [OF 1]
      by (auto simp: escape_char_def reference_def APOS_def QUOTE_def)
  next
    case 2
    then show ?thesis using hex by (simp add: escape_char_def)
  next
    case 3
    then show ?thesis by (simp add: escape_char_def QUOTE_def)
  next
    case 4
    then show ?thesis using valid_markup [of c] by (auto simp: escape_char_def)
  qed
qed

lemma unescape_attribute: "unescape True (EscapeXmlAttribute v) = Some (RemoveInvalidXmlCharacters v)"
  by (induction v) (simp_all add: EscapeXmlAttribute_def EscapeXml_def RemoveInvalidXmlCharacters_def unescape_escape_char)

lemma escape_char_valid: "list_all xml_char (escape_char True c)"
proof -
  have "list_all xml_char (''&#x'' @ FormatByte (of_char c) @ '';'')" if "IsNormalizableWhitespace c"
    using that unfolding IsNormalizableWhitespace_def
    by (auto simp: FormatByte_whitespace xml_char_def)
  then show ?thesis
    by (auto simp: escape_char_def xml_char_def xml_char_valid [symmetric])
qed

lemma escaped_attribute_valid: "list_all xml_char (EscapeXmlAttribute v)"
  by (induction v) (use escape_char_valid in \<open>simp_all add: EscapeXmlAttribute_def EscapeXml_def\<close>)

section \<open>CDATA sections\<close>

lemma strstr_first:
  assumes "t \<noteq> []" and "strstr s t = Some r"
  shows "strstr (take (length s - length r) s) t = None"
  using assms(2)
proof (induction s)
  case (Cons c s)
  show ?case
  proof (cases "take (length t) (c # s) = t")
    case True
    then show ?thesis using Cons.prems assms(1) by auto
  next
    case False
    then have r: "strstr s t = Some r" using Cons.prems by simp
    then have "length r \<le> length s" using strstr_Some by fastforce
    then have k: "take (length (c # s) - length r) (c # s) = c # take (length s - length r) s"
      by (simp add: Suc_diff_le)
    have "take (length t) (c # take (length s - length r) s) \<noteq> t"
    proof
      assume eq: "take (length t) (c # take (length s - length r) s) = t"
      then have "length t \<le> Suc (length s - length r)" by (metis length_take length_Cons min.cobounded2 take_Suc_Cons length_take min.bounded_iff nat_le_linear)
      then have "take (length t) (c # s) = t" using eq by (cases "length t") (simp_all add: min_def)
      with False show False by simp
    qed
    then show ?thesis unfolding k using Cons.IH [OF r] by simp
  qed
qed (use assms(1) in auto)

lemma line_ends_append: "c \<noteq> LF \<Longrightarrow> line_ends (u @ c # r) = line_ends u @ line_ends (c # r)"
proof (induction u rule: line_ends.induct)
  case (2 d s)
  then show ?case by (cases s) auto
qed simp

lemma line_ends_close: "line_ends (u @ '']]>'' @ r) = line_ends u @ '']]>'' @ line_ends r"
  using line_ends_append [of "CHR '']''" u "CHR '']'' # CHR ''>'' # r"] by simp

lemma nodes_cdata_section:
  assumes "list_all xml_char data" and "xml_nodes s ns"
  shows "xml_nodes (cdata_open @ cdata_segments data @ cdata_close @ s) (Text (line_ends data) # ns)"
  using assms(1)
proof (induction data rule: cdata_segments.induct)
  case (1 segment)
  show ?case
  proof (cases "strstr segment '']]>''")
    case None
    then have "cdata_segments segment = segment" by (subst cdata_segments.simps) simp
    with None "1.prems" assms(2) show ?thesis
      by (simp add: cdata_open_def cdata_close_def nodes_cdata [simplified])
  next
    case (Some following)
    then obtain u r where u: "segment = u @ following" and r: "following = '']]>'' @ r"
      using strstr_Some by blast
    have first: "strstr u '']]>'' = None"
      using strstr_first [OF _ Some] u by simp
    have seg: "cdata_segments segment = u @ '']]>]]&gt;<![CDATA['' @ cdata_segments r"
      using Some u r by (subst cdata_segments.simps) simp
    have valid: "list_all xml_char u" "list_all xml_char r" using "1.prems" u r by auto
    have "xml_nodes (cdata_open @ cdata_segments r @ cdata_close @ s) (Text (line_ends r) # ns)"
      using "1.IH" [OF Some] valid(2) r by simp
    moreover have "list_all xml_char '']]&gt;''" by (simp add: xml_char_def)
    moreover have "strstr '']]&gt;'' '']]>'' = None" "unescape False (line_ends '']]&gt;'') = Some '']]>''"
      by (simp_all add: reference_def)
    ultimately have "xml_nodes ('']]&gt;'' @ cdata_open @ cdata_segments r @ cdata_close @ s)
        (Text '']]>'' # Text (line_ends r) # ns)"
      by (rule nodes_text [rotated -1])
    then have "xml_nodes ('']]&gt;'' @ cdata_open @ cdata_segments r @ cdata_close @ s)
        (Text ('']]>'' @ line_ends r) # ns)" by (rule nodes_join)
    from nodes_join [OF nodes_cdata [OF valid(1) first this]]
    moreover have "line_ends segment = line_ends u @ '']]>'' @ line_ends r"
      by (simp only: u r line_ends_close)
    ultimately show ?thesis unfolding seg by (simp add: cdata_open_def)
  qed
qed

section \<open>Pieces and what they stand for\<close>

definition denotes :: "string \<Rightarrow> xml list \<Rightarrow> bool" where
  "denotes p ms \<longleftrightarrow> (\<forall>s ns. xml_nodes s ns \<longrightarrow> xml_nodes (p @ s) (ms @ ns))"

lemma denotes_Nil [simp]: "denotes [] []"
  by (simp add: denotes_def)

lemma denotes_append: "denotes p ms \<Longrightarrow> denotes q ns \<Longrightarrow> denotes (p @ q) (ms @ ns)"
  by (simp add: denotes_def)

lemma denotes_space: "list_all (\<lambda>c. c = SP \<or> c = LF) w \<Longrightarrow> denotes w [Text w]"
proof -
  assume w: "list_all (\<lambda>c. c = SP \<or> c = LF) w"
  then have "list_all xml_char w" by (induction w) (auto simp: xml_char_def IsNormalizableWhitespace_def)
  moreover from w have "strstr w '']]>'' = None" by (induction w) auto
  moreover from w have "line_ends w = w" by (induction w) auto
  moreover from w have "unescape False w = Some w" by (induction w) auto
  ultimately show ?thesis unfolding denotes_def by (auto intro: nodes_text)
qed

lemma denotes_nodes: "denotes p ns \<Longrightarrow> xml_nodes p ns"
  unfolding denotes_def using nodes_Nil by force

lemma denotes_element:
  assumes "xml_name n" and "xml_attributes a as" and "distinct (map fst as)" and "denotes b kids"
  shows "denotes (''<'' @ n @ a @ ''>'' @ b @ ''</'' @ n @ ''>'') [Element n as kids]"
  unfolding denotes_def
proof (intro allI impI)
  fix s ns assume "xml_nodes s ns"
  from nodes_element [OF assms(1-3) denotes_nodes [OF assms(4)] this]
  show "xml_nodes ((''<'' @ n @ a @ ''>'' @ b @ ''</'' @ n @ ''>'') @ s) ([Element n as kids] @ ns)" by simp
qed

lemma denotes_empty:
  assumes "xml_name n" and "xml_attributes a as" and "distinct (map fst as)"
  shows "denotes (''<'' @ n @ a @ '' />'') [Element n as []]"
  unfolding denotes_def
proof (intro allI impI)
  fix s ns assume "xml_nodes s ns"
  from nodes_empty [OF assms this]
  show "xml_nodes ((''<'' @ n @ a @ '' />'') @ s) ([Element n as []] @ ns)" by simp
qed

lemma attributes_append:
  "xml_attributes a as \<Longrightarrow> xml_attributes b bs \<Longrightarrow> xml_attributes (a @ b) (as @ bs)"
  by (induction rule: xml_attributes.induct) (auto intro: attributes_Cons [simplified])

lemma attribute_escaped:
  "xml_name k \<Longrightarrow> xml_attributes ('' '' @ k @ ''='' @ [QUOTE] @ EscapeXmlAttribute v @ [QUOTE])
     [(k, valid_text v)]"
  using attributes_Cons [OF _ escaped_attribute_valid unescape_attribute attributes_Nil] by (simp add: valid_text_eq)

section \<open>What the report says\<close>

definition property_attributes :: "test_result \<Rightarrow> (string \<times> string) list" where
  "property_attributes r = map (\<lambda>p. (property_key p, valid_text (c_str (property_value p)))) (test_properties r)"

definition part_location :: "test_part_result \<Rightarrow> string" where
  "part_location part =
     FormatCompilerIndependentFileLocation (map_option c_str (result_file_name part)) (part_line_number part)"

definition failure_node :: "test_part_result \<Rightarrow> xml" where
  "failure_node part =
     Element ''failure''
       [(''message'', valid_text (part_location part @ [LF] @ c_str (part_summary part))), (''type'', [])]
       [Text (line_ends (valid_text (part_location part @ [LF] @ c_str (part_message part))))]"

definition test_attributes :: "string \<Rightarrow> test_info \<Rightarrow> (string \<times> string) list" where
  "test_attributes test_case_name t =
     [(''name'', valid_text (c_str (info_name t)))] @
     (case info_value_param t of None \<Rightarrow> [] | Some v \<Rightarrow> [(''value_param'', valid_text (c_str v))]) @
     (case info_type_param t of None \<Rightarrow> [] | Some v \<Rightarrow> [(''type_param'', valid_text (c_str v))]) @
     [(''status'', if info_should_run t then ''run'' else ''notrun''),
      (''time'', valid_text (FormatTimeInMillisAsSeconds (result_elapsed_time (info_result t)))),
      (''classname'', valid_text (c_str test_case_name))] @
     property_attributes (info_result t)"

definition indented :: "string \<Rightarrow> xml list \<Rightarrow> xml list" where
  "indented w ns = concat (map (\<lambda>n. [Text w, n, Text [LF]]) ns)"

definition test_node :: "string \<Rightarrow> test_info \<Rightarrow> xml" where
  "test_node test_case_name t =
     Element ''testcase'' (test_attributes test_case_name t)
       (let fs = filter part_failed (test_part_results (info_result t)) in
        if fs = [] then [] else [Text [LF]] @ indented ''      '' (map failure_node fs) @ [Text ''    ''])"

definition tests_in_order :: "test_case \<Rightarrow> test_info list" where
  "tests_in_order c = map (\<lambda>i. test_info_list c ! nat i) (test_indices c)"

definition case_attributes :: "test_case \<Rightarrow> (string \<times> string) list" where
  "case_attributes c =
     [(''name'', valid_text (c_str (case_name c))),
      (''tests'', valid_text (dec_of_int (case_reportable_test_count c))),
      (''failures'', valid_text (dec_of_int (case_failed_test_count c))),
      (''disabled'', valid_text (dec_of_int (case_reportable_disabled_test_count c))),
      (''errors'', ''0''),
      (''time'', valid_text (FormatTimeInMillisAsSeconds (case_elapsed_time c)))] @
     property_attributes (case_ad_hoc_test_result c)"

definition case_node :: "test_case \<Rightarrow> xml" where
  "case_node c =
     Element ''testsuite'' (case_attributes c)
       ([Text [LF]] @ indented ''    '' (map (test_node (case_name c)) (filter is_reportable (tests_in_order c))) @
        [Text ''  ''])"

definition unit_attributes :: "(int \<Rightarrow> local_tm option) \<Rightarrow> gtest_flags \<Rightarrow> unit_test \<Rightarrow> (string \<times> string) list" where
  "unit_attributes localtime fl u =
     [(''tests'', valid_text (dec_of_int (reportable_test_count u))),
      (''failures'', valid_text (dec_of_int (failed_test_count u))),
      (''disabled'', valid_text (dec_of_int (reportable_disabled_test_count u))),
      (''errors'', ''0''),
      (''timestamp'', valid_text (FormatEpochTimeInMillisAsIso8601 localtime (unit_start_timestamp u))),
      (''time'', valid_text (FormatTimeInMillisAsSeconds (unit_elapsed_time u)))] @
     (if FLAG_shuffle fl then [(''random_seed'', valid_text (dec_of_int (unit_random_seed u)))] else []) @
     property_attributes (ad_hoc_test_result u) @ [(''name'', ''AllTests'')]"

definition unit_node :: "(int \<Rightarrow> local_tm option) \<Rightarrow> gtest_flags \<Rightarrow> unit_test \<Rightarrow> xml" where
  "unit_node localtime fl u =
     Element ''testsuites'' (unit_attributes localtime fl u)
       ([Text [LF]] @ indented ''  '' (map case_node (filter (\<lambda>c. case_reportable_test_count c > 0) (test_cases u))))"

text \<open>
  What \<open>RecordProperty\<close> keeps of a result, and what only the tests can see to: that the keys of
  their properties are names.
\<close>

definition result_fine :: "string list \<Rightarrow> test_result \<Rightarrow> bool" where
  "result_fine reserved r \<longleftrightarrow>
     length (test_part_results r) < 2 ^ 31 \<and> length (test_properties r) < 2 ^ 31 \<and>
     distinct (map property_key (test_properties r)) \<and>
     (\<forall>p \<in> set (test_properties r). xml_name (property_key p) \<and> property_key p \<notin> set reserved)"

definition results_fine :: "unit_test \<Rightarrow> bool" where
  "results_fine u \<longleftrightarrow>
     result_fine kReservedTestSuitesAttributes (ad_hoc_test_result u) \<and>
     (\<forall>c \<in> set (test_cases u). result_fine kReservedTestSuiteAttributes (case_ad_hoc_test_result c) \<and>
       (\<forall>t \<in> set (test_info_list c). result_fine kReservedTestCaseAttributes (info_result t)))"

section \<open>Streams\<close>

lemma stream_all_Inr [simp]: "stream_all (map Inr ss) = Inr (concat ss)"
  by (induction ss) simp_all

lemma stream_all_append:
  "stream_all ps = Inr s \<Longrightarrow> stream_all qs = Inr t \<Longrightarrow> stream_all (ps @ qs) = Inr (s @ t)"
  by (induction ps arbitrary: s) (auto simp: bind_res_eq_Inr)

lemma stream_indices:
  assumes "length xs < 2 ^ 31" and "\<And>i. i < length xs \<Longrightarrow> f (int i) = Inr (g (xs ! i))"
  shows "stream_all (map f (indices (vector_size xs))) = Inr (concat (map g xs))"
proof -
  have "map f (indices (vector_size xs)) = map Inr (map g xs)"
    using assms by (intro nth_equalityI) (simp_all add: indices_def vector_size_eq)
  then show ?thesis by (simp only: stream_all_Inr)
qed

definition attribute :: "string \<Rightarrow> string \<Rightarrow> string" where
  "attribute n v = '' '' @ n @ ''='' @ [QUOTE] @ EscapeXmlAttribute v @ [QUOTE]"

lemma OutputXmlAttribute_ok:
  "GetReservedAttributesForElement e = Inr names \<Longrightarrow> n \<in> set names \<Longrightarrow>
     OutputXmlAttribute e n v = Inr (attribute n v)"
  by (simp add: OutputXmlAttribute_def attribute_def QUOTE_def)

lemma attribute_denotes: "xml_name n \<Longrightarrow> xml_attributes (attribute n v) [(n, valid_text v)]"
  unfolding attribute_def by (rule attribute_escaped)

lemma attribute_first:
  "xml_name n \<Longrightarrow> valid_text v = x \<Longrightarrow> xml_attributes s as \<Longrightarrow> xml_attributes (attribute n v @ s) ((n, x) # as)"
  using attributes_append [OF attribute_denotes] by fastforce

lemma attributes_list:
  "\<forall>x \<in> set xs. xml_attributes (f x) (g x) \<Longrightarrow> xml_attributes (concat (map f xs)) (concat (map g xs))"
  by (induction xs) (auto intro: attributes_append attributes_Nil)

lemma xml_name_no_NUL: "xml_name n \<Longrightarrow> c_str n = n"
proof -
  assume n: "xml_name n"
  have "\<not> name_char NUL" by (simp add: name_char_def name_start_def)
  moreover have "list_all name_char n"
    using n by (auto simp: xml_name_def name_char_def split: list.splits)
  ultimately have "NUL \<notin> set n" by (auto simp: list_all_iff)
  then show ?thesis by (rule c_str_id)
qed

lemma properties_streamed:
  assumes "result_fine reserved r"
  shows "TestPropertiesAsXmlAttributes r =
      Inr (concat (map (\<lambda>p. attribute (property_key p) (c_str (property_value p))) (test_properties r)))"
    and "xml_attributes (concat (map (\<lambda>p. attribute (property_key p) (c_str (property_value p))) (test_properties r)))
      (property_attributes r)"
proof -
  have n: "length (test_properties r) < 2 ^ 31" "\<And>p. p \<in> set (test_properties r) \<Longrightarrow> xml_name (property_key p)"
    using assms by (auto simp: result_fine_def)
  show "TestPropertiesAsXmlAttributes r =
      Inr (concat (map (\<lambda>p. attribute (property_key p) (c_str (property_value p))) (test_properties r)))"
    unfolding TestPropertiesAsXmlAttributes_def test_property_count_def
  proof (rule stream_indices [OF n(1)])
    fix i assume i: "i < length (test_properties r)"
    then have "GetTestProperty (int i) r = Inr (test_properties r ! i)"
      using n(1) by (simp add: GetTestProperty_def test_property_count_def vector_size_eq)
    then show "bind_res (GetTestProperty (int i) r) (\<lambda>p. Inr ('' '' @ c_str (property_key p) @ ''='' @ [CHR 0x22] @
          EscapeXmlAttribute (c_str (property_value p)) @ [CHR 0x22])) =
        Inr (attribute (property_key (test_properties r ! i)) (c_str (property_value (test_properties r ! i))))"
      using n(2) [of "test_properties r ! i"] i by (simp add: attribute_def QUOTE_def xml_name_no_NUL)
  qed
  have "xml_attributes (concat (map (\<lambda>p. attribute (property_key p) (c_str (property_value p))) (test_properties r)))
      (concat (map (\<lambda>p. [(property_key p, valid_text (c_str (property_value p)))]) (test_properties r)))"
    using n(2) by (intro attributes_list) (auto intro: attribute_denotes)
  then show "xml_attributes (concat (map (\<lambda>p. attribute (property_key p) (c_str (property_value p))) (test_properties r)))
      (property_attributes r)" by (simp add: property_attributes_def)
qed

section \<open>Failures\<close>

lemma no_NUL_location: "NUL \<notin> set (part_location part)"
proof -
  have d: "NUL \<notin> set (dec_of_int i)" for i
    using dec_of_nat_not_ctrl by (auto simp: dec_of_int_def)
  show ?thesis
    using d c_str_no_NUL
    by (auto simp: part_location_def FormatCompilerIndependentFileLocation_def Let_def kUnknownFile_def
        split: option.splits if_splits)
qed

lemma xml_failure_denotes:
  "denotes (xml_failure part) [Text ''      '', failure_node part, Text [LF]]"
proof -
  let ?loc = "part_location part"
  define a where "a = attribute ''message'' (?loc @ [LF] @ c_str (part_summary part)) @ attribute ''type'' []"
  define b where "b = cdata_open @ cdata_segments (valid_text (?loc @ [LF] @ c_str (part_message part))) @ cdata_close"
  have nul: "NUL \<notin> set (?loc @ [LF] @ c_str (part_summary part))"
    "NUL \<notin> set (valid_text (?loc @ [LF] @ c_str (part_message part)))"
    using no_NUL_location c_str_no_NUL by (auto simp: valid_text_def)
  have printed: "xml_failure part = ''      '' @ (''<'' @ ''failure'' @ a @ ''>'' @ b @ ''</'' @ ''failure'' @ ''>'') @ [LF]"
    using nul
    by (simp add: xml_failure_def Let_def part_location_def [symmetric] OutputXmlCDataSection_def c_str_id valid_text_eq
        a_def b_def attribute_def QUOTE_def EscapeXmlAttribute_def [of "[]"] EscapeXml_def)
  have "xml_attributes a ([(''message'', valid_text (?loc @ [LF] @ c_str (part_summary part)))] @ [(''type'', valid_text [])])"
    unfolding a_def by (intro attributes_append attribute_denotes) (simp_all add: xml_name_def name_start_def name_char_def)
  moreover have "denotes b [Text (line_ends (valid_text (?loc @ [LF] @ c_str (part_message part))))]"
  proof -
    have "list_all xml_char (valid_text (?loc @ [LF] @ c_str (part_message part)))"
      by (auto simp: valid_text_def list_all_iff)
    from nodes_cdata_section [OF this] show ?thesis by (simp add: denotes_def b_def)
  qed
  ultimately have "denotes (''<'' @ ''failure'' @ a @ ''>'' @ b @ ''</'' @ ''failure'' @ ''>'') [failure_node part]"
    using denotes_element [of "''failure''" a] unfolding failure_node_def
    by (simp add: xml_name_def name_start_def name_char_def valid_text_def)
  then have "denotes (''      '' @ (''<'' @ ''failure'' @ a @ ''>'' @ b @ ''</'' @ ''failure'' @ ''>'') @ [LF])
      ([Text ''      ''] @ [failure_node part] @ [Text [LF]])"
    by (intro denotes_append denotes_space) simp_all
  then show ?thesis by (simp only: printed append.simps)
qed

fun parts_text :: "int \<Rightarrow> test_part_result list \<Rightarrow> string" where
  "parts_text failures [] = []"
| "parts_text failures (p # ps) =
     (if part_failed p
      then (if failures + 1 = 1 then ''>'' @ [LF] else []) @ xml_failure p @ parts_text (failures + 1) ps
      else parts_text failures ps)"

lemma parts_loop_ok:
  "\<forall>i \<in> set is. 0 \<le> i \<and> i < total_part_count r \<Longrightarrow>
     parts_loop r k is = Inr (parts_text k (map (\<lambda>i. test_part_results r ! nat i) is),
       k + int (length (filter part_failed (map (\<lambda>i. test_part_results r ! nat i) is))))"
  by (induction "is" arbitrary: k) (auto simp: GetTestPartResult_def)

lemma parts_text_pos: "0 < k \<Longrightarrow> parts_text k ps = concat (map xml_failure (filter part_failed ps))"
  by (induction ps arbitrary: k) auto

lemma parts_text_first:
  "parts_text 0 ps =
     (if filter part_failed ps = [] then [] else ''>'' @ [LF] @ concat (map xml_failure (filter part_failed ps)))"
  by (induction ps) (auto simp: parts_text_pos)

lemma parts_loop_all:
  assumes "length (test_part_results r) < 2 ^ 31"
  shows "parts_loop r 0 (indices (total_part_count r)) =
    Inr (parts_text 0 (test_part_results r), int (length (filter part_failed (test_part_results r))))"
proof -
  have n: "total_part_count r = int (length (test_part_results r))"
    using assms by (simp add: total_part_count_def vector_size_eq)
  have "map (\<lambda>i. test_part_results r ! nat i) (indices (total_part_count r)) = test_part_results r"
    by (simp add: indices_def n comp_def map_nth)
  then show ?thesis
    using parts_loop_ok [of "indices (total_part_count r)" r 0] by (auto simp: indices_def n)
qed

lemma denotes_indented:
  "\<forall>x \<in> set xs. denotes (f x) [Text w, g x, Text [LF]] \<Longrightarrow> denotes (concat (map f xs)) (indented w (map g xs))"
  by (induction xs) (auto simp: indented_def intro: denotes_append [where ms = "[_, _, _]", simplified])

lemma denotes_line:
  assumes "denotes p [n]" and "list_all (\<lambda>c. c = SP \<or> c = LF) w"
  shows "denotes (w @ p @ [LF]) [Text w, n, Text [LF]]"
proof -
  have "denotes (w @ p @ [LF]) ([Text w] @ [n] @ [Text [LF]])"
    using assms by (intro denotes_append denotes_space) simp_all
  then show ?thesis by simp
qed

section \<open>Elements\<close>

lemma element_names:
  "xml_name ''testcase''" "xml_name ''testsuite''" "xml_name ''testsuites''"
  by (simp_all add: xml_name_def name_start_def name_char_def)

lemma attribute_names:
  "xml_name ''name''" "xml_name ''value_param''" "xml_name ''type_param''" "xml_name ''status''"
  "xml_name ''time''" "xml_name ''classname''" "xml_name ''tests''" "xml_name ''failures''"
  "xml_name ''disabled''" "xml_name ''errors''" "xml_name ''timestamp''" "xml_name ''random_seed''"
  by (simp_all add: xml_name_def name_start_def name_char_def)

lemma reserved_attributes:
  "n \<in> set kReservedTestCaseAttributes \<Longrightarrow> OutputXmlAttribute ''testcase'' n v = Inr (attribute n v)"
  "n \<in> set kReservedTestSuiteAttributes \<Longrightarrow> OutputXmlAttribute ''testsuite'' n v = Inr (attribute n v)"
  "n \<in> set kReservedTestSuitesAttributes \<Longrightarrow> OutputXmlAttribute ''testsuites'' n v = Inr (attribute n v)"
  by (simp_all add: OutputXmlAttribute_ok GetReservedAttributesForElement_def)

lemma valid_constants:
  "valid_text ''run'' = ''run''" "valid_text ''notrun'' = ''notrun''" "valid_text ''0'' = ''0''"
  "valid_text ''AllTests'' = ''AllTests''"
  by (simp_all add: valid_text_def xml_char_def)

lemma property_keys: "map fst (property_attributes r) = map property_key (test_properties r)"
  by (simp add: property_attributes_def comp_def)

lemma OutputXmlTestInfo_denotes:
  assumes "result_fine kReservedTestCaseAttributes (info_result t)"
  shows "\<exists>s. OutputXmlTestInfo n t = Inr s \<and> denotes s [Text ''    '', test_node n t, Text [LF]]"
proof -
  let ?r = "info_result t"
  let ?fs = "filter part_failed (test_part_results ?r)"
  define ps where "ps = concat (map (\<lambda>p. attribute (property_key p) (c_str (property_value p))) (test_properties ?r))"
  define a where "a = attribute ''name'' (c_str (info_name t)) @
    (case info_value_param t of None \<Rightarrow> [] | Some v \<Rightarrow> attribute ''value_param'' (c_str v)) @
    (case info_type_param t of None \<Rightarrow> [] | Some v \<Rightarrow> attribute ''type_param'' (c_str v)) @
    attribute ''status'' (if info_should_run t then ''run'' else ''notrun'') @
    attribute ''time'' (FormatTimeInMillisAsSeconds (result_elapsed_time ?r)) @
    attribute ''classname'' (c_str n) @ ps"
  note props = properties_streamed [OF assms]
  have head: "stream_all
        [Inr ''    <testcase'',
         OutputXmlAttribute ''testcase'' ''name'' (c_str (info_name t)),
         (case info_value_param t of
            None \<Rightarrow> Inr [] | Some v \<Rightarrow> OutputXmlAttribute ''testcase'' ''value_param'' (c_str v)),
         (case info_type_param t of
            None \<Rightarrow> Inr [] | Some v \<Rightarrow> OutputXmlAttribute ''testcase'' ''type_param'' (c_str v)),
         OutputXmlAttribute ''testcase'' ''status'' (if info_should_run t then ''run'' else ''notrun''),
         OutputXmlAttribute ''testcase'' ''time'' (FormatTimeInMillisAsSeconds (result_elapsed_time ?r)),
         OutputXmlAttribute ''testcase'' ''classname'' (c_str n),
         TestPropertiesAsXmlAttributes ?r] = Inr (''    <testcase'' @ a)"
    by (cases "info_value_param t"; cases "info_type_param t")
      (simp_all add: reserved_attributes(1) kReservedTestCaseAttributes_def props(1) a_def ps_def)
  have attrs: "xml_attributes a (test_attributes n t)"
    unfolding a_def test_attributes_def
    by (cases "info_value_param t"; cases "info_type_param t"; simp only: option.case append.simps;
        intro attribute_first attribute_names props(2) [folded ps_def])
      (simp_all add: valid_constants)
  have dist: "distinct (map fst (test_attributes n t))"
    using assms by (auto simp: test_attributes_def property_keys result_fine_def kReservedTestCaseAttributes_def
        split: option.splits)
  have parts: "parts_loop ?r 0 (indices (total_part_count ?r)) =
      Inr (parts_text 0 (test_part_results ?r), int (length ?fs))"
    using assms by (intro parts_loop_all) (simp add: result_fine_def)
  show ?thesis
  proof (cases "?fs = []")
    case True
    have "OutputXmlTestInfo n t = Inr (''    '' @ (''<'' @ ''testcase'' @ a @ '' />'') @ [LF])"
      unfolding OutputXmlTestInfo_def Let_def head parts using True by (simp add: parts_text_first)
    moreover
    have "denotes (''<'' @ ''testcase'' @ a @ '' />'') [test_node n t]"
      unfolding test_node_def using True denotes_empty [OF element_names(1) attrs dist] by simp
    from denotes_line [OF this, of "''    ''"]
    have "denotes (''    '' @ (''<'' @ ''testcase'' @ a @ '' />'') @ [LF]) [Text ''    '', test_node n t, Text [LF]]" by simp
    ultimately show ?thesis by (intro exI conjI)
  next
    case False
    define b where "b = [LF] @ concat (map xml_failure ?fs) @ ''    ''"
    have "OutputXmlTestInfo n t =
        Inr (''    '' @ (''<'' @ ''testcase'' @ a @ ''>'' @ b @ ''</'' @ ''testcase'' @ ''>'') @ [LF])"
      unfolding OutputXmlTestInfo_def Let_def head parts using False by (simp add: parts_text_first b_def)
    moreover have "denotes b ([Text [LF]] @ indented ''      '' (map failure_node ?fs) @ [Text ''    ''])"
      unfolding b_def
      by (intro denotes_append denotes_space denotes_indented ballI xml_failure_denotes) simp_all
    then have "denotes (''<'' @ ''testcase'' @ a @ ''>'' @ b @ ''</'' @ ''testcase'' @ ''>'') [test_node n t]"
      unfolding test_node_def using False denotes_element [OF element_names(1) attrs dist] by (simp add: Let_def)
    from denotes_line [OF this, of "''    ''"]
    have "denotes (''    '' @ (''<'' @ ''testcase'' @ a @ ''>'' @ b @ ''</'' @ ''testcase'' @ ''>'') @ [LF]) [Text ''    '', test_node n t, Text [LF]]" by simp
    ultimately show ?thesis by (intro exI conjI)
  qed
qed

text \<open>Some elements of a list are printed, the others leave nothing.\<close>

lemma stream_some:
  assumes "\<forall>x \<in> set xs. P x \<longrightarrow> (\<exists>s. f x = Inr s \<and> denotes s [Text w, g x, Text [LF]])"
  shows "\<exists>s. stream_all (map (\<lambda>x. if P x then f x else Inr []) xs) = Inr s \<and>
    denotes s (indented w (map g (filter P xs)))"
  using assms
proof (induction xs)
  case (Cons x xs)
  then obtain s where s: "stream_all (map (\<lambda>x. if P x then f x else Inr []) xs) = Inr s"
    "denotes s (indented w (map g (filter P xs)))" by auto
  show ?case
  proof (cases "P x")
    case True
    with Cons.prems obtain u where u: "f x = Inr u" "denotes u [Text w, g x, Text [LF]]" by auto
    have "denotes (u @ s) ([Text w, g x, Text [LF]] @ indented w (map g (filter P xs)))"
      using u(2) s(2) by (rule denotes_append)
    then show ?thesis using True s(1) u(1) by (simp add: indented_def)
  qed (use s in simp)
qed (simp add: indented_def)

lemma the_test_in_order:
  assumes "case_ok c"
  shows "map (the_test c) (indices (case_total_test_count c)) = map Inr (tests_in_order c)"
    and "set (tests_in_order c) = set (test_info_list c)"
proof -
  let ?n = "length (test_info_list c)"
  have p: "permutation_of ?n (test_indices c)" "?n < 2 ^ 31" using assms by (simp_all add: case_ok_def)
  have one: "the_test c (int i) = Inr (test_info_list c ! nat (test_indices c ! i))" if "i < ?n" for i
    using permutation_element [OF p that] by (simp add: the_test_def GetTestInfo_def)
  have len: "length (test_indices c) = ?n" using p(1) by (rule permutation_length)
  show "map (the_test c) (indices (case_total_test_count c)) = map Inr (tests_in_order c)"
    using one len p(2)
    by (intro nth_equalityI) (simp_all add: indices_def case_total_test_count_def vector_size_eq tests_in_order_def)
  have "set (tests_in_order c) = (\<lambda>i. test_info_list c ! nat i) ` int ` {0..<?n}"
    using permutation_set [OF p(1)] by (simp add: tests_in_order_def)
  also have "\<dots> = set (test_info_list c)" by (auto simp: image_image set_conv_nth)
  finally show "set (tests_in_order c) = set (test_info_list c)" .
qed

lemma map_bind: "map h xs = map Inr ys \<Longrightarrow> map (\<lambda>i. bind_res (h i) k) xs = map k ys"
  by (induction xs arbitrary: ys) (auto simp: map_eq_Cons_conv)

lemma PrintXmlTestCase_denotes:
  assumes "case_ok c" and "result_fine kReservedTestSuiteAttributes (case_ad_hoc_test_result c)"
    and "\<forall>t \<in> set (test_info_list c). result_fine kReservedTestCaseAttributes (info_result t)"
  shows "\<exists>s. PrintXmlTestCase c = Inr s \<and> denotes s [Text ''  '', case_node c, Text [LF]]"
proof -
  let ?r = "case_ad_hoc_test_result c"
  define ps where "ps = concat (map (\<lambda>p. attribute (property_key p) (c_str (property_value p))) (test_properties ?r))"
  define a where "a = attribute ''name'' (c_str (case_name c)) @
    attribute ''tests'' (dec_of_int (case_reportable_test_count c)) @
    attribute ''failures'' (dec_of_int (case_failed_test_count c)) @
    attribute ''disabled'' (dec_of_int (case_reportable_disabled_test_count c)) @
    attribute ''errors'' ''0'' @ attribute ''time'' (FormatTimeInMillisAsSeconds (case_elapsed_time c)) @ ps"
  note props = properties_streamed [OF assms(2)]
  obtain tests where tests: "stream_all (map (\<lambda>t. if is_reportable t then OutputXmlTestInfo (case_name c) t else Inr [])
      (tests_in_order c)) = Inr tests"
    "denotes tests (indented ''    '' (map (test_node (case_name c)) (filter is_reportable (tests_in_order c))))"
    using stream_some [of "tests_in_order c" is_reportable "OutputXmlTestInfo (case_name c)" "''    ''" "test_node (case_name c)"]
      OutputXmlTestInfo_denotes assms(3) the_test_in_order(2) [OF assms(1)] by blast
  have loop: "map (\<lambda>i. bind_res (the_test c i) (\<lambda>t. if is_reportable t then OutputXmlTestInfo (case_name c) t else Inr []))
        (indices (case_total_test_count c)) =
      map (\<lambda>t. if is_reportable t then OutputXmlTestInfo (case_name c) t else Inr []) (tests_in_order c)"
    by (rule map_bind [OF the_test_in_order(1) [OF assms(1)]])
  have "PrintXmlTestCase c = Inr ((''  <testsuite'' @ a @ ''>'' @ [LF]) @ tests @ ''  </testsuite>'' @ [LF])"
    unfolding PrintXmlTestCase_def Let_def loop
  proof (intro stream_all_append tests(1))
    show "stream_all
       [Inr (''  <'' @ ''testsuite''),
         OutputXmlAttribute ''testsuite'' ''name'' (c_str (case_name c)),
         OutputXmlAttribute ''testsuite'' ''tests'' (dec_of_int (case_reportable_test_count c)),
         OutputXmlAttribute ''testsuite'' ''failures'' (dec_of_int (case_failed_test_count c)),
         OutputXmlAttribute ''testsuite'' ''disabled'' (dec_of_int (case_reportable_disabled_test_count c)),
         OutputXmlAttribute ''testsuite'' ''errors'' ''0'',
         OutputXmlAttribute ''testsuite'' ''time'' (FormatTimeInMillisAsSeconds (case_elapsed_time c)),
         TestPropertiesAsXmlAttributes ?r,
         Inr (''>'' @ [LF])] = Inr (''  <testsuite'' @ a @ ''>'' @ [LF])"
      by (simp add: reserved_attributes(2) kReservedTestSuiteAttributes_def props(1) a_def ps_def)
  qed simp
  then have eq: "PrintXmlTestCase c =
      Inr (''  '' @ (''<'' @ ''testsuite'' @ a @ ''>'' @ ([LF] @ tests @ ''  '') @ ''</'' @ ''testsuite'' @ ''>'') @ [LF])"
    by simp
  have attrs: "xml_attributes a (case_attributes c)"
    unfolding a_def case_attributes_def append.simps
    by (intro attribute_first attribute_names props(2) [folded ps_def]) (simp_all add: valid_constants)
  have dist: "distinct (map fst (case_attributes c))"
    using assms(2) by (auto simp: case_attributes_def property_keys result_fine_def kReservedTestSuiteAttributes_def)
  have "denotes ([LF] @ tests @ ''  '') ([Text [LF]] @
      indented ''    '' (map (test_node (case_name c)) (filter is_reportable (tests_in_order c))) @ [Text ''  ''])"
    by (intro denotes_append denotes_space tests(2)) simp_all
  note line = denotes_line [OF denotes_element [OF element_names(2) attrs dist this]]
  have "list_all (\<lambda>c. c = SP \<or> c = LF) ''  ''" by simp
  from eq line [OF this] show ?thesis unfolding case_node_def by (intro exI conjI)
qed

lemma the_case_all:
  assumes "unit_ok u"
  shows "map (the_case u) (indices (total_test_case_count u)) = map Inr (test_cases u)"
proof -
  let ?n = "length (test_cases u)"
  have p: "permutation_of ?n (test_case_indices u)" "?n < 2 ^ 31" using assms by (simp_all add: unit_ok_def)
  have one: "the_case u (int i) = Inr (test_cases u ! i)" if "i < ?n" for i
    using permutation_element [OF p that] that by (simp add: the_case_def unit_GetTestCase_def)
  then show ?thesis
    using p(2) by (intro nth_equalityI) (simp_all add: indices_def total_test_case_count_def vector_size_eq)
qed

lemma PrintXmlUnitTest_document:
  assumes "unit_ok u" and "results_fine u"
  shows "\<exists>s. PrintXmlUnitTest localtime fl u = Inr s \<and> xml_document s (unit_node localtime fl u)"
proof -
  let ?r = "ad_hoc_test_result u"
  let ?P = "\<lambda>c. case_reportable_test_count c > 0"
  have fine: "result_fine kReservedTestSuitesAttributes ?r" using assms(2) by (simp add: results_fine_def)
  define ps where "ps = concat (map (\<lambda>p. attribute (property_key p) (c_str (property_value p))) (test_properties ?r))"
  define a where "a = attribute ''tests'' (dec_of_int (reportable_test_count u)) @
    attribute ''failures'' (dec_of_int (failed_test_count u)) @
    attribute ''disabled'' (dec_of_int (reportable_disabled_test_count u)) @
    attribute ''errors'' ''0'' @
    attribute ''timestamp'' (FormatEpochTimeInMillisAsIso8601 localtime (unit_start_timestamp u)) @
    attribute ''time'' (FormatTimeInMillisAsSeconds (unit_elapsed_time u)) @
    (if FLAG_shuffle fl then attribute ''random_seed'' (dec_of_int (unit_random_seed u)) else []) @
    ps @ attribute ''name'' ''AllTests''"
  note props = properties_streamed [OF fine]
  have "\<forall>c \<in> set (test_cases u). ?P c \<longrightarrow>
      (\<exists>s. PrintXmlTestCase c = Inr s \<and> denotes s [Text ''  '', case_node c, Text [LF]])"
    using assms by (auto simp: unit_ok_def results_fine_def intro: PrintXmlTestCase_denotes)
  from stream_some [OF this] obtain cases where
    cases: "stream_all (map (\<lambda>c. if ?P c then PrintXmlTestCase c else Inr []) (test_cases u)) = Inr cases"
    "denotes cases (indented ''  '' (map case_node (filter ?P (test_cases u))))" by blast
  have loop: "map (\<lambda>i. bind_res (the_case u i) (\<lambda>c. if ?P c then PrintXmlTestCase c else Inr []))
        (indices (total_test_case_count u)) =
      map (\<lambda>c. if ?P c then PrintXmlTestCase c else Inr []) (test_cases u)"
    by (rule map_bind [OF the_case_all [OF assms(1)]])
  have "PrintXmlUnitTest localtime fl u =
      Inr ((xml_declaration @ ''<testsuites'' @ a @ ''>'' @ [LF]) @ cases @ ''</testsuites>'' @ [LF])"
    unfolding PrintXmlUnitTest_def Let_def loop
  proof (intro stream_all_append cases(1))
    show "stream_all
       [Inr (''<?xml version='' @ [CHR 0x22] @ ''1.0'' @ [CHR 0x22] @ '' encoding='' @ [CHR 0x22] @
           ''UTF-8'' @ [CHR 0x22] @ ''?>'' @ [LF]),
         Inr (''<'' @ ''testsuites''),
         OutputXmlAttribute ''testsuites'' ''tests'' (dec_of_int (reportable_test_count u)),
         OutputXmlAttribute ''testsuites'' ''failures'' (dec_of_int (failed_test_count u)),
         OutputXmlAttribute ''testsuites'' ''disabled'' (dec_of_int (reportable_disabled_test_count u)),
         OutputXmlAttribute ''testsuites'' ''errors'' ''0'',
         OutputXmlAttribute ''testsuites'' ''timestamp''
           (FormatEpochTimeInMillisAsIso8601 localtime (unit_start_timestamp u)),
         OutputXmlAttribute ''testsuites'' ''time'' (FormatTimeInMillisAsSeconds (unit_elapsed_time u)),
         (if FLAG_shuffle fl
          then OutputXmlAttribute ''testsuites'' ''random_seed'' (dec_of_int (unit_random_seed u)) else Inr []),
         TestPropertiesAsXmlAttributes ?r,
         OutputXmlAttribute ''testsuites'' ''name'' ''AllTests'',
         Inr (''>'' @ [LF])] = Inr (xml_declaration @ ''<testsuites'' @ a @ ''>'' @ [LF])"
      by (simp add: reserved_attributes(3) kReservedTestSuitesAttributes_def props(1) a_def ps_def
          xml_declaration_def QUOTE_def)
  qed simp
  then have eq: "PrintXmlUnitTest localtime fl u = Inr (xml_declaration @
      (''<'' @ ''testsuites'' @ a @ ''>'' @ ([LF] @ cases) @ ''</'' @ ''testsuites'' @ ''>'') @ [LF])" by simp
  have "xml_attributes (attribute ''name'' ''AllTests'') [(''name'', ''AllTests'')]"
    using attribute_denotes [OF attribute_names(1)] valid_constants(4) by metis
  then have attrs: "xml_attributes a (unit_attributes localtime fl u)"
    unfolding a_def unit_attributes_def append.simps
    by (cases "FLAG_shuffle fl"; simp only: if_True if_False append.simps;
        intro attribute_first attribute_names attributes_append props(2) [folded ps_def])
      (simp_all add: valid_constants)
  have dist: "distinct (map fst (unit_attributes localtime fl u))"
    using fine by (auto simp: unit_attributes_def property_keys result_fine_def kReservedTestSuitesAttributes_def)
  have "denotes ([LF] @ cases) ([Text [LF]] @ indented ''  '' (map case_node (filter ?P (test_cases u))))"
    by (intro denotes_append denotes_space cases(2)) simp_all
  from denotes_append [OF denotes_element [OF element_names(3) attrs dist this] denotes_space [of "[LF]"]]
  have "xml_nodes ((''<'' @ ''testsuites'' @ a @ ''>'' @ ([LF] @ cases) @ ''</'' @ ''testsuites'' @ ''>'') @ [LF])
      [unit_node localtime fl u, Text [LF]]"
    unfolding unit_node_def by (intro denotes_nodes) simp
  then show ?thesis using eq unfolding xml_document_def by (intro exI conjI) (assumption | rule refl)+
qed

section \<open>The file\<close>

lemma name_valid: "xml_name n \<Longrightarrow> list_all xml_char n"
proof -
  assume "xml_name n"
  then have n: "list_all name_char n" by (auto simp: xml_name_def name_char_def split: list.splits)
  have "xml_char c" if "name_char c" for c
    using that by (auto simp: name_char_def name_start_def xml_char_def)
  with n show ?thesis by (auto simp: list_all_iff)
qed

lemma markup_valid:
  "list_all xml_char [SP, CHR ''='', QUOTE]" "list_all xml_char ''<![CDATA[''" "list_all xml_char '']]>''"
  "list_all xml_char ''</ >''"
  by (simp_all add: xml_char_def QUOTE_def)

lemma attributes_valid: "xml_attributes s as \<Longrightarrow> list_all xml_char s"
  by (induction rule: xml_attributes.induct) (use markup_valid in \<open>auto simp: name_valid\<close>)

lemma nodes_valid: "xml_nodes s ns \<Longrightarrow> list_all xml_char s"
  by (induction rule: xml_nodes.induct) (use markup_valid in \<open>auto simp: name_valid attributes_valid\<close>)

lemma document_no_NUL: "xml_document s root \<Longrightarrow> NUL \<notin> set s"
proof -
  assume "xml_document s root"
  then obtain t where t: "s = xml_declaration @ t" "list_all xml_char t"
    unfolding xml_document_def using nodes_valid by blast
  have "\<not> xml_char NUL" by (simp add: xml_char_def IsNormalizableWhitespace_def)
  then have "NUL \<notin> set t" using t(2) by (auto simp: list_all_iff)
  moreover have "NUL \<notin> set xml_declaration" by (simp add: xml_declaration_def QUOTE_def)
  ultimately show ?thesis by (simp add: t(1))
qed

section \<open>Properties\<close>

text \<open>
  C24. When the tests have run, the report that is written is a well-formed document, byte for byte
  in the grammar of XML, and what a reader finds in it is what was recorded: the counts, every
  reportable test once in the order of its case, its properties and each failed assertion with its
  place and its message, however these are cut by markup characters or ends of CDATA sections.
  Of every text only the bytes of \<open>xml_char\<close> are there: control characters, which XML does not allow, are
  left out, and so is every byte of a character outside ASCII, because a signed \<open>char\<close> is compared;
  the comments speak of invalid characters only. The hypotheses: the test registry is in order
  (\<open>unit_ok\<close>), and in each result (\<open>results_fine\<close>) the parts and properties are fewer than
  \<open>2 ^ 31\<close> and the keys of the properties are distinct XML names none of which is reserved. The
  listener either writes the document or ends the program with a message; it does not abort, and it returns
  when making the folder does.
\<close>

theorem report_well_formed:
  assumes "unit_ok u" and "results_fine u"
  shows "case XmlPrinter_OnTestIterationEnd K fopen_w localtime fl output_file fs u of
      None \<Rightarrow> CreateDirectoriesRecursively K fs (RemoveFileName (FilePath output_file)) = None
    | Some (Inl _) \<Rightarrow> False
    | Some (Inr (Report_Written fs' s)) \<Rightarrow> xml_document s (unit_node localtime fl u)
    | Some (Inr (Exit_Failure fs' message)) \<Rightarrow> message \<noteq> []"
proof -
  obtain s where s: "PrintXmlUnitTest localtime fl u = Inr s" "xml_document s (unit_node localtime fl u)"
    using PrintXmlUnitTest_document [OF assms] by blast
  have "NUL \<notin> set s" using s(2) by (rule document_no_NUL)
  then have "c_str (StringStreamToString s) = s" by (simp add: StringStreamToString_id c_str_id)
  with s show ?thesis
    by (simp add: XmlPrinter_OnTestIterationEnd_def split: option.split)
qed

definition sample_report_unit :: unit_test where
  "sample_report_unit =
     new_UnitTestImpl\<lparr>test_cases :=
       [(TestCase ''FooTest'' None 0 0)\<lparr>test_indices := [0], test_info_list :=
          [(TestInfo ''FooTest'' ''Adds'' None None 1 1)\<lparr>info_should_run := True, info_matches_filter := True,
             info_result := new_TestResult\<lparr>test_properties := [TestProperty ''size'' ''<2>''],
               test_part_results := [TestPartResult kFatalFailure (Some ''a.cc'') 7 ''a ]]> b & c'']\<rparr>\<rparr>]\<rparr>],
       test_case_indices := [0]\<rparr>"

lemma sample_report_fine: "unit_ok sample_report_unit" "results_fine sample_report_unit"
proof -
  have "\<not> is_death_test_case ''FooTest''" by code_simp
  then show "unit_ok sample_report_unit"
    by (simp add: unit_ok_def sample_report_unit_def new_UnitTestImpl_def TestCase_def TestInfo_def
        permutation_of_def death_count_def case_ok_def)
  show "results_fine sample_report_unit"
    by (simp add: results_fine_def sample_report_unit_def new_UnitTestImpl_def TestCase_def TestInfo_def
        result_fine_def new_TestResult_def TestProperty_def TestPartResult_def xml_name_def name_start_def
        name_char_def kReservedTestCaseAttributes_def)
qed

theorem report_well_formed_witness:
  "\<exists>s. XmlPrinter_OnTestIterationEnd (sample_kernel []) (\<lambda>_ _. True) (\<lambda>_. None) (default_flags (\<lambda>_. None))
      ''/r.xml'' [[] \<mapsto> True] sample_report_unit = Some (Inr (Report_Written [[] \<mapsto> True] s)) \<and>
    xml_document s (unit_node (\<lambda>_. None) (default_flags (\<lambda>_. None)) sample_report_unit)"
proof -
  let ?r = "XmlPrinter_OnTestIterationEnd (sample_kernel []) (\<lambda>_ _. True) (\<lambda>_. None) (default_flags (\<lambda>_. None))
      ''/r.xml'' [[] \<mapsto> True] sample_report_unit"
  have dir: "RemoveFileName (FilePath ''/r.xml'') = ''/''" by code_simp
  have made: "CreateDirectoriesRecursively (sample_kernel []) [[] \<mapsto> True] ''/'' = Some ([[] \<mapsto> True], True)"
    by (subst CreateDirectoriesRecursively.simps)
      (simp add: IsDirectory_def DirectoryExists_def sample_kernel_def location_def path_names_def IsAbsolutePath_def)
  obtain x where "?r = Some (bind_res x (\<lambda>s. Inr (Report_Written [[] \<mapsto> True] (c_str (StringStreamToString s)))))"
    by (simp add: XmlPrinter_OnTestIterationEnd_def dir made)
  then show ?thesis
    using report_well_formed [OF sample_report_fine, where K = "sample_kernel []" and fopen_w = "\<lambda>_ _. True"
        and localtime = "\<lambda>_. None" and fl = "default_flags (\<lambda>_. None)" and output_file = "''/r.xml''"
        and fs = "[[] \<mapsto> True]"]
    by (cases x) auto
qed

text \<open>
  What the comments do not say: as \<open>char\<close> is signed, every character outside ASCII is left out, and the
  key of a property is printed as it is.
\<close>

lemma non_ascii_left_out: "128 \<le> (of_char c :: nat) \<Longrightarrow> valid_text (c # s) = valid_text s"
  using nat_of_char_less_256 [of c]
  by (auto simp: valid_text_def xml_char_def simp del: nat_of_char_less_256)

lemma key_not_escaped:
  "TestPropertiesAsXmlAttributes (new_TestResult\<lparr>test_properties := [TestProperty ''<a'' ''b'']\<rparr>) =
     Inr ('' <a='' @ [QUOTE] @ ''b'' @ [QUOTE])"
  by (simp add: TestPropertiesAsXmlAttributes_def new_TestResult_def TestProperty_def test_property_count_def
      GetTestProperty_def vector_size_eq indices_def EscapeXmlAttribute_def EscapeXml_def escape_char_def
      IsValidXmlCharacter_def signed_char_def IsNormalizableWhitespace_def QUOTE_def c_str_def)

end
