(* ===== verification/Gtest_Pretty.thy ===== *)
theory Gtest_Pretty
  imports Gtest_Listener Gtest_Report
begin

text \<open>
  The default printer of a test program (\<open>PrettyUnitTestResultPrinter\<close> in \<open>gtest.cc\<close>): what each
  event of a run prints to standard output, in the state that the listener sees. Whether colors
  are used is decided once and is part of the printer. Shown: the summary of an iteration counts
  and lists exactly the tests that were run and failed.
\<close>

section \<open>Colors\<close>

definition GetAnsiColorCode :: "gtest_color \<Rightarrow> string option" where
  "GetAnsiColorCode color =
     (case color of
        COLOR_RED \<Rightarrow> Some ''1''
      | COLOR_GREEN \<Rightarrow> Some ''2''
      | COLOR_YELLOW \<Rightarrow> Some ''3''
      | COLOR_DEFAULT \<Rightarrow> None)"

definition ShouldUseColor :: "environment \<Rightarrow> gtest_flags \<Rightarrow> bool \<Rightarrow> bool" where
  "ShouldUseColor env fl stdout_is_tty =
     (let gtest_color = Some (FLAG_color fl) in
      if CaseInsensitiveCStringEquals gtest_color (Some ''auto'') then
        (let term = env ''TERM'';
             term_supports_color =
               CStringEquals term (Some ''xterm'') \<or>
               CStringEquals term (Some ''xterm-color'') \<or>
               CStringEquals term (Some ''xterm-256color'') \<or>
               CStringEquals term (Some ''screen'') \<or>
               CStringEquals term (Some ''screen-256color'') \<or>
               CStringEquals term (Some ''linux'') \<or>
               CStringEquals term (Some ''cygwin'')
         in stdout_is_tty \<and> term_supports_color)
      else
        CaseInsensitiveCStringEquals gtest_color (Some ''yes'') \<or>
        CaseInsensitiveCStringEquals gtest_color (Some ''true'') \<or>
        CaseInsensitiveCStringEquals gtest_color (Some ''t'') \<or>
        CStringEquals gtest_color (Some ''1''))"

text \<open>\<open>in_color_mode\<close> is the static variable; the text is the formatted one.\<close>

definition ColoredPrintf :: "bool \<Rightarrow> gtest_color \<Rightarrow> string \<Rightarrow> string" where
  "ColoredPrintf in_color_mode color formatted =
     (let use_color = in_color_mode \<and> color \<noteq> COLOR_DEFAULT in
      if \<not> use_color then formatted
      else CHR 0x1B # ''[0;3'' @ the (GetAnsiColorCode color) @ ''m'' @ formatted @ CHR 0x1B # ''[m'')"

section \<open>Formatting\<close>

definition FormatCountableNoun :: "int \<Rightarrow> string \<Rightarrow> string \<Rightarrow> string" where
  "FormatCountableNoun n singular_form plural_form =
     dec_of_int n @ '' '' @ (if n = 1 then singular_form else plural_form)"

definition FormatTestCount :: "int \<Rightarrow> string" where
  "FormatTestCount test_count = FormatCountableNoun test_count ''test'' ''tests''"

definition FormatTestCaseCount :: "int \<Rightarrow> string" where
  "FormatTestCaseCount test_case_count = FormatCountableNoun test_case_count ''test case'' ''test cases''"

definition PrintTestPartResult :: "test_part_result \<Rightarrow> string" where
  "PrintTestPartResult r = c_str (PrintTestPartResultToString r) @ [LF]"

text \<open>\<open>printf("%2d", n)\<close>.\<close>

definition printf_2d :: "int \<Rightarrow> string" where
  "printf_2d n = replicate (2 - length (dec_of_int n)) SP @ dec_of_int n"

definition PrintFullTestCommentIfPresent :: "test_info \<Rightarrow> string" where
  "PrintFullTestCommentIfPresent t =
     (let type_param = map_option c_str (info_type_param t); value_param = map_option c_str (info_value_param t) in
      if type_param \<noteq> None \<or> value_param \<noteq> None then
        '', where '' @
        (case type_param of
           None \<Rightarrow> []
         | Some p \<Rightarrow> kTypeParamLabel @ '' = '' @ p @ (if value_param \<noteq> None then '' and '' else [])) @
        (case value_param of None \<Rightarrow> [] | Some p \<Rightarrow> kValueParamLabel @ '' = '' @ p)
      else [])"

definition PrintTestName :: "string \<Rightarrow> string \<Rightarrow> string" where
  "PrintTestName test_case test = c_str test_case @ ''.'' @ c_str test"

section \<open>The events\<close>

record printer =
  print_env :: environment
  print_flags :: gtest_flags
  print_color :: bool

definition colored :: "printer \<Rightarrow> gtest_color \<Rightarrow> string \<Rightarrow> string" where
  "colored P = ColoredPrintf (print_color P)"

definition exit_res :: "'a or_exit \<Rightarrow> 'a res" where
  "exit_res r = (case r of Inl out \<Rightarrow> Inl ProgramExit | Inr x \<Rightarrow> Inr x)"

definition Pretty_OnTestIterationStart :: "printer \<Rightarrow> unit_test \<Rightarrow> int \<Rightarrow> string res" where
  "Pretty_OnTestIterationStart P u iteration =
     (let fl = print_flags P; flt = c_str (FLAG_filter fl) in
      if FLAG_repeat fl \<noteq> 1 \<and> iteration = 2 ^ 31 - 1 then Inl SignedOverflow
      else
      bind_res (exit_res (ShouldShard (print_env P) kTestTotalShards kTestShardIndex False)) (\<lambda>should_shard.
      bind_res (if should_shard
        then bind_res (exit_res (Int32FromEnvOrDie (print_env P) kTestShardIndex (- 1))) (\<lambda>shard_index.
          case print_env P kTestTotalShards of
            None \<Rightarrow> Inl NullDereference
          | Some shards \<Rightarrow> Inr (colored P COLOR_YELLOW (''Note: This is test shard '' @ dec_of_int (shard_index + 1) @
              '' of '' @ shards @ ''.'' @ [LF])))
        else Inr []) (\<lambda>shard_note.
        Inr (
          (if FLAG_repeat fl \<noteq> 1
           then [LF] @ ''Repeating all tests (iteration '' @ dec_of_int (iteration + 1) @ '') . . .'' @ [LF, LF]
           else []) @
          (if \<not> CStringEquals (Some flt) (Some kUniversalFilter)
           then colored P COLOR_YELLOW (''Note: Google Test filter = '' @ flt @ [LF]) else []) @
          shard_note @
          (if FLAG_shuffle fl
           then colored P COLOR_YELLOW (''Note: Randomizing tests'' @ [CHR 0x27] @ '' orders with a seed of '' @
             dec_of_int (unit_random_seed u) @ '' .'' @ [LF]) else []) @
          colored P COLOR_GREEN ''[==========] '' @
          ''Running '' @ FormatTestCount (test_to_run_count u) @ '' from '' @
          FormatTestCaseCount (test_case_to_run_count u) @ ''.'' @ [LF]))))"

definition Pretty_OnEnvironmentsSetUpStart :: "printer \<Rightarrow> string" where
  "Pretty_OnEnvironmentsSetUpStart P =
     colored P COLOR_GREEN ''[----------] '' @ ''Global test environment set-up.'' @ [LF]"

definition Pretty_OnTestCaseStart :: "printer \<Rightarrow> test_case \<Rightarrow> string" where
  "Pretty_OnTestCaseStart P c =
     colored P COLOR_GREEN ''[----------] '' @
     FormatCountableNoun (case_test_to_run_count c) ''test'' ''tests'' @ '' from '' @ c_str (case_name c) @
     (case case_type_param c of
        None \<Rightarrow> [LF]
      | Some p \<Rightarrow> '', where '' @ kTypeParamLabel @ '' = '' @ c_str p @ [LF])"

definition Pretty_OnTestStart :: "printer \<Rightarrow> test_info \<Rightarrow> string" where
  "Pretty_OnTestStart P t =
     colored P COLOR_GREEN ''[ RUN      ] '' @ PrintTestName (info_test_case_name t) (info_name t) @ [LF]"

definition Pretty_OnTestPartResult :: "printer \<Rightarrow> test_part_result \<Rightarrow> string" where
  "Pretty_OnTestPartResult P r = (if part_type_ok r = kSuccess then [] else PrintTestPartResult r)"

definition Pretty_OnTestEnd :: "printer \<Rightarrow> test_info \<Rightarrow> string" where
  "Pretty_OnTestEnd P t =
     (if result_Passed (info_result t) then colored P COLOR_GREEN ''[       OK ] ''
      else colored P COLOR_RED ''[  FAILED  ] '') @
     PrintTestName (info_test_case_name t) (info_name t) @
     (if result_Failed (info_result t) then PrintFullTestCommentIfPresent t else []) @
     (if FLAG_print_time (print_flags P)
      then '' ('' @ dec_of_int (result_elapsed_time (info_result t)) @ '' ms)'' @ [LF] else [LF])"

definition Pretty_OnTestCaseEnd :: "printer \<Rightarrow> test_case \<Rightarrow> string" where
  "Pretty_OnTestCaseEnd P c =
     (if \<not> FLAG_print_time (print_flags P) then []
      else colored P COLOR_GREEN ''[----------] '' @
        FormatCountableNoun (case_test_to_run_count c) ''test'' ''tests'' @ '' from '' @ c_str (case_name c) @
        '' ('' @ dec_of_int (case_elapsed_time c) @ '' ms total)'' @ [LF, LF])"

definition Pretty_OnEnvironmentsTearDownStart :: "printer \<Rightarrow> string" where
  "Pretty_OnEnvironmentsTearDownStart P =
     colored P COLOR_GREEN ''[----------] '' @ ''Global test environment tear-down'' @ [LF]"

definition failed_line :: "printer \<Rightarrow> test_case \<Rightarrow> test_info \<Rightarrow> string" where
  "failed_line P c t =
     colored P COLOR_RED ''[  FAILED  ] '' @ c_str (case_name c) @ ''.'' @ c_str (info_name t) @
     PrintFullTestCommentIfPresent t @ [LF]"

definition failed_tests_of :: "printer \<Rightarrow> test_case \<Rightarrow> string res" where
  "failed_tests_of P c =
     stream_all (map (\<lambda>j. bind_res (the_test c j) (\<lambda>t.
       Inr (if \<not> info_should_run t \<or> result_Passed (info_result t) then [] else failed_line P c t)))
       (indices (case_total_test_count c)))"

definition PrintFailedTests :: "printer \<Rightarrow> unit_test \<Rightarrow> string res" where
  "PrintFailedTests P u =
     (if failed_test_count u = 0 then Inr []
      else stream_all (map (\<lambda>i. bind_res (the_case u i) (\<lambda>c.
        if \<not> case_should_run c \<or> case_failed_test_count c = 0 then Inr [] else failed_tests_of P c))
        (indices (total_test_case_count u))))"

definition iteration_counts :: "printer \<Rightarrow> unit_test \<Rightarrow> string" where
  "iteration_counts P u =
     colored P COLOR_GREEN ''[==========] '' @
     FormatTestCount (test_to_run_count u) @ '' from '' @ FormatTestCaseCount (test_case_to_run_count u) @ '' ran.'' @
     (if FLAG_print_time (print_flags P) then '' ('' @ dec_of_int (unit_elapsed_time u) @ '' ms total)'' else []) @ [LF] @
     colored P COLOR_GREEN ''[  PASSED  ] '' @ FormatTestCount (successful_test_count u) @ ''.'' @ [LF]"

definition disabled_note :: "printer \<Rightarrow> unit_test \<Rightarrow> string" where
  "disabled_note P u =
     (let num_failures = failed_test_count u; num_disabled = reportable_disabled_test_count u in
      if num_disabled \<noteq> 0 \<and> \<not> FLAG_also_run_disabled_tests (print_flags P) then
        (if num_failures = 0 then [LF] else []) @
        colored P COLOR_YELLOW (''  YOU HAVE '' @ dec_of_int num_disabled @ '' DISABLED '' @
          (if num_disabled = 1 then ''TEST'' else ''TESTS'') @ [LF, LF])
      else [])"

definition Pretty_OnTestIterationEnd :: "printer \<Rightarrow> unit_test \<Rightarrow> string res" where
  "Pretty_OnTestIterationEnd P u =
     (let num_failures = failed_test_count u in
      bind_res (if \<not> unit_Passed u
        then bind_res (PrintFailedTests P u) (\<lambda>tests.
          Inr (colored P COLOR_RED ''[  FAILED  ] '' @ FormatTestCount (failed_test_count u) @ '', listed below:'' @ [LF] @
            tests @ [LF] @ printf_2d num_failures @ '' FAILED '' @ (if num_failures = 1 then ''TEST'' else ''TESTS'') @ [LF]))
        else Inr []) (\<lambda>failures. Inr (iteration_counts P u @ failures @ disabled_note P u)))"

text \<open>What an event prints in the state \<open>u\<close> of the test program.\<close>

definition PrettyUnitTestResultPrinter :: "printer \<Rightarrow> unit_test \<Rightarrow> event \<Rightarrow> string res" where
  "PrettyUnitTestResultPrinter P u e =
     (case e of
        OnTestIterationStart i \<Rightarrow> Pretty_OnTestIterationStart P u i
      | OnEnvironmentsSetUpStart \<Rightarrow> Inr (Pretty_OnEnvironmentsSetUpStart P)
      | OnTestCaseStart k \<Rightarrow> Inr (Pretty_OnTestCaseStart P (test_cases u ! k))
      | OnTestStart k j \<Rightarrow> Inr (Pretty_OnTestStart P (the_info u (k, j)))
      | OnTestPartResult r \<Rightarrow> Inr (Pretty_OnTestPartResult P r)
      | OnTestEnd k j \<Rightarrow> Inr (Pretty_OnTestEnd P (the_info u (k, j)))
      | OnTestCaseEnd k \<Rightarrow> Inr (Pretty_OnTestCaseEnd P (test_cases u ! k))
      | OnEnvironmentsTearDownStart \<Rightarrow> Inr (Pretty_OnEnvironmentsTearDownStart P)
      | OnTestIterationEnd i \<Rightarrow> Pretty_OnTestIterationEnd P u
      | _ \<Rightarrow> Inr [])"


section \<open>The summary\<close>

lemma mset_tests_in_order: "case_ok c \<Longrightarrow> mset (tests_in_order c) = mset (test_info_list c)"
proof -
  let ?f = "\<lambda>i. test_info_list c ! nat i"
  assume "case_ok c"
  then have "mset (test_indices c) = mset (map int [0..<length (test_info_list c)])"
    by (simp add: case_ok_def permutation_of_def)
  then have "mset (map ?f (test_indices c)) = mset (map ?f (map int [0..<length (test_info_list c)]))"
    by (simp only: mset_map)
  also have "map ?f (map int [0..<length (test_info_list c)]) = test_info_list c"
    by (simp add: comp_def map_nth)
  finally show ?thesis by (simp only: tests_in_order_def)
qed

definition failed_tests :: "test_case \<Rightarrow> test_info list" where
  "failed_tests c = filter TestFailed (tests_in_order c)"

definition all_failed_tests :: "unit_test \<Rightarrow> (test_case \<times> test_info) list" where
  "all_failed_tests u = concat (map (\<lambda>c. map (Pair c) (failed_tests c)) (test_cases u))"

lemma failed_tests_count: "case_ok c \<Longrightarrow> case_failed_test_count c = int (length (failed_tests c))"
  using arg_cong [OF mset_tests_in_order, of c "\<lambda>M. size (filter_mset TestFailed M)"]
  by (simp add: case_failed_test_count_def CountIf_filter failed_tests_def flip: mset_filter)

lemma all_failed_tests_count:
  "unit_ok u \<Longrightarrow> failed_test_count u = int (length (all_failed_tests u))"
proof -
  have "\<forall>c \<in> set cs. case_ok c \<Longrightarrow> SumOverTestCaseList cs case_failed_test_count =
      int (length (concat (map (\<lambda>c. map (Pair c) (failed_tests c)) cs)))" for cs
    by (induction cs) (simp_all add: failed_tests_count)
  then show "unit_ok u \<Longrightarrow> ?thesis" by (simp add: unit_ok_def failed_test_count_def all_failed_tests_def)
qed

lemma stream_all_concat: "stream_all (map (\<lambda>x. Inr (f x)) xs) = Inr (concat (map f xs))"
  by (induction xs) simp_all

lemma failed_tests_of_eq:
  assumes "case_ok c"
  shows "failed_tests_of P c = Inr (concat (map (failed_line P c) (failed_tests c)))"
proof -
  let ?f = "\<lambda>t. if \<not> info_should_run t \<or> result_Passed (info_result t) then [] else failed_line P c t"
  have "failed_tests_of P c = stream_all (map (\<lambda>t. Inr (?f t)) (tests_in_order c))"
    unfolding failed_tests_of_def by (rule arg_cong [OF map_bind [OF the_test_in_order(1) [OF assms]]])
  moreover have "concat (map ?f ts) = concat (map (failed_line P c) (filter TestFailed ts))" for ts
    by (induction ts) (auto simp: TestFailed_def result_Passed_def)
  ultimately show ?thesis by (simp add: stream_all_concat failed_tests_def)
qed

lemma PrintFailedTests_eq:
  assumes "unit_ok u" and "\<forall>c \<in> set (test_cases u). \<forall>t \<in> set (test_info_list c). info_should_run t \<longrightarrow> case_should_run c"
  shows "PrintFailedTests P u = Inr (concat (map (\<lambda>(c, t). failed_line P c t) (all_failed_tests u)))"
proof (cases "failed_test_count u = 0")
  case True
  with all_failed_tests_count [OF assms(1)] show ?thesis by (simp add: PrintFailedTests_def)
next
  case False
  let ?g = "\<lambda>c. concat (map (failed_line P c) (failed_tests c))"
  have one: "(if \<not> case_should_run c \<or> case_failed_test_count c = 0 then Inr [] else failed_tests_of P c) = Inr (?g c)"
    if "c \<in> set (test_cases u)" for c
  proof -
    have ok: "case_ok c" using assms(1) that by (simp add: unit_ok_def)
    have "failed_tests c = []" if "\<not> case_should_run c"
      using assms(2) \<open>c \<in> _\<close> that the_test_in_order(2) [OF ok]
      by (auto simp: failed_tests_def filter_empty_conv TestFailed_def)
    with failed_tests_count [OF ok] show ?thesis by (auto simp: failed_tests_of_eq [OF ok])
  qed
  have "PrintFailedTests P u = stream_all (map
      (\<lambda>c. if \<not> case_should_run c \<or> case_failed_test_count c = 0 then Inr [] else failed_tests_of P c) (test_cases u))"
    using False unfolding PrintFailedTests_def by (simp only: if_False) (rule arg_cong [OF map_bind [OF the_case_all [OF assms(1)]]])
  also have "\<dots> = stream_all (map (\<lambda>c. Inr (?g c)) (test_cases u))"
    using one by (intro arg_cong [where f = stream_all] map_cong) auto
  moreover have "concat (map ?g cs) =
      concat (map (\<lambda>(c, t). failed_line P c t) (concat (map (\<lambda>c. map (Pair c) (failed_tests c)) cs)))" for cs
    by (induction cs) (simp_all add: comp_def)
  ultimately show ?thesis by (simp add: stream_all_concat all_failed_tests_def)
qed


text \<open>What is printed about failures: the number and a line for each.\<close>

definition failure_summary :: "printer \<Rightarrow> (test_case \<times> test_info) list \<Rightarrow> string" where
  "failure_summary P failures =
     (let n = int (length failures) in
      colored P COLOR_RED ''[  FAILED  ] '' @ FormatTestCount n @ '', listed below:'' @ [LF] @
      concat (map (\<lambda>(c, t). failed_line P c t) failures) @ [LF] @
      printf_2d n @ '' FAILED '' @ (if n = 1 then ''TEST'' else ''TESTS'') @ [LF])"

text \<open>The tests that are selected are in test cases that are run.\<close>

definition selection_consistent :: "unit_test \<Rightarrow> bool" where
  "selection_consistent u \<longleftrightarrow>
     (\<forall>c \<in> set (test_cases u). \<forall>t \<in> set (test_info_list c). info_should_run t \<longrightarrow> case_should_run c)"

lemma filter_test_loop_consistent:
  "filter_test_loop fl sh n k name r s b ts = (ts', r', s', b') \<Longrightarrow>
    (b \<longrightarrow> b') \<and> (\<forall>t \<in> set ts'. info_should_run t \<longrightarrow> b')"
proof (induction fl sh n k name r s b ts arbitrary: ts' r' s' b' rule: filter_test_loop.induct)
  case (2 fl sh n k name r s b t ts)
  obtain t1 x y where f: "filter_test fl sh n k name r t = (t1, x, y)" by (cases "filter_test fl sh n k name r t")
  obtain ts1 r1 s1 b1 where l: "filter_test_loop fl sh n k name (r + of_bool x) (s + of_bool y) (b \<or> y) ts = (ts1, r1, s1, b1)"
    by (cases "filter_test_loop fl sh n k name (r + of_bool x) (s + of_bool y) (b \<or> y) ts")
  from 2(1) [OF f [symmetric] refl l] 2(2) f l filter_test_result [OF f] show ?case by auto
qed auto

lemma filter_case_loop_consistent:
  "filter_case_loop fl sh n k r s cs = (cs', s') \<Longrightarrow>
    \<forall>c \<in> set cs'. \<forall>t \<in> set (test_info_list c). info_should_run t \<longrightarrow> case_should_run c"
proof (induction fl sh n k r s cs arbitrary: cs' s' rule: filter_case_loop.induct)
  case (2 fl sh n k r s c cs)
  obtain ts r1 s1 b where l: "filter_test_loop fl sh n k (case_name c) r s False (test_info_list c) = (ts, r1, s1, b)"
    by (cases "filter_test_loop fl sh n k (case_name c) r s False (test_info_list c)")
  obtain cs1 m where rest: "filter_case_loop fl sh n k r1 s1 cs = (cs1, m)"
    by (cases "filter_case_loop fl sh n k r1 s1 cs")
  from 2(1) [OF l [symmetric] refl refl rest] 2(2) filter_test_loop_consistent [OF l] l rest show ?case by auto
qed auto

lemma FilterTests_consistent: "FilterTests env fl sh u = Inr (u', n) \<Longrightarrow> selection_consistent u'"
  using filter_case_loop_consistent
  by (fastforce simp: FilterTests_def selection_consistent_def split: sum.splits prod.splits)

lemma list_all2_preimage:
  assumes "list_all2 R xs ys" and "y \<in> set ys"
  obtains x where "x \<in> set xs" and "R x y"
  using assms by (induction rule: list_all2_induct) auto

lemma selection_consistent_frame:
  assumes "unit_frame u u'" and "selection_consistent u"
  shows "selection_consistent u'"
  unfolding selection_consistent_def
proof (intro ballI impI)
  fix c' t' assume c': "c' \<in> set (test_cases u')" "t' \<in> set (test_info_list c')" "info_should_run t'"
  have cases: "list_all2 case_frame (test_cases u) (test_cases u')" using assms(1) by (simp add: unit_frame_def)
  obtain c where c: "c \<in> set (test_cases u)" "case_frame c c'" by (rule list_all2_preimage [OF cases c'(1)])
  then have tests: "list_all2 info_frame (test_info_list c) (test_info_list c')" by (simp add: case_frame_def)
  obtain t where t: "t \<in> set (test_info_list c)" "info_frame t t'" by (rule list_all2_preimage [OF tests c'(2)])
  have "case_should_run c"
    using assms(2) c(1) t(1) c'(3) info_frame_should_run [OF t(2)] by (auto simp: selection_consistent_def)
  with c(2) show "case_should_run c'" by (simp add: case_frame_def)
qed

text \<open>
  The states of the registry in the iterations that follow the selection \<open>u1\<close>: the tests run, are
  shuffled and are put back into their order.
\<close>

inductive iteration_state :: "unit_test \<Rightarrow> unit_test \<Rightarrow> bool" for u1 where
  selected: "iteration_state u1 u1"
| ran: "iteration_state u1 u \<Longrightarrow> unit_frame u u' \<Longrightarrow> iteration_state u1 u'"
| shuffled: "iteration_state u1 u \<Longrightarrow> ShuffleTests u = Inr u' \<Longrightarrow> iteration_state u1 u'"
| unshuffled: "iteration_state u1 u \<Longrightarrow> iteration_state u1 (UnshuffleTests u)"

lemma shuffle_cases_selection:
  "shuffle_cases r cs = Inr (r', cs') \<Longrightarrow>
    map case_should_run cs' = map case_should_run cs \<and> map test_info_list cs' = map test_info_list cs"
  by (induction r cs arbitrary: r' cs' rule: shuffle_cases.induct)
    (auto simp: bind_res_eq_Inr case_ShuffleTests_def)

lemma selection_consistent_maps:
  "selection_consistent u \<longleftrightarrow> (\<forall>(b, ts) \<in> set (zip (map case_should_run (test_cases u)) (map test_info_list (test_cases u))).
     \<forall>t \<in> set ts. info_should_run t \<longrightarrow> b)"
  by (auto simp: selection_consistent_def zip_map_map zip_same_conv_map)

lemma iteration_state_ok:
  assumes "iteration_state u1 u" and "unit_ok u1" and "selection_consistent u1"
  shows "unit_ok u \<and> selection_consistent u"
  using assms
proof (induction rule: iteration_state.induct)
  case (ran u u')
  then show ?case using unit_frame_ok selection_consistent_frame by blast
next
  case (shuffled u u')
  then have "unit_ok u'" using ShuffleTests_ok [of u] by auto
  moreover have "map case_should_run (test_cases u') = map case_should_run (test_cases u) \<and>
      map test_info_list (test_cases u') = map test_info_list (test_cases u)"
    using shuffled(2) shuffle_cases_selection by (fastforce simp: ShuffleTests_def bind_res_eq_Inr)
  ultimately show ?case using shuffled by (simp add: selection_consistent_maps)
next
  case (unshuffled u)
  then have "unit_ok (UnshuffleTests u)" using UnshuffleTests_ok by simp
  moreover have "selection_consistent (UnshuffleTests u)"
    using unshuffled by (simp add: selection_consistent_def UnshuffleTests_def case_UnshuffleTests_def)
  ultimately show ?case ..
qed simp

text \<open>They are the states of the run: at its start an iteration may shuffle, then the tests run.\<close>

lemma iteration_state_start:
  assumes "start_iteration w has i s = Inr s'" and "iteration_state u1 (run_unit s)"
  shows "iteration_state u1 (run_unit s')"
proof (cases "has \<and> FLAG_shuffle (world_flags w)")
  case True
  let ?u = "(run_unit s)\<lparr>unit_random := Reseed (word_of_int (unit_random_seed (run_unit s))) (unit_random (run_unit s))\<rparr>"
  obtain u where u: "ShuffleTests ?u = Inr u" "run_unit s' = u"
    using assms(1) True by (auto simp: start_iteration_def bind_res_eq_Inr notify_def)
  have "iteration_state u1 ?u" by (rule ran [OF assms(2)]) (simp add: unit_frame_def list_all2_refl)
  with u show ?thesis using shuffled by simp
next
  case False
  then have "s' = notify (OnTestIterationStart i) s" using assms(1) by (auto simp: start_iteration_def)
  with assms(2) show ?thesis by (simp add: notify_def)
qed

lemma iteration_state_run:
  assumes "run_selected w i s = Inr r" and "between_tests s" and "iteration_state u1 (run_unit s)"
  shows "iteration_state u1 (run_unit (flow_state r))"
  using no_loss_run_selected [OF assms(1,2)] assms(3) by (auto simp: no_loss_def intro: ran)

lemma set_all_failed_tests:
  "unit_ok u \<Longrightarrow> set (all_failed_tests u) =
    {(c, t). c \<in> set (test_cases u) \<and> t \<in> set (test_info_list c) \<and> info_should_run t \<and> result_Failed (info_result t)}"
  using the_test_in_order(2) by (fastforce simp: all_failed_tests_def failed_tests_def unit_ok_def TestFailed_def)


lemma case_failed_count_positive:
  "case_ok c \<Longrightarrow> case_Failed c \<longleftrightarrow> failed_tests c \<noteq> []"
  by (simp add: case_Failed_def failed_tests_count)

lemma unit_Passed_none: 
  assumes "unit_ok u" and "selection_consistent u" and "unit_Passed u"
  shows "all_failed_tests u = []"
proof -
  have "failed_tests c = []" if c: "c \<in> set (test_cases u)" for c
  proof -
    have ok: "case_ok c" using assms(1) c by (simp add: unit_ok_def)
    have "\<not> (case_should_run c \<and> case_Failed c)"
      using assms(3) c CountIf_pos [of "test_cases u" TestCaseFailed]
      by (auto simp: unit_Passed_def unit_Failed_def failed_test_case_count_def TestCaseFailed_def)
    moreover have "failed_tests c = []" if "\<not> case_should_run c"
      using assms(2) c that the_test_in_order(2) [OF ok]
      by (auto simp: failed_tests_def selection_consistent_def filter_empty_conv TestFailed_def)
    ultimately show ?thesis using case_failed_count_positive [OF ok] by blast
  qed
  then show ?thesis by (simp add: all_failed_tests_def)
qed

text \<open>
  C31. The summary at the end of an iteration names exactly the tests that were selected and have a
  failed assertion, and their number; when the iteration has passed, there is none. The test cases
  are named in the order in which they are kept, death test cases before the others, and the tests of
  a case in its current order, which is the shuffled one in an iteration that shuffles. This holds of
  every state the iterations can reach from the selection of the tests, shuffled or not.
\<close>

theorem summary_lists_failures:
  assumes "unit_ok u0" and "FilterTests env fl sh u0 = Inr (u1, n)" and "iteration_state u1 u"
  shows "Pretty_OnTestIterationEnd P u = Inr (iteration_counts P u @
      (if unit_Passed u then [] else failure_summary P (all_failed_tests u)) @ disabled_note P u) \<and>
    (unit_Passed u \<longrightarrow> all_failed_tests u = []) \<and>
    set (all_failed_tests u) = {(c, t). c \<in> set (test_cases u) \<and> t \<in> set (test_info_list c) \<and>
      info_should_run t \<and> result_Failed (info_result t)}"
proof -
  have ok: "unit_ok u" and sel: "selection_consistent u"
    using iteration_state_ok [OF assms(3) FilterTests_ok [OF assms(1,2)] FilterTests_consistent [OF assms(2)]] by simp_all
  note eq = PrintFailedTests_eq [OF ok sel [unfolded selection_consistent_def], of P]
  have "Pretty_OnTestIterationEnd P u = Inr (iteration_counts P u @
      (if unit_Passed u then [] else failure_summary P (all_failed_tests u)) @ disabled_note P u)"
    unfolding Pretty_OnTestIterationEnd_def Let_def eq failure_summary_def all_failed_tests_count [OF ok] by simp
  with set_all_failed_tests [OF ok] unit_Passed_none [OF ok sel] show ?thesis by blast
qed

definition failing_unit :: "unit_test \<Rightarrow> unit_test" where
  "failing_unit u =
     u\<lparr>test_cases := map (\<lambda>c. c\<lparr>test_info_list := map (\<lambda>t. t\<lparr>info_result := new_TestResult
       \<lparr>test_part_results := [\<lparr>part_type_ok = kFatalFailure, part_file_name = ''a.cc'', part_line_number = 3,
          part_summary = ''bad'', part_message = ''bad''\<rparr>]\<rparr>\<rparr>) (test_info_list c)\<rparr>) (test_cases u)\<rparr>"

lemma failing_unit_state: "iteration_state u (failing_unit u)"
  by (rule ran [OF selected])
    (simp add: failing_unit_def unit_frame_def case_frame_def info_frame_def list_all2_conv_all_nth)

definition sample_printer :: printer where
  "sample_printer = \<lparr>print_env = (\<lambda>_. None), print_flags = default_flags (\<lambda>_. None), print_color = False\<rparr>"

definition sample_summary :: string where
  "sample_summary =
     ''[  FAILED  ] 2 tests, listed below:'' @ [LF] @
     ''[  FAILED  ] BarDeathTest.Dies'' @ [LF] @ ''[  FAILED  ] FooTest.Adds'' @ [LF] @ [LF] @
     '' 2 FAILED TESTS'' @ [LF]"

theorem summary_lists_failures_witness:
  "case sample_unit of Inl _ \<Rightarrow> False
   | Inr u0 \<Rightarrow>
       (case FilterTests (\<lambda>_. None) (default_flags (\<lambda>_. None)) IGNORE_SHARDING_PROTOCOL u0 of Inl _ \<Rightarrow> False
        | Inr (u1, n) \<Rightarrow>
            Pretty_OnTestIterationEnd sample_printer (failing_unit u1) =
              Inr (iteration_counts sample_printer (failing_unit u1) @ sample_summary @
                   disabled_note sample_printer (failing_unit u1)))"
proof -
  obtain u0 where u0: "sample_unit = Inr u0" "reachable_tests u0" using case_Inr_obtain [OF sample_reachable] by blast
  have ok: "unit_ok u0" by (rule reachable_ok [OF u0(2)])
  have "case sample_unit of Inl _ \<Rightarrow> False
   | Inr u0 \<Rightarrow>
       (case FilterTests (\<lambda>_. None) (default_flags (\<lambda>_. None)) IGNORE_SHARDING_PROTOCOL u0 of Inl _ \<Rightarrow> False
        | Inr r \<Rightarrow> \<not> unit_Passed (failing_unit (fst r)) \<and>
            failure_summary sample_printer (all_failed_tests (failing_unit (fst r))) = sample_summary)"
    by code_simp
  then have "case FilterTests (\<lambda>_. None) (default_flags (\<lambda>_. None)) IGNORE_SHARDING_PROTOCOL u0 of Inl _ \<Rightarrow> False
        | Inr r \<Rightarrow> \<not> unit_Passed (failing_unit (fst r)) \<and>
            failure_summary sample_printer (all_failed_tests (failing_unit (fst r))) = sample_summary"
    unfolding u0(1) by simp
  from case_Inr_obtain [OF this] obtain r
    where r: "FilterTests (\<lambda>_. None) (default_flags (\<lambda>_. None)) IGNORE_SHARDING_PROTOCOL u0 = Inr r"
      "\<not> unit_Passed (failing_unit (fst r))"
      "failure_summary sample_printer (all_failed_tests (failing_unit (fst r))) = sample_summary" by blast
  obtain u1 n where un: "r = (u1, n)" by (cases r)
  note shown = summary_lists_failures [OF ok r(1) [unfolded un] failing_unit_state, where P = sample_printer, THEN conjunct1]
  show ?thesis using shown r(2,3) unfolding u0(1) sum.case r(1) un prod.case fst_conv by simp
qed

end
