(* ===== verification/Gtest_Death.thy ===== *)
theory Gtest_Death
  imports Gtest_Run
begin

text \<open>
  Death tests on Linux (\<open>gtest/src/gtest-death-test.cc\<close>, \<open>gtest-death-test-internal.h\<close>,
  \<open>ParseNaturalNumber\<close> of \<open>gtest-internal-inl.h\<close>, the POSIX part of the class \<open>RE\<close>): the two
  processes of a death test as functions of what the system answers to their calls, the byte
  by which the child reports, the verdict of the parent and the flag that makes a child run one
  death test. The system calls of a process are recorded in order; a process that ends says how.
\<close>

section \<open>Natural numbers and fields\<close>

text \<open>
  \<open>strtoull\<close> with base 10: the value, what is left, and whether \<open>errno\<close> is set to \<open>ERANGE\<close>.
\<close>

definition strtoull10 :: "string \<Rightarrow> nat \<times> string \<times> bool" where
  "strtoull10 str =
     (case strtol_sign (dropWhile IsSpace str) of (sg, ds) \<Rightarrow>
       let v = nat_of_dec (takeWhile is_digit ds); rest = dropWhile is_digit ds in
       if takeWhile is_digit ds = [] then (0, str, False)
       else if 2 ^ 64 \<le> v then (2 ^ 64 - 1, rest, True)
       else if sg = - 1 then (nat ((- int v) mod 2 ^ 64), rest, False)
       else (v, rest, False))"

text \<open>The instance for \<open>int\<close>, the one type it is used with on Linux.\<close>

definition ParseNaturalNumber :: "string \<Rightarrow> int option" where
  "ParseNaturalNumber str =
     (if str = [] \<or> \<not> is_digit (hd str) then None
      else case strtoull10 (c_str str) of (parsed, end_text, erange) \<Rightarrow>
        let parse_success = end_text = [] \<and> \<not> erange;
            result = to_Int32 (int parsed)
        in if parse_success \<and> result mod 2 ^ 64 = int parsed then Some result else None)"

text \<open>\<open>std::string::find\<close> of a character from a position on.\<close>

definition string_find :: "string \<Rightarrow> char \<Rightarrow> nat \<Rightarrow> nat option" where
  "string_find s c pos =
     (let k = length (takeWhile (\<lambda>x. x \<noteq> c) (drop pos s)) in
      if pos + k < length s then Some (pos + k) else None)"

lemma string_find_Some: "string_find s c pos = Some k \<Longrightarrow> pos \<le> k \<and> k < length s"
  by (auto simp: string_find_def Let_def split: if_splits)

function split_loop :: "string \<Rightarrow> char \<Rightarrow> nat \<Rightarrow> string list \<Rightarrow> string list" where
  "split_loop str delimiter pos parsed =
     (case string_find str delimiter pos of
        None \<Rightarrow> parsed @ [drop pos str]
      | Some colon \<Rightarrow> split_loop str delimiter (colon + 1) (parsed @ [slice pos (colon - pos) str]))"
  by pat_completeness auto

termination
  by (relation "measure (\<lambda>(str, c, pos, parsed). Suc (length str) - pos)") (auto dest: string_find_Some)

declare split_loop.simps [simp del]

definition SplitString :: "string \<Rightarrow> char \<Rightarrow> string list" where
  "SplitString str delimiter = split_loop str delimiter 0 []"

definition kDeathPrefix :: string where "kDeathPrefix = ''[  DEATH   ] ''"

function death_output_loop :: "string \<Rightarrow> nat \<Rightarrow> string \<Rightarrow> string" where
  "death_output_loop output at ret =
     (case string_find output LF at of
        None \<Rightarrow> ret @ kDeathPrefix @ drop at output
      | Some line_end \<Rightarrow>
          death_output_loop output (line_end + 1) (ret @ kDeathPrefix @ slice at (line_end + 1 - at) output))"
  by pat_completeness auto

termination
  by (relation "measure (\<lambda>(output, at, ret). Suc (length output) - at)") (auto dest: string_find_Some)

declare death_output_loop.simps [simp del]

definition FormatDeathTestOutput :: "string \<Rightarrow> string" where
  "FormatDeathTestOutput output = death_output_loop output 0 []"

section \<open>Exit statuses\<close>

text \<open>The macros of \<open>sys/wait.h\<close> on the status that \<open>waitpid\<close> stores.\<close>

definition WTERMSIG :: "32 word \<Rightarrow> nat" where "WTERMSIG status = unat (status AND 127)"
definition WEXITSTATUS :: "32 word \<Rightarrow> nat" where "WEXITSTATUS status = unat (drop_bit 8 status AND 255)"
definition WIFEXITED :: "32 word \<Rightarrow> bool" where "WIFEXITED status \<longleftrightarrow> WTERMSIG status = 0"
definition WIFSIGNALED :: "32 word \<Rightarrow> bool" where "WIFSIGNALED status \<longleftrightarrow> 0 < WTERMSIG status \<and> WTERMSIG status < 127"
definition WCOREDUMP :: "32 word \<Rightarrow> bool" where "WCOREDUMP status \<longleftrightarrow> status AND 128 \<noteq> 0"

definition ExitedWithCode :: "int \<Rightarrow> 32 word \<Rightarrow> bool" where
  "ExitedWithCode exit_code exit_status \<longleftrightarrow> WIFEXITED exit_status \<and> int (WEXITSTATUS exit_status) = exit_code"

definition KilledBySignal :: "int \<Rightarrow> 32 word \<Rightarrow> bool" where
  "KilledBySignal signum exit_status \<longleftrightarrow> WIFSIGNALED exit_status \<and> int (WTERMSIG exit_status) = signum"

definition ExitedUnsuccessfully :: "32 word \<Rightarrow> bool" where
  "ExitedUnsuccessfully exit_status \<longleftrightarrow> \<not> ExitedWithCode 0 exit_status"

definition ExitSummary :: "32 word \<Rightarrow> string" where
  "ExitSummary exit_code =
     (if WIFEXITED exit_code then ''Exited with exit status '' @ dec_of_nat (WEXITSTATUS exit_code)
      else if WIFSIGNALED exit_code then ''Terminated by signal '' @ dec_of_nat (WTERMSIG exit_code)
      else []) @
     (if WCOREDUMP exit_code then '' (core dumped)'' else [])"

section \<open>POSIX regular expressions\<close>

text \<open>
  \<open>regcomp\<close> is a parameter: it gives the matcher of a pattern, \<open>regexec\<close> on the compiled pattern, or
  fails. \<open>RE_posix\<close> is the state of an \<open>RE\<close>; the full matcher is only set when it was compiled.
\<close>

record posix_re =
  posix_pattern :: string
  posix_full :: "(string \<Rightarrow> bool) option"
  posix_partial :: "(string \<Rightarrow> bool) option"
  posix_valid :: bool

definition posix_RE_Init :: "(string \<Rightarrow> (string \<Rightarrow> bool) option) \<Rightarrow> string \<Rightarrow> posix_re \<times> string list" where
  "posix_RE_Init regcomp regex =
     (let full = regcomp (''^('' @ regex @ '')$'');
          partial = (if full \<noteq> None then regcomp (if regex = [] then ''()'' else regex) else None);
          is_valid = full \<noteq> None \<and> partial \<noteq> None in
      (\<lparr>posix_pattern = regex, posix_full = full, posix_partial = partial, posix_valid = is_valid\<rparr>,
       if is_valid then []
       else [''Regular expression '' @ [QUOTE] @ regex @ [QUOTE] @
             '' is not a valid POSIX Extended regular expression.'']))"

definition posix_FullMatch :: "string \<Rightarrow> posix_re \<Rightarrow> bool" where
  "posix_FullMatch str re \<longleftrightarrow> (if \<not> posix_valid re then False else the (posix_full re) str)"

definition posix_PartialMatch :: "string \<Rightarrow> posix_re \<Rightarrow> bool" where
  "posix_PartialMatch str re \<longleftrightarrow> (if \<not> posix_valid re then False else the (posix_partial re) str)"

section \<open>Processes\<close>

text \<open>
  What a death test asks of the system, in the terms of the source; \<open>Do_exec\<close> is \<open>execve\<close>, and
  \<open>Do_fdopen_write\<close> the \<open>FDOpen\<close>, \<open>fputc\<close> and \<open>fprintf\<close> of \<open>DeathTestAbort\<close>.
\<close>

datatype sys_call =
    Do_pipe
  | Do_fork
  | Do_clone
  | Do_close int
  | Do_read int nat
  | Do_write int string
  | Do_waitpid int
  | Do_keep_on_exec int
  | Do_ignore_SIGPROF
  | Do_restore_SIGPROF
  | Do_getpagesize
  | Do_mmap nat
  | Do_munmap nat
  | Do_chdir string
  | Do_exec "string list"
  | Do_fdopen int
  | Do_fdopen_write int string
  | Do_thread_count
  | Do_CaptureStderr
  | Do_GetCapturedStderr
  | Do_flush

text \<open>What the system answers: the value returned, \<open>errno\<close>, bytes, two descriptors or a status.\<close>

record sys_reply =
  reply_value :: int
  reply_errno :: int
  reply_data :: string
  reply_fds :: "int \<times> int"
  reply_status :: "32 word"

text \<open>
  The answers may depend on the calls before. \<open>source_file\<close> is \<open>__FILE__\<close> of the implementation,
  \<open>injected_argvs\<close> is \<open>GetInjectableArgvs()\<close>, and \<open>EINTR\<close> the value of the macro.
\<close>

record system =
  sys_answer :: "sys_call list \<Rightarrow> sys_call \<Rightarrow> sys_reply"
  sys_strerror :: "int \<Rightarrow> string"
  source_file :: string
  injected_argvs :: "string list"
  stack_grows_down :: bool

definition EINTR :: int where "EINTR = 4"
definition SIGABRT :: nat where "SIGABRT = 6"

record internal_flag =
  flag_file :: string
  flag_line :: int
  flag_index :: int
  flag_write_fd :: int

text \<open>
  The state of a process: the test program, \<open>last_death_test_message_\<close>, the static
  \<open>g_in_fast_death_test_child\<close>, whether events are forwarded, the parsed flag of a child, what was
  written to standard error since it was last captured, and the calls made.
\<close>

record process =
  proc_unit :: unit_test
  proc_flags :: gtest_flags
  last_death_test_message :: string
  in_fast_death_test_child :: bool
  proc_forwarding :: bool
  run_death_test_flag :: "internal_flag option"
  proc_stderr :: string
  proc_calls :: "sys_call list"

text \<open>How a piece of code ends: it returns, the process ends, or another program takes its place.\<close>

datatype 'a proc_end =
    Normal 'a
  | Exited int
  | Signalled nat
  | Replaced "string list"
  | Undefined

type_synonym 'a proc = "process \<Rightarrow> ('a proc_end \<times> process) option"

fun stop_with :: "'a proc_end \<Rightarrow> 'b proc_end" where
  "stop_with (Exited n) = Exited n"
| "stop_with (Signalled n) = Signalled n"
| "stop_with (Replaced argv) = Replaced argv"
| "stop_with _ = Undefined"

definition bind_proc :: "('a proc_end \<times> process) option \<Rightarrow> ('a \<Rightarrow> 'b proc) \<Rightarrow> ('b proc_end \<times> process) option" where
  "bind_proc m f =
     (case m of
        None \<Rightarrow> None
      | Some (Normal a, w) \<Rightarrow> f a w
      | Some (e, w) \<Rightarrow> Some (stop_with e, w))"

definition do_call :: "system \<Rightarrow> sys_call \<Rightarrow> process \<Rightarrow> sys_reply \<times> process" where
  "do_call S c w = (sys_answer S (proc_calls w) c, w\<lparr>proc_calls := proc_calls w @ [c]\<rparr>)"

definition call_proc :: "system \<Rightarrow> sys_call \<Rightarrow> sys_reply proc" where
  "call_proc S c w = (case do_call S c w of (r, w') \<Rightarrow> Some (Normal r, w'))"

text \<open>Standard error goes to a new file from now on.\<close>

definition CaptureStderr :: "system \<Rightarrow> unit proc" where
  "CaptureStderr S w = (case do_call S Do_CaptureStderr w of (r, w') \<Rightarrow> Some (Normal (), w'\<lparr>proc_stderr := []\<rparr>))"

definition write_stderr :: "string \<Rightarrow> process \<Rightarrow> process" where
  "write_stderr s w = w\<lparr>proc_stderr := proc_stderr w @ s\<rparr>"

text \<open>\<open>GTEST_LOG_\<close>: the marker, the location in the implementation and the text.\<close>

definition log_line :: "system \<Rightarrow> string \<Rightarrow> int \<Rightarrow> string \<Rightarrow> string" where
  "log_line S marker line msg =
     [LF] @ marker @ '' '' @ FormatFileLocation (Some (source_file S)) line @ '': '' @ msg @ [LF]"

definition LOG_WARNING :: "system \<Rightarrow> int \<Rightarrow> string \<Rightarrow> unit proc" where
  "LOG_WARNING S line msg w = Some (Normal (), write_stderr (log_line S ''[WARNING]'' line msg) w)"

definition LOG_FATAL :: "system \<Rightarrow> int \<Rightarrow> string \<Rightarrow> 'a proc" where
  "LOG_FATAL S line msg w = Some (Signalled SIGABRT, write_stderr (log_line S ''[ FATAL ]'' line msg) w)"

definition kDeathTestLived :: char where "kDeathTestLived = CHR ''L''"
definition kDeathTestReturned :: char where "kDeathTestReturned = CHR ''R''"
definition kDeathTestThrew :: char where "kDeathTestThrew = CHR ''T''"
definition kDeathTestInternalError :: char where "kDeathTestInternalError = CHR ''I''"

definition DeathTestAbort :: "system \<Rightarrow> string \<Rightarrow> 'a proc" where
  "DeathTestAbort S msg w =
     (case run_death_test_flag w of
        Some flag \<Rightarrow>
          bind_proc (call_proc S (Do_fdopen (flag_write_fd flag)) w) (\<lambda>parent w1.
            if reply_value parent = 0 then Some (Undefined, w1)
            else bind_proc (call_proc S (Do_fdopen_write (flag_write_fd flag) (kDeathTestInternalError # c_str msg)) w1)
              (\<lambda>_ w2. Some (Exited 1, w2)))
      | None \<Rightarrow> Some (Signalled SIGABRT, write_stderr (c_str msg) w))"

definition check_text :: "system \<Rightarrow> int \<Rightarrow> string \<Rightarrow> string" where
  "check_text S line expression =
     ''CHECK failed: File '' @ source_file S @ '', line '' @ dec_of_int line @ '': '' @ expression"

definition GTEST_DEATH_TEST_CHECK :: "system \<Rightarrow> int \<Rightarrow> string \<Rightarrow> bool \<Rightarrow> unit proc" where
  "GTEST_DEATH_TEST_CHECK S line expression value w =
     (if value then Some (Normal (), w) else DeathTestAbort S (check_text S line expression) w)"

text \<open>The retry loops end unless every call is interrupted.\<close>

partial_function (option) retry_call :: "system \<Rightarrow> sys_call \<Rightarrow> process \<Rightarrow> (sys_reply \<times> process) option" where
  "retry_call S c w =
     (case do_call S c w of (r, w') \<Rightarrow>
        if reply_value r = - 1 \<and> reply_errno r = EINTR then retry_call S c w' else Some (r, w'))"

definition GTEST_DEATH_TEST_CHECK_SYSCALL :: "system \<Rightarrow> int \<Rightarrow> string \<Rightarrow> sys_call \<Rightarrow> sys_reply proc" where
  "GTEST_DEATH_TEST_CHECK_SYSCALL S line expression c w =
     (case retry_call S c w of
        None \<Rightarrow> None
      | Some (r, w1) \<Rightarrow>
          if reply_value r = - 1 then DeathTestAbort S (check_text S line (expression @ '' != -1'')) w1
          else Some (Normal r, w1))"

definition GetLastErrnoDescription :: "system \<Rightarrow> int \<Rightarrow> string" where
  "GetLastErrnoDescription S errno = (if errno = 0 then [] else sys_strerror S errno)"

text \<open>
  The loops of \<open>FailFromInternalError\<close>: the message so far, until nothing is left to read.
\<close>

partial_function (option) internal_error_loop ::
  "system \<Rightarrow> int \<Rightarrow> string \<Rightarrow> process \<Rightarrow> (sys_reply \<times> string \<times> process) option" where
  "internal_error_loop S fd err w =
     (case do_call S (Do_read fd 255) w of (r, w') \<Rightarrow>
        if reply_value r > 0 then internal_error_loop S fd (err @ c_str (reply_data r)) w'
        else if reply_value r = - 1 \<and> reply_errno r = EINTR then internal_error_loop S fd err w'
        else Some (r, err, w'))"

definition FailFromInternalError :: "system \<Rightarrow> int \<Rightarrow> 'a proc" where
  "FailFromInternalError S fd w =
     (case internal_error_loop S fd [] w of
        None \<Rightarrow> None
      | Some (r, err, w1) \<Rightarrow>
          if reply_value r = 0 then LOG_FATAL S 325 (StringStreamToString err) w1
          else LOG_FATAL S 328 (''Error while reading death test internal: '' @
                 GetLastErrnoDescription S (reply_errno r) @ '' ['' @ dec_of_int (reply_errno r) @ '']'') w1)"

section \<open>One death test\<close>

datatype test_role = OVERSEE_TEST | EXECUTE_TEST
datatype abort_reason = TEST_ENCOUNTERED_RETURN_STATEMENT | TEST_THREW_EXCEPTION | TEST_DID_NOT_DIE
datatype death_test_outcome = IN_PROGRESS | DIED | LIVED | RETURNED | THREW

text \<open>The classes \<open>NoExecDeathTest\<close> and \<open>ExecDeathTest\<close>, the latter with the file and the line.\<close>

datatype death_test_class = NoExec | Exec string int

record death_test =
  dt_class :: death_test_class
  dt_statement :: string
  dt_regex :: posix_re
  dt_spawned :: bool
  dt_status :: "32 word"
  dt_outcome :: death_test_outcome
  dt_read_fd :: int
  dt_write_fd :: int
  dt_child_pid :: int

definition new_DeathTestImpl :: "death_test_class \<Rightarrow> string \<Rightarrow> posix_re \<Rightarrow> death_test" where
  "new_DeathTestImpl cl a_statement a_regex =
     \<lparr>dt_class = cl, dt_statement = a_statement, dt_regex = a_regex, dt_spawned = False, dt_status = - 1,
      dt_outcome = IN_PROGRESS, dt_read_fd = - 1, dt_write_fd = - 1, dt_child_pid = - 1\<rparr>"

text \<open>The constructor of the base class.\<close>

definition new_DeathTest :: "system \<Rightarrow> death_test_class \<Rightarrow> string \<Rightarrow> posix_re \<Rightarrow> death_test proc" where
  "new_DeathTest S cl a_statement a_regex w =
     (if current_test_info (proc_unit w) = None
      then DeathTestAbort S (''Cannot run a death test outside of a TEST or '' @ ''TEST_F construct'') w
      else Some (Normal (new_DeathTestImpl cl a_statement a_regex), w))"

definition destroy_DeathTestImpl :: "system \<Rightarrow> death_test \<Rightarrow> unit proc" where
  "destroy_DeathTestImpl S d = GTEST_DEATH_TEST_CHECK S 374 ''read_fd_ == -1'' (dt_read_fd d = - 1)"

text \<open>The outcome a status byte stands for; the other bytes end the parent.\<close>

definition outcome_of_flag :: "char \<Rightarrow> death_test_outcome option" where
  "outcome_of_flag fl =
     (if fl = kDeathTestReturned then Some RETURNED
      else if fl = kDeathTestThrew then Some THREW
      else if fl = kDeathTestLived then Some LIVED
      else None)"

text \<open>\<open>static_cast<unsigned int>\<close> of a \<open>char\<close>, which is signed.\<close>

definition unsigned_of_char :: "char \<Rightarrow> nat" where
  "unsigned_of_char c = unat (scast (of_char c :: 8 word) :: 32 word)"

definition ReadAndInterpretStatusByte :: "system \<Rightarrow> death_test \<Rightarrow> death_test proc" where
  "ReadAndInterpretStatusByte S d w =
     (case retry_call S (Do_read (dt_read_fd d) 1) w of
        None \<Rightarrow> None
      | Some (r, w1) \<Rightarrow>
          bind_proc
            (if reply_value r = 0 then Some (Normal (d\<lparr>dt_outcome := DIED\<rparr>), w1)
             else if reply_value r = 1 then
               (let fl = hd (reply_data r) in
                case outcome_of_flag fl of
                  Some outcome \<Rightarrow> Some (Normal (d\<lparr>dt_outcome := outcome\<rparr>), w1)
                | None \<Rightarrow>
                    if fl = kDeathTestInternalError then FailFromInternalError S (dt_read_fd d) w1
                    else LOG_FATAL S 454 (''Death test child process reported '' @ ''unexpected status byte ('' @
                           dec_of_nat (unsigned_of_char fl) @ '')'') w1)
             else LOG_FATAL S 459 (''Read from death test child process failed: '' @
                    GetLastErrnoDescription S (reply_errno r)) w1)
            (\<lambda>d1 w2. bind_proc
              (GTEST_DEATH_TEST_CHECK_SYSCALL S 462 ''posix::Close(read_fd())'' (Do_close (dt_read_fd d1)) w2)
              (\<lambda>_ w3. Some (Normal (d1\<lparr>dt_read_fd := - 1\<rparr>), w3))))"

definition status_char :: "abort_reason \<Rightarrow> char" where
  "status_char reason =
     (if reason = TEST_DID_NOT_DIE then kDeathTestLived
      else if reason = TEST_THREW_EXCEPTION then kDeathTestThrew else kDeathTestReturned)"

definition DeathTest_Abort :: "system \<Rightarrow> abort_reason \<Rightarrow> death_test \<Rightarrow> 'a proc" where
  "DeathTest_Abort S reason d w =
     bind_proc (GTEST_DEATH_TEST_CHECK_SYSCALL S 478 ''posix::Write(write_fd(), &status_ch, 1)''
         (Do_write (dt_write_fd d) [status_char reason]) w)
       (\<lambda>_ w1. Some (Exited 1, w1))"

definition result_block :: "string \<Rightarrow> string \<Rightarrow> string" where
  "result_block what error_message =
     ''    Result: '' @ what @ [LF] @ '' Error msg:'' @ [LF] @ FormatDeathTestOutput error_message"

text \<open>\<open>Passed\<close>: the answer, with the message that is left for the assertion.\<close>

definition DeathTest_Passed :: "system \<Rightarrow> bool \<Rightarrow> death_test \<Rightarrow> bool proc" where
  "DeathTest_Passed S status_ok d w =
     (if \<not> dt_spawned d then Some (Normal False, w)
      else bind_proc (call_proc S Do_GetCapturedStderr w) (\<lambda>r w1.
        let error_message = reply_data r;
            finish = (\<lambda>success s. Some (Normal success, w1\<lparr>last_death_test_message :=
              StringStreamToString (''Death test: '' @ c_str (dt_statement d) @ [LF] @ s)\<rparr>))
        in case dt_outcome d of
             LIVED \<Rightarrow> finish False (result_block ''failed to die.'' error_message)
           | THREW \<Rightarrow> finish False (result_block ''threw an exception.'' error_message)
           | RETURNED \<Rightarrow> finish False (result_block ''illegal return in test statement.'' error_message)
           | DIED \<Rightarrow>
               if status_ok then
                 if posix_PartialMatch (c_str error_message) (dt_regex d) then finish True []
                 else finish False (''    Result: died but not with expected error.'' @ [LF] @
                        ''  Expected: '' @ posix_pattern (dt_regex d) @ [LF] @
                        ''Actual msg:'' @ [LF] @ FormatDeathTestOutput error_message)
               else finish False (''    Result: died but not with expected exit code:'' @ [LF] @
                      ''            '' @ ExitSummary (dt_status d) @ [LF] @
                      ''Actual msg:'' @ [LF] @ FormatDeathTestOutput error_message)
           | IN_PROGRESS \<Rightarrow> LOG_FATAL S 571 ''DeathTest::Passed somehow called before conclusion of test'' w1))"

definition DeathTest_Wait :: "system \<Rightarrow> death_test \<Rightarrow> (death_test \<times> 32 word) proc" where
  "DeathTest_Wait S d w =
     (if \<not> dt_spawned d then Some (Normal (d, 0), w)
      else bind_proc (ReadAndInterpretStatusByte S d w) (\<lambda>d1 w1.
        bind_proc (GTEST_DEATH_TEST_CHECK_SYSCALL S 806 ''waitpid(child_pid_, &status_value, 0)''
            (Do_waitpid (dt_child_pid d1)) w1)
          (\<lambda>r w2. Some (Normal (d1\<lparr>dt_status := reply_status r\<rparr>, reply_status r), w2))))"

subsection \<open>Roles\<close>

definition DeathTestThreadWarning :: "nat \<Rightarrow> string" where
  "DeathTestThreadWarning thread_count =
     ''Death tests use fork(), which is unsafe particularly'' @
     '' in a threaded context. For this test, '' @ ''Google Test'' @ '' '' @
     (if thread_count = 0 then ''couldn'' @ [CHR 0x27] @ ''t detect the number of threads.''
      else ''detected '' @ dec_of_nat thread_count @ '' threads.'')"

definition NoExec_AssumeRole :: "system \<Rightarrow> death_test \<Rightarrow> (test_role \<times> death_test) proc" where
  "NoExec_AssumeRole S d w =
     bind_proc (call_proc S Do_thread_count w) (\<lambda>threads w1.
     bind_proc (if reply_value threads \<noteq> 1 then LOG_WARNING S 825 (DeathTestThreadWarning (nat (reply_value threads))) w1
                else Some (Normal (), w1)) (\<lambda>_ w2.
     bind_proc (call_proc S Do_pipe w2) (\<lambda>pipe w3.
     bind_proc (GTEST_DEATH_TEST_CHECK S 829 ''pipe(pipe_fd) != -1'' (reply_value pipe \<noteq> - 1) w3) (\<lambda>_ w4.
     bind_proc (CaptureStderr S (w4\<lparr>last_death_test_message := []\<rparr>)) (\<lambda>_ w5.
     bind_proc (call_proc S Do_flush w5) (\<lambda>_ w6.
     bind_proc (call_proc S Do_fork w6) (\<lambda>fork w7.
     bind_proc (GTEST_DEATH_TEST_CHECK S 843 ''child_pid != -1'' (reply_value fork \<noteq> - 1) w7) (\<lambda>_ w8.
       let d1 = d\<lparr>dt_child_pid := reply_value fork\<rparr> in
       if reply_value fork = 0 then
         bind_proc (GTEST_DEATH_TEST_CHECK_SYSCALL S 846 ''close(pipe_fd[0])'' (Do_close (fst (reply_fds pipe))) w8) (\<lambda>_ w9.
           Some (Normal (EXECUTE_TEST, d1\<lparr>dt_write_fd := snd (reply_fds pipe)\<rparr>),
                 w9\<lparr>proc_forwarding := False, in_fast_death_test_child := True\<rparr>))
       else
         bind_proc (GTEST_DEATH_TEST_CHECK_SYSCALL S 858 ''close(pipe_fd[1])'' (Do_close (snd (reply_fds pipe))) w8) (\<lambda>_ w9.
           Some (Normal (OVERSEE_TEST, d1\<lparr>dt_read_fd := fst (reply_fds pipe), dt_spawned := True\<rparr>), w9))))))))))"

text \<open>\<open>Arguments\<close>: the vector of arguments with the \<open>NULL\<close> at its end.\<close>

type_synonym arguments = "string option list"

definition new_Arguments :: arguments where "new_Arguments = [None]"

definition AddArgument :: "string \<Rightarrow> arguments \<Rightarrow> arguments" where
  "AddArgument argument args = butlast args @ [Some (c_str argument)] @ [last args]"

fun AddArguments :: "string list \<Rightarrow> arguments \<Rightarrow> arguments" where
  "AddArguments [] args = args"
| "AddArguments (a # as) args = AddArguments as (AddArgument a args)"

text \<open>What \<open>execve\<close> sees of an \<open>Argv()\<close>: the strings before the \<open>NULL\<close>.\<close>

definition argv_strings :: "arguments \<Rightarrow> string list" where
  "argv_strings args = map the (takeWhile (\<lambda>a. a \<noteq> None) args)"

definition ExecDeathTestChildMain :: "system \<Rightarrow> arguments \<Rightarrow> int \<Rightarrow> int proc" where
  "ExecDeathTestChildMain S argv close_fd w =
     bind_proc (GTEST_DEATH_TEST_CHECK_SYSCALL S 946 ''close(args->close_fd)'' (Do_close close_fd) w) (\<lambda>_ w1.
     let original_dir = c_str (original_working_dir (proc_unit w1)) in
     bind_proc (call_proc S (Do_chdir original_dir) w1) (\<lambda>chdir w2.
       if reply_value chdir \<noteq> 0 then
         DeathTestAbort S (''chdir('' @ [QUOTE] @ original_dir @ [QUOTE] @ '') failed: '' @
           GetLastErrnoDescription S (reply_errno chdir)) w2
       else bind_proc (call_proc S (Do_exec (argv_strings argv)) w2) (\<lambda>exec w3.
         if reply_value exec \<noteq> - 1 then Some (Replaced (argv_strings argv), w3)
         else if argv_strings argv = [] then Some (Undefined, w3)
         else DeathTestAbort S (''execve('' @ hd (argv_strings argv) @ '', ...) in '' @ original_dir @ '' failed: '' @
           GetLastErrnoDescription S (reply_errno exec)) w3)))"

definition kMaxStackAlignment :: nat where "kMaxStackAlignment = 64"

text \<open>
  The stack of a cloned child; the address \<open>mmap\<close> gives is a value of the system, \<open>- 1\<close> is
  \<open>MAP_FAILED\<close>. The child of \<open>clone\<close>, which sees 0, runs \<open>ExecDeathTestChildMain\<close> on that stack and
  ends with what it returns.
\<close>

definition spawn_by_clone :: "system \<Rightarrow> arguments \<Rightarrow> int \<Rightarrow> int proc" where
  "spawn_by_clone S argv close_fd w =
     bind_proc (call_proc S Do_getpagesize w) (\<lambda>page w1.
     let stack_size = nat (reply_value page) in
     bind_proc (call_proc S (Do_mmap stack_size) w1) (\<lambda>stack w2.
     bind_proc (GTEST_DEATH_TEST_CHECK S 1059 ''stack != MAP_FAILED'' (reply_value stack \<noteq> - 1) w2) (\<lambda>_ w3.
     let stack_top = reply_value stack +
           (if stack_grows_down S then int stack_size - int kMaxStackAlignment else 0) in
     bind_proc (GTEST_DEATH_TEST_CHECK S 1071
         ''stack_size > kMaxStackAlignment && reinterpret_cast<intptr_t>(stack_top) % kMaxStackAlignment == 0''
         (stack_size > kMaxStackAlignment \<and> stack_top mod int kMaxStackAlignment = 0) w3) (\<lambda>_ w4.
     bind_proc (call_proc S Do_clone w4) (\<lambda>clone w5.
       if reply_value clone = 0 then
         bind_proc (ExecDeathTestChildMain S argv close_fd w5) (\<lambda>exit_code w6. Some (Exited exit_code, w6))
       else
         bind_proc (call_proc S (Do_munmap stack_size) w5) (\<lambda>unmapped w6.
         bind_proc (GTEST_DEATH_TEST_CHECK S 1076 ''munmap(stack, stack_size) != -1'' (reply_value unmapped \<noteq> - 1) w6)
           (\<lambda>_ w7. Some (Normal (reply_value clone), w7))))))))"

definition spawn_by_fork :: "system \<Rightarrow> arguments \<Rightarrow> int \<Rightarrow> int proc" where
  "spawn_by_fork S argv close_fd w =
     bind_proc (call_proc S Do_fork w) (\<lambda>fork w1.
       if reply_value fork = 0 then
         bind_proc (ExecDeathTestChildMain S argv close_fd w1) (\<lambda>_ w2. Some (Exited 0, w2))
       else Some (Normal (reply_value fork), w1))"

definition ExecDeathTestSpawnChild :: "system \<Rightarrow> arguments \<Rightarrow> int \<Rightarrow> int proc" where
  "ExecDeathTestSpawnChild S argv close_fd w =
     bind_proc (GTEST_DEATH_TEST_CHECK_SYSCALL S 1046
         ''sigaction( SIGPROF, &ignore_sigprof_action, &saved_sigprof_action)'' Do_ignore_SIGPROF w) (\<lambda>_ w1.
     bind_proc (if \<not> FLAG_death_test_use_fork (proc_flags w1) then spawn_by_clone S argv close_fd w1
                else spawn_by_fork S argv close_fd w1) (\<lambda>child_pid w4.
     bind_proc (GTEST_DEATH_TEST_CHECK_SYSCALL S 1088
         ''sigaction(SIGPROF, &saved_sigprof_action, NULL)'' Do_restore_SIGPROF w4) (\<lambda>_ w5.
     bind_proc (GTEST_DEATH_TEST_CHECK S 1092 ''child_pid != -1'' (child_pid \<noteq> - 1) w5) (\<lambda>_ w6.
       Some (Normal child_pid, w6)))))"

definition exec_filter_flag :: "test_info \<Rightarrow> string" where
  "exec_filter_flag info =
     ''--'' @ ''gtest_'' @ kFilterFlag @ ''='' @ c_str (info_test_case_name info) @ ''.'' @ c_str (info_name info)"

definition exec_internal_flag :: "string \<Rightarrow> int \<Rightarrow> int \<Rightarrow> int \<Rightarrow> string" where
  "exec_internal_flag file line death_test_index fd =
     ''--'' @ ''gtest_'' @ kInternalRunDeathTestFlag @ ''='' @ c_str file @ ''|'' @ dec_of_int line @ ''|'' @
     dec_of_int death_test_index @ ''|'' @ dec_of_int fd"

definition exec_arguments :: "system \<Rightarrow> test_info \<Rightarrow> string \<Rightarrow> int \<Rightarrow> int \<Rightarrow> arguments" where
  "exec_arguments S info file line fd =
     AddArgument (exec_internal_flag file line (result_death_test_count (info_result info)) fd)
       (AddArgument (exec_filter_flag info)
         (AddArguments (injected_argvs S) new_Arguments))"

definition Exec_AssumeRole :: "system \<Rightarrow> string \<Rightarrow> int \<Rightarrow> death_test \<Rightarrow> (test_role \<times> death_test) proc" where
  "Exec_AssumeRole S file line d w =
     (case current_test_info (proc_unit w) of
        None \<Rightarrow> Some (Undefined, w)
      | Some kt \<Rightarrow>
     (case run_death_test_flag w of
        Some flag \<Rightarrow> Some (Normal (EXECUTE_TEST, d\<lparr>dt_write_fd := flag_write_fd flag\<rparr>), w)
      | None \<Rightarrow>
     bind_proc (call_proc S Do_pipe w) (\<lambda>pipe w1.
     bind_proc (GTEST_DEATH_TEST_CHECK S 1113 ''pipe(pipe_fd) != -1'' (reply_value pipe \<noteq> - 1) w1) (\<lambda>_ w2.
     bind_proc (call_proc S (Do_keep_on_exec (snd (reply_fds pipe))) w2) (\<lambda>kept w3.
     bind_proc (GTEST_DEATH_TEST_CHECK S 1116 ''fcntl(pipe_fd[1], F_SETFD, 0) != -1'' (reply_value kept \<noteq> - 1) w3) (\<lambda>_ w4.
     bind_proc (CaptureStderr S (w4\<lparr>last_death_test_message := []\<rparr>)) (\<lambda>_ w5.
     bind_proc (call_proc S Do_flush w5) (\<lambda>_ w6.
     bind_proc (ExecDeathTestSpawnChild S
         (exec_arguments S (the_info (proc_unit w) kt) file line (snd (reply_fds pipe)))
         (fst (reply_fds pipe)) w6) (\<lambda>child_pid w7.
     bind_proc (GTEST_DEATH_TEST_CHECK_SYSCALL S 1139 ''close(pipe_fd[1])'' (Do_close (snd (reply_fds pipe))) w7) (\<lambda>_ w8.
       Some (Normal (OVERSEE_TEST,
         d\<lparr>dt_child_pid := child_pid, dt_read_fd := fst (reply_fds pipe), dt_spawned := True\<rparr>), w8)))))))))))"

definition AssumeRole :: "system \<Rightarrow> death_test \<Rightarrow> (test_role \<times> death_test) proc" where
  "AssumeRole S d w =
     (case dt_class d of
        NoExec \<Rightarrow> NoExec_AssumeRole S d w
      | Exec file line \<Rightarrow> Exec_AssumeRole S file line d w)"

subsection \<open>The factory\<close>

definition InDeathTestChild :: "process \<Rightarrow> bool" where
  "InDeathTestChild w \<longleftrightarrow>
     (if FLAG_death_test_style (proc_flags w) = ''threadsafe''
      then FLAG_internal_run_death_test (proc_flags w) \<noteq> []
      else in_fast_death_test_child w)"

text \<open>
  The answer of \<open>DefaultDeathTestFactory::Create\<close> and the test, \<open>None\<close> for \<open>NULL\<close>. The counter of
  the current test is incremented first, so there has to be one.
\<close>

definition Factory_Create ::
  "system \<Rightarrow> string \<Rightarrow> posix_re \<Rightarrow> string \<Rightarrow> int \<Rightarrow> (bool \<times> death_test option) proc" where
  "Factory_Create S statement regex file line w0 =
     (case current_test_info (proc_unit w0) of
        None \<Rightarrow> Some (Undefined, w0)
      | Some kt \<Rightarrow>
     (case increment_death_test_count (info_result (the_info (proc_unit w0) kt)) of (r, death_test_index) \<Rightarrow>
     let w = w0\<lparr>proc_unit := update_info kt (\<lambda>t. t\<lparr>info_result := r\<rparr>) (proc_unit w0)\<rparr>;
         create = (
           if FLAG_death_test_style (proc_flags w) = ''threadsafe'' then
             bind_proc (new_DeathTest S (Exec file line) statement regex w) (\<lambda>d w1. Some (Normal (True, Some d), w1))
           else if FLAG_death_test_style (proc_flags w) = ''fast'' then
             bind_proc (new_DeathTest S NoExec statement regex w) (\<lambda>d w1. Some (Normal (True, Some d), w1))
           else Some (Normal (False, None), w\<lparr>last_death_test_message :=
             ''Unknown death test style '' @ [QUOTE] @ FLAG_death_test_style (proc_flags w) @ [QUOTE] @ '' encountered''\<rparr>))
     in case run_death_test_flag w of
          Some flag \<Rightarrow>
            if death_test_index > flag_index flag then
              Some (Normal (False, None), w\<lparr>last_death_test_message :=
                ''Death test count ('' @ dec_of_int death_test_index @ '') somehow exceeded expected maximum ('' @
                dec_of_int (flag_index flag) @ '')''\<rparr>)
            else if \<not> (flag_file flag = c_str file \<and> flag_line flag = line \<and> flag_index flag = death_test_index) then
              Some (Normal (True, None), w)
            else create
        | None \<Rightarrow> create))"

subsection \<open>The flag of a child\<close>

text \<open>The flag, or the text of the failure; the flag of the process is not set yet.\<close>

definition ParseInternalRunDeathTestFlag :: "gtest_flags \<Rightarrow> string + internal_flag option" where
  "ParseInternalRunDeathTestFlag fl =
     (if FLAG_internal_run_death_test fl = [] then Inr None
      else
        let fields = SplitString (c_str (FLAG_internal_run_death_test fl)) CHR ''|'';
            bad = Inl (''Bad --gtest_internal_run_death_test flag: '' @ FLAG_internal_run_death_test fl)
        in if length fields \<noteq> 4 then bad
           else case (ParseNaturalNumber (fields ! 1), ParseNaturalNumber (fields ! 2), ParseNaturalNumber (fields ! 3)) of
                  (Some line, Some index, Some write_fd) \<Rightarrow>
                    Inr (Some \<lparr>flag_file = fields ! 0, flag_line = line, flag_index = index, flag_write_fd = write_fd\<rparr>)
                | _ \<Rightarrow> bad)"

definition InitDeathTestSubprocessControlInfo :: "system \<Rightarrow> unit proc" where
  "InitDeathTestSubprocessControlInfo S w =
     (case ParseInternalRunDeathTestFlag (proc_flags w) of
        Inl msg \<Rightarrow> DeathTestAbort S msg w
      | Inr flag \<Rightarrow> Some (Normal (), w\<lparr>run_death_test_flag := flag\<rparr>))"

definition SuppressTestEventsIfInSubprocess :: "process \<Rightarrow> process" where
  "SuppressTestEventsIfInSubprocess w =
     (if run_death_test_flag w \<noteq> None then w\<lparr>proc_forwarding := False\<rparr> else w)"

subsection \<open>The assertion\<close>

text \<open>
  What the statement under test does in the child: what it writes to standard error, and how it ends.
\<close>

datatype statement_end =
    Completes
  | Returns
  | Throws_exception string
  | Throws_other
  | Exits int
  | Dies_by nat

record test_statement =
  statement_text :: string
  statement_stderr :: string
  statement_end :: statement_end

definition caught_message :: "string \<Rightarrow> int \<Rightarrow> string \<Rightarrow> string" where
  "caught_message file line exception_what =
     [LF] @ c_str (FormatFileLocation (Some file) line) @
     '': Caught std::exception-derived exception escaping the '' @
     ''death test statement. Exception message: '' @ c_str exception_what @ [LF]"

text \<open>
  The branch \<open>EXECUTE_TEST\<close>: an exception or the end of the statement aborts the test; a return
  statement is caught by the destructor of the sentinel.
\<close>

definition execute_statement :: "system \<Rightarrow> test_statement \<Rightarrow> string \<Rightarrow> int \<Rightarrow> death_test \<Rightarrow> 'a proc" where
  "execute_statement S st file line d w0 =
     (let w = write_stderr (statement_stderr st) w0 in
      case statement_end st of
        Completes \<Rightarrow> DeathTest_Abort S TEST_DID_NOT_DIE d w
      | Returns \<Rightarrow> DeathTest_Abort S TEST_ENCOUNTERED_RETURN_STATEMENT d w
      | Throws_exception e \<Rightarrow> DeathTest_Abort S TEST_THREW_EXCEPTION d (write_stderr (caught_message file line e) w)
      | Throws_other \<Rightarrow> DeathTest_Abort S TEST_THREW_EXCEPTION d w
      | Exits n \<Rightarrow> Some (Exited n, w)
      | Dies_by n \<Rightarrow> Some (Signalled n, w))"

text \<open>\<open>None\<close> when the assertion holds, otherwise the message that \<open>fail\<close> gets.\<close>

definition GTEST_DEATH_TEST ::
  "system \<Rightarrow> test_statement \<Rightarrow> (32 word \<Rightarrow> bool) \<Rightarrow> posix_re \<Rightarrow> string \<Rightarrow> int \<Rightarrow> string option proc" where
  "GTEST_DEATH_TEST S st predicate regex file line w =
     bind_proc (Factory_Create S (statement_text st) regex file line w) (\<lambda>(created, test) w1.
       if \<not> created then Some (Normal (Some (c_str (last_death_test_message w1))), w1)
       else case test of
         None \<Rightarrow> Some (Normal None, w1)
       | Some gtest_dt \<Rightarrow>
           bind_proc (AssumeRole S gtest_dt w1) (\<lambda>(role, d1) w2.
             case role of
               OVERSEE_TEST \<Rightarrow>
                 bind_proc (DeathTest_Wait S d1 w2) (\<lambda>(d2, status) w3.
                 bind_proc (DeathTest_Passed S (predicate status) d2 w3) (\<lambda>passed w4.
                 bind_proc (destroy_DeathTestImpl S d2 w4) (\<lambda>_ w5.
                   Some (Normal (if passed then None else Some (c_str (last_death_test_message w5))), w5))))
             | EXECUTE_TEST \<Rightarrow> execute_statement S st file line d1 w2))"

end
