(* ===== verification/Gtest_Death_Verdict.thy ===== *)
theory Gtest_Death_Verdict
  imports Gtest_Death
begin

text \<open>
  What death tests promise: the flag that the parent builds for its child is read back, the verdict is
  the one the statement under test deserves, and both ends of the pipe are closed. A run that returns
  is inverted bind by bind (\<open>normal_simps\<close>); in a system without failures the processes are
  computed.
\<close>

section \<open>The flag is read back\<close>

lemma takeWhile_dec_of_nat: "takeWhile is_digit (dec_of_nat n) = dec_of_nat n" "dropWhile is_digit (dec_of_nat n) = []"
  using dec_of_nat_chars [of n] by (simp_all add: takeWhile_eq_all_conv)

lemma c_str_dec_of_nat: "c_str (dec_of_nat n) = dec_of_nat n"
  by (rule c_str_id) (simp add: dec_of_nat_not_ctrl)

lemma strtoull10_digits:
  assumes "s \<noteq> []" and "\<forall>c \<in> set s. is_digit c"
  shows "strtoull10 s = (if 2 ^ 64 \<le> nat_of_dec s then (2 ^ 64 - 1, [], True) else (nat_of_dec s, [], False))"
proof -
  obtain c t where s: "s = c # t" using assms(1) by (cases s) auto
  then have c: "48 \<le> (of_char c :: nat)" "(of_char c :: nat) \<le> 57" using assms(2) by (simp_all add: is_digit_def)
  then have "\<not> IsSpace c" "c \<noteq> CHR ''-''" "c \<noteq> CHR ''+''" by (auto simp: IsSpace_def)
  then have "strtol_sign (dropWhile IsSpace s) = (1, s)" by (simp add: s strtol_sign_def)
  moreover have "takeWhile is_digit s = s" "dropWhile is_digit s = []" using assms(2) by (simp_all add: takeWhile_eq_all_conv)
  ultimately show ?thesis using assms(1) by (simp only: strtoull10_def Let_def prod.case) simp
qed

lemma digits_no_NUL: "\<forall>c \<in> set s. is_digit c \<Longrightarrow> c_str s = s"
  by (rule c_str_id) (auto simp: is_digit_def)

lemma ParseNaturalNumber_digits:
  assumes "s \<noteq> []" and "\<forall>c \<in> set s. is_digit c"
  shows "ParseNaturalNumber s =
    (let v = nat_of_dec s; result = to_Int32 (int v) in
     if v < 2 ^ 64 \<and> result mod 2 ^ 64 = int v then Some result else None)"
proof -
  have "is_digit (hd s)" using assms by (cases s) auto
  with assms show ?thesis
    unfolding ParseNaturalNumber_def digits_no_NUL [OF assms(2)] strtoull10_digits [OF assms] Let_def by auto
qed

lemma to_Int32_small: "0 \<le> v \<Longrightarrow> v < 2 ^ 31 \<Longrightarrow> to_Int32 v = v"
  by (simp add: to_Int32_id)

lemma ParseNaturalNumber_dec:
  assumes "0 \<le> n" and "n < 2 ^ 31"
  shows "ParseNaturalNumber (dec_of_int n) = Some n"
proof -
  have d: "dec_of_int n = dec_of_nat (nat n)" using assms(1) by (simp add: dec_of_int_def)
  have "\<forall>c \<in> set (dec_of_nat (nat n)). is_digit c" using dec_of_nat_chars by blast
  from ParseNaturalNumber_digits [OF dec_of_nat_not_Nil this] assms show ?thesis
    by (simp add: d to_Int32_small Let_def nat_less_iff)
qed

lemma split_loop_eq: "split_loop s c pos parsed = parsed @ split_at c (drop pos s)"
proof (induction s c pos parsed rule: split_loop.induct)
  case (1 s c pos parsed)
  let ?t = "drop pos s" and ?k = "length (upto_char c (drop pos s))"
  have k: "?k = length (takeWhile (\<lambda>x. x \<noteq> c) ?t)" by (simp add: upto_char_def)
  show ?case
  proof (cases "c \<in> set ?t")
    case False
    then have "upto_char c ?t = ?t" by (auto simp: upto_char_def takeWhile_eq_all_conv)
    moreover from this k have "string_find s c pos = None" unfolding string_find_def Let_def k [symmetric] by simp
    ultimately show ?thesis using False
      by (subst split_loop.simps, subst split_at.simps) (simp add: strchr_eq)
  next
    case True
    then have less: "?k < length ?t"
    proof -
      have "dropWhile (\<lambda>x. x \<noteq> c) ?t \<noteq> []" using True by (auto simp: dropWhile_eq_Nil_conv)
      moreover have "length ?t = ?k + length (dropWhile (\<lambda>x. x \<noteq> c) ?t)"
        unfolding k length_append [symmetric] takeWhile_dropWhile_id ..
      ultimately show ?thesis by simp
    qed
    then have f: "string_find s c pos = Some (pos + ?k)"
      unfolding string_find_def Let_def k [symmetric] using less by simp
    have "slice pos ?k s = upto_char c ?t"
      unfolding slice_def upto_char_def by (rule takeWhile_eq_take [symmetric])
    moreover have "drop (Suc (pos + ?k)) s = drop 1 (drop ?k ?t)" by (simp add: add.commute)
    ultimately show ?thesis using 1 [OF f] f True
      by (subst split_loop.simps, subst split_at.simps) (simp add: strchr_eq)
  qed
qed

text \<open>Every line of the output gets the prefix, also an empty last one.\<close>

definition prefix_lines :: "string \<Rightarrow> string" where
  "prefix_lines s = kDeathPrefix @ concat (map (\<lambda>c. if c = LF then LF # kDeathPrefix else [c]) s)"

lemma string_find_split:
  "case string_find s c pos of
     None \<Rightarrow> c \<notin> set (drop pos s)
   | Some k \<Rightarrow> pos \<le> k \<and> c \<notin> set (slice pos (k - pos) s) \<and> drop pos s = slice pos (k - pos) s @ c # drop (k + 1) s"
proof -
  let ?t = "drop pos s" and ?u = "takeWhile (\<lambda>x. x \<noteq> c) (drop pos s)"
  have u: "c \<notin> set ?u" by (auto dest: set_takeWhileD)
  show ?thesis
  proof (cases "c \<in> set ?t")
    case False
    then have "?u = ?t" by (auto simp: takeWhile_eq_all_conv)
    then have "length ?u = length s - pos" by (simp only: length_drop)
    then have "string_find s c pos = None" unfolding string_find_def Let_def by (simp only:) simp
    with False show ?thesis by simp
  next
    case True
    then obtain rest where rest: "?t = ?u @ c # rest"
      by (metis (mono_tags, lifting) dropWhile_eq_Cons_conv dropWhile_eq_Nil_conv list.exhaust takeWhile_dropWhile_id)
    then have len: "length ?t = length ?u + Suc (length rest)" by (metis length_Cons length_append)
    then have f: "string_find s c pos = Some (pos + length ?u)" unfolding string_find_def Let_def by simp
    have "slice pos (length ?u) s = ?u" unfolding slice_def by (rule takeWhile_eq_take [symmetric])
    moreover have "drop (pos + length ?u + 1) s = rest"
    proof -
      have "drop (length ?u + 1) ?t = rest" using rest by (metis Suc_eq_plus1 append_eq_conv_conj drop_Suc_Cons drop_drop add.commute drop0 plus_1_eq_Suc)
      then show ?thesis by (simp add: add.commute)
    qed
    ultimately show ?thesis using u rest f by simp
  qed
qed

lemma concat_plain: "LF \<notin> set s \<Longrightarrow> concat (map (\<lambda>c. if c = LF then LF # kDeathPrefix else [c]) s) = s"
  by (induction s) auto

lemma death_output_loop_eq: "death_output_loop s at ret = ret @ prefix_lines (drop at s)"
proof (induction s at ret rule: death_output_loop.induct)
  case (1 s at ret)
  show ?case
  proof (cases "string_find s LF at")
    case None
    with string_find_split [where s = s and c = LF and pos = at] show ?thesis
      by (subst death_output_loop.simps) (simp add: prefix_lines_def concat_plain)
  next
    case (Some k)
    with string_find_split [where s = s and c = LF and pos = at] have k: "at \<le> k" "LF \<notin> set (slice at (k - at) s)"
      "drop at s = slice at (k - at) s @ LF # drop (k + 1) s" by simp_all
    have "slice at (k + 1 - at) s = slice at (k - at) s @ [LF]"
    proof -
      have "length (slice at (k - at) s) = k - at"
        using k(1) string_find_Some [OF Some] by (intro length_slice) auto
      then show ?thesis using k(1) unfolding slice_def [of at "k + 1 - at"] by (subst k(3)) (simp add: Suc_diff_le)
    qed
    moreover have "prefix_lines (drop at s) = kDeathPrefix @ slice at (k - at) s @ [LF] @ prefix_lines (drop (k + 1) s)"
      unfolding prefix_lines_def by (subst k(3)) (simp add: concat_plain [OF k(2)])
    ultimately show ?thesis using 1 [OF Some] Some by (subst death_output_loop.simps) simp
  qed
qed

lemma FormatDeathTestOutput_eq: "FormatDeathTestOutput s = prefix_lines s"
  by (simp add: FormatDeathTestOutput_def death_output_loop_eq)

lemma SplitString_eq: "SplitString s c = split_at c s"
  by (simp add: SplitString_def split_loop_eq)

lemma split_at_none: "c \<notin> set s \<Longrightarrow> split_at c s = [s]"
  by (subst split_at.simps) (auto simp: strchr_eq upto_char_def takeWhile_eq_all_conv)

lemma split_at_field: "c \<notin> set s \<Longrightarrow> split_at c (s @ c # t) = s # split_at c t"
proof -
  assume c: "c \<notin> set s"
  then have "upto_char c (s @ c # t) = s" by (induction s) (auto simp: upto_char_def)
  then have "strchr (s @ c # t) c = Some (c # t)" by (simp add: strchr_eq)
  then show ?thesis using \<open>upto_char c (s @ c # t) = s\<close> by (subst split_at.simps) simp
qed

lemma bar_not_dec: "0 \<le> n \<Longrightarrow> CHR ''|'' \<notin> set (dec_of_int n)"
proof
  assume n: "0 \<le> n" and "CHR ''|'' \<in> set (dec_of_int n)"
  then have "CHR ''|'' \<in> set (dec_of_nat (nat n))" by (simp add: dec_of_int_def)
  then have "is_digit CHR ''|''" using dec_of_nat_chars by blast
  then show False by (simp add: is_digit_def)
qed

lemma NUL_not_dec: "0 \<le> n \<Longrightarrow> NUL \<notin> set (dec_of_int n)"
  by (simp add: dec_of_int_def dec_of_nat_not_ctrl)

lemma parse_filter_flag: "parse_flag (''--gtest_filter='' @ v) fl = (Some (fl\<lparr>FLAG_filter := v\<rparr>), [])"
  by (simp add: parse_flag_def bool_flag_def string_flag_def ParseBoolFlag_def ParseStringFlag_def
      ParseFlagValue_def SkipPrefix_def kAlsoRunDisabledTestsFlag_def kBreakOnFailureFlag_def
      kCatchExceptionsFlag_def kColorFlag_def kDeathTestStyleFlag_def kDeathTestUseFork_def kFilterFlag_def)

lemma parse_internal_flag:
  "parse_flag (''--gtest_internal_run_death_test='' @ v) fl = (Some (fl\<lparr>FLAG_internal_run_death_test := v\<rparr>), [])"
  by (simp add: parse_flag_def bool_flag_def string_flag_def ParseBoolFlag_def ParseStringFlag_def
      ParseFlagValue_def SkipPrefix_def kAlsoRunDisabledTestsFlag_def kBreakOnFailureFlag_def
      kCatchExceptionsFlag_def kColorFlag_def kDeathTestStyleFlag_def kDeathTestUseFork_def kFilterFlag_def
      kInternalRunDeathTestFlag_def)

lemma args_snoc:
  assumes "\<And>fl. parse_flag a fl = (Some (f fl), [])" and "i \<le> length argv"
    and "parse_args_loop i argv fl hf = (argv', fl', hf', out)"
  shows "parse_args_loop i (argv @ [a]) fl hf = (argv', f fl', hf', out)"
  using assms(2,3)
proof (induction "length argv - i" arbitrary: i argv fl hf argv' fl' hf' out rule: less_induct)
  case less
  show ?case
  proof (cases "i < length argv")
    case False
    with less.prems(1) have i: "i = length argv" by simp
    have "parse_args_loop i argv (f fl) hf = (argv, f fl, hf, [])" by (simp add: args_done i)
    then show ?thesis
      using args_flag [of i "argv @ [a]" fl "f fl" "[]" hf argv "f fl" hf "[]"] less.prems(2) assms(1) by (simp add: args_done i)
  next
    case True
    then have at: "(argv @ [a]) ! i = argv ! i" "i < length (argv @ [a])" by (simp_all add: nth_append)
    obtain r o1 where flag: "parse_flag (argv ! i) fl = (r, o1)" by (cases "parse_flag (argv ! i) fl")
    show ?thesis
    proof (cases r)
      case None
      obtain av g h o2 where rest: "parse_args_loop (i + 1) argv fl (hf \<or> wants_help (argv ! i)) = (av, g, h, o2)"
        by (cases "parse_args_loop (i + 1) argv fl (hf \<or> wants_help (argv ! i))")
      have "parse_args_loop (i + 1) (argv @ [a]) fl (hf \<or> wants_help ((argv @ [a]) ! i)) = (av, f g, h, o2)"
        using less.hyps [OF _ _ rest] True at(1) by simp
      from args_other [OF at(2) _ this, of o1] flag None at(1) args_other [OF True flag [unfolded None] rest] less.prems(2)
      show ?thesis by simp
    next
      case (Some f1)
      obtain av g h o2 where rest: "parse_args_loop i (take i argv @ drop (i + 1) argv) f1 hf = (av, g, h, o2)"
        by (cases "parse_args_loop i (take i argv @ drop (i + 1) argv) f1 hf")
      have "length (take i argv @ drop (i + 1) argv) - i < length argv - i" using True by simp
      moreover have "take i (argv @ [a]) @ drop (i + 1) (argv @ [a]) = (take i argv @ drop (i + 1) argv) @ [a]" using True by simp
      ultimately have "parse_args_loop i (take i (argv @ [a]) @ drop (i + 1) (argv @ [a])) f1 hf = (av, f g, h, o2)"
        using less.hyps [OF _ _ rest] True by simp
      from args_flag [OF at(2) _ this, of fl o1] flag Some at(1) args_flag [OF True flag [unfolded Some] rest] less.prems(2)
      show ?thesis by simp
    qed
  qed
qed

lemma AddArguments_eq: "AddArguments ss (map Some as @ [None]) = map Some (as @ map c_str ss) @ [None]"
proof (induction ss arbitrary: as)
  case (Cons s ss)
  have "AddArgument s (map Some as @ [None]) = map Some (as @ [c_str s]) @ [None]" by (simp add: AddArgument_def)
  then show ?case using Cons [of "as @ [c_str s]"] by simp
qed simp

lemma argv_strings_eq: "argv_strings (map Some as @ [None]) = as"
proof -
  have "takeWhile (\<lambda>a. a \<noteq> None) (map Some as @ [None]) = map Some as" by (induction as) simp_all
  then show ?thesis by (simp add: argv_strings_def comp_def)
qed

lemma exec_arguments_eq:
  "argv_strings (exec_arguments S info file line fd) =
     map c_str (injected_argvs S) @ [c_str (exec_filter_flag info)] @
     [c_str (exec_internal_flag file line (result_death_test_count (info_result info)) fd)]"
proof -
  have "AddArguments (injected_argvs S) new_Arguments = map Some (map c_str (injected_argvs S)) @ [None]"
    using AddArguments_eq [of "injected_argvs S" "[]"] by (simp add: new_Arguments_def)
  then have "exec_arguments S info file line fd = map Some (map c_str (injected_argvs S) @
      [c_str (exec_filter_flag info)] @
      [c_str (exec_internal_flag file line (result_death_test_count (info_result info)) fd)]) @ [None]"
    unfolding exec_arguments_def by (simp add: AddArgument_def butlast_append)
  then show ?thesis by (simp only: argv_strings_eq)
qed

text \<open>
  C39. What the parent of a death test of the style \<open>threadsafe\<close> puts on the command line of its child,
  after the arguments of the program itself, is what the child reads: the filter names the test that
  is running, and the internal flag gives back the file, the line, the index of the death test and
  the descriptor to write to.
\<close>

theorem death_test_flag_roundtrip:
  assumes "injected_argvs S \<noteq> []" and "CHR ''|'' \<notin> set file" and "NUL \<notin> set file"
    and "NUL \<notin> set (info_test_case_name info)" and "NUL \<notin> set (info_name info)"
    and "0 \<le> line" "line < 2 ^ 31" "0 \<le> fd" "fd < 2 ^ 31"
    and "0 \<le> result_death_test_count (info_result info)" "result_death_test_count (info_result info) < 2 ^ 31"
  shows "case ParseGoogleTestFlagsOnly (argv_strings (exec_arguments S info file line fd)) fl hf of
    (argv', fl', hf', out, shown) \<Rightarrow>
      FLAG_filter fl' = info_test_case_name info @ ''.'' @ info_name info \<and>
      ParseInternalRunDeathTestFlag fl' = Inr (Some
        \<lparr>flag_file = file, flag_line = line, flag_index = result_death_test_count (info_result info), flag_write_fd = fd\<rparr>)"
proof -
  let ?n = "result_death_test_count (info_result info)"
  let ?v = "file @ CHR ''|'' # dec_of_int line @ CHR ''|'' # dec_of_int ?n @ CHR ''|'' # dec_of_int fd"
  let ?name = "info_test_case_name info @ ''.'' @ info_name info"
  have NULs: "NUL \<notin> set ?v" "NUL \<notin> set ?name" using assms(3-11) NUL_not_dec by simp_all
  have filter_arg: "c_str (exec_filter_flag info) = ''--gtest_filter='' @ ?name"
    using NULs(2) assms(4,5) by (simp add: exec_filter_flag_def kFilterFlag_def c_str_id)
  have internal_arg: "c_str (exec_internal_flag file line ?n fd) = ''--gtest_internal_run_death_test='' @ ?v"
    using NULs(1) assms(3) by (simp add: exec_internal_flag_def kInternalRunDeathTestFlag_def c_str_id)
  let ?as = "map c_str (injected_argvs S)"
  obtain argv1 fl1 hf1 out1 where r: "parse_args_loop 1 ?as fl hf = (argv1, fl1, hf1, out1)"
    by (cases "parse_args_loop 1 ?as fl hf")
  have len: "1 \<le> length ?as" using assms(1) by (cases "injected_argvs S") auto
  have one: "parse_args_loop 1 (?as @ [''--gtest_filter='' @ ?name]) fl hf = (argv1, fl1\<lparr>FLAG_filter := ?name\<rparr>, hf1, out1)"
    by (rule args_snoc [OF parse_filter_flag len r])
  then have parsed: "parse_args_loop 1 ((?as @ [''--gtest_filter='' @ ?name]) @ [''--gtest_internal_run_death_test='' @ ?v]) fl hf =
      (argv1, fl1\<lparr>FLAG_filter := ?name, FLAG_internal_run_death_test := ?v\<rparr>, hf1, out1)"
    using args_snoc [OF parse_internal_flag _ one] len by simp
  have "SplitString ?v CHR ''|'' = [file, dec_of_int line, dec_of_int ?n, dec_of_int fd]"
    using assms(2) bar_not_dec assms(6,8,10) by (simp add: SplitString_eq split_at_field split_at_none)
  then have "ParseInternalRunDeathTestFlag (fl1\<lparr>FLAG_filter := ?name, FLAG_internal_run_death_test := ?v\<rparr>) = Inr (Some
      \<lparr>flag_file = file, flag_line = line, flag_index = ?n, flag_write_fd = fd\<rparr>)"
    using assms(6-11) NULs(1) by (simp add: ParseInternalRunDeathTestFlag_def c_str_id ParseNaturalNumber_dec Let_def)
  then show ?thesis
    using parsed unfolding ParseGoogleTestFlagsOnly_def exec_arguments_eq filter_arg internal_arg by simp
qed

lemma ParseNaturalNumber_negative:
  assumes "0 < k" and "k \<le> 2 ^ 31"
  shows "ParseNaturalNumber (dec_of_nat (2 ^ 64 - k)) = Some (- int k)"
proof -
  have "\<forall>c \<in> set (dec_of_nat (2 ^ 64 - k)). is_digit c" using dec_of_nat_chars by blast
  note digits = ParseNaturalNumber_digits [OF dec_of_nat_not_Nil this]
  have "word_of_int (int (2 ^ 64 - k)) = (word_of_int (- int k) :: 32 word)"
    using assms by (simp add: of_nat_diff word_of_int_eq_iff)
  moreover have "to_Int32 (- int k) = - int k" using assms by (simp add: to_Int32_id)
  ultimately have "to_Int32 (int (2 ^ 64 - k)) = - int k" by (simp add: to_Int32_def)
  moreover have "(- int k) mod 2 ^ 64 = int (2 ^ 64 - k)" using assms by (simp add: of_nat_diff zmod_zminus1_eq_if)
  ultimately show ?thesis using assms unfolding digits nat_of_dec_of_nat Let_def by simp
qed

section \<open>The verdict\<close>

text \<open>A system in which no call fails, and the descriptors that \<open>pipe\<close> gives in it.\<close>

definition calls_succeed :: "system \<Rightarrow> bool" where
  "calls_succeed S \<longleftrightarrow> (\<forall>h c. reply_value (sys_answer S h c) \<noteq> - 1)"

definition pipe_gives :: "system \<Rightarrow> int \<times> int \<Rightarrow> bool" where
  "pipe_gives S fds \<longleftrightarrow> (\<forall>h. reply_fds (sys_answer S h Do_pipe) = fds)"

definition with_call :: "sys_call \<Rightarrow> process \<Rightarrow> process" where
  "with_call c w = w\<lparr>proc_calls := proc_calls w @ [c]\<rparr>"

lemma with_call_simps [simp]:
  "proc_unit (with_call c w) = proc_unit w" "proc_flags (with_call c w) = proc_flags w"
  "run_death_test_flag (with_call c w) = run_death_test_flag w" "proc_stderr (with_call c w) = proc_stderr w"
  "last_death_test_message (with_call c w) = last_death_test_message w"
  "proc_calls (with_call c w) = proc_calls w @ [c]"
  by (simp_all add: with_call_def)

lemma bind_proc_simps [simp]:
  "bind_proc (Some (Normal a, w)) f = f a w"
  "bind_proc (Some (Exited n, w)) f = Some (Exited n, w)"
  "bind_proc (Some (Signalled k, w)) f = Some (Signalled k, w)"
  "bind_proc (Some (Undefined, w)) f = Some (Undefined, w)"
  "bind_proc (Some (Replaced argv, w)) f = Some (Replaced argv, w)"
  "bind_proc None f = None"
  by (simp_all add: bind_proc_def)

lemma call_proc_eq [simp]: "call_proc S c w = Some (Normal (sys_answer S (proc_calls w) c), with_call c w)"
  by (simp add: call_proc_def do_call_def with_call_def)

lemma retry_succeeds:
  "calls_succeed S \<Longrightarrow> retry_call S c w = Some (sys_answer S (proc_calls w) c, with_call c w)"
  by (subst retry_call.simps) (simp add: do_call_def calls_succeed_def with_call_def)

lemma syscall_succeeds:
  "calls_succeed S \<Longrightarrow> GTEST_DEATH_TEST_CHECK_SYSCALL S line expression c w =
     Some (Normal (sys_answer S (proc_calls w) c), with_call c w)"
  by (simp add: GTEST_DEATH_TEST_CHECK_SYSCALL_def retry_succeeds) (simp add: calls_succeed_def)

lemma check_holds [simp]: "GTEST_DEATH_TEST_CHECK S line expression True w = Some (Normal (), w)"
  by (simp add: GTEST_DEATH_TEST_CHECK_def)

text \<open>The status that \<open>waitpid\<close> reports of a process that ended.\<close>

fun wait_status :: "'a proc_end \<Rightarrow> 32 word" where
  "wait_status (Exited n) = push_bit 8 (word_of_int n AND 255)"
| "wait_status (Signalled k) = of_nat k AND 127"
| "wait_status _ = 0"

text \<open>What a process wrote to a descriptor.\<close>

fun written :: "int \<Rightarrow> sys_call list \<Rightarrow> string" where
  "written fd [] = []"
| "written fd (c # cs) =
     (case c of
        Do_write f s \<Rightarrow> (if f = fd then s else [])
      | Do_fdopen_write f s \<Rightarrow> (if f = fd then s else [])
      | _ \<Rightarrow> []) @ written fd cs"

lemma written_append [simp]: "written fd (cs @ ds) = written fd cs @ written fd ds"
  by (induction cs) simp_all

text \<open>
  The system as a child sees it, and as its parent sees it: the first byte the child wrote into the
  pipe, or the end of the file; the status of the child; the captured standard error.
\<close>

definition child_system :: "system \<Rightarrow> int \<times> int \<Rightarrow> bool" where
  "child_system S fds \<longleftrightarrow>
     calls_succeed S \<and> pipe_gives S fds \<and> (\<forall>h. reply_value (sys_answer S h Do_fork) = 0)"

definition parent_system :: "system \<Rightarrow> int \<times> int \<Rightarrow> string \<Rightarrow> 32 word \<Rightarrow> string \<Rightarrow> bool" where
  "parent_system S fds bytes status err \<longleftrightarrow>
     calls_succeed S \<and> pipe_gives S fds \<and> (\<forall>h. reply_value (sys_answer S h Do_fork) > 0) \<and>
     (\<forall>h. case bytes of
        [] \<Rightarrow> reply_value (sys_answer S h (Do_read (fst fds) 1)) = 0
      | b # _ \<Rightarrow> reply_value (sys_answer S h (Do_read (fst fds) 1)) = 1 \<and>
                 reply_data (sys_answer S h (Do_read (fst fds) 1)) = [b]) \<and>
     (\<forall>h pid. reply_status (sys_answer S h (Do_waitpid pid)) = status) \<and>
     (\<forall>h. reply_data (sys_answer S h Do_GetCapturedStderr) = err)"

text \<open>The status with which the statement ends the process, if it does.\<close>

definition statement_status :: "test_statement \<Rightarrow> 32 word option" where
  "statement_status st =
     (case statement_end st of
        Exits n \<Rightarrow> Some (wait_status (Exited n :: unit proc_end))
      | Dies_by k \<Rightarrow> Some (wait_status (Signalled k :: unit proc_end))
      | _ \<Rightarrow> None)"

text \<open>What a death test promises; \<open>earlier\<close> is what its process had written to standard error before.\<close>

definition dies_as_expected :: "test_statement \<Rightarrow> (32 word \<Rightarrow> bool) \<Rightarrow> posix_re \<Rightarrow> string \<Rightarrow> bool" where
  "dies_as_expected st predicate regex earlier \<longleftrightarrow>
     (\<exists>status. statement_status st = Some status \<and> predicate status) \<and>
     posix_PartialMatch (earlier @ statement_stderr st) regex"

definition no_writes :: "process \<Rightarrow> process \<Rightarrow> bool" where
  "no_writes w w' \<longleftrightarrow> (\<exists>cs. proc_calls w' = proc_calls w @ cs \<and> (\<forall>fd. written fd cs = []))"

lemma no_writesI: "proc_calls w' = proc_calls w @ cs \<Longrightarrow> (\<And>fd. written fd cs = []) \<Longrightarrow> no_writes w w'"
  by (auto simp: no_writes_def)

lemma Factory_Create_parent:
  assumes "current_test_info (proc_unit w) = Some kt" and "run_death_test_flag w = None"
    and "(FLAG_death_test_style (proc_flags w) = ''fast'' \<and> cl = NoExec) \<or>
      (FLAG_death_test_style (proc_flags w) = ''threadsafe'' \<and> cl = Exec file line)"
  obtains u where "current_test_info u = Some kt"
    "\<And>S. Factory_Create S statement regex file line w =
       Some (Normal (True, Some (new_DeathTestImpl cl statement regex)), w\<lparr>proc_unit := u\<rparr>)"
proof -
  obtain r n where r: "increment_death_test_count (info_result (the_info (proc_unit w) kt)) = (r, n)"
    by (cases "increment_death_test_count (info_result (the_info (proc_unit w) kt))")
  let ?u = "update_info kt (\<lambda>t. t\<lparr>info_result := r\<rparr>) (proc_unit w)"
  have u: "current_test_info ?u = Some kt" using assms(1) by (simp add: update_info_def update_case_def)
  show thesis
    by (rule that [OF u]) (use assms(3) in \<open>auto simp: Factory_Create_def assms(1,2) r new_DeathTest_def u [simplified]\<close>)
qed

text \<open>
  The child of a death test of the style \<open>threadsafe\<close> when it comes to the assertion that its flag
  names: the flag has the file, the line, the index of this assertion in its test, and the descriptor.
\<close>

definition reruns :: "process \<Rightarrow> int \<times> int \<Rightarrow> string \<Rightarrow> int \<Rightarrow> bool" where
  "reruns w fds file line \<longleftrightarrow>
     FLAG_death_test_style (proc_flags w) = ''threadsafe'' \<and>
     (case current_test_info (proc_unit w) of
        None \<Rightarrow> False
      | Some kt \<Rightarrow> run_death_test_flag w = Some
          \<lparr>flag_file = c_str file, flag_line = line,
           flag_index = snd (increment_death_test_count (info_result (the_info (proc_unit w) kt))),
           flag_write_fd = snd fds\<rparr>)"

text \<open>
  The child of the process \<open>w\<close> at the assertion: in the style \<open>fast\<close> it is a fork of \<open>w\<close>, whose standard
  error starts anew; in the style \<open>threadsafe\<close> a new run \<open>wx\<close> of the program.
\<close>

definition death_child :: "process \<Rightarrow> process \<Rightarrow> system \<Rightarrow> int \<times> int \<Rightarrow> string \<Rightarrow> int \<Rightarrow> string \<Rightarrow> bool" where
  "death_child w wx S fds file line earlier \<longleftrightarrow>
     (if FLAG_death_test_style (proc_flags w) = ''fast'' then wx = w \<and> earlier = [] \<and> child_system S fds
      else FLAG_death_test_style (proc_flags w) = ''threadsafe'' \<and> reruns wx fds file line \<and> calls_succeed S \<and>
        earlier = proc_stderr wx)"

text \<open>Pages are aligned, and \<open>clone\<close> gives the parent the number of its child.\<close>

definition spawns :: "system \<Rightarrow> bool" where
  "spawns S \<longleftrightarrow>
     (\<forall>h. 0 < reply_value (sys_answer S h Do_clone)) \<and>
     (\<forall>h. 64 < reply_value (sys_answer S h Do_getpagesize) \<and> 64 dvd reply_value (sys_answer S h Do_getpagesize)) \<and>
     (\<forall>h n. 64 dvd reply_value (sys_answer S h (Do_mmap n)))"

lemma Factory_Create_child:
  assumes "reruns w fds file line"
  obtains u kt where "current_test_info u = Some kt"
    "\<And>S. Factory_Create S statement regex file line w =
       Some (Normal (True, Some (new_DeathTestImpl (Exec file line) statement regex)), w\<lparr>proc_unit := u\<rparr>)"
proof -
  obtain kt where kt: "current_test_info (proc_unit w) = Some kt" using assms by (auto simp: reruns_def split: option.splits)
  obtain r n where r: "increment_death_test_count (info_result (the_info (proc_unit w) kt)) = (r, n)"
    by (cases "increment_death_test_count (info_result (the_info (proc_unit w) kt))")
  let ?u = "update_info kt (\<lambda>t. t\<lparr>info_result := r\<rparr>) (proc_unit w)"
  have u: "current_test_info ?u = Some kt" using kt by (simp add: update_info_def update_case_def)
  show thesis
    by (rule that [OF u]) (use assms in \<open>auto simp: reruns_def Factory_Create_def kt r new_DeathTest_def u [simplified]\<close>)
qed

text \<open>The state before the fork is the same in both processes.\<close>

lemma NoExec_forks:
  assumes "calls_succeed S" and "pipe_gives S fds"
  obtains w1 where "no_writes w w1" "proc_stderr w1 = []" "run_death_test_flag w1 = run_death_test_flag w"
    "NoExec_AssumeRole S d w =
      (let fork = sys_answer S (proc_calls w1) Do_fork; w2 = with_call Do_fork w1;
           d1 = d\<lparr>dt_child_pid := reply_value fork\<rparr> in
       if reply_value fork = 0 then
         Some (Normal (EXECUTE_TEST, d1\<lparr>dt_write_fd := snd fds\<rparr>),
           (with_call (Do_close (fst fds)) w2)\<lparr>proc_forwarding := False, in_fast_death_test_child := True\<rparr>)
       else
         Some (Normal (OVERSEE_TEST, d1\<lparr>dt_read_fd := fst fds, dt_spawned := True\<rparr>), with_call (Do_close (snd fds)) w2))"
proof -
  let ?threads = "sys_answer S (proc_calls w) Do_thread_count"
  define v where "v = (if reply_value ?threads \<noteq> 1
      then write_stderr (log_line S ''[WARNING]'' 825 (DeathTestThreadWarning (nat (reply_value ?threads)))) (with_call Do_thread_count w)
      else with_call Do_thread_count w)"
  define w1 where "w1 = with_call Do_flush ((with_call Do_CaptureStderr
      ((with_call Do_pipe v)\<lparr>last_death_test_message := []\<rparr>))\<lparr>proc_stderr := []\<rparr>)"
  have v: "proc_calls v = proc_calls w @ [Do_thread_count]" "run_death_test_flag v = run_death_test_flag w"
    by (simp_all add: v_def write_stderr_def)
  have pipe: "reply_value (sys_answer S h c) \<noteq> - 1" "reply_fds (sys_answer S h Do_pipe) = fds" for h c
    using assms by (simp_all add: calls_succeed_def pipe_gives_def)
  have "no_writes w w1" unfolding w1_def
    by (rule no_writesI [where cs = "[Do_thread_count, Do_pipe, Do_CaptureStderr, Do_flush]"]) (simp_all add: v)
  moreover have "(if reply_value ?threads \<noteq> 1
      then LOG_WARNING S 825 (DeathTestThreadWarning (nat (reply_value ?threads))) (with_call Do_thread_count w)
      else Some (Normal (), with_call Do_thread_count w)) = Some (Normal (), v)"
    by (simp add: v_def LOG_WARNING_def)
  ultimately show thesis
    using assms(1) pipe
    by (intro that [of w1])
      (simp_all add: w1_def v NoExec_AssumeRole_def CaptureStderr_def do_call_def syscall_succeeds Let_def
         with_call_def [of Do_CaptureStderr])
qed

definition abort_of :: "test_statement \<Rightarrow> abort_reason option" where
  "abort_of st =
     (case statement_end st of
        Completes \<Rightarrow> Some TEST_DID_NOT_DIE
      | Returns \<Rightarrow> Some TEST_ENCOUNTERED_RETURN_STATEMENT
      | Throws_exception _ \<Rightarrow> Some TEST_THREW_EXCEPTION
      | Throws_other \<Rightarrow> Some TEST_THREW_EXCEPTION
      | _ \<Rightarrow> None)"

definition report_bytes :: "test_statement \<Rightarrow> string" where
  "report_bytes st = (case abort_of st of None \<Rightarrow> [] | Some reason \<Rightarrow> [status_char reason])"

text \<open>What the statement leaves on standard error.\<close>

definition statement_output :: "test_statement \<Rightarrow> string \<Rightarrow> int \<Rightarrow> string" where
  "statement_output st file line = statement_stderr st @
     (case statement_end st of Throws_exception e \<Rightarrow> caught_message file line e | _ \<Rightarrow> [])"

definition own_end :: "test_statement \<Rightarrow> 'a proc_end" where
  "own_end st = (case statement_end st of Exits n \<Rightarrow> Exited n | Dies_by k \<Rightarrow> Signalled k | _ \<Rightarrow> Undefined)"

lemma write_stderr_simps [simp]:
  "write_stderr t (write_stderr s w) = write_stderr (s @ t) w"
  "proc_stderr (write_stderr s w) = proc_stderr w @ s"
  "proc_calls (write_stderr s w) = proc_calls w"
  by (simp_all add: write_stderr_def)

text \<open>
  In the child the assertion does not return: it ends the process, having written at most the byte
  that says why it is not dead.
\<close>

lemma execute_statement_eq:
  assumes "calls_succeed S"
  shows "execute_statement S st file line d w =
    (let w1 = write_stderr (statement_output st file line) w in
     case abort_of st of
       Some reason \<Rightarrow> Some (Exited 1, with_call (Do_write (dt_write_fd d) [status_char reason]) w1)
     | None \<Rightarrow> Some (own_end st, w1))"
  using assms
  by (cases "statement_end st")
    (simp_all add: execute_statement_def DeathTest_Abort_def syscall_succeeds statement_output_def abort_of_def own_end_def Let_def)

lemma outcome_of_status_char:
  "outcome_of_flag (status_char reason) = Some (case reason of
     TEST_DID_NOT_DIE \<Rightarrow> LIVED | TEST_THREW_EXCEPTION \<Rightarrow> THREW | TEST_ENCOUNTERED_RETURN_STATEMENT \<Rightarrow> RETURNED)"
  by (cases reason) (simp_all add: outcome_of_flag_def status_char_def kDeathTestLived_def kDeathTestThrew_def kDeathTestReturned_def)

definition outcome_of :: "test_statement \<Rightarrow> death_test_outcome" where
  "outcome_of st = (case abort_of st of None \<Rightarrow> DIED | Some r \<Rightarrow> (case r of
     TEST_DID_NOT_DIE \<Rightarrow> LIVED | TEST_THREW_EXCEPTION \<Rightarrow> THREW | TEST_ENCOUNTERED_RETURN_STATEMENT \<Rightarrow> RETURNED))"

text \<open>The parent learns the outcome and the status, and closes its end of the pipe.\<close>

lemma Wait_learns:
  assumes "parent_system S fds (report_bytes st) status err" and "dt_spawned d" and "dt_read_fd d = fst fds"
  obtains d2 w1 where "DeathTest_Wait S d w = Some (Normal (d2, status), w1)"
    "dt_spawned d2" "dt_outcome d2 = outcome_of st" "dt_read_fd d2 = - 1" "dt_regex d2 = dt_regex d"
proof -
  let ?r = "sys_answer S (proc_calls w) (Do_read (fst fds) 1)"
  have ok: "calls_succeed S" "\<And>h pid. reply_status (sys_answer S h (Do_waitpid pid)) = status"
    using assms(1) by (simp_all add: parent_system_def)
  have "ReadAndInterpretStatusByte S d w = Some (Normal (d\<lparr>dt_outcome := outcome_of st, dt_read_fd := - 1\<rparr>),
      with_call (Do_close (fst fds)) (with_call (Do_read (fst fds) 1) w))"
  proof (cases "abort_of st")
    case None
    then have "reply_value ?r = 0" using assms(1) by (simp add: parent_system_def report_bytes_def)
    with None show ?thesis using assms(3)
      by (simp add: ReadAndInterpretStatusByte_def retry_succeeds [OF ok(1)] syscall_succeeds [OF ok(1)] outcome_of_def)
  next
    case (Some reason)
    then have "reply_value ?r = 1" "reply_data ?r = [status_char reason]"
      using assms(1) by (simp_all add: parent_system_def report_bytes_def)
    with Some show ?thesis using assms(3)
      by (simp add: ReadAndInterpretStatusByte_def retry_succeeds [OF ok(1)] syscall_succeeds [OF ok(1)] outcome_of_def
          outcome_of_status_char Let_def)
  qed
  then show thesis using assms(2)
    by (intro that [of "d\<lparr>dt_outcome := outcome_of st, dt_read_fd := - 1, dt_status := status\<rparr>"
          "with_call (Do_waitpid (dt_child_pid d)) (with_call (Do_close (fst fds)) (with_call (Do_read (fst fds) 1) w))"])
      (simp_all add: DeathTest_Wait_def syscall_succeeds [OF ok(1)] ok(2))
qed

lemma abort_or_status: "abort_of st = None \<longleftrightarrow> (\<exists>status. statement_status st = Some status)"
  by (cases "statement_end st") (simp_all add: abort_of_def statement_status_def)

lemma Passed_decides:
  assumes "dt_spawned d" and "dt_outcome d = outcome_of st" and "\<And>h. reply_data (sys_answer S h Do_GetCapturedStderr) = err"
  obtains w1 where "DeathTest_Passed S ok d w =
    Some (Normal (abort_of st = None \<and> ok \<and> posix_PartialMatch (c_str err) (dt_regex d)), w1)"
proof (cases "abort_of st")
  case None
  then show thesis using assms
    by (cases ok; cases "posix_PartialMatch (c_str err) (dt_regex d)")
      (auto intro!: that simp: DeathTest_Passed_def outcome_of_def Let_def)
next
  case (Some r)
  then show thesis using assms
    by (cases r) (auto intro!: that simp: DeathTest_Passed_def outcome_of_def Let_def)
qed

text \<open>The processes of a death test in both styles.\<close>

lemma fast_child_process:
  assumes "current_test_info (proc_unit w) = Some kt" and "run_death_test_flag w = None"
    and "FLAG_death_test_style (proc_flags w) = ''fast''" and "child_system S fds"
  obtains wc :: process and cs where
    "GTEST_DEATH_TEST S st predicate regex file line w =
       Some (if abort_of st = None then own_end st else Exited 1, wc)"
    "proc_stderr wc = statement_output st file line"
    "proc_calls wc = proc_calls w @ cs" "written (snd fds) cs = report_bytes st"
proof -
  have ok: "calls_succeed S" "pipe_gives S fds" "\<And>h. reply_value (sys_answer S h Do_fork) = 0"
    using assms(4) by (simp_all add: child_system_def)
  obtain u where u: "current_test_info u = Some kt" "\<And>S. Factory_Create S (statement_text st) regex file line w =
      Some (Normal (True, Some (new_DeathTestImpl NoExec (statement_text st) regex)), w\<lparr>proc_unit := u\<rparr>)"
    using Factory_Create_parent [OF assms(1,2), of NoExec "file" line "statement_text st" regex] assms(3) by blast
  let ?d = "new_DeathTestImpl NoExec (statement_text st) regex" and ?w = "w\<lparr>proc_unit := u\<rparr>"
  obtain w1 where w1: "no_writes ?w w1" "proc_stderr w1 = []" "run_death_test_flag w1 = run_death_test_flag ?w"
    and forked: "NoExec_AssumeRole S ?d ?w =
      (let fork = sys_answer S (proc_calls w1) Do_fork; w2 = with_call Do_fork w1; d1 = ?d\<lparr>dt_child_pid := reply_value fork\<rparr> in
       if reply_value fork = 0 then
         Some (Normal (EXECUTE_TEST, d1\<lparr>dt_write_fd := snd fds\<rparr>),
           (with_call (Do_close (fst fds)) w2)\<lparr>proc_forwarding := False, in_fast_death_test_child := True\<rparr>)
       else
         Some (Normal (OVERSEE_TEST, d1\<lparr>dt_read_fd := fst fds, dt_spawned := True\<rparr>), with_call (Do_close (snd fds)) w2))"
    by (rule NoExec_forks [OF ok(1,2), of ?w ?d])
  have role: "NoExec_AssumeRole S ?d ?w =
      Some (Normal (EXECUTE_TEST, ?d\<lparr>dt_child_pid := 0, dt_write_fd := snd fds\<rparr>),
        (with_call (Do_close (fst fds)) (with_call Do_fork w1))\<lparr>proc_forwarding := False, in_fast_death_test_child := True\<rparr>)"
    unfolding forked Let_def ok(3) by simp
  obtain cs where cs: "proc_calls w1 = proc_calls w @ cs" "\<And>fd. written fd cs = []" using w1(1) by (auto simp: no_writes_def)
  let ?d1 = "?d\<lparr>dt_child_pid := 0, dt_write_fd := snd fds\<rparr>"
  let ?w2 = "(with_call (Do_close (fst fds)) (with_call Do_fork w1))\<lparr>proc_forwarding := False, in_fast_death_test_child := True\<rparr>"
  have cl: "dt_class ?d = NoExec" by (simp add: new_DeathTestImpl_def)
  have run: "GTEST_DEATH_TEST S st predicate regex file line w = execute_statement S st file line ?d1 ?w2"
    unfolding GTEST_DEATH_TEST_def u(2) AssumeRole_def
    by (simp only: cl bind_proc_simps prod.case death_test_class.case option.case if_False not_True_eq_False role test_role.case)
  show thesis
  proof (cases "abort_of st")
    case None
    show thesis
      by (rule that [of "write_stderr (statement_output st file line) ?w2" "cs @ [Do_fork, Do_close (fst fds)]"])
        (simp_all add: run execute_statement_eq [OF ok(1)] None w1(2) cs report_bytes_def)
  next
    case (Some reason)
    show thesis
      by (rule that [of "with_call (Do_write (snd fds) [status_char reason]) (write_stderr (statement_output st file line) ?w2)"
            "cs @ [Do_fork, Do_close (fst fds), Do_write (snd fds) [status_char reason]]"])
        (simp_all add: run execute_statement_eq [OF ok(1)] Some w1(2) cs report_bytes_def)
  qed
qed

lemma rerun_child_process:
  assumes "reruns w fds file line" and "calls_succeed S"
  obtains wc :: process and cs where
    "GTEST_DEATH_TEST S st predicate regex file line w =
       Some (if abort_of st = None then own_end st else Exited 1, wc)"
    "proc_stderr wc = proc_stderr w @ statement_output st file line"
    "proc_calls wc = proc_calls w @ cs" "written (snd fds) cs = report_bytes st"
proof -
  obtain u kt where u: "current_test_info u = Some kt" "\<And>S. Factory_Create S (statement_text st) regex file line w =
      Some (Normal (True, Some (new_DeathTestImpl (Exec file line) (statement_text st) regex)), w\<lparr>proc_unit := u\<rparr>)"
    by (rule Factory_Create_child [OF assms(1), where statement = "statement_text st" and regex = regex]) blast
  let ?d = "new_DeathTestImpl (Exec file line) (statement_text st) regex" and ?w = "w\<lparr>proc_unit := u\<rparr>"
  let ?d1 = "?d\<lparr>dt_write_fd := snd fds\<rparr>"
  obtain flag where flag: "run_death_test_flag w = Some flag" "flag_write_fd flag = snd fds"
    using assms(1) by (auto simp: reruns_def split: option.splits)
  have role: "Exec_AssumeRole S file line ?d ?w = Some (Normal (EXECUTE_TEST, ?d1), ?w)"
    by (simp add: Exec_AssumeRole_def u(1) flag)
  have cl: "dt_class ?d = Exec file line" by (simp add: new_DeathTestImpl_def)
  have run: "GTEST_DEATH_TEST S st predicate regex file line w = execute_statement S st file line ?d1 ?w"
    unfolding GTEST_DEATH_TEST_def u(2) AssumeRole_def
    by (simp only: cl bind_proc_simps prod.case death_test_class.case option.case if_False not_True_eq_False role test_role.case)
  show thesis
  proof (cases "abort_of st")
    case None
    show thesis
      by (rule that [of "write_stderr (statement_output st file line) ?w" "[]"])
        (simp_all add: run execute_statement_eq [OF assms(2)] None report_bytes_def)
  next
    case (Some reason)
    show thesis
      by (rule that [of "with_call (Do_write (snd fds) [status_char reason]) (write_stderr (statement_output st file line) ?w)"
            "[Do_write (snd fds) [status_char reason]]"])
        (simp_all add: run execute_statement_eq [OF assms(2)] Some report_bytes_def)
  qed
qed

lemma child_process:
  assumes "current_test_info (proc_unit w) = Some kt" and "run_death_test_flag w = None"
    and "death_child w wx S fds file line earlier"
  obtains wc :: process and cs where
    "GTEST_DEATH_TEST S st predicate regex file line wx =
       Some (if abort_of st = None then own_end st else Exited 1, wc)"
    "proc_stderr wc = earlier @ statement_output st file line"
    "proc_calls wc = proc_calls wx @ cs" "written (snd fds) cs = report_bytes st"
proof (cases "FLAG_death_test_style (proc_flags w) = ''fast''")
  case True
  then have "wx = w" "earlier = []" "child_system S fds" using assms(3) by (simp_all add: death_child_def)
  then show thesis
    using fast_child_process [OF assms(1,2) True, of S fds st predicate regex "file" line thesis] that by simp
next
  case False
  then have "earlier = proc_stderr wx" "reruns wx fds file line" "calls_succeed S"
    using assms(3) by (simp_all add: death_child_def)
  then show thesis using rerun_child_process [of wx fds "file" line S st predicate regex thesis] that by simp
qed

text \<open>The parent goes on with the end of the pipe to read from.\<close>

definition overseer :: "death_test \<Rightarrow> int \<times> int \<Rightarrow> int \<Rightarrow> death_test" where
  "overseer d fds pid = d\<lparr>dt_child_pid := pid, dt_read_fd := fst fds, dt_spawned := True\<rparr>"

lemma NoExec_oversees:
  assumes "parent_system S fds bytes status err"
  obtains pid w2 where "NoExec_AssumeRole S d w = Some (Normal (OVERSEE_TEST, overseer d fds pid), w2)"
proof -
  have ok: "calls_succeed S" "pipe_gives S fds" "\<And>h. reply_value (sys_answer S h Do_fork) > 0"
    using assms by (simp_all add: parent_system_def)
  obtain w1 where "NoExec_AssumeRole S d w =
      (let fork = sys_answer S (proc_calls w1) Do_fork; w2 = with_call Do_fork w1; d1 = d\<lparr>dt_child_pid := reply_value fork\<rparr> in
       if reply_value fork = 0 then
         Some (Normal (EXECUTE_TEST, d1\<lparr>dt_write_fd := snd fds\<rparr>),
           (with_call (Do_close (fst fds)) w2)\<lparr>proc_forwarding := False, in_fast_death_test_child := True\<rparr>)
       else
         Some (Normal (OVERSEE_TEST, d1\<lparr>dt_read_fd := fst fds, dt_spawned := True\<rparr>), with_call (Do_close (snd fds)) w2))"
    by (rule NoExec_forks [OF ok(1,2), of w d])
  moreover have "reply_value (sys_answer S (proc_calls w1) Do_fork) \<noteq> 0" using ok(3) [of "proc_calls w1"] by simp
  ultimately show thesis using that by (simp add: Let_def overseer_def)
qed

lemma SpawnChild_parent:
  assumes ok: "calls_succeed S" and "spawns S" and forks: "\<And>h. reply_value (sys_answer S h Do_fork) > 0"
  obtains pid w2 where "ExecDeathTestSpawnChild S argv fd w = Some (Normal pid, w2)"
proof -
  have not_failed: "reply_value (sys_answer S h c) \<noteq> - 1" for h c using ok by (simp add: calls_succeed_def)
  have spawn: "reply_value (sys_answer S h Do_clone) \<noteq> 0" "64 < reply_value (sys_answer S h Do_getpagesize)"
    "64 dvd reply_value (sys_answer S h Do_getpagesize)" "64 dvd reply_value (sys_answer S h (Do_mmap n))" for h n
    using assms(2) by (simp_all add: spawns_def less_imp_neq [THEN not_sym])
  have top: "(reply_value (sys_answer S h (Do_mmap n)) +
      (if stack_grows_down S then int (nat (reply_value (sys_answer S h' Do_getpagesize))) - int kMaxStackAlignment else 0))
      mod int kMaxStackAlignment = 0" for h h' n
    using spawn(2-4) [of h'] spawn(4) [of h n] by (auto simp: kMaxStackAlignment_def intro!: dvd_imp_mod_0 dvd_add dvd_diff)
  have size: "kMaxStackAlignment < nat (reply_value (sys_answer S h Do_getpagesize))" for h
    using spawn(2) [of h] by (simp add: kMaxStackAlignment_def)
  have clone: "\<exists>h w2. spawn_by_clone S argv fd w' = Some (Normal (reply_value (sys_answer S h Do_clone)), w2)" for w'
    using size top spawn(1) not_failed by (simp add: spawn_by_clone_def Let_def) blast
  have fork: "\<exists>h w2. spawn_by_fork S argv fd w' = Some (Normal (reply_value (sys_answer S h Do_fork)), w2)" for w'
    using forks [THEN less_imp_neq] by (simp add: spawn_by_fork_def) blast
  let ?w1 = "with_call Do_ignore_SIGPROF w"
  obtain pid w2 where child: "(if \<not> FLAG_death_test_use_fork (proc_flags ?w1) then spawn_by_clone S argv fd ?w1
      else spawn_by_fork S argv fd ?w1) = Some (Normal pid, w2)" "pid \<noteq> - 1"
    using clone [of ?w1] fork [of ?w1] not_failed by (cases "FLAG_death_test_use_fork (proc_flags ?w1)") fastforce+
  have "ExecDeathTestSpawnChild S argv fd w = Some (Normal pid, with_call Do_restore_SIGPROF w2)"
    unfolding ExecDeathTestSpawnChild_def syscall_succeeds [OF ok] bind_proc_simps child(1) using child(2) by simp
  then show thesis by (rule that)
qed

lemma Exec_oversees:
  assumes "parent_system S fds bytes status err" and "spawns S"
    and "current_test_info (proc_unit w) = Some kt" and "run_death_test_flag w = None"
  obtains pid w2 where "Exec_AssumeRole S file line d w = Some (Normal (OVERSEE_TEST, overseer d fds pid), w2)"
proof -
  have ok: "calls_succeed S" "\<And>h. reply_fds (sys_answer S h Do_pipe) = fds" "\<And>h. reply_value (sys_answer S h Do_fork) > 0"
    "\<And>h c. reply_value (sys_answer S h c) \<noteq> - 1"
    using assms(1) by (simp_all add: parent_system_def pipe_gives_def calls_succeed_def)
  let ?w3 = "with_call (Do_keep_on_exec (snd fds)) (with_call Do_pipe w)"
  let ?w6 = "with_call Do_flush ((with_call Do_CaptureStderr (?w3\<lparr>last_death_test_message := []\<rparr>))\<lparr>proc_stderr := []\<rparr>)"
  have capture: "CaptureStderr S v = Some (Normal (), (with_call Do_CaptureStderr v)\<lparr>proc_stderr := []\<rparr>)" for v
    by (simp add: CaptureStderr_def do_call_def with_call_def)
  obtain pid w7 where child: "ExecDeathTestSpawnChild S (exec_arguments S (the_info (proc_unit w) kt) file line (snd fds)) (fst fds) ?w6 =
      Some (Normal pid, w7)" by (rule SpawnChild_parent [OF ok(1) assms(2) ok(3)])
  have "Exec_AssumeRole S file line d w =
      Some (Normal (OVERSEE_TEST, overseer d fds pid), with_call (Do_close (snd fds)) w7)"
    using child ok(2,4) assms(3,4)
    by (simp add: Exec_AssumeRole_def capture syscall_succeeds [OF ok(1)] overseer_def)
  then show thesis by (rule that)
qed

lemma AssumeRole_oversees:
  assumes "parent_system S fds bytes status err" and "current_test_info (proc_unit w) = Some kt" and "run_death_test_flag w = None"
    and "dt_class d = NoExec \<or> (\<exists>f n. dt_class d = Exec f n) \<and> spawns S"
  obtains pid w2 where "AssumeRole S d w = Some (Normal (OVERSEE_TEST, overseer d fds pid), w2)"
proof (cases "dt_class d")
  case NoExec
  with NoExec_oversees [OF assms(1)] that show thesis by (simp add: AssumeRole_def) blast
next
  case (Exec f n)
  with Exec_oversees [OF assms(1) _ assms(2,3)] assms(4) that show thesis by (simp add: AssumeRole_def) blast
qed

lemma parent_process:
  assumes "current_test_info (proc_unit w) = Some kt" and "run_death_test_flag w = None"
    and "parent_system S fds (report_bytes st) status err"
    and "FLAG_death_test_style (proc_flags w) = ''fast'' \<or> FLAG_death_test_style (proc_flags w) = ''threadsafe'' \<and> spawns S"
  obtains wp where "GTEST_DEATH_TEST S st predicate regex file line w =
    Some (Normal (if abort_of st = None \<and> predicate status \<and> posix_PartialMatch (c_str err) regex then None
                  else Some (c_str (last_death_test_message wp))), wp)"
proof -
  have ok: "\<And>h. reply_data (sys_answer S h Do_GetCapturedStderr) = err"
    using assms(3) by (simp add: parent_system_def)
  define cl where "cl = (if FLAG_death_test_style (proc_flags w) = ''fast'' then NoExec else Exec file line)"
  have cl: "(FLAG_death_test_style (proc_flags w) = ''fast'' \<and> cl = NoExec) \<or>
      (FLAG_death_test_style (proc_flags w) = ''threadsafe'' \<and> cl = Exec file line)"
    "cl = NoExec \<or> (\<exists>f n. cl = Exec f n) \<and> spawns S"
    using assms(4) by (auto simp: cl_def)
  obtain u where u: "current_test_info u = Some kt" "\<And>S. Factory_Create S (statement_text st) regex file line w =
      Some (Normal (True, Some (new_DeathTestImpl cl (statement_text st) regex)), w\<lparr>proc_unit := u\<rparr>)"
    by (rule Factory_Create_parent [OF assms(1,2) cl(1), of "statement_text st" regex]) blast
  let ?d = "new_DeathTestImpl cl (statement_text st) regex" and ?w = "w\<lparr>proc_unit := u\<rparr>"
  have start: "current_test_info (proc_unit ?w) = Some kt" "run_death_test_flag ?w = None"
    "dt_class ?d = NoExec \<or> (\<exists>f n. dt_class ?d = Exec f n) \<and> spawns S"
    using u(1) assms(2) cl(2) by (simp_all add: new_DeathTestImpl_def)
  obtain pid w2 where role: "AssumeRole S ?d ?w = Some (Normal (OVERSEE_TEST, overseer ?d fds pid), w2)"
    by (rule AssumeRole_oversees [OF assms(3) start])
  obtain d2 w3 where wait: "DeathTest_Wait S (overseer ?d fds pid) w2 = Some (Normal (d2, status), w3)"
    and d2: "dt_spawned d2" "dt_outcome d2 = outcome_of st" "dt_read_fd d2 = - 1" "dt_regex d2 = regex"
    by (rule Wait_learns [OF assms(3), of "overseer ?d fds pid" w2]) (simp_all add: new_DeathTestImpl_def overseer_def)
  obtain w4 where passed: "DeathTest_Passed S (predicate status) d2 w3 =
      Some (Normal (abort_of st = None \<and> predicate status \<and> posix_PartialMatch (c_str err) regex), w4)"
    by (rule Passed_decides [OF d2(1,2) ok, of "predicate status" w3, unfolded d2(4)])
  have "GTEST_DEATH_TEST S st predicate regex file line w =
      Some (Normal (if abort_of st = None \<and> predicate status \<and> posix_PartialMatch (c_str err) regex then None
                    else Some (c_str (last_death_test_message w4))), w4)"
    unfolding GTEST_DEATH_TEST_def u(2)
    by (simp only: bind_proc_simps prod.case option.case if_False not_True_eq_False role test_role.case
        wait passed destroy_DeathTestImpl_def d2(3) refl check_holds)
  then show thesis by (rule that)
qed

text \<open>
  C38. The verdict of a death test is the right one, in both styles. Take a running test that comes to a
  death test assertion, and its child at that assertion: in the style fast a fork of it, in the style
  threadsafe a new run of the program whose internal flag names the assertion. When the system calls
  succeed, the child never comes back from the assertion; and whatever the statement does, the
  parent, which only sees the byte in the pipe, the exit status and the captured standard error of
  the child, accepts the assertion exactly when the statement ended the process with a status that
  the predicate accepts and the regular expression matches what the child wrote to standard error;
  otherwise it fails with the message it has prepared. The output must have no NUL character, as
  \<open>regexec\<close> is given a C string; in the style threadsafe pages must be aligned as the code assumes.
\<close>

theorem death_test_verdict:
  assumes "current_test_info (proc_unit w) = Some kt" and "run_death_test_flag w = None"
    and "death_child w wx SC fds file line earlier" and "NUL \<notin> set (earlier @ statement_stderr st)"
  shows "\<exists>e wc. GTEST_DEATH_TEST SC st predicate regex file line wx = Some (e, wc) \<and> (\<forall>x. e \<noteq> Normal x) \<and>
    (\<forall>SP. parent_system SP fds (written (snd fds) (drop (length (proc_calls wx)) (proc_calls wc))) (wait_status e) (proc_stderr wc) \<and>
        (FLAG_death_test_style (proc_flags w) = ''threadsafe'' \<longrightarrow> spawns SP) \<longrightarrow>
      (\<exists>wp. GTEST_DEATH_TEST SP st predicate regex file line w =
         Some (Normal (if dies_as_expected st predicate regex earlier then None
                       else Some (c_str (last_death_test_message wp))), wp)))"
proof -
  let ?e = "if abort_of st = None then own_end st else Exited 1 :: string option proc_end"
  obtain wc cs where wc: "GTEST_DEATH_TEST SC st predicate regex file line wx = Some (?e, wc)"
    "proc_stderr wc = earlier @ statement_output st file line" "proc_calls wc = proc_calls wx @ cs"
    "written (snd fds) cs = report_bytes st"
    by (rule child_process [OF assms(1-3)])
  have ends: "\<forall>x. ?e \<noteq> Normal x" by (simp add: own_end_def split: statement_end.split)
  have dies: "abort_of st = None \<and> predicate (wait_status ?e) \<and> posix_PartialMatch (c_str (proc_stderr wc)) regex \<longleftrightarrow>
      dies_as_expected st predicate regex earlier"
    using c_str_id [OF assms(4)]
    by (cases "statement_end st")
      (simp_all add: wc(2) abort_of_def own_end_def dies_as_expected_def statement_status_def statement_output_def)
  have style: "FLAG_death_test_style (proc_flags w) = ''fast'' \<or> FLAG_death_test_style (proc_flags w) = ''threadsafe''"
    using assms(3) unfolding death_child_def by metis
  have "\<exists>wp. GTEST_DEATH_TEST SP st predicate regex file line w =
      Some (Normal (if dies_as_expected st predicate regex earlier then None else Some (c_str (last_death_test_message wp))), wp)"
    if "parent_system SP fds (written (snd fds) (drop (length (proc_calls wx)) (proc_calls wc))) (wait_status ?e) (proc_stderr wc)"
      and spawns: "FLAG_death_test_style (proc_flags w) = ''threadsafe'' \<longrightarrow> spawns SP" for SP
  proof -
    have "parent_system SP fds (report_bytes st) (wait_status ?e) (proc_stderr wc)" using that(1) wc(3,4) by simp
    from parent_process [OF assms(1,2) this, of predicate regex "file" line] style spawns show ?thesis unfolding dies by metis
  qed
  with wc(1) ends show ?thesis by blast
qed

section \<open>Both ends of the pipe\<close>

text \<open>
  What a piece of code that returns has done: it has made calls after those before, among them \<open>c\<close>.
\<close>

definition has_called :: "sys_call \<Rightarrow> process \<Rightarrow> process \<Rightarrow> bool" where
  "has_called c w w' \<longleftrightarrow> (\<exists>cs. proc_calls w' = proc_calls w @ cs \<and> c \<in> set cs)"

definition calls_extend :: "process \<Rightarrow> process \<Rightarrow> bool" where
  "calls_extend w w' \<longleftrightarrow> (\<exists>cs. proc_calls w' = proc_calls w @ cs)"

lemma calls_extend_refl [simp]: "calls_extend w w"
  by (simp add: calls_extend_def)

lemma calls_extend_same [simp]: "proc_calls w' = proc_calls w \<Longrightarrow> calls_extend w w'"
  by (simp add: calls_extend_def)

lemma calls_extend_with [simp]: "calls_extend w (with_call c w)"
  by (simp add: calls_extend_def)

lemma calls_extend_trans [trans]: "calls_extend w1 w2 \<Longrightarrow> calls_extend w2 w3 \<Longrightarrow> calls_extend w1 w3"
  by (auto simp: calls_extend_def)

lemma has_called_extend: "has_called c w w' \<Longrightarrow> calls_extend w w'"
  by (auto simp: has_called_def calls_extend_def)

lemma has_called_trans:
  "has_called c w1 w2 \<Longrightarrow> calls_extend w2 w3 \<Longrightarrow> has_called c w1 w3"
  "calls_extend w1 w2 \<Longrightarrow> has_called c w2 w3 \<Longrightarrow> has_called c w1 w3"
  by (auto simp: has_called_def calls_extend_def)

lemma bind_proc_Normal:
  "bind_proc m f = Some (Normal b, w') \<longleftrightarrow> (\<exists>a w1. m = Some (Normal a, w1) \<and> f a w1 = Some (Normal b, w'))"
proof (cases m)
  case (Some x)
  obtain e w1 where "x = (e, w1)" by (cases x)
  with Some show ?thesis by (cases e) auto
qed simp

lemma DeathTestAbort_not_Normal [simp]: "DeathTestAbort S msg w \<noteq> Some (Normal a, w')"
  by (auto simp: DeathTestAbort_def bind_proc_Normal split: option.splits if_splits)

lemma LOG_FATAL_not_Normal [simp]: "LOG_FATAL S line msg w \<noteq> Some (Normal a, w')"
  by (simp add: LOG_FATAL_def)

lemma FailFromInternalError_not_Normal [simp]: "FailFromInternalError S fd w \<noteq> Some (Normal a, w')"
  by (auto simp: FailFromInternalError_def split: option.splits)

lemma check_Normal [simp]: "GTEST_DEATH_TEST_CHECK S line expression v w = Some (Normal a, w') \<longleftrightarrow> v \<and> w' = w"
  by (auto simp: GTEST_DEATH_TEST_CHECK_def)

lemma retry_calls: "retry_call S c w = Some (r, w') \<Longrightarrow> has_called c w w'"
proof (induction S c w "(r, w')" rule: retry_call.raw_induct [rotated, consumes 1, case_names step])
  case (step g S c w)
  obtain a w1 where a: "do_call S c w = (a, w1)" by (cases "do_call S c w")
  then have w1: "has_called c w w1" by (auto simp: do_call_def has_called_def)
  show ?case
  proof (cases "reply_value a = - 1 \<and> reply_errno a = EINTR")
    case True
    then have "g S c w1 = Some (r, w')" using step(2) a by simp
    from step(1) [OF this] w1 show ?thesis by (meson has_called_trans has_called_extend)
  next
    case False
    then show ?thesis using step(2) a w1 by auto
  qed
qed

lemma syscall_calls: "GTEST_DEATH_TEST_CHECK_SYSCALL S line expression c w = Some (Normal r, w') \<Longrightarrow> has_called c w w'"
  by (auto simp: GTEST_DEATH_TEST_CHECK_SYSCALL_def dest: retry_calls split: option.splits prod.splits if_splits)

text \<open>
  A write that fails is reported as a death: the child aborts, nothing is in the pipe, and the parent
  takes the statement for one that died by a signal.
\<close>

lemma unreported_survivor:
  assumes "run_death_test_flag w = None" and "reply_value (sys_answer S (proc_calls w) (Do_write (dt_write_fd d) [status_char reason])) = - 1"
    and "reply_errno (sys_answer S (proc_calls w) (Do_write (dt_write_fd d) [status_char reason])) \<noteq> EINTR"
  shows "\<exists>w'. DeathTest_Abort S reason d w = Some (Signalled SIGABRT, w')"
  using assms
  by (simp add: DeathTest_Abort_def GTEST_DEATH_TEST_CHECK_SYSCALL_def retry_call.simps [of S "Do_write (dt_write_fd d) [status_char reason]" w]
      do_call_def DeathTestAbort_def)

lemmas normal_simps = bind_proc_Normal call_proc_eq

lemma DeathTest_Abort_not_Normal [simp]: "DeathTest_Abort S reason d w \<noteq> Some (Normal a, w')"
  by (auto simp: DeathTest_Abort_def normal_simps)

text \<open>Whatever the system answers, the child does not come back from the statement.\<close>

lemma execute_statement_not_Normal [simp]: "execute_statement S st file line d w \<noteq> Some (Normal a, w')"
  by (cases "statement_end st") (simp_all add: execute_statement_def Let_def)

lemma ReadAndInterpretStatusByte_closes:
  assumes "ReadAndInterpretStatusByte S d w = Some (Normal d', w')"
  shows "has_called (Do_close (dt_read_fd d)) w w'"
proof -
  obtain r w1 r' where r: "retry_call S (Do_read (dt_read_fd d) 1) w = Some (r, w1)"
    and c: "GTEST_DEATH_TEST_CHECK_SYSCALL S 462 ''posix::Close(read_fd())'' (Do_close (dt_read_fd d)) w1 = Some (Normal r', w')"
    using assms
    by (auto simp: ReadAndInterpretStatusByte_def normal_simps Let_def split: if_splits option.splits)
  from has_called_trans(2) [OF has_called_extend [OF retry_calls [OF r]] syscall_calls [OF c]] show ?thesis .
qed

lemma DeathTest_Wait_closes:
  assumes "DeathTest_Wait S d w = Some (Normal (d', status), w')" and "dt_spawned d"
  shows "has_called (Do_close (dt_read_fd d)) w w'"
proof -
  obtain d1 w1 r where 1: "ReadAndInterpretStatusByte S d w = Some (Normal d1, w1)"
    "GTEST_DEATH_TEST_CHECK_SYSCALL S 806 ''waitpid(child_pid_, &status_value, 0)'' (Do_waitpid (dt_child_pid d1)) w1 =
      Some (Normal r, w')"
    using assms by (auto simp: DeathTest_Wait_def normal_simps)
  from has_called_trans(1) [OF ReadAndInterpretStatusByte_closes [OF 1(1)] has_called_extend [OF syscall_calls [OF 1(2)]]]
  show ?thesis .
qed

lemma DeathTest_Passed_extends: "DeathTest_Passed S ok d w = Some (Normal b, w') \<Longrightarrow> calls_extend w w'"
  by (cases "dt_outcome d")
    (auto simp: DeathTest_Passed_def normal_simps Let_def calls_extend_def split: if_splits)

lemma spawn_by_clone_extends: "spawn_by_clone S argv fd w = Some (Normal pid, w') \<Longrightarrow> calls_extend w w'"
  by (auto simp: spawn_by_clone_def normal_simps Let_def calls_extend_def split: if_splits)

lemma spawn_by_fork_extends: "spawn_by_fork S argv fd w = Some (Normal pid, w') \<Longrightarrow> calls_extend w w'"
  by (auto simp: spawn_by_fork_def normal_simps split: if_splits)

lemma SpawnChild_extends:
  assumes "ExecDeathTestSpawnChild S argv fd w = Some (Normal pid, w')"
  shows "calls_extend w w'"
proof -
  obtain r1 w1 p w4 r2 where 1: "GTEST_DEATH_TEST_CHECK_SYSCALL S 1046
         ''sigaction( SIGPROF, &ignore_sigprof_action, &saved_sigprof_action)'' Do_ignore_SIGPROF w = Some (Normal r1, w1)"
    and 2: "(if \<not> FLAG_death_test_use_fork (proc_flags w1) then spawn_by_clone S argv fd w1 else spawn_by_fork S argv fd w1) =
      Some (Normal p, w4)"
    and 3: "GTEST_DEATH_TEST_CHECK_SYSCALL S 1088 ''sigaction(SIGPROF, &saved_sigprof_action, NULL)'' Do_restore_SIGPROF w4 =
      Some (Normal r2, w')"
    using assms unfolding ExecDeathTestSpawnChild_def bind_proc_Normal by auto
  have "calls_extend w1 w4" using 2 spawn_by_clone_extends spawn_by_fork_extends by (auto split: if_splits)
  from calls_extend_trans [OF calls_extend_trans [OF has_called_extend [OF syscall_calls [OF 1]] this]
      has_called_extend [OF syscall_calls [OF 3]]] show ?thesis .
qed

text \<open>A pipe was made, with the descriptors \<open>fds\<close>, and the end to write was closed after that.\<close>

definition piped :: "system \<Rightarrow> int \<times> int \<Rightarrow> process \<Rightarrow> process \<Rightarrow> bool" where
  "piped S fds w w' \<longleftrightarrow>
     (\<exists>w1. calls_extend w w1 \<and> fds = reply_fds (sys_answer S (proc_calls w1) Do_pipe) \<and>
       has_called (Do_close (snd fds)) (with_call Do_pipe w1) w')"

lemma CaptureStderr_Normal: "CaptureStderr S w = Some (Normal a, w') \<longleftrightarrow> w' = (with_call Do_CaptureStderr w)\<lparr>proc_stderr := []\<rparr>"
  by (auto simp: CaptureStderr_def do_call_def with_call_def)

lemma NoExec_piped:
  assumes "NoExec_AssumeRole S d w = Some (Normal (OVERSEE_TEST, d'), w')"
  obtains fds where "piped S fds w w'" "dt_read_fd d' = fst fds" "dt_spawned d'"
proof -
  let ?threads = "sys_answer S (proc_calls w) Do_thread_count" and ?w1 = "with_call Do_thread_count w"
  obtain v where v: "(if reply_value ?threads \<noteq> 1 then LOG_WARNING S 825 (DeathTestThreadWarning (nat (reply_value ?threads))) ?w1
      else Some (Normal (), ?w1)) = Some (Normal (), v)" "calls_extend w v"
    by (cases "reply_value ?threads = 1") (simp_all add: LOG_WARNING_def calls_extend_def)
  let ?pipe = "sys_answer S (proc_calls v) Do_pipe"
  let ?w8 = "with_call Do_fork (with_call Do_flush
      ((with_call Do_CaptureStderr ((with_call Do_pipe v)\<lparr>last_death_test_message := []\<rparr>))\<lparr>proc_stderr := []\<rparr>))"
  obtain r where c: "GTEST_DEATH_TEST_CHECK_SYSCALL S 858 ''close(pipe_fd[1])'' (Do_close (snd (reply_fds ?pipe))) ?w8 = Some (Normal r, w')"
    and d': "dt_read_fd d' = fst (reply_fds ?pipe)" "dt_spawned d'"
    using assms unfolding NoExec_AssumeRole_def call_proc_eq bind_proc_simps(1) v(1)
    by (auto simp: normal_simps CaptureStderr_Normal Let_def split: if_splits)
  have "calls_extend (with_call Do_pipe v) ?w8" by (simp add: calls_extend_def)
  from has_called_trans(2) [OF this syscall_calls [OF c]] have "piped S (reply_fds ?pipe) w w'"
    unfolding piped_def using v(2) by blast
  then show thesis using d' by (rule that)
qed

lemma Exec_piped:
  assumes "Exec_AssumeRole S file line d w = Some (Normal (OVERSEE_TEST, d'), w')"
  obtains fds where "piped S fds w w'" "dt_read_fd d' = fst fds" "dt_spawned d'"
proof -
  obtain kt where kt: "current_test_info (proc_unit w) = Some kt" "run_death_test_flag w = None"
    using assms by (auto simp: Exec_AssumeRole_def split: option.splits)
  let ?pipe = "sys_answer S (proc_calls w) Do_pipe"
  let ?w3 = "with_call (Do_keep_on_exec (snd (reply_fds ?pipe))) (with_call Do_pipe w)"
  let ?w6 = "with_call Do_flush ((with_call Do_CaptureStderr (?w3\<lparr>last_death_test_message := []\<rparr>))\<lparr>proc_stderr := []\<rparr>)"
  obtain argv fd pid w7 r where 1: "ExecDeathTestSpawnChild S argv fd ?w6 = Some (Normal pid, w7)"
    and c: "GTEST_DEATH_TEST_CHECK_SYSCALL S 1139 ''close(pipe_fd[1])'' (Do_close (snd (reply_fds ?pipe))) w7 = Some (Normal r, w')"
    and d': "dt_read_fd d' = fst (reply_fds ?pipe)" "dt_spawned d'"
    using assms by (auto simp: Exec_AssumeRole_def kt normal_simps CaptureStderr_Normal)
  have "calls_extend (with_call Do_pipe w) ?w6" by (simp add: calls_extend_def)
  note extends = calls_extend_trans [OF this SpawnChild_extends [OF 1]]
  have "piped S (reply_fds ?pipe) w w'"
    unfolding piped_def using calls_extend_refl has_called_trans(2) [OF extends syscall_calls [OF c]] by blast
  then show thesis using d' by (rule that)
qed

lemma Factory_Create_calls:
  assumes "Factory_Create S statement regex file line w = Some (Normal r, w')"
  shows "proc_calls w' = proc_calls w"
  using assms
  by (auto simp: Factory_Create_def new_DeathTest_def normal_simps Let_def split: option.splits prod.splits if_splits)

lemma AssumeRole_piped:
  assumes "AssumeRole S d w = Some (Normal (OVERSEE_TEST, d'), w')"
  obtains fds where "piped S fds w w'" "dt_read_fd d' = fst fds" "dt_spawned d'"
proof (cases "dt_class d")
  case NoExec
  with assms show thesis by (auto simp: AssumeRole_def intro: NoExec_piped [of S d w d' w'] that)
next
  case (Exec f n)
  with assms show thesis by (auto simp: AssumeRole_def intro: Exec_piped [of S f n d w d' w'] that)
qed

text \<open>
  C40. A death test that comes to a verdict leaves no descriptor of its pipe open in the parent,
  whatever the system answers and in both styles: both ends that \<open>pipe\<close> gave are closed after it. An
  assertion that returns without a pipe has made no system call at all.
\<close>

theorem death_test_closes_pipe:
  assumes "GTEST_DEATH_TEST S st predicate regex file line w = Some (Normal r, w')"
  shows "proc_calls w' = proc_calls w \<or>
    (\<exists>before after. proc_calls w' = proc_calls w @ before @ Do_pipe # after \<and>
      (case reply_fds (sys_answer S (proc_calls w @ before) Do_pipe) of (read_end, write_end) \<Rightarrow>
        Do_close read_end \<in> set after \<and> Do_close write_end \<in> set after))"
proof -
  obtain created test w1 where create: "Factory_Create S (statement_text st) regex file line w = Some (Normal (created, test), w1)"
    using assms by (auto simp: GTEST_DEATH_TEST_def normal_simps)
  note same = Factory_Create_calls [OF create]
  show ?thesis
  proof (cases "created \<and> test \<noteq> None")
    case False
    then show ?thesis using assms create same by (auto simp: GTEST_DEATH_TEST_def split: if_splits)
  next
    case True
    then obtain d where d: "created" "test = Some d" by auto
    obtain rl d1 w2 where rl: "AssumeRole S d w1 = Some (Normal (rl, d1), w2)"
      using assms create d by (auto simp: GTEST_DEATH_TEST_def normal_simps)
    have "rl = OVERSEE_TEST"
      using assms create d rl by (cases rl) (auto simp: GTEST_DEATH_TEST_def)
    note role = rl [unfolded this]
    obtain d2 status w3 passed w4 where wait: "DeathTest_Wait S d1 w2 = Some (Normal (d2, status), w3)"
      and rest: "DeathTest_Passed S (predicate status) d2 w3 = Some (Normal passed, w4)" "w' = w4"
      using assms create d role by (auto simp: GTEST_DEATH_TEST_def normal_simps destroy_DeathTestImpl_def)
    obtain fds where fds: "piped S fds w1 w2" "dt_read_fd d1 = fst fds" "dt_spawned d1"
      by (rule AssumeRole_piped [OF role])
    obtain v where v: "calls_extend w1 v" "fds = reply_fds (sys_answer S (proc_calls v) Do_pipe)"
      "has_called (Do_close (snd fds)) (with_call Do_pipe v) w2" using fds(1) by (auto simp: piped_def)
    have closed: "has_called (Do_close (fst fds)) w2 w'"
      using has_called_trans(1) [OF DeathTest_Wait_closes [OF wait fds(3)] DeathTest_Passed_extends [OF rest(1)]]
      by (simp add: fds(2) rest(2))
    obtain cs where cs: "proc_calls v = proc_calls w @ cs" using v(1) by (auto simp: calls_extend_def same)
    obtain cs1 cs2 where "proc_calls w2 = proc_calls w @ cs @ Do_pipe # cs1" "Do_close (snd fds) \<in> set cs1"
      "proc_calls w' = proc_calls w2 @ cs2" "Do_close (fst fds) \<in> set cs2"
      using v(3) closed by (auto simp: has_called_def cs)
    then have "proc_calls w' = proc_calls w @ cs @ Do_pipe # (cs1 @ cs2) \<and>
        (case reply_fds (sys_answer S (proc_calls w @ cs) Do_pipe) of (read_end, write_end) \<Rightarrow>
          Do_close read_end \<in> set (cs1 @ cs2) \<and> Do_close write_end \<in> set (cs1 @ cs2))"
      using v(2) by (cases "reply_fds (sys_answer S (proc_calls w @ cs) Do_pipe)") (simp add: cs)
    then show ?thesis by (intro disjI2 exI)
  qed
qed

section \<open>Samples\<close>

definition sample_reply :: "int \<Rightarrow> sys_reply" where
  "sample_reply v = \<lparr>reply_value = v, reply_errno = 0, reply_data = [], reply_fds = (3, 4), reply_status = 0\<rparr>"

definition sample_system :: "(sys_call list \<Rightarrow> sys_call \<Rightarrow> sys_reply) \<Rightarrow> system" where
  "sample_system answer = \<lparr>sys_answer = answer, sys_strerror = (\<lambda>_. ''error''), source_file = ''gtest-death-test.cc'',
     injected_argvs = [''./tests''], stack_grows_down = True\<rparr>"

definition sample_child :: system where
  "sample_child = sample_system (\<lambda>h c. sample_reply (if c = Do_fork then 0 else 1))"

definition sample_parent :: "string \<Rightarrow> 32 word \<Rightarrow> string \<Rightarrow> system" where
  "sample_parent bytes status err = sample_system (\<lambda>h c.
     (case c of
        Do_read fd n \<Rightarrow> (sample_reply (int (length (take 1 bytes))))\<lparr>reply_data := take 1 bytes\<rparr>
      | Do_waitpid pid \<Rightarrow> (sample_reply 7)\<lparr>reply_status := status\<rparr>
      | Do_GetCapturedStderr \<Rightarrow> (sample_reply 0)\<lparr>reply_data := err\<rparr>
      | Do_fork \<Rightarrow> sample_reply 7
      | Do_clone \<Rightarrow> sample_reply 7
      | Do_getpagesize \<Rightarrow> sample_reply 4096
      | Do_thread_count \<Rightarrow> sample_reply 1
      | _ \<Rightarrow> sample_reply 0))"

lemma sample_child_ok: "child_system sample_child (3, 4)"
  by (simp add: child_system_def calls_succeed_def pipe_gives_def sample_child_def sample_system_def sample_reply_def)

lemma sample_parent_ok: "parent_system (sample_parent bytes status err) (3, 4) bytes status err"
  by (simp add: parent_system_def calls_succeed_def pipe_gives_def sample_parent_def sample_system_def sample_reply_def
      split: sys_call.split list.split)

definition sample_info :: test_info where
  "sample_info = (TestInfo ''CrashDeathTest'' ''Exits'' None None 1 1)\<lparr>info_result := new_TestResult\<lparr>result_death_test_count := 2\<rparr>\<rparr>"

definition sample_process :: process where
  "sample_process =
     \<lparr>proc_unit = new_UnitTestImpl\<lparr>current_test_info := Some (0, 0),
        test_cases := [(TestCase ''CrashDeathTest'' None 1 2)\<lparr>test_info_list := [sample_info]\<rparr>]\<rparr>, proc_flags = default_flags (\<lambda>_. None),
      last_death_test_message = [], in_fast_death_test_child = False, proc_forwarding = True,
      run_death_test_flag = None, proc_stderr = [], proc_calls = []\<rparr>"

text \<open>The same test in the style \<open>threadsafe\<close>, and its child, which has written something before.\<close>

definition sample_threadsafe :: process where
  "sample_threadsafe = sample_process
     \<lparr>proc_flags := (default_flags (\<lambda>_. None))\<lparr>FLAG_death_test_style := ''threadsafe''\<rparr>\<rparr>"

definition sample_rerun :: process where
  "sample_rerun = sample_threadsafe
     \<lparr>run_death_test_flag := Some \<lparr>flag_file = ''a.cc'', flag_line = 17, flag_index = 3, flag_write_fd = 4\<rparr>,
      proc_stderr := ''bo''\<rparr>"

definition sample_statement :: "string \<Rightarrow> statement_end \<Rightarrow> test_statement" where
  "sample_statement s e = \<lparr>statement_text = ''f()'', statement_stderr = s, statement_end = e\<rparr>"

definition sample_regex :: posix_re where
  "sample_regex = fst (posix_RE_Init (\<lambda>p. Some (\<lambda>s. s = p)) ''boom'')"

theorem death_test_flag_roundtrip_witness:
  "case ParseGoogleTestFlagsOnly (argv_strings (exec_arguments sample_child sample_info ''a.cc'' 17 4)) (default_flags (\<lambda>_. None)) False of
    (argv', fl', hf', out, shown) \<Rightarrow>
      FLAG_filter fl' = ''CrashDeathTest.Exits'' \<and>
      ParseInternalRunDeathTestFlag fl' = Inr (Some \<lparr>flag_file = ''a.cc'', flag_line = 17, flag_index = 2, flag_write_fd = 4\<rparr>)"
  using death_test_flag_roundtrip [of sample_child "''a.cc''" sample_info 17 4 "default_flags (\<lambda>_. None)" False]
  by (simp add: sample_child_def sample_system_def sample_info_def TestInfo_def new_TestResult_def)

lemma sample_spawns: "spawns (sample_parent bytes status err)"
  by (simp add: spawns_def sample_parent_def sample_system_def sample_reply_def)

lemma sample_fast_child: "death_child sample_process sample_process sample_child (3, 4) ''a.cc'' 17 []"
proof -
  have "FLAG_death_test_style (proc_flags sample_process) = ''fast''" by code_simp
  then show ?thesis by (simp add: death_child_def sample_child_ok)
qed

lemma sample_rerun_child: "death_child sample_threadsafe sample_rerun sample_child (3, 4) ''a.cc'' 17 ''bo''"
  using sample_child_ok
  by (simp add: death_child_def reruns_def child_system_def sample_rerun_def sample_threadsafe_def sample_process_def
      the_info_def sample_info_def increment_death_test_count_def TestCase_def new_UnitTestImpl_def c_str_def)

text \<open>
  In the style fast \<open>boom\<close> and status 3, as expected, and a statement that does not die; in the style
  threadsafe the text is what the child wrote altogether.
\<close>

theorem death_test_verdict_witness:
  "(\<exists>S w. GTEST_DEATH_TEST S (sample_statement ''boom'' (Exits 3)) (ExitedWithCode 3) sample_regex ''a.cc'' 17 sample_process =
      Some (Normal None, w)) \<and>
   (\<exists>S w m. GTEST_DEATH_TEST S (sample_statement ''boom'' Completes) (ExitedWithCode 3) sample_regex ''a.cc'' 17 sample_process =
      Some (Normal (Some m), w)) \<and>
   (\<exists>S w. GTEST_DEATH_TEST S (sample_statement ''om'' (Exits 3)) (ExitedWithCode 3) sample_regex ''a.cc'' 17 sample_threadsafe =
      Some (Normal None, w))"
proof -
  have start: "current_test_info (proc_unit w) = Some (0, 0)" "run_death_test_flag w = None"
    if "w = sample_process \<or> w = sample_threadsafe" for w
    using that by (auto simp: sample_process_def sample_threadsafe_def)
  have dies: "dies_as_expected (sample_statement s (Exits 3)) (ExitedWithCode 3) sample_regex e \<longleftrightarrow> e @ s = ''boom''" for s e
    by (simp add: dies_as_expected_def statement_status_def sample_statement_def ExitedWithCode_def WIFEXITED_def
        WTERMSIG_def WEXITSTATUS_def sample_regex_def posix_RE_Init_def posix_PartialMatch_def)
  have lives: "\<not> dies_as_expected (sample_statement s Completes) (ExitedWithCode 3) sample_regex e" for s e
    by (simp add: dies_as_expected_def statement_status_def sample_statement_def)
  have run: "\<exists>S w'. GTEST_DEATH_TEST S st (ExitedWithCode 3) sample_regex ''a.cc'' 17 w =
      Some (Normal (if dies_as_expected st (ExitedWithCode 3) sample_regex e then None
                    else Some (c_str (last_death_test_message w'))), w')"
    if "w = sample_process \<or> w = sample_threadsafe" "death_child w wx sample_child (3, 4) ''a.cc'' 17 e"
      "NUL \<notin> set (e @ statement_stderr st)" for st w wx e
    using death_test_verdict [OF start(1) [OF that(1)] start(2) [OF that(1)] that(2,3),
        where predicate = "ExitedWithCode 3" and regex = sample_regex] sample_parent_ok sample_spawns by blast
  have plain: "NUL \<notin> set ([] @ statement_stderr (sample_statement ''boom'' e))"
    "NUL \<notin> set (''bo'' @ statement_stderr (sample_statement ''om'' e))" for e by (simp_all add: sample_statement_def)
  show ?thesis
    using run [OF _ sample_fast_child plain(1), of "Exits 3"] run [OF _ sample_fast_child plain(1), of Completes]
      run [OF _ sample_rerun_child plain(2), of "Exits 3"] dies lives by auto
qed

theorem death_test_closes_pipe_witness:
  "\<exists>r w. GTEST_DEATH_TEST (sample_parent [] 768 ''boom'') (sample_statement ''boom'' (Exits 3)) (ExitedWithCode 3) sample_regex ''a.cc'' 17
       sample_process = Some (Normal r, w) \<and>
     (proc_calls w = [] \<or> (\<exists>before after. proc_calls w = before @ Do_pipe # after \<and> Do_close 3 \<in> set after \<and> Do_close 4 \<in> set after))"
proof -
  have start: "current_test_info (proc_unit sample_process) = Some (0, 0)" "run_death_test_flag sample_process = None"
    by (simp_all add: sample_process_def)
  have style: "FLAG_death_test_style (proc_flags sample_process) = ''fast''" by code_simp
  let ?S = "sample_parent [] 768 ''boom''"
  have "report_bytes (sample_statement ''boom'' (Exits 3)) = []" by (simp add: report_bytes_def abort_of_def sample_statement_def)
  with sample_parent_ok [of "[]" 768 "''boom''"]
  have "parent_system ?S (3, 4) (report_bytes (sample_statement ''boom'' (Exits 3))) 768 ''boom''" by simp
  then obtain r w where r: "GTEST_DEATH_TEST ?S (sample_statement ''boom'' (Exits 3)) (ExitedWithCode 3) sample_regex ''a.cc'' 17
      sample_process = Some (Normal r, w)"
    by (rule parent_process [OF start]) (use style in simp_all)
  have "reply_fds (sys_answer ?S h Do_pipe) = (3, 4)" for h
    by (simp add: sample_parent_def sample_system_def sample_reply_def)
  moreover have "proc_calls sample_process = []" by (simp add: sample_process_def)
  ultimately show ?thesis using r death_test_closes_pipe [OF r] by auto
qed

end
