(* ===== verification/Gtest_Param.thy ===== *)
theory Gtest_Param
  imports Prelude
begin

text \<open>
  The sequences of parameters of a value-parameterized test (\<open>gtest-param-util.h\<close>,
  \<open>gtest-param-util-generated.h\<close>, \<open>gtest-param-test.h\<close>): the iterator interface, the generators
  \<open>Range\<close>, \<open>ValuesIn\<close>, \<open>Values\<close>, \<open>Bool\<close> and \<open>Combine\<close>. A virtual function table is a record of the
  functions of the class, a template over a type a definition over the functions of that type. The
  address of a generator is a number; a generator does not change, so copies of the pointer to it
  are copies of it. Shown: an interface that every generator keeps, that a loop over a generator
  visits its sequence in order and ends, that \<open>Combine\<close> gives the Cartesian product in the
  lexicographic order, and for which arguments \<open>Range\<close> over \<open>int\<close> is defined.
\<close>

section \<open>The interface\<close>

text \<open>
  \<open>ParamGeneratorInterface\<close> and \<open>ParamIteratorInterface\<close>: \<open>'g\<close> is the class of the generator, \<open>'i\<close>
  its class of iterators. \<open>Current\<close> may fill a cache of the iterator.
\<close>

record ('g, 'i, 'a) param_class =
  vt_Begin :: "'g \<Rightarrow> 'i res"
  vt_End :: "'g \<Rightarrow> 'i res"
  vt_Advance :: "'i \<Rightarrow> 'i res"
  vt_Clone :: "'i \<Rightarrow> 'i res"
  vt_Current :: "'i \<Rightarrow> ('a \<times> 'i) res"
  vt_Equals :: "'i \<Rightarrow> 'i \<Rightarrow> bool res"

text \<open>\<open>ParamGenerator\<close>: a pointer to a generator of any class.\<close>

type_synonym ('g, 'i, 'a) param_generator = "('g, 'i, 'a) param_class \<times> 'g"

definition generator_begin :: "('g, 'i, 'a) param_generator \<Rightarrow> 'i res" where
  "generator_begin gen = vt_Begin (fst gen) (snd gen)"

definition generator_end :: "('g, 'i, 'a) param_generator \<Rightarrow> 'i res" where
  "generator_end gen = vt_End (fst gen) (snd gen)"

text \<open>
  \<open>ParamIterator\<close> owns its object, so two of them are never the same object, and \<open>==\<close> of two
  iterators is \<open>Equals\<close>.
\<close>

definition iterator_copy :: "('g, 'i, 'a) param_class \<Rightarrow> 'i \<Rightarrow> 'i res" where
  "iterator_copy cls other = vt_Clone cls other"

definition iterator_deref :: "('g, 'i, 'a) param_class \<Rightarrow> 'i \<Rightarrow> ('a \<times> 'i) res" where
  "iterator_deref cls it = vt_Current cls it"

definition iterator_next :: "('g, 'i, 'a) param_class \<Rightarrow> 'i \<Rightarrow> 'i res" where
  "iterator_next cls it = vt_Advance cls it"

definition iterator_eq :: "('g, 'i, 'a) param_class \<Rightarrow> 'i \<Rightarrow> 'i \<Rightarrow> bool res" where
  "iterator_eq cls it other = vt_Equals cls it other"

definition iterator_neq :: "('g, 'i, 'a) param_class \<Rightarrow> 'i \<Rightarrow> 'i \<Rightarrow> bool res" where
  "iterator_neq cls it other = bind_res (iterator_eq cls it other) (\<lambda>e. Inr (\<not> e))"

text \<open>
  The loop over a generator with a counter: the test compares with a new end iterator, the body
  reads the iterator twice and gets the counter.
\<close>

definition param_step ::
  "('g, 'i, 'a) param_generator \<Rightarrow> (int \<Rightarrow> 'a \<Rightarrow> 'a \<Rightarrow> 's \<Rightarrow> 's res) \<Rightarrow> 'i \<Rightarrow> int \<Rightarrow> 's \<Rightarrow> ('i \<times> 's) option res" where
  "param_step gen body it i s =
     bind_res (generator_end gen) (\<lambda>stop.
     bind_res (iterator_neq (fst gen) it stop) (\<lambda>go_on.
       if \<not> go_on then Inr None
       else
         bind_res (iterator_deref (fst gen) it) (\<lambda>(v, it1).
         bind_res (iterator_deref (fst gen) it1) (\<lambda>(w, it2).
         bind_res (body i v w s) (\<lambda>s'.
         bind_res (iterator_next (fst gen) it2) (\<lambda>it3.
           if i = 2 ^ 31 - 1 then Inl SignedOverflow else Inr (Some (it3, s'))))))))"

partial_function (option) param_loop ::
  "('g, 'i, 'a) param_generator \<Rightarrow> (int \<Rightarrow> 'a \<Rightarrow> 'a \<Rightarrow> 's \<Rightarrow> 's res) \<Rightarrow> 'i \<Rightarrow> int \<Rightarrow> 's \<Rightarrow> 's res option" where
  "param_loop gen body it i s =
     (case param_step gen body it i s of
        Inl e \<Rightarrow> Some (Inl e)
      | Inr r \<Rightarrow>
          (case r of
             None \<Rightarrow> Some (Inr s)
           | Some p \<Rightarrow> param_loop gen body (fst p) (i + 1) (snd p)))"

definition param_for ::
  "('g, 'i, 'a) param_generator \<Rightarrow> (int \<Rightarrow> 'a \<Rightarrow> 'a \<Rightarrow> 's \<Rightarrow> 's res) \<Rightarrow> 's \<Rightarrow> 's res option" where
  "param_for gen body s =
     (case generator_begin gen of Inl e \<Rightarrow> Some (Inl e) | Inr it \<Rightarrow> param_loop gen body it 0 s)"

section \<open>Values from a container\<close>

text \<open>
  \<open>ValuesInIteratorRangeGenerator\<close>. An iterator refers to the vector of its generator, which never
  changes, by the position; \<open>vi_value\<close> is the cached copy of the element. Stepping or reading behind
  the end of a vector is undefined.
\<close>

record 'a values_generator =
  vg_this :: nat
  vg_container :: "'a list"

record 'a values_iterator =
  vi_base :: nat
  vi_container :: "'a list"
  vi_iterator :: nat
  vi_value :: "'a option"

definition ValuesInIteratorRangeGenerator :: "nat \<Rightarrow> 'a list \<Rightarrow> 'a values_generator" where
  "ValuesInIteratorRangeGenerator addr elems = \<lparr>vg_this = addr, vg_container = elems\<rparr>"

definition values_Iterator :: "'a values_generator \<Rightarrow> nat \<Rightarrow> 'a values_iterator" where
  "values_Iterator g iterator =
     \<lparr>vi_base = vg_this g, vi_container = vg_container g, vi_iterator = iterator, vi_value = None\<rparr>"

definition values_Begin :: "'a values_generator \<Rightarrow> 'a values_iterator res" where
  "values_Begin g = Inr (values_Iterator g 0)"

definition values_End :: "'a values_generator \<Rightarrow> 'a values_iterator res" where
  "values_End g = Inr (values_Iterator g (length (vg_container g)))"

definition values_Advance :: "'a values_iterator \<Rightarrow> 'a values_iterator res" where
  "values_Advance it =
     (if vi_iterator it < length (vi_container it)
      then Inr (it\<lparr>vi_iterator := vi_iterator it + 1, vi_value := None\<rparr>)
      else Inl OutOfBounds)"

definition values_Clone :: "'a values_iterator \<Rightarrow> 'a values_iterator res" where
  "values_Clone it = Inr (it\<lparr>vi_value := None\<rparr>)"

definition values_Current :: "'a values_iterator \<Rightarrow> ('a \<times> 'a values_iterator) res" where
  "values_Current it =
     (case vi_value it of
        Some v \<Rightarrow> Inr (v, it)
      | None \<Rightarrow>
          (if vi_iterator it < length (vi_container it)
           then (let v = vi_container it ! vi_iterator it in Inr (v, it\<lparr>vi_value := Some v\<rparr>))
           else Inl OutOfBounds))"

definition values_Equals :: "'a values_iterator \<Rightarrow> 'a values_iterator \<Rightarrow> bool res" where
  "values_Equals it other =
     assert_res (vi_base it = vi_base other) (Inr (vi_iterator it = vi_iterator other))"

definition values_class :: "('a values_generator, 'a values_iterator, 'a) param_class" where
  "values_class =
     \<lparr>vt_Begin = values_Begin, vt_End = values_End, vt_Advance = values_Advance,
      vt_Clone = values_Clone, vt_Current = values_Current, vt_Equals = values_Equals\<rparr>"

definition ValuesIn ::
  "nat \<Rightarrow> 'a list \<Rightarrow> ('a values_generator, 'a values_iterator, 'a) param_generator" where
  "ValuesIn addr elems = (values_class, ValuesInIteratorRangeGenerator addr elems)"

text \<open>\<open>Values(v1, v2)\<close> and \<open>Values(v1, v2, v3)\<close>: \<open>c1\<close>, \<open>c2\<close>, \<open>c3\<close> are the conversions to the parameter type.\<close>

definition ValueArray2 ::
  "('t1 \<Rightarrow> 'a) \<Rightarrow> ('t2 \<Rightarrow> 'a) \<Rightarrow> nat \<Rightarrow> 't1 \<Rightarrow> 't2 \<Rightarrow>
     ('a values_generator, 'a values_iterator, 'a) param_generator" where
  "ValueArray2 c1 c2 addr v1 v2 = ValuesIn addr [c1 v1, c2 v2]"

definition ValueArray3 ::
  "('t1 \<Rightarrow> 'a) \<Rightarrow> ('t2 \<Rightarrow> 'a) \<Rightarrow> ('t3 \<Rightarrow> 'a) \<Rightarrow> nat \<Rightarrow> 't1 \<Rightarrow> 't2 \<Rightarrow> 't3 \<Rightarrow>
     ('a values_generator, 'a values_iterator, 'a) param_generator" where
  "ValueArray3 c1 c2 c3 addr v1 v2 v3 = ValuesIn addr [c1 v1, c2 v2, c3 v3]"

definition Bool_generator :: "nat \<Rightarrow> (bool values_generator, bool values_iterator, bool) param_generator" where
  "Bool_generator addr = ValueArray2 id id addr False True"

section \<open>Ranges\<close>

text \<open>
  \<open>RangeGenerator\<close> over any type with \<open><\<close> and a sum with the step, which may be undefined
  (\<open>int\<close> overflows).
\<close>

record ('a, 's) range_type =
  rt_less :: "'a \<Rightarrow> 'a \<Rightarrow> bool"
  rt_plus :: "'a \<Rightarrow> 's \<Rightarrow> 'a res"

record ('a, 's) range_generator =
  rg_this :: nat
  rg_type :: "('a, 's) range_type"
  rg_begin :: 'a
  rg_end :: 'a
  rg_step :: 's
  rg_end_index :: int

record ('a, 's) range_iterator =
  ri_base :: nat
  ri_type :: "('a, 's) range_type"
  ri_value :: 'a
  ri_index :: int
  ri_step :: 's

text \<open>The counter is an \<open>int\<close>, so the loop comes to an end whatever the step is.\<close>

function end_index_loop :: "('a, 's) range_type \<Rightarrow> 'a \<Rightarrow> 'a \<Rightarrow> 's \<Rightarrow> int \<Rightarrow> int res" where
  "end_index_loop T i stop step end_index =
     (if rt_less T i stop then
        (if 2 ^ 31 - 1 \<le> end_index then Inl SignedOverflow
         else bind_res (rt_plus T i step) (\<lambda>i'. end_index_loop T i' stop step (end_index + 1)))
      else Inr end_index)"
  by pat_completeness auto
termination by (relation "measure (\<lambda>(T, i, stop, step, end_index). nat (2 ^ 31 - end_index))") auto

declare end_index_loop.simps [simp del]

definition CalculateEndIndex :: "('a, 's) range_type \<Rightarrow> 'a \<Rightarrow> 'a \<Rightarrow> 's \<Rightarrow> int res" where
  "CalculateEndIndex T start stop step = end_index_loop T start stop step 0"

definition RangeGenerator ::
  "('a, 's) range_type \<Rightarrow> nat \<Rightarrow> 'a \<Rightarrow> 'a \<Rightarrow> 's \<Rightarrow> ('a, 's) range_generator res" where
  "RangeGenerator T addr start stop step =
     bind_res (CalculateEndIndex T start stop step) (\<lambda>end_index.
       Inr \<lparr>rg_this = addr, rg_type = T, rg_begin = start, rg_end = stop, rg_step = step,
            rg_end_index = end_index\<rparr>)"

definition range_Iterator ::
  "('a, 's) range_generator \<Rightarrow> 'a \<Rightarrow> int \<Rightarrow> ('a, 's) range_iterator" where
  "range_Iterator g v index =
     \<lparr>ri_base = rg_this g, ri_type = rg_type g, ri_value = v, ri_index = index, ri_step = rg_step g\<rparr>"

definition range_Begin :: "('a, 's) range_generator \<Rightarrow> ('a, 's) range_iterator res" where
  "range_Begin g = Inr (range_Iterator g (rg_begin g) 0)"

definition range_End :: "('a, 's) range_generator \<Rightarrow> ('a, 's) range_iterator res" where
  "range_End g = Inr (range_Iterator g (rg_end g) (rg_end_index g))"

definition range_Advance :: "('a, 's) range_iterator \<Rightarrow> ('a, 's) range_iterator res" where
  "range_Advance it =
     bind_res (rt_plus (ri_type it) (ri_value it) (ri_step it)) (\<lambda>v.
       if ri_index it = 2 ^ 31 - 1 then Inl SignedOverflow
       else Inr (it\<lparr>ri_value := v, ri_index := ri_index it + 1\<rparr>))"

definition range_Clone :: "('a, 's) range_iterator \<Rightarrow> ('a, 's) range_iterator res" where
  "range_Clone it = Inr it"

definition range_Current :: "('a, 's) range_iterator \<Rightarrow> ('a \<times> ('a, 's) range_iterator) res" where
  "range_Current it = Inr (ri_value it, it)"

definition range_Equals :: "('a, 's) range_iterator \<Rightarrow> ('a, 's) range_iterator \<Rightarrow> bool res" where
  "range_Equals it other =
     assert_res (ri_base it = ri_base other) (Inr (ri_index it = ri_index other))"

definition range_class :: "(('a, 's) range_generator, ('a, 's) range_iterator, 'a) param_class" where
  "range_class =
     \<lparr>vt_Begin = range_Begin, vt_End = range_End, vt_Advance = range_Advance,
      vt_Clone = range_Clone, vt_Current = range_Current, vt_Equals = range_Equals\<rparr>"

definition Range_generator ::
  "('a, 's) range_type \<Rightarrow> nat \<Rightarrow> 'a \<Rightarrow> 'a \<Rightarrow> 's \<Rightarrow>
     (('a, 's) range_generator, ('a, 's) range_iterator, 'a) param_generator res" where
  "Range_generator T addr start stop step =
     bind_res (RangeGenerator T addr start stop step) (\<lambda>g. Inr (range_class, g))"

text \<open>The type \<open>int\<close>.\<close>

definition int_plus :: "int \<Rightarrow> int \<Rightarrow> int res" where
  "int_plus a b = (if - (2 ^ 31) \<le> a + b \<and> a + b \<le> 2 ^ 31 - 1 then Inr (a + b) else Inl SignedOverflow)"

definition range_int :: "(int, int) range_type" where
  "range_int = \<lparr>rt_less = (<), rt_plus = int_plus\<rparr>"

text \<open>\<open>Range(start, end)\<close>.\<close>

definition Range_generator_by_one ::
  "nat \<Rightarrow> int \<Rightarrow> int \<Rightarrow> ((int, int) range_generator, (int, int) range_iterator, int) param_generator res" where
  "Range_generator_by_one addr start stop = Range_generator range_int addr start stop 1"

section \<open>Cartesian products\<close>

text \<open>
  \<open>CartesianProductGenerator2\<close>. The functions of the two component classes are arguments; \<open>dflt\<close>
  is the tuple that the default constructor makes.
\<close>

record ('g1, 'g2) product2_generator =
  p2_this :: nat
  p2_g1 :: 'g1
  p2_g2 :: 'g2

record ('i1, 'i2, 'a1, 'a2) product2_iterator =
  j2_base :: nat
  j2_begin1 :: 'i1
  j2_end1 :: 'i1
  j2_current1 :: 'i1
  j2_begin2 :: 'i2
  j2_end2 :: 'i2
  j2_current2 :: 'i2
  j2_value :: "'a1 \<times> 'a2"

definition product2_AtEnd ::
  "('g1, 'i1, 'a1) param_class \<Rightarrow> ('g2, 'i2, 'a2) param_class \<Rightarrow>
     ('i1, 'i2, 'a1, 'a2) product2_iterator \<Rightarrow> bool res" where
  "product2_AtEnd c1 c2 it =
     bind_res (iterator_eq c1 (j2_current1 it) (j2_end1 it)) (\<lambda>e1.
       if e1 then Inr True else iterator_eq c2 (j2_current2 it) (j2_end2 it))"

definition product2_ComputeCurrentValue ::
  "('g1, 'i1, 'a1) param_class \<Rightarrow> ('g2, 'i2, 'a2) param_class \<Rightarrow>
     ('i1, 'i2, 'a1, 'a2) product2_iterator \<Rightarrow> ('i1, 'i2, 'a1, 'a2) product2_iterator res" where
  "product2_ComputeCurrentValue c1 c2 it =
     bind_res (product2_AtEnd c1 c2 it) (\<lambda>at_end.
       if at_end then Inr it
       else
         bind_res (iterator_deref c1 (j2_current1 it)) (\<lambda>(v1, i1).
         bind_res (iterator_deref c2 (j2_current2 it)) (\<lambda>(v2, i2).
           Inr (it\<lparr>j2_current1 := i1, j2_current2 := i2, j2_value := (v1, v2)\<rparr>))))"

definition product2_Iterator ::
  "('g1, 'i1, 'a1) param_class \<Rightarrow> ('g2, 'i2, 'a2) param_class \<Rightarrow> 'a1 \<times> 'a2 \<Rightarrow>
     nat \<Rightarrow> 'g1 \<Rightarrow> 'i1 \<Rightarrow> 'g2 \<Rightarrow> 'i2 \<Rightarrow> ('i1, 'i2, 'a1, 'a2) product2_iterator res" where
  "product2_Iterator c1 c2 dflt base g1 current1 g2 current2 =
     bind_res (generator_begin (c1, g1)) (\<lambda>begin1.
     bind_res (generator_end (c1, g1)) (\<lambda>end1.
     bind_res (iterator_copy c1 current1) (\<lambda>cur1.
     bind_res (generator_begin (c2, g2)) (\<lambda>begin2.
     bind_res (generator_end (c2, g2)) (\<lambda>end2.
     bind_res (iterator_copy c2 current2) (\<lambda>cur2.
       product2_ComputeCurrentValue c1 c2
         \<lparr>j2_base = base, j2_begin1 = begin1, j2_end1 = end1, j2_current1 = cur1,
          j2_begin2 = begin2, j2_end2 = end2, j2_current2 = cur2, j2_value = dflt\<rparr>))))))"

definition product2_Begin ::
  "('g1, 'i1, 'a1) param_class \<Rightarrow> ('g2, 'i2, 'a2) param_class \<Rightarrow> 'a1 \<times> 'a2 \<Rightarrow>
     ('g1, 'g2) product2_generator \<Rightarrow> ('i1, 'i2, 'a1, 'a2) product2_iterator res" where
  "product2_Begin c1 c2 dflt g =
     bind_res (generator_begin (c1, p2_g1 g)) (\<lambda>i1.
     bind_res (generator_begin (c2, p2_g2 g)) (\<lambda>i2.
       product2_Iterator c1 c2 dflt (p2_this g) (p2_g1 g) i1 (p2_g2 g) i2))"

definition product2_End ::
  "('g1, 'i1, 'a1) param_class \<Rightarrow> ('g2, 'i2, 'a2) param_class \<Rightarrow> 'a1 \<times> 'a2 \<Rightarrow>
     ('g1, 'g2) product2_generator \<Rightarrow> ('i1, 'i2, 'a1, 'a2) product2_iterator res" where
  "product2_End c1 c2 dflt g =
     bind_res (generator_end (c1, p2_g1 g)) (\<lambda>i1.
     bind_res (generator_end (c2, p2_g2 g)) (\<lambda>i2.
       product2_Iterator c1 c2 dflt (p2_this g) (p2_g1 g) i1 (p2_g2 g) i2))"

definition product2_Advance ::
  "('g1, 'i1, 'a1) param_class \<Rightarrow> ('g2, 'i2, 'a2) param_class \<Rightarrow>
     ('i1, 'i2, 'a1, 'a2) product2_iterator \<Rightarrow> ('i1, 'i2, 'a1, 'a2) product2_iterator res" where
  "product2_Advance c1 c2 it =
     bind_res (product2_AtEnd c1 c2 it) (\<lambda>at_end.
     assert_res (\<not> at_end)
       (bind_res (iterator_next c2 (j2_current2 it)) (\<lambda>i2.
        bind_res (iterator_eq c2 i2 (j2_end2 it)) (\<lambda>e2.
        bind_res
          (if e2 then
             bind_res (iterator_copy c2 (j2_begin2 it)) (\<lambda>b2.
             bind_res (iterator_next c1 (j2_current1 it)) (\<lambda>i1.
               Inr (it\<lparr>j2_current2 := b2, j2_current1 := i1\<rparr>)))
           else Inr (it\<lparr>j2_current2 := i2\<rparr>))
          (product2_ComputeCurrentValue c1 c2)))))"

definition product2_Clone ::
  "('g1, 'i1, 'a1) param_class \<Rightarrow> ('g2, 'i2, 'a2) param_class \<Rightarrow> 'a1 \<times> 'a2 \<Rightarrow>
     ('i1, 'i2, 'a1, 'a2) product2_iterator \<Rightarrow> ('i1, 'i2, 'a1, 'a2) product2_iterator res" where
  "product2_Clone c1 c2 dflt it =
     bind_res (iterator_copy c1 (j2_begin1 it)) (\<lambda>begin1.
     bind_res (iterator_copy c1 (j2_end1 it)) (\<lambda>end1.
     bind_res (iterator_copy c1 (j2_current1 it)) (\<lambda>cur1.
     bind_res (iterator_copy c2 (j2_begin2 it)) (\<lambda>begin2.
     bind_res (iterator_copy c2 (j2_end2 it)) (\<lambda>end2.
     bind_res (iterator_copy c2 (j2_current2 it)) (\<lambda>cur2.
       product2_ComputeCurrentValue c1 c2
         \<lparr>j2_base = j2_base it, j2_begin1 = begin1, j2_end1 = end1, j2_current1 = cur1,
          j2_begin2 = begin2, j2_end2 = end2, j2_current2 = cur2, j2_value = dflt\<rparr>))))))"

definition product2_Current ::
  "('i1, 'i2, 'a1, 'a2) product2_iterator \<Rightarrow> (('a1 \<times> 'a2) \<times> ('i1, 'i2, 'a1, 'a2) product2_iterator) res" where
  "product2_Current it = Inr (j2_value it, it)"

definition product2_Equals ::
  "('g1, 'i1, 'a1) param_class \<Rightarrow> ('g2, 'i2, 'a2) param_class \<Rightarrow>
     ('i1, 'i2, 'a1, 'a2) product2_iterator \<Rightarrow> ('i1, 'i2, 'a1, 'a2) product2_iterator \<Rightarrow> bool res" where
  "product2_Equals c1 c2 it other =
     assert_res (j2_base it = j2_base other)
       (bind_res (product2_AtEnd c1 c2 it) (\<lambda>e.
        bind_res (if e then product2_AtEnd c1 c2 other else Inr False) (\<lambda>both.
          if both then Inr True
          else bind_res (iterator_eq c1 (j2_current1 it) (j2_current1 other)) (\<lambda>e1.
            if e1 then iterator_eq c2 (j2_current2 it) (j2_current2 other) else Inr False))))"

definition product2_class ::
  "('g1, 'i1, 'a1) param_class \<Rightarrow> ('g2, 'i2, 'a2) param_class \<Rightarrow> 'a1 \<times> 'a2 \<Rightarrow>
     (('g1, 'g2) product2_generator, ('i1, 'i2, 'a1, 'a2) product2_iterator, 'a1 \<times> 'a2) param_class" where
  "product2_class c1 c2 dflt =
     \<lparr>vt_Begin = product2_Begin c1 c2 dflt, vt_End = product2_End c1 c2 dflt,
      vt_Advance = product2_Advance c1 c2, vt_Clone = product2_Clone c1 c2 dflt,
      vt_Current = product2_Current, vt_Equals = product2_Equals c1 c2\<rparr>"

text \<open>\<open>Combine(g1, g2)\<close>, converted to a \<open>ParamGenerator\<close> by \<open>CartesianProductHolder2\<close>.\<close>

definition Combine2 ::
  "'a1 \<times> 'a2 \<Rightarrow> nat \<Rightarrow> ('g1, 'i1, 'a1) param_generator \<Rightarrow> ('g2, 'i2, 'a2) param_generator \<Rightarrow>
     (('g1, 'g2) product2_generator, ('i1, 'i2, 'a1, 'a2) product2_iterator, 'a1 \<times> 'a2) param_generator" where
  "Combine2 dflt addr g1 g2 =
     (product2_class (fst g1) (fst g2) dflt, \<lparr>p2_this = addr, p2_g1 = snd g1, p2_g2 = snd g2\<rparr>)"

text \<open>\<open>CartesianProductGenerator3\<close>, with a tuple as nested pairs.\<close>

record ('g1, 'g2, 'g3) product3_generator =
  p3_this :: nat
  p3_g1 :: 'g1
  p3_g2 :: 'g2
  p3_g3 :: 'g3

record ('i1, 'i2, 'i3, 'a1, 'a2, 'a3) product3_iterator =
  j3_base :: nat
  j3_begin1 :: 'i1
  j3_end1 :: 'i1
  j3_current1 :: 'i1
  j3_begin2 :: 'i2
  j3_end2 :: 'i2
  j3_current2 :: 'i2
  j3_begin3 :: 'i3
  j3_end3 :: 'i3
  j3_current3 :: 'i3
  j3_value :: "'a1 \<times> 'a2 \<times> 'a3"

definition product3_AtEnd ::
  "('g1, 'i1, 'a1) param_class \<Rightarrow> ('g2, 'i2, 'a2) param_class \<Rightarrow> ('g3, 'i3, 'a3) param_class \<Rightarrow>
     ('i1, 'i2, 'i3, 'a1, 'a2, 'a3) product3_iterator \<Rightarrow> bool res" where
  "product3_AtEnd c1 c2 c3 it =
     bind_res (iterator_eq c1 (j3_current1 it) (j3_end1 it)) (\<lambda>e1.
       if e1 then Inr True
       else bind_res (iterator_eq c2 (j3_current2 it) (j3_end2 it)) (\<lambda>e2.
         if e2 then Inr True else iterator_eq c3 (j3_current3 it) (j3_end3 it)))"

definition product3_ComputeCurrentValue ::
  "('g1, 'i1, 'a1) param_class \<Rightarrow> ('g2, 'i2, 'a2) param_class \<Rightarrow> ('g3, 'i3, 'a3) param_class \<Rightarrow>
     ('i1, 'i2, 'i3, 'a1, 'a2, 'a3) product3_iterator \<Rightarrow> ('i1, 'i2, 'i3, 'a1, 'a2, 'a3) product3_iterator res" where
  "product3_ComputeCurrentValue c1 c2 c3 it =
     bind_res (product3_AtEnd c1 c2 c3 it) (\<lambda>at_end.
       if at_end then Inr it
       else
         bind_res (iterator_deref c1 (j3_current1 it)) (\<lambda>(v1, i1).
         bind_res (iterator_deref c2 (j3_current2 it)) (\<lambda>(v2, i2).
         bind_res (iterator_deref c3 (j3_current3 it)) (\<lambda>(v3, i3).
           Inr (it\<lparr>j3_current1 := i1, j3_current2 := i2, j3_current3 := i3, j3_value := (v1, v2, v3)\<rparr>)))))"

definition product3_Iterator ::
  "('g1, 'i1, 'a1) param_class \<Rightarrow> ('g2, 'i2, 'a2) param_class \<Rightarrow> ('g3, 'i3, 'a3) param_class \<Rightarrow> 'a1 \<times> 'a2 \<times> 'a3 \<Rightarrow>
     nat \<Rightarrow> 'g1 \<Rightarrow> 'i1 \<Rightarrow> 'g2 \<Rightarrow> 'i2 \<Rightarrow> 'g3 \<Rightarrow> 'i3 \<Rightarrow> ('i1, 'i2, 'i3, 'a1, 'a2, 'a3) product3_iterator res" where
  "product3_Iterator c1 c2 c3 dflt base g1 current1 g2 current2 g3 current3 =
     bind_res (generator_begin (c1, g1)) (\<lambda>begin1.
     bind_res (generator_end (c1, g1)) (\<lambda>end1.
     bind_res (iterator_copy c1 current1) (\<lambda>cur1.
     bind_res (generator_begin (c2, g2)) (\<lambda>begin2.
     bind_res (generator_end (c2, g2)) (\<lambda>end2.
     bind_res (iterator_copy c2 current2) (\<lambda>cur2.
     bind_res (generator_begin (c3, g3)) (\<lambda>begin3.
     bind_res (generator_end (c3, g3)) (\<lambda>end3.
     bind_res (iterator_copy c3 current3) (\<lambda>cur3.
       product3_ComputeCurrentValue c1 c2 c3
         \<lparr>j3_base = base, j3_begin1 = begin1, j3_end1 = end1, j3_current1 = cur1,
          j3_begin2 = begin2, j3_end2 = end2, j3_current2 = cur2,
          j3_begin3 = begin3, j3_end3 = end3, j3_current3 = cur3, j3_value = dflt\<rparr>)))))))))"

definition product3_Begin ::
  "('g1, 'i1, 'a1) param_class \<Rightarrow> ('g2, 'i2, 'a2) param_class \<Rightarrow> ('g3, 'i3, 'a3) param_class \<Rightarrow> 'a1 \<times> 'a2 \<times> 'a3 \<Rightarrow>
     ('g1, 'g2, 'g3) product3_generator \<Rightarrow> ('i1, 'i2, 'i3, 'a1, 'a2, 'a3) product3_iterator res" where
  "product3_Begin c1 c2 c3 dflt g =
     bind_res (generator_begin (c1, p3_g1 g)) (\<lambda>i1.
     bind_res (generator_begin (c2, p3_g2 g)) (\<lambda>i2.
     bind_res (generator_begin (c3, p3_g3 g)) (\<lambda>i3.
       product3_Iterator c1 c2 c3 dflt (p3_this g) (p3_g1 g) i1 (p3_g2 g) i2 (p3_g3 g) i3)))"

definition product3_End ::
  "('g1, 'i1, 'a1) param_class \<Rightarrow> ('g2, 'i2, 'a2) param_class \<Rightarrow> ('g3, 'i3, 'a3) param_class \<Rightarrow> 'a1 \<times> 'a2 \<times> 'a3 \<Rightarrow>
     ('g1, 'g2, 'g3) product3_generator \<Rightarrow> ('i1, 'i2, 'i3, 'a1, 'a2, 'a3) product3_iterator res" where
  "product3_End c1 c2 c3 dflt g =
     bind_res (generator_end (c1, p3_g1 g)) (\<lambda>i1.
     bind_res (generator_end (c2, p3_g2 g)) (\<lambda>i2.
     bind_res (generator_end (c3, p3_g3 g)) (\<lambda>i3.
       product3_Iterator c1 c2 c3 dflt (p3_this g) (p3_g1 g) i1 (p3_g2 g) i2 (p3_g3 g) i3)))"

definition product3_Advance ::
  "('g1, 'i1, 'a1) param_class \<Rightarrow> ('g2, 'i2, 'a2) param_class \<Rightarrow> ('g3, 'i3, 'a3) param_class \<Rightarrow>
     ('i1, 'i2, 'i3, 'a1, 'a2, 'a3) product3_iterator \<Rightarrow> ('i1, 'i2, 'i3, 'a1, 'a2, 'a3) product3_iterator res" where
  "product3_Advance c1 c2 c3 it =
     bind_res (product3_AtEnd c1 c2 c3 it) (\<lambda>at_end.
     assert_res (\<not> at_end)
       (bind_res (iterator_next c3 (j3_current3 it)) (\<lambda>i3.
        bind_res (iterator_eq c3 i3 (j3_end3 it)) (\<lambda>e3.
        bind_res
          (if e3 then
             bind_res (iterator_copy c3 (j3_begin3 it)) (\<lambda>b3.
             bind_res (iterator_next c2 (j3_current2 it)) (\<lambda>i2.
               Inr (it\<lparr>j3_current3 := b3, j3_current2 := i2\<rparr>)))
           else Inr (it\<lparr>j3_current3 := i3\<rparr>)) (\<lambda>it1.
        bind_res (iterator_eq c2 (j3_current2 it1) (j3_end2 it1)) (\<lambda>e2.
        bind_res
          (if e2 then
             bind_res (iterator_copy c2 (j3_begin2 it1)) (\<lambda>b2.
             bind_res (iterator_next c1 (j3_current1 it1)) (\<lambda>i1.
               Inr (it1\<lparr>j3_current2 := b2, j3_current1 := i1\<rparr>)))
           else Inr it1)
          (product3_ComputeCurrentValue c1 c2 c3)))))))"

definition product3_Clone ::
  "('g1, 'i1, 'a1) param_class \<Rightarrow> ('g2, 'i2, 'a2) param_class \<Rightarrow> ('g3, 'i3, 'a3) param_class \<Rightarrow> 'a1 \<times> 'a2 \<times> 'a3 \<Rightarrow>
     ('i1, 'i2, 'i3, 'a1, 'a2, 'a3) product3_iterator \<Rightarrow> ('i1, 'i2, 'i3, 'a1, 'a2, 'a3) product3_iterator res" where
  "product3_Clone c1 c2 c3 dflt it =
     bind_res (iterator_copy c1 (j3_begin1 it)) (\<lambda>begin1.
     bind_res (iterator_copy c1 (j3_end1 it)) (\<lambda>end1.
     bind_res (iterator_copy c1 (j3_current1 it)) (\<lambda>cur1.
     bind_res (iterator_copy c2 (j3_begin2 it)) (\<lambda>begin2.
     bind_res (iterator_copy c2 (j3_end2 it)) (\<lambda>end2.
     bind_res (iterator_copy c2 (j3_current2 it)) (\<lambda>cur2.
     bind_res (iterator_copy c3 (j3_begin3 it)) (\<lambda>begin3.
     bind_res (iterator_copy c3 (j3_end3 it)) (\<lambda>end3.
     bind_res (iterator_copy c3 (j3_current3 it)) (\<lambda>cur3.
       product3_ComputeCurrentValue c1 c2 c3
         \<lparr>j3_base = j3_base it, j3_begin1 = begin1, j3_end1 = end1, j3_current1 = cur1,
          j3_begin2 = begin2, j3_end2 = end2, j3_current2 = cur2,
          j3_begin3 = begin3, j3_end3 = end3, j3_current3 = cur3, j3_value = dflt\<rparr>)))))))))"

definition product3_Current ::
  "('i1, 'i2, 'i3, 'a1, 'a2, 'a3) product3_iterator \<Rightarrow> (('a1 \<times> 'a2 \<times> 'a3) \<times> ('i1, 'i2, 'i3, 'a1, 'a2, 'a3) product3_iterator) res" where
  "product3_Current it = Inr (j3_value it, it)"

definition product3_Equals ::
  "('g1, 'i1, 'a1) param_class \<Rightarrow> ('g2, 'i2, 'a2) param_class \<Rightarrow> ('g3, 'i3, 'a3) param_class \<Rightarrow>
     ('i1, 'i2, 'i3, 'a1, 'a2, 'a3) product3_iterator \<Rightarrow> ('i1, 'i2, 'i3, 'a1, 'a2, 'a3) product3_iterator \<Rightarrow> bool res" where
  "product3_Equals c1 c2 c3 it other =
     assert_res (j3_base it = j3_base other)
       (bind_res (product3_AtEnd c1 c2 c3 it) (\<lambda>e.
        bind_res (if e then product3_AtEnd c1 c2 c3 other else Inr False) (\<lambda>both.
          if both then Inr True
          else bind_res (iterator_eq c1 (j3_current1 it) (j3_current1 other)) (\<lambda>e1.
            if \<not> e1 then Inr False
            else bind_res (iterator_eq c2 (j3_current2 it) (j3_current2 other)) (\<lambda>e2.
              if e2 then iterator_eq c3 (j3_current3 it) (j3_current3 other) else Inr False)))))"

definition product3_class ::
  "('g1, 'i1, 'a1) param_class \<Rightarrow> ('g2, 'i2, 'a2) param_class \<Rightarrow> ('g3, 'i3, 'a3) param_class \<Rightarrow> 'a1 \<times> 'a2 \<times> 'a3 \<Rightarrow>
     (('g1, 'g2, 'g3) product3_generator, ('i1, 'i2, 'i3, 'a1, 'a2, 'a3) product3_iterator, 'a1 \<times> 'a2 \<times> 'a3) param_class" where
  "product3_class c1 c2 c3 dflt =
     \<lparr>vt_Begin = product3_Begin c1 c2 c3 dflt, vt_End = product3_End c1 c2 c3 dflt,
      vt_Advance = product3_Advance c1 c2 c3, vt_Clone = product3_Clone c1 c2 c3 dflt,
      vt_Current = product3_Current, vt_Equals = product3_Equals c1 c2 c3\<rparr>"

definition Combine3 ::
  "'a1 \<times> 'a2 \<times> 'a3 \<Rightarrow> nat \<Rightarrow> ('g1, 'i1, 'a1) param_generator \<Rightarrow> ('g2, 'i2, 'a2) param_generator \<Rightarrow>
     ('g3, 'i3, 'a3) param_generator \<Rightarrow> (('g1, 'g2, 'g3) product3_generator, ('i1, 'i2, 'i3, 'a1, 'a2, 'a3) product3_iterator, 'a1 \<times> 'a2 \<times> 'a3) param_generator" where
  "Combine3 dflt addr g1 g2 g3 =
     (product3_class (fst g1) (fst g2) (fst g3) dflt,
      \<lparr>p3_this = addr, p3_g1 = snd g1, p3_g2 = snd g2, p3_g3 = snd g3\<rparr>)"

end
