(* ===== verification/Gtest_Combine.thy ===== *)
theory Gtest_Combine
  imports Gtest_Param
begin

text \<open>
  What a generator of parameters promises, stated as a locale: its iterators point at positions of a
  sequence, and their operations move and compare the positions. The containers and the ranges keep
  the promise, a Cartesian product keeps it when its components do, and with the promise the loop
  over a generator is a fold over the sequence.
\<close>

section \<open>Operations that succeed\<close>

definition yields :: "'a res \<Rightarrow> ('a \<Rightarrow> bool) \<Rightarrow> bool" where
  "yields m P \<longleftrightarrow> (\<exists>x. m = Inr x \<and> P x)"

lemma yields_Inr [simp]: "yields (Inr x) P = P x"
  by (simp add: yields_def)

lemma yields_Inl [simp]: "\<not> yields (Inl e) P"
  by (simp add: yields_def)

lemma yields_assert [simp]: "yields (assert_res b r) P \<longleftrightarrow> b \<and> yields r P"
  by (cases b) auto

lemma yields_bind: "yields m P \<Longrightarrow> (\<And>x. P x \<Longrightarrow> yields (f x) Q) \<Longrightarrow> yields (bind_res m f) Q"
  by (auto simp: yields_def)

lemma yields_mono: "yields m P \<Longrightarrow> (\<And>x. P x \<Longrightarrow> Q x) \<Longrightarrow> yields m Q"
  by (auto simp: yields_def)

lemma yields_eqD: "yields m (\<lambda>x. x = y) \<Longrightarrow> m = Inr y"
  by (auto simp: yields_def)

section \<open>The promise\<close>

locale param_sequence =
  fixes cls :: "('g, 'i, 'a) param_class" and g :: 'g and elems :: "'a list"
    and points :: "'i \<Rightarrow> nat \<Rightarrow> bool"
  assumes points_bound: "points it k \<Longrightarrow> k \<le> length elems"
    and begin_points: "yields (generator_begin (cls, g)) (\<lambda>it. points it 0)"
    and end_points: "yields (generator_end (cls, g)) (\<lambda>it. points it (length elems))"
    and next_points: "points it k \<Longrightarrow> k < length elems \<Longrightarrow> yields (iterator_next cls it) (\<lambda>j. points j (Suc k))"
    and copy_points: "points it k \<Longrightarrow> yields (iterator_copy cls it) (\<lambda>j. points j k)"
    and deref_points: "points it k \<Longrightarrow> k < length elems \<Longrightarrow>
      yields (iterator_deref cls it) (\<lambda>(v, j). v = elems ! k \<and> points j k)"
    and eq_points: "points it k \<Longrightarrow> points j l \<Longrightarrow> iterator_eq cls it j = Inr (k = l)"

text \<open>What the loop computes over the sequence.\<close>

fun fold_params :: "(int \<Rightarrow> 'a \<Rightarrow> 'a \<Rightarrow> 's \<Rightarrow> 's res) \<Rightarrow> int \<Rightarrow> 'a list \<Rightarrow> 's \<Rightarrow> 's res" where
  "fold_params body i [] s = Inr s"
| "fold_params body i (v # vs) s =
     bind_res (body i v v s) (\<lambda>s'. if i = 2 ^ 31 - 1 then Inl SignedOverflow else fold_params body (i + 1) vs s')"

text \<open>The generator yields the sequence.\<close>

definition generates :: "('g, 'i, 'a) param_generator \<Rightarrow> 'a list \<Rightarrow> bool" where
  "generates gen elems \<longleftrightarrow> (\<exists>points. param_sequence (fst gen) (snd gen) elems points)"

context param_sequence
begin

lemma generates_elems: "generates (cls, g) elems"
  using param_sequence_axioms by (auto simp: generates_def)

lemma param_step_end:
  assumes "points it (length elems)"
  shows "param_step (cls, g) body it i s = Inr None"
proof (rule yields_eqD)
  show "yields (param_step (cls, g) body it i s) (\<lambda>r. r = None)"
    unfolding param_step_def
    by (rule yields_bind [OF end_points]) (simp add: iterator_neq_def eq_points [OF assms])
qed

lemma param_step_deref:
  assumes "points it k" and "k < length elems"
  shows "\<exists>it2. points it2 k \<and> param_step (cls, g) body it i s =
    bind_res (body i (elems ! k) (elems ! k) s) (\<lambda>s'. bind_res (iterator_next cls it2) (\<lambda>it3.
      if i = 2 ^ 31 - 1 then Inl SignedOverflow else Inr (Some (it3, s'))))"
proof -
  obtain stop where stop: "generator_end (cls, g) = Inr stop" "points stop (length elems)"
    using end_points by (auto simp: yields_def)
  obtain it1 where it1: "iterator_deref cls it = Inr (elems ! k, it1)" "points it1 k"
    using deref_points [OF assms] by (auto simp: yields_def)
  obtain it2 where it2: "iterator_deref cls it1 = Inr (elems ! k, it2)" "points it2 k"
    using deref_points [OF it1(2) assms(2)] by (auto simp: yields_def)
  have "k \<noteq> length elems" using assms(2) by simp
  then show ?thesis
    by (intro exI [of _ it2] conjI it2(2))
      (simp add: param_step_def stop iterator_neq_def eq_points [OF assms(1) stop(2)] it1 it2(1))
qed

text \<open>The loop over a generator visits the sequence in order and ends.\<close>

lemma param_loop_fold:
  assumes "points it k"
  shows "param_loop (cls, g) body it i s = Some (fold_params body i (drop k elems) s)"
  using assms
proof (induction "length elems - k" arbitrary: it k i s)
  case 0
  then have k: "k = length elems" using points_bound [of it k] by simp
  then show ?case using 0 param_step_end [of it body i s] by (subst param_loop.simps) simp
next
  case (Suc n)
  then have k: "k < length elems" by simp
  obtain it2 where it2: "points it2 k"
    and step: "param_step (cls, g) body it i s =
      bind_res (body i (elems ! k) (elems ! k) s) (\<lambda>s'. bind_res (iterator_next cls it2) (\<lambda>it3.
        if i = 2 ^ 31 - 1 then Inl SignedOverflow else Inr (Some (it3, s'))))"
    using param_step_deref [OF Suc.prems k, where body = body and i = i and s = s] by (elim exE conjE) (rule that)
  obtain it3 where it3: "iterator_next cls it2 = Inr it3" "points it3 (Suc k)"
    using next_points [OF it2 k] by (auto simp: yields_def)
  have "drop k elems = elems ! k # drop (Suc k) elems" using k by (rule Cons_nth_drop_Suc [symmetric])
  then have rest: "fold_params body i (drop k elems) s = bind_res (body i (elems ! k) (elems ! k) s)
      (\<lambda>s'. if i = 2 ^ 31 - 1 then Inl SignedOverflow else fold_params body (i + 1) (drop (Suc k) elems) s')"
    by (simp only: fold_params.simps)
  have "n = length elems - Suc k" using Suc.hyps(2) by simp
  note IH = Suc.hyps(1) [OF this it3(2)]
  show ?case
  proof (cases "body i (elems ! k) (elems ! k) s")
    case (Inl e)
    then show ?thesis by (subst param_loop.simps) (simp add: step rest)
  next
    case (Inr s')
    then show ?thesis by (subst param_loop.simps) (simp add: step rest it3(1) IH)
  qed
qed

lemma param_for_fold: "param_for (cls, g) body s = Some (fold_params body 0 elems s)"
proof -
  obtain it where "generator_begin (cls, g) = Inr it" "points it 0"
    using begin_points by (auto simp: yields_def)
  then show ?thesis using param_loop_fold [of it 0 body 0 s] by (simp add: param_for_def)
qed

end

lemma generates_for:
  assumes "generates gen elems"
  shows "param_for gen body s = Some (fold_params body 0 elems s)"
proof -
  obtain points where "param_sequence (fst gen) (snd gen) elems points" using assms by (auto simp: generates_def)
  from param_sequence.param_for_fold [OF this] show ?thesis by simp
qed

section \<open>Containers\<close>

definition values_points :: "'a values_generator \<Rightarrow> 'a values_iterator \<Rightarrow> nat \<Rightarrow> bool" where
  "values_points g it k \<longleftrightarrow>
     vi_base it = vg_this g \<and> vi_container it = vg_container g \<and> vi_iterator it = k \<and>
     k \<le> length (vg_container g) \<and>
     (\<forall>v. vi_value it = Some v \<longrightarrow> k < length (vg_container g) \<and> v = vg_container g ! k)"

lemmas interface_defs =
  generator_begin_def generator_end_def iterator_copy_def iterator_deref_def iterator_next_def iterator_eq_def

lemmas values_defs =
  values_class_def values_Begin_def values_End_def values_Advance_def values_Clone_def values_Current_def
  values_Equals_def values_Iterator_def values_points_def

interpretation container: param_sequence values_class g "vg_container g" "values_points g" for g
  by unfold_locales
    (auto simp: interface_defs values_defs Let_def split: option.splits)

lemma ValuesIn_generates: "generates (ValuesIn addr elems) elems"
  using container.generates_elems [of "ValuesInIteratorRangeGenerator addr elems"]
  by (simp add: ValuesIn_def ValuesInIteratorRangeGenerator_def)

lemma Bool_generates: "generates (Bool_generator addr) [False, True]"
  using ValuesIn_generates by (simp add: Bool_generator_def ValueArray2_def)

section \<open>Ranges\<close>

text \<open>The values of a range: each is the one before plus the step, and the sum after the last is defined too.\<close>

fun range_steps :: "('a, 's) range_type \<Rightarrow> 's \<Rightarrow> 'a \<Rightarrow> 'a list \<Rightarrow> bool" where
  "range_steps T step v [] = True"
| "range_steps T step v (w # ws) \<longleftrightarrow> w = v \<and> (\<exists>v'. rt_plus T v step = Inr v' \<and> range_steps T step v' ws)"

lemma range_steps_hd: "range_steps T step v ws \<Longrightarrow> ws \<noteq> [] \<Longrightarrow> ws ! 0 = v"
  by (cases ws) auto

lemma range_steps_nth:
  "range_steps T step v ws \<Longrightarrow> k < length ws \<Longrightarrow>
    \<exists>v'. rt_plus T (ws ! k) step = Inr v' \<and> (Suc k < length ws \<longrightarrow> ws ! Suc k = v')"
proof (induction ws arbitrary: v k)
  case (Cons w ws)
  then obtain v' where v': "w = v" "rt_plus T v step = Inr v'" "range_steps T step v' ws" by auto
  show ?case
  proof (cases k)
    case 0
    then show ?thesis using v' range_steps_hd [OF v'(3)] by auto
  next
    case (Suc j)
    then show ?thesis using Cons.IH [OF v'(3), of j] Cons.prems(2) by auto
  qed
qed simp

definition range_points ::
  "('a, 's) range_generator \<Rightarrow> 'a list \<Rightarrow> ('a, 's) range_iterator \<Rightarrow> nat \<Rightarrow> bool" where
  "range_points g ws it k \<longleftrightarrow>
     ri_base it = rg_this g \<and> ri_type it = rg_type g \<and> ri_step it = rg_step g \<and> ri_index it = int k \<and>
     k \<le> length ws \<and> (k < length ws \<longrightarrow> ri_value it = ws ! k)"

definition range_ok :: "('a, 's) range_generator \<Rightarrow> 'a list \<Rightarrow> bool" where
  "range_ok g ws \<longleftrightarrow>
     rg_end_index g = int (length ws) \<and> length ws < 2 ^ 31 \<and> range_steps (rg_type g) (rg_step g) (rg_begin g) ws"

lemmas range_defs =
  range_class_def range_Begin_def range_End_def range_Clone_def range_Current_def range_Equals_def
  range_Iterator_def range_points_def

lemma range_sequence:
  assumes "range_ok g ws"
  shows "param_sequence range_class g ws (range_points g ws)"
proof
  fix it k assume it: "range_points g ws it k" and k: "k < length ws"
  obtain v' where v': "rt_plus (rg_type g) (ws ! k) (rg_step g) = Inr v'" "Suc k < length ws \<longrightarrow> ws ! Suc k = v'"
    using range_steps_nth [of "rg_type g" "rg_step g" "rg_begin g" ws k] assms k by (auto simp: range_ok_def)
  have "int k \<noteq> 2 ^ 31 - 1" using assms k by (auto simp: range_ok_def)
  then show "yields (iterator_next range_class it) (\<lambda>j. range_points g ws j (Suc k))"
    using it k v' by (auto simp: interface_defs range_defs range_Advance_def)
qed (use assms range_steps_hd in \<open>force simp: interface_defs range_defs range_ok_def\<close>)+

interpretation empty_range: param_sequence range_class "\<lparr>rg_this = addr, rg_type = T, rg_begin = b, rg_end = b,
    rg_step = s, rg_end_index = 0\<rparr>" "[]" "range_points \<lparr>rg_this = addr, rg_type = T, rg_begin = b, rg_end = b,
    rg_step = s, rg_end_index = 0\<rparr> []" for addr T b s
  by (rule range_sequence) (simp add: range_ok_def)

definition range_count :: "int \<Rightarrow> int \<Rightarrow> int \<Rightarrow> int" where
  "range_count b e s = (if e \<le> b then 0 else (e - b + s - 1) div s)"

lemma range_count_pos: "b < e \<Longrightarrow> 0 < s \<Longrightarrow> 1 \<le> range_count b e s"
  by (simp add: range_count_def pos_imp_zdiv_pos_iff int_one_le_iff_zero_less)

lemma range_count_step:
  assumes "b < e" and "0 < s"
  shows "range_count b e s = 1 + range_count (b + s) e s"
proof -
  have "(e - b + s - 1) div s = 1 + (e - b - 1) div s"
    using div_add_self2 [of s "e - b - 1"] assms(2) by (simp add: algebra_simps)
  moreover have "(e - b - 1) div s = 0" if "e \<le> b + s" using assms that by (simp add: div_pos_pos_trivial)
  ultimately show ?thesis using assms by (auto simp: range_count_def)
qed

lemma end_index_int:
  assumes "- (2 ^ 31) \<le> b"
  shows "end_index_loop range_int b e s m =
    (if e \<le> b then Inr m
     else if 0 < s \<and> b + s * range_count b e s \<le> 2 ^ 31 - 1 \<and> m + range_count b e s \<le> 2 ^ 31 - 1
     then Inr (m + range_count b e s) else Inl SignedOverflow)"
  using assms
proof (induction "nat (2 ^ 31 - m)" arbitrary: b m)
  case 0
  have "1 \<le> range_count b e s" if "b < e" "0 < s" using that by (rule range_count_pos)
  then show ?case using 0
    by (subst end_index_loop.simps) (fastforce simp: range_int_def)
next
  case (Suc n)
  show ?case
  proof (cases "b < e \<and> m < 2 ^ 31 - 1 \<and> - (2 ^ 31) \<le> b + s \<and> b + s \<le> 2 ^ 31 - 1")
    case True
    then have IH: "end_index_loop range_int (b + s) e s (m + 1) =
      (if e \<le> b + s then Inr (m + 1)
       else if 0 < s \<and> b + s + s * range_count (b + s) e s \<le> 2 ^ 31 - 1 \<and>
         m + 1 + range_count (b + s) e s \<le> 2 ^ 31 - 1
       then Inr (m + 1 + range_count (b + s) e s) else Inl SignedOverflow)"
      using Suc.hyps(2) by (intro Suc.hyps(1)) auto
    have "end_index_loop range_int b e s m = end_index_loop range_int (b + s) e s (m + 1)"
      using True by (subst end_index_loop.simps) (simp add: range_int_def int_plus_def)
    then show ?thesis
    proof (cases "0 < s")
      case s: True
      then have n: "range_count b e s = 1 + range_count (b + s) e s" using True range_count_step by simp
      have "b + s * range_count b e s = b + s + s * range_count (b + s) e s" by (simp add: n algebra_simps)
      moreover have "range_count (b + s) e s = 0" if "e \<le> b + s" using that by (simp add: range_count_def)
      ultimately show ?thesis using True s n IH \<open>_ = end_index_loop range_int (b + s) e s (m + 1)\<close> by auto
    next
      case False
      then show ?thesis using True IH \<open>_ = end_index_loop range_int (b + s) e s (m + 1)\<close> by auto
    qed
  next
    case False
    have "(b + s * range_count b e s \<le> 2 ^ 31 - 1 \<longrightarrow> b + s \<le> 2 ^ 31 - 1) \<and> 1 \<le> range_count b e s"
      if "\<not> e \<le> b" "0 < s"
    proof -
      have "1 \<le> range_count b e s" using range_count_pos [of b e s] that by simp
      moreover from this have "s \<le> s * range_count b e s" using that by simp
      ultimately show ?thesis by linarith
    qed
    then show ?thesis using False Suc.prems
      by (subst end_index_loop.simps, cases "e \<le> b"; cases "0 < s")
        (auto simp: range_int_def int_plus_def)
  qed
qed

lemma range_steps_int:
  assumes "- (2 ^ 31) \<le> b" and "0 < s" and "b + s * int n \<le> 2 ^ 31 - 1"
  shows "range_steps range_int s b (map (\<lambda>k. b + s * int k) [0..<n])"
  using assms
proof (induction n arbitrary: b)
  case (Suc n)
  have "range_steps range_int s (b + s) (map (\<lambda>k. b + s + s * int k) [0..<n])"
    using Suc.prems by (intro Suc.IH) (auto simp: algebra_simps)
  moreover have "map (\<lambda>k. b + s * int k) [0..<Suc n] = b # map (\<lambda>k. b + s + s * int k) [0..<n]"
    by (simp add: upt_conv_Cons map_Suc_upt [symmetric] algebra_simps del: upt_Suc)
  moreover have "b + s \<le> 2 ^ 31 - 1"
  proof -
    have "0 \<le> s * int n" using Suc.prems(2) by simp
    then show ?thesis using Suc.prems(3) by (simp add: algebra_simps)
  qed
  ultimately show ?case using Suc.prems by (simp add: range_int_def int_plus_def del: upt_Suc)
qed simp

text \<open>
  C33. \<open>Range(start, end, step)\<close> over \<open>int\<close> is defined exactly when the range is empty or the step is
  positive, the sum after the last value is an \<open>int\<close> and there are less than 2^31 values; then it
  yields \<open>start\<close>, \<open>start + step\<close>, ... below \<open>end\<close>. In the other cases (a zero or negative step with
  \<open>start < end\<close> among them) the constructor runs into a signed overflow.
\<close>

theorem Range_int_values:
  assumes "- (2 ^ 31) \<le> start"
  shows "if stop \<le> start \<or> 0 < step \<and> start + step * range_count start stop step \<le> 2 ^ 31 - 1 \<and>
        range_count start stop step \<le> 2 ^ 31 - 1
      then \<exists>gen. Range_generator range_int addr start stop step = Inr gen \<and>
        generates gen (map (\<lambda>k. start + step * int k) [0..<nat (range_count start stop step)])
      else Range_generator range_int addr start stop step = Inl SignedOverflow"
proof (cases "stop \<le> start \<or> 0 < step \<and> start + step * range_count start stop step \<le> 2 ^ 31 - 1 \<and>
    range_count start stop step \<le> 2 ^ 31 - 1")
  case False
  then have "CalculateEndIndex range_int start stop step = Inl SignedOverflow"
    using end_index_int [OF assms, of stop step 0] by (auto simp: CalculateEndIndex_def)
  then show ?thesis unfolding if_not_P [OF False] by (simp add: Range_generator_def RangeGenerator_def)
next
  case True
  let ?n = "range_count start stop step"
  let ?g = "\<lparr>rg_this = addr, rg_type = range_int, rg_begin = start, rg_end = stop, rg_step = step, rg_end_index = ?n\<rparr>"
  let ?ws = "map (\<lambda>k. start + step * int k) [0..<nat ?n]"
  have n: "0 \<le> ?n" "?n \<le> 2 ^ 31 - 1" "stop \<le> start \<Longrightarrow> ?n = 0"
    using True range_count_pos [of start stop step] by (auto simp: range_count_def)
  have "Range_generator range_int addr start stop step = Inr (range_class, ?g)"
    using True end_index_int [OF assms, of stop step 0] n
    by (auto simp: Range_generator_def RangeGenerator_def CalculateEndIndex_def)
  moreover have "range_ok ?g ?ws"
    using n True range_steps_int [OF assms, of step "nat ?n"] by (auto simp: range_ok_def)
  then have "generates (range_class, ?g) ?ws"
    by (rule param_sequence.generates_elems [OF range_sequence])
  ultimately show ?thesis using True by auto
qed

theorem Range_int_values_witness:
  "(\<exists>gen. Range_generator range_int 7 (- 3) 8 4 = Inr gen \<and> generates gen [- 3, 1, 5]) \<and>
   Range_generator range_int 7 0 3 0 = Inl SignedOverflow \<and>
   Range_generator range_int 7 (2 ^ 31 - 3) (2 ^ 31 - 1) 3 = Inl SignedOverflow"
  using Range_int_values [of "- 3" 8 4 7] Range_int_values [of 0 3 0 7]
    Range_int_values [of "2 ^ 31 - 3" "2 ^ 31 - 1" 3 7]
  by (simp add: range_count_def upt_rec)

section \<open>Positions in a product\<close>

definition product_pos :: "nat \<Rightarrow> nat \<Rightarrow> nat \<Rightarrow> nat \<Rightarrow> nat" where
  "product_pos n1 n2 k1 k2 = (if k1 < n1 \<and> k2 < n2 then k1 * n2 + k2 else n1 * n2)"

lemma product_pos_less: "product_pos n1 n2 k1 k2 < n1 * n2 \<longleftrightarrow> k1 < n1 \<and> k2 < n2"
proof -
  have "k1 * n2 + k2 < n1 * n2" if "k1 < n1" "k2 < n2"
  proof -
    have "k1 * n2 + k2 < Suc k1 * n2" using that(2) by simp
    also have "\<dots> \<le> n1 * n2" using that(1) by (intro mult_le_mono1) simp
    finally show ?thesis .
  qed
  then show ?thesis by (simp add: product_pos_def)
qed

lemma product_pos_le: "product_pos n1 n2 k1 k2 \<le> n1 * n2"
  using product_pos_less [of n1 n2 k1 k2] by (cases "k1 < n1 \<and> k2 < n2") (auto simp: product_pos_def)

lemma product_pos_parts: "k1 < n1 \<Longrightarrow> k2 < n2 \<Longrightarrow>
    product_pos n1 n2 k1 k2 div n2 = k1 \<and> product_pos n1 n2 k1 k2 mod n2 = k2"
  by (simp add: product_pos_def)

lemma product_pos_eq:
  "product_pos n1 n2 k1 k2 = product_pos n1 n2 l1 l2 \<longleftrightarrow>
    (if k1 < n1 \<and> k2 < n2 then k1 = l1 \<and> k2 = l2 else \<not> (l1 < n1 \<and> l2 < n2))"
proof (cases "k1 < n1 \<and> k2 < n2")
  case True
  then show ?thesis
    using product_pos_parts [of k1 n1 k2 n2] product_pos_parts [of l1 n1 l2 n2]
      product_pos_less [of n1 n2 k1 k2] product_pos_less [of n1 n2 l1 l2] by metis
next
  case False
  then show ?thesis using product_pos_less [of n1 n2 l1 l2] product_pos_le [of n1 n2 l1 l2]
    by (auto simp: product_pos_def [of n1 n2 k1 k2])
qed

lemma product_pos_begin: "product_pos n1 n2 0 0 = 0"
  by (auto simp: product_pos_def)

lemma product_pos_end: "product_pos n1 n2 n1 k2 = n1 * n2"
  by (simp add: product_pos_def)

text \<open>Advancing the second position, and the first when the second is at its end.\<close>

lemma product_pos_next:
  assumes "k1 < n1" and "k2 < n2"
  shows "(if Suc k2 = n2 then product_pos n1 n2 (Suc k1) 0 else product_pos n1 n2 k1 (Suc k2)) =
    Suc (product_pos n1 n2 k1 k2)"
proof (cases "Suc k2 = n2")
  case True
  then have "product_pos n1 n2 (Suc k1) 0 = Suc k1 * n2"
    using assms by (cases "Suc k1 = n1") (auto simp: product_pos_def)
  then show ?thesis using True assms by (simp add: product_pos_def)
next
  case False
  then show ?thesis using assms by (simp add: product_pos_def)
qed

lemma product_pos_nth:
  assumes "k1 < length xs" and "k2 < length ys"
  shows "List.product xs ys ! product_pos (length xs) (length ys) k1 k2 = (xs ! k1, ys ! k2)"
proof -
  have "product_pos (length xs) (length ys) k1 k2 < length xs * length ys"
    using assms by (simp add: product_pos_less)
  then show ?thesis using product_pos_parts [OF assms] by (simp add: product_nth)
qed

section \<open>Products of two\<close>

definition product2_at ::
  "nat \<Rightarrow> ('i1 \<Rightarrow> nat \<Rightarrow> bool) \<Rightarrow> nat \<Rightarrow> ('i2 \<Rightarrow> nat \<Rightarrow> bool) \<Rightarrow> nat \<Rightarrow>
     ('i1, 'i2, 'a1, 'a2) product2_iterator \<Rightarrow> nat \<Rightarrow> nat \<Rightarrow> bool" where
  "product2_at addr p1 n1 p2 n2 it k1 k2 \<longleftrightarrow>
     j2_base it = addr \<and>
     p1 (j2_begin1 it) 0 \<and> p1 (j2_end1 it) n1 \<and> p1 (j2_current1 it) k1 \<and>
     p2 (j2_begin2 it) 0 \<and> p2 (j2_end2 it) n2 \<and> p2 (j2_current2 it) k2"

definition product2_points ::
  "nat \<Rightarrow> ('i1 \<Rightarrow> nat \<Rightarrow> bool) \<Rightarrow> 'a1 list \<Rightarrow> ('i2 \<Rightarrow> nat \<Rightarrow> bool) \<Rightarrow> 'a2 list \<Rightarrow>
     ('i1, 'i2, 'a1, 'a2) product2_iterator \<Rightarrow> nat \<Rightarrow> bool" where
  "product2_points addr p1 xs p2 ys it k \<longleftrightarrow>
     (\<exists>k1 k2. product2_at addr p1 (length xs) p2 (length ys) it k1 k2 \<and>
        k = product_pos (length xs) (length ys) k1 k2 \<and>
        (k1 < length xs \<and> k2 < length ys \<longrightarrow> j2_value it = (xs ! k1, ys ! k2)))"

locale param_pair =
  s1: param_sequence c1 g1 xs p1 + s2: param_sequence c2 g2 ys p2
  for c1 :: "('g1, 'i1, 'a1) param_class" and g1 xs p1
    and c2 :: "('g2, 'i2, 'a2) param_class" and g2 ys p2 +
  fixes addr :: nat and dflt :: "'a1 \<times> 'a2"
begin

abbreviation "pair_at \<equiv> product2_at addr p1 (length xs) p2 (length ys)"
abbreviation "pair_points \<equiv> product2_points addr p1 xs p2 ys"

lemma at_end:
  assumes "pair_at it k1 k2"
  shows "product2_AtEnd c1 c2 it = Inr (\<not> (k1 < length xs \<and> k2 < length ys))"
proof -
  have "k1 \<le> length xs" "k2 \<le> length ys"
    using assms s1.points_bound s2.points_bound by (auto simp: product2_at_def)
  moreover have "iterator_eq c1 (j2_current1 it) (j2_end1 it) = Inr (k1 = length xs)"
    "iterator_eq c2 (j2_current2 it) (j2_end2 it) = Inr (k2 = length ys)"
    using assms by (auto simp: product2_at_def intro: s1.eq_points s2.eq_points)
  ultimately show ?thesis by (auto simp: product2_AtEnd_def)
qed

lemma compute:
  assumes "pair_at it k1 k2"
  shows "yields (product2_ComputeCurrentValue c1 c2 it)
    (\<lambda>j. pair_points j (product_pos (length xs) (length ys) k1 k2))"
proof (cases "k1 < length xs \<and> k2 < length ys")
  case True
  then have k: "k1 < length xs" "k2 < length ys" by auto
  have p: "p1 (j2_current1 it) k1" "p2 (j2_current2 it) k2" using assms by (auto simp: product2_at_def)
  obtain i1 where i1: "iterator_deref c1 (j2_current1 it) = Inr (xs ! k1, i1)" "p1 i1 k1"
    using s1.deref_points [OF p(1) k(1)] by (auto simp: yields_def)
  obtain i2 where i2: "iterator_deref c2 (j2_current2 it) = Inr (ys ! k2, i2)" "p2 i2 k2"
    using s2.deref_points [OF p(2) k(2)] by (auto simp: yields_def)
  have "pair_at (it\<lparr>j2_current1 := i1, j2_current2 := i2, j2_value := (xs ! k1, ys ! k2)\<rparr>) k1 k2"
    using assms i1 i2 by (simp add: product2_at_def)
  then show ?thesis
    using k by (auto simp: product2_ComputeCurrentValue_def at_end [OF assms] i1 i2 product2_points_def)
next
  case False
  then show ?thesis
    using assms by (auto simp: product2_ComputeCurrentValue_def at_end [OF assms] product2_points_def)
qed

lemma iterator_at:
  assumes "p1 i1 k1" and "p2 i2 k2"
  shows "yields (product2_Iterator c1 c2 dflt addr g1 i1 g2 i2)
    (\<lambda>j. pair_points j (product_pos (length xs) (length ys) k1 k2))"
  unfolding product2_Iterator_def
  by (rule yields_bind [OF s1.begin_points] yields_bind [OF s1.end_points]
      yields_bind [OF s1.copy_points [OF assms(1)]] yields_bind [OF s2.begin_points]
      yields_bind [OF s2.end_points] yields_bind [OF s2.copy_points [OF assms(2)]] compute)+
    (simp add: product2_at_def)

lemma begin_at: "yields (product2_Begin c1 c2 dflt \<lparr>p2_this = addr, p2_g1 = g1, p2_g2 = g2\<rparr>) (\<lambda>j. pair_points j 0)"
proof -
  obtain i1 i2 where "generator_begin (c1, g1) = Inr i1" "p1 i1 0" "generator_begin (c2, g2) = Inr i2" "p2 i2 0"
    using s1.begin_points s2.begin_points by (auto simp: yields_def)
  then show ?thesis using iterator_at [of i1 0 i2 0] by (simp add: product2_Begin_def product_pos_begin)
qed

lemma end_at: "yields (product2_End c1 c2 dflt \<lparr>p2_this = addr, p2_g1 = g1, p2_g2 = g2\<rparr>)
    (\<lambda>j. pair_points j (length (List.product xs ys)))"
proof -
  obtain i1 i2 where "generator_end (c1, g1) = Inr i1" "p1 i1 (length xs)"
    "generator_end (c2, g2) = Inr i2" "p2 i2 (length ys)"
    using s1.end_points s2.end_points by (auto simp: yields_def)
  then show ?thesis
    using iterator_at [of i1 "length xs" i2 "length ys"] by (simp add: product2_End_def product_pos_end)
qed

lemma clone_at:
  assumes "pair_at it k1 k2"
  shows "yields (product2_Clone c1 c2 dflt it)
    (\<lambda>j. pair_points j (product_pos (length xs) (length ys) k1 k2))"
proof -
  have p: "p1 (j2_begin1 it) 0" "p1 (j2_end1 it) (length xs)" "p1 (j2_current1 it) k1"
    "p2 (j2_begin2 it) 0" "p2 (j2_end2 it) (length ys)" "p2 (j2_current2 it) k2" "j2_base it = addr"
    using assms by (auto simp: product2_at_def)
  show ?thesis
    unfolding product2_Clone_def
    by (rule yields_bind [OF s1.copy_points [OF p(1)]] yields_bind [OF s1.copy_points [OF p(2)]]
        yields_bind [OF s1.copy_points [OF p(3)]] yields_bind [OF s2.copy_points [OF p(4)]]
        yields_bind [OF s2.copy_points [OF p(5)]] yields_bind [OF s2.copy_points [OF p(6)]] compute)+
      (simp add: product2_at_def p(7))
qed

lemma advance_at:
  assumes "pair_at it k1 k2" and "k1 < length xs" and "k2 < length ys"
  shows "yields (product2_Advance c1 c2 it)
    (\<lambda>j. pair_points j (Suc (product_pos (length xs) (length ys) k1 k2)))"
proof -
  have p: "p1 (j2_current1 it) k1" "p2 (j2_begin2 it) 0" "p2 (j2_end2 it) (length ys)" "p2 (j2_current2 it) k2"
    using assms by (auto simp: product2_at_def)
  obtain i2 where i2: "iterator_next c2 (j2_current2 it) = Inr i2" "p2 i2 (Suc k2)"
    using s2.next_points [OF p(4) assms(3)] by (auto simp: yields_def)
  obtain i1 where i1: "iterator_next c1 (j2_current1 it) = Inr i1" "p1 i1 (Suc k1)"
    using s1.next_points [OF p(1) assms(2)] by (auto simp: yields_def)
  obtain b2 where b2: "iterator_copy c2 (j2_begin2 it) = Inr b2" "p2 b2 0"
    using s2.copy_points [OF p(2)] by (auto simp: yields_def)
  have e: "iterator_eq c2 i2 (j2_end2 it) = Inr (Suc k2 = length ys)" using i2(2) p(3) by (rule s2.eq_points)
  let ?it = "if Suc k2 = length ys then it\<lparr>j2_current2 := b2, j2_current1 := i1\<rparr> else it\<lparr>j2_current2 := i2\<rparr>"
  let ?k1 = "if Suc k2 = length ys then Suc k1 else k1" and ?k2 = "if Suc k2 = length ys then 0 else Suc k2"
  have "pair_at ?it ?k1 ?k2" using assms(1) i1(2) i2(2) b2(2) by (simp add: product2_at_def)
  from compute [OF this] have "yields (product2_ComputeCurrentValue c1 c2 ?it)
      (\<lambda>j. pair_points j (Suc (product_pos (length xs) (length ys) k1 k2)))"
    using product_pos_next [OF assms(2,3)] by (simp split: if_splits)
  then show ?thesis
    using assms(2,3) by (simp add: product2_Advance_def at_end [OF assms(1)] i1(1) i2(1) b2(1) e split: if_splits)
qed

lemma equals_at:
  assumes "pair_at it k1 k2" and "pair_at j l1 l2"
  shows "product2_Equals c1 c2 it j =
    Inr (product_pos (length xs) (length ys) k1 k2 = product_pos (length xs) (length ys) l1 l2)"
proof -
  have "iterator_eq c1 (j2_current1 it) (j2_current1 j) = Inr (k1 = l1)"
    "iterator_eq c2 (j2_current2 it) (j2_current2 j) = Inr (k2 = l2)"
    using assms by (auto simp: product2_at_def intro: s1.eq_points s2.eq_points)
  moreover have "j2_base it = j2_base j" using assms by (simp add: product2_at_def)
  ultimately show ?thesis
    by (auto simp: product2_Equals_def at_end [OF assms(1)] at_end [OF assms(2)] product_pos_eq)
qed

end

sublocale param_pair \<subseteq> product: param_sequence "product2_class c1 c2 dflt"
  "\<lparr>p2_this = addr, p2_g1 = g1, p2_g2 = g2\<rparr>" "List.product xs ys" "product2_points addr p1 xs p2 ys"
proof
  fix it k assume it: "pair_points it k"
  then obtain k1 k2 where k: "pair_at it k1 k2" "k = product_pos (length xs) (length ys) k1 k2"
    and v: "k1 < length xs \<and> k2 < length ys \<longrightarrow> j2_value it = (xs ! k1, ys ! k2)"
    by (auto simp: product2_points_def)
  show "k \<le> length (List.product xs ys)" using product_pos_le by (simp add: k)
  show "yields (iterator_copy (product2_class c1 c2 dflt) it) (\<lambda>j. pair_points j k)"
    using clone_at [OF k(1)] by (simp add: k(2) interface_defs product2_class_def)
  fix j l assume "pair_points j l"
  then obtain l1 l2 where l: "pair_at j l1 l2" "l = product_pos (length xs) (length ys) l1 l2"
    by (auto simp: product2_points_def)
  show "iterator_eq (product2_class c1 c2 dflt) it j = Inr (k = l)"
    using equals_at [OF k(1) l(1)] by (simp add: k(2) l(2) interface_defs product2_class_def)
next
  fix it k assume it: "pair_points it k" and less: "k < length (List.product xs ys)"
  then obtain k1 k2 where k: "pair_at it k1 k2" "k = product_pos (length xs) (length ys) k1 k2"
    and v: "k1 < length xs \<and> k2 < length ys \<longrightarrow> j2_value it = (xs ! k1, ys ! k2)"
    by (auto simp: product2_points_def)
  have k12: "k1 < length xs" "k2 < length ys" using less by (simp_all add: k(2) product_pos_less)
  show "yields (iterator_next (product2_class c1 c2 dflt) it) (\<lambda>j. pair_points j (Suc k))"
    using advance_at [OF k(1) k12] by (simp add: k(2) interface_defs product2_class_def)
  show "yields (iterator_deref (product2_class c1 c2 dflt) it) (\<lambda>(x, j). x = List.product xs ys ! k \<and> pair_points j k)"
    using it v k12 by (simp add: k(2) product_pos_nth interface_defs product2_class_def product2_Current_def)
next
  show "yields (generator_begin (product2_class c1 c2 dflt, \<lparr>p2_this = addr, p2_g1 = g1, p2_g2 = g2\<rparr>)) (\<lambda>it. pair_points it 0)"
    using begin_at by (simp add: generator_begin_def product2_class_def)
  show "yields (generator_end (product2_class c1 c2 dflt, \<lparr>p2_this = addr, p2_g1 = g1, p2_g2 = g2\<rparr>))
      (\<lambda>it. pair_points it (length (List.product xs ys)))"
    using end_at by (simp add: generator_end_def product2_class_def)
qed

section \<open>Products of three\<close>

definition product3_pos :: "nat \<Rightarrow> nat \<Rightarrow> nat \<Rightarrow> nat \<Rightarrow> nat \<Rightarrow> nat \<Rightarrow> nat" where
  "product3_pos n1 n2 n3 k1 k2 k3 = product_pos n1 (n2 * n3) k1 (product_pos n2 n3 k2 k3)"

lemma product3_pos_less:
  "product3_pos n1 n2 n3 k1 k2 k3 < n1 * (n2 * n3) \<longleftrightarrow> k1 < n1 \<and> k2 < n2 \<and> k3 < n3"
  by (simp add: product3_pos_def product_pos_less)

lemma product3_pos_le: "product3_pos n1 n2 n3 k1 k2 k3 \<le> n1 * (n2 * n3)"
  by (simp add: product3_pos_def product_pos_le)

lemma product3_pos_eq:
  "product3_pos n1 n2 n3 k1 k2 k3 = product3_pos n1 n2 n3 l1 l2 l3 \<longleftrightarrow>
    (if k1 < n1 \<and> k2 < n2 \<and> k3 < n3 then k1 = l1 \<and> k2 = l2 \<and> k3 = l3
     else \<not> (l1 < n1 \<and> l2 < n2 \<and> l3 < n3))"
  by (auto simp: product3_pos_def product_pos_eq product_pos_less)

lemma product3_pos_begin: "product3_pos n1 n2 n3 0 0 0 = 0"
  by (simp add: product3_pos_def product_pos_begin)

lemma product3_pos_end: "product3_pos n1 n2 n3 n1 k2 k3 = n1 * (n2 * n3)"
  by (simp add: product3_pos_def product_pos_end)

lemma product3_pos_next:
  assumes "k1 < n1" and "k2 < n2" and "k3 < n3"
    and "k3' = (if Suc k3 = n3 then 0 else Suc k3)" and "k2' = (if Suc k3 = n3 then Suc k2 else k2)"
  shows "product3_pos n1 n2 n3 (if k2' = n2 then Suc k1 else k1) (if k2' = n2 then 0 else k2') k3' =
    Suc (product3_pos n1 n2 n3 k1 k2 k3)"
proof -
  let ?i = "product_pos n2 n3 k2 k3"
  have i: "?i < n2 * n3" using assms by (simp add: product_pos_less)
  have inner: "product_pos n2 n3 k2' k3' = Suc ?i"
    using product_pos_next [OF assms(2,3)] assms(4,5) by (simp split: if_splits)
  have zero: "k3' = 0" if "k2' = n2" using that assms by (simp split: if_splits)
  have "Suc ?i = n2 * n3 \<longleftrightarrow> k2' = n2"
    using inner assms product_pos_less [of n2 n3 k2' k3'] i by (auto simp: product_pos_end split: if_splits)
  then show ?thesis
    using product_pos_next [OF assms(1) i] inner zero
    by (auto simp: product3_pos_def product_pos_begin split: if_splits)
qed

lemma product3_pos_nth:
  assumes "k1 < length xs" and "k2 < length ys" and "k3 < length zs"
  shows "List.product xs (List.product ys zs) ! product3_pos (length xs) (length ys) (length zs) k1 k2 k3 =
    (xs ! k1, ys ! k2, zs ! k3)"
  using product_pos_nth [OF assms(1), of "product_pos (length ys) (length zs) k2 k3" "List.product ys zs"]
    product_pos_nth [OF assms(2,3)] assms
  by (simp add: product3_pos_def product_pos_less)

definition product3_at ::
  "nat \<Rightarrow> ('i1 \<Rightarrow> nat \<Rightarrow> bool) \<Rightarrow> nat \<Rightarrow> ('i2 \<Rightarrow> nat \<Rightarrow> bool) \<Rightarrow> nat \<Rightarrow> ('i3 \<Rightarrow> nat \<Rightarrow> bool) \<Rightarrow> nat \<Rightarrow>
     ('i1, 'i2, 'i3, 'a1, 'a2, 'a3) product3_iterator \<Rightarrow> nat \<Rightarrow> nat \<Rightarrow> nat \<Rightarrow> bool" where
  "product3_at addr p1 n1 p2 n2 p3 n3 it k1 k2 k3 \<longleftrightarrow>
     j3_base it = addr \<and>
     p1 (j3_begin1 it) 0 \<and> p1 (j3_end1 it) n1 \<and> p1 (j3_current1 it) k1 \<and>
     p2 (j3_begin2 it) 0 \<and> p2 (j3_end2 it) n2 \<and> p2 (j3_current2 it) k2 \<and>
     p3 (j3_begin3 it) 0 \<and> p3 (j3_end3 it) n3 \<and> p3 (j3_current3 it) k3"

definition product3_points ::
  "nat \<Rightarrow> ('i1 \<Rightarrow> nat \<Rightarrow> bool) \<Rightarrow> 'a1 list \<Rightarrow> ('i2 \<Rightarrow> nat \<Rightarrow> bool) \<Rightarrow> 'a2 list \<Rightarrow>
     ('i3 \<Rightarrow> nat \<Rightarrow> bool) \<Rightarrow> 'a3 list \<Rightarrow> ('i1, 'i2, 'i3, 'a1, 'a2, 'a3) product3_iterator \<Rightarrow> nat \<Rightarrow> bool" where
  "product3_points addr p1 xs p2 ys p3 zs it k \<longleftrightarrow>
     (\<exists>k1 k2 k3. product3_at addr p1 (length xs) p2 (length ys) p3 (length zs) it k1 k2 k3 \<and>
        k = product3_pos (length xs) (length ys) (length zs) k1 k2 k3 \<and>
        (k1 < length xs \<and> k2 < length ys \<and> k3 < length zs \<longrightarrow> j3_value it = (xs ! k1, ys ! k2, zs ! k3)))"

locale param_triple =
  t1: param_sequence c1 g1 xs p1 + t2: param_sequence c2 g2 ys p2 + t3: param_sequence c3 g3 zs p3
  for c1 :: "('g1, 'i1, 'a1) param_class" and g1 xs p1
    and c2 :: "('g2, 'i2, 'a2) param_class" and g2 ys p2
    and c3 :: "('g3, 'i3, 'a3) param_class" and g3 zs p3 +
  fixes addr :: nat and dflt :: "'a1 \<times> 'a2 \<times> 'a3"
begin

abbreviation "triple_at \<equiv> product3_at addr p1 (length xs) p2 (length ys) p3 (length zs)"
abbreviation "triple_points \<equiv> product3_points addr p1 xs p2 ys p3 zs"
abbreviation "triple_pos \<equiv> product3_pos (length xs) (length ys) (length zs)"
abbreviation "inside k1 k2 k3 \<equiv> k1 < length xs \<and> k2 < length ys \<and> k3 < length zs"

lemma at_end:
  assumes "triple_at it k1 k2 k3"
  shows "product3_AtEnd c1 c2 c3 it = Inr (\<not> inside k1 k2 k3)"
proof -
  have "k1 \<le> length xs" "k2 \<le> length ys" "k3 \<le> length zs"
    using assms t1.points_bound t2.points_bound t3.points_bound by (auto simp: product3_at_def)
  moreover have "iterator_eq c1 (j3_current1 it) (j3_end1 it) = Inr (k1 = length xs)"
    "iterator_eq c2 (j3_current2 it) (j3_end2 it) = Inr (k2 = length ys)"
    "iterator_eq c3 (j3_current3 it) (j3_end3 it) = Inr (k3 = length zs)"
    using assms by (auto simp: product3_at_def intro: t1.eq_points t2.eq_points t3.eq_points)
  ultimately show ?thesis by (auto simp: product3_AtEnd_def)
qed

lemma compute:
  assumes "triple_at it k1 k2 k3"
  shows "yields (product3_ComputeCurrentValue c1 c2 c3 it) (\<lambda>j. triple_points j (triple_pos k1 k2 k3))"
proof (cases "inside k1 k2 k3")
  case True
  then have k: "k1 < length xs" "k2 < length ys" "k3 < length zs" by auto
  have p: "p1 (j3_current1 it) k1" "p2 (j3_current2 it) k2" "p3 (j3_current3 it) k3"
    using assms by (auto simp: product3_at_def)
  obtain i1 where i1: "iterator_deref c1 (j3_current1 it) = Inr (xs ! k1, i1)" "p1 i1 k1"
    using t1.deref_points [OF p(1) k(1)] by (auto simp: yields_def)
  obtain i2 where i2: "iterator_deref c2 (j3_current2 it) = Inr (ys ! k2, i2)" "p2 i2 k2"
    using t2.deref_points [OF p(2) k(2)] by (auto simp: yields_def)
  obtain i3 where i3: "iterator_deref c3 (j3_current3 it) = Inr (zs ! k3, i3)" "p3 i3 k3"
    using t3.deref_points [OF p(3) k(3)] by (auto simp: yields_def)
  have "triple_at (it\<lparr>j3_current1 := i1, j3_current2 := i2, j3_current3 := i3,
      j3_value := (xs ! k1, ys ! k2, zs ! k3)\<rparr>) k1 k2 k3"
    using assms i1 i2 i3 by (simp add: product3_at_def)
  then show ?thesis
    using k by (auto simp: product3_ComputeCurrentValue_def at_end [OF assms] i1 i2 i3 product3_points_def)
next
  case False
  then show ?thesis
    using assms by (auto simp: product3_ComputeCurrentValue_def at_end [OF assms] product3_points_def)
qed

lemma iterator_at:
  assumes "p1 i1 k1" and "p2 i2 k2" and "p3 i3 k3"
  shows "yields (product3_Iterator c1 c2 c3 dflt addr g1 i1 g2 i2 g3 i3) (\<lambda>j. triple_points j (triple_pos k1 k2 k3))"
  unfolding product3_Iterator_def
  by (rule yields_bind [OF t1.begin_points] yields_bind [OF t1.end_points]
      yields_bind [OF t1.copy_points [OF assms(1)]] yields_bind [OF t2.begin_points]
      yields_bind [OF t2.end_points] yields_bind [OF t2.copy_points [OF assms(2)]]
      yields_bind [OF t3.begin_points] yields_bind [OF t3.end_points]
      yields_bind [OF t3.copy_points [OF assms(3)]] compute)+
    (simp add: product3_at_def)

lemma begin_at:
  "yields (product3_Begin c1 c2 c3 dflt \<lparr>p3_this = addr, p3_g1 = g1, p3_g2 = g2, p3_g3 = g3\<rparr>) (\<lambda>j. triple_points j 0)"
proof -
  obtain i1 i2 i3 where "generator_begin (c1, g1) = Inr i1" "p1 i1 0" "generator_begin (c2, g2) = Inr i2" "p2 i2 0"
    "generator_begin (c3, g3) = Inr i3" "p3 i3 0"
    using t1.begin_points t2.begin_points t3.begin_points by (auto simp: yields_def)
  then show ?thesis using iterator_at [of i1 0 i2 0 i3 0] by (simp add: product3_Begin_def product3_pos_begin)
qed

lemma end_at: "yields (product3_End c1 c2 c3 dflt \<lparr>p3_this = addr, p3_g1 = g1, p3_g2 = g2, p3_g3 = g3\<rparr>)
    (\<lambda>j. triple_points j (length (List.product xs (List.product ys zs))))"
proof -
  obtain i1 i2 i3 where "generator_end (c1, g1) = Inr i1" "p1 i1 (length xs)"
    "generator_end (c2, g2) = Inr i2" "p2 i2 (length ys)" "generator_end (c3, g3) = Inr i3" "p3 i3 (length zs)"
    using t1.end_points t2.end_points t3.end_points by (auto simp: yields_def)
  then show ?thesis
    using iterator_at [of i1 "length xs" i2 "length ys" i3 "length zs"]
    by (simp add: product3_End_def product3_pos_end)
qed

lemma clone_at:
  assumes "triple_at it k1 k2 k3"
  shows "yields (product3_Clone c1 c2 c3 dflt it) (\<lambda>j. triple_points j (triple_pos k1 k2 k3))"
proof -
  have p: "p1 (j3_begin1 it) 0" "p1 (j3_end1 it) (length xs)" "p1 (j3_current1 it) k1"
    "p2 (j3_begin2 it) 0" "p2 (j3_end2 it) (length ys)" "p2 (j3_current2 it) k2"
    "p3 (j3_begin3 it) 0" "p3 (j3_end3 it) (length zs)" "p3 (j3_current3 it) k3" "j3_base it = addr"
    using assms by (auto simp: product3_at_def)
  show ?thesis
    unfolding product3_Clone_def
    by (rule yields_bind [OF t1.copy_points [OF p(1)]] yields_bind [OF t1.copy_points [OF p(2)]]
        yields_bind [OF t1.copy_points [OF p(3)]] yields_bind [OF t2.copy_points [OF p(4)]]
        yields_bind [OF t2.copy_points [OF p(5)]] yields_bind [OF t2.copy_points [OF p(6)]]
        yields_bind [OF t3.copy_points [OF p(7)]] yields_bind [OF t3.copy_points [OF p(8)]]
        yields_bind [OF t3.copy_points [OF p(9)]] compute)+
      (simp add: product3_at_def p(10))
qed

lemma advance_at:
  assumes "triple_at it k1 k2 k3" and "k1 < length xs" and "k2 < length ys" and "k3 < length zs"
  shows "yields (product3_Advance c1 c2 c3 it) (\<lambda>j. triple_points j (Suc (triple_pos k1 k2 k3)))"
proof -
  have p: "p1 (j3_current1 it) k1" "p2 (j3_begin2 it) 0" "p2 (j3_end2 it) (length ys)" "p2 (j3_current2 it) k2"
    "p3 (j3_begin3 it) 0" "p3 (j3_end3 it) (length zs)" "p3 (j3_current3 it) k3"
    using assms by (auto simp: product3_at_def)
  obtain i3 where i3: "iterator_next c3 (j3_current3 it) = Inr i3" "p3 i3 (Suc k3)"
    using t3.next_points [OF p(7) assms(4)] by (auto simp: yields_def)
  obtain i2 where i2: "iterator_next c2 (j3_current2 it) = Inr i2" "p2 i2 (Suc k2)"
    using t2.next_points [OF p(4) assms(3)] by (auto simp: yields_def)
  obtain i1 where i1: "iterator_next c1 (j3_current1 it) = Inr i1" "p1 i1 (Suc k1)"
    using t1.next_points [OF p(1) assms(2)] by (auto simp: yields_def)
  obtain b3 where b3: "iterator_copy c3 (j3_begin3 it) = Inr b3" "p3 b3 0"
    using t3.copy_points [OF p(5)] by (auto simp: yields_def)
  obtain b2 where b2: "iterator_copy c2 (j3_begin2 it) = Inr b2" "p2 b2 0"
    using t2.copy_points [OF p(2)] by (auto simp: yields_def)
  have e3: "iterator_eq c3 i3 (j3_end3 it) = Inr (Suc k3 = length zs)" using i3(2) p(6) by (rule t3.eq_points)
  define it1 where "it1 = (if Suc k3 = length zs then it\<lparr>j3_current3 := b3, j3_current2 := i2\<rparr> else it\<lparr>j3_current3 := i3\<rparr>)"
  define k2' where "k2' = (if Suc k3 = length zs then Suc k2 else k2)"
  define k3' where "k3' = (if Suc k3 = length zs then 0 else Suc k3)"
  have at1: "triple_at it1 k1 k2' k3'"
    using assms(1) i2(2) i3(2) b3(2) by (simp add: product3_at_def it1_def k2'_def k3'_def)
  have same: "j3_current1 it1 = j3_current1 it" "j3_begin2 it1 = j3_begin2 it" by (simp_all add: it1_def)
  have e2: "iterator_eq c2 (j3_current2 it1) (j3_end2 it1) = Inr (k2' = length ys)"
    using at1 by (auto simp: product3_at_def intro: t2.eq_points)
  have step1: "(if Suc k3 = length zs then bind_res (iterator_copy c3 (j3_begin3 it)) (\<lambda>b3.
        bind_res (iterator_next c2 (j3_current2 it)) (\<lambda>i2. Inr (it\<lparr>j3_current3 := b3, j3_current2 := i2\<rparr>)))
      else Inr (it\<lparr>j3_current3 := i3\<rparr>)) = Inr it1"
    by (simp add: it1_def b3(1) i2(1))
  define it2 where "it2 = (if k2' = length ys then it1\<lparr>j3_current2 := b2, j3_current1 := i1\<rparr> else it1)"
  have "triple_at it2 (if k2' = length ys then Suc k1 else k1) (if k2' = length ys then 0 else k2') k3'"
    using at1 i1(2) b2(2) by (simp add: product3_at_def it2_def)
  from compute [OF this] have "yields (product3_ComputeCurrentValue c1 c2 c3 it2)
      (\<lambda>j. triple_points j (Suc (triple_pos k1 k2 k3)))"
    by (simp only: product3_pos_next [OF assms(2-4) k3'_def k2'_def])
  moreover have "product3_Advance c1 c2 c3 it = product3_ComputeCurrentValue c1 c2 c3 it2"
  proof -
    have "product3_Advance c1 c2 c3 it =
        bind_res (iterator_eq c2 (j3_current2 it1) (j3_end2 it1)) (\<lambda>e2. bind_res
          (if e2 then bind_res (iterator_copy c2 (j3_begin2 it1)) (\<lambda>b2.
             bind_res (iterator_next c1 (j3_current1 it1)) (\<lambda>i1.
               Inr (it1\<lparr>j3_current2 := b2, j3_current1 := i1\<rparr>)))
           else Inr it1) (product3_ComputeCurrentValue c1 c2 c3))"
      using assms(2-4) by (simp add: product3_Advance_def at_end [OF assms(1)] i3(1) e3 step1)
    then show ?thesis by (simp add: e2 same b2(1) i1(1) it2_def)
  qed
  ultimately show ?thesis by simp
qed

lemma equals_at:
  assumes "triple_at it k1 k2 k3" and "triple_at j l1 l2 l3"
  shows "product3_Equals c1 c2 c3 it j = Inr (triple_pos k1 k2 k3 = triple_pos l1 l2 l3)"
proof -
  have "iterator_eq c1 (j3_current1 it) (j3_current1 j) = Inr (k1 = l1)"
    "iterator_eq c2 (j3_current2 it) (j3_current2 j) = Inr (k2 = l2)"
    "iterator_eq c3 (j3_current3 it) (j3_current3 j) = Inr (k3 = l3)"
    using assms by (auto simp: product3_at_def intro: t1.eq_points t2.eq_points t3.eq_points)
  moreover have "j3_base it = j3_base j" using assms by (simp add: product3_at_def)
  ultimately show ?thesis
    by (auto simp: product3_Equals_def at_end [OF assms(1)] at_end [OF assms(2)] product3_pos_eq)
qed

end

sublocale param_triple \<subseteq> product: param_sequence "product3_class c1 c2 c3 dflt"
  "\<lparr>p3_this = addr, p3_g1 = g1, p3_g2 = g2, p3_g3 = g3\<rparr>" "List.product xs (List.product ys zs)"
  "product3_points addr p1 xs p2 ys p3 zs"
proof
  fix it k assume it: "triple_points it k"
  then obtain k1 k2 k3 where k: "triple_at it k1 k2 k3" "k = triple_pos k1 k2 k3"
    by (auto simp: product3_points_def)
  show "k \<le> length (List.product xs (List.product ys zs))" using product3_pos_le by (simp add: k)
  show "yields (iterator_copy (product3_class c1 c2 c3 dflt) it) (\<lambda>j. triple_points j k)"
    using clone_at [OF k(1)] by (simp add: k(2) interface_defs product3_class_def)
  fix j l assume "triple_points j l"
  then obtain l1 l2 l3 where l: "triple_at j l1 l2 l3" "l = triple_pos l1 l2 l3"
    by (auto simp: product3_points_def)
  show "iterator_eq (product3_class c1 c2 c3 dflt) it j = Inr (k = l)"
    using equals_at [OF k(1) l(1)] by (simp add: k(2) l(2) interface_defs product3_class_def)
next
  fix it k assume it: "triple_points it k" and less: "k < length (List.product xs (List.product ys zs))"
  then obtain k1 k2 k3 where k: "triple_at it k1 k2 k3" "k = triple_pos k1 k2 k3"
    and v: "inside k1 k2 k3 \<longrightarrow> j3_value it = (xs ! k1, ys ! k2, zs ! k3)"
    by (auto simp: product3_points_def)
  have k123: "k1 < length xs" "k2 < length ys" "k3 < length zs" using less by (simp_all add: k(2) product3_pos_less)
  show "yields (iterator_next (product3_class c1 c2 c3 dflt) it) (\<lambda>j. triple_points j (Suc k))"
    using advance_at [OF k(1) k123] by (simp add: k(2) interface_defs product3_class_def)
  show "yields (iterator_deref (product3_class c1 c2 c3 dflt) it)
      (\<lambda>(x, j). x = List.product xs (List.product ys zs) ! k \<and> triple_points j k)"
    using it v k123 by (simp add: k(2) product3_pos_nth interface_defs product3_class_def product3_Current_def)
next
  show "yields (generator_begin (product3_class c1 c2 c3 dflt,
      \<lparr>p3_this = addr, p3_g1 = g1, p3_g2 = g2, p3_g3 = g3\<rparr>)) (\<lambda>it. triple_points it 0)"
    using begin_at by (simp add: generator_begin_def product3_class_def)
  show "yields (generator_end (product3_class c1 c2 c3 dflt, \<lparr>p3_this = addr, p3_g1 = g1, p3_g2 = g2, p3_g3 = g3\<rparr>))
      (\<lambda>it. triple_points it (length (List.product xs (List.product ys zs))))"
    using end_at by (simp add: generator_end_def product3_class_def)
qed

context param_pair
begin

lemma generates_product:
  "generates (product2_class c1 c2 dflt, \<lparr>p2_this = addr, p2_g1 = g1, p2_g2 = g2\<rparr>) (List.product xs ys)"
  by (rule product.generates_elems)

end

context param_triple
begin

lemma generates_product:
  "generates (product3_class c1 c2 c3 dflt, \<lparr>p3_this = addr, p3_g1 = g1, p3_g2 = g2, p3_g3 = g3\<rparr>)
    (List.product xs (List.product ys zs))"
  by (rule product.generates_elems)

end

text \<open>The products of containers, as \<open>Combine(Values(...), Values(...))\<close> makes them.\<close>

interpretation container_pair: param_pair values_class g1 "vg_container g1" "values_points g1"
  values_class g2 "vg_container g2" "values_points g2" addr dflt for g1 g2 addr dflt
  by unfold_locales

interpretation container_triple: param_triple values_class g1 "vg_container g1" "values_points g1"
  values_class g2 "vg_container g2" "values_points g2" values_class g3 "vg_container g3" "values_points g3"
  addr dflt for g1 g2 g3 addr dflt
  by unfold_locales

section \<open>The sequence of a product\<close>

lemma Combine2_generates:
  assumes "generates gen1 xs" and "generates gen2 ys"
  shows "generates (Combine2 dflt addr gen1 gen2) (List.product xs ys)"
proof -
  obtain p1 p2 where "param_sequence (fst gen1) (snd gen1) xs p1" "param_sequence (fst gen2) (snd gen2) ys p2"
    using assms by (auto simp: generates_def)
  then have "param_pair (fst gen1) (snd gen1) xs p1 (fst gen2) (snd gen2) ys p2" by (rule param_pair.intro)
  from param_pair.generates_product [OF this] show ?thesis by (simp add: Combine2_def)
qed

lemma Combine3_generates:
  assumes "generates gen1 xs" and "generates gen2 ys" and "generates gen3 zs"
  shows "generates (Combine3 dflt addr gen1 gen2 gen3) (List.product xs (List.product ys zs))"
proof -
  obtain p1 p2 p3 where "param_sequence (fst gen1) (snd gen1) xs p1" "param_sequence (fst gen2) (snd gen2) ys p2"
    "param_sequence (fst gen3) (snd gen3) zs p3"
    using assms by (auto simp: generates_def)
  then have "param_triple (fst gen1) (snd gen1) xs p1 (fst gen2) (snd gen2) ys p2 (fst gen3) (snd gen3) zs p3"
    by (rule param_triple.intro)
  from param_triple.generates_product [OF this] show ?thesis by (simp add: Combine3_def)
qed

lemma product2_comprehension: "List.product xs ys = [(x, y). x \<leftarrow> xs, y \<leftarrow> ys]"
  by (simp add: product_concat_map)

lemma product3_comprehension:
  "List.product xs (List.product ys zs) = [(x, y, z). x \<leftarrow> xs, y \<leftarrow> ys, z \<leftarrow> zs]"
  by (simp add: product_concat_map map_concat o_def)

text \<open>
  C32. A loop over \<open>Combine\<close> of two or three generators visits every combination of their values exactly
  once, the last generator varying fastest, and ends; no component iterator is read or stepped beyond
  its end, also when a component is empty. The loop computes the fold of its body over that list.
\<close>

theorem Combine_enumerates:
  assumes "generates gen1 xs" and "generates gen2 ys" and "generates gen3 zs"
  shows "param_for (Combine2 dflt2 addr gen1 gen2) body2 s = Some (fold_params body2 0 [(x, y). x \<leftarrow> xs, y \<leftarrow> ys] s) \<and>
    param_for (Combine3 dflt3 addr gen1 gen2 gen3) body3 t =
      Some (fold_params body3 0 [(x, y, z). x \<leftarrow> xs, y \<leftarrow> ys, z \<leftarrow> zs] t)"
proof
  show "param_for (Combine2 dflt2 addr gen1 gen2) body2 s = Some (fold_params body2 0 [(x, y). x \<leftarrow> xs, y \<leftarrow> ys] s)"
    using assms(1,2) unfolding product2_comprehension [symmetric] by (intro generates_for Combine2_generates)
  show "param_for (Combine3 dflt3 addr gen1 gen2 gen3) body3 t =
      Some (fold_params body3 0 [(x, y, z). x \<leftarrow> xs, y \<leftarrow> ys, z \<leftarrow> zs] t)"
    using assms unfolding product3_comprehension [symmetric] by (intro generates_for Combine3_generates)
qed

theorem Combine_enumerates_witness:
  "\<exists>range. Range_generator_by_one 2 5 7 = Inr range \<and>
    param_for (Combine2 (0 :: nat, False) 3 (ValuesIn 1 [10, 20]) (Bool_generator 4)) (\<lambda>i v w acc. Inr (acc @ [(i, v)])) [] =
      Some (Inr [(0, 10, False), (1, 10, True), (2, 20, False), (3, 20, True)]) \<and>
    param_for (Combine3 (0 :: nat, False, 0) 3 (ValuesIn 1 [10, 20]) (Bool_generator 4) range) (\<lambda>i v w acc. Inr (acc @ [snd v])) [] =
      Some (Inr [(False, 5), (False, 6), (True, 5), (True, 6), (False, 5), (False, 6), (True, 5), (True, 6)])"
proof -
  obtain gen where gen: "Range_generator_by_one 2 5 7 = Inr gen" "generates gen [5, 6]"
    using end_index_int [of 5 7 1 0] range_steps_int [of 5 1 2]
      param_sequence.generates_elems [OF range_sequence, of "\<lparr>rg_this = 2, rg_type = range_int, rg_begin = 5, rg_end = 7,
        rg_step = 1, rg_end_index = 2\<rparr>" "[5, 6]"]
    by (simp add: Range_generator_by_one_def Range_generator_def RangeGenerator_def CalculateEndIndex_def range_count_def
      range_ok_def upt_rec)
  show ?thesis
    using gen(1) Combine_enumerates [OF ValuesIn_generates [of 1 "[10, 20]"] Bool_generates [of 4] gen(2),
      where addr = 3 and s = "[]" and t = "[]" and ?body2.0 = "\<lambda>i v w acc. Inr (acc @ [(i, v)])" and ?dflt2.0 = "(0, False)"
        and ?body3.0 = "\<lambda>i v w acc. Inr (acc @ [snd v])" and ?dflt3.0 = "(0, False, 0)"]
    by simp
qed

end
