(* ===== verification/Gtest_Param_Registry.thy ===== *)
theory Gtest_Param_Registry
  imports Gtest_Combine Gtest_Order Gtest_Printers
begin

text \<open>
  How value-parameterized tests become tests (\<open>gtest-param-util.h\<close>, \<open>gtest-param-test.h\<close>): the
  registry that \<open>TEST_P\<close> and \<open>INSTANTIATE_TEST_CASE_P\<close> fill, the loops that register a test for each
  test, instantiation and parameter, and the factory that gives a test its parameter. The parameter
  types of all test cases are cases of one type \<open>'v\<close>; \<open>shown\<close> is a parameter as the universal printer
  sees it. Test classes, fixtures, parameter types and functions are numbers, a factory is its
  position among the factories the program has made.
\<close>

section \<open>Factories\<close>

text \<open>\<open>ParameterizedTestFactory\<close> has the class of the test, its \<open>ParamType\<close> and the parameter.\<close>

datatype 'v test_factory = TestFactoryImpl nat | ParameterizedTestFactory nat nat 'v

text \<open>The static \<open>WithParamInterface<T>::parameter_\<close> of each parameter type.\<close>

type_synonym 'v parameters = "nat \<Rightarrow> 'v option"

definition SetParam :: "nat \<Rightarrow> 'v \<Rightarrow> 'v parameters \<Rightarrow> 'v parameters" where
  "SetParam param_type parameter ps = ps(param_type := Some parameter)"

definition GetParam :: "nat \<Rightarrow> 'v parameters \<Rightarrow> 'v res" where
  "GetParam param_type ps = (case ps param_type of None \<Rightarrow> Inl AssertionFailure | Some p \<Rightarrow> Inr p)"

text \<open>The class of the new test, and the parameters.\<close>

definition CreateTest :: "'v test_factory \<Rightarrow> 'v parameters \<Rightarrow> nat \<times> 'v parameters" where
  "CreateTest f ps =
     (case f of
        TestFactoryImpl test_class \<Rightarrow> (test_class, ps)
      | ParameterizedTestFactory test_class param_type parameter \<Rightarrow>
          (test_class, SetParam param_type parameter ps))"

record meta_factory =
  mf_test_class :: nat
  mf_param_type :: nat

definition CreateTestFactory :: "meta_factory \<Rightarrow> 'v \<Rightarrow> 'v test_factory" where
  "CreateTestFactory m parameter = ParameterizedTestFactory (mf_test_class m) (mf_param_type m) parameter"

section \<open>Parameterized test cases\<close>

text \<open>The template argument \<open>TestCase\<close>: its type and its two static functions.\<close>

record fixture =
  fx_type_id :: nat
  fx_set_up :: nat
  fx_tear_down :: nat

record pattern_info =
  test_case_base_name :: string
  test_base_name :: string
  test_meta_factory :: meta_factory

text \<open>
  An instantiation has its name and what its \<open>GeneratorCreationFunc\<close> returns when it is called.
\<close>

record ('g, 'i, 'v) param_case_info =
  pc_test_case_name :: string
  pc_fixture :: fixture
  pc_tests :: "pattern_info list"
  pc_instantiations :: "(string \<times> ('g, 'i, 'v) param_generator res) list"

definition ParameterizedTestCaseInfo :: "fixture \<Rightarrow> string \<Rightarrow> ('g, 'i, 'v) param_case_info" where
  "ParameterizedTestCaseInfo fx name =
     \<lparr>pc_test_case_name = name, pc_fixture = fx, pc_tests = [], pc_instantiations = []\<rparr>"

definition AddTestPattern ::
  "string \<Rightarrow> string \<Rightarrow> meta_factory \<Rightarrow> ('g, 'i, 'v) param_case_info \<Rightarrow> ('g, 'i, 'v) param_case_info" where
  "AddTestPattern case_name' base_name m info = info\<lparr>pc_tests := pc_tests info @
     [\<lparr>test_case_base_name = case_name', test_base_name = base_name, test_meta_factory = m\<rparr>]\<rparr>"

definition AddTestCaseInstantiation ::
  "string \<Rightarrow> ('g, 'i, 'v) param_generator res \<Rightarrow> ('g, 'i, 'v) param_case_info \<Rightarrow> ('g, 'i, 'v) param_case_info" where
  "AddTestCaseInstantiation name func info = info\<lparr>pc_instantiations := pc_instantiations info @ [(name, func)]\<rparr>"

section \<open>The registry\<close>

definition ReportInvalidTestCaseType :: "string \<Rightarrow> string \<Rightarrow> int \<Rightarrow> string" where
  "ReportInvalidTestCaseType name source line =
     c_str (FormatFileLocation (Some source) line) @ '' '' @
     c_str (''Attempted redefinition of test case '' @ name @ ''.'' @ [LF] @
       ''All tests in the same test case must use the same test fixture'' @ [LF] @
       ''class.  However, in test case '' @ name @ '', you tried'' @ [LF] @
       ''to define a test using a fixture class different from the one'' @ [LF] @
       ''used earlier. This can happen if the two fixture classes are'' @ [LF] @
       ''from different namespaces and have the same name. You should'' @ [LF] @
       ''probably rename one of the classes to put the tests into different'' @ [LF] @
       ''test cases.'')"

text \<open>
  The position of the information about the test case, which is made when it is not there; a test
  case with another fixture is reported and ends the program.
\<close>

fun find_pattern_holder ::
  "fixture \<Rightarrow> string \<Rightarrow> string \<Rightarrow> int \<Rightarrow> ('g, 'i, 'v) param_case_info list \<Rightarrow> nat option or_exit" where
  "find_pattern_holder fx name source line [] = Inr None"
| "find_pattern_holder fx name source line (info # infos) =
     (if pc_test_case_name info = name then
        (if fx_type_id (pc_fixture info) \<noteq> fx_type_id fx then Inl (ReportInvalidTestCaseType name source line)
         else Inr (Some 0))
      else
        (case find_pattern_holder fx name source line infos of
           Inl out \<Rightarrow> Inl out
         | Inr r \<Rightarrow> Inr (map_option Suc r)))"

definition GetTestCasePatternHolder ::
  "fixture \<Rightarrow> string \<Rightarrow> string \<Rightarrow> int \<Rightarrow> ('g, 'i, 'v) param_case_info list \<Rightarrow>
     (nat \<times> ('g, 'i, 'v) param_case_info list) or_exit" where
  "GetTestCasePatternHolder fx name source line infos =
     (case find_pattern_holder fx name source line infos of
        Inl out \<Rightarrow> Inl out
      | Inr None \<Rightarrow> Inr (length infos, infos @ [ParameterizedTestCaseInfo fx name])
      | Inr (Some k) \<Rightarrow> Inr (k, infos))"

text \<open>The macros \<open>TEST_P\<close> and \<open>INSTANTIATE_TEST_CASE_P\<close>, in the order the program initialises them.\<close>

datatype ('g, 'i, 'v) param_declaration =
    Test_P fixture string string meta_factory string int
  | Instantiate_Test_Case_P fixture string string "('g, 'i, 'v) param_generator res" string int

definition declare_one ::
  "('g, 'i, 'v) param_declaration \<Rightarrow> ('g, 'i, 'v) param_case_info list \<Rightarrow> ('g, 'i, 'v) param_case_info list or_exit" where
  "declare_one d infos =
     (case d of
        Test_P fx case_name' test_name m source line \<Rightarrow>
          (case GetTestCasePatternHolder fx case_name' source line infos of
             Inl out \<Rightarrow> Inl out
           | Inr (k, infos') \<Rightarrow> Inr (infos'[k := AddTestPattern case_name' test_name m (infos' ! k)]))
      | Instantiate_Test_Case_P fx prefix case_name' generator source line \<Rightarrow>
          (case GetTestCasePatternHolder fx case_name' source line infos of
             Inl out \<Rightarrow> Inl out
           | Inr (k, infos') \<Rightarrow> Inr (infos'[k := AddTestCaseInstantiation prefix generator (infos' ! k)])))"

fun declare_all ::
  "('g, 'i, 'v) param_declaration list \<Rightarrow> ('g, 'i, 'v) param_case_info list \<Rightarrow> ('g, 'i, 'v) param_case_info list or_exit" where
  "declare_all [] infos = Inr infos"
| "declare_all (d # ds) infos =
     (case declare_one d infos of Inl out \<Rightarrow> Inl out | Inr infos' \<Rightarrow> declare_all ds infos')"

section \<open>Registering the tests\<close>

record 'v param_unit =
  pu_unit :: unit_test
  pu_factories :: "'v test_factory list"

text \<open>One loop after another, when the first has ended and gone wrong nowhere.\<close>

definition then_loop :: "'a res option \<Rightarrow> ('a \<Rightarrow> 'b res option) \<Rightarrow> 'b res option" where
  "then_loop m f = (case m of None \<Rightarrow> None | Some r \<Rightarrow> (case r of Inl e \<Rightarrow> Some (Inl e) | Inr x \<Rightarrow> f x))"

definition register_param ::
  "string \<Rightarrow> ('v \<Rightarrow> cpp_value) \<Rightarrow> fixture \<Rightarrow> pattern_info \<Rightarrow> string \<Rightarrow> int \<Rightarrow> 'v \<Rightarrow> 'v \<Rightarrow>
     'v param_unit \<Rightarrow> 'v param_unit res" where
  "register_param cwd shown fx test_info' test_case_name i v w st =
     bind_res (PrintToString (shown v)) (\<lambda>printed.
     bind_res
       (MakeAndRegisterTestInfo cwd (c_str test_case_name)
          (c_str (test_base_name test_info' @ ''/'' @ dec_of_int i)) None (Some (c_str printed))
          (fx_type_id fx) (fx_set_up fx) (fx_tear_down fx) (length (pu_factories st)) (pu_unit st)) (\<lambda>u.
       Inr (st\<lparr>pu_unit := u, pu_factories := pu_factories st @ [CreateTestFactory (test_meta_factory test_info') w]\<rparr>)))"

definition instantiated_case_name :: "string \<Rightarrow> pattern_info \<Rightarrow> string" where
  "instantiated_case_name instantiation_name test_info' =
     (if instantiation_name \<noteq> [] then instantiation_name @ ''/'' else []) @ test_case_base_name test_info'"

fun register_instantiations ::
  "string \<Rightarrow> ('v \<Rightarrow> cpp_value) \<Rightarrow> fixture \<Rightarrow> pattern_info \<Rightarrow>
     (string \<times> ('g, 'i, 'v) param_generator res) list \<Rightarrow> 'v param_unit \<Rightarrow> 'v param_unit res option" where
  "register_instantiations cwd shown fx test_info' [] st = Some (Inr st)"
| "register_instantiations cwd shown fx test_info' ((instantiation_name, func) # insts) st =
     then_loop
       (case func of
          Inl e \<Rightarrow> Some (Inl e)
        | Inr generator \<Rightarrow>
            param_for generator
              (register_param cwd shown fx test_info' (instantiated_case_name instantiation_name test_info')) st)
       (register_instantiations cwd shown fx test_info' insts)"

fun register_tests ::
  "string \<Rightarrow> ('v \<Rightarrow> cpp_value) \<Rightarrow> fixture \<Rightarrow> (string \<times> ('g, 'i, 'v) param_generator res) list \<Rightarrow>
     pattern_info list \<Rightarrow> 'v param_unit \<Rightarrow> 'v param_unit res option" where
  "register_tests cwd shown fx insts [] st = Some (Inr st)"
| "register_tests cwd shown fx insts (test_info' # tests) st =
     then_loop (register_instantiations cwd shown fx test_info' insts st) (register_tests cwd shown fx insts tests)"

definition case_RegisterTests ::
  "string \<Rightarrow> ('v \<Rightarrow> cpp_value) \<Rightarrow> ('g, 'i, 'v) param_case_info \<Rightarrow> 'v param_unit \<Rightarrow> 'v param_unit res option" where
  "case_RegisterTests cwd shown info st =
     register_tests cwd shown (pc_fixture info) (pc_instantiations info) (pc_tests info) st"

fun registry_RegisterTests ::
  "string \<Rightarrow> ('v \<Rightarrow> cpp_value) \<Rightarrow> ('g, 'i, 'v) param_case_info list \<Rightarrow> 'v param_unit \<Rightarrow> 'v param_unit res option" where
  "registry_RegisterTests cwd shown [] st = Some (Inr st)"
| "registry_RegisterTests cwd shown (info # infos) st =
     then_loop (case_RegisterTests cwd shown info st) (registry_RegisterTests cwd shown infos)"

text \<open>Done once: the flag is \<open>parameterized_tests_registered_\<close>.\<close>

definition RegisterParameterizedTests ::
  "string \<Rightarrow> ('v \<Rightarrow> cpp_value) \<Rightarrow> ('g, 'i, 'v) param_case_info list \<Rightarrow> bool \<times> 'v param_unit \<Rightarrow>
     (bool \<times> 'v param_unit) res option" where
  "RegisterParameterizedTests cwd shown infos st =
     (if \<not> fst st then
        then_loop (registry_RegisterTests cwd shown infos (snd st)) (\<lambda>st'. Some (Inr (True, st')))
      else Some (Inr st))"

end
