(* ===== verification/Gtest_Param_Tests.thy ===== *)
theory Gtest_Param_Tests
  imports Gtest_Param_Registry
begin

text \<open>
  What the registration of parameterized tests gives: whatever the order in which \<open>TEST_P\<close> and
  \<open>INSTANTIATE_TEST_CASE_P\<close> are initialised, every test of a case is registered once for each
  instantiation of the case and each value of its generator, with its own name and a factory that
  holds the value.
\<close>

section \<open>The tests of a case\<close>

definition tests_of :: "string \<Rightarrow> unit_test \<Rightarrow> test_info list" where
  "tests_of name u = (case find_test_case name (test_cases u) of None \<Rightarrow> [] | Some k \<Rightarrow> test_info_list (test_cases u ! k))"

definition death_fits :: "unit_test \<Rightarrow> bool" where
  "death_fits u \<longleftrightarrow> - 1 \<le> last_death_test_case u \<and> last_death_test_case u < int (length (test_cases u))"

lemma unit_ok_death_fits: "unit_ok u \<Longrightarrow> death_fits u"
  by (simp add: unit_ok_def death_fits_def)

lemma find_test_case_append:
  "find_test_case n (cs @ ds) = (case find_test_case n cs of Some k \<Rightarrow> Some k
    | None \<Rightarrow> map_option ((+) (length cs)) (find_test_case n ds))"
proof (induction cs)
  case Nil
  have "(+) (0 :: nat) = id" by auto
  then show ?case by (simp add: option.map_id)
next
  case (Cons c cs)
  have "Suc \<circ> (+) (length cs) = (+) (length (c # cs))" by auto
  then show ?case using Cons by (auto split: option.splits simp: option.map_comp)
qed

lemma find_test_case_insert:
  assumes "find_test_case (case_name c) cs = None" and "k \<le> length cs"
  shows "find_test_case n (take k cs @ [c] @ drop k cs) =
    (if n = case_name c then Some k
     else map_option (\<lambda>j. if j < k then j else Suc j) (find_test_case n cs))"
proof -
  have none: "find_test_case (case_name c) (take k cs) = None"
    using assms(1) by (auto simp: find_test_case_None dest: in_set_takeD)
  have split: "find_test_case n cs = (case find_test_case n (take k cs) of Some j \<Rightarrow> Some j
      | None \<Rightarrow> map_option ((+) (length (take k cs))) (find_test_case n (drop k cs)))"
    using find_test_case_append [of n "take k cs" "drop k cs"] by simp
  show ?thesis
  proof (cases "find_test_case n (take k cs)")
    case None
    then show ?thesis using none assms(2)
      by (auto simp: find_test_case_append split option.map_comp o_def split: option.splits)
  next
    case (Some j)
    then have "j < k" using find_test_case_Some [OF Some] by simp
    then show ?thesis using Some none by (auto simp: find_test_case_append split)
  qed
qed

lemma find_test_case_update:
  "case_name c = case_name (cs ! k) \<Longrightarrow> find_test_case n (cs[k := c]) = find_test_case n cs"
proof (induction cs arbitrary: k)
  case (Cons d cs)
  then show ?case by (cases k) auto
qed simp

lemma tests_of_GetTestCase:
  assumes "death_fits u" and "GetTestCase name p su td u = (k, u')"
  shows "tests_of n u' = tests_of n u" and "death_fits u'"
    and "k < length (test_cases u')" and "find_test_case name (test_cases u') = Some k"
proof -
  let ?d = "nat (last_death_test_case u + 1)" and ?c = "TestCase name p su td"
  have name: "case_name ?c = name" "test_info_list ?c = []" by (simp_all add: TestCase_def)
  have "tests_of n u' = tests_of n u \<and> death_fits u' \<and> k < length (test_cases u') \<and> find_test_case name (test_cases u') = Some k"
  proof (cases "find_test_case name (test_cases u)")
    case (Some j)
    then show ?thesis using assms find_test_case_Some [OF Some] by (auto simp: GetTestCase_def)
  next
    case None
    define j where "j = (if is_death_test_case name then ?d else length (test_cases u))"
    have j: "j \<le> length (test_cases u)" using assms(1) by (auto simp: j_def death_fits_def)
    have cases': "test_cases u' = take j (test_cases u) @ [?c] @ drop j (test_cases u)" "k = j"
      and death: "last_death_test_case u' = last_death_test_case u + of_bool (is_death_test_case name)"
      using assms(2) None by (auto simp: GetTestCase_def Let_def j_def split: if_splits)
    have find: "find_test_case m (test_cases u') =
        (if m = name then Some j else map_option (\<lambda>i. if i < j then i else Suc i) (find_test_case m (test_cases u)))" for m
      using find_test_case_insert [of ?c "test_cases u" j m] None j by (simp add: cases' name)
    have len: "length (test_cases u') = Suc (length (test_cases u))" using j by (simp add: cases')
    have "tests_of n u' = tests_of n u"
    proof (cases "n = name")
      case True
      then have "tests_of n u' = test_info_list (test_cases u' ! j)" by (simp add: tests_of_def find)
      also have "\<dots> = []" using j by (simp add: cases' nth_append name)
      finally show ?thesis using None True by (simp add: tests_of_def)
    next
      case False
      have "test_cases u' ! (if i < j then i else Suc i) = test_cases u ! i" if "i < length (test_cases u)" for i
        using that j by (auto simp: cases' nth_append nth_Cons' min_def)
      then show ?thesis using False find_test_case_Some [of n "test_cases u"]
        by (auto simp: tests_of_def find split: option.splits)
    qed
    then show ?thesis using assms(1) j len death by (auto simp: death_fits_def find cases'(2))
  qed
  then show "tests_of n u' = tests_of n u" "death_fits u'"
    "k < length (test_cases u')" "find_test_case name (test_cases u') = Some k" by auto
qed

lemma tests_of_AddTestInfo:
  assumes "death_fits u" and "cwd \<noteq> []"
  shows "\<exists>u'. AddTestInfo cwd su td t u = Inr u' \<and> death_fits u' \<and>
    (\<forall>n. tests_of n u' = tests_of n u @ (if info_test_case_name t = n then [t] else []))"
proof -
  define u1 where "u1 = (if original_working_dir u = [] then u\<lparr>original_working_dir := cwd\<rparr> else u)"
  have u1: "death_fits u1" "tests_of n u1 = tests_of n u" for n
    using assms(1) by (auto simp: u1_def death_fits_def tests_of_def split: option.splits)
  obtain k u2 where get: "GetTestCase (info_test_case_name t) (info_type_param t) su td u1 = (k, u2)" by fastforce
  note u2 = tests_of_GetTestCase [OF u1(1) get]
  let ?u' = "u2\<lparr>test_cases := (test_cases u2)[k := case_AddTestInfo t (test_cases u2 ! k)]\<rparr>"
  have add: "AddTestInfo cwd su td t u = Inr ?u'"
    using assms(2) get unfolding u1_def by (cases "original_working_dir u = []") (simp_all add: AddTestInfo_def)
  have name: "case_name (case_AddTestInfo t c) = case_name c" for c by (simp add: case_AddTestInfo_def)
  have "tests_of n ?u' = tests_of n u @ (if info_test_case_name t = n then [t] else [])" for n
  proof (cases "info_test_case_name t = n")
    case True
    then show ?thesis using u2(3,4) u2(1) [of n] u1(2) [of n]
      by (simp add: tests_of_def find_test_case_update name) (simp add: case_AddTestInfo_def)
  next
    case False
    have "j \<noteq> k" if "find_test_case n (test_cases u2) = Some j" for j
      using find_test_case_Some [OF that] find_test_case_Some [OF u2(4)] False by auto
    then show ?thesis using False u2(1) [of n] u1(2) [of n]
      by (auto simp: tests_of_def find_test_case_update name split: option.splits)
  qed
  moreover have "death_fits ?u'" using u2(2) by (simp add: death_fits_def)
  ultimately show ?thesis using add by blast
qed

section \<open>One registered test\<close>

text \<open>
  A test that is to be registered: its fixture, the pattern, the instantiation and the number and the
  value of the parameter.
\<close>

type_synonym 'v param_test = "fixture \<times> pattern_info \<times> string \<times> nat \<times> 'v"

definition printed_param :: "('v \<Rightarrow> cpp_value) \<Rightarrow> 'v \<Rightarrow> string" where
  "printed_param shown v = (case PrintToString (shown v) of Inr s \<Rightarrow> s | Inl e \<Rightarrow> [])"

definition registered_info :: "('v \<Rightarrow> cpp_value) \<Rightarrow> nat \<times> 'v param_test \<Rightarrow> test_info" where
  "registered_info shown p =
     (case p of (factory, fx, t, instantiation_name, i, v) \<Rightarrow>
        TestInfo (c_str (instantiated_case_name instantiation_name t)) (c_str (test_base_name t @ ''/'' @ dec_of_nat i))
          None (Some (c_str (printed_param shown v))) (fx_type_id fx) factory)"

definition registered_factory :: "'v param_test \<Rightarrow> 'v test_factory" where
  "registered_factory p = (case p of (fx, t, instantiation_name, i, v) \<Rightarrow> CreateTestFactory (test_meta_factory t) v)"

text \<open>The tests are added to the unit test and their factories to the factories, in this order.\<close>

definition adds_tests :: "('v \<Rightarrow> cpp_value) \<Rightarrow> 'v param_unit \<Rightarrow> 'v param_test list \<Rightarrow> 'v param_unit \<Rightarrow> bool" where
  "adds_tests shown st ps st' \<longleftrightarrow>
     death_fits (pu_unit st') \<and>
     pu_factories st' = pu_factories st @ map registered_factory ps \<and>
     (\<forall>n. tests_of n (pu_unit st') = tests_of n (pu_unit st) @
        filter (\<lambda>t. info_test_case_name t = n)
          (map (registered_info shown) (enumerate (length (pu_factories st)) ps)))"

lemma adds_tests_Nil: "death_fits (pu_unit st) \<Longrightarrow> adds_tests shown st [] st"
  by (simp add: adds_tests_def)

lemma adds_tests_trans: "adds_tests shown st ps st1 \<Longrightarrow> adds_tests shown st1 qs st2 \<Longrightarrow> adds_tests shown st (ps @ qs) st2"
  by (simp add: adds_tests_def enumerate_append_eq)

lemma adds_tests_fits: "adds_tests shown st ps st' \<Longrightarrow> death_fits (pu_unit st')"
  by (simp add: adds_tests_def)

lemma PrintToString_succeeds: "\<exists>s. PrintToString v = Inr s"
proof -
  note P = UniversalPrint_succeeds
  show ?thesis
    unfolding PrintToString_def UniversalTersePrint_def
    by (cases v; simp only: cpp_value.case P; auto simp only: P split: option.splits prod.splits)
qed

lemma register_param_adds:
  assumes "death_fits (pu_unit st)" and "cwd \<noteq> []"
  shows "\<exists>st'. register_param cwd shown fx t (instantiated_case_name prefix t) (int i) v v st = Inr st' \<and>
    adds_tests shown st [(fx, t, prefix, i, v)] st'"
proof -
  obtain s where s: "PrintToString (shown v) = Inr s" using PrintToString_succeeds by blast
  let ?t = "registered_info shown (length (pu_factories st), fx, t, prefix, i, v)"
  obtain u' where u': "AddTestInfo cwd (fx_set_up fx) (fx_tear_down fx) ?t (pu_unit st) = Inr u'" "death_fits u'"
    "\<forall>n. tests_of n u' = tests_of n (pu_unit st) @ (if info_test_case_name ?t = n then [?t] else [])"
    using tests_of_AddTestInfo [OF assms, of "fx_set_up fx" "fx_tear_down fx" ?t] by blast
  let ?st' = "st\<lparr>pu_unit := u', pu_factories := pu_factories st @ [CreateTestFactory (test_meta_factory t) v]\<rparr>"
  have "register_param cwd shown fx t (instantiated_case_name prefix t) (int i) v v st = Inr ?st'"
    using u'(1) s by (simp add: register_param_def MakeAndRegisterTestInfo_def registered_info_def printed_param_def
        dec_of_int_def)
  moreover have "adds_tests shown st [(fx, t, prefix, i, v)] ?st'"
    using u'(2,3) by (simp add: adds_tests_def registered_factory_def)
  ultimately show ?thesis by blast
qed

section \<open>The loops\<close>

lemma fold_register_adds:
  assumes "death_fits (pu_unit st)" and "cwd \<noteq> []" and "i + length vs < 2 ^ 31"
  shows "\<exists>st'. fold_params (register_param cwd shown fx t (instantiated_case_name prefix t)) (int i) vs st = Inr st' \<and>
    adds_tests shown st (map (\<lambda>p. (fx, t, prefix, p)) (enumerate i vs)) st'"
  using assms
proof (induction vs arbitrary: i st)
  case Nil
  then show ?case by (simp add: adds_tests_Nil)
next
  case (Cons v vs)
  obtain st1 where st1: "register_param cwd shown fx t (instantiated_case_name prefix t) (int i) v v st = Inr st1"
    "adds_tests shown st [(fx, t, prefix, i, v)] st1"
    using register_param_adds [OF Cons.prems(1,2)] by blast
  have small: "int i \<noteq> 2 ^ 31 - 1" "Suc i + length vs < 2 ^ 31" using Cons.prems(3) by auto
  obtain st2 where st2: "fold_params (register_param cwd shown fx t (instantiated_case_name prefix t)) (int (Suc i)) vs st1 = Inr st2"
    "adds_tests shown st1 (map (\<lambda>p. (fx, t, prefix, p)) (enumerate (Suc i) vs)) st2"
    using Cons.IH [OF adds_tests_fits [OF st1(2)] assms(2) small(2)] by blast
  have "int i + 1 = int (Suc i)" by simp
  then have fold: "fold_params (register_param cwd shown fx t (instantiated_case_name prefix t)) (int i + 1) vs st1 = Inr st2"
    using st2(1) by (simp only:)
  then have "fold_params (register_param cwd shown fx t (instantiated_case_name prefix t)) (int i) (v # vs) st = Inr st2"
    using st1(1) fold small(1) by simp
  then show ?case using adds_tests_trans [OF st1(2) st2(2)] by auto
qed

text \<open>The sequence of a generator expression.\<close>

definition evaluates :: "('g, 'i, 'v) param_generator res \<Rightarrow> 'v list \<Rightarrow> bool" where
  "evaluates func vs \<longleftrightarrow> length vs < 2 ^ 31 \<and> (\<exists>gen. func = Inr gen \<and> generates gen vs)"

definition instantiation_tests ::
  "(('g, 'i, 'v) param_generator res \<Rightarrow> 'v list) \<Rightarrow> fixture \<Rightarrow> pattern_info \<Rightarrow>
     string \<times> ('g, 'i, 'v) param_generator res \<Rightarrow> 'v param_test list" where
  "instantiation_tests vals fx t inst = map (\<lambda>p. (fx, t, fst inst, p)) (enumerate 0 (vals (snd inst)))"

text \<open>The tests of a test case, in the order of the three loops.\<close>

definition case_tests ::
  "(('g, 'i, 'v) param_generator res \<Rightarrow> 'v list) \<Rightarrow> ('g, 'i, 'v) param_case_info \<Rightarrow> 'v param_test list" where
  "case_tests vals info =
     concat (map (\<lambda>t. concat (map (instantiation_tests vals (pc_fixture info) t) (pc_instantiations info))) (pc_tests info))"

lemma then_loop_ok: "m = Some (Inr x) \<Longrightarrow> then_loop m f = f x"
  by (simp add: then_loop_def)

lemma register_instantiations_adds:
  assumes "death_fits (pu_unit st)" and "cwd \<noteq> []" and "\<forall>inst \<in> set insts. evaluates (snd inst) (vals (snd inst))"
  shows "\<exists>st'. register_instantiations cwd shown fx t insts st = Some (Inr st') \<and>
    adds_tests shown st (concat (map (instantiation_tests vals fx t) insts)) st'"
  using assms
proof (induction insts arbitrary: st)
  case Nil
  then show ?case by (simp add: adds_tests_Nil)
next
  case (Cons inst insts)
  obtain prefix func where inst: "inst = (prefix, func)" by (cases inst)
  obtain gen where gen: "func = Inr gen" "generates gen (vals func)" "length (vals func) < 2 ^ 31"
    using Cons.prems(3) by (auto simp: inst evaluates_def)
  obtain st1 where st1: "fold_params (register_param cwd shown fx t (instantiated_case_name prefix t)) 0 (vals func) st = Inr st1"
    "adds_tests shown st (instantiation_tests vals fx t inst) st1"
    using fold_register_adds [OF Cons.prems(1,2), of 0 "vals func" shown fx t prefix] gen(3) by (auto simp: inst instantiation_tests_def)
  obtain st2 where "register_instantiations cwd shown fx t insts st1 = Some (Inr st2)"
    "adds_tests shown st1 (concat (map (instantiation_tests vals fx t) insts)) st2"
    using Cons.IH [OF adds_tests_fits [OF st1(2)]] Cons.prems by auto
  moreover have "param_for gen (register_param cwd shown fx t (instantiated_case_name prefix t)) st = Some (Inr st1)"
    by (simp add: generates_for [OF gen(2)] st1(1))
  ultimately show ?case
    using gen(1) adds_tests_trans [OF st1(2)] by (simp add: inst then_loop_ok)
qed

lemma register_tests_adds:
  assumes "death_fits (pu_unit st)" and "cwd \<noteq> []" and "\<forall>inst \<in> set insts. evaluates (snd inst) (vals (snd inst))"
  shows "\<exists>st'. register_tests cwd shown fx insts ts st = Some (Inr st') \<and>
    adds_tests shown st (concat (map (\<lambda>t. concat (map (instantiation_tests vals fx t) insts)) ts)) st'"
  using assms(1)
proof (induction ts arbitrary: st)
  case Nil
  then show ?case by (simp add: adds_tests_Nil)
next
  case (Cons t ts)
  obtain st1 where st1: "register_instantiations cwd shown fx t insts st = Some (Inr st1)"
    "adds_tests shown st (concat (map (instantiation_tests vals fx t) insts)) st1"
    using register_instantiations_adds [OF Cons.prems assms(2,3)] by blast
  obtain st2 where "register_tests cwd shown fx insts ts st1 = Some (Inr st2)"
    "adds_tests shown st1 (concat (map (\<lambda>t. concat (map (instantiation_tests vals fx t) insts)) ts)) st2"
    using Cons.IH [OF adds_tests_fits [OF st1(2)]] by blast
  then show ?case using st1 adds_tests_trans [OF st1(2)] by (simp add: then_loop_ok)
qed

lemma registry_adds:
  assumes "death_fits (pu_unit st)" and "cwd \<noteq> []"
    and "\<forall>info \<in> set infos. \<forall>inst \<in> set (pc_instantiations info). evaluates (snd inst) (vals (snd inst))"
  shows "\<exists>st'. registry_RegisterTests cwd shown infos st = Some (Inr st') \<and>
    adds_tests shown st (concat (map (case_tests vals) infos)) st'"
  using assms
proof (induction infos arbitrary: st)
  case Nil
  then show ?case by (simp add: adds_tests_Nil)
next
  case (Cons info infos)
  obtain st1 where st1: "case_RegisterTests cwd shown info st = Some (Inr st1)"
    "adds_tests shown st (case_tests vals info) st1"
    using register_tests_adds [OF Cons.prems(1,2), of "pc_instantiations info" vals shown "pc_fixture info" "pc_tests info"]
      Cons.prems(3) by (auto simp: case_RegisterTests_def case_tests_def)
  obtain st2 where "registry_RegisterTests cwd shown infos st1 = Some (Inr st2)"
    "adds_tests shown st1 (concat (map (case_tests vals) infos)) st2"
    using Cons.IH [OF adds_tests_fits [OF st1(2)] assms(2)] Cons.prems(3) by auto
  then show ?case using st1 adds_tests_trans [OF st1(2)] by (simp add: then_loop_ok)
qed

section \<open>The declarations\<close>

fun decl_name :: "('g, 'i, 'v) param_declaration \<Rightarrow> string" where
  "decl_name (Test_P fx n t m source line) = n"
| "decl_name (Instantiate_Test_Case_P fx prefix n func source line) = n"

fun decl_fixture :: "('g, 'i, 'v) param_declaration \<Rightarrow> fixture" where
  "decl_fixture (Test_P fx n t m source line) = fx"
| "decl_fixture (Instantiate_Test_Case_P fx prefix n func source line) = fx"

fun decl_tests :: "('g, 'i, 'v) param_declaration \<Rightarrow> pattern_info list" where
  "decl_tests (Test_P fx n t m source line) = [\<lparr>test_case_base_name = n, test_base_name = t, test_meta_factory = m\<rparr>]"
| "decl_tests (Instantiate_Test_Case_P fx prefix n func source line) = []"

fun decl_instantiations :: "('g, 'i, 'v) param_declaration \<Rightarrow> (string \<times> ('g, 'i, 'v) param_generator res) list" where
  "decl_instantiations (Test_P fx n t m source line) = []"
| "decl_instantiations (Instantiate_Test_Case_P fx prefix n func source line) = [(prefix, func)]"

text \<open>The declarations of a test case, the names of the test cases in the order of the first declaration.\<close>

definition decls_of :: "string \<Rightarrow> ('g, 'i, 'v) param_declaration list \<Rightarrow> ('g, 'i, 'v) param_declaration list" where
  "decls_of n ds = filter (\<lambda>d. decl_name d = n) ds"

definition declared_names :: "('g, 'i, 'v) param_declaration list \<Rightarrow> string list" where
  "declared_names ds = rev (remdups (rev (map decl_name ds)))"

definition declared_info :: "('g, 'i, 'v) param_declaration list \<Rightarrow> string \<Rightarrow> ('g, 'i, 'v) param_case_info" where
  "declared_info ds n =
     \<lparr>pc_test_case_name = n, pc_fixture = decl_fixture (hd (decls_of n ds)),
      pc_tests = concat (map decl_tests (decls_of n ds)),
      pc_instantiations = concat (map decl_instantiations (decls_of n ds))\<rparr>"

definition same_fixtures :: "('g, 'i, 'v) param_declaration list \<Rightarrow> bool" where
  "same_fixtures ds \<longleftrightarrow> (\<forall>d \<in> set ds. \<forall>e \<in> set ds. decl_name d = decl_name e \<longrightarrow>
     fx_type_id (decl_fixture d) = fx_type_id (decl_fixture e))"

lemma same_fixturesD:
  "same_fixtures ds \<Longrightarrow> d \<in> set ds \<Longrightarrow> e \<in> set ds \<Longrightarrow> decl_name d = decl_name e \<Longrightarrow>
    fx_type_id (decl_fixture d) = fx_type_id (decl_fixture e)"
  unfolding same_fixtures_def by blast

lemma declared_names_snoc:
  "declared_names (ds @ [d]) = (if decl_name d \<in> set (map decl_name ds) then declared_names ds else declared_names ds @ [decl_name d])"
  by (simp add: declared_names_def)

lemma set_declared_names: "set (declared_names ds) = decl_name ` set ds"
  by (simp add: declared_names_def)

lemma distinct_declared_names: "distinct (declared_names ds)"
  by (simp add: declared_names_def)

lemma find_holder_none:
  "name \<notin> set (map pc_test_case_name infos) \<Longrightarrow> find_pattern_holder fx name source line infos = Inr None"
  by (induction infos) auto

lemma find_holder_some:
  "distinct (map pc_test_case_name infos) \<Longrightarrow> k < length infos \<Longrightarrow> pc_test_case_name (infos ! k) = name \<Longrightarrow>
    fx_type_id (pc_fixture (infos ! k)) = fx_type_id fx \<Longrightarrow>
    find_pattern_holder fx name source line infos = Inr (Some k)"
proof (induction infos arbitrary: k)
  case (Cons info infos)
  show ?case
  proof (cases k)
    case 0
    then show ?thesis using Cons.prems by simp
  next
    case (Suc j)
    then have "name \<in> set (map pc_test_case_name infos)" using Cons.prems nth_mem [of j infos] by auto
    then have "pc_test_case_name info \<noteq> name" using Cons.prems(1) by auto
    then show ?thesis using Cons Suc by simp
  qed
qed simp

text \<open>One declaration adds its test or its instantiation to the information about its case.\<close>

definition with_decl :: "('g, 'i, 'v) param_declaration \<Rightarrow> ('g, 'i, 'v) param_case_info \<Rightarrow> ('g, 'i, 'v) param_case_info" where
  "with_decl d info = info\<lparr>pc_tests := pc_tests info @ decl_tests d, pc_instantiations := pc_instantiations info @ decl_instantiations d\<rparr>"

lemma declare_one_none:
  "decl_name d \<notin> set (map pc_test_case_name infos) \<Longrightarrow>
    declare_one d infos = Inr (infos @ [with_decl d (ParameterizedTestCaseInfo (decl_fixture d) (decl_name d))])"
  by (cases d) (simp_all add: declare_one_def GetTestCasePatternHolder_def find_holder_none AddTestPattern_def
      AddTestCaseInstantiation_def with_decl_def list_update_append)

lemma declare_one_some:
  "distinct (map pc_test_case_name infos) \<Longrightarrow> k < length infos \<Longrightarrow> pc_test_case_name (infos ! k) = decl_name d \<Longrightarrow>
    fx_type_id (pc_fixture (infos ! k)) = fx_type_id (decl_fixture d) \<Longrightarrow>
    declare_one d infos = Inr (infos[k := with_decl d (infos ! k)])"
  by (cases d) (simp_all add: declare_one_def GetTestCasePatternHolder_def find_holder_some AddTestPattern_def
      AddTestCaseInstantiation_def with_decl_def)

lemma declare_all_snoc:
  "declare_all ds infos = Inr infos' \<Longrightarrow> declare_all (ds @ [d]) infos = declare_one d infos'"
  by (induction ds arbitrary: infos) (auto split: sum.splits)

lemma declared_info_other: "decl_name d \<noteq> n \<Longrightarrow> declared_info (ds @ [d]) n = declared_info ds n"
  by (simp add: declared_info_def decls_of_def)

lemma declared_info_same:
  "decl_name d \<in> set (map decl_name ds) \<Longrightarrow> declared_info (ds @ [d]) (decl_name d) = with_decl d (declared_info ds (decl_name d))"
  by (auto simp: declared_info_def decls_of_def with_decl_def hd_append filter_empty_conv)

lemma declared_info_first:
  assumes "decl_name d \<notin> set (map decl_name ds)"
  shows "declared_info (ds @ [d]) (decl_name d) = with_decl d (ParameterizedTestCaseInfo (decl_fixture d) (decl_name d))"
proof -
  have "decls_of (decl_name d) ds = []"
    using assms unfolding decls_of_def filter_empty_conv by (metis image_eqI list.set_map)
  then have "decls_of (decl_name d) (ds @ [d]) = [d]" by (simp add: decls_of_def)
  then show ?thesis by (simp add: declared_info_def with_decl_def ParameterizedTestCaseInfo_def)
qed

text \<open>The registry holds the declarations of every case, in whatever order they were made.\<close>

lemma declare_all_collects:
  "same_fixtures ds \<Longrightarrow> declare_all ds [] = Inr (map (declared_info ds) (declared_names ds))"
proof (induction ds rule: rev_induct)
  case Nil
  then show ?case by (simp add: declared_names_def)
next
  case (snoc d ds)
  let ?infos = "map (declared_info ds) (declared_names ds)"
  have "same_fixtures ds" using snoc.prems unfolding same_fixtures_def set_append by blast
  then have ds: "declare_all ds [] = Inr ?infos" by (rule snoc.IH)
  have names: "map pc_test_case_name ?infos = declared_names ds" by (simp add: o_def declared_info_def)
  show ?case
  proof (cases "decl_name d \<in> set (map decl_name ds)")
    case False
    then have "declare_one d ?infos = Inr (?infos @ [declared_info (ds @ [d]) (decl_name d)])"
      using names by (simp add: declare_one_none declared_info_first set_declared_names)
    moreover have "map (declared_info (ds @ [d])) (declared_names ds) = ?infos"
    proof (rule map_cong [OF refl])
      fix n assume "n \<in> set (declared_names ds)"
      then have "decl_name d \<noteq> n" using False by (metis set_declared_names set_map)
      then show "declared_info (ds @ [d]) n = declared_info ds n" by (rule declared_info_other)
    qed
    ultimately show ?thesis using False by (simp add: declare_all_snoc [OF ds] declared_names_snoc)
  next
    case True
    then have "decl_name d \<in> set (declared_names ds)" by (simp add: set_declared_names)
    then obtain k where k: "k < length (declared_names ds)" "declared_names ds ! k = decl_name d"
      by (auto simp: in_set_conv_nth)
    have "decls_of (decl_name d) ds \<noteq> []" using True by (auto simp: decls_of_def filter_empty_conv)
    then have "hd (decls_of (decl_name d) ds) \<in> set ds" "decl_name (hd (decls_of (decl_name d) ds)) = decl_name d"
      using hd_in_set [of "decls_of (decl_name d) ds"] by (auto simp: decls_of_def)
    then have "fx_type_id (decl_fixture (hd (decls_of (decl_name d) ds))) = fx_type_id (decl_fixture d)"
      by (intro same_fixturesD [OF snoc.prems]) simp_all
    then have "fx_type_id (pc_fixture (declared_info ds (decl_name d))) = fx_type_id (decl_fixture d)"
      by (simp add: declared_info_def)
    then have "declare_one d ?infos = Inr (?infos[k := with_decl d (?infos ! k)])"
    proof (intro declare_one_some)
      show "distinct (map pc_test_case_name ?infos)" unfolding names by (rule distinct_declared_names)
      show "k < length ?infos" using k(1) by simp
      show "pc_test_case_name (?infos ! k) = decl_name d" using k by (simp add: declared_info_def)
      show "fx_type_id (pc_fixture (?infos ! k)) = fx_type_id (decl_fixture d)"
        using k \<open>fx_type_id (pc_fixture (declared_info ds (decl_name d))) = _\<close> by simp
    qed
    also have "?infos[k := with_decl d (?infos ! k)] = map (declared_info (ds @ [d])) (declared_names ds)"
    proof (rule nth_equalityI)
      fix j assume j: "j < length (?infos[k := with_decl d (?infos ! k)])"
      show "?infos[k := with_decl d (?infos ! k)] ! j = map (declared_info (ds @ [d])) (declared_names ds) ! j"
      proof (cases "j = k")
        case same: True
        have "declared_info (ds @ [d]) (decl_name d) = with_decl d (declared_info ds (decl_name d))"
          using True by (rule declared_info_same)
        then show ?thesis using k by (simp add: same)
      next
        case False
        then have "decl_name d \<noteq> declared_names ds ! j"
          using j k nth_eq_iff_index_eq [OF distinct_declared_names [of ds], of k j] by simp
        then have "declared_info (ds @ [d]) (declared_names ds ! j) = declared_info ds (declared_names ds ! j)"
          by (rule declared_info_other)
        then show ?thesis using False j by simp
      qed
    qed simp
    finally show ?thesis using True by (simp add: declare_all_snoc [OF ds] declared_names_snoc)
  qed
qed

section \<open>From declarations to tests\<close>

definition param_tests ::
  "(('g, 'i, 'v) param_generator res \<Rightarrow> 'v list) \<Rightarrow> ('g, 'i, 'v) param_declaration list \<Rightarrow> 'v param_test list" where
  "param_tests vals ds =
     [(decl_fixture (hd (decls_of n ds)), t, fst inst, p).
        n \<leftarrow> declared_names ds, t \<leftarrow> concat (map decl_tests (decls_of n ds)),
        inst \<leftarrow> concat (map decl_instantiations (decls_of n ds)), p \<leftarrow> enumerate 0 (vals (snd inst))]"

lemma param_tests_eq: "param_tests vals ds = concat (map (case_tests vals) (map (declared_info ds) (declared_names ds)))"
  by (simp add: param_tests_def case_tests_def declared_info_def instantiation_tests_def [abs_def] o_def)

text \<open>
  C34. When declarations that name the same test case have the same fixture and the generators are
  defined, then, in whatever order \<open>TEST_P\<close> and \<open>INSTANTIATE_TEST_CASE_P\<close> are initialised,
  \<open>RegisterParameterizedTests\<close> ends and adds exactly one test for each test of a case, each
  instantiation of the case and each value of its generator: it stands after the tests its case has,
  its names are \<open>Instantiation/Case\<close> and \<open>Test/number\<close>, it shows the printed value, and its factory is
  a new one that holds the value. Calling it again changes nothing.
\<close>

theorem parameterized_tests_registered:
  assumes "same_fixtures ds" and "unit_ok (pu_unit st)" and "cwd \<noteq> []"
    and "\<forall>d \<in> set ds. \<forall>(prefix, func) \<in> set (decl_instantiations d). evaluates func (vals func)"
  shows "\<exists>infos st'. declare_all ds [] = Inr infos \<and>
    RegisterParameterizedTests cwd shown infos (False, st) = Some (Inr (True, st')) \<and>
    RegisterParameterizedTests cwd shown infos (True, st') = Some (Inr (True, st')) \<and>
    pu_factories st' = pu_factories st @ map registered_factory (param_tests vals ds) \<and>
    (\<forall>n. tests_of n (pu_unit st') = tests_of n (pu_unit st) @
      filter (\<lambda>t. info_test_case_name t = n)
        (map (registered_info shown) (enumerate (length (pu_factories st)) (param_tests vals ds))))"
proof -
  let ?infos = "map (declared_info ds) (declared_names ds)"
  have "\<forall>info \<in> set ?infos. \<forall>inst \<in> set (pc_instantiations info). evaluates (snd inst) (vals (snd inst))"
    using assms(4) by (fastforce simp: declared_info_def decls_of_def)
  then obtain st' where st': "registry_RegisterTests cwd shown ?infos st = Some (Inr st')"
    "adds_tests shown st (concat (map (case_tests vals) ?infos)) st'"
    using registry_adds [OF unit_ok_death_fits [OF assms(2)] assms(3)] by blast
  have "declare_all ds [] = Inr ?infos" by (rule declare_all_collects [OF assms(1)])
  moreover have "RegisterParameterizedTests cwd shown ?infos (False, st) = Some (Inr (True, st'))"
    using st'(1) by (simp add: RegisterParameterizedTests_def then_loop_def)
  moreover have "RegisterParameterizedTests cwd shown ?infos (True, st') = Some (Inr (True, st'))"
    by (simp add: RegisterParameterizedTests_def)
  ultimately show ?thesis
    using st'(2) unfolding adds_tests_def param_tests_eq by blast
qed

text \<open>\<open>INSTANTIATE_TEST_CASE_P(A, FooTest, Values(3, 4))\<close> before \<open>TEST_P(FooTest, Bar)\<close>.\<close>

definition sample_fixture :: fixture where
  "sample_fixture = \<lparr>fx_type_id = 1, fx_set_up = 2, fx_tear_down = 3\<rparr>"

definition sample_declarations :: "(int values_generator, int values_iterator, int) param_declaration list" where
  "sample_declarations =
     [Instantiate_Test_Case_P sample_fixture ''A'' ''FooTest'' (Inr (ValuesIn 9 [3, 4])) ''foo.cc'' 20,
      Test_P sample_fixture ''FooTest'' ''Bar'' \<lparr>mf_test_class = 5, mf_param_type = 6\<rparr> ''foo.cc'' 10]"

lemma sample_tests: "param_tests (\<lambda>func. [3, 4]) sample_declarations =
    [(sample_fixture, \<lparr>test_case_base_name = ''FooTest'', test_base_name = ''Bar'',
        test_meta_factory = \<lparr>mf_test_class = 5, mf_param_type = 6\<rparr>\<rparr>, ''A'', 0, 3),
     (sample_fixture, \<lparr>test_case_base_name = ''FooTest'', test_base_name = ''Bar'',
        test_meta_factory = \<lparr>mf_test_class = 5, mf_param_type = 6\<rparr>\<rparr>, ''A'', 1, 4)]"
  by (simp add: param_tests_def sample_declarations_def declared_names_def decls_of_def)

theorem parameterized_tests_registered_witness:
  "\<exists>infos st'. declare_all sample_declarations [] = Inr infos \<and>
    RegisterParameterizedTests ''/'' Integer_Like infos (False, \<lparr>pu_unit = new_UnitTestImpl, pu_factories = [TestFactoryImpl 7]\<rparr>) =
      Some (Inr (True, st')) \<and>
    pu_factories st' = [TestFactoryImpl 7, ParameterizedTestFactory 5 6 3, ParameterizedTestFactory 5 6 4] \<and>
    map (\<lambda>t. (info_name t, info_factory t)) (tests_of ''A/FooTest'' (pu_unit st')) = [(''Bar/0'', 1), (''Bar/1'', 2)]"
proof -
  have same: "same_fixtures sample_declarations" by (simp add: same_fixtures_def sample_declarations_def)
  have vals: "\<forall>d \<in> set sample_declarations. \<forall>(prefix, func) \<in> set (decl_instantiations d). evaluates func [3, 4]"
    using ValuesIn_generates [of 9 "[3, 4]"] by (simp add: sample_declarations_def evaluates_def ValuesIn_def)
  have digits: "dec_of_nat 0 = ''0''" "dec_of_nat (Suc 0) = ''1''" by code_simp+
  have none: "tests_of ''A/FooTest'' new_UnitTestImpl = []" by (simp add: tests_of_def new_UnitTestImpl_def)
  show ?thesis
    using parameterized_tests_registered [of sample_declarations "\<lparr>pu_unit = new_UnitTestImpl, pu_factories = [TestFactoryImpl 7]\<rparr>"
        "''/''" "\<lambda>func. [3, 4]" Integer_Like] same vals fresh_unit_ok none
    by (auto simp: sample_tests registered_factory_def registered_info_def CreateTestFactory_def TestInfo_def
        instantiated_case_name_def c_str_def digits)
qed

end
