(* ===== verification/Gtest_Stream.thy ===== *)
theory Gtest_Stream
  imports Gtest_Run Gtest_Printers
begin

text \<open>
  Streaming of the results to a server (\<open>StreamingListener\<close> in \<open>gtest-internal-inl.h\<close> and
  \<open>gtest.cc\<close>): the encoding of texts, the connection, and the message for each event. What the
  resolver and the socket calls answer is the record \<open>stream_io\<close>; the calls made and the warnings
  logged are kept in the state. Shown: over a connection that takes what it is given, a reader that
  splits at line ends, \<open>&\<close> and \<open>=\<close> gets exactly the events and their data, and every descriptor that
  was opened is closed once; without a connection the constructor aborts the test program.
\<close>

section \<open>The connection\<close>

text \<open>
  \<open>io_getaddrinfo\<close> is the error number and the addresses of the list; \<open>socket\<close> answers with a
  descriptor or -1, \<open>connect\<close> succeeds or not, \<open>write\<close> depends on the number of calls before it.
\<close>

record stream_io =
  io_getaddrinfo :: "string \<Rightarrow> string \<Rightarrow> int \<times> nat list"
  io_gai_strerror :: "int \<Rightarrow> string"
  io_socket :: "nat \<Rightarrow> int"
  io_connect :: "nat \<Rightarrow> bool"
  io_write :: "nat \<Rightarrow> string \<Rightarrow> int"

datatype socket_call =
    Do_Socket nat int
  | Do_Connect int nat bool
  | Do_Write int string int
  | Do_Close_Socket int

record socket_writer =
  sw_sockfd :: int
  sw_host_name :: string
  sw_port_num :: string
  sw_calls :: "socket_call list"
  sw_warnings :: "string list"

definition called :: "socket_call \<Rightarrow> socket_writer \<Rightarrow> socket_writer" where
  "called c w = w\<lparr>sw_calls := sw_calls w @ [c]\<rparr>"

definition stream_warning :: "string \<Rightarrow> socket_writer \<Rightarrow> socket_writer" where
  "stream_warning msg w = w\<lparr>sw_warnings := sw_warnings w @ [''stream_result_to: '' @ msg]\<rparr>"

fun connect_loop :: "stream_io \<Rightarrow> nat list \<Rightarrow> socket_writer \<Rightarrow> socket_writer" where
  "connect_loop io [] w = w"
| "connect_loop io (addr # addrs) w =
     (if sw_sockfd w \<noteq> - 1 then w
      else
        (let fd = io_socket io addr; w1 = called (Do_Socket addr fd) (w\<lparr>sw_sockfd := fd\<rparr>) in
         connect_loop io addrs
           (if fd \<noteq> - 1 then
              (let ok = io_connect io addr; w2 = called (Do_Connect fd addr ok) w1 in
               if \<not> ok then (called (Do_Close_Socket fd) w2)\<lparr>sw_sockfd := - 1\<rparr> else w2)
            else w1)))"

definition MakeConnection :: "stream_io \<Rightarrow> socket_writer \<Rightarrow> socket_writer res" where
  "MakeConnection io w =
     assert_res (sw_sockfd w = - 1)
       (case io_getaddrinfo io (c_str (sw_host_name w)) (c_str (sw_port_num w)) of (error_num, addrs) \<Rightarrow>
          (let w1 = (if error_num \<noteq> 0
                then stream_warning (''getaddrinfo() failed: '' @ io_gai_strerror io error_num) w else w);
               w2 = connect_loop io addrs w1
           in Inr (if sw_sockfd w2 = - 1
                then stream_warning (''failed to connect to '' @ sw_host_name w @ '':'' @ sw_port_num w) w2 else w2)))"

definition SocketWriter :: "stream_io \<Rightarrow> string \<Rightarrow> string \<Rightarrow> socket_writer res" where
  "SocketWriter io host port = MakeConnection io
     \<lparr>sw_sockfd = - 1, sw_host_name = host, sw_port_num = port, sw_calls = [], sw_warnings = []\<rparr>"

text \<open>The length is cut to an \<open>int\<close>; a negative one asks for more bytes than the text has.\<close>

definition Send_message :: "stream_io \<Rightarrow> string \<Rightarrow> socket_writer \<Rightarrow> socket_writer res" where
  "Send_message io message w =
     assert_res (sw_sockfd w \<noteq> - 1)
       (let len = sint (int_of_size (length message)) in
        if len < 0 then Inl OutOfBounds
        else
          (let bytes = take (nat len) message;
               n = io_write io (length (sw_calls w)) bytes;
               w1 = called (Do_Write (sw_sockfd w) bytes n) w
           in Inr (if n \<noteq> len
                then stream_warning (''failed to stream to '' @ sw_host_name w @ '':'' @ sw_port_num w) w1 else w1)))"

definition CloseConnection :: "socket_writer \<Rightarrow> socket_writer res" where
  "CloseConnection w =
     assert_res (sw_sockfd w \<noteq> - 1)
       (Inr ((called (Do_Close_Socket (sw_sockfd w)) w)\<lparr>sw_sockfd := - 1\<rparr>))"

definition destroy_SocketWriter :: "socket_writer \<Rightarrow> socket_writer res" where
  "destroy_SocketWriter w = (if sw_sockfd w \<noteq> - 1 then CloseConnection w else Inr w)"

definition SendLn :: "stream_io \<Rightarrow> string \<Rightarrow> socket_writer \<Rightarrow> socket_writer res" where
  "SendLn io message w = Send_message io (message @ [LF]) w"

section \<open>The messages\<close>

fun url_encode_loop :: "string \<Rightarrow> string" where
  "url_encode_loop [] = []"
| "url_encode_loop (ch # str) =
     (if ch = CHR ''%'' \<or> ch = CHR ''='' \<or> ch = CHR ''&'' \<or> ch = LF
      then ''%'' @ FormatByte (word_of_nat (of_char ch)) else [ch]) @ url_encode_loop str"

definition UrlEncode :: "string \<Rightarrow> string" where
  "UrlEncode str = url_encode_loop (c_str str)"

definition FormatBool :: "bool \<Rightarrow> string" where
  "FormatBool v = (if v then ''1'' else ''0'')"

definition Stream_OnTestProgramStart :: string where
  "Stream_OnTestProgramStart = ''event=TestProgramStart''"

definition Stream_OnTestProgramEnd :: "unit_test \<Rightarrow> string" where
  "Stream_OnTestProgramEnd u = ''event=TestProgramEnd&passed='' @ FormatBool (unit_Passed u)"

definition Stream_OnTestIterationStart :: "int \<Rightarrow> string" where
  "Stream_OnTestIterationStart iteration = ''event=TestIterationStart&iteration='' @ dec_of_int iteration"

definition Stream_OnTestIterationEnd :: "unit_test \<Rightarrow> string" where
  "Stream_OnTestIterationEnd u = ''event=TestIterationEnd&passed='' @ FormatBool (unit_Passed u) @
     ''&elapsed_time='' @ dec_of_int (unit_elapsed_time u) @ ''ms''"

definition Stream_OnTestCaseStart :: "test_case \<Rightarrow> string" where
  "Stream_OnTestCaseStart c = ''event=TestCaseStart&name='' @ c_str (case_name c)"

definition Stream_OnTestCaseEnd :: "test_case \<Rightarrow> string" where
  "Stream_OnTestCaseEnd c = ''event=TestCaseEnd&passed='' @ FormatBool (case_Passed c) @
     ''&elapsed_time='' @ dec_of_int (case_elapsed_time c) @ ''ms''"

definition Stream_OnTestStart :: "test_info \<Rightarrow> string" where
  "Stream_OnTestStart t = ''event=TestStart&name='' @ c_str (info_name t)"

definition Stream_OnTestEnd :: "test_info \<Rightarrow> string" where
  "Stream_OnTestEnd t = ''event=TestEnd&passed='' @ FormatBool (result_Passed (info_result t)) @
     ''&elapsed_time='' @ dec_of_int (result_elapsed_time (info_result t)) @ ''ms''"

definition Stream_OnTestPartResult :: "test_part_result \<Rightarrow> string" where
  "Stream_OnTestPartResult r =
     (let file_name = (case result_file_name r of None \<Rightarrow> [] | Some f \<Rightarrow> f) in
      ''event=TestPartResult&file='' @ UrlEncode file_name @ ''&line='' @ dec_of_int (part_line_number r) @
      ''&message='' @ UrlEncode (part_message r))"

text \<open>The message for an event, in the state of the unit test at that moment; other events have none.\<close>

definition stream_message :: "unit_test \<Rightarrow> event \<Rightarrow> string option" where
  "stream_message u e =
     (case e of
        OnTestProgramStart \<Rightarrow> Some Stream_OnTestProgramStart
      | OnTestIterationStart i \<Rightarrow> Some (Stream_OnTestIterationStart i)
      | OnTestCaseStart k \<Rightarrow> Some (Stream_OnTestCaseStart (test_cases u ! k))
      | OnTestStart k t \<Rightarrow> Some (Stream_OnTestStart (the_info u (k, t)))
      | OnTestPartResult r \<Rightarrow> Some (Stream_OnTestPartResult r)
      | OnTestEnd k t \<Rightarrow> Some (Stream_OnTestEnd (the_info u (k, t)))
      | OnTestCaseEnd k \<Rightarrow> Some (Stream_OnTestCaseEnd (test_cases u ! k))
      | OnTestIterationEnd i \<Rightarrow> Some (Stream_OnTestIterationEnd u)
      | OnTestProgramEnd \<Rightarrow> Some (Stream_OnTestProgramEnd u)
      | _ \<Rightarrow> None)"

definition StreamingListener :: "stream_io \<Rightarrow> string \<Rightarrow> string \<Rightarrow> socket_writer res" where
  "StreamingListener io host port =
     bind_res (SocketWriter io host port) (SendLn io ''gtest_streaming_protocol_version=1.0'')"

definition stream_event :: "stream_io \<Rightarrow> unit_test \<times> event \<Rightarrow> socket_writer \<Rightarrow> socket_writer res" where
  "stream_event io ue w =
     (case stream_message (fst ue) (snd ue) of
        None \<Rightarrow> Inr w
      | Some message \<Rightarrow>
          bind_res (SendLn io message w) (\<lambda>w1. if snd ue = OnTestProgramEnd then CloseConnection w1 else Inr w1))"

fun stream_events :: "stream_io \<Rightarrow> (unit_test \<times> event) list \<Rightarrow> socket_writer \<Rightarrow> socket_writer res" where
  "stream_events io [] w = Inr w"
| "stream_events io (ue # ues) w = bind_res (stream_event io ue w) (stream_events io ues)"

text \<open>The whole life of a listener: constructor, events, destructor.\<close>

definition stream_run :: "stream_io \<Rightarrow> string \<Rightarrow> string \<Rightarrow> (unit_test \<times> event) list \<Rightarrow> socket_writer res" where
  "stream_run io host port ues =
     bind_res (StreamingListener io host port) (\<lambda>w.
     bind_res (stream_events io ues w) destroy_SocketWriter)"

section \<open>A reader of the stream\<close>

fun url_decode :: "string \<Rightarrow> string option" where
  "url_decode [] = Some []"
| "url_decode (c # r) =
     (if c \<noteq> CHR ''%'' then map_option ((#) c) (url_decode r)
      else
        (case r of
           a # b # r' \<Rightarrow>
             (case (xdigit_value a, xdigit_value b) of
                (Some x, Some y) \<Rightarrow> map_option ((#) (char_of (16 * x + y))) (url_decode r')
              | _ \<Rightarrow> None)
         | _ \<Rightarrow> None))"

definition read_field :: "string \<Rightarrow> (string \<times> string) option" where
  "read_field s = (case split_on (CHR ''='') s of [k, v] \<Rightarrow> map_option (\<lambda>x. (k, x)) (url_decode v) | _ \<Rightarrow> None)"

definition read_line :: "string \<Rightarrow> (string \<times> string) list option" where
  "read_line s = those (map read_field (split_on (CHR ''&'') s))"

definition read_stream :: "string \<Rightarrow> (string \<times> string) list list option" where
  "read_stream s = those (map read_line (butlast (split_on LF s)))"

text \<open>What the reader is to get for an event.\<close>

definition event_fields :: "unit_test \<Rightarrow> event \<Rightarrow> (string \<times> string) list option" where
  "event_fields u e =
     (case e of
        OnTestProgramStart \<Rightarrow> Some [(''event'', ''TestProgramStart'')]
      | OnTestIterationStart i \<Rightarrow> Some [(''event'', ''TestIterationStart''), (''iteration'', dec_of_int i)]
      | OnTestCaseStart k \<Rightarrow> Some [(''event'', ''TestCaseStart''), (''name'', case_name (test_cases u ! k))]
      | OnTestStart k t \<Rightarrow> Some [(''event'', ''TestStart''), (''name'', info_name (the_info u (k, t)))]
      | OnTestPartResult r \<Rightarrow> Some [(''event'', ''TestPartResult''),
          (''file'', c_str (case result_file_name r of None \<Rightarrow> [] | Some f \<Rightarrow> f)),
          (''line'', dec_of_int (part_line_number r)), (''message'', c_str (part_message r))]
      | OnTestEnd k t \<Rightarrow> Some [(''event'', ''TestEnd''),
          (''passed'', FormatBool (result_Passed (info_result (the_info u (k, t))))),
          (''elapsed_time'', dec_of_int (result_elapsed_time (info_result (the_info u (k, t)))) @ ''ms'')]
      | OnTestCaseEnd k \<Rightarrow> Some [(''event'', ''TestCaseEnd''), (''passed'', FormatBool (case_Passed (test_cases u ! k))),
          (''elapsed_time'', dec_of_int (case_elapsed_time (test_cases u ! k)) @ ''ms'')]
      | OnTestIterationEnd i \<Rightarrow> Some [(''event'', ''TestIterationEnd''), (''passed'', FormatBool (unit_Passed u)),
          (''elapsed_time'', dec_of_int (unit_elapsed_time u) @ ''ms'')]
      | OnTestProgramEnd \<Rightarrow> Some [(''event'', ''TestProgramEnd''), (''passed'', FormatBool (unit_Passed u))]
      | _ \<Rightarrow> None)"

section \<open>Encoded texts\<close>

definition plain :: "string \<Rightarrow> bool" where
  "plain s \<longleftrightarrow> (\<forall>c \<in> set s. c \<notin> {CHR ''%'', CHR ''='', CHR ''&'', LF})"

definition encodes :: "string \<Rightarrow> string \<Rightarrow> bool" where
  "encodes v v' \<longleftrightarrow> url_decode v' = Some v \<and> CHR ''='' \<notin> set v' \<and> CHR ''&'' \<notin> set v' \<and> LF \<notin> set v'"

lemma encodes_plain: "plain v \<Longrightarrow> encodes v v"
  by (induction v) (auto simp: plain_def encodes_def)

lemma format_separators:
  "FormatByte 37 = ''25''" "FormatByte 61 = ''3D''" "FormatByte 38 = ''26''" "FormatByte 10 = ''0A''"
  by code_simp+

lemma separator_chars:
  "char_of (37 :: nat) = CHR ''%''" "char_of (61 :: nat) = CHR ''=''" "char_of (38 :: nat) = CHR ''&''"
  "char_of (10 :: nat) = LF"
  by code_simp+

lemma separator_digits:
  "xdigit_value CHR ''2'' = Some 2" "xdigit_value CHR ''5'' = Some 5" "xdigit_value CHR ''3'' = Some 3"
  "xdigit_value CHR ''D'' = Some 13" "xdigit_value CHR ''6'' = Some 6" "xdigit_value CHR ''0'' = Some 0"
  "xdigit_value CHR ''A'' = Some 10"
  by (simp_all add: xdigit_value_def Let_def)

lemma encodes_loop: "encodes s (url_encode_loop s)"
proof (induction s)
  case Nil
  then show ?case by (simp add: encodes_def)
next
  case (Cons c s)
  show ?case
  proof (cases "c \<in> {CHR ''%'', CHR ''='', CHR ''&'', LF}")
    case True
    then show ?thesis using Cons by (auto simp: encodes_def format_separators separator_digits separator_chars)
  next
    case False
    then show ?thesis using Cons by (auto simp: encodes_def)
  qed
qed

lemma encodes_UrlEncode: "encodes (c_str s) (UrlEncode s)"
  unfolding UrlEncode_def by (rule encodes_loop)

lemma plain_append: "plain (s @ t) \<longleftrightarrow> plain s \<and> plain t"
  by (auto simp: plain_def)

lemma plain_digits: "plain (dec_of_nat n)"
  unfolding plain_def
proof
  fix c assume "c \<in> set (dec_of_nat n)"
  then have "is_digit c" using dec_of_nat_chars by blast
  then show "c \<notin> {CHR ''%'', CHR ''='', CHR ''&'', LF}" by (auto simp: is_digit_def)
qed

lemma plain_dec_of_int: "plain (dec_of_int i)"
  using plain_digits by (simp add: dec_of_int_def plain_def)

lemma plain_FormatBool: "plain (FormatBool b)"
  by (simp add: plain_def FormatBool_def)

section \<open>Lines\<close>

text \<open>A line is its fields, each with an encoded value.\<close>

inductive line_encodes :: "(string \<times> string) list \<Rightarrow> string \<Rightarrow> bool" where
  last_field: "plain k \<Longrightarrow> encodes v v' \<Longrightarrow> line_encodes [(k, v)] (k @ ''='' @ v')"
| next_field: "plain k \<Longrightarrow> encodes v v' \<Longrightarrow> line_encodes kvs s \<Longrightarrow> line_encodes ((k, v) # kvs) (k @ ''='' @ v' @ ''&'' @ s)"

lemma read_field_encodes:
  assumes "plain k" and "encodes v v'"
  shows "read_field (k @ CHR ''='' # v') = Some (k, v)"
proof -
  have "split_on (CHR ''='') (k @ CHR ''='' # v') = [k, v']"
    using assms by (subst split_on_first) (auto simp: plain_def encodes_def split_on_plain)
  then show ?thesis using assms(2) by (simp add: read_field_def encodes_def)
qed

lemma line_encodes_read: "line_encodes kvs s \<Longrightarrow> read_line s = Some kvs \<and> LF \<notin> set s"
proof (induction rule: line_encodes.induct)
  case (last_field k v v')
  then have "CHR ''&'' \<notin> set (k @ CHR ''='' # v')" by (auto simp: plain_def encodes_def)
  then show ?case using last_field read_field_encodes [OF last_field]
    by (auto simp: read_line_def split_on_plain plain_def encodes_def)
next
  case (next_field k v v' kvs s)
  then have "CHR ''&'' \<notin> set (k @ CHR ''='' # v')" by (auto simp: plain_def encodes_def)
  then have "split_on (CHR ''&'') ((k @ CHR ''='' # v') @ CHR ''&'' # s) = (k @ CHR ''='' # v') # split_on (CHR ''&'') s"
    by (rule split_on_first)
  then show ?case using next_field read_field_encodes [OF next_field.hyps(1,2)]
    by (auto simp: read_line_def plain_def encodes_def)
qed

text \<open>The names of an event are identifiers.\<close>

definition plain_names :: "unit_test \<Rightarrow> event \<Rightarrow> bool" where
  "plain_names u e \<longleftrightarrow>
     (case e of
        OnTestCaseStart k \<Rightarrow> plain (case_name (test_cases u ! k)) \<and> NUL \<notin> set (case_name (test_cases u ! k))
      | OnTestStart k t \<Rightarrow> plain (info_name (the_info u (k, t))) \<and> NUL \<notin> set (info_name (the_info u (k, t)))
      | _ \<Rightarrow> True)"

lemmas stream_message_defs =
  stream_message_def event_fields_def plain_names_def Stream_OnTestProgramStart_def Stream_OnTestProgramEnd_def
  Stream_OnTestIterationStart_def Stream_OnTestIterationEnd_def Stream_OnTestCaseStart_def Stream_OnTestCaseEnd_def
  Stream_OnTestStart_def Stream_OnTestEnd_def Stream_OnTestPartResult_def

lemma plain_literals:
  "plain ''event''" "plain ''TestProgramStart''" "plain ''TestProgramEnd''" "plain ''TestIterationStart''"
  "plain ''TestIterationEnd''" "plain ''TestCaseStart''" "plain ''TestCaseEnd''" "plain ''TestStart''"
  "plain ''TestEnd''" "plain ''TestPartResult''" "plain ''passed''" "plain ''iteration''" "plain ''elapsed_time''"
  "plain ''name''" "plain ''file''" "plain ''line''" "plain ''message''" "plain ''ms''"
  "plain ''gtest_streaming_protocol_version''" "plain ''1.0''"
  by (simp_all add: plain_def)

lemma encodes_ms: "encodes (dec_of_int i @ ''ms'') (dec_of_int i @ ''ms'')"
  by (intro encodes_plain) (simp add: plain_append plain_dec_of_int plain_literals)

lemmas field_values =
  plain_literals [THEN encodes_plain] plain_dec_of_int [THEN encodes_plain] plain_FormatBool [THEN encodes_plain]
  encodes_ms encodes_UrlEncode

lemma line_of_one: "plain k \<Longrightarrow> encodes v v' \<Longrightarrow> s = k @ ''='' @ v' \<Longrightarrow> line_encodes [(k, v)] s"
  by (simp only: last_field)

lemma line_of_more:
  "plain k \<Longrightarrow> encodes v v' \<Longrightarrow> line_encodes kvs t \<Longrightarrow> s = k @ ''='' @ v' @ ''&'' @ t \<Longrightarrow> line_encodes ((k, v) # kvs) s"
  by (simp only: next_field)

lemma message_encodes:
  assumes "plain_names u e"
  shows "(case stream_message u e of None \<Rightarrow> event_fields u e = None
    | Some m \<Rightarrow> \<exists>kvs. event_fields u e = Some kvs \<and> line_encodes kvs m)"
proof (cases e)
  case OnTestProgramStart
  have "line_encodes [(''event'', ''TestProgramStart'')] ''event=TestProgramStart''"
    by (rule line_of_one) (rule plain_literals field_values | simp)+
  then show ?thesis using OnTestProgramStart by (simp add: stream_message_defs)
next
  case (OnTestIterationStart i)
  have "line_encodes [(''event'', ''TestIterationStart''), (''iteration'', dec_of_int i)]
      (''event=TestIterationStart&iteration='' @ dec_of_int i)"
    by (rule line_of_more, rule plain_literals, rule field_values, rule line_of_one)
      (rule plain_literals field_values refl | simp)+
  then show ?thesis using OnTestIterationStart by (simp add: stream_message_defs)
next
  case (OnTestCaseStart k)
  let ?n = "case_name (test_cases u ! k)"
  have n: "encodes ?n ?n" "c_str ?n = ?n"
    using assms OnTestCaseStart by (auto simp: plain_names_def c_str_id intro: encodes_plain)
  have "line_encodes [(''event'', ''TestCaseStart''), (''name'', ?n)] (''event=TestCaseStart&name='' @ ?n)"
    by (rule line_of_more, rule plain_literals, rule field_values, rule line_of_one)
      (rule plain_literals n(1) refl | simp)+
  then show ?thesis using OnTestCaseStart n(2) by (simp add: stream_message_defs)
next
  case (OnTestStart k t)
  let ?n = "info_name (the_info u (k, t))"
  have n: "encodes ?n ?n" "c_str ?n = ?n"
    using assms OnTestStart by (auto simp: plain_names_def c_str_id intro: encodes_plain)
  have "line_encodes [(''event'', ''TestStart''), (''name'', ?n)] (''event=TestStart&name='' @ ?n)"
    by (rule line_of_more, rule plain_literals, rule field_values, rule line_of_one)
      (rule plain_literals n(1) refl | simp)+
  then show ?thesis using OnTestStart n(2) by (simp add: stream_message_defs)
next
  case (OnTestPartResult r)
  let ?f = "case result_file_name r of None \<Rightarrow> [] | Some f \<Rightarrow> f"
  have "line_encodes [(''event'', ''TestPartResult''), (''file'', c_str ?f), (''line'', dec_of_int (part_line_number r)),
      (''message'', c_str (part_message r))]
    (''event=TestPartResult&file='' @ UrlEncode ?f @ ''&line='' @ dec_of_int (part_line_number r) @ ''&message='' @
      UrlEncode (part_message r))"
    by (rule line_of_more, rule plain_literals, rule field_values, rule line_of_more, rule plain_literals,
        rule encodes_UrlEncode, rule line_of_more, rule plain_literals, rule field_values, rule line_of_one)
      (rule plain_literals encodes_UrlEncode refl | simp)+
  then show ?thesis using OnTestPartResult by (simp add: stream_message_defs)
next
  case (OnTestEnd k t)
  let ?r = "info_result (the_info u (k, t))"
  have "line_encodes [(''event'', ''TestEnd''), (''passed'', FormatBool (result_Passed ?r)),
      (''elapsed_time'', dec_of_int (result_elapsed_time ?r) @ ''ms'')]
    (''event=TestEnd&passed='' @ FormatBool (result_Passed ?r) @ ''&elapsed_time='' @ dec_of_int (result_elapsed_time ?r) @ ''ms'')"
    by (rule line_of_more, rule plain_literals, rule field_values, rule line_of_more, rule plain_literals,
        rule field_values, rule line_of_one) (rule plain_literals encodes_ms refl | simp)+
  then show ?thesis using OnTestEnd by (simp add: stream_message_defs)
next
  case (OnTestCaseEnd k)
  let ?c = "test_cases u ! k"
  have "line_encodes [(''event'', ''TestCaseEnd''), (''passed'', FormatBool (case_Passed ?c)),
      (''elapsed_time'', dec_of_int (case_elapsed_time ?c) @ ''ms'')]
    (''event=TestCaseEnd&passed='' @ FormatBool (case_Passed ?c) @ ''&elapsed_time='' @ dec_of_int (case_elapsed_time ?c) @ ''ms'')"
    by (rule line_of_more, rule plain_literals, rule field_values, rule line_of_more, rule plain_literals,
        rule field_values, rule line_of_one) (rule plain_literals encodes_ms refl | simp)+
  then show ?thesis using OnTestCaseEnd by (simp add: stream_message_defs)
next
  case (OnTestIterationEnd i)
  have "line_encodes [(''event'', ''TestIterationEnd''), (''passed'', FormatBool (unit_Passed u)),
      (''elapsed_time'', dec_of_int (unit_elapsed_time u) @ ''ms'')]
    (''event=TestIterationEnd&passed='' @ FormatBool (unit_Passed u) @ ''&elapsed_time='' @ dec_of_int (unit_elapsed_time u) @ ''ms'')"
    by (rule line_of_more, rule plain_literals, rule field_values, rule line_of_more, rule plain_literals,
        rule field_values, rule line_of_one) (rule plain_literals encodes_ms refl | simp)+
  then show ?thesis using OnTestIterationEnd by (simp add: stream_message_defs)
next
  case OnTestProgramEnd
  have "line_encodes [(''event'', ''TestProgramEnd''), (''passed'', FormatBool (unit_Passed u))]
      (''event=TestProgramEnd&passed='' @ FormatBool (unit_Passed u))"
    by (rule line_of_more, rule plain_literals, rule field_values, rule line_of_one)
      (rule plain_literals field_values refl | simp)+
  then show ?thesis using OnTestProgramEnd by (simp add: stream_message_defs)
qed (simp_all add: stream_message_defs)

section \<open>The stream of a run\<close>

fun stream_text :: "socket_call list \<Rightarrow> string" where
  "stream_text [] = []"
| "stream_text (Do_Write fd message n # cs) = take (nat n) message @ stream_text cs"
| "stream_text (_ # cs) = stream_text cs"

fun opened_sockets :: "socket_call list \<Rightarrow> int list" where
  "opened_sockets [] = []"
| "opened_sockets (Do_Socket addr fd # cs) = (if fd \<noteq> - 1 then [fd] else []) @ opened_sockets cs"
| "opened_sockets (_ # cs) = opened_sockets cs"

fun closed_sockets :: "socket_call list \<Rightarrow> int list" where
  "closed_sockets [] = []"
| "closed_sockets (Do_Close_Socket fd # cs) = fd # closed_sockets cs"
| "closed_sockets (_ # cs) = closed_sockets cs"

lemma stream_text_append [simp]: "stream_text (cs @ ds) = stream_text cs @ stream_text ds"
  by (induction cs rule: stream_text.induct) auto

lemma sockets_opened_append [simp]: "opened_sockets (cs @ ds) = opened_sockets cs @ opened_sockets ds"
  by (induction cs rule: opened_sockets.induct) auto

lemma closed_append [simp]: "closed_sockets (cs @ ds) = closed_sockets cs @ closed_sockets ds"
  by (induction cs rule: closed_sockets.induct) auto

text \<open>Every descriptor that was opened is closed, except the one of the connection.\<close>

definition sockets_balanced :: "socket_writer \<Rightarrow> bool" where
  "sockets_balanced w \<longleftrightarrow> mset (opened_sockets (sw_calls w)) =
     mset (closed_sockets (sw_calls w)) + (if sw_sockfd w = - 1 then {#} else {#sw_sockfd w#})"

lemmas writer_defs = sockets_balanced_def called_def stream_warning_def

lemma balanced_warning [simp]: "sockets_balanced (stream_warning m w) = sockets_balanced w"
  by (simp add: writer_defs)

lemma warning_simps [simp]:
  "sw_sockfd (stream_warning m w) = sw_sockfd w" "sw_calls (stream_warning m w) = sw_calls w"
  by (simp_all add: stream_warning_def)

lemma connect_loop_ok:
  "sockets_balanced w \<Longrightarrow> sockets_balanced (connect_loop io addrs w) \<and>
    stream_text (sw_calls (connect_loop io addrs w)) = stream_text (sw_calls w) \<and>
    (sw_sockfd (connect_loop io addrs w) \<noteq> - 1 \<longleftrightarrow>
      sw_sockfd w \<noteq> - 1 \<or> (\<exists>addr \<in> set addrs. io_socket io addr \<noteq> - 1 \<and> io_connect io addr))"
proof (induction addrs arbitrary: w)
  case (Cons addr addrs)
  show ?case
  proof (cases "sw_sockfd w = - 1")
    case True
    let ?fd = "io_socket io addr"
    let ?w1 = "called (Do_Socket addr ?fd) (w\<lparr>sw_sockfd := ?fd\<rparr>)"
    let ?w2 = "called (Do_Connect ?fd addr (io_connect io addr)) ?w1"
    let ?w' = "if ?fd \<noteq> - 1 then if \<not> io_connect io addr then (called (Do_Close_Socket ?fd) ?w2)\<lparr>sw_sockfd := - 1\<rparr>
      else ?w2 else ?w1"
    have "sockets_balanced ?w'" and "stream_text (sw_calls ?w') = stream_text (sw_calls w)"
      and "sw_sockfd ?w' \<noteq> - 1 \<longleftrightarrow> ?fd \<noteq> - 1 \<and> io_connect io addr"
      using Cons.prems True by (auto simp: writer_defs)
    moreover have "connect_loop io (addr # addrs) w = connect_loop io addrs ?w'"
      using True by (simp add: Let_def)
    ultimately show ?thesis using Cons.IH [of ?w'] True by auto
  next
    case False
    then show ?thesis using Cons.prems by simp
  qed
qed simp

lemma SendLn_ok:
  assumes "sockets_balanced w" and "sw_sockfd w \<noteq> - 1" and "length m < 2 ^ 31 - 1"
    and "\<forall>k t. io_write io k t = int (length t)"
  shows "\<exists>w'. SendLn io m w = Inr w' \<and> sockets_balanced w' \<and> sw_sockfd w' \<noteq> - 1 \<and>
    stream_text (sw_calls w') = stream_text (sw_calls w) @ m @ [LF]"
proof -
  have "sint (int_of_size (length (m @ [LF]))) = int (length (m @ [LF]))"
    using assms(3) by (intro sint_int_of_size) simp
  then show ?thesis using assms by (auto simp: SendLn_def Send_message_def Let_def writer_defs)
qed

lemma CloseConnection_ok:
  assumes "sockets_balanced w" and "sw_sockfd w \<noteq> - 1"
  shows "\<exists>w'. CloseConnection w = Inr w' \<and> sockets_balanced w' \<and> sw_sockfd w' = - 1 \<and>
    stream_text (sw_calls w') = stream_text (sw_calls w)"
  using assms by (auto simp: CloseConnection_def writer_defs)

text \<open>The events with a message, as the reader is to see them.\<close>

definition streamed :: "(unit_test \<times> event) list \<Rightarrow> (string \<times> string) list list" where
  "streamed ues = List.map_filter (\<lambda>ue. event_fields (fst ue) (snd ue)) ues"

text \<open>A text that is lines, each with the fields.\<close>

inductive lines_encode :: "(string \<times> string) list list \<Rightarrow> string \<Rightarrow> bool" where
  no_line: "lines_encode [] []"
| one_line: "line_encodes kvs s \<Longrightarrow> lines_encode rest t \<Longrightarrow> lines_encode (kvs # rest) (s @ [LF] @ t)"

lemma lines_encode_read: "lines_encode kvss s \<Longrightarrow> read_stream s = Some kvss"
proof (induction rule: lines_encode.induct)
  case no_line
  then show ?case by (simp add: read_stream_def)
next
  case (one_line kvs s rest t)
  have "split_on LF (s @ LF # t) = s # split_on LF t"
    using line_encodes_read [OF one_line.hyps(1)] by (intro split_on_first) simp
  then show ?case using one_line line_encodes_read [OF one_line.hyps(1)] split_on_not_Nil
    by (simp add: read_stream_def)
qed

definition line_fits :: "unit_test \<times> event \<Rightarrow> bool" where
  "line_fits ue \<longleftrightarrow> (case stream_message (fst ue) (snd ue) of None \<Rightarrow> True | Some m \<Rightarrow> length m < 2 ^ 31 - 1)"

lemma stream_events_ok:
  assumes "sockets_balanced w" and "sw_sockfd w \<noteq> - 1" and "\<forall>k t. io_write io k t = int (length t)"
    and "\<forall>ue \<in> set ues. plain_names (fst ue) (snd ue) \<and> line_fits ue \<and> snd ue \<noteq> OnTestProgramEnd"
  shows "\<exists>w' t. stream_events io ues w = Inr w' \<and> sockets_balanced w' \<and> sw_sockfd w' \<noteq> - 1 \<and>
    lines_encode (streamed ues) t \<and> stream_text (sw_calls w') = stream_text (sw_calls w) @ t"
  using assms
proof (induction ues arbitrary: w)
  case Nil
  then show ?case by (auto simp: streamed_def map_filter_simps intro: no_line)
next
  case (Cons ue ues)
  have enc: "case stream_message (fst ue) (snd ue) of None \<Rightarrow> event_fields (fst ue) (snd ue) = None
    | Some m \<Rightarrow> \<exists>kvs. event_fields (fst ue) (snd ue) = Some kvs \<and> line_encodes kvs m"
    using Cons.prems(4) by (intro message_encodes) simp
  show ?case
  proof (cases "stream_message (fst ue) (snd ue)")
    case None
    then have "streamed (ue # ues) = streamed ues" using enc by (simp add: streamed_def map_filter_simps)
    then show ?thesis using None Cons by (simp add: stream_event_def)
  next
    case (Some m)
    then obtain kvs where kvs: "event_fields (fst ue) (snd ue) = Some kvs" "line_encodes kvs m" using enc by auto
    have "length m < 2 ^ 31 - 1" using Cons.prems(4) Some by (simp add: line_fits_def)
    then obtain w1 where w1: "SendLn io m w = Inr w1" "sockets_balanced w1" "sw_sockfd w1 \<noteq> - 1"
      "stream_text (sw_calls w1) = stream_text (sw_calls w) @ m @ [LF]"
      using SendLn_ok [OF Cons.prems(1,2) _ Cons.prems(3)] by blast
    obtain w' t where "stream_events io ues w1 = Inr w'" "sockets_balanced w'" "sw_sockfd w' \<noteq> - 1"
      "lines_encode (streamed ues) t" "stream_text (sw_calls w') = stream_text (sw_calls w1) @ t"
      using Cons.IH [OF w1(2,3) Cons.prems(3)] Cons.prems(4) by auto
    moreover have "stream_event io ue w = Inr w1" using Some w1(1) Cons.prems(4) by (simp add: stream_event_def)
    moreover have "streamed (ue # ues) = kvs # streamed ues" by (simp add: streamed_def map_filter_simps kvs(1))
    ultimately show ?thesis using w1(4) one_line [OF kvs(2)] by (intro exI [of _ w'] exI [of _ "m @ [LF] @ t"]) simp
  qed
qed

lemma streamed_append: "streamed (ues @ vs) = streamed ues @ streamed vs"
  by (simp add: streamed_def List.map_filter_def)

lemma stream_events_append: "stream_events io (ues @ vs) w = bind_res (stream_events io ues w) (stream_events io vs)"
  by (induction ues arbitrary: w) (auto simp: bind_res_def split: sum.splits)

lemma lines_encode_append:
  "lines_encode ks s \<Longrightarrow> lines_encode ls t \<Longrightarrow> lines_encode (ks @ ls) (s @ t)"
  by (induction rule: lines_encode.induct) (auto intro: one_line [simplified])

lemma StreamingListener_ok:
  assumes "\<exists>addr \<in> set (snd (io_getaddrinfo io (c_str host) (c_str port))). io_socket io addr \<noteq> - 1 \<and> io_connect io addr"
    and "\<forall>k t. io_write io k t = int (length t)"
  shows "\<exists>w. StreamingListener io host port = Inr w \<and> sockets_balanced w \<and> sw_sockfd w \<noteq> - 1 \<and>
    stream_text (sw_calls w) = ''gtest_streaming_protocol_version=1.0'' @ [LF]"
proof -
  obtain error_num addrs where a: "io_getaddrinfo io (c_str host) (c_str port) = (error_num, addrs)" by fastforce
  let ?w0 = "\<lparr>sw_sockfd = - 1, sw_host_name = host, sw_port_num = port, sw_calls = [], sw_warnings = []\<rparr>"
  define w1 where "w1 = (if error_num \<noteq> 0
    then stream_warning (''getaddrinfo() failed: '' @ io_gai_strerror io error_num) ?w0 else ?w0)"
  have w1: "sockets_balanced w1" "stream_text (sw_calls w1) = []" by (simp_all add: w1_def writer_defs)
  let ?w = "connect_loop io addrs w1"
  have w: "sockets_balanced ?w" "stream_text (sw_calls ?w) = []" "sw_sockfd ?w \<noteq> - 1"
    using connect_loop_ok [OF w1(1), of io addrs] w1(2) assms(1) a by auto
  have "SocketWriter io host port = Inr ?w"
    using w(3) by (simp add: SocketWriter_def MakeConnection_def a w1_def Let_def)
  then show ?thesis
    using SendLn_ok [OF w(1,3) _ assms(2), of "''gtest_streaming_protocol_version=1.0''"] w(2)
    by (auto simp: StreamingListener_def)
qed

text \<open>Without a connection the first message of the constructor fails a check.\<close>

lemma no_connection_aborts:
  assumes "\<forall>addr \<in> set (snd (io_getaddrinfo io (c_str host) (c_str port))). io_socket io addr = - 1 \<or> \<not> io_connect io addr"
  shows "StreamingListener io host port = Inl AssertionFailure"
proof -
  obtain error_num addrs where a: "io_getaddrinfo io (c_str host) (c_str port) = (error_num, addrs)" by fastforce
  let ?w0 = "\<lparr>sw_sockfd = - 1, sw_host_name = host, sw_port_num = port, sw_calls = [], sw_warnings = []\<rparr>"
  define w1 where "w1 = (if error_num \<noteq> 0
    then stream_warning (''getaddrinfo() failed: '' @ io_gai_strerror io error_num) ?w0 else ?w0)"
  have w1: "sockets_balanced w1" "sw_sockfd w1 = - 1" by (simp_all add: w1_def writer_defs)
  have "sw_sockfd (connect_loop io addrs w1) = - 1"
    using connect_loop_ok [OF w1(1), of io addrs] w1(2) assms a by auto
  then show ?thesis
    by (simp add: StreamingListener_def SocketWriter_def MakeConnection_def a w1_def [symmetric] Let_def SendLn_def Send_message_def)
qed

text \<open>
  C37. When one of the addresses of the host accepts the connection and every write takes its whole
  text, a run streams without failing: a reader that splits what was written at line ends, at \<open>&\<close> and
  at \<open>=\<close> and decodes the values gets the version and then exactly the events with their names,
  results, times, locations and messages, whatever characters the messages contain; and every
  descriptor that was opened is closed exactly once.
\<close>

theorem streamed_events_read_back:
  assumes "\<exists>addr \<in> set (snd (io_getaddrinfo io (c_str host) (c_str port))). io_socket io addr \<noteq> - 1 \<and> io_connect io addr"
    and "\<forall>k t. io_write io k t = int (length t)"
    and "\<forall>ue \<in> set ues. plain_names (fst ue) (snd ue) \<and> line_fits ue \<and> snd ue \<noteq> OnTestProgramEnd"
  shows "\<exists>w. stream_run io host port (ues @ [(u, OnTestProgramEnd)]) = Inr w \<and>
    read_stream (stream_text (sw_calls w)) =
      Some ([(''gtest_streaming_protocol_version'', ''1.0'')] # streamed (ues @ [(u, OnTestProgramEnd)])) \<and>
    mset (closed_sockets (sw_calls w)) = mset (opened_sockets (sw_calls w))"
proof -
  obtain w0 where w0: "StreamingListener io host port = Inr w0" "sockets_balanced w0" "sw_sockfd w0 \<noteq> - 1"
    "stream_text (sw_calls w0) = ''gtest_streaming_protocol_version=1.0'' @ [LF]"
    using StreamingListener_ok [OF assms(1,2)] by blast
  obtain w1 t where w1: "stream_events io ues w0 = Inr w1" "sockets_balanced w1" "sw_sockfd w1 \<noteq> - 1"
    "lines_encode (streamed ues) t" "stream_text (sw_calls w1) = stream_text (sw_calls w0) @ t"
    using stream_events_ok [OF w0(2,3) assms(2,3)] by blast
  let ?m = "Stream_OnTestProgramEnd u"
  have m: "stream_message u OnTestProgramEnd = Some ?m" by (simp add: stream_message_def)
  have short: "length ?m < 2 ^ 31 - 1" by (simp add: Stream_OnTestProgramEnd_def FormatBool_def)
  obtain w2 where w2: "SendLn io ?m w1 = Inr w2" "sockets_balanced w2" "sw_sockfd w2 \<noteq> - 1"
    "stream_text (sw_calls w2) = stream_text (sw_calls w1) @ ?m @ [LF]"
    using SendLn_ok [OF w1(2,3) short assms(2)] by blast
  obtain w3 where w3: "CloseConnection w2 = Inr w3" "sockets_balanced w3" "sw_sockfd w3 = - 1"
    "stream_text (sw_calls w3) = stream_text (sw_calls w2)"
    using CloseConnection_ok [OF w2(2,3)] by blast
  have run: "stream_run io host port (ues @ [(u, OnTestProgramEnd)]) = Inr w3"
    using w0(1) w1(1) w2(1) w3(1,3)
    by (simp add: stream_run_def stream_events_append stream_event_def m destroy_SocketWriter_def)
  obtain kvs where kvs: "event_fields u OnTestProgramEnd = Some kvs" "line_encodes kvs ?m"
    using message_encodes [of u OnTestProgramEnd] m by (auto simp: plain_names_def)
  have version: "line_encodes [(''gtest_streaming_protocol_version'', ''1.0'')] ''gtest_streaming_protocol_version=1.0''"
    by (rule line_of_one) (rule plain_literals field_values | simp)+
  have "lines_encode ([(''gtest_streaming_protocol_version'', ''1.0'')] # streamed ues @ [kvs])
      (''gtest_streaming_protocol_version=1.0'' @ [LF] @ t @ ?m @ [LF])"
    using one_line [OF version lines_encode_append [OF w1(4) one_line [OF kvs(2) no_line]]] by simp
  then have "read_stream (stream_text (sw_calls w3)) =
      Some ([(''gtest_streaming_protocol_version'', ''1.0'')] # streamed (ues @ [(u, OnTestProgramEnd)]))"
    using w0(4) w1(5) w2(4) w3(4) kvs(1)
    by (intro lines_encode_read) (simp add: streamed_append streamed_def [of "[_]"] map_filter_simps)
  moreover have "mset (closed_sockets (sw_calls w3)) = mset (opened_sockets (sw_calls w3))"
    using w3(2,3) by (simp add: sockets_balanced_def)
  ultimately show ?thesis using run by blast
qed

text \<open>The first address refuses the connection, the second accepts it; a message has all separators.\<close>

definition sample_stream_io :: stream_io where
  "sample_stream_io = \<lparr>io_getaddrinfo = (\<lambda>host port. (0, [1, 2])), io_gai_strerror = (\<lambda>n. ''error''),
     io_socket = (\<lambda>addr. int addr + 3), io_connect = (\<lambda>addr. addr = 2), io_write = (\<lambda>k t. int (length t))\<rparr>"

definition sample_part :: test_part_result where
  "sample_part = TestPartResult kNonFatalFailure (Some ''a.cc'') 7 (''x=1&y'' @ [LF] @ ''50%'')"

theorem streamed_events_read_back_witness:
  "\<exists>w. stream_run sample_stream_io ''localhost'' ''80'' [(new_UnitTestImpl, OnTestProgramStart),
      (new_UnitTestImpl, OnTestPartResult sample_part), (new_UnitTestImpl, OnTestProgramEnd)] = Inr w \<and>
    read_stream (stream_text (sw_calls w)) = Some [[(''gtest_streaming_protocol_version'', ''1.0'')],
      [(''event'', ''TestProgramStart'')],
      [(''event'', ''TestPartResult''), (''file'', ''a.cc''), (''line'', ''7''), (''message'', ''x=1&y'' @ [LF] @ ''50%'')],
      [(''event'', ''TestProgramEnd''), (''passed'', ''1'')]] \<and>
    mset (closed_sockets (sw_calls w)) = mset (opened_sockets (sw_calls w))"
proof -
  have io: "io_getaddrinfo sample_stream_io h p = (0, [1, 2])" "io_socket sample_stream_io a = int a + 3"
    "io_connect sample_stream_io a = (a = 2)" "io_write sample_stream_io k t = int (length t)" for h p a k t
    by (simp_all add: sample_stream_io_def)
  have "length (Stream_OnTestPartResult sample_part) \<le> 100" by code_simp
  then have fits: "line_fits (new_UnitTestImpl, OnTestProgramStart)" "line_fits (new_UnitTestImpl, OnTestPartResult sample_part)"
    by (simp_all add: line_fits_def stream_message_def Stream_OnTestProgramStart_def)
  have fields: "event_fields new_UnitTestImpl OnTestProgramStart = Some [(''event'', ''TestProgramStart'')]"
    "event_fields new_UnitTestImpl (OnTestPartResult sample_part) = Some [(''event'', ''TestPartResult''),
      (''file'', ''a.cc''), (''line'', ''7''), (''message'', ''x=1&y'' @ [LF] @ ''50%'')]"
    "event_fields new_UnitTestImpl OnTestProgramEnd = Some [(''event'', ''TestProgramEnd''), (''passed'', ''1'')]"
    by code_simp+
  show ?thesis
    using streamed_events_read_back [of sample_stream_io "''localhost''" "''80''" "[(new_UnitTestImpl, OnTestProgramStart),
      (new_UnitTestImpl, OnTestPartResult sample_part)]" new_UnitTestImpl]
    by (auto simp: io fits fields plain_names_def streamed_def map_filter_simps)
qed

end
