(* ===== verification/Gtest_Assert.thy ===== *)
theory Gtest_Assert
  imports Gtest_Result Gtest_Printers Gtest_Float
begin

text \<open>
  The verdicts of assertions and their messages: \<open>AssertionResult\<close> (\<open>gtest.h\<close>, \<open>gtest.cc\<close>), the
  comparison helpers behind \<open>EXPECT_EQ\<close>, \<open>EXPECT_STREQ\<close>, \<open>EXPECT_PRED2\<close> and their relatives, and the
  substring predicates. A C string is the list of the characters before its terminator, \<open>None\<close> is
  \<open>NULL\<close>; the text of an expression is what the preprocessor makes of it. What \<open>operator<<\<close> prints
  of a user's value and the result of a user's comparison are arguments. Shown: the message of a
  failed equality assertion can be read back, for C strings to exactly the two operands.
\<close>

section \<open>Results of assertions\<close>

record assertion_result =
  ar_success :: bool
  ar_message :: "string option"

definition gtest_AssertionSuccess :: assertion_result where
  "gtest_AssertionSuccess = \<lparr>ar_success = True, ar_message = None\<rparr>"

definition gtest_AssertionFailure :: assertion_result where
  "gtest_AssertionFailure = \<lparr>ar_success = False, ar_message = None\<rparr>"

definition ar_text :: "assertion_result \<Rightarrow> string" where
  "ar_text r = (case ar_message r of None \<Rightarrow> [] | Some m \<Rightarrow> c_str m)"

text \<open>The argument is the text that was streamed into the message.\<close>

definition AppendMessage :: "string \<Rightarrow> assertion_result \<Rightarrow> assertion_result" where
  "AppendMessage a_message r =
     r\<lparr>ar_message := Some ((case ar_message r of None \<Rightarrow> [] | Some m \<Rightarrow> m) @ c_str (StringStreamToString a_message))\<rparr>"

definition negated_result :: "assertion_result \<Rightarrow> assertion_result" where
  "negated_result r =
     (let negation = \<lparr>ar_success = \<not> ar_success r, ar_message = None\<rparr> in
      case ar_message r of None \<Rightarrow> negation | Some m \<Rightarrow> AppendMessage m negation)"

text \<open>\<open>AssertionFailure() << a << b\<close> and so on.\<close>

definition failure_with :: "string list \<Rightarrow> assertion_result" where
  "failure_with texts = foldl (\<lambda>r t. AppendMessage t r) gtest_AssertionFailure texts"

text \<open>What \<open>Message::operator<<\<close> adds to the stream for a C string.\<close>

definition stream_c_string :: "string option \<Rightarrow> string" where
  "stream_c_string s = (case s of None \<Rightarrow> ''(null)'' | Some t \<Rightarrow> t)"

definition EqFailure :: "string \<Rightarrow> string \<Rightarrow> string \<Rightarrow> string \<Rightarrow> bool \<Rightarrow> assertion_result" where
  "EqFailure expected_expression actual_expression expected_value actual_value ignoring_case =
     failure_with [StringStreamToString
       (''Value of: '' @ actual_expression @
        (if actual_value \<noteq> actual_expression then LF # ''  Actual: '' @ actual_value else []) @
        LF # ''Expected: '' @ expected_expression @
        (if ignoring_case then '' (ignoring case)'' else []) @
        (if expected_value \<noteq> expected_expression then LF # ''Which is: '' @ expected_value else []))]"

definition GetBoolAssertionFailureMessage :: "assertion_result \<Rightarrow> string \<Rightarrow> string \<Rightarrow> string \<Rightarrow> string" where
  "GetBoolAssertionFailureMessage r expression_text actual_predicate_value expected_predicate_value =
     StringStreamToString
       (''Value of: '' @ expression_text @ LF # ''  Actual: '' @ actual_predicate_value @
        (if ar_text r \<noteq> [] then '' ('' @ ar_text r @ '')'' else []) @
        LF # ''Expected: '' @ expected_predicate_value)"

section \<open>Comparisons\<close>

text \<open>
  \<open>FormatForComparison\<close>: a pointer to characters is shown as a pointer, unless the other operand is a
  string object. An array decays to a pointer; \<open>address\<close> is the text of its address, and a character
  array without a terminator is read beyond its end.
\<close>

definition decayed :: "string \<Rightarrow> cpp_value \<Rightarrow> cpp_value" where
  "decayed address v =
     (case v of
        Char_Array a \<Rightarrow> Char_Pointer (Some (address, takeWhile (\<lambda>c. c \<noteq> 0) a))
      | Wide_Array a \<Rightarrow> Wide_Pointer (Some (address, takeWhile (\<lambda>c. c \<noteq> 0) a))
      | Array_Of vs \<Rightarrow> Pointer (Some address)
      | _ \<Rightarrow> v)"

definition unterminated :: "cpp_value \<Rightarrow> bool" where
  "unterminated v = (case v of Char_Array a \<Rightarrow> 0 \<notin> set a | Wide_Array a \<Rightarrow> 0 \<notin> set a | _ \<Rightarrow> False)"

definition FormatForComparisonFailureMessage :: "string \<Rightarrow> cpp_value \<Rightarrow> cpp_value \<Rightarrow> string res" where
  "FormatForComparisonFailureMessage address v other_operand =
     (case (decayed address v, other_operand) of
        (Char_Pointer p, Std_String s) \<Rightarrow>
          if unterminated v then Inl OutOfBounds else PrintToString (Char_Pointer p)
      | (Wide_Pointer p, Std_WString s) \<Rightarrow>
          if unterminated v then Inl OutOfBounds else PrintToString (Wide_Pointer p)
      | (Char_Pointer p, _) \<Rightarrow> PrintToString (Pointer (map_option fst p))
      | (Wide_Pointer p, _) \<Rightarrow> PrintToString (Pointer (map_option fst p))
      | (d, _) \<Rightarrow> PrintToString d)"

text \<open>An operand is its value with the text of its address; \<open>equal\<close> is what \<open>==\<close> answers.\<close>

definition CmpHelperEQ :: "string \<Rightarrow> string \<Rightarrow> bool \<Rightarrow> string \<times> cpp_value \<Rightarrow> string \<times> cpp_value \<Rightarrow> assertion_result res" where
  "CmpHelperEQ expected_expression actual_expression equal expected actual =
     (if equal then Inr gtest_AssertionSuccess
      else
        bind_res (FormatForComparisonFailureMessage (fst expected) (snd expected) (snd actual)) (\<lambda>e.
        bind_res (FormatForComparisonFailureMessage (fst actual) (snd actual) (snd expected)) (\<lambda>a.
          Inr (EqFailure expected_expression actual_expression e a False))))"

text \<open>\<open>EqHelper<true>::Compare\<close> for a null literal and a pointer.\<close>

definition EqHelper_Compare_null :: "string \<Rightarrow> string \<Rightarrow> string option \<Rightarrow> assertion_result res" where
  "EqHelper_Compare_null expected_expression actual_expression actual =
     CmpHelperEQ expected_expression actual_expression (actual = None) ([], Pointer None) ([], Pointer actual)"

definition CmpHelper_op ::
  "string \<Rightarrow> bool \<Rightarrow> string \<Rightarrow> string \<Rightarrow> string \<times> cpp_value \<Rightarrow> string \<times> cpp_value \<Rightarrow> assertion_result res" where
  "CmpHelper_op op holds expr1 expr2 val1 val2 =
     (if holds then Inr gtest_AssertionSuccess
      else
        bind_res (FormatForComparisonFailureMessage (fst val1) (snd val1) (snd val2)) (\<lambda>s1.
        bind_res (FormatForComparisonFailureMessage (fst val2) (snd val2) (snd val1)) (\<lambda>s2.
          Inr (failure_with [''Expected: ('', expr1, '') '' @ op @ '' ('', expr2, ''), actual: '', s1, '' vs '', s2]))))"

text \<open>The overloads for \<open>BiggestInt\<close>, a \<open>long long\<close>.\<close>

definition biggest_int :: "64 word \<Rightarrow> string \<times> cpp_value" where
  "biggest_int n = ([], Streamable (dec_of_int (sint n)))"

definition CmpHelperEQ_int :: "string \<Rightarrow> string \<Rightarrow> 64 word \<Rightarrow> 64 word \<Rightarrow> assertion_result res" where
  "CmpHelperEQ_int expected_expression actual_expression expected actual =
     CmpHelperEQ expected_expression actual_expression (expected = actual) (biggest_int expected) (biggest_int actual)"

definition CmpHelperNE_int :: "string \<Rightarrow> string \<Rightarrow> 64 word \<Rightarrow> 64 word \<Rightarrow> assertion_result res" where
  "CmpHelperNE_int expr1 expr2 val1 val2 =
     CmpHelper_op ''!='' (val1 \<noteq> val2) expr1 expr2 (biggest_int val1) (biggest_int val2)"

definition CmpHelperLE_int :: "string \<Rightarrow> string \<Rightarrow> 64 word \<Rightarrow> 64 word \<Rightarrow> assertion_result res" where
  "CmpHelperLE_int expr1 expr2 val1 val2 =
     CmpHelper_op ''<='' (sint val1 \<le> sint val2) expr1 expr2 (biggest_int val1) (biggest_int val2)"

definition CmpHelperLT_int :: "string \<Rightarrow> string \<Rightarrow> 64 word \<Rightarrow> 64 word \<Rightarrow> assertion_result res" where
  "CmpHelperLT_int expr1 expr2 val1 val2 =
     CmpHelper_op ''<'' (sint val1 < sint val2) expr1 expr2 (biggest_int val1) (biggest_int val2)"

definition CmpHelperGE_int :: "string \<Rightarrow> string \<Rightarrow> 64 word \<Rightarrow> 64 word \<Rightarrow> assertion_result res" where
  "CmpHelperGE_int expr1 expr2 val1 val2 =
     CmpHelper_op ''>='' (sint val1 \<ge> sint val2) expr1 expr2 (biggest_int val1) (biggest_int val2)"

definition CmpHelperGT_int :: "string \<Rightarrow> string \<Rightarrow> 64 word \<Rightarrow> 64 word \<Rightarrow> assertion_result res" where
  "CmpHelperGT_int expr1 expr2 val1 val2 =
     CmpHelper_op ''>'' (sint val1 > sint val2) expr1 expr2 (biggest_int val1) (biggest_int val2)"

subsection \<open>C strings\<close>

text \<open>A C string as a value to print; its address is not shown by \<open>PrintToString\<close> and left empty.\<close>

definition char_bytes :: "string \<Rightarrow> 8 word list" where
  "char_bytes s = map (\<lambda>c. word_of_nat (of_char c)) s"

definition char_pointer :: "string option \<Rightarrow> cpp_value" where
  "char_pointer s = Char_Pointer (map_option (\<lambda>t. ([], char_bytes t)) s)"

definition wide_pointer :: "32 word list option \<Rightarrow> cpp_value" where
  "wide_pointer s = Wide_Pointer (map_option (\<lambda>t. ([], t)) s)"

definition CmpHelperSTREQ :: "string \<Rightarrow> string \<Rightarrow> string option \<Rightarrow> string option \<Rightarrow> assertion_result res" where
  "CmpHelperSTREQ expected_expression actual_expression expected actual =
     (if CStringEquals expected actual then Inr gtest_AssertionSuccess
      else
        bind_res (PrintToString (char_pointer expected)) (\<lambda>e.
        bind_res (PrintToString (char_pointer actual)) (\<lambda>a.
          Inr (EqFailure expected_expression actual_expression e a False))))"

definition CmpHelperSTRCASEEQ :: "string \<Rightarrow> string \<Rightarrow> string option \<Rightarrow> string option \<Rightarrow> assertion_result res" where
  "CmpHelperSTRCASEEQ expected_expression actual_expression expected actual =
     (if CaseInsensitiveCStringEquals expected actual then Inr gtest_AssertionSuccess
      else
        bind_res (PrintToString (char_pointer expected)) (\<lambda>e.
        bind_res (PrintToString (char_pointer actual)) (\<lambda>a.
          Inr (EqFailure expected_expression actual_expression e a True))))"

definition CmpHelperSTRNE :: "string \<Rightarrow> string \<Rightarrow> string option \<Rightarrow> string option \<Rightarrow> assertion_result" where
  "CmpHelperSTRNE s1_expression s2_expression s1 s2 =
     (if \<not> CStringEquals s1 s2 then gtest_AssertionSuccess
      else failure_with [''Expected: ('', s1_expression, '') != ('', s2_expression, ''), actual: \"'',
        stream_c_string s1, ''\" vs \"'', stream_c_string s2, ''\"''])"

definition CmpHelperSTRCASENE :: "string \<Rightarrow> string \<Rightarrow> string option \<Rightarrow> string option \<Rightarrow> assertion_result" where
  "CmpHelperSTRCASENE s1_expression s2_expression s1 s2 =
     (if \<not> CaseInsensitiveCStringEquals s1 s2 then gtest_AssertionSuccess
      else failure_with [''Expected: ('', s1_expression, '') != ('', s2_expression,
        '') (ignoring case), actual: \"'', stream_c_string s1, ''\" vs \"'', stream_c_string s2, ''\"''])"

definition CmpHelperSTREQ_wide ::
  "string \<Rightarrow> string \<Rightarrow> 32 word list option \<Rightarrow> 32 word list option \<Rightarrow> assertion_result res" where
  "CmpHelperSTREQ_wide expected_expression actual_expression expected actual =
     (if WideCStringEquals expected actual then Inr gtest_AssertionSuccess
      else
        bind_res (PrintToString (wide_pointer expected)) (\<lambda>e.
        bind_res (PrintToString (wide_pointer actual)) (\<lambda>a.
          Inr (EqFailure expected_expression actual_expression e a False))))"

definition CmpHelperSTRNE_wide ::
  "string \<Rightarrow> string \<Rightarrow> 32 word list option \<Rightarrow> 32 word list option \<Rightarrow> assertion_result res" where
  "CmpHelperSTRNE_wide s1_expression s2_expression s1 s2 =
     (if \<not> WideCStringEquals s1 s2 then Inr gtest_AssertionSuccess
      else
        bind_res (PrintToString (wide_pointer s1)) (\<lambda>t1.
        bind_res (PrintToString (wide_pointer s2)) (\<lambda>t2.
          Inr (failure_with [''Expected: ('', s1_expression, '') != ('', s2_expression, ''), actual: '',
            t1, '' vs '', t2]))))"

subsection \<open>Floating-point numbers\<close>

text \<open>\<open>val1 < val2\<close> of the hardware, on the bits; \<open>show\<close> prints with \<open>digits10 + 2\<close> digits.\<close>

definition signed_magnitude :: "'a::len word \<Rightarrow> int" where
  "signed_magnitude w = (if negative w then - int (magnitude w) else int (magnitude w))"

definition float_less :: "nat \<Rightarrow> 'a::len word \<Rightarrow> 'a word \<Rightarrow> bool" where
  "float_less frac v w \<longleftrightarrow> \<not> is_nan frac v \<and> \<not> is_nan frac w \<and> signed_magnitude v < signed_magnitude w"

definition CmpHelperFloatingPointEQ ::
  "('a::len word \<Rightarrow> string) \<Rightarrow> nat \<Rightarrow> string \<Rightarrow> string \<Rightarrow> 'a word \<Rightarrow> 'a word \<Rightarrow> assertion_result" where
  "CmpHelperFloatingPointEQ show frac expected_expression actual_expression expected actual =
     (if AlmostEquals frac expected actual then gtest_AssertionSuccess
      else EqFailure expected_expression actual_expression
        (StringStreamToString (show expected)) (StringStreamToString (show actual)) False)"

definition FloatingPointLE ::
  "('a::len word \<Rightarrow> string) \<Rightarrow> nat \<Rightarrow> string \<Rightarrow> string \<Rightarrow> 'a word \<Rightarrow> 'a word \<Rightarrow> assertion_result" where
  "FloatingPointLE show frac expr1 expr2 val1 val2 =
     (if float_less frac val1 val2 then gtest_AssertionSuccess
      else if AlmostEquals frac val1 val2 then gtest_AssertionSuccess
      else failure_with [''Expected: ('', expr1, '') <= ('', expr2, '')'' @ [LF], ''  Actual: '',
        StringStreamToString (show val1), '' vs '', StringStreamToString (show val2)])"

definition FloatLE :: "(32 word \<Rightarrow> string) \<Rightarrow> string \<Rightarrow> string \<Rightarrow> 32 word \<Rightarrow> 32 word \<Rightarrow> assertion_result" where
  "FloatLE show = FloatingPointLE show 23"

definition DoubleLE :: "(64 word \<Rightarrow> string) \<Rightarrow> string \<Rightarrow> string \<Rightarrow> 64 word \<Rightarrow> 64 word \<Rightarrow> assertion_result" where
  "DoubleLE show = FloatingPointLE show 52"

subsection \<open>Predicates\<close>

text \<open>The helpers of \<open>EXPECT_PRED1\<close> to \<open>EXPECT_PRED5\<close>; a value is given with its expression.\<close>

definition assert_pred_failure :: "string \<Rightarrow> (string \<times> string) list \<Rightarrow> assertion_result" where
  "assert_pred_failure pred_text evs =
     failure_with ([pred_text, ''(''] @
       concat (map (\<lambda>(i, e). if i = 0 then [e] else ['', '', e]) (List.enumerate 0 (map fst evs))) @
       ['') evaluates to false, where''] @
       concat (map (\<lambda>(e, v). [[LF], e, '' evaluates to '', v]) evs))"

definition AssertPred1Helper :: "string \<Rightarrow> bool \<Rightarrow> string \<times> string \<Rightarrow> assertion_result" where
  "AssertPred1Helper pred_text holds v1 =
     (if holds then gtest_AssertionSuccess else assert_pred_failure pred_text [v1])"

definition AssertPred2Helper :: "string \<Rightarrow> bool \<Rightarrow> string \<times> string \<Rightarrow> string \<times> string \<Rightarrow> assertion_result" where
  "AssertPred2Helper pred_text holds v1 v2 =
     (if holds then gtest_AssertionSuccess else assert_pred_failure pred_text [v1, v2])"

definition AssertPred3Helper ::
  "string \<Rightarrow> bool \<Rightarrow> string \<times> string \<Rightarrow> string \<times> string \<Rightarrow> string \<times> string \<Rightarrow> assertion_result" where
  "AssertPred3Helper pred_text holds v1 v2 v3 =
     (if holds then gtest_AssertionSuccess else assert_pred_failure pred_text [v1, v2, v3])"

definition AssertPred4Helper ::
  "string \<Rightarrow> bool \<Rightarrow> string \<times> string \<Rightarrow> string \<times> string \<Rightarrow> string \<times> string \<Rightarrow> string \<times> string \<Rightarrow> assertion_result" where
  "AssertPred4Helper pred_text holds v1 v2 v3 v4 =
     (if holds then gtest_AssertionSuccess else assert_pred_failure pred_text [v1, v2, v3, v4])"

definition AssertPred5Helper ::
  "string \<Rightarrow> bool \<Rightarrow> string \<times> string \<Rightarrow> string \<times> string \<Rightarrow> string \<times> string \<Rightarrow> string \<times> string \<Rightarrow>
   string \<times> string \<Rightarrow> assertion_result" where
  "AssertPred5Helper pred_text holds v1 v2 v3 v4 v5 =
     (if holds then gtest_AssertionSuccess else assert_pred_failure pred_text [v1, v2, v3, v4, v5])"

section \<open>Substrings\<close>

definition IsSubstringPred :: "string option \<Rightarrow> string option \<Rightarrow> bool" where
  "IsSubstringPred needle haystack =
     (case (needle, haystack) of
        (Some n, Some h) \<Rightarrow> strstr h n \<noteq> None
      | _ \<Rightarrow> needle = None \<and> haystack = None)"

text \<open>\<open>wcsstr\<close> and \<open>find\<close> of a string object: whether the needle is found.\<close>

fun find_from :: "'a list \<Rightarrow> 'a list \<Rightarrow> bool" where
  "find_from [] needle = (needle = [])"
| "find_from (c # s) needle = (take (length needle) (c # s) = needle \<or> find_from s needle)"

definition IsSubstringPred_wide :: "32 word list option \<Rightarrow> 32 word list option \<Rightarrow> bool" where
  "IsSubstringPred_wide needle haystack =
     (case (needle, haystack) of
        (Some n, Some h) \<Rightarrow> find_from h n
      | _ \<Rightarrow> needle = None \<and> haystack = None)"

definition IsSubstringPred_object :: "'a list \<Rightarrow> 'a list \<Rightarrow> bool" where
  "IsSubstringPred_object needle haystack = find_from haystack needle"

definition IsSubstringImpl ::
  "bool \<Rightarrow> string \<Rightarrow> string \<Rightarrow> bool \<Rightarrow> bool \<Rightarrow> string \<Rightarrow> string \<Rightarrow> assertion_result" where
  "IsSubstringImpl expected_to_be_substring needle_expr haystack_expr is_substring is_wide_string needle haystack =
     (if is_substring = expected_to_be_substring then gtest_AssertionSuccess
      else
        (let begin_string_quote = (if is_wide_string then ''L\"'' else ''\"'') in
         failure_with [''Value of: '', needle_expr, [LF], ''  Actual: '', begin_string_quote, needle, ''\"'' @ [LF],
           ''Expected: '', (if expected_to_be_substring then [] else ''not ''), ''a substring of '', haystack_expr,
           [LF], ''Which is: '', begin_string_quote, haystack, ''\"'']))"

definition IsSubstring :: "string \<Rightarrow> string \<Rightarrow> string option \<Rightarrow> string option \<Rightarrow> assertion_result" where
  "IsSubstring needle_expr haystack_expr needle haystack =
     IsSubstringImpl True needle_expr haystack_expr (IsSubstringPred needle haystack) False
       (stream_c_string needle) (stream_c_string haystack)"

definition IsNotSubstring :: "string \<Rightarrow> string \<Rightarrow> string option \<Rightarrow> string option \<Rightarrow> assertion_result" where
  "IsNotSubstring needle_expr haystack_expr needle haystack =
     IsSubstringImpl False needle_expr haystack_expr (IsSubstringPred needle haystack) False
       (stream_c_string needle) (stream_c_string haystack)"

definition IsSubstring_wide ::
  "nat \<Rightarrow> string \<Rightarrow> string \<Rightarrow> 32 word list option \<Rightarrow> 32 word list option \<Rightarrow> assertion_result" where
  "IsSubstring_wide sizeof_wchar_t needle_expr haystack_expr needle haystack =
     IsSubstringImpl True needle_expr haystack_expr (IsSubstringPred_wide needle haystack) True
       (ShowWideCString sizeof_wchar_t needle) (ShowWideCString sizeof_wchar_t haystack)"

definition IsNotSubstring_wide ::
  "nat \<Rightarrow> string \<Rightarrow> string \<Rightarrow> 32 word list option \<Rightarrow> 32 word list option \<Rightarrow> assertion_result" where
  "IsNotSubstring_wide sizeof_wchar_t needle_expr haystack_expr needle haystack =
     IsSubstringImpl False needle_expr haystack_expr (IsSubstringPred_wide needle haystack) True
       (ShowWideCString sizeof_wchar_t needle) (ShowWideCString sizeof_wchar_t haystack)"

definition IsSubstring_string :: "string \<Rightarrow> string \<Rightarrow> string \<Rightarrow> string \<Rightarrow> assertion_result" where
  "IsSubstring_string needle_expr haystack_expr needle haystack =
     IsSubstringImpl True needle_expr haystack_expr (IsSubstringPred_object needle haystack) False needle haystack"

definition IsNotSubstring_string :: "string \<Rightarrow> string \<Rightarrow> string \<Rightarrow> string \<Rightarrow> assertion_result" where
  "IsNotSubstring_string needle_expr haystack_expr needle haystack =
     IsSubstringImpl False needle_expr haystack_expr (IsSubstringPred_object needle haystack) False needle haystack"

definition IsSubstring_wstring :: "nat \<Rightarrow> string \<Rightarrow> string \<Rightarrow> 32 word list \<Rightarrow> 32 word list \<Rightarrow> assertion_result" where
  "IsSubstring_wstring sizeof_wchar_t needle_expr haystack_expr needle haystack =
     IsSubstringImpl True needle_expr haystack_expr (IsSubstringPred_object needle haystack) True
       (StreamWideCharsToMessage sizeof_wchar_t needle) (StreamWideCharsToMessage sizeof_wchar_t haystack)"

definition IsNotSubstring_wstring :: "nat \<Rightarrow> string \<Rightarrow> string \<Rightarrow> 32 word list \<Rightarrow> 32 word list \<Rightarrow> assertion_result" where
  "IsNotSubstring_wstring sizeof_wchar_t needle_expr haystack_expr needle haystack =
     IsSubstringImpl False needle_expr haystack_expr (IsSubstringPred_object needle haystack) True
       (StreamWideCharsToMessage sizeof_wchar_t needle) (StreamWideCharsToMessage sizeof_wchar_t haystack)"

section \<open>Reading a message\<close>

text \<open>The part of a text behind a prefix it must have.\<close>

definition behind :: "string \<Rightarrow> string \<Rightarrow> string option" where
  "behind prefix s = (if take (length prefix) s = prefix then Some (drop (length prefix) s) else None)"

lemma behind_prefix [simp]: "behind p (p @ s) = Some s"
  by (simp add: behind_def)

text \<open>
  What a person reads in the message of a failed equality assertion: the expected and the actual
  operand, each with its expression and its value. A value that reads like its expression is left out.
\<close>

definition read_eq_failure :: "bool \<Rightarrow> string \<Rightarrow> ((string \<times> string) \<times> (string \<times> string)) option" where
  "read_eq_failure ignoring_case msg =
     (case split_on LF msg of
        l # ls \<Rightarrow>
          Option.bind (behind ''Value of: '' l) (\<lambda>ae.
            let (av, ls') = (case ls of
                [] \<Rightarrow> (ae, [])
              | l' # ls' \<Rightarrow> (case behind ''  Actual: '' l' of Some v \<Rightarrow> (v, ls') | None \<Rightarrow> (ae, ls)))
            in case ls' of
                l' # ls'' \<Rightarrow>
                  Option.bind (behind ''Expected: '' l') (\<lambda>e.
                    let ee = (if ignoring_case then take (length e - 16) e else e) in
                    case ls'' of
                      [] \<Rightarrow> Some ((ee, ee), (ae, av))
                    | [l''] \<Rightarrow> map_option (\<lambda>ev. ((ee, ev), (ae, av))) (behind ''Which is: '' l'')
                    | _ \<Rightarrow> None)
              | [] \<Rightarrow> None)
      | [] \<Rightarrow> None)"

text \<open>A text on one line without a NUL: what the preprocessor makes of an expression.\<close>

definition one_line_text :: "string \<Rightarrow> bool" where
  "one_line_text s \<longleftrightarrow> LF \<notin> set s \<and> NUL \<notin> set s"

lemma ar_text_failure_one: "NUL \<notin> set t \<Longrightarrow> ar_text (failure_with [t]) = t"
  by (simp add: failure_with_def AppendMessage_def gtest_AssertionFailure_def ar_text_def
      StringStreamToString_id c_str_id)

lemma ar_success_failure_with [simp]: "ar_success (failure_with ts) = False"
proof -
  have "ar_success (foldl (\<lambda>r t. AppendMessage t r) r ts) = ar_success r" for r
    by (induction ts arbitrary: r) (auto simp: AppendMessage_def)
  then show ?thesis by (simp add: failure_with_def gtest_AssertionFailure_def)
qed

lemma EqFailure_failed [simp]: "ar_success (EqFailure ee ae ev av ic) = False"
  by (simp add: EqFailure_def)

lemma gtest_AssertionSuccess_ok [simp]: "ar_success gtest_AssertionSuccess"
  by (simp add: gtest_AssertionSuccess_def)

lemma EqFailure_reads_back:
  assumes "one_line_text ee" and "one_line_text ae" and "one_line_text ev" and "one_line_text av"
  shows "read_eq_failure ic (ar_text (EqFailure ee ae ev av ic)) = Some ((ee, ev), (ae, av))"
proof -
  let ?ic = "if ic then '' (ignoring case)'' else []"
  let ?l1 = "''Value of: '' @ ae" and ?l2 = "''  Actual: '' @ av" and ?l3 = "''Expected: '' @ ee @ ?ic"
    and ?l4 = "''Which is: '' @ ev"
  let ?ls = "[?l1] @ (if av \<noteq> ae then [?l2] else []) @ [?l3] @ (if ev \<noteq> ee then [?l4] else [])"
  let ?m = "?l1 @ (if av \<noteq> ae then LF # ?l2 else []) @ LF # ?l3 @ (if ev \<noteq> ee then LF # ?l4 else [])"
  have m: "ar_text (EqFailure ee ae ev av ic) = ?m"
    using assms unfolding EqFailure_def
    by (subst ar_text_failure_one) (auto simp: StringStreamToString_id one_line_text_def)
  have one: "LF \<notin> set ?l1" "LF \<notin> set ?l2" "LF \<notin> set ?l3" "LF \<notin> set ?l4"
    using assms by (auto simp: one_line_text_def)
  have lines: "split_on LF ?m = ?ls"
    using split_on_first [OF one(1)] split_on_first [OF one(2)] split_on_first [OF one(3)]
      split_on_plain [OF one(3)] split_on_plain [OF one(4)] by simp
  have b1: "behind ''Value of: '' ?l1 = Some ae" and b2: "behind ''  Actual: '' ?l2 = Some av"
    and b3: "behind ''Expected: '' ?l3 = Some (ee @ ?ic)" and b4: "behind ''Which is: '' ?l4 = Some ev"
    and b5: "behind ''  Actual: '' ?l3 = None"
    by (simp_all only: behind_prefix) (simp add: behind_def)
  show ?thesis
    unfolding m read_eq_failure_def lines using b1 b2 b3 b4 b5
    by (cases "av = ae"; cases "ev = ee") (simp_all add: Let_def)
qed

section \<open>Reading an operand\<close>

definition read_c_string_operand :: "string \<Rightarrow> string option option" where
  "read_c_string_operand s =
     (if s = ''NULL'' then Some None
      else map_option (\<lambda>ns. Some (map char_of ns)) (read_string_literal TYPE(8) s))"

lemma strcasecmp0_map: "strcasecmp0 s t \<longleftrightarrow> map to_lower s = map to_lower t"
  by (induction s t rule: strcasecmp0.induct) auto

lemma char_bytes_unat: "map unat (char_bytes s) = map of_char s"
proof -
  have "unat (word_of_nat (of_char c) :: 8 word) = of_char c" for c
    using nat_of_char_less_256 [of c] by (simp add: unat_of_nat)
  then show ?thesis by (simp add: char_bytes_def)
qed

lemma printed_char_one_line:
  fixes c :: "8 word"
  shows "one_line_text (fst (PrintAsStringLiteralTo c))"
proof -
  have plain: "xdigit_value LF = None" "xdigit_value NUL = None" "simple_escape LF = None" "simple_escape NUL = None"
    by (simp_all add: xdigit_value_def simple_escape_def)
  have hex: "LF \<notin> set (hex_of_nat n) \<and> NUL \<notin> set (hex_of_nat n)" for n
    using hex_of_nat_digits [of n] plain by (auto simp: list_all_iff)
  have codes: "of_char LF = (10 :: nat)" "of_char NUL = (0 :: nat)" by simp_all
  have bits: "LENGTH(8) \<le> 32" by simp
  from bits show ?thesis
  proof (cases rule: PrintAsStringLiteralTo_cases [where c = c])
    case as_is
    have "of_char (char_of (unat c)) = unat c" using as_is by (simp add: of_char_of)
    then have code: "of_char (char_of (unat c)) \<noteq> (10 :: nat)" "of_char (char_of (unat c)) \<noteq> (0 :: nat)"
      using as_is by linarith+
    have "char_of (unat c) \<noteq> LF" using code(1) by (rule contrapos_nn) (simp only: codes)
    moreover have "char_of (unat c) \<noteq> NUL" using code(2) by (rule contrapos_nn) (simp only: codes)
    ultimately show ?thesis using as_is by (simp add: one_line_text_def)
  qed (use plain hex in \<open>auto simp: one_line_text_def\<close>)
qed

lemma printed_chars_one_line: "one_line_text (chars_loop is_hex (cs :: 8 word list))"
proof (induction cs arbitrary: is_hex)
  case (Cons c cs)
  then show ?case using printed_char_one_line [of c] by (auto simp: one_line_text_def kQuoteBegin_def)
qed (simp add: one_line_text_def)

text \<open>The printed operand is one line, and the operand can be read from it.\<close>

lemma c_string_operand_reads_back:
  assumes "\<forall>t. s = Some t \<longrightarrow> NUL \<notin> set t"
  obtains v where "PrintToString (char_pointer s) = Inr v" "one_line_text v" "read_c_string_operand v = Some s"
proof (cases s)
  case None
  show ?thesis
    by (rule that [of "''NULL''"])
     (simp_all add: None char_pointer_def PrintToString_def UniversalTersePrint_def PrintCString_def one_line_text_def
       read_c_string_operand_def)
next
  case (Some t)
  let ?cs = "char_bytes t"
  let ?v = "PrintCharsAsStringTo ?cs"
  have zero: "0 \<notin> unat ` set ?cs"
  proof -
    have "unat ` set ?cs = of_char ` set t" using arg_cong [OF char_bytes_unat, of set] by (simp only: set_map)
    moreover have "c = NUL" if "of_char c = (0 :: nat)" for c
      using that char_of_char [of c, where 'a = nat] by (simp add: char_of_def)
    ultimately show ?thesis using assms Some by force
  qed
  have "\<not> octal_after_zero cs" if "0 \<notin> unat ` set cs" for cs :: "8 word list"
    using that by (induction cs rule: octal_after_zero.induct) auto
  then have "read_literal (2 ^ LENGTH(8)) (kQuoteBegin TYPE(8)) (chars_loop False ?cs @ [CHR 0x22]) = Some (map unat ?cs)"
    using chars_loop_reads_back [of ?cs False] zero by (auto simp: reads_back_def)
  moreover have "read_string_literal TYPE(8) ?v =
    read_literal (2 ^ LENGTH(8)) (kQuoteBegin TYPE(8)) (chars_loop False ?cs @ [CHR 0x22])"
    by (simp add: read_string_literal_def PrintCharsAsStringTo_def next_literal_def kQuoteBegin_def)
  ultimately have "read_c_string_operand ?v = Some s"
    by (simp add: read_c_string_operand_def Some char_bytes_unat PrintCharsAsStringTo_def kQuoteBegin_def)
  moreover have "one_line_text ?v"
    using printed_chars_one_line [of False ?cs] by (auto simp: PrintCharsAsStringTo_def kQuoteBegin_def one_line_text_def)
  moreover have "PrintToString (char_pointer s) = Inr ?v"
    by (simp add: Some char_pointer_def PrintToString_def UniversalTersePrint_def)
  ultimately show ?thesis using that by blast
qed

text \<open>
  C36. \<open>EXPECT_STREQ\<close> fails exactly when the two C strings differ or one of them is \<open>NULL\<close>, and
  \<open>EXPECT_STRCASEEQ\<close> when they differ in more than case; and from the message of the failure both
  expressions and both operands can be read back exactly, whatever characters the strings have: no
  two different failures have the same message.
\<close>

theorem failed_STREQ_tells_operands:
  assumes "one_line_text ee" and "one_line_text ae"
    and "\<forall>t. e = Some t \<longrightarrow> NUL \<notin> set t" and "\<forall>t. a = Some t \<longrightarrow> NUL \<notin> set t"
  shows "\<exists>r. (if ic then CmpHelperSTRCASEEQ else CmpHelperSTREQ) ee ae e a = Inr r \<and>
    (ar_success r \<longleftrightarrow> (if ic then map_option (map to_lower) e = map_option (map to_lower) a else e = a)) \<and>
    (\<not> ar_success r \<longrightarrow> (\<exists>ev av. read_eq_failure ic (ar_text r) = Some ((ee, ev), (ae, av)) \<and>
      read_c_string_operand ev = Some e \<and> read_c_string_operand av = Some a))"
proof -
  obtain ev where ev: "PrintToString (char_pointer e) = Inr ev" "one_line_text ev" "read_c_string_operand ev = Some e"
    using c_string_operand_reads_back [OF assms(3)] .
  obtain av where av: "PrintToString (char_pointer a) = Inr av" "one_line_text av" "read_c_string_operand av = Some a"
    using c_string_operand_reads_back [OF assms(4)] .
  let ?same = "if ic then map_option (map to_lower) e = map_option (map to_lower) a else e = a"
  have "(if ic then CmpHelperSTRCASEEQ else CmpHelperSTREQ) ee ae e a =
      Inr (if ?same then gtest_AssertionSuccess else EqFailure ee ae ev av ic)"
    by (simp add: CmpHelperSTRCASEEQ_def CmpHelperSTREQ_def CStringEquals_def CaseInsensitiveCStringEquals_def
        strcasecmp0_map ev(1) av(1) split: option.splits)
  then show ?thesis using EqFailure_reads_back [OF assms(1,2) ev(2) av(2)] ev(3) av(3)
    by (cases ?same) auto
qed

theorem failed_STREQ_tells_operands_witness:
  "\<exists>r. CmpHelperSTREQ ''\"a\"'' ''s'' (Some ''a'') (Some (''x'' @ [LF] @ ''1'')) = Inr r \<and> \<not> ar_success r \<and>
    (\<exists>ev av. read_eq_failure False (ar_text r) = Some ((''\"a\"'', ev), (''s'', av)) \<and>
      read_c_string_operand ev = Some (Some ''a'') \<and> read_c_string_operand av = Some (Some (''x'' @ [LF] @ ''1'')))"
  using failed_STREQ_tells_operands [of "''\"a\"''" "''s''" "Some ''a''" "Some (''x'' @ [LF] @ ''1'')" False]
  by (auto simp: one_line_text_def)

text \<open>The substring assertions, for C strings and for string objects.\<close>

lemma find_from_iff: "find_from s t \<longleftrightarrow> (\<exists>u v. s = u @ t @ v)"
proof (induction s)
  case (Cons c s)
  have "take (length t) (c # s) = t \<longleftrightarrow> (\<exists>v. c # s = t @ v)"
    by (metis append_eq_conv_conj)
  then show ?case using Cons by (auto simp: Cons_eq_append_conv)
qed auto

lemma IsSubstring_verdict:
  "ar_success (IsSubstring ne he (Some n) (Some h)) \<longleftrightarrow> (\<exists>u v. h = u @ n @ v)"
  "ar_success (IsNotSubstring ne he (Some n) (Some h)) \<longleftrightarrow> \<not> (\<exists>u v. h = u @ n @ v)"
  "ar_success (IsSubstring_string ne he n h) \<longleftrightarrow> (\<exists>u v. h = u @ n @ v)"
  "ar_success (IsNotSubstring_string ne he n h) \<longleftrightarrow> \<not> (\<exists>u v. h = u @ n @ v)"
  using strstr_iff [of h n] find_from_iff [of h n]
  by (auto simp: IsSubstring_def IsNotSubstring_def IsSubstring_string_def IsNotSubstring_string_def
      IsSubstringImpl_def IsSubstringPred_def IsSubstringPred_object_def Let_def)

end
