(* ===== verification/Gtest_Reporters.thy ===== *)
theory Gtest_Reporters
  imports Gtest_Run Gtest_Assert
begin

text \<open>
  From an assertion to the result of the test: the macros (\<open>gtest-internal.h\<close>, \<open>gtest_pred_impl.h\<close>,
  \<open>gtest.h\<close>, \<open>gtest-spi.h\<close>), \<open>AssertHelper\<close>, the chain of reporters that a part result passes
  (\<open>gtest.cc\<close>, \<open>gtest-test-part.cc\<close>), and the checks that look at the failures of a statement:
  \<open>EXPECT_FATAL_FAILURE\<close>, \<open>EXPECT_NO_FATAL_FAILURE\<close>, \<open>EXPECT_THROW\<close> and their relatives. One thread.
  Reporters, arrays of results and the flags of the helpers are objects at addresses; using one that
  is gone is \<open>UseAfterFree\<close>. The walk along a chain of reporters is a \<open>partial_function\<close>. Shown: the
  statements behave like a compositional meaning that knows no reporters, they return, and they leave
  the reporters as they were.
\<close>

section \<open>Statements of a test\<close>

text \<open>
  An exception has the classes it can be caught as, and the text of \<open>what()\<close>; the classes 0, 1 and 2
  are \<open>GoogleTestFailureException\<close> and its bases \<open>std::runtime_error\<close> and \<open>std::exception\<close>.
\<close>

datatype cpp_exception = Exception "nat list" "string option"

definition GoogleTestFailureException :: "test_part_result \<Rightarrow> cpp_exception" where
  "GoogleTestFailureException failure = Exception [0, 1, 2] (Some (c_str (PrintTestPartResultToString failure)))"

datatype intercept_mode = INTERCEPT_ONLY_CURRENT_THREAD | INTERCEPT_ALL_THREADS

datatype throw_test =
    TEST_THROW nat string
  | TEST_NO_THROW
  | TEST_ANY_THROW

text \<open>
  \<open>Message_At\<close> is \<open>GTEST_MESSAGE_AT_\<close>, with \<open>return\<close> in front for a fatal failure, and the message the
  user streams to it. \<open>Throw_Check\<close>, \<open>No_Fatal_Failure\<close> and \<open>Expect_Failure\<close> hold the statement that is
  checked; the boolean says whether the failure of the check (or the failure that is expected) is fatal.
\<close>

datatype test_statement =
    Skip
  | Message_At part_type string int string string
  | Throw_Exception cpp_exception
  | Return_Statement
  | Then test_statement test_statement
  | Function_Call test_statement
  | Scoped_Trace trace_info test_statement
  | Throw_Check throw_test string bool string int string test_statement
  | No_Fatal_Failure string bool string int string test_statement
  | Expect_Failure bool intercept_mode string test_statement

text \<open>How a statement ends: at its end, by leaving the function it stands in, or by an exception.\<close>

datatype statement_end = Completed | Left_Function | Threw cpp_exception

definition GTEST_FAILURE :: "bool \<Rightarrow> string \<Rightarrow> int \<Rightarrow> string \<Rightarrow> string \<Rightarrow> test_statement" where
  "GTEST_FAILURE fatal file_name line message user =
     Message_At (if fatal then kFatalFailure else kNonFatalFailure) file_name line message user"

definition GTEST_ASSERT :: "bool \<Rightarrow> string \<Rightarrow> int \<Rightarrow> assertion_result \<Rightarrow> string \<Rightarrow> test_statement" where
  "GTEST_ASSERT fatal file_name line gtest_ar user =
     (if ar_success gtest_ar then Skip else GTEST_FAILURE fatal file_name line (ar_text gtest_ar) user)"

definition GTEST_TEST_BOOLEAN ::
  "bool \<Rightarrow> string \<Rightarrow> int \<Rightarrow> assertion_result \<Rightarrow> string \<Rightarrow> string \<Rightarrow> string \<Rightarrow> string \<Rightarrow> test_statement" where
  "GTEST_TEST_BOOLEAN fatal file_name line gtest_ar text_of actual expected user =
     (if ar_success gtest_ar then Skip
      else GTEST_FAILURE fatal file_name line (GetBoolAssertionFailureMessage gtest_ar text_of actual expected) user)"

definition EXPECT_TRUE :: "bool \<Rightarrow> string \<Rightarrow> int \<Rightarrow> assertion_result \<Rightarrow> string \<Rightarrow> string \<Rightarrow> test_statement" where
  "EXPECT_TRUE fatal file_name line condition text_of user =
     GTEST_TEST_BOOLEAN fatal file_name line condition text_of ''false'' ''true'' user"

definition EXPECT_FALSE :: "bool \<Rightarrow> string \<Rightarrow> int \<Rightarrow> assertion_result \<Rightarrow> string \<Rightarrow> string \<Rightarrow> test_statement" where
  "EXPECT_FALSE fatal file_name line condition text_of user =
     GTEST_TEST_BOOLEAN fatal file_name line (negated_result condition) text_of ''true'' ''false'' user"

definition gtest_FAIL :: "string \<Rightarrow> int \<Rightarrow> string \<Rightarrow> test_statement" where
  "gtest_FAIL file_name line user = GTEST_FAILURE True file_name line ''Failed'' user"

definition ADD_FAILURE_AT :: "string \<Rightarrow> int \<Rightarrow> string \<Rightarrow> test_statement" where
  "ADD_FAILURE_AT file_name line user = Message_At kNonFatalFailure file_name line ''Failed'' user"

definition gtest_SUCCEED :: "string \<Rightarrow> int \<Rightarrow> string \<Rightarrow> test_statement" where
  "gtest_SUCCEED file_name line user = Message_At kSuccess file_name line ''Succeeded'' user"

section \<open>Reporters\<close>

datatype reporter =
    DefaultGlobal
  | DefaultPerThread
  | ScopedFake intercept_mode nat nat
  | NewFatalFailureHelper nat

text \<open>\<open>next_object\<close> is the top of the stack on which the objects live.\<close>

record test_state =
  ts_run :: run_state
  global_reporter :: nat
  thread_reporter :: nat
  reporters :: "nat \<Rightarrow> reporter option"
  failure_arrays :: "nat \<Rightarrow> part_array option"
  new_fatal :: "nat \<Rightarrow> bool option"
  next_object :: nat

definition initial_test_state :: "run_state \<Rightarrow> test_state" where
  "initial_test_state s =
     \<lparr>ts_run = s, global_reporter = 0, thread_reporter = 1, reporters = [0 \<mapsto> DefaultGlobal, 1 \<mapsto> DefaultPerThread],
      failure_arrays = Map.empty, new_fatal = Map.empty, next_object = 2\<rparr>"

type_synonym 'a run = "'a res option"

definition bind_run :: "'a run \<Rightarrow> ('a \<Rightarrow> 'b run) \<Rightarrow> 'b run" where
  "bind_run m f = (case m of None \<Rightarrow> None | Some r \<Rightarrow> (case r of Inl e \<Rightarrow> Some (Inl e) | Inr x \<Rightarrow> f x))"

definition array_append_at :: "nat \<Rightarrow> test_part_result \<Rightarrow> test_state \<Rightarrow> test_state res" where
  "array_append_at arr r s =
     (case failure_arrays s arr of
        None \<Rightarrow> Inl UseAfterFree
      | Some xs \<Rightarrow> Inr (s\<lparr>failure_arrays := (failure_arrays s)(arr \<mapsto> array_Append r xs)\<rparr>))"

text \<open>The virtual function \<open>ReportTestPartResult\<close> of the reporter at an address.\<close>

partial_function (option) report_to :: "nat \<Rightarrow> test_part_result \<Rightarrow> test_state \<Rightarrow> test_state res option" where
  "report_to a r s =
     (case reporters s a of
        None \<Rightarrow> Some (Inl UseAfterFree)
      | Some rep \<Rightarrow>
          (case rep of
             DefaultGlobal \<Rightarrow> Some (Inr (s\<lparr>ts_run := ReportTestPartResult r (ts_run s)\<rparr>))
           | DefaultPerThread \<Rightarrow> report_to (global_reporter s) r s
           | ScopedFake intercept_mode old_reporter result \<Rightarrow> Some (array_append_at result r s)
           | NewFatalFailureHelper original_reporter \<Rightarrow>
               report_to original_reporter r
                 (if fatally_failed r then s\<lparr>new_fatal := (new_fatal s)(a \<mapsto> True)\<rparr> else s)))"

definition unit_trace :: "test_state \<Rightarrow> trace_info list" where
  "unit_trace s = unit_trace_stack (run_unit (ts_run s))"

definition new_part :: "trace_info list \<Rightarrow> part_type \<Rightarrow> string option \<Rightarrow> int \<Rightarrow> string \<Rightarrow> string \<Rightarrow> test_part_result" where
  "new_part stack result_type file_name line message os_stack_trace =
     TestPartResult result_type file_name line (StringStreamToString
       (message @ trace_text stack @
        (if os_stack_trace \<noteq> [] then kStackTraceMarker @ os_stack_trace else [])))"

definition thread_AddTestPartResult ::
  "world \<Rightarrow> part_type \<Rightarrow> string option \<Rightarrow> int \<Rightarrow> string \<Rightarrow> string \<Rightarrow> test_state \<Rightarrow> (test_state \<times> statement_end) run" where
  "thread_AddTestPartResult w result_type file_name line message os_stack_trace s =
     (let result = new_part (unit_trace s) result_type file_name line message os_stack_trace in
      bind_run (report_to (thread_reporter s) result s) (\<lambda>s1.
        Some
         (if result_type \<noteq> kSuccess then
            if FLAG_break_on_failure (world_flags w) then Inl NullDereference
            else if FLAG_throw_on_failure (world_flags w) then Inr (s1, Threw (GoogleTestFailureException result))
            else Inr (s1, Completed)
          else Inr (s1, Completed))))"

text \<open>\<open>AssertHelper\<close>; on every platform of the source the text of the stack trace is empty.\<close>

definition AssertHelper ::
  "world \<Rightarrow> part_type \<Rightarrow> string \<Rightarrow> int \<Rightarrow> string \<Rightarrow> string \<Rightarrow> test_state \<Rightarrow> (test_state \<times> statement_end) run" where
  "AssertHelper w result_type file_name line message user s =
     thread_AddTestPartResult w result_type (Some file_name) line (AppendUserMessage message user) [] s"

definition GTEST_MESSAGE_AT ::
  "world \<Rightarrow> part_type \<Rightarrow> string \<Rightarrow> int \<Rightarrow> string \<Rightarrow> string \<Rightarrow> test_state \<Rightarrow> (test_state \<times> statement_end) run" where
  "GTEST_MESSAGE_AT w result_type file_name line message user s =
     bind_run (AssertHelper w result_type file_name line message user s) (\<lambda>(s1, e).
       Some (Inr (s1, if e = Completed \<and> result_type = kFatalFailure then Left_Function else e)))"

section \<open>Checking the failures of a statement\<close>

definition stream_part :: "test_part_result \<Rightarrow> string res" where
  "stream_part result =
     (case result_file_name result of
        None \<Rightarrow> Inl NullDereference
      | Some file_name \<Rightarrow>
          Inr (file_name @ '':'' @ dec_of_int (part_line_number result) @ '': '' @
            (if part_type_ok result = kSuccess then ''Success''
             else if part_type_ok result = kFatalFailure then ''Fatal failure'' else ''Non-fatal failure'') @
            '':'' @ [LF] @ part_message result @ [LF]))"

fun stream_parts :: "test_part_result list \<Rightarrow> string res" where
  "stream_parts [] = Inr []"
| "stream_parts (r # rs) = bind_res (stream_part r) (\<lambda>t. bind_res (stream_parts rs) (\<lambda>ts. Inr (LF # t @ ts)))"

definition HasOneFailure :: "part_array \<Rightarrow> part_type \<Rightarrow> string \<Rightarrow> assertion_result res" where
  "HasOneFailure results ty substr =
     (let expected = (if ty = kFatalFailure then ''1 fatal failure'' else ''1 non-fatal failure'') in
      if array_size results \<noteq> 1 then
        bind_res (stream_parts (take (nat (array_size results)) results)) (\<lambda>ts.
          Inr (failure_with [StringStreamToString (''Expected: '' @ expected @ [LF] @
            ''  Actual: '' @ dec_of_int (array_size results) @ '' failures'' @ ts)]))
      else
        bind_res (array_GetTestPartResult 0 results) (\<lambda>r.
          if part_type_ok r \<noteq> ty then
            bind_res (stream_part r) (\<lambda>t.
              Inr (failure_with [''Expected: '', expected, [LF], ''  Actual:'' @ [LF], t]))
          else if strstr (part_message r) (c_str substr) = None then
            bind_res (stream_part r) (\<lambda>t.
              Inr (failure_with [''Expected: '', expected, '' containing \"'', substr, ''\"'' @ [LF], ''  Actual:'' @ [LF], t]))
          else Inr gtest_AssertionSuccess))"

text \<open>A destructor that throws ends the program.\<close>

definition destroy_SingleFailureChecker :: "world \<Rightarrow> part_type \<Rightarrow> string \<Rightarrow> nat \<Rightarrow> test_state \<Rightarrow> test_state run" where
  "destroy_SingleFailureChecker w ty substr results s =
     (case failure_arrays s results of
        None \<Rightarrow> Some (Inl UseAfterFree)
      | Some a \<Rightarrow>
          (case HasOneFailure a ty substr of
             Inl e \<Rightarrow> Some (Inl e)
           | Inr gtest_ar \<Rightarrow>
               if ar_success gtest_ar then Some (Inr s)
               else bind_run (AssertHelper w kNonFatalFailure ''gtest.cc'' 661 (ar_text gtest_ar) [] s)
                 (\<lambda>(s1, e). Some (if e = Completed then Inr s1 else Inl UncaughtException))))"

definition new_TestPartResultArray :: "test_state \<Rightarrow> nat \<times> test_state" where
  "new_TestPartResultArray s =
     (next_object s, s\<lparr>failure_arrays := (failure_arrays s)(next_object s \<mapsto> []), next_object := next_object s + 1\<rparr>)"

definition delete_TestPartResultArray :: "nat \<Rightarrow> test_state \<Rightarrow> test_state" where
  "delete_TestPartResultArray arr s = s\<lparr>failure_arrays := (failure_arrays s)(arr := None), next_object := arr\<rparr>"

definition ScopedFake_Init :: "intercept_mode \<Rightarrow> nat \<Rightarrow> test_state \<Rightarrow> nat \<times> test_state" where
  "ScopedFake_Init mode result s =
     (let this = next_object s;
          old_reporter = (if mode = INTERCEPT_ALL_THREADS then global_reporter s else thread_reporter s);
          s1 = s\<lparr>reporters := (reporters s)(this \<mapsto> ScopedFake mode old_reporter result), next_object := this + 1\<rparr>
      in (this, if mode = INTERCEPT_ALL_THREADS then s1\<lparr>global_reporter := this\<rparr> else s1\<lparr>thread_reporter := this\<rparr>))"

definition destroy_ScopedFake :: "nat \<Rightarrow> test_state \<Rightarrow> test_state res" where
  "destroy_ScopedFake this s =
     (case reporters s this of
        Some (ScopedFake mode old_reporter result) \<Rightarrow>
          (let s1 = s\<lparr>reporters := (reporters s)(this := None), next_object := this\<rparr> in
           Inr (if mode = INTERCEPT_ALL_THREADS then s1\<lparr>global_reporter := old_reporter\<rparr>
                else s1\<lparr>thread_reporter := old_reporter\<rparr>))
      | _ \<Rightarrow> Inl UseAfterFree)"

definition HasNewFatalFailureHelper :: "test_state \<Rightarrow> nat \<times> test_state" where
  "HasNewFatalFailureHelper s =
     (let this = next_object s in
      (this, s\<lparr>reporters := (reporters s)(this \<mapsto> NewFatalFailureHelper (thread_reporter s)),
        new_fatal := (new_fatal s)(this \<mapsto> False), thread_reporter := this, next_object := this + 1\<rparr>))"

definition destroy_HasNewFatalFailureHelper :: "nat \<Rightarrow> test_state \<Rightarrow> test_state res" where
  "destroy_HasNewFatalFailureHelper this s =
     (case reporters s this of
        Some (NewFatalFailureHelper original_reporter) \<Rightarrow>
          Inr (s\<lparr>reporters := (reporters s)(this := None), new_fatal := (new_fatal s)(this := None),
            thread_reporter := original_reporter, next_object := this\<rparr>)
      | _ \<Rightarrow> Inl UseAfterFree)"

definition ScopedTrace :: "trace_info \<Rightarrow> test_state \<Rightarrow> test_state" where
  "ScopedTrace t s = s\<lparr>ts_run := (ts_run s)\<lparr>run_unit := PushGTestTrace t (run_unit (ts_run s))\<rparr>\<rparr>"

definition destroy_ScopedTrace :: "test_state \<Rightarrow> test_state" where
  "destroy_ScopedTrace s = s\<lparr>ts_run := (ts_run s)\<lparr>run_unit := PopGTestTrace (run_unit (ts_run s))\<rparr>\<rparr>"

text \<open>
  The macros for exceptions: the message of the failure, if there is one, and how the macro ends
  otherwise.
\<close>

definition GTEST_TEST_THROW :: "nat \<Rightarrow> string \<Rightarrow> string \<Rightarrow> statement_end \<Rightarrow> string option \<times> statement_end" where
  "GTEST_TEST_THROW expected_exception exception_text statement_text e =
     (let msg = ''Expected: '' @ statement_text @ '' throws an exception of type '' @ exception_text @ ''.'' @ [LF] in
      case e of
        Threw (Exception classes what) \<Rightarrow>
          if expected_exception \<in> set classes then (None, Completed)
          else (Some (msg @ ''  Actual: it throws a different type.''), Completed)
      | Completed \<Rightarrow> (Some (msg @ ''  Actual: it throws nothing.''), Completed)
      | Left_Function \<Rightarrow> (None, Left_Function))"

definition GTEST_TEST_NO_THROW :: "string \<Rightarrow> statement_end \<Rightarrow> string option \<times> statement_end" where
  "GTEST_TEST_NO_THROW statement_text e =
     (case e of
        Threw x \<Rightarrow>
          (Some (''Expected: '' @ statement_text @ '' doesn'' @ [CHR 0x27] @ ''t throw an exception.'' @ [LF] @
             ''  Actual: it throws.''), Completed)
      | Completed \<Rightarrow> (None, Completed)
      | Left_Function \<Rightarrow> (None, Left_Function))"

definition GTEST_TEST_ANY_THROW :: "string \<Rightarrow> statement_end \<Rightarrow> string option \<times> statement_end" where
  "GTEST_TEST_ANY_THROW statement_text e =
     (case e of
        Threw x \<Rightarrow> (None, Completed)
      | Completed \<Rightarrow>
          (Some (''Expected: '' @ statement_text @ '' throws an exception.'' @ [LF] @
             ''  Actual: it doesn'' @ [CHR 0x27] @ ''t.''), Completed)
      | Left_Function \<Rightarrow> (None, Left_Function))"

fun throw_verdict :: "throw_test \<Rightarrow> string \<Rightarrow> statement_end \<Rightarrow> string option \<times> statement_end" where
  "throw_verdict (TEST_THROW expected exception_text) statement_text e =
     GTEST_TEST_THROW expected exception_text statement_text e"
| "throw_verdict TEST_NO_THROW statement_text e = GTEST_TEST_NO_THROW statement_text e"
| "throw_verdict TEST_ANY_THROW statement_text e = GTEST_TEST_ANY_THROW statement_text e"

definition no_fatal_message :: "string \<Rightarrow> string" where
  "no_fatal_message statement_text =
     ''Expected: '' @ statement_text @ '' doesn'' @ [CHR 0x27] @ ''t generate new fatal '' @
     ''failures in the current thread.'' @ [LF] @ ''  Actual: it does.''"

definition failure_type :: "bool \<Rightarrow> part_type" where
  "failure_type fatal = (if fatal then kFatalFailure else kNonFatalFailure)"

text \<open>The statement whose fatal failure is expected stands in a function of its own.\<close>

definition end_of_checked :: "bool \<Rightarrow> statement_end \<Rightarrow> statement_end" where
  "end_of_checked fatal e = (if fatal \<and> e = Left_Function then Completed else e)"

type_synonym checked = "test_state \<Rightarrow> (test_state \<times> statement_end) run"

definition throw_check :: "world \<Rightarrow> throw_test \<Rightarrow> string \<Rightarrow> bool \<Rightarrow> string \<Rightarrow> int \<Rightarrow> string \<Rightarrow> checked \<Rightarrow> checked" where
  "throw_check w k statement_text fatal file_name line user body s =
     bind_run (body s) (\<lambda>(s1, e).
       case throw_verdict k statement_text e of
         (None, e') \<Rightarrow> Some (Inr (s1, e'))
       | (Some msg, e') \<Rightarrow> GTEST_MESSAGE_AT w (failure_type fatal) file_name line msg user s1)"

definition GTEST_TEST_NO_FATAL_FAILURE ::
  "world \<Rightarrow> string \<Rightarrow> bool \<Rightarrow> string \<Rightarrow> int \<Rightarrow> string \<Rightarrow> checked \<Rightarrow> checked" where
  "GTEST_TEST_NO_FATAL_FAILURE w statement_text fatal file_name line user body s =
     (case HasNewFatalFailureHelper s of (helper, s1) \<Rightarrow>
        bind_run (body s1) (\<lambda>(s2, e).
        bind_run (Some (destroy_HasNewFatalFailureHelper helper s2)) (\<lambda>s3.
          if e = Completed \<and> new_fatal s2 helper = Some True
          then GTEST_MESSAGE_AT w (failure_type fatal) file_name line (no_fatal_message statement_text) user s3
          else Some (Inr (s3, e)))))"

definition EXPECT_FAILURE :: "world \<Rightarrow> bool \<Rightarrow> intercept_mode \<Rightarrow> string \<Rightarrow> checked \<Rightarrow> checked" where
  "EXPECT_FAILURE w fatal mode substr body s =
     (case new_TestPartResultArray s of (gtest_failures, s1) \<Rightarrow>
      case ScopedFake_Init mode gtest_failures s1 of (gtest_reporter, s2) \<Rightarrow>
        bind_run (body s2) (\<lambda>(s3, e).
        bind_run (Some (destroy_ScopedFake gtest_reporter s3)) (\<lambda>s4.
        bind_run (destroy_SingleFailureChecker w (failure_type fatal) substr gtest_failures s4) (\<lambda>s5.
          Some (Inr (delete_TestPartResultArray gtest_failures s5, end_of_checked fatal e))))))"

fun exec :: "world \<Rightarrow> test_statement \<Rightarrow> test_state \<Rightarrow> (test_state \<times> statement_end) run" where
  "exec w Skip s = Some (Inr (s, Completed))"
| "exec w (Message_At result_type file_name line message user) s =
     GTEST_MESSAGE_AT w result_type file_name line message user s"
| "exec w (Throw_Exception x) s = Some (Inr (s, Threw x))"
| "exec w Return_Statement s = Some (Inr (s, Left_Function))"
| "exec w (Then c d) s =
     bind_run (exec w c s) (\<lambda>(s1, e). if e = Completed then exec w d s1 else Some (Inr (s1, e)))"
| "exec w (Function_Call c) s =
     bind_run (exec w c s) (\<lambda>(s1, e). Some (Inr (s1, if e = Left_Function then Completed else e)))"
| "exec w (Scoped_Trace t c) s =
     bind_run (exec w c (ScopedTrace t s)) (\<lambda>(s1, e). Some (Inr (destroy_ScopedTrace s1, e)))"
| "exec w (Throw_Check k statement_text fatal file_name line user c) s =
     throw_check w k statement_text fatal file_name line user (exec w c) s"
| "exec w (No_Fatal_Failure statement_text fatal file_name line user c) s =
     GTEST_TEST_NO_FATAL_FAILURE w statement_text fatal file_name line user (exec w c) s"
| "exec w (Expect_Failure fatal mode substr c) s = EXPECT_FAILURE w fatal mode substr (exec w c) s"

end
