(* ===== verification/Gtest_Failures.thy ===== *)
theory Gtest_Failures
  imports Gtest_Reporters
begin

text \<open>
  What the checks of failures mean, without reporters: the specification of \<open>Gtest_Reporters\<close>, and
  the proof that the objects implement it.
\<close>

section \<open>The meaning of statements\<close>

text \<open>
  A statement produces the part results it reports, in order, and its end. A result that an
  enclosing check for all threads takes away is still seen by the helpers of the thread on its way;
  such a sighting is marked as taken. \<open>caught\<close> says whether the statement stands in a check that
  catches the failures of the current thread.
\<close>

type_synonym sighting = "bool \<times> test_part_result"

definition kept :: "sighting list \<Rightarrow> test_part_result list" where
  "kept xs = map snd (filter (\<lambda>x. \<not> fst x) xs)"

definition taken :: "sighting list \<Rightarrow> sighting list" where
  "taken xs = map (\<lambda>x. (True, snd x)) xs"

definition meaning_of_part ::
  "world \<Rightarrow> trace_info list \<Rightarrow> part_type \<Rightarrow> string \<Rightarrow> int \<Rightarrow> string \<Rightarrow> string \<Rightarrow> (sighting list \<times> statement_end) res" where
  "meaning_of_part w stack ty file_name line message user =
     (let part = new_part stack ty (Some file_name) line (AppendUserMessage message user) [] in
      if ty \<noteq> kSuccess \<and> FLAG_break_on_failure (world_flags w) then Inl NullDereference
      else Inr ([(False, part)],
        if ty \<noteq> kSuccess \<and> FLAG_throw_on_failure (world_flags w) then Threw (GoogleTestFailureException part)
        else if ty = kFatalFailure then Left_Function else Completed))"

text \<open>A check that expects one failure reports another one when it is disappointed.\<close>

definition meaning_of_check ::
  "world \<Rightarrow> trace_info list \<Rightarrow> part_type \<Rightarrow> string \<Rightarrow> test_part_result list \<Rightarrow> sighting list res" where
  "meaning_of_check w stack ty substr results =
     bind_res (HasOneFailure results ty substr) (\<lambda>ar.
       if ar_success ar then Inr []
       else bind_res (meaning_of_part w stack kNonFatalFailure ''gtest.cc'' 661 (ar_text ar) [])
         (\<lambda>(xs, e). if e = Completed then Inr xs else Inl UncaughtException))"

fun meaning :: "world \<Rightarrow> bool \<Rightarrow> trace_info list \<Rightarrow> test_statement \<Rightarrow> (sighting list \<times> statement_end) res" where
  "meaning w caught stack Skip = Inr ([], Completed)"
| "meaning w caught stack (Message_At ty file_name line message user) =
     meaning_of_part w stack ty file_name line message user"
| "meaning w caught stack (Throw_Exception x) = Inr ([], Threw x)"
| "meaning w caught stack Return_Statement = Inr ([], Left_Function)"
| "meaning w caught stack (Then c d) =
     bind_res (meaning w caught stack c) (\<lambda>(xs, e).
       if e = Completed then bind_res (meaning w caught stack d) (\<lambda>(ys, e'). Inr (xs @ ys, e')) else Inr (xs, e))"
| "meaning w caught stack (Function_Call c) =
     bind_res (meaning w caught stack c) (\<lambda>(xs, e). Inr (xs, if e = Left_Function then Completed else e))"
| "meaning w caught stack (Scoped_Trace t c) = meaning w caught (stack @ [t]) c"
| "meaning w caught stack (Throw_Check k statement_text fatal file_name line user c) =
     bind_res (meaning w caught stack c) (\<lambda>(xs, e).
       case throw_verdict k statement_text e of
         (None, e') \<Rightarrow> Inr (xs, e')
       | (Some msg, e') \<Rightarrow>
           bind_res (meaning_of_part w stack (failure_type fatal) file_name line msg user) (\<lambda>(ys, e'). Inr (xs @ ys, e')))"
| "meaning w caught stack (No_Fatal_Failure statement_text fatal file_name line user c) =
     bind_res (meaning w caught stack c) (\<lambda>(xs, e).
       if e = Completed \<and> (\<exists>x \<in> set xs. fatally_failed (snd x)) then
         bind_res (meaning_of_part w stack (failure_type fatal) file_name line (no_fatal_message statement_text) user)
           (\<lambda>(ys, e'). Inr (xs @ ys, e'))
       else Inr (xs, e))"
| "meaning w caught stack (Expect_Failure fatal mode substr c) =
     (if mode = INTERCEPT_ALL_THREADS then
        bind_res (meaning w caught stack c) (\<lambda>(xs, e).
        bind_res (meaning_of_check w stack (failure_type fatal) substr (if caught then [] else kept xs)) (\<lambda>ys.
          Inr ((if caught then xs else taken xs) @ ys, end_of_checked fatal e)))
      else
        bind_res (meaning w True stack c) (\<lambda>(xs, e).
        bind_res (meaning_of_check w stack (failure_type fatal) substr (kept xs)) (\<lambda>ys.
          Inr (ys, end_of_checked fatal e))))"

section \<open>What a report does to the objects\<close>

text \<open>
  A report of the thread passes the helpers \<open>hs\<close> and ends at \<open>to\<close>: an array, or the unit test.
\<close>

definition flagged :: "nat list \<Rightarrow> bool \<Rightarrow> (nat \<Rightarrow> bool option) \<Rightarrow> nat \<Rightarrow> bool option" where
  "flagged hs fatal m a = (if fatal \<and> a \<in> set hs then Some True else m a)"

definition mark :: "nat list \<Rightarrow> test_part_result \<Rightarrow> test_state \<Rightarrow> test_state" where
  "mark hs r s = s\<lparr>new_fatal := flagged hs (fatally_failed r) (new_fatal s)\<rparr>"

definition arrive :: "nat option \<Rightarrow> test_part_result \<Rightarrow> test_state \<Rightarrow> test_state" where
  "arrive to r s =
     (case to of
        None \<Rightarrow> s\<lparr>ts_run := ReportTestPartResult r (ts_run s)\<rparr>
      | Some arr \<Rightarrow> s\<lparr>failure_arrays := (failure_arrays s)(arr \<mapsto> the (failure_arrays s arr) @ [r])\<rparr>)"

definition see :: "nat list \<Rightarrow> nat option \<Rightarrow> test_state \<Rightarrow> sighting \<Rightarrow> test_state" where
  "see hs to s x = (if fst x then mark hs (snd x) s else arrive to (snd x) (mark hs (snd x) s))"

definition deliver :: "nat list \<Rightarrow> nat option \<Rightarrow> test_state \<Rightarrow> sighting list \<Rightarrow> test_state" where
  "deliver hs to = foldl (see hs to)"

lemma deliver_simps [simp]:
  "deliver hs to s [] = s"
  "deliver hs to s (x # xs) = deliver hs to (see hs to s x) xs"
  "deliver hs to s (xs @ ys) = deliver hs to (deliver hs to s xs) ys"
  by (simp_all add: deliver_def)

lemmas see_defs = see_def arrive_def mark_def

lemma unit_trace_report [simp]: "unit_trace_stack (run_unit (ReportTestPartResult r s)) = unit_trace_stack (run_unit s)"
  by (simp add: ReportTestPartResult_def notify_def update_current_result_def update_info_def update_case_def
      split: option.splits)

lemma deliver_keeps [simp]:
  "reporters (deliver hs to s xs) = reporters s"
  "global_reporter (deliver hs to s xs) = global_reporter s"
  "thread_reporter (deliver hs to s xs) = thread_reporter s"
  "next_object (deliver hs to s xs) = next_object s"
  "unit_trace (deliver hs to s xs) = unit_trace s"
  by (induction xs arbitrary: s) (auto simp: see_defs unit_trace_def split: option.splits)

lemma see_frame:
  "see hs to (s\<lparr>reporters := R\<rparr>) x = (see hs to s x)\<lparr>reporters := R\<rparr>"
  "see hs to (s\<lparr>global_reporter := g\<rparr>) x = (see hs to s x)\<lparr>global_reporter := g\<rparr>"
  "see hs to (s\<lparr>thread_reporter := g\<rparr>) x = (see hs to s x)\<lparr>thread_reporter := g\<rparr>"
  "see hs to (s\<lparr>next_object := g\<rparr>) x = (see hs to s x)\<lparr>next_object := g\<rparr>"
  "see hs to (ScopedTrace t s) x = ScopedTrace t (see hs to s x)"
  by (rule test_state.equality; simp add: see_defs ScopedTrace_def ReportTestPartResult_def notify_def PushGTestTrace_def
      update_current_result_def update_info_def update_case_def split: option.splits)+

lemma deliver_frame:
  "deliver hs to (s\<lparr>reporters := R\<rparr>) xs = (deliver hs to s xs)\<lparr>reporters := R\<rparr>"
  "deliver hs to (s\<lparr>global_reporter := g\<rparr>) xs = (deliver hs to s xs)\<lparr>global_reporter := g\<rparr>"
  "deliver hs to (s\<lparr>thread_reporter := g\<rparr>) xs = (deliver hs to s xs)\<lparr>thread_reporter := g\<rparr>"
  "deliver hs to (s\<lparr>next_object := g\<rparr>) xs = (deliver hs to s xs)\<lparr>next_object := g\<rparr>"
  "deliver hs to (ScopedTrace t s) xs = ScopedTrace t (deliver hs to s xs)"
  by (induction xs arbitrary: s) (simp_all add: see_frame)

lemma ScopedTrace_ends [simp]: "destroy_ScopedTrace (ScopedTrace t s) = s"
  by (simp add: ScopedTrace_def destroy_ScopedTrace_def PushGTestTrace_def PopGTestTrace_def)

lemma unit_trace_ScopedTrace [simp]: "unit_trace (ScopedTrace t s) = unit_trace s @ [t]"
  by (simp add: ScopedTrace_def unit_trace_def PushGTestTrace_def)

lemma kept_simps [simp]:
  "kept [] = []"
  "kept (x # xs) = (if fst x then [] else [snd x]) @ kept xs"
  "kept (xs @ ys) = kept xs @ kept ys"
  "kept (taken xs) = []"
  by (auto simp: kept_def taken_def)

lemma taken_simps [simp]:
  "taken [] = []"
  "taken (x # xs) = (True, snd x) # taken xs"
  by (simp_all add: taken_def)

definition array_set :: "nat \<Rightarrow> part_array option \<Rightarrow> test_state \<Rightarrow> test_state" where
  "array_set arr v s = s\<lparr>failure_arrays := (failure_arrays s)(arr := v)\<rparr>"

definition set_flag :: "nat \<Rightarrow> bool option \<Rightarrow> test_state \<Rightarrow> test_state" where
  "set_flag h v s = s\<lparr>new_fatal := (new_fatal s)(h := v)\<rparr>"

lemma deliver_other_array:
  assumes "to \<noteq> Some arr"
  shows "deliver hs to (array_set arr v s) xs = array_set arr v (deliver hs to s xs)"
proof (induction xs arbitrary: s)
  case (Cons x xs)
  have "see hs to (array_set arr v s) x = array_set arr v (see hs to s x)"
    using assms by (intro test_state.equality) (auto simp: see_defs array_set_def fun_upd_twist split: option.splits)
  then show ?case using Cons.IH by simp
qed simp

lemma deliver_to_array:
  "deliver hs (Some arr) (array_set arr (Some ys) s) xs = array_set arr (Some (ys @ kept xs)) (deliver hs to s (taken xs))"
proof (induction xs arbitrary: s ys)
  case (Cons x xs)
  have "see hs (Some arr) (array_set arr (Some ys) s) x =
    array_set arr (Some (ys @ (if fst x then [] else [snd x]))) (see hs to s (True, snd x))"
    by (intro test_state.equality) (simp_all add: see_defs array_set_def)
  then show ?case using Cons.IH by simp
qed simp

lemma deliver_helper:
  assumes "h \<notin> set hs"
  shows "deliver (h # hs) to (set_flag h (Some f) s) xs =
    set_flag h (Some (f \<or> (\<exists>x \<in> set xs. fatally_failed (snd x)))) (deliver hs to s xs)"
proof (induction xs arbitrary: s f)
  case (Cons x xs)
  have "see (h # hs) to (set_flag h (Some f) s) x = set_flag h (Some (f \<or> fatally_failed (snd x))) (see hs to s x)"
    using assms by (intro test_state.equality)
      (auto simp: see_defs set_flag_def flagged_def fun_eq_iff split: option.splits)
  then show ?case using Cons.IH by (simp add: disj_assoc)
qed simp

section \<open>The objects at rest\<close>

fun helper_chain :: "(nat \<Rightarrow> reporter option) \<Rightarrow> nat \<Rightarrow> nat list \<Rightarrow> nat \<Rightarrow> bool" where
  "helper_chain R a [] k \<longleftrightarrow> a = k"
| "helper_chain R a (h # hs) k \<longleftrightarrow> a = h \<and> (\<exists>p. R h = Some (NewFatalFailureHelper p) \<and> helper_chain R p hs k)"

text \<open>
  Between statements: the reporter of the thread is reached through the helpers \<open>hs\<close>; it is a fake
  one, or the default one that passes results to the global reporter, and what arrives goes to \<open>to\<close>.
  Nothing lives above the top of the stack.
\<close>

definition ends_at ::
  "(nat \<Rightarrow> reporter option) \<Rightarrow> nat \<Rightarrow> nat \<Rightarrow> nat list \<Rightarrow> nat option \<Rightarrow> bool \<Rightarrow> bool" where
  "ends_at R global thread hs to caught \<longleftrightarrow>
     (\<exists>k. helper_chain R thread hs k \<and>
       (if caught then \<exists>mode old arr. R k = Some (ScopedFake mode old arr) \<and> to = Some arr
        else R k = Some DefaultPerThread \<and>
          ((R global = Some DefaultGlobal \<and> to = None) \<or>
           (\<exists>mode old arr. R global = Some (ScopedFake mode old arr) \<and> to = Some arr))))"

definition ready :: "nat list \<Rightarrow> nat option \<Rightarrow> bool \<Rightarrow> test_state \<Rightarrow> bool" where
  "ready hs to caught s \<longleftrightarrow>
     ends_at (reporters s) (global_reporter s) (thread_reporter s) hs to caught \<and>
     (\<forall>arr. to = Some arr \<longrightarrow> failure_arrays s arr \<noteq> None) \<and>
     (\<forall>a \<ge> next_object s. reporters s a = None \<and> failure_arrays s a = None \<and> new_fatal s a = None)"

lemma helper_chain_alive: "helper_chain R a hs k \<Longrightarrow> h \<in> set hs \<Longrightarrow> R h \<noteq> None"
  by (induction hs arbitrary: a) auto

lemma helper_chain_update: "R n = None \<Longrightarrow> helper_chain R a hs k \<Longrightarrow> helper_chain (R(n := v)) a hs k"
  by (induction hs arbitrary: a) auto

lemma ready_fresh:
  assumes "ready hs to caught s" and "next_object s \<le> a"
  shows "reporters s a = None" and "failure_arrays s a = None" and "new_fatal s a = None" and "to \<noteq> Some a"
    and "a \<notin> set hs"
  using assms helper_chain_alive by (fastforce simp: ready_def ends_at_def)+

lemma ready_see: "ready hs to caught s \<Longrightarrow> ready hs to caught (see hs to s x)"
proof -
  assume r: "ready hs to caught s"
  have "new_fatal (see hs to s x) a = None" if "next_object s \<le> a" for a
    using ready_fresh [OF r that] by (auto simp: see_defs flagged_def split: option.splits)
  moreover have "failure_arrays (see hs to s x) a = None \<longleftrightarrow> failure_arrays s a = None" for a
    using r by (auto simp: see_defs ready_def split: option.splits)
  moreover have "reporters (see hs to s x) = reporters s" "global_reporter (see hs to s x) = global_reporter s"
    "thread_reporter (see hs to s x) = thread_reporter s" "next_object (see hs to s x) = next_object s"
    by (auto simp: see_defs split: option.splits)
  ultimately show ?thesis using r unfolding ready_def by (metis (no_types))
qed

lemma ready_deliver: "ready hs to caught s \<Longrightarrow> ready hs to caught (deliver hs to s xs)"
  by (induction xs arbitrary: s) (auto intro: ready_see)

subsection \<open>A report\<close>

lemma arrive_ok:
  assumes "\<forall>arr. to = Some arr \<longrightarrow> failure_arrays s arr \<noteq> None" and "to = Some arr"
  shows "array_append_at arr r s = Inr (arrive to r s)"
  using assms by (auto simp: array_append_at_def arrive_def array_Append_def)

lemma report_to_chain:
  assumes "helper_chain (reporters s) a hs k"
    and "report_to k r (mark hs r s) = Some (Inr (arrive to r (mark hs r s)))"
  shows "report_to a r s = Some (Inr (arrive to r (mark hs r s)))"
  using assms
proof (induction hs arbitrary: a s)
  case Nil
  moreover have "mark [] r s = s" for s by (simp add: mark_def flagged_def [abs_def])
  ultimately show ?case by simp
next
  case (Cons h hs)
  then obtain p where p: "a = h" "reporters s h = Some (NewFatalFailureHelper p)" "helper_chain (reporters s) p hs k" by auto
  let ?s = "if fatally_failed r then s\<lparr>new_fatal := (new_fatal s)(h \<mapsto> True)\<rparr> else s"
  have m: "mark (h # hs) r s = mark hs r ?s"
    by (rule test_state.equality) (auto simp: mark_def flagged_def fun_eq_iff)
  have "report_to p r ?s = Some (Inr (arrive to r (mark hs r ?s)))"
    using Cons.prems(2) p(3) m by (intro Cons.IH) (auto simp del: helper_chain.simps)
  then show ?case using p(1,2) m by (simp add: report_to.simps [of h])
qed

lemma report_ok:
  assumes "ready hs to caught s"
  shows "report_to (thread_reporter s) r s = Some (Inr (arrive to r (mark hs r s)))"
proof -
  have m: "reporters (mark hs r s) = reporters s" "failure_arrays (mark hs r s) = failure_arrays s"
    "global_reporter (mark hs r s) = global_reporter s" by (simp_all add: mark_def)
  have arrays: "\<forall>arr. to = Some arr \<longrightarrow> failure_arrays (mark hs r s) arr \<noteq> None"
    using assms m by (simp add: ready_def)
  obtain k where k: "helper_chain (reporters s) (thread_reporter s) hs k"
    and rep: "if caught then \<exists>mode old arr. reporters s k = Some (ScopedFake mode old arr) \<and> to = Some arr
        else reporters s k = Some DefaultPerThread \<and>
          ((reporters s (global_reporter s) = Some DefaultGlobal \<and> to = None) \<or>
           (\<exists>mode old arr. reporters s (global_reporter s) = Some (ScopedFake mode old arr) \<and> to = Some arr))"
    using assms by (auto simp only: ready_def ends_at_def)
  have "report_to k r (mark hs r s) = Some (Inr (arrive to r (mark hs r s)))"
    using rep arrive_ok [OF arrays] m
    by (cases caught) (auto simp: report_to.simps [of k] report_to.simps [of "global_reporter s"] arrive_def [of None])
  then show ?thesis by (rule report_to_chain [OF k])
qed

section \<open>The objects implement the meaning\<close>

text \<open>The run that a meaning describes, from a state.\<close>

definition run_of ::
  "nat list \<Rightarrow> nat option \<Rightarrow> test_state \<Rightarrow> (sighting list \<times> statement_end) res \<Rightarrow> (test_state \<times> statement_end) run" where
  "run_of hs to s m = Some (bind_res m (\<lambda>(xs, e). Inr (deliver hs to s xs, e)))"

lemma run_of_Inr [simp]: "run_of hs to s (Inr (xs, e)) = Some (Inr (deliver hs to s xs, e))"
  by (simp add: run_of_def)

lemma run_of_Inl [simp]: "run_of hs to s (Inl err) = Some (Inl err)"
  by (simp add: run_of_def)

lemma bind_run_simps [simp]:
  "bind_run (Some (Inl err)) f = Some (Inl err)"
  "bind_run (Some (Inr x)) f = f x"
  by (simp_all add: bind_run_def)

lemma bind_run_of:
  assumes "\<And>xs e. m = Inr (xs, e) \<Longrightarrow> f (deliver hs to s xs, e) = run_of hs to s (g (xs, e))"
  shows "bind_run (run_of hs to s m) f = run_of hs to s (bind_res m g)"
  using assms by (cases m) auto

lemma run_of_more:
  "run_of hs to (deliver hs to s xs) m = run_of hs to s (bind_res m (\<lambda>(ys, e). Inr (xs @ ys, e)))"
  by (cases m) auto

lemma thread_AddTestPartResult_ok:
  assumes "ready hs to caught s"
  shows "thread_AddTestPartResult w ty file_name line message [] s =
    (let part = new_part (unit_trace s) ty file_name line message []; s1 = deliver hs to s [(False, part)] in
     Some (if ty \<noteq> kSuccess \<and> FLAG_break_on_failure (world_flags w) then Inl NullDereference
       else Inr (s1, if ty \<noteq> kSuccess \<and> FLAG_throw_on_failure (world_flags w) then Threw (GoogleTestFailureException part)
         else Completed)))"
  using report_ok [OF assms] by (simp add: thread_AddTestPartResult_def Let_def see_def)

lemma GTEST_MESSAGE_AT_ok:
  assumes "ready hs to caught s"
  shows "GTEST_MESSAGE_AT w ty file_name line message user s =
    run_of hs to s (meaning_of_part w (unit_trace s) ty file_name line message user)"
  using thread_AddTestPartResult_ok [OF assms]
  by (simp add: GTEST_MESSAGE_AT_def AssertHelper_def meaning_of_part_def Let_def)

lemma AssertHelper_ok:
  assumes "ready hs to caught s"
  shows "AssertHelper w kNonFatalFailure file_name line message user s =
    run_of hs to s (meaning_of_part w (unit_trace s) kNonFatalFailure file_name line message user)"
  using thread_AddTestPartResult_ok [OF assms]
  by (simp add: AssertHelper_def meaning_of_part_def Let_def)

text \<open>The end of a check: the array is looked at, a failure is reported, and the array goes.\<close>

lemma array_set_keeps [simp]:
  "reporters (array_set arr v s) = reporters s" "global_reporter (array_set arr v s) = global_reporter s"
  "thread_reporter (array_set arr v s) = thread_reporter s" "next_object (array_set arr v s) = next_object s"
  "new_fatal (array_set arr v s) = new_fatal s" "ts_run (array_set arr v s) = ts_run s" "unit_trace (array_set arr v s) = unit_trace s"
  "failure_arrays (array_set arr v s) = (failure_arrays s)(arr := v)"
  by (simp_all add: array_set_def unit_trace_def)

lemma ready_with_array:
  assumes "ready hs to caught s" and "n = next_object s"
  shows "ready hs to caught (array_set n (Some rs) (s\<lparr>next_object := n + 1\<rparr>))"
  using assms ready_fresh(4) [OF assms(1)] by (auto simp: ready_def)

lemma check_ends:
  assumes r: "ready hs to caught s" and n: "n = next_object s"
  shows "bind_run (destroy_SingleFailureChecker w ty substr n (array_set n (Some rs) (s\<lparr>next_object := n + 1\<rparr>)))
      (\<lambda>s1. Some (Inr (delete_TestPartResultArray n s1, e))) =
    run_of hs to s (bind_res (meaning_of_check w (unit_trace s) ty substr rs) (\<lambda>ys. Inr (ys, e)))"
proof -
  let ?s = "array_set n (Some rs) (s\<lparr>next_object := n + 1\<rparr>)"
  have fresh: "to \<noteq> Some n" using ready_fresh(4) [OF r] n by simp
  have away: "delete_TestPartResultArray n (deliver hs to ?s ys) = deliver hs to s ys" for ys
  proof -
    have "failure_arrays (deliver hs to s ys) n = None"
      using ready_fresh(2) [OF ready_deliver [OF r]] n by simp
    moreover have "deliver hs to ?s ys = array_set n (Some rs) ((deliver hs to s ys)\<lparr>next_object := n + 1\<rparr>)"
      by (simp only: deliver_other_array [OF fresh] deliver_frame)
    ultimately show ?thesis
      by (intro test_state.equality) (simp_all add: delete_TestPartResultArray_def n fun_upd_idem)
  qed
  have trace: "unit_trace ?s = unit_trace s" by (simp add: unit_trace_def)
  show ?thesis
  proof (cases "HasOneFailure rs ty substr")
    case (Inr ar)
    show ?thesis
    proof (cases "ar_success ar")
      case True
      then show ?thesis using Inr away [of "[]"] by (simp add: destroy_SingleFailureChecker_def meaning_of_check_def)
    next
      case False
      let ?m = "meaning_of_part w (unit_trace s) kNonFatalFailure ''gtest.cc'' 661 (ar_text ar) []"
      have "AssertHelper w kNonFatalFailure ''gtest.cc'' 661 (ar_text ar) [] ?s = run_of hs to ?s ?m"
        using AssertHelper_ok [OF ready_with_array [OF r n]] trace by simp
      then show ?thesis using Inr False away
        by (cases ?m) (auto simp: destroy_SingleFailureChecker_def meaning_of_check_def)
    qed
  qed (simp add: destroy_SingleFailureChecker_def meaning_of_check_def)
qed

subsection \<open>Catching failures\<close>

lemma ends_at_update:
  assumes "R n = None" and "ends_at R g t hs to caught"
  shows "ends_at (R(n := v)) g t hs to caught"
proof -
  have other: "(R(n := v)) a = R a" if "R a \<noteq> None" for a using assms(1) that by auto
  obtain k where "helper_chain R t hs k"
    and k: "if caught then \<exists>mode old arr. R k = Some (ScopedFake mode old arr) \<and> to = Some arr
        else R k = Some DefaultPerThread \<and>
          ((R g = Some DefaultGlobal \<and> to = None) \<or>
           (\<exists>mode old arr. R g = Some (ScopedFake mode old arr) \<and> to = Some arr))"
    using assms(2) by (auto simp only: ends_at_def)
  then have "helper_chain (R(n := v)) t hs k" using assms(1) by (intro helper_chain_update)
  moreover have "R k \<noteq> None" using k by (cases caught) auto
  then have "(R(n := v)) k = R k" by (rule other)
  moreover have "(R(n := v)) g = R g" if "\<not> caught"
  proof (rule other)
    show "R g \<noteq> None" using k that by auto
  qed
  ultimately show ?thesis using k unfolding ends_at_def by (intro exI [of _ k]) (cases caught; auto)
qed

lemma ends_at_caught: "ends_at R g t hs to True \<Longrightarrow> ends_at R g' t hs to True"
  by (simp add: ends_at_def)

lemma ends_at_global:
  assumes "R n = None" and "ends_at R g t hs to False"
  shows "ends_at (R(n \<mapsto> ScopedFake mode old arr)) n t hs (Some arr) False"
proof -
  obtain k where "helper_chain R t hs k" "R k = Some DefaultPerThread" using assms(2) by (auto simp: ends_at_def)
  moreover then have "k \<noteq> n" using assms(1) by auto
  ultimately show ?thesis using helper_chain_update [where R = R and n = n] assms(1) by (auto simp: ends_at_def)
qed

text \<open>The states in which the statement of a check runs.\<close>

definition with_fake :: "intercept_mode \<Rightarrow> test_state \<Rightarrow> test_state" where
  "with_fake mode s = snd (ScopedFake_Init mode (next_object s) (snd (new_TestPartResultArray s)))"

lemma with_fake_eq:
  "with_fake INTERCEPT_ONLY_CURRENT_THREAD s = array_set (next_object s) (Some [])
     (s\<lparr>next_object := next_object s + 2,
        reporters := (reporters s)(next_object s + 1 \<mapsto>
          ScopedFake INTERCEPT_ONLY_CURRENT_THREAD (thread_reporter s) (next_object s)),
        thread_reporter := next_object s + 1\<rparr>)"
  "with_fake INTERCEPT_ALL_THREADS s = array_set (next_object s) (Some [])
     (s\<lparr>next_object := next_object s + 2,
        reporters := (reporters s)(next_object s + 1 \<mapsto>
          ScopedFake INTERCEPT_ALL_THREADS (global_reporter s) (next_object s)),
        global_reporter := next_object s + 1\<rparr>)"
  by (rule test_state.equality;
      simp add: with_fake_def ScopedFake_Init_def new_TestPartResultArray_def array_set_def Let_def)+

lemma unit_trace_with_fake [simp]: "unit_trace (with_fake mode s) = unit_trace s"
  by (cases mode) (simp_all add: with_fake_eq unit_trace_def)

lemma exec_Expect_Failure:
  "exec w (Expect_Failure fatal mode substr c) s =
    bind_run (exec w c (with_fake mode s)) (\<lambda>(s3, e).
    bind_run (Some (destroy_ScopedFake (next_object s + 1) s3)) (\<lambda>s4.
    bind_run (destroy_SingleFailureChecker w (failure_type fatal) substr (next_object s) s4) (\<lambda>s5.
      Some (Inr (delete_TestPartResultArray (next_object s) s5, end_of_checked fatal e)))))"
  by (simp add: EXPECT_FAILURE_def with_fake_def ScopedFake_Init_def new_TestPartResultArray_def Let_def)

lemma ready_fake_current:
  assumes "ready hs to caught s"
  shows "ready [] (Some (next_object s)) True (with_fake INTERCEPT_ONLY_CURRENT_THREAD s)"
  using assms by (auto simp: ready_def ends_at_def with_fake_eq)

lemma ready_fake_all:
  assumes "ready hs to caught s"
  shows "ready hs (if caught then to else Some (next_object s)) caught (with_fake INTERCEPT_ALL_THREADS s)"
proof -
  have fresh: "reporters s (next_object s + 1) = None" using assms by (simp add: ready_def)
  have "ends_at (reporters s) (global_reporter s) (thread_reporter s) hs to caught" using assms by (simp add: ready_def)
  then have "ends_at (reporters (with_fake INTERCEPT_ALL_THREADS s)) (global_reporter (with_fake INTERCEPT_ALL_THREADS s))
    (thread_reporter (with_fake INTERCEPT_ALL_THREADS s)) hs (if caught then to else Some (next_object s)) caught"
    using ends_at_global [where R = "reporters s" and n = "next_object s + 1"] fresh
      ends_at_caught [OF ends_at_update [where R = "reporters s" and n = "next_object s + 1"]]
    by (cases caught) (simp_all add: with_fake_eq)
  then show ?thesis using assms by (auto simp: ready_def with_fake_eq)
qed

lemma deliver_taken_nothing: "deliver [] to s (taken xs) = s"
  by (induction xs arbitrary: s) (simp_all add: see_def mark_def flagged_def [abs_def])

text \<open>What the fake reporter leaves when it goes.\<close>

lemma fake_current_ends:
  assumes "ready hs to caught s"
  shows "destroy_ScopedFake (next_object s + 1)
      (deliver [] (Some (next_object s)) (with_fake INTERCEPT_ONLY_CURRENT_THREAD s) xs) =
    Inr (array_set (next_object s) (Some (kept xs)) (s\<lparr>next_object := next_object s + 1\<rparr>))"
proof -
  have "reporters s (Suc (next_object s)) = None" using assms by (simp add: ready_def)
  then show ?thesis
    unfolding with_fake_eq deliver_to_array [where to = to] deliver_taken_nothing
    by (auto simp: destroy_ScopedFake_def Let_def fun_upd_idem intro!: test_state.equality)
qed

lemma fake_all_ends:
  assumes r: "ready hs to caught s"
  shows "destroy_ScopedFake (next_object s + 1)
      (deliver hs (if caught then to else Some (next_object s)) (with_fake INTERCEPT_ALL_THREADS s) xs) =
    (let d = deliver hs to s (if caught then xs else taken xs) in
     Inr (array_set (next_object s) (Some (if caught then [] else kept xs)) (d\<lparr>next_object := next_object s + 1\<rparr>)))"
proof -
  have fresh: "reporters s (Suc (next_object s)) = None" using r by (simp add: ready_def)
  have other: "to \<noteq> Some (next_object s)" using ready_fresh(4) [OF r] by simp
  have "deliver hs (if caught then to else Some (next_object s)) (with_fake INTERCEPT_ALL_THREADS s) xs =
    array_set (next_object s) (Some (if caught then [] else kept xs))
     ((deliver hs to s (if caught then xs else taken xs))\<lparr>next_object := next_object s + 2,
        reporters := (reporters s)(next_object s + 1 \<mapsto>
          ScopedFake INTERCEPT_ALL_THREADS (global_reporter s) (next_object s)),
        global_reporter := next_object s + 1\<rparr>)"
    unfolding with_fake_eq
    by (cases caught) (simp_all only: if_True if_False deliver_other_array [OF other] deliver_to_array [where to = to]
        deliver_frame append_Nil simp_thms)
  then show ?thesis
    by (auto simp: destroy_ScopedFake_def Let_def fresh fun_upd_idem intro!: test_state.equality)
qed

subsection \<open>Watching for fatal failures\<close>

definition with_helper :: "test_state \<Rightarrow> test_state" where
  "with_helper s = snd (HasNewFatalFailureHelper s)"

lemma with_helper_eq:
  "with_helper s = set_flag (next_object s) (Some False)
     (s\<lparr>next_object := next_object s + 1,
        reporters := (reporters s)(next_object s \<mapsto> NewFatalFailureHelper (thread_reporter s)),
        thread_reporter := next_object s\<rparr>)"
  by (rule test_state.equality) (simp_all add: with_helper_def HasNewFatalFailureHelper_def set_flag_def Let_def)

lemma set_flag_keeps [simp]:
  "reporters (set_flag h v s) = reporters s" "global_reporter (set_flag h v s) = global_reporter s"
  "thread_reporter (set_flag h v s) = thread_reporter s" "next_object (set_flag h v s) = next_object s"
  "new_fatal (set_flag h v s) = (new_fatal s)(h := v)" "ts_run (set_flag h v s) = ts_run s"
  "failure_arrays (set_flag h v s) = failure_arrays s"
  by (simp_all add: set_flag_def)

lemma unit_trace_with_helper [simp]: "unit_trace (with_helper s) = unit_trace s"
  by (simp add: with_helper_eq unit_trace_def)

lemma ready_helper:
  assumes "ready hs to caught s"
  shows "ready (next_object s # hs) to caught (with_helper s)"
proof -
  let ?n = "next_object s"
  let ?R = "(reporters s)(?n \<mapsto> NewFatalFailureHelper (thread_reporter s))"
  have "reporters s ?n = None" and "ends_at (reporters s) (global_reporter s) (thread_reporter s) hs to caught"
    using assms by (simp_all add: ready_def)
  then have "ends_at ?R (global_reporter s) (thread_reporter s) hs to caught" by (rule ends_at_update)
  then have "ends_at ?R (global_reporter s) ?n (?n # hs) to caught" by (auto simp: ends_at_def)
  then show ?thesis using assms by (auto simp: ready_def with_helper_eq)
qed

lemma helper_ends:
  fixes xs :: "sighting list"
  assumes r: "ready hs to caught s"
  defines "d \<equiv> deliver (next_object s # hs) to (with_helper s) xs"
  shows "destroy_HasNewFatalFailureHelper (next_object s) d = Inr (deliver hs to s xs)"
    and "new_fatal d (next_object s) = Some (\<exists>x \<in> set xs. fatally_failed (snd x))"
proof -
  let ?n = "next_object s"
  have fresh: "reporters s ?n = None" "new_fatal (deliver hs to s xs) ?n = None" "?n \<notin> set hs"
    using ready_fresh(1,5) [OF r] ready_fresh(3) [OF ready_deliver [OF r]] by simp_all
  have d: "d = set_flag ?n (Some (\<exists>x \<in> set xs. fatally_failed (snd x)))
     ((deliver hs to s xs)\<lparr>next_object := ?n + 1,
        reporters := (reporters s)(?n \<mapsto> NewFatalFailureHelper (thread_reporter s)), thread_reporter := ?n\<rparr>)"
    unfolding d_def with_helper_eq deliver_helper [OF fresh(3)] by (simp only: deliver_frame simp_thms)
  show "destroy_HasNewFatalFailureHelper ?n d = Inr (deliver hs to s xs)"
    by (auto simp: d destroy_HasNewFatalFailureHelper_def fresh fun_upd_idem intro!: test_state.equality)
  show "new_fatal d ?n = Some (\<exists>x \<in> set xs. fatally_failed (snd x))" by (simp add: d)
qed

lemma exec_No_Fatal_Failure:
  "exec w (No_Fatal_Failure statement_text fatal file_name line user c) s =
    bind_run (exec w c (with_helper s)) (\<lambda>(s2, e).
    bind_run (Some (destroy_HasNewFatalFailureHelper (next_object s) s2)) (\<lambda>s3.
      if e = Completed \<and> new_fatal s2 (next_object s) = Some True
      then GTEST_MESSAGE_AT w (failure_type fatal) file_name line (no_fatal_message statement_text) user s3
      else Some (Inr (s3, e))))"
  by (simp add: GTEST_TEST_NO_FATAL_FAILURE_def with_helper_def HasNewFatalFailureHelper_def Let_def)

subsection \<open>Statements\<close>

lemma exec_means:
  "ready hs to caught s \<Longrightarrow> exec w c s = run_of hs to s (meaning w caught (unit_trace s) c)"
proof (induction c arbitrary: s hs to caught)
  case (Message_At ty file_name line message user)
  then show ?case by (simp add: GTEST_MESSAGE_AT_ok)
next
  case (Then c d)
  have "exec w d (deliver hs to s xs) = run_of hs to s (bind_res (meaning w caught (unit_trace s) d)
    (\<lambda>(ys, e'). Inr (xs @ ys, e')))" for xs
    using Then.IH(2) [OF ready_deliver [OF Then.prems]] by (simp add: run_of_more)
  then show ?case using Then.IH(1) [OF Then.prems] by (simp add: bind_run_of split: prod.splits)
next
  case (Function_Call c)
  show ?case using Function_Call.IH [OF Function_Call.prems] by (simp add: bind_run_of)
next
  case (Scoped_Trace t c)
  have "ready hs to caught (ScopedTrace t s)" using Scoped_Trace.prems by (simp add: ready_def ScopedTrace_def)
  then have "exec w c (ScopedTrace t s) = run_of hs to (ScopedTrace t s) (meaning w caught (unit_trace s @ [t]) c)"
    using Scoped_Trace.IH by simp
  then show ?case by (cases "meaning w caught (unit_trace s @ [t]) c") (auto simp: deliver_frame)
next
  case (Throw_Check k statement_text fatal file_name line user c)
  have "GTEST_MESSAGE_AT w (failure_type fatal) file_name line msg user (deliver hs to s xs) =
    run_of hs to s (bind_res (meaning_of_part w (unit_trace s) (failure_type fatal) file_name line msg user)
      (\<lambda>(ys, e'). Inr (xs @ ys, e')))" for msg xs
    using GTEST_MESSAGE_AT_ok [OF ready_deliver [OF Throw_Check.prems]] by (simp add: run_of_more)
  then show ?case using Throw_Check.IH [OF Throw_Check.prems]
    by (simp add: throw_check_def bind_run_of split: prod.splits option.splits)
next
  case (No_Fatal_Failure statement_text fatal file_name line user c)
  note r = No_Fatal_Failure.prems
  have message: "GTEST_MESSAGE_AT w (failure_type fatal) file_name line msg user (deliver hs to s xs) =
    run_of hs to s (bind_res (meaning_of_part w (unit_trace s) (failure_type fatal) file_name line msg user)
      (\<lambda>(ys, e'). Inr (xs @ ys, e')))" for msg xs
    using GTEST_MESSAGE_AT_ok [OF ready_deliver [OF r]] by (simp add: run_of_more)
  show ?case
    unfolding exec_No_Fatal_Failure No_Fatal_Failure.IH [OF ready_helper [OF r]]
    by (cases "meaning w caught (unit_trace s) c") (auto simp: helper_ends [OF r] message)
next
  case (Expect_Failure fatal mode substr c)
  note r = Expect_Failure.prems
  show ?case
  proof (cases mode)
    case INTERCEPT_ONLY_CURRENT_THREAD
    show ?thesis
      unfolding INTERCEPT_ONLY_CURRENT_THREAD exec_Expect_Failure Expect_Failure.IH [OF ready_fake_current [OF r]]
      by (cases "meaning w True (unit_trace s) c")
        (auto simp: fake_current_ends [OF r, simplified] check_ends [OF r refl, simplified])
  next
    case INTERCEPT_ALL_THREADS
    let ?d = "\<lambda>xs. deliver hs to s (if caught then xs else taken xs)"
    have ends: "bind_run (destroy_SingleFailureChecker w ty substr (next_object s)
        (array_set (next_object s) (Some rs) ((?d xs)\<lparr>next_object := next_object s + 1\<rparr>)))
        (\<lambda>s1. Some (Inr (delete_TestPartResultArray (next_object s) s1, e))) =
      run_of hs to s (bind_res (meaning_of_check w (unit_trace s) ty substr rs)
        (\<lambda>ys. Inr ((if caught then xs else taken xs) @ ys, e)))" for ty rs xs e
      using check_ends [OF ready_deliver [OF r, of "if caught then xs else taken xs"], where n = "next_object s"
          and w = w and ty = ty and substr = substr and rs = rs and e = e]
      by (cases "meaning_of_check w (unit_trace s) ty substr rs") (simp_all add: run_of_more)
    have tail: "bind_run (Some (destroy_ScopedFake (next_object s + 1)
        (deliver hs (if caught then to else Some (next_object s)) (with_fake INTERCEPT_ALL_THREADS s) xs)))
        (\<lambda>s4. bind_run (destroy_SingleFailureChecker w ty substr (next_object s) s4)
        (\<lambda>s5. Some (Inr (delete_TestPartResultArray (next_object s) s5, e)))) =
      run_of hs to s (bind_res (meaning_of_check w (unit_trace s) ty substr (if caught then [] else kept xs))
        (\<lambda>ys. Inr ((if caught then xs else taken xs) @ ys, e)))" for ty xs e
      unfolding fake_all_ends [OF r] Let_def bind_run_simps by (rule ends)
    show ?thesis
      unfolding INTERCEPT_ALL_THREADS exec_Expect_Failure Expect_Failure.IH [OF ready_fake_all [OF r]]
        unit_trace_with_fake
    proof (cases "meaning w caught (unit_trace s) c")
      case (Inr m)
      then show "bind_run (run_of hs (if caught then to else Some (next_object s)) (with_fake INTERCEPT_ALL_THREADS s)
          (meaning w caught (unit_trace s) c)) (\<lambda>(s3, e).
          bind_run (Some (destroy_ScopedFake (next_object s + 1) s3)) (\<lambda>s4.
          bind_run (destroy_SingleFailureChecker w (failure_type fatal) substr (next_object s) s4) (\<lambda>s5.
            Some (Inr (delete_TestPartResultArray (next_object s) s5, end_of_checked fatal e))))) =
        run_of hs to s (meaning w caught (unit_trace s) (Expect_Failure fatal INTERCEPT_ALL_THREADS substr c))"
        by (cases m) (simp only: run_of_Inr bind_run_simps prod.case tail meaning.simps bind_res_Inr simp_thms if_True)
    qed simp
  qed
qed (simp_all add: run_of_def)

lemma ready_initial: "ready [] None False (initial_test_state s)"
  by (auto simp: ready_def ends_at_def initial_test_state_def)

lemma deliver_initial:
  "deliver [] None (initial_test_state s) xs = initial_test_state (fold ReportTestPartResult (kept xs) s)"
proof (induction xs arbitrary: s)
  case (Cons x xs)
  have "see [] None (initial_test_state s) x =
    initial_test_state (if fst x then s else ReportTestPartResult (snd x) s)"
    by (simp add: see_defs flagged_def [abs_def] initial_test_state_def)
  then show ?case using Cons.IH by simp
qed simp

text \<open>From the objects as they are when a test starts.\<close>

lemma exec_meaning:
  "exec w c (initial_test_state s) =
    Some (bind_res (meaning w False (unit_trace_stack (run_unit s)) c) (\<lambda>(xs, e).
      Inr (initial_test_state (fold ReportTestPartResult (kept xs) s), e)))"
proof -
  have "unit_trace (initial_test_state s) = unit_trace_stack (run_unit s)"
    by (simp add: unit_trace_def initial_test_state_def)
  then show ?thesis
    using exec_means [OF ready_initial, of w c s] by (simp add: run_of_def deliver_initial)
qed

text \<open>When a check is satisfied: by one result of the expected kind whose message has the text.\<close>

lemma HasOneFailure_verdict:
  assumes "length results < 2 ^ 31" and "NUL \<notin> set substr"
  shows "(\<exists>ar. HasOneFailure results ty substr = Inr ar \<and> ar_success ar) \<longleftrightarrow>
    (\<exists>r. results = [r] \<and> part_type_ok r = ty \<and> (\<exists>u v. part_message r = u @ substr @ v))"
proof -
  have size: "array_size results = int (length results)"
    using assms(1) by (simp add: array_size_def vector_size_def sint_int_of_size)
  show ?thesis
  proof (cases results)
    case (Cons r rs)
    show ?thesis
    proof (cases rs)
      case Nil
      then have "array_GetTestPartResult 0 results = Inr r" using Cons size by (simp add: array_GetTestPartResult_def)
      then show ?thesis
        using Cons Nil size strstr_iff [of "part_message r" substr] c_str_id [OF assms(2)]
        by (auto simp: HasOneFailure_def Let_def bind_res_eq_Inr split: if_splits)
    qed (use Cons size in \<open>auto simp: HasOneFailure_def Let_def bind_res_eq_Inr split: if_splits\<close>)
  qed (use size in \<open>auto simp: HasOneFailure_def Let_def bind_res_eq_Inr split: if_splits\<close>)
qed

text \<open>
  With the default reporters a part result is recorded as the rest of the development assumes; the
  message is a C string.
\<close>

lemma default_reporters:
  assumes "NUL \<notin> set (message @ trace_text (unit_trace_stack (run_unit s)))"
    and "\<not> FLAG_throw_on_failure (world_flags w)"
  shows "thread_AddTestPartResult w ty (Some file_name) line message [] (initial_test_state s) =
    Some (bind_res (AddTestPartResult w ty (Some file_name) line message [] s)
      (\<lambda>s1. Inr (initial_test_state s1, Completed)))"
proof -
  have "new_part (unit_trace (initial_test_state s)) ty (Some file_name) line message [] =
    TestPartResult ty (Some file_name) line (message @ trace_text (unit_trace_stack (run_unit s)))"
    using assms(1) by (simp add: new_part_def unit_trace_def initial_test_state_def StringStreamToString_id)
  then show ?thesis
    using thread_AddTestPartResult_ok [OF ready_initial, of w ty "Some file_name" line message s] assms(2)
      deliver_initial [of s "[(False, new_part (unit_trace (initial_test_state s)) ty (Some file_name) line message [])]"]
    by (simp add: AddTestPartResult_def Let_def)
qed

text \<open>
  A check for all threads that stands in a check for the current thread sees nothing: the failure goes
  to the outer check, and the inner one reports that it saw none.
\<close>

lemma all_threads_in_current:
  assumes "meaning w True stack c = Inr (xs, e)"
    and "meaning w True stack (Expect_Failure fatal INTERCEPT_ALL_THREADS substr c) = Inr (ys, e')"
  shows "\<exists>part. ys = xs @ [(False, part)] \<and> nonfatally_failed part"
  using assms
  by (auto simp: meaning_of_check_def HasOneFailure_def array_size_def vector_size_def meaning_of_part_def Let_def
      new_part_def TestPartResult_def nonfatally_failed_def failure_type_def bind_res_eq_Inr split: if_splits)

end
