(* ===== verification/Gtest_Checks.thy ===== *)
theory Gtest_Checks
  imports Gtest_Failures "HOL-Library.Sublist"
begin

text \<open>
  What the documentation of the checks of failures says (\<open>gtest-spi.h\<close>, \<open>gtest.h\<close>), written down without
  the code: a check takes the failures of its statement away and is content with exactly one of them,
  of the expected kind, whose message has the expected text. Shown: on the statements where code and
  documentation agree, the objects of \<open>Gtest_Reporters\<close> do exactly this. The statements left out are
  those of \<open>orderly\<close>; on each of them the code does something else.
\<close>

section \<open>The documented meaning\<close>

primrec visible :: "string \<Rightarrow> string" where
  "visible [] = []"
| "visible (c # s) = (if c = NUL then [CHR 0x5C, CHR ''0''] else [c]) @ visible s"

primrec upto_marker :: "string \<Rightarrow> string" where
  "upto_marker [] = []"
| "upto_marker (c # s) = (if prefix (LF # ''Stack trace:'' @ [LF]) (c # s) then [] else c # upto_marker s)"

text \<open>Newest trace first.\<close>

fun told_traces :: "trace_info list \<Rightarrow> string" where
  "told_traces [] = []"
| "told_traces (t # ts) = LF # ''Google Test trace:'' @
     concat (map (\<lambda>t. LF # trace_file t @ '':'' @ (if trace_line t < 0 then [] else dec_of_int (trace_line t) @ '':'') @
       '' '' @ trace_message t) (rev (t # ts)))"

definition told_part :: "trace_info list \<Rightarrow> part_type \<Rightarrow> string \<Rightarrow> int \<Rightarrow> string \<Rightarrow> test_part_result" where
  "told_part stack ty file_name line words =
     (let told_text = visible (words @ told_traces stack) in
      \<lparr>part_type_ok = ty, part_file_name = file_name, part_line_number = line,
       part_summary = upto_marker told_text, part_message = told_text\<rparr>)"

text \<open>
  One result is reported; a fatal failure leaves the function. With \<open>--gtest_break_on_failure\<close> a
  failure stops the program, with \<open>--gtest_throw_on_failure\<close> it is thrown.
\<close>

definition told :: "world \<Rightarrow> trace_info list \<Rightarrow> part_type \<Rightarrow> string \<Rightarrow> int \<Rightarrow> string \<Rightarrow> (test_part_result list \<times> statement_end) res" where
  "told w stack ty file_name line words =
     (let part = told_part stack ty file_name line words in
      if ty = kSuccess then Inr ([part], Completed)
      else if FLAG_break_on_failure (world_flags w) then Inl NullDereference
      else if FLAG_throw_on_failure (world_flags w) then Inr ([part], Threw (GoogleTestFailureException part))
      else Inr ([part], if ty = kFatalFailure then Left_Function else Completed))"

definition with_user :: "string \<Rightarrow> string \<Rightarrow> string" where
  "with_user words user = (if user = [] then words else words @ LF # user)"

fun throws_as :: "throw_test \<Rightarrow> statement_end \<Rightarrow> bool" where
  "throws_as (TEST_THROW expected exception_text) (Threw (Exception classes what)) = (expected \<in> set classes)"
| "throws_as TEST_ANY_THROW (Threw x) = True"
| "throws_as TEST_NO_THROW Completed = True"
| "throws_as k e = False"

fun complaint :: "throw_test \<Rightarrow> string \<Rightarrow> statement_end \<Rightarrow> string" where
  "complaint (TEST_THROW expected exception_text) statement_text e =
     ''Expected: '' @ statement_text @ '' throws an exception of type '' @ exception_text @ ''.'' @ LF #
     (if e = Completed then ''  Actual: it throws nothing.'' else ''  Actual: it throws a different type.'')"
| "complaint TEST_NO_THROW statement_text e =
     ''Expected: '' @ statement_text @ '' doesn'' @ CHR 0x27 # ''t throw an exception.'' @ LF # ''  Actual: it throws.''"
| "complaint TEST_ANY_THROW statement_text e =
     ''Expected: '' @ statement_text @ '' throws an exception.'' @ LF # ''  Actual: it doesn'' @ CHR 0x27 # ''t.''"

fun is_failure :: "test_part_result \<Rightarrow> bool" where
  "is_failure r = (part_type_ok r \<in> {kNonFatalFailure, kFatalFailure})"

definition told_kind :: "part_type \<Rightarrow> string" where
  "told_kind ty = (case ty of kSuccess \<Rightarrow> ''Success'' | kFatalFailure \<Rightarrow> ''Fatal failure'' | kNonFatalFailure \<Rightarrow> ''Non-fatal failure'')"

definition listed :: "test_part_result \<Rightarrow> string" where
  "listed r = part_file_name r @ '':'' @ dec_of_int (part_line_number r) @ '': '' @ told_kind (part_type_ok r) @ '':'' @
     LF # part_message r @ [LF]"

text \<open>What is expected of a check, and what it says when it is disappointed.\<close>

fun content :: "part_type \<Rightarrow> string \<Rightarrow> test_part_result list \<Rightarrow> bool" where
  "content ty substr [r] \<longleftrightarrow> part_type_ok r = ty \<and> sublist substr (part_message r)"
| "content ty substr rs \<longleftrightarrow> False"

fun disappointment :: "part_type \<Rightarrow> string \<Rightarrow> test_part_result list \<Rightarrow> string" where
  "disappointment ty substr [r] =
     ''Expected: 1 '' @ (if ty = kFatalFailure then ''fatal failure'' else ''non-fatal failure'') @
     (if part_type_ok r = ty then '' containing \"'' @ substr @ ''\"'' else []) @ LF # ''  Actual:'' @ LF # listed r"
| "disappointment ty substr rs =
     ''Expected: 1 '' @ (if ty = kFatalFailure then ''fatal failure'' else ''non-fatal failure'') @ LF #
     ''  Actual: '' @ dec_of_int (int (length rs)) @ '' failures'' @ concat (map (\<lambda>r. LF # listed r) rs)"

text \<open>A disappointed check reports a failure of its own, from a destructor.\<close>

definition checked_for :: "world \<Rightarrow> trace_info list \<Rightarrow> part_type \<Rightarrow> string \<Rightarrow> test_part_result list \<Rightarrow> test_part_result list res" where
  "checked_for w stack ty substr rs =
     (if content ty substr rs then Inr []
      else bind_res (told w stack kNonFatalFailure ''gtest.cc'' 661 (disappointment ty substr rs))
        (\<lambda>(xs, e). if e = Completed then Inr xs else Inl UncaughtException))"

fun documented :: "world \<Rightarrow> trace_info list \<Rightarrow> test_statement \<Rightarrow> (test_part_result list \<times> statement_end) res" where
  "documented w stack Skip = Inr ([], Completed)"
| "documented w stack (Message_At ty file_name line message user) = told w stack ty file_name line (with_user message user)"
| "documented w stack (Throw_Exception x) = Inr ([], Threw x)"
| "documented w stack Return_Statement = Inr ([], Left_Function)"
| "documented w stack (Then c d) =
     bind_res (documented w stack c) (\<lambda>(xs, e).
       if e = Completed then bind_res (documented w stack d) (\<lambda>(ys, e'). Inr (xs @ ys, e')) else Inr (xs, e))"
| "documented w stack (Function_Call c) =
     bind_res (documented w stack c) (\<lambda>(xs, e). Inr (xs, if e = Left_Function then Completed else e))"
| "documented w stack (Scoped_Trace t c) = documented w (stack @ [t]) c"
| "documented w stack (Throw_Check k statement_text fatal file_name line user c) =
     bind_res (documented w stack c) (\<lambda>(xs, e).
       if e = Left_Function then Inr (xs, e)
       else if throws_as k e then Inr (xs, Completed)
       else bind_res (told w stack (failure_type fatal) file_name line (with_user (complaint k statement_text e) user))
         (\<lambda>(ys, e'). Inr (xs @ ys, e')))"
| "documented w stack (No_Fatal_Failure statement_text fatal file_name line user c) =
     bind_res (documented w stack c) (\<lambda>(xs, e).
       if e = Completed \<and> (\<exists>x \<in> set xs. part_type_ok x = kFatalFailure) then
         bind_res (told w stack (failure_type fatal) file_name line (with_user
           (''Expected: '' @ statement_text @ '' doesn'' @ CHR 0x27 # ''t generate new fatal failures in the current thread.'' @
            LF # ''  Actual: it does.'') user)) (\<lambda>(ys, e'). Inr (xs @ ys, e'))
       else Inr (xs, e))"
| "documented w stack (Expect_Failure fatal mode substr c) =
     bind_res (documented w stack c) (\<lambda>(xs, e).
     bind_res (checked_for w stack (failure_type fatal) substr (filter is_failure xs)) (\<lambda>ys.
       Inr (ys, if fatal \<and> e = Left_Function then Completed else e)))"

section \<open>Where code and documentation agree\<close>

text \<open>
  Left out are a success inside a check (the code counts it as a failure), a check for all threads
  inside one for the current thread (it sees nothing) or watched for fatal failures (the failure it
  takes away is still noticed), results without a file name (printing one reads a null pointer) and an
  expected text with a NUL (only what stands before it is looked for). \<open>checked\<close> and \<open>watched\<close> say
  where the statement stands.
\<close>

fun orderly :: "bool \<Rightarrow> bool \<Rightarrow> test_statement \<Rightarrow> bool" where
  "orderly checked watched (Message_At ty file_name line message user) \<longleftrightarrow>
     file_name \<noteq> [] \<and> (checked \<longrightarrow> ty \<noteq> kSuccess)"
| "orderly checked watched (Then c d) \<longleftrightarrow> orderly checked watched c \<and> orderly checked watched d"
| "orderly checked watched (Function_Call c) \<longleftrightarrow> orderly checked watched c"
| "orderly checked watched (Scoped_Trace t c) \<longleftrightarrow> orderly checked watched c"
| "orderly checked watched (Throw_Check k statement_text fatal file_name line user c) \<longleftrightarrow>
     file_name \<noteq> [] \<and> orderly checked watched c"
| "orderly checked watched (No_Fatal_Failure statement_text fatal file_name line user c) \<longleftrightarrow>
     file_name \<noteq> [] \<and> orderly checked True c"
| "orderly checked watched (Expect_Failure fatal mode substr c) \<longleftrightarrow>
     NUL \<notin> set substr \<and> (mode = INTERCEPT_ALL_THREADS \<longrightarrow> \<not> watched) \<and>
     orderly True (watched \<or> mode = INTERCEPT_ONLY_CURRENT_THREAD) c"
| "orderly checked watched c \<longleftrightarrow> True"

text \<open>How many results a statement reports at most; the code counts them in an \<open>int\<close>.\<close>

primrec reports :: "test_statement \<Rightarrow> nat" where
  "reports Skip = 0"
| "reports (Message_At ty file_name line message user) = 1"
| "reports (Throw_Exception x) = 0"
| "reports Return_Statement = 0"
| "reports (Then c d) = reports c + reports d"
| "reports (Function_Call c) = reports c"
| "reports (Scoped_Trace t c) = reports c"
| "reports (Throw_Check k statement_text fatal file_name line user c) = reports c + 1"
| "reports (No_Fatal_Failure statement_text fatal file_name line user c) = reports c + 1"
| "reports (Expect_Failure fatal mode substr c) = reports c + 1"

section \<open>The same texts\<close>

lemma visible_eq: "visible s = StringStreamToString s"
  by (induction s) (simp_all add: StringStreamToString_def)

lemma visible_append: "visible (s @ t) = visible s @ visible t"
  by (simp add: visible_eq StringStreamToString_def)

lemma visible_no_NUL: "NUL \<notin> set (visible s)"
  by (induction s) auto

lemma visible_id: "NUL \<notin> set s \<Longrightarrow> visible s = s"
  by (simp add: visible_eq StringStreamToString_id)

lemma visible_Nil_iff: "visible s = [] \<longleftrightarrow> s = []"
  by (cases s) auto

lemma upto_marker_eq: "upto_marker m = ExtractSummary m"
proof (induction m)
  case (Cons c m)
  have "prefix t s \<longleftrightarrow> take (length t) s = t" for t s :: string
    by (metis append_eq_conv_conj prefix_def)
  then have p: "prefix (LF # ''Stack trace:'' @ [LF]) (c # m) \<longleftrightarrow>
      take (length kStackTraceMarker) (c # m) = kStackTraceMarker"
    by (simp only: kStackTraceMarker_def append_Cons append_Nil)
  have "length r \<le> length m" if "strstr m kStackTraceMarker = Some r" for r
    using strstr_Some [OF that] by auto
  then show ?case
    using Cons.IH unfolding upto_marker.simps p
    by (auto simp: ExtractSummary_def Suc_diff_le split: option.splits)
qed (simp add: ExtractSummary_def kStackTraceMarker_def)

lemma told_traces_eq: "told_traces stack = trace_text stack"
proof -
  have "FormatFileLocation (Some f) l = f @ '':'' @ (if l < 0 then [] else dec_of_int l @ '':'')" for f l
    by (simp add: FormatFileLocation_def)
  then show ?thesis by (cases stack) (simp_all add: trace_text_def)
qed

lemma told_part_eq: "told_part stack ty file_name line words = new_part stack ty (Some file_name) line words []"
  by (simp add: told_part_def new_part_def TestPartResult_def Let_def upto_marker_eq visible_eq told_traces_eq)

lemma told_part_more: "told_part stack ty file_name line (with_user words user) =
    told_part stack ty file_name line (AppendUserMessage words user)"
proof -
  have "visible (visible user) = visible user" by (simp add: visible_id visible_no_NUL)
  then show ?thesis
    by (simp add: told_part_def with_user_def AppendUserMessage_def Let_def visible_Nil_iff visible_append flip: visible_eq)
qed

lemma told_eq: "meaning_of_part w stack ty file_name line words user =
    bind_res (told w stack ty file_name line (with_user words user)) (\<lambda>(xs, e). Inr (map (\<lambda>r. (False, r)) xs, e))"
  by (simp add: meaning_of_part_def told_def told_part_more Let_def flip: told_part_eq)

lemma told_visible: "told w stack ty file_name line (with_user (visible words) []) = told w stack ty file_name line words"
proof -
  have "visible (visible words) = visible words" by (simp add: visible_id visible_no_NUL)
  then show ?thesis by (simp add: told_def told_part_def with_user_def visible_append)
qed

lemma told_facts:
  assumes "told w stack ty file_name line words = Inr (xs, e)"
  shows "length xs = 1 \<and> (\<forall>x \<in> set xs. part_file_name x = file_name \<and> part_type_ok x = ty)"
  using assms by (auto simp: told_def told_part_def Let_def split: if_splits)

lemma throw_verdict_eq: "throw_verdict k statement_text e =
    (if e = Left_Function then (None, Left_Function)
     else if throws_as k e then (None, Completed) else (Some (complaint k statement_text e), Completed))"
proof (cases k)
  case (TEST_THROW expected exception_text)
  show ?thesis
  proof (cases e)
    case (Threw x)
    then show ?thesis using TEST_THROW by (cases x) (simp add: GTEST_TEST_THROW_def Let_def)
  qed (use TEST_THROW in \<open>simp_all add: GTEST_TEST_THROW_def Let_def\<close>)
qed (cases e; simp add: GTEST_TEST_NO_THROW_def GTEST_TEST_ANY_THROW_def)+

lemma ar_text_failure_with: "ar_text (failure_with ts) = visible (concat ts)"
proof -
  have step: "\<exists>m'. ar_message (foldl (\<lambda>r t. AppendMessage t r) r ts) = Some m' \<and> m' = m @ visible (concat ts)"
    if "ar_message r = Some m" for r m ts
    using that
  proof (induction ts arbitrary: r m)
    case (Cons t ts)
    have "ar_message (AppendMessage t r) = Some (m @ visible t)"
      using Cons.prems by (simp add: AppendMessage_def c_str_id visible_no_NUL flip: visible_eq)
    from Cons.IH [OF this] show ?case by (simp add: visible_append)
  qed simp
  show ?thesis
  proof (cases ts)
    case (Cons t ts')
    have "ar_message (AppendMessage t gtest_AssertionFailure) = Some (visible t)"
      by (simp add: AppendMessage_def gtest_AssertionFailure_def c_str_id visible_no_NUL flip: visible_eq)
    from step [OF this] have "ar_message (failure_with ts) = Some (visible (concat ts))"
      by (simp add: Cons failure_with_def visible_append)
    then show ?thesis by (simp add: ar_text_def c_str_id visible_no_NUL)
  qed (simp add: failure_with_def ar_text_def gtest_AssertionFailure_def)
qed

lemma stream_part_listed: "part_file_name r \<noteq> [] \<Longrightarrow> stream_part r = Inr (listed r)"
  by (simp add: stream_part_def listed_def result_file_name_def told_kind_def split: part_type.splits)

lemma stream_parts_listed:
  "\<forall>r \<in> set rs. part_file_name r \<noteq> [] \<Longrightarrow> stream_parts rs = Inr (concat (map (\<lambda>r. LF # listed r) rs))"
  by (induction rs) (simp_all add: stream_part_listed)

lemma HasOneFailure_documented:
  assumes "length rs < 2 ^ 31" and "\<forall>r \<in> set rs. part_file_name r \<noteq> []" and "NUL \<notin> set substr"
  obtains ar where "HasOneFailure rs ty substr = Inr ar" and "ar_success ar \<longleftrightarrow> content ty substr rs"
    and "\<not> content ty substr rs \<Longrightarrow> ar_text ar = visible (disappointment ty substr rs)"
proof -
  have size: "array_size rs = int (length rs)"
    using assms(1) by (simp add: array_size_def vector_size_def sint_int_of_size)
  show ?thesis
  proof (cases "length rs = 1")
    case True
    then obtain r where r: "rs = [r]" by (auto simp: length_Suc_conv)
    have get: "array_GetTestPartResult 0 rs = Inr r" using size r by (simp add: array_GetTestPartResult_def)
    have found: "strstr (part_message r) (c_str substr) \<noteq> None \<longleftrightarrow> sublist substr (part_message r)"
      using strstr_iff [of "part_message r" substr] by (auto simp: c_str_id [OF assms(3)] sublist_def)
    have line: "stream_part r = Inr (listed r)" using assms(2) r by (simp add: stream_part_listed)
    consider (kind) "part_type_ok r \<noteq> ty" | (words) "part_type_ok r = ty" "\<not> sublist substr (part_message r)"
      | (content) "part_type_ok r = ty" "sublist substr (part_message r)" by blast
    then show ?thesis
    proof cases
      case kind
      then show ?thesis using size r get line
        by (intro that) (auto simp: HasOneFailure_def Let_def ar_text_failure_with)
    next
      case words
      then show ?thesis using size r get line found
        by (intro that) (auto simp: HasOneFailure_def Let_def ar_text_failure_with)
    next
      case content
      then show ?thesis using size r get found
        by (intro that [of gtest_AssertionSuccess]) (auto simp: HasOneFailure_def Let_def gtest_AssertionSuccess_def)
    qed
  next
    case False
    have no: "\<not> content ty substr rs" using False by (cases "(ty, substr, rs)" rule: content.cases) auto
    have words: "disappointment ty substr rs =
      ''Expected: 1 '' @ (if ty = kFatalFailure then ''fatal failure'' else ''non-fatal failure'') @ LF #
      ''  Actual: '' @ dec_of_int (int (length rs)) @ '' failures'' @ concat (map (\<lambda>r. LF # listed r) rs)"
      using False by (cases "(ty, substr, rs)" rule: disappointment.cases) auto
    have "HasOneFailure rs ty substr = Inr (failure_with [visible (disappointment ty substr rs)])"
      using False size stream_parts_listed [OF assms(2)] unfolding words
      by (simp add: HasOneFailure_def Let_def visible_eq)
    then show ?thesis using no by (intro that) (auto simp: ar_text_failure_with visible_id visible_no_NUL)
  qed
qed

section \<open>The objects do what the documentation says\<close>

lemma checked_eq:
  assumes "length rs < 2 ^ 31" and "\<forall>r \<in> set rs. part_file_name r \<noteq> []" and "NUL \<notin> set substr"
  shows "meaning_of_check w stack ty substr rs =
    bind_res (checked_for w stack ty substr rs) (\<lambda>xs. Inr (map (\<lambda>r. (False, r)) xs))"
proof -
  from HasOneFailure_documented [OF assms] obtain ar where ar: "HasOneFailure rs ty substr = Inr ar"
    "ar_success ar \<longleftrightarrow> content ty substr rs"
    "\<not> content ty substr rs \<Longrightarrow> ar_text ar = visible (disappointment ty substr rs)" by blast
  show ?thesis
  proof (cases "content ty substr rs")
    case True
    then show ?thesis using ar(1,2) by (simp add: meaning_of_check_def checked_for_def)
  next
    case False
    then show ?thesis using ar
      by (cases "told w stack kNonFatalFailure ''gtest.cc'' 661 (disappointment ty substr rs)")
        (auto simp: meaning_of_check_def checked_for_def told_eq told_visible)
  qed
qed

lemma checked_facts:
  assumes "checked_for w stack ty substr rs = Inr xs"
  shows "length xs \<le> 1 \<and> (\<forall>x \<in> set xs. part_file_name x \<noteq> [] \<and> part_type_ok x = kNonFatalFailure)"
  using assms told_facts
  by (fastforce simp: checked_for_def bind_res_eq_Inr split: if_splits prod.splits)

lemma told_failure:
  assumes "told w stack (failure_type fatal) file_name line words = Inr (zs, e)" and "file_name \<noteq> []"
  shows "length zs = 1 \<and> (\<forall>x \<in> set zs. part_file_name x \<noteq> [] \<and> is_failure x)"
  using told_facts [OF assms(1)] assms(2) by (auto simp: failure_type_def)

text \<open>The results a statement reports.\<close>

lemma documented_facts:
  assumes "orderly checked watched c" and "documented w stack c = Inr (xs, e)"
  shows "length xs \<le> reports c \<and> (\<forall>x \<in> set xs. part_file_name x \<noteq> [] \<and> (checked \<longrightarrow> is_failure x))"
  using assms
proof (induction c arbitrary: checked watched stack xs e)
  case (Message_At ty file_name line message user)
  then show ?case using told_facts by (cases ty) fastforce+
next
  case (Then c d)
  then obtain ys e1 where c: "documented w stack c = Inr (ys, e1)" by (auto simp: bind_res_eq_Inr)
  from Then.IH(1) [OF _ c, of checked watched] Then.prems Then.IH(2) [of checked watched stack] c show ?case
    by (fastforce simp: bind_res_eq_Inr split: if_splits)
next
  case (Function_Call c)
  then show ?case by (fastforce simp: bind_res_eq_Inr)
next
  case (Scoped_Trace t c)
  then show ?case by auto
next
  case (Throw_Check k statement_text fatal file_name line user c)
  then obtain ys e1 where c: "documented w stack c = Inr (ys, e1)" by (auto simp: bind_res_eq_Inr)
  have "length ys \<le> reports c \<and> (\<forall>x \<in> set ys. part_file_name x \<noteq> [] \<and> (checked \<longrightarrow> is_failure x))"
    using Throw_Check.IH [OF _ c, of checked] Throw_Check.prems(1) by fastforce
  moreover have "xs = ys \<or> (\<exists>zs e' ws. told w stack (failure_type fatal) file_name line ws = Inr (zs, e') \<and> xs = ys @ zs)"
    using Throw_Check.prems(2) c by (auto simp: bind_res_eq_Inr split: if_splits)
  moreover have "file_name \<noteq> []" using Throw_Check.prems(1) by simp
  ultimately show ?case using told_failure by fastforce
next
  case (No_Fatal_Failure statement_text fatal file_name line user c)
  then obtain ys e1 where c: "documented w stack c = Inr (ys, e1)" by (auto simp: bind_res_eq_Inr)
  have "length ys \<le> reports c \<and> (\<forall>x \<in> set ys. part_file_name x \<noteq> [] \<and> (checked \<longrightarrow> is_failure x))"
    using No_Fatal_Failure.IH [OF _ c, of checked] No_Fatal_Failure.prems(1) by fastforce
  moreover have "xs = ys \<or> (\<exists>zs e' ws. told w stack (failure_type fatal) file_name line ws = Inr (zs, e') \<and> xs = ys @ zs)"
    using No_Fatal_Failure.prems(2) c by (auto simp: bind_res_eq_Inr split: if_splits)
  moreover have "file_name \<noteq> []" using No_Fatal_Failure.prems(1) by simp
  ultimately show ?case using told_failure by fastforce
next
  case (Expect_Failure fatal mode substr c)
  then show ?case using checked_facts by (fastforce simp: bind_res_eq_Inr)
qed auto

text \<open>The results that nobody takes away on their way.\<close>

definition untaken :: "sighting list \<Rightarrow> bool" where
  "untaken xs \<longleftrightarrow> (\<forall>x \<in> set xs. \<not> fst x)"

lemma untaken_simps [simp]:
  "untaken []"
  "untaken (x # xs) \<longleftrightarrow> \<not> fst x \<and> untaken xs"
  "untaken (xs @ ys) \<longleftrightarrow> untaken xs \<and> untaken ys"
  "untaken (map (\<lambda>r. (False, r)) rs)"
  by (auto simp: untaken_def)

lemma kept_reported [simp]: "kept (map (\<lambda>r. (False, r)) rs) = rs"
  by (simp add: kept_def comp_def)

lemma untaken_set_kept: "untaken xs \<Longrightarrow> set (kept xs) = snd ` set xs"
  by (auto simp: untaken_def kept_def)

definition kept_results :: "(sighting list \<times> statement_end) res \<Rightarrow> (test_part_result list \<times> statement_end) res" where
  "kept_results m = bind_res m (\<lambda>(xs, e). Inr (kept xs, e))"

lemma kept_results_simps [simp]:
  "kept_results (Inl err) = Inl err"
  "kept_results (Inr (xs, e)) = Inr (kept xs, e)"
  by (simp_all add: kept_results_def)

lemma kept_results_Inr: "kept_results m = Inr (rs, e) \<Longrightarrow> \<exists>xs. m = Inr (xs, e) \<and> kept xs = rs"
  by (cases m) auto

definition agrees :: "bool \<Rightarrow> (sighting list \<times> statement_end) res \<Rightarrow> (test_part_result list \<times> statement_end) res \<Rightarrow> bool" where
  "agrees watched m d \<longleftrightarrow> kept_results m = d \<and> (\<forall>xs e. watched \<longrightarrow> m = Inr (xs, e) \<longrightarrow> untaken xs)"

lemma agrees_Inl: "agrees watched (Inl err) d \<longleftrightarrow> d = Inl err"
  by (auto simp: agrees_def)

lemma agrees_Inr: "agrees watched (Inr (xs, e)) d \<longleftrightarrow> d = Inr (kept xs, e) \<and> (watched \<longrightarrow> untaken xs)"
  by (auto simp: agrees_def)

lemma agrees_bind:
  assumes "agrees watched m d"
    and "\<And>xs e. m = Inr (xs, e) \<Longrightarrow> d = Inr (kept xs, e) \<Longrightarrow> (watched \<Longrightarrow> untaken xs) \<Longrightarrow> agrees watched' (f (xs, e)) (g (kept xs, e))"
  shows "agrees watched' (bind_res m f) (bind_res d g)"
  using assms by (cases m) (auto simp: agrees_Inl agrees_Inr)

lemma agrees_told:
  "agrees watched (bind_res (meaning_of_part w stack ty file_name line words user) (\<lambda>(ys, e'). Inr (xs @ ys, e')))
    (bind_res (told w stack ty file_name line (with_user words user)) (\<lambda>(ys, e'). Inr (kept xs @ ys, e')))"
  if "watched \<longrightarrow> untaken xs"
  using that by (cases "told w stack ty file_name line (with_user words user)") (auto simp: told_eq agrees_Inl agrees_Inr)

lemma meaning_documented:
  assumes "orderly checked watched c" and "reports c < 2 ^ 31" and "caught \<longrightarrow> watched"
  shows "agrees watched (meaning w caught stack c) (documented w stack c)"
  using assms
proof (induction c arbitrary: checked watched caught stack)
  case (Message_At ty file_name line message user)
  show ?case using agrees_told [where xs = "[]"]
    by (cases "told w stack ty file_name line (with_user message user)") (auto simp: told_eq agrees_Inl agrees_Inr)
next
  case (Then c d)
  have c: "agrees watched (meaning w caught stack c) (documented w stack c)"
    and d: "agrees watched (meaning w caught stack d) (documented w stack d)"
    using Then.prems by (auto intro: Then.IH)
  show ?case unfolding meaning.simps documented.simps
  proof (rule agrees_bind [OF c])
    fix xs e assume "watched \<Longrightarrow> untaken xs"
    then show "agrees watched
        (case (xs, e) of (xs, e) \<Rightarrow> if e = Completed then bind_res (meaning w caught stack d) (\<lambda>(ys, e'). Inr (xs @ ys, e')) else Inr (xs, e))
        (case (kept xs, e) of (xs, e) \<Rightarrow> if e = Completed then bind_res (documented w stack d) (\<lambda>(ys, e'). Inr (xs @ ys, e')) else Inr (xs, e))"
      using agrees_bind [OF d, of watched "\<lambda>(ys, e'). Inr (xs @ ys, e')" "\<lambda>(ys, e'). Inr (kept xs @ ys, e')"]
      by (auto simp: agrees_Inr)
  qed
next
  case (Function_Call c)
  have "agrees watched (meaning w caught stack c) (documented w stack c)"
    using Function_Call.prems by (auto intro: Function_Call.IH)
  then show ?case by (auto simp: agrees_Inr intro: agrees_bind)
next
  case (Scoped_Trace t c)
  then show ?case by simp
next
  case (Throw_Check k statement_text fatal file_name line user c)
  have c: "agrees watched (meaning w caught stack c) (documented w stack c)"
    using Throw_Check.prems by (auto intro: Throw_Check.IH)
  show ?case unfolding meaning.simps documented.simps throw_verdict_eq
    by (rule agrees_bind [OF c]) (auto simp: agrees_Inr intro: agrees_told)
next
  case (No_Fatal_Failure statement_text fatal file_name line user c)
  have c: "agrees True (meaning w caught stack c) (documented w stack c)"
    using No_Fatal_Failure.prems by (auto intro: No_Fatal_Failure.IH)
  have seen: "(\<exists>x \<in> set (kept xs). part_type_ok x = kFatalFailure) \<longleftrightarrow> (\<exists>x \<in> set xs. fatally_failed (snd x))" if "untaken xs" for xs
    using untaken_set_kept [OF that] by (auto simp: fatally_failed_def)
  show ?case unfolding meaning.simps documented.simps
    by (rule agrees_bind [OF c]) (auto simp: agrees_Inr seen no_fatal_message_def intro: agrees_told)
next
  case (Expect_Failure fatal mode substr c)
  let ?watched = "watched \<or> mode = INTERCEPT_ONLY_CURRENT_THREAD"
  have ord: "orderly True ?watched c" "reports c < 2 ^ 31" "NUL \<notin> set substr" and all: "mode = INTERCEPT_ALL_THREADS \<Longrightarrow> \<not> watched"
    using Expect_Failure.prems by auto
  have facts: "length rs < 2 ^ 31 \<and> (\<forall>r \<in> set rs. part_file_name r \<noteq> []) \<and> filter is_failure rs = rs"
    if "documented w stack c = Inr (rs, e)" for rs e
    using documented_facts [OF ord(1) that] ord(2) by (auto simp del: is_failure.simps simp: filter_id_conv)
  have check: "meaning_of_check w stack ty substr rs =
      bind_res (checked_for w stack ty substr (filter is_failure rs)) (\<lambda>xs. Inr (map (\<lambda>r. (False, r)) xs))"
    if "documented w stack c = Inr (rs, e)" for rs e ty
    using facts [OF that] ord(3) by (simp add: checked_eq)
  show ?case
  proof (cases mode)
    case INTERCEPT_ONLY_CURRENT_THREAD
    have other: "(INTERCEPT_ONLY_CURRENT_THREAD = INTERCEPT_ALL_THREADS) = False" by simp
    have c: "agrees True (meaning w True stack c) (documented w stack c)"
      using ord INTERCEPT_ONLY_CURRENT_THREAD by (auto intro: Expect_Failure.IH)
    show ?thesis unfolding INTERCEPT_ONLY_CURRENT_THREAD meaning.simps documented.simps other if_False
    proof (rule agrees_bind [OF c])
      fix xs e assume "documented w stack c = Inr (kept xs, e)"
      note check = check [OF this]
      show "agrees watched
          (case (xs, e) of (xs, e) \<Rightarrow> bind_res (meaning_of_check w stack (failure_type fatal) substr (kept xs)) (\<lambda>ys. Inr (ys, end_of_checked fatal e)))
          (case (kept xs, e) of (xs, e) \<Rightarrow> bind_res (checked_for w stack (failure_type fatal) substr (filter is_failure xs))
            (\<lambda>ys. Inr (ys, if fatal \<and> e = Left_Function then Completed else e)))"
        by (cases "checked_for w stack (failure_type fatal) substr (filter is_failure (kept xs))")
          (simp_all add: check agrees_Inl agrees_Inr end_of_checked_def)
    qed
  next
    case INTERCEPT_ALL_THREADS
    have w: "\<not> watched" "\<not> caught" using all INTERCEPT_ALL_THREADS Expect_Failure.prems(3) by auto
    have c: "agrees watched (meaning w caught stack c) (documented w stack c)"
      using ord w INTERCEPT_ALL_THREADS by (auto intro: Expect_Failure.IH)
    show ?thesis unfolding INTERCEPT_ALL_THREADS meaning.simps documented.simps simp_thms if_True
    proof (rule agrees_bind [OF c])
      fix xs e assume "documented w stack c = Inr (kept xs, e)"
      note check = check [OF this]
      show "agrees watched
          (case (xs, e) of (xs, e) \<Rightarrow> bind_res (meaning_of_check w stack (failure_type fatal) substr (if caught then [] else kept xs))
            (\<lambda>ys. Inr ((if caught then xs else taken xs) @ ys, end_of_checked fatal e)))
          (case (kept xs, e) of (xs, e) \<Rightarrow> bind_res (checked_for w stack (failure_type fatal) substr (filter is_failure xs))
            (\<lambda>ys. Inr (ys, if fatal \<and> e = Left_Function then Completed else e)))"
        using w by (cases "checked_for w stack (failure_type fatal) substr (filter is_failure (kept xs))")
          (simp_all add: check agrees_Inl agrees_Inr end_of_checked_def)
    qed
  qed
qed (simp_all add: agrees_Inr)

section \<open>Property\<close>

text \<open>
  C35. The checks of failures do what their documentation says. Take any statement of a test, with checks
  of failures (EXPECT_FATAL_FAILURE, EXPECT_NONFATAL_FAILURE, both also for all threads,
  EXPECT_NO_FATAL_FAILURE, EXPECT_THROW and its relatives) nested in each other and in traces, function
  calls and exceptions. Run over the objects that report results, it ends as documented and reports to
  the result of the test and the listeners exactly the documented results, in order: a check takes the
  failures of its statement away and reports one of its own unless they are exactly one, of the
  expected kind, with the expected text in its message. Afterwards every reporter, array and helper
  is as it was. One thread; the statement must be \<open>orderly\<close>, which leaves out five things the code does
  differently: a success inside a check, a check for all threads inside one for the current thread or
  watched for fatal failures, a result without a file name, an expected text with a NUL; and it may
  report less than 2^31 results.
\<close>

theorem checks_as_documented:
  assumes "orderly False False c" and "reports c < 2 ^ 31"
  shows "exec w c (initial_test_state s) =
    Some (bind_res (documented w (unit_trace_stack (run_unit s)) c) (\<lambda>(rs, e).
      Inr (initial_test_state (fold ReportTestPartResult rs s), e)))"
proof -
  have "kept_results (meaning w False (unit_trace_stack (run_unit s)) c) = documented w (unit_trace_stack (run_unit s)) c"
    using meaning_documented [OF assms, of False w "unit_trace_stack (run_unit s)"] by (simp add: agrees_def)
  then show ?thesis unfolding exec_meaning
    by (cases "meaning w False (unit_trace_stack (run_unit s)) c") (auto simp flip: \<open>kept_results _ = _\<close>)
qed

text \<open>A check that is content, and one for all threads that is disappointed, around a check of exceptions.\<close>

definition checking_world :: world where
  "checking_world =
     \<lparr>world_flags = default_flags (\<lambda>_. None), world_env = (\<lambda>_. None), world_can_create = (\<lambda>_. False),
      world_user = (\<lambda>i call. ([], None)), world_time = int, world_test_type_id = 0, world_in_subprocess = False\<rparr>"

definition checking_state :: run_state where
  "checking_state = \<lparr>run_unit = new_UnitTestImpl, run_events = [], run_clock = 0\<rparr>"

definition checking_statement :: test_statement where
  "checking_statement =
     Then (Expect_Failure True INTERCEPT_ONLY_CURRENT_THREAD ''boom'' (Message_At kFatalFailure ''a.cc'' 3 ''Failed'' ''boom''))
       (Expect_Failure False INTERCEPT_ALL_THREADS ''never''
         (Throw_Check TEST_ANY_THROW ''f()'' False ''a.cc'' 4 [] (Throw_Exception (Exception [7] None))))"

theorem checks_as_documented_witness:
  "orderly False False checking_statement \<and> reports checking_statement < 2 ^ 31 \<and>
   (case exec checking_world checking_statement (initial_test_state checking_state) of
      Some (Inr (t, Completed)) \<Rightarrow>
        (case run_events (ts_run t) of
           [OnTestPartResult r] \<Rightarrow>
             t = initial_test_state (ReportTestPartResult r checking_state) \<and>
             part_message r = ''Expected: 1 non-fatal failure'' @ LF # ''  Actual: 0 failures''
         | _ \<Rightarrow> False)
    | _ \<Rightarrow> False)"
proof -
  have o: "orderly False False checking_statement" "reports checking_statement < 2 ^ 31"
    by (simp_all add: checking_statement_def)
  have start: "unit_trace_stack (run_unit checking_state) = []" "run_events checking_state = []"
    by (simp_all add: checking_state_def new_UnitTestImpl_def)
  let ?words = "''Expected: 1 non-fatal failure'' @ LF # ''  Actual: 0 failures''"
  obtain r where r: "documented checking_world [] checking_statement = Inr ([r], Completed)" "part_message r = ?words"
  proof
    show "documented checking_world [] checking_statement = Inr ([told_part [] kNonFatalFailure ''gtest.cc'' 661 ?words], Completed)"
      by code_simp
    show "part_message (told_part [] kNonFatalFailure ''gtest.cc'' 661 ?words) = ?words" by code_simp
  qed
  have run: "exec checking_world checking_statement (initial_test_state checking_state) =
      Some (Inr (initial_test_state (ReportTestPartResult r checking_state), Completed))"
    using checks_as_documented [OF o, of checking_world checking_state] start r(1) by simp
  have "run_events (ts_run (initial_test_state (ReportTestPartResult r checking_state))) = [OnTestPartResult r]"
    using start by (simp add: initial_test_state_def ReportTestPartResult_def notify_def)
  then show ?thesis using o r(2) unfolding run by (simp only: option.case sum.case prod.case statement_end.case list.case event.case simp_thms)
qed

end
