(* ===== verification/Spec2Isabelle.thy ===== *)
theory Spec2Isabelle
  imports Main_Program Controller Http_Plugin Encoding Gtest_Regex Gtest_Float Gtest_Linked_Ptr
    Gtest_Printers Gtest_Pretty Gtest_Death_Verdict Gtest_Param_Tests Gtest_Stream
    Gtest_Checks
begin

text \<open>
  ModServer is a TCP server whose protocols are plugins: shared libraries found in a folder, each
  serving one port. One thread multiplexes all connections with \<open>select\<close>. The repository carries
  one plugin, a small HTTP server. This development models the program from \<open>main\<close> to the bytes on
  a connection, on the UNIX side of its conditional code, and proves what makes it correct and
  where it is not. The repository also carries the sources of the unit-test framework its tests are
  built with (Google Test 1.7, \<open>gtest/\<close>); the part of it that decides which tests run, in which
  order, what the exit code says and what the report holds is modelled as well.

  \<^bold>\<open>How C++ is modelled.\<close> An object is a record of its members, a method a definition under its
  name (with the class in front where two classes share it). An operation that can go wrong has a
  result of type \<open>'a res = cpp_error + 'a\<close>: a failed \<open>assert\<close> (the build keeps them), a null
  pointer or a missing symbol that is called, an index outside an array or a descriptor outside an
  \<open>fd_set\<close>, a deleted session or plugin that is used, an erased end iterator, signed overflow.
  Nothing undefined is given a value: such a step is \<open>Inl\<close> of its error, and that it does not
  happen is a theorem. \<open>int\<close> and port numbers are words of 32 and 16 bits where a conversion or a
  wrap-around can be seen (sizes passed as \<open>int\<close>, \<open>m_maxFd\<close>, descriptors), memory sizes are
  checked 64-bit values, other counters are \<open>int\<close> or \<open>nat\<close>. Text written to the log and system
  calls made are kept as lists in the state. What the kernel, the C library, the allocator, the
  file system, the dynamic linker and the clock answer is an argument (\<open>unix_fs\<close>, \<open>linker\<close>,
  \<open>sys_info\<close>, \<open>init_io\<close>, \<open>round_io\<close>, \<open>http_env\<close>, \<open>world\<close>); what a theorem needs of them is a
  named predicate among its hypotheses (\<open>kernel_ok\<close>, \<open>init_ok\<close>, \<open>displays\<close>, \<open>plugin_serves\<close>,
  \<open>memory_fits\<close>, \<open>plain_kernel\<close>, \<open>parent_system\<close>); each states documented behaviour only, and is shown
  to hold of a concrete platform by a witness.

  \<^bold>\<open>Theories and the code they model.\<close>
  \<^item> \<open>Prelude\<close>: results, C strings, \<open>snprintf\<close>, decimal printing, \<open>size_t\<close> to \<open>int\<close>.
  \<^item> \<open>Logger\<close>: \<open>base/logger.cpp\<close>, \<open>base/os_info_unix.cpp\<close>, \<open>plugin_api/plugin_log.cpp\<close>. Shown: what
    \<open>InitLog\<close> does on each branch, that messages are appended in order, the reported memory.
  \<^item> \<open>Command_Line\<close>: \<open>base/command_line.cpp\<close>. Shown: parsing against printing, the first of
    repeated switches wins, one initialisation per process.
  \<^item> \<open>Encoding\<close>: \<open>base/encoding.cpp\<close>. Shown: exact, and no write outside the buffers.
  \<^item> \<open>Paths\<close>: \<open>base/path.h\<close>, \<open>path_unix.cpp\<close>, the folder functions of \<open>path_win.cpp\<close>. The
    recursion over folders may not end and is a \<open>partial_function\<close>; on a folder tree it is shown to
    return and to be the preorder listing of the tree, on both systems.
  \<^item> \<open>IP_End_Point\<close>, \<open>Sockets\<close>: \<open>server_core/ip_endpoint.cpp\<close>, \<open>socket/socket.cpp\<close>,
    \<open>tcp_socket.cpp\<close>, \<open>tcp_listener.cpp\<close>. Shown: the 20-byte array, validity, what \<open>Bind\<close> tells the
    kernel, one close per descriptor.
  \<^item> \<open>Protocol_Handler\<close>: \<open>plugin_api/data_chunk.h\<close> and \<open>protocol_handler.h\<close>; the locale
    \<open>protocol_handler\<close> is the contract between a session and a handler.
  \<^item> \<open>Http_Request\<close>, \<open>Http_Parser\<close>, \<open>Http_Response\<close>, \<open>Http_Handler\<close>, \<open>Http_Plugin\<close>: the files of
    \<open>server_plugin/http/\<close>. The parser's state machine is one definition per \<open>case\<close>, its loop a
    \<open>partial_function\<close>; shown: when it returns, that it stays inside its text, that it computes a
    reference reading of the text, the round trip with printing. The handler is an interpretation
    of the contract, and the response it leaves is described byte by byte.
  \<^item> \<open>Server_Plugin\<close>, \<open>Plugin_Loader\<close>: \<open>server_plugin/server_plugin.cpp\<close>, \<open>plugin_loader.cpp\<close>,
    \<open>base/dynamic_lib_unix.cpp\<close>. The locales \<open>server_plugin\<close> and \<open>plugin_service\<close> are what the
    server relies on, interpreted on the dynamic plugins. Shown: accepted plugins can be called
    safely, which files become plugins, libraries are closed as often as they are opened.
  \<^item> \<open>Session\<close>, \<open>Server\<close>: \<open>server_core/session.cpp\<close>, \<open>tcp_session.cpp\<close>, \<open>server.cpp\<close>. Sessions are
    objects on a heap with addresses, so that deletion and dangling pointers can be expressed.
  \<^item> \<open>Server_Invariant\<close>, \<open>Server_Run\<close>, \<open>Server_Properties\<close>: the invariant of the server, that every
    operation of a round keeps it, which rounds go wrong (\<open>hazard\<close>) and that no other does, the start
    of the listeners, the loop as a step relation with its reachable states, and the properties of
    the server.
  \<^item> \<open>Main_Program\<close>: \<open>main.cpp\<close>, with the destructor of the server; shown: every outcome of a run.
  \<^item> \<open>Controller\<close>: \<open>server_plugin/controller/\<close>, which is in no build file and names headers that no
    longer exist; it is modelled as it is written.

  \<^bold>\<open>The test framework.\<close> A C string is the list of the characters before its terminator, a pointer
  into one the rest of the list, a \<open>NULL\<close> string \<open>None\<close>; \<open>Int32\<close> and \<open>int\<close> are integers whose range
  is checked or proved, the random state is a \<open>32 word\<close>, \<open>size_t\<close> has 64 bits. A failed
  \<open>GTEST_CHECK_\<close> and \<open>abort\<close> are \<open>AssertionFailure\<close>, \<open>exit\<close> is \<open>ProgramExit\<close>, an exception that
  leaves \<open>main\<close> is \<open>UncaughtException\<close>.
  \<^item> \<open>Gtest_Flags\<close>: the flags, their defaults from the environment, the parsers of the command line
    and the flag saver (\<open>gtest.cc\<close>, \<open>gtest-port.cc\<close>, \<open>gtest-internal-inl.h\<close>). Shown: which
    arguments are removed, that values survive a save and restore, which texts are integers.
  \<^item> \<open>Gtest_Filter\<close>: \<open>UnitTestOptions\<close> and the sharding protocol. Shown: the filter is the glob
    language of its patterns.
  \<^item> \<open>Gtest_Random\<close>: class \<open>Random\<close>, the seeds, shuffling. Shown: shuffling permutes the range.
  \<^item> \<open>Gtest_Result\<close>: \<open>TestPartResult\<close>, \<open>TestProperty\<close>, \<open>TestResult\<close>. Shown: the recorded properties
    refine a finite map.
  \<^item> \<open>Gtest_Unit\<close>, \<open>Gtest_Order\<close>: \<open>TestInfo\<close>, \<open>TestCase\<close> and the registration, filtering and
    shuffling of \<open>UnitTestImpl\<close>; its invariant (the index vectors are permutations, death tests come
    first), that every operation keeps it, and that the shards partition the runnable tests.
  \<^item> \<open>Gtest_Run\<close>, \<open>Gtest_Exit\<close>: the run from \<open>UnitTest::Run\<close> down to \<open>Test::Run\<close>. The user's code, the
    clock, the environment and the files are the record \<open>world\<close>; a call of user code is the list of
    the assertions and properties it records and whether it throws. Shown: the program succeeds only
    if no assertion failed and no call of user code let an exception out. The repetition may be endless and is a
    \<open>partial_function\<close>; its counter is an \<open>int\<close>, so that in the end it overflows.
  \<^item> \<open>Gtest_String\<close>: comparisons of C strings, number formats and UTF-8 (\<open>gtest.cc\<close>). A wide character
    is a \<open>32 word\<close>, the size of \<open>wchar_t\<close> an argument. Shown: what a strict decoder reads back.
  \<^item> \<open>Gtest_Float\<close>: class \<open>FloatingPoint\<close> (\<open>gtest-internal.h\<close>), over words of any size and any number
    of fraction bits. Shown: almost equal means at most four representable numbers apart.
  \<^item> \<open>Gtest_File_Path\<close>: class \<open>FilePath\<close> (\<open>gtest-filepath.cc\<close>) and the name of the report file.
    \<open>stat\<close> and \<open>mkdir\<close> are the record \<open>path_ops\<close>; \<open>plain_kernel\<close> says what POSIX lets them do on a tree
    of folders without links and limits (\<open>mkdir\<close> of a path that ends in a dot fails, and so does any
    call on the empty path). Making the folders of a path may not end and is a \<open>partial_function\<close>.
  \<^item> \<open>Gtest_Xml\<close>, \<open>Gtest_Report\<close>: the XML report (\<open>XmlUnitTestResultPrinter\<close> in \<open>gtest.cc\<close>), byte for
    byte, with the six digits in which a stream prints a \<open>double\<close>. Shown: the report is in a grammar
    of XML and denotes the tree of the recorded results, with the ASCII part of every text
    (\<open>valid_text\<close>): the code drops the bytes of all other characters.
  \<^item> \<open>Gtest_Linked_Ptr\<close>: class \<open>linked_ptr\<close> (\<open>gtest-linked_ptr.h\<close>), the circle of the pointers to one
    object as a map from addresses to addresses. Shown: it refines shared ownership.
  \<^item> \<open>Gtest_Printers\<close>: universal printing (\<open>gtest-printers.cc\<close>, \<open>gtest-printers.h\<close>). A value is a term of
    the datatype \<open>cpp_value\<close>, with a constructor for each printer that overload resolution can choose.
    Shown: no read outside a value, and printed strings read back as literals.
  \<^item> \<open>Gtest_Listener\<close>, \<open>Gtest_Pretty\<close>: the lists of listeners and what the default one prints for each
    event (\<open>gtest.cc\<close>). Shown: the sequence of events is in the protocol of the interface, and the
    summary names the failed tests of any iteration, shuffled or not (\<open>iteration_state\<close>).
  \<^item> \<open>Gtest_Death\<close>, \<open>Gtest_Death_Verdict\<close>: death tests (\<open>gtest-death-test.cc\<close>) on Linux, in both styles. A
    process is a state with the calls it made; the system answers depending on them (\<open>system\<close>), and
    the retry loops, which a system may interrupt forever, are \<open>partial_function\<close>s. Parent and child run
    the same code with different answers of \<open>fork\<close> and \<open>clone\<close>; a child of the style threadsafe is a new
    run of the program (\<open>reruns\<close>). What the child wrote, its status and its output are what
    \<open>parent_system\<close> lets the parent see.
  \<^item> \<open>Gtest_Param\<close>, \<open>Gtest_Combine\<close>: the generators of parameters (\<open>gtest-param-util.h\<close>,
    \<open>gtest-param-util-generated.h\<close>, \<open>gtest-param-test.h\<close>). The virtual functions of a generator and its
    iterators are a record; the locale \<open>param_sequence\<close> is what they promise, and the products of two
    and three keep the promise when their components do (\<open>sublocale\<close>). Shown: loops over generators are
    folds, \<open>Combine\<close> is the Cartesian product, where \<open>Range\<close> over \<open>int\<close> is defined. The loop over a
    generator is a \<open>partial_function\<close>; the count of a range is an \<open>int\<close>, so it overflows when it would
    not end.
  \<^item> \<open>Gtest_Param_Registry\<close>, \<open>Gtest_Param_Tests\<close>: how \<open>TEST_P\<close> and \<open>INSTANTIATE_TEST_CASE_P\<close> become
    tests. Shown: each test is registered once for each instantiation and each value, whatever the
    order of the declarations.
  \<^item> \<open>Gtest_Stream\<close>: the listener that streams the results to a server (\<open>gtest-internal-inl.h\<close>,
    \<open>gtest.cc\<close>). Shown: a reader gets exactly the events with their data, and descriptors are closed
    once; without a connection the constructor aborts.
  \<^item> \<open>Gtest_Assert\<close>: the verdicts and messages of assertions (\<open>gtest.cc\<close>, \<open>gtest.h\<close>,
    \<open>gtest_pred_impl.h\<close>). Shown: the message of a failed string comparison tells both operands.
  \<^item> \<open>Gtest_Reporters\<close>, \<open>Gtest_Failures\<close>, \<open>Gtest_Checks\<close>: how a result reaches the test, and the checks of the
    failures of a statement (\<open>gtest-spi.h\<close>, \<open>gtest-internal.h\<close>, \<open>gtest-test-part.cc\<close>). The reporters are
    objects at addresses. They implement a compositional meaning of statements that knows no objects, and
    on \<open>orderly\<close> statements that is what the documentation says (\<open>documented\<close>).
  \<^item> \<open>Gtest_Regex\<close>: the simple regular expressions of \<open>gtest-port.cc\<close>. Shown: what the check of a
    pattern accepts, and the matcher against the language of a syntax tree.

  \<^bold>\<open>How the parts interact.\<close> \<open>main\<close> reads the command line, opens the log and lets the server load
  its plugins and run. \<open>InitPlugins\<close> registers one acceptor session per plugin that listens. In
  each round the server asks every session whether it can read or has data to send, gives the
  sets to \<open>select\<close>, and calls \<open>OnRead\<close> and \<open>OnWrite\<close> of the selected ones. An acceptor's \<open>OnRead\<close>
  asks its plugin for a handler and registers a connection session; a connection's \<open>OnRead\<close> fills
  a chunk and passes it to its handler, its \<open>OnWrite\<close> sends what the handler has and reports back
  how much was taken; a session whose call returns less than 1 is removed and deleted.

  \<^bold>\<open>Bounds.\<close> The server has two weak points, and the theorems say exactly when they are met: a round
  has a \<open>hazard\<close> when a \<open>recv\<close> fills its chunk of 2048 bytes or an \<open>accept\<close> fails, and such a round
  leaves the bounds of an array. Besides, sessions must stay few enough for every descriptor to fit
  an \<open>fd_set\<close>: a round adds at most one connection per acceptor, so \<open>length (m_sessions S) +
  card (acceptors S) \<le> max_open\<close> with \<open>max_open = 1000\<close> leaves room below the 1024 places, and over \<open>k\<close>
  rounds with \<open>n\<close> plugins \<open>n + k * n \<le> max_open\<close> is enough. The server checks none of this. Responses are
  shorter than 2 GiB, the
  range of the \<open>int\<close> their size is passed in. There is no fuel: the endless loop of \<open>Run\<close> is observed
  over an arbitrary list of rounds, and the result says whether it is still running.

  \<^bold>\<open>Not modelled.\<close> The unit tests; of Google Test type-parameterized tests, the products of
  more than three generators, the tuple implementation, threads, the generated headers and the duplicate of all files in
  \<open>fused-src\<close>, and user code that changes flags or registers tests while the tests run; macros; \<open>socket_win.cpp\<close>,
  \<open>dynamic_lib_win.cpp\<close>, \<open>os_info_win.cpp\<close> and the other branches for Windows, which are single
  library calls; the release of memory (chunks, handlers, the unused \<open>m_next\<close> of a chunk), apart
  from the deletion of sessions and plugins and the null check of the handler pointer.
\<close>

section \<open>Properties that span components\<close>

text \<open>
  C5. An exchange over one connection, with the handler of the HTTP plugin, the data chunk, the
  session and the socket together: whatever bytes of a request (fewer than fill a chunk) arrive
  on an idle connection, and in whatever pieces the kernel then accepts the answer, the peer gets
  exactly the bytes of the response with the page, in order, once, and the connection is idle
  again, ready for the next request.
\<close>

theorem http_exchange:
  assumes "http_inv h" and "http_pending h = []" and "b \<noteq> []" and "length b < m_bufSize"
    and "length (page_to_send e) < 2 ^ 29" and "\<forall>k \<in> set ks. 0 < k"
    and "length (ok_response (page_to_send e)) \<le> sum_list ks"
  shows "\<exists>h1 l calls h2. Connection_OnRead (http_vt e) raw (Some b) s (Some h) =
      Inr (int (length b), Some h1, l, calls) \<and>
    keep_sending (http_vt e') s (Some h1) (map Some ks) = Inr (ok_response (page_to_send e), Some h2) \<and>
    http_inv h2 \<and> http_pending h2 = []"
proof -
  from protocol_handler.reads [OF http_contract assms(1-4), of e raw s] obtain h1 l c where
    r: "Connection_OnRead (http_vt e) raw (Some b) s (Some h) =
      Inr (int (length b), Some h1, l, [SysRecv (m_socket s) (int m_bufSize)])" "http_inv h1"
      "DidReceive (http_vt e) h c (int (length b)) = Inr (h1, l)" "take (length b) (m_buffer c) = b"
      "length (m_buffer c) = m_bufSize" by blast
  have n: "0 < length b" "length b \<le> length (m_buffer c)" using assms(3,4) r(5) by simp_all
  have p: "http_pending h1 = ok_response (page_to_send e)"
    using r(3,5) http_did_receive [OF assms(1) n, of e]
    by (auto simp: http_vt_def m_bufSize_def http_pending_def fill_response_eq ok_response_def)
  have small: "length (http_pending h1) < 2 ^ 31"
    using http_fits [OF assms(5)] assms(1,2) n r(3,5) unfolding responses_fit_def by blast
  from protocol_handler.sends_prefix [OF http_contract r(2) small assms(6), of e' s] obtain w h2 where
    "keep_sending (http_vt e') s (Some h1) (map Some ks) = Inr (w, Some h2)" "http_inv h2"
    "w @ http_pending h2 = http_pending h1" "length (http_pending h1) \<le> sum_list ks \<longrightarrow> http_pending h2 = []"
    by blast
  with r(1) p assms(7) show ?thesis by auto
qed

theorem http_exchange_witness:
  "\<exists>h1 l calls h2. Connection_OnRead (http_vt sample_env) (\<lambda>_. NUL) (Some ''GET'') (TcpSocket 4) (Some HttpHandler) =
      Inr (3, Some h1, l, calls) \<and>
    keep_sending (http_vt sample_env) (TcpSocket 4) (Some h1) [Some 7, Some 1000] =
      Inr (ok_response ''hello'', Some h2) \<and> http_pending h2 = []"
proof -
  have page: "page_to_send sample_env = ''hello''" by (simp add: page_to_send_def sample_env_def)
  have "length (ok_response ''hello'') \<le> 1007" by code_simp
  then show ?thesis
    using http_exchange [of HttpHandler "''GET''" sample_env "[7, 1000]" "\<lambda>_. NUL" "TcpSocket 4" sample_env]
      running_idle by (auto simp: page m_bufSize_def simp del: keep_sending.simps)
qed

end
